(* ===== verification/Gt_Base.thy ===== *)
theory Gt_Base imports Main "HOL-Library.Word" "HOL-Library.Char_ord" "HOL-Library.List_Lexorder" "HOL-Library.AList" begin

text \<open>
  Prelude of the development.  It fixes how the Go code of the repository is read:

  \<^item> a call that may panic, or that returns \<open>(x, ok bool)\<close>, is a value of \<open>'a res\<close>:
    \<open>Ok x\<close> for \<open>(x, true)\<close>, \<open>Fail\<close> for \<open>(_, false)\<close>, \<open>Panic\<close> for a run-time
    panic (an index or a slice out of range) and \<open>Fuel\<close> for a recursion bound of the model that
    was too small (every use comes with a lemma that it never happens);
  \<^item> \<open>[]byte\<close> is \<open>byte list\<close>, \<open>string\<close> is a list of 8-bit characters, \<open>b[i]\<close> and
    \<open>b[i:j]\<close> are \<open>idx\<close> and \<open>slice\<close>, which panic exactly where Go does;
  \<^item> \<open>encoding/binary\<close> reads are \<open>le_word\<close> and \<open>be_word\<close>;
  \<^item> a \<open>map\<close> that is printed or iterated is an association list updated by \<open>AList.update\<close>,
    a \<open>map\<close> that is only looked up is \<open>'k \<rightharpoonup> 'v\<close>.
\<close>

section \<open>Results of Go calls\<close>

datatype 'a res = Ok 'a | Fail | Panic | Fuel

fun rbind :: "'a res \<Rightarrow> ('a \<Rightarrow> 'b res) \<Rightarrow> 'b res" where
  "rbind (Ok x) f = f x"
| "rbind Fail f = Fail"
| "rbind Panic f = Panic"
| "rbind Fuel f = Fuel"

named_theorems go_simps \<open>unfolding rules for the Go primitives\<close>

lemma rbind_cong [fundef_cong]:
  "m = m' \<Longrightarrow> (\<And>x. m' = Ok x \<Longrightarrow> f x = g x) \<Longrightarrow> rbind m f = rbind m' g"
  by (cases m') auto

lemma rbind_Ok_iff: "rbind m f = Ok y \<longleftrightarrow> (\<exists>x. m = Ok x \<and> f x = Ok y)"
  by (cases m) auto

lemma rbind_OkE: "rbind m f = Ok y \<Longrightarrow> (\<And>x. m = Ok x \<Longrightarrow> f x = Ok y \<Longrightarrow> P) \<Longrightarrow> P"
  by (cases m) auto

lemma rbind_Panic_iff: "rbind m f = Panic \<longleftrightarrow> m = Panic \<or> (\<exists>x. m = Ok x \<and> f x = Panic)"
  by (cases m) auto

lemma rbind_Fuel_iff: "rbind m f = Fuel \<longleftrightarrow> m = Fuel \<or> (\<exists>x. m = Ok x \<and> f x = Fuel)"
  by (cases m) auto

lemma rbind_Fail_iff: "rbind m f = Fail \<longleftrightarrow> m = Fail \<or> (\<exists>x. m = Ok x \<and> f x = Fail)"
  by (cases m) auto

lemmas rbind_iffs = rbind_Ok_iff rbind_Panic_iff rbind_Fuel_iff rbind_Fail_iff

section \<open>Bytes, slices and fixed-width integers\<close>

type_synonym byte = "8 word"

definition idx :: "'a list \<Rightarrow> nat \<Rightarrow> 'a res" where
  "idx b i = (if i < length b then Ok (b ! i) else Panic)"

definition slice :: "'a list \<Rightarrow> nat \<Rightarrow> nat \<Rightarrow> 'a list res" where
  "slice b i j = (if i \<le> j \<and> j \<le> length b then Ok (take (j - i) (drop i b)) else Panic)"

definition slice_from :: "'a list \<Rightarrow> nat \<Rightarrow> 'a list res" where
  "slice_from b i = (if i \<le> length b then Ok (drop i b) else Panic)"

fun le_val :: "byte list \<Rightarrow> nat" where
  "le_val [] = 0"
| "le_val (b # bs) = unat b + 256 * le_val bs"

definition be_val :: "byte list \<Rightarrow> nat" where
  "be_val bs = le_val (rev bs)"

definition le_word :: "nat \<Rightarrow> byte list \<Rightarrow> ('a::len) word res" where
  "le_word k b = (if k \<le> length b then Ok (of_nat (le_val (take k b))) else Panic)"

definition be_word :: "nat \<Rightarrow> byte list \<Rightarrow> ('a::len) word res" where
  "be_word k b = (if k \<le> length b then Ok (of_nat (be_val (take k b))) else Panic)"

fun le_bytes :: "nat \<Rightarrow> nat \<Rightarrow> byte list" where
  "le_bytes 0 x = []"
| "le_bytes (Suc k) x = of_nat (x mod 256) # le_bytes k (x div 256)"

definition be_bytes :: "nat \<Rightarrow> nat \<Rightarrow> byte list" where
  "be_bytes k x = rev (le_bytes k x)"

lemma length_le_bytes [simp]: "length (le_bytes k x) = k"
  by (induction k arbitrary: x) auto

lemma length_be_bytes [simp]: "length (be_bytes k x) = k"
  by (simp add: be_bytes_def)

lemma unat_byte_mod [simp]: "unat (of_nat (x mod 256) :: byte) = x mod 256"
  by (simp add: unat_of_nat)

lemma le_val_le_bytes: "le_val (le_bytes k x) = x mod 256 ^ k"
proof (induction k arbitrary: x)
  case 0
  then show ?case by simp
next
  case (Suc k)
  have "x mod 256 ^ Suc k = x mod 256 + 256 * (x div 256 mod 256 ^ k)"
    by (simp add: mod_mult2_eq mult.commute)
  with Suc show ?case by simp
qed

lemma le_bytes_val: "le_bytes (length bs) (le_val bs) = bs"
proof (induction bs)
  case Nil
  then show ?case by simp
next
  case (Cons b bs)
  have "unat b < 256"
    using unsigned_less [where ?w = b] by simp
  then have "(unat b + 256 * le_val bs) mod 256 = unat b" "(unat b + 256 * le_val bs) div 256 = le_val bs"
    by auto
  with Cons show ?case by simp
qed

lemma be_val_be_bytes: "be_val (be_bytes k x) = x mod 256 ^ k"
  by (simp add: be_val_def be_bytes_def le_val_le_bytes)

lemma le_val_less: "le_val bs < 256 ^ length bs"
proof (induction bs)
  case Nil
  then show ?case by simp
next
  case (Cons b bs)
  have "unat b < 256"
    using unsigned_less [where ?w = b] by simp
  with Cons show ?case by simp
qed

lemma be_val_less: "be_val bs < 256 ^ length bs"
  using le_val_less [of "rev bs"] by (simp add: be_val_def)

lemma le_word_ok: "k \<le> length b \<Longrightarrow> le_word k b = Ok (of_nat (le_val (take k b)))"
  by (simp add: le_word_def)

lemma le_word_bytes:
  assumes "LENGTH('a::len) = 8 * k"
  shows "le_word k (le_bytes k (unat (w :: 'a word)) @ bs) = Ok w"
proof -
  have "unat w < 256 ^ k"
    using unsigned_less [where ?w = w] assms by (simp add: power_mult)
  then show ?thesis
    by (simp add: le_word_def le_val_le_bytes)
qed

unbundle bit_operations_syntax

lemma unat_and_mask: "unat (x AND mask n) = unat (x :: 'a::len word) mod 2 ^ n"
  by (simp only: take_bit_eq_mask [symmetric] unsigned_take_bit_eq) (simp only: take_bit_eq_mod)

lemma and_exp_iff: "x AND push_bit n 1 = 0 \<longleftrightarrow> even (unat (x :: 'a::len word) div 2 ^ n)"
proof -
  have "x AND push_bit n 1 = 0 \<longleftrightarrow> \<not> bit x n"
    using and_exp_eq_0_iff_not_bit [of x n] by (simp add: push_bit_eq_mult)
  also have "bit x n \<longleftrightarrow> bit (unat x) n"
    using bit_unsigned_iff [of x n, where ?'a = nat] by simp
  finally show ?thesis by (simp add: bit_iff_odd)
qed

lemma idx_append [simp]: "idx (xs @ y # ys) (length xs) = Ok y"
  by (simp add: idx_def)

lemma idx_not_Fail [simp]: "idx b i \<noteq> Fail" "idx b i \<noteq> Fuel"
  by (simp_all add: idx_def)

lemma slice_not_Fail [simp]: "slice b i j \<noteq> Fail" "slice b i j \<noteq> Fuel"
  by (simp_all add: slice_def)

lemma slice_from_not_Fail [simp]: "slice_from b i \<noteq> Fail" "slice_from b i \<noteq> Fuel"
  by (simp_all add: slice_from_def)

lemma le_word_not_Fail [simp]: "le_word k b \<noteq> Fail" "le_word k b \<noteq> Fuel"
  by (simp_all add: le_word_def)

lemma idx_Ok: "i < length b \<Longrightarrow> idx b i = Ok (b ! i)"
  by (simp add: idx_def)

lemma slice_Ok: "i \<le> j \<Longrightarrow> j \<le> length b \<Longrightarrow> slice b i j = Ok (take (j - i) (drop i b))"
  by (simp add: slice_def)

section \<open>Strings\<close>

definition byte_char :: "byte \<Rightarrow> char" where
  "byte_char b = char_of (unat b)"

definition char_byte :: "char \<Rightarrow> byte" where
  "char_byte c = of_nat (of_char c)"

text \<open>\<open>string(bytes)\<close> and \<open>[]byte(s)\<close>.\<close>

definition str_of :: "byte list \<Rightarrow> string" where
  "str_of bs = map byte_char bs"

definition bytes_of :: "string \<Rightarrow> byte list" where
  "bytes_of s = map char_byte s"

lemma byte_char_byte [simp]: "byte_char (char_byte c) = c"
proof -
  have "(of_char c :: nat) < 256" by (rule nat_of_char_less_256)
  then show ?thesis by (simp add: byte_char_def char_byte_def unat_of_nat)
qed

lemma char_byte_char [simp]: "char_byte (byte_char b) = b"
proof -
  have "unat b < 256" using unsigned_less [where ?w = b] by simp
  then show ?thesis by (simp add: byte_char_def char_byte_def)
qed

lemma str_of_bytes_of [simp]: "str_of (bytes_of s) = s"
  by (simp add: str_of_def bytes_of_def comp_def)

lemma bytes_of_str_of [simp]: "bytes_of (str_of b) = b"
  by (simp add: str_of_def bytes_of_def comp_def)

lemma length_bytes_of [simp]: "length (bytes_of s) = length s"
  by (simp add: bytes_of_def)

lemma length_str_of [simp]: "length (str_of b) = length b"
  by (simp add: str_of_def)

text \<open>Decimal printing: \<open>%d\<close> on a non-negative and on a signed number.\<close>

fun show_nat :: "nat \<Rightarrow> string" where
  "show_nat n = (if n < 10 then [char_of (48 + n)] else show_nat (n div 10) @ [char_of (48 + n mod 10)])"

declare show_nat.simps [simp del]

definition show_int :: "int \<Rightarrow> string" where
  "show_int i = (if i < 0 then CHR ''-'' # show_nat (nat (- i)) else show_nat (nat i))"

text \<open>The value a decimal numeral denotes; it inverts \<open>show_nat\<close>.\<close>

definition digits_val :: "string \<Rightarrow> nat" where
  "digits_val s = foldl (\<lambda>a c. 10 * a + (of_char c - 48)) 0 s"

lemma digits_val_show_nat: "digits_val (show_nat n) = n"
proof (induction n rule: show_nat.induct)
  case (1 n)
  show ?case
  proof (cases "n < 10")
    case True
    then show ?thesis by (subst show_nat.simps) (simp add: digits_val_def)
  next
    case False
    with 1 have "digits_val (show_nat (n div 10)) = n div 10" by simp
    with False show ?thesis by (subst show_nat.simps) (simp add: digits_val_def)
  qed
qed

lemma show_nat_inject [simp]: "show_nat m = show_nat n \<longleftrightarrow> m = n"
  by (metis digits_val_show_nat)

lemma show_nat_not_Nil [simp]: "show_nat n \<noteq> []"
  by (subst show_nat.simps) simp

lemma show_nat_digits: "c \<in> set (show_nat n) \<Longrightarrow> 48 \<le> (of_char c :: nat) \<and> (of_char c :: nat) < 58"
proof (induction n rule: show_nat.induct)
  case (1 n)
  then show ?case
    by (subst (asm) (2) show_nat.simps) (auto split: if_splits)
qed

text \<open>\<open>strings.HasPrefix\<close>, \<open>strings.Contains\<close>, \<open>strings.LastIndex\<close> of one byte, joining.\<close>

fun has_prefix :: "'a list \<Rightarrow> 'a list \<Rightarrow> bool" where
  "has_prefix s [] = True"
| "has_prefix [] (p # ps) = False"
| "has_prefix (c # s) (p # ps) = (c = p \<and> has_prefix s ps)"

fun index_of :: "'a list \<Rightarrow> 'a list \<Rightarrow> nat option" where
  "index_of p [] = (if p = [] then Some 0 else None)"
| "index_of p (c # s) = (if has_prefix (c # s) p then Some 0 else map_option Suc (index_of p s))"

definition contains_str :: "'a list \<Rightarrow> 'a list \<Rightarrow> bool" where
  "contains_str s p = (index_of p s \<noteq> None)"

fun after_last :: "'a \<Rightarrow> 'a list \<Rightarrow> 'a list option" where
  "after_last c [] = None"
| "after_last c (x # xs) =
    (case after_last c xs of Some r \<Rightarrow> Some r | None \<Rightarrow> (if x = c then Some xs else None))"

fun join_with :: "string \<Rightarrow> string list \<Rightarrow> string" where
  "join_with sep [] = []"
| "join_with sep [x] = x"
| "join_with sep (x # y # ys) = x @ sep @ join_with sep (y # ys)"

lemma has_prefix_iff: "has_prefix s p \<longleftrightarrow> (\<exists>r. s = p @ r)"
  by (induction s p rule: has_prefix.induct) auto

lemma has_prefix_length: "has_prefix s p \<Longrightarrow> length p \<le> length s"
  by (auto simp: has_prefix_iff)

lemma has_prefix_append [simp]: "has_prefix (p @ s) p"
  by (simp add: has_prefix_iff)

lemma index_of_Some:
  "index_of p s = Some i \<Longrightarrow> i + length p \<le> length s \<and> has_prefix (drop i s) p"
proof (induction s arbitrary: i)
  case Nil
  then show ?case by (auto split: if_splits)
next
  case (Cons c s)
  then show ?case
    by (auto simp del: has_prefix.simps dest: has_prefix_length split: if_splits)
qed

lemma index_of_least:
  "index_of p s = Some i \<Longrightarrow> j < i \<Longrightarrow> \<not> has_prefix (drop j s) p"
proof (induction s arbitrary: i j)
  case Nil
  then show ?case by (auto split: if_splits)
next
  case (Cons c s)
  then show ?case
    by (cases j) (auto simp del: has_prefix.simps split: if_splits)
qed

end
