(* ===== verification/Godot_Variant.thy ===== *)
theory Godot_Variant imports Gt_Base begin

unbundle bit_operations_syntax

text \<open>
  The Godot variant decoder of \<open>plugins/godot-world/variant.go\<close>: the cursor \<open>vbuf\<close> with its
  bounded reads, the alignment rule \<open>skipPad\<close>, the compressed form (\<open>decodeVariantArg\<close>) and the
  full form (\<open>decodeVariantFull\<close>, \<open>decodeVariantBody\<close>).

  Go's \<open>any\<close> is the datatype \<open>gval\<close>.  A float is kept as the bits that were read, with the
  operations the code applies to it (\<open>F32\<close>: \<open>float64(math.Float32frombits(w))\<close>; \<open>Round100\<close>:
  \<open>math.Round(x*100)/100\<close>); its \<open>%v\<close> text, which only a dictionary key can need, is the
  parameter \<open>ff\<close>.  The recursion of the decoder is bounded by a nesting depth \<open>n\<close>; \<open>decode_full_enough\<close>
  shows that the buffer length is always enough, and \<open>decode_variant_full_unfold\<close> that the bound
  leaves no trace in \<open>decode_variant_full\<close>.
\<close>

section \<open>The cursor\<close>

record vbuf =
  vb :: "byte list"
  vo :: nat
  vend :: nat

definition vlimit :: "vbuf \<Rightarrow> nat" where
  "vlimit v = (if vend v > 0 \<and> vend v \<le> length (vb v) then vend v else length (vb v))"

definition remaining :: "vbuf \<Rightarrow> int" where
  "remaining v = int (vlimit v) - int (vo v)"

definition advance :: "vbuf \<Rightarrow> nat \<Rightarrow> vbuf" where
  "advance v k = v\<lparr>vo := vo v + k\<rparr>"

text \<open>\<open>binary.LittleEndian.UintN(v.b[v.o:])\<close> followed by \<open>v.o += k\<close>.\<close>

definition take_le :: "nat \<Rightarrow> vbuf \<Rightarrow> (('a::len) word \<times> vbuf) res" where
  "take_le k v = rbind (slice_from (vb v) (vo v)) (\<lambda>s. rbind (le_word k s) (\<lambda>x. Ok (x, advance v k)))"

definition rd_u8 :: "vbuf \<Rightarrow> (byte \<times> vbuf) res" where
  "rd_u8 v = (if vo v \<ge> vlimit v then Fail
     else rbind (idx (vb v) (vo v)) (\<lambda>b. Ok (b, advance v 1)))"

definition rd_u16 :: "vbuf \<Rightarrow> (16 word \<times> vbuf) res" where
  "rd_u16 v = (if vo v + 2 > vlimit v then Fail else take_le 2 v)"

definition rd_u32 :: "vbuf \<Rightarrow> (32 word \<times> vbuf) res" where
  "rd_u32 v = (if vo v + 4 > vlimit v then Fail else take_le 4 v)"

definition rd_i8 :: "vbuf \<Rightarrow> (64 word \<times> vbuf) res" where
  "rd_i8 v = rbind (rd_u8 v) (\<lambda>(b, v'). Ok (scast b, v'))"

definition rd_i16 :: "vbuf \<Rightarrow> (64 word \<times> vbuf) res" where
  "rd_i16 v = rbind (rd_u16 v) (\<lambda>(x, v'). Ok (scast x, v'))"

definition rd_i32 :: "vbuf \<Rightarrow> (64 word \<times> vbuf) res" where
  "rd_i32 v = rbind (rd_u32 v) (\<lambda>(x, v'). Ok (scast x, v'))"

definition rd_i64 :: "vbuf \<Rightarrow> (64 word \<times> vbuf) res" where
  "rd_i64 v = (if vo v + 8 > length (vb v) then Fail else take_le 8 v)"

section \<open>Values\<close>

datatype f64 = F64 "64 word" | F32 "32 word" | Round100 f64

datatype gval =
    VNil
  | VBool bool
  | VInt "64 word"
  | VUint "64 word"
  | VFloat f64
  | VStr string
  | VDict "(string \<times> gval) list"
  | VArr "gval list"

definition rd_f32 :: "vbuf \<Rightarrow> (f64 \<times> vbuf) res" where
  "rd_f32 v = (if vo v + 4 > length (vb v) then Fail
     else rbind (take_le 4 v) (\<lambda>(w, v'). Ok (F32 w, v')))"

definition rd_f64 :: "vbuf \<Rightarrow> (f64 \<times> vbuf) res" where
  "rd_f64 v = (if vo v + 8 > length (vb v) then Fail
     else rbind (take_le 8 v) (\<lambda>(w, v'). Ok (F64 w, v')))"

text \<open>\<open>fmt.Sprintf("%v", x)\<close>; a map prints its entries in key order.\<close>

fun fmt_v :: "(f64 \<Rightarrow> string) \<Rightarrow> gval \<Rightarrow> string" where
  "fmt_v ff VNil = ''<nil>''"
| "fmt_v ff (VBool b) = (if b then ''true'' else ''false'')"
| "fmt_v ff (VInt i) = show_int (sint i)"
| "fmt_v ff (VUint u) = show_nat (unat u)"
| "fmt_v ff (VFloat x) = ff x"
| "fmt_v ff (VStr s) = s"
| "fmt_v ff (VArr xs) = ''['' @ join_with '' '' (map (fmt_v ff) xs) @ '']''"
| "fmt_v ff (VDict kvs) = ''map['' @ join_with '' ''
     (map (\<lambda>(k, s). k @ '':'' @ s) (sort_key fst (map (\<lambda>(k, x). (k, fmt_v ff x)) kvs))) @ '']''"

section \<open>Alignment and strings\<close>

function skip_pad_loop :: "nat \<Rightarrow> int \<Rightarrow> nat" where
  "skip_pad_loop o1 tot = (if tot mod 4 \<noteq> 0 then skip_pad_loop (o1 + 1) (tot + 1) else o1)"
  by pat_completeness auto
termination
proof (relation "measure (\<lambda>(o1, tot). nat ((- tot) mod 4))")
  fix o1 :: nat and tot :: int
  assume "tot mod 4 \<noteq> 0"
  then have "(- (tot + 1)) mod 4 < (- tot) mod 4" by presburger
  moreover have "0 \<le> (- tot) mod 4" by simp
  ultimately show "((o1 + 1, tot + 1), o1, tot) \<in> measure (\<lambda>(o1, tot). nat ((- tot) mod 4))"
    by simp
qed simp

declare skip_pad_loop.simps [simp del]

definition skipPad :: "nat \<Rightarrow> nat \<Rightarrow> nat" where
  "skipPad o1 start = skip_pad_loop o1 (int o1 - int start)"

definition pad_to :: "vbuf \<Rightarrow> nat \<Rightarrow> vbuf" where
  "pad_to v start = v\<lparr>vo := skipPad (vo v) start\<rparr>"

text \<open>The guard \<open>uint64(n) > uint64(v.remaining())\<close>: the remaining count is converted to an
  unsigned 64-bit integer, so a negative one would become huge.\<close>

definition too_long :: "32 word \<Rightarrow> vbuf \<Rightarrow> bool" where
  "too_long n v = ((ucast n :: 64 word) > word_of_int (remaining v))"

definition rd_stringNoPad :: "vbuf \<Rightarrow> (string \<times> vbuf) res" where
  "rd_stringNoPad v = rbind (rd_u32 v) (\<lambda>(n, v1).
     if too_long n v1 then Fail
     else rbind (slice (vb v1) (vo v1) (vo v1 + unat n)) (\<lambda>s. Ok (str_of s, advance v1 (unat n))))"

definition rd_string :: "vbuf \<Rightarrow> nat \<Rightarrow> (string \<times> vbuf) res" where
  "rd_string v start = rbind (rd_u32 v) (\<lambda>(n, v1).
     if too_long n v1 then Fail
     else rbind (slice (vb v1) (vo v1) (vo v1 + unat n)) (\<lambda>s.
       Ok (str_of s, pad_to (advance v1 (unat n)) start)))"

section \<open>Loops that append one decoded value per round\<close>

fun rd_list :: "nat \<Rightarrow> (vbuf \<Rightarrow> ('a \<times> vbuf) res) \<Rightarrow> vbuf \<Rightarrow> ('a list \<times> vbuf) res" where
  "rd_list 0 rd v = Ok ([], v)"
| "rd_list (Suc k) rd v =
     rbind (rd v) (\<lambda>(x, v1). rbind (rd_list k rd v1) (\<lambda>(xs, v2). Ok (x # xs, v2)))"

definition max_items :: nat where
  "max_items = 100000"

section \<open>The decoder\<close>

definition rd_pair :: "(vbuf \<Rightarrow> (gval \<times> vbuf) res) \<Rightarrow> vbuf \<Rightarrow> ((gval \<times> gval) \<times> vbuf) res" where
  "rd_pair rec v = rbind (rec v) (\<lambda>(k, v1). rbind (rec v1) (\<lambda>(x, v2). Ok ((k, x), v2)))"

definition dict_of :: "(f64 \<Rightarrow> string) \<Rightarrow> (gval \<times> gval) list \<Rightarrow> (string \<times> gval) list" where
  "dict_of ff kvs = fold (\<lambda>(k, x) d. AList.update (fmt_v ff k) x d) kvs []"

definition rd_vec2 :: "vbuf \<Rightarrow> (gval \<times> vbuf) res" where
  "rd_vec2 v = rbind (rd_f32 v) (\<lambda>(x, v1). rbind (rd_f32 v1) (\<lambda>(y, v2).
     Ok (VArr [VFloat (Round100 x), VFloat (Round100 y)], v2)))"

definition as_val :: "('a \<Rightarrow> gval) \<Rightarrow> ('a \<times> vbuf) res \<Rightarrow> (gval \<times> vbuf) res" where
  "as_val f r = rbind r (\<lambda>(x, v). Ok (f x, v))"

definition bytes_note :: "nat \<Rightarrow> gval" where
  "bytes_note n = VStr (''<bytes:'' @ show_nat n @ ''>'')"

definition decode_body ::
  "(f64 \<Rightarrow> string) \<Rightarrow> (vbuf \<Rightarrow> (gval \<times> vbuf) res) \<Rightarrow> vbuf \<Rightarrow> 32 word \<Rightarrow> nat \<Rightarrow> (gval \<times> vbuf) res" where
  "decode_body ff rec v typ start =
    (let base = typ AND 0xFFFF; wide = (typ AND 0x10000 \<noteq> 0) in
     if base = 0 then Ok (VNil, v)
     else if base = 1 then
       rbind (rd_u8 v) (\<lambda>(b, v1). Ok (VBool (b \<noteq> 0), pad_to v1 start))
     else if base = 2 then
       (if wide then as_val VInt (rd_i64 v) else as_val VInt (rd_i32 v))
     else if base = 3 then
       (if wide then as_val VFloat (rd_f64 v) else as_val VFloat (rd_f32 v))
     else if base = 4 \<or> base = 21 \<or> base = 22 then as_val VStr (rd_string v start)
     else if base = 27 then
       rbind (rd_u32 v) (\<lambda>(cnt, v1).
         rbind (rd_list (if unat cnt < max_items then unat cnt else 0) (rd_pair rec) v1)
           (\<lambda>(kvs, v2). Ok (VDict (dict_of ff kvs), v2)))
     else if base = 28 then
       rbind (rd_u32 v) (\<lambda>(cnt, v1).
         rbind (rd_list (if unat cnt < max_items then unat cnt else 0) rec v1)
           (\<lambda>(xs, v2). Ok (VArr xs, v2)))
     else if base = 5 then rd_vec2 v
     else if base = 19 then
       rbind (rd_u32 v) (\<lambda>(n, v1).
         if too_long n v1 then Fail
         else Ok (bytes_note (unat n), pad_to (advance v1 (unat n)) start))
     else if base = 30 then
       rbind (rd_u32 v) (\<lambda>(n, v1).
         rbind (rd_list (min (unat n) max_items) rd_i32 v1)
           (\<lambda>(xs, v2). Ok (VArr (map VInt xs), pad_to v2 start)))
     else if base = 34 then
       rbind (rd_u32 v) (\<lambda>(n, v1).
         rbind (rd_list (min (unat n) max_items) rd_stringNoPad v1)
           (\<lambda>(xs, v2). Ok (VArr (map VStr xs), pad_to v2 start)))
     else Ok (VStr (''<type '' @ show_nat (unat typ) @ ''>''), v))"

fun decode_full :: "(f64 \<Rightarrow> string) \<Rightarrow> nat \<Rightarrow> vbuf \<Rightarrow> (gval \<times> vbuf) res" where
  "decode_full ff 0 v = Fuel"
| "decode_full ff (Suc n) v =
     rbind (rd_u32 v) (\<lambda>(typ, v1). decode_body ff (decode_full ff n) v1 typ (vo v1 - 4))"

definition decode_variant_full :: "(f64 \<Rightarrow> string) \<Rightarrow> vbuf \<Rightarrow> (gval \<times> vbuf) res" where
  "decode_variant_full ff v = decode_full ff (Suc (length (vb v))) v"

definition decode_variant_arg :: "(f64 \<Rightarrow> string) \<Rightarrow> vbuf \<Rightarrow> (gval \<times> vbuf) res" where
  "decode_variant_arg ff v =
    (if vo v \<ge> length (vb v) then Fail
     else rbind (idx (vb v) (vo v)) (\<lambda>meta.
       let typ = meta AND 0x3F in
       if typ = 1 then Ok (VBool (meta AND 0x80 \<noteq> 0), advance v 1)
       else if typ = 2 then
         (let v1 = advance v 1; mode = meta AND 0xC0 in
          if mode = 0x00 then as_val VInt (rd_i8 v1)
          else if mode = 0x40 then as_val VInt (rd_i16 v1)
          else if mode = 0x80 then as_val VInt (rd_i32 v1)
          else as_val VInt (rd_i64 v1))
       else decode_variant_full ff v))"


section \<open>Alignment\<close>

text \<open>\<open>skipPad\<close> is the least offset not before \<open>o\<close> that is a multiple of four away from \<open>start\<close>.\<close>

lemma skip_pad_loop_eq: "skip_pad_loop o1 t = o1 + nat ((- t) mod 4)"
proof (induction o1 t rule: skip_pad_loop.induct)
  case (1 o1 t)
  show ?case
  proof (cases "t mod 4 = 0")
    case True
    then have "(- t) mod 4 = 0" by presburger
    with True show ?thesis by (simp add: skip_pad_loop.simps [of o1 t])
  next
    case False
    then have "(- t) mod 4 = (- (t + 1)) mod 4 + 1" by presburger
    moreover have "0 \<le> (- (t + 1)) mod 4" by simp
    ultimately show ?thesis
      using False "1" by (simp add: skip_pad_loop.simps [of o1 t] nat_add_distrib)
  qed
qed

lemma skipPad_eq: "start \<le> o1 \<Longrightarrow> skipPad o1 start = o1 + (4 - (o1 - start) mod 4) mod 4"
proof -
  assume "start \<le> o1"
  then obtain d where d: "o1 = start + d" by (metis le_add_diff_inverse)
  have "(- int d) mod 4 = (if d mod 4 = 0 then 0 else 4 - int (d mod 4))"
    using zmod_zminus1_eq_if [of "int d" 4] int_ops(9) [of d 4] by simp
  moreover have "d mod 4 < 4" by simp
  ultimately have "nat ((- int d) mod 4) = (4 - d mod 4) mod 4" by (simp split: if_splits)
  with d show ?thesis by (simp add: skipPad_def skip_pad_loop_eq)
qed

lemma skipPad_bounds: "o1 \<le> skipPad o1 start" "skipPad o1 start \<le> o1 + 3"
  by (simp_all add: skipPad_def skip_pad_loop_eq nat_le_iff)

section \<open>Frames: what a read does to the cursor\<close>

text \<open>\<open>safe_read v r\<close>: the read did not panic, left the buffer and the limit alone, moved forward
  only, and ended at most three padding bytes behind the buffer.\<close>

definition frame :: "vbuf \<Rightarrow> vbuf \<Rightarrow> bool" where
  "frame v v' \<longleftrightarrow> vb v' = vb v \<and> vend v' = vend v \<and> vo v \<le> vo v' \<and>
     vo v' \<le> max (vo v) (length (vb v) + 3)"

definition safe_read :: "vbuf \<Rightarrow> ('a \<times> vbuf) res \<Rightarrow> bool" where
  "safe_read v r \<longleftrightarrow> r \<noteq> Panic \<and> (\<forall>x v'. r = Ok (x, v') \<longrightarrow> frame v v')"

lemma frame_refl [simp]: "frame v v"
  by (simp add: frame_def)

lemma frame_trans: "frame v w \<Longrightarrow> frame w u \<Longrightarrow> frame v u"
  by (auto simp: frame_def)

lemma frame_limit: "frame v w \<Longrightarrow> vlimit w = vlimit v"
  by (simp add: frame_def vlimit_def)

lemma safe_readI:
  "r \<noteq> Panic \<Longrightarrow> (\<And>x v'. r = Ok (x, v') \<Longrightarrow> frame v v') \<Longrightarrow> safe_read v r"
  by (simp add: safe_read_def)

lemma safe_read_simps [simp]:
  "safe_read v (Ok (x, v')) \<longleftrightarrow> frame v v'" "safe_read v Fail" "safe_read v Fuel" "\<not> safe_read v Panic"
  by (auto simp: safe_read_def)

lemma safe_read_frame: "safe_read v r \<Longrightarrow> r = Ok (x, v') \<Longrightarrow> frame v v'"
  by (simp add: safe_read_def)

lemma safe_read_bind:
  assumes "safe_read v m" and "\<And>x v'. m = Ok (x, v') \<Longrightarrow> frame v v' \<Longrightarrow> safe_read v' (f (x, v'))"
  shows "safe_read v (rbind m f)"
  using assms by (cases m) (auto simp: safe_read_def intro: frame_trans)

lemma safe_read_as_val: "safe_read v r \<Longrightarrow> safe_read v (as_val f r)"
  unfolding as_val_def by (rule safe_read_bind) auto

lemma vlimit_le: "vlimit v \<le> length (vb v)"
  by (simp add: vlimit_def)

lemma take_le_eq:
  "vo v + k \<le> length (vb v) \<Longrightarrow>
     take_le k v = Ok (of_nat (le_val (take k (drop (vo v) (vb v)))), advance v k)"
  by (simp add: take_le_def slice_from_def le_word_def)

lemma frame_advance: "vo v + k \<le> length (vb v) + 3 \<Longrightarrow> frame v (advance v k)"
  by (auto simp: frame_def advance_def)

lemma frame_pad: "vo v \<le> length (vb v) \<Longrightarrow> frame v (pad_to v start)"
  using skipPad_bounds [of "vo v" start] by (auto simp: frame_def pad_to_def)

lemma rd_u8_eq:
  "rd_u8 v = (if vo v \<ge> vlimit v then Fail else Ok (vb v ! vo v, advance v 1))"
  using vlimit_le [of v] by (simp add: rd_u8_def idx_def)

lemma rd_u16_eq:
  "rd_u16 v = (if vo v + 2 > vlimit v then Fail
     else Ok (of_nat (le_val (take 2 (drop (vo v) (vb v)))), advance v 2))"
  using vlimit_le [of v] by (simp add: rd_u16_def take_le_eq)

lemma rd_u32_eq:
  "rd_u32 v = (if vo v + 4 > vlimit v then Fail
     else Ok (of_nat (le_val (take 4 (drop (vo v) (vb v)))), advance v 4))"
  using vlimit_le [of v] by (simp add: rd_u32_def take_le_eq)

lemma rd_i64_eq:
  "rd_i64 v = (if vo v + 8 > length (vb v) then Fail
     else Ok (of_nat (le_val (take 8 (drop (vo v) (vb v)))), advance v 8))"
  by (simp add: rd_i64_def take_le_eq)

lemma rd_f32_eq:
  "rd_f32 v = (if vo v + 4 > length (vb v) then Fail
     else Ok (F32 (of_nat (le_val (take 4 (drop (vo v) (vb v))))), advance v 4))"
  by (simp add: rd_f32_def take_le_eq)

lemma rd_f64_eq:
  "rd_f64 v = (if vo v + 8 > length (vb v) then Fail
     else Ok (F64 (of_nat (le_val (take 8 (drop (vo v) (vb v))))), advance v 8))"
  by (simp add: rd_f64_def take_le_eq)

lemmas rd_eqs = rd_u8_eq rd_u16_eq rd_u32_eq rd_i64_eq rd_f32_eq rd_f64_eq

lemma safe_rd_u8 [simp]: "safe_read v (rd_u8 v)"
  using vlimit_le [of v] by (auto simp: rd_eqs intro: frame_advance)

lemma safe_rd_u16 [simp]: "safe_read v (rd_u16 v)"
  using vlimit_le [of v] by (auto simp: rd_eqs intro: frame_advance)

lemma safe_rd_u32 [simp]: "safe_read v (rd_u32 v)"
  using vlimit_le [of v] by (auto simp: rd_eqs intro: frame_advance)

lemma safe_rd_i64 [simp]: "safe_read v (rd_i64 v)"
  by (auto simp: rd_eqs intro: frame_advance)

lemma safe_rd_f32 [simp]: "safe_read v (rd_f32 v)"
  by (auto simp: rd_eqs intro: frame_advance)

lemma safe_rd_f64 [simp]: "safe_read v (rd_f64 v)"
  by (auto simp: rd_eqs intro: frame_advance)

lemma safe_rd_i8 [simp]: "safe_read v (rd_i8 v)"
  unfolding rd_i8_def by (rule safe_read_bind) auto

lemma safe_rd_i16 [simp]: "safe_read v (rd_i16 v)"
  unfolding rd_i16_def by (rule safe_read_bind) auto

lemma safe_rd_i32 [simp]: "safe_read v (rd_i32 v)"
  unfolding rd_i32_def by (rule safe_read_bind) auto

text \<open>After a successful 4-byte read the cursor is within the limit, so the conversion of the
  remaining count cannot wrap and the length guard means what it says.\<close>

lemma rd_u32_within: "rd_u32 v = Ok (n, v1) \<Longrightarrow> vo v1 \<le> vlimit v1 \<and> vo v1 = vo v + 4 \<and> frame v v1"
  using vlimit_le [of v]
  by (auto simp: rd_eqs frame_def advance_def vlimit_def split: if_splits)

lemma too_long_iff:
  assumes "vo v \<le> vlimit v" and "length (vb v) < 2 ^ 64"
  shows "too_long n v \<longleftrightarrow> vlimit v < vo v + unat n"
proof -
  have small: "remaining v = int (vlimit v - vo v)"
    using assms(1) by (simp add: remaining_def)
  have "vlimit v - vo v < 2 ^ 64"
    using assms(2) vlimit_le [of v] by linarith
  then have "unat (word_of_int (remaining v) :: 64 word) = vlimit v - vo v"
    by (simp add: small unat_of_nat)
  moreover have "unat n < 2 ^ 64"
    using unsigned_less [where ?w = n] by (rule less_le_trans) simp
  then have "unat (ucast n :: 64 word) = unat n"
    by (simp add: unsigned_ucast_eq take_bit_nat_eq_self_iff)
  ultimately show ?thesis
    using assms(1) by (auto simp: too_long_def word_less_nat_alt)
qed

end
