(* ===== verification/Godot_Variant_Safe.thy ===== *)
theory Godot_Variant_Safe imports Godot_Variant begin

unbundle bit_operations_syntax

text \<open>
  Safety of the variant decoder.  The interface \<open>cursor_reader\<close> is what every routine that reads
  from a \<open>vbuf\<close> promises its callers: on a buffer whose length is a Go \<open>int\<close> it does not panic and
  frames the cursor.  Loops over such a reader keep the promise, the primitive reads and the
  decoder itself are instances.  The last section removes the recursion bound.
\<close>

section \<open>The reader interface\<close>

definition go_buf :: "vbuf \<Rightarrow> bool" where
  "go_buf v \<longleftrightarrow> length (vb v) < 2 ^ 63"

lemma go_buf_frame: "frame v w \<Longrightarrow> go_buf w = go_buf v"
  by (simp add: go_buf_def frame_def)

locale cursor_reader =
  fixes rd :: "vbuf \<Rightarrow> ('a \<times> vbuf) res"
  assumes safe: "go_buf v \<Longrightarrow> safe_read v (rd v)"
begin

lemma list_safe: "go_buf v \<Longrightarrow> safe_read v (rd_list k rd v)"
proof (induction k arbitrary: v)
  case 0
  then show ?case by simp
next
  case (Suc k)
  show ?case
    unfolding rd_list.simps
  proof (rule safe_read_bind [OF safe [OF Suc.prems]], clarsimp)
    fix x v1
    assume "frame v v1"
    then have "go_buf v1" using Suc.prems by (simp add: go_buf_frame)
    then show "safe_read v1 (rbind (rd_list k rd v1) (\<lambda>(xs, v2). Ok (x # xs, v2)))"
      by (rule safe_read_bind [OF Suc.IH]) auto
  qed
qed

lemma list_no_fuel:
  assumes "go_buf v" and "\<And>v'. frame v v' \<Longrightarrow> rd v' \<noteq> Fuel"
  shows "rd_list k rd v \<noteq> Fuel"
  using assms
proof (induction k arbitrary: v)
  case 0
  then show ?case by simp
next
  case (Suc k)
  have "rd_list k rd v1 \<noteq> Fuel" if "rd v = Ok (x, v1)" for x v1
  proof (rule Suc.IH)
    have "frame v v1" using safe [OF Suc.prems(1)] that by (simp add: safe_read_def)
    then show "go_buf v1" using Suc.prems(1) by (simp add: go_buf_frame)
    show "rd v' \<noteq> Fuel" if "frame v1 v'" for v'
      using Suc.prems(2) frame_trans [OF \<open>frame v v1\<close> that] .
  qed
  then show ?case
    using Suc.prems(2) [of v] by (auto simp: rbind_Fuel_iff)
qed

lemma list_cong:
  assumes "go_buf v" and "\<And>v'. frame v v' \<Longrightarrow> rd v' = rd' v'"
  shows "rd_list k rd v = rd_list k rd' v"
  using assms
proof (induction k arbitrary: v)
  case 0
  then show ?case by simp
next
  case (Suc k)
  have *: "rd_list k rd v1 = rd_list k rd' v1" if "rd v = Ok (x, v1)" for x v1
  proof (rule Suc.IH)
    have "frame v v1" using safe [OF Suc.prems(1)] that by (simp add: safe_read_def)
    then show "go_buf v1" using Suc.prems(1) by (simp add: go_buf_frame)
    show "rd v' = rd' v'" if "frame v1 v'" for v'
      using Suc.prems(2) [OF frame_trans [OF \<open>frame v v1\<close> that]] .
  qed
  have "rd v = rd' v" using Suc.prems(2) [of v] by simp
  with * show ?case by (auto intro!: rbind_cong)
qed

end

lemma safe_rd_stringNoPad: "go_buf v \<Longrightarrow> safe_read v (rd_stringNoPad v)"
  unfolding rd_stringNoPad_def
proof (rule safe_read_bind [OF safe_rd_u32], clarsimp)
  fix n v1
  assume "go_buf v" and "rd_u32 v = Ok (n, v1)" and "\<not> too_long n v1"
  moreover from this have "vo v1 \<le> vlimit v1" "go_buf v1"
    using rd_u32_within [of v n v1] by (auto simp: go_buf_frame)
  ultimately have "vo v1 + unat n \<le> length (vb v1)"
    using too_long_iff [of v1 n] vlimit_le [of v1] by (simp add: go_buf_def)
  then show "safe_read v1 (rbind (slice (vb v1) (vo v1) (vo v1 + unat n))
      (\<lambda>s. Ok (str_of s, advance v1 (unat n))))"
    by (simp add: slice_def frame_advance)
qed

lemma too_long_within:
  assumes "go_buf v" and "rd_u32 v = Ok (n, v1)" and "\<not> too_long n v1"
  shows "vo v1 + unat n \<le> length (vb v1)" and "vo v1 + unat n \<le> vlimit v1"
proof -
  have "vo v1 \<le> vlimit v1" "go_buf v1"
    using assms rd_u32_within [of v n v1] by (auto simp: go_buf_frame)
  then show "vo v1 + unat n \<le> vlimit v1"
    using too_long_iff [of v1 n] assms(3) by (simp add: go_buf_def)
  with vlimit_le [of v1] show "vo v1 + unat n \<le> length (vb v1)" by linarith
qed

lemma frame_advance_pad:
  "vo v + k \<le> length (vb v) \<Longrightarrow> frame v (pad_to (advance v k) start)"
  by (rule frame_trans [OF frame_advance frame_pad]) (auto simp: advance_def)

lemma safe_rd_string: "go_buf v \<Longrightarrow> safe_read v (rd_string v start)"
  unfolding rd_string_def
proof (rule safe_read_bind [OF safe_rd_u32], clarsimp)
  fix n v1
  assume "go_buf v" and "rd_u32 v = Ok (n, v1)" and "\<not> too_long n v1"
  then have "vo v1 + unat n \<le> length (vb v1)" by (rule too_long_within)
  then show "safe_read v1 (rbind (slice (vb v1) (vo v1) (vo v1 + unat n))
      (\<lambda>s. Ok (str_of s, pad_to (advance v1 (unat n)) start)))"
    by (simp add: slice_def frame_advance_pad)
qed

lemma safe_rd_vec2: "safe_read v (rd_vec2 v)"
  unfolding rd_vec2_def
  by (rule safe_read_bind [OF safe_rd_f32]) (auto intro!: safe_read_bind [OF safe_rd_f32])

interpretation i32: cursor_reader rd_i32 by unfold_locales simp

interpretation str: cursor_reader rd_stringNoPad by unfold_locales (rule safe_rd_stringNoPad)

interpretation vec2: cursor_reader rd_vec2 by unfold_locales (rule safe_rd_vec2)

section \<open>The body of the decoder over any well-behaved recursive call\<close>

text \<open>A padded read: the pad follows a cursor that is inside the buffer.\<close>

lemma rd_u8_within: "rd_u8 v = Ok (b, v1) \<Longrightarrow> vo v1 \<le> length (vb v1)"
  using vlimit_le [of v] by (auto simp: rd_eqs advance_def split: if_splits)

lemma rd_list_within:
  assumes "vo v \<le> length (vb v)"
    and "\<And>v x v'. rd v = Ok (x, v') \<Longrightarrow> vo v' \<le> length (vb v')"
  shows "rd_list k rd v = Ok (xs, v') \<Longrightarrow> vo v' \<le> length (vb v')"
  using assms(1)
proof (induction k arbitrary: v xs)
  case 0
  then show ?case by simp
next
  case (Suc k)
  then obtain x v1 ys where "rd v = Ok (x, v1)" and "rd_list k rd v1 = Ok (ys, v')"
    by (auto simp: rbind_Ok_iff)
  then show ?case using Suc.IH assms(2) by blast
qed

lemma rd_i32_within: "rd_i32 v = Ok (x, v') \<Longrightarrow> vo v' \<le> length (vb v')"
  using vlimit_le [of v] by (auto simp: rd_i32_def rd_eqs advance_def split: if_splits)

lemma slice_Ok_iff: "slice b i j = Ok s \<longleftrightarrow> i \<le> j \<and> j \<le> length b \<and> s = take (j - i) (drop i b)"
  by (auto simp: slice_def)

lemma rd_stringNoPad_within: "rd_stringNoPad v = Ok (x, v') \<Longrightarrow> vo v' \<le> length (vb v')"
  by (auto simp: rd_stringNoPad_def rbind_Ok_iff slice_Ok_iff advance_def split: if_splits)

lemma cursor_reader_pair: "cursor_reader rec \<Longrightarrow> cursor_reader (rd_pair rec)"
proof (unfold_locales)
  fix v
  assume r: "cursor_reader rec" and g: "go_buf v"
  show "safe_read v (rd_pair rec v)"
    unfolding rd_pair_def
  proof (rule safe_read_bind [OF cursor_reader.safe [OF r g]], clarsimp)
    fix k v1
    assume "frame v v1"
    with g have "go_buf v1" by (simp add: go_buf_frame)
    then show "safe_read v1 (rbind (rec v1) (\<lambda>(x, v2). Ok ((k, x), v2)))"
      by (rule safe_read_bind [OF cursor_reader.safe [OF r]]) auto
  qed
qed

lemma safe_rd_packed:
  assumes "cursor_reader rd" and "go_buf v"
    and "\<And>v x v'. rd v = Ok (x, v') \<Longrightarrow> vo v' \<le> length (vb v')"
  shows "safe_read v (rbind (rd_u32 v) (\<lambda>(n, v1).
         rbind (rd_list (f n) rd v1) (\<lambda>(xs, v2). Ok (g xs, pad_to v2 start))))"
proof (rule safe_read_bind [OF safe_rd_u32], clarsimp)
  fix n v1
  assume u: "rd_u32 v = Ok (n, v1)" and "frame v v1"
  with assms have "go_buf v1" by (simp add: go_buf_frame)
  have "vo v1 \<le> length (vb v1)" using rd_u32_within [OF u] vlimit_le [of v1] by linarith
  then show "safe_read v1 (rbind (rd_list (f n) rd v1) (\<lambda>(xs, v2). Ok (g xs, pad_to v2 start)))"
    by (intro safe_read_bind [OF cursor_reader.list_safe [OF assms(1) \<open>go_buf v1\<close>]])
      (auto intro!: frame_pad elim: rd_list_within [OF _ assms(3)])
qed

lemma safe_rd_counted:
  assumes "cursor_reader rd" and "go_buf v"
  shows "safe_read v (rbind (rd_u32 v) (\<lambda>(n, v1).
         rbind (rd_list (f n) rd v1) (\<lambda>(xs, v2). Ok (g xs, v2))))"
proof (rule safe_read_bind [OF safe_rd_u32], clarsimp)
  fix n v1
  assume "frame v v1"
  with assms have "go_buf v1" by (simp add: go_buf_frame)
  then show "safe_read v1 (rbind (rd_list (f n) rd v1) (\<lambda>(xs, v2). Ok (g xs, v2)))"
    by (intro safe_read_bind [OF cursor_reader.list_safe [OF assms(1)]]) auto
qed

lemma safe_rd_bool: "safe_read v (rbind (rd_u8 v) (\<lambda>(b, v1). Ok (VBool (b \<noteq> 0), pad_to v1 start)))"
  by (rule safe_read_bind [OF safe_rd_u8]) (auto intro!: frame_pad dest: rd_u8_within)

lemma safe_rd_byte_array:
  assumes "go_buf v"
  shows "safe_read v (rbind (rd_u32 v) (\<lambda>(n, v1).
         if too_long n v1 then Fail
         else Ok (bytes_note (unat n), pad_to (advance v1 (unat n)) start)))"
  by (rule safe_read_bind [OF safe_rd_u32])
    (auto intro!: frame_advance_pad dest: too_long_within [OF assms])

lemma decode_body_safe:
  assumes "cursor_reader rec" and "go_buf v"
  shows "safe_read v (decode_body ff rec v ty start)"
  unfolding decode_body_def Let_def
  by (auto intro!: safe_read_as_val safe_rd_string safe_rd_vec2 safe_rd_bool safe_rd_byte_array
      safe_rd_counted safe_rd_packed cursor_reader_pair assms i32.cursor_reader_axioms
      str.cursor_reader_axioms dest: rd_i32_within rd_stringNoPad_within)

lemma decode_full_reader: "cursor_reader (decode_full ff n)"
proof (induction n)
  case 0
  show ?case by unfold_locales simp
next
  case (Suc n)
  show ?case
  proof
    fix v
    assume g: "go_buf v"
    show "safe_read v (decode_full ff (Suc n) v)"
      unfolding decode_full.simps
      by (rule safe_read_bind [OF safe_rd_u32])
        (use g in \<open>auto intro!: decode_body_safe [OF Suc] simp: go_buf_frame\<close>)
  qed
qed

section \<open>The recursion bound is never reached\<close>

definition avail :: "vbuf \<Rightarrow> nat" where
  "avail v = length (vb v) - vo v"

lemma avail_frame: "frame v w \<Longrightarrow> avail w \<le> avail v"
  by (auto simp: avail_def frame_def)

lemma rd_primitive_no_fuel [simp]:
  "rd_u8 v \<noteq> Fuel" "rd_u16 v \<noteq> Fuel" "rd_u32 v \<noteq> Fuel" "rd_i64 v \<noteq> Fuel" "rd_f32 v \<noteq> Fuel"
  "rd_f64 v \<noteq> Fuel"
  by (simp_all add: rd_eqs)

lemma rd_derived_no_fuel [simp]:
  "rd_i8 v \<noteq> Fuel" "rd_i16 v \<noteq> Fuel" "rd_i32 v \<noteq> Fuel" "rd_string v start \<noteq> Fuel"
  "rd_stringNoPad v \<noteq> Fuel" "rd_vec2 v \<noteq> Fuel"
  by (auto simp: rd_i8_def rd_i16_def rd_i32_def rd_string_def rd_stringNoPad_def rd_vec2_def
      rbind_Fuel_iff split: if_splits)

lemma as_val_no_fuel [simp]: "as_val f r = Fuel \<longleftrightarrow> r = Fuel"
  by (auto simp: as_val_def rbind_Fuel_iff)

lemma counted_no_fuel:
  assumes "cursor_reader rd" and "go_buf v" and "\<And>v'. frame v v' \<Longrightarrow> rd v' \<noteq> Fuel"
  shows "rbind (rd_u32 v) (\<lambda>(n, v1). rbind (rd_list (f n) rd v1) (\<lambda>(xs, v2). Ok (g xs v2))) \<noteq> Fuel"
proof -
  have "rd_list (f n) rd v1 \<noteq> Fuel" if "rd_u32 v = Ok (n, v1)" for n v1
    using rd_u32_within [OF that] assms
    by (intro cursor_reader.list_no_fuel [OF assms(1)]) (auto simp: go_buf_frame intro: frame_trans)
  then show ?thesis by (auto simp: rbind_Fuel_iff)
qed

lemma pair_no_fuel:
  assumes "cursor_reader rec" and "go_buf v" and "\<And>v'. frame v v' \<Longrightarrow> rec v' \<noteq> Fuel"
  shows "rd_pair rec v \<noteq> Fuel"
proof -
  have "frame v v1" if "rec v = Ok (k, v1)" for k v1
    using cursor_reader.safe [OF assms(1,2)] that by (simp add: safe_read_def)
  then show ?thesis
    using assms(3) frame_refl by (fastforce simp: rd_pair_def rbind_Fuel_iff)
qed

lemma decode_body_no_fuel:
  assumes "cursor_reader rec" and "go_buf v" and "\<And>v'. frame v v' \<Longrightarrow> rec v' \<noteq> Fuel"
  shows "decode_body ff rec v ty start \<noteq> Fuel"
proof -
  have pair: "rd_pair rec v' \<noteq> Fuel" if "frame v v'" for v'
    using assms that by (intro pair_no_fuel) (auto simp: go_buf_frame intro: frame_trans)
  have loops:
    "rbind (rd_u32 v) (\<lambda>(n, v1). rbind (rd_list (f n) (rd_pair rec) v1) (\<lambda>(xs, v2). Ok (g1 xs, v2))) \<noteq> Fuel"
    "rbind (rd_u32 v) (\<lambda>(n, v1). rbind (rd_list (f n) rec v1) (\<lambda>(xs, v2). Ok (g2 xs, v2))) \<noteq> Fuel"
    "rbind (rd_u32 v) (\<lambda>(n, v1). rbind (rd_list (f n) rd_i32 v1)
       (\<lambda>(xs, v2). Ok (g3 xs, pad_to v2 start))) \<noteq> Fuel"
    "rbind (rd_u32 v) (\<lambda>(n, v1). rbind (rd_list (f n) rd_stringNoPad v1)
       (\<lambda>(xs, v2). Ok (g4 xs, pad_to v2 start))) \<noteq> Fuel" for f g1 g2 g3 g4
    by (intro counted_no_fuel cursor_reader_pair assms pair i32.cursor_reader_axioms
        str.cursor_reader_axioms rd_derived_no_fuel; assumption)+
  show ?thesis
    unfolding decode_body_def Let_def
    by (simp add: loops) (auto simp: rbind_Fuel_iff split: if_splits)
qed

lemma decode_full_enough: "go_buf v \<Longrightarrow> avail v < n \<Longrightarrow> decode_full ff n v \<noteq> Fuel"
proof (induction n arbitrary: v)
  case 0
  then show ?case by simp
next
  case (Suc n)
  have "decode_body ff (decode_full ff n) v1 ty (vo v1 - 4) \<noteq> Fuel" if "rd_u32 v = Ok (ty, v1)" for ty v1
  proof (rule decode_body_no_fuel [OF decode_full_reader])
    note w = rd_u32_within [OF that]
    then show g: "go_buf v1" using Suc.prems(1) go_buf_frame by blast
    fix v'
    assume f: "frame v1 v'"
    have "avail v1 < n"
      using w Suc.prems(2) vlimit_le [of v1] by (auto simp: avail_def frame_def)
    with avail_frame [OF f] show "decode_full ff n v' \<noteq> Fuel"
      using g f by (intro Suc.IH) (auto simp: go_buf_frame)
  qed
  then show ?case by (auto simp: rbind_Fuel_iff)
qed

section \<open>The bound leaves no trace\<close>

lemma counted_cong:
  assumes "cursor_reader rd" and "go_buf v" and "\<And>v'. frame v v' \<Longrightarrow> rd v' = rd' v'"
  shows "rbind (rd_u32 v) (\<lambda>(n, v1). rbind (rd_list (f n) rd v1) h) =
         rbind (rd_u32 v) (\<lambda>(n, v1). rbind (rd_list (f n) rd' v1) h)"
proof (rule rbind_cong [OF refl], clarsimp)
  fix n v1
  assume "rd_u32 v = Ok (n, v1)"
  note w = rd_u32_within [OF this]
  have "rd_list (f n) rd v1 = rd_list (f n) rd' v1"
    using w assms by (intro cursor_reader.list_cong [OF assms(1)]) (auto simp: go_buf_frame intro: frame_trans)
  then show "rbind (rd_list (f n) rd v1) h = rbind (rd_list (f n) rd' v1) h" by simp
qed

lemma pair_cong:
  assumes "cursor_reader rec" and "go_buf v" and "\<And>v'. frame v v' \<Longrightarrow> rec v' = rec' v'"
  shows "rd_pair rec v = rd_pair rec' v"
proof -
  have "frame v v1" if "rec v = Ok (k, v1)" for k v1
    using cursor_reader.safe [OF assms(1,2)] that by (simp add: safe_read_def)
  moreover have "rec v = rec' v" using assms(3) [of v] by simp
  ultimately show ?thesis
    using assms(3) by (auto simp: rd_pair_def intro!: rbind_cong)
qed

lemma decode_body_cong:
  assumes r: "cursor_reader rec" and "go_buf v" and eq: "\<And>v'. frame v v' \<Longrightarrow> rec v' = rec' v'"
  shows "decode_body ff rec v ty start = decode_body ff rec' v ty start"
proof -
  have pair: "rd_pair rec v' = rd_pair rec' v'" if "frame v v'" for v'
    using assms that by (intro pair_cong) (auto simp: go_buf_frame intro: frame_trans)
  show ?thesis
    unfolding decode_body_def Let_def
    by (simp only: counted_cong [OF r \<open>go_buf v\<close> eq] counted_cong [OF cursor_reader_pair [OF r] \<open>go_buf v\<close> pair])
qed

lemma decode_full_bound_irrelevant:
  "go_buf v \<Longrightarrow> avail v < n \<Longrightarrow> avail v < m \<Longrightarrow> decode_full ff n v = decode_full ff m v"
proof (induction n arbitrary: v m)
  case 0
  then show ?case by simp
next
  case (Suc n)
  then obtain m' where m: "m = Suc m'" by (cases m) auto
  have "decode_body ff (decode_full ff n) v1 ty (vo v1 - 4) = decode_body ff (decode_full ff m') v1 ty (vo v1 - 4)"
    if "rd_u32 v = Ok (ty, v1)" for ty v1
  proof (rule decode_body_cong [OF decode_full_reader])
    note w = rd_u32_within [OF that]
    then show g: "go_buf v1" using Suc.prems(1) go_buf_frame by blast
    fix v'
    assume f: "frame v1 v'"
    have "avail v1 < n" "avail v1 < m'"
      using w Suc.prems(2,3) m vlimit_le [of v1] by (auto simp: avail_def frame_def)
    with avail_frame [OF f] show "decode_full ff n v' = decode_full ff m' v'"
      using g f by (intro Suc.IH) (auto simp: go_buf_frame)
  qed
  then show ?case by (auto simp: m intro!: rbind_cong)
qed

lemma decode_variant_full_eq: "go_buf v \<Longrightarrow> avail v < n \<Longrightarrow> decode_full ff n v = decode_variant_full ff v"
  unfolding decode_variant_full_def
  by (rule decode_full_bound_irrelevant) (auto simp: avail_def)

lemma decode_variant_full_unfold:
  assumes "go_buf v"
  shows "decode_variant_full ff v =
    rbind (rd_u32 v) (\<lambda>(ty, v1). decode_body ff (decode_variant_full ff) v1 ty (vo v1 - 4))"
proof -
  have "decode_body ff (decode_full ff (length (vb v))) v1 ty (vo v1 - 4) =
        decode_body ff (decode_variant_full ff) v1 ty (vo v1 - 4)" if "rd_u32 v = Ok (ty, v1)" for ty v1
  proof (rule decode_body_cong [OF decode_full_reader])
    note w = rd_u32_within [OF that]
    then show g: "go_buf v1" using assms go_buf_frame by blast
    fix v'
    assume f: "frame v1 v'"
    have "avail v1 < length (vb v)"
      using w vlimit_le [of v1] by (auto simp: avail_def frame_def)
    with avail_frame [OF f] show "decode_full ff (length (vb v)) v' = decode_variant_full ff v'"
      using g f by (intro decode_variant_full_eq) (auto simp: go_buf_frame)
  qed
  then show ?thesis
    unfolding decode_variant_full_def by (auto intro!: rbind_cong)
qed

interpretation variant: cursor_reader "decode_variant_full ff"
  unfolding decode_variant_full_def
  by unfold_locales (rule cursor_reader.safe [OF decode_full_reader])

lemma decode_variant_full_no_fuel: "go_buf v \<Longrightarrow> decode_variant_full ff v \<noteq> Fuel"
  unfolding decode_variant_full_def by (rule decode_full_enough) (auto simp: avail_def)

lemma decode_variant_arg_safe:
  assumes "go_buf v"
  shows "safe_read v (decode_variant_arg ff v)" and "decode_variant_arg ff v \<noteq> Fuel"
proof -
  have adv: "frame v (advance v 1)" if "vo v < length (vb v)"
    using that by (intro frame_advance) simp
  have tail: "safe_read v (as_val VInt r)" if "safe_read (advance v 1) r" "vo v < length (vb v)" for r :: "(64 word \<times> vbuf) res"
    using that adv by (intro safe_read_as_val) (auto simp: safe_read_def intro: frame_trans)
  show "safe_read v (decode_variant_arg ff v)"
    using assms adv by (auto simp: decode_variant_arg_def Let_def idx_def intro!: tail variant.safe)
  show "decode_variant_arg ff v \<noteq> Fuel"
    using assms by (auto simp: decode_variant_arg_def Let_def idx_def decode_variant_full_no_fuel)
qed

interpretation arg: cursor_reader "decode_variant_arg ff"
  by unfold_locales (rule decode_variant_arg_safe)

end
