(* ===== verification/Godot_Variant_Codec.thy ===== *)
theory Godot_Variant_Codec imports Godot_Variant_Safe begin

unbundle bit_operations_syntax

text \<open>
  The decoder of \<open>variant.go\<close> against the format its header comment documents.  The format is
  the datatype \<open>gv\<close> of Godot values with the encoders \<open>enc_full\<close> (\<open>encode_variant\<close>) and
  \<open>enc_arg\<close> (\<open>encode_and_compress_variant\<close>); \<open>seen\<close> is what the decoder is to report of a
  value.  The interface \<open>wire_codec\<close> pairs a reader with an encoder: reading at a cursor that stands
  on an encoding returns the value and consumes exactly the encoding.
\<close>

section \<open>A cursor that stands on given bytes\<close>

definition on_bytes :: "vbuf \<Rightarrow> byte list \<Rightarrow> bool" where
  "on_bytes v bs \<longleftrightarrow> take (length bs) (drop (vo v) (vb v)) = bs \<and> vo v + length bs \<le> vlimit v"

lemma advance_advance [simp]: "advance (advance v j) k = advance v (j + k)"
  by (simp add: advance_def add.assoc)

lemma advance_0 [simp]: "advance v 0 = v"
  by (simp add: advance_def)

lemma advance_sel [simp]: "vb (advance v k) = vb v" "vo (advance v k) = vo v + k" "vend (advance v k) = vend v"
  by (simp_all add: advance_def)

lemma vlimit_advance [simp]: "vlimit (advance v k) = vlimit v"
  by (simp add: vlimit_def)

lemma go_buf_advance [simp]: "go_buf (advance v k) = go_buf v"
  by (simp add: go_buf_def)

lemma on_bytes_append:
  "on_bytes v (xs @ ys) \<longleftrightarrow> on_bytes v xs \<and> on_bytes (advance v (length xs)) ys"
proof -
  have "take (length xs + length ys) z = xs @ ys \<longleftrightarrow>
        take (length xs) z = xs \<and> take (length ys) (drop (length xs) z) = ys"
    if "length xs + length ys \<le> length z" for z :: "byte list"
    using that by (auto simp: take_add append_eq_append_conv)
  from this [of "drop (vo v) (vb v)"] show ?thesis
    using vlimit_le [of v] by (auto simp: on_bytes_def add.commute add.left_commute)
qed

lemma on_bytes_Cons: "on_bytes v (x # xs) \<longleftrightarrow> on_bytes v [x] \<and> on_bytes (advance v 1) xs"
  using on_bytes_append [of v "[x]" xs] by simp

lemma on_bytes_length: "on_bytes v bs \<Longrightarrow> vo v + length bs \<le> vlimit v"
  by (simp add: on_bytes_def)

lemma on_bytes_take: "on_bytes v bs \<Longrightarrow> length bs = k \<Longrightarrow> take k (drop (vo v) (vb v)) = bs"
  by (auto simp: on_bytes_def)

text \<open>How a concrete buffer comes to stand on an encoding.\<close>

lemma on_bytes_start:
  "vend v = 0 \<Longrightarrow> vb v = pre @ bs @ post \<Longrightarrow> vo v = length pre \<Longrightarrow> on_bytes v bs"
  by (simp add: on_bytes_def vlimit_def)

definition buf_at :: "byte list \<Rightarrow> byte list \<Rightarrow> vbuf" where
  "buf_at pre bs = \<lparr>vb = pre @ bs, vo = length pre, vend = 0\<rparr>"

lemma on_bytes_buf_at [simp]: "on_bytes (buf_at pre (bs @ post)) bs"
  by (rule on_bytes_start [of _ pre _ post]) (simp_all add: buf_at_def)

section \<open>The primitive reads on their encodings\<close>

lemma rd_u8_on: "on_bytes v [b] \<Longrightarrow> rd_u8 v = Ok (b, advance v 1)"
  using vlimit_le [of v] by (auto simp: rd_eqs on_bytes_def hd_drop_conv_nth take_Suc)

lemma of_le_val:
  assumes "on_bytes v (le_bytes k x)"
  shows "le_val (take k (drop (vo v) (vb v))) = x mod 256 ^ k"
  using on_bytes_take [OF assms] by (simp add: le_val_le_bytes)

lemma of_nat_unat_mod: "n = 2 ^ LENGTH('a) \<Longrightarrow> of_nat (unat w mod n) = (w :: 'a::len word)"
  using unsigned_less [where ?w = w] by simp

lemmas unat_mods = of_nat_unat_mod [where ?'a = 16, of 65536, simplified]
  of_nat_unat_mod [where ?'a = 32, of 4294967296, simplified]
  of_nat_unat_mod [where ?'a = 64, of 18446744073709551616, simplified]

lemma rd_u16_on: "on_bytes v (le_bytes 2 (unat w)) \<Longrightarrow> rd_u16 v = Ok (w, advance v 2)"
  by (auto simp: rd_eqs of_le_val unat_mods dest: on_bytes_length)

lemma rd_u32_on: "on_bytes v (le_bytes 4 (unat w)) \<Longrightarrow> rd_u32 v = Ok (w, advance v 4)"
  by (auto simp: rd_eqs of_le_val unat_mods dest: on_bytes_length)

lemma rd_u32_on_nat: "on_bytes v (le_bytes 4 n) \<Longrightarrow> n < 2 ^ 32 \<Longrightarrow> rd_u32 v = Ok (of_nat n, advance v 4)"
  using rd_u32_on [of v "of_nat n"] by (simp add: unat_of_nat)

lemma rd_i32_on: "on_bytes v (le_bytes 4 (unat w)) \<Longrightarrow> rd_i32 v = Ok (scast (w :: 32 word), advance v 4)"
  by (auto simp: rd_i32_def dest!: rd_u32_on)

lemma rd_i16_on: "on_bytes v (le_bytes 2 (unat w)) \<Longrightarrow> rd_i16 v = Ok (scast (w :: 16 word), advance v 2)"
  by (auto simp: rd_i16_def dest!: rd_u16_on)

lemma rd_i8_on: "on_bytes v [b] \<Longrightarrow> rd_i8 v = Ok (scast b, advance v 1)"
  by (auto simp: rd_i8_def dest!: rd_u8_on)

lemma on_bytes_within: "on_bytes v bs \<Longrightarrow> vo v + length bs \<le> length (vb v)"
  using on_bytes_length [of v bs] vlimit_le [of v] by linarith

lemma rd_i64_on: "on_bytes v (le_bytes 8 (unat w)) \<Longrightarrow> rd_i64 v = Ok (w, advance v 8)"
  by (auto simp: rd_eqs of_le_val unat_mods dest: on_bytes_within)

lemma rd_f32_on: "on_bytes v (le_bytes 4 (unat w)) \<Longrightarrow> rd_f32 v = Ok (F32 w, advance v 4)"
  by (auto simp: rd_eqs of_le_val unat_mods dest: on_bytes_within)

lemma rd_f64_on: "on_bytes v (le_bytes 8 (unat w)) \<Longrightarrow> rd_f64 v = Ok (F64 w, advance v 8)"
  by (auto simp: rd_eqs of_le_val unat_mods dest: on_bytes_within)

lemmas rd_ons = rd_u8_on rd_u16_on rd_u32_on rd_i8_on rd_i16_on rd_i32_on rd_i64_on rd_f32_on rd_f64_on

lemma not_too_long_on:
  assumes "go_buf v" and "on_bytes v bs" and "length bs < 2 ^ 32" and "k = length bs"
  shows "\<not> too_long (of_nat k) v"
  using assms on_bytes_length [OF assms(2)] too_long_iff [of v "of_nat k"]
  by (simp add: go_buf_def unat_of_nat)

lemma slice_on: "on_bytes v bs \<Longrightarrow> k = length bs \<Longrightarrow> slice (vb v) (vo v) (vo v + k) = Ok bs"
  using on_bytes_within [of v bs] by (simp add: slice_def on_bytes_def)

section \<open>Codecs\<close>

locale wire_codec =
  fixes rd :: "vbuf \<Rightarrow> ('a \<times> vbuf) res"
    and enc :: "'b \<Rightarrow> byte list"
    and meaning :: "'b \<Rightarrow> 'a"
    and legal :: "'b \<Rightarrow> bool"
  assumes reads: "legal x \<Longrightarrow> go_buf v \<Longrightarrow> on_bytes v (enc x) \<Longrightarrow>
    rd v = Ok (meaning x, advance v (length (enc x)))"
begin

lemma reads_list:
  "list_all legal xs \<Longrightarrow> go_buf v \<Longrightarrow> on_bytes v (concat (map enc xs)) \<Longrightarrow> k = length xs \<Longrightarrow>
     rd_list k rd v = Ok (map meaning xs, advance v (length (concat (map enc xs))))"
proof (induction xs arbitrary: v k)
  case Nil
  then show ?case by simp
next
  case (Cons x xs)
  then have "rd v = Ok (meaning x, advance v (length (enc x)))"
    and "rd_list (length xs) rd (advance v (length (enc x))) =
      Ok (map meaning xs, advance (advance v (length (enc x))) (length (concat (map enc xs))))"
    by (auto simp: on_bytes_append reads)
  then show ?case using Cons.prems(4) by simp
qed

end

definition enc_str :: "string \<Rightarrow> byte list" where
  "enc_str s = le_bytes 4 (length s) @ bytes_of s"

definition short_str :: "string \<Rightarrow> bool" where
  "short_str s \<longleftrightarrow> length s < 2 ^ 32"

lemma rd_stringNoPad_on:
  assumes "short_str s" and "go_buf v" and "on_bytes v (enc_str s)"
  shows "rd_stringNoPad v = Ok (s, advance v (length (enc_str s)))"
proof -
  have l: "on_bytes v (le_bytes 4 (length s))" and b: "on_bytes (advance v 4) (bytes_of s)"
    using assms(3) by (simp_all add: enc_str_def on_bytes_append)
  have n: "length s < 2 ^ 32" using assms(1) by (simp add: short_str_def)
  have u: "unat (of_nat (length s) :: 32 word) = length s"
    using n by (simp add: unat_of_nat)
  have r: "rd_u32 v = Ok (of_nat (length s), advance v 4)"
    by (rule rd_u32_on_nat [OF l n])
  have g: "\<not> too_long (of_nat (length s)) (advance v 4)"
    by (rule not_too_long_on [OF _ b]) (use assms(2) n in simp_all)
  have "slice (vb (advance v 4)) (vo (advance v 4)) (vo (advance v 4) + length s) = Ok (bytes_of s)"
    by (rule slice_on [OF b]) simp
  then show ?thesis
    unfolding rd_stringNoPad_def r rbind.simps prod.case using g u by (simp add: enc_str_def)
qed

interpretation i32c: wire_codec rd_i32 "\<lambda>w :: 32 word. le_bytes 4 (unat w)" scast "\<lambda>_. True"
  by unfold_locales (simp add: rd_i32_on)

interpretation strc: wire_codec rd_stringNoPad enc_str "\<lambda>s. s" short_str
  by unfold_locales (rule rd_stringNoPad_on)

lemma wire_codec_pair:
  assumes "wire_codec rec enc m l"
  shows "wire_codec (rd_pair rec) (\<lambda>(a, b). enc a @ enc b) (map_prod m m) (\<lambda>(a, b). l a \<and> l b)"
proof (unfold_locales, clarify)
  fix a b v
  assume "l a" "l b" "go_buf v" and "on_bytes v (enc a @ enc b)"
  then show "rd_pair rec v = Ok (map_prod m m (a, b), advance v (length (enc a @ enc b)))"
    by (simp add: rd_pair_def on_bytes_append wire_codec.reads [OF assms])
qed

section \<open>The documented format\<close>

datatype str_kind = StringT | StringNameT | NodePathT

datatype gv =
    GNil
  | GBool bool
  | GInt "64 word"
  | GFloat "64 word"
  | GFloat32 "32 word"
  | GStr str_kind string
  | GVec2 "32 word" "32 word"
  | GDict "(gv \<times> gv) list"
  | GArr "gv list"
  | GBytes "byte list"
  | GInts "32 word list"
  | GStrs "string list"

fun kind_id :: "str_kind \<Rightarrow> nat" where
  "kind_id StringT = 4"
| "kind_id StringNameT = 21"
| "kind_id NodePathT = 22"

definition fits32 :: "64 word \<Rightarrow> bool" where
  "fits32 i \<longleftrightarrow> scast (ucast i :: 32 word) = i"

definition pad4 :: "byte list \<Rightarrow> byte list" where
  "pad4 bs = bs @ replicate ((4 - length bs mod 4) mod 4) 0"

fun enc_full :: "gv \<Rightarrow> byte list" where
  "enc_full GNil = le_bytes 4 0"
| "enc_full (GBool b) = pad4 (le_bytes 4 1 @ [if b then 1 else 0])"
| "enc_full (GInt i) =
     (if fits32 i then le_bytes 4 2 @ le_bytes 4 (unat (ucast i :: 32 word))
      else le_bytes 4 0x10002 @ le_bytes 8 (unat i))"
| "enc_full (GFloat w) = le_bytes 4 0x10003 @ le_bytes 8 (unat w)"
| "enc_full (GFloat32 w) = le_bytes 4 3 @ le_bytes 4 (unat w)"
| "enc_full (GStr k s) = pad4 (le_bytes 4 (kind_id k) @ enc_str s)"
| "enc_full (GVec2 x y) = le_bytes 4 5 @ le_bytes 4 (unat x) @ le_bytes 4 (unat y)"
| "enc_full (GDict kvs) =
     le_bytes 4 27 @ le_bytes 4 (length kvs) @ concat (map (\<lambda>(k, x). enc_full k @ enc_full x) kvs)"
| "enc_full (GArr xs) = le_bytes 4 28 @ le_bytes 4 (length xs) @ concat (map enc_full xs)"
| "enc_full (GBytes bs) = pad4 (le_bytes 4 19 @ le_bytes 4 (length bs) @ bs)"
| "enc_full (GInts ws) =
     pad4 (le_bytes 4 30 @ le_bytes 4 (length ws) @ concat (map (\<lambda>w. le_bytes 4 (unat w)) ws))"
| "enc_full (GStrs ss) = pad4 (le_bytes 4 34 @ le_bytes 4 (length ss) @ concat (map enc_str ss))"

text \<open>What the decoder shows of a value.\<close>

fun seen :: "(f64 \<Rightarrow> string) \<Rightarrow> gv \<Rightarrow> gval" where
  "seen ff GNil = VNil"
| "seen ff (GBool b) = VBool b"
| "seen ff (GInt i) = VInt i"
| "seen ff (GFloat w) = VFloat (F64 w)"
| "seen ff (GFloat32 w) = VFloat (F32 w)"
| "seen ff (GStr k s) = VStr s"
| "seen ff (GVec2 x y) = VArr [VFloat (Round100 (F32 x)), VFloat (Round100 (F32 y))]"
| "seen ff (GDict kvs) = VDict (dict_of ff (map (\<lambda>(k, x). (seen ff k, seen ff x)) kvs))"
| "seen ff (GArr xs) = VArr (map (seen ff) xs)"
| "seen ff (GBytes bs) = bytes_note (length bs)"
| "seen ff (GInts ws) = VArr (map (\<lambda>w. VInt (scast w)) ws)"
| "seen ff (GStrs ss) = VArr (map VStr ss)"

text \<open>The sizes the format and the decoder's caps allow.\<close>

fun legal_gv :: "gv \<Rightarrow> bool" where
  "legal_gv (GStr k s) = short_str s"
| "legal_gv (GDict kvs) = (length kvs < max_items \<and> list_all (\<lambda>(k, x). legal_gv k \<and> legal_gv x) kvs)"
| "legal_gv (GArr xs) = (length xs < max_items \<and> list_all legal_gv xs)"
| "legal_gv (GBytes bs) = (length bs < 2 ^ 32)"
| "legal_gv (GInts ws) = (length ws \<le> max_items)"
| "legal_gv (GStrs ss) = (length ss \<le> max_items \<and> list_all short_str ss)"
| "legal_gv _ = True"

section \<open>The full form\<close>

lemma pad_to_advance: "pad_to (advance v k) (vo v) = advance v (k + (4 - k mod 4) mod 4)"
  by (simp add: pad_to_def advance_def skipPad_eq)

lemma length_pad4 [simp]: "length (pad4 bs) = length bs + (4 - length bs mod 4) mod 4"
  by (simp add: pad4_def)

lemma on_bytes_pad4: "on_bytes v (pad4 bs) \<Longrightarrow> on_bytes v bs"
  by (simp add: pad4_def on_bytes_append)

lemma full_on:
  assumes "go_buf v" and "on_bytes v (le_bytes 4 n)" and "n < 2 ^ 32"
  shows "decode_variant_full ff v = decode_body ff (decode_variant_full ff) (advance v 4) (of_nat n) (vo v)"
  using assms by (simp add: decode_variant_full_unfold rd_u32_on_nat)

lemma count_on:
  assumes "on_bytes v (le_bytes 4 n)" and "n \<le> max_items"
  shows "rd_u32 v = Ok (of_nat n, advance v 4)" and "unat (of_nat n :: 32 word) = n"
  using assms rd_u32_on_nat [of v n] by (simp_all add: max_items_def unat_of_nat)

lemma full_GBool:
  assumes "go_buf v" and "on_bytes v (enc_full (GBool b))"
  shows "decode_variant_full ff v = Ok (VBool b, advance v (length (enc_full (GBool b))))"
proof -
  have h: "on_bytes v (le_bytes 4 1)" and "on_bytes (advance v 4) [if b then 1 else 0]"
    using assms(2) by (auto simp: on_bytes_append simp del: One_nat_def dest!: on_bytes_pad4)
  then show ?thesis
    using full_on [OF assms(1) h] by (simp add: decode_body_def rd_u8_on pad_to_advance)
qed

lemma full_GInt:
  assumes "go_buf v" and "on_bytes v (enc_full (GInt i))"
  shows "decode_variant_full ff v = Ok (VInt i, advance v (length (enc_full (GInt i))))"
proof (cases "fits32 i")
  case True
  with assms have "on_bytes v (le_bytes 4 2)" "rd_i32 (advance v 4) = Ok (i, advance v 8)"
    by (auto simp: on_bytes_append fits32_def dest: rd_i32_on)
  with True assms(1) show ?thesis by (simp add: full_on decode_body_def as_val_def)
next
  case False
  with assms have "on_bytes v (le_bytes 4 0x10002)" "rd_i64 (advance v 4) = Ok (i, advance v 12)"
    by (auto simp: on_bytes_append dest: rd_i64_on)
  with False assms(1) show ?thesis by (simp add: full_on decode_body_def as_val_def)
qed

lemma full_scalar:
  assumes "go_buf v" and "on_bytes v (enc_full g)" and "g \<in> {GNil, GFloat d, GFloat32 f, GVec2 f f'}"
  shows "decode_variant_full ff v = Ok (seen ff g, advance v (length (enc_full g)))"
  using assms
  by (auto simp: on_bytes_append full_on decode_body_def as_val_def rd_vec2_def
      dest!: rd_f32_on rd_f64_on split: if_splits)

lemma rd_string_on:
  assumes "go_buf v" and "short_str s" and "on_bytes v (enc_str s)" and "start + 4 = vo v"
  shows "rd_string v start = Ok (s, pad_to (advance v (length (enc_str s))) start)"
proof -
  have l: "on_bytes v (le_bytes 4 (length s))" and b: "on_bytes (advance v 4) (bytes_of s)"
    using assms(3) by (simp_all add: enc_str_def on_bytes_append)
  have n: "length s < 2 ^ 32" using assms(2) by (simp add: short_str_def)
  have u: "unat (of_nat (length s) :: 32 word) = length s"
    using n by (simp add: unat_of_nat)
  have r: "rd_u32 v = Ok (of_nat (length s), advance v 4)"
    by (rule rd_u32_on_nat [OF l n])
  have g: "\<not> too_long (of_nat (length s)) (advance v 4)"
    by (rule not_too_long_on [OF _ b]) (use assms(1) n in simp_all)
  have "slice (vb (advance v 4)) (vo (advance v 4)) (vo (advance v 4) + length s) = Ok (bytes_of s)"
    by (rule slice_on [OF b]) simp
  then show ?thesis
    unfolding rd_string_def r rbind.simps prod.case using g u by (simp add: enc_str_def)
qed

lemma full_GStr:
  assumes "go_buf v" and "on_bytes v (enc_full (GStr k s))" and "short_str s"
  shows "decode_variant_full ff v = Ok (VStr s, advance v (length (enc_full (GStr k s))))"
proof -
  have h: "on_bytes v (le_bytes 4 (kind_id k))" and b: "on_bytes (advance v 4) (enc_str s)"
    using assms(2) by (auto simp: on_bytes_append dest!: on_bytes_pad4)
  have "rd_string (advance v 4) (vo v) = Ok (s, advance v (length (enc_full (GStr k s))))"
    using rd_string_on [OF _ assms(3) b, of "vo v"] assms(1)
    by (simp add: pad_to_advance add.commute add.left_commute)
  moreover have "kind_id k < 2 ^ 32" by (cases k) auto
  ultimately show ?thesis
    using full_on [OF assms(1) h] by (cases k) (simp_all add: decode_body_def as_val_def)
qed

lemma full_GBytes:
  assumes "go_buf v" and "on_bytes v (enc_full (GBytes bs))" and "length bs < 2 ^ 32"
  shows "decode_variant_full ff v = Ok (bytes_note (length bs), advance v (length (enc_full (GBytes bs))))"
proof -
  have h: "on_bytes v (le_bytes 4 19)" and l: "on_bytes (advance v 4) (le_bytes 4 (length bs))"
    and b: "on_bytes (advance v 8) bs"
    using assms(2) by (auto simp: on_bytes_append dest!: on_bytes_pad4)
  have g: "\<not> too_long (of_nat (length bs)) (advance v 8)"
    by (rule not_too_long_on [OF _ b]) (use assms in simp_all)
  have u: "unat (of_nat (length bs) :: 32 word) = length bs"
    using assms(3) by (simp add: unat_of_nat)
  have "rd_u32 (advance v 4) = Ok (of_nat (length bs), advance v 8)"
    using rd_u32_on_nat [OF l assms(3)] by simp
  with g u show ?thesis
    using full_on [OF assms(1) h] by (simp add: decode_body_def pad_to_advance)
qed

lemma full_packed:
  assumes g: "go_buf v" and h: "on_bytes v (le_bytes 4 n)" and n: "n = 30 \<or> n = 34"
    and l: "on_bytes (advance v 4) (le_bytes 4 k)" and k: "k \<le> max_items"
    and i: "n = 30 \<Longrightarrow> rd_list k rd_i32 (advance v 8) = Ok (xs, advance v m) \<and> r = map VInt xs"
    and s: "n = 34 \<Longrightarrow> rd_list k rd_stringNoPad (advance v 8) = Ok (ss, advance v m) \<and> r = map VStr ss"
  shows "decode_variant_full ff v = Ok (VArr r, advance v (m + (4 - m mod 4) mod 4))"
  using n full_on [OF g h] count_on [OF l k] i s k
  by (elim disjE) (simp_all add: decode_body_def pad_to_advance min_absorb1)

lemma full_GInts:
  assumes "go_buf v" and "on_bytes v (enc_full (GInts ws))" and "legal_gv (GInts ws)"
  shows "decode_variant_full ff v = Ok (seen ff (GInts ws), advance v (length (enc_full (GInts ws))))"
proof -
  let ?items = "concat (map (\<lambda>w :: 32 word. le_bytes 4 (unat w)) ws)"
  have h: "on_bytes v (le_bytes 4 30)" and l: "on_bytes (advance v 4) (le_bytes 4 (length ws))"
    and b: "on_bytes (advance v 8) ?items"
    using assms(2) by (auto simp: on_bytes_append dest!: on_bytes_pad4)
  have "rd_list (length ws) rd_i32 (advance v 8) = Ok (map scast ws, advance v (8 + length ?items))"
    using i32c.reads_list [OF _ _ b] assms(1) by (simp add: list_all_iff)
  then show ?thesis
    using full_packed [OF assms(1) h _ l, of "map scast ws"] assms(3)
    by (simp add: comp_def add.assoc)
qed

lemma full_GStrs:
  assumes "go_buf v" and "on_bytes v (enc_full (GStrs ss))" and "legal_gv (GStrs ss)"
  shows "decode_variant_full ff v = Ok (seen ff (GStrs ss), advance v (length (enc_full (GStrs ss))))"
proof -
  let ?items = "concat (map enc_str ss)"
  have h: "on_bytes v (le_bytes 4 34)" and l: "on_bytes (advance v 4) (le_bytes 4 (length ss))"
    and b: "on_bytes (advance v 8) ?items"
    using assms(2) by (auto simp: on_bytes_append dest!: on_bytes_pad4)
  have "rd_list (length ss) rd_stringNoPad (advance v 8) = Ok (ss, advance v (8 + length ?items))"
    using strc.reads_list [OF _ _ b] assms(1,3) by simp
  then show ?thesis
    using full_packed [OF assms(1) h _ l, where ss = ss] assms(3)
    by (simp add: comp_def add.assoc)
qed

lemma full_GArr:
  assumes g: "go_buf v" and e: "on_bytes v (enc_full (GArr xs))" and w: "legal_gv (GArr xs)"
    and c: "wire_codec (decode_variant_full ff) enc_full (seen ff) (\<lambda>x. legal_gv x \<and> x \<in> set xs)"
  shows "decode_variant_full ff v = Ok (seen ff (GArr xs), advance v (length (enc_full (GArr xs))))"
proof -
  let ?items = "concat (map enc_full xs)"
  have h: "on_bytes v (le_bytes 4 28)" and l: "on_bytes (advance v 4) (le_bytes 4 (length xs))"
    and b: "on_bytes (advance v 8) ?items"
    using e by (auto simp: on_bytes_append)
  have "rd_list (length xs) (decode_variant_full ff) (advance v 8) =
      Ok (map (seen ff) xs, advance v (8 + length ?items))"
    using wire_codec.reads_list [OF c _ _ b] g w by (simp add: list_all_iff)
  then show ?thesis
    using full_on [OF g h] count_on [OF l] w by (simp add: decode_body_def)
qed

lemma full_GDict:
  assumes g: "go_buf v" and e: "on_bytes v (enc_full (GDict kvs))" and w: "legal_gv (GDict kvs)"
    and c: "wire_codec (decode_variant_full ff) enc_full (seen ff)
      (\<lambda>x. legal_gv x \<and> (\<exists>kv \<in> set kvs. x = fst kv \<or> x = snd kv))"
  shows "decode_variant_full ff v = Ok (seen ff (GDict kvs), advance v (length (enc_full (GDict kvs))))"
proof -
  let ?items = "concat (map (\<lambda>(k, x). enc_full k @ enc_full x) kvs)"
  have h: "on_bytes v (le_bytes 4 27)" and l: "on_bytes (advance v 4) (le_bytes 4 (length kvs))"
    and b: "on_bytes (advance v 8) ?items"
    using e by (auto simp: on_bytes_append)
  have all: "list_all (\<lambda>(a, b). (legal_gv a \<and> (\<exists>kv \<in> set kvs. a = fst kv \<or> a = snd kv)) \<and>
      legal_gv b \<and> (\<exists>kv \<in> set kvs. b = fst kv \<or> b = snd kv)) kvs"
    using w by (force simp: list_all_iff)
  have "rd_list (length kvs) (rd_pair (decode_variant_full ff)) (advance v 8) =
      Ok (map (map_prod (seen ff) (seen ff)) kvs, advance v (8 + length ?items))"
    using wire_codec.reads_list [OF wire_codec_pair [OF c] all _ b, of "length kvs"] g by simp
  moreover have "map (map_prod (seen ff) (seen ff)) kvs = map (\<lambda>(k, x). (seen ff k, seen ff x)) kvs"
    by (simp add: map_prod_def)
  ultimately show ?thesis
    using full_on [OF g h] count_on [OF l] w by (simp add: decode_body_def)
qed

lemma decode_full_on:
  "legal_gv g \<Longrightarrow> go_buf v \<Longrightarrow> on_bytes v (enc_full g) \<Longrightarrow>
     decode_variant_full ff v = Ok (seen ff g, advance v (length (enc_full g)))"
proof (induction g arbitrary: v)
  case (GDict kvs)
  show ?case
  proof (rule full_GDict [OF GDict.prems(2,3,1)], unfold_locales)
    fix x v
    assume "legal_gv x \<and> (\<exists>kv\<in>set kvs. x = fst kv \<or> x = snd kv)"
      and "go_buf v" and "on_bytes v (enc_full x)"
    then show "decode_variant_full ff v = Ok (seen ff x, advance v (length (enc_full x)))"
      using GDict.IH by (auto simp: fsts.simps snds.simps)
  qed
next
  case (GArr xs)
  show ?case
    by (rule full_GArr [OF GArr.prems(2,3,1)], unfold_locales) (use GArr.IH in blast)
next
  case (GBool b)
  then show ?case using full_GBool [of v b ff] by (simp only: seen.simps)
next
  case (GInt i)
  then show ?case using full_GInt [of v i ff] by (simp only: seen.simps)
next
  case (GStr k s)
  then show ?case using full_GStr [of v k s ff] by (simp only: seen.simps legal_gv.simps)
next
  case (GBytes bs)
  then show ?case using full_GBytes [of v bs ff] by (simp only: seen.simps legal_gv.simps)
next
  case (GInts ws)
  then show ?case by (intro full_GInts)
next
  case (GStrs ss)
  then show ?case by (intro full_GStrs)
qed (rule full_scalar; simp)+

interpretation fullc: wire_codec "decode_variant_full ff" enc_full "seen ff" legal_gv
  by unfold_locales (rule decode_full_on)

section \<open>The compressed form\<close>

definition fits8 :: "64 word \<Rightarrow> bool" where
  "fits8 i \<longleftrightarrow> scast (ucast i :: 8 word) = i"

definition fits16 :: "64 word \<Rightarrow> bool" where
  "fits16 i \<longleftrightarrow> scast (ucast i :: 16 word) = i"

fun enc_arg :: "gv \<Rightarrow> byte list" where
  "enc_arg (GBool b) = [if b then 0x81 else 0x01]"
| "enc_arg (GInt i) =
     (if fits8 i then [0x02, ucast i]
      else if fits16 i then 0x42 # le_bytes 2 (unat (ucast i :: 16 word))
      else if fits32 i then 0x82 # le_bytes 4 (unat (ucast i :: 32 word))
      else 0xC2 # le_bytes 8 (unat i))"
| "enc_arg g = enc_full g"

lemma idx_on: "on_bytes v (m # bs) \<Longrightarrow> idx (vb v) (vo v) = Ok m \<and> vo v < length (vb v)"
  using vlimit_le [of v] by (auto simp: on_bytes_def idx_def hd_drop_conv_nth take_Suc)

lemma arg_GInt:
  assumes "go_buf v" and "on_bytes v (enc_arg (GInt i))"
  shows "decode_variant_arg ff v = Ok (VInt i, advance v (length (enc_arg (GInt i))))"
proof -
  obtain m bs where e: "enc_arg (GInt i) = m # bs" by (cases "enc_arg (GInt i)") (auto split: if_splits)
  with assms(2) have b: "on_bytes (advance v 1) bs" and p: "idx (vb v) (vo v) = Ok m" "vo v < length (vb v)"
    using on_bytes_Cons [of v m bs] idx_on [of v m bs] by auto
  show ?thesis
    using e b p unfolding decode_variant_arg_def Let_def
    by (auto simp: as_val_def fits8_def fits16_def fits32_def rd_i8_on rd_i16_on rd_i32_on rd_i64_on
        split: if_splits)
qed

lemma le_bytes_4_head: "le_bytes 4 x = of_nat (x mod 256) # le_bytes 3 (x div 256)"
  using le_bytes.simps(2) [of 3 x] by (simp del: le_bytes.simps)

lemma full_head:
  assumes "\<forall>b. g \<noteq> GBool b" and "\<forall>i. g \<noteq> GInt i"
  shows "\<exists>m bs. enc_full g = m # bs \<and> m AND 0x3F \<noteq> 1 \<and> m AND 0x3F \<noteq> 2"
proof (cases g)
  case (GStr k s)
  then show ?thesis by (cases k) (simp_all add: pad4_def le_bytes_4_head)
qed (use assms in \<open>simp_all add: pad4_def le_bytes_4_head\<close>)

lemma decode_arg_on:
  assumes "legal_gv g" and "go_buf v" and "on_bytes v (enc_arg g)"
  shows "decode_variant_arg ff v = Ok (seen ff g, advance v (length (enc_arg g)))"
proof (cases "(\<exists>b. g = GBool b) \<or> (\<exists>i. g = GInt i)")
  case True
  then show ?thesis
  proof (elim disjE exE)
    fix b
    assume "g = GBool b"
    with assms(3) show ?thesis
      using idx_on [of v "if b then 0x81 else 0x01" "[]"]
      by (auto simp: decode_variant_arg_def Let_def)
  next
    fix i
    assume "g = GInt i"
    with assms show ?thesis using arg_GInt [of v i ff] by simp
  qed
next
  case False
  then have e: "enc_arg g = enc_full g" by (cases g) auto
  obtain m bs where "enc_full g = m # bs" "m AND 0x3F \<noteq> 1" "m AND 0x3F \<noteq> 2"
    using full_head [of g] False by auto
  with assms e show ?thesis
    using idx_on [of v m bs] decode_full_on [of g v ff]
    by (simp add: decode_variant_arg_def Let_def)
qed

interpretation argc: wire_codec "decode_variant_arg ff" enc_arg "seen ff" legal_gv
  by unfold_locales (rule decode_arg_on)

end
