(* ===== verification/Godot_Variant_Props.thy ===== *)
theory Godot_Variant_Props imports Godot_Variant_Codec begin

text \<open>
  What the variant decoder guarantees its callers, over the definitions of \<open>Godot_Variant\<close> and the
  documented format of \<open>Godot_Variant_Codec\<close>.
\<close>

lemma go_buf_buf_at: "length pre + length bs < 2 ^ 63 \<Longrightarrow> go_buf (buf_at pre bs)"
  by (simp add: go_buf_def buf_at_def)

text \<open>C29: encode_variant round trip.  Wherever an encoding of a legal value stands in a buffer,
  \<open>decodeVariantFull\<close> returns the value the encoding denotes and stops exactly behind it, whatever
  precedes or follows.\<close>

theorem decode_variant_full_roundtrip:
  assumes "legal_gv g" and "length pre + length (enc_full g @ post) < 2 ^ 63"
  shows "decode_variant_full ff (buf_at pre (enc_full g @ post)) =
    Ok (seen ff g, advance (buf_at pre (enc_full g @ post)) (length (enc_full g)))"
  by (rule fullc.reads [OF assms(1) go_buf_buf_at [OF assms(2)] on_bytes_buf_at])

theorem decode_variant_full_roundtrip_witness:
  "decode_variant_full (\<lambda>_. []) (buf_at [7] (enc_full (GDict [(GStr StringT ''hp'', GArr [GInt 5, GBool True])]) @ [9])) =
    Ok (VDict [(''hp'', VArr [VInt 5, VBool True])],
      advance (buf_at [7] (enc_full (GDict [(GStr StringT ''hp'', GArr [GInt 5, GBool True])]) @ [9])) 44)"
proof -
  let ?g = "GDict [(GStr StringT ''hp'', GArr [GInt 5, GBool True])]"
  have f: "fits32 5" by (simp add: fits32_def)
  have "length (enc_full ?g) = 44" by (simp add: f enc_str_def)
  moreover have "seen (\<lambda>_. []) ?g = VDict [(''hp'', VArr [VInt 5, VBool True])]"
    by (simp add: dict_of_def)
  ultimately show ?thesis
    using decode_variant_full_roundtrip [of ?g "[7]" "[9]" "\<lambda>_. []"]
    by (simp del: enc_full.simps seen.simps add: max_items_def short_str_def)
qed

text \<open>Compressed round trip.  \<open>decodeVariantArg\<close> inverts \<open>encode_and_compress_variant\<close>: BOOL in
  bit 7 of the one byte, INT in its shortest mode, every other type in the full form whose first
  byte is the low byte of the type field; the cursor stops exactly behind the encoding.\<close>

theorem decode_variant_arg_roundtrip:
  assumes "legal_gv g" and "length pre + length (enc_arg g @ post) < 2 ^ 63"
  shows "decode_variant_arg ff (buf_at pre (enc_arg g @ post)) =
    Ok (seen ff g, advance (buf_at pre (enc_arg g @ post)) (length (enc_arg g)))"
  by (rule argc.reads [OF assms(1) go_buf_buf_at [OF assms(2)] on_bytes_buf_at])

theorem decode_variant_arg_roundtrip_witness:
  "decode_variant_arg (\<lambda>_. []) (buf_at [] (enc_arg (GInt (- 300)) @ [1, 2])) =
    Ok (VInt (- 300), advance (buf_at [] (enc_arg (GInt (- 300)) @ [1, 2])) 3)"
proof -
  have "\<not> fits8 (- 300)" "fits16 (- 300)" by (simp_all add: fits8_def fits16_def)
  then have "length (enc_arg (GInt (- 300))) = 3" by simp
  then show ?thesis
    using decode_variant_arg_roundtrip [of "GInt (- 300)" "[]" "[1, 2]" "\<lambda>_. []"]
    by (simp del: enc_arg.simps)
qed

text \<open>C31: the decoder is total.  On any bytes, from any cursor, \<open>decodeVariantArg\<close> terminates
  without a panic: it reports failure, or returns a value and a cursor that moved forward only,
  over the same buffer, and by at most the three padding bytes beyond its end.\<close>

theorem decode_variant_arg_total:
  assumes "length (vb v) < 2 ^ 63"
  shows "decode_variant_arg ff v = Fail \<or>
    (\<exists>x k. decode_variant_arg ff v = Ok (x, advance v k) \<and>
       vo v + k \<le> max (vo v) (length (vb v) + 3))"
proof -
  have g: "go_buf v" using assms by (simp add: go_buf_def)
  note s = decode_variant_arg_safe [OF g, of ff]
  show ?thesis
  proof (cases "decode_variant_arg ff v")
    case (Ok a)
    obtain x v' where a: "a = (x, v')" by (cases a)
    have f: "frame v v'" using s(1) Ok a by (simp add: safe_read_def)
    then have "v' = advance v (vo v' - vo v)" by (simp add: frame_def advance_def)
    then show ?thesis
      using Ok a f unfolding frame_def by (metis le_add_diff_inverse)
  qed (use s in auto)
qed

theorem decode_variant_arg_total_witness:
  "decode_variant_arg (\<lambda>_. []) (buf_at [] [4, 0, 0]) = Fail \<or>
    (\<exists>x k. decode_variant_arg (\<lambda>_. []) (buf_at [] [4, 0, 0]) = Ok (x, advance (buf_at [] [4, 0, 0]) k) \<and>
       k \<le> 6)"
  using decode_variant_arg_total [of "buf_at [] [4, 0, 0]" "\<lambda>_. []"] by (simp add: buf_at_def)

text \<open>The container cap drops the elements but not the container.  An ARRAY or a DICTIONARY
  that announces 100000 elements or more decodes successfully to an empty container, and the
  cursor stops in front of its first element: the elements are read as the next values.\<close>

theorem oversized_container_is_empty:
  assumes "length (vb v) < 2 ^ 63" and "max_items \<le> unat (n :: 32 word)" and "on_bytes v (le_bytes 4 t @ le_bytes 4 (unat n))"
    and "t = 27 \<or> t = 28"
  shows "decode_variant_full ff v = Ok (if t = 27 then VDict [] else VArr [], advance v 8)"
proof -
  have g: "go_buf v" using assms(1) by (simp add: go_buf_def)
  have h: "on_bytes v (le_bytes 4 t)" and c: "on_bytes (advance v 4) (le_bytes 4 (unat n))"
    using assms(3) by (simp_all add: on_bytes_append)
  have "t < 2 ^ 32" using assms(4) by auto
  from full_on [OF g h this, of ff] rd_u32_on [OF c] assms(2,4) show ?thesis
    by (auto simp: decode_body_def dict_of_def)
qed

theorem oversized_container_is_empty_witness:
  "decode_variant_full (\<lambda>_. []) (buf_at [] (le_bytes 4 28 @ le_bytes 4 100000 @ [1, 0, 0, 0, 1, 0, 0, 0])) =
    Ok (VArr [], advance (buf_at [] (le_bytes 4 28 @ le_bytes 4 100000 @ [1, 0, 0, 0, 1, 0, 0, 0])) 8)"
proof -
  let ?v = "buf_at [] ((le_bytes 4 28 @ le_bytes 4 100000) @ [1, 0, 0, 0, 1, 0, 0, 0])"
  have "on_bytes ?v (le_bytes 4 28 @ le_bytes 4 (unat (100000 :: 32 word)))"
    using on_bytes_buf_at [of "[]" "le_bytes 4 28 @ le_bytes 4 100000"] by simp
  then show ?thesis
    using oversized_container_is_empty [of ?v 100000 28 "\<lambda>_. []"]
    by (simp add: max_items_def buf_at_def)
qed

end
