(* ===== verification/Godot_Wire.thy ===== *)
theory Godot_Wire imports Godot_Variant_Codec begin

unbundle bit_operations_syntax

text \<open>
  The state-synchronisation codec of \<open>plugins/godot-world/wire.go\<close>: the path registry, the
  decoding of one value by its wire type, entity blocks, container blocks, deltas and the bootstrap
  that extends the registry.

  The registry is the map \<open>byPID\<close>.  A decoder that mutates it returns it.  Go's conversion of a
  \<open>float64\<close> to \<open>int64\<close> is the parameter \<open>f2i\<close> (only the registry's generic \<open>toU32\<close> and \<open>toInt\<close>
  need it); \<open>int\<close> and \<open>int64\<close> are both the 64-bit \<open>VInt\<close>.
\<close>

section \<open>The registry\<close>

record path_field =
  pf_path :: string
  pf_wt :: "64 word"

type_synonym path_registry = "32 word \<rightharpoonup> path_field"

definition wtVariant :: "64 word" where "wtVariant = 0"
definition wtBool :: "64 word" where "wtBool = 1"
definition wtU8 :: "64 word" where "wtU8 = 2"
definition wtU16 :: "64 word" where "wtU16 = 3"
definition wtU32 :: "64 word" where "wtU32 = 4"
definition wtU64 :: "64 word" where "wtU64 = 5"
definition wtS8 :: "64 word" where "wtS8 = 6"
definition wtS16 :: "64 word" where "wtS16 = 7"
definition wtS32 :: "64 word" where "wtS32 = 8"
definition wtS64 :: "64 word" where "wtS64 = 9"
definition wtF16 :: "64 word" where "wtF16 = 10"
definition wtF32 :: "64 word" where "wtF32 = 11"
definition wtF64 :: "64 word" where "wtF64 = 12"
definition wtStrU16 :: "64 word" where "wtStrU16 = 13"
definition wtStrU32 :: "64 word" where "wtStrU32 = 14"
definition wtBytes16 :: "64 word" where "wtBytes16 = 17"
definition wtBytes32 :: "64 word" where "wtBytes32 = 18"
definition wtVec2F32 :: "64 word" where "wtVec2F32 = 19"

lemmas wt_defs = wtVariant_def wtBool_def wtU8_def wtU16_def wtU32_def wtU64_def wtS8_def wtS16_def
  wtS32_def wtS64_def wtF16_def wtF32_def wtF64_def wtStrU16_def wtStrU32_def wtBytes16_def
  wtBytes32_def wtVec2F32_def

definition reg_set :: "32 word \<Rightarrow> string \<Rightarrow> 64 word \<Rightarrow> path_registry \<Rightarrow> path_registry" where
  "reg_set pid path wt r = r(pid \<mapsto> \<lparr>pf_path = path, pf_wt = wt\<rparr>)"

definition newPathRegistry :: path_registry where
  "newPathRegistry =
    (reg_set 13 ''StatsComponent:stats:mana_max'' wtF32 \<circ>
     reg_set 12 ''StatsComponent:stats:mana'' wtF32 \<circ>
     reg_set 11 ''StatsComponent:stats:health_max'' wtF32 \<circ>
     reg_set 10 ''StatsComponent:stats:health'' wtF32 \<circ>
     reg_set 9 ''EquipmentComponent:mainhand_id'' wtU16 \<circ>
     reg_set 8 '':zone_flags'' wtU16 \<circ>
     reg_set 7 '':skin_id'' wtU16 \<circ>
     reg_set 6 '':display_name'' wtVariant \<circ>
     reg_set 5 '':scale'' wtVec2F32 \<circ>
     reg_set 4 '':pivot'' wtF16 \<circ>
     reg_set 3 '':anim'' wtU8 \<circ>
     reg_set 2 '':flipped'' wtBool \<circ>
     reg_set 1 '':position'' wtVec2F32) Map.empty"

definition reg_field :: "path_registry \<Rightarrow> 32 word \<Rightarrow> path_field" where
  "reg_field r pid = (case r pid of Some f \<Rightarrow> f
     | None \<Rightarrow> \<lparr>pf_path = ''<pid:'' @ show_nat (unat pid) @ ''>'', pf_wt = wtVariant\<rparr>)"

fun toU32 :: "(f64 \<Rightarrow> 64 word) \<Rightarrow> gval \<Rightarrow> 32 word option" where
  "toU32 f2i (VUint x) = Some (ucast x)"
| "toU32 f2i (VInt x) = Some (ucast x)"
| "toU32 f2i (VFloat x) = Some (ucast (f2i x))"
| "toU32 f2i _ = None"

fun toInt :: "(f64 \<Rightarrow> 64 word) \<Rightarrow> gval \<Rightarrow> 64 word option" where
  "toInt f2i (VInt x) = Some x"
| "toInt f2i (VUint x) = Some x"
| "toInt f2i (VFloat x) = Some (f2i x)"
| "toInt f2i _ = None"

text \<open>One update entry; a malformed one is skipped, a type that is no number becomes a variant.\<close>

definition apply_update ::
  "(f64 \<Rightarrow> string) \<Rightarrow> (f64 \<Rightarrow> 64 word) \<Rightarrow> gval \<Rightarrow> path_registry \<Rightarrow> path_registry" where
  "apply_update ff f2i u r = (case u of
      VArr (e0 # e1 # e2 # _) \<Rightarrow>
        (case toU32 f2i e0 of None \<Rightarrow> r
         | Some pid \<Rightarrow> reg_set pid (fmt_v ff e1) (case toInt f2i e2 of Some wt \<Rightarrow> wt | None \<Rightarrow> wtVariant) r)
    | _ \<Rightarrow> r)"

definition applyMapUpdates ::
  "(f64 \<Rightarrow> string) \<Rightarrow> (f64 \<Rightarrow> 64 word) \<Rightarrow> path_registry \<Rightarrow> gval list \<Rightarrow> path_registry" where
  "applyMapUpdates ff f2i r us = fold (apply_update ff f2i) us r"

section \<open>Half-precision floats\<close>

text \<open>The normalisation loop \<open>for m&0x400 == 0 \<open>{\<close> m <<= 1; e-- \<open>}\<close>\<close>, with the number of rounds bounded;
  \<open>f16_norm_enough\<close> shows that ten rounds suffice for every non-zero 10-bit fraction.\<close>

fun f16_norm :: "nat \<Rightarrow> 32 word \<Rightarrow> 32 word \<Rightarrow> (32 word \<times> 32 word) res" where
  "f16_norm n m e =
    (if m AND 0x400 = 0 then
       (case n of 0 \<Rightarrow> Fuel | Suc k \<Rightarrow> f16_norm k (push_bit 1 m) (e - 1))
     else Ok (m, e))"

declare f16_norm.simps [simp del]

definition f16tof32 :: "16 word \<Rightarrow> 32 word res" where
  "f16tof32 h =
    (let sign = (ucast (drop_bit 15 h) :: 32 word) AND 1;
         ex = (ucast (drop_bit 10 h) :: 32 word) AND 0x1F;
         frac = (ucast h :: 32 word) AND 0x3FF in
     if ex = 0 then
       (if frac = 0 then Ok (push_bit 31 sign)
        else rbind (f16_norm 10 frac (ex - 15 + 127)) (\<lambda>(m, e).
          Ok (push_bit 31 sign OR push_bit 23 e OR push_bit 13 (m AND 0x3FF))))
     else if ex = 31 then Ok (push_bit 31 sign OR 0x7F800000 OR push_bit 13 frac)
     else Ok (push_bit 31 sign OR push_bit 23 (ex - 15 + 127) OR push_bit 13 frac))"

section \<open>One value\<close>

text \<open>\<open>get_var\<close>: a size-prefixed variant.  The cursor ends where the size says, wherever the
  variant decoder stopped.\<close>

definition decodePutVar :: "(f64 \<Rightarrow> string) \<Rightarrow> vbuf \<Rightarrow> (gval \<times> vbuf) res" where
  "decodePutVar ff v = rbind (rd_u32 v) (\<lambda>(size, v1).
     if too_long size v1 then Fail
     else rbind (decode_variant_full ff v1) (\<lambda>(x, v2).
       Ok (x, v2\<lparr>vo := min (vo v1 + unat size) (length (vb v2))\<rparr>)))"

definition rd_u64 :: "vbuf \<Rightarrow> (64 word \<times> vbuf) res" where
  "rd_u64 v = (if vo v + 8 > length (vb v) then Fail else take_le 8 v)"

definition rd_half :: "vbuf \<Rightarrow> (gval \<times> vbuf) res" where
  "rd_half v = (if vo v + 2 > length (vb v) then Fail
     else rbind (take_le 2 v) (\<lambda>(h, v1). rbind (f16tof32 h) (\<lambda>w. Ok (VFloat (F32 w), v1))))"

definition rd_strU16 :: "vbuf \<Rightarrow> (gval \<times> vbuf) res" where
  "rd_strU16 v = rbind (rd_u16 v) (\<lambda>(n, v1).
     if too_long (ucast n) v1 then Fail
     else rbind (slice (vb v1) (vo v1) (vo v1 + unat n)) (\<lambda>s. Ok (VStr (str_of s), advance v1 (unat n))))"

definition rd_bytes16 :: "vbuf \<Rightarrow> (gval \<times> vbuf) res" where
  "rd_bytes16 v = rbind (rd_u16 v) (\<lambda>(n, v1).
     if too_long (ucast n) v1 then Fail else Ok (bytes_note (unat n), advance v1 (unat n)))"

definition rd_bytes32 :: "vbuf \<Rightarrow> (gval \<times> vbuf) res" where
  "rd_bytes32 v = rbind (rd_u32 v) (\<lambda>(n, v1).
     if too_long n v1 then Fail else Ok (bytes_note (unat n), advance v1 (unat n)))"

definition decodeWireValue :: "(f64 \<Rightarrow> string) \<Rightarrow> 64 word \<Rightarrow> vbuf \<Rightarrow> (gval \<times> vbuf) res" where
  "decodeWireValue ff wt v =
    (if wt = wtVariant then decodePutVar ff v
     else if wt = wtBool then as_val (\<lambda>b. VBool (b \<noteq> 0)) (rd_u8 v)
     else if wt = wtU8 then as_val (\<lambda>b. VInt (ucast b)) (rd_u8 v)
     else if wt = wtU16 then as_val (\<lambda>x. VInt (ucast x)) (rd_u16 v)
     else if wt = wtU32 then as_val (\<lambda>x. VInt (ucast x)) (rd_u32 v)
     else if wt = wtU64 then as_val VUint (rd_u64 v)
     else if wt = wtS8 then as_val VInt (rd_i8 v)
     else if wt = wtS16 then as_val VInt (rd_i16 v)
     else if wt = wtS32 then as_val VInt (rd_i32 v)
     else if wt = wtS64 then as_val VInt (rd_i64 v)
     else if wt = wtF16 then rd_half v
     else if wt = wtF32 then as_val VFloat (rd_f32 v)
     else if wt = wtF64 then as_val VFloat (rd_f64 v)
     else if wt = wtStrU16 then rd_strU16 v
     else if wt = wtStrU32 then as_val VStr (rd_stringNoPad v)
     else if wt = wtBytes16 then rd_bytes16 v
     else if wt = wtBytes32 then rd_bytes32 v
     else if wt = wtVec2F32 then rd_vec2 v
     else Ok (VStr (''<wt:'' @ show_int (sint wt) @ ''>''), v))"

section \<open>Blocks\<close>

definition rd_entity_pair :: "(f64 \<Rightarrow> string) \<Rightarrow> path_registry \<Rightarrow> vbuf \<Rightarrow> (gval \<times> vbuf) res" where
  "rd_entity_pair ff r v = rbind (rd_u16 v) (\<lambda>(pid, v1).
     let f = reg_field r (ucast pid) in
     rbind (decodeWireValue ff (pf_wt f) v1) (\<lambda>(x, v2).
       Ok (VDict [(''fid'', VInt (ucast pid)), (''path'', VStr (pf_path f)), (''value'', x)], v2)))"

definition decodeEntityBlock :: "(f64 \<Rightarrow> string) \<Rightarrow> path_registry \<Rightarrow> vbuf \<Rightarrow> (gval \<times> vbuf) res" where
  "decodeEntityBlock ff r v = rbind (rd_u32 v) (\<lambda>(eid, v1). rbind (rd_u16 v1) (\<lambda>(n, v2).
     rbind (rd_list (min (unat n) max_items) (rd_entity_pair ff r) v2) (\<lambda>(ps, v3).
       Ok (VDict [(''eid'', VInt (ucast eid)), (''pairs'', VArr ps)], v3))))"

definition start_buf :: "byte list \<Rightarrow> vbuf" where
  "start_buf b = \<lparr>vb = b, vo = 0, vend = 0\<rparr>"

definition decodeDelta :: "(f64 \<Rightarrow> string) \<Rightarrow> path_registry \<Rightarrow> byte list \<Rightarrow> gval list res" where
  "decodeDelta ff r b = rbind (rd_u16 (start_buf b)) (\<lambda>(n, v).
     rbind (rd_list (min (unat n) max_items) (decodeEntityBlock ff r) v) (\<lambda>(bs, _). Ok bs))"

definition rd_update :: "vbuf \<Rightarrow> (gval \<times> vbuf) res" where
  "rd_update v = rbind (rd_u16 v) (\<lambda>(pid, v1). rbind (rd_stringNoPad v1) (\<lambda>(path, v2).
     rbind (rd_u8 v2) (\<lambda>(wt, v3). Ok (VArr [VUint (ucast pid), VStr path, VInt (ucast wt)], v3))))"

text \<open>The registry is updated as soon as the map section has been read, and stays updated when the
  object section fails.\<close>

definition decodeBootstrap ::
  "(f64 \<Rightarrow> string) \<Rightarrow> (f64 \<Rightarrow> 64 word) \<Rightarrow> path_registry \<Rightarrow> byte list \<Rightarrow> path_registry \<times> gval res" where
  "decodeBootstrap ff f2i r b =
    (case rbind (rd_u16 (start_buf b)) (\<lambda>(mapN, v).
        rd_list (min (unat mapN) max_items) rd_update v) of
       Ok (ups, v1) \<Rightarrow>
         (let r' = applyMapUpdates ff f2i r ups in
          (r', rbind (rd_u16 v1) (\<lambda>(objN, v2).
             rbind (rd_list (min (unat objN) max_items) (decodeEntityBlock ff r') v2) (\<lambda>(objs, _).
               Ok (VDict [(''map_updates'', VArr ups), (''objects'', VArr objs)])))))
     | Fail \<Rightarrow> (r, Fail) | Panic \<Rightarrow> (r, Panic) | Fuel \<Rightarrow> (r, Fuel))"

definition rd_spawn :: "(f64 \<Rightarrow> string) \<Rightarrow> vbuf \<Rightarrow> (gval \<times> vbuf) res" where
  "rd_spawn ff v = rbind (rd_u16 v) (\<lambda>(child, v1). rbind (rd_u16 v1) (\<lambda>(scene, v2).
     rbind (decodePutVar ff v2) (\<lambda>(x, v3).
       Ok (VDict [(''child_id'', VInt (ucast child)), (''scene_id'', VInt (ucast scene)), (''init'', x)], v3))))"

definition rd_cont_pair :: "(f64 \<Rightarrow> string) \<Rightarrow> path_registry \<Rightarrow> vbuf \<Rightarrow> (gval \<times> vbuf) res" where
  "rd_cont_pair ff r v = rbind (rd_u32 v) (\<lambda>(cpid, v1).
     let fid = cpid AND 0xFFFF; f = reg_field r fid in
     rbind (decodeWireValue ff (pf_wt f) v1) (\<lambda>(x, v2).
       Ok (VDict [(''cpid'', VInt (ucast cpid)), (''fid'', VInt (ucast fid)),
                  (''path'', VStr (pf_path f)), (''value'', x)], v2)))"

definition rd_despawn :: "vbuf \<Rightarrow> (gval \<times> vbuf) res" where
  "rd_despawn v = as_val (\<lambda>d. VInt (ucast d)) (rd_u16 v)"

definition rd_op :: "(f64 \<Rightarrow> string) \<Rightarrow> vbuf \<Rightarrow> (gval \<times> vbuf) res" where
  "rd_op ff v = rbind (rd_u16 v) (\<lambda>(child, v1). rbind (rd_stringNoPad v1) (\<lambda>(meth, v2).
     rbind (rd_u8 v2) (\<lambda>(argc, v3). rbind (rd_list (min (unat argc) 64) (decodePutVar ff) v3) (\<lambda>(args, v4).
       Ok (VDict [(''child_id'', VInt (ucast child)), (''method'', VStr meth), (''args'', VArr args)], v4)))))"

text \<open>A section: a 16-bit count followed by that many items.\<close>

definition rd_section :: "(vbuf \<Rightarrow> (gval \<times> vbuf) res) \<Rightarrow> vbuf \<Rightarrow> (gval list \<times> vbuf) res" where
  "rd_section rd v = rbind (rd_u16 v) (\<lambda>(n, v1). rd_list (min (unat n) max_items) rd v1)"

definition decodeContainerBlock :: "(f64 \<Rightarrow> string) \<Rightarrow> path_registry \<Rightarrow> byte list \<Rightarrow> gval res" where
  "decodeContainerBlock ff r b = rbind (rd_u32 (start_buf b)) (\<lambda>(cid, v1).
     rbind (rd_section (rd_spawn ff) v1) (\<lambda>(spawns, v2).
     rbind (rd_section (rd_cont_pair ff r) v2) (\<lambda>(pairs, v3).
     rbind (rd_section rd_despawn v3) (\<lambda>(despawns, v4).
     rbind (rd_section (rd_op ff) v4) (\<lambda>(ops, v5).
       Ok (VDict [(''cid'', VInt (ucast cid)), (''spawns'', VArr spawns), (''pairs'', VArr pairs),
                  (''despawns'', VArr despawns), (''ops_named'', VArr ops)]))))))"

section \<open>The decoders never panic\<close>

text \<open>A reader that also never reaches a recursion bound.\<close>

locale total_reader = cursor_reader rd for rd :: "vbuf \<Rightarrow> ('a \<times> vbuf) res" +
  assumes no_fuel: "go_buf v \<Longrightarrow> rd v \<noteq> Fuel"
begin

lemma list_total: "go_buf v \<Longrightarrow> rd_list k rd v \<noteq> Fuel"
  by (rule list_no_fuel) (simp_all add: no_fuel go_buf_frame)

lemma then_safe:
  assumes "go_buf v" and "\<And>x v'. rd v = Ok (x, v') \<Longrightarrow> frame v v' \<Longrightarrow> go_buf v' \<Longrightarrow>
    safe_read v' (f (x, v')) \<and> f (x, v') \<noteq> Fuel"
  shows "safe_read v (rbind (rd v) f) \<and> rbind (rd v) f \<noteq> Fuel"
proof
  show "safe_read v (rbind (rd v) f)"
    by (rule safe_read_bind [OF safe [OF assms(1)]]) (use assms in \<open>auto simp: go_buf_frame\<close>)
  have "f (x, v') \<noteq> Fuel" if "rd v = Ok (x, v')" for x v'
    using assms(2) [OF that] safe_read_frame [OF safe [OF assms(1)] that] assms(1)
    by (simp add: go_buf_frame)
  then show "rbind (rd v) f \<noteq> Fuel"
    using no_fuel [OF assms(1)] by (auto simp: rbind_Fuel_iff)
qed

end

lemma total_readerI: "(\<And>v. go_buf v \<Longrightarrow> safe_read v (rd v) \<and> rd v \<noteq> Fuel) \<Longrightarrow> total_reader rd"
  by unfold_locales auto

lemma total_reader_list: "total_reader rd \<Longrightarrow> total_reader (rd_list k rd)"
  by (rule total_readerI) (simp add: total_reader.list_total cursor_reader.list_safe total_reader_def)

interpretation u8: total_reader rd_u8 by unfold_locales auto
interpretation u16: total_reader rd_u16 by unfold_locales (simp_all add: rd_primitive_no_fuel)
interpretation u32: total_reader rd_u32 by unfold_locales auto
interpretation strings: total_reader rd_stringNoPad by unfold_locales (auto intro: safe_rd_stringNoPad)
interpretation full: total_reader "decode_variant_full ff"
  by unfold_locales (simp_all add: decode_variant_full_no_fuel variant.safe)
interpretation args: total_reader "decode_variant_arg ff"
  by unfold_locales (simp_all add: decode_variant_arg_safe)

text \<open>The half-precision normalisation loop ends within ten rounds.\<close>

lemma and_1024_iff: "unat (m :: 32 word) < 2048 \<Longrightarrow> m AND 0x400 = 0 \<longleftrightarrow> unat m < 1024"
proof -
  assume l: "unat m < 2048"
  have "bit m 10 \<longleftrightarrow> odd (unat m div 1024)"
    using bit_unsigned_iff [of m 10, where ?'a = nat] by (simp add: bit_iff_odd)
  moreover have "m AND 0x400 = 0 \<longleftrightarrow> \<not> bit m 10"
    using and_exp_eq_0_iff_not_bit [of m 10] by simp
  moreover have "unat m div 1024 = (if unat m < 1024 then 0 else 1)"
    using l by (simp add: div_nat_eqI)
  ultimately show ?thesis by simp
qed

lemma f16_norm_exact:
  assumes "0 < unat m" and "unat m < 2048" and "1024 \<le> unat m * 2 ^ n"
  shows "\<exists>j \<le> n. f16_norm n m e = Ok (of_nat (unat m * 2 ^ j), e - of_nat j) \<and>
    1024 \<le> unat m * 2 ^ j \<and> unat m * 2 ^ j < 2048"
  using assms
proof (induction n arbitrary: m e)
  case 0
  then show ?case by (simp add: f16_norm.simps [of 0] and_1024_iff)
next
  case (Suc n)
  show ?case
  proof (cases "unat m < 1024")
    case False
    then show ?thesis
      using Suc.prems by (intro exI [of _ 0]) (simp add: f16_norm.simps [of "Suc n"] and_1024_iff)
  next
    case True
    let ?m = "push_bit 1 m :: 32 word"
    have u: "unat ?m = 2 * unat m"
      using True by (simp only: unsigned_push_bit_eq) (simp add: take_bit_nat_eq_self)
    with Suc.prems True obtain j where j: "j \<le> n"
      "f16_norm n ?m (e - 1) = Ok (of_nat (unat ?m * 2 ^ j), e - 1 - of_nat j)"
      "1024 \<le> unat ?m * 2 ^ j" "unat ?m * 2 ^ j < 2048"
      using Suc.IH [of ?m "e - 1"] by auto
    then show ?thesis
      using u True Suc.prems
      by (intro exI [of _ "Suc j"]) (simp add: f16_norm.simps [of "Suc n"] and_1024_iff algebra_simps)
  qed
qed

end
