(* ===== verification/Godot_Wire_Half.thy ===== *)
theory Godot_Wire_Half imports Godot_Wire begin

unbundle bit_operations_syntax

text \<open>
  The half-precision conversion of \<open>wire.go\<close> against the values the two formats denote, both in
  units of \<open>2 ^ - 149\<close>, the least positive single, so that every finite half and every finite
  single is an integer.
\<close>

section \<open>Values in units of the least single\<close>

definition half_sign :: "16 word \<Rightarrow> nat" where "half_sign h = unat h div 2 ^ 15"
definition half_exp :: "16 word \<Rightarrow> nat" where "half_exp h = unat h div 2 ^ 10 mod 32"
definition half_frac :: "16 word \<Rightarrow> nat" where "half_frac h = unat h mod 2 ^ 10"

definition sgn_of :: "nat \<Rightarrow> int" where "sgn_of s = (if s = 0 then 1 else - 1)"

definition half_units :: "16 word \<Rightarrow> int" where
  "half_units h = sgn_of (half_sign h) *
    (if half_exp h = 0 then int (half_frac h) * 2 ^ 125
     else int (1024 + half_frac h) * 2 ^ (half_exp h - 1) * 2 ^ 125)"

definition single_units :: "32 word \<Rightarrow> int" where
  "single_units w = sgn_of (unat w div 2 ^ 31) *
    (if unat w div 2 ^ 23 mod 256 = 0 then int (unat w mod 2 ^ 23)
     else int (2 ^ 23 + unat w mod 2 ^ 23) * 2 ^ (unat w div 2 ^ 23 mod 256 - 1))"

section \<open>Assembling a single from its fields\<close>

lemma bit_unat_less: "bit w n \<Longrightarrow> unat w < 2 ^ k \<Longrightarrow> n < k"
proof -
  assume b: "bit w n" and l: "unat w < 2 ^ k"
  then have "odd (unat w div 2 ^ n)"
    using bit_unsigned_iff [of w n, where ?'a = nat] by (simp add: bit_iff_odd)
  then have "2 ^ n \<le> unat w" by (cases "unat w < 2 ^ n") auto
  with l have "(2::nat) ^ n < 2 ^ k" by linarith
  then show "n < k" by simp
qed

lemma pack_single:
  fixes s e f :: "32 word"
  assumes "unat s < 2" and "unat e < 256" and "unat f < 1024"
  shows "unat (push_bit 31 s OR push_bit 23 e OR push_bit 13 f) =
    unat s * 2 ^ 31 + unat e * 2 ^ 23 + unat f * 2 ^ 13"
proof -
  have ef: "push_bit 23 e AND push_bit 13 f = 0"
    using bit_unat_less [of f _ 10] assms(3)
    by (intro bit_eqI) (fastforce simp: bit_simps)
  have sef: "push_bit 31 s AND (push_bit 23 e OR push_bit 13 f) = 0"
    using bit_unat_less [of f _ 10] bit_unat_less [of e _ 8] assms(2,3)
    by (intro bit_eqI) (fastforce simp: bit_simps)
  have "push_bit 31 s OR push_bit 23 e OR push_bit 13 f = push_bit 31 s + (push_bit 23 e + push_bit 13 f)"
    using disjunctive_add_eq_or [OF ef] disjunctive_add_eq_or [OF sef] by simp
  also have "\<dots> = of_nat (unat s * 2 ^ 31 + unat e * 2 ^ 23 + unat f * 2 ^ 13)"
    by (simp add: push_bit_eq_mult)
  finally have eq: "push_bit 31 s OR push_bit 23 e OR push_bit 13 f =
    of_nat (unat s * 2 ^ 31 + unat e * 2 ^ 23 + unat f * 2 ^ 13)" .
  show ?thesis
    unfolding eq unat_of_nat by (rule mod_less) (use assms in simp)
qed

lemma pack_fields:
  fixes s e f :: nat
  assumes "s < 2" and "e < 256" and "f < 1024"
  shows "(s * 2 ^ 31 + e * 2 ^ 23 + f * 2 ^ 13) div 2 ^ 31 = s"
    and "(s * 2 ^ 31 + e * 2 ^ 23 + f * 2 ^ 13) div 2 ^ 23 mod 256 = e"
    and "(s * 2 ^ 31 + e * 2 ^ 23 + f * 2 ^ 13) mod 2 ^ 23 = f * 2 ^ 13"
proof -
  let ?x = "s * 2 ^ 31 + e * 2 ^ 23 + f * 2 ^ 13"
  show "?x div 2 ^ 31 = s" by (rule div_nat_eqI) (use assms in simp_all)
  have "?x div 2 ^ 23 = s * 256 + e" by (rule div_nat_eqI) (use assms in simp_all)
  then show "?x div 2 ^ 23 mod 256 = e" using assms by simp
  have "?x = f * 2 ^ 13 + (s * 256 + e) * 2 ^ 23" by simp
  then show "?x mod 2 ^ 23 = f * 2 ^ 13" using assms by (simp only: mod_mult_self1) simp
qed

lemma single_units_pack:
  fixes s e f :: "32 word"
  assumes "unat s < 2" and "unat e < 256" and "unat f < 1024"
  shows "single_units (push_bit 31 s OR push_bit 23 e OR push_bit 13 f) = sgn_of (unat s) *
    (if e = 0 then int (unat f) * 2 ^ 13 else int (1024 + unat f) * 2 ^ 13 * 2 ^ (unat e - 1))"
  unfolding single_units_def pack_single [OF assms] pack_fields [OF assms]
  by (simp add: unat_eq_0 algebra_simps)

section \<open>The fields of a half\<close>

lemma half_fields:
  fixes h :: "16 word"
  shows "unat ((ucast (drop_bit 15 h) :: 32 word) AND 1) = half_sign h"
    and "unat ((ucast (drop_bit 10 h) :: 32 word) AND 0x1F) = half_exp h"
    and "unat ((ucast h :: 32 word) AND 0x3FF) = half_frac h"
proof -
  have l: "unat h < 65536" using unsigned_less [where ?w = h] by simp
  have u: "unat (ucast x :: 32 word) = unat x" for x :: "16 word"
  proof -
    have "unat x < 2 ^ 16" using unsigned_less [where ?w = x] by simp
    then have "unat x < 2 ^ 32" by (rule less_trans) simp
    then show ?thesis by (simp add: unsigned_ucast_eq take_bit_nat_eq_self_iff)
  qed
  have d: "unat (drop_bit n h) = unat h div 2 ^ n" for n
    using l by (simp only: unsigned_drop_bit_eq) (simp add: drop_bit_eq_div take_bit_nat_eq_self)
  note m = unat_and_mask [where ?'a = 32]
  show "unat ((ucast (drop_bit 15 h) :: 32 word) AND 1) = half_sign h"
    using m [of "ucast (drop_bit 15 h)" 1] l by (simp add: u d half_sign_def)
  show "unat ((ucast (drop_bit 10 h) :: 32 word) AND 0x1F) = half_exp h"
    using m [of "ucast (drop_bit 10 h)" 5] by (simp add: u d half_exp_def mask_numeral)
  show "unat ((ucast h :: 32 word) AND 0x3FF) = half_frac h"
    using m [of "ucast h" 10] by (simp add: u half_frac_def mask_numeral)
qed

lemma half_field_bounds: "half_sign h < 2" "half_exp h < 32" "half_frac h < 1024"
  using unsigned_less [where ?w = h, where ?'a = nat]
  by (simp_all add: half_sign_def half_exp_def half_frac_def less_mult_imp_div_less)

text \<open>The computed single, field by field.\<close>

lemma f16tof32_zero: "half_exp h = 0 \<Longrightarrow> half_frac h = 0 \<Longrightarrow>
  \<exists>w. f16tof32 h = Ok w \<and> single_units w = half_units h"
  using half_fields [of h] half_field_bounds [of h]
    single_units_pack [of "(ucast (drop_bit 15 h) :: 32 word) AND 1" 0 0]
  by (simp add: f16tof32_def Let_def unat_eq_0 half_units_def)

lemma f16tof32_normal:
  assumes "0 < half_exp h" and "half_exp h < 31"
  shows "\<exists>w. f16tof32 h = Ok w \<and> single_units w = half_units h"
proof -
  let ?s = "(ucast (drop_bit 15 h) :: 32 word) AND 1"
  let ?e = "(ucast (drop_bit 10 h) :: 32 word) AND 0x1F"
  let ?f = "(ucast h :: 32 word) AND 0x3FF"
  note f = half_fields [of h] half_field_bounds [of h]
  have e: "?e = of_nat (half_exp h)" by (simp flip: f(2))
  have ue: "unat (?e - 15 + 127) = half_exp h + 112"
  proof -
    have "?e - 15 + 127 = of_nat (half_exp h + 112)" by (simp add: e)
    then show ?thesis
      unfolding unat_of_nat by (simp only: unat_of_nat, intro mod_less) (use f(5) in simp)
  qed
  then have nz: "?e - 15 + 127 \<noteq> 0" by auto
  have "single_units (push_bit 31 ?s OR push_bit 23 (?e - 15 + 127) OR push_bit 13 ?f) =
    sgn_of (half_sign h) * (int (1024 + half_frac h) * 2 ^ 13 * 2 ^ (half_exp h + 111))"
    using single_units_pack [of ?s "?e - 15 + 127" ?f] f assms(2) ue nz by simp
  also have "(2::int) ^ (half_exp h + 111) = 2 ^ (half_exp h - 1) * 2 ^ 112"
  proof -
    have "half_exp h + 111 = (half_exp h - 1) + 112" using assms(1) by simp
    then show ?thesis by (simp only: power_add)
  qed
  finally have "single_units (push_bit 31 ?s OR push_bit 23 (?e - 15 + 127) OR push_bit 13 ?f) = half_units h"
    using assms(1) by (simp add: half_units_def algebra_simps)
  moreover have "?e \<noteq> 0" "?e \<noteq> 31" using f(2) assms by auto
  ultimately show ?thesis by (simp add: f16tof32_def Let_def)
qed

lemma f16tof32_subnormal:
  assumes "half_exp h = 0" and "half_frac h \<noteq> 0"
  shows "\<exists>w. f16tof32 h = Ok w \<and> 2 * single_units w = half_units h"
proof -
  let ?s = "(ucast (drop_bit 15 h) :: 32 word) AND 1"
  let ?e = "(ucast (drop_bit 10 h) :: 32 word) AND 0x1F"
  let ?f = "(ucast h :: 32 word) AND 0x3FF"
  note f = half_fields [of h] half_field_bounds [of h]
  obtain j where j: "j \<le> 10"
    and n: "f16_norm 10 ?f (?e - 15 + 127) = Ok (of_nat (half_frac h * 2 ^ j), ?e - 15 + 127 - of_nat j)"
    and b: "1024 \<le> half_frac h * 2 ^ j" "half_frac h * 2 ^ j < 2048"
    using f16_norm_exact [of ?f 10 "?e - 15 + 127"] f assms(2) by auto
  let ?m = "of_nat (half_frac h * 2 ^ j) AND 0x3FF :: 32 word"
  let ?g = "?e - 15 + 127 - of_nat j"
  have "unat (of_nat (half_frac h * 2 ^ j) :: 32 word) = half_frac h * 2 ^ j"
    unfolding unat_of_nat by (rule mod_less) (use b in simp)
  then have m: "unat ?m = half_frac h * 2 ^ j - 1024"
    using b unat_and_mask [of "of_nat (half_frac h * 2 ^ j) :: 32 word" 10]
    by (simp add: mask_numeral mod_if)
  have e: "?e = 0" using f(2) assms(1) by (simp add: unat_eq_0)
  have g: "unat ?g = 112 - j"
  proof -
    have "?g = of_nat (112 - j)" using j by (simp add: e of_nat_diff)
    then show ?thesis by (simp add: unat_of_nat)
  qed
  then have nz: "?g \<noteq> 0" using j by auto
  have "single_units (push_bit 31 ?s OR push_bit 23 ?g OR push_bit 13 ?m) =
    sgn_of (half_sign h) * (int (half_frac h * 2 ^ j) * 2 ^ 13 * 2 ^ (111 - j))"
    using single_units_pack [of ?s ?g ?m] f m g nz b by simp
  also have "int (half_frac h * 2 ^ j) * 2 ^ 13 * 2 ^ (111 - j) = int (half_frac h) * (2 ^ (j + (13 + (111 - j))))"
    by (simp only: power_add of_nat_mult of_nat_power of_nat_numeral mult.assoc)
  also have "j + (13 + (111 - j)) = 124" using j by simp
  finally have "2 * single_units (push_bit 31 ?s OR push_bit 23 ?g OR push_bit 13 ?m) = half_units h"
    using assms(1) by (simp add: half_units_def)
  moreover have "?f \<noteq> 0" using f(3) assms(2) by auto
  ultimately show ?thesis using e n by (simp add: f16tof32_def Let_def)
qed

text \<open>Half to single.  For every finite half the conversion terminates; zeros and normal
  numbers keep their value exactly, and every subnormal half is converted to a single of half its
  value (the exponent starts one too low).\<close>

theorem f16tof32_value:
  assumes "half_exp h < 31"
  shows "\<exists>w. f16tof32 h = Ok w \<and>
    (if half_exp h = 0 \<and> half_frac h \<noteq> 0 then 2 * single_units w = half_units h
     else single_units w = half_units h)"
proof (cases "half_exp h = 0 \<and> half_frac h \<noteq> 0")
  case True
  then show ?thesis using f16tof32_subnormal [of h] by simp
next
  case False
  then obtain w where "f16tof32 h = Ok w" "single_units w = half_units h"
    using assms f16tof32_zero [of h] f16tof32_normal [of h] by auto
  with False show ?thesis by (intro exI [of _ w]) auto
qed

theorem f16tof32_value_witness:
  "(\<exists>w. f16tof32 0x3C00 = Ok w \<and> single_units w = half_units 0x3C00) \<and>
   (\<exists>w. f16tof32 0x0001 = Ok w \<and> 2 * single_units w = half_units 0x0001)"
  using f16tof32_value [of "0x3C00"] f16tof32_value [of "0x0001"]
  by (simp add: half_exp_def half_frac_def)

end
