(* ===== verification/Godot_Wire_Safe.thy ===== *)
theory Godot_Wire_Safe imports Godot_Wire_Half begin

text \<open>
  Totality of the wire decoders of \<open>wire.go\<close>.  \<open>total_reader\<close> is closed under sequencing, choice,
  counted loops and sections, so each decoder is total by following its text.
\<close>

lemma total_ret: "total_reader (\<lambda>v. Ok (x, v))"
  by (rule total_readerI) simp

lemma total_bind:
  assumes "total_reader rd" and "\<And>x. total_reader (f x)"
  shows "total_reader (\<lambda>v. rbind (rd v) (\<lambda>(x, v'). f x v'))"
proof (rule total_readerI)
  fix v
  assume g: "go_buf v"
  show "safe_read v (rbind (rd v) (\<lambda>(x, v'). f x v')) \<and> rbind (rd v) (\<lambda>(x, v'). f x v') \<noteq> Fuel"
    by (rule total_reader.then_safe [OF assms(1) g])
      (simp add: assms(2) total_reader.no_fuel cursor_reader.safe total_reader.axioms(1))
qed

lemma total_if: "total_reader a \<Longrightarrow> total_reader b \<Longrightarrow> total_reader (\<lambda>v. if c then a v else b v)"
  by (cases c) simp_all

lemma total_let: "total_reader (f t) \<Longrightarrow> total_reader (\<lambda>v. Let t (\<lambda>x. f x v))"
  by simp

lemma total_as_val: "total_reader rd \<Longrightarrow> total_reader (\<lambda>v. as_val f (rd v))"
  unfolding as_val_def by (erule total_bind) (rule total_ret)

lemma total_i8: "total_reader rd_i8" and total_i16: "total_reader rd_i16"
  and total_i32: "total_reader rd_i32" and total_i64: "total_reader rd_i64"
  and total_f32: "total_reader rd_f32" and total_f64: "total_reader rd_f64"
  by (rule total_readerI, simp)+

lemma total_vec2: "total_reader rd_vec2"
  by (rule total_readerI) (simp add: safe_rd_vec2)

lemma rd_u16_within: "rd_u16 v = Ok (n, v1) \<Longrightarrow> vo v1 \<le> vlimit v1 \<and> frame v v1"
  using vlimit_le [of v]
  by (auto simp: rd_eqs frame_def advance_def vlimit_def split: if_splits)

lemma too_long_fits:
  assumes "go_buf v" and "vo v \<le> vlimit v" and "\<not> too_long n v"
  shows "vo v + unat n \<le> length (vb v)"
  using assms too_long_iff [of v n] vlimit_le [of v] by (simp add: go_buf_def)

lemma total_u64: "total_reader rd_u64"
  by (rule total_readerI) (auto simp: rd_u64_def take_le_eq intro: frame_advance)

lemma unat_ucast_16_32 [simp]: "unat (ucast (n :: 16 word) :: 32 word) = unat n"
proof -
  have "unat n < 2 ^ 16" using unsigned_less [where ?w = n] by simp
  then have "unat n < 2 ^ 32" by (rule less_trans) simp
  then show ?thesis by (simp add: unsigned_ucast_eq take_bit_nat_eq_self_iff)
qed

lemma total_strU16: "total_reader rd_strU16"
  unfolding rd_strU16_def
proof (rule total_readerI, rule u16.then_safe, assumption, clarsimp)
  fix v n v1
  assume "rd_u16 v = Ok (n, v1)" and "go_buf v1" and "\<not> too_long (ucast n) v1"
  then have "vo v1 + unat n \<le> length (vb v1)"
    using rd_u16_within [of v n v1] too_long_fits [of v1 "ucast n"] by simp
  then show "safe_read v1 (rbind (slice (vb v1) (vo v1) (vo v1 + unat n))
        (\<lambda>s. Ok (VStr (str_of s), advance v1 (unat n)))) \<and>
      rbind (slice (vb v1) (vo v1) (vo v1 + unat n)) (\<lambda>s. Ok (VStr (str_of s), advance v1 (unat n))) \<noteq> Fuel"
    by (simp add: slice_def frame_advance)
qed

lemma total_bytes16: "total_reader rd_bytes16"
  unfolding rd_bytes16_def
proof (rule total_readerI, rule u16.then_safe, assumption, clarsimp)
  fix v n v1
  assume "rd_u16 v = Ok (n, v1)" and "go_buf v1" and "\<not> too_long (ucast n) v1"
  then show "frame v1 (advance v1 (unat n))"
    using rd_u16_within [of v n v1] too_long_fits [of v1 "ucast n"] by (simp add: frame_advance)
qed

lemma total_bytes32: "total_reader rd_bytes32"
  unfolding rd_bytes32_def
proof (rule total_readerI, rule u32.then_safe, assumption, clarsimp)
  fix v n v1
  assume "rd_u32 v = Ok (n, v1)" and "go_buf v1" and "\<not> too_long n v1"
  then show "frame v1 (advance v1 (unat n))"
    using rd_u32_within [of v n v1] too_long_fits [of v1 n] by (simp add: frame_advance)
qed

lemma f16tof32_total: "\<exists>w. f16tof32 h = Ok w"
proof (cases "half_exp h = 31")
  case True
  then have "(ucast (drop_bit 10 h) :: 32 word) AND 0x1F = 31"
    using half_fields(2) [of h] word_unat_eq_iff [of _ "31 :: 32 word"] by simp
  then show ?thesis by (simp add: f16tof32_def Let_def)
next
  case False
  then have "half_exp h = 0 \<or> 0 < half_exp h \<and> half_exp h < 31" using half_field_bounds(2) [of h] by linarith
  then show ?thesis
    using f16tof32_zero [of h] f16tof32_normal [of h] f16tof32_subnormal [of h] by auto
qed

lemma total_half: "total_reader rd_half"
proof (rule total_readerI)
  fix v
  show "safe_read v (rd_half v) \<and> rd_half v \<noteq> Fuel"
  proof (cases "vo v + 2 > length (vb v)")
    case True
    then show ?thesis by (simp add: rd_half_def)
  next
    case False
    let ?h = "of_nat (le_val (take 2 (drop (vo v) (vb v)))) :: 16 word"
    obtain w where "f16tof32 ?h = Ok w" using f16tof32_total by blast
    with False show ?thesis by (simp add: rd_half_def take_le_eq frame_advance)
  qed
qed

lemma frame_set_vo:
  "frame v w \<Longrightarrow> vo v \<le> k \<Longrightarrow> k \<le> length (vb v) \<Longrightarrow> frame v (w\<lparr>vo := k\<rparr>)"
  by (auto simp: frame_def)

lemma total_putvar: "total_reader (decodePutVar ff)"
  unfolding decodePutVar_def
proof (rule total_readerI, rule u32.then_safe, assumption, clarsimp)
  fix v n v1
  assume r: "rd_u32 v = Ok (n, v1)" and g: "go_buf v1" and t: "\<not> too_long n v1"
  let ?f = "\<lambda>(x, v2). Ok (x, v2\<lparr>vo := min (vo v1 + unat n) (length (vb v2))\<rparr>)"
  have w: "vo v1 + unat n \<le> length (vb v1)"
    using rd_u32_within [OF r] too_long_fits [OF g _ t] by simp
  have f: "frame v1 (v2\<lparr>vo := min (vo v1 + unat n) (length (vb v2))\<rparr>)"
    if "decode_variant_full ff v1 = Ok (x, v2)" for x v2
  proof -
    have "frame v1 v2" by (rule safe_read_frame [OF variant.safe [OF g] that])
    then show ?thesis using w by (intro frame_set_vo) (auto simp: frame_def)
  qed
  show "safe_read v1 (rbind (decode_variant_full ff v1) ?f) \<and> rbind (decode_variant_full ff v1) ?f \<noteq> Fuel"
    using variant.safe [OF g, of ff] full.no_fuel [OF g, of ff] f
    by (cases "decode_variant_full ff v1") auto
qed

lemmas total_rules = total_ret total_bind total_if total_as_val total_i8 total_i16 total_i32 total_i64
  total_f32 total_f64 total_vec2 total_u64 total_strU16 total_bytes16 total_bytes32 total_half
  total_putvar u8.total_reader_axioms u16.total_reader_axioms u32.total_reader_axioms
  strings.total_reader_axioms total_reader_list

lemma total_wire_value: "total_reader (decodeWireValue ff wt)"
  unfolding decodeWireValue_def [abs_def]
  by (intro total_rules)

lemma total_entity_pair: "total_reader (rd_entity_pair ff r)"
  unfolding rd_entity_pair_def [abs_def] Let_def
  by (intro total_rules total_wire_value)

lemma total_entity: "total_reader (decodeEntityBlock ff r)"
  unfolding decodeEntityBlock_def [abs_def]
  by (intro total_rules total_entity_pair)

lemma total_update: "total_reader rd_update"
  unfolding rd_update_def [abs_def] by (intro total_rules)

lemma total_spawn: "total_reader (rd_spawn ff)"
  unfolding rd_spawn_def [abs_def] by (intro total_rules)

lemma total_cont_pair: "total_reader (rd_cont_pair ff r)"
  unfolding rd_cont_pair_def [abs_def] Let_def by (intro total_rules total_wire_value)

lemma total_despawn: "total_reader rd_despawn"
  unfolding rd_despawn_def [abs_def] by (intro total_rules)

lemma total_op: "total_reader (rd_op ff)"
  unfolding rd_op_def [abs_def] by (intro total_rules)

lemma total_section: "total_reader rd \<Longrightarrow> total_reader (rd_section rd)"
  unfolding rd_section_def [abs_def] by (intro total_rules)

section \<open>The payload decoders\<close>

text \<open>A payload decoder is a total reader from the start of its bytes whose cursor is dropped.\<close>

lemma total_run:
  assumes "total_reader rd" and "length b < 2 ^ 63"
  shows "rd (start_buf b) \<noteq> Panic \<and> rd (start_buf b) \<noteq> Fuel"
proof -
  have "go_buf (start_buf b)" using assms(2) by (simp add: go_buf_def start_buf_def)
  then show ?thesis
    using assms(1) cursor_reader.safe total_reader.axioms(1) total_reader.no_fuel
    unfolding safe_read_def by blast
qed

lemma rbind_assoc: "rbind (rbind m f) g = rbind m (\<lambda>x. rbind (f x) g)"
  by (cases m) auto

definition delta_reader :: "(f64 \<Rightarrow> string) \<Rightarrow> path_registry \<Rightarrow> vbuf \<Rightarrow> (gval list \<times> vbuf) res" where
  "delta_reader ff r = rd_section (decodeEntityBlock ff r)"

lemma decodeDelta_reader: "decodeDelta ff r b = rbind (delta_reader ff r (start_buf b)) (\<lambda>(bs, _). Ok bs)"
  by (simp add: decodeDelta_def delta_reader_def rd_section_def rbind_assoc split_def)

definition container_reader :: "(f64 \<Rightarrow> string) \<Rightarrow> path_registry \<Rightarrow> vbuf \<Rightarrow> (gval \<times> vbuf) res" where
  "container_reader ff r v = rbind (rd_u32 v) (\<lambda>(cid, v1).
     rbind (rd_section (rd_spawn ff) v1) (\<lambda>(spawns, v2).
     rbind (rd_section (rd_cont_pair ff r) v2) (\<lambda>(pairs, v3).
     rbind (rd_section rd_despawn v3) (\<lambda>(despawns, v4).
     rbind (rd_section (rd_op ff) v4) (\<lambda>(ops, v5).
       Ok (VDict [(''cid'', VInt (ucast cid)), (''spawns'', VArr spawns), (''pairs'', VArr pairs),
                  (''despawns'', VArr despawns), (''ops_named'', VArr ops)], v5))))))"

lemma decodeContainerBlock_reader:
  "decodeContainerBlock ff r b = rbind (container_reader ff r (start_buf b)) (\<lambda>(x, _). Ok x)"
  by (simp add: decodeContainerBlock_def container_reader_def rbind_assoc split_def)

lemma total_container: "total_reader (container_reader ff r)"
  unfolding container_reader_def [abs_def]
  by (intro total_rules total_section total_spawn total_cont_pair total_despawn total_op)

lemma decodeBootstrap_reader: "decodeBootstrap ff f2i r b =
  (case rd_section rd_update (start_buf b) of
     Ok (ups, v1) \<Rightarrow> (applyMapUpdates ff f2i r ups,
       rbind (delta_reader ff (applyMapUpdates ff f2i r ups) v1) (\<lambda>(objs, _).
         Ok (VDict [(''map_updates'', VArr ups), (''objects'', VArr objs)])))
   | Fail \<Rightarrow> (r, Fail) | Panic \<Rightarrow> (r, Panic) | Fuel \<Rightarrow> (r, Fuel))"
  by (auto simp: decodeBootstrap_def rd_section_def delta_reader_def rbind_assoc split_def Let_def
      split: res.split)

lemma run_payload:
  assumes "total_reader rd" and "go_buf v"
  shows "rbind (rd v) (\<lambda>(x, _). Ok (f x)) \<noteq> Panic \<and> rbind (rd v) (\<lambda>(x, _). Ok (f x)) \<noteq> Fuel"
  using cursor_reader.safe [OF total_reader.axioms(1) [OF assms(1)] assms(2)]
    total_reader.no_fuel [OF assms]
  by (auto simp: rbind_Panic_iff rbind_Fuel_iff safe_read_def)

lemma payload_decoders_safe:
  assumes "length b < 2 ^ 63"
  shows "decodeDelta ff r b \<noteq> Panic \<and> decodeDelta ff r b \<noteq> Fuel \<and>
    decodeContainerBlock ff r b \<noteq> Panic \<and> decodeContainerBlock ff r b \<noteq> Fuel \<and>
    snd (decodeBootstrap ff f2i r b) \<noteq> Panic \<and> snd (decodeBootstrap ff f2i r b) \<noteq> Fuel"
proof -
  have g: "go_buf (start_buf b)" using assms by (simp add: go_buf_def start_buf_def)
  have ent: "total_reader (delta_reader ff s)" for s
    unfolding delta_reader_def by (rule total_section [OF total_entity])
  note ups = total_section [OF total_update]
  have "snd (decodeBootstrap ff f2i r b) \<noteq> Panic \<and> snd (decodeBootstrap ff f2i r b) \<noteq> Fuel"
  proof (cases "rd_section rd_update (start_buf b)")
    case (Ok a)
    obtain us v1 where a: "a = (us, v1)" by (cases a)
    have "go_buf v1"
      using safe_read_frame [OF cursor_reader.safe [OF total_reader.axioms(1) [OF ups] g]] Ok a g
      by (simp add: go_buf_frame)
    with Ok a show ?thesis using run_payload [OF ent] by (simp add: decodeBootstrap_reader)
  qed (use cursor_reader.safe [OF total_reader.axioms(1) [OF ups] g] total_reader.no_fuel [OF ups g]
        in \<open>auto simp: decodeBootstrap_reader\<close>)
  then show ?thesis
    using run_payload [OF ent g, of _ "\<lambda>x. x"] run_payload [OF total_container g, of _ _ "\<lambda>x. x"]
    by (simp add: decodeDelta_reader decodeContainerBlock_reader)
qed

text \<open>The state-synchronisation decoders are total.  On any bytes and any registry the
  bootstrap, delta and container decoders terminate and never panic.\<close>

theorem wire_decoders_total:
  assumes "length b < 2 ^ 63"
  shows "decodeDelta ff r b \<noteq> Panic \<and> decodeDelta ff r b \<noteq> Fuel \<and>
    decodeContainerBlock ff r b \<noteq> Panic \<and> decodeContainerBlock ff r b \<noteq> Fuel \<and>
    snd (decodeBootstrap ff f2i r b) \<noteq> Panic \<and> snd (decodeBootstrap ff f2i r b) \<noteq> Fuel"
  by (rule payload_decoders_safe [OF assms])

theorem wire_decoders_total_witness:
  "decodeDelta (\<lambda>_. []) newPathRegistry [1, 0, 9] \<noteq> Panic \<and>
   snd (decodeBootstrap (\<lambda>_. []) (\<lambda>_. 0) newPathRegistry [1, 0, 9]) \<noteq> Panic"
  using wire_decoders_total [of "[1, 0, 9]" "\<lambda>_. []" newPathRegistry "\<lambda>_. 0"] by simp

end
