(* ===== verification/Godot_Wire_Codec.thy ===== *)
theory Godot_Wire_Codec imports Godot_Wire_Safe begin

text \<open>
  The wire decoders of \<open>wire.go\<close> against the formats the head of that file documents: an encoder
  for values by wire type, for entity blocks, deltas, container blocks and the bootstrap, and the
  round trips, built with the \<open>wire_codec\<close> interface.
\<close>

section \<open>Values by wire type\<close>

datatype wv =
    WVariant gv | WBool bool | WU8 byte | WU16 "16 word" | WU32 "32 word" | WU64 "64 word"
  | WS8 byte | WS16 "16 word" | WS32 "32 word" | WS64 "64 word"
  | WF16 "16 word" | WF32 "32 word" | WF64 "64 word"
  | WStr16 string | WStr32 string | WBytes16 "byte list" | WBytes32 "byte list"
  | WVec2 "32 word" "32 word"

fun wv_type :: "wv \<Rightarrow> 64 word" where
  "wv_type (WVariant _) = wtVariant" | "wv_type (WBool _) = wtBool"
| "wv_type (WU8 _) = wtU8" | "wv_type (WU16 _) = wtU16" | "wv_type (WU32 _) = wtU32"
| "wv_type (WU64 _) = wtU64" | "wv_type (WS8 _) = wtS8" | "wv_type (WS16 _) = wtS16"
| "wv_type (WS32 _) = wtS32" | "wv_type (WS64 _) = wtS64" | "wv_type (WF16 _) = wtF16"
| "wv_type (WF32 _) = wtF32" | "wv_type (WF64 _) = wtF64" | "wv_type (WStr16 _) = wtStrU16"
| "wv_type (WStr32 _) = wtStrU32" | "wv_type (WBytes16 _) = wtBytes16"
| "wv_type (WBytes32 _) = wtBytes32" | "wv_type (WVec2 _ _) = wtVec2F32"

definition enc_put_var :: "gv \<Rightarrow> byte list" where
  "enc_put_var g = le_bytes 4 (length (enc_full g)) @ enc_full g"

definition legal_put_var :: "gv \<Rightarrow> bool" where
  "legal_put_var g \<longleftrightarrow> legal_gv g \<and> length (enc_full g) < 2 ^ 32"

fun enc_wv :: "wv \<Rightarrow> byte list" where
  "enc_wv (WVariant g) = enc_put_var g"
| "enc_wv (WBool b) = [if b then 1 else 0]"
| "enc_wv (WU8 b) = [b]"
| "enc_wv (WU16 x) = le_bytes 2 (unat x)"
| "enc_wv (WU32 x) = le_bytes 4 (unat x)"
| "enc_wv (WU64 x) = le_bytes 8 (unat x)"
| "enc_wv (WS8 b) = [b]"
| "enc_wv (WS16 x) = le_bytes 2 (unat x)"
| "enc_wv (WS32 x) = le_bytes 4 (unat x)"
| "enc_wv (WS64 x) = le_bytes 8 (unat x)"
| "enc_wv (WF16 x) = le_bytes 2 (unat x)"
| "enc_wv (WF32 x) = le_bytes 4 (unat x)"
| "enc_wv (WF64 x) = le_bytes 8 (unat x)"
| "enc_wv (WStr16 s) = le_bytes 2 (length s) @ bytes_of s"
| "enc_wv (WStr32 s) = enc_str s"
| "enc_wv (WBytes16 bs) = le_bytes 2 (length bs) @ bs"
| "enc_wv (WBytes32 bs) = le_bytes 4 (length bs) @ bs"
| "enc_wv (WVec2 x y) = le_bytes 4 (unat x) @ le_bytes 4 (unat y)"

fun seen_wv :: "(f64 \<Rightarrow> string) \<Rightarrow> wv \<Rightarrow> gval" where
  "seen_wv ff (WVariant g) = seen ff g"
| "seen_wv ff (WBool b) = VBool b"
| "seen_wv ff (WU8 b) = VInt (ucast b)"
| "seen_wv ff (WU16 x) = VInt (ucast x)"
| "seen_wv ff (WU32 x) = VInt (ucast x)"
| "seen_wv ff (WU64 x) = VUint x"
| "seen_wv ff (WS8 b) = VInt (scast b)"
| "seen_wv ff (WS16 x) = VInt (scast x)"
| "seen_wv ff (WS32 x) = VInt (scast x)"
| "seen_wv ff (WS64 x) = VInt x"
| "seen_wv ff (WF16 x) = (case f16tof32 x of Ok w \<Rightarrow> VFloat (F32 w) | _ \<Rightarrow> VNil)"
| "seen_wv ff (WF32 x) = VFloat (F32 x)"
| "seen_wv ff (WF64 x) = VFloat (F64 x)"
| "seen_wv ff (WStr16 s) = VStr s"
| "seen_wv ff (WStr32 s) = VStr s"
| "seen_wv ff (WBytes16 bs) = bytes_note (length bs)"
| "seen_wv ff (WBytes32 bs) = bytes_note (length bs)"
| "seen_wv ff (WVec2 x y) = VArr [VFloat (Round100 (F32 x)), VFloat (Round100 (F32 y))]"

fun legal_wv :: "wv \<Rightarrow> bool" where
  "legal_wv (WVariant g) = legal_put_var g"
| "legal_wv (WStr16 s) = (length s < 2 ^ 16)"
| "legal_wv (WStr32 s) = short_str s"
| "legal_wv (WBytes16 bs) = (length bs < 2 ^ 16)"
| "legal_wv (WBytes32 bs) = (length bs < 2 ^ 32)"
| "legal_wv _ = True"

lemma decodePutVar_on:
  assumes "legal_put_var g" and "go_buf v" and "on_bytes v (enc_put_var g)"
  shows "decodePutVar ff v = Ok (seen ff g, advance v (length (enc_put_var g)))"
proof -
  have l: "on_bytes v (le_bytes 4 (length (enc_full g)))" and b: "on_bytes (advance v 4) (enc_full g)"
    using assms(3) by (simp_all add: enc_put_var_def on_bytes_append)
  have n: "length (enc_full g) < 2 ^ 32" and lg: "legal_gv g"
    using assms(1) by (simp_all add: legal_put_var_def)
  have u: "unat (of_nat (length (enc_full g)) :: 32 word) = length (enc_full g)"
    using n by (simp add: unat_of_nat)
  have r: "rd_u32 v = Ok (of_nat (length (enc_full g)), advance v 4)"
    by (rule rd_u32_on_nat [OF l n])
  have t: "\<not> too_long (of_nat (length (enc_full g))) (advance v 4)"
    by (rule not_too_long_on [OF _ b n]) (use assms(2) in simp_all)
  have d: "decode_variant_full ff (advance v 4) = Ok (seen ff g, advance (advance v 4) (length (enc_full g)))"
    using decode_full_on [OF lg _ b] assms(2) by simp
  have w: "vo v + (4 + length (enc_full g)) \<le> length (vb v)"
    using on_bytes_within [OF b] by simp
  show ?thesis
    using t u w unfolding decodePutVar_def r rbind.simps prod.case d
    by (simp add: enc_put_var_def advance_def min_absorb1 add.assoc)
qed

lemma rd_u16_on_nat: "on_bytes v (le_bytes 2 n) \<Longrightarrow> n < 2 ^ 16 \<Longrightarrow> rd_u16 v = Ok (of_nat n, advance v 2)"
  using rd_u16_on [of v "of_nat n"] by (simp add: unat_of_nat)

lemma short_count:
  assumes "n < 2 ^ 16"
  shows "unat (of_nat n :: 16 word) = n" and "(ucast (of_nat n :: 16 word) :: 32 word) = of_nat n"
proof -
  show u: "unat (of_nat n :: 16 word) = n" using assms by (simp add: unat_of_nat)
  have "unat (ucast (of_nat n :: 16 word) :: 32 word) = unat (of_nat n :: 32 word)"
    using u assms by (simp add: unat_of_nat)
  then show "(ucast (of_nat n :: 16 word) :: 32 word) = of_nat n" by (simp only: word_unat_eq_iff)
qed

lemma rd_counted16_on:
  assumes "go_buf v" and "on_bytes v (le_bytes 2 (length bs) @ bs)" and n: "length bs < 2 ^ 16"
  shows "rd_u16 v = Ok (of_nat (length bs), advance v 2)"
    and "\<not> too_long (ucast (of_nat (length bs) :: 16 word)) (advance v 2)"
    and "slice (vb v) (vo v + 2) (vo v + 2 + length bs) = Ok bs"
proof -
  have l: "on_bytes v (le_bytes 2 (length bs))" and b: "on_bytes (advance v 2) bs"
    using assms(2) by (simp_all add: on_bytes_append)
  show "rd_u16 v = Ok (of_nat (length bs), advance v 2)" by (rule rd_u16_on_nat [OF l n])
  have "length bs < 2 ^ 32" using n by (rule less_trans) simp
  then show "\<not> too_long (ucast (of_nat (length bs) :: 16 word)) (advance v 2)"
    using not_too_long_on [OF _ b] assms(1) short_count(2) [OF n] by simp
  show "slice (vb v) (vo v + 2) (vo v + 2 + length bs) = Ok bs"
    using slice_on [OF b, of "length bs"] by simp
qed

lemma rd_strU16_on:
  assumes "go_buf v" and "on_bytes v (le_bytes 2 (length s) @ bytes_of s)" and "length s < 2 ^ 16"
  shows "rd_strU16 v = Ok (VStr s, advance v (2 + length s))"
  using rd_counted16_on [of v "bytes_of s"] short_count(1) [of "length s"] assms
  by (simp add: rd_strU16_def)

lemma rd_bytes16_on:
  assumes "go_buf v" and "on_bytes v (le_bytes 2 (length bs) @ bs)" and "length bs < 2 ^ 16"
  shows "rd_bytes16 v = Ok (bytes_note (length bs), advance v (2 + length bs))"
  using rd_counted16_on [of v bs] short_count(1) [of "length bs"] assms
  by (simp add: rd_bytes16_def)

lemma rd_bytes32_on:
  assumes "go_buf v" and "on_bytes v (le_bytes 4 (length bs) @ bs)" and n: "length bs < 2 ^ 32"
  shows "rd_bytes32 v = Ok (bytes_note (length bs), advance v (4 + length bs))"
proof -
  have l: "on_bytes v (le_bytes 4 (length bs))" and b: "on_bytes (advance v 4) bs"
    using assms(2) by (simp_all add: on_bytes_append)
  have "unat (of_nat (length bs) :: 32 word) = length bs"
    using n by (simp add: unat_of_nat)
  then show ?thesis
    using rd_u32_on_nat [OF l n] not_too_long_on [OF _ b n, of "length bs"] assms(1)
    by (simp add: rd_bytes32_def)
qed

lemma rd_u64_on: "on_bytes v (le_bytes 8 (unat w)) \<Longrightarrow> rd_u64 v = Ok (w, advance v 8)"
  using rd_i64_on [of v w] by (simp add: rd_u64_def rd_i64_def)

lemma rd_half_on:
  assumes "on_bytes v (le_bytes 2 (unat h))"
  shows "rd_half v = Ok (seen_wv ff (WF16 h), advance v 2)"
proof -
  obtain w where "f16tof32 h = Ok w" using f16tof32_total by blast
  with assms show ?thesis
    by (auto simp: rd_half_def take_le_eq of_le_val unat_mods dest: on_bytes_within)
qed

lemma rd_vec2_on: "on_bytes v (le_bytes 4 (unat x) @ le_bytes 4 (unat y)) \<Longrightarrow>
  rd_vec2 v = Ok (seen_wv ff (WVec2 x y), advance v 8)"
  by (auto simp: rd_vec2_def on_bytes_append dest!: rd_f32_on)

lemma wire_value_on:
  assumes "legal_wv w" and "go_buf v" and "on_bytes v (enc_wv w)"
  shows "decodeWireValue ff (wv_type w) v = Ok (seen_wv ff w, advance v (length (enc_wv w)))"
proof (cases w)
  case (WVariant g)
  then show ?thesis using assms by (simp add: decodeWireValue_def decodePutVar_on)
next
  case (WF16 h)
  then show ?thesis using assms rd_half_on [of v h ff] by (simp add: decodeWireValue_def wt_defs)
next
  case (WVec2 x y)
  then show ?thesis using assms rd_vec2_on [of v x y ff] by (simp add: decodeWireValue_def wt_defs)
next
  case (WStr32 s)
  then show ?thesis
    using assms rd_stringNoPad_on [of s v] by (simp add: decodeWireValue_def wt_defs as_val_def)
qed (use assms in \<open>auto simp: decodeWireValue_def wt_defs as_val_def rd_strU16_on rd_bytes16_on rd_bytes32_on
  dest: rd_u8_on rd_u16_on rd_u32_on rd_u64_on rd_i8_on rd_i16_on rd_i32_on rd_i64_on rd_f32_on rd_f64_on\<close>)

lemma wire_value_codec:
  "wire_codec (decodeWireValue ff t) enc_wv (seen_wv ff) (\<lambda>w. legal_wv w \<and> wv_type w = t)"
  by unfold_locales (use wire_value_on in blast)

section \<open>Counted sections and blocks\<close>

definition enc_section :: "('b \<Rightarrow> byte list) \<Rightarrow> 'b list \<Rightarrow> byte list" where
  "enc_section enc xs = le_bytes 2 (length xs) @ concat (map enc xs)"

definition legal_section :: "('b \<Rightarrow> bool) \<Rightarrow> 'b list \<Rightarrow> bool" where
  "legal_section l xs \<longleftrightarrow> length xs < 2 ^ 16 \<and> list_all l xs"

lemma section_codec:
  assumes "wire_codec rd enc m l"
  shows "wire_codec (rd_section rd) (enc_section enc) (map m) (legal_section l)"
proof
  fix xs v
  assume "legal_section l xs" and g: "go_buf v" and "on_bytes v (enc_section enc xs)"
  then have n: "length xs < 2 ^ 16" and a: "list_all l xs"
    and c: "on_bytes v (le_bytes 2 (length xs))" and b: "on_bytes (advance v 2) (concat (map enc xs))"
    by (simp_all add: legal_section_def enc_section_def on_bytes_append)
  have "rd_list (length xs) rd (advance v 2) = Ok (map m xs, advance (advance v 2) (length (concat (map enc xs))))"
    using wire_codec.reads_list [OF assms a _ b refl] g by simp
  then show "rd_section rd v = Ok (map m xs, advance v (length (enc_section enc xs)))"
    using rd_u16_on_nat [OF c n] short_count(1) [OF n] n
    by (simp add: rd_section_def enc_section_def max_items_def min_absorb1)
qed

type_synonym entity = "32 word \<times> (16 word \<times> wv) list"

definition enc_pair :: "16 word \<times> wv \<Rightarrow> byte list" where
  "enc_pair p = le_bytes 2 (unat (fst p)) @ enc_wv (snd p)"

definition seen_pair :: "(f64 \<Rightarrow> string) \<Rightarrow> path_registry \<Rightarrow> 16 word \<times> wv \<Rightarrow> gval" where
  "seen_pair ff r p = VDict [(''fid'', VInt (ucast (fst p))),
     (''path'', VStr (pf_path (reg_field r (ucast (fst p))))), (''value'', seen_wv ff (snd p))]"

text \<open>A pair is legal for a registry when the value has the type the registry gives its pid.\<close>

definition legal_pair :: "path_registry \<Rightarrow> 16 word \<times> wv \<Rightarrow> bool" where
  "legal_pair r p \<longleftrightarrow> legal_wv (snd p) \<and> wv_type (snd p) = pf_wt (reg_field r (ucast (fst p)))"

lemma pair_codec: "wire_codec (rd_entity_pair ff r) enc_pair (seen_pair ff r) (legal_pair r)"
proof (unfold_locales, goal_cases)
  case (1 p v)
  then have "rd_u16 v = Ok (fst p, advance v 2)"
    and "decodeWireValue ff (wv_type (snd p)) (advance v 2) =
      Ok (seen_wv ff (snd p), advance v (2 + length (enc_wv (snd p))))"
    using wire_value_on [of "snd p" "advance v 2" ff]
    by (auto simp: enc_pair_def legal_pair_def on_bytes_append dest: rd_u16_on)
  with 1 show ?case
    by (simp add: rd_entity_pair_def Let_def seen_pair_def legal_pair_def enc_pair_def)
qed

definition enc_entity :: "entity \<Rightarrow> byte list" where
  "enc_entity e = le_bytes 4 (unat (fst e)) @ enc_section enc_pair (snd e)"

definition seen_entity :: "(f64 \<Rightarrow> string) \<Rightarrow> path_registry \<Rightarrow> entity \<Rightarrow> gval" where
  "seen_entity ff r e = VDict [(''eid'', VInt (ucast (fst e))), (''pairs'', VArr (map (seen_pair ff r) (snd e)))]"

definition legal_entity :: "path_registry \<Rightarrow> entity \<Rightarrow> bool" where
  "legal_entity r e \<longleftrightarrow> legal_section (legal_pair r) (snd e)"

lemma entity_block_section: "decodeEntityBlock ff r v = rbind (rd_u32 v) (\<lambda>(eid, v1).
  rbind (rd_section (rd_entity_pair ff r) v1) (\<lambda>(ps, v2).
    Ok (VDict [(''eid'', VInt (ucast eid)), (''pairs'', VArr ps)], v2)))"
  by (simp add: decodeEntityBlock_def rd_section_def rbind_assoc split_def)

lemma entity_codec: "wire_codec (decodeEntityBlock ff r) enc_entity (seen_entity ff r) (legal_entity r)"
proof (unfold_locales, goal_cases)
  case (1 e v)
  then have "rd_u32 v = Ok (fst e, advance v 4)" and b: "on_bytes (advance v 4) (enc_section enc_pair (snd e))"
    by (auto simp: enc_entity_def on_bytes_append dest: rd_u32_on)
  with 1 wire_codec.reads [OF section_codec [OF pair_codec] _ _ b] show ?case
    by (simp add: entity_block_section legal_entity_def seen_entity_def enc_entity_def)
qed

lemma delta_codec:
  "wire_codec (delta_reader ff r) (enc_section enc_entity) (map (seen_entity ff r)) (legal_section (legal_entity r))"
  unfolding delta_reader_def by (rule section_codec [OF entity_codec])

section \<open>Payloads\<close>

lemma on_start_buf [simp]: "on_bytes (start_buf (bs @ post)) bs"
  by (simp add: on_bytes_def start_buf_def vlimit_def)

lemma go_start_buf: "length b < 2 ^ 63 \<Longrightarrow> go_buf (start_buf b)"
  by (simp add: go_buf_def start_buf_def)

type_synonym map_update = "16 word \<times> string \<times> byte"

definition enc_update :: "map_update \<Rightarrow> byte list" where
  "enc_update u = (case u of (pid, path, wt) \<Rightarrow> le_bytes 2 (unat pid) @ enc_str path @ [wt])"

definition seen_update :: "map_update \<Rightarrow> gval" where
  "seen_update u = (case u of (pid, path, wt) \<Rightarrow> VArr [VUint (ucast pid), VStr path, VInt (ucast wt)])"

definition legal_update :: "map_update \<Rightarrow> bool" where
  "legal_update u \<longleftrightarrow> short_str (fst (snd u))"

text \<open>The schema a list of updates leaves.\<close>

definition with_updates :: "map_update list \<Rightarrow> path_registry \<Rightarrow> path_registry" where
  "with_updates us r = fold (\<lambda>(pid, path, wt). reg_set (ucast pid) path (ucast wt)) us r"

lemma update_codec: "wire_codec rd_update enc_update seen_update legal_update"
proof (unfold_locales, goal_cases)
  case (1 u v)
  obtain pid path wt where u: "u = (pid, path, wt)" by (cases u)
  from 1 u have "rd_u16 v = Ok (pid, advance v 2)" and s: "on_bytes (advance v 2) (enc_str path)"
    and "rd_u8 (advance v (2 + length (enc_str path))) = Ok (wt, advance v (2 + length (enc_str path) + 1))"
    by (auto simp: enc_update_def on_bytes_append dest: rd_u16_on rd_u8_on)
  with 1 u rd_stringNoPad_on [OF _ _ s] show ?case
    by (simp add: rd_update_def seen_update_def enc_update_def legal_update_def)
qed

lemma ucast_ucast_16: "(ucast (ucast (x :: 16 word) :: 64 word) :: 32 word) = ucast x"
  by (rule bit_word_eqI) (auto simp: bit_simps)

lemma apply_seen_updates: "applyMapUpdates ff f2i r (map seen_update us) = with_updates us r"
  unfolding applyMapUpdates_def with_updates_def
  by (induction us arbitrary: r)
    (auto simp: seen_update_def apply_update_def ucast_ucast_16 split: prod.splits)

definition enc_bootstrap :: "map_update list \<Rightarrow> entity list \<Rightarrow> byte list" where
  "enc_bootstrap us es = enc_section enc_update us @ enc_section enc_entity es"

text \<open>Delta round trip.  A delta whose values have the types the registry gives their pids
  decodes to exactly its entity blocks, in order, with the registry's paths; bytes after it are
  ignored.\<close>

theorem decodeDelta_roundtrip:
  assumes "legal_section (legal_entity r) es" and "length (enc_section enc_entity es @ post) < 2 ^ 63"
  shows "decodeDelta ff r (enc_section enc_entity es @ post) = Ok (map (seen_entity ff r) es)"
  using wire_codec.reads [OF delta_codec assms(1) go_start_buf [OF assms(2)] on_start_buf]
  by (simp add: decodeDelta_reader)

theorem decodeDelta_roundtrip_witness:
  "decodeDelta (\<lambda>_. []) newPathRegistry
     (enc_section enc_entity [(7, [(3, WU8 4), (7, WU16 300)])] @ [255]) =
   Ok [VDict [(''eid'', VInt 7), (''pairs'', VArr [
     VDict [(''fid'', VInt 3), (''path'', VStr '':anim''), (''value'', VInt 4)],
     VDict [(''fid'', VInt 7), (''path'', VStr '':skin_id''), (''value'', VInt 300)]])]]"
proof -
  let ?es = "[(7, [(3, WU8 4), (7, WU16 300)])] :: entity list"
  have "legal_section (legal_entity newPathRegistry) ?es"
    by (simp add: legal_section_def legal_entity_def legal_pair_def newPathRegistry_def reg_set_def reg_field_def wt_defs)
  then have "decodeDelta (\<lambda>_. []) newPathRegistry (enc_section enc_entity ?es @ [255]) =
      Ok (map (seen_entity (\<lambda>_. []) newPathRegistry) ?es)"
    by (rule decodeDelta_roundtrip) (simp add: enc_section_def enc_entity_def enc_pair_def)
  then show ?thesis
    by (simp add: seen_entity_def seen_pair_def newPathRegistry_def reg_set_def reg_field_def)
qed

text \<open>C28: bootstrap round trip.  The bootstrap first extends the registry with its map section and
  decodes its objects with the extended schema, so an object may use a pid the same message has
  just announced; the registry it leaves is exactly the old one with the updates, for later deltas.\<close>

theorem decodeBootstrap_roundtrip:
  assumes "legal_section legal_update us" and "legal_section (legal_entity (with_updates us r)) es"
    and "length (enc_bootstrap us es @ post) < 2 ^ 63"
  shows "decodeBootstrap ff f2i r (enc_bootstrap us es @ post) =
    (with_updates us r, Ok (VDict [(''map_updates'', VArr (map seen_update us)),
       (''objects'', VArr (map (seen_entity ff (with_updates us r)) es))]))"
proof -
  let ?b = "enc_section enc_update us @ enc_section enc_entity es @ post"
  let ?v = "start_buf ?b"
  have g: "go_buf ?v" using assms(3) by (intro go_start_buf) (simp add: enc_bootstrap_def)
  have "on_bytes ?v (enc_section enc_update us @ enc_section enc_entity es)"
    using on_start_buf [of "enc_section enc_update us @ enc_section enc_entity es" post] by simp
  then have u: "on_bytes ?v (enc_section enc_update us)"
    and e: "on_bytes (advance ?v (length (enc_section enc_update us))) (enc_section enc_entity es)"
    by (simp_all add: on_bytes_append)
  show ?thesis
    using wire_codec.reads [OF section_codec [OF update_codec] assms(1) g u]
      wire_codec.reads [OF delta_codec assms(2) _ e] g
    by (simp add: decodeBootstrap_reader enc_bootstrap_def apply_seen_updates)
qed

theorem decodeBootstrap_roundtrip_witness:
  "decodeBootstrap (\<lambda>_. []) (\<lambda>_. 0) newPathRegistry (enc_bootstrap [(20, '':gold'', 4)] [(1, [(20, WU32 9)])] @ []) =
    (newPathRegistry(20 \<mapsto> \<lparr>pf_path = '':gold'', pf_wt = 4\<rparr>),
     Ok (VDict [(''map_updates'', VArr [VArr [VUint 20, VStr '':gold'', VInt 4]]),
       (''objects'', VArr [VDict [(''eid'', VInt 1), (''pairs'', VArr [
         VDict [(''fid'', VInt 20), (''path'', VStr '':gold''), (''value'', VInt 9)]])]])]))"
proof -
  let ?us = "[(20, '':gold'', 4)] :: map_update list"
  let ?es = "[(1, [(20, WU32 9)])] :: entity list"
  have r: "with_updates ?us newPathRegistry = newPathRegistry(20 \<mapsto> \<lparr>pf_path = '':gold'', pf_wt = 4\<rparr>)"
    by (simp add: with_updates_def reg_set_def)
  have "legal_section legal_update ?us"
    by (simp add: legal_section_def legal_update_def short_str_def)
  moreover have "legal_section (legal_entity (with_updates ?us newPathRegistry)) ?es"
    by (simp add: r legal_section_def legal_entity_def legal_pair_def reg_field_def wt_defs)
  ultimately have "decodeBootstrap (\<lambda>_. []) (\<lambda>_. 0) newPathRegistry (enc_bootstrap ?us ?es @ []) =
    (with_updates ?us newPathRegistry, Ok (VDict [(''map_updates'', VArr (map seen_update ?us)),
       (''objects'', VArr (map (seen_entity (\<lambda>_. []) (with_updates ?us newPathRegistry)) ?es))]))"
    by (rule decodeBootstrap_roundtrip)
      (simp add: enc_bootstrap_def enc_section_def enc_update_def enc_entity_def enc_pair_def enc_str_def)
  then show ?thesis
    by (simp add: r seen_update_def seen_entity_def seen_pair_def reg_field_def)
qed

end
