(* ===== verification/Godot_Wire_Container.thy ===== *)
theory Godot_Wire_Container imports Godot_Wire_Codec begin

text \<open>
  The container block of \<open>wire.go\<close> (\<open>on_props_bootstrap\<close>, \<open>on_props_delta\<close>): spawns, pairs,
  despawns and named operations, each a counted section, and the round trip of the whole block.
\<close>

lemma putvar_codec: "wire_codec (decodePutVar ff) enc_put_var (seen ff) legal_put_var"
  by unfold_locales (rule decodePutVar_on)

text \<open>Whatever the variant decoder consumed, the cursor ends where the announced size says.\<close>

lemma decodePutVar_resyncs:
  assumes "go_buf v" and "rd_u32 v = Ok (sz, v1)" and "decodePutVar ff v = Ok (x, v')"
  shows "vo v' = vo v + 4 + unat sz"
proof -
  have t: "\<not> too_long sz v1" using assms(2,3) by (auto simp: decodePutVar_def split: if_splits)
  have g: "go_buf v1" using rd_u32_within [OF assms(2)] assms(1) go_buf_frame by blast
  have w: "vo v1 + unat sz \<le> length (vb v1)"
    using rd_u32_within [OF assms(2)] too_long_fits [OF g _ t] by simp
  obtain v2 where d: "decode_variant_full ff v1 = Ok (x, v2)"
    and v': "v' = v2\<lparr>vo := min (vo v1 + unat sz) (length (vb v2))\<rparr>"
    using assms(2,3) t by (auto simp: decodePutVar_def rbind_Ok_iff)
  have "vb v2 = vb v1" using safe_read_frame [OF variant.safe [OF g] d] by (simp add: frame_def)
  then show ?thesis using v' w rd_u32_within [OF assms(2)] by simp
qed

type_synonym spawn = "16 word \<times> 16 word \<times> gv"
type_synonym cont_pair = "32 word \<times> wv"
type_synonym named_op = "16 word \<times> string \<times> gv list"

record container =
  c_id :: "32 word"
  c_spawns :: "spawn list"
  c_pairs :: "cont_pair list"
  c_despawns :: "16 word list"
  c_ops :: "named_op list"

definition enc_spawn :: "spawn \<Rightarrow> byte list" where
  "enc_spawn s = (case s of (child, scene, g) \<Rightarrow>
     le_bytes 2 (unat child) @ le_bytes 2 (unat scene) @ enc_put_var g)"

definition seen_spawn :: "(f64 \<Rightarrow> string) \<Rightarrow> spawn \<Rightarrow> gval" where
  "seen_spawn ff s = (case s of (child, scene, g) \<Rightarrow>
     VDict [(''child_id'', VInt (ucast child)), (''scene_id'', VInt (ucast scene)), (''init'', seen ff g)])"

definition legal_spawn :: "spawn \<Rightarrow> bool" where
  "legal_spawn s = legal_put_var (snd (snd s))"

lemma spawn_codec: "wire_codec (rd_spawn ff) enc_spawn (seen_spawn ff) legal_spawn"
proof (unfold_locales, goal_cases)
  case (1 s v)
  obtain child scene g where s: "s = (child, scene, g)" by (cases s)
  from 1 s have "rd_u16 v = Ok (child, advance v 2)" and "rd_u16 (advance v 2) = Ok (scene, advance v 4)"
    and g: "on_bytes (advance v 4) (enc_put_var g)"
    by (auto simp: enc_spawn_def on_bytes_append dest: rd_u16_on)
  with 1 s decodePutVar_on [OF _ _ g] show ?case
    by (simp add: rd_spawn_def seen_spawn_def enc_spawn_def legal_spawn_def)
qed

definition enc_cont_pair :: "cont_pair \<Rightarrow> byte list" where
  "enc_cont_pair p = le_bytes 4 (unat (fst p)) @ enc_wv (snd p)"

definition cp_fid :: "cont_pair \<Rightarrow> 32 word" where
  "cp_fid p = take_bit 16 (fst p)"

definition seen_cont_pair :: "(f64 \<Rightarrow> string) \<Rightarrow> path_registry \<Rightarrow> cont_pair \<Rightarrow> gval" where
  "seen_cont_pair ff r p = VDict [(''cpid'', VInt (ucast (fst p))), (''fid'', VInt (ucast (cp_fid p))),
     (''path'', VStr (pf_path (reg_field r (cp_fid p)))), (''value'', seen_wv ff (snd p))]"

definition legal_cont_pair :: "path_registry \<Rightarrow> cont_pair \<Rightarrow> bool" where
  "legal_cont_pair r p \<longleftrightarrow> legal_wv (snd p) \<and> wv_type (snd p) = pf_wt (reg_field r (cp_fid p))"

unbundle bit_operations_syntax

lemma low_half: "(x :: 32 word) AND 0xFFFF = take_bit 16 x"
  by (simp add: take_bit_eq_mask mask_numeral)

lemma cont_pair_codec: "wire_codec (rd_cont_pair ff r) enc_cont_pair (seen_cont_pair ff r) (legal_cont_pair r)"
proof (unfold_locales, goal_cases)
  case (1 p v)
  then have "rd_u32 v = Ok (fst p, advance v 4)"
    and "decodeWireValue ff (wv_type (snd p)) (advance v 4) =
      Ok (seen_wv ff (snd p), advance v (4 + length (enc_wv (snd p))))"
    using wire_value_on [of "snd p" "advance v 4" ff]
    by (auto simp: enc_cont_pair_def legal_cont_pair_def on_bytes_append dest: rd_u32_on)
  with 1 show ?case
    by (simp add: rd_cont_pair_def Let_def seen_cont_pair_def legal_cont_pair_def enc_cont_pair_def
        cp_fid_def low_half)
qed

lemma despawn_codec:
  "wire_codec rd_despawn (\<lambda>d :: 16 word. le_bytes 2 (unat d)) (\<lambda>d. VInt (ucast d)) (\<lambda>_. True)"
  by unfold_locales (auto simp: rd_despawn_def as_val_def dest: rd_u16_on)

definition enc_op :: "named_op \<Rightarrow> byte list" where
  "enc_op p = (case p of (child, meth, args) \<Rightarrow>
     le_bytes 2 (unat child) @ enc_str meth @ [of_nat (length args)] @ concat (map enc_put_var args))"

definition seen_op :: "(f64 \<Rightarrow> string) \<Rightarrow> named_op \<Rightarrow> gval" where
  "seen_op ff p = (case p of (child, meth, args) \<Rightarrow>
     VDict [(''child_id'', VInt (ucast child)), (''method'', VStr meth), (''args'', VArr (map (seen ff) args))])"

definition legal_op :: "named_op \<Rightarrow> bool" where
  "legal_op p \<longleftrightarrow> short_str (fst (snd p)) \<and> length (snd (snd p)) \<le> 64 \<and> list_all legal_put_var (snd (snd p))"

lemma op_codec: "wire_codec (rd_op ff) enc_op (seen_op ff) legal_op"
proof (unfold_locales, goal_cases)
  case (1 p v)
  obtain child meth args where p: "p = (child, meth, args)" by (cases p)
  let ?k = "2 + length (enc_str meth)"
  from 1 p have "rd_u16 v = Ok (child, advance v 2)" and s: "on_bytes (advance v 2) (enc_str meth)"
    and "on_bytes (advance v ?k) [of_nat (length args)]"
    and a: "on_bytes (advance v (?k + 1)) (concat (map enc_put_var args))"
    by (auto simp: enc_op_def on_bytes_append on_bytes_Cons [of _ _ "concat _"] dest: rd_u16_on)
  moreover from this have "rd_u8 (advance v ?k) = Ok (of_nat (length args), advance v (?k + 1))"
    using rd_u8_on [of "advance v ?k"] by simp
  moreover have "unat (of_nat (length args) :: byte) = length args"
    using 1 p by (simp add: legal_op_def unat_of_nat)
  moreover have "rd_stringNoPad (advance v 2) = Ok (meth, advance v ?k)"
    using rd_stringNoPad_on [OF _ _ s] 1 p by (simp add: legal_op_def)
  moreover have "rd_list (length args) (decodePutVar ff) (advance v (?k + 1)) =
      Ok (map (seen ff) args, advance v (?k + 1 + length (concat (map enc_put_var args))))"
    using wire_codec.reads_list [OF putvar_codec _ _ a refl] 1 p by (simp add: legal_op_def)
  ultimately show ?case
    using 1 p by (simp add: rd_op_def seen_op_def enc_op_def legal_op_def min_absorb1)
qed

definition enc_container :: "container \<Rightarrow> byte list" where
  "enc_container c = le_bytes 4 (unat (c_id c)) @ enc_section enc_spawn (c_spawns c) @
     enc_section enc_cont_pair (c_pairs c) @
     enc_section (\<lambda>d. le_bytes 2 (unat d)) (c_despawns c) @ enc_section enc_op (c_ops c)"

definition seen_container :: "(f64 \<Rightarrow> string) \<Rightarrow> path_registry \<Rightarrow> container \<Rightarrow> gval" where
  "seen_container ff r c = VDict [(''cid'', VInt (ucast (c_id c))),
     (''spawns'', VArr (map (seen_spawn ff) (c_spawns c))),
     (''pairs'', VArr (map (seen_cont_pair ff r) (c_pairs c))),
     (''despawns'', VArr (map (\<lambda>d. VInt (ucast d)) (c_despawns c))),
     (''ops_named'', VArr (map (seen_op ff) (c_ops c)))]"

definition legal_container :: "path_registry \<Rightarrow> container \<Rightarrow> bool" where
  "legal_container r c \<longleftrightarrow> legal_section legal_spawn (c_spawns c) \<and>
     legal_section (legal_cont_pair r) (c_pairs c) \<and> legal_section (\<lambda>_. True) (c_despawns c) \<and>
     legal_section legal_op (c_ops c)"

lemma container_codec: "wire_codec (container_reader ff r) enc_container (seen_container ff r) (legal_container r)"
proof (unfold_locales, goal_cases)
  case (1 c v)
  define k1 where "k1 = 4 + length (enc_section enc_spawn (c_spawns c))"
  define k2 where "k2 = k1 + length (enc_section enc_cont_pair (c_pairs c))"
  define k3 where "k3 = k2 + length (enc_section (\<lambda>d :: 16 word. le_bytes 2 (unat d)) (c_despawns c))"
  from 1(3) have i: "rd_u32 v = Ok (c_id c, advance v 4)"
    and s: "on_bytes (advance v 4) (enc_section enc_spawn (c_spawns c))"
    and p: "on_bytes (advance v k1) (enc_section enc_cont_pair (c_pairs c))"
    and d: "on_bytes (advance v k2) (enc_section (\<lambda>d. le_bytes 2 (unat d)) (c_despawns c))"
    and q: "on_bytes (advance v k3) (enc_section enc_op (c_ops c))"
    by (auto simp: enc_container_def on_bytes_append k1_def k2_def k3_def add.assoc dest: rd_u32_on)
  note l = 1(1) [unfolded legal_container_def]
  have "rd_section (rd_spawn ff) (advance v 4) = Ok (map (seen_spawn ff) (c_spawns c), advance v k1)"
    using wire_codec.reads [OF section_codec [OF spawn_codec] _ _ s] l 1(2) by (simp add: k1_def)
  moreover have "rd_section (rd_cont_pair ff r) (advance v k1) =
      Ok (map (seen_cont_pair ff r) (c_pairs c), advance v k2)"
    using wire_codec.reads [OF section_codec [OF cont_pair_codec] _ _ p] l 1(2) by (simp add: k2_def)
  moreover have "rd_section rd_despawn (advance v k2) =
      Ok (map (\<lambda>d. VInt (ucast d)) (c_despawns c), advance v k3)"
    using wire_codec.reads [OF section_codec [OF despawn_codec] _ _ d] l 1(2) by (simp add: k3_def)
  moreover have "rd_section (rd_op ff) (advance v k3) =
      Ok (map (seen_op ff) (c_ops c), advance v (k3 + length (enc_section enc_op (c_ops c))))"
    using wire_codec.reads [OF section_codec [OF op_codec] _ _ q] l 1(2) by simp
  moreover have "length (enc_container c) = k3 + length (enc_section enc_op (c_ops c))"
    by (simp add: enc_container_def k1_def k2_def k3_def)
  ultimately show ?case using i by (simp add: container_reader_def seen_container_def)
qed

text \<open>Container round trip.  A container block decodes to exactly its spawns, typed pairs,
  despawns and named operations, in order; the type of a pair is looked up under the low 16 bits of
  its container pid.\<close>

theorem decodeContainerBlock_roundtrip:
  assumes "legal_container r c" and "length (enc_container c @ post) < 2 ^ 63"
  shows "decodeContainerBlock ff r (enc_container c @ post) = Ok (seen_container ff r c)"
  using wire_codec.reads [OF container_codec assms(1) go_start_buf [OF assms(2)] on_start_buf]
  by (simp add: decodeContainerBlock_reader)

theorem decodeContainerBlock_roundtrip_witness:
  "decodeContainerBlock (\<lambda>_. []) newPathRegistry
    (enc_container \<lparr>c_id = 5, c_spawns = [], c_pairs = [(0x20003, WU8 1)], c_despawns = [8],
       c_ops = [(2, ''hit'', [GNil])]\<rparr> @ []) =
   Ok (VDict [(''cid'', VInt 5), (''spawns'', VArr []),
     (''pairs'', VArr [VDict [(''cpid'', VInt 0x20003), (''fid'', VInt 3), (''path'', VStr '':anim''), (''value'', VInt 1)]]),
     (''despawns'', VArr [VInt 8]),
     (''ops_named'', VArr [VDict [(''child_id'', VInt 2), (''method'', VStr ''hit''), (''args'', VArr [VNil])]])])"
proof -
  let ?c = "\<lparr>c_id = 5, c_spawns = [], c_pairs = [(0x20003, WU8 1)], c_despawns = [8],
    c_ops = [(2, ''hit'', [GNil])]\<rparr>"
  have f: "cp_fid (0x20003, WU8 1) = 3" by (simp add: cp_fid_def)
  have "legal_container newPathRegistry ?c"
    by (simp add: f legal_container_def legal_section_def legal_cont_pair_def legal_op_def legal_put_var_def
        short_str_def newPathRegistry_def reg_set_def reg_field_def wt_defs)
  then have "decodeContainerBlock (\<lambda>_. []) newPathRegistry (enc_container ?c @ []) =
      Ok (seen_container (\<lambda>_. []) newPathRegistry ?c)"
    by (rule decodeContainerBlock_roundtrip)
      (simp add: enc_container_def enc_section_def enc_cont_pair_def enc_op_def enc_str_def enc_put_var_def)
  then show ?thesis
    by (simp add: seen_container_def seen_cont_pair_def f seen_op_def newPathRegistry_def reg_set_def reg_field_def)
qed

end
