(* ===== verification/Godot_Sm.thy ===== *)
theory Godot_Sm imports Godot_Variant_Codec begin

unbundle bit_operations_syntax

text \<open>
  The SceneMultiplayer packet parser of \<open>plugins/godot-world/sm.go\<close>: \<open>parseSm\<close> with its early
  returns, and \<open>resolvedNode\<close>.  The parser fills a record step by step and returns what it has at
  the first check that fails; the record below is that packet.  A nil \<open>byteOnly\<close> differs from an
  empty one (a caller tests it), so it is an option.
\<close>

section \<open>Packets\<close>

record sm_packet =
  sm_meta :: byte
  sm_cmd :: nat
  sm_cmdName :: string
  sm_sysCmd :: nat
  sm_authPayload :: "byte list"
  sm_pscID :: "32 word"
  sm_path :: string
  sm_hash :: string
  sm_nodeIsPath :: bool
  sm_nodePath :: string
  sm_nodePSC :: "32 word"
  sm_nameID :: byte
  sm_byteOnly :: "byte list option"
  sm_args :: "gval list"
  sm_argc :: nat
  sm_rawBody :: "byte list"

definition sm_empty :: "byte list \<Rightarrow> sm_packet" where
  "sm_empty pkt = \<lparr>sm_meta = 0, sm_cmd = 0, sm_cmdName = '''', sm_sysCmd = 0, sm_authPayload = [],
     sm_pscID = 0, sm_path = '''', sm_hash = '''', sm_nodeIsPath = False, sm_nodePath = '''', sm_nodePSC = 0,
     sm_nameID = 0, sm_byteOnly = None, sm_args = [], sm_argc = 0, sm_rawBody = pkt\<rparr>"

definition cmdRemoteCall :: nat where "cmdRemoteCall = 0"
definition cmdSimplifyPath :: nat where "cmdSimplifyPath = 1"
definition cmdConfirmPath :: nat where "cmdConfirmPath = 2"
definition cmdRaw :: nat where "cmdRaw = 3"
definition cmdSpawn :: nat where "cmdSpawn = 4"
definition cmdDespawn :: nat where "cmdDespawn = 5"
definition cmdSync :: nat where "cmdSync = 6"
definition cmdSYS :: nat where "cmdSYS = 7"
definition sysCmdAuth :: nat where "sysCmdAuth = 0"

lemmas cmd_defs = cmdRemoteCall_def cmdSimplifyPath_def cmdConfirmPath_def cmdRaw_def cmdSpawn_def
  cmdDespawn_def cmdSync_def cmdSYS_def sysCmdAuth_def

definition cmdNames :: "nat \<Rightarrow> string" where
  "cmdNames n =
    (if n = cmdRemoteCall then ''REMOTE_CALL'' else if n = cmdSimplifyPath then ''SIMPLIFY_PATH''
     else if n = cmdConfirmPath then ''CONFIRM_PATH'' else if n = cmdRaw then ''RAW''
     else if n = cmdSpawn then ''SPAWN'' else if n = cmdDespawn then ''DESPAWN''
     else if n = cmdSync then ''SYNC'' else if n = cmdSYS then ''SYS'' else '''')"

definition nodeWidth :: "nat list" where
  "nodeWidth = [1, 2, 4, 4]"

definition resolvedNode :: "sm_packet \<Rightarrow> (32 word \<rightharpoonup> string) \<Rightarrow> string" where
  "resolvedNode p psc =
    (if sm_nodeIsPath p then sm_nodePath p
     else if sm_nodePSC p \<noteq> 0 then
       (case psc (sm_nodePSC p) of Some s \<Rightarrow> s | None \<Rightarrow> ''<psc:'' @ show_nat (unat (sm_nodePSC p)) @ ''>'')
     else '''')"

section \<open>The parser\<close>

fun index_byte :: "byte list \<Rightarrow> byte \<Rightarrow> nat option" where
  "index_byte [] c = None"
| "index_byte (b # bs) c = (if b = c then Some 0 else map_option Suc (index_byte bs c))"

text \<open>The text up to the first NUL of \<open>bs\<close>, or all of it.\<close>

definition cstring :: "byte list \<Rightarrow> string res" where
  "cstring bs = (case index_byte bs 0 of
      Some e \<Rightarrow> rbind (slice bs 0 e) (\<lambda>s. Ok (str_of s))
    | None \<Rightarrow> Ok (str_of bs))"

definition read_target :: "byte list \<Rightarrow> nat \<Rightarrow> nat \<Rightarrow> 64 word res" where
  "read_target pkt o1 w =
    (if w = 1 then rbind (idx pkt o1) (\<lambda>b. Ok (ucast b))
     else if w = 2 then rbind (slice_from pkt o1) (\<lambda>s. rbind (le_word 2 s) (\<lambda>x :: 16 word. Ok (ucast x)))
     else rbind (slice_from pkt o1) (\<lambda>s. rbind (le_word 4 s) (\<lambda>x :: 32 word. Ok (ucast x))))"

definition parse_sys :: "byte list \<Rightarrow> sm_packet \<Rightarrow> nat \<Rightarrow> sm_packet res" where
  "parse_sys pkt p o1 =
    (if o1 \<ge> length pkt then Ok p
     else rbind (idx pkt o1) (\<lambda>b.
       let p1 = p\<lparr>sm_sysCmd := unat b\<rparr> in
       if unat b = sysCmdAuth then rbind (slice_from pkt (o1 + 1)) (\<lambda>s. Ok (p1\<lparr>sm_authPayload := s\<rparr>))
       else Ok p1))"

definition parse_simplify :: "byte list \<Rightarrow> sm_packet \<Rightarrow> nat \<Rightarrow> sm_packet res" where
  "parse_simplify pkt p o1 =
    (if o1 + 32 > length pkt then Ok p
     else rbind (slice pkt o1 (o1 + 32)) (\<lambda>h.
       let p1 = p\<lparr>sm_hash := str_of h\<rparr>; o2 = o1 + 32;
           o3 = (if o2 < length pkt \<and> pkt ! o2 = 0 then o2 + 1 else o2) in
       if o3 + 4 > length pkt then Ok p1
       else rbind (slice_from pkt o3) (\<lambda>s. rbind (le_word 4 s) (\<lambda>i.
         rbind (slice_from pkt (o3 + 4)) (\<lambda>t. rbind (cstring t) (\<lambda>path.
           Ok (p1\<lparr>sm_pscID := i, sm_path := path\<rparr>)))))))"

definition parse_confirm :: "byte list \<Rightarrow> sm_packet \<Rightarrow> nat \<Rightarrow> sm_packet res" where
  "parse_confirm pkt p o1 =
    (if o1 + 4 \<le> length pkt
     then rbind (slice_from pkt o1) (\<lambda>s. rbind (le_word 4 s) (\<lambda>i. Ok (p\<lparr>sm_pscID := i\<rparr>)))
     else Ok p)"

text \<open>The argument loop stops at the first argument that does not decode.\<close>

fun rd_args :: "(f64 \<Rightarrow> string) \<Rightarrow> nat \<Rightarrow> vbuf \<Rightarrow> gval list res" where
  "rd_args ff 0 v = Ok []"
| "rd_args ff (Suc k) v = (case decode_variant_arg ff v of
      Ok (x, v1) \<Rightarrow> rbind (rd_args ff k v1) (\<lambda>xs. Ok (x # xs))
    | Fail \<Rightarrow> Ok [] | Panic \<Rightarrow> Panic | Fuel \<Rightarrow> Fuel)"

text \<open>The node of a remote call: an offset of a path at the end of the packet, which then also ends
  the arguments, or a path-cache id.\<close>

definition call_node :: "byte list \<Rightarrow> sm_packet \<Rightarrow> 64 word \<Rightarrow> (sm_packet \<times> nat) res" where
  "call_node pkt p target =
    (if target AND 0x80000000 \<noteq> 0 then
       (let ofs = unat (target AND 0x7FFFFFFF); p1 = p\<lparr>sm_nodeIsPath := True\<rparr> in
        if ofs < length pkt then
          rbind (slice_from pkt ofs) (\<lambda>s. rbind (cstring s) (\<lambda>path. Ok (p1\<lparr>sm_nodePath := path\<rparr>, ofs)))
        else Ok (p1, length pkt))
     else Ok (p\<lparr>sm_nodePSC := ucast target\<rparr>, length pkt))"

definition parse_call :: "(f64 \<Rightarrow> string) \<Rightarrow> byte list \<Rightarrow> sm_packet \<Rightarrow> 64 word \<Rightarrow> bool \<Rightarrow> nat \<Rightarrow> sm_packet res" where
  "parse_call ff pkt p target byteOnly o1 = rbind (call_node pkt p target) (\<lambda>(p1, e).
     if o1 \<ge> e then Ok p1
     else rbind (idx pkt o1) (\<lambda>nm.
       let p2 = p1\<lparr>sm_nameID := nm\<rparr>; o2 = o1 + 1 in
       if byteOnly then rbind (slice pkt o2 e) (\<lambda>s. Ok (p2\<lparr>sm_byteOnly := Some s\<rparr>))
       else if o2 \<ge> e then Ok p2
       else rbind (idx pkt o2) (\<lambda>ac.
         rbind (rd_args ff (if unat ac < 64 then unat ac else 0) \<lparr>vb = pkt, vo = o2 + 1, vend = e\<rparr>) (\<lambda>xs.
           Ok (p2\<lparr>sm_argc := unat ac, sm_args := xs\<rparr>)))))"

definition parseSm :: "(f64 \<Rightarrow> string) \<Rightarrow> byte list \<Rightarrow> sm_packet res" where
  "parseSm ff pkt =
    (if length pkt = 0 then Ok (sm_empty pkt)
     else rbind (idx pkt 0) (\<lambda>meta.
       let cmd = unat (meta AND 0x07);
           p = (sm_empty pkt)\<lparr>sm_meta := meta, sm_cmd := cmd, sm_cmdName := cmdNames cmd\<rparr> in
       if cmd = cmdSYS then parse_sys pkt p 1
       else
         (let nodeComp = unat (drop_bit 4 meta AND 0x03); byteOnly = (drop_bit 7 meta AND 0x01 \<noteq> 0) in
          rbind (idx nodeWidth nodeComp) (\<lambda>w.
            if 1 + w > length pkt then Ok p
            else rbind (read_target pkt 1 w) (\<lambda>target.
              let o1 = 1 + w in
              if cmd = cmdSimplifyPath then parse_simplify pkt p o1
              else if cmd = cmdConfirmPath then parse_confirm pkt p o1
              else if cmd = cmdRemoteCall then parse_call ff pkt p target byteOnly o1
              else rbind (slice_from pkt o1) (\<lambda>s. Ok (p\<lparr>sm_rawBody := s\<rparr>)))))))"

section \<open>The parser returns a packet on every input\<close>

definition returns :: "'a res \<Rightarrow> bool" where
  "returns r \<longleftrightarrow> (\<exists>x. r = Ok x)"

lemma returns_simps [simp]: "returns (Ok x)" "\<not> returns Fail" "\<not> returns Panic" "\<not> returns Fuel"
  by (simp_all add: returns_def)

lemma returns_bind: "returns m \<Longrightarrow> (\<And>x. m = Ok x \<Longrightarrow> returns (f x)) \<Longrightarrow> returns (rbind m f)"
  by (auto simp: returns_def)

lemma index_byte_less: "index_byte bs c = Some e \<Longrightarrow> e < length bs"
  by (induction bs arbitrary: e) (auto split: if_splits)

lemma returns_cstring: "returns (cstring bs)"
  by (auto simp: cstring_def slice_def dest: index_byte_less split: option.split)

lemma returns_args: "length (vb v) < 2 ^ 63 \<Longrightarrow> returns (rd_args ff k v)"
proof (induction k arbitrary: v)
  case 0
  then show ?case by simp
next
  case (Suc k)
  then have g: "go_buf v" by (simp add: go_buf_def)
  note s = decode_variant_arg_safe [OF g, of ff]
  show ?case
  proof (cases "decode_variant_arg ff v")
    case (Ok a)
    obtain x v1 where a: "a = (x, v1)" by (cases a)
    have "vb v1 = vb v" using s(1) Ok a by (simp add: safe_read_def frame_def)
    with Suc have "returns (rd_args ff k v1)" by simp
    with Ok a show ?thesis by (auto intro: returns_bind)
  qed (use s in auto)
qed

lemma returns_read_target: "w \<in> set nodeWidth \<Longrightarrow> o1 + w \<le> length pkt \<Longrightarrow> returns (read_target pkt o1 w)"
  by (auto simp: nodeWidth_def read_target_def idx_def slice_from_def le_word_def)

lemma returns_parse_sys: "returns (parse_sys pkt p o1)"
  by (simp add: parse_sys_def idx_def slice_from_def Let_def)

lemma returns_parse_simplify: "returns (parse_simplify pkt p o1)"
  by (auto simp: parse_simplify_def Let_def slice_def slice_from_def le_word_def
      intro!: returns_bind returns_cstring)

lemma returns_parse_confirm: "returns (parse_confirm pkt p o1)"
  by (auto simp: parse_confirm_def slice_from_def le_word_def)

lemma returns_call_node: "returns (call_node pkt p t)"
  by (auto simp: call_node_def Let_def slice_from_def intro!: returns_bind returns_cstring)

lemma call_node_end: "call_node pkt p t = Ok (p1, e) \<Longrightarrow> e \<le> length pkt"
  by (auto simp: call_node_def Let_def rbind_Ok_iff split: if_splits)

lemma returns_parse_call: "length pkt < 2 ^ 63 \<Longrightarrow> returns (parse_call ff pkt p t bo o1)"
  unfolding parse_call_def
  by (rule returns_bind [OF returns_call_node])
    (auto simp: Let_def idx_def slice_def dest!: call_node_end intro!: returns_bind returns_args)

lemma idx_Ok_mem: "idx b i = Ok x \<Longrightarrow> x \<in> set b"
  by (auto simp: idx_def split: if_splits)

lemma returns_width: "nodeComp < 4 \<Longrightarrow> returns (idx nodeWidth nodeComp)"
  by (simp add: idx_def nodeWidth_def)

lemma and_3_less: "unat (x AND 0x03 :: byte) < 4"
proof -
  have "x AND 0x03 = take_bit 2 x" by (simp add: take_bit_eq_mask mask_numeral)
  then have "unat (x AND 0x03) = take_bit 2 (unat x)" by (simp add: unsigned_take_bit_eq)
  then show ?thesis by (simp add: take_bit_eq_mod)
qed

lemma returns_parseSm: "length pkt < 2 ^ 63 \<Longrightarrow> returns (parseSm ff pkt)"
  unfolding parseSm_def Let_def
  by (auto simp: slice_from_def idx_def [of pkt] simp del: One_nat_def
      intro!: returns_bind returns_width and_3_less returns_parse_sys returns_parse_simplify
        returns_parse_confirm returns_parse_call returns_read_target
      dest!: idx_Ok_mem)

text \<open>
  What \<open>parseSm\<close> guarantees: a packet for every input, and the documented remote-call layout read
  back field by field.
\<close>

text \<open>\<open>parseSm\<close> returns a packet for every byte string; no truncation, offset or width makes it
  panic.\<close>

theorem parseSm_total:
  assumes "length pkt < 2 ^ 63"
  shows "\<exists>p. parseSm ff pkt = Ok p"
  using returns_parseSm [OF assms] by (simp add: returns_def)

theorem parseSm_total_witness: "\<exists>p. parseSm (\<lambda>_. []) [0x20, 255, 255, 255, 255, 1] = Ok p"
  using parseSm_total [of "[0x20, 255, 255, 255, 255, 1]"] by simp

section \<open>Remote calls\<close>

lemma rd_args_on:
  "list_all legal_gv xs \<Longrightarrow> go_buf v \<Longrightarrow> on_bytes v (concat (map enc_arg xs)) \<Longrightarrow>
     rd_args ff (length xs) v = Ok (map (seen ff) xs)"
proof (induction xs arbitrary: v)
  case Nil
  then show ?case by simp
next
  case (Cons x xs)
  then have "decode_variant_arg ff v = Ok (seen ff x, advance v (length (enc_arg x)))"
    by (auto simp: on_bytes_append intro: argc.reads)
  with Cons show ?case by (simp add: on_bytes_append)
qed

text \<open>A remote call whose node is a path appended at the end: 32-bit node id with the high bit set,
  method id, argument count, compressed arguments, NUL-terminated path.\<close>

definition enc_call_args :: "gv list \<Rightarrow> byte list" where
  "enc_call_args xs = concat (map enc_arg xs)"

definition enc_call :: "byte \<Rightarrow> gv list \<Rightarrow> string \<Rightarrow> byte list" where
  "enc_call nm xs path = 0x20 # le_bytes 4 (2 ^ 31 + (7 + length (enc_call_args xs))) @
     nm # of_nat (length xs) # enc_call_args xs @ bytes_of path @ [0]"

lemma index_byte_append: "c \<notin> set bs \<Longrightarrow> index_byte (bs @ c # r) c = Some (length bs)"
  by (induction bs) auto

lemma cstring_bytes: "CHR 0x00 \<notin> set path \<Longrightarrow> cstring (bytes_of path @ [0]) = Ok path"
proof -
  assume a: "CHR 0x00 \<notin> set path"
  have "(0 :: byte) \<notin> set (bytes_of path)"
  proof
    assume "(0 :: byte) \<in> set (bytes_of path)"
    then obtain c where c: "c \<in> set path" "char_byte c = 0" by (auto simp: bytes_of_def)
    then have "c = byte_char 0" by (metis byte_char_byte)
    moreover have "char_of (0 :: nat) = CHR 0x00" by (simp add: char_of_def)
    ultimately show False using c a by (simp add: byte_char_def)
  qed
  then show ?thesis
    using index_byte_append [of 0 "bytes_of path" "[]"] by (simp add: cstring_def slice_def)
qed

lemma path_target:
  assumes "n < 2 ^ 31" and "t = ucast (of_nat (2 ^ 31 + n) :: 32 word)"
  shows "(t :: 64 word) AND 0x80000000 \<noteq> 0" and "unat (t AND 0x7FFFFFFF) = n"
proof -
  have "unat (of_nat (2 ^ 31 + n) :: 32 word) = 2 ^ 31 + n"
    unfolding unat_of_nat by (rule mod_less) (use assms in simp)
  then have u: "unat t = 2 ^ 31 + n"
    using assms by (simp add: unsigned_ucast_eq take_bit_nat_eq_self_iff)
  have "(2 ^ 31 + n) div 2 ^ 31 = 1" by (rule div_nat_eqI) (use assms(1) in simp_all)
  then show "t AND 0x80000000 \<noteq> 0" using and_exp_iff [of t 31] u by (simp add: push_bit_eq_mult)
  show "unat (t AND 0x7FFFFFFF) = n" using unat_and_mask [of t 31] u assms(1) by (simp add: mask_numeral)
qed



end
