(* ===== verification/Godot_Ws.thy ===== *)
theory Godot_Ws imports Gt_Base begin

unbundle bit_operations_syntax

text \<open>
  The WebSocket frame parser of \<open>plugins/godot-world/ws.go\<close>.  A payload length is a Go \<open>int\<close>: the
  64-bit extended length is converted to a signed 64-bit integer and \<open>hdr + plen\<close> wraps, so lengths
  are \<open>64 word\<close> read with \<open>sint\<close>; \<open>slice_int\<close> is a slice expression with signed bounds.
\<close>

section \<open>Frames\<close>

record ws_frame =
  ws_opcode :: byte
  ws_fin :: bool
  ws_payload :: "byte list"

definition slice_int :: "'a list \<Rightarrow> 64 word \<Rightarrow> 64 word \<Rightarrow> 'a list res" where
  "slice_int b i j =
    (if 0 \<le> sint i \<and> sint i \<le> sint j \<and> sint j \<le> int (length b)
     then Ok (take (nat (sint j) - nat (sint i)) (drop (nat (sint i)) b)) else Panic)"

definition slice_from_int :: "'a list \<Rightarrow> 64 word \<Rightarrow> 'a list res" where
  "slice_from_int b i =
    (if 0 \<le> sint i \<and> sint i \<le> int (length b) then Ok (drop (nat (sint i)) b) else Panic)"

definition unmask :: "byte list \<Rightarrow> byte list \<Rightarrow> byte list" where
  "unmask mk payload = map (\<lambda>i. payload ! i XOR mk ! (i mod 4)) [0..<length payload]"

text \<open>The announced payload length and the header size without a mask; \<open>Fail\<close> while it is incomplete.\<close>

definition ws_length :: "byte list \<Rightarrow> (64 word \<times> nat) res" where
  "ws_length data =
    (let plen7 = data ! 1 AND 0x7F in
     if plen7 = 126 then
       (if length data < 4 then Fail
        else rbind (slice data 2 4) (\<lambda>s. rbind (be_word 2 s) (\<lambda>x :: 16 word. Ok (ucast x, 4))))
     else if plen7 = 127 then
       (if length data < 10 then Fail
        else rbind (slice data 2 10) (\<lambda>s. rbind (be_word 8 s) (\<lambda>x :: 64 word. Ok (x, 10))))
     else Ok (ucast plen7, 2))"

text \<open>One round of the loop: \<open>Fail\<close> when the buffer holds no complete frame, otherwise the frame and the
  number of bytes it occupies.\<close>

definition ws_frame_at :: "byte list \<Rightarrow> (ws_frame \<times> nat) res" where
  "ws_frame_at data =
    (if length data < 2 then Fail
     else
       (let fin = (data ! 0 AND 0x80 \<noteq> 0); op = data ! 0 AND 0x0F; masked = (data ! 1 AND 0x80 \<noteq> 0) in
        rbind (ws_length data) (\<lambda>(plen, hdr0).
          if masked \<and> length data < hdr0 + 4 then Fail
          else rbind (if masked then slice data hdr0 (hdr0 + 4) else Ok []) (\<lambda>mk.
            let hdr = (if masked then hdr0 + 4 else hdr0) in
            if int (length data) < sint (of_nat hdr + plen) then Fail
            else rbind (slice_int data (of_nat hdr) (of_nat hdr + plen)) (\<lambda>payload.
              rbind (slice_from_int data (of_nat hdr + plen)) (\<lambda>_.
                Ok (\<lparr>ws_opcode = op, ws_fin = fin,
                     ws_payload = (if masked then unmask mk payload else payload)\<rparr>,
                    nat (sint (of_nat hdr + plen)))))))))"

section \<open>Header facts\<close>

lemma ws_length_bounds:
  "2 \<le> length data \<Longrightarrow> ws_length data = Ok (p, h) \<Longrightarrow> 2 \<le> h \<and> h \<le> 10 \<and> h \<le> length data"
  by (auto simp: ws_length_def Let_def rbind_Ok_iff slice_def split: if_splits)

lemma slice_int_OkD:
  "slice_int b i j = Ok s \<Longrightarrow> 0 \<le> sint i \<and> sint i \<le> sint j \<and> sint j \<le> int (length b)"
  by (auto simp: slice_int_def split: if_splits)

lemma sint_small: "h < 2 ^ 63 \<Longrightarrow> sint (of_nat h :: 64 word) = int h"
  by (simp add: signed_of_nat signed_take_bit_int_eq_self)

lemma ws_frame_at_progress:
  assumes "ws_frame_at data = Ok (f, n)"
  shows "2 \<le> n \<and> n \<le> length data"
proof -
  obtain plen hdr0 where l: "2 \<le> length data" "ws_length data = Ok (plen, hdr0)"
    using assms by (auto simp: ws_frame_at_def Let_def rbind_Ok_iff split: if_splits)
  define hdr where "hdr = (if data ! 1 AND 0x80 \<noteq> 0 then hdr0 + 4 else hdr0)"
  have h: "hdr0 \<le> hdr" "hdr \<le> hdr0 + 4" by (simp_all add: hdr_def)
  have n: "n = nat (sint (of_nat hdr + plen))" and "\<exists>x. slice_int data (of_nat hdr) (of_nat hdr + plen) = Ok x"
    using assms l by (auto simp: ws_frame_at_def Let_def rbind_Ok_iff hdr_def split: if_splits)
  then obtain x where s: "slice_int data (of_nat hdr) (of_nat hdr + plen) = Ok x" by blast
  have "hdr < 2 ^ 63" using ws_length_bounds [OF l(1,2)] h by simp
  then show ?thesis
    using slice_int_OkD [OF s] sint_small [of hdr] ws_length_bounds [OF l(1,2)] h n by linarith
qed

section \<open>The loop\<close>

function ws_loop :: "byte list \<Rightarrow> (ws_frame list \<times> nat) res" where
  "ws_loop data = (case ws_frame_at data of
      Ok (f, n) \<Rightarrow> rbind (ws_loop (drop n data)) (\<lambda>(fs, k). Ok (f # fs, n + k))
    | Fail \<Rightarrow> Ok ([], 0)
    | Panic \<Rightarrow> Panic
    | Fuel \<Rightarrow> Fuel)"
  by pat_completeness auto
termination
proof (relation "measure length")
  fix data :: "byte list" and a f n
  assume "ws_frame_at data = Ok a" and "(f, n) = a"
  then show "(drop n data, data) \<in> measure length"
    using ws_frame_at_progress [of data f n] by auto
qed simp

declare ws_loop.simps [simp del]

definition parseWSFrames :: "byte list \<Rightarrow> (ws_frame list \<times> nat) res" where
  "parseWSFrames data = ws_loop data"

section \<open>HTTP header block\<close>

definition indexBytes :: "byte list \<Rightarrow> byte list \<Rightarrow> nat option" where
  "indexBytes haystack needle =
    (if needle = [] then Some 0
     else find (\<lambda>i. take (length needle) (drop i haystack) = needle)
       [0..<length haystack + 1 - length needle])"

definition indexHTTPHeader :: "byte list \<Rightarrow> nat option" where
  "indexHTTPHeader data =
    (case indexBytes data [13, 10, 13, 10] of Some i \<Rightarrow> Some (i + 4)
     | None \<Rightarrow> map_option (\<lambda>i. i + 2) (indexBytes data [10, 10]))"

end
