(* ===== verification/Godot_World.thy ===== *)
theory Godot_World imports Godot_Sm Godot_Wire_Safe Godot_Ws begin

unbundle bit_operations_syntax

text \<open>
  The decoder entry point of \<open>plugins/godot-world/decode.go\<close>: the per-flow and per-conversation
  state, the events of one SceneMultiplayer packet (\<open>processPacket\<close> and the functions it dispatches
  to), the resynchronisation heuristics and the \<open>Decode\<close> loop.

  The plugin SDK's \<open>framing\<close> package (link-layer extraction, TCP reassembly) is not part of the
  repository: it is the argument \<open>fr\<close>.  Its reassembler state is threaded explicitly.  The global maps
  \<open>flowStates\<close> and \<open>regs\<close> are fields of the state; \<open>flowState.pathReg\<close> only caches a pointer that the
  code never reads, and is left out.  A Go run-time panic inside \<open>Decode\<close> is recovered there: the
  events are dropped, the state reached so far stays.
\<close>

section \<open>Events\<close>

record event =
  ev_type :: string
  ev_schema :: string
  ev_payload :: "(string \<times> gval) list"
  ev_meta :: "(string \<times> gval) list"
  ev_corr :: string

definition meta :: "string \<Rightarrow> string \<Rightarrow> bool \<Rightarrow> (string \<times> gval) list" where
  "meta dir msgName isPush =
    [(''direction'', VStr dir), (''msg_name'', VStr msgName), (''is_push'', VBool isPush)]"

definition mk_event :: "string \<Rightarrow> (string \<times> gval) list \<Rightarrow> (string \<times> gval) list \<Rightarrow> event" where
  "mk_event t p m = \<lparr>ev_type = t, ev_schema = t @ ''.v1'', ev_payload = p, ev_meta = m, ev_corr = ''''\<rparr>"

definition correlationFor :: "(f64 \<Rightarrow> string) \<Rightarrow> (string \<times> gval) list \<Rightarrow> string" where
  "correlationFor ff payload = (case map_of payload ''request_id'' of
      Some i \<Rightarrow> ''req:'' @ fmt_v ff i | None \<Rightarrow> '''')"

definition hex_digit :: "nat \<Rightarrow> char" where
  "hex_digit n = char_of (if n < 10 then 48 + n else 87 + n)"

definition cappedHex :: "byte list \<Rightarrow> string" where
  "cappedHex b = concat (map (\<lambda>x. [hex_digit (unat x div 16), hex_digit (unat x mod 16)]) (take 8192 b))"

section \<open>State\<close>

record flow_state =
  fs_isServer :: bool
  fs_handshakeDone :: bool
  fs_firstPacket :: bool
  fs_peerID :: "32 word"
  fs_psc :: "32 word \<rightharpoonup> string"
  fs_pending :: "byte list"
  fs_regKey :: string

type_synonym regs = "string \<rightharpoonup> path_registry"

definition getReg :: "string \<Rightarrow> regs \<Rightarrow> path_registry \<times> regs" where
  "getReg key rs = (case rs key of Some r \<Rightarrow> (r, rs) | None \<Rightarrow> (newPathRegistry, rs(key \<mapsto> newPathRegistry)))"

definition direction :: "flow_state \<Rightarrow> string" where
  "direction fs = (if fs_isServer fs then ''server_to_client'' else ''client_to_server'')"

section \<open>RPC events\<close>

definition genericRPC :: "string \<Rightarrow> string \<Rightarrow> sm_packet \<Rightarrow> event" where
  "genericRPC dir node p =
    (let p1 = [(''node'', VStr node), (''method'', VStr (''<name:'' @ show_nat (unat (sm_nameID p)) @ ''>''))];
         p2 = (if sm_args p \<noteq> [] then AList.update ''args'' (VArr (sm_args p)) p1 else p1);
         p3 = (case sm_byteOnly p of
             Some (b # bs) \<Rightarrow> AList.update ''raw_hex'' (VStr (cappedHex (b # bs))) p2 | _ \<Rightarrow> p2) in
     mk_event ''godot_world.rpc'' p3 (meta dir node False))"

definition type_name :: "string \<Rightarrow> (string \<times> gval) list \<Rightarrow> string" where
  "type_name dflt payload = (case map_of payload ''type'' of
      Some (VStr t) \<Rightarrow> if t \<noteq> '''' then t else dflt | _ \<Rightarrow> dflt)"

definition dataRPC :: "(f64 \<Rightarrow> string) \<Rightarrow> string \<Rightarrow> string \<Rightarrow> string \<Rightarrow> sm_packet \<Rightarrow> event" where
  "dataRPC ff dir evType nm p =
    (let a = sm_args p;
         p1 = (if length a \<ge> 1 then AList.update ''request_id'' (a ! 0) [] else []);
         p2 = (if length a \<ge> 2 then AList.update ''type'' (VStr (fmt_v ff (a ! 1))) p1 else p1);
         p3 = (if length a \<ge> 3 then AList.update ''data'' (a ! 2) p2 else p2);
         p4 = (if length a \<ge> 4 then AList.update ''instance_id'' (VStr (fmt_v ff (a ! 3))) p3 else p3);
         p5 = (if map_of p4 ''data'' = None then AList.update ''data'' (VDict []) p4 else p4) in
     (mk_event evType p5 (meta dir (type_name nm p5) (evType = ''godot_world.data_push'')))
       \<lparr>ev_corr := correlationFor ff p5\<rparr>)"

definition dataPush :: "(f64 \<Rightarrow> string) \<Rightarrow> string \<Rightarrow> sm_packet \<Rightarrow> event" where
  "dataPush ff dir p =
    (let a = sm_args p;
         p1 = (if length a \<ge> 1 then AList.update ''type'' (VStr (fmt_v ff (a ! 0))) [] else []);
         p2 = AList.update ''data'' (if length a \<ge> 2 then a ! 1 else VDict []) p1 in
     mk_event ''godot_world.data_push'' p2 (meta dir (type_name ''data_push'' p2) True))"

definition instanceIDFromNode :: "string \<Rightarrow> string" where
  "instanceIDFromNode node = (case after_last CHR ''/'' node of
      Some i \<Rightarrow> if i \<noteq> ''StateSynchronizerManager'' then i else '''' | None \<Rightarrow> '''')"

text \<open>A wire payload that does not decode falls through to the generic event; the bootstrap's changes to
  the registry stay.\<close>

definition with_method :: "string \<Rightarrow> gval \<Rightarrow> (string \<times> gval) list" where
  "with_method nm d = (case d of VDict kvs \<Rightarrow> AList.update ''method'' (VStr nm) kvs | _ \<Rightarrow> [])"

fun or_generic :: "'a res \<Rightarrow> ('a \<Rightarrow> event) \<Rightarrow> event \<Rightarrow> event list res" where
  "or_generic (Ok x) f g = Ok [f x]"
| "or_generic Fail f g = Ok [g]"
| "or_generic Panic f g = Panic"
| "or_generic Fuel f g = Fuel"

definition blocks_payload :: "gval list \<Rightarrow> (string \<times> gval) list" where
  "blocks_payload bs = [(''blocks'', VArr bs), (''count'', VInt (of_nat (length bs)))]"

definition stateSyncRPC ::
  "(f64 \<Rightarrow> string) \<Rightarrow> (f64 \<Rightarrow> 64 word) \<Rightarrow> flow_state \<Rightarrow> regs \<Rightarrow> string \<Rightarrow> sm_packet \<Rightarrow> event list res \<times> regs" where
  "stateSyncRPC ff f2i fs rs dir p =
    (let generic = genericRPC dir ''StateSynchronizerManager'' p in
     case sm_byteOnly p of
       None \<Rightarrow> (Ok [generic], rs)
     | Some b \<Rightarrow>
        (let (reg, rs1) = getReg (fs_regKey fs) rs; nm = unat (sm_nameID p) in
         if nm = 0 then
           (let (reg', r) = decodeBootstrap ff f2i reg b in
            (or_generic r (\<lambda>d. mk_event ''godot_world.state_bootstrap'' (with_method ''on_bootstrap'' d)
               (meta dir ''on_bootstrap'' True)) generic, rs1(fs_regKey fs \<mapsto> reg')))
         else if nm = 1 then
           (or_generic (decodeDelta ff reg b) (\<lambda>bs. mk_event ''godot_world.client_delta'' (blocks_payload bs)
              (meta dir ''on_client_delta'' False)) generic, rs1)
         else if nm = 2 then
           (or_generic (decodeContainerBlock ff reg b) (\<lambda>d. mk_event ''godot_world.props_bootstrap''
              (with_method ''on_props_bootstrap'' d) (meta dir ''on_props_bootstrap'' True)) generic, rs1)
         else if nm = 3 then
           (or_generic (decodeContainerBlock ff reg b) (\<lambda>d. mk_event ''godot_world.props_delta''
              (with_method ''on_props_delta'' d) (meta dir ''on_props_delta'' True)) generic, rs1)
         else if nm = 4 then
           (or_generic (decodeDelta ff reg b) (\<lambda>bs. mk_event ''godot_world.state_delta'' (blocks_payload bs)
              (meta dir ''on_state_delta'' True)) generic, rs1)
         else (Ok [generic], rs1)))"

definition instance_names :: "string list" where
  "instance_names = [''despawn_player'', ''ready_to_enter_instance'', ''spawn_player'']"

definition instance_rpc :: "flow_state \<Rightarrow> string \<Rightarrow> string \<Rightarrow> sm_packet \<Rightarrow> event" where
  "instance_rpc fs dir node p =
    (let nm = instance_names ! unat (sm_nameID p);
         p1 = [(''method'', VStr nm)];
         p2 = (if instanceIDFromNode node \<noteq> '''' then AList.update ''instance_id'' (VStr (instanceIDFromNode node)) p1 else p1);
         p3 = (if sm_args p \<noteq> [] then AList.update ''player_id'' (sm_args p ! 0) p2 else p2) in
     mk_event ''godot_world.instance_rpc'' p3 (meta dir nm (\<not> fs_isServer fs)))"

definition rpcEvent ::
  "(f64 \<Rightarrow> string) \<Rightarrow> (f64 \<Rightarrow> 64 word) \<Rightarrow> flow_state \<Rightarrow> regs \<Rightarrow> sm_packet \<Rightarrow> string \<Rightarrow> event list res \<times> regs" where
  "rpcEvent ff f2i fs rs p node =
    (let dir = direction fs; nm = unat (sm_nameID p);
         base = (case after_last CHR ''/'' node of Some b \<Rightarrow> b | None \<Rightarrow> node) in
     if node = ''.'' then
       (if nm = 0 then (Ok [dataRPC ff dir ''godot_world.data_request'' ''data_request'' p], rs)
        else if nm = 1 then (Ok [dataRPC ff dir ''godot_world.data_response'' ''data_response'' p], rs)
        else if nm = 2 then (Ok [dataPush ff dir p], rs)
        else (Ok [genericRPC dir node p], rs))
     else if base = ''InstanceManager'' then
       (if nm = 0 \<and> length (sm_args p) \<ge> 2 then
          (Ok [mk_event ''godot_world.instance_charge''
             [(''map_path'', VStr (fmt_v ff (sm_args p ! 0))), (''instance_id'', VStr (fmt_v ff (sm_args p ! 1)))]
             (meta dir ''charge_new_instance'' True)], rs)
        else (Ok [genericRPC dir node p], rs))
     else if base = ''StateSynchronizerManager'' then stateSyncRPC ff f2i fs rs dir p
     else if contains_str node ''InstanceManager/'' \<and> nm \<le> 2 \<and> (sm_byteOnly p = None \<or> sm_byteOnly p = Some []) then
       (Ok [instance_rpc fs dir node p], rs)
     else (Ok [genericRPC dir node p], rs))"

section \<open>One packet\<close>

definition decodeAuthToken :: "byte list \<Rightarrow> string res" where
  "decodeAuthToken b =
    (if length b \<ge> 8 \<and> le_val (take 4 b) = 4 then
       (let n = le_val (take 4 (drop 4 b)) in
        if n \<le> length b - 8 then rbind (slice b 8 (8 + n)) (\<lambda>s. Ok (str_of s)) else Ok (cappedHex b))
     else Ok (cappedHex b))"

definition authEvent :: "flow_state \<Rightarrow> sm_packet \<Rightarrow> event res" where
  "authEvent fs p =
    rbind (if fs_isServer fs then Ok [(''challenge'', VStr (str_of (sm_authPayload p)))]
           else rbind (decodeAuthToken (sm_authPayload p)) (\<lambda>t. Ok [(''auth_token'', VStr t)])) (\<lambda>payload.
      Ok (mk_event ''godot_world.auth'' payload (meta (direction fs) ''auth'' False)))"

definition process_parsed ::
  "(f64 \<Rightarrow> string) \<Rightarrow> (f64 \<Rightarrow> 64 word) \<Rightarrow> flow_state \<Rightarrow> regs \<Rightarrow> sm_packet \<Rightarrow> event list res \<times> flow_state \<times> regs" where
  "process_parsed ff f2i fs rs p =
    (let dir = direction fs in
     if sm_cmd p = cmdSYS then
       (if sm_sysCmd p = sysCmdAuth then (rbind (authEvent fs p) (\<lambda>e. Ok [e]), fs, rs)
        else (Ok [mk_event ''godot_world.sys'' [(''sys_cmd'', VInt (of_nat (sm_sysCmd p)))] (meta dir ''sys'' True)], fs, rs))
     else if sm_cmd p = cmdSimplifyPath then
       (Ok [mk_event ''godot_world.path_cache''
          [(''cmd'', VStr ''simplify''), (''psc_id'', VInt (ucast (sm_pscID p))), (''path'', VStr (sm_path p))]
          (meta dir ''simplify_path'' False)],
        fs\<lparr>fs_psc := (fs_psc fs)(sm_pscID p \<mapsto> sm_path p)\<rparr>, rs)
     else if sm_cmd p = cmdConfirmPath then
       (Ok [mk_event ''godot_world.path_cache''
          [(''cmd'', VStr ''confirm''), (''psc_id'', VInt (ucast (sm_pscID p)))] (meta dir ''confirm_path'' False)], fs, rs)
     else if sm_cmd p = cmdRemoteCall then
       (let (e, rs') = rpcEvent ff f2i fs rs p (resolvedNode p (fs_psc fs)) in (e, fs, rs'))
     else
       (Ok [mk_event ''godot_world.raw''
          [(''cmd'', VStr (sm_cmdName p)), (''raw_hex'', VStr (cappedHex (sm_rawBody p)))]
          (meta dir (sm_cmdName p) True)], fs, rs))"

definition processPacket ::
  "(f64 \<Rightarrow> string) \<Rightarrow> (f64 \<Rightarrow> 64 word) \<Rightarrow> flow_state \<Rightarrow> regs \<Rightarrow> byte list \<Rightarrow> event list res \<times> flow_state \<times> regs" where
  "processPacket ff f2i fs rs pkt =
    (if fs_isServer fs \<and> fs_firstPacket fs \<and> length pkt = 4 then
       (let i = of_nat (le_val pkt) :: 32 word in
        (Ok [mk_event ''godot_world.peer_id'' [(''peer_id'', VInt (ucast i))] (meta ''server_to_client'' ''peer_id'' False)],
         fs\<lparr>fs_firstPacket := False, fs_peerID := i\<rparr>, rs))
     else
       (let fs1 = fs\<lparr>fs_firstPacket := False\<rparr> in
        case parseSm ff pkt of
          Ok p \<Rightarrow> process_parsed ff f2i fs1 rs p
        | Fail \<Rightarrow> (Fail, fs1, rs) | Panic \<Rightarrow> (Panic, fs1, rs) | Fuel \<Rightarrow> (Fuel, fs1, rs)))"

section \<open>The loop over the stream\<close>

definition looksLikeHTTP :: "byte list \<Rightarrow> bool" where
  "looksLikeHTTP raw =
    (if length raw < 4 then False
     else
       (let s = str_of (take 16 raw) in
        has_prefix s ''GET '' \<or> has_prefix s ''POST '' \<or> has_prefix s ''PUT '' \<or>
        has_prefix s ''OPTIONS '' \<or> has_prefix s ''HTTP/''))"

definition frame_start :: "byte list \<Rightarrow> nat \<Rightarrow> bool" where
  "frame_start raw i \<longleftrightarrow> raw ! i AND 0x0F = 2 \<and> raw ! (i + 1) AND 0x7F < 126"

definition wsResync :: "byte list \<Rightarrow> nat" where
  "wsResync raw =
    (if length raw < 2 then 0
     else if frame_start raw 0 then 0
     else (case find (frame_start raw) [1..<length raw - 1] of Some i \<Rightarrow> i | None \<Rightarrow> 0))"

text \<open>\<open>line += string(hdr[i])\<close> converts the byte to a rune and so to its UTF-8 encoding.\<close>

definition utf8_of_byte :: "byte \<Rightarrow> string" where
  "utf8_of_byte b = str_of (if b < 0x80 then [b] else [0xC0 OR drop_bit 6 b, 0x80 OR (b AND 0x3F)])"

definition handshakeEvent :: "flow_state \<Rightarrow> byte list \<Rightarrow> event" where
  "handshakeEvent fs hdr =
    (let line = concat (map utf8_of_byte (takeWhile (\<lambda>b. b \<noteq> 13 \<and> b \<noteq> 10) hdr));
         payload = [(''request_line'', VStr line)];
         payload1 =
           (if fs_isServer fs then AList.update ''status'' (VStr line) payload
            else (case index_of '' '' line of
                None \<Rightarrow> payload
              | Some i \<Rightarrow>
                  (case index_of '' '' (drop (i + 1) line) of
                     None \<Rightarrow> payload
                   | Some j \<Rightarrow> AList.update ''path'' (VStr (take j (drop (i + 1) line))) payload))) in
     mk_event ''godot_world.handshake'' payload1 (meta (direction fs) ''handshake'' False))"

text \<open>The frames of one round.  A binary frame that is not final is appended to \<open>pending\<close>; a final one
  completes what is pending; every other opcode is ignored.\<close>

fun handle_frames ::
  "(f64 \<Rightarrow> string) \<Rightarrow> (f64 \<Rightarrow> 64 word) \<Rightarrow> ws_frame list \<Rightarrow> flow_state \<times> regs \<Rightarrow> event list \<Rightarrow>
    event list res \<times> flow_state \<times> regs" where
  "handle_frames ff f2i [] st evs = (Ok evs, st)"
| "handle_frames ff f2i (f # rest) (fs, rs) evs =
    (if ws_opcode f = 2 then
       (if \<not> ws_fin f then
          handle_frames ff f2i rest (fs\<lparr>fs_pending := fs_pending fs @ ws_payload f\<rparr>, rs) evs
        else
          (case processPacket ff f2i (fs\<lparr>fs_pending := []\<rparr>) rs (fs_pending fs @ ws_payload f) of
             (Ok es, st) \<Rightarrow> handle_frames ff f2i rest st (evs @ es)
           | (r, st) \<Rightarrow> (r, st)))
     else handle_frames ff f2i rest (fs, rs) evs)"

text \<open>What \<open>Decode\<close> uses of the SDK: the segment extracted from a captured frame, and a reassembler whose
  stream for a flow has pending bytes and consumes a prefix of them.\<close>

record 'k segment =
  sg_payload :: "byte list"
  sg_isTCP :: bool
  sg_syn :: bool
  sg_flow :: 'k
  sg_srcPort :: nat
  sg_canonical :: string

record ('k, 'r) framing =
  fr_extract :: "byte list \<Rightarrow> nat \<Rightarrow> 'k segment option"
  fr_push :: "'k segment \<Rightarrow> 'r \<Rightarrow> 'r"
  fr_bytes :: "'k \<Rightarrow> 'r \<Rightarrow> byte list"
  fr_consume :: "'k \<Rightarrow> nat \<Rightarrow> 'r \<Rightarrow> 'r"

fun decode_loop ::
  "(f64 \<Rightarrow> string) \<Rightarrow> (f64 \<Rightarrow> 64 word) \<Rightarrow> ('k, 'r) framing \<Rightarrow> 'k \<Rightarrow> nat \<Rightarrow>
    flow_state \<times> regs \<times> 'r \<Rightarrow> event list \<Rightarrow> event list res \<times> flow_state \<times> regs \<times> 'r" where
  "decode_loop ff f2i fr k 0 st evs = (Fuel, st)"
| "decode_loop ff f2i fr k (Suc n) (fs, rs, r) evs =
    (let raw = fr_bytes fr k r in
     if raw = [] then (Ok evs, fs, rs, r)
     else if \<not> fs_handshakeDone fs \<and> looksLikeHTTP raw then
       (case indexHTTPHeader raw of
          None \<Rightarrow> (Ok evs, fs, rs, r)
        | Some h \<Rightarrow> decode_loop ff f2i fr k n (fs\<lparr>fs_handshakeDone := True\<rparr>, rs, fr_consume fr k h r)
            (evs @ [handshakeEvent fs (take h raw)]))
     else
       (let fs1 = fs\<lparr>fs_handshakeDone := True\<rparr> in
        case parseWSFrames raw of
          Ok (frames, consumed) \<Rightarrow>
            (if consumed = 0 then
               (if wsResync raw > 0 then decode_loop ff f2i fr k n (fs1, rs, fr_consume fr k (wsResync raw) r) evs
                else (Ok evs, fs1, rs, r))
             else
               (let r1 = fr_consume fr k consumed r in
                case handle_frames ff f2i frames (fs1, rs) evs of
                  (Ok evs', fs2, rs2) \<Rightarrow> decode_loop ff f2i fr k n (fs2, rs2, r1) evs'
                | (x, fs2, rs2) \<Rightarrow> (x, fs2, rs2, r1)))
        | Fail \<Rightarrow> (Fail, fs1, rs, r) | Panic \<Rightarrow> (Panic, fs1, rs, r) | Fuel \<Rightarrow> (Fuel, fs1, rs, r)))"

section \<open>Decode\<close>

record ('k, 'r) decoder =
  dc_flows :: "'k \<rightharpoonup> flow_state"
  dc_regs :: regs
  dc_ra :: 'r

definition worldPort :: nat where
  "worldPort = 8087"

definition new_flow :: "bool \<Rightarrow> string \<Rightarrow> flow_state" where
  "new_flow isServer key = \<lparr>fs_isServer = isServer, fs_handshakeDone = False, fs_firstPacket = True,
     fs_peerID = 0, fs_psc = Map.empty, fs_pending = [], fs_regKey = key\<rparr>"

definition getFlow :: "'k \<Rightarrow> bool \<Rightarrow> string \<Rightarrow> ('k, 'r) decoder \<Rightarrow> flow_state \<times> ('k, 'r) decoder" where
  "getFlow key isServer regKey d = (case dc_flows d key of
      Some fs \<Rightarrow> (fs, d)
    | None \<Rightarrow> (let fs = new_flow isServer regKey in
        (fs, d\<lparr>dc_flows := (dc_flows d)(key \<mapsto> fs), dc_regs := snd (getReg regKey (dc_regs d))\<rparr>)))"

definition resetFlow :: "'k \<Rightarrow> ('k, 'r) decoder \<Rightarrow> ('k, 'r) decoder" where
  "resetFlow key d = d\<lparr>dc_flows := (dc_flows d)(key := None)\<rparr>"

definition Decode ::
  "(f64 \<Rightarrow> string) \<Rightarrow> (f64 \<Rightarrow> 64 word) \<Rightarrow> ('k, 'r) framing \<Rightarrow> byte list \<Rightarrow> nat \<Rightarrow> ('k, 'r) decoder \<Rightarrow>
    event list \<times> ('k, 'r) decoder" where
  "Decode ff f2i fr payload linkType d =
    (case fr_extract fr payload linkType of
       None \<Rightarrow> ([], d)
     | Some seg \<Rightarrow>
        (if sg_payload seg = [] \<or> \<not> sg_isTCP seg then ([], d)
         else
           (let k = sg_flow seg;
                d1 = (if sg_syn seg then resetFlow k d else d);
                (fs, d2) = getFlow k (sg_srcPort seg = worldPort) (sg_canonical seg) d1;
                r = fr_push fr seg (dc_ra d2);
                (out, fs', rs', r') =
                  decode_loop ff f2i fr k (Suc (length (fr_bytes fr k r))) (fs, dc_regs d2, r) [] in
            (case out of Ok evs \<Rightarrow> evs | _ \<Rightarrow> [],
             d2\<lparr>dc_flows := (dc_flows d2)(k \<mapsto> fs'), dc_regs := rs', dc_ra := r'\<rparr>))))"

end
