(* ===== verification/Godot_Ws_Props.thy ===== *)
theory Godot_Ws_Props imports Godot_Ws begin

unbundle bit_operations_syntax

text \<open>
  The frame parser of \<open>ws.go\<close> against RFC 6455 framing: an encoder with the three length forms and
  an optional mask, the round trip of a stream that may end inside a frame, and the exact condition
  under which the parser panics.
\<close>

section \<open>RFC 6455 frames\<close>

definition len7 :: "nat \<Rightarrow> nat" where
  "len7 n = (if n < 126 then n else if n < 65536 then 126 else 127)"

definition len_ext :: "nat \<Rightarrow> byte list" where
  "len_ext n = (if n < 126 then [] else if n < 65536 then be_bytes 2 n else be_bytes 8 n)"

definition mask_bytes :: "byte list option \<Rightarrow> byte list" where
  "mask_bytes mo = (case mo of None \<Rightarrow> [] | Some m \<Rightarrow> m)"

definition head0 :: "ws_frame \<Rightarrow> byte" where
  "head0 f = (if ws_fin f then 0x80 else 0) OR ws_opcode f"

definition head1 :: "byte list option \<Rightarrow> nat \<Rightarrow> byte" where
  "head1 mo n = (if mo = None then 0 else 0x80) OR of_nat (len7 n)"

text \<open>RFC 6455, 5.3: the sender goes through the payload with the key, one byte of it each, over and over again.\<close>

fun rot_mask :: "byte list \<Rightarrow> byte list \<Rightarrow> byte list" where
  "rot_mask key [] = []"
| "rot_mask key (b # bs) = (b XOR hd key) # rot_mask (rotate1 key) bs"

definition masked_payload :: "byte list option \<Rightarrow> byte list \<Rightarrow> byte list" where
  "masked_payload mo p = (case mo of None \<Rightarrow> p | Some m \<Rightarrow> rot_mask m p)"

definition enc_head :: "ws_frame \<Rightarrow> byte list option \<Rightarrow> byte list" where
  "enc_head f mo = head0 f # head1 mo (length (ws_payload f)) # len_ext (length (ws_payload f)) @ mask_bytes mo"

definition enc_frame :: "ws_frame \<times> byte list option \<Rightarrow> byte list" where
  "enc_frame x = enc_head (fst x) (snd x) @ masked_payload (snd x) (ws_payload (fst x))"

definition legal_frame :: "ws_frame \<times> byte list option \<Rightarrow> bool" where
  "legal_frame x \<longleftrightarrow> ws_opcode (fst x) AND 0x0F = ws_opcode (fst x) \<and>
     (case snd x of None \<Rightarrow> True | Some m \<Rightarrow> length m = 4) \<and> length (ws_payload (fst x)) < 2 ^ 62"

section \<open>The two header bytes\<close>

lemma low4_high: "x AND 0x0F = x \<Longrightarrow> x AND 0x80 = (0 :: byte)"
proof -
  assume "x AND 0x0F = x"
  then have "x AND 0x80 = (x AND 0x0F) AND 0x80" by simp
  also have "\<dots> = x AND (0x0F AND 0x80)" by (simp only: and.assoc)
  finally show ?thesis by simp
qed

lemma head0_bits:
  assumes "ws_opcode f AND 0x0F = ws_opcode f"
  shows "head0 f AND 0x0F = ws_opcode f" and "head0 f AND 0x80 \<noteq> 0 \<longleftrightarrow> ws_fin f"
  using assms low4_high [OF assms] by (auto simp: head0_def bit.conj_disj_distrib2)

lemma len7_less: "len7 n < 128"
  by (simp add: len7_def)

lemma of_nat_7bits: "k < 128 \<Longrightarrow> (of_nat k :: byte) AND 0x7F = of_nat k \<and> (of_nat k :: byte) AND 0x80 = 0"
proof -
  assume k: "k < 128"
  have u: "unat (of_nat k :: byte) = k" unfolding unat_of_nat by (rule mod_less) (use k in simp)
  have "unat ((of_nat k :: byte) AND mask 7) = k" using k u by (simp add: unat_and_mask)
  then have "(of_nat k :: byte) AND mask 7 = of_nat k" using u by (simp only: word_unat_eq_iff)
  moreover have "(of_nat k :: byte) AND 0x80 = 0"
    using and_exp_iff [of "of_nat k :: byte" 7] k u by (simp add: push_bit_eq_mult)
  ultimately show ?thesis by (simp add: mask_numeral)
qed

lemma head1_bits: "head1 mo n AND 0x7F = of_nat (len7 n)" "head1 mo n AND 0x80 \<noteq> 0 \<longleftrightarrow> mo \<noteq> None"
  using of_nat_7bits [OF len7_less [of n]] by (auto simp: head1_def bit.conj_disj_distrib2)

section \<open>Reading a header, whole or cut\<close>

definition hdr_of :: "nat \<Rightarrow> nat" where
  "hdr_of n = 2 + length (len_ext n)"

lemma be_word_bytes: "n < 256 ^ k \<Longrightarrow> be_word k (be_bytes k n) = Ok (of_nat n)"
  by (simp add: be_word_def be_val_be_bytes)

lemma ws_length_enc:
  assumes d: "d = take k (a # head1 mo n # len_ext n @ r)" and k: "2 \<le> k" "k \<le> 2 + length (len_ext n) + length r"
    and n: "n < 2 ^ 63"
  shows "ws_length d = (if k < hdr_of n then Fail else Ok (of_nat n, hdr_of n))"
proof -
  have l: "length d = k" using d k by simp
  have h: "d ! 1 AND 0x7F = of_nat (len7 n)" using d k by (simp add: head1_bits nth_Cons')
  have ext: "take (length (len_ext n)) (drop 2 d) = len_ext n" if "\<not> k < hdr_of n"
    using d k that by (simp add: hdr_of_def numeral_2_eq_2 take_Cons' min_def)
  have small: "(ucast (of_nat n :: byte) :: 64 word) = of_nat n" if "n < 126"
  proof -
    have "unat (of_nat n :: byte) = n" unfolding unat_of_nat by (rule mod_less) (use that in simp)
    then have "unat (ucast (of_nat n :: byte) :: 64 word) = unat (of_nat n :: 64 word)"
      using that by (simp add: unsigned_ucast_eq take_bit_nat_eq_self_iff unat_of_nat)
    then show ?thesis by (simp only: word_unat_eq_iff)
  qed
  have mid: "(ucast (of_nat n :: 16 word) :: 64 word) = of_nat n" if "n < 65536"
  proof -
    have "unat (of_nat n :: 16 word) = n" unfolding unat_of_nat by (rule mod_less) (use that in simp)
    then have "unat (ucast (of_nat n :: 16 word) :: 64 word) = unat (of_nat n :: 64 word)"
      using that by (simp add: unsigned_ucast_eq take_bit_nat_eq_self_iff unat_of_nat)
    then show ?thesis by (simp only: word_unat_eq_iff)
  qed
  consider "n < 126" | "126 \<le> n" "n < 65536" | "65536 \<le> n" by linarith
  then show ?thesis
  proof cases
    case 1
    then have "(of_nat n :: byte) \<noteq> 126 \<and> (of_nat n :: byte) \<noteq> 127"
      by (auto simp: word_unat_eq_iff unat_of_nat)
    with 1 h k small show ?thesis by (simp add: ws_length_def Let_def len7_def hdr_of_def len_ext_def)
  next
    case 2
    with h l ext mid show ?thesis
      by (auto simp: ws_length_def Let_def len7_def hdr_of_def len_ext_def slice_def be_word_bytes)
  next
    case 3
    with h l ext n show ?thesis
      by (auto simp: ws_length_def Let_def len7_def hdr_of_def len_ext_def slice_def be_word_bytes)
  qed
qed

lemma length_rot_mask [simp]: "length (rot_mask m p) = length p"
  by (induction m p rule: rot_mask.induct) simp_all

lemma rot_mask_nth: "length m = 4 \<Longrightarrow> i < length p \<Longrightarrow> rot_mask m p ! i = p ! i XOR m ! (i mod 4)"
proof (induction p arbitrary: m i)
  case (Cons b p)
  show ?case
  proof (cases i)
    case 0
    then show ?thesis using Cons.prems by (cases m) simp_all
  next
    case (Suc j)
    have "rotate1 m ! (j mod 4) = m ! (Suc j mod 4)"
      using Cons.prems(1) by (simp add: nth_rotate1 mod_Suc_eq)
    then show ?thesis using Cons Suc by simp
  qed
qed simp

lemma unmask_rot_mask: "length m = 4 \<Longrightarrow> unmask m (rot_mask m p) = p"
  by (rule nth_equalityI) (simp_all add: unmask_def rot_mask_nth xor.assoc)

lemma length_unmask [simp]: "length (unmask m p) = length p"
  by (simp add: unmask_def)

lemma length_masked_payload [simp]: "length (masked_payload mo p) = length p"
  by (simp add: masked_payload_def split: option.split)

lemma hdr_of_le: "hdr_of n \<le> 10"
  by (simp add: hdr_of_def len_ext_def)

text \<open>A buffer that is a cut of a frame followed by anything yields the frame exactly when the frame is
  there in full, and asks for more bytes otherwise.\<close>

lemma ws_frame_at_cut:
  assumes g: "legal_frame (f, mo)" and d: "d = take k (enc_frame (f, mo) @ r)"
    and k: "k \<le> length (enc_frame (f, mo) @ r)"
  shows "ws_frame_at d = (if k < length (enc_frame (f, mo)) then Fail else Ok (f, length (enc_frame (f, mo))))"
proof (cases "k < 2")
  case True
  then show ?thesis using d by (simp add: ws_frame_at_def enc_frame_def enc_head_def)
next
  case False
  let ?n = "length (ws_payload f)"
  let ?ml = "length (mask_bytes mo)"
  have n: "?n < 2 ^ 62" and op: "ws_opcode f AND 0x0F = ws_opcode f"
    using g by (simp_all add: legal_frame_def)
  have ml: "?ml = (if mo = None then 0 else 4)"
    using g by (auto simp: legal_frame_def mask_bytes_def split: option.splits)
  define h where h: "h = hdr_of ?n + ?ml"
  have len: "length (enc_frame (f, mo)) = h + ?n" by (simp add: enc_frame_def enc_head_def hdr_of_def h)
  have ld: "length d = k" using d k by simp
  have wl: "ws_length d = (if k < hdr_of ?n then Fail else Ok (of_nat ?n, hdr_of ?n))"
    by (rule ws_length_enc [where r = "mask_bytes mo @ masked_payload mo (ws_payload f) @ r" and a = "head0 f"])
      (use d k False n in \<open>simp_all add: enc_frame_def enc_head_def\<close>)
  have d0: "d ! 0 = head0 f" and d1: "d ! 1 = head1 mo ?n"
    using d False by (simp_all add: enc_frame_def enc_head_def nth_Cons')
  have h14: "h \<le> 14" using hdr_of_le [of ?n] ml h by simp
  have s1: "sint (of_nat h + of_nat ?n :: 64 word) = int (h + ?n)"
    using sint_small [of "h + ?n"] h14 n by simp
  have s0: "sint (of_nat h :: 64 word) = int h" using sint_small [of h] h14 by simp
  have mk: "slice d (hdr_of ?n) (hdr_of ?n + 4) = Ok m" if "mo = Some m" "\<not> k < h" for m
  proof -
    have "drop (hdr_of ?n) d = take (k - hdr_of ?n) (m @ masked_payload mo (ws_payload f) @ r)"
      using d that by (simp add: enc_frame_def enc_head_def hdr_of_def drop_take mask_bytes_def)
    then show ?thesis using that ml ld h by (simp add: slice_def mask_bytes_def)
  qed
  have pl: "take ?n (drop h d) = masked_payload mo (ws_payload f)" if "\<not> k < h + ?n"
  proof -
    have "drop h d = take (k - h) (masked_payload mo (ws_payload f) @ r)"
      using d by (simp add: enc_frame_def enc_head_def hdr_of_def drop_take h)
    then show ?thesis using that by simp
  qed
  show ?thesis
  proof (cases "k < h")
    case True
    then show ?thesis
      using False ld wl d1 head1_bits(2) [of mo ?n] ml len h
      by (auto simp: ws_frame_at_def Let_def split: if_splits)
  next
    case hk: False
    then have hk': "\<not> k < hdr_of ?n" using h by simp
    have step: "ws_frame_at d = (if int k < sint (of_nat h + of_nat ?n :: 64 word) then Fail
      else rbind (slice_int d (of_nat h) (of_nat h + of_nat ?n)) (\<lambda>payload.
        rbind (slice_from_int d (of_nat h + of_nat ?n)) (\<lambda>_.
          Ok (\<lparr>ws_opcode = ws_opcode f, ws_fin = ws_fin f,
                ws_payload = (case mo of None \<Rightarrow> payload | Some m \<Rightarrow> unmask m payload)\<rparr>,
              nat (sint (of_nat h + of_nat ?n :: 64 word))))))"
      using False hk hk' ld wl d0 d1 head1_bits(2) [of mo ?n] head0_bits [OF op] ml mk h
      by (cases mo) (simp_all add: ws_frame_at_def Let_def masked_payload_def)
    show ?thesis
    proof (cases "k < h + ?n")
      case True
      then show ?thesis using step s1 len by simp
    next
      case fk: False
      have "slice_int d (of_nat h) (of_nat h + of_nat ?n) = Ok (masked_payload mo (ws_payload f))"
        using pl [OF fk] fk ld s0 s1 by (simp add: slice_int_def nat_int_add)
      moreover have "slice_from_int d (of_nat h + of_nat ?n) = Ok (drop (h + ?n) d)"
        using fk ld s1 by (simp add: slice_from_int_def nat_int_add)
      moreover have "(case mo of None \<Rightarrow> masked_payload mo (ws_payload f) | Some m \<Rightarrow> unmask m (masked_payload mo (ws_payload f))) =
          ws_payload f"
        using g by (auto simp: masked_payload_def unmask_rot_mask legal_frame_def split: option.splits)
      ultimately show ?thesis using step s1 fk len by (simp add: nat_int_add)
    qed
  qed
qed

section \<open>Streams\<close>

lemma legal_frame_not_empty: "2 \<le> length (enc_frame x)"
  by (simp add: enc_frame_def enc_head_def)

lemma ws_frame_at_whole:
  "legal_frame (f, mo) \<Longrightarrow> ws_frame_at (enc_frame (f, mo) @ r) = Ok (f, length (enc_frame (f, mo)))"
  using ws_frame_at_cut [of f mo "enc_frame (f, mo) @ r" "length (enc_frame (f, mo) @ r)" r] by simp

lemma ws_stream:
  assumes "list_all legal_frame fs" and "legal_frame g" and "k < length (enc_frame g)"
  shows "ws_loop (concat (map enc_frame fs) @ take k (enc_frame g)) =
    Ok (map fst fs, length (concat (map enc_frame fs)))"
  using assms(1)
proof (induction fs)
  case Nil
  obtain f mo where g: "g = (f, mo)" by (cases g)
  have "ws_frame_at (take k (enc_frame g)) = Fail"
    using ws_frame_at_cut [of f mo _ k "[]"] assms(2,3) by (simp add: g)
  then show ?case by (simp add: parseWSFrames_def ws_loop.simps)
next
  case (Cons x fs)
  obtain f mo where x: "x = (f, mo)" by (cases x)
  let ?rest = "concat (map enc_frame fs) @ take k (enc_frame g)"
  let ?d = "enc_frame x @ ?rest"
  have "ws_frame_at ?d = Ok (f, length (enc_frame x))"
    using ws_frame_at_whole [of f mo ?rest] Cons.prems by (simp add: x)
  then show ?case
    using Cons by (simp add: parseWSFrames_def x ws_loop.simps [of "enc_frame (f, mo) @ ?rest"])
qed

text \<open>C30: frames survive segmentation.  A buffer that holds any number of legal frames followed by a cut frame, encoded
  as RFC 6455 says (three length forms, the payload masked with the rotating four-byte key of the frame when it has
  one), yields exactly the whole frames, unmasked and in order, and reports as consumed exactly their bytes, so the
  parser leaves the cut frame in the buffer.\<close>

theorem parseWSFrames_stream:
  assumes "list_all legal_frame fs" and "legal_frame g" and "k < length (enc_frame g)"
  shows "parseWSFrames (concat (map enc_frame fs) @ take k (enc_frame g)) =
    Ok (map fst fs, length (concat (map enc_frame fs)))"
  unfolding parseWSFrames_def by (rule ws_stream [OF assms])

theorem parseWSFrames_stream_witness:
  "parseWSFrames [0x82, 0x86, 1, 2, 3, 4, 0x0A, 0x0B, 0x0C, 0x0D, 0x0E, 0x0F, 0x82, 5, 1] =
    Ok ([\<lparr>ws_opcode = 2, ws_fin = True, ws_payload = [0x0B, 0x09, 0x0F, 0x09, 0x0F, 0x0D]\<rparr>], 12)"
proof -
  let ?f = "(\<lparr>ws_opcode = 2, ws_fin = True, ws_payload = [0x0B, 0x09, 0x0F, 0x09, 0x0F, 0x0D]\<rparr>, Some [1, 2, 3, 4])"
  let ?g = "(\<lparr>ws_opcode = 2, ws_fin = True, ws_payload = [1, 2, 3, 4, 5]\<rparr>, None)"
  note defs = enc_frame_def enc_head_def head0_def head1_def len7_def len_ext_def mask_bytes_def masked_payload_def
  have "enc_frame ?f = [0x82, 0x86, 1, 2, 3, 4, 0x0A, 0x0B, 0x0C, 0x0D, 0x0E, 0x0F]" "take 3 (enc_frame ?g) = [0x82, 5, 1]"
    by (simp_all add: defs)
  then show ?thesis
    using parseWSFrames_stream [of "[?f]" ?g 3] by (simp add: legal_frame_def defs)
qed

section \<open>Panics\<close>

definition ext_len :: "byte list \<Rightarrow> nat" where
  "ext_len data = be_val (take 8 (drop 2 data))"

definition ext_hdr :: "byte list \<Rightarrow> nat" where
  "ext_hdr data = (if data ! 1 AND 0x80 \<noteq> 0 then 14 else 10)"

lemma sint_wrapped:
  assumes "2 ^ 63 \<le> m" and "m < 2 ^ 64"
  shows "sint (of_nat m :: 64 word) = int m - 2 ^ 64"
proof -
  have "(int m + 2 ^ 63) mod 2 ^ 64 = (int m - 2 ^ 63 + 2 ^ 64) mod 2 ^ 64"
    by (rule arg_cong [where f = "\<lambda>x. x mod 2 ^ 64"]) simp
  also have "\<dots> = (int m - 2 ^ 63) mod 2 ^ 64" by (rule mod_add_self2)
  also have "\<dots> = int m - 2 ^ 63" by (rule mod_pos_pos_trivial) (use assms in simp_all)
  finally have "take_bit (Suc 63) (int m + 2 ^ 63) = int m - 2 ^ 63" by (simp add: take_bit_eq_mod)
  then have "signed_take_bit 63 (int m) = int m - 2 ^ 64"
    by (simp add: signed_take_bit_eq_take_bit_shift)
  then show ?thesis by (simp add: signed_of_nat)
qed

lemma sint_sum:
  assumes "h < 2 ^ 63" and "n < 2 ^ 64"
  shows "sint (of_nat h + of_nat n :: 64 word) =
    (if h + n < 2 ^ 63 then int (h + n) else if h + n < 2 ^ 64 then int (h + n) - 2 ^ 64 else int (h + n - 2 ^ 64))"
proof -
  have e: "of_nat h + of_nat n = (of_nat (h + n) :: 64 word)" by simp
  show ?thesis
  proof (cases "h + n < 2 ^ 64")
    case True
    then show ?thesis using sint_small [of "h + n"] sint_wrapped [of "h + n"] by (simp add: e del: of_nat_add)
  next
    case False
    have "of_nat (h + n) = (of_nat (h + n - 2 ^ 64 + 2 ^ 64) :: 64 word)" using False by simp
    also have "\<dots> = of_nat (h + n - 2 ^ 64)"
      by (simp only: of_nat_add) simp
    finally have "sint (of_nat (h + n) :: 64 word) = sint (of_nat (h + n - 2 ^ 64) :: 64 word)" by simp
    also have "\<dots> = int (h + n - 2 ^ 64)" by (rule sint_small) (use assms in linarith)
    finally show ?thesis using False by (simp add: e del: of_nat_add)
  qed
qed

lemma ws_length_panic_free: "2 \<le> length data \<Longrightarrow> ws_length data \<noteq> Panic"
  by (auto simp: ws_length_def Let_def rbind_Panic_iff slice_def be_word_def)

lemma ws_length_ext:
  assumes "10 \<le> length data" and "data ! 1 AND 0x7F = 127"
  shows "ws_length data = Ok (of_nat (ext_len data), 10)"
  using assms by (simp add: ws_length_def Let_def slice_def be_word_def ext_len_def)

lemma ws_length_short:
  assumes "2 \<le> length data" and "ws_length data = Ok (p, h)" and "data ! 1 AND 0x7F \<noteq> 127"
  shows "\<exists>n < 2 ^ 16. p = of_nat n \<and> h \<le> 4"
proof (cases "data ! 1 AND 0x7F = 126")
  case True
  obtain x :: "16 word" where "p = ucast x" "h = 4"
    using True assms by (auto simp: ws_length_def Let_def rbind_Ok_iff split: if_splits)
  moreover have "unat x < 2 ^ 16" using unsigned_less [where ?w = x] by simp
  ultimately show ?thesis by (intro exI [of _ "unat x"]) simp
next
  case False
  let ?b = "data ! 1 AND 0x7F"
  have "p = ucast ?b" "h = 2" using False assms by (auto simp: ws_length_def Let_def split: if_splits)
  moreover have "unat ?b < 2 ^ 8" using unsigned_less [where ?w = ?b] by simp
  moreover from this have "unat ?b < 2 ^ 16" by (rule less_trans) simp
  ultimately show ?thesis by (intro exI [of _ "unat ?b"]) simp
qed

text \<open>The rest of a round once the header is known.\<close>

definition ws_body :: "byte list \<Rightarrow> nat \<Rightarrow> 64 word \<Rightarrow> (byte list \<Rightarrow> ws_frame) \<Rightarrow> (ws_frame \<times> nat) res" where
  "ws_body data hdr plen mk =
    (if int (length data) < sint (of_nat hdr + plen) then Fail
     else rbind (slice_int data (of_nat hdr) (of_nat hdr + plen)) (\<lambda>payload.
       rbind (slice_from_int data (of_nat hdr + plen)) (\<lambda>_. Ok (mk payload, nat (sint (of_nat hdr + plen))))))"

lemma ws_body_panic_iff:
  assumes "hdr \<le> length data" and "n < 2 ^ 64" and "hdr \<le> 14"
  shows "ws_body data hdr (of_nat n) mk = Panic \<longleftrightarrow> 2 ^ 63 \<le> hdr + n"
proof (cases "hdr + n < 2 ^ 63")
  case True
  have "sint (of_nat hdr + of_nat n :: 64 word) = int (hdr + n)" using sint_sum [of hdr n] assms True by simp
  then show ?thesis
    using True sint_small [of hdr] assms by (simp add: ws_body_def slice_int_def slice_from_int_def)
next
  case False
  let ?s = "sint (of_nat hdr + of_nat n :: 64 word)"
  have "?s < int hdr"
    using sint_sum [of hdr n] assms False by (simp split: if_splits)
  then have "slice_int data (of_nat hdr) (of_nat hdr + of_nat n) = Panic" "\<not> int (length data) < ?s"
    using sint_small [of hdr] assms by (simp_all add: slice_int_def)
  with False show ?thesis by (simp add: ws_body_def)
qed

lemma ws_frame_at_body:
  assumes "2 \<le> length data" and "ws_length data = Ok (plen, hdr0)"
  defines "hdr \<equiv> if data ! 1 AND 0x80 \<noteq> 0 then hdr0 + 4 else hdr0"
  shows "if length data < hdr then ws_frame_at data = Fail
    else \<exists>mk. ws_frame_at data = ws_body data hdr plen mk"
proof (cases "data ! 1 AND 0x80 \<noteq> 0")
  case True
  then show ?thesis using assms by (auto simp: ws_frame_at_def Let_def ws_body_def slice_def)
next
  case False
  have "hdr0 \<le> length data" using ws_length_bounds [OF assms(1,2)] by simp
  with False show ?thesis using assms by (auto simp: ws_frame_at_def Let_def ws_body_def)
qed

lemma ws_panic_iff:
  "ws_frame_at data = Panic \<longleftrightarrow>
    10 \<le> length data \<and> data ! 1 AND 0x7F = 127 \<and> ext_hdr data \<le> length data \<and>
    2 ^ 63 \<le> ext_hdr data + ext_len data"
proof (cases "2 \<le> length data")
  case False
  then show ?thesis by (simp add: ws_frame_at_def)
next
  case two: True
  show ?thesis
  proof (cases "data ! 1 AND 0x7F = 127")
    case True
    have "ext_len data < 256 ^ 8" if "10 \<le> length data"
      using be_val_less [of "take 8 (drop 2 data)"] that by (simp add: ext_len_def)
    moreover have "ws_frame_at data = Fail" if "length data < 10"
      using that two True by (simp add: ws_frame_at_def ws_length_def Let_def)
    ultimately show ?thesis
      using True ws_frame_at_body [OF two ws_length_ext] ws_body_panic_iff [of "ext_hdr data" data "ext_len data"]
      by (cases "10 \<le> length data") (auto simp: ext_hdr_def split: if_splits)
  next
    case False
    show ?thesis
    proof (cases "ws_length data")
      case (Ok a)
      obtain p h where a: "a = (p, h)" by (cases a)
      obtain n where n: "n < 2 ^ 16" "p = of_nat n" "h \<le> 4"
        using ws_length_short [OF two _ False, of p h] Ok a by auto
      let ?hdr = "if data ! 1 AND 0x80 \<noteq> 0 then h + 4 else h"
      have "ws_body data ?hdr p mk \<noteq> Panic" if "?hdr \<le> length data" for mk
        using ws_body_panic_iff [of ?hdr data n mk] n that by (auto split: if_splits)
      then show ?thesis
        using ws_frame_at_body [OF two, of p h] Ok a False by (auto split: if_splits)
    next
      case Panic
      then show ?thesis using ws_length_panic_free [OF two] by simp
    qed (use False two in \<open>simp_all add: ws_frame_at_def Let_def\<close>)
  qed
qed

text \<open>When a frame header makes the parser panic.  One round of the loop panics exactly when the
  header carries the 64-bit length form, is complete, and header plus announced length reach
  \<open>2 ^ 63\<close>: the length, converted to a signed int, then passes the completeness check and the slice
  expression fails.\<close>

theorem ws_frame_panic_iff:
  "ws_frame_at data = Panic \<longleftrightarrow>
    10 \<le> length data \<and> data ! 1 AND 0x7F = 127 \<and> ext_hdr data \<le> length data \<and>
    2 ^ 63 \<le> ext_hdr data + ext_len data"
  by (rule ws_panic_iff)

end
