(* ===== verification/Godot_World_Props.thy ===== *)
theory Godot_World_Props imports Godot_World Godot_Ws_Props begin

unbundle bit_operations_syntax

text \<open>
  What the decode loop guarantees over the SDK's byte streams.  The only law used of the reassembler is
  that consuming a prefix of a stream's bytes leaves the rest.
\<close>

definition consumes :: "('k, 'r) framing \<Rightarrow> 'k \<Rightarrow> bool" where
  "consumes fr k \<longleftrightarrow> (\<forall>r n. n \<le> length (fr_bytes fr k r) \<longrightarrow>
     fr_bytes fr k (fr_consume fr k n r) = drop n (fr_bytes fr k r))"

text \<open>The stream of bytes itself, the instance used by the witnesses.\<close>

definition byte_streams :: "(unit, byte list) framing" where
  "byte_streams = \<lparr>
     fr_extract = (\<lambda>p _. Some \<lparr>sg_payload = p, sg_isTCP = True, sg_syn = False, sg_flow = (),
       sg_srcPort = worldPort, sg_canonical = ''conv''\<rparr>),
     fr_push = (\<lambda>s r. r @ sg_payload s), fr_bytes = (\<lambda>_ r. r), fr_consume = (\<lambda>_ n r. drop n r)\<rparr>"

lemma byte_streams_sel [simp]:
  "fr_bytes byte_streams k r = r" "fr_consume byte_streams k n r = drop n r"
  "fr_push byte_streams s r = r @ sg_payload s"
  "fr_extract byte_streams p lt = Some \<lparr>sg_payload = p, sg_isTCP = True, sg_syn = False, sg_flow = (),
       sg_srcPort = worldPort, sg_canonical = ''conv''\<rparr>"
  by (simp_all add: byte_streams_def)

lemma consumes_byte_streams: "consumes byte_streams k"
  by (simp add: consumes_def)

lemma handshake_same [simp]: "fs_handshakeDone fs \<Longrightarrow> fs\<lparr>fs_handshakeDone := True\<rparr> = fs"
  by (cases fs) simp

section \<open>Progress of the loop\<close>

lemma indexBytes_bounds: "indexBytes h nd = Some i \<Longrightarrow> nd \<noteq> [] \<Longrightarrow> i + length nd \<le> length h"
  by (auto simp: indexBytes_def find_Some_iff simp del: upt_Suc)

lemma indexHTTPHeader_bounds: "indexHTTPHeader raw = Some n \<Longrightarrow> 2 \<le> n \<and> n \<le> length raw"
  using indexBytes_bounds [of raw "[13, 10, 13, 10]"] indexBytes_bounds [of raw "[10, 10]"]
  by (auto simp: indexHTTPHeader_def split: option.splits)

lemma wsResync_bounds: "wsResync raw \<le> length raw"
  by (auto simp: wsResync_def find_Some_iff simp del: upt_Suc split: option.split)

lemma ws_frame_at_fuel: "ws_frame_at data \<noteq> Fuel"
proof (cases "2 \<le> length data")
  case True
  have l: "ws_length data \<noteq> Fuel"
    by (auto simp: ws_length_def Let_def rbind_Fuel_iff be_word_def split: if_splits)
  have "rbind (if m then slice data i j else Ok []) f \<noteq> Fuel"
    if "\<And>x. f x \<noteq> Fuel" for m i j and f :: "byte list \<Rightarrow> (ws_frame \<times> nat) res"
    using that by (auto simp: rbind_Fuel_iff)
  then show ?thesis
    using l by (auto simp: ws_frame_at_def Let_def rbind_Fuel_iff slice_int_def slice_from_int_def split: if_splits)
qed (simp add: ws_frame_at_def)

definition payload_bytes :: "ws_frame list \<Rightarrow> nat" where
  "payload_bytes fs = sum_list (map (\<lambda>f. length (ws_payload f)) fs)"

lemma ws_frame_at_payload: "ws_frame_at data = Ok (f, n) \<Longrightarrow> length (ws_payload f) \<le> n"
proof -
  assume a: "ws_frame_at data = Ok (f, n)"
  then have two: "2 \<le> length data" by (simp add: ws_frame_at_def split: if_splits)
  obtain p h0 where w: "ws_length data = Ok (p, h0)"
    using a two by (auto simp: ws_frame_at_def Let_def rbind_Ok_iff)
  show ?thesis
    using a two w
    by (auto simp: ws_frame_at_def Let_def rbind_Ok_iff slice_int_def slice_from_int_def split: if_splits)
qed

lemma ws_loop_outcome:
  "ws_loop data \<noteq> Fuel \<and> ws_loop data \<noteq> Fail \<and>
    (\<forall>fs c. ws_loop data = Ok (fs, c) \<longrightarrow> c \<le> length data \<and> payload_bytes fs \<le> c)"
proof (induction data rule: ws_loop.induct)
  case (1 data)
  show ?case
  proof (cases "ws_frame_at data")
    case (Ok a)
    obtain f n where a: "a = (f, n)" by (cases a)
    have n: "2 \<le> n" "n \<le> length data" using ws_frame_at_progress [of data f n] Ok a by simp_all
    have p: "length (ws_payload f) \<le> n" using ws_frame_at_payload [of data f n] Ok a by simp
    have IH: "ws_loop (drop n data) \<noteq> Fuel \<and> ws_loop (drop n data) \<noteq> Fail \<and>
      (\<forall>fs c. ws_loop (drop n data) = Ok (fs, c) \<longrightarrow> c \<le> length (drop n data) \<and> payload_bytes fs \<le> c)"
      using 1 [OF Ok a [symmetric]] by simp
    show ?thesis
    proof (cases "ws_loop (drop n data)")
      case ok: (Ok b)
      obtain fs c where "b = (fs, c)" by (cases b)
      then have "ws_loop data = Ok (f # fs, n + c)"
        using Ok a ok by (simp add: ws_loop.simps [of data])
      moreover have "c \<le> length data - n \<and> payload_bytes fs \<le> c"
        using IH ok \<open>b = (fs, c)\<close> by simp
      moreover have "payload_bytes (f # fs) = length (ws_payload f) + payload_bytes fs"
        by (simp add: payload_bytes_def)
      ultimately show ?thesis using n p by auto
    qed (use IH Ok a in \<open>simp_all add: ws_loop.simps [of data]\<close>)
  qed (use ws_frame_at_fuel [of data] in \<open>simp_all add: ws_loop.simps [of data] payload_bytes_def\<close>)
qed

section \<open>One packet is always processed\<close>

lemma returns_auth: "returns (authEvent fs p)"
  by (auto simp: authEvent_def decodeAuthToken_def Let_def slice_def intro!: returns_bind)

lemma returns_or_generic: "r \<noteq> Panic \<Longrightarrow> r \<noteq> Fuel \<Longrightarrow> returns (or_generic r f g)"
  by (cases r) auto

lemma returns_stateSync:
  assumes "\<And>b. sm_byteOnly p = Some b \<Longrightarrow> length b < 2 ^ 63"
  shows "returns (fst (stateSyncRPC ff f2i fs rs dir p))"
proof (cases "sm_byteOnly p")
  case (Some b)
  with assms have "length b < 2 ^ 63" by simp
  note s = payload_decoders_safe [OF this, of ff]
  obtain reg rs1 where g: "getReg (fs_regKey fs) rs = (reg, rs1)" by (cases "getReg (fs_regKey fs) rs")
  obtain reg' d where b: "decodeBootstrap ff f2i reg b = (reg', d)" by (cases "decodeBootstrap ff f2i reg b")
  have "d \<noteq> Panic \<and> d \<noteq> Fuel" using s [of reg f2i] b by simp
  then show ?thesis
    using Some g b s [of reg f2i]
    by (auto simp: stateSyncRPC_def Let_def intro!: returns_or_generic)
qed (simp add: stateSyncRPC_def Let_def)

lemma returns_rpc:
  assumes "\<And>b. sm_byteOnly p = Some b \<Longrightarrow> length b < 2 ^ 63"
  shows "returns (fst (rpcEvent ff f2i fs rs p node))"
  using returns_stateSync [OF assms] by (simp add: rpcEvent_def Let_def)

lemma call_node_byteOnly: "call_node pkt p t = Ok (p1, e) \<Longrightarrow> sm_byteOnly p1 = sm_byteOnly p"
  by (auto simp: call_node_def Let_def rbind_Ok_iff split: if_splits)

lemma parse_call_byteOnly:
  assumes "parse_call ff pkt p t bo o1 = Ok q" and "sm_byteOnly p = None" and "sm_byteOnly q = Some b"
  shows "length b \<le> length pkt"
proof -
  obtain p1 e where c: "call_node pkt p t = Ok (p1, e)"
    using assms(1) by (auto simp: parse_call_def rbind_Ok_iff)
  have n: "sm_byteOnly p1 = None" using call_node_byteOnly [OF c] assms(2) by simp
  note r = assms(1) [unfolded parse_call_def c rbind.simps prod.case Let_def]
  show ?thesis
  proof (cases "e \<le> o1")
    case True
    then show ?thesis using r n assms(3) by simp
  next
    case False
    then obtain nm where nm: "idx pkt o1 = Ok nm" using r by (auto simp: rbind_Ok_iff)
    show ?thesis
    proof (cases bo)
      case True
      then obtain s where "slice pkt (o1 + 1) e = Ok s" "q = p1\<lparr>sm_nameID := nm, sm_byteOnly := Some s\<rparr>"
        using r False nm by (auto simp: rbind_Ok_iff)
      then show ?thesis using assms(3) by (auto simp: slice_def split: if_splits)
    next
      case bo: False
      have "sm_byteOnly q = None"
      proof (cases "e \<le> o1 + 1")
        case True
        then have "q = p1\<lparr>sm_nameID := nm\<rparr>" using r False nm bo by simp
        then show ?thesis using n by simp
      next
        case e: False
        have "rbind (idx pkt (o1 + 1)) (\<lambda>ac.
          rbind (rd_args ff (if unat ac < 64 then unat ac else 0) \<lparr>vb = pkt, vo = o1 + 1 + 1, vend = e\<rparr>) (\<lambda>xs.
            Ok (p1\<lparr>sm_nameID := nm, sm_argc := unat ac, sm_args := xs\<rparr>))) = Ok q"
          using r False nm bo e by simp
        then show ?thesis
          by (elim rbind_OkE) (use n in auto)
      qed
      then show ?thesis using assms(3) by simp
    qed
  qed
qed

lemma parse_sys_byteOnly: "parse_sys pkt p o1 = Ok q \<Longrightarrow> sm_byteOnly q = sm_byteOnly p"
  by (auto simp: parse_sys_def Let_def rbind_Ok_iff split: if_splits)

lemma parse_simplify_byteOnly: "parse_simplify pkt p o1 = Ok q \<Longrightarrow> sm_byteOnly q = sm_byteOnly p"
  unfolding parse_simplify_def Let_def by (simp only: rbind_Ok_iff split: if_splits) auto

lemma parse_confirm_byteOnly: "parse_confirm pkt p o1 = Ok q \<Longrightarrow> sm_byteOnly q = sm_byteOnly p"
  by (auto simp: parse_confirm_def rbind_Ok_iff split: if_splits)

lemma parseSm_byteOnly:
  assumes "parseSm ff pkt = Ok q" and "sm_byteOnly q = Some b"
  shows "length b \<le> length pkt"
proof -
  let ?p = "\<lambda>c. (sm_empty pkt)\<lparr>sm_meta := pkt ! 0, sm_cmd := c, sm_cmdName := cmdNames c\<rparr>"
  have e: "sm_byteOnly (?p c) = None" for c by (simp add: sm_empty_def)
  have "q = sm_empty pkt \<or> (\<exists>c o1 t bo s. parse_sys pkt (?p c) o1 = Ok q \<or> q = ?p c \<or>
     parse_simplify pkt (?p c) o1 = Ok q \<or> parse_confirm pkt (?p c) o1 = Ok q \<or>
     parse_call ff pkt (?p c) t bo o1 = Ok q \<or> q = (?p c)\<lparr>sm_rawBody := s\<rparr>)"
    using assms(1) unfolding parseSm_def Let_def
    by (simp only: rbind_Ok_iff idx_def split: if_splits) blast+
  then show ?thesis
    using assms(2) e parse_sys_byteOnly parse_simplify_byteOnly parse_confirm_byteOnly parse_call_byteOnly
    by (auto simp: sm_empty_def)
qed

lemma processPacket_keeps:
  assumes "processPacket ff f2i fs rs pkt = (r, fs', rs')"
  shows "fs_pending fs' = fs_pending fs \<and> fs_handshakeDone fs' = fs_handshakeDone fs \<and>
    fs_isServer fs' = fs_isServer fs \<and> fs_regKey fs' = fs_regKey fs"
  using assms
  by (auto simp: processPacket_def process_parsed_def Let_def split: if_splits res.splits prod.splits)

lemma returns_processPacket:
  assumes "length pkt < 2 ^ 63"
  shows "returns (fst (processPacket ff f2i fs rs pkt))"
proof -
  obtain p where p: "parseSm ff pkt = Ok p" using returns_parseSm [OF assms, of ff] by (auto simp: returns_def)
  have b: "length b < 2 ^ 63" if "sm_byteOnly p = Some b" for b
    using parseSm_byteOnly [OF p that] assms by linarith
  have "returns (fst (process_parsed ff f2i fs1 rs p))" for fs1
    using returns_rpc [of p ff f2i fs1 rs "resolvedNode p (fs_psc fs1)", OF b] returns_auth [of fs1 p]
    by (auto simp: process_parsed_def Let_def returns_bind split: prod.split)
  then show ?thesis by (auto simp: processPacket_def p Let_def)
qed

section \<open>The frames of one round\<close>

lemma handle_frames_outcome:
  "length (fs_pending fs) + payload_bytes fr < 2 ^ 63 \<Longrightarrow>
     \<exists>es fs' rs'. handle_frames ff f2i fr (fs, rs) evs = (Ok es, fs', rs') \<and>
       fs_handshakeDone fs' = fs_handshakeDone fs \<and>
       length (fs_pending fs') \<le> length (fs_pending fs) + payload_bytes fr"
proof (induction fr arbitrary: fs rs evs)
  case Nil
  then show ?case by (simp add: payload_bytes_def)
next
  case (Cons f fr)
  have pb: "payload_bytes (f # fr) = length (ws_payload f) + payload_bytes fr" by (simp add: payload_bytes_def)
  show ?case
  proof (cases "ws_opcode f = 2")
    case False
    then show ?thesis using Cons.IH [of fs rs evs] Cons.prems pb by fastforce
  next
    case op: True
    show ?thesis
    proof (cases "ws_fin f")
      case False
      then show ?thesis
        using op Cons.IH [of "fs\<lparr>fs_pending := fs_pending fs @ ws_payload f\<rparr>" rs evs] Cons.prems pb by (simp add: add.assoc)
    next
      case True
      let ?fs = "fs\<lparr>fs_pending := []\<rparr>"
      let ?pkt = "fs_pending fs @ ws_payload f"
      obtain r fs1 rs1 where q: "processPacket ff f2i ?fs rs ?pkt = (r, fs1, rs1)"
        by (cases "processPacket ff f2i ?fs rs ?pkt")
      have "returns r" using returns_processPacket [of ?pkt ff f2i ?fs rs] q Cons.prems pb by simp
      then obtain es where r: "r = Ok es" by (auto simp: returns_def)
      have k: "fs_pending fs1 = []" "fs_handshakeDone fs1 = fs_handshakeDone fs"
        using processPacket_keeps [OF q] by simp_all
      obtain es' fs' rs' where "handle_frames ff f2i fr (fs1, rs1) (evs @ es) = (Ok es', fs', rs')"
        and "fs_handshakeDone fs' = fs_handshakeDone fs1"
        and "length (fs_pending fs') \<le> length (fs_pending fs1) + payload_bytes fr"
        using Cons.IH [of fs1 rs1 "evs @ es"] Cons.prems pb k by auto
      with op True q r k pb show ?thesis by simp
    qed
  qed
qed

section \<open>The loop\<close>

text \<open>How a run of the loop may end: with events, or with a panic of the frame parser on the bytes that
  are still buffered.\<close>

definition good_end :: "('k, 'r) framing \<Rightarrow> 'k \<Rightarrow> event list res \<times> flow_state \<times> regs \<times> 'r \<Rightarrow> bool" where
  "good_end fr k x = (case x of (out, fs, rs, r) \<Rightarrow>
     (\<exists>es. out = Ok es) \<or> (out = Panic \<and> parseWSFrames (fr_bytes fr k r) = Panic))"

lemma decode_loop_ends:
  assumes law: "consumes fr k"
  shows "length (fs_pending fs) + length (fr_bytes fr k r) < 2 ^ 63 \<Longrightarrow> length (fr_bytes fr k r) < n \<Longrightarrow>
    good_end fr k (decode_loop ff f2i fr k n (fs, rs, r) evs)"
proof (induction n arbitrary: fs rs r evs)
  case 0
  then show ?case by simp
next
  case (Suc n)
  let ?raw = "fr_bytes fr k r"
  let ?fs1 = "fs\<lparr>fs_handshakeDone := True\<rparr>"
  have drop: "fr_bytes fr k (fr_consume fr k m r) = drop m ?raw" if "m \<le> length ?raw" for m
    using law that by (simp add: consumes_def)
  have step: "good_end fr k (decode_loop ff f2i fr k n (fs', rs', fr_consume fr k m r) evs')"
    if "0 < m" "m \<le> length ?raw" "length (fs_pending fs') \<le> length (fs_pending fs) + m" for m fs' rs' evs'
    using Suc.prems that by (intro Suc.IH) (auto simp: drop)
  show ?case
  proof (cases "?raw = []")
    case True
    then show ?thesis by (simp add: good_end_def)
  next
    case ne: False
    show ?thesis
    proof (cases "\<not> fs_handshakeDone fs \<and> looksLikeHTTP ?raw")
      case True
      then show ?thesis
        using ne indexHTTPHeader_bounds [of ?raw]
        by (auto simp: good_end_def [of _ _ "(_, _, _, _)"] Let_def split: option.split intro!: step)
    next
      case http: False
      note w = ws_loop_outcome [of ?raw]
      show ?thesis
      proof (cases "parseWSFrames ?raw")
        case (Ok a)
        obtain frames c where a: "a = (frames, c)" by (cases a)
        have c: "c \<le> length ?raw" "payload_bytes frames \<le> c" using w Ok a by (auto simp: parseWSFrames_def)
        show ?thesis
        proof (cases "c = 0")
          case True
          have "good_end fr k (Ok evs, ?fs1, rs, r)" by (simp add: good_end_def)
          moreover have "good_end fr k (decode_loop ff f2i fr k n (?fs1, rs, fr_consume fr k (wsResync ?raw) r) evs)"
            if "0 < wsResync ?raw" using that wsResync_bounds [of ?raw] by (intro step) auto
          ultimately show ?thesis using ne http Ok a True by (auto simp: Let_def)
        next
          case False
          have "length (fs_pending ?fs1) + payload_bytes frames < 2 ^ 63" using Suc.prems(1) c by simp
          then obtain es fs2 rs2 where h: "handle_frames ff f2i frames (?fs1, rs) evs = (Ok es, fs2, rs2)"
            and p: "length (fs_pending fs2) \<le> length (fs_pending ?fs1) + payload_bytes frames"
            using handle_frames_outcome [of ?fs1 frames ff f2i rs evs] by auto
          have "good_end fr k (decode_loop ff f2i fr k n (fs2, rs2, fr_consume fr k c r) es)"
            using False c p by (intro step) auto
          with ne http Ok a False h show ?thesis by (auto simp: Let_def)
        qed
      next
        case Panic
        then have "good_end fr k (Panic, ?fs1, rs, r)" by (simp add: good_end_def)
        with ne http Panic show ?thesis by (auto simp: Let_def)
      qed (use w in \<open>auto simp: parseWSFrames_def\<close>)
    qed
  qed
qed

text \<open>C26: the decode loop ends.  For every buffered stream the loop runs out of things to do within one
  round per buffered byte; it delivers events, or it panics, and then only because the frame parser
  panics on bytes that are still at the head of the buffer.\<close>

theorem decode_loop_outcome:
  assumes "consumes fr k" and "length (fs_pending fs) + length (fr_bytes fr k r) < 2 ^ 63"
  shows "case decode_loop ff f2i fr k (Suc (length (fr_bytes fr k r))) (fs, rs, r) [] of (out, fs', rs', r') \<Rightarrow>
    (\<exists>es. out = Ok es) \<or> (out = Panic \<and> parseWSFrames (fr_bytes fr k r') = Panic)"
  using decode_loop_ends [OF assms(1,2), of "Suc (length (fr_bytes fr k r))" ff f2i rs "[]"]
  by (simp add: good_end_def)

theorem decode_loop_outcome_witness:
  "case decode_loop (\<lambda>_. []) (\<lambda>_. 0) byte_streams () (Suc (length [0x82, 1, 7 :: byte]))
      (new_flow True ''conv'', Map.empty, [0x82, 1, 7]) [] of (out, fs', rs', r') \<Rightarrow>
    (\<exists>es. out = Ok es) \<or> (out = Panic \<and> parseWSFrames r' = Panic)"
proof -
  have "length (fs_pending (new_flow True ''conv'')) + length (fr_bytes byte_streams () [0x82, 1, 7]) < 2 ^ 63"
    by (simp add: new_flow_def)
  from decode_loop_outcome [OF consumes_byte_streams this, of "\<lambda>_. []" "\<lambda>_. 0" Map.empty]
  show ?thesis by (simp only: byte_streams_sel)
qed

text \<open>An oversized length poisons a stream.  When the bytes at the head of an established stream are
  a frame header whose length makes the parser panic, then no captured segment that extends the stream
  ever yields an event again: \<open>Decode\<close> recovers, returns nothing, and leaves the same header at the
  head of the buffer.\<close>

theorem oversized_frame_poisons_stream:
  assumes "dc_flows d k = Some fs" and "fs_handshakeDone fs"
    and "ws_frame_at (fr_bytes fr k (dc_ra d)) = Panic"
    and "fr_extract fr payload lt = Some seg" and "sg_flow seg = k" and "\<not> sg_syn seg"
    and "\<And>r. fr_bytes fr k (fr_push fr seg r) = fr_bytes fr k r @ ext"
  shows "fst (Decode ff f2i fr payload lt d) = [] \<and>
    dc_flows (snd (Decode ff f2i fr payload lt d)) k = Some fs \<and>
    ws_frame_at (fr_bytes fr k (dc_ra (snd (Decode ff f2i fr payload lt d)))) = Panic"
proof (cases "sg_payload seg = [] \<or> \<not> sg_isTCP seg")
  case True
  then show ?thesis using assms by (simp add: Decode_def)
next
  case False
  let ?r = "fr_push fr seg (dc_ra d)"
  let ?raw = "fr_bytes fr k ?r"
  have "ws_frame_at ?raw = Panic"
    using assms(3) unfolding assms(7) ws_panic_iff ext_hdr_def ext_len_def
    by (auto simp: nth_append split: if_splits)
  then have p: "parseWSFrames ?raw = Panic" and ne: "?raw \<noteq> []"
    by (auto simp: parseWSFrames_def ws_loop.simps [of ?raw] ws_frame_at_def)
  have "fs\<lparr>fs_handshakeDone := True\<rparr> = fs" using assms(2) by simp
  then have "decode_loop ff f2i fr k (Suc (length ?raw)) (fs, dc_regs d, ?r) [] = (Panic, fs, dc_regs d, ?r)"
    using p ne assms(2) by (simp add: Let_def)
  then show ?thesis
    using assms(1,4,5,6) False \<open>ws_frame_at ?raw = Panic\<close> by (simp add: Decode_def getFlow_def Let_def)
qed

theorem oversized_frame_poisons_stream_witness:
  "fst (Decode (\<lambda>_. []) (\<lambda>_. 0) byte_streams [0x82, 0] 0
     \<lparr>dc_flows = [() \<mapsto> (new_flow True ''conv'')\<lparr>fs_handshakeDone := True\<rparr>], dc_regs = Map.empty,
      dc_ra = [0x82, 127, 255, 255, 255, 255, 255, 255, 255, 255]\<rparr>) = []"
proof -
  let ?d = "\<lparr>dc_flows = [() \<mapsto> (new_flow True ''conv'')\<lparr>fs_handshakeDone := True\<rparr>], dc_regs = Map.empty,
      dc_ra = [0x82, 127, 255, 255, 255, 255, 255, 255, 255, 255]\<rparr> :: (unit, byte list) decoder"
  let ?seg = "\<lparr>sg_payload = [0x82, 0], sg_isTCP = True, sg_syn = False, sg_flow = (),
       sg_srcPort = worldPort, sg_canonical = ''conv''\<rparr>"
  have "ws_frame_at [0x82, 127, 255, 255, 255, 255, 255, 255, 255, 255] = Panic"
    by (simp add: ws_panic_iff ext_hdr_def ext_len_def be_val_def)
  then show ?thesis
    using oversized_frame_poisons_stream [of ?d "()" "(new_flow True ''conv'')\<lparr>fs_handshakeDone := True\<rparr>"
        byte_streams "[0x82, 0]" 0 ?seg "[0x82, 0]" "\<lambda>_. []" "\<lambda>_. 0"]
    by simp
qed

section \<open>Resynchronisation\<close>

text \<open>What \<open>wsResync\<close> says: 0 for a buffer that starts like a small binary frame, or in which nothing does; otherwise the
  first place that does.\<close>

lemma wsResync_cases:
  obtains "wsResync raw = 0" "length raw < 2 \<or> frame_start raw 0 \<or> (\<forall>i. 1 \<le> i \<longrightarrow> i + 1 < length raw \<longrightarrow> \<not> frame_start raw i)"
  | j where "wsResync raw = j" "1 \<le> j" "j + 1 < length raw" "frame_start raw j" "2 \<le> length raw" "\<not> frame_start raw 0"
proof (cases "length raw < 2 \<or> frame_start raw 0")
  case True
  then show ?thesis by (intro that(1)) (auto simp: wsResync_def)
next
  case False
  show ?thesis
  proof (cases "find (frame_start raw) [1..<length raw - 1]")
    case None
    then have "\<forall>i. 1 \<le> i \<longrightarrow> i + 1 < length raw \<longrightarrow> \<not> frame_start raw i" by (auto simp: find_None_iff)
    with None show ?thesis by (intro that(1)) (simp_all add: wsResync_def del: upt_Suc)
  next
    case (Some j)
    then have "1 \<le> j" "j + 1 < length raw" "frame_start raw j" by (auto simp: find_Some_iff simp del: upt_Suc)
    with Some False show ?thesis by (intro that(2) [of j]) (simp_all add: wsResync_def del: upt_Suc)
  qed
qed

text \<open>A split large frame is thrown away.  A binary frame of 126 or more payload bytes that is still
  incomplete in the buffer does not look like a frame start to \<open>wsResync\<close>; as soon as two of its buffered
  bytes do, the loop discards the real header and continues inside the frame.\<close>

theorem split_large_frame_discarded:
  assumes "legal_frame (f, mo)" and "ws_opcode f = 2" and "126 \<le> length (ws_payload f)"
    and "c < length (enc_frame (f, mo))" and "fr_bytes fr k r = take c (enc_frame (f, mo))"
    and "1 \<le> i" and "i + 1 < c" and "frame_start (take c (enc_frame (f, mo))) i"
    and "fs_handshakeDone fs"
  shows "\<exists>j. 1 \<le> j \<and> j \<le> i \<and>
    decode_loop ff f2i fr k (Suc n) (fs, rs, r) evs = decode_loop ff f2i fr k n (fs, rs, fr_consume fr k j r) evs"
proof -
  let ?raw = "take c (enc_frame (f, mo))"
  have l: "length ?raw = c" using assms(4) by simp
  have b1: "?raw ! 1 = head1 mo (length (ws_payload f))"
    using assms(6,7) by (simp add: enc_frame_def enc_head_def nth_Cons')
  have "(of_nat (len7 (length (ws_payload f))) :: byte) \<in> {126, 127}" using assms(3) by (simp add: len7_def)
  then have "\<not> frame_start ?raw 0" using b1 head1_bits(1) [of mo] by (auto simp: frame_start_def)
  moreover have "i \<in> set [1..<length ?raw - 1]" using assms(6,7) l by auto
  then obtain j where j: "find (frame_start ?raw) [1..<length ?raw - 1] = Some j" "j \<le> i" "1 \<le> j"
  proof -
    have "find (frame_start ?raw) [1..<length ?raw - 1] \<noteq> None"
      using assms(8) \<open>i \<in> set _\<close> by (auto simp: find_None_iff)
    then obtain j where s: "find (frame_start ?raw) [1..<length ?raw - 1] = Some j" by auto
    then obtain m where m: "m < length ?raw - 1 - 1" "j = 1 + m" "\<forall>m' < m. \<not> frame_start ?raw (1 + m')"
      by (auto simp: find_Some_iff simp del: upt_Suc)
    have "\<not> i - 1 < m" using m(3) assms(6,8) by auto
    then show thesis using that s m assms(6) by auto
  qed
  ultimately have ws: "wsResync ?raw = j" using l assms(6,7) by (simp add: wsResync_def del: upt_Suc)
  have "ws_frame_at ?raw = Fail"
    using ws_frame_at_cut [OF assms(1), of ?raw c "[]"] assms(4) by simp
  then have "parseWSFrames ?raw = Ok ([], 0)" by (simp add: parseWSFrames_def ws_loop.simps)
  moreover have "?raw \<noteq> []" using l assms(6,7) by auto
  ultimately show ?thesis using ws j assms(5,9) by (intro exI [of _ j]) (simp add: Let_def)
qed

theorem split_large_frame_discarded_witness:
  "\<exists>j. 1 \<le> j \<and> j \<le> 4 \<and>
    decode_loop (\<lambda>_. []) (\<lambda>_. 0) byte_streams () (Suc 7)
      ((new_flow True ''conv'')\<lparr>fs_handshakeDone := True\<rparr>, Map.empty, [0x82, 126, 0, 200, 2, 2, 2]) [] =
    decode_loop (\<lambda>_. []) (\<lambda>_. 0) byte_streams () 7
      ((new_flow True ''conv'')\<lparr>fs_handshakeDone := True\<rparr>, Map.empty, drop j [0x82, 126, 0, 200, 2, 2, 2]) []"
proof -
  let ?f = "\<lparr>ws_opcode = 2, ws_fin = True, ws_payload = replicate 200 2\<rparr>"
  have b: "be_bytes 2 200 = [0, 200]" by (simp add: be_bytes_def numeral_2_eq_2)
  have h: "(0x80 OR 2 :: byte) = 0x82" by simp
  have e: "take 7 (enc_frame (?f, None)) = [0x82, 126, 0, 200, 2, 2, 2]"
  proof -
    have "enc_frame (?f, None) = [0x82, 126, 0, 200] @ replicate 200 2"
      by (simp add: enc_frame_def enc_head_def head0_def head1_def len7_def len_ext_def mask_bytes_def
          masked_payload_def b)
    moreover have "replicate 200 (2 :: byte) = 2 # 2 # 2 # replicate 197 2"
      using replicate_add [of 3 197 "2 :: byte"] by (simp add: numeral_3_eq_3)
    ultimately show ?thesis by simp
  qed
  have "\<exists>j. 1 \<le> j \<and> j \<le> 4 \<and>
    decode_loop (\<lambda>_. []) (\<lambda>_. 0) byte_streams () (Suc 7)
      ((new_flow True ''conv'')\<lparr>fs_handshakeDone := True\<rparr>, Map.empty, take 7 (enc_frame (?f, None))) [] =
    decode_loop (\<lambda>_. []) (\<lambda>_. 0) byte_streams () 7
      ((new_flow True ''conv'')\<lparr>fs_handshakeDone := True\<rparr>, Map.empty,
        fr_consume byte_streams () j (take 7 (enc_frame (?f, None)))) []"
  proof (rule split_large_frame_discarded [where c = 7])
    show "frame_start (take 7 (enc_frame (?f, None))) 4" by (simp add: e frame_start_def)
  qed (simp_all add: legal_frame_def enc_frame_def enc_head_def len_ext_def mask_bytes_def masked_payload_def)
  then show ?thesis by (simp only: e byte_streams_sel)
qed

end
