(* ===== verification/Godot_World_Flow.thy ===== *)
theory Godot_World_Flow imports Godot_World_Props Godot_Sm begin

unbundle bit_operations_syntax

text \<open>
  End-to-end behaviour of the world decoder: a stream of whole frames is processed frame by frame, a
  path announced by SIMPLIFY_PATH names the node of later calls, and what happens to messages that
  RFC 6455 splits into continuation frames.
\<close>

lemma handle_frames_keeps:
  "handle_frames ff f2i fr (fs, rs) evs = (r, fs', rs') \<Longrightarrow> fs_handshakeDone fs' = fs_handshakeDone fs"
proof (induction fr arbitrary: fs rs evs)
  case Nil
  then show ?case by simp
next
  case (Cons f fr)
  show ?case
  proof (cases "ws_opcode f = 2 \<and> ws_fin f")
    case True
    obtain x fs1 rs1 where q: "processPacket ff f2i (fs\<lparr>fs_pending := []\<rparr>) rs (fs_pending fs @ ws_payload f) = (x, fs1, rs1)"
      by (cases "processPacket ff f2i (fs\<lparr>fs_pending := []\<rparr>) rs (fs_pending fs @ ws_payload f)")
    have "fs_handshakeDone fs1 = fs_handshakeDone fs" using processPacket_keeps [OF q] by simp
    then show ?thesis using Cons True q by (cases x) auto
  next
    case False
    then show ?thesis using Cons.prems Cons.IH [of "fs\<lparr>fs_pending := fs_pending fs @ ws_payload f\<rparr>"] Cons.IH [of fs]
      by (auto split: if_splits)
  qed
qed

text \<open>Exactly the small binary frames look like a frame start, however they are cut.\<close>

lemma small_frame_start:
  assumes "legal_frame g" and "2 \<le> c" and "c < length (enc_frame g)"
  shows "frame_start (take c (enc_frame g)) 0 \<longleftrightarrow> ws_opcode (fst g) = 2 \<and> length (ws_payload (fst g)) < 126"
proof -
  let ?n = "length (ws_payload (fst g))"
  have b: "take c (enc_frame g) ! 0 = head0 (fst g)" "take c (enc_frame g) ! 1 = head1 (snd g) ?n"
    using assms(2) by (simp_all add: enc_frame_def enc_head_def)
  have "unat (of_nat (len7 ?n) :: byte) = len7 ?n" unfolding unat_of_nat by (rule mod_less) (use len7_less [of ?n] in simp)
  then have "(of_nat (len7 ?n) :: byte) < 126 \<longleftrightarrow> ?n < 126" by (simp add: word_less_nat_alt len7_def)
  then show ?thesis
    using b head0_bits(1) [of "fst g"] head1_bits(1) [of "snd g" ?n] assms(1)
    by (auto simp: frame_start_def legal_frame_def)
qed



lemma continuation_ignored:
  "list_all (\<lambda>f. ws_opcode f = 0) cs \<Longrightarrow>
     handle_frames ff f2i (cs @ rest) st evs = handle_frames ff f2i rest st evs"
  by (induction cs arbitrary: st) auto

text \<open>Continuation frames are lost.  A message sent as a non-final binary frame and any number of
  continuation frames (opcode 0, RFC 6455) yields no event; its first fragment stays pending and is put
  in front of the next binary message of the stream, which is then decoded as one packet with it.\<close>

theorem continuation_frames_lost:
  assumes "list_all (\<lambda>f. ws_opcode f = 0) cs" and "fs_pending fs = []"
  shows "handle_frames ff f2i (\<lparr>ws_opcode = 2, ws_fin = False, ws_payload = p\<rparr> # cs) (fs, rs) evs =
      (Ok evs, fs\<lparr>fs_pending := p\<rparr>, rs) \<and>
    handle_frames ff f2i (\<lparr>ws_opcode = 2, ws_fin = False, ws_payload = p\<rparr> # cs @
        [\<lparr>ws_opcode = 2, ws_fin = True, ws_payload = q\<rparr>]) (fs, rs) evs =
      handle_frames ff f2i [\<lparr>ws_opcode = 2, ws_fin = True, ws_payload = p @ q\<rparr>] (fs, rs) evs"
  using continuation_ignored [OF assms(1), of _ _ "[]"] continuation_ignored [OF assms(1)] assms(2) by simp

theorem continuation_frames_lost_witness:
  "handle_frames (\<lambda>_. []) (\<lambda>_. 0)
     [\<lparr>ws_opcode = 2, ws_fin = False, ws_payload = [1]\<rparr>, \<lparr>ws_opcode = 0, ws_fin = True, ws_payload = [2]\<rparr>]
     (new_flow True ''c'', Map.empty) [] = (Ok [], (new_flow True ''c'')\<lparr>fs_pending := [1]\<rparr>, Map.empty)"
  using continuation_frames_lost [of "[\<lparr>ws_opcode = 0, ws_fin = True, ws_payload = [2]\<rparr>]" "new_flow True ''c''"
      "\<lambda>_. []" "\<lambda>_. 0" "[1]" Map.empty "[]"]
  by (simp add: new_flow_def)

section \<open>The path cache\<close>

text \<open>The documented SIMPLIFY_PATH layout: meta, 32 hash bytes, NUL, path id, NUL-terminated path.\<close>

definition enc_simplify :: "byte list \<Rightarrow> nat \<Rightarrow> string \<Rightarrow> byte list" where
  "enc_simplify h i path = 1 # h @ 0 # le_bytes 4 i @ bytes_of path @ [0]"

lemma sm_meta_1: "unat ((1 :: byte) AND 7) = 1" "unat (drop_bit 4 (1 :: byte) AND 3) = 0" "idx nodeWidth 0 = Ok 1"
  by (simp_all add: idx_def nodeWidth_def)

lemma parseSm_simplify:
  assumes "length h = 32"
  shows "parseSm ff (enc_simplify h i path) =
    parse_simplify (enc_simplify h i path)
      ((sm_empty (enc_simplify h i path))\<lparr>sm_meta := 1, sm_cmd := 1, sm_cmdName := cmdNames 1\<rparr>) 2"
proof -
  let ?p = "enc_simplify h i path"
  have r: "read_target ?p 1 1 = Ok (ucast (?p ! 1))"
    using assms by (simp add: read_target_def idx_def enc_simplify_def)
  have "idx ?p 0 = Ok 1" "length ?p \<noteq> 0" "\<not> length ?p < 1 + 1"
    using assms by (simp_all add: idx_def enc_simplify_def)
  then show ?thesis
    using r sm_meta_1 by (simp add: parseSm_def Let_def cmd_defs numeral_2_eq_2)
qed

lemma enc_simplify_tail:
  assumes "length h = 32"
  shows "drop 34 (enc_simplify h i path) = le_bytes 4 i @ bytes_of path @ [0]"
  using assms by (simp add: enc_simplify_def)

text \<open>The documented SIMPLIFY_PATH layout.  The parser skips one node-id byte that the layout does
  not have and takes the low byte of the path id for the optional separator.  For an id whose low byte
  is not zero the two shifts cancel and id and path are read as documented; for an id whose low byte is
  zero the id read is a different one, made of the other three bytes and the first byte of the path.\<close>

theorem simplify_path_layout:
  assumes "length h = 32" and "i < 2 ^ 32" and "CHR 0x00 \<notin> set path"
  shows "\<exists>p. parseSm ff (enc_simplify h i path) = Ok p \<and> sm_cmd p = cmdSimplifyPath \<and>
    (if i mod 256 \<noteq> 0 then sm_pscID p = of_nat i \<and> sm_path p = path
     else sm_pscID p = of_nat (i div 256 + 2 ^ 24 * le_val (take 1 (bytes_of path @ [0]))))"
proof -
  let ?p = "enc_simplify h i path"
  let ?m = "(sm_empty ?p)\<lparr>sm_meta := 1, sm_cmd := 1, sm_cmdName := cmdNames 1\<rparr>"
  have len: "length ?p = 39 + length path" using assms(1) by (simp add: enc_simplify_def)
  have tail: "drop 34 ?p = le_bytes 4 i @ bytes_of path @ [0]" by (rule enc_simplify_tail [OF assms(1)])
  have b34: "?p ! 34 = of_nat (i mod 256)"
  proof -
    have "?p ! 34 = drop 34 ?p ! 0" using len by simp
    then show ?thesis unfolding tail by (simp add: le_bytes_4_head)
  qed
  have zero: "(of_nat (i mod 256) :: byte) = 0 \<longleftrightarrow> i mod 256 = 0"
    by (simp add: word_unat_eq_iff del: of_nat_mod)
  have s: "slice ?p 2 34 = Ok (take 32 (drop 2 ?p))" using len by (simp add: slice_def)
  show ?thesis
  proof (cases "i mod 256 = 0")
    case False
    then have g: "(?p ! 34 = 0) = False" using b34 zero by simp
    have "drop 38 ?p = drop 4 (drop 34 ?p)" by simp
    then have d38: "drop 38 ?p = bytes_of path @ [0]" unfolding tail by simp
    have v: "(of_nat (le_val (take 4 (drop 34 ?p))) :: 32 word) = of_nat i"
      unfolding tail using assms(2) by (simp add: le_val_le_bytes)
    have w: "le_word 4 (drop 34 ?p) = Ok (of_nat i :: 32 word)" using len v by (simp add: le_word_def)
    show ?thesis
      using False s g w d38 len cstring_bytes [OF assms(3)]
      by (simp add: parseSm_simplify [OF assms(1)] parse_simplify_def Let_def slice_from_def cmd_defs)
  next
    case True
    then have g: "(?p ! 34 = 0) = True" using b34 zero by simp
    have "drop 35 ?p = drop 1 (drop 34 ?p)" by simp
    then have d35: "drop 35 ?p = le_bytes 3 (i div 256) @ bytes_of path @ [0]" unfolding tail by (simp add: le_bytes_4_head)
    have app: "le_val (xs @ ys) = le_val xs + 256 ^ length xs * le_val ys" for xs ys
      by (induction xs) (simp_all add: algebra_simps)
    have "le_val (take 4 (drop 35 ?p)) = i div 256 + 2 ^ 24 * le_val (take 1 (bytes_of path @ [0]))"
      unfolding d35 using assms(2) by (simp add: app le_val_le_bytes)
    then have w: "le_word 4 (drop 35 ?p) =
        Ok (of_nat (i div 256 + 2 ^ 24 * le_val (take 1 (bytes_of path @ [0]))) :: 32 word)"
      using len by (simp add: le_word_def del: of_nat_add of_nat_mult)
    obtain path' where c: "cstring (drop 39 ?p) = Ok path'" using returns_cstring [of "drop 39 ?p"] by (auto simp: returns_def)
    show ?thesis
      using True s g w len c
      by (simp add: parseSm_simplify [OF assms(1)] parse_simplify_def Let_def slice_from_def cmd_defs
          del: of_nat_add of_nat_mult)
  qed
qed

theorem simplify_path_layout_witness:
  "\<exists>p. parseSm (\<lambda>_. []) (enc_simplify (replicate 32 65) 3 ''W/1'') = Ok p \<and> sm_cmd p = cmdSimplifyPath \<and>
    sm_pscID p = 3 \<and> sm_path p = ''W/1''"
  using simplify_path_layout [of "replicate 32 65" 3 "''W/1''" "\<lambda>_. []"] by simp

end
