(* ===== verification/Spool_Queue.thy ===== *)
theory Spool_Queue imports Gt_Base begin

text \<open>
  The on-disk upload buffer of \<open>pkg/spool/queue.go\<close>: segments of length-prefixed records, the
  read cursor file, and the in-memory index of unconfirmed records.

  The directory is the record \<open>disk\<close>; a queue operation takes and returns the queue and the disk, and
  an error is a value of \<open>spool_err\<close>.  A crash is: forget the queue, keep the disk.  An open file is
  its segment number in \<open>q_files\<close>; the handle the queue writes with has its own position
  \<open>q_wrPos\<close>, and \<open>q_wrOpen\<close> says that nobody has closed it.  A failing write is an argument of
  \<open>Append\<close> (the number of bytes that reached the file), a failing fsync another; time is an
  argument in milliseconds.  Protobuf encoding (\<open>marshal\<close>, \<open>unmarshal\<close>) is a parameter.  Failing
  writes of the small JSON files are not modelled, nor segment numbers beyond 64 bits.
  \<open>Open\<close> starts from a directory that exists.  \<open>q_wrOpen = False\<close> stands for a closed handle; \<open>Sync\<close> on it
  fails, as on any closed file (the nil handle, on which \<open>syncLocked\<close> does nothing, exists only inside a
  failing \<open>Open\<close>, where the result is discarded, and after \<open>Close\<close>, where nothing syncs again).
\<close>

section \<open>Data\<close>

record entry =
  en_seg :: nat
  en_off :: nat
  en_n :: nat

record cursor =
  cur_seg :: nat
  cur_off :: nat

record seg_info =
  si_first :: int
  si_last :: int
  si_packets :: nat
  si_bytes :: nat

record retention =
  rt_maxAge :: int
  rt_maxBytes :: nat

record disk =
  dk_segs :: "(nat \<times> byte list) list"
  dk_cursor :: "cursor option"
  dk_idx :: "nat \<rightharpoonup> seg_info"
  dk_mtime :: "nat \<Rightarrow> int"

record queue =
  q_maxBytes :: nat
  q_segBytes :: nat
  q_entries :: "entry list"
  q_nextIdx :: nat
  q_bytes :: nat
  q_wrCur :: cursor
  q_wrPos :: nat
  q_wrOpen :: bool
  q_files :: "nat list"
  q_unsynced :: nat
  q_lastSync :: int
  q_ackSinceCS :: nat
  q_dropped :: nat
  q_closed :: bool
  q_retention :: "retention option"
  q_segMeta :: "nat \<rightharpoonup> seg_info"

type_synonym spool = "queue \<times> disk"

datatype spool_err = EFull | EClosed | EMarshal | EWrite | ESync | EOpen nat | ERead nat | EUnmarshal | EPanic

definition headerSize :: nat where "headerSize = 4"
definition DefaultMaxBytes :: nat where "DefaultMaxBytes = 512 * 2 ^ 20"
definition DefaultSegmentBytes :: nat where "DefaultSegmentBytes = 64 * 2 ^ 20"
definition syncEveryBytes :: nat where "syncEveryBytes = 4 * 2 ^ 20"
definition syncEvery :: int where "syncEvery = 200"
definition cursorSyncEvery :: nat where "cursorSyncEvery = 512"

abbreviation pos :: "nat \<Rightarrow> nat \<Rightarrow> cursor" where
  "pos s k \<equiv> \<lparr>cur_seg = s, cur_off = k\<rparr>"

section \<open>Files\<close>

definition seg_bytes :: "disk \<Rightarrow> nat \<Rightarrow> byte list" where
  "seg_bytes d s = (case map_of (dk_segs d) s of Some b \<Rightarrow> b | None \<Rightarrow> [])"

definition set_seg :: "nat \<Rightarrow> byte list \<Rightarrow> disk \<Rightarrow> disk" where
  "set_seg s b d = d\<lparr>dk_segs := AList.update s b (dk_segs d)\<rparr>"

definition has_seg :: "disk \<Rightarrow> nat \<Rightarrow> bool" where
  "has_seg d s \<longleftrightarrow> map_of (dk_segs d) s \<noteq> None"

definition write_at :: "byte list \<Rightarrow> nat \<Rightarrow> byte list \<Rightarrow> byte list" where
  "write_at c k b = take k (c @ replicate (k - length c) 0) @ b @ drop (k + length b) c"

definition listSegments :: "disk \<Rightarrow> nat list" where
  "listSegments d = sort (map fst (dk_segs d))"

text \<open>\<open>os.OpenFile\<close> of a missing path fails; a cached handle does not touch the disk.\<close>

definition fileFor :: "nat \<Rightarrow> spool \<Rightarrow> (spool_err + unit) \<times> spool" where
  "fileFor s st = (case st of (q, d) \<Rightarrow>
     if s \<in> set (q_files q) then (Inr (), st)
     else if has_seg d s then (Inr (), q\<lparr>q_files := s # q_files q\<rparr>, d)
     else (Inl (EOpen s), st))"

definition openSegment :: "nat \<Rightarrow> spool \<Rightarrow> spool" where
  "openSegment s st = (case st of (q, d) \<Rightarrow>
     (q\<lparr>q_files := List.insert s (q_files q)\<rparr>, if has_seg d s then d else set_seg s [] d))"

definition openWrite :: "spool \<Rightarrow> (spool_err + unit) \<times> spool" where
  "openWrite st = (case fileFor (cur_seg (q_wrCur (fst st))) st of
      (Inl e, st1) \<Rightarrow> (Inl e, st1)
    | (Inr _, q, d) \<Rightarrow> (Inr (), q\<lparr>q_wrPos := cur_off (q_wrCur q), q_wrOpen := True\<rparr>, d))"

definition dropSegment :: "nat \<Rightarrow> spool \<Rightarrow> spool" where
  "dropSegment s st = (case st of (q, d) \<Rightarrow>
     (q\<lparr>q_files := removeAll s (q_files q),
        q_wrOpen := (q_wrOpen q \<and> \<not> (s \<in> set (q_files q) \<and> s = cur_seg (q_wrCur q))),
        q_segMeta := (q_segMeta q)(s := None)\<rparr>,
      d\<lparr>dk_segs := AList.delete s (dk_segs d), dk_idx := (dk_idx d)(s := None)\<rparr>))"

section \<open>The read cursor\<close>

definition readCur :: "queue \<Rightarrow> cursor" where
  "readCur q = (case q_entries q of e # _ \<Rightarrow> pos (en_seg e) (en_off e) | [] \<Rightarrow> q_wrCur q)"

definition loadCursor :: "disk \<Rightarrow> cursor option" where
  "loadCursor d = map_option (\<lambda>c. if cur_seg c = 0 then c\<lparr>cur_seg := 1\<rparr> else c) (dk_cursor d)"

definition persistCursor :: "spool \<Rightarrow> spool" where
  "persistCursor st = (case st of (q, d) \<Rightarrow> (q\<lparr>q_ackSinceCS := 0\<rparr>, d\<lparr>dk_cursor := Some (readCur q)\<rparr>))"

definition cleanup :: "spool \<Rightarrow> spool" where
  "cleanup st = (case q_retention (fst st) of
      Some _ \<Rightarrow> st
    | None \<Rightarrow> fold dropSegment (filter (\<lambda>s. s < cur_seg (readCur (fst st))) (q_files (fst st))) st)"

section \<open>Writing\<close>

definition syncLocked :: "bool \<Rightarrow> int \<Rightarrow> queue \<Rightarrow> (spool_err + unit) \<times> queue" where
  "syncLocked sync_ok now q =
    (if q_wrOpen q \<and> sync_ok then (Inr (), q\<lparr>q_unsynced := 0, q_lastSync := now\<rparr>) else (Inl ESync, q))"

definition maybeSync :: "bool \<Rightarrow> int \<Rightarrow> nat \<Rightarrow> queue \<Rightarrow> (spool_err + unit) \<times> queue" where
  "maybeSync sync_ok now written q =
    (let q1 = q\<lparr>q_unsynced := q_unsynced q + written\<rparr> in
     if q_unsynced q1 < syncEveryBytes \<and> now - q_lastSync q1 < syncEvery then (Inr (), q1)
     else syncLocked sync_ok now q1)"

definition rollSegment :: "bool \<Rightarrow> int \<Rightarrow> spool \<Rightarrow> (spool_err + unit) \<times> spool" where
  "rollSegment sync_ok now st = (case syncLocked sync_ok now (fst st) of
      (Inl e, q) \<Rightarrow> (Inl e, q, snd st)
    | (Inr _, q) \<Rightarrow>
        (let nxt = cur_seg (q_wrCur q) + 1; (q1, d1) = openSegment nxt (q, snd st) in
         openWrite (q1\<lparr>q_wrCur := pos nxt 0\<rparr>, d1)))"

definition rec_bytes :: "byte list \<Rightarrow> byte list" where
  "rec_bytes rc = be_bytes 4 (length rc) @ rc"

text \<open>\<open>wrFile.Write\<close>: all bytes, or the \<open>k\<close> bytes that reached the file before the error; the handle's
  position moves with the bytes written.\<close>

definition write_handle :: "nat option \<Rightarrow> byte list \<Rightarrow> spool \<Rightarrow> (spool_err + unit) \<times> spool" where
  "write_handle fault buf st = (case st of (q, d) \<Rightarrow>
     if \<not> q_wrOpen q then (Inl EWrite, st)
     else
       (let s = cur_seg (q_wrCur q);
            out = (case fault of None \<Rightarrow> buf | Some k \<Rightarrow> take k buf);
            st1 = (q\<lparr>q_wrPos := q_wrPos q + length out\<rparr>, set_seg s (write_at (seg_bytes d s) (q_wrPos q) out) d) in
        (if fault = None then Inr () else Inl EWrite, st1)))"

definition writeRecord :: "nat option \<Rightarrow> bool \<Rightarrow> int \<Rightarrow> byte list \<Rightarrow> spool \<Rightarrow> (spool_err + unit) \<times> spool" where
  "writeRecord fault sync_ok now rc st =
    (case (if cur_off (q_wrCur (fst st)) \<ge> q_segBytes (fst st) then rollSegment sync_ok now st else (Inr (), st)) of
       (Inl e, st1) \<Rightarrow> (Inl e, st1)
     | (Inr _, st1) \<Rightarrow> write_handle fault (rec_bytes rc) st1)"

definition noteSegRecord :: "nat \<Rightarrow> int \<Rightarrow> int \<Rightarrow> nat \<Rightarrow> queue \<Rightarrow> queue" where
  "noteSegRecord s ts now sz q =
    (let m = (case q_segMeta q s of Some m \<Rightarrow> m
              | None \<Rightarrow> \<lparr>si_first = 0, si_last = 0, si_packets = 0, si_bytes = 0\<rparr>);
         t0 = ts div 1000000; t = (if t0 \<le> 0 then now else t0);
         m1 = (if si_first m = 0 \<or> t < si_first m then m\<lparr>si_first := t\<rparr> else m);
         m2 = (if t > si_last m1 then m1\<lparr>si_last := t\<rparr> else m1) in
     q\<lparr>q_segMeta := (q_segMeta q)(s \<mapsto> m2\<lparr>si_packets := si_packets m2 + 1, si_bytes := si_bytes m2 + sz\<rparr>)\<rparr>)"

definition Append ::
  "('p \<Rightarrow> byte list option) \<Rightarrow> ('p \<Rightarrow> int) \<Rightarrow> nat option \<Rightarrow> bool \<Rightarrow> int \<Rightarrow> 'p \<Rightarrow> spool \<Rightarrow> (spool_err + unit) \<times> spool" where
  "Append marshal stamp fault sync_ok now p st =
    (case marshal p of
       None \<Rightarrow> (Inl EMarshal, st)
     | Some rc \<Rightarrow>
        (if length rc > q_maxBytes (fst st) then (Inl EFull, st)
         else if q_closed (fst st) then (Inl EClosed, st)
         else
           (let tot = headerSize + length rc; (q, d) = st in
            if q_bytes q + tot > q_maxBytes q then (Inl EFull, q\<lparr>q_dropped := q_dropped q + 1\<rparr>, d)
            else
              (case writeRecord fault sync_ok now rc st of
                 (Inl e, q1, d1) \<Rightarrow> (Inl e, q1\<lparr>q_dropped := q_dropped q1 + 1\<rparr>, d1)
               | (Inr _, q1, d1) \<Rightarrow>
                   (let q2 = noteSegRecord (cur_seg (q_wrCur q1)) (stamp p) now tot q1;
                        q3 = q2\<lparr>q_entries := q_entries q2 @
                               [\<lparr>en_seg = cur_seg (q_wrCur q2), en_off = cur_off (q_wrCur q2), en_n = length rc\<rparr>],
                             q_wrCur := (q_wrCur q2)\<lparr>cur_off := cur_off (q_wrCur q2) + tot\<rparr>,
                             q_bytes := q_bytes q2 + tot\<rparr>;
                        (r, q4) = maybeSync sync_ok now tot q3 in
                    (r, q4, d1))))))"

section \<open>Reading and confirming\<close>

text \<open>\<open>count\<close> records decoded from the buffer read at the head of the batch.\<close>

fun read_records :: "(byte list \<Rightarrow> 'p option) \<Rightarrow> nat \<Rightarrow> byte list \<Rightarrow> spool_err + 'p list" where
  "read_records unmarshal 0 buf = Inr []"
| "read_records unmarshal (Suc k) buf =
    (if length buf < headerSize then Inl EPanic
     else
       (let n = be_val (take headerSize buf); body = drop headerSize buf in
        if length body < n then Inl EPanic
        else (case unmarshal (take n body) of
            None \<Rightarrow> Inl EUnmarshal
          | Some p \<Rightarrow> (case read_records unmarshal k (drop n body) of
                Inl e \<Rightarrow> Inl e | Inr ps \<Rightarrow> Inr (p # ps)))))"

definition entry_span :: "entry \<Rightarrow> nat" where
  "entry_span e = headerSize + en_n e"

definition Next :: "(byte list \<Rightarrow> 'p option) \<Rightarrow> int \<Rightarrow> spool \<Rightarrow> (spool_err + 'p list) \<times> spool" where
  "Next unmarshal n0 st =
    (let q = fst st; n = (if n0 \<le> 0 then 1 else nat n0); pend = drop (q_nextIdx q) (q_entries q) in
     (case pend of
        [] \<Rightarrow> (Inr [], st)
      | h # _ \<Rightarrow>
         (let batch = takeWhile (\<lambda>e. en_seg e = en_seg h) (take n pend);
              span = sum_list (map entry_span batch) in
          (case fileFor (en_seg h) st of
             (Inl e, st1) \<Rightarrow> (Inl e, st1)
           | (Inr _, q1, d1) \<Rightarrow>
              (let c = seg_bytes d1 (en_seg h) in
               if length c < en_off h + span then (Inl (ERead (en_seg h)), q1, d1)
               else
                 (case read_records unmarshal (length batch) (take span (drop (en_off h) c)) of
                    Inl e \<Rightarrow> (Inl e, q1, d1)
                  | Inr ps \<Rightarrow> (Inr ps, q1\<lparr>q_nextIdx := q_nextIdx q1 + length batch\<rparr>, d1)))))))"

definition AckN :: "int \<Rightarrow> spool \<Rightarrow> spool" where
  "AckN n0 st = (case st of (q, d) \<Rightarrow>
     (let n = (if n0 > int (q_nextIdx q) then q_nextIdx q else nat n0) in
      if n = 0 then st
      else
        (let q1 = q\<lparr>q_bytes := q_bytes q - sum_list (map entry_span (take n (q_entries q))),
                    q_entries := drop n (q_entries q), q_nextIdx := q_nextIdx q - n,
                    q_ackSinceCS := q_ackSinceCS q + n\<rparr> in
         cleanup (if q_ackSinceCS q1 \<ge> cursorSyncEvery then persistCursor (q1, d) else (q1, d)))))"

definition Requeue :: "spool \<Rightarrow> spool" where
  "Requeue st = (case st of (q, d) \<Rightarrow> (q\<lparr>q_nextIdx := 0\<rparr>, d))"

definition InFlight :: "spool \<Rightarrow> nat" where
  "InFlight st = q_nextIdx (fst st)"

definition Depth :: "spool \<Rightarrow> nat \<times> nat" where
  "Depth st = (length (q_entries (fst st)), q_bytes (fst st))"

definition Dropped :: "spool \<Rightarrow> nat" where
  "Dropped st = q_dropped (fst st)"

definition saveAllSegMeta :: "spool \<Rightarrow> spool" where
  "saveAllSegMeta st = (case st of (q, d) \<Rightarrow> (q, d\<lparr>dk_idx := dk_idx d ++ q_segMeta q\<rparr>))"

definition Close :: "bool \<Rightarrow> int \<Rightarrow> spool \<Rightarrow> (spool_err + unit) \<times> spool" where
  "Close sync_ok now st =
    (if q_closed (fst st) then (Inr (), st)
     else
       (let (r, q1) = syncLocked sync_ok now (fst st);
            (q2, d2) = saveAllSegMeta (persistCursor (q1, snd st)) in
        (r, q2\<lparr>q_closed := True, q_files := [], q_wrOpen := False\<rparr>, d2)))"

section \<open>Opening\<close>

text \<open>One segment: the records from \<open>off\<close> on, the end of the last whole record, and whether it is the end
  of the file.\<close>

function scanSegment :: "byte list \<Rightarrow> nat \<Rightarrow> nat \<Rightarrow> entry list \<times> nat \<times> bool" where
  "scanSegment c s off =
    (if off + headerSize \<le> length c then
       (let n = be_val (take headerSize (drop off c)) in
        if n = 0 \<or> off + headerSize + n > length c then ([], off, False)
        else
          (let (es, k, eof) = scanSegment c s (off + headerSize + n) in
           (\<lparr>en_seg = s, en_off = off, en_n = n\<rparr> # es, k, eof)))
     else ([], off, off = length c))"
  by pat_completeness auto
termination
  by (relation "measure (\<lambda>(c, s, off). length c - off)") (auto simp: headerSize_def)

declare scanSegment.simps [simp del]

definition scan_one :: "byte list \<Rightarrow> nat \<Rightarrow> nat \<Rightarrow> entry list \<times> nat \<times> bool" where
  "scan_one c s off = (if off \<ge> length c then ([], length c, True) else scanSegment c s off)"

text \<open>All segments from a position on.  Opening a missing segment is an error: \<open>os.IsNotExist\<close> does not
  look through the error that \<open>fileFor\<close> wraps.\<close>

function scanFrom :: "nat \<Rightarrow> nat \<Rightarrow> spool \<Rightarrow> (spool_err + unit) \<times> spool" where
  "scanFrom s off st =
    (case fileFor s st of
       (Inl e, st1) \<Rightarrow> (Inl e, st1)
     | (Inr _, q, d) \<Rightarrow>
        (let (es, k, eof) = scan_one (seg_bytes d s) s off;
             q1 = q\<lparr>q_entries := q_entries q @ es, q_bytes := q_bytes q + sum_list (map entry_span es)\<rparr> in
         if \<not> eof then openWrite (q1\<lparr>q_wrCur := pos s k\<rparr>, set_seg s (take k (seg_bytes d s)) d)
         else if has_seg d (s + 1) then scanFrom (s + 1) 0 (q1, d)
         else (Inr (), q1, d)))"
  by pat_completeness auto

definition loadSegMeta :: "nat list \<Rightarrow> spool \<Rightarrow> spool" where
  "loadSegMeta segs st = (case st of (q, d) \<Rightarrow>
     (q\<lparr>q_segMeta := fold (\<lambda>s m. m(s \<mapsto> (case dk_idx d s of Some i \<Rightarrow> i
         | None \<Rightarrow> \<lparr>si_first = dk_mtime d s, si_last = dk_mtime d s, si_packets = 0, si_bytes = 0\<rparr>))) segs (q_segMeta q)\<rparr>, d))"

lemma fileFor_disk: "fileFor s st = (r, q, d) \<Longrightarrow> d = snd st"
  by (auto simp: fileFor_def split: prod.splits if_splits)

lemma later_segs_less: "has_seg d (s + 1) \<Longrightarrow>
  length (filter (\<lambda>x. s + 1 < fst x) (dk_segs d)) < length (filter (\<lambda>x. s < fst x) (dk_segs d))"
proof -
  assume "has_seg d (s + 1)"
  then obtain b where b: "(s + 1, b) \<in> set (dk_segs d)" by (auto simp: has_seg_def dest: map_of_SomeD)
  have le: "length (filter (\<lambda>x. s + 1 < fst x) xs) \<le> length (filter (\<lambda>x. s < fst x) xs)" for xs :: "(nat \<times> byte list) list"
    by (induction xs) auto
  have "length (filter (\<lambda>x. s + 1 < fst x) xs) < length (filter (\<lambda>x. s < fst x) xs)"
    if "(s + 1, b) \<in> set xs" for xs
    using that
  proof (induction xs)
    case (Cons x xs)
    then show ?case using le [of xs] by (auto simp: less_Suc_eq_le)
  qed simp
  from this [OF b] show ?thesis .
qed

termination scanFrom
  by (relation "measure (\<lambda>(s, off, st). length (filter (\<lambda>x. s < fst x) (dk_segs (snd st))))")
    (auto dest!: fileFor_disk [OF sym] later_segs_less [simplified])

declare scanFrom.simps [simp del]

definition recover :: "spool \<Rightarrow> (spool_err + unit) \<times> spool" where
  "recover st =
    (let segs = listSegments (snd st);
         st1 = (if segs \<noteq> [] then
                  ((fst st)\<lparr>q_wrCur := pos (last segs) (length (seg_bytes (snd st) (last segs)))\<rparr>, snd st)
                else (let (q, d) = openSegment 1 st in (q\<lparr>q_wrCur := pos 1 0\<rparr>, d))) in
     (case openWrite st1 of
        (Inl e, st2) \<Rightarrow> (Inl e, st2)
      | (Inr _, st2) \<Rightarrow>
         (let cur = (case loadCursor (snd st2) of Some c \<Rightarrow> c | None \<Rightarrow> pos 1 0);
              st3 = loadSegMeta segs st2;
              st4 = (if q_retention (fst st3) = None then fold dropSegment (filter (\<lambda>s. s < cur_seg cur) segs) st3 else st3) in
          scanFrom (cur_seg cur) (cur_off cur) st4)))"

record options =
  op_maxBytes :: int
  op_segBytes :: int
  op_retention :: "retention option"

definition new_queue :: "options \<Rightarrow> int \<Rightarrow> queue" where
  "new_queue opts now =
    \<lparr>q_maxBytes = (if op_maxBytes opts \<le> 0 then DefaultMaxBytes else nat (op_maxBytes opts)),
     q_segBytes = (if op_segBytes opts \<le> 0 then DefaultSegmentBytes else nat (op_segBytes opts)),
     q_entries = [], q_nextIdx = 0, q_bytes = 0, q_wrCur = pos 0 0, q_wrPos = 0, q_wrOpen = False,
     q_files = [], q_unsynced = 0, q_lastSync = now, q_ackSinceCS = 0, q_dropped = 0, q_closed = False,
     q_retention = op_retention opts, q_segMeta = Map.empty\<rparr>"

text \<open>\<open>Open\<close>: a failed recovery closes the queue, which writes the cursor.\<close>

definition Open :: "options \<Rightarrow> int \<Rightarrow> disk \<Rightarrow> (spool_err + queue) \<times> disk" where
  "Open opts now d =
    (case recover (new_queue opts now, d) of
       (Inr _, q, d1) \<Rightarrow> (Inr q, d1)
     | (Inl e, st) \<Rightarrow> (Inl e, snd (snd (Close True now st))))"

end
