(* ===== verification/Spool_Inv.thy ===== *)
theory Spool_Inv imports Spool_Queue begin

text \<open>
  The layout invariant of the spool: the unconfirmed index of the queue is a chain of whole records on
  disk from the read cursor to the write position.  Each operation preserves it.
\<close>

section \<open>Layout\<close>

type_synonym item = "entry \<times> byte list"

definition rec_at :: "disk \<Rightarrow> item \<Rightarrow> bool" where
  "rec_at d x \<longleftrightarrow> en_n (fst x) = length (snd x) \<and> snd x \<noteq> [] \<and> length (snd x) < 2 ^ 32 \<and>
     en_off (fst x) + entry_span (fst x) \<le> length (seg_bytes d (en_seg (fst x))) \<and>
     take (entry_span (fst x)) (drop (en_off (fst x)) (seg_bytes d (en_seg (fst x)))) = rec_bytes (snd x)"

text \<open>From one position to the next: stay, or hop from the end of a segment to the start of the next.\<close>

definition hop :: "disk \<Rightarrow> cursor \<Rightarrow> cursor \<Rightarrow> bool" where
  "hop d c c' \<longleftrightarrow> c' = c \<or> (c' = pos (cur_seg c + 1) 0 \<and> cur_off c = length (seg_bytes d (cur_seg c)))"

definition after :: "entry \<Rightarrow> cursor" where
  "after e = pos (en_seg e) (en_off e + entry_span e)"

fun laid :: "disk \<Rightarrow> cursor \<Rightarrow> item list \<Rightarrow> cursor \<Rightarrow> bool" where
  "laid d c [] w = hop d c w"
| "laid d c (x # xs) w = (hop d c (pos (en_seg (fst x)) (en_off (fst x))) \<and> rec_at d x \<and> laid d (after (fst x)) xs w)"

lemma length_rec_bytes [simp]: "length (rec_bytes rc) = headerSize + length rc"
  by (simp add: rec_bytes_def headerSize_def)

lemma hop_seg: "hop d c c' \<Longrightarrow> cur_seg c \<le> cur_seg c' \<and> (cur_seg c = cur_seg c' \<longrightarrow> c' = c)"
  by (auto simp: hop_def)

lemma laid_seg: "laid d c xs w \<Longrightarrow> cur_seg c \<le> cur_seg w"
proof (induction xs arbitrary: c)
  case Nil
  then show ?case using hop_seg [of d c w] by simp
next
  case (Cons x xs)
  then have "cur_seg c \<le> en_seg (fst x)" and "en_seg (fst x) \<le> cur_seg w"
    using hop_seg [of d c] by (force simp: after_def)+
  then show ?case by simp
qed

lemma laid_seg_all: "laid d c xs w \<Longrightarrow> x \<in> set xs \<Longrightarrow> cur_seg c \<le> en_seg (fst x) \<and> en_seg (fst x) \<le> cur_seg w"
proof (induction xs arbitrary: c)
  case Nil
  then show ?case by simp
next
  case (Cons y xs)
  have "cur_seg c \<le> en_seg (fst y)" using Cons.prems(1) hop_seg [of d c] by force
  moreover have "en_seg (fst y) \<le> cur_seg w" using Cons.prems(1) laid_seg [of d "after (fst y)" xs w] by (simp add: after_def)
  moreover have "en_seg (fst y) \<le> en_seg (fst x) \<and> en_seg (fst x) \<le> cur_seg w" if "x \<in> set xs"
    using Cons.IH [of "after (fst y)"] Cons.prems(1) that by (simp add: after_def)
  ultimately show ?case using Cons.prems(2) by auto
qed

text \<open>A layout survives changes of the disk that extend the last segment and touch no earlier one from
  the read position on.\<close>

definition extends :: "nat \<Rightarrow> nat \<Rightarrow> disk \<Rightarrow> disk \<Rightarrow> bool" where
  "extends lo hi d d' \<longleftrightarrow> (\<forall>s. lo \<le> s \<longrightarrow> s < hi \<longrightarrow> seg_bytes d' s = seg_bytes d s) \<and>
     (\<exists>b. seg_bytes d' hi = seg_bytes d hi @ b)"

lemma extends_mono: "extends lo hi d d' \<Longrightarrow> lo \<le> lo' \<Longrightarrow> extends lo' hi d d'"
  by (auto simp: extends_def)

lemma rec_at_extends:
  assumes "rec_at d x" and "extends lo hi d d'" and "lo \<le> en_seg (fst x)" and "en_seg (fst x) \<le> hi"
  shows "rec_at d' x"
proof (cases "en_seg (fst x) = hi")
  case True
  obtain b where "seg_bytes d' hi = seg_bytes d hi @ b" using assms(2) by (auto simp: extends_def)
  then show ?thesis using assms(1) True by (simp add: rec_at_def)
next
  case False
  then have "seg_bytes d' (en_seg (fst x)) = seg_bytes d (en_seg (fst x))"
    using assms by (simp add: extends_def)
  then show ?thesis using assms(1) by (simp add: rec_at_def)
qed

lemma hop_extends:
  assumes "hop d c c'" and "extends lo hi d d'" and "lo \<le> cur_seg c" and "cur_seg c' \<le> hi"
  shows "hop d' c c'"
proof (cases "c' = c")
  case False
  then have c': "c' = pos (cur_seg c + 1) 0" "cur_off c = length (seg_bytes d (cur_seg c))"
    using assms(1) by (auto simp: hop_def)
  then have "seg_bytes d' (cur_seg c) = seg_bytes d (cur_seg c)"
    using assms(2-4) by (simp add: extends_def)
  with c' show ?thesis by (simp add: hop_def)
qed (simp add: hop_def)

lemma laid_extends:
  "laid d c xs w \<Longrightarrow> extends (cur_seg c) (cur_seg w) d d' \<Longrightarrow> laid d' c xs w"
proof (induction xs arbitrary: c)
  case Nil
  then show ?case using hop_extends [of d c w] by simp
next
  case (Cons x xs)
  have s: "cur_seg c \<le> en_seg (fst x)" "en_seg (fst x) \<le> cur_seg w"
    using laid_seg_all [OF Cons.prems(1), of x] by simp_all
  have "laid d' (after (fst x)) xs w"
    using Cons.prems s by (intro Cons.IH) (auto simp: after_def elim: extends_mono)
  moreover have "rec_at d' x" using Cons.prems s by (intro rec_at_extends [OF _ Cons.prems(2)]) simp_all
  moreover have "hop d' c (pos (en_seg (fst x)) (en_off (fst x)))"
    using Cons.prems s by (intro hop_extends [OF _ Cons.prems(2)]) simp_all
  ultimately show ?case by simp
qed

lemma laid_snoc:
  "laid d c xs w \<Longrightarrow> rec_at d x \<Longrightarrow> w = pos (en_seg (fst x)) (en_off (fst x)) \<Longrightarrow>
     laid d c (xs @ [x]) (after (fst x))"
  by (induction xs arbitrary: c) (auto simp: hop_def)

lemma laid_drop:
  "laid d c xs w \<Longrightarrow> n < length xs \<Longrightarrow>
     laid d (pos (en_seg (fst (xs ! n))) (en_off (fst (xs ! n)))) (drop n xs) w"
proof (induction xs arbitrary: c n)
  case (Cons x xs)
  then show ?case by (cases n) (auto simp: hop_def)
qed simp

section \<open>Disk updates\<close>

lemma seg_bytes_set [simp]: "seg_bytes (set_seg s b d) s' = (if s' = s then b else seg_bytes d s')"
  by (simp add: seg_bytes_def set_seg_def update_conv')

lemma has_seg_set [simp]: "has_seg (set_seg s b d) s' \<longleftrightarrow> s' = s \<or> has_seg d s'"
  by (simp add: has_seg_def set_seg_def update_conv')

lemma set_seg_sel [simp]: "dk_cursor (set_seg s b d) = dk_cursor d" "dk_idx (set_seg s b d) = dk_idx d"
  by (simp_all add: set_seg_def)

lemma fold_drop:
  "fold dropSegment ss (q, d) =
    (q\<lparr>q_files := filter (\<lambda>s. s \<notin> set ss) (q_files q),
       q_wrOpen := (q_wrOpen q \<and> \<not> (cur_seg (q_wrCur q) \<in> set ss \<and> cur_seg (q_wrCur q) \<in> set (q_files q))),
       q_segMeta := q_segMeta q |` (- set ss)\<rparr>,
     d\<lparr>dk_segs := filter (\<lambda>x. fst x \<notin> set ss) (dk_segs d), dk_idx := dk_idx d |` (- set ss)\<rparr>)"
proof (induction ss arbitrary: q d)
  case Nil
  then show ?case by simp
next
  case (Cons s ss)
  have del: "AList.delete s xs = filter (\<lambda>x. fst x \<noteq> s) xs" for xs :: "(nat \<times> byte list) list"
    by (induction xs) auto
  have rem: "removeAll s xs = filter (\<lambda>x. x \<noteq> s) xs" for xs :: "nat list"
    by (induction xs) auto
  have step: "dropSegment s (q, d) =
     (q\<lparr>q_files := filter (\<lambda>x. x \<noteq> s) (q_files q),
        q_wrOpen := (q_wrOpen q \<and> \<not> (s \<in> set (q_files q) \<and> s = cur_seg (q_wrCur q))),
        q_segMeta := (q_segMeta q)(s := None)\<rparr>,
      d\<lparr>dk_segs := filter (\<lambda>x. fst x \<noteq> s) (dk_segs d), dk_idx := (dk_idx d)(s := None)\<rparr>)"
    unfolding dropSegment_def prod.case del rem by simp
  show ?case
    unfolding fold_Cons comp_apply step Cons.IH
    by (auto intro!: queue.equality disk.equality simp: restrict_map_def fun_eq_iff)
qed

lemma map_of_filter_key: "map_of (filter (\<lambda>x. P (fst x)) xs) k = (if P k then map_of xs k else None)"
  by (induction xs) auto

lemma seg_bytes_drop: "seg_bytes (snd (fold dropSegment ss (q, d))) s = (if s \<in> set ss then [] else seg_bytes d s)"
  by (simp add: fold_drop seg_bytes_def map_of_filter_key [where P = "\<lambda>k. k \<notin> set ss"])

lemma has_seg_drop: "has_seg (snd (fold dropSegment ss (q, d))) s \<longleftrightarrow> s \<notin> set ss \<and> has_seg d s"
  by (simp add: fold_drop has_seg_def map_of_filter_key [where P = "\<lambda>k. k \<notin> set ss"])

section \<open>The invariant\<close>

definition spool_inv :: "spool \<Rightarrow> item list \<Rightarrow> bool" where
  "spool_inv st xs \<longleftrightarrow> (case st of (q, d) \<Rightarrow>
     q_entries q = map fst xs \<and> laid d (readCur q) xs (q_wrCur q) \<and>
     q_bytes q = sum_list (map entry_span (q_entries q)) \<and> q_nextIdx q \<le> length xs \<and>
     q_wrOpen q \<and> q_wrPos q = cur_off (q_wrCur q) \<and>
     length (seg_bytes d (cur_seg (q_wrCur q))) = cur_off (q_wrCur q) \<and>
     cur_seg (q_wrCur q) \<in> set (q_files q) \<and> (\<forall>s \<in> set (q_files q). has_seg d s) \<and>
     (\<forall>s. has_seg d s \<longrightarrow> s \<le> cur_seg (q_wrCur q)) \<and>
     (\<forall>s. cur_seg (readCur q) \<le> s \<longrightarrow> s \<le> cur_seg (q_wrCur q) \<longrightarrow> has_seg d s) \<and>
     0 < cur_seg (readCur q) \<and> 0 < q_segBytes q \<and> \<not> q_closed q)"

lemma readCur_items: "q_entries q = map fst xs \<Longrightarrow>
  readCur q = (case xs of [] \<Rightarrow> q_wrCur q | x # _ \<Rightarrow> pos (en_seg (fst x)) (en_off (fst x)))"
  by (cases xs) (simp_all add: readCur_def)

section \<open>Writing\<close>

lemma write_at_end: "k = length c \<Longrightarrow> write_at c k b = c @ b"
  by (simp add: write_at_def)

text \<open>A whole record written at the write position of a queue that satisfies the invariant.\<close>

lemma write_record_ok:
  assumes "q_wrOpen q" and "q_wrPos q = cur_off (q_wrCur q)"
    and "length (seg_bytes d (cur_seg (q_wrCur q))) = cur_off (q_wrCur q)"
  shows "write_handle None b (q, d) =
    (Inr (), q\<lparr>q_wrPos := q_wrPos q + length b\<rparr>,
     set_seg (cur_seg (q_wrCur q)) (seg_bytes d (cur_seg (q_wrCur q)) @ b) d)"
  using assms by (simp add: write_handle_def Let_def write_at_end)

lemma laid_roll:
  "laid d c xs w \<Longrightarrow> 0 < cur_off w \<Longrightarrow> cur_off w = length (seg_bytes d (cur_seg w)) \<Longrightarrow>
     laid d c xs (pos (cur_seg w + 1) 0)"
  by (induction xs arbitrary: c) (auto simp: hop_def)

lemma roll_ok:
  fixes now :: int
  assumes "spool_inv (q, d) xs" and "q_segBytes q \<le> cur_off (q_wrCur q)"
  defines "nxt \<equiv> cur_seg (q_wrCur q) + 1"
  defines "q1 \<equiv> q\<lparr>q_unsynced := 0, q_lastSync := now, q_files := List.insert nxt (q_files q),
    q_wrCur := pos nxt 0, q_wrPos := 0, q_wrOpen := True\<rparr>"
  shows "rollSegment True now (q, d) = (Inr (), q1, set_seg nxt [] d)"
    and "spool_inv (q1, set_seg nxt [] d) xs"
proof -
  note inv = assms(1) [unfolded spool_inv_def prod.case]
  let ?d1 = "set_seg nxt [] d"
  have nh: "\<not> has_seg d nxt" using inv unfolding nxt_def by force
  then have nf: "nxt \<notin> set (q_files q)" using inv by blast
  show "rollSegment True now (q, d) = (Inr (), q1, ?d1)"
    using inv nh nf
    by (simp add: rollSegment_def syncLocked_def openSegment_def openWrite_def fileFor_def Let_def q1_def nxt_def)
  have "extends (cur_seg (readCur q)) (cur_seg (q_wrCur q)) d ?d1" by (simp add: extends_def nxt_def)
  then have l: "laid ?d1 (readCur q) xs (q_wrCur q)" using inv laid_extends by blast
  have "0 < cur_off (q_wrCur q)" using inv assms(2) by linarith
  from laid_roll [OF l this] have l': "laid ?d1 (readCur q) xs (pos nxt 0)"
    using inv by (simp add: nxt_def)
  have "laid ?d1 (readCur q1) xs (q_wrCur q1)"
    using l' inv by (cases xs) (simp_all add: readCur_def q1_def hop_def)
  moreover have "cur_seg (readCur q) \<le> cur_seg (readCur q1)"
    using inv by (cases xs) (simp_all add: readCur_def q1_def nxt_def)
  moreover have "has_seg ?d1 s" if "cur_seg (readCur q1) \<le> s" "s \<le> nxt" for s
  proof (cases "s = nxt")
    case False
    then have "cur_seg (readCur q) \<le> s \<and> s \<le> cur_seg (q_wrCur q)"
      using that \<open>cur_seg (readCur q) \<le> cur_seg (readCur q1)\<close> by (simp add: nxt_def)
    then show ?thesis using inv by simp
  qed simp
  moreover have "has_seg ?d1 s \<Longrightarrow> s \<le> nxt" for s using inv by (auto simp: nxt_def)
  ultimately show "spool_inv (q1, ?d1) xs"
    using inv by (auto simp: spool_inv_def q1_def)
qed

text \<open>Appending one record to a queue that needs no roll.\<close>

lemma write_inv:
  assumes "spool_inv (q, d) xs" and "rc \<noteq> []" and "length rc < 2 ^ 32"
  defines "s \<equiv> cur_seg (q_wrCur q)"
  defines "d1 \<equiv> set_seg s (seg_bytes d s @ rec_bytes rc) d"
  defines "e \<equiv> \<lparr>en_seg = s, en_off = cur_off (q_wrCur q), en_n = length rc\<rparr>"
  defines "q1 \<equiv> q\<lparr>q_wrPos := q_wrPos q + length (rec_bytes rc), q_entries := q_entries q @ [e],
    q_wrCur := after e, q_bytes := q_bytes q + entry_span e\<rparr>"
  shows "spool_inv (q1, d1) (xs @ [(e, rc)])"
proof -
  note inv = assms(1) [unfolded spool_inv_def prod.case]
  have "extends (cur_seg (readCur q)) (cur_seg (q_wrCur q)) d d1" by (simp add: extends_def d1_def s_def)
  then have l: "laid d1 (readCur q) xs (q_wrCur q)" using inv laid_extends by blast
  have r: "rec_at d1 (e, rc)"
    using inv assms(2,3) by (simp add: rec_at_def e_def d1_def s_def entry_span_def)
  have w: "q_wrCur q = pos (en_seg e) (en_off e)" by (cases "q_wrCur q") (simp add: e_def s_def)
  have l': "laid d1 (readCur q) (xs @ [(e, rc)]) (after e)"
    using laid_snoc [OF l r] w by simp
  have "readCur q1 = readCur q" using inv w by (cases xs) (simp_all add: readCur_def q1_def)
  then show ?thesis
    using l' inv by (auto simp: spool_inv_def q1_def d1_def s_def e_def after_def entry_span_def)
qed

lemma readCur_upd:
  "readCur (q\<lparr>q_segMeta := m\<rparr>) = readCur q" "readCur (q\<lparr>q_unsynced := u\<rparr>) = readCur q"
  "readCur (q\<lparr>q_lastSync := t\<rparr>) = readCur q" "readCur (q\<lparr>q_dropped := k\<rparr>) = readCur q"
  "readCur (q\<lparr>q_ackSinceCS := k\<rparr>) = readCur q" "readCur (q\<lparr>q_nextIdx := k\<rparr>) = readCur q"
  "readCur (q\<lparr>q_files := fs\<rparr>) = readCur q"
  by (simp_all add: readCur_def split: list.split)

lemma spool_inv_upd [simp]:
  "spool_inv (q\<lparr>q_segMeta := m\<rparr>, d) xs = spool_inv (q, d) xs"
  "spool_inv (q\<lparr>q_unsynced := u\<rparr>, d) xs = spool_inv (q, d) xs"
  "spool_inv (q\<lparr>q_lastSync := t\<rparr>, d) xs = spool_inv (q, d) xs"
  "spool_inv (q\<lparr>q_dropped := k\<rparr>, d) xs = spool_inv (q, d) xs"
  "spool_inv (q\<lparr>q_ackSinceCS := k\<rparr>, d) xs = spool_inv (q, d) xs"
  "spool_inv (q, d\<lparr>dk_cursor := c\<rparr>) xs = spool_inv (q, d) xs"
  "spool_inv (q, d\<lparr>dk_idx := i\<rparr>) xs = spool_inv (q, d) xs"
proof -
  have b: "seg_bytes (d\<lparr>dk_cursor := c\<rparr>) = seg_bytes d" "seg_bytes (d\<lparr>dk_idx := i\<rparr>) = seg_bytes d"
    by (simp_all add: seg_bytes_def fun_eq_iff)
  have h: "has_seg (d\<lparr>dk_cursor := c\<rparr>) = has_seg d" "has_seg (d\<lparr>dk_idx := i\<rparr>) = has_seg d"
    by (simp_all add: has_seg_def fun_eq_iff)
  have r: "rec_at (d\<lparr>dk_cursor := c\<rparr>) x = rec_at d x" "rec_at (d\<lparr>dk_idx := i\<rparr>) x = rec_at d x" for x
    by (simp_all add: rec_at_def b)
  have p: "hop (d\<lparr>dk_cursor := c\<rparr>) x y = hop d x y" "hop (d\<lparr>dk_idx := i\<rparr>) x y = hop d x y" for x y
    by (simp_all add: hop_def b)
  have l: "laid (d\<lparr>dk_cursor := c\<rparr>) x ys y = laid d x ys y" "laid (d\<lparr>dk_idx := i\<rparr>) x ys y = laid d x ys y" for x ys y
    by (induction ys arbitrary: x) (simp_all add: r p)
  show "spool_inv (q, d\<lparr>dk_cursor := c\<rparr>) xs = spool_inv (q, d) xs"
    "spool_inv (q, d\<lparr>dk_idx := i\<rparr>) xs = spool_inv (q, d) xs"
    by (simp_all add: spool_inv_def b h l)
qed (simp_all add: spool_inv_def readCur_upd)

definition keeps :: "queue \<Rightarrow> queue \<Rightarrow> bool" where
  "keeps q q' \<longleftrightarrow> q_nextIdx q' = q_nextIdx q \<and> q_maxBytes q' = q_maxBytes q \<and> q_retention q' = q_retention q \<and>
     q_ackSinceCS q' = q_ackSinceCS q"

lemma writeRecord_inv:
  assumes "spool_inv (q, d) xs" and "rc \<noteq> []" and "length rc < 2 ^ 32"
  obtains q1 d1 d2 where "writeRecord None True now rc (q, d) = (Inr (), q1\<lparr>q_wrPos := q_wrPos q1 + length (rec_bytes rc)\<rparr>, d2)"
    and "spool_inv (q1, d1) xs" and "keeps q q1" and "q_bytes q1 = q_bytes q" and "dk_cursor d2 = dk_cursor d"
    and "d2 = set_seg (cur_seg (q_wrCur q1)) (seg_bytes d1 (cur_seg (q_wrCur q1)) @ rec_bytes rc) d1"
proof (cases "cur_off (q_wrCur q) \<ge> q_segBytes q")
  case False
  note inv = assms(1) [unfolded spool_inv_def prod.case]
  have "writeRecord None True now rc (q, d) = (Inr (), q\<lparr>q_wrPos := q_wrPos q + length (rec_bytes rc)\<rparr>,
      set_seg (cur_seg (q_wrCur q)) (seg_bytes d (cur_seg (q_wrCur q)) @ rec_bytes rc) d)"
    using False inv write_record_ok [of q d "rec_bytes rc"] by (simp add: writeRecord_def)
  from that [OF this assms(1)] show ?thesis by (simp add: keeps_def)
next
  case True
  define nxt where "nxt = cur_seg (q_wrCur q) + 1"
  define q1 where "q1 = q\<lparr>q_unsynced := 0, q_lastSync := now, q_files := List.insert nxt (q_files q),
    q_wrCur := pos nxt 0, q_wrPos := 0, q_wrOpen := True\<rparr>"
  note r = roll_ok [OF assms(1) True, of now, folded nxt_def, folded q1_def]
  note inv = r(2) [unfolded spool_inv_def prod.case]
  have "writeRecord None True now rc (q, d) = (Inr (), q1\<lparr>q_wrPos := q_wrPos q1 + length (rec_bytes rc)\<rparr>,
      set_seg (cur_seg (q_wrCur q1)) (seg_bytes (set_seg nxt [] d) (cur_seg (q_wrCur q1)) @ rec_bytes rc) (set_seg nxt [] d))"
    using True r(1) inv write_record_ok [of q1 "set_seg nxt [] d" "rec_bytes rc"] by (simp add: writeRecord_def del: seg_bytes_set)
  from that [OF this r(2)] show ?thesis by (simp add: keeps_def q1_def)
qed

lemma maybeSync_ok:
  "q_wrOpen q \<Longrightarrow> \<exists>u t. maybeSync True now w q = (Inr (), q\<lparr>q_unsynced := u, q_lastSync := t\<rparr>)"
proof (cases "q_unsynced q + w < syncEveryBytes \<and> now - q_lastSync q < syncEvery")
  case True
  have "q\<lparr>q_unsynced := q_unsynced q + w\<rparr> = q\<lparr>q_unsynced := q_unsynced q + w, q_lastSync := q_lastSync q\<rparr>"
    by (cases q) simp
  with True have "maybeSync True now w q = (Inr (), q\<lparr>q_unsynced := q_unsynced q + w, q_lastSync := q_lastSync q\<rparr>)"
    by (simp add: maybeSync_def Let_def)
  then show ?thesis by blast
next
  case False
  assume "q_wrOpen q"
  with False have "maybeSync True now w q = (Inr (), q\<lparr>q_unsynced := 0, q_lastSync := now\<rparr>)"
    by (auto simp: maybeSync_def syncLocked_def Let_def)
  then show ?thesis by blast
qed

lemma noteSegRecord_eq: "\<exists>m. noteSegRecord s ts now w q = q\<lparr>q_segMeta := m\<rparr>"
  unfolding noteSegRecord_def Let_def by (rule exI, rule refl)

text \<open>What \<open>Append\<close> does to a queue that satisfies the invariant, when the disk works.\<close>

lemma Append_inv:
  assumes "spool_inv (q, d) xs" and "marshal p = Some rc" and "rc \<noteq> []" and "length rc < 2 ^ 32"
  shows "(\<exists>q'. Append marshal stamp None True now p (q, d) = (Inl EFull, q', d) \<and> spool_inv (q', d) xs \<and> keeps q q' \<and>
        q_bytes q' = q_bytes q) \<or>
    (\<exists>e q' d'. Append marshal stamp None True now p (q, d) = (Inr (), q', d') \<and>
        spool_inv (q', d') (xs @ [(e, rc)]) \<and> keeps q q' \<and> q_bytes q' \<le> q_maxBytes q' \<and> dk_cursor d' = dk_cursor d)"
proof (cases "length rc > q_maxBytes q \<or> q_bytes q + (headerSize + length rc) > q_maxBytes q")
  case True
  have c: "\<not> q_closed q" using assms(1) by (simp add: spool_inv_def)
  show ?thesis
  proof (cases "length rc > q_maxBytes q")
    case True
    then show ?thesis using assms by (intro disjI1 exI [of _ q]) (simp add: Append_def keeps_def)
  next
    case False
    then show ?thesis
      using assms c True
      by (intro disjI1 exI [of _ "q\<lparr>q_dropped := q_dropped q + 1\<rparr>"]) (simp add: Append_def keeps_def Let_def)
  qed
next
  case False
  obtain q1 d1 d2 where w: "writeRecord None True now rc (q, d) = (Inr (), q1\<lparr>q_wrPos := q_wrPos q1 + length (rec_bytes rc)\<rparr>, d2)"
    and i1: "spool_inv (q1, d1) xs" and k: "keeps q q1" "q_bytes q1 = q_bytes q" "dk_cursor d2 = dk_cursor d"
    and d2: "d2 = set_seg (cur_seg (q_wrCur q1)) (seg_bytes d1 (cur_seg (q_wrCur q1)) @ rec_bytes rc) d1"
    using writeRecord_inv [OF assms(1,3,4)] by metis
  define e where "e = \<lparr>en_seg = cur_seg (q_wrCur q1), en_off = cur_off (q_wrCur q1), en_n = length rc\<rparr>"
  define q2 where "q2 = q1\<lparr>q_wrPos := q_wrPos q1 + length (rec_bytes rc), q_entries := q_entries q1 @ [e],
    q_wrCur := after e, q_bytes := q_bytes q1 + entry_span e\<rparr>"
  have i2: "spool_inv (q2, d2) (xs @ [(e, rc)])"
    using write_inv [OF i1 assms(3,4)] by (simp add: q2_def e_def d2)
  have open1: "q_wrOpen q1" "\<not> q_closed q" using i1 assms(1) by (simp_all add: spool_inv_def)
  have wc: "(q_wrCur q1)\<lparr>cur_off := cur_off (q_wrCur q1) + (headerSize + length rc)\<rparr> = after e"
    by (cases "q_wrCur q1") (simp add: e_def after_def entry_span_def)
  let ?q1w = "q1\<lparr>q_wrPos := q_wrPos q1 + length (rec_bytes rc)\<rparr>"
  obtain m where m: "noteSegRecord (cur_seg (q_wrCur ?q1w)) (stamp p) now (headerSize + length rc) ?q1w = ?q1w\<lparr>q_segMeta := m\<rparr>"
    using noteSegRecord_eq by blast
  have "q_wrOpen (q2\<lparr>q_segMeta := m\<rparr>)" using open1 by (simp add: q2_def)
  then obtain u t where s: "maybeSync True now (headerSize + length rc) (q2\<lparr>q_segMeta := m\<rparr>) =
      (Inr (), q2\<lparr>q_segMeta := m, q_unsynced := u, q_lastSync := t\<rparr>)"
    using maybeSync_ok by fastforce
  have q2: "?q1w\<lparr>q_segMeta := m, q_entries := q_entries q1 @ [e], q_wrCur := after e,
      q_bytes := q_bytes q1 + (headerSize + length rc)\<rparr> = q2\<lparr>q_segMeta := m\<rparr>"
    by (simp add: q2_def e_def entry_span_def)
  have "Append marshal stamp None True now p (q, d) =
      (Inr (), q2\<lparr>q_segMeta := m, q_unsynced := u, q_lastSync := t\<rparr>, d2)"
  proof -
    have "Append marshal stamp None True now p (q, d) =
      (let qn = noteSegRecord (cur_seg (q_wrCur ?q1w)) (stamp p) now (headerSize + length rc) ?q1w;
           (r, q4) = maybeSync True now (headerSize + length rc)
             (qn\<lparr>q_entries := q_entries qn @ [\<lparr>en_seg = cur_seg (q_wrCur qn), en_off = cur_off (q_wrCur qn), en_n = length rc\<rparr>],
                 q_wrCur := (q_wrCur qn)\<lparr>cur_off := cur_off (q_wrCur qn) + (headerSize + length rc)\<rparr>,
                 q_bytes := q_bytes qn + (headerSize + length rc)\<rparr>) in (r, q4, d2))"
      using False assms(2) w open1 by (simp add: Append_def Let_def)
    also have "\<dots> = (let (r, q4) = maybeSync True now (headerSize + length rc) (q2\<lparr>q_segMeta := m\<rparr>) in (r, q4, d2))"
      unfolding m Let_def using q2 wc by (simp add: e_def)
    finally show ?thesis by (simp add: s)
  qed
  moreover have "spool_inv (q2\<lparr>q_segMeta := m, q_unsynced := u, q_lastSync := t\<rparr>, d2) (xs @ [(e, rc)])" using i2 by simp
  ultimately show ?thesis
    using k False by (intro disjI2) (auto simp: keeps_def q2_def e_def entry_span_def)
qed

end
