(* ===== verification/Spool_Read.thy ===== *)
theory Spool_Read imports Spool_Inv begin

text \<open>
  Reading and confirming: \<open>Next\<close> returns the records after the delivered ones, \<open>AckN\<close> drops delivered
  records and the segments before them, and both keep the layout invariant.
\<close>

section \<open>Reading\<close>

lemma read_records_ok:
  "list_all (\<lambda>rc. length rc < 2 ^ 32 \<and> unmarshal rc \<noteq> None) rs \<Longrightarrow>
     read_records unmarshal (length rs) (concat (map rec_bytes rs)) = Inr (map (the \<circ> unmarshal) rs)"
proof (induction rs)
  case Nil
  then show ?case by simp
next
  case (Cons rc rs)
  have "be_val (take headerSize (rec_bytes rc @ r)) = length rc" for r
    using Cons.prems by (simp add: rec_bytes_def headerSize_def be_val_be_bytes)
  moreover have "drop headerSize (rec_bytes rc @ r) = rc @ r" for r
    by (simp add: rec_bytes_def headerSize_def)
  ultimately show ?case using Cons by auto
qed

text \<open>The records of one batch lie next to each other.\<close>

definition in_seg :: "nat \<Rightarrow> item \<Rightarrow> bool" where
  "in_seg s x \<longleftrightarrow> en_seg (fst x) = s"

lemma batch_bytes:
  "laid d (pos s k) ys w \<Longrightarrow> bs = takeWhile (in_seg s) (take n ys) \<Longrightarrow>
     (bs \<noteq> [] \<longrightarrow> k + sum_list (map (entry_span \<circ> fst) bs) \<le> length (seg_bytes d s)) \<and>
     take (sum_list (map (entry_span \<circ> fst) bs)) (drop k (seg_bytes d s)) = concat (map (rec_bytes \<circ> snd) bs) \<and>
     list_all (\<lambda>x. length (snd x) < 2 ^ 32) bs"
proof (induction ys arbitrary: k n bs)
  case Nil
  then show ?case by simp
next
  case (Cons x ys)
  show ?case
  proof (cases "n = 0 \<or> \<not> in_seg s x")
    case True
    then show ?thesis using Cons.prems(2) by (cases n) auto
  next
    case False
    then obtain m where n: "n = Suc m" and s: "en_seg (fst x) = s" by (cases n) (auto simp: in_seg_def)
    let ?bs = "takeWhile (in_seg s) (take m ys)"
    have bs: "bs = x # ?bs" using Cons.prems(2) n False by simp
    have o: "en_off (fst x) = k" using Cons.prems(1) s hop_seg [of d "pos s k"] by fastforce
    have r: "rec_at d x" and l: "laid d (pos s (k + entry_span (fst x))) ys w"
      using Cons.prems(1) s o by (simp_all add: after_def)
    note IH = Cons.IH [OF l refl, of m]
    have "take (entry_span (fst x)) (drop k (seg_bytes d s)) = rec_bytes (snd x)"
      using r s o by (simp add: rec_at_def)
    then have "take (entry_span (fst x) + j) (drop k (seg_bytes d s)) =
        rec_bytes (snd x) @ take j (drop (k + entry_span (fst x)) (seg_bytes d s))" for j
      unfolding take_add drop_drop by (simp add: add.commute)
    then show ?thesis
      using IH r s o by (cases "?bs = []") (auto simp: bs rec_at_def add.assoc)
  qed
qed

lemma fileFor_inv:
  assumes "spool_inv (q, d) xs" and "has_seg d s"
  shows "\<exists>fs. fileFor s (q, d) = (Inr (), q\<lparr>q_files := fs\<rparr>, d) \<and> spool_inv (q\<lparr>q_files := fs\<rparr>, d) xs"
proof (cases "s \<in> set (q_files q)")
  case True
  then show ?thesis using assms by (intro exI [of _ "q_files q"]) (simp add: fileFor_def)
next
  case False
  then show ?thesis using assms
    by (intro exI [of _ "s # q_files q"]) (auto simp: fileFor_def spool_inv_def readCur_upd)
qed

lemma Next_inv:
  assumes i: "spool_inv (q, d) xs" and u: "list_all (\<lambda>x. unmarshal (snd x) \<noteq> None) xs"
  shows "\<exists>m q'. Next unmarshal n0 (q, d) = (Inr (map (the \<circ> unmarshal \<circ> snd) (take m (drop (q_nextIdx q) xs))), q', d) \<and>
    spool_inv (q', d) xs \<and> q_nextIdx q' = q_nextIdx q + m \<and> m \<le> length xs - q_nextIdx q \<and>
    m \<le> (if n0 \<le> 0 then 1 else nat n0) \<and> (q_nextIdx q < length xs \<longrightarrow> 0 < m) \<and> keeps (q'\<lparr>q_nextIdx := q_nextIdx q\<rparr>) q"
proof (cases "drop (q_nextIdx q) xs")
  case Nil
  then have "drop (q_nextIdx q) (q_entries q) = []" using i by (simp add: spool_inv_def)
  then show ?thesis using Nil i
    by (intro exI [of _ 0] exI [of _ q]) (simp add: Next_def Let_def keeps_def)
next
  case (Cons h t)
  note inv = i [unfolded spool_inv_def prod.case]
  define k where "k = q_nextIdx q"
  define n where "n = (if n0 \<le> 0 then 1 else nat n0)"
  define s where "s = en_seg (fst h)"
  define bs where "bs = takeWhile (in_seg s) (take n (drop k xs))"
  have kl: "k < length xs" using Cons unfolding k_def by (metis drop_all list.discI not_less)
  have hk: "xs ! k = h" using Cons unfolding k_def by (rule nth_via_drop)
  have pend: "drop k (q_entries q) = map fst (drop k xs)" using inv by (simp add: drop_map)
  have l: "laid d (pos s (en_off (fst h))) (drop k xs) w" if "w = q_wrCur q" for w
    using laid_drop [of d "readCur q" xs "q_wrCur q" k] kl inv hk that by (simp add: s_def)
  note b = batch_bytes [OF l [OF refl] bs_def]
  have n1: "0 < n" by (simp add: n_def)
  then have ne: "bs \<noteq> []" using Cons by (cases n) (auto simp: bs_def k_def s_def in_seg_def)
  have batch: "takeWhile (\<lambda>e. en_seg e = en_seg (fst h)) (take n (map fst (drop k xs))) = map fst bs"
    by (simp add: bs_def take_map takeWhile_map comp_def in_seg_def [abs_def] s_def)
  have lb: "length bs \<le> length (take n (drop k xs))" unfolding bs_def by (rule length_takeWhile_le)
  then have len: "length bs \<le> length xs - k" "length bs \<le> n" by simp_all
  have "bs = take (length bs) (take n (drop k xs))" unfolding bs_def by (rule takeWhile_eq_take)
  then have m: "bs = take (length bs) (drop k xs)" using len(2) by (simp add: min_absorb1)
  have hs: "has_seg d s"
  proof -
    have "cur_seg (readCur q) \<le> s \<and> s \<le> cur_seg (q_wrCur q)"
      using laid_seg_all [of d "readCur q" xs "q_wrCur q" h] inv hk kl nth_mem [OF kl] by (simp add: s_def)
    then show ?thesis using inv by blast
  qed
  obtain fs where f: "fileFor s (q, d) = (Inr (), q\<lparr>q_files := fs\<rparr>, d)" and fi: "spool_inv (q\<lparr>q_files := fs\<rparr>, d) xs"
    using fileFor_inv [OF i hs] by blast
  have sub: "set bs \<subseteq> set xs" by (subst m) (meson order_trans set_drop_subset set_take_subset)
  have rr: "read_records unmarshal (length bs) (concat (map (rec_bytes \<circ> snd) bs)) = Inr (map (the \<circ> unmarshal \<circ> snd) bs)"
    using read_records_ok [of unmarshal "map snd bs"] b u sub by (auto simp: list_all_iff comp_def)
  define span where "span = sum_list (map (entry_span \<circ> fst) bs)"
  have e1: "drop (q_nextIdx q) (q_entries q) = fst h # map fst t" using pend Cons by (simp add: k_def)
  have e2: "takeWhile (\<lambda>e. en_seg e = s) (take n (fst h # map fst t)) = map fst bs"
    using batch Cons by (simp add: k_def s_def)
  have e3: "sum_list (map entry_span (map fst bs)) = span" by (simp add: span_def)
  have e4: "\<not> length (seg_bytes d s) < en_off (fst h) + span" using b ne by (simp add: span_def not_less)
  have e5: "take span (drop (en_off (fst h)) (seg_bytes d s)) = concat (map (rec_bytes \<circ> snd) bs)"
    using b by (simp add: span_def)
  have nx: "Next unmarshal n0 (q, d) = (Inr (map (the \<circ> unmarshal \<circ> snd) bs), q\<lparr>q_files := fs, q_nextIdx := k + length bs\<rparr>, d)"
    unfolding Next_def fst_conv n_def [symmetric] Let_def e1 list.case s_def [symmetric] e2 e3 f prod.case sum.case e5 length_map rr
    using e4 rr by (simp add: k_def e5)
  show ?thesis
    using nx m fi ne kl len
    by (intro exI [of _ "length bs"] exI [of _ "q\<lparr>q_files := fs, q_nextIdx := k + length bs\<rparr>"])
      (auto simp: k_def n_def spool_inv_def keeps_def readCur_upd)
qed

section \<open>Confirming\<close>

lemma fold_drop_readCur: "readCur (fst (fold dropSegment ss (q, d))) = readCur q"
  by (simp add: fold_drop readCur_def split: list.split)

text \<open>Removing segments before the read position keeps the invariant.\<close>

lemma fold_drop_inv:
  assumes i: "spool_inv (q, d) xs" and low: "\<forall>s \<in> set ss. s < cur_seg (readCur q)"
  shows "spool_inv (fold dropSegment ss (q, d)) xs"
proof -
  note inv = i [unfolded spool_inv_def prod.case]
  obtain q1 d1 where f: "fold dropSegment ss (q, d) = (q1, d1)" by (cases "fold dropSegment ss (q, d)") auto
  have w: "cur_seg (readCur q) \<le> cur_seg (q_wrCur q)" using inv laid_seg by blast
  then have nw: "cur_seg (q_wrCur q) \<notin> set ss" using low by force
  have sb: "seg_bytes d1 s = (if s \<in> set ss then [] else seg_bytes d s)" for s
    using seg_bytes_drop [of ss q d s] f by simp
  have hs: "has_seg d1 s \<longleftrightarrow> s \<notin> set ss \<and> has_seg d s" for s
    using has_seg_drop [of ss q d s] f by simp
  have r: "readCur q1 = readCur q" using fold_drop_readCur [of ss q d] f by simp
  have "extends (cur_seg (readCur q)) (cur_seg (q_wrCur q)) d d1"
    using nw low by (auto simp: extends_def sb)
  then have l: "laid d1 (readCur q) xs (q_wrCur q)" using inv laid_extends by blast
  have q1: "q1 = fst (fold dropSegment ss (q, d))" by (simp add: f)
  have "has_seg d1 s" if "cur_seg (readCur q) \<le> s" "s \<le> cur_seg (q_wrCur q)" for s
    using that low inv by (auto simp: hs)
  moreover have "length (seg_bytes d1 (cur_seg (q_wrCur q))) = cur_off (q_wrCur q)" using inv nw by (simp add: sb)
  ultimately show ?thesis
    using inv l r nw unfolding f spool_inv_def prod.case
    by (simp add: q1 fold_drop hs)
qed

lemma cleanup_inv:
  assumes "spool_inv (q, d) xs"
  shows "spool_inv (cleanup (q, d)) xs \<and> q_nextIdx (fst (cleanup (q, d))) = q_nextIdx q \<and>
    q_entries (fst (cleanup (q, d))) = q_entries q \<and>
    dk_cursor (snd (cleanup (q, d))) = dk_cursor d \<and> q_maxBytes (fst (cleanup (q, d))) = q_maxBytes q \<and>
    q_retention (fst (cleanup (q, d))) = q_retention q \<and> q_ackSinceCS (fst (cleanup (q, d))) = q_ackSinceCS q"
proof (cases "q_retention q")
  case (Some a)
  then show ?thesis using assms by (simp add: cleanup_def)
next
  case None
  then show ?thesis
    using fold_drop_inv [OF assms, of "filter (\<lambda>s. s < cur_seg (readCur q)) (q_files q)"]
    by (simp add: cleanup_def) (simp add: fold_drop)
qed

definition acked :: "int \<Rightarrow> queue \<Rightarrow> nat" where
  "acked n q = min (nat n) (q_nextIdx q)"

text \<open>The queue after the records are dropped from its index, before the segments are.\<close>

definition ack_drop :: "nat \<Rightarrow> queue \<Rightarrow> queue" where
  "ack_drop m q = q\<lparr>q_bytes := q_bytes q - sum_list (map entry_span (take m (q_entries q))),
     q_entries := drop m (q_entries q), q_nextIdx := q_nextIdx q - m, q_ackSinceCS := q_ackSinceCS q + m\<rparr>"

lemma ack_drop_sel [simp]:
  "q_wrCur (ack_drop m q) = q_wrCur q" "q_wrPos (ack_drop m q) = q_wrPos q" "q_wrOpen (ack_drop m q) = q_wrOpen q"
  "q_files (ack_drop m q) = q_files q" "q_segBytes (ack_drop m q) = q_segBytes q" "q_closed (ack_drop m q) = q_closed q"
  "q_nextIdx (ack_drop m q) = q_nextIdx q - m" "q_maxBytes (ack_drop m q) = q_maxBytes q"
  "q_retention (ack_drop m q) = q_retention q" "q_entries (ack_drop m q) = drop m (q_entries q)"
  by (simp_all add: ack_drop_def)

lemma AckN_eq:
  "AckN n (q, d) = (if acked n q = 0 then (q, d)
     else cleanup (if q_ackSinceCS q + acked n q \<ge> cursorSyncEvery then persistCursor (ack_drop (acked n q) q, d)
                   else (ack_drop (acked n q) q, d)))"
proof -
  have "(if n > int (q_nextIdx q) then q_nextIdx q else nat n) = acked n q"
    by (auto simp: acked_def min_def)
  then show ?thesis unfolding AckN_def prod.case by (simp only: Let_def) (simp add: ack_drop_def)
qed

lemma ack_drop_inv:
  assumes i: "spool_inv (q, d) xs" and m: "m \<le> q_nextIdx q"
  shows "spool_inv (ack_drop m q, d) (drop m xs) \<and> cur_seg (readCur q) \<le> cur_seg (readCur (ack_drop m q))"
proof -
  note inv = i [unfolded spool_inv_def prod.case]
  have L: "laid d (readCur q) xs (q_wrCur q)" using inv by blast
  have ml: "m \<le> length xs" using inv m by linarith
  have es: "q_entries (ack_drop m q) = map fst (drop m xs)" using inv by (simp add: ack_drop_def drop_map)
  have r: "readCur (ack_drop m q) = (if m < length xs then pos (en_seg (fst (xs ! m))) (en_off (fst (xs ! m))) else q_wrCur q)"
    unfolding readCur_items [OF es] by (cases "m < length xs") (simp_all add: Cons_nth_drop_Suc [symmetric] ack_drop_def)
  have l: "laid d (readCur (ack_drop m q)) (drop m xs) (q_wrCur q)"
    using laid_drop [of d "readCur q" xs "q_wrCur q" m] L by (simp add: r hop_def)
  have s: "cur_seg (readCur q) \<le> cur_seg (readCur (ack_drop m q))"
    using laid_seg_all [OF L, of "xs ! m"] laid_seg [OF L] by (simp add: r)
  have "sum_list (map entry_span (q_entries q)) =
      sum_list (map entry_span (take m (q_entries q))) + sum_list (map entry_span (drop m (q_entries q)))"
    by (metis append_take_drop_id map_append sum_list_append)
  then have b: "q_bytes (ack_drop m q) = sum_list (map entry_span (q_entries (ack_drop m q)))"
    using inv by (simp add: ack_drop_def)
  have h: "\<forall>x. cur_seg (readCur (ack_drop m q)) \<le> x \<longrightarrow> x \<le> cur_seg (q_wrCur q) \<longrightarrow> has_seg d x"
    using inv order_trans [OF s] by blast
  have z: "0 < cur_seg (readCur (ack_drop m q))" using inv s by linarith
  have n: "q_nextIdx q - m \<le> length (drop m xs)" using inv by (simp add: diff_le_mono)
  show ?thesis
    unfolding spool_inv_def prod.case ack_drop_sel(1-8) using inv l s b es h n z by blast
qed

lemma AckN_inv:
  assumes i: "spool_inv (q, d) xs"
  shows "spool_inv (AckN n (q, d)) (drop (acked n q) xs) \<and>
    q_nextIdx (fst (AckN n (q, d))) = q_nextIdx q - acked n q \<and>
    q_maxBytes (fst (AckN n (q, d))) = q_maxBytes q \<and> q_retention (fst (AckN n (q, d))) = q_retention q"
proof (cases "acked n q = 0")
  case True
  then show ?thesis using i by (simp add: AckN_eq)
next
  case False
  let ?q1 = "ack_drop (acked n q) q"
  have i1: "spool_inv (?q1, d) (drop (acked n q) xs)" using ack_drop_inv [OF i, of "acked n q"] by (simp add: acked_def)
  then have i2: "spool_inv (persistCursor (?q1, d)) (drop (acked n q) xs)" by (simp add: persistCursor_def)
  show ?thesis
    using cleanup_inv [OF i1] cleanup_inv [OF i2 [unfolded persistCursor_def prod.case]] False
    by (simp add: AckN_eq persistCursor_def)
qed

lemma Requeue_inv: "spool_inv (q, d) xs \<Longrightarrow> spool_inv (Requeue (q, d)) xs \<and> q_nextIdx (fst (Requeue (q, d))) = 0"
  by (simp add: Requeue_def spool_inv_def readCur_upd)

end
