(* ===== verification/Spool_Recover.thy ===== *)
theory Spool_Recover imports Spool_Read begin

text \<open>
  Reopening a spool directory: the scan rebuilds the index of the records laid out from the stored
  cursor, and cuts off a torn tail.
\<close>

section \<open>Scanning\<close>

text \<open>Bytes that are not a whole record: what a crash in the middle of a write leaves.\<close>

definition torn :: "byte list \<Rightarrow> bool" where
  "torn t \<longleftrightarrow> t \<noteq> [] \<and> (length t < headerSize \<or> be_val (take headerSize t) = 0 \<or>
     length t < headerSize + be_val (take headerSize t))"

definition add_entry :: "entry \<Rightarrow> queue \<Rightarrow> queue" where
  "add_entry e q = q\<lparr>q_entries := q_entries q @ [e], q_bytes := q_bytes q + entry_span e\<rparr>"

lemma be_val_head: "length rc < 2 ^ 32 \<Longrightarrow> take (headerSize + length rc) xs = rec_bytes rc \<Longrightarrow>
  be_val (take headerSize xs) = length rc"
proof -
  assume l: "length rc < 2 ^ 32" and t: "take (headerSize + length rc) xs = rec_bytes rc"
  have "take headerSize xs = take headerSize (take (headerSize + length rc) xs)" by (simp add: min_def)
  also have "\<dots> = be_bytes 4 (length rc)" unfolding t by (simp add: rec_bytes_def headerSize_def)
  finally show ?thesis using l by (simp add: be_val_be_bytes)
qed

text \<open>One whole record, one hop to the next segment, and the two ends of a scan.\<close>

lemma scan_one_rec:
  assumes r: "rec_at d x" and s: "s = en_seg (fst x)" and o: "k = en_off (fst x)"
  shows "scan_one (seg_bytes d s) s k =
    (let (es, j, eof) = scan_one (seg_bytes d s) s (k + entry_span (fst x)) in (fst x # es, j, eof))"
proof -
  let ?c = "seg_bytes d s"
  define n where "n = length (snd x)"
  have e: "fst x = \<lparr>en_seg = s, en_off = k, en_n = n\<rparr>" using r s o by (simp add: rec_at_def n_def)
  have sp: "entry_span (fst x) = headerSize + n" by (simp add: e entry_span_def)
  have b: "k + (headerSize + n) \<le> length ?c" and n0: "n \<noteq> 0" and n32: "n < 2 ^ 32"
    and t: "take (headerSize + n) (drop k ?c) = rec_bytes (snd x)"
    using r unfolding rec_at_def s [symmetric] o [symmetric] sp by (simp_all add: n_def)
  have h: "be_val (take headerSize (drop k ?c)) = n"
    using be_val_head [of "snd x" "drop k ?c"] n32 t by (simp add: n_def)
  have one: "scanSegment ?c s k = (let (es, j, eof) = scanSegment ?c s (k + (headerSize + n)) in (fst x # es, j, eof))"
    using b n0 by (subst scanSegment.simps) (simp add: h e add.assoc)
  have eq: "scan_one ?c s (k + (headerSize + n)) = scanSegment ?c s (k + (headerSize + n))"
  proof (cases "k + (headerSize + n) = length ?c")
    case True
    then show ?thesis by (subst scanSegment.simps) (simp add: scan_one_def headerSize_def)
  next
    case False
    then show ?thesis using b by (simp add: scan_one_def)
  qed
  have "k < length ?c" using b by (simp add: headerSize_def)
  then have "scan_one ?c s k = scanSegment ?c s k" by (simp add: scan_one_def)
  also note one
  also have "scanSegment ?c s (k + (headerSize + n)) = scan_one ?c s (k + (headerSize + n))" by (rule eq [symmetric])
  finally show ?thesis by (simp add: sp)
qed

lemma fileFor_cached: "fileFor s st = (Inr (), q1, d1) \<Longrightarrow> fileFor s (q1\<lparr>q_entries := es, q_bytes := b\<rparr>, d1) = (Inr (), q1\<lparr>q_entries := es, q_bytes := b\<rparr>, d1)"
  by (cases st) (auto simp: fileFor_def split: if_splits)

lemma scanFrom_rec:
  assumes "rec_at d x" and "s = en_seg (fst x)" and "k = en_off (fst x)" and "fileFor s (q, d) = (Inr (), q1, d)"
  shows "scanFrom s k (q, d) = scanFrom s (k + entry_span (fst x)) (add_entry (fst x) q1, d)"
proof -
  obtain es j eof where sc: "scan_one (seg_bytes d s) s (k + entry_span (fst x)) = (es, j, eof)"
    by (cases "scan_one (seg_bytes d s) s (k + entry_span (fst x))") auto
  have f: "fileFor s (add_entry (fst x) q1, d) = (Inr (), add_entry (fst x) q1, d)"
    unfolding add_entry_def by (rule fileFor_cached [OF assms(4)])
  show ?thesis
    unfolding scanFrom.simps [of s k] scanFrom.simps [of s "k + entry_span (fst x)"]
    unfolding assms(4) f sum.case prod.case scan_one_rec [OF assms(1-3)] sc Let_def
    by (simp add: add_entry_def add.assoc)
qed

lemma scanFrom_end:
  assumes "k = length (seg_bytes d s)" and "fileFor s (q, d) = (Inr (), q1, d)"
  shows "scanFrom s k (q, d) = (if has_seg d (s + 1) then scanFrom (s + 1) 0 (q1, d) else (Inr (), q1, d))"
proof -
  have "scan_one (seg_bytes d s) s k = ([], k, True)" using assms(1) by (simp add: scan_one_def)
  then show ?thesis by (subst scanFrom.simps) (simp add: assms(2))
qed

lemma scanFrom_torn:
  assumes "torn (drop k (seg_bytes d s))" and "fileFor s (q, d) = (Inr (), q1, d)"
  shows "scanFrom s k (q, d) = openWrite (q1\<lparr>q_wrCur := pos s k\<rparr>, set_seg s (take k (seg_bytes d s)) d)"
proof -
  let ?c = "seg_bytes d s"
  have k: "k < length ?c" using assms(1) by (simp add: torn_def)
  have "scanSegment ?c s k = ([], k, False)"
  proof (cases "k + headerSize \<le> length ?c")
    case True
    then have "be_val (take headerSize (drop k ?c)) = 0 \<or> k + headerSize + be_val (take headerSize (drop k ?c)) > length ?c"
      using assms(1) by (auto simp: torn_def)
    then show ?thesis using True by (subst scanSegment.simps) (simp add: Let_def)
  next
    case False
    then show ?thesis using k by (subst scanSegment.simps) simp
  qed
  then have "scan_one ?c s k = ([], k, False)" using k by (simp add: scan_one_def)
  then show ?thesis by (subst scanFrom.simps) (simp add: assms(2))
qed

text \<open>The result of a scan: the queue after the index is rebuilt.\<close>

definition indexed :: "nat list \<Rightarrow> item list \<Rightarrow> queue \<Rightarrow> queue" where
  "indexed fs xs q = q\<lparr>q_files := fs, q_entries := q_entries q @ map fst xs,
     q_bytes := q_bytes q + sum_list (map (entry_span \<circ> fst) xs)\<rparr>"

definition scan_result :: "cursor \<Rightarrow> spool \<Rightarrow> (spool_err + unit) \<times> spool" where
  "scan_result w st = (case st of (q, d) \<Rightarrow>
     if drop (cur_off w) (seg_bytes d (cur_seg w)) = [] then (Inr (), st)
     else openWrite (q\<lparr>q_wrCur := w\<rparr>, set_seg (cur_seg w) (take (cur_off w) (seg_bytes d (cur_seg w))) d))"

definition all_segs :: "disk \<Rightarrow> nat \<Rightarrow> nat \<Rightarrow> bool" where
  "all_segs d lo hi \<longleftrightarrow> (\<forall>s. lo \<le> s \<longrightarrow> s \<le> hi \<longrightarrow> has_seg d s)"

definition good_files :: "nat list \<Rightarrow> queue \<Rightarrow> disk \<Rightarrow> bool" where
  "good_files fs q d \<longleftrightarrow> set (q_files q) \<subseteq> set fs \<and> (\<forall>s \<in> set fs. s \<in> set (q_files q) \<or> has_seg d s)"

lemma fileFor_has:
  "has_seg d s \<Longrightarrow> \<exists>fs. fileFor s (q, d) = (Inr (), q\<lparr>q_files := fs\<rparr>, d) \<and> s \<in> set fs \<and> good_files fs q d"
  by (cases "s \<in> set (q_files q)")
    (auto simp: fileFor_def good_files_def intro: exI [of _ "q_files q"] exI [of _ "s # q_files q"])

lemma good_files_trans: "good_files fs q d \<Longrightarrow> good_files gs (q\<lparr>q_files := fs\<rparr>) d \<Longrightarrow> good_files gs q d"
  by (auto simp: good_files_def)

lemma scan_hop:
  assumes "hop d c c'" and "all_segs d (cur_seg c) (cur_seg c')"
  shows "\<exists>fs. scanFrom (cur_seg c) (cur_off c) (q, d) = scanFrom (cur_seg c') (cur_off c') (q\<lparr>q_files := fs\<rparr>, d) \<and>
    good_files fs q d"
proof (cases "c' = c")
  case True
  then show ?thesis by (intro exI [of _ "q_files q"]) (simp add: good_files_def)
next
  case False
  then have c': "c' = pos (cur_seg c + 1) 0" and o: "cur_off c = length (seg_bytes d (cur_seg c))"
    using assms(1) by (auto simp: hop_def)
  have hs: "has_seg d (cur_seg c)" and hs': "has_seg d (cur_seg c + 1)"
    using assms(2) by (simp_all add: all_segs_def c')
  obtain fs where f: "fileFor (cur_seg c) (q, d) = (Inr (), q\<lparr>q_files := fs\<rparr>, d)" and g: "good_files fs q d"
    using fileFor_has [OF hs] by blast
  show ?thesis using scanFrom_end [OF o f] hs' g by (intro exI [of _ fs]) (simp add: c')
qed

lemma scan_laid:
  assumes "laid d c xs w" and "drop (cur_off w) (seg_bytes d (cur_seg w)) = [] \<or> torn (drop (cur_off w) (seg_bytes d (cur_seg w)))"
    and "cur_off w \<le> length (seg_bytes d (cur_seg w))" and "\<not> has_seg d (cur_seg w + 1)" and "all_segs d (cur_seg c) (cur_seg w)"
  shows "\<exists>fs. scanFrom (cur_seg c) (cur_off c) (q, d) = scan_result w (indexed fs xs q, d) \<and>
    cur_seg w \<in> set fs \<and> good_files fs q d"
  using assms(1,5)
proof (induction xs arbitrary: c q)
  case Nil
  have "hop d c w" using Nil.prems(1) by simp
  then obtain fs where h: "scanFrom (cur_seg c) (cur_off c) (q, d) = scanFrom (cur_seg w) (cur_off w) (q\<lparr>q_files := fs\<rparr>, d)"
    and g: "good_files fs q d" using scan_hop Nil.prems(2) by blast
  have "has_seg d (cur_seg w)" using Nil.prems laid_seg [of d c "[]" w] by (simp add: all_segs_def)
  then obtain gs where f: "fileFor (cur_seg w) (q\<lparr>q_files := fs\<rparr>, d) = (Inr (), q\<lparr>q_files := gs\<rparr>, d)"
    and w: "cur_seg w \<in> set gs" and g': "good_files gs (q\<lparr>q_files := fs\<rparr>) d"
    using fileFor_has [of d "cur_seg w" "q\<lparr>q_files := fs\<rparr>"] by auto
  have i: "indexed gs [] q = q\<lparr>q_files := gs\<rparr>" by (simp add: indexed_def)
  have "scanFrom (cur_seg w) (cur_off w) (q\<lparr>q_files := fs\<rparr>, d) = scan_result w (indexed gs [] q, d)"
  proof (cases "drop (cur_off w) (seg_bytes d (cur_seg w)) = []")
    case True
    then have "cur_off w = length (seg_bytes d (cur_seg w))" using assms(3) by simp
    from scanFrom_end [OF this f] show ?thesis using True assms(4) by (simp add: scan_result_def i)
  next
    case False
    then have t: "torn (drop (cur_off w) (seg_bytes d (cur_seg w)))" using assms(2) by blast
    from scanFrom_torn [OF t f] show ?thesis using False by (cases w) (simp add: scan_result_def i)
  qed
  then show ?case using h w good_files_trans [OF g g'] by auto
next
  case (Cons x xs)
  let ?c' = "pos (en_seg (fst x)) (en_off (fst x))"
  have hp: "hop d c ?c'" and r: "rec_at d x" and l: "laid d (after (fst x)) xs w" using Cons.prems(1) by simp_all
  have seg: "cur_seg c \<le> en_seg (fst x)" "en_seg (fst x) \<le> cur_seg w"
    using laid_seg_all [OF Cons.prems(1), of x] by simp_all
  have "all_segs d (cur_seg c) (cur_seg ?c')" using Cons.prems(2) seg by (simp add: all_segs_def)
  from scan_hop [OF hp this] obtain fs where
    h: "scanFrom (cur_seg c) (cur_off c) (q, d) = scanFrom (en_seg (fst x)) (en_off (fst x)) (q\<lparr>q_files := fs\<rparr>, d)"
    and g: "good_files fs q d" by auto
  have "has_seg d (en_seg (fst x))" using Cons.prems(2) seg by (simp add: all_segs_def)
  then obtain gs where f: "fileFor (en_seg (fst x)) (q\<lparr>q_files := fs\<rparr>, d) = (Inr (), q\<lparr>q_files := gs\<rparr>, d)"
    and g': "good_files gs (q\<lparr>q_files := fs\<rparr>) d"
    using fileFor_has [of d "en_seg (fst x)" "q\<lparr>q_files := fs\<rparr>"] by auto
  let ?q1 = "add_entry (fst x) (q\<lparr>q_files := gs\<rparr>)"
  have "all_segs d (cur_seg (after (fst x))) (cur_seg w)" using Cons.prems(2) seg by (simp add: all_segs_def after_def)
  from Cons.IH [OF l this, of ?q1] obtain hs where
    s: "scanFrom (en_seg (fst x)) (en_off (fst x) + entry_span (fst x)) (?q1, d) = scan_result w (indexed hs xs ?q1, d)"
    and w: "cur_seg w \<in> set hs" and g'': "good_files hs ?q1 d" by (auto simp: after_def)
  have i: "indexed hs xs ?q1 = indexed hs (x # xs) q" by (simp add: indexed_def add_entry_def)
  have "good_files hs (q\<lparr>q_files := gs\<rparr>) d" using g'' by (simp add: good_files_def add_entry_def)
  then have "good_files hs q d" using good_files_trans [OF good_files_trans [OF g g']] by (simp add: good_files_def)
  then show ?case using h s w scanFrom_rec [OF r refl refl f] by (auto simp: i)
qed

section \<open>Recovery\<close>

text \<open>A directory with the records \<open>xs\<close> between the stored cursor \<open>c\<close> and the end \<open>w\<close> of the last segment,
  and possibly a torn record after them.\<close>

definition stored :: "disk \<Rightarrow> cursor \<Rightarrow> item list \<Rightarrow> cursor \<Rightarrow> bool" where
  "stored d c xs w \<longleftrightarrow> laid d c xs w \<and> 0 < cur_seg c \<and> all_segs d (cur_seg c) (cur_seg w) \<and>
     (\<forall>s. has_seg d s \<longrightarrow> s \<le> cur_seg w) \<and> cur_off w \<le> length (seg_bytes d (cur_seg w)) \<and>
     (let t = drop (cur_off w) (seg_bytes d (cur_seg w)) in t = [] \<or> torn t)"

definition start_cursor :: "disk \<Rightarrow> cursor" where
  "start_cursor d = (case loadCursor d of Some c \<Rightarrow> c | None \<Rightarrow> pos 1 0)"

lemma last_segment:
  assumes "has_seg d m" and "\<forall>s. has_seg d s \<longrightarrow> s \<le> m"
  shows "listSegments d \<noteq> [] \<and> last (listSegments d) = m"
proof -
  have h: "has_seg d s \<longleftrightarrow> s \<in> set (listSegments d)" for s
    unfolding has_seg_def listSegments_def by (simp add: map_of_eq_None_iff)
  have ne: "listSegments d \<noteq> []" using assms(1) h by auto
  have srt: "sorted (listSegments d)" by (simp add: listSegments_def)
  have "\<forall>x \<in> set xs. x \<le> last xs" if "sorted xs" for xs :: "nat list"
    using that by (induction xs rule: rev_induct) (auto simp: sorted_append)
  from this [OF srt] have "\<forall>x \<in> set (listSegments d). x \<le> last (listSegments d)" .
  then have "m \<le> last (listSegments d)" using assms(1) h by blast
  moreover have "last (listSegments d) \<le> m" using assms(2) h last_in_set [OF ne] by blast
  ultimately show ?thesis using ne by simp
qed

text \<open>Cutting the last segment at the end of the last record keeps the layout.\<close>

lemma laid_off: "laid d c xs w \<Longrightarrow> cur_seg c = cur_seg w \<Longrightarrow> cur_off c \<le> cur_off w"
proof (induction xs arbitrary: c)
  case Nil
  then show ?case using hop_seg [of d c w] by auto
next
  case (Cons x xs)
  have "en_seg (fst x) = cur_seg w" using laid_seg_all [OF Cons.prems(1), of x] Cons.prems(2) by simp
  moreover have "hop d c (pos (en_seg (fst x)) (en_off (fst x)))" "laid d (after (fst x)) xs w"
    using Cons.prems(1) by simp_all
  ultimately have "en_off (fst x) = cur_off c" "cur_off (after (fst x)) \<le> cur_off w"
    using Cons.prems(2) hop_seg [of d c "pos (en_seg (fst x)) (en_off (fst x))"] Cons.IH [of "after (fst x)"]
    by (fastforce simp: after_def)+
  then show ?case by (simp add: after_def)
qed

lemma laid_trunc:
  assumes "laid d c xs w"
  shows "laid (set_seg (cur_seg w) (take (cur_off w) (seg_bytes d (cur_seg w))) d) c xs w" (is "laid ?d c xs w")
  using assms
proof (induction xs arbitrary: c)
  case Nil
  then show ?case by (auto simp: hop_def)
next
  case (Cons x xs)
  let ?e = "fst x"
  have seg: "cur_seg c \<le> en_seg ?e" "en_seg ?e \<le> cur_seg w"
    using laid_seg_all [OF Cons.prems, of x] by simp_all
  have h: "hop d c (pos (en_seg ?e) (en_off ?e))" and r: "rec_at d x" and l: "laid d (after ?e) xs w"
    using Cons.prems by simp_all
  have "hop ?d c (pos (en_seg ?e) (en_off ?e))" using h seg by (auto simp: hop_def)
  moreover have "rec_at ?d x"
  proof (cases "en_seg ?e = cur_seg w")
    case True
    then have "en_off ?e + entry_span ?e \<le> cur_off w" using laid_off [OF l] by (simp add: after_def)
    moreover from this have "min (entry_span ?e) (cur_off w - en_off ?e) = entry_span ?e" by simp
    ultimately show ?thesis using r True by (simp add: rec_at_def drop_take)
  next
    case False
    then show ?thesis using r by (simp add: rec_at_def)
  qed
  ultimately show ?case using Cons.IH [OF l] by simp
qed

lemma laid_here: "laid d c xs w \<Longrightarrow> laid d (case xs of [] \<Rightarrow> w | x # _ \<Rightarrow> pos (en_seg (fst x)) (en_off (fst x))) xs w"
  by (cases xs) (simp_all add: hop_def)

lemma laid_here_seg: "laid d c xs w \<Longrightarrow>
  cur_seg c \<le> cur_seg (case xs of [] \<Rightarrow> w | x # _ \<Rightarrow> pos (en_seg (fst x)) (en_off (fst x)))"
  using laid_seg [of d c xs w] laid_seg_all [of d c xs w "hd xs"] by (cases xs) simp_all

text \<open>A scan of an empty queue that satisfies the invariant ends in one that holds the records.\<close>

lemma scan_result_inv:
  assumes i: "spool_inv (q, d) []" and st: "stored d c xs w" and w: "cur_seg (q_wrCur q) = cur_seg w"
    and g: "good_files fs q d" and f: "cur_seg w \<in> set fs"
  shows "\<exists>q' d'. scan_result w (indexed fs xs q, d) = (Inr (), q', d') \<and> spool_inv (q', d') xs \<and>
    q_nextIdx q' = 0 \<and> q_maxBytes q' = q_maxBytes q \<and> q_retention q' = q_retention q \<and> dk_cursor d' = dk_cursor d"
proof -
  note inv = i [unfolded spool_inv_def prod.case] and sto = st [unfolded stored_def Let_def]
  let ?t = "drop (cur_off w) (seg_bytes d (cur_seg w))"
  let ?d' = "set_seg (cur_seg w) (take (cur_off w) (seg_bytes d (cur_seg w))) d"
  define q1 where "q1 = (indexed fs xs q)\<lparr>q_wrCur := w, q_wrPos := cur_off w, q_wrOpen := True\<rparr>"
  define d1 where "d1 = (if ?t = [] then d else ?d')"
  have e: "q_entries q = []" "q_nextIdx q = 0" "q_bytes q = 0" "q_wrOpen q" "q_wrPos q = cur_off (q_wrCur q)"
    "length (seg_bytes d (cur_seg w)) = cur_off (q_wrCur q)" using inv w by simp_all
  have res: "scan_result w (indexed fs xs q, d) = (Inr (), q1, d1)"
  proof (cases "?t = []")
    case True
    then have "cur_off w = cur_off (q_wrCur q)" using e sto by simp
    then have "w = q_wrCur q" using w by (cases w, cases "q_wrCur q") simp
    then show ?thesis using True e by (simp add: scan_result_def q1_def d1_def indexed_def)
  next
    case False
    then show ?thesis using f
      by (simp add: scan_result_def openWrite_def fileFor_def q1_def d1_def indexed_def)
  qed
  have l: "laid d1 c xs w" using sto laid_trunc [of d c xs w] by (simp add: d1_def)
  have hs: "has_seg d1 s = has_seg d s" for s
  proof -
    have "cur_seg c \<le> cur_seg w" using sto laid_seg by blast
    then have "has_seg d (cur_seg w)" using sto unfolding all_segs_def by blast
    then show ?thesis by (auto simp: d1_def)
  qed
  have r: "readCur q1 = (case xs of [] \<Rightarrow> w | x # _ \<Rightarrow> pos (en_seg (fst x)) (en_off (fst x)))"
    using e by (cases xs) (simp_all add: readCur_def q1_def indexed_def)
  have s: "cur_seg c \<le> cur_seg (readCur q1)" using laid_here_seg [OF l] by (simp only: r)
  have len: "length (seg_bytes d1 (cur_seg w)) = cur_off w" using sto by (simp add: d1_def min_def)
  have fl: "\<forall>s \<in> set fs. has_seg d s" using g inv by (auto simp: good_files_def)
  have sg: "\<forall>x. cur_seg (readCur q1) \<le> x \<longrightarrow> x \<le> cur_seg w \<longrightarrow> has_seg d x"
    using sto order_trans [OF s] unfolding all_segs_def by blast
  have z: "0 < cur_seg (readCur q1)" using sto s by linarith
  have sel: "q_entries q1 = map fst xs" "q_bytes q1 = sum_list (map entry_span (map fst xs))" "q_nextIdx q1 = 0" "q_files q1 = fs"
    "q_wrCur q1 = w" "q_wrPos q1 = cur_off w" "q_wrOpen q1" "q_segBytes q1 = q_segBytes q" "q_closed q1 = q_closed q"
    "q_maxBytes q1 = q_maxBytes q" "q_retention q1 = q_retention q"
    using e by (simp_all add: q1_def indexed_def)
  have "laid d1 (readCur q1) xs w" unfolding r by (rule laid_here [OF l])
  moreover have "\<forall>s. has_seg d s \<longrightarrow> s \<le> cur_seg w" using sto by blast
  moreover have "0 < q_segBytes q" "\<not> q_closed q" using inv by simp_all
  ultimately have "spool_inv (q1, d1) xs"
    unfolding spool_inv_def prod.case sel(1-9) hs using len fl sg z f sel(7) by simp
  moreover have "dk_cursor d1 = dk_cursor d" by (simp add: d1_def)
  ultimately show ?thesis using res sel by auto
qed

lemma stored_extends:
  assumes st: "stored d c xs w" and sb: "\<forall>s. cur_seg c \<le> s \<longrightarrow> seg_bytes d1 s = seg_bytes d s"
    and hs: "\<forall>s. has_seg d1 s \<longrightarrow> has_seg d s" and hs': "\<forall>s. cur_seg c \<le> s \<longrightarrow> has_seg d s \<longrightarrow> has_seg d1 s"
  shows "stored d1 c xs w"
proof -
  note sto = st [unfolded stored_def Let_def]
  have cw: "cur_seg c \<le> cur_seg w" using sto laid_seg by blast
  have "extends (cur_seg c) (cur_seg w) d d1" using sb cw by (simp add: extends_def)
  then have "laid d1 c xs w" using sto laid_extends by blast
  moreover have "all_segs d1 (cur_seg c) (cur_seg w)" using sto hs' unfolding all_segs_def by blast
  moreover have "seg_bytes d1 (cur_seg w) = seg_bytes d (cur_seg w)" using sb cw by blast
  ultimately show ?thesis using sto hs unfolding stored_def Let_def by metis
qed

text \<open>Reopening a directory yields exactly the records from the stored cursor on.\<close>

lemma recover_stored:
  assumes st: "stored d c xs w" and c: "start_cursor d = c" and pos: "0 < q_segBytes q0"
    and q0: "q_entries q0 = []" "q_nextIdx q0 = 0" "q_bytes q0 = 0" "q_files q0 = []" "\<not> q_closed q0"
  shows "\<exists>q' d'. recover (q0, d) = (Inr (), q', d') \<and> spool_inv (q', d') xs \<and> q_nextIdx q' = 0 \<and>
    q_maxBytes q' = q_maxBytes q0 \<and> q_retention q' = q_retention q0 \<and> dk_cursor d' = dk_cursor d"
proof -
  note sto = st [unfolded stored_def Let_def]
  define m where "m = cur_seg w"
  define len where "len = length (seg_bytes d m)"
  have cw: "cur_seg c \<le> m" using sto laid_seg unfolding m_def by blast
  have hm: "has_seg d m" using sto cw unfolding all_segs_def m_def by blast
  have mx: "\<forall>s. has_seg d s \<longrightarrow> s \<le> m" using sto unfolding m_def by blast
  note ls = last_segment [OF hm mx]
  define q1 where "q1 = q0\<lparr>q_wrCur := pos m len, q_files := [m], q_wrPos := len, q_wrOpen := True\<rparr>"
  have ow: "openWrite (q0\<lparr>q_wrCur := pos m len\<rparr>, d) = (Inr (), q1, d)"
    using hm q0 by (simp add: openWrite_def fileFor_def q1_def)
  obtain M where lm: "loadSegMeta (listSegments d) (q1, d) = (q1\<lparr>q_segMeta := M\<rparr>, d)" by (simp add: loadSegMeta_def)
  have i1: "spool_inv (q1\<lparr>q_segMeta := M\<rparr>, d) []"
    using q0 pos hm mx cw sto by (auto simp: spool_inv_def q1_def readCur_def hop_def len_def le_antisym)
  define ss where "ss = (if q_retention q0 = None then filter (\<lambda>s. s < cur_seg c) (listSegments d) else [])"
  obtain q2 d2 where f: "fold dropSegment ss (q1\<lparr>q_segMeta := M\<rparr>, d) = (q2, d2)"
    by (cases "fold dropSegment ss (q1\<lparr>q_segMeta := M\<rparr>, d)") auto
  have low: "\<forall>s \<in> set ss. s < cur_seg c" by (simp add: ss_def)
  have rq1: "readCur (q1\<lparr>q_segMeta := M\<rparr>) = pos m len" using q0 by (simp add: readCur_def q1_def)
  have i2: "spool_inv (q2, d2) []" using fold_drop_inv [OF i1, of ss] order.strict_trans2 [OF _ cw] low unfolding f rq1 by simp
  have sb: "seg_bytes d2 s = (if s \<in> set ss then [] else seg_bytes d s)" for s
    using seg_bytes_drop [of ss "q1\<lparr>q_segMeta := M\<rparr>" d s] f by simp
  have hs: "has_seg d2 s \<longleftrightarrow> s \<notin> set ss \<and> has_seg d s" for s
    using has_seg_drop [of ss "q1\<lparr>q_segMeta := M\<rparr>" d s] f by simp
  have q2: "q2 = fst (fold dropSegment ss (q1\<lparr>q_segMeta := M\<rparr>, d))" "d2 = snd (fold dropSegment ss (q1\<lparr>q_segMeta := M\<rparr>, d))"
    by (simp_all add: f)
  have sel: "q_wrCur q2 = pos m len" "q_entries q2 = []" "q_maxBytes q2 = q_maxBytes q0" "q_retention q2 = q_retention q0"
    "dk_cursor d2 = dk_cursor d"
    using q0 by (simp_all add: q2 fold_drop q1_def)
  have st2: "stored d2 c xs w" by (rule stored_extends [OF st]) (use low in \<open>auto simp: sb hs\<close>)
  note sto2 = st2 [unfolded stored_def Let_def]
  have "\<not> has_seg d2 (cur_seg w + 1)" using sto2 by (metis Suc_eq_plus1 not_less_eq_eq order_refl)
  then obtain fs where sc: "scanFrom (cur_seg c) (cur_off c) (q2, d2) = scan_result w (indexed fs xs q2, d2)"
    and fm: "cur_seg w \<in> set fs" and g: "good_files fs q2 d2"
    using scan_laid [of d2 c xs w q2] sto2 by blast
  have "cur_seg (q_wrCur q2) = cur_seg w" by (simp add: sel m_def)
  from scan_result_inv [OF i2 st2 this g fm] obtain q' d' where
    r: "scan_result w (indexed fs xs q2, d2) = (Inr (), q', d')" "spool_inv (q', d') xs" "q_nextIdx q' = 0"
      "q_maxBytes q' = q_maxBytes q0" "q_retention q' = q_retention q0" "dk_cursor d' = dk_cursor d"
    by (auto simp: sel)
  have ret: "q_retention (q1\<lparr>q_segMeta := M\<rparr>) = q_retention q0" by (simp add: q1_def)
  have "recover (q0, d) = scanFrom (cur_seg c) (cur_off c) (q2, d2)"
    unfolding recover_def Let_def fst_conv snd_conv
    using ls ow c [unfolded start_cursor_def]
    by (simp add: len_def [symmetric] lm ret) (use f in \<open>auto simp: ss_def\<close>)
  then show ?thesis using sc r by auto
qed

lemma Open_stored:
  assumes "stored d c xs w" and "start_cursor d = c"
  shows "\<exists>q' d'. Open opts now d = (Inr q', d') \<and> spool_inv (q', d') xs \<and> q_nextIdx q' = 0 \<and>
    q_maxBytes q' = q_maxBytes (new_queue opts now) \<and> q_retention q' = op_retention opts \<and> dk_cursor d' = dk_cursor d"
proof -
  have "0 < q_segBytes (new_queue opts now)" by (simp add: new_queue_def DefaultSegmentBytes_def)
  from recover_stored [OF assms this] show ?thesis by (fastforce simp: Open_def new_queue_def)
qed

end
