(* ===== verification/Spool_Spec.thy ===== *)
theory Spool_Spec imports Spool_Recover begin

text \<open>
  The contract of an acknowledged queue, stated as a locale over its four operations, and the spool as
  an implementation of it.  The client's view of a queue is a list of packets and the number of them
  that are in flight.
\<close>

section \<open>The contract\<close>

locale ack_queue =
  fixes append :: "'t \<Rightarrow> 'p \<Rightarrow> 's \<Rightarrow> ('e + unit) \<times> 's"
    and fetch :: "int \<Rightarrow> 's \<Rightarrow> ('e + 'p list) \<times> 's"
    and ack :: "int \<Rightarrow> 's \<Rightarrow> 's"
    and requeue :: "'s \<Rightarrow> 's"
    and qrep :: "'s \<Rightarrow> 'p list \<Rightarrow> nat \<Rightarrow> bool"
  assumes append_law: "qrep s ps k \<Longrightarrow> append t p s = (r, s') \<Longrightarrow>
      qrep s' (if r = Inr () then ps @ [p] else ps) k"
    and fetch_law: "qrep s ps k \<Longrightarrow> fetch n s = (b, s') \<Longrightarrow>
      \<exists>m. b = Inr (take m (drop k ps)) \<and> qrep s' ps (k + m) \<and> k + m \<le> length ps \<and>
        m \<le> (if n \<le> 0 then 1 else nat n) \<and> (k < length ps \<longrightarrow> 0 < m)"
    and ack_law: "qrep s ps k \<Longrightarrow> qrep (ack n s) (drop (min (nat n) k) ps) (k - min (nat n) k)"
    and requeue_law: "qrep s ps k \<Longrightarrow> qrep (requeue s) ps 0"
    and flight_law: "qrep s ps k \<Longrightarrow> k \<le> length ps"
begin

text \<open>A fetch after \<open>k\<close> fetched packets never returns an error and never runs past the end.\<close>

lemma fetch_ok: "qrep s ps k \<Longrightarrow> \<exists>m s'. fetch n s = (Inr (take m (drop k ps)), s') \<and> qrep s' ps (k + m) \<and> k + m \<le> length ps \<and>
    m \<le> (if n \<le> 0 then 1 else nat n) \<and> (k < length ps \<longrightarrow> 0 < m)"
  using fetch_law [of s ps k n "fst (fetch n s)" "snd (fetch n s)"] by (cases "fetch n s") auto

text \<open>Fetching and confirming what was fetched consumes the queue from its head.\<close>

lemma fetch_ack: "qrep s ps 0 \<Longrightarrow> fetch n s = (Inr b, s') \<Longrightarrow>
  \<exists>qs. ps = b @ qs \<and> qrep (ack (int (length b)) s') qs 0 \<and> (ps \<noteq> [] \<longrightarrow> b \<noteq> [])"
proof -
  assume "qrep s ps 0" "fetch n s = (Inr b, s')"
  then obtain m where m: "b = take m ps" "qrep s' ps m" "m \<le> length ps" "ps \<noteq> [] \<longrightarrow> 0 < m"
    using fetch_law [of s ps 0 n "Inr b" s'] by auto
  have "length b = m" using m by (simp add: min_def)
  moreover have "qrep (ack (int m) s') (drop m ps) 0" using ack_law [OF m(2), of "int m"] by simp
  moreover have "ps = b @ drop m ps" using m by simp
  moreover have "ps \<noteq> [] \<longrightarrow> b \<noteq> []" using m by (cases ps) auto
  ultimately show ?thesis by blast
qed

end

section \<open>The spool implements it\<close>

text \<open>What the spool needs of the packet encoding: no packet encodes to nothing or to 4 GiB, and decoding
  inverts encoding.\<close>

definition codec_ok :: "('p \<Rightarrow> byte list option) \<Rightarrow> (byte list \<Rightarrow> 'p option) \<Rightarrow> bool" where
  "codec_ok marshal unmarshal \<longleftrightarrow>
     (\<forall>p rc. marshal p = Some rc \<longrightarrow> rc \<noteq> [] \<and> length rc < 2 ^ 32 \<and> unmarshal rc = Some p)"

definition spool_rep ::
  "('p \<Rightarrow> byte list option) \<Rightarrow> (byte list \<Rightarrow> 'p option) \<Rightarrow> spool \<Rightarrow> 'p list \<Rightarrow> nat \<Rightarrow> bool" where
  "spool_rep marshal unmarshal st ps k \<longleftrightarrow> codec_ok marshal unmarshal \<and>
     (\<exists>xs. spool_inv st xs \<and> q_nextIdx (fst st) = k \<and> map (unmarshal \<circ> snd) xs = map Some ps)"

lemma decoded_all: "map (unmarshal \<circ> snd) xs = map Some ps \<Longrightarrow> list_all (\<lambda>x. unmarshal (snd x) \<noteq> None) xs"
proof -
  assume a: "map (unmarshal \<circ> snd) xs = map Some ps"
  have "unmarshal (snd x) \<noteq> None" if "x \<in> set xs" for x
  proof -
    have "unmarshal (snd x) \<in> set (map (unmarshal \<circ> snd) xs)" using that by auto
    then show ?thesis unfolding a by auto
  qed
  then show ?thesis by (simp add: list_all_iff)
qed

lemma decoded_the: "map (unmarshal \<circ> snd) xs = map Some ps \<Longrightarrow> map (the \<circ> unmarshal \<circ> snd) xs = ps"
proof -
  assume a: "map (unmarshal \<circ> snd) xs = map Some ps"
  have "map (the \<circ> unmarshal \<circ> snd) xs = map the (map (unmarshal \<circ> snd) xs)" by simp
  also have "\<dots> = ps" unfolding a by (simp add: comp_def)
  finally show ?thesis .
qed

lemma Append_rep:
  assumes rp: "spool_rep marshal unmarshal st ps k" and a: "Append marshal stamp None True now p st = (r, st')"
  shows "spool_rep marshal unmarshal st' (if r = Inr () then ps @ [p] else ps) k \<and>
    q_maxBytes (fst st') = q_maxBytes (fst st) \<and> (r = Inr () \<longrightarrow> q_bytes (fst st') \<le> q_maxBytes (fst st'))"
proof (cases "marshal p")
  case None
  then have "r = Inl EMarshal \<and> st' = st" using a by (simp add: Append_def)
  then show ?thesis using rp by simp
next
  case (Some rc)
  obtain q d where st: "st = (q, d)" by (cases st) auto
  obtain xs where i: "spool_inv (q, d) xs" and k: "q_nextIdx q = k" and m: "map (unmarshal \<circ> snd) xs = map Some ps"
    and c: "codec_ok marshal unmarshal" using rp by (auto simp: spool_rep_def st)
  have rc: "rc \<noteq> []" "length rc < 2 ^ 32" "unmarshal rc = Some p" using c Some by (auto simp: codec_ok_def)
  from Append_inv [of q d xs marshal p rc stamp now, OF i Some rc(1,2)] show ?thesis
  proof (elim disjE exE conjE)
    fix q' assume "Append marshal stamp None True now p (q, d) = (Inl EFull, q', d)" "spool_inv (q', d) xs" "keeps q q'"
    then show ?thesis using a c k m by (auto simp: spool_rep_def st keeps_def)
  next
    fix e q' d' assume "Append marshal stamp None True now p (q, d) = (Inr (), q', d')"
      "spool_inv (q', d') (xs @ [(e, rc)])" "keeps q q'" "q_bytes q' \<le> q_maxBytes q'"
    then show ?thesis using a c k m rc(3)
      by (auto simp: spool_rep_def st keeps_def intro!: exI [of _ "xs @ [(e, rc)]"])
  qed
qed

lemma Next_rep:
  assumes rp: "spool_rep marshal unmarshal st ps k" and a: "Next unmarshal n st = (r, st')"
  shows "\<exists>m. r = Inr (take m (drop k ps)) \<and> spool_rep marshal unmarshal st' ps (k + m) \<and> k + m \<le> length ps \<and>
    m \<le> (if n \<le> 0 then 1 else nat n) \<and> (k < length ps \<longrightarrow> 0 < m)"
proof -
  obtain q d where st: "st = (q, d)" by (cases st) auto
  obtain xs where i: "spool_inv (q, d) xs" and k: "q_nextIdx q = k" and m: "map (unmarshal \<circ> snd) xs = map Some ps"
    and c: "codec_ok marshal unmarshal" using rp by (auto simp: spool_rep_def st)
  have len: "length xs = length ps" using m by (metis length_map)
  obtain j q' where n: "Next unmarshal n (q, d) = (Inr (map (the \<circ> unmarshal \<circ> snd) (take j (drop k xs))), q', d)"
    and i': "spool_inv (q', d) xs" and k': "q_nextIdx q' = k + j" and j: "j \<le> length xs - k"
      "j \<le> (if n \<le> 0 then 1 else nat n)" "k < length xs \<longrightarrow> 0 < j"
    using Next_inv [OF i decoded_all [OF m], of n] unfolding k by blast
  have "map (the \<circ> unmarshal \<circ> snd) (take j (drop k xs)) = take j (drop k ps)"
    using decoded_the [OF m] by (metis drop_map take_map)
  moreover have "k \<le> length xs" using i k by (simp add: spool_inv_def)
  ultimately show ?thesis
    using n a i' k' j m c len by (intro exI [of _ j]) (auto simp: st spool_rep_def)
qed

lemma AckN_rep:
  assumes "spool_rep marshal unmarshal st ps k"
  shows "spool_rep marshal unmarshal (AckN n st) (drop (min (nat n) k) ps) (k - min (nat n) k)"
proof -
  obtain q d where st: "st = (q, d)" by (cases st) auto
  obtain xs where i: "spool_inv (q, d) xs" and k: "q_nextIdx q = k" and m: "map (unmarshal \<circ> snd) xs = map Some ps"
    and c: "codec_ok marshal unmarshal" using assms by (auto simp: spool_rep_def st)
  have "map (unmarshal \<circ> snd) (drop j xs) = map Some (drop j ps)" for j using m by (metis drop_map)
  then show ?thesis using AckN_inv [OF i, of n] c k unfolding spool_rep_def st acked_def by auto
qed

lemma Requeue_rep: "spool_rep marshal unmarshal st ps k \<Longrightarrow> spool_rep marshal unmarshal (Requeue st) ps 0"
proof -
  assume rp: "spool_rep marshal unmarshal st ps k"
  obtain q d where st: "st = (q, d)" by (cases st) auto
  obtain xs where "spool_inv (q, d) xs" "map (unmarshal \<circ> snd) xs = map Some ps" "codec_ok marshal unmarshal"
    using rp by (auto simp: spool_rep_def st)
  with Requeue_inv [of q d xs] show ?thesis unfolding spool_rep_def st by blast
qed

lemma rep_flight: "spool_rep marshal unmarshal st ps k \<Longrightarrow> k \<le> length ps"
proof -
  assume rp: "spool_rep marshal unmarshal st ps k"
  obtain q d where st: "st = (q, d)" by (cases st) auto
  obtain xs where i: "spool_inv (q, d) xs" and m: "map (unmarshal \<circ> snd) xs = map Some ps" and k: "q_nextIdx q = k"
    using rp by (auto simp: spool_rep_def st)
  have "length xs = length ps" using m by (metis length_map)
  moreover have "q_nextIdx q \<le> length xs" using i unfolding spool_inv_def prod.case by blast
  ultimately show ?thesis using k by simp
qed

interpretation spool_q: ack_queue "\<lambda>now. Append marshal stamp None True now" "Next unmarshal" AckN Requeue
    "spool_rep marshal unmarshal" for marshal stamp unmarshal
proof (unfold_locales, goal_cases)
  case (1 s ps k t p r s')
  then show ?case by (rule conjunct1 [OF Append_rep])
next
  case (2 s ps k n b s')
  then show ?case by (rule Next_rep)
next
  case (3 s ps k n)
  then show ?case by (rule AckN_rep)
next
  case (4 s ps k)
  then show ?case by (rule Requeue_rep)
next
  case (5 s ps k)
  then show ?case by (rule rep_flight)
qed

end
