(* ===== verification/Spool_Crash.thy ===== *)
theory Spool_Crash imports Spool_Spec begin

text \<open>
  Closing, crashing and reopening: what a reopened spool holds.
\<close>

section \<open>A new directory\<close>

definition empty_disk :: "disk" where
  "empty_disk = \<lparr>dk_segs = [], dk_cursor = None, dk_idx = Map.empty, dk_mtime = (\<lambda>s. 0)\<rparr>"

definition fresh :: "options \<Rightarrow> int \<Rightarrow> spool" where
  "fresh opts now = ((new_queue opts now)\<lparr>q_wrCur := pos 1 0, q_files := [1], q_wrOpen := True\<rparr>, set_seg 1 [] empty_disk)"

lemma fresh_inv: "spool_inv (fresh opts now) []"
proof -
  have d: "\<not> has_seg empty_disk s" "seg_bytes empty_disk s = []" for s
    by (simp_all add: has_seg_def seg_bytes_def empty_disk_def)
  show ?thesis
    by (simp add: fresh_def spool_inv_def d new_queue_def readCur_def hop_def DefaultSegmentBytes_def)
qed

lemma Open_new: "Open opts now empty_disk = (Inr (fst (fresh opts now)), snd (fresh opts now))"
proof -
  obtain q d where qd: "fresh opts now = (q, d)" by (cases "fresh opts now")
  then have q: "q = (new_queue opts now)\<lparr>q_wrCur := pos 1 0, q_files := [1], q_wrOpen := True\<rparr>" and d: "d = set_seg 1 [] empty_disk"
    by (simp_all add: fresh_def)
  have hs: "has_seg d s \<longleftrightarrow> s = 1" "seg_bytes d s = []" for s
    by (simp_all add: d) (simp_all add: has_seg_def seg_bytes_def empty_disk_def)
  have nh: "\<not> has_seg empty_disk 1" by (simp add: has_seg_def empty_disk_def)
  have f: "fileFor 1 (q, d) = (Inr (), q, d)" by (simp add: fileFor_def q)
  have sc: "scanFrom 1 0 (q, d) = (Inr (), q, d)" using scanFrom_end [OF _ f, of 0] by (simp add: hs)
  have os: "openSegment 1 (new_queue opts now, empty_disk) = ((new_queue opts now)\<lparr>q_files := [1]\<rparr>, d)"
    using nh by (simp add: openSegment_def d new_queue_def)
  have ow: "openWrite ((new_queue opts now)\<lparr>q_files := [1], q_wrCur := pos 1 0\<rparr>, d) = (Inr (), q, d)"
    by (simp add: openWrite_def fileFor_def q new_queue_def)
  have dk: "dk_segs empty_disk = []" "dk_cursor d = None" by (simp_all add: empty_disk_def d)
  have "recover (new_queue opts now, empty_disk) = (Inr (), q, d)"
    unfolding recover_def Let_def listSegments_def fst_conv snd_conv dk
    using os ow sc dk(2) by (simp add: loadSegMeta_def loadCursor_def)
  then show ?thesis by (simp add: Open_def qd)
qed

section \<open>Closing and crashing\<close>

lemma stored_inv: "spool_inv (q, d) xs \<Longrightarrow> stored d (readCur q) xs (q_wrCur q)"
  by (auto simp: spool_inv_def stored_def all_segs_def)

lemma stored_seg_bytes: "stored d c xs w \<Longrightarrow> seg_bytes d1 = seg_bytes d \<Longrightarrow> has_seg d1 = has_seg d \<Longrightarrow> stored d1 c xs w"
  using stored_extends [of d c xs w d1] by simp

lemma start_cursor_some: "dk_cursor d = Some c \<Longrightarrow> 0 < cur_seg c \<Longrightarrow> start_cursor d = c"
  by (simp add: start_cursor_def loadCursor_def)

lemma Close_stored:
  assumes i: "spool_inv (q, d) xs"
  shows "\<exists>q' d'. Close True now (q, d) = (Inr (), q', d') \<and> stored d' (readCur q) xs (q_wrCur q) \<and>
    start_cursor d' = readCur q"
proof -
  note inv = i [unfolded spool_inv_def prod.case]
  let ?q1 = "q\<lparr>q_unsynced := 0, q_lastSync := now\<rparr>"
  let ?d1 = "d\<lparr>dk_cursor := Some (readCur q), dk_idx := dk_idx d ++ q_segMeta q\<rparr>"
  have "readCur ?q1 = readCur q" by (simp add: readCur_upd)
  then have "\<exists>q'. Close True now (q, d) = (Inr (), q', ?d1)"
    using inv by (simp add: Close_def syncLocked_def persistCursor_def saveAllSegMeta_def)
  moreover have "stored ?d1 (readCur q) xs (q_wrCur q)"
    by (rule stored_seg_bytes [OF stored_inv [OF i]]) (simp_all add: seg_bytes_def has_seg_def fun_eq_iff)
  moreover have "start_cursor ?d1 = readCur q" using inv by (simp add: start_cursor_some)
  ultimately show ?thesis by blast
qed

lemma rep_intro: "codec_ok marshal unmarshal \<Longrightarrow> spool_inv (q, d) xs \<Longrightarrow> q_nextIdx q = k \<Longrightarrow>
  map (unmarshal \<circ> snd) xs = map Some ps \<Longrightarrow> spool_rep marshal unmarshal (q, d) ps k"
  by (auto simp: spool_rep_def)

lemma rep_elim:
  assumes "spool_rep marshal unmarshal st ps k"
  obtains q d xs where "st = (q, d)" and "codec_ok marshal unmarshal" and "spool_inv (q, d) xs" and "q_nextIdx q = k"
    and "map (unmarshal \<circ> snd) xs = map Some ps"
  using assms by (cases st) (auto simp: spool_rep_def)

lemma close_open:
  assumes "spool_rep marshal unmarshal st ps k"
  shows "\<exists>st1. Close True now st = (Inr (), st1) \<and>
    (\<exists>q' d'. Open opts now' (snd st1) = (Inr q', d') \<and> spool_rep marshal unmarshal (q', d') ps 0)"
proof -
  obtain q d xs where st: "st = (q, d)" "codec_ok marshal unmarshal" "spool_inv (q, d) xs" "map (unmarshal \<circ> snd) xs = map Some ps"
    using rep_elim [OF assms] by metis
  obtain q1 d1 where c: "Close True now (q, d) = (Inr (), q1, d1)" "stored d1 (readCur q) xs (q_wrCur q)" "start_cursor d1 = readCur q"
    using Close_stored [OF st(3)] by blast
  obtain q2 d2 where "Open opts now' d1 = (Inr q2, d2)" "spool_inv (q2, d2) xs" "q_nextIdx q2 = 0"
    using Open_stored [OF c(2,3)] by blast
  then show ?thesis using c(1) st rep_intro [of marshal unmarshal q2 d2 xs 0 ps] by auto
qed

text \<open>A crash in the middle of a write leaves a torn record behind the last whole one.\<close>

lemma torn_prefix:
  assumes "0 < j" and "j < headerSize + length rc" and "rc \<noteq> []" and "length rc < 2 ^ 32"
  shows "torn (take j (rec_bytes rc))"
proof (cases "j < headerSize")
  case True
  then have l: "length (take j (rec_bytes rc)) = j" by simp
  then have "take j (rec_bytes rc) \<noteq> []" using assms(1) by fastforce
  then show ?thesis using True l by (simp only: torn_def) simp
next
  case False
  then have "take headerSize (take j (rec_bytes rc)) = be_bytes 4 (length rc)"
    by (simp add: min_def rec_bytes_def headerSize_def)
  then have "be_val (take headerSize (take j (rec_bytes rc))) = length rc" using assms by (simp add: be_val_be_bytes)
  moreover from False have "take j (rec_bytes rc) \<noteq> []" using assms(1) by (fastforce simp: rec_bytes_def headerSize_def dest: arg_cong [where f = length])
  ultimately show ?thesis using assms False by (simp add: torn_def min_def)
qed

lemma stored_torn:
  assumes st: "stored d c xs w" and len: "cur_off w = length (seg_bytes d (cur_seg w))" and t: "t = [] \<or> torn t"
  shows "stored (set_seg (cur_seg w) (seg_bytes d (cur_seg w) @ t) d) c xs w" (is "stored ?d c xs w")
proof -
  note sto = st [unfolded stored_def Let_def]
  have "extends (cur_seg c) (cur_seg w) d ?d" by (simp add: extends_def)
  then have "laid ?d c xs w" using sto laid_extends by blast
  then show ?thesis using sto len t by (auto simp: stored_def all_segs_def)
qed

lemma stored_roll:
  assumes st: "stored d c xs w" and len: "cur_off w = length (seg_bytes d (cur_seg w))" and pos: "0 < cur_off w"
  shows "stored (set_seg (cur_seg w + 1) [] d) c xs (pos (cur_seg w + 1) 0)" (is "stored ?d c xs ?w")
proof -
  note sto = st [unfolded stored_def Let_def]
  have cw: "cur_seg c \<le> cur_seg w" using sto laid_seg by blast
  have "extends (cur_seg c) (cur_seg w) d ?d" by (simp add: extends_def)
  then have "laid ?d c xs w" using sto laid_extends by blast
  then have l: "laid ?d c xs ?w" using laid_roll [of ?d c xs w] pos len by simp
  have a: "all_segs d (cur_seg c) (cur_seg w)" and m: "\<forall>s. has_seg d s \<longrightarrow> s \<le> cur_seg w" using sto by blast+
  have "all_segs ?d (cur_seg c) (cur_seg ?w)" using a by (auto simp: all_segs_def le_Suc_eq)
  moreover have "\<forall>s. has_seg ?d s \<longrightarrow> s \<le> cur_seg ?w" using m by (auto intro: le_SucI)
  ultimately show ?thesis using l sto by (simp add: stored_def)
qed

lemma crash_write_stored:
  assumes i: "spool_inv (q, d) xs" and st: "stored d c ys (q_wrCur q)"
    and rc: "rc \<noteq> []" "length rc < 2 ^ 32" and j: "j < headerSize + length rc"
  shows "\<exists>q1 d1 w. writeRecord (Some j) True now rc (q, d) = (Inl EWrite, q1, d1) \<and> stored d1 c ys w \<and>
    dk_cursor d1 = dk_cursor d"
proof -
  note inv = i [unfolded spool_inv_def prod.case]
  have len: "cur_off (q_wrCur q) = length (seg_bytes d (cur_seg (q_wrCur q)))" using inv by simp
  have t: "take j (rec_bytes rc) = [] \<or> torn (take j (rec_bytes rc))"
    using torn_prefix [of j rc] rc j by (cases "j = 0") auto
  have w: "write_handle (Some j) (rec_bytes rc) (q', d') = (Inl EWrite, q'\<lparr>q_wrPos := q_wrPos q' + length (take j (rec_bytes rc))\<rparr>,
      set_seg (cur_seg (q_wrCur q')) (seg_bytes d' (cur_seg (q_wrCur q')) @ take j (rec_bytes rc)) d')"
    if "spool_inv (q', d') xs" for q' d'
    using that unfolding spool_inv_def prod.case by (simp add: write_handle_def Let_def write_at_end)
  show ?thesis
  proof (cases "cur_off (q_wrCur q) \<ge> q_segBytes q")
    case False
    then show ?thesis using w [OF i] stored_torn [OF st len t] by (auto simp: writeRecord_def)
  next
    case True
    let ?nxt = "cur_seg (q_wrCur q) + 1"
    note r = roll_ok [OF i True, of now]
    have "0 < cur_off (q_wrCur q)" using inv True by linarith
    from stored_roll [OF st len this] have st1: "stored (set_seg ?nxt [] d) c ys (pos ?nxt 0)" .
    from stored_torn [OF this _ t] have "stored (set_seg ?nxt (take j (rec_bytes rc)) (set_seg ?nxt [] d)) c ys (pos ?nxt 0)"
      by simp
    then show ?thesis using w [OF r(2)] True r(1) by (auto simp: writeRecord_def)
  qed
qed

text \<open>The packets \<open>qs\<close> were confirmed after the cursor was last written, and their records are still on disk: from the
  stored cursor (or the start of segment 1 when there is none) they lead to the read position, and no segment from
  there on was removed.\<close>

definition since_cursor :: "(byte list \<Rightarrow> 'p option) \<Rightarrow> spool \<Rightarrow> 'p list \<Rightarrow> bool" where
  "since_cursor unmarshal st qs \<longleftrightarrow> (case st of (q, d) \<Rightarrow>
     0 < cur_seg (start_cursor d) \<and> all_segs d (cur_seg (start_cursor d)) (cur_seg (readCur q)) \<and>
     (\<exists>zs. laid d (start_cursor d) zs (readCur q) \<and> map (unmarshal \<circ> snd) zs = map Some qs))"

lemma since_cursor_written:
  "spool_inv (q, d) xs \<Longrightarrow> start_cursor d = readCur q \<Longrightarrow> since_cursor unmarshal (q, d) []"
proof -
  assume i: "spool_inv (q, d) xs" and c: "start_cursor d = readCur q"
  note inv = i [unfolded spool_inv_def prod.case]
  have "cur_seg (readCur q) \<le> cur_seg (q_wrCur q)" using laid_seg inv by blast
  then have "all_segs d (cur_seg (readCur q)) (cur_seg (readCur q))" using inv unfolding all_segs_def by (meson le_trans)
  moreover have "laid d (readCur q) [] (readCur q)" by (simp add: hop_def)
  moreover have "0 < cur_seg (readCur q)" using inv by blast
  ultimately show ?thesis unfolding since_cursor_def prod.case c by auto
qed

lemma laid_append:
  "laid d c zs m \<Longrightarrow> laid d m xs w \<Longrightarrow> m = (case xs of [] \<Rightarrow> w | x # _ \<Rightarrow> pos (en_seg (fst x)) (en_off (fst x))) \<Longrightarrow>
     laid d c (zs @ xs) w"
proof (induction zs arbitrary: c)
  case Nil
  then show ?case by (cases xs) simp_all
qed simp

lemma since_cursor_stored:
  assumes i: "spool_inv (q, d) xs" and m: "map (unmarshal \<circ> snd) xs = map Some ps" and sc: "since_cursor unmarshal (q, d) qs"
  shows "\<exists>ys. stored d (start_cursor d) ys (q_wrCur q) \<and> map (unmarshal \<circ> snd) ys = map Some (qs @ ps)"
proof -
  note inv = i [unfolded spool_inv_def prod.case]
  obtain zs where z: "laid d (start_cursor d) zs (readCur q)" "map (unmarshal \<circ> snd) zs = map Some qs"
    using sc by (auto simp: since_cursor_def)
  have r: "readCur q = (case xs of [] \<Rightarrow> q_wrCur q | x # _ \<Rightarrow> pos (en_seg (fst x)) (en_off (fst x)))"
    by (rule readCur_items) (use inv in blast)
  have l: "laid d (start_cursor d) (zs @ xs) (q_wrCur q)" using laid_append [OF z(1) _ r] inv by blast
  have "all_segs d (cur_seg (start_cursor d)) (cur_seg (readCur q))" "all_segs d (cur_seg (readCur q)) (cur_seg (q_wrCur q))"
    using sc inv by (simp_all add: since_cursor_def all_segs_def)
  then have "all_segs d (cur_seg (start_cursor d)) (cur_seg (q_wrCur q))"
    unfolding all_segs_def using linear by blast
  moreover have "0 < cur_seg (start_cursor d)" using sc by (simp add: since_cursor_def)
  ultimately have "stored d (start_cursor d) (zs @ xs) (q_wrCur q)" using l inv by (simp add: stored_def)
  then show ?thesis using z(2) m by (intro exI [of _ "zs @ xs"]) simp
qed

text \<open>What a queue holds after a crash in the middle of an \<open>Append\<close>, when nothing behind its stored cursor was removed.\<close>

lemma crash_append_open:
  assumes rp: "spool_rep marshal unmarshal st ps k" and sc: "since_cursor unmarshal st qs"
    and j: "marshal p = Some rc" "j < headerSize + length rc"
  shows "\<exists>q d. Open opts now' (snd (snd (Append marshal stamp (Some j) True now p st))) = (Inr q, d) \<and>
    spool_rep marshal unmarshal (q, d) (qs @ ps) 0"
proof -
  obtain q d xs where st: "st = (q, d)" and c: "codec_ok marshal unmarshal" and i: "spool_inv (q, d) xs"
    and m: "map (unmarshal \<circ> snd) xs = map Some ps" using rep_elim [OF rp] by metis
  have rc: "rc \<noteq> []" "length rc < 2 ^ 32" using c j(1) by (auto simp: codec_ok_def)
  obtain ys where ys: "stored d (start_cursor d) ys (q_wrCur q)" "map (unmarshal \<circ> snd) ys = map Some (qs @ ps)"
    using since_cursor_stored [OF i m] sc st by blast
  obtain q1 d1 w where wr: "writeRecord (Some j) True now rc (q, d) = (Inl EWrite, q1, d1)"
    and s1: "stored d1 (start_cursor d) ys w" and dc: "dk_cursor d1 = dk_cursor d"
    using crash_write_stored [OF i ys(1) rc j(2)] by blast
  have "stored (snd (snd (Append marshal stamp (Some j) True now p st))) (start_cursor d) ys
        (if snd (snd (Append marshal stamp (Some j) True now p st)) = d then q_wrCur q else w)"
    using s1 ys(1) wr j(1) by (auto simp: Append_def st Let_def)
  moreover have "start_cursor (snd (snd (Append marshal stamp (Some j) True now p st))) = start_cursor d"
    using wr j(1) dc by (auto simp: Append_def st Let_def start_cursor_def loadCursor_def)
  ultimately obtain q2 d2 where "Open opts now' (snd (snd (Append marshal stamp (Some j) True now p st))) = (Inr q2, d2)"
    "spool_inv (q2, d2) ys" "q_nextIdx q2 = 0" using Open_stored by blast
  then show ?thesis using rep_intro [OF c] ys(2) by blast
qed

end
