(* ===== verification/Spool_Props.thy ===== *)
theory Spool_Props imports Spool_Crash begin

text \<open>
  What the spool promises: first in, first out with acknowledgement; nothing unconfirmed is lost over a
  close, a reopen or a crash in the middle of a write.  And where it does not hold.
\<close>

section \<open>A packet encoding for examples\<close>

definition byte_marshal :: "byte \<Rightarrow> byte list option" where
  "byte_marshal b = Some [b]"

definition byte_unmarshal :: "byte list \<Rightarrow> byte option" where
  "byte_unmarshal rc = (case rc of [b] \<Rightarrow> Some b | _ \<Rightarrow> None)"

lemma byte_codec: "codec_ok byte_marshal byte_unmarshal"
  by (auto simp: codec_ok_def byte_marshal_def byte_unmarshal_def)

definition small :: options where
  "small = \<lparr>op_maxBytes = 100, op_segBytes = 4, op_retention = None\<rparr>"

lemma fresh_rep: "spool_rep byte_marshal byte_unmarshal (fresh opts now) [] 0"
proof -
  obtain q d where f: "fresh opts now = (q, d)" by (cases "fresh opts now")
  have "q_nextIdx q = 0" using f by (auto simp: fresh_def new_queue_def)
  then show ?thesis using fresh_inv [of opts now] byte_codec unfolding f by (intro rep_intro) auto
qed

section \<open>The queue\<close>

text \<open>C1: the spool refines an acknowledged list.  On a working disk \<open>Append\<close> adds its packet at the end or
  refuses it and changes nothing; \<open>Next\<close> returns a non-empty run of the packets behind the delivered ones, in
  order; \<open>AckN\<close> removes delivered packets from the front, never more than were delivered; \<open>Requeue\<close> makes all of
  them deliverable again.\<close>

theorem spool_refines_list:
  assumes "spool_rep marshal unmarshal st ps k"
  shows "spool_rep marshal unmarshal (snd (Append marshal stamp None True now p st))
           (if fst (Append marshal stamp None True now p st) = Inr () then ps @ [p] else ps) k \<and>
    (\<exists>m. fst (Next unmarshal n st) = Inr (take m (drop k ps)) \<and>
       spool_rep marshal unmarshal (snd (Next unmarshal n st)) ps (k + m) \<and> k + m \<le> length ps \<and>
       m \<le> (if n \<le> 0 then 1 else nat n) \<and> (k < length ps \<longrightarrow> 0 < m)) \<and>
    spool_rep marshal unmarshal (AckN n st) (drop (min (nat n) k) ps) (k - min (nat n) k) \<and>
    spool_rep marshal unmarshal (Requeue st) ps 0"
  using assms
  by (intro conjI spool_q.append_law [OF assms prod.collapse [symmetric]]
      spool_q.fetch_law [OF assms prod.collapse [symmetric]] spool_q.ack_law spool_q.requeue_law)

lemma spool_refines_list_witness:
  "\<exists>st. Open small 0 empty_disk = (Inr (fst st), snd st) \<and>
     spool_rep byte_marshal byte_unmarshal (snd (Append byte_marshal (\<lambda>_. 0) None True 0 7 st))
       (if fst (Append byte_marshal (\<lambda>_. 0) None True 0 7 st) = Inr () then [7] else []) 0"
  using spool_refines_list [OF fresh_rep [of small 0], of "\<lambda>_. 0" 0 7] Open_new [of small 0] by auto

text \<open>C16: closing and reopening loses nothing.  Whatever was delivered but not confirmed, and whatever was
  never delivered, is there again in order, with nothing in flight.\<close>

theorem close_open_roundtrip:
  assumes "spool_rep marshal unmarshal st ps k"
  shows "\<exists>st1 q' d'. Close True now st = (Inr (), st1) \<and> Open opts now' (snd st1) = (Inr q', d') \<and>
    spool_rep marshal unmarshal (q', d') ps 0"
  using close_open [OF assms] by blast

lemma close_open_roundtrip_witness:
  "\<exists>st1 q' d'. Close True 5 (fresh small 0) = (Inr (), st1) \<and> Open small 9 (snd st1) = (Inr q', d') \<and>
    spool_rep byte_marshal byte_unmarshal (q', d') [] 0"
  by (rule close_open_roundtrip [OF fresh_rep])

text \<open>C17: a crash in the middle of an \<open>Append\<close>, after any number of its bytes, costs at most the packet being
  written, as long as no segment behind the stored cursor was removed since the cursor was last written: reopening
  cuts the torn record and yields every unconfirmed packet in order, in front of them once more the packets \<open>qs\<close>
  that were confirmed after the last cursor write (the cursor is written every 512 confirmations and on \<open>Close\<close>).
  Without that condition it is false: \<open>crash_before_cursor_write_loses_backlog\<close> in \<open>Spool_Faults\<close>.\<close>

theorem crash_in_append_recovers:
  assumes "spool_rep marshal unmarshal st ps k" and "since_cursor unmarshal st qs"
    and "marshal p = Some rc" and "j < headerSize + length rc"
  shows "\<exists>q d. Open opts now' (snd (snd (Append marshal stamp (Some j) True now p st))) = (Inr q, d) \<and>
    spool_rep marshal unmarshal (q, d) (qs @ ps) 0"
  by (rule crash_append_open [OF assms])

text \<open>Evaluating a concrete run.\<close>

lemma le4: "le_bytes 4 (Suc 0) = [1, 0, 0, 0]"
  by code_simp

lemmas run_simps = le4 Append_def writeRecord_def write_handle_def write_at_def rollSegment_def syncLocked_def openSegment_def
  openWrite_def fileFor_def maybeSync_def noteSegRecord_def set_seg_def seg_bytes_def has_seg_def rec_bytes_def be_bytes_def
  headerSize_def syncEveryBytes_def syncEvery_def cursorSyncEvery_def byte_marshal_def byte_unmarshal_def Next_def AckN_def
  cleanup_def dropSegment_def readCur_def entry_span_def be_val_def

text \<open>Two packets in one segment, the first of them confirmed, no cursor written.\<close>

definition roomy :: options where
  "roomy = \<lparr>op_maxBytes = 100, op_segBytes = 100, op_retention = None\<rparr>"

definition one_acked :: spool where
  "one_acked = (let put = (\<lambda>p st. snd (Append byte_marshal (\<lambda>_. 0) None True 0 p st)) in
     AckN 1 (snd (Next byte_unmarshal 1 (put 8 (put 7 (fresh roomy 0))))))"

lemma one_acked_rep: "spool_rep byte_marshal byte_unmarshal one_acked [8] 0"
proof -
  let ?put = "\<lambda>p st. Append byte_marshal (\<lambda>_. 0) None True 0 p st"
  define s1 where "s1 = snd (?put 7 (fresh roomy 0))"
  define s2 where "s2 = snd (?put 8 s1)"
  have a: "fst (?put 7 (fresh roomy 0)) = Inr ()" "fst (?put 8 s1) = Inr ()"
    by (simp_all add: s1_def fresh_def new_queue_def roomy_def empty_disk_def run_simps)
  have "spool_rep byte_marshal byte_unmarshal s1 [7] 0"
    using spool_q.append_law [OF fresh_rep prod.collapse [symmetric], of "\<lambda>_. 0" 0 7 roomy 0] a by (simp add: s1_def)
  from spool_q.append_law [OF this prod.collapse [symmetric], of "\<lambda>_. 0" 0 8]
  have r2: "spool_rep byte_marshal byte_unmarshal s2 [7, 8] 0" using a by (simp add: s2_def)
  from spool_q.fetch_law [OF this prod.collapse [symmetric], of 1]
  obtain m where "spool_rep byte_marshal byte_unmarshal (snd (Next byte_unmarshal 1 s2)) [7, 8] m" "0 < m" "m \<le> 1" by auto
  then have "spool_rep byte_marshal byte_unmarshal (snd (Next byte_unmarshal 1 s2)) [7, 8] 1"
    by (simp add: le_Suc_eq)
  from spool_q.ack_law [OF this, of 1] show ?thesis by (simp add: one_acked_def Let_def s1_def s2_def)
qed

lemma one_acked_disk:
  "dk_cursor (snd one_acked) = None" "readCur (fst one_acked) = pos 1 5"
  "seg_bytes (snd one_acked) 1 = [0, 0, 0, 1, 7, 0, 0, 0, 1, 8]" "has_seg (snd one_acked) 1"
  by (simp_all add: one_acked_def fresh_def new_queue_def roomy_def empty_disk_def run_simps)

lemma one_acked_since: "since_cursor byte_unmarshal one_acked [7]"
proof -
  have s: "start_cursor (snd one_acked) = pos 1 0" using one_acked_disk by (simp add: start_cursor_def loadCursor_def)
  have "laid (snd one_acked) (pos 1 0) [(\<lparr>en_seg = 1, en_off = 0, en_n = 1\<rparr>, [7])] (readCur (fst one_acked))"
    using one_acked_disk le4
    by (simp add: hop_def rec_at_def after_def entry_span_def headerSize_def rec_bytes_def be_bytes_def)
  then show ?thesis unfolding since_cursor_def case_prod_beta s using one_acked_disk
    by (auto simp: all_segs_def byte_unmarshal_def le_antisym intro!: exI [of _ "[(\<lparr>en_seg = 1, en_off = 0, en_n = 1\<rparr>, [7])]"])
qed

lemma crash_in_append_recovers_witness:
  "dk_cursor (snd one_acked) = None \<and>
   (\<exists>q d. Open roomy 9 (snd (snd (Append byte_marshal (\<lambda>_. 0) (Some 3) True 0 9 one_acked))) = (Inr q, d) \<and>
    spool_rep byte_marshal byte_unmarshal (q, d) [7, 8] 0)"
  using crash_in_append_recovers [OF one_acked_rep one_acked_since, of 9 "[9]" 3 roomy 9 "\<lambda>_. 0" 0] one_acked_disk(1)
  by (simp add: byte_marshal_def headerSize_def)

end
