(* ===== verification/Spool_Faults.thy ===== *)
theory Spool_Faults imports Spool_Props begin

text \<open>
  Two ways to lose what the spool has accepted: a crash between the removal of a segment and the next
  cursor write, and a write that failed half way.
\<close>

section \<open>The cursor that names a removed segment\<close>

lemma open_missing_segment:
  assumes ne: "listSegments d \<noteq> []" and gt: "\<forall>s \<in> set (listSegments d). cur_seg (start_cursor d) < s"
  shows "\<exists>i. Open opts now d = (Inl (EOpen (cur_seg (start_cursor d))),
    d\<lparr>dk_cursor := Some (pos (last (listSegments d)) (length (seg_bytes d (last (listSegments d))))), dk_idx := i\<rparr>)"
proof -
  define m where "m = last (listSegments d)"
  define len where "len = length (seg_bytes d m)"
  define c where "c = start_cursor d"
  have h: "has_seg d s \<longleftrightarrow> s \<in> set (listSegments d)" for s
    unfolding has_seg_def listSegments_def by (simp add: map_of_eq_None_iff)
  have hm: "has_seg d m" using ne h by (simp add: m_def)
  have cm: "cur_seg c < m" and nc: "\<not> has_seg d (cur_seg c)" using gt ne h by (auto simp: m_def c_def)
  define q1 where "q1 = (new_queue opts now)\<lparr>q_wrCur := pos m len, q_files := [m], q_wrPos := len, q_wrOpen := True\<rparr>"
  have ow: "openWrite ((new_queue opts now)\<lparr>q_wrCur := pos m len\<rparr>, d) = (Inr (), q1, d)"
    using hm by (simp add: openWrite_def fileFor_def q1_def new_queue_def)
  obtain M where lm: "loadSegMeta (listSegments d) (q1, d) = (q1\<lparr>q_segMeta := M\<rparr>, d)" by (simp add: loadSegMeta_def)
  have fil: "filter (\<lambda>s. s < cur_seg c) (listSegments d) = []" using gt by (auto simp: filter_empty_conv c_def)
  have "fileFor (cur_seg c) (q1\<lparr>q_segMeta := M\<rparr>, d) = (Inl (EOpen (cur_seg c)), q1\<lparr>q_segMeta := M\<rparr>, d)"
    using cm nc by (simp add: fileFor_def q1_def)
  then have sc: "scanFrom (cur_seg c) (cur_off c) (q1\<lparr>q_segMeta := M\<rparr>, d) = (Inl (EOpen (cur_seg c)), q1\<lparr>q_segMeta := M\<rparr>, d)"
    by (subst scanFrom.simps) simp
  have "recover (new_queue opts now, d) = (Inl (EOpen (cur_seg c)), q1\<lparr>q_segMeta := M\<rparr>, d)"
    unfolding recover_def Let_def fst_conv snd_conv
    using ne ow sc by (simp add: m_def [symmetric] len_def [symmetric] lm start_cursor_def [symmetric] c_def [symmetric] fil)
  then have "Open opts now d = (Inl (EOpen (cur_seg c)), snd (snd (Close True now (q1\<lparr>q_segMeta := M\<rparr>, d))))"
    by (simp add: Open_def)
  also have "snd (snd (Close True now (q1\<lparr>q_segMeta := M\<rparr>, d))) = d\<lparr>dk_cursor := Some (pos m len), dk_idx := dk_idx d ++ M\<rparr>"
    by (simp add: Close_def q1_def new_queue_def syncLocked_def persistCursor_def saveAllSegMeta_def readCur_def)
  finally show ?thesis unfolding c_def m_def len_def by blast
qed

text \<open>A crash in the wrong moment loses every unconfirmed packet.  \<open>AckN\<close> removes a consumed segment at
  once but writes the cursor only every 512 confirmations, so after a crash the stored cursor (or the default
  position when none was ever written) may name a segment before all existing ones.  \<open>Open\<close> then fails, because
  \<open>os.IsNotExist\<close> does not recognise the wrapped error; the failed \<open>Open\<close> closes the queue, which overwrites the cursor
  with the write position; and the next \<open>Open\<close> succeeds with an empty queue, whatever the segments hold.\<close>

theorem crash_before_cursor_write_loses_backlog:
  assumes "listSegments d \<noteq> []" and "\<forall>s \<in> set (listSegments d). cur_seg (start_cursor d) < s"
  shows "fst (Open opts now d) = Inl (EOpen (cur_seg (start_cursor d))) \<and>
    (\<exists>q' d'. Open opts' now' (snd (Open opts now d)) = (Inr q', d') \<and> Depth (q', d') = (0, 0))"
proof -
  define m where "m = last (listSegments d)"
  let ?c = "pos m (length (seg_bytes d m))"
  obtain i where o: "Open opts now d = (Inl (EOpen (cur_seg (start_cursor d))), d\<lparr>dk_cursor := Some ?c, dk_idx := i\<rparr>)"
    using open_missing_segment [OF assms] m_def by blast
  let ?d1 = "d\<lparr>dk_cursor := Some ?c, dk_idx := i\<rparr>"
  have h: "has_seg ?d1 s \<longleftrightarrow> s \<in> set (listSegments d)" for s
    unfolding has_seg_def listSegments_def by (simp add: map_of_eq_None_iff)
  have mm: "m \<in> set (listSegments d)" using assms(1) by (simp add: m_def)
  have "\<forall>x \<in> set xs. x \<le> last xs" if "sorted xs" for xs :: "nat list"
    using that by (induction xs rule: rev_induct) (auto simp: sorted_append)
  then have mx: "\<forall>s \<in> set (listSegments d). s \<le> m" unfolding m_def by (simp add: listSegments_def)
  have z: "0 < m" using assms(2) mm by force
  have sb: "seg_bytes ?d1 s = seg_bytes d s" for s by (simp add: seg_bytes_def)
  have "stored ?d1 ?c [] ?c" using mm mx z by (simp add: stored_def hop_def all_segs_def h sb le_antisym)
  moreover have "start_cursor ?d1 = ?c" using z by (simp add: start_cursor_some)
  ultimately obtain q' d' where "Open opts' now' ?d1 = (Inr q', d')" "spool_inv (q', d') []"
    using Open_stored by blast
  then show ?thesis using o by (auto simp: Depth_def spool_inv_def)
qed

text \<open>Two packets, one segment each; the first is confirmed and its segment removed; no cursor is written.\<close>

definition two_one_acked :: spool where
  "two_one_acked = (let put = (\<lambda>p st. snd (Append byte_marshal (\<lambda>_. 0) None True 0 p st)) in
     AckN 1 (snd (Next byte_unmarshal 1 (put 8 (put 7 (fresh small 0))))))"

lemma crash_before_cursor_write_loses_backlog_witness:
  "Depth two_one_acked = (1, 5) \<and> fst (Next byte_unmarshal 1 two_one_acked) = Inr [8] \<and>
   fst (Open small 0 (snd two_one_acked)) = Inl (EOpen 1) \<and>
   (\<exists>q' d'. Open small 0 (snd (Open small 0 (snd two_one_acked))) = (Inr q', d') \<and> Depth (q', d') = (0, 0))"
proof -
  have a: "listSegments (snd two_one_acked) = [2]" "start_cursor (snd two_one_acked) = pos 1 0"
    "Depth two_one_acked = (1, 5)" "fst (Next byte_unmarshal 1 two_one_acked) = Inr [8]"
    by (simp_all add: two_one_acked_def fresh_def new_queue_def small_def empty_disk_def run_simps Depth_def listSegments_def
      start_cursor_def loadCursor_def)
  have "fst (Open small 0 (snd two_one_acked)) = Inl (EOpen (cur_seg (start_cursor (snd two_one_acked)))) \<and>
   (\<exists>q' d'. Open small 0 (snd (Open small 0 (snd two_one_acked))) = (Inr q', d') \<and> Depth (q', d') = (0, 0))"
    by (rule crash_before_cursor_write_loses_backlog) (simp_all add: a)
  then show ?thesis using a by simp
qed

section \<open>A write that failed half way\<close>

lemma Append_room:
  assumes "marshal p = Some rc" and "q_bytes q + (headerSize + length rc) \<le> q_maxBytes q" and "\<not> q_closed q"
  shows "Append marshal stamp fault sync_ok now p (q, d) =
    (case writeRecord fault sync_ok now rc (q, d) of
       (Inl e, q1, d1) \<Rightarrow> (Inl e, q1\<lparr>q_dropped := q_dropped q1 + 1\<rparr>, d1)
     | (Inr _, q1, d1) \<Rightarrow>
         (let q2 = noteSegRecord (cur_seg (q_wrCur q1)) (stamp p) now (headerSize + length rc) q1;
              q3 = q2\<lparr>q_entries := q_entries q2 @
                     [\<lparr>en_seg = cur_seg (q_wrCur q2), en_off = cur_off (q_wrCur q2), en_n = length rc\<rparr>],
                   q_wrCur := (q_wrCur q2)\<lparr>cur_off := cur_off (q_wrCur q2) + (headerSize + length rc)\<rparr>,
                   q_bytes := q_bytes q2 + (headerSize + length rc)\<rparr>;
              (r, q4) = maybeSync sync_ok now (headerSize + length rc) q3 in
          (r, q4, d1)))"
  using assms unfolding Append_def by (simp add: Let_def)

text \<open>A write that failed after \<open>j\<close> bytes shifts every later record.  The write handle stands behind the
  fragment, but the next record is indexed at the old position: the index entry covers the fragment followed by the
  start of the record.\<close>

theorem failed_write_shifts_later_records:
  assumes "spool_inv (q, d) xs" and "cur_off (q_wrCur q) < q_segBytes q"
    and "marshal p1 = Some rc1" and "marshal p2 = Some rc2" and "j < headerSize + length rc1"
    and "q_bytes q + (headerSize + length rc1) \<le> q_maxBytes q" and "q_bytes q + (headerSize + length rc2) \<le> q_maxBytes q"
    and "Append marshal stamp (Some j) True now p1 (q, d) = (r1, st1)"
    and "Append marshal stamp None True now p2 st1 = (r2, q2, d2)"
  shows "r1 = Inl EWrite \<and> r2 = Inr () \<and>
    last (q_entries q2) = \<lparr>en_seg = cur_seg (q_wrCur q), en_off = cur_off (q_wrCur q), en_n = length rc2\<rparr> \<and>
    drop (cur_off (q_wrCur q)) (seg_bytes d2 (cur_seg (q_wrCur q))) = take j (rec_bytes rc1) @ rec_bytes rc2"
proof -
  note inv = assms(1) [unfolded spool_inv_def prod.case]
  define s where "s = cur_seg (q_wrCur q)"
  define c where "c = seg_bytes d s"
  have len: "length c = cur_off (q_wrCur q)" "q_wrPos q = length c" "q_wrOpen q" "\<not> q_closed q"
    using inv by (simp_all add: c_def s_def)
  define f where "f = take j (rec_bytes rc1)"
  let ?q1 = "q\<lparr>q_wrPos := length c + length f, q_dropped := q_dropped q + 1\<rparr>" and ?d1 = "set_seg s (c @ f) d"
  have "writeRecord (Some j) True now rc1 (q, d) = (Inl EWrite, q\<lparr>q_wrPos := length c + length f\<rparr>, ?d1)"
    using assms(2) len by (simp add: writeRecord_def write_handle_def Let_def write_at_end s_def [symmetric] c_def [symmetric] f_def)
  then have "(r1, st1) = (Inl EWrite, ?q1, ?d1)"
    using Append_room [of marshal p1 rc1 q stamp "Some j" True now d, OF assms(3,6) len(4)] assms(8) by simp
  then have st1: "st1 = (?q1, ?d1)" "r1 = Inl EWrite" by simp_all
  let ?q2 = "q\<lparr>q_wrPos := length c + length f + length (rec_bytes rc2), q_dropped := q_dropped q + 1\<rparr>"
  let ?d2 = "set_seg s ((c @ f) @ rec_bytes rc2) ?d1"
  have w2: "writeRecord None True now rc2 (?q1, ?d1) = (Inr (), ?q2, ?d2)"
    using assms(2) len by (simp add: writeRecord_def write_handle_def Let_def write_at_end s_def [symmetric])
  obtain m where m: "noteSegRecord (cur_seg (q_wrCur ?q2)) (stamp p2) now (headerSize + length rc2) ?q2 = ?q2\<lparr>q_segMeta := m\<rparr>"
    using noteSegRecord_eq by blast
  define q3 where "q3 = ?q2\<lparr>q_segMeta := m, q_entries := q_entries q @ [\<lparr>en_seg = s, en_off = length c, en_n = length rc2\<rparr>],
     q_wrCur := (q_wrCur q)\<lparr>cur_off := length c + (headerSize + length rc2)\<rparr>, q_bytes := q_bytes q + (headerSize + length rc2)\<rparr>"
  have o3: "q_wrOpen q3" using len by (simp add: q3_def)
  obtain u t where ms: "maybeSync True now (headerSize + length rc2) q3 = (Inr (), q3\<lparr>q_unsynced := u, q_lastSync := t\<rparr>)"
    using maybeSync_ok [OF o3] by blast
  have b1: "q_bytes ?q1 + (headerSize + length rc2) \<le> q_maxBytes ?q1" "\<not> q_closed ?q1" using assms(7) len by simp_all
  have "Append marshal stamp None True now p2 (?q1, ?d1) = (Inr (), q3\<lparr>q_unsynced := u, q_lastSync := t\<rparr>, ?d2)"
    unfolding Append_room [of marshal p2 rc2, OF assms(4) b1] w2 prod.case sum.case m Let_def
    using ms len by (simp add: q3_def s_def)
  then have "r2 = Inr () \<and> q2 = q3\<lparr>q_unsynced := u, q_lastSync := t\<rparr> \<and> d2 = ?d2"
    using assms(9) unfolding st1 by simp
  then show ?thesis using st1 len by (simp add: q3_def s_def [symmetric] f_def)
qed

lemma failed_write_shifts_later_records_witness:
  "\<exists>q2 d2. snd (Append byte_marshal (\<lambda>_. 0) None True 0 9 (snd (Append byte_marshal (\<lambda>_. 0) (Some 2) True 0 7 (fresh small 0)))) = (q2, d2) \<and>
    last (q_entries q2) = \<lparr>en_seg = 1, en_off = 0, en_n = 1\<rparr> \<and> seg_bytes d2 1 = [0, 0, 0, 0, 0, 1, 9] \<and>
    fst (Next byte_unmarshal 1 (q2, d2)) = Inl EUnmarshal"
proof -
  obtain q d where f: "fresh small 0 = (q, d)" by (cases "fresh small 0")
  obtain r1 st1 where a1: "Append byte_marshal (\<lambda>_. 0) (Some 2) True 0 7 (q, d) = (r1, st1)"
    by (cases "Append byte_marshal (\<lambda>_. 0) (Some 2) True 0 7 (q, d)")
  obtain r2 q2 d2 where a2: "Append byte_marshal (\<lambda>_. 0) None True 0 9 st1 = (r2, q2, d2)"
    by (cases "Append byte_marshal (\<lambda>_. 0) None True 0 9 st1") auto
  have q: "q_wrCur q = pos 1 0" "q_bytes q = 0" "q_maxBytes q = 100" "q_segBytes q = 4"
    using f by (auto simp: fresh_def new_queue_def small_def)
  have "seg_bytes d2 1 = take 2 (rec_bytes [7]) @ rec_bytes [9]" "last (q_entries q2) = \<lparr>en_seg = 1, en_off = 0, en_n = 1\<rparr>"
    using failed_write_shifts_later_records [of q d "[]" byte_marshal 7 "[7]" 9 "[9]" 2 "\<lambda>_. 0" 0 r1 st1 r2 q2 d2]
      fresh_inv [of small 0] a1 a2 by (simp_all add: f q byte_marshal_def headerSize_def)
  moreover have "take 2 (rec_bytes [7]) @ rec_bytes [9] = [0, 0, 0, 0, 0, 1, 9]" by code_simp
  moreover have "fst (Next byte_unmarshal 1 (snd (Append byte_marshal (\<lambda>_. 0) None True 0 9
      (snd (Append byte_marshal (\<lambda>_. 0) (Some 2) True 0 7 (fresh small 0)))))) = Inl EUnmarshal"
    by (simp add: fresh_def new_queue_def small_def empty_disk_def run_simps Let_def)
  ultimately show ?thesis using f a1 a2 by simp
qed

end
