(* ===== verification/Spool_Retention.thy ===== *)
theory Spool_Retention imports Spool_Faults begin

text \<open>
  The archive mode of the spool, \<open>pkg/spool/retention.go\<close>: confirmed segments stay on disk until
  \<open>EnforceRetention\<close> removes them by age or size, and can be listed and read back.

  A Go map is iterated in no particular order, so each operation that ranges over \<open>segMeta\<close> takes the
  order as an argument: a list of the segments.  \<open>now\<close> of \<open>EnforceRetention\<close> is in nanoseconds.
\<close>

section \<open>Retention\<close>

definition EnableRetention :: "retention option \<Rightarrow> spool \<Rightarrow> spool" where
  "EnableRetention r st = (case st of (q, d) \<Rightarrow> (q\<lparr>q_retention := r\<rparr>, d))"

text \<open>A segment without metadata is measured on disk, which may open its file.\<close>

definition segFullyConfirmed :: "nat \<Rightarrow> spool \<Rightarrow> bool \<times> spool" where
  "segFullyConfirmed s st =
    (let head = readCur (fst st) in
     if cur_seg head > s then (True, st)
     else if cur_seg head < s then (False, st)
     else
       (case q_segMeta (fst st) s of
          Some m \<Rightarrow> (cur_off head \<ge> si_bytes m, st)
        | None \<Rightarrow>
           (case fileFor s st of
              (Inl e, st1) \<Rightarrow> (True, st1)
            | (Inr _, st1) \<Rightarrow> (cur_off head \<ge> length (seg_bytes (snd st1) s), st1))))"

definition confirmed_total :: "nat list \<Rightarrow> spool \<Rightarrow> int \<times> spool" where
  "confirmed_total order st = fold (\<lambda>s (tot, st). let (c, st1) = segFullyConfirmed s st in
     (if c then tot + int (case q_segMeta (fst st) s of Some m \<Rightarrow> si_bytes m | None \<Rightarrow> 0) else tot, st1)) order (0, st)"

definition enforce_one :: "retention \<Rightarrow> int \<Rightarrow> nat \<Rightarrow> nat \<times> int \<times> spool \<Rightarrow> nat \<times> int \<times> spool" where
  "enforce_one r cutoff s x = (case x of (removed, tot, st) \<Rightarrow>
     (case q_segMeta (fst st) s of
        None \<Rightarrow> x
      | Some m \<Rightarrow>
         (let (c, st1) = segFullyConfirmed s st in
          if \<not> c then (removed, tot, st1)
          else
            (let expired = (cutoff > 0 \<and> si_last m > 0 \<and> si_last m < cutoff);
                 overBudget = (rt_maxBytes r > 0 \<and> tot > int (rt_maxBytes r)) in
             if \<not> expired \<and> \<not> overBudget then (removed, tot, st1)
             else (removed + 1, tot - int (si_bytes m), dropSegment s st1)))))"

definition EnforceRetention :: "nat list \<Rightarrow> nat list \<Rightarrow> int \<Rightarrow> spool \<Rightarrow> nat \<times> spool" where
  "EnforceRetention order1 order2 now st =
    (case q_retention (fst st) of
       None \<Rightarrow> (0, st)
     | Some r \<Rightarrow>
        (if q_closed (fst st) then (0, st)
         else
           (let cutoff = (if rt_maxAge r > 0 then (now - rt_maxAge r) div 1000000 else 0);
                (tot, st1) = confirmed_total order1 st;
                (removed, _, st2) = fold (enforce_one r cutoff) order2 (0, tot, st1) in
            (removed, if removed > 0 then saveAllSegMeta st2 else st2))))"

section \<open>Observation\<close>

record retention_stats =
  rs_segments :: nat
  rs_total :: int
  rs_confirmed :: int
  rs_pending :: int

definition RetentionStats :: "nat list \<Rightarrow> spool \<Rightarrow> retention_stats \<times> spool" where
  "RetentionStats order st =
    (let (x, st2) = fold (\<lambda>s (x, st).
            (let b = int (case q_segMeta (fst st) s of Some m \<Rightarrow> si_bytes m | None \<Rightarrow> 0);
                 x1 = x\<lparr>rs_total := rs_total x + b\<rparr>; (c, st1) = segFullyConfirmed s st in
             (if c then x1\<lparr>rs_confirmed := rs_confirmed x1 + b\<rparr> else x1, st1)))
          order (\<lparr>rs_segments = length order, rs_total = 0, rs_confirmed = 0, rs_pending = 0\<rparr>, st) in
     (x\<lparr>rs_pending := rs_total x - rs_confirmed x\<rparr>, st2))"

record segment_info =
  sg_id :: string
  sg_first :: int
  sg_last :: int
  sg_packets :: nat
  sg_bytes :: nat
  sg_link :: nat

definition segIDString :: "nat \<Rightarrow> string" where
  "segIDString s = ''seg-'' @ replicate (9 - length (show_nat s)) (CHR ''0'') @ show_nat s"

definition firstLinkType :: "(byte list \<Rightarrow> 'p option) \<Rightarrow> ('p \<Rightarrow> nat) \<Rightarrow> nat \<Rightarrow> spool \<Rightarrow> (spool_err + nat) \<times> spool" where
  "firstLinkType unmarshal link s st =
    (case fileFor s st of
       (Inl e, st1) \<Rightarrow> (Inl e, st1)
     | (Inr _, st1) \<Rightarrow>
        (let c = seg_bytes (snd st1) s in
         if length c < headerSize then (Inl (ERead s), st1)
         else
           (let n = be_val (take headerSize c); body = drop headerSize c in
            if length body < n then (Inl (ERead s), st1)
            else (case unmarshal (take n body) of
                None \<Rightarrow> (Inl EUnmarshal, st1) | Some p \<Rightarrow> (Inr (link p), st1)))))"

definition seg_summary :: "(byte list \<Rightarrow> 'p option) \<Rightarrow> ('p \<Rightarrow> nat) \<Rightarrow> nat \<Rightarrow> segment_info list \<times> spool \<Rightarrow> segment_info list \<times> spool" where
  "seg_summary unmarshal link s x = (case x of (out, st) \<Rightarrow>
     (case q_segMeta (fst st) s of
        None \<Rightarrow> x
      | Some m \<Rightarrow>
         (if si_packets m = 0 then x
          else
            (let (r, st1) = firstLinkType unmarshal link s st in
             (out @ [\<lparr>sg_id = segIDString s, sg_first = si_first m, sg_last = si_last m, sg_packets = si_packets m,
                      sg_bytes = si_bytes m, sg_link = (case r of Inr l \<Rightarrow> l | Inl _ \<Rightarrow> 0)\<rparr>], st1)))))"

text \<open>One step of the insertion sort: the element moves left over the larger ones before it.\<close>

definition place :: "segment_info \<Rightarrow> segment_info list \<Rightarrow> segment_info list" where
  "place x ys = rev (dropWhile (\<lambda>y. sg_first x < sg_first y) (rev ys)) @ x #
     rev (takeWhile (\<lambda>y. sg_first x < sg_first y) (rev ys))"

definition Segments :: "(byte list \<Rightarrow> 'p option) \<Rightarrow> ('p \<Rightarrow> nat) \<Rightarrow> nat list \<Rightarrow> spool \<Rightarrow> segment_info list \<times> spool" where
  "Segments unmarshal link order st =
    (let (out, st1) = fold (seg_summary unmarshal link) order ([], st) in (fold place out [], st1))"

section \<open>Reading a segment back\<close>

text \<open>\<open>fmt.Sscanf\<close> with \<open>%d\<close> into an unsigned 64-bit variable: spaces are skipped, then digits are read up to
  the first other character; what follows is ignored.  Spaces are the ASCII ones.\<close>

definition is_space :: "char \<Rightarrow> bool" where
  "is_space c \<longleftrightarrow> (of_char c :: nat) \<in> {9, 11, 12, 13, 32}"

definition is_digit :: "char \<Rightarrow> bool" where
  "is_digit c \<longleftrightarrow> 48 \<le> (of_char c :: nat) \<and> (of_char c :: nat) < 58"

definition scan_uint64 :: "string \<Rightarrow> nat option" where
  "scan_uint64 s =
    (let ds = takeWhile is_digit (dropWhile is_space s) in
     if ds = [] \<or> digits_val ds \<ge> 2 ^ 64 then None else Some (digits_val ds))"

definition trim_prefix :: "string \<Rightarrow> string \<Rightarrow> string" where
  "trim_prefix s p = (if has_prefix s p then drop (length p) s else s)"

definition trim_suffix :: "string \<Rightarrow> string \<Rightarrow> string" where
  "trim_suffix s p = (if has_prefix (rev s) (rev p) then take (length s - length p) s else s)"

definition parseSegID :: "string \<Rightarrow> nat option" where
  "parseSegID s = scan_uint64 (trim_suffix (trim_prefix s ''seg-'') ''.bin'')"

datatype 'e read_err = RBadID | ROpen spool_err | RShort | RUnmarshal | RStop 'e

text \<open>The loop over the records of a file \<open>c\<close>, up to the size it had when the reading began; \<open>fn\<close> threads a
  state of its own.\<close>

function read_segment_loop ::
  "(byte list \<Rightarrow> 'p option) \<Rightarrow> ('p \<Rightarrow> 'a \<Rightarrow> 'e + 'a) \<Rightarrow> byte list \<Rightarrow> nat \<Rightarrow> nat \<Rightarrow> 'a \<Rightarrow> ('e read_err + unit) \<times> 'a" where
  "read_segment_loop unmarshal fn c sz tot a =
    (if tot < sz then
       (if length c < headerSize then (Inr (), a)
        else
          (let n = be_val (take headerSize c); body = drop headerSize c in
           if n = 0 \<or> tot + headerSize + n > sz then (Inr (), a)
           else if length body < n then (Inl RShort, a)
           else
             (case unmarshal (take n body) of
                None \<Rightarrow> (Inl RUnmarshal, a)
              | Some p \<Rightarrow>
                 (case fn p a of
                    Inl e \<Rightarrow> (Inl (RStop e), a)
                  | Inr a1 \<Rightarrow> read_segment_loop unmarshal fn (drop n body) sz (tot + headerSize + n) a1))))
     else (Inr (), a))"
  by pat_completeness auto
termination
  by (relation "measure (\<lambda>(u, fn, c, sz, tot, a). sz - tot)") (auto simp: headerSize_def)

declare read_segment_loop.simps [simp del]

definition ReadSegment ::
  "(byte list \<Rightarrow> 'p option) \<Rightarrow> string \<Rightarrow> ('p \<Rightarrow> 'a \<Rightarrow> 'e + 'a) \<Rightarrow> byte list \<Rightarrow> 'a \<Rightarrow> spool \<Rightarrow> ('e read_err + unit) \<times> 'a \<times> spool" where
  "ReadSegment unmarshal segID fn later a st =
    (case parseSegID segID of
       None \<Rightarrow> (Inl RBadID, a, st)
     | Some s \<Rightarrow>
        (case fileFor s st of
           (Inl e, st1) \<Rightarrow> (Inl (ROpen e), a, st1)
         | (Inr _, st1) \<Rightarrow>
            (let c = seg_bytes (snd st1) s in
             if \<not> has_seg (snd st1) s then (Inl (ROpen (EOpen s)), a, st1)
             else (let (r, a1) = read_segment_loop unmarshal fn (c @ later) (length c) 0 a in (r, a1, st1)))))"

end
