(* ===== verification/Spool_Archive.thy ===== *)
theory Spool_Archive imports Spool_Retention begin

text \<open>
  What the archive keeps: \<open>EnforceRetention\<close> leaves unconfirmed records alone as long as the metadata of
  the segment being read counts all its bytes, a segment reads back as the records written to it, and
  its name parses back to its number.
\<close>

section \<open>Unconfirmed records\<close>

text \<open>The metadata of the segment at the read position covers what is on disk.\<close>

definition meta_covers :: "spool \<Rightarrow> bool" where
  "meta_covers st \<longleftrightarrow> (case q_segMeta (fst st) (cur_seg (readCur (fst st))) of
     None \<Rightarrow> True | Some m \<Rightarrow> length (seg_bytes (snd st) (cur_seg (readCur (fst st)))) \<le> si_bytes m)"

definition same_view :: "spool \<Rightarrow> spool \<Rightarrow> bool" where
  "same_view st st' \<longleftrightarrow> q_nextIdx (fst st') = q_nextIdx (fst st) \<and> q_entries (fst st') = q_entries (fst st) \<and>
     q_maxBytes (fst st') = q_maxBytes (fst st) \<and> q_retention (fst st') = q_retention (fst st)"

lemma head_unread: "spool_inv (q, d) (x # xs) \<Longrightarrow> cur_off (readCur q) < length (seg_bytes d (cur_seg (readCur q)))"
proof -
  assume i: "spool_inv (q, d) (x # xs)"
  have e: "q_entries q = map fst (x # xs)" and l: "laid d (readCur q) (x # xs) (q_wrCur q)"
    using i unfolding spool_inv_def prod.case by blast+
  have r: "readCur q = pos (en_seg (fst x)) (en_off (fst x))" using e by (simp add: readCur_def)
  have "rec_at d x" using l by simp
  then show ?thesis by (simp add: r rec_at_def entry_span_def headerSize_def)
qed

lemma confirmed_before:
  assumes i: "spool_inv (q, d) (x # xs)" and m: "meta_covers (q, d)" and s: "q_segMeta q s = Some mt"
  shows "segFullyConfirmed s (q, d) = (s < cur_seg (readCur q), q, d)"
  using head_unread [OF i] m s by (auto simp: segFullyConfirmed_def Let_def meta_covers_def)

lemma drop_before:
  assumes i: "spool_inv (q, d) xs" and s: "s < cur_seg (readCur q)" and m: "meta_covers (q, d)"
  shows "spool_inv (dropSegment s (q, d)) xs \<and> meta_covers (dropSegment s (q, d)) \<and> same_view (q, d) (dropSegment s (q, d))"
proof -
  have "spool_inv (fold dropSegment [s] (q, d)) xs" using fold_drop_inv [OF i, of "[s]"] s by simp
  moreover have "readCur (fst (fold dropSegment [s] (q, d))) = readCur q" by (rule fold_drop_readCur)
  moreover have "seg_bytes (snd (fold dropSegment [s] (q, d))) (cur_seg (readCur q)) = seg_bytes d (cur_seg (readCur q))"
    using seg_bytes_drop [of "[s]" q d] s by simp
  ultimately show ?thesis using m s
    by (simp add: meta_covers_def same_view_def dropSegment_def split: option.splits)
qed

lemma enforce_one_keeps:
  assumes "spool_inv st (x # xs)" and "meta_covers st" and "enforce_one r cutoff s (n, tot, st) = (n', tot', st')"
  shows "spool_inv st' (x # xs) \<and> meta_covers st' \<and> same_view st st'"
proof -
  obtain q d where st: "st = (q, d)" by (cases st)
  show ?thesis
  proof (cases "q_segMeta q s")
    case None
    then show ?thesis using assms by (auto simp: enforce_one_def st same_view_def)
  next
    case (Some m)
    note c = confirmed_before [OF assms(1,2) [unfolded st] Some]
    have "st' = st \<or> (s < cur_seg (readCur q) \<and> st' = dropSegment s (q, d))"
      using assms(3) Some unfolding enforce_one_def st prod.case fst_conv Some option.case c Let_def
      by (auto split: if_splits)
    then show ?thesis using drop_before [OF assms(1) [unfolded st], of s] assms(1,2)
      by (auto simp: st same_view_def)
  qed
qed

lemma enforce_fold_keeps:
  "spool_inv st (x # xs) \<Longrightarrow> meta_covers st \<Longrightarrow> fold (enforce_one r cutoff) order (n, tot, st) = (n', tot', st') \<Longrightarrow>
     spool_inv st' (x # xs) \<and> same_view st st'"
proof (induction order arbitrary: n tot st)
  case Nil
  then show ?case by (simp add: same_view_def)
next
  case (Cons s order)
  obtain n1 t1 st1 where e: "enforce_one r cutoff s (n, tot, st) = (n1, t1, st1)" by (cases "enforce_one r cutoff s (n, tot, st)")
  note k = enforce_one_keeps [OF Cons.prems(1,2) e]
  have "fold (enforce_one r cutoff) order (n1, t1, st1) = (n', tot', st')" using Cons.prems(3) e by simp
  from Cons.IH [OF conjunct1 [OF k] conjunct1 [OF conjunct2 [OF k]] this] k show ?case
    by (auto simp: same_view_def)
qed

lemma confirmed_total_pure:
  assumes "spool_inv (q, d) (x # xs)" and "meta_covers (q, d)" and "\<forall>s \<in> set order. q_segMeta q s \<noteq> None"
  shows "snd (confirmed_total order (q, d)) = (q, d)"
proof -
  have "snd (fold (\<lambda>s (tot, st). let (c, st1) = segFullyConfirmed s st in
     (if c then tot + int (case q_segMeta (fst st) s of Some m \<Rightarrow> si_bytes m | None \<Rightarrow> 0) else tot, st1)) order (t, q, d)) = (q, d)" for t
    using assms(3) by (induction order arbitrary: t) (auto simp: confirmed_before [OF assms(1,2)])
  then show ?thesis by (simp add: confirmed_total_def)
qed

lemma EnforceRetention_keeps:
  assumes i: "spool_inv st (x # xs)" and m: "meta_covers st" and o: "\<forall>s \<in> set order1. q_segMeta (fst st) s \<noteq> None"
  shows "spool_inv (snd (EnforceRetention order1 order2 now st)) (x # xs) \<and>
    same_view st (snd (EnforceRetention order1 order2 now st))"
proof (cases "q_retention (fst st)")
  case None
  then show ?thesis using i by (simp add: EnforceRetention_def same_view_def)
next
  case (Some r)
  obtain q d where st: "st = (q, d)" by (cases st)
  have c: "\<not> q_closed q" using i by (simp add: st spool_inv_def)
  obtain tot where t: "confirmed_total order1 (q, d) = (tot, q, d)"
    using confirmed_total_pure [of q d x xs order1] i m o by (cases "confirmed_total order1 (q, d)") (auto simp: st)
  let ?cut = "if rt_maxAge r > 0 then (now - rt_maxAge r) div 1000000 else 0"
  obtain n' tot' st' where f: "fold (enforce_one r ?cut) order2 (0, tot, q, d) = (n', tot', st')"
    by (cases "fold (enforce_one r ?cut) order2 (0, tot, q, d)")
  note k = enforce_fold_keeps [OF i [unfolded st] m [unfolded st] f]
  obtain q' d' where st': "st' = (q', d')" by (cases st')
  have "snd (EnforceRetention order1 order2 now st) = st' \<or> snd (EnforceRetention order1 order2 now st) = saveAllSegMeta st'"
    using Some c t f by (auto simp: EnforceRetention_def st Let_def)
  moreover have "spool_inv (saveAllSegMeta st') (x # xs) \<and> same_view (q, d) (saveAllSegMeta st')"
    using k by (simp add: saveAllSegMeta_def st' same_view_def)
  ultimately show ?thesis using k by (auto simp: st)
qed

text \<open>Retention never removes unconfirmed records.  While packets wait for confirmation and the metadata of
  the segment at the read position counts all its bytes, \<open>EnforceRetention\<close> leaves the queue exactly as it was for
  its client, whatever the age and size limits and the order in which the segments are visited.\<close>

theorem EnforceRetention_keeps_unconfirmed:
  assumes "spool_rep marshal unmarshal st ps k" and "ps \<noteq> []" and "meta_covers st"
    and "\<forall>s \<in> set order1. q_segMeta (fst st) s \<noteq> None"
  shows "spool_rep marshal unmarshal (snd (EnforceRetention order1 order2 now st)) ps k"
proof -
  obtain q d xs where st: "st = (q, d)" "codec_ok marshal unmarshal" "spool_inv (q, d) xs" "q_nextIdx q = k"
    "map (unmarshal \<circ> snd) xs = map Some ps" using rep_elim [OF assms(1)] by metis
  then obtain y ys where xs: "xs = y # ys" using assms(2) by (cases xs) auto
  from EnforceRetention_keeps [of st y ys order1 order2 now] assms(3,4) st show ?thesis
    unfolding spool_rep_def xs same_view_def by auto
qed

definition archive :: options where
  "archive = \<lparr>op_maxBytes = 100, op_segBytes = 50, op_retention = Some \<lparr>rt_maxAge = 1000000, rt_maxBytes = 0\<rparr>\<rparr>"

lemma EnforceRetention_keeps_unconfirmed_witness:
  "\<exists>st. st = snd (Append byte_marshal (\<lambda>_. 5000000) None True 0 7 (fresh archive 0)) \<and> q_segMeta (fst st) 1 \<noteq> None \<and>
     spool_rep byte_marshal byte_unmarshal (snd (EnforceRetention [1] [1] 90000000 st)) [7] 0"
proof -
  let ?st = "snd (Append byte_marshal (\<lambda>_. 5000000) None True 0 7 (fresh archive 0))"
  have s: "fst (Append byte_marshal (\<lambda>_. 5000000) None True 0 7 (fresh archive 0)) = Inr ()"
    "readCur (fst ?st) = pos 1 0" "q_segMeta (fst ?st) 1 = Some \<lparr>si_first = 5, si_last = 5, si_packets = 1, si_bytes = 5\<rparr>"
    "length (seg_bytes (snd ?st) 1) = 5"
    by (simp_all add: fresh_def new_queue_def archive_def empty_disk_def run_simps)
  have "spool_rep byte_marshal byte_unmarshal ?st [7] 0"
    using Append_rep [OF fresh_rep [of archive 0] prod.collapse [symmetric], of "\<lambda>_. 5000000" 0 7] s(1) by simp
  from EnforceRetention_keeps_unconfirmed [OF this, of "[1]" "[1]" 90000000] s show ?thesis by (simp add: meta_covers_def)
qed

section \<open>Where the metadata misleads\<close>

text \<open>What a step of \<open>EnforceRetention\<close> leaves alone.\<close>

definition frame :: "nat \<Rightarrow> spool \<Rightarrow> spool \<Rightarrow> bool" where
  "frame s st st' \<longleftrightarrow> readCur (fst st') = readCur (fst st) \<and> q_wrCur (fst st') = q_wrCur (fst st) \<and>
     q_entries (fst st') = q_entries (fst st) \<and>
     (\<forall>s'. s' \<noteq> s \<longrightarrow> q_segMeta (fst st') s' = q_segMeta (fst st) s' \<and> (s' \<in> set (q_files (fst st)) \<longrightarrow> s' \<in> set (q_files (fst st')))) \<and>
     (\<forall>s'. has_seg (snd st') s' \<longrightarrow> has_seg (snd st) s') \<and> (q_wrOpen (fst st') \<longrightarrow> q_wrOpen (fst st))"

lemma segFullyConfirmed_frame:
  "segFullyConfirmed s st = (c, st1) \<Longrightarrow> \<exists>fs. st1 = ((fst st)\<lparr>q_files := fs\<rparr>, snd st) \<and> set (q_files (fst st)) \<subseteq> set fs"
  by (cases st)
    (fastforce simp: segFullyConfirmed_def Let_def fileFor_def split: if_splits option.splits sum.splits
      intro: exI [of _ "q_files (fst st)"])

lemma confirmed_known: "q_segMeta (fst st) s = Some m \<Longrightarrow> segFullyConfirmed s st =
    (cur_seg (readCur (fst st)) > s \<or> (cur_seg (readCur (fst st)) = s \<and> cur_off (readCur (fst st)) \<ge> si_bytes m), st)"
  by (auto simp: segFullyConfirmed_def Let_def)

lemma has_seg_dropSegment: "has_seg (snd (dropSegment s (q, d))) s' \<longleftrightarrow> s' \<noteq> s \<and> has_seg d s'"
  using has_seg_drop [of "[s]" q d s'] by simp

lemma dropSegment_frame: "frame s st (dropSegment s st)"
proof -
  obtain q d where st: "st = (q, d)" by (cases st)
  have "readCur (fst (dropSegment s (q, d))) = readCur q" using fold_drop_readCur [of "[s]" q d] by simp
  then show ?thesis using has_seg_dropSegment [of s q d] unfolding frame_def st by (auto simp: dropSegment_def)
qed

lemma frame_same: "frame s st st"
  by (simp add: frame_def)

lemma enforce_one_frame:
  "enforce_one r cutoff s (n, tot, st) = (n', tot', st') \<Longrightarrow> frame s st st' \<and> n \<le> n'"
proof (cases "q_segMeta (fst st) s")
  case None
  moreover assume "enforce_one r cutoff s (n, tot, st) = (n', tot', st')"
  ultimately show ?thesis by (simp add: enforce_one_def frame_same)
next
  case (Some m)
  assume "enforce_one r cutoff s (n, tot, st) = (n', tot', st')"
  then show ?thesis using Some dropSegment_frame [of s st] frame_same [of s st]
    unfolding enforce_one_def prod.case Some option.case confirmed_known [OF Some] Let_def
    by (auto split: if_splits)
qed

text \<open>The segment at the read position goes when its metadata counts no byte behind that position and it is
  older than the limit.\<close>

definition doomed :: "int \<Rightarrow> nat \<Rightarrow> spool \<Rightarrow> bool" where
  "doomed cutoff s st \<longleftrightarrow> cur_seg (readCur (fst st)) = s \<and>
     (case q_segMeta (fst st) s of None \<Rightarrow> False
      | Some m \<Rightarrow> si_bytes m \<le> cur_off (readCur (fst st)) \<and> 0 < cutoff \<and> 0 < si_last m \<and> si_last m < cutoff)"

definition gone :: "nat \<Rightarrow> spool \<Rightarrow> bool" where
  "gone s st \<longleftrightarrow> \<not> has_seg (snd st) s \<and> (s = cur_seg (q_wrCur (fst st)) \<longrightarrow> \<not> q_wrOpen (fst st))"

lemma enforce_one_hits:
  assumes "doomed cutoff s st" and "s \<in> set (q_files (fst st))" and "enforce_one r cutoff s (n, tot, st) = (n', tot', st')"
  shows "gone s st' \<and> n < n'"
proof -
  obtain m where m: "q_segMeta (fst st) s = Some m" using assms(1) by (auto simp: doomed_def split: option.splits)
  have "st' = dropSegment s st \<and> n' = n + 1"
    using assms(3) assms(1) [unfolded doomed_def m option.case]
    unfolding enforce_one_def prod.case m option.case confirmed_known [OF m] Let_def by simp
  then show ?thesis using assms(2) has_seg_dropSegment [of s "fst st" "snd st" s]
    by (simp add: gone_def) (auto simp: dropSegment_def split: prod.splits)
qed

lemma gone_frame: "frame s' st st' \<Longrightarrow> gone s st \<Longrightarrow> gone s st'"
  by (auto simp: gone_def frame_def)

lemma doomed_frame: "frame s' st st' \<Longrightarrow> s' \<noteq> s \<Longrightarrow> doomed cutoff s st \<Longrightarrow> doomed cutoff s st'"
  by (auto simp: doomed_def frame_def split: option.splits)

lemma enforce_fold_gone:
  "gone s st \<Longrightarrow> fold (enforce_one r cutoff) order (n, tot, st) = (n', tot', st') \<Longrightarrow>
     gone s st' \<and> n \<le> n' \<and> q_wrCur (fst st') = q_wrCur (fst st)"
proof (induction order arbitrary: n tot st)
  case Nil
  then show ?case by simp
next
  case (Cons s' order)
  obtain n1 t1 st1 where e: "enforce_one r cutoff s' (n, tot, st) = (n1, t1, st1)" by (cases "enforce_one r cutoff s' (n, tot, st)")
  note f = enforce_one_frame [OF e]
  have "gone s st1" using gone_frame f Cons.prems(1) by blast
  from Cons.IH [OF this] Cons.prems(2) f e show ?case by (force simp: frame_def)
qed

lemma enforce_fold_hits:
  "doomed cutoff s st \<Longrightarrow> s \<in> set (q_files (fst st)) \<Longrightarrow> s \<in> set order \<Longrightarrow>
     fold (enforce_one r cutoff) order (n, tot, st) = (n', tot', st') \<Longrightarrow>
     gone s st' \<and> n < n' \<and> q_wrCur (fst st') = q_wrCur (fst st)"
proof (induction order arbitrary: n tot st)
  case Nil
  then show ?case by simp
next
  case (Cons s' order)
  obtain n1 t1 st1 where e: "enforce_one r cutoff s' (n, tot, st) = (n1, t1, st1)" by (cases "enforce_one r cutoff s' (n, tot, st)")
  note f = enforce_one_frame [OF e]
  have r: "fold (enforce_one r cutoff) order (n1, t1, st1) = (n', tot', st')" using Cons.prems(4) e by simp
  show ?case
  proof (cases "s' = s")
    case True
    note h = enforce_one_hits [OF Cons.prems(1,2) e [unfolded True]]
    from enforce_fold_gone [OF conjunct1 [OF h] r] h f show ?thesis by (auto simp: frame_def)
  next
    case False
    have "doomed cutoff s st1" "s \<in> set (q_files (fst st1))"
      using doomed_frame f False Cons.prems(1,2) by (blast, simp add: frame_def)
    from Cons.IH [OF this _ r] Cons.prems(3) False f show ?thesis by (auto simp: frame_def)
  qed
qed

lemma confirmed_total_frame:
  "\<exists>fs tot. confirmed_total order st = (tot, (fst st)\<lparr>q_files := fs\<rparr>, snd st) \<and> set (q_files (fst st)) \<subseteq> set fs"
proof -
  have "\<exists>fs tot. fold (\<lambda>s (tot, st). let (c, st1) = segFullyConfirmed s st in
     (if c then tot + int (case q_segMeta (fst st) s of Some m \<Rightarrow> si_bytes m | None \<Rightarrow> 0) else tot, st1)) order (t, st) =
     (tot, (fst st)\<lparr>q_files := fs\<rparr>, snd st) \<and> set (q_files (fst st)) \<subseteq> set fs" for t
  proof (induction order arbitrary: t st)
    case Nil
    then show ?case by (intro exI [of _ "q_files (fst st)"]) simp
  next
    case (Cons s order)
    obtain c st1 where c: "segFullyConfirmed s st = (c, st1)" by (cases "segFullyConfirmed s st")
    obtain fs where f: "st1 = ((fst st)\<lparr>q_files := fs\<rparr>, snd st)" "set (q_files (fst st)) \<subseteq> set fs"
      using segFullyConfirmed_frame [OF c] by blast
    obtain gs tot where "fold (\<lambda>s (tot, st). let (c, st1) = segFullyConfirmed s st in
       (if c then tot + int (case q_segMeta (fst st) s of Some m \<Rightarrow> si_bytes m | None \<Rightarrow> 0) else tot, st1)) order
       ((if c then t + int (case q_segMeta (fst st) s of Some m \<Rightarrow> si_bytes m | None \<Rightarrow> 0) else t), st1) =
       (tot, (fst st1)\<lparr>q_files := gs\<rparr>, snd st1)" "set (q_files (fst st1)) \<subseteq> set gs"
      using Cons.IH by blast
    then show ?case using c f by auto
  qed
  then show ?thesis unfolding confirmed_total_def by blast
qed

lemma EnforceRetention_hits:
  assumes "q_retention (fst st) = Some r" and "\<not> q_closed (fst st)" and "rt_maxAge r > 0"
    and "doomed ((now - rt_maxAge r) div 1000000) s st" and "s \<in> set (q_files (fst st))" and "s \<in> set order2"
  shows "gone s (snd (EnforceRetention order1 order2 now st)) \<and>
    q_wrCur (fst (snd (EnforceRetention order1 order2 now st))) = q_wrCur (fst st)"
proof -
  let ?cut = "(now - rt_maxAge r) div 1000000"
  obtain fs tot where t: "confirmed_total order1 st = (tot, (fst st)\<lparr>q_files := fs\<rparr>, snd st)" and fs: "set (q_files (fst st)) \<subseteq> set fs"
    using confirmed_total_frame by blast
  let ?st1 = "((fst st)\<lparr>q_files := fs\<rparr>, snd st)"
  obtain n' tot' st' where f: "fold (enforce_one r ?cut) order2 (0, tot, ?st1) = (n', tot', st')"
    by (cases "fold (enforce_one r ?cut) order2 (0, tot, ?st1)")
  have "doomed ?cut s ?st1" using assms(4) by (simp add: doomed_def readCur_upd split: option.splits)
  moreover have "s \<in> set (q_files (fst ?st1))" using assms(5) fs by auto
  ultimately have g: "gone s st' \<and> 0 < n' \<and> q_wrCur (fst st') = q_wrCur (fst st)"
    using enforce_fold_hits [OF _ _ assms(6) f] by simp
  then have "snd (EnforceRetention order1 order2 now st) = saveAllSegMeta st'"
    using assms(1-3) t f by (simp add: EnforceRetention_def Let_def)
  then show ?thesis using g by (cases st') (simp add: saveAllSegMeta_def gone_def has_seg_def)
qed

text \<open>After a crash retention does remove unconfirmed records.  Segment metadata is written only by \<open>Close\<close> and by
  \<open>EnforceRetention\<close>, so after a crash it counts fewer bytes than the segment holds (none at all when its file is
  missing); a read position at or behind that count makes the segment look fully confirmed, and once it is older
  than the limit it is deleted with all that waits in it.\<close>

theorem stale_metadata_deletes_unconfirmed:
  assumes "q_retention (fst st) = Some r" and "\<not> q_closed (fst st)" and "rt_maxAge r > 0"
    and "q_entries (fst st) = e # es" and "q_segMeta (fst st) (en_seg e) = Some m" and "si_bytes m \<le> en_off e"
    and "0 < si_last m" and "si_last m < (now - rt_maxAge r) div 1000000"
    and "en_seg e \<in> set (q_files (fst st))" and "en_seg e \<in> set order2"
  shows "\<not> has_seg (snd (snd (EnforceRetention order1 order2 now st))) (en_seg e)"
proof -
  have "doomed ((now - rt_maxAge r) div 1000000) (en_seg e) st"
    using assms(4-8) by (simp add: doomed_def readCur_def)
  from EnforceRetention_hits [OF assms(1-3) this assms(9,10), of order1] show ?thesis by (simp add: gone_def)
qed

text \<open>The disk after a crash that follows one \<open>Append\<close>; the file was last written at time 1.\<close>

definition crashed :: disk where
  "crashed = \<lparr>dk_segs = [(1, rec_bytes [7])], dk_cursor = None, dk_idx = Map.empty, dk_mtime = (\<lambda>s. 1)\<rparr>"

lemma stale_metadata_deletes_unconfirmed_witness:
  "\<exists>q d. (snd (snd (Append byte_marshal (\<lambda>_. 5000000) None True 0 7 (fresh archive 0))))\<lparr>dk_mtime := \<lambda>s. 1\<rparr> = crashed \<and>
     Open archive 0 crashed = (Inr q, d) \<and> fst (Next byte_unmarshal 1 (q, d)) = Inr [7] \<and>
     \<not> has_seg (snd (snd (EnforceRetention [1] [1] 90000000 (q, d)))) 1"
proof -
  have c: "(snd (snd (Append byte_marshal (\<lambda>_. 5000000) None True 0 7 (fresh archive 0))))\<lparr>dk_mtime := \<lambda>s. 1\<rparr> = crashed"
    by (simp add: fresh_def new_queue_def archive_def empty_disk_def run_simps crashed_def)
  define st where "st = (case Open archive 0 crashed of (Inr q, d) \<Rightarrow> (q, d) | (Inl _, d) \<Rightarrow> (new_queue archive 0, d))"
  have o: "(case Open archive 0 crashed of (Inr q, d) \<Rightarrow> True | _ \<Rightarrow> False)" by code_simp
  then obtain q d where qd: "Open archive 0 crashed = (Inr q, d)" by (auto split: sum.splits prod.splits)
  then have st: "st = (q, d)" by (simp add: st_def)
  have e: "q_entries (fst st) = [\<lparr>en_seg = 1, en_off = 0, en_n = 1\<rparr>]" "q_retention (fst st) = Some \<lparr>rt_maxAge = 1000000, rt_maxBytes = 0\<rparr>"
    "q_closed (fst st) = False" "q_segMeta (fst st) 1 = Some \<lparr>si_first = 1, si_last = 1, si_packets = 0, si_bytes = 0\<rparr>"
    "q_files (fst st) = [1]" "fst (Next byte_unmarshal 1 st) = Inr [7]"
    unfolding st_def by code_simp+
  from stale_metadata_deletes_unconfirmed [of st, OF e(2) _ _ e(1), of _ 90000000 "[1]" "[1]"] e c qd show ?thesis
    by (simp add: st)
qed

text \<open>Once everything is confirmed, retention may remove the segment being written.  Its handle is closed and
  never reopened, so every later \<open>Append\<close> fails.\<close>

theorem retention_closes_write_segment:
  assumes "q_retention (fst st) = Some r" and "\<not> q_closed (fst st)" and "rt_maxAge r > 0"
    and "q_entries (fst st) = []" and "q_segMeta (fst st) (cur_seg (q_wrCur (fst st))) = Some m"
    and "si_bytes m \<le> cur_off (q_wrCur (fst st))" and "0 < si_last m" and "si_last m < (now - rt_maxAge r) div 1000000"
    and "cur_seg (q_wrCur (fst st)) \<in> set (q_files (fst st))" and "cur_seg (q_wrCur (fst st)) \<in> set order2"
  shows "fst (Append marshal stamp fault sync_ok now' p (snd (EnforceRetention order1 order2 now st))) \<noteq> Inr ()"
proof -
  let ?s = "cur_seg (q_wrCur (fst st))"
  have "doomed ((now - rt_maxAge r) div 1000000) ?s st" using assms(4-8) by (simp add: doomed_def readCur_def)
  note g = EnforceRetention_hits [OF assms(1-3) this assms(9,10), of order1]
  obtain q d where e: "snd (EnforceRetention order1 order2 now st) = (q, d)" by (cases "snd (EnforceRetention order1 order2 now st)")
  have o: "\<not> q_wrOpen q" using g unfolding e gone_def by simp
  have "\<exists>er x. writeRecord fault sync_ok now' rc (q, d) = (Inl er, x)" for rc
    using o by (simp add: writeRecord_def rollSegment_def syncLocked_def write_handle_def)
  then have "\<exists>er q1 d1. writeRecord fault sync_ok now' rc (q, d) = (Inl er, q1, d1)" for rc by (metis surj_pair)
  then show ?thesis unfolding e Append_def
    by (cases "marshal p") (auto simp: Let_def split: prod.splits sum.splits, (metis Inl_Inr_False prod.inject)+)
qed

lemma retention_closes_write_segment_witness:
  "\<exists>st. st = (let st = snd (Append byte_marshal (\<lambda>_. 5000000) None True 0 7 (fresh archive 0)) in AckN 1 (snd (Next byte_unmarshal 1 st))) \<and>
     fst (Append byte_marshal (\<lambda>_. 0) None True 0 8 (snd (EnforceRetention [1] [1] 90000000 st))) \<noteq> Inr ()"
proof -
  define st where "st = (let st = snd (Append byte_marshal (\<lambda>_. 5000000) None True 0 7 (fresh archive 0)) in AckN 1 (snd (Next byte_unmarshal 1 st)))"
  have e: "q_entries (fst st) = []" "q_retention (fst st) = Some \<lparr>rt_maxAge = 1000000, rt_maxBytes = 0\<rparr>"
    "\<not> q_closed (fst st)" "q_segMeta (fst st) 1 = Some \<lparr>si_first = 5, si_last = 5, si_packets = 1, si_bytes = 5\<rparr>"
    "q_files (fst st) = [1]" "q_wrCur (fst st) = pos 1 5"
    by (simp_all add: st_def fresh_def new_queue_def archive_def empty_disk_def run_simps)
  have "fst (Append byte_marshal (\<lambda>_. 0) None True 0 8 (snd (EnforceRetention [1] [1] 90000000 st))) \<noteq> Inr ()"
    by (rule retention_closes_write_segment [OF e(2,3) _ e(1), where m = "\<lparr>si_first = 5, si_last = 5, si_packets = 1, si_bytes = 5\<rparr>"])
      (simp_all add: e del: One_nat_def)
  then show ?thesis by (simp add: st_def)
qed

end
