(* ===== verification/Spool_Readback.thy ===== *)
theory Spool_Readback imports Spool_Archive "HOL-Library.Multiset" begin

text \<open>
  Reading the archive: segment names parse back to their numbers, the listing is ordered by time whatever
  the order of the map, and a segment reads back as the records written to it.
\<close>

section \<open>Names\<close>

lemma digits_val_zeros: "digits_val (replicate k (CHR ''0'') @ s) = digits_val s"
  by (induction k) (simp_all add: digits_val_def)

lemma is_digit_show: "list_all is_digit (show_nat n)"
  unfolding list_all_iff using show_nat_digits by (auto simp: is_digit_def)

lemma has_prefix_rev_digit: "list_all is_digit s \<Longrightarrow> \<not> has_prefix (rev s) (rev ''.bin'')"
proof
  assume d: "list_all is_digit s" and p: "has_prefix (rev s) (rev ''.bin'')"
  then obtain r where "rev s = ''nib.'' @ r" by (auto simp: has_prefix_iff)
  then have "s = rev r @ ''.bin''" by (metis rev_append rev_rev_ident rev.simps append.simps append_assoc append_Nil)
  then show False using d by (simp add: is_digit_def)
qed

lemma parse_segIDString: "n < 2 ^ 64 \<Longrightarrow> parseSegID (segIDString n) = Some n"
proof -
  assume n: "n < 2 ^ 64"
  define ds where "ds = replicate (9 - length (show_nat n)) (CHR ''0'') @ show_nat n"
  have d: "list_all is_digit ds"
    using is_digit_show [of n] by (auto simp: ds_def list_all_iff is_digit_def)
  have ne: "ds \<noteq> []" by (simp add: ds_def)
  have "trim_prefix (segIDString n) ''seg-'' = ds"
    by (simp add: trim_prefix_def segIDString_def ds_def has_prefix_iff)
  moreover have "trim_suffix ds ''.bin'' = ds" using has_prefix_rev_digit [OF d] by (simp add: trim_suffix_def)
  moreover have "dropWhile is_space ds = ds"
    using d ne by (cases ds) (auto simp: is_digit_def is_space_def)
  moreover have "takeWhile is_digit ds = ds" unfolding takeWhile_eq_all_conv using d by (simp add: list_all_iff)
  moreover have "digits_val ds = n" by (simp add: ds_def digits_val_zeros digits_val_show_nat)
  ultimately show ?thesis using n ne unfolding parseSegID_def scan_uint64_def by (simp add: Let_def del: takeWhile_eq_all_conv)
qed

text \<open>The name of every segment parses back to its number.\<close>

theorem parseSegID_segIDString:
  assumes "n < 2 ^ 64"
  shows "parseSegID (segIDString n) = Some n"
  by (rule parse_segIDString [OF assms])

lemma parseSegID_segIDString_witness: "parseSegID (segIDString 42) = Some 42 \<and> segIDString 42 = ''seg-000000042''"
proof -
  have "segIDString 42 = ''seg-000000042''" by code_simp
  with parseSegID_segIDString [of 42] show ?thesis by simp
qed

section \<open>The listing\<close>

lemma place_set: "set (place x ys) = insert x (set ys)"
proof -
  have "set (rev (dropWhile P (rev ys))) \<union> set (rev (takeWhile P (rev ys))) = set ys" for P
    by (metis set_rev set_append sup_commute takeWhile_dropWhile_id)
  then show ?thesis by (auto simp: place_def)
qed

lemma place_mset: "mset (place x ys) = add_mset x (mset ys)"
proof -
  have "mset (dropWhile P (rev ys)) + mset (takeWhile P (rev ys)) = mset ys" for P
    by (metis add.commute mset_append mset_rev takeWhile_dropWhile_id)
  then show ?thesis by (simp add: place_def)
qed

lemma place_snoc:
  "place x (ys @ [y]) = (if sg_first x < sg_first y then place x ys @ [y] else ys @ [y, x])"
  by (simp add: place_def)

lemma place_sorted: "sorted (map sg_first ys) \<Longrightarrow> sorted (map sg_first (place x ys))"
proof (induction ys rule: rev_induct)
  case Nil
  then show ?case by (simp add: place_def)
next
  case (snoc y ys)
  then have s: "sorted (map sg_first ys)" and le: "\<forall>z \<in> set ys. sg_first z \<le> sg_first y" by (auto simp: sorted_append)
  show ?case
  proof (cases "sg_first x < sg_first y")
    case True
    have "sorted (map sg_first (place x ys))" using snoc.IH [OF s] .
    then show ?thesis using True le by (auto simp: place_snoc sorted_append place_set)
  next
    case False
    then show ?thesis using s le by (auto simp: place_snoc sorted_append intro: order_trans)
  qed
qed

lemma place_filter: "sorted (map sg_first ys) \<Longrightarrow>
  filter (\<lambda>y. sg_first y = t) (place x ys) = filter (\<lambda>y. sg_first y = t) ys @ (if sg_first x = t then [x] else [])"
proof (induction ys rule: rev_induct)
  case Nil
  then show ?case by (simp add: place_def)
next
  case (snoc y ys)
  then have "sorted (map sg_first ys)" by (simp add: sorted_append)
  with snoc.IH show ?case by (auto simp: place_snoc)
qed

lemma fold_place:
  "sorted (map sg_first ys) \<Longrightarrow> sorted (map sg_first (fold place xs ys)) \<and> mset (fold place xs ys) = mset ys + mset xs \<and>
     (\<forall>t. filter (\<lambda>y. sg_first y = t) (fold place xs ys) = filter (\<lambda>y. sg_first y = t) ys @ filter (\<lambda>y. sg_first y = t) xs)"
  by (induction xs arbitrary: ys) (auto simp: place_sorted place_mset place_filter)

lemma fold_place_sort: "fold place xs [] = sort_key sg_first xs"
  using fold_place [of "[]" xs] by (intro properties_for_sort_key [symmetric]) (simp_all add: eq_commute)

text \<open>The listing of the archive is the stable sort by first time stamp of the summaries, so it is in time
  order whatever the order in which the map was visited.\<close>

theorem Segments_sorted:
  "fst (Segments unmarshal link order st) = sort_key sg_first (fst (fold (seg_summary unmarshal link) order ([], st)))"
  by (simp add: Segments_def fold_place_sort split: prod.splits)

section \<open>The records of a segment\<close>

fun feed :: "('p \<Rightarrow> 'a \<Rightarrow> 'e + 'a) \<Rightarrow> 'p list \<Rightarrow> 'a \<Rightarrow> ('e read_err + unit) \<times> 'a" where
  "feed fn [] a = (Inr (), a)"
| "feed fn (p # ps) a = (case fn p a of Inl e \<Rightarrow> (Inl (RStop e), a) | Inr a1 \<Rightarrow> feed fn ps a1)"

lemma read_segment_loop_records:
  assumes "map unmarshal rs = map Some ps" and "\<forall>rc \<in> set rs. rc \<noteq> [] \<and> length rc < 2 ^ 32"
    and "tot + length (concat (map rec_bytes rs)) = sz"
  shows "read_segment_loop unmarshal fn (concat (map rec_bytes rs) @ later) sz tot a = feed fn ps a"
  using assms
proof (induction rs arbitrary: ps tot a)
  case Nil
  then show ?case by (subst read_segment_loop.simps) simp
next
  case (Cons rc rs)
  then obtain p ps' where ps: "ps = p # ps'" and u: "unmarshal rc = Some p" and m: "map unmarshal rs = map Some ps'"
    by (cases ps) auto
  let ?c = "concat (map rec_bytes (rc # rs)) @ later"
  have h: "be_val (take headerSize ?c) = length rc" and d: "drop headerSize ?c = rc @ concat (map rec_bytes rs) @ later"
    using Cons.prems(2) by (simp_all add: rec_bytes_def headerSize_def be_val_be_bytes)
  have l: "headerSize \<le> length ?c" "tot + headerSize + length rc \<le> sz" "tot < sz" "rc \<noteq> []"
    using Cons.prems by (simp_all add: headerSize_def)
  have t: "tot + headerSize + length rc + length (concat (map rec_bytes rs)) = sz" using Cons.prems(3) by simp
  have IH: "read_segment_loop unmarshal fn (concat (map rec_bytes rs) @ later) sz (tot + headerSize + length rc) a' = feed fn ps' a'" for a'
    using Cons.IH [OF m _ t] Cons.prems(2) by simp
  show ?case
    using l u IH unfolding read_segment_loop.simps [of unmarshal fn ?c] Let_def h d ps
    by (simp split: sum.split)
qed

text \<open>Reading a segment calls the callback on every packet of the segment, in the order written, until the
  callback fails, and on nothing that is appended while it runs.\<close>

theorem ReadSegment_records:
  assumes "s < 2 ^ 64" and "has_seg (snd st) s" and "seg_bytes (snd st) s = concat (map rec_bytes rs)"
    and "map unmarshal rs = map Some ps" and "\<forall>rc \<in> set rs. rc \<noteq> [] \<and> length rc < 2 ^ 32"
  shows "\<exists>st'. ReadSegment unmarshal (segIDString s) fn later a st = (fst (feed fn ps a), snd (feed fn ps a), st')"
proof -
  obtain q d where st: "st = (q, d)" by (cases st)
  obtain fs where f: "fileFor s (q, d) = (Inr (), q\<lparr>q_files := fs\<rparr>, d)"
    using fileFor_has [of d s q] assms(2) st by auto
  have "read_segment_loop unmarshal fn (seg_bytes d s @ later) (length (seg_bytes d s)) 0 a = feed fn ps a"
    using read_segment_loop_records [OF assms(4,5), of 0 _ fn later a] assms(3) st by simp
  then show ?thesis using f assms(2) parse_segIDString [OF assms(1)] by (auto simp: ReadSegment_def st split: prod.splits)
qed

lemma ReadSegment_records_witness:
  "\<exists>st'. ReadSegment byte_unmarshal ''seg-000000001'' (\<lambda>p a. if p = 9 then Inl a else Inr (a @ [p])) [1, 2] [] (fst (fresh small 0), crashed) =
     (Inr (), [7], st')"
proof -
  have s: "segIDString 1 = ''seg-000000001''" by code_simp
  have "feed (\<lambda>p a. if p = 9 then Inl a else Inr (a @ [p])) [7 :: byte] [] = (Inr (), [7])" by simp
  then show ?thesis
    using ReadSegment_records [of 1 "(fst (fresh small 0), crashed)" "[[7]]" byte_unmarshal "[7]"
        "\<lambda>p a. if p = 9 then Inl a else Inr (a @ [p])" "[1, 2]" "[]"]
    by (simp add: s [simplified] crashed_def has_seg_def seg_bytes_def byte_unmarshal_def)
qed

end
