(* ===== verification/Agent_Ingest.thy ===== *)
theory Agent_Ingest imports Spool_Readback begin

text \<open>
  The uploader of the agent, \<open>ingestClient\<close> in \<open>cmd/gt-agent/ingest.go\<close>: packets go to the spool, batches
  of them from the spool to the stream, and a batch is confirmed when the stream took it.

  The loop of \<open>pushOnce\<close> is a step relation.  The operations of the queue are arguments; \<open>ok\<close> says whether
  \<open>stream.Send\<close> succeeds, an event says which case of the \<open>select\<close> is taken.  \<open>up_log\<close> and \<open>up_sent\<close> are history:
  the packets the spool accepted and the packets the stream took.  Logging and the statistics callbacks
  are left out; the stream itself and its final summary belong to gRPC.
\<close>

section \<open>The loop\<close>

datatype phase = Head | Select | Failed | Finished

record ('p, 's) uplink =
  up_q :: 's
  up_pending :: "'p list"
  up_armed :: bool
  up_phase :: phase
  up_dropped :: nat
  up_log :: "'p list"
  up_sent :: "'p list"

datatype ('t, 'p) ievent = Packet 't 'p | Timer | Done

definition sendAndAck :: "(int \<Rightarrow> 's \<Rightarrow> 's) \<Rightarrow> bool \<Rightarrow> ('p, 's) uplink \<Rightarrow> bool \<times> ('p, 's) uplink" where
  "sendAndAck ack ok u =
    (if up_pending u = [] then (True, u)
     else if \<not> ok then (False, u)
     else (True, u\<lparr>up_q := ack (int (length (up_pending u))) (up_q u), up_sent := up_sent u @ up_pending u\<rparr>))"

text \<open>The stream is open: requeue, no batch, timer not armed.\<close>

definition push_start :: "('s \<Rightarrow> 's) \<Rightarrow> ('p, 's) uplink \<Rightarrow> ('p, 's) uplink" where
  "push_start requeue u = u\<lparr>up_q := requeue (up_q u), up_pending := [], up_armed := False, up_phase := Head\<rparr>"

text \<open>Send the batch; on success it is empty again.\<close>

definition flush :: "(int \<Rightarrow> 's \<Rightarrow> 's) \<Rightarrow> bool \<Rightarrow> ('p, 's) uplink \<Rightarrow> ('p, 's) uplink" where
  "flush ack ok u = (case sendAndAck ack ok u of
     (False, u1) \<Rightarrow> u1\<lparr>up_phase := Failed\<rparr>
   | (True, u1) \<Rightarrow> u1\<lparr>up_pending := [], up_armed := False, up_phase := Head\<rparr>)"

text \<open>The top of the loop: with no batch in hand, fetch one; a full one is sent at once.\<close>

definition head_step ::
  "(int \<Rightarrow> 's \<Rightarrow> ('e + 'p list) \<times> 's) \<Rightarrow> (int \<Rightarrow> 's \<Rightarrow> 's) \<Rightarrow> int \<Rightarrow> bool \<Rightarrow> ('p, 's) uplink \<Rightarrow> ('p, 's) uplink" where
  "head_step fetch ack bs ok u =
    (if up_pending u \<noteq> [] then u\<lparr>up_phase := Select\<rparr>
     else
       (case fetch bs (up_q u) of
          (Inl e, s) \<Rightarrow> u\<lparr>up_q := s, up_phase := Failed\<rparr>
        | (Inr b, s) \<Rightarrow>
           (let u1 = u\<lparr>up_q := s, up_pending := b\<rparr> in
            if int (length b) \<ge> bs then flush ack ok u1
            else u1\<lparr>up_armed := (b \<noteq> []), up_phase := Select\<rparr>)))"

definition select_step ::
  "('t \<Rightarrow> 'p \<Rightarrow> 's \<Rightarrow> ('e + unit) \<times> 's) \<Rightarrow> (int \<Rightarrow> 's \<Rightarrow> ('e + 'p list) \<times> 's) \<Rightarrow> (int \<Rightarrow> 's \<Rightarrow> 's) \<Rightarrow> int \<Rightarrow> bool \<Rightarrow>
     ('t, 'p) ievent \<Rightarrow> ('p, 's) uplink \<Rightarrow> ('p, 's) uplink" where
  "select_step put fetch ack bs ok ev u =
    (case ev of
       Done \<Rightarrow> (snd (sendAndAck ack ok u))\<lparr>up_pending := [], up_phase := Finished\<rparr>
     | Packet t p \<Rightarrow>
        (case put t p (up_q u) of
           (Inl e, s) \<Rightarrow> u\<lparr>up_q := s, up_dropped := up_dropped u + 1, up_phase := Head\<rparr>
         | (Inr _, s) \<Rightarrow>
            (let u1 = u\<lparr>up_q := s, up_log := up_log u @ [p]\<rparr> in
             if up_pending u1 \<noteq> [] \<and> int (length (up_pending u1)) < bs then
               (case fetch (bs - int (length (up_pending u1))) (up_q u1) of
                  (Inl e, s2) \<Rightarrow> u1\<lparr>up_q := s2, up_phase := Failed\<rparr>
                | (Inr b2, s2) \<Rightarrow>
                   (let u2 = u1\<lparr>up_q := s2, up_pending := up_pending u1 @ b2\<rparr> in
                    if int (length (up_pending u2)) \<ge> bs then flush ack ok u2 else u2\<lparr>up_phase := Head\<rparr>))
             else u1\<lparr>up_phase := Head\<rparr>))
     | Timer \<Rightarrow> flush ack ok (u\<lparr>up_armed := False\<rparr>))"

text \<open>The timer fires only while it is armed; a failed stream is opened again.\<close>

inductive ingest_step ::
  "('t \<Rightarrow> 'p \<Rightarrow> 's \<Rightarrow> ('e + unit) \<times> 's) \<Rightarrow> (int \<Rightarrow> 's \<Rightarrow> ('e + 'p list) \<times> 's) \<Rightarrow> (int \<Rightarrow> 's \<Rightarrow> 's) \<Rightarrow> ('s \<Rightarrow> 's) \<Rightarrow> int \<Rightarrow>
     ('p, 's) uplink \<Rightarrow> ('p, 's) uplink \<Rightarrow> bool"
  for put fetch ack requeue bs where
  head: "up_phase u = Head \<Longrightarrow> ingest_step put fetch ack requeue bs u (head_step fetch ack bs ok u)"
| select: "up_phase u = Select \<Longrightarrow> ev = Timer \<longrightarrow> up_armed u \<Longrightarrow>
    ingest_step put fetch ack requeue bs u (select_step put fetch ack bs ok ev u)"
| reconnect: "up_phase u = Failed \<Longrightarrow> ingest_step put fetch ack requeue bs u (push_start requeue u)"

inductive_cases ingest_stepE: "ingest_step put fetch ack requeue bs u u'"

section \<open>The invariant\<close>

text \<open>Everything accepted was sent, in order, or is still in the queue; the batch in hand is what is in flight.\<close>

definition uplink_inv :: "('s \<Rightarrow> 'p list \<Rightarrow> nat \<Rightarrow> bool) \<Rightarrow> ('p, 's) uplink \<Rightarrow> 'p list \<Rightarrow> bool" where
  "uplink_inv qrep u ps \<longleftrightarrow> up_log u = up_sent u @ ps \<and>
     (\<exists>k. qrep (up_q u) ps k \<and> (up_phase u \<in> {Head, Select} \<longrightarrow> up_pending u = take k ps \<and> length (up_pending u) = k))"

lemma uplink_elim:
  assumes "uplink_inv qrep u ps" and "up_phase u \<in> {Head, Select}"
  obtains k where "up_log u = up_sent u @ ps" and "qrep (up_q u) ps k" and "up_pending u = take k ps" and "length (up_pending u) = k"
  using assms unfolding uplink_inv_def by blast

context ack_queue
begin

lemma sendAndAck_inv:
  assumes q: "qrep (up_q u) ps (length (up_pending u))" and p: "up_pending u = take (length (up_pending u)) ps"
    and l: "up_log u = up_sent u @ ps" and s: "sendAndAck ack ok u = (r, u')"
  shows "(\<not> r \<and> u' = u) \<or>
    (r \<and> up_log u' = up_log u \<and> up_pending u' = up_pending u \<and> up_sent u' = up_sent u @ up_pending u \<and>
       qrep (up_q u') (drop (length (up_pending u)) ps) 0)"
proof (cases "up_pending u = []")
  case True
  then show ?thesis using q s by (auto simp: sendAndAck_def)
next
  case False
  then show ?thesis using ack_law [OF q, of "int (length (up_pending u))"] s
    by (auto simp: sendAndAck_def split: if_splits)
qed

lemma flush_inv:
  assumes q: "qrep (up_q u) ps (length (up_pending u))" and p: "up_pending u = take (length (up_pending u)) ps"
    and l: "up_log u = up_sent u @ ps"
  shows "\<exists>qs. uplink_inv qrep (flush ack ok u) qs \<and> (ok \<longrightarrow> qs = drop (length (up_pending u)) ps \<and>
    up_phase (flush ack ok u) = Head \<and> up_pending (flush ack ok u) = [] \<and> up_log (flush ack ok u) = up_log u)"
proof -
  obtain r u1 where s: "sendAndAck ack ok u = (r, u1)" by (cases "sendAndAck ack ok u")
  have ok: "ok \<longrightarrow> r" using s by (auto simp: sendAndAck_def split: if_splits)
  from sendAndAck_inv [OF q p l s] show ?thesis
  proof (elim disjE conjE)
    assume "\<not> r" "u1 = u"
    then show ?thesis using s q l ok by (intro exI [of _ ps]) (auto simp: flush_def uplink_inv_def)
  next
    assume r: r and u1: "up_log u1 = up_log u" "up_sent u1 = up_sent u @ up_pending u"
      "qrep (up_q u1) (drop (length (up_pending u)) ps) 0"
    have "up_log u = (up_sent u @ up_pending u) @ drop (length (up_pending u)) ps"
      using l p by (metis append.assoc append_take_drop_id)
    then show ?thesis using s r u1 by (intro exI [of _ "drop (length (up_pending u)) ps"]) (auto simp: flush_def uplink_inv_def)
  qed
qed

lemma flush_take:
  assumes "qrep (up_q u) ps m" and "m \<le> length ps" and "up_pending u = take m ps" and "up_log u = up_sent u @ ps"
  shows "\<exists>qs. uplink_inv qrep (flush ack ok u) qs \<and> (ok \<longrightarrow> qs = drop m ps \<and>
    up_phase (flush ack ok u) = Head \<and> up_pending (flush ack ok u) = [] \<and> up_log (flush ack ok u) = up_log u)"
proof -
  have l: "length (up_pending u) = m" using assms(2,3) by simp
  show ?thesis using flush_inv [of u ps ok] assms unfolding l by blast
qed

lemma head_inv:
  assumes "uplink_inv qrep u ps" and "up_phase u = Head"
  shows "\<exists>qs. uplink_inv qrep (head_step fetch ack bs ok u) qs"
proof -
  obtain k where l: "up_log u = up_sent u @ ps" and q: "qrep (up_q u) ps k" and p: "up_pending u = take k ps" "length (up_pending u) = k"
    by (rule uplink_elim [OF assms(1)]) (use assms(2) in simp, blast)
  show ?thesis
  proof (cases "up_pending u = []")
    case False
    then show ?thesis using l q p by (intro exI [of _ ps]) (auto simp: head_step_def uplink_inv_def)
  next
    case True
    then have "k = 0" using p(2) by simp
    then have "qrep (up_q u) ps 0" using q by simp
    from fetch_ok [OF this, of bs] obtain m s' where f: "fetch bs (up_q u) = (Inr (take m ps), s')" and q': "qrep s' ps m" "m \<le> length ps"
      by auto
    let ?u1 = "u\<lparr>up_q := s', up_pending := take m ps\<rparr>"
    have "\<exists>qs. uplink_inv qrep (flush ack ok ?u1) qs" using flush_take [of ?u1 ps m ok] q' l by auto
    then show ?thesis using True f l q' by (auto simp: head_step_def Let_def uplink_inv_def min_def)
  qed
qed

lemma select_inv:
  assumes "uplink_inv qrep u ps" and "up_phase u = Select"
  shows "\<exists>qs. uplink_inv qrep (select_step append fetch ack bs ok ev u) qs"
proof -
  obtain k where l: "up_log u = up_sent u @ ps" and q: "qrep (up_q u) ps k" and p: "up_pending u = take k ps" "length (up_pending u) = k"
    by (rule uplink_elim [OF assms(1)]) (use assms(2) in simp, blast)
  show ?thesis
  proof (cases ev)
    case Done
    obtain r u1 where s: "sendAndAck ack ok u = (r, u1)" by (cases "sendAndAck ack ok u")
    have "\<exists>qs. up_log u1 = up_sent u1 @ qs \<and> (\<exists>j. qrep (up_q u1) qs j)"
      using sendAndAck_inv [OF _ _ l s] q p l by (metis append.assoc append_take_drop_id)
    then show ?thesis using Done s by (auto simp: select_step_def uplink_inv_def)
  next
    case Timer
    then show ?thesis using flush_inv [of "u\<lparr>up_armed := False\<rparr>" ps ok] q p l by (auto simp: select_step_def)
  next
    case (Packet t x)
    obtain r s1 where a: "append t x (up_q u) = (r, s1)" by (cases "append t x (up_q u)")
    have q1: "qrep s1 (if r = Inr () then ps @ [x] else ps) k" by (rule append_law [OF q a])
    have kl: "k \<le> length ps" by (rule flight_law [OF q])
    show ?thesis
    proof (cases r)
      case (Inl e)
      then show ?thesis using Packet a q1 p l by (intro exI [of _ ps]) (auto simp: select_step_def uplink_inv_def)
    next
      case (Inr y)
      then have q2: "qrep s1 (ps @ [x]) k" using q1 by (cases y) simp
      have tk: "take k (ps @ [x]) = take k ps" using kl by simp
      let ?u1 = "u\<lparr>up_q := s1, up_log := up_log u @ [x]\<rparr>"
      have i1: "uplink_inv qrep (?u1\<lparr>up_phase := Head\<rparr>) (ps @ [x])" using q2 p l tk by (auto simp: uplink_inv_def)
      obtain m s2 where f: "fetch (bs - int k) s1 = (Inr (take m (drop k (ps @ [x]))), s2)" and q3: "qrep s2 (ps @ [x]) (k + m)"
        and km: "k + m \<le> length (ps @ [x])" using fetch_ok [OF q2, of "bs - int k"] by blast
      let ?u2 = "?u1\<lparr>up_q := s2, up_pending := take k ps @ take m (drop k (ps @ [x]))\<rparr>"
      have pend: "take k ps @ take m (drop k (ps @ [x])) = take (k + m) (ps @ [x])" by (simp only: take_add tk)
      have len: "length (take (k + m) (ps @ [x])) = k + m" using km by simp
      have fl: "\<exists>qs. uplink_inv qrep (flush ack ok ?u2) qs"
        using flush_take [of ?u2 "ps @ [x]" "k + m" ok] q3 km l pend by auto
      have i2: "uplink_inv qrep (?u2\<lparr>up_phase := Head\<rparr>) (ps @ [x])"
      proof -
        define B where "B = take (k + m) (ps @ [x])"
        have "length B = k + m" unfolding B_def by (rule len)
        then show ?thesis unfolding uplink_inv_def pend B_def [symmetric] using q3 l
          by (intro conjI exI [of _ "k + m"]) (simp_all add: B_def [symmetric] del: take_append)
      qed
      have "select_step append fetch ack bs ok ev u \<in> {?u1\<lparr>up_phase := Head\<rparr>, flush ack ok ?u2, ?u2\<lparr>up_phase := Head\<rparr>}"
        using Packet a Inr f p by (auto simp: select_step_def Let_def)
      then show ?thesis using i1 fl i2 by auto
    qed
  qed
qed

lemma ingest_step_inv:
  assumes "ingest_step append fetch ack requeue bs u u'" and "uplink_inv qrep u ps"
  shows "\<exists>qs. uplink_inv qrep u' qs"
  using assms(1)
proof (cases rule: ingest_step.cases)
  case (head ok)
  then show ?thesis using head_inv [OF assms(2)] by blast
next
  case (select ev ok)
  then show ?thesis using select_inv [OF assms(2)] by blast
next
  case reconnect
  obtain k where "up_log u = up_sent u @ ps" "qrep (up_q u) ps k" using assms(2) by (auto simp: uplink_inv_def)
  then show ?thesis using reconnect requeue_law by (intro exI [of _ ps]) (auto simp: push_start_def uplink_inv_def)
qed

lemma ingest_steps_inv:
  "(ingest_step append fetch ack requeue bs)\<^sup>*\<^sup>* u u' \<Longrightarrow> uplink_inv qrep u ps \<Longrightarrow> \<exists>qs. uplink_inv qrep u' qs"
  by (induction rule: rtranclp_induct) (use ingest_step_inv in blast)+

end

section \<open>At least once\<close>

definition ingest_start :: "'s \<Rightarrow> 'p list \<Rightarrow> ('p, 's) uplink" where
  "ingest_start s ps = \<lparr>up_q = s, up_pending = [], up_armed = False, up_phase = Head, up_dropped = 0, up_log = ps, up_sent = []\<rparr>"

text \<open>The uploader on the spool.\<close>

definition spool_step ::
  "('p \<Rightarrow> byte list option) \<Rightarrow> (byte list \<Rightarrow> 'p option) \<Rightarrow> ('p \<Rightarrow> int) \<Rightarrow> int \<Rightarrow> ('p, spool) uplink \<Rightarrow> ('p, spool) uplink \<Rightarrow> bool" where
  "spool_step marshal unmarshal stamp bs =
     ingest_step (\<lambda>now. Append marshal stamp None True now) (Next unmarshal) AckN Requeue bs"

lemma start_inv: "qrep s ps 0 \<Longrightarrow> uplink_inv qrep (ingest_start s ps) ps"
  by (auto simp: uplink_inv_def ingest_start_def)

text \<open>C2: the uploader loses and reorders nothing.  Through any sequence of packets, timeouts, failed sends,
  reconnections and the final shutdown, the packets the spool has accepted are exactly those the stream took, in
  order, followed by those still in the spool; while a stream is open, the batch in hand is what is in flight.\<close>

theorem ingest_loses_nothing:
  assumes "spool_rep marshal unmarshal st ps 0" and "(spool_step marshal unmarshal stamp bs)\<^sup>*\<^sup>* (ingest_start st ps) u"
  shows "\<exists>qs k. up_log u = up_sent u @ qs \<and> spool_rep marshal unmarshal (up_q u) qs k \<and>
    (up_phase u \<in> {Head, Select} \<longrightarrow> up_pending u = take k qs \<and> length (up_pending u) = k)"
  using spool_q.ingest_steps_inv [OF assms(2) [unfolded spool_step_def] start_inv [where qrep = "spool_rep marshal unmarshal", OF assms(1)]]
  unfolding uplink_inv_def by blast

lemma ingest_loses_nothing_witness:
  "\<exists>u qs k. (spool_step byte_marshal byte_unmarshal (\<lambda>_. 0) 2)\<^sup>*\<^sup>* (ingest_start (fresh small 0) []) u \<and> up_phase u = Select \<and>
     up_log u = up_sent u @ qs \<and> spool_rep byte_marshal byte_unmarshal (up_q u) qs k \<and> up_pending u = take k qs"
proof -
  let ?start = "ingest_start (fresh small 0) [] :: (byte, spool) uplink"
  let ?u = "head_step (Next byte_unmarshal) AckN 2 True ?start"
  have "spool_step byte_marshal byte_unmarshal (\<lambda>_. 0) 2 ?start ?u"
    unfolding spool_step_def by (rule ingest_step.head [where u = ?start and ok = True]) (simp add: ingest_start_def)
  then have s: "(spool_step byte_marshal byte_unmarshal (\<lambda>_. 0) 2)\<^sup>*\<^sup>* ?start ?u" by simp
  have p: "up_phase ?u = Select" by (simp add: head_step_def ingest_start_def Next_def fresh_def new_queue_def Let_def)
  from ingest_loses_nothing [OF fresh_rep s] p s show ?thesis by blast
qed

text \<open>One turn of the loop in which nothing arrives: fetch, and send when the timer fires if the batch was not full.\<close>

definition idle_round :: "(byte list \<Rightarrow> 'p option) \<Rightarrow> int \<Rightarrow> ('p, spool) uplink \<Rightarrow> ('p, spool) uplink" where
  "idle_round unmarshal bs u = (let u1 = head_step (Next unmarshal) AckN bs True u in
     if up_phase u1 = Select \<and> up_armed u1 then select_step (\<lambda>_ _ s. (Inr (), s)) (Next unmarshal) AckN bs True (Timer :: (unit, 'p) ievent) u1
     else u1)"

lemma idle_round_sends:
  assumes i: "uplink_inv (spool_rep marshal unmarshal) u ps" and h: "up_phase u = Head" "up_pending u = []" and ne: "ps \<noteq> []"
  shows "\<exists>qs. uplink_inv (spool_rep marshal unmarshal) (idle_round unmarshal bs u) qs \<and> length qs < length ps \<and>
    up_phase (idle_round unmarshal bs u) = Head \<and> up_pending (idle_round unmarshal bs u) = [] \<and>
    up_log (idle_round unmarshal bs u) = up_log u"
proof -
  obtain k where l: "up_log u = up_sent u @ ps" and q: "spool_rep marshal unmarshal (up_q u) ps k" and p: "length (up_pending u) = k"
    by (rule uplink_elim [OF i]) (use h in simp, blast)
  have "k = 0" using p h by simp
  then have "spool_rep marshal unmarshal (up_q u) ps 0" using q by simp
  from spool_q.fetch_ok [OF this, of bs] obtain m s' where f: "Next unmarshal bs (up_q u) = (Inr (take m ps), s')"
    and q': "spool_rep marshal unmarshal s' ps m" "m \<le> length ps" "0 < m" using ne by auto
  let ?b = "take m ps"
  have len: "length ?b = m" "?b \<noteq> []" using q' ne by (simp_all add: min_def)
  have fl: "\<exists>qs. uplink_inv (spool_rep marshal unmarshal) (flush AckN True (u\<lparr>up_q := s', up_pending := ?b, up_phase := ph, up_armed := a\<rparr>)) qs \<and>
      qs = drop m ps \<and> up_phase (flush AckN True (u\<lparr>up_q := s', up_pending := ?b, up_phase := ph, up_armed := a\<rparr>)) = Head \<and>
      up_pending (flush AckN True (u\<lparr>up_q := s', up_pending := ?b, up_phase := ph, up_armed := a\<rparr>)) = [] \<and>
      up_log (flush AckN True (u\<lparr>up_q := s', up_pending := ?b, up_phase := ph, up_armed := a\<rparr>)) = up_log u" for a ph
    using spool_q.flush_take [of _ _ "u\<lparr>up_q := s', up_pending := ?b, up_phase := ph, up_armed := a\<rparr>" ps m True] q' l by auto
  have "idle_round unmarshal bs u \<in> {flush AckN True (u\<lparr>up_q := s', up_pending := ?b, up_phase := up_phase u, up_armed := up_armed u\<rparr>),
      flush AckN True (u\<lparr>up_q := s', up_pending := ?b, up_phase := Select, up_armed := False\<rparr>)}"
  proof (cases "int (length ?b) \<ge> bs")
    case True
    define v where "v = u\<lparr>up_q := s', up_pending := ?b\<rparr>"
    have v: "u\<lparr>up_q := s', up_pending := ?b, up_phase := up_phase u, up_armed := up_armed u\<rparr> = v" by (simp add: v_def)
    have ph: "up_phase (flush AckN True v) = Head" using fl unfolding v [symmetric] by blast
    have "head_step (Next unmarshal) AckN bs True u = flush AckN True v" using True f h by (simp add: head_step_def v_def)
    then have "idle_round unmarshal bs u = flush AckN True v" using ph by (simp add: idle_round_def)
    then show ?thesis unfolding v by simp
  next
    case False
    then show ?thesis using f h len by (simp add: idle_round_def head_step_def select_step_def Let_def)
  qed
  then obtain a ph where r: "idle_round unmarshal bs u = flush AckN True (u\<lparr>up_q := s', up_pending := ?b, up_phase := ph, up_armed := a\<rparr>)"
    by blast
  have "length (drop m ps) < length ps" using q' ne by simp
  then show ?thesis unfolding r using fl by blast
qed

lemma idle_rounds:
  "uplink_inv (spool_rep marshal unmarshal) u ps \<Longrightarrow> up_phase u = Head \<Longrightarrow> up_pending u = [] \<Longrightarrow>
     \<exists>n. n \<le> length ps \<and> up_log ((idle_round unmarshal bs ^^ n) u) = up_log u \<and> up_phase ((idle_round unmarshal bs ^^ n) u) = Head \<and>
       uplink_inv (spool_rep marshal unmarshal) ((idle_round unmarshal bs ^^ n) u) []"
proof (induction "length ps" arbitrary: u ps rule: less_induct)
  case less
  show ?case
  proof (cases "ps = []")
    case True
    then show ?thesis using less.prems by (intro exI [of _ 0]) simp
  next
    case False
    let ?v = "idle_round unmarshal bs u"
    obtain qs where q: "uplink_inv (spool_rep marshal unmarshal) ?v qs" "length qs < length ps" "up_phase ?v = Head"
      "up_pending ?v = []" "up_log ?v = up_log u"
      using idle_round_sends [OF less.prems False, of bs] by blast
    from less.hyps [OF q(2) q(1,3,4)] obtain n where n: "n \<le> length qs" "up_log ((idle_round unmarshal bs ^^ n) ?v) = up_log ?v"
      "up_phase ((idle_round unmarshal bs ^^ n) ?v) = Head"
      "uplink_inv (spool_rep marshal unmarshal) ((idle_round unmarshal bs ^^ n) ?v) []" by blast
    have "(idle_round unmarshal bs ^^ Suc n) u = (idle_round unmarshal bs ^^ n) ?v" by (simp add: funpow_swap1)
    then show ?thesis using n q(2,5) by (intro exI [of _ "Suc n"]) simp
  qed
qed

text \<open>C34: with a working stream and no new packets the uploader empties the spool: at most as many turns of its
  loop as there are packets send everything that waits, in order.\<close>

theorem ingest_drains:
  assumes "spool_rep marshal unmarshal st ps 0"
  shows "\<exists>n. n \<le> length ps \<and> up_sent ((idle_round unmarshal bs ^^ n) (ingest_start st ps)) = ps \<and>
    spool_rep marshal unmarshal (up_q ((idle_round unmarshal bs ^^ n) (ingest_start st ps))) [] 0"
proof -
  have i: "uplink_inv (spool_rep marshal unmarshal) (ingest_start st ps) ps" by (rule start_inv [where qrep = "spool_rep marshal unmarshal", OF assms])
  obtain n where n: "n \<le> length ps" "up_log ((idle_round unmarshal bs ^^ n) (ingest_start st ps)) = up_log (ingest_start st ps)"
    "up_phase ((idle_round unmarshal bs ^^ n) (ingest_start st ps)) = Head"
    "uplink_inv (spool_rep marshal unmarshal) ((idle_round unmarshal bs ^^ n) (ingest_start st ps)) []"
    using idle_rounds [OF i, of bs] by (auto simp: ingest_start_def)
  let ?u = "(idle_round unmarshal bs ^^ n) (ingest_start st ps)"
  obtain k where "up_log ?u = up_sent ?u @ []" "spool_rep marshal unmarshal (up_q ?u) [] k" "up_pending ?u = take k []"
    "length (up_pending ?u) = k"
    by (rule uplink_elim [OF n(4)]) (use n(3) in simp, blast)
  then show ?thesis using n(1,2) by (intro exI [of _ n]) (simp add: ingest_start_def)
qed

lemma ingest_drains_witness:
  "\<exists>st n. st = snd (Append byte_marshal (\<lambda>_. 5000000) None True 0 7 (fresh archive 0)) \<and> n \<le> 1 \<and>
     up_sent ((idle_round byte_unmarshal 2 ^^ n) (ingest_start st [7])) = [7]"
proof -
  let ?st = "snd (Append byte_marshal (\<lambda>_. 5000000) None True 0 7 (fresh archive 0))"
  have "fst (Append byte_marshal (\<lambda>_. 5000000) None True 0 7 (fresh archive 0)) = Inr ()"
    by (simp add: fresh_def new_queue_def archive_def empty_disk_def run_simps)
  then have "spool_rep byte_marshal byte_unmarshal ?st [7] 0"
    using Append_rep [OF fresh_rep [of archive 0] prod.collapse [symmetric], of "\<lambda>_. 5000000" 0 7] by simp
  from ingest_drains [OF this, of 2] show ?thesis by auto
qed

end
