(* ===== verification/Access_Policy.thy ===== *)
theory Access_Policy imports Gt_Base begin

text \<open>
  The permission policy of \<open>pkg/authz/authz.go\<close>: one decision function over the caller, the action, the
  resource and the caller's role in the project of the resource.

  Actions and kinds are the string constants of the code as constructors, with \<open>OtherAction\<close> and \<open>OtherKind\<close>
  for every other string.  The text of an error is not modelled, only which check refused.
\<close>

section \<open>Data\<close>

datatype action =
  ProjectRead | ProjectUpdate | ProjectDelete | ProjectManageMembers | ProjectManagePlugins | ProjectManageRules |
  ProjectTransferOwner | SessionRead | SessionUse | SessionDelete | SessionMoveProject | PluginRead | PluginUse |
  PluginManage | LeaseUse | LeaseRelease | AccessCodeCreate | AccessCodeClaim | ProbeRead | ProbeUse | ProbeControl |
  ProbeManage | UserManage | OtherAction string

datatype kind = KindProject | KindSession | KindPlugin | KindLease | KindAccessCode | KindProbe | KindUser | OtherKind string

fun action_name :: "action \<Rightarrow> string" where
  "action_name ProjectRead = ''project:read''"
| "action_name ProjectUpdate = ''project:update''"
| "action_name ProjectDelete = ''project:delete''"
| "action_name ProjectManageMembers = ''project:manage_members''"
| "action_name ProjectManagePlugins = ''project:manage_plugins''"
| "action_name ProjectManageRules = ''project:manage_rules''"
| "action_name ProjectTransferOwner = ''project:transfer_owner''"
| "action_name SessionRead = ''session:read''"
| "action_name SessionUse = ''session:use''"
| "action_name SessionDelete = ''session:delete''"
| "action_name SessionMoveProject = ''session:move_project''"
| "action_name PluginRead = ''plugin:read''"
| "action_name PluginUse = ''plugin:use''"
| "action_name PluginManage = ''plugin:manage''"
| "action_name LeaseUse = ''lease:use''"
| "action_name LeaseRelease = ''lease:release''"
| "action_name AccessCodeCreate = ''access_code:create''"
| "action_name AccessCodeClaim = ''access_code:claim''"
| "action_name ProbeRead = ''probe:read''"
| "action_name ProbeUse = ''probe:use''"
| "action_name ProbeControl = ''probe:control''"
| "action_name ProbeManage = ''probe:manage''"
| "action_name UserManage = ''user:manage''"
| "action_name (OtherAction s) = s"

definition DefaultTenant :: string where
  "DefaultTenant = ''default''"

record resource =
  r_kind :: kind
  r_id :: string
  r_tenant :: string
  r_project :: string
  r_creator :: string

record principal =
  p_user :: string
  p_tenant :: string
  p_admin :: bool

definition resource_tenant :: "resource \<Rightarrow> string" where
  "resource_tenant r = (if r_tenant r = [] then DefaultTenant else r_tenant r)"

definition InProject :: "resource \<Rightarrow> bool" where
  "InProject r \<longleftrightarrow> r_project r \<noteq> []"

definition principal_tenant :: "principal \<Rightarrow> string" where
  "principal_tenant p = (if p_tenant p = [] then DefaultTenant else p_tenant p)"

definition anonymous :: principal where
  "anonymous = \<lparr>p_user = [], p_tenant = [], p_admin = False\<rparr>"

text \<open>The context carries a principal or not.\<close>

definition PrincipalFrom :: "principal option \<Rightarrow> principal" where
  "PrincipalFrom c = (case c of Some p \<Rightarrow> p | None \<Rightarrow> anonymous)"

section \<open>Roles\<close>

datatype role = RoleNone | RoleMember | RoleAdmin | RoleOwner

fun roleLevel :: "role \<Rightarrow> nat" where
  "roleLevel RoleOwner = 3"
| "roleLevel RoleAdmin = 2"
| "roleLevel RoleMember = 1"
| "roleLevel RoleNone = 0"

definition roleAtLeast :: "role \<Rightarrow> role \<Rightarrow> bool" where
  "roleAtLeast got want \<longleftrightarrow> roleLevel got \<ge> roleLevel want"

text \<open>Roles are ordered by their level.\<close>

instantiation role :: linorder
begin

definition less_eq_role :: "role \<Rightarrow> role \<Rightarrow> bool" where
  "r \<le> s \<longleftrightarrow> roleLevel r \<le> roleLevel s"

definition less_role :: "role \<Rightarrow> role \<Rightarrow> bool" where
  "r < s \<longleftrightarrow> roleLevel r < roleLevel s"

instance
proof
  fix r s t :: role
  show "(r < s) = (r \<le> s \<and> \<not> s \<le> r)" by (auto simp: less_eq_role_def less_role_def)
  show "r \<le> r" by (simp add: less_eq_role_def)
  show "r \<le> s \<Longrightarrow> s \<le> t \<Longrightarrow> r \<le> t" by (simp add: less_eq_role_def)
  show "r \<le> s \<Longrightarrow> s \<le> r \<Longrightarrow> r = s" by (cases r; cases s) (simp_all add: less_eq_role_def)
  show "r \<le> s \<or> s \<le> r" by (auto simp: less_eq_role_def)
qed

end

lemma roleAtLeast_iff [simp]: "roleAtLeast got want \<longleftrightarrow> want \<le> got"
  by (simp add: roleAtLeast_def less_eq_role_def)

lemma role_le_simps [simp]: "RoleNone \<le> r" "r \<le> RoleOwner"
  by (cases r; simp add: less_eq_role_def)+

section \<open>The decision\<close>

datatype denial =
  DTenant string string
| DRole action role role
| DSessionAction action
| DSessionRole action role string
| DNotAccessible kind string string
| DProbeAction action
| DNeedsAdmin action
| DProjectAction action
| DKind kind
| DMembership action string
| DNotManageable kind string string
| DAction action

fun projectActionRole :: "action \<Rightarrow> role option" where
  "projectActionRole ProjectRead = Some RoleMember"
| "projectActionRole ProjectUpdate = Some RoleOwner"
| "projectActionRole ProjectDelete = Some RoleOwner"
| "projectActionRole ProjectManageMembers = Some RoleAdmin"
| "projectActionRole ProjectManagePlugins = Some RoleAdmin"
| "projectActionRole ProjectManageRules = Some RoleAdmin"
| "projectActionRole ProjectTransferOwner = Some RoleOwner"
| "projectActionRole _ = None"

fun sessionProjectActionRole :: "action \<Rightarrow> role option" where
  "sessionProjectActionRole SessionRead = Some RoleMember"
| "sessionProjectActionRole SessionUse = Some RoleMember"
| "sessionProjectActionRole SessionDelete = Some RoleAdmin"
| "sessionProjectActionRole SessionMoveProject = Some RoleAdmin"
| "sessionProjectActionRole _ = None"

definition memberCreatorAllowed :: "action \<Rightarrow> bool" where
  "memberCreatorAllowed a \<longleftrightarrow> a = SessionDelete \<or> a = SessionMoveProject"

definition decideSession :: "principal \<Rightarrow> action \<Rightarrow> resource \<Rightarrow> role \<Rightarrow> denial + unit" where
  "decideSession p a r role =
    (if InProject r then
       (case sessionProjectActionRole a of
          None \<Rightarrow> Inl (DSessionAction a)
        | Some minRole \<Rightarrow>
           (if roleAtLeast role minRole then Inr ()
            else if memberCreatorAllowed a \<and> r_creator r = p_user p \<and> p_user p \<noteq> [] then Inr ()
            else Inl (DSessionRole a minRole (r_project r))))
     else if (a = SessionRead \<or> a = SessionUse \<or> a = SessionDelete \<or> a = SessionMoveProject) \<and> r_creator r = p_user p then Inr ()
     else Inl (DNotAccessible KindSession (r_id r) (p_user p)))"

definition decideProbe :: "principal \<Rightarrow> action \<Rightarrow> resource \<Rightarrow> denial + unit" where
  "decideProbe p a r =
    (if a \<notin> {ProbeRead, ProbeUse, ProbeControl, ProbeManage} then Inl (DProbeAction a)
     else if r_creator r \<noteq> [] \<and> r_creator r = p_user p then Inr ()
     else Inl (DNotAccessible KindProbe (r_id r) (p_user p)))"

definition decideProjectScoped :: "principal \<Rightarrow> action \<Rightarrow> resource \<Rightarrow> role \<Rightarrow> denial + unit" where
  "decideProjectScoped p a r role =
    (if a = PluginRead then Inr ()
     else if a = PluginUse \<or> a = LeaseUse \<or> a = LeaseRelease then
       (if InProject r then (if roleAtLeast role RoleMember then Inr () else Inl (DMembership a (r_project r)))
        else if r_creator r = p_user p then Inr ()
        else Inl (DNotAccessible (r_kind r) (r_id r) (p_user p)))
     else if a = PluginManage then
       (if InProject r then (if roleAtLeast role RoleAdmin then Inr () else Inl (DMembership a (r_project r)))
        else if r_creator r = p_user p then Inr ()
        else Inl (DNotManageable (r_kind r) (r_id r) (p_user p)))
     else Inl (DAction a))"

definition Decide :: "principal \<Rightarrow> action \<Rightarrow> resource \<Rightarrow> role \<Rightarrow> denial + unit" where
  "Decide p a r role =
    (if principal_tenant p \<noteq> resource_tenant r then Inl (DTenant (principal_tenant p) (resource_tenant r))
     else if p_admin p then Inr ()
     else
       (case projectActionRole a of
          Some minRole \<Rightarrow> (if roleAtLeast role minRole then Inr () else Inl (DRole a minRole role))
        | None \<Rightarrow>
           (case r_kind r of
              KindSession \<Rightarrow> decideSession p a r role
            | KindPlugin \<Rightarrow> decideProjectScoped p a r role
            | KindLease \<Rightarrow> decideProjectScoped p a r role
            | KindProbe \<Rightarrow> decideProbe p a r
            | KindUser \<Rightarrow> Inl (DNeedsAdmin a)
            | KindProject \<Rightarrow> Inl (DProjectAction a)
            | k \<Rightarrow> Inl (DKind k))))"

definition AccessCodeActionAllowed :: "principal \<Rightarrow> action \<Rightarrow> string \<Rightarrow> bool" where
  "AccessCodeActionAllowed p a creatorID =
    (if p_admin p then True
     else case a of
       AccessCodeCreate \<Rightarrow> creatorID = [] \<or> creatorID = p_user p
     | AccessCodeClaim \<Rightarrow> True
     | _ \<Rightarrow> False)"

section \<open>The permission matrix\<close>

text \<open>The matrix as rules: who may do what.\<close>

inductive allowed :: "principal \<Rightarrow> action \<Rightarrow> resource \<Rightarrow> role \<Rightarrow> bool" for p a r role where
  admin: "principal_tenant p = resource_tenant r \<Longrightarrow> p_admin p \<Longrightarrow> allowed p a r role"
| project_member: "principal_tenant p = resource_tenant r \<Longrightarrow> a = ProjectRead \<Longrightarrow> RoleMember \<le> role \<Longrightarrow> allowed p a r role"
| project_admin: "principal_tenant p = resource_tenant r \<Longrightarrow> a \<in> {ProjectManageMembers, ProjectManagePlugins, ProjectManageRules} \<Longrightarrow>
    RoleAdmin \<le> role \<Longrightarrow> allowed p a r role"
| project_owner: "principal_tenant p = resource_tenant r \<Longrightarrow> a \<in> {ProjectUpdate, ProjectDelete, ProjectTransferOwner} \<Longrightarrow>
    role = RoleOwner \<Longrightarrow> allowed p a r role"
| session_member: "principal_tenant p = resource_tenant r \<Longrightarrow> r_kind r = KindSession \<Longrightarrow> InProject r \<Longrightarrow> a \<in> {SessionRead, SessionUse} \<Longrightarrow>
    RoleMember \<le> role \<Longrightarrow> allowed p a r role"
| session_admin: "principal_tenant p = resource_tenant r \<Longrightarrow> r_kind r = KindSession \<Longrightarrow> InProject r \<Longrightarrow>
    a \<in> {SessionDelete, SessionMoveProject} \<Longrightarrow> RoleAdmin \<le> role \<Longrightarrow> allowed p a r role"
| session_creator: "principal_tenant p = resource_tenant r \<Longrightarrow> r_kind r = KindSession \<Longrightarrow> InProject r \<Longrightarrow>
    a \<in> {SessionDelete, SessionMoveProject} \<Longrightarrow> r_creator r = p_user p \<Longrightarrow> p_user p \<noteq> [] \<Longrightarrow> allowed p a r role"
| session_personal: "principal_tenant p = resource_tenant r \<Longrightarrow> r_kind r = KindSession \<Longrightarrow> \<not> InProject r \<Longrightarrow>
    a \<in> {SessionRead, SessionUse, SessionDelete, SessionMoveProject} \<Longrightarrow> r_creator r = p_user p \<Longrightarrow> allowed p a r role"
| plugin_catalogue: "principal_tenant p = resource_tenant r \<Longrightarrow> r_kind r \<in> {KindPlugin, KindLease} \<Longrightarrow> a = PluginRead \<Longrightarrow> allowed p a r role"
| scoped_member: "principal_tenant p = resource_tenant r \<Longrightarrow> r_kind r \<in> {KindPlugin, KindLease} \<Longrightarrow> InProject r \<Longrightarrow>
    a \<in> {PluginUse, LeaseUse, LeaseRelease} \<Longrightarrow> RoleMember \<le> role \<Longrightarrow> allowed p a r role"
| scoped_admin: "principal_tenant p = resource_tenant r \<Longrightarrow> r_kind r \<in> {KindPlugin, KindLease} \<Longrightarrow> InProject r \<Longrightarrow>
    a = PluginManage \<Longrightarrow> RoleAdmin \<le> role \<Longrightarrow> allowed p a r role"
| scoped_personal: "principal_tenant p = resource_tenant r \<Longrightarrow> r_kind r \<in> {KindPlugin, KindLease} \<Longrightarrow> \<not> InProject r \<Longrightarrow>
    a \<in> {PluginUse, LeaseUse, LeaseRelease, PluginManage} \<Longrightarrow> r_creator r = p_user p \<Longrightarrow> allowed p a r role"
| probe_owner: "principal_tenant p = resource_tenant r \<Longrightarrow> r_kind r = KindProbe \<Longrightarrow> a \<in> {ProbeRead, ProbeUse, ProbeControl, ProbeManage} \<Longrightarrow>
    r_creator r = p_user p \<Longrightarrow> p_user p \<noteq> [] \<Longrightarrow> allowed p a r role"

lemma top_role: "RoleOwner \<le> role \<longleftrightarrow> role = RoleOwner"
  by (cases role) (simp_all add: less_eq_role_def)

lemma decide_sound: "Decide p a r role = Inr () \<Longrightarrow> allowed p a r role"
  by (cases a; cases "r_kind r")
    (auto simp: Decide_def decideSession_def decideProbe_def decideProjectScoped_def memberCreatorAllowed_def top_role
      split: if_splits intro: allowed.intros)

lemma decide_complete: "allowed p a r role \<Longrightarrow> Decide p a r role = Inr ()"
  by (induction rule: allowed.induct)
    (auto simp: Decide_def decideSession_def decideProbe_def decideProjectScoped_def memberCreatorAllowed_def
      split: kind.split)

text \<open>The two directions together.\<close>

lemma Decide_matrix:
  "Decide p a r role = Inr () \<longleftrightarrow> allowed p a r role"
  using decide_sound decide_complete by blast

lemma allowed_mono: "allowed p a r role \<Longrightarrow> role \<le> role' \<Longrightarrow> allowed p a r role'"
  by (induction rule: allowed.induct) (auto intro: allowed.intros order_trans simp: top_role)

text \<open>C14: permissions grow with the role and never cross a tenant, not even for a global admin.  What someone else
  keeps outside every project is open to a caller of the same tenant in three cases only: the caller is a global
  admin; the action is \<open>plugin:read\<close> on a plugin or a lease, which everyone in the tenant may do; or it is one of
  the \<open>project:*\<close> actions, for which only the role counts (member to read, owner to update, delete or
  transfer, admin for the rest).  Every other action, so every use, deletion, move or release of a personal session,
  plugin, lease or probe of someone else, is refused with every role.\<close>

theorem Decide_isolation:
  "(Decide p a r role = Inr () \<longrightarrow> role \<le> role' \<longrightarrow> Decide p a r role' = Inr ()) \<and>
   (Decide p a r role = Inr () \<longrightarrow> principal_tenant p = resource_tenant r) \<and>
   (principal_tenant p = resource_tenant r \<longrightarrow> \<not> InProject r \<longrightarrow> r_creator r \<noteq> p_user p \<longrightarrow>
      (Decide p a r role = Inr () \<longleftrightarrow>
         p_admin p \<or>
         a = PluginRead \<and> r_kind r \<in> {KindPlugin, KindLease} \<or>
         a = ProjectRead \<and> RoleMember \<le> role \<or>
         a \<in> {ProjectManageMembers, ProjectManagePlugins, ProjectManageRules} \<and> RoleAdmin \<le> role \<or>
         a \<in> {ProjectUpdate, ProjectDelete, ProjectTransferOwner} \<and> role = RoleOwner))"
proof (intro conjI impI)
  show "Decide p a r role' = Inr ()" if "Decide p a r role = Inr ()" "role \<le> role'"
    using that decide_sound allowed_mono decide_complete by blast
  show "principal_tenant p = resource_tenant r" if "Decide p a r role = Inr ()"
    using that by (auto simp: Decide_def split: if_splits)
  show "Decide p a r role = Inr () \<longleftrightarrow> p_admin p \<or> a = PluginRead \<and> r_kind r \<in> {KindPlugin, KindLease} \<or>
      a = ProjectRead \<and> RoleMember \<le> role \<or>
      a \<in> {ProjectManageMembers, ProjectManagePlugins, ProjectManageRules} \<and> RoleAdmin \<le> role \<or>
      a \<in> {ProjectUpdate, ProjectDelete, ProjectTransferOwner} \<and> role = RoleOwner"
    if "principal_tenant p = resource_tenant r" "\<not> InProject r" "r_creator r \<noteq> p_user p"
    unfolding Decide_matrix using that by (auto elim!: allowed.cases intro: allowed.intros)
qed

lemma Decide_isolation_witness:
  "Decide \<lparr>p_user = ''bob'', p_tenant = [], p_admin = False\<rparr> SessionUse
     \<lparr>r_kind = KindSession, r_id = ''s'', r_tenant = ''default'', r_project = ''p'', r_creator = ''eve''\<rparr> RoleOwner = Inr () \<and>
   \<not> Decide \<lparr>p_user = ''bob'', p_tenant = [], p_admin = False\<rparr> SessionUse
     \<lparr>r_kind = KindSession, r_id = ''s'', r_tenant = [], r_project = [], r_creator = ''eve''\<rparr> RoleOwner = Inr () \<and>
   \<not> Decide \<lparr>p_user = ''bob'', p_tenant = [], p_admin = False\<rparr> PluginManage
     \<lparr>r_kind = KindPlugin, r_id = ''x'', r_tenant = [], r_project = [], r_creator = ''eve''\<rparr> RoleOwner = Inr () \<and>
   Decide \<lparr>p_user = ''bob'', p_tenant = [], p_admin = False\<rparr> PluginRead
     \<lparr>r_kind = KindPlugin, r_id = ''x'', r_tenant = [], r_project = [], r_creator = ''eve''\<rparr> RoleNone = Inr ()"
proof -
  let ?p = "\<lparr>p_user = ''bob'', p_tenant = [], p_admin = False\<rparr>"
  let ?r = "\<lparr>r_kind = KindSession, r_id = ''s'', r_tenant = ''default'', r_project = ''p'', r_creator = ''eve''\<rparr>"
  let ?s = "\<lparr>r_kind = KindSession, r_id = ''s'', r_tenant = [], r_project = [], r_creator = ''eve''\<rparr>"
  let ?x = "\<lparr>r_kind = KindPlugin, r_id = ''x'', r_tenant = [], r_project = [], r_creator = ''eve''\<rparr>"
  have "Decide ?p SessionUse ?r RoleMember = Inr ()" by code_simp
  then have "Decide ?p SessionUse ?r RoleOwner = Inr ()" 
    using Decide_isolation [of ?p SessionUse ?r RoleMember RoleOwner] by simp
  moreover have "\<not> Decide ?p SessionUse ?s RoleOwner = Inr ()"
    using conjunct2 [OF conjunct2 [OF Decide_isolation [of ?p SessionUse ?s RoleOwner RoleOwner]]]
    by (simp add: InProject_def principal_tenant_def resource_tenant_def)
  moreover have "\<not> Decide ?p PluginManage ?x RoleOwner = Inr ()"
    using conjunct2 [OF conjunct2 [OF Decide_isolation [of ?p PluginManage ?x RoleOwner RoleOwner]]]
    by (simp add: InProject_def principal_tenant_def resource_tenant_def)
  moreover have "Decide ?p PluginRead ?x RoleNone = Inr ()"
    using conjunct2 [OF conjunct2 [OF Decide_isolation [of ?p PluginRead ?x RoleNone RoleNone]]]
    by (simp add: InProject_def principal_tenant_def resource_tenant_def)
  ultimately show ?thesis by blast
qed

end
