(* ===== verification/Gt_Text.thy ===== *)
theory Gt_Text imports Gt_Base begin

text \<open>
  The functions of Go's \<open>strings\<close> package that several components use.  \<open>TrimSpace\<close> trims ASCII white space; white
  space beyond ASCII is outside the model.  \<open>EqualFold\<close> is only used against words whose letters have no case variants
  outside ASCII.
\<close>

section \<open>Definitions\<close>

definition is_white :: "char \<Rightarrow> bool" where
  "is_white c \<longleftrightarrow> (of_char c :: nat) \<in> {9, 10, 11, 12, 13, 32}"

definition TrimSpace :: "string \<Rightarrow> string" where
  "TrimSpace s = rev (dropWhile is_white (rev (dropWhile is_white s)))"

fun split_char :: "char \<Rightarrow> string \<Rightarrow> string list" where
  "split_char c [] = [[]]"
| "split_char c (x # xs) =
    (if x = c then [] # split_char c xs
     else (case split_char c xs of [] \<Rightarrow> [[x]] | y # ys \<Rightarrow> (x # y) # ys))"

text \<open>Text before and behind the first, or the last, occurrence of a byte.\<close>

definition cut_first :: "char \<Rightarrow> string \<Rightarrow> (string \<times> string) option" where
  "cut_first c s = (if c \<in> set s then Some (takeWhile (\<lambda>x. x \<noteq> c) s, tl (dropWhile (\<lambda>x. x \<noteq> c) s)) else None)"

definition cut_last :: "char \<Rightarrow> string \<Rightarrow> (string \<times> string) option" where
  "cut_last c s = (case cut_first c (rev s) of None \<Rightarrow> None | Some (b, a) \<Rightarrow> Some (rev a, rev b))"

definition lower_char :: "char \<Rightarrow> char" where
  "lower_char c = (let n = of_char c :: nat in if 65 \<le> n \<and> n \<le> 90 then char_of (n + 32) else c)"

definition EqualFold :: "string \<Rightarrow> string \<Rightarrow> bool" where
  "EqualFold s t \<longleftrightarrow> map lower_char s = map lower_char t"

section \<open>Laws\<close>

lemma split_char_plain: "c \<notin> set s \<Longrightarrow> split_char c s = [s]"
  by (induction s) auto

lemma split_char_append: "c \<notin> set s \<Longrightarrow> split_char c (s @ c # t) = s # split_char c t"
  by (induction s) auto

lemma split_char_join: "xs \<noteq> [] \<Longrightarrow> \<forall>x \<in> set xs. c \<notin> set x \<Longrightarrow> split_char c (join_with [c] xs) = xs"
proof (induction "[c]" xs rule: join_with.induct)
  case 1
  then show ?case by simp
next
  case (2 x)
  then show ?case by (simp add: split_char_plain)
next
  case (3 x y ys)
  then show ?case by (simp add: split_char_append)
qed

lemma split_char_concat: "concat (split_char c s) = filter (\<lambda>x. x \<noteq> c) s"
  by (induction s) (auto split: list.split)

lemma split_char_not_Nil [simp]: "split_char c s \<noteq> []"
  by (induction s) (auto split: list.split)

lemma cut_first_append: "c \<notin> set s \<Longrightarrow> cut_first c (s @ c # t) = Some (s, t)"
  by (auto simp: cut_first_def takeWhile_append dropWhile_append)

lemma cut_first_None: "c \<notin> set s \<Longrightarrow> cut_first c s = None"
  by (simp add: cut_first_def)

lemma cut_last_append: "c \<notin> set t \<Longrightarrow> cut_last c (s @ c # t) = Some (s, t)"
  using cut_first_append [of c "rev t" "rev s"] by (simp add: cut_last_def)

lemma cut_last_None: "c \<notin> set s \<Longrightarrow> cut_last c s = None"
  by (simp add: cut_last_def cut_first_None)

text \<open>Text with no white space at its ends.\<close>

definition trimmed :: "string \<Rightarrow> bool" where
  "trimmed s \<longleftrightarrow> s \<noteq> [] \<and> \<not> is_white (hd s) \<and> \<not> is_white (last s)"

lemma TrimSpace_trimmed: "trimmed s \<Longrightarrow> TrimSpace s = s"
proof -
  assume t: "trimmed s"
  then have "dropWhile is_white s = s" by (cases s) (auto simp: trimmed_def)
  moreover have "\<not> is_white (hd (rev s))" using t by (simp add: trimmed_def hd_rev)
  then have "dropWhile is_white (rev s) = rev s" by (cases "rev s") auto
  ultimately show ?thesis by (simp add: TrimSpace_def)
qed

lemma TrimSpace_Nil_iff: "TrimSpace s = [] \<longleftrightarrow> (\<forall>c \<in> set s. is_white c)"
proof
  assume a: "TrimSpace s = []"
  then have "\<forall>c \<in> set (dropWhile is_white s). is_white c" by (simp add: TrimSpace_def)
  then have "dropWhile is_white s = []" by (metis dropWhile_eq_Nil_conv hd_dropWhile hd_in_set)
  then show "\<forall>c \<in> set s. is_white c" by simp
next
  assume "\<forall>c \<in> set s. is_white c"
  then have "dropWhile is_white s = []" by simp
  then show "TrimSpace s = []" by (simp only: TrimSpace_def) simp
qed

end
