(* ===== verification/Access_Token.thy ===== *)
theory Access_Token imports Gt_Text begin

text \<open>
  Who is calling: the static token table of \<open>pkg/auth/token.go\<close>, the user table and the chain of resolvers of
  \<open>pkg/auth/dbresolver.go\<close>, and how a request carries its token (\<open>interceptor.go\<close>, \<open>http.go\<close>).

  A Go map is an association list without duplicate keys.
\<close>

section \<open>The static table\<close>

record identity =
  id_owner :: string
  id_admin :: bool
  id_tenant :: string
  id_probe :: string

type_synonym static_resolver = "(string \<times> identity) list"

definition AnonymousOwner :: string where "AnonymousOwner = ''local''"
definition adminSuffix :: string where "adminSuffix = ''admin''"

definition plain_identity :: "string \<Rightarrow> bool \<Rightarrow> identity" where
  "plain_identity owner admin = \<lparr>id_owner = owner, id_admin = admin, id_tenant = [], id_probe = []\<rparr>"

definition NewStaticResolver :: "(string \<times> identity) list \<Rightarrow> static_resolver" where
  "NewStaticResolver pairs = filter (\<lambda>(tok, p). \<not> (tok = [] \<or> id_owner p = [])) pairs"

definition Required :: "static_resolver \<Rightarrow> bool" where
  "Required r \<longleftrightarrow> r \<noteq> []"

definition HasOwner :: "static_resolver \<Rightarrow> string \<Rightarrow> bool" where
  "HasOwner r name \<longleftrightarrow> list_ex (\<lambda>(_, p). id_owner p = name) r"

definition Owners :: "static_resolver \<Rightarrow> string list" where
  "Owners r = sort (remdups (map (\<lambda>(_, p). id_owner p) r))"

definition Resolve :: "static_resolver \<Rightarrow> string \<Rightarrow> identity option" where
  "Resolve r token =
    (if \<not> Required r then Some (plain_identity AnonymousOwner False)
     else (case map_of r token of None \<Rightarrow> None | Some p \<Rightarrow> Some (plain_identity (id_owner p) (id_admin p))))"

section \<open>Parsing the configuration\<close>

datatype token_err =
  NoEquals string | NoOwner string | BadSuffix string string | NoToken string
| DupOwner string string string | DupToken string string string

definition parse_entry :: "string \<Rightarrow> token_err + (string \<times> string \<times> bool)" where
  "parse_entry seg =
    (case cut_first (CHR ''='') seg of
       None \<Rightarrow> Inl (NoEquals seg)
     | Some (l, r) \<Rightarrow>
        (let owner = TrimSpace l in
         if owner = [] then Inl (NoOwner seg)
         else
           (let token0 = TrimSpace r in
            (case cut_last (CHR '':'') token0 of
               None \<Rightarrow> (if token0 = [] then Inl (NoToken seg) else Inr (owner, token0, False))
             | Some (token, suffix) \<Rightarrow>
                (if \<not> EqualFold suffix adminSuffix then Inl (BadSuffix seg suffix)
                 else if token = [] then Inl (NoToken seg)
                 else Inr (owner, token, True))))))"

fun parse_segments :: "string list \<Rightarrow> static_resolver \<Rightarrow> (string \<times> string) list \<Rightarrow> token_err + static_resolver" where
  "parse_segments [] byToken owners = Inr byToken"
| "parse_segments (seg0 # segs) byToken owners =
    (let seg = TrimSpace seg0 in
     if seg = [] then parse_segments segs byToken owners
     else
       (case parse_entry seg of
          Inl e \<Rightarrow> Inl e
        | Inr (owner, token, isAdmin) \<Rightarrow>
           (case map_of owners owner of
              Some prev \<Rightarrow> Inl (DupOwner owner prev seg)
            | None \<Rightarrow>
               (case map_of byToken token of
                  Some other \<Rightarrow> Inl (DupToken token (id_owner other) owner)
                | None \<Rightarrow> parse_segments segs ((token, plain_identity owner isAdmin) # byToken) ((owner, seg) # owners)))))"

definition ParseTokens :: "string \<Rightarrow> token_err + static_resolver" where
  "ParseTokens spec = (if TrimSpace spec = [] then Inr [] else parse_segments (split_char (CHR '','') spec) [] [])"

definition parseBearer :: "string \<Rightarrow> string option" where
  "parseBearer value =
    (let v = TrimSpace value in
     if v = [] then None
     else (case cut_first (CHR '' '') v of
         Some (scheme, r) \<Rightarrow> (let rest = TrimSpace r in if \<not> EqualFold scheme ''bearer'' \<or> rest = [] then None else Some rest)
       | None \<Rightarrow> Some v))"

section \<open>The user table and the chain of resolvers\<close>

record user_row =
  ur_owner :: string
  ur_is_admin :: int
  ur_tenant :: string
  ur_created_by :: string
  ur_created_at :: string

text \<open>No database, one whose queries fail, or the rows by token.\<close>

datatype user_db = NoDB | DBFails | DBRows "(string \<times> user_row) list"

definition HasUsers :: "user_db \<Rightarrow> bool" where
  "HasUsers db = (case db of NoDB \<Rightarrow> False | DBFails \<Rightarrow> False | DBRows rows \<Rightarrow> length rows > 0)"

definition db_resolve :: "user_db \<Rightarrow> string \<Rightarrow> identity option" where
  "db_resolve db token =
    (case db of NoDB \<Rightarrow> None | DBFails \<Rightarrow> None
     | DBRows rows \<Rightarrow>
        (if token = [] then None
         else (case map_of rows token of None \<Rightarrow> None
             | Some u \<Rightarrow> Some \<lparr>id_owner = ur_owner u, id_admin = (ur_is_admin u \<noteq> 0), id_tenant = ur_tenant u, id_probe = []\<rparr>)))"

text \<open>A further resolver: its lookup and whether it demands a token.\<close>

record first_resolver =
  fr_primary :: static_resolver
  fr_db :: user_db
  fr_extra :: "((string \<Rightarrow> identity option) \<times> bool) list"

definition first_required :: "first_resolver \<Rightarrow> bool" where
  "first_required r \<longleftrightarrow> Required (fr_primary r) \<or> HasUsers (fr_db r) \<or> list_ex snd (fr_extra r)"

fun first_some :: "(string \<Rightarrow> identity option) list \<Rightarrow> string \<Rightarrow> identity option" where
  "first_some [] token = None"
| "first_some (f # fs) token = (case f token of Some p \<Rightarrow> Some p | None \<Rightarrow> first_some fs token)"

definition first_resolve :: "first_resolver \<Rightarrow> string \<Rightarrow> identity option" where
  "first_resolve r token =
    (case (if Required (fr_primary r) then Resolve (fr_primary r) token else None) of
       Some p \<Rightarrow> Some p
     | None \<Rightarrow>
        (case db_resolve (fr_db r) token of
           Some p \<Rightarrow> Some p
         | None \<Rightarrow>
            (case first_some (map fst (fr_extra r)) token of
               Some p \<Rightarrow> Some p
             | None \<Rightarrow> (if \<not> first_required r then Some (plain_identity AnonymousOwner False) else None))))"

text \<open>A gRPC call: the first \<open>authorization\<close> value that parses; an HTTP request: the header, then the query.\<close>

fun first_bearer :: "string list \<Rightarrow> string" where
  "first_bearer [] = []"
| "first_bearer (v # vs) = (case parseBearer v of Some t \<Rightarrow> t | None \<Rightarrow> first_bearer vs)"

definition principalFromIncoming :: "(string \<Rightarrow> identity option) \<Rightarrow> string list \<Rightarrow> identity option" where
  "principalFromIncoming res values = res (first_bearer values)"

definition http_identity :: "(string \<Rightarrow> identity option) \<Rightarrow> string \<Rightarrow> string \<Rightarrow> identity option" where
  "http_identity res header query_token =
    (let token = (case parseBearer header of Some t \<Rightarrow> t | None \<Rightarrow> []) in
     res (if token = [] then query_token else token))"

end
