(* ===== verification/Access_Project.thy ===== *)
theory Access_Project imports Access_Policy Access_Token begin

text \<open>
  Projects and their members: the tables of \<open>cmd/gt-mcp/project_store.go\<close>, the authorizer of
  \<open>cmd/gt-mcp/authz.go\<close>, and the handlers of \<open>cmd/gt-mcp/project.go\<close>.

  The database is the record \<open>project_db\<close>: the rows of \<open>projects\<close> (their \<open>pj_members\<close> is the JSON backup column)
  and the rows of \<open>project_members\<close> by key.  SQL statements are modelled by their effect, transactions by doing
  all of it or nothing; a failing database is not modelled.  JSON columns hold their values directly.  A handler
  takes the identity of the caller from the context, the arguments of the call as a map of texts, and the
  time.  Error texts are constructors.
\<close>

section \<open>Tables\<close>

record project =
  pj_id :: string
  pj_name :: string
  pj_desc :: string
  pj_game :: string
  pj_createdBy :: string
  pj_owner :: string
  pj_tenant :: string
  pj_plugin :: string
  pj_port :: int
  pj_members :: "(string \<times> string) list"
  pj_plugins :: "(string \<times> string \<times> string) list"
  pj_rules :: "(string \<times> string) list"
  pj_createdAt :: string
  pj_updatedAt :: string

record project_db =
  db_projects :: "project list"
  db_members :: "((string \<times> string) \<times> string) list"

definition roleAdmin :: string where "roleAdmin = ''admin''"
definition roleMember :: string where "roleMember = ''member''"

definition tenantOrDefault :: "string \<Rightarrow> string" where
  "tenantOrDefault t = (if t = [] then DefaultTenant else t)"

definition find_project :: "project_db \<Rightarrow> string \<Rightarrow> project option" where
  "find_project db i = find (\<lambda>p. pj_id p = i) (db_projects db)"

text \<open>\<open>writeMembersTx\<close>: rows for all members with a name; the \<open>CHECK\<close> on the role refuses any other role.\<close>

fun writeMembersTx :: "string \<Rightarrow> (string \<times> string) list \<Rightarrow> ((string \<times> string) \<times> string) list \<Rightarrow> ((string \<times> string) \<times> string) list option" where
  "writeMembersTx i [] t = Some t"
| "writeMembersTx i ((u, r) # ms) t =
    (if u = [] then writeMembersTx i ms t
     else if r \<noteq> roleAdmin \<and> r \<noteq> roleMember then None
     else writeMembersTx i ms (AList.update (i, u) r t))"

definition listMembers :: "project_db \<Rightarrow> string \<Rightarrow> (string \<times> string) list" where
  "listMembers db i = sort_key fst (map (\<lambda>((_, u), r). (u, r)) (filter (\<lambda>((j, _), _). j = i) (db_members db)))"

text \<open>What happens to the tables when the process starts: an empty owner becomes the creator, and every member of a
  JSON backup column gets a row unless it has one; a row the database refuses is left out.\<close>

definition migrateProjectsAddOwnerTenant :: "project_db \<Rightarrow> project_db" where
  "migrateProjectsAddOwnerTenant db =
    db\<lparr>db_projects := map (\<lambda>p. if pj_owner p = [] then p\<lparr>pj_owner := pj_createdBy p\<rparr> else p) (db_projects db)\<rparr>"

fun backfill_members :: "string \<Rightarrow> (string \<times> string) list \<Rightarrow> ((string \<times> string) \<times> string) list \<Rightarrow> ((string \<times> string) \<times> string) list" where
  "backfill_members i [] t = t"
| "backfill_members i ((u, r) # ms) t =
    (if u = [] \<or> (r \<noteq> roleAdmin \<and> r \<noteq> roleMember) \<or> map_of t (i, u) \<noteq> None then backfill_members i ms t
     else backfill_members i ms (t @ [((i, u), r)]))"

definition migrateMembersJSONToTable :: "project_db \<Rightarrow> project_db" where
  "migrateMembersJSONToTable db = db\<lparr>db_members := fold (\<lambda>p. backfill_members (pj_id p) (pj_members p)) (db_projects db) (db_members db)\<rparr>"

definition Init :: "project_db \<Rightarrow> project_db" where
  "Init db = migrateMembersJSONToTable (migrateProjectsAddOwnerTenant db)"

definition store_create :: "project \<Rightarrow> project_db \<Rightarrow> project_db option" where
  "store_create p0 db =
    (let p = p0\<lparr>pj_owner := (if pj_owner p0 = [] then pj_createdBy p0 else pj_owner p0), pj_tenant := tenantOrDefault (pj_tenant p0)\<rparr> in
     if find_project db (pj_id p) \<noteq> None then None
     else (case writeMembersTx (pj_id p) (pj_members p) (db_members db) of
         None \<Rightarrow> None
       | Some t \<Rightarrow> Some (db\<lparr>db_projects := db_projects db @ [p], db_members := t\<rparr>)))"

definition store_update :: "project \<Rightarrow> project_db \<Rightarrow> project_db option" where
  "store_update p0 db =
    (let p = p0\<lparr>pj_tenant := tenantOrDefault (pj_tenant p0)\<rparr> in
     (case writeMembersTx (pj_id p) (pj_members p) (filter (\<lambda>((j, _), _). j \<noteq> pj_id p) (db_members db)) of
        None \<Rightarrow> None
      | Some t \<Rightarrow> Some (db\<lparr>db_projects := map (\<lambda>q. if pj_id q = pj_id p then p\<lparr>pj_createdAt := pj_createdAt q\<rparr> else q) (db_projects db),
                         db_members := t\<rparr>)))"

definition store_get :: "project_db \<Rightarrow> string \<Rightarrow> project option" where
  "store_get db i = map_option (\<lambda>p. p\<lparr>pj_members := listMembers db i\<rparr>) (find_project db i)"

definition store_delete :: "string \<Rightarrow> project_db \<Rightarrow> bool \<times> project_db" where
  "store_delete i db =
    (find_project db i \<noteq> None,
     db\<lparr>db_projects := filter (\<lambda>p. pj_id p \<noteq> i) (db_projects db), db_members := filter (\<lambda>((j, _), _). j \<noteq> i) (db_members db)\<rparr>)"

definition visibleTo :: "project \<Rightarrow> string \<Rightarrow> bool" where
  "visibleTo p user \<longleftrightarrow> pj_owner p = user \<or> list_ex (\<lambda>(u, _). u = user) (pj_members p) \<or> (pj_owner p = [] \<and> pj_createdBy p = user)"

definition ListVisible :: "project_db \<Rightarrow> string \<Rightarrow> bool \<Rightarrow> project list" where
  "ListVisible db owner all =
    map (\<lambda>p. p\<lparr>pj_members := listMembers db (pj_id p)\<rparr>)
      (filter (\<lambda>p. all \<or> visibleTo p owner) (rev (sort_key pj_createdAt (rev (db_projects db)))))"

definition RoleOf :: "project_db \<Rightarrow> string \<Rightarrow> string \<Rightarrow> role" where
  "RoleOf db i user =
    (case find_project db i of
       None \<Rightarrow> RoleNone
     | Some p \<Rightarrow>
        (if (pj_owner p \<noteq> [] \<and> pj_owner p = user) \<or> (pj_owner p = [] \<and> pj_createdBy p = user) then RoleOwner
         else (case map_of (db_members db) (i, user) of
             None \<Rightarrow> RoleNone
           | Some r \<Rightarrow> if r = roleAdmin then RoleAdmin else RoleMember)))"

definition AddMember :: "string \<Rightarrow> string \<Rightarrow> string \<Rightarrow> project_db \<Rightarrow> project_db" where
  "AddMember i user role db = db\<lparr>db_members := AList.update (i, user) role (db_members db)\<rparr>"

definition RemoveMember :: "string \<Rightarrow> string \<Rightarrow> project_db \<Rightarrow> bool \<times> project_db" where
  "RemoveMember i user db = (map_of (db_members db) (i, user) \<noteq> None, db\<lparr>db_members := AList.delete (i, user) (db_members db)\<rparr>)"

definition TransferOwner :: "string \<Rightarrow> string \<Rightarrow> string \<Rightarrow> string \<Rightarrow> project_db \<Rightarrow> bool \<times> project_db" where
  "TransferOwner i expectOwner newOwner now db =
    (list_ex (\<lambda>p. pj_id p = i \<and> pj_owner p = expectOwner) (db_projects db),
     db\<lparr>db_projects := map (\<lambda>p. if pj_id p = i \<and> pj_owner p = expectOwner then p\<lparr>pj_owner := newOwner, pj_updatedAt := now\<rparr> else p)
       (db_projects db)\<rparr>)"

section \<open>The authorizer\<close>

type_synonym caller = "identity option"

definition authzPrincipal :: "caller \<Rightarrow> principal" where
  "authzPrincipal c = (case c of
     Some i \<Rightarrow> \<lparr>p_user = id_owner i, p_tenant = id_tenant i, p_admin = id_admin i\<rparr> | None \<Rightarrow> anonymous)"

definition Can :: "project_db \<Rightarrow> caller \<Rightarrow> action \<Rightarrow> resource \<Rightarrow> denial + unit" where
  "Can db c act res =
    (let p = authzPrincipal c;
         pid = (if r_project res = [] \<and> r_kind res = KindProject then r_id res else r_project res);
         role = (if pid \<noteq> [] then RoleOf db pid (p_user p) else RoleNone) in
     Decide p act res role)"

definition projectResource :: "project \<Rightarrow> resource" where
  "projectResource p = \<lparr>r_kind = KindProject, r_id = pj_id p, r_tenant = pj_tenant p, r_project = [], r_creator = pj_createdBy p\<rparr>"

datatype perr =
  EArg string | ENotFound string | EIsOwner string | ENoMember string | EAlreadyOwner string | EConcurrent | EStore
| EForbidden string | ETenant string string

definition projectForAction :: "project_db \<Rightarrow> caller \<Rightarrow> string \<Rightarrow> action \<Rightarrow> perr + project" where
  "projectForAction db c i act =
    (if i = [] then Inl (EArg ''id'')
     else (case store_get db i of
         None \<Rightarrow> Inl (ENotFound i)
       | Some p \<Rightarrow> (case Can db c act (projectResource p) of Inl _ \<Rightarrow> Inl (ENotFound i) | Inr _ \<Rightarrow> Inr p)))"

definition projectCapabilities :: "project_db \<Rightarrow> caller \<Rightarrow> project \<Rightarrow> string list" where
  "projectCapabilities db c p =
    map action_name (filter (\<lambda>a. Can db c a (projectResource p) = Inr ())
      [ProjectUpdate, ProjectDelete, ProjectManageMembers, ProjectManagePlugins, ProjectManageRules, ProjectTransferOwner])"

text \<open>The other owners whose plugins a member of a project may use.\<close>

definition pluginOwnersFor :: "project_db \<Rightarrow> string \<Rightarrow> string list" where
  "pluginOwnersFor db user =
    (if user = [] then []
     else fold (\<lambda>(_, _, o1) out. if o1 = [] \<or> o1 = user \<or> o1 \<in> set out then out else out @ [o1])
       (concat (map pj_plugins (ListVisible db user False))) [])"

record session_filter =
  sf_owner :: string
  sf_all :: bool
  sf_projects :: "string list"

definition visibleSessionFilter :: "project_db \<Rightarrow> caller \<Rightarrow> session_filter" where
  "visibleSessionFilter db c =
    (case c of
       Some i \<Rightarrow>
        (if id_admin i then \<lparr>sf_owner = [], sf_all = True, sf_projects = []\<rparr>
         else \<lparr>sf_owner = id_owner i, sf_all = False, sf_projects = map pj_id (ListVisible db (id_owner i) False)\<rparr>)
     | None \<Rightarrow> \<lparr>sf_owner = [], sf_all = False, sf_projects = map pj_id (ListVisible db [] False)\<rparr>)"

text \<open>Sessions, as far as authorization looks at them.\<close>

record session_meta =
  sm_id :: string
  sm_owner :: string
  sm_tenant :: string
  sm_project :: string

definition sessionResource :: "session_meta \<Rightarrow> resource" where
  "sessionResource m = \<lparr>r_kind = KindSession, r_id = sm_id m, r_tenant = sm_tenant m, r_project = sm_project m, r_creator = sm_owner m\<rparr>"

text \<open>The session as the control store knows it, else as its metadata file does.\<close>

definition resolveSessionMeta :: "(string \<Rightarrow> session_meta option) \<Rightarrow> (string \<Rightarrow> session_meta option) \<Rightarrow> string \<Rightarrow> perr + session_meta" where
  "resolveSessionMeta control files sid =
    (if sid = [] then Inl (EArg ''session_id'')
     else (case control sid of
         Some m \<Rightarrow> Inr m
       | None \<Rightarrow> (case files sid of Some m \<Rightarrow> Inr (m\<lparr>sm_id := sid\<rparr>) | None \<Rightarrow> Inl (ENotFound sid))))"

definition authorizeSession :: "project_db \<Rightarrow> caller \<Rightarrow> (string \<Rightarrow> session_meta option) \<Rightarrow> (string \<Rightarrow> session_meta option) \<Rightarrow> string \<Rightarrow> perr + unit" where
  "authorizeSession db c control files sid =
    (case resolveSessionMeta control files sid of
       Inl e \<Rightarrow> Inl e
     | Inr m \<Rightarrow> (case Can db c SessionRead (sessionResource m) of Inl _ \<Rightarrow> Inl (ENotFound sid) | Inr _ \<Rightarrow> Inr ()))"

section \<open>Handlers\<close>

type_synonym args = "string \<Rightarrow> string option"

definition arg :: "args \<Rightarrow> string \<Rightarrow> string" where
  "arg a k = TrimSpace (case a k of Some s \<Rightarrow> s | None \<Rightarrow> [])"

definition handleProjectArgPort :: "(string \<Rightarrow> int option) \<Rightarrow> args \<Rightarrow> int" where
  "handleProjectArgPort json_int a = (case a ''port'' of None \<Rightarrow> 0 | Some v \<Rightarrow> (case json_int v of Some p \<Rightarrow> p | None \<Rightarrow> 0))"

definition handleCreateProject ::
  "(string \<Rightarrow> int option) \<Rightarrow> caller \<Rightarrow> args \<Rightarrow> string \<Rightarrow> string \<Rightarrow> project_db \<Rightarrow> (perr + project) \<times> project_db" where
  "handleCreateProject json_int c a new_id now db =
    (let name = arg a ''name'' in
     if name = [] then (Inl (EArg ''name''), db)
     else
       (let p = \<lparr>pj_id = new_id, pj_name = name, pj_desc = [], pj_game = [], pj_createdBy = p_user (authzPrincipal c), pj_owner = [],
                 pj_tenant = [], pj_plugin = arg a ''plugin'', pj_port = handleProjectArgPort json_int a, pj_members = [],
                 pj_plugins = [], pj_rules = [], pj_createdAt = now, pj_updatedAt = now\<rparr> in
        (case store_create p db of
           None \<Rightarrow> (Inl EStore, db)
         | Some db1 \<Rightarrow> (Inr (p\<lparr>pj_owner := pj_createdBy p, pj_tenant := DefaultTenant\<rparr>), db1))))"

definition handleListProjects :: "caller \<Rightarrow> project_db \<Rightarrow> project list" where
  "handleListProjects c db = ListVisible db (p_user (authzPrincipal c)) (p_admin (authzPrincipal c))"

definition edit_project :: "(string \<Rightarrow> int option) \<Rightarrow> args \<Rightarrow> string \<Rightarrow> project \<Rightarrow> project" where
  "edit_project json_int a now p =
    (let p1 = (if arg a ''name'' \<noteq> [] then p\<lparr>pj_name := arg a ''name''\<rparr> else p);
         p2 = (if a ''description'' \<noteq> None then p1\<lparr>pj_desc := arg a ''description''\<rparr> else p1);
         p3 = (if a ''game'' \<noteq> None then p2\<lparr>pj_game := arg a ''game''\<rparr> else p2);
         p4 = (if a ''default_plugin'' \<noteq> None then p3\<lparr>pj_plugin := arg a ''default_plugin''\<rparr> else p3);
         p5 = (if a ''default_port'' \<noteq> None then p4\<lparr>pj_port := handleProjectArgPort json_int a\<rparr> else p4) in
     p5\<lparr>pj_updatedAt := now\<rparr>)"

definition write_back :: "project \<Rightarrow> project_db \<Rightarrow> (perr + project) \<times> project_db" where
  "write_back p db = (case store_update p db of None \<Rightarrow> (Inl EStore, db) | Some db1 \<Rightarrow> (Inr (p\<lparr>pj_tenant := tenantOrDefault (pj_tenant p)\<rparr>), db1))"

definition handleUpdateProject ::
  "(string \<Rightarrow> int option) \<Rightarrow> caller \<Rightarrow> args \<Rightarrow> string \<Rightarrow> project_db \<Rightarrow> (perr + project) \<times> project_db" where
  "handleUpdateProject json_int c a now db =
    (case projectForAction db c (arg a ''id'') ProjectUpdate of
       Inl e \<Rightarrow> (Inl e, db)
     | Inr p \<Rightarrow> write_back (edit_project json_int a now p) db)"

definition handleDeleteProject :: "caller \<Rightarrow> args \<Rightarrow> project_db \<Rightarrow> (perr + unit) \<times> project_db" where
  "handleDeleteProject c a db =
    (case projectForAction db c (arg a ''id'') ProjectDelete of
       Inl e \<Rightarrow> (Inl e, db)
     | Inr p \<Rightarrow> (Inr (), snd (store_delete (pj_id p) db)))"

definition owner_char :: "char \<Rightarrow> bool" where
  "owner_char ch \<longleftrightarrow> (let n = of_char ch :: nat in (48 \<le> n \<and> n \<le> 57) \<or> (65 \<le> n \<and> n \<le> 90) \<or> (97 \<le> n \<and> n \<le> 122))"

definition validOwnerName :: "string \<Rightarrow> bool" where
  "validOwnerName s \<longleftrightarrow> (case s of [] \<Rightarrow> False
     | ch # cs \<Rightarrow> owner_char ch \<and> length cs \<le> 63 \<and> list_all (\<lambda>x. owner_char x \<or> x \<in> {CHR ''.'', CHR ''_'', CHR ''-''}) cs)"

definition handleAddProjectMember :: "caller \<Rightarrow> args \<Rightarrow> project_db \<Rightarrow> (perr + project option) \<times> project_db" where
  "handleAddProjectMember c a db =
    (let i = arg a ''project_id''; user = arg a ''user''; role = arg a ''role'' in
     if i = [] then (Inl (EArg ''project_id''), db)
     else if user = [] then (Inl (EArg ''user''), db)
     else if \<not> validOwnerName user then (Inl (EArg user), db)
     else if role \<noteq> roleAdmin \<and> role \<noteq> roleMember then (Inl (EArg ''role''), db)
     else
       (case projectForAction db c i ProjectManageMembers of
          Inl e \<Rightarrow> (Inl e, db)
        | Inr p \<Rightarrow>
           (if pj_owner p = user then (Inl (EIsOwner user), db)
            else (let db1 = AddMember i user role db in (Inr (store_get db1 i), db1)))))"

definition handleRemoveProjectMember :: "caller \<Rightarrow> args \<Rightarrow> project_db \<Rightarrow> (perr + project option) \<times> project_db" where
  "handleRemoveProjectMember c a db =
    (let i = arg a ''project_id''; user = arg a ''user'' in
     if i = [] then (Inl (EArg ''project_id''), db)
     else if user = [] then (Inl (EArg ''user''), db)
     else
       (case projectForAction db c i ProjectManageMembers of
          Inl e \<Rightarrow> (Inl e, db)
        | Inr p \<Rightarrow>
           (if pj_owner p = user then (Inl (EIsOwner user), db)
            else
              (let (found, db1) = RemoveMember i user db in
               if \<not> found then (Inl (ENoMember user), db1) else (Inr (store_get db1 i), db1)))))"

text \<open>The lists of the two handlers that replace an association arrive as JSON.\<close>

definition handleSetProjectPlugins ::
  "(string \<Rightarrow> (string \<times> string \<times> string) list option) \<Rightarrow> caller \<Rightarrow> args \<Rightarrow> string \<Rightarrow> project_db \<Rightarrow> (perr + project) \<times> project_db" where
  "handleSetProjectPlugins json c a now db =
    (let i = arg a ''project_id''; l = arg a ''plugins'' in
     if i = [] then (Inl (EArg ''project_id''), db)
     else if l = [] then (Inl (EArg ''plugins''), db)
     else
       (case json l of
          None \<Rightarrow> (Inl (EArg ''plugins''), db)
        | Some ps \<Rightarrow>
           (case projectForAction db c i ProjectManagePlugins of
              Inl e \<Rightarrow> (Inl e, db)
            | Inr p \<Rightarrow>
               (let setter = p_user (authzPrincipal c);
                    ps1 = map (\<lambda>(pid, n, o1). (pid, n, if o1 = [] then setter else o1)) ps in
                write_back (p\<lparr>pj_plugins := ps1, pj_updatedAt := now\<rparr>) db))))"

definition handleSetProjectRules ::
  "(string \<Rightarrow> (string \<times> string) list option) \<Rightarrow> caller \<Rightarrow> args \<Rightarrow> string \<Rightarrow> project_db \<Rightarrow> (perr + project) \<times> project_db" where
  "handleSetProjectRules json c a now db =
    (let i = arg a ''project_id''; l = arg a ''rules'' in
     if i = [] then (Inl (EArg ''project_id''), db)
     else if l = [] then (Inl (EArg ''rules''), db)
     else
       (case json l of
          None \<Rightarrow> (Inl (EArg ''rules''), db)
        | Some rs \<Rightarrow>
           (case projectForAction db c i ProjectManageRules of
              Inl e \<Rightarrow> (Inl e, db)
            | Inr p \<Rightarrow> write_back (p\<lparr>pj_rules := rs, pj_updatedAt := now\<rparr>) db)))"

definition handleTransferProjectOwner :: "caller \<Rightarrow> args \<Rightarrow> string \<Rightarrow> project_db \<Rightarrow> (perr + project option) \<times> project_db" where
  "handleTransferProjectOwner c a now db =
    (let i = arg a ''project_id''; newOwner = arg a ''new_owner'' in
     if i = [] then (Inl (EArg ''project_id''), db)
     else if newOwner = [] then (Inl (EArg ''new_owner''), db)
     else
       (case projectForAction db c i ProjectTransferOwner of
          Inl e \<Rightarrow> (Inl e, db)
        | Inr p \<Rightarrow>
           (if pj_owner p = newOwner then (Inl (EAlreadyOwner newOwner), db)
            else if RoleOf db i newOwner \<noteq> RoleAdmin \<and> RoleOf db i newOwner \<noteq> RoleMember then (Inl (ENoMember newOwner), db)
            else
              (let (ok, db1) = TransferOwner i (pj_owner p) newOwner now db in
               if \<not> ok then (Inl EConcurrent, db1)
               else
                 (let db2 = AddMember i (pj_owner p) roleAdmin db1; db3 = snd (RemoveMember i newOwner db2) in
                  (Inr (store_get db3 i), db3))))))"

text \<open>The six checks before a session moves, and the update guarded by its tenant.\<close>

definition moveSessionToProject ::
  "caller \<Rightarrow> (string \<Rightarrow> session_meta option) \<Rightarrow> string \<Rightarrow> string \<Rightarrow> project_db \<Rightarrow> session_meta list \<Rightarrow> (perr + unit) \<times> session_meta list" where
  "moveSessionToProject c files sid pid db sessions =
    (case resolveSessionMeta (\<lambda>s. find (\<lambda>m. sm_id m = s) sessions) files sid of
       Inl e \<Rightarrow> (Inl e, sessions)
     | Inr m \<Rightarrow>
        (if Can db c SessionMoveProject (sessionResource m) \<noteq> Inr () then (Inl (EForbidden sid), sessions)
         else
           (let target = (if pid = [] then Inr ()
                  else (case store_get db pid of
                      None \<Rightarrow> Inl (ENotFound pid)
                    | Some p \<Rightarrow>
                       (if Can db c ProjectRead (projectResource p) \<noteq> Inr () then Inl (EForbidden pid)
                        else if tenantOrDefault (pj_tenant p) \<noteq> tenantOrDefault (sm_tenant m) then
                          Inl (ETenant (tenantOrDefault (sm_tenant m)) (tenantOrDefault (pj_tenant p)))
                        else Inr ()))) in
            (case target of
               Inl e \<Rightarrow> (Inl e, sessions)
             | Inr _ \<Rightarrow>
                (let hit = (\<lambda>x. sm_id x = sid \<and> sm_tenant x = tenantOrDefault (sm_tenant m)) in
                 if \<not> list_ex hit sessions then (Inl (ENotFound sid), sessions)
                 else (Inr (), map (\<lambda>x. if hit x then x\<lparr>sm_project := pid\<rparr> else x) sessions))))))"

definition handleMoveSessionToProject ::
  "caller \<Rightarrow> (string \<Rightarrow> session_meta option) \<Rightarrow> args \<Rightarrow> project_db \<Rightarrow> session_meta list \<Rightarrow> (perr + unit) \<times> session_meta list" where
  "handleMoveSessionToProject c files a db sessions =
    (if arg a ''session_id'' = [] then (Inl (EArg ''session_id''), sessions)
     else moveSessionToProject c files (arg a ''session_id'') (arg a ''project_id'') db sessions)"

definition handleSetSessionProject ::
  "caller \<Rightarrow> (string \<Rightarrow> session_meta option) \<Rightarrow> args \<Rightarrow> project_db \<Rightarrow> session_meta list \<Rightarrow> (perr + unit) \<times> session_meta list" where
  "handleSetSessionProject c files a db sessions = handleMoveSessionToProject c files a db sessions"

end
