(* ===== verification/Access_Users.thy ===== *)
theory Access_Users imports Access_Project "HOL-Library.Word" begin

text \<open>
  How someone gets an identity: the user table of \<open>cmd/gt-mcp/user_store.go\<close>, self registration (\<open>register.go\<close>), and
  the access codes of \<open>access_code.go\<close> with the claim that turns a code into the configuration of an agent.

  The user table is the list of its rows by token, as the resolvers of \<open>Access_Token\<close> read it.  Random bytes, the time
  (nanoseconds) and its text, and the answer of the pipeline are arguments; a failing database is not modelled.
  The table is always there (\<open>main.go\<close> reads it before it serves), so the check for a missing one is left out.
\<close>

section \<open>The user table\<close>

type_synonym users = "(string \<times> user_row) list"

datatype user_err = UName string | URandom | UTaken string | UNotFound string | USelf | UClosed | UMethod | UBody | UReserved string | UForbidden

definition hex_digit :: "nat \<Rightarrow> char" where
  "hex_digit n = char_of (if n < 10 then 48 + n else 87 + n)"

definition hex_bytes :: "8 word list \<Rightarrow> string" where
  "hex_bytes bs = concat (map (\<lambda>b. [hex_digit (unat b div 16), hex_digit (unat b mod 16)]) bs)"

definition newInviteToken :: "8 word list option \<Rightarrow> string option" where
  "newInviteToken rnd = map_option (\<lambda>b. ''gt_'' @ hex_bytes b) rnd"

definition CreateUser :: "8 word list option \<Rightarrow> string \<Rightarrow> string \<Rightarrow> string \<Rightarrow> users \<Rightarrow> user_err + (user_row \<times> string \<times> users)" where
  "CreateUser rnd owner createdBy now us =
    (if \<not> validOwnerName owner then Inl (UName owner)
     else (case newInviteToken rnd of
         None \<Rightarrow> Inl URandom
       | Some token \<Rightarrow>
          (let row = \<lparr>ur_owner = owner, ur_is_admin = 0, ur_tenant = DefaultTenant, ur_created_by = createdBy, ur_created_at = now\<rparr> in
           if list_ex (\<lambda>(t, u). t = token \<or> ur_owner u = owner) us then Inl (UTaken owner)
           else Inr (row, token, us @ [(token, row)]))))"

definition OwnerExists :: "users \<Rightarrow> string \<Rightarrow> bool" where
  "OwnerExists us owner \<longleftrightarrow> list_ex (\<lambda>(_, u). ur_owner u = owner) us"

definition Revoke :: "string \<Rightarrow> users \<Rightarrow> bool \<times> users" where
  "Revoke owner us = (OwnerExists us owner, filter (\<lambda>(_, u). ur_owner u \<noteq> owner) us)"

definition ListUsers :: "users \<Rightarrow> user_row list" where
  "ListUsers us = sort_key ur_created_at (map snd us)"

definition isKnownUser :: "static_resolver \<Rightarrow> users \<Rightarrow> string \<Rightarrow> bool" where
  "isKnownUser env us user \<longleftrightarrow> user \<noteq> [] \<and> (HasOwner env user \<or> OwnerExists us user)"

definition userResource :: resource where
  "userResource = \<lparr>r_kind = KindUser, r_id = [], r_tenant = [], r_project = [], r_creator = []\<rparr>"

definition handleListUsers :: "project_db \<Rightarrow> caller \<Rightarrow> static_resolver \<Rightarrow> users \<Rightarrow> user_err + (user_row list \<times> string list)" where
  "handleListUsers db c env us =
    (case Can db c UserManage userResource of Inl _ \<Rightarrow> Inl UForbidden | Inr _ \<Rightarrow> Inr (ListUsers us, Owners env))"

definition handleRevokeUser :: "project_db \<Rightarrow> caller \<Rightarrow> args \<Rightarrow> users \<Rightarrow> (user_err + unit) \<times> users" where
  "handleRevokeUser db c a us =
    (case Can db c UserManage userResource of
       Inl _ \<Rightarrow> (Inl UForbidden, us)
     | Inr _ \<Rightarrow>
        (let owner = arg a ''owner'' in
         if owner = [] then (Inl (UName []), us)
         else if owner = p_user (authzPrincipal c) then (Inl USelf, us)
         else (let (found, us1) = Revoke owner us in if \<not> found then (Inl (UNotFound owner), us1) else (Inr (), us1))))"

text \<open>Self registration: the method is POST, registration is open, the body holds a name.\<close>

definition handleRegister ::
  "bool \<Rightarrow> bool \<Rightarrow> string option \<Rightarrow> static_resolver \<Rightarrow> 8 word list option \<Rightarrow> string \<Rightarrow> users \<Rightarrow> user_err + (string \<times> string \<times> users)" where
  "handleRegister is_post openRegister body env rnd now us =
    (if \<not> is_post then Inl UMethod
     else if \<not> openRegister then Inl UClosed
     else (case body of
         None \<Rightarrow> Inl UBody
       | Some name0 \<Rightarrow>
          (let name = TrimSpace name0 in
           if \<not> validOwnerName name then Inl (UName name)
           else if name = AnonymousOwner then Inl (UReserved name)
           else if HasOwner env name then Inl (UReserved name)
           else if OwnerExists us name then Inl (UTaken name)
           else (case CreateUser rnd name [] now us of
               Inl e \<Rightarrow> Inl e
             | Inr (u, token, us1) \<Rightarrow> Inr (ur_owner u, token, us1)))))"

section \<open>Access codes\<close>

text \<open>Times are kept as RFC 3339 texts, which hold whole seconds.\<close>

record access_code =
  ac_code :: string
  ac_owner :: string
  ac_project :: string
  ac_new_owner :: string
  ac_plugin :: string
  ac_port :: int
  ac_server :: string
  ac_platform :: string
  ac_created :: int
  ac_expires :: int
  ac_claimed :: bool
  ac_session :: string

definition code_charset :: string where
  "code_charset = ''ABCDEFGHJKLMNPQRSTUVWXYZ23456789''"

definition code_char :: "8 word list \<Rightarrow> nat \<Rightarrow> char" where
  "code_char b i = code_charset ! (unat (b ! i) mod length code_charset)"

text \<open>Six random bytes; both loops run over constants.\<close>

definition newAccessCode :: "8 word list option \<Rightarrow> string" where
  "newAccessCode rnd =
    (case rnd of
       None \<Rightarrow> ''GT-DEAD-BEEF''
     | Some b \<Rightarrow>
        (let part = (\<lambda>i. map (\<lambda>j. code_char b (i * 2 + j)) [0..<4]) in ''GT-'' @ part 0 @ ''-'' @ part 1))"

definition access_create :: "access_code \<Rightarrow> access_code list \<Rightarrow> access_code list option" where
  "access_create c cs = (if list_ex (\<lambda>x. ac_code x = ac_code c) cs then None else Some (cs @ [c]))"

definition access_get :: "access_code list \<Rightarrow> string \<Rightarrow> access_code option" where
  "access_get cs code = find (\<lambda>x. ac_code x = code) cs"

definition MarkClaimed :: "string \<Rightarrow> string \<Rightarrow> access_code list \<Rightarrow> access_code list" where
  "MarkClaimed code sid cs = map (\<lambda>x. if ac_code x = code then x\<lparr>ac_claimed := True, ac_session := sid\<rparr> else x) cs"

definition listForOwner :: "access_code list \<Rightarrow> string \<Rightarrow> bool \<Rightarrow> access_code list" where
  "listForOwner cs owner all = filter (\<lambda>c. all \<or> ac_owner c = owner) (rev (sort_key ac_created (rev cs)))"

definition handleListAccessCodes :: "caller \<Rightarrow> access_code list \<Rightarrow> access_code list" where
  "handleListAccessCodes c cs = listForOwner cs (p_user (authzPrincipal c)) (p_admin (authzPrincipal c))"

definition get_string :: "args \<Rightarrow> string \<Rightarrow> string" where
  "get_string a k = (case a k of Some s \<Rightarrow> s | None \<Rightarrow> [])"

datatype code_err = CForbidden | CAnonymous | CName string | CExists string | CProject string | CStore

definition handleCreateAccessCode ::
  "(string \<Rightarrow> int option) \<Rightarrow> caller \<Rightarrow> args \<Rightarrow> 8 word list option \<Rightarrow> int \<Rightarrow> project_db \<Rightarrow> users \<Rightarrow> access_code list \<Rightarrow>
     (code_err + access_code) \<times> access_code list" where
  "handleCreateAccessCode json_int c a rnd now db us cs =
    (let p = authzPrincipal c; owner = p_user p; projectID = get_string a ''project_id''; newOwner = arg a ''new_owner'' in
     if \<not> AccessCodeActionAllowed p AccessCodeCreate owner then (Inl CForbidden, cs)
     else if newOwner \<noteq> [] \<and> owner = [] then (Inl CAnonymous, cs)
     else if newOwner \<noteq> [] \<and> \<not> validOwnerName newOwner then (Inl (CName newOwner), cs)
     else if newOwner \<noteq> [] \<and> OwnerExists us newOwner then (Inl (CExists newOwner), cs)
     else
       (let bound = (projectID \<noteq> [] \<and>
             (case store_get db projectID of None \<Rightarrow> True | Some t \<Rightarrow> Can db c ProjectRead (projectResource t) \<noteq> Inr ())) in
        if bound then (Inl (CProject projectID), cs)
        else
          (let rec1 = \<lparr>ac_code = newAccessCode rnd, ac_owner = owner, ac_project = projectID, ac_new_owner = newOwner,
                       ac_plugin = get_string a ''plugin'', ac_port = handleProjectArgPort json_int a, ac_server = arg a ''server'',
                       ac_platform = get_string a ''platform'', ac_created = now div 10 ^ 9, ac_expires = (now + 86400 * 10 ^ 9) div 10 ^ 9,
                       ac_claimed = False, ac_session = []\<rparr> in
           (case access_create rec1 cs of None \<Rightarrow> (Inl CStore, cs) | Some cs1 \<Rightarrow> (Inr rec1, cs1)))))"

text \<open>The token of an owner, read from the configuration a second time.\<close>

fun load_tokens :: "string list \<Rightarrow> (string \<times> string) list \<Rightarrow> (string \<times> string) list" where
  "load_tokens [] m = m"
| "load_tokens (seg0 # segs) m =
    (let seg = TrimSpace seg0 in
     (case cut_first (CHR ''='') seg of
        None \<Rightarrow> load_tokens segs m
      | Some (l, r) \<Rightarrow>
         (let owner = TrimSpace l;
              tok0 = TrimSpace r;
              tok = (case cut_last (CHR '':'') tok0 of Some (t, _) \<Rightarrow> t | None \<Rightarrow> tok0) in
          load_tokens segs (if owner \<noteq> [] \<and> tok \<noteq> [] then AList.update owner tok m else m))))"

definition loadTokensByOwner :: "string \<Rightarrow> (string \<times> string) list" where
  "loadTokensByOwner spec = load_tokens (split_char (CHR '','') spec) []"

definition ownerSecret :: "(string \<times> string) list \<Rightarrow> string \<Rightarrow> string" where
  "ownerSecret m owner = (case map_of m owner of Some t \<Rightarrow> t | None \<Rightarrow> [])"

section \<open>Claiming a code\<close>

definition upper_char :: "char \<Rightarrow> char" where
  "upper_char c = (let n = of_char c :: nat in if 97 \<le> n \<and> n \<le> 122 then char_of (n - 32) else c)"

definition accessCodeBPF :: "int \<Rightarrow> string" where
  "accessCodeBPF port = (if port \<le> 0 then [] else ''tcp port '' @ show_int port @ '' or udp port '' @ show_int port)"

definition accessCodePlugins :: "string \<Rightarrow> string list" where
  "accessCodePlugins plugin = (if plugin = [] then [] else [plugin])"

record start_request =
  sr_plugin :: string
  sr_agent :: bool
  sr_owner :: string
  sr_project :: string
  sr_plugin_owners :: "string list"

record claim_config =
  cc_server :: string
  cc_ingest :: string
  cc_token :: string
  cc_session :: string
  cc_bpf :: string
  cc_plugins :: "string list"

record session_metadata =
  mt_owner :: string
  mt_session :: string
  mt_started :: string
  mt_status :: string
  mt_port :: int
  mt_plugin :: string
  mt_source :: string
  mt_dbpath :: string
  mt_project :: string

datatype claim_err = CodeRequired | CodeInvalid | CodeExpired | NoPipeline | InviteFailed user_err | OpenFailed

text \<open>The pipeline: absent, or the session and the database path it answers a request with, if it does.\<close>

type_synonym pipeline = "(start_request \<Rightarrow> (string \<times> string) option) option"

definition claim_open ::
  "pipeline \<Rightarrow> string \<times> string \<Rightarrow> string \<Rightarrow> project_db \<Rightarrow> access_code \<Rightarrow> string \<Rightarrow> string \<Rightarrow> users \<Rightarrow> access_code list \<Rightarrow>
     (claim_err + (claim_config \<times> session_metadata)) \<times> users \<times> access_code list" where
  "claim_open pl addrs stamp db rec1 owner token us cs =
    (let req = \<lparr>sr_plugin = ac_plugin rec1, sr_agent = True, sr_owner = owner, sr_project = ac_project rec1,
                sr_plugin_owners = pluginOwnersFor db owner @ (if ac_owner rec1 \<noteq> [] \<and> ac_owner rec1 \<noteq> owner then [ac_owner rec1] else [])\<rparr> in
     (case (case pl of None \<Rightarrow> None | Some start \<Rightarrow> start req) of
        None \<Rightarrow> (Inl OpenFailed, us, cs)
      | Some (sid, path) \<Rightarrow>
         (Inr (\<lparr>cc_server = (if ac_server rec1 \<noteq> [] then ac_server rec1 else fst addrs), cc_ingest = snd addrs, cc_token = token,
                cc_session = sid, cc_bpf = accessCodeBPF (ac_port rec1), cc_plugins = accessCodePlugins (ac_plugin rec1)\<rparr>,
               \<lparr>mt_owner = owner, mt_session = sid, mt_started = stamp, mt_status = ''running'', mt_port = ac_port rec1, mt_plugin = ac_plugin rec1, mt_source = ''agent'',
                mt_dbpath = path, mt_project = ac_project rec1\<rparr>),
          us, MarkClaimed (ac_code rec1) sid cs)))"

definition handleAccessClaim ::
  "pipeline \<Rightarrow> string \<times> string \<Rightarrow> (string \<times> string) list \<Rightarrow> string \<Rightarrow> 8 word list option \<Rightarrow> int \<Rightarrow> string \<Rightarrow> project_db \<Rightarrow> users \<Rightarrow> access_code list \<Rightarrow>
     (claim_err + (claim_config \<times> session_metadata)) \<times> users \<times> access_code list" where
  "handleAccessClaim pl addrs tokens query rnd now stamp db us cs =
    (let code = map upper_char (TrimSpace query) in
     if code = [] then (Inl CodeRequired, us, cs)
     else (case access_get cs code of
         None \<Rightarrow> (Inl CodeInvalid, us, cs)
       | Some rec1 \<Rightarrow>
          (if now > ac_expires rec1 * 10 ^ 9 then (Inl CodeExpired, us, cs)
           else if pl = None then (Inl NoPipeline, us, cs)
           else if ac_new_owner rec1 = [] then
             claim_open pl addrs stamp db rec1 (ac_owner rec1) (ownerSecret tokens (ac_owner rec1)) us cs
           else
             (case CreateUser rnd (ac_new_owner rec1) (ac_owner rec1) stamp us of
                Inl e \<Rightarrow> (Inl (InviteFailed e), us, cs)
              | Inr (u, token, us1) \<Rightarrow> claim_open pl addrs stamp db rec1 (ur_owner u) token us1 cs))))"

end
