(* ===== verification/Access_Token_Props.thy ===== *)
theory Access_Token_Props imports Access_Token begin

text \<open>
  The token configuration reads back as it was written, and when it leaves the service open.
\<close>

section \<open>The open service\<close>

lemma parse_segments_empty:
  "parse_segments segs bt ow = Inr r \<Longrightarrow> r = [] \<longleftrightarrow> bt = [] \<and> (\<forall>seg \<in> set segs. TrimSpace seg = [])"
proof (induction segs arbitrary: bt ow)
  case (Cons s segs)
  then show ?case by (auto simp: Let_def split: if_splits sum.splits option.splits prod.splits)
qed simp

text \<open>The service is open to everyone exactly when the configuration holds nothing but commas and white
  space; every other configuration is either refused or demands a known token.  A configuration of commas alone
  is not refused: it opens the service.\<close>

theorem ParseTokens_open_iff:
  assumes "ParseTokens spec = Inr r"
  shows "(\<forall>token. Resolve r token = Some (plain_identity AnonymousOwner False)) \<longleftrightarrow> (\<forall>c \<in> set spec. is_white c \<or> c = CHR '','')"
proof -
  have e: "r = [] \<longleftrightarrow> (\<forall>c \<in> set spec. is_white c \<or> c = CHR '','')"
  proof (cases "TrimSpace spec = []")
    case True
    then show ?thesis using assms TrimSpace_Nil_iff [of spec] by (auto simp: ParseTokens_def)
  next
    case False
    then have "parse_segments (split_char (CHR '','') spec) [] [] = Inr r" using assms by (simp only: ParseTokens_def) simp
    from parse_segments_empty [OF this]
    have "r = [] \<longleftrightarrow> (\<forall>seg \<in> set (split_char (CHR '','') spec). \<forall>c \<in> set seg. is_white c)" by (simp add: TrimSpace_Nil_iff)
    also have "\<dots> \<longleftrightarrow> (\<forall>c \<in> set (concat (split_char (CHR '','') spec)). is_white c)" by auto
    finally show ?thesis by (auto simp: split_char_concat)
  qed
  have "r = []" if a: "\<forall>token. Resolve r token = Some (plain_identity AnonymousOwner False)"
  proof (rule ccontr)
    assume ne: "r \<noteq> []"
    obtain t :: string where "t \<notin> fst ` set r" using ex_new_if_finite [OF infinite_UNIV_listI, of "fst ` set r"] by auto
    then have "map_of r t = None" by (simp add: map_of_eq_None_iff)
    then have "Resolve r t = None" using ne by (simp add: Resolve_def Required_def)
    then show False using a by simp
  qed
  then have "(\<forall>token. Resolve r token = Some (plain_identity AnonymousOwner False)) \<longleftrightarrow> r = []"
    by (rule iffI) (blast, simp add: Resolve_def Required_def)
  with e show ?thesis by simp
qed

lemma ParseTokens_open_iff_witness:
  "ParseTokens '' ,, '' = Inr [] \<and> Resolve [] ''anything'' = Some (plain_identity AnonymousOwner False)"
proof -
  have p: "ParseTokens '' ,, '' = Inr []" by code_simp
  moreover have "\<forall>c \<in> set '' ,, ''. is_white c \<or> c = CHR '',''" by code_simp
  ultimately show ?thesis using ParseTokens_open_iff [OF p] by blast
qed

section \<open>The configuration reads back\<close>

type_synonym token_entry = "string \<times> string \<times> bool"

definition render_entry :: "token_entry \<Rightarrow> string" where
  "render_entry e = (case e of (owner, token, admin) \<Rightarrow> owner @ ''='' @ token @ (if admin then '':admin'' else []))"

definition legal_entry :: "token_entry \<Rightarrow> bool" where
  "legal_entry e \<longleftrightarrow> (case e of (owner, token, admin) \<Rightarrow> trimmed owner \<and> trimmed token \<and>
     CHR '','' \<notin> set owner \<and> CHR ''='' \<notin> set owner \<and> CHR '','' \<notin> set token \<and> CHR '':'' \<notin> set token)"

lemma EqualFold_admin: "EqualFold ''admin'' adminSuffix"
  by code_simp

lemma parse_render: "legal_entry (owner, token, admin) \<Longrightarrow> parse_entry (render_entry (owner, token, admin)) = Inr (owner, token, admin)"
proof -
  assume l: "legal_entry (owner, token, admin)"
  let ?r = "token @ (if admin then '':admin'' else [])"
  have c: "cut_first (CHR ''='') (owner @ ''='' @ ?r) = Some (owner, ?r)"
    using cut_first_append [of "CHR ''=''" owner ?r] l by (simp add: legal_entry_def)
  have t: "TrimSpace owner = owner" "owner \<noteq> []" "token \<noteq> []" using l by (auto simp: legal_entry_def TrimSpace_trimmed trimmed_def)
  have "trimmed ?r" using l by (auto simp: legal_entry_def trimmed_def is_white_def)
  then have tr: "TrimSpace ?r = ?r" by (rule TrimSpace_trimmed)
  have n: "CHR '':'' \<notin> set token" using l by (simp add: legal_entry_def)
  show ?thesis
  proof (cases admin)
    case True
    have "cut_last (CHR '':'') (token @ CHR '':'' # ''admin'') = Some (token, ''admin'')" by (rule cut_last_append) simp
    then show ?thesis using c t tr True by (simp add: parse_entry_def render_entry_def Let_def EqualFold_admin)
  next
    case False
    then show ?thesis using c t tr cut_last_None [OF n] by (simp add: parse_entry_def render_entry_def Let_def)
  qed
qed

lemma render_trimmed: "legal_entry e \<Longrightarrow> TrimSpace (render_entry e) = render_entry e \<and> render_entry e \<noteq> [] \<and> CHR '','' \<notin> set (render_entry e)"
  by (cases e) (auto simp: legal_entry_def render_entry_def trimmed_def is_white_def intro!: TrimSpace_trimmed)

lemma map_of_rev_distinct: "distinct (map fst xs) \<Longrightarrow> map_of (rev xs) = map_of xs"
proof (rule ext)
  fix k
  assume d: "distinct (map fst xs)"
  then have d': "distinct (map fst (rev xs))" by (simp add: rev_map [symmetric])
  show "map_of (rev xs) k = map_of xs k"
  proof (cases "map_of xs k")
    case None
    then have "map_of (rev xs) k = None" by (simp add: map_of_eq_None_iff)
    then show ?thesis using None by simp
  next
    case (Some v)
    then have "(k, v) \<in> set (rev xs)" using map_of_SomeD by fastforce
    then have "map_of (rev xs) k = Some v" using map_of_eq_Some_iff [OF d', of k v] by simp
    then show ?thesis using Some by simp
  qed
qed

definition table_of :: "token_entry list \<Rightarrow> static_resolver" where
  "table_of es = map (\<lambda>(owner, token, admin). (token, plain_identity owner admin)) es"

lemma parse_segments_render:
  "\<forall>e \<in> set es. legal_entry e \<Longrightarrow> distinct (map fst es) \<Longrightarrow> distinct (map (fst \<circ> snd) es) \<Longrightarrow>
     \<forall>e \<in> set es. map_of ow (fst e) = None \<and> map_of bt (fst (snd e)) = None \<Longrightarrow>
     parse_segments (map render_entry es) bt ow = Inr (rev (table_of es) @ bt)"
proof (induction es arbitrary: bt ow)
  case Nil
  then show ?case by (simp add: table_of_def)
next
  case (Cons e es)
  obtain owner token admin where e: "e = (owner, token, admin)" by (cases e)
  have l: "legal_entry (owner, token, admin)" using Cons.prems(1) e by simp
  let ?bt = "(token, plain_identity owner admin) # bt" and ?ow = "(owner, render_entry e) # ow"
  have "\<forall>x \<in> set es. map_of ?ow (fst x) = None \<and> map_of ?bt (fst (snd x)) = None"
    using Cons.prems(2-4) e by (force simp: image_iff)
  then have "parse_segments (map render_entry es) ?bt ?ow = Inr (rev (table_of es) @ ?bt)"
    using Cons.IH [of ?ow ?bt] Cons.prems(1-3) by simp
  then show ?case
    using render_trimmed [OF l] parse_render [OF l] Cons.prems(4) by (simp add: e table_of_def Let_def)
qed

text \<open>A token table reads back as it was written.  Parsing the rendering of a non-empty list of entries with
  distinct owners and tokens gives a resolver that demands a token and knows exactly those tokens, each with its
  owner and admin mark.\<close>

theorem ParseTokens_render:
  assumes "es \<noteq> []" and "\<forall>e \<in> set es. legal_entry e" and "distinct (map fst es)" and "distinct (map (fst \<circ> snd) es)"
  shows "\<exists>r. ParseTokens (join_with '','' (map render_entry es)) = Inr r \<and> Required r \<and>
    (\<forall>token. Resolve r token = map_of (table_of es) token)"
proof -
  let ?spec = "join_with '','' (map render_entry es)"
  have s: "split_char (CHR '','') ?spec = map render_entry es"
    using assms(1,2) render_trimmed by (intro split_char_join) auto
  have p: "parse_segments (map render_entry es) [] [] = Inr (rev (table_of es))"
    using parse_segments_render [of es "[]" "[]"] assms by simp
  have "TrimSpace ?spec \<noteq> []"
  proof
    assume "TrimSpace ?spec = []"
    then have "\<forall>c \<in> set (concat (split_char (CHR '','') ?spec)). is_white c" by (auto simp: TrimSpace_Nil_iff split_char_concat)
    moreover obtain e es' where "es = e # es'" using assms(1) by (cases es) auto
    ultimately have "TrimSpace (render_entry e) = []" unfolding s by (auto simp: TrimSpace_Nil_iff)
    then show False using render_trimmed [of e] assms(2) \<open>es = e # es'\<close> by simp
  qed
  then have "ParseTokens ?spec = Inr (rev (table_of es))" using s p by (simp add: ParseTokens_def)
  moreover have "distinct (map fst (table_of es))"
  proof -
    have "map fst (table_of es) = map (fst \<circ> snd) es" by (auto simp: table_of_def)
    then show ?thesis using assms(4) by simp
  qed
  then have "map_of (rev (table_of es)) = map_of (table_of es)" by (rule map_of_rev_distinct)
  moreover have "plain_identity (id_owner p) (id_admin p) = p" if "map_of (table_of es) token = Some p" for token p
    using that by (auto simp: table_of_def plain_identity_def dest!: map_of_SomeD)
  moreover have "table_of es \<noteq> []" using assms(1) by (simp add: table_of_def)
  ultimately show ?thesis
    by (intro exI [of _ "rev (table_of es)"]) (auto simp: Required_def Resolve_def split: option.splits)
qed

lemma ParseTokens_render_witness:
  "\<exists>r. ParseTokens ''al=gt_1,bo=gt_2:admin'' = Inr r \<and> Resolve r ''gt_2'' = Some (plain_identity ''bo'' True) \<and> Resolve r ''gt_3'' = None"
proof -
  let ?es = "[(''al'', ''gt_1'', False), (''bo'', ''gt_2'', True)]"
  have "join_with '','' (map render_entry ?es) = ''al=gt_1,bo=gt_2:admin''" by code_simp
  moreover have "\<forall>e \<in> set ?es. legal_entry e" by (simp add: legal_entry_def trimmed_def is_white_def)
  ultimately show ?thesis using ParseTokens_render [of ?es] by (auto simp: table_of_def)
qed

end
