(* ===== verification/Access_Project_Props.thy ===== *)
theory Access_Project_Props imports Access_Project begin

text \<open>
  Properties of the project store and its handlers: the tables stay well-formed under every handler call, only
  managers of a project change who may do what in it, a transfer moves ownership and nothing else, and what the
  JSON backup column of the members does to a removed member.
\<close>

section \<open>Handler calls as steps\<close>

text \<open>A call of one of the tools, with the identity of its caller; \<open>run_call\<close> is its effect on the tables.\<close>

datatype call =
  CCreate "string \<Rightarrow> int option" caller args string string
| CUpdate "string \<Rightarrow> int option" caller args string
| CDelete caller args
| CAdd caller args
| CRemove caller args
| CPlugins "string \<Rightarrow> (string \<times> string \<times> string) list option" caller args string
| CRules "string \<Rightarrow> (string \<times> string) list option" caller args string
| CTransfer caller args string

fun run_call :: "call \<Rightarrow> project_db \<Rightarrow> project_db" where
  "run_call (CCreate j c a i t) db = snd (handleCreateProject j c a i t db)"
| "run_call (CUpdate j c a t) db = snd (handleUpdateProject j c a t db)"
| "run_call (CDelete c a) db = snd (handleDeleteProject c a db)"
| "run_call (CAdd c a) db = snd (handleAddProjectMember c a db)"
| "run_call (CRemove c a) db = snd (handleRemoveProjectMember c a db)"
| "run_call (CPlugins j c a t) db = snd (handleSetProjectPlugins j c a t db)"
| "run_call (CRules j c a t) db = snd (handleSetProjectRules j c a t db)"
| "run_call (CTransfer c a t) db = snd (handleTransferProjectOwner c a t db)"

fun caller_of :: "call \<Rightarrow> caller" where
  "caller_of (CCreate j c a i t) = c"
| "caller_of (CUpdate j c a t) = c"
| "caller_of (CDelete c a) = c"
| "caller_of (CAdd c a) = c"
| "caller_of (CRemove c a) = c"
| "caller_of (CPlugins j c a t) = c"
| "caller_of (CRules j c a t) = c"
| "caller_of (CTransfer c a t) = c"

section \<open>The tables\<close>

text \<open>Project ids are unique, member rows have a key each, name an existing project whose owner they are not, and
  carry one of the two roles.\<close>

definition row_ok :: "project list \<Rightarrow> (string \<times> string) \<times> string \<Rightarrow> bool" where
  "row_ok ps = (\<lambda>((i, u), r). (r = roleAdmin \<or> r = roleMember) \<and> list_ex (\<lambda>p. pj_id p = i \<and> (pj_owner p = [] \<or> pj_owner p \<noteq> u)) ps)"

definition tables_ok :: "project_db \<Rightarrow> bool" where
  "tables_ok db \<longleftrightarrow> distinct (map pj_id (db_projects db)) \<and> distinct (map fst (db_members db)) \<and>
     list_all (row_ok (db_projects db)) (db_members db)"

lemma set_AList_update: "set (AList.update k v al) \<subseteq> insert (k, v) (set al)"
  by (induction al) auto

lemma set_AList_delete: "set (AList.delete k al) = {x \<in> set al. fst x \<noteq> k}"
  by (auto simp: AList.delete_eq)

lemma row_okI:
  "r = roleAdmin \<or> r = roleMember \<Longrightarrow> y \<in> set ps \<Longrightarrow> pj_id y = i \<Longrightarrow> pj_owner y = [] \<or> pj_owner y \<noteq> v \<Longrightarrow> row_ok ps ((i, v), r)"
  by (auto simp: row_ok_def list_ex_iff)

lemma row_okE:
  assumes "row_ok ps x"
  obtains i v r y where "x = ((i, v), r)" "r = roleAdmin \<or> r = roleMember" "y \<in> set ps" "pj_id y = i" "pj_owner y = [] \<or> pj_owner y \<noteq> v"
  using assms by (cases x) (auto simp: row_ok_def list_ex_iff split: prod.splits)

lemma find_project_SomeD: "find_project db i = Some p \<Longrightarrow> p \<in> set (db_projects db) \<and> pj_id p = i"
  by (auto simp: find_project_def find_Some_iff)

lemma find_project_NoneD: "find_project db i = None \<Longrightarrow> i \<notin> pj_id ` set (db_projects db)"
  by (auto simp: find_project_def find_None_iff)

lemma find_project_unique:
  assumes "tables_ok db" "p \<in> set (db_projects db)"
  shows "find_project db (pj_id p) = Some p"
proof -
  obtain q where q: "find_project db (pj_id p) = Some q"
    using find_project_NoneD assms(2) by (cases "find_project db (pj_id p)") auto
  from find_project_SomeD [OF this] have "q \<in> set (db_projects db)" "pj_id q = pj_id p" by auto
  with assms have "q = p" by (auto simp: tables_ok_def distinct_map inj_on_def)
  with q show ?thesis by simp
qed

text \<open>What \<open>writeMembersTx\<close> does to the table.\<close>

lemma writeMembersTx_keys:
  "writeMembersTx i ms t = Some t' \<Longrightarrow> distinct (map fst t) \<Longrightarrow> distinct (map fst t')"
  by (induction i ms t rule: writeMembersTx.induct) (auto split: if_splits simp: distinct_update)

lemma writeMembersTx_rows:
  "writeMembersTx i ms t = Some t' \<Longrightarrow>
     set t' \<subseteq> set t \<union> {((i, u), r) | u r. (u, r) \<in> set ms \<and> (r = roleAdmin \<or> r = roleMember)}"
proof (induction i ms t rule: writeMembersTx.induct)
  case (2 i u r ms t)
  then show ?case using set_AList_update [of "(i, u)" r t] by (auto split: if_splits)
qed auto

lemma set_listMembers: "set (listMembers db i) = {(u, r). ((i, u), r) \<in> set (db_members db)}"
  by (force simp: listMembers_def)

section \<open>Every operation of the store keeps the tables well-formed\<close>

named_theorems keeps "operations that keep the tables well-formed"

lemma keeps_create [keeps]:
  assumes ok: "tables_ok db" and c: "store_create p db = Some db'" and m: "pj_members p = []"
  shows "tables_ok db'"
  using assms find_project_NoneD [of db "pj_id p"]
  by (auto simp: store_create_def Let_def tables_ok_def row_ok_def list_all_iff list_ex_iff
      split: option.splits if_splits)

lemma keeps_delete [keeps]: "tables_ok db \<Longrightarrow> tables_ok (snd (store_delete i db))"
  by (auto simp: store_delete_def tables_ok_def row_ok_def list_all_iff list_ex_iff distinct_map_filter)
     
lemma keeps_add [keeps]:
  assumes "tables_ok db" "find_project db i = Some p" "pj_owner p = [] \<or> pj_owner p \<noteq> u" "r = roleAdmin \<or> r = roleMember"
  shows "tables_ok (AddMember i u r db)"
  using assms find_project_SomeD [OF assms(2)] set_AList_update [of "(i, u)" r "db_members db"]
  by (fastforce simp: AddMember_def tables_ok_def row_ok_def list_all_iff list_ex_iff distinct_update)

lemma keeps_remove [keeps]: "tables_ok db \<Longrightarrow> tables_ok (snd (RemoveMember i u db))"
  by (auto simp: RemoveMember_def tables_ok_def row_ok_def list_all_iff distinct_delete set_AList_delete)

lemma keeps_update [keeps]:
  assumes ok: "tables_ok db" and u: "store_update p db = Some db'"
    and own: "find_project db (pj_id p) = Some q" "pj_owner q = pj_owner p" and m: "pj_members p = listMembers db (pj_id p)"
  shows "tables_ok db'"
proof -
  let ?t = "filter (\<lambda>((j, _), _). j \<noteq> pj_id p) (db_members db)"
  let ?f = "\<lambda>x. if pj_id x = pj_id p then p\<lparr>pj_tenant := tenantOrDefault (pj_tenant p), pj_createdAt := pj_createdAt x\<rparr> else x"
  let ?ps = "map ?f (db_projects db)"
  from u obtain t where t: "writeMembersTx (pj_id p) (pj_members p) ?t = Some t"
    and db': "db' = db\<lparr>db_projects := ?ps, db_members := t\<rparr>"
    by (auto simp: store_update_def Let_def split: option.splits)
  have ids: "map pj_id ?ps = map pj_id (db_projects db)" by (simp add: comp_def)
  have keys: "distinct (map fst t)"
    using writeMembersTx_keys [OF t] ok by (simp add: tables_ok_def distinct_map_filter)
  have rows: "x \<in> set (db_members db)" if "x \<in> set t" for x
    using that writeMembersTx_rows [OF t] unfolding m set_listMembers by auto
  have row: "row_ok ?ps x" if "row_ok (db_projects db) x" for x
    using that
  proof (rule row_okE)
    fix i v r y
    assume x: "x = ((i, v), r)" "r = roleAdmin \<or> r = roleMember" and y: "y \<in> set (db_projects db)" "pj_id y = i" "pj_owner y = [] \<or> pj_owner y \<noteq> v"
    have "y = q" if "i = pj_id p"
      using find_project_unique [OF ok y(1)] y(2) own(1) that by simp
    moreover have "?f y \<in> set ?ps" using y(1) by simp
    ultimately show ?thesis unfolding x(1) using y own(2) by (intro row_okI [OF x(2), of "?f y"]) auto
  qed
  show ?thesis
    using ok ids keys rows row by (auto simp: tables_ok_def db' list_all_iff simp del: map_map)
qed

lemma keeps_transfer [keeps]:
  assumes ok: "tables_ok db" and f: "find_project db i = Some p" and n: "n \<noteq> pj_owner p"
  shows "tables_ok (snd (RemoveMember i n (AddMember i (pj_owner p) roleAdmin (snd (TransferOwner i (pj_owner p) n t db)))))"
proof -
  let ?f = "\<lambda>x. if pj_id x = i \<and> pj_owner x = pj_owner p then x\<lparr>pj_owner := n, pj_updatedAt := t\<rparr> else x"
  let ?ps = "map ?f (db_projects db)"
  let ?ms = "AList.update (i, pj_owner p) roleAdmin (db_members db)"
  have ids: "map pj_id ?ps = map pj_id (db_projects db)" by (simp add: comp_def)
  have p: "p \<in> set (db_projects db)" "pj_id p = i" using find_project_SomeD [OF f] by auto
  have "?f p \<in> set ?ps" using p(1) by simp
  then have old: "row_ok ?ps ((i, pj_owner p), roleAdmin)"
    using p n by (intro row_okI [of _ "?f p"]) auto
  have row: "row_ok ?ps x" if "row_ok (db_projects db) x" and ne: "fst x \<noteq> (i, n)" for x
    using that(1)
  proof (rule row_okE)
    fix j v r y
    assume x: "x = ((j, v), r)" "r = roleAdmin \<or> r = roleMember" and y: "y \<in> set (db_projects db)" "pj_id y = j" "pj_owner y = [] \<or> pj_owner y \<noteq> v"
    have "?f y \<in> set ?ps" using y(1) by simp
    then show ?thesis unfolding x(1) using y ne x(1) by (intro row_okI [OF x(2), of "?f y"]) auto
  qed
  have "row_ok ?ps x" if x: "x \<in> set (AList.delete (i, n) ?ms)" for x
  proof -
    from x have "x = ((i, pj_owner p), roleAdmin) \<or> x \<in> set (db_members db)" "fst x \<noteq> (i, n)"
      using set_AList_update [of "(i, pj_owner p)" roleAdmin "db_members db"] by (auto simp: set_AList_delete)
    then show ?thesis using old row [of x] ok by (auto simp: tables_ok_def list_all_iff simp del: split_paired_All)
  qed
  then show ?thesis
    using ok ids
    by (simp add: tables_ok_def RemoveMember_def AddMember_def TransferOwner_def distinct_update distinct_delete list_all_iff del: map_map)
qed

lemma keeps_transfer_run:
  assumes "find_project db i = Some p" "TransferOwner i e n t db = (b, db1)" "e = pj_owner p" "tables_ok db" "n \<noteq> e"
  shows "tables_ok (snd (RemoveMember i n (AddMember i e roleAdmin db1)))"
  using keeps_transfer [OF assms(4,1), of n t] assms(2,3,5) by simp

lemma projectForAction_D:
  assumes "projectForAction db c i act = Inr p"
  obtains q where "i \<noteq> []" "find_project db i = Some q" "p = q\<lparr>pj_members := listMembers db i\<rparr>"
    "Can db c act (projectResource p) = Inr ()"
  using assms by (auto simp: projectForAction_def store_get_def split: if_splits option.splits sum.splits)

lemma write_back_keeps:
  assumes "tables_ok db" "find_project db i = Some q" "pj_id p = i" "pj_owner p = pj_owner q" "pj_members p = listMembers db i"
  shows "tables_ok (snd (write_back p db))"
  using assms keeps_update [of db p _ q] by (auto simp: write_back_def split: option.splits)

lemma edit_project_same:
  "pj_id (edit_project j a t p) = pj_id p" "pj_owner (edit_project j a t p) = pj_owner p"
  "pj_members (edit_project j a t p) = pj_members p" "pj_createdBy (edit_project j a t p) = pj_createdBy p"
  by (simp_all add: edit_project_def Let_def)

lemma handler_create_keeps: "tables_ok db \<Longrightarrow> tables_ok (snd (handleCreateProject j c a i t db))"
  using keeps_create by (auto simp: handleCreateProject_def Let_def split: option.splits)

lemma handler_update_keeps: "tables_ok db \<Longrightarrow> tables_ok (snd (handleUpdateProject j c a t db))"
  by (auto simp: handleUpdateProject_def edit_project_same split: sum.splits elim!: projectForAction_D
      dest: find_project_SomeD intro!: write_back_keeps)

lemma handler_delete_keeps: "tables_ok db \<Longrightarrow> tables_ok (snd (handleDeleteProject c a db))"
  by (auto simp: handleDeleteProject_def keeps_delete split: sum.splits)

lemma handler_add_keeps: "tables_ok db \<Longrightarrow> tables_ok (snd (handleAddProjectMember c a db))"
  by (auto simp: handleAddProjectMember_def Let_def split: sum.splits elim!: projectForAction_D intro!: keeps_add)

lemma handler_remove_keeps: "tables_ok db \<Longrightarrow> tables_ok (snd (handleRemoveProjectMember c a db))"
  using keeps_remove by (auto simp: handleRemoveProjectMember_def Let_def split: sum.splits prod.splits) (metis snd_conv)+

lemma handler_plugins_keeps: "tables_ok db \<Longrightarrow> tables_ok (snd (handleSetProjectPlugins j c a t db))"
  by (auto simp: handleSetProjectPlugins_def Let_def split: sum.splits option.splits elim!: projectForAction_D
      dest: find_project_SomeD intro!: write_back_keeps)

lemma handler_rules_keeps: "tables_ok db \<Longrightarrow> tables_ok (snd (handleSetProjectRules j c a t db))"
  by (auto simp: handleSetProjectRules_def Let_def split: sum.splits option.splits elim!: projectForAction_D
      dest: find_project_SomeD intro!: write_back_keeps)

text \<open>A refused compare-and-set changes nothing.\<close>

lemma TransferOwner_refused: "TransferOwner i e n t db = (False, db') \<Longrightarrow> db' = db"
  by (cases db) (auto simp: TransferOwner_def list_ex_iff intro!: map_idI)

lemma handler_transfer_keeps: "tables_ok db \<Longrightarrow> tables_ok (snd (handleTransferProjectOwner c a t db))"
  by (auto simp: handleTransferProjectOwner_def Let_def split: sum.splits prod.splits elim!: projectForAction_D
      dest: TransferOwner_refused intro!: keeps_transfer_run)

lemmas handler_keeps = handler_create_keeps handler_update_keeps handler_delete_keeps handler_add_keeps
  handler_remove_keeps handler_plugins_keeps handler_rules_keeps handler_transfer_keeps

lemma run_call_keeps: "tables_ok db \<Longrightarrow> tables_ok (run_call k db)"
  by (cases k) (simp_all add: handler_keeps)

section \<open>Only managers change the roles of a project\<close>

text \<open>What the operations of the store do to the roles.\<close>

lemma find_map: "find P (map f xs) = map_option f (find (\<lambda>x. P (f x)) xs)"
  by (induction xs) auto

lemma find_append: "find P (xs @ ys) = (case find P xs of Some x \<Rightarrow> Some x | None \<Rightarrow> find P ys)"
  by (induction xs) auto

lemma RoleOf_cong:
  assumes "map_option (\<lambda>p. (pj_owner p, pj_createdBy p)) (find_project db k) = map_option (\<lambda>p. (pj_owner p, pj_createdBy p)) (find_project db' k)"
    and "map_of (db_members db) (k, u) = map_of (db_members db') (k, u)"
  shows "RoleOf db k u = RoleOf db' k u"
  using assms by (cases "find_project db k"; cases "find_project db' k") (auto simp: RoleOf_def)

lemma find_project_map:
  "(\<And>x. pj_id (f x) = pj_id x) \<Longrightarrow> find_project (db\<lparr>db_projects := map f (db_projects db)\<rparr>) i = map_option f (find_project db i)"
  by (simp add: find_project_def find_map comp_def)

text \<open>Rewriting members leaves the projects.\<close>

lemma find_project_members [simp]: "find_project (db\<lparr>db_members := t\<rparr>) i = find_project db i"
  by (simp add: find_project_def)

lemma map_of_writeMembersTx:
  "writeMembersTx i ms t = Some t' \<Longrightarrow> j \<noteq> i \<Longrightarrow> map_of t' (j, u) = map_of t (j, u)"
  by (induction i ms t rule: writeMembersTx.induct) (auto split: if_splits simp: update_conv')

lemma map_of_other_project:
  "map_of (filter (\<lambda>((j, _), _). j \<noteq> i) t) (k, u) = (if k = i then None else map_of t (k, u))"
  by (induction t) auto

lemma find_filter_other: "k \<noteq> i \<Longrightarrow> find (\<lambda>p. pj_id p = k) (filter (\<lambda>p. pj_id p \<noteq> i) ps) = find (\<lambda>p. pj_id p = k) ps"
  by (induction ps) auto

named_theorems elsewhere "an operation on one project leaves the roles of the others alone"

lemma elsewhere_add [elsewhere]: "k \<noteq> i \<Longrightarrow> RoleOf (AddMember i v r db) k u = RoleOf db k u"
  by (rule RoleOf_cong) (simp_all add: AddMember_def update_conv')

lemma elsewhere_remove [elsewhere]: "k \<noteq> i \<Longrightarrow> RoleOf (snd (RemoveMember i v db)) k u = RoleOf db k u"
  by (rule RoleOf_cong) (simp_all add: RemoveMember_def delete_conv')

lemma elsewhere_delete [elsewhere]: "k \<noteq> i \<Longrightarrow> RoleOf (snd (store_delete i db)) k u = RoleOf db k u"
  by (rule RoleOf_cong) (simp_all add: store_delete_def find_project_def find_filter_other map_of_other_project)

lemma find_project_TransferOwner:
  "find_project (snd (TransferOwner i e n t db)) k =
     map_option (\<lambda>p. if pj_id p = i \<and> pj_owner p = e then p\<lparr>pj_owner := n, pj_updatedAt := t\<rparr> else p) (find_project db k)"
  unfolding TransferOwner_def snd_conv by (rule find_project_map) simp

lemma members_TransferOwner [simp]: "db_members (snd (TransferOwner i e n t db)) = db_members db"
  by (simp add: TransferOwner_def)

lemma elsewhere_transfer [elsewhere]: "k \<noteq> i \<Longrightarrow> RoleOf (snd (TransferOwner i e n t db)) k u = RoleOf db k u"
  by (rule RoleOf_cong) (auto simp: find_project_TransferOwner map_option_case dest: find_project_SomeD split: option.splits)

lemma elsewhere_update [elsewhere]:
  assumes "store_update p db = Some db'" "k \<noteq> pj_id p"
  shows "RoleOf db' k u = RoleOf db k u"
proof -
  let ?f = "\<lambda>x. if pj_id x = pj_id p then p\<lparr>pj_tenant := tenantOrDefault (pj_tenant p), pj_createdAt := pj_createdAt x\<rparr> else x"
  from assms obtain t where t: "writeMembersTx (pj_id p) (pj_members p) (filter (\<lambda>((j, _), _). j \<noteq> pj_id p) (db_members db)) = Some t"
    and db': "db' = db\<lparr>db_projects := map ?f (db_projects db), db_members := t\<rparr>"
    by (auto simp: store_update_def Let_def split: option.splits)
  have "find_project db' k = map_option ?f (find_project db k)"
    unfolding db' find_project_members by (rule find_project_map) simp
  moreover have "map_of (db_members db') (k, u) = map_of (db_members db) (k, u)"
    using map_of_writeMembersTx [OF t assms(2)] assms(2) by (simp add: db' map_of_other_project)
  ultimately show ?thesis
    using assms(2) by (intro RoleOf_cong) (auto simp: map_option_case dest: find_project_SomeD split: option.splits)
qed

lemma elsewhere_write_back: "k \<noteq> pj_id p \<Longrightarrow> RoleOf (snd (write_back p db)) k u = RoleOf db k u"
  by (auto simp: write_back_def elsewhere split: option.splits)

lemma elsewhere_create [elsewhere]:
  assumes "store_create p db = Some db'" "find_project db k = Some q" "pj_members p = []"
  shows "RoleOf db' k u = RoleOf db k u"
  using assms by (intro RoleOf_cong) (auto simp: store_create_def Let_def find_project_def find_append split: if_splits option.splits)

text \<open>A call that is not a creation does nothing, or its caller holds an action on the project it names and every other
  project keeps its roles.\<close>

definition manages :: "action set" where
  "manages = {ProjectUpdate, ProjectDelete, ProjectManageMembers, ProjectManagePlugins, ProjectManageRules, ProjectTransferOwner}"

definition changes_only :: "project_db \<Rightarrow> caller \<Rightarrow> project_db \<Rightarrow> bool" where
  "changes_only db c db' \<longleftrightarrow> db' = db \<or>
     (\<exists>j act p. projectForAction db c j act = Inr p \<and> act \<in> manages \<and> (\<forall>k u. k \<noteq> j \<longrightarrow> RoleOf db' k u = RoleOf db k u))"

lemma changes_onlyI:
  "projectForAction db c j act = Inr p \<Longrightarrow> act \<in> manages \<Longrightarrow> (\<And>k u. k \<noteq> j \<Longrightarrow> RoleOf db' k u = RoleOf db k u) \<Longrightarrow>
   changes_only db c db'"
  unfolding changes_only_def by blast

lemma changes_onlyE:
  assumes "changes_only db c db'" "RoleOf db' i u \<noteq> RoleOf db i u"
  obtains act p where "projectForAction db c i act = Inr p" "act \<in> manages"
  using assms unfolding changes_only_def by metis

lemma changes_only_refl [simp]: "changes_only db c db"
  by (simp add: changes_only_def)

lemma projectForAction_id: "projectForAction db c i act = Inr p \<Longrightarrow> pj_id p = i"
  by (auto elim!: projectForAction_D dest: find_project_SomeD)

lemma changes_update: "changes_only db c (snd (handleUpdateProject j c a t db))"
  by (auto simp: handleUpdateProject_def manages_def edit_project_same projectForAction_id split: sum.splits
      intro!: changes_onlyI elsewhere_write_back)

lemma changes_delete: "changes_only db c (snd (handleDeleteProject c a db))"
  by (auto simp: handleDeleteProject_def manages_def projectForAction_id elsewhere split: sum.splits intro!: changes_onlyI)

lemma changes_add: "changes_only db c (snd (handleAddProjectMember c a db))"
  by (auto simp: handleAddProjectMember_def Let_def manages_def elsewhere split: sum.splits intro!: changes_onlyI)

lemma changes_remove: "changes_only db c (snd (handleRemoveProjectMember c a db))"
  using elsewhere_remove
  by (auto simp: handleRemoveProjectMember_def Let_def manages_def split: sum.splits prod.splits intro!: changes_onlyI)
    (metis snd_conv)+

lemma changes_plugins: "changes_only db c (snd (handleSetProjectPlugins j c a t db))"
  by (auto simp: handleSetProjectPlugins_def Let_def manages_def projectForAction_id split: sum.splits option.splits
      intro!: changes_onlyI elsewhere_write_back)

lemma changes_rules: "changes_only db c (snd (handleSetProjectRules j c a t db))"
  by (auto simp: handleSetProjectRules_def Let_def manages_def projectForAction_id split: sum.splits option.splits
      intro!: changes_onlyI elsewhere_write_back)

lemma elsewhere_transfer_run: "TransferOwner i e n t db = (b, db1) \<Longrightarrow> k \<noteq> i \<Longrightarrow> RoleOf db1 k u = RoleOf db k u"
  by (metis elsewhere_transfer snd_conv)

lemma changes_transfer: "changes_only db c (snd (handleTransferProjectOwner c a t db))"
  by (auto simp: handleTransferProjectOwner_def Let_def manages_def elsewhere elsewhere_transfer_run dest: TransferOwner_refused
      split: sum.splits prod.splits intro!: changes_onlyI)

lemmas changes = changes_update changes_delete changes_add changes_remove changes_plugins changes_rules changes_transfer

text \<open>Who holds such an action.\<close>

lemma managing_caller:
  assumes "projectForAction db c i act = Inr p" "act \<in> manages"
  shows "p_admin (authzPrincipal c) \<or> RoleAdmin \<le> RoleOf db i (p_user (authzPrincipal c))"
    and "principal_tenant (authzPrincipal c) = resource_tenant (projectResource p)"
proof -
  from assms(1) obtain q where i: "i \<noteq> []" and can: "Can db c act (projectResource p) = Inr ()" by (rule projectForAction_D)
  have "pj_id p = i" by (rule projectForAction_id [OF assms(1)])
  with i can have "Decide (authzPrincipal c) act (projectResource p) (RoleOf db i (p_user (authzPrincipal c))) = Inr ()"
    by (simp add: Can_def projectResource_def Let_def)
  then have al: "allowed (authzPrincipal c) act (projectResource p) (RoleOf db i (p_user (authzPrincipal c)))"
    by (rule decide_sound)
  show "p_admin (authzPrincipal c) \<or> RoleAdmin \<le> RoleOf db i (p_user (authzPrincipal c))"
    using al assms(2) by (cases rule: allowed.cases) (auto simp: manages_def)
  show "principal_tenant (authzPrincipal c) = resource_tenant (projectResource p)"
    using al by (cases rule: allowed.cases) auto
qed

lemma create_elsewhere:
  "find_project db k = Some q \<Longrightarrow> RoleOf (snd (handleCreateProject j c a i t db)) k u = RoleOf db k u"
  by (auto simp: handleCreateProject_def Let_def elsewhere split: option.splits)

text \<open>C3: every sequence of calls of the project tools, by whomever, with whatever arguments and in whatever order,
  keeps the tables well-formed: unique project ids, one row for a member of a project, member rows of existing
  projects only, admins and members only, and never a row for the owner of the project.\<close>

theorem run_calls_keep_tables:
  assumes "tables_ok db"
  shows "tables_ok (foldl (\<lambda>d k. run_call k d) db ks)"
  using assms by (induction ks arbitrary: db) (simp_all add: run_call_keeps)

definition alice :: caller where "alice = Some \<lparr>id_owner = ''alice'', id_admin = False, id_tenant = [], id_probe = []\<rparr>"
definition bob :: caller where "bob = Some \<lparr>id_owner = ''bob'', id_admin = False, id_tenant = [], id_probe = []\<rparr>"

definition sample_project :: project where
  "sample_project = \<lparr>pj_id = ''p1'', pj_name = ''game'', pj_desc = [], pj_game = [], pj_createdBy = ''alice'', pj_owner = ''alice'',
     pj_tenant = ''default'', pj_plugin = [], pj_port = 0, pj_members = [(''bob'', ''member'')], pj_plugins = [], pj_rules = [],
     pj_createdAt = ''2026'', pj_updatedAt = ''2026''\<rparr>"

definition sample_db :: project_db where
  "sample_db = \<lparr>db_projects = [sample_project], db_members = [((''p1'', ''bob''), ''member'')]\<rparr>"

definition sample_args :: "string \<Rightarrow> args" where
  "sample_args u = [''id'' \<mapsto> ''p1'', ''project_id'' \<mapsto> ''p1'', ''user'' \<mapsto> u, ''new_owner'' \<mapsto> u, ''role'' \<mapsto> ''admin'']"

lemma sample_ok: "tables_ok sample_db" by code_simp

lemma run_calls_keep_tables_witness:
  "let db = foldl (\<lambda>d k. run_call k d) sample_db [CAdd alice (sample_args ''carl''), CTransfer alice (sample_args ''carl'') ''now''] in
   tables_ok db \<and> RoleOf db ''p1'' ''carl'' = RoleOwner \<and> RoleOf db ''p1'' ''alice'' = RoleAdmin"
proof -
  let ?ks = "[CAdd alice (sample_args ''carl''), CTransfer alice (sample_args ''carl'') ''now'']"
  have "RoleOf (foldl (\<lambda>d k. run_call k d) sample_db ?ks) ''p1'' ''carl'' = RoleOwner \<and>
        RoleOf (foldl (\<lambda>d k. run_call k d) sample_db ?ks) ''p1'' ''alice'' = RoleAdmin"
    by code_simp
  with run_calls_keep_tables [OF sample_ok, of ?ks] show ?thesis by (simp add: Let_def)
qed

text \<open>C32: a call changes the role anyone has in a project only when its caller is a global admin or an admin or the owner
  of that project, in the tenant of the project.\<close>

theorem roles_changed_by_managers:
  assumes p: "find_project db i = Some p" and ch: "RoleOf (run_call k db) i u \<noteq> RoleOf db i u"
  shows "(p_admin (authzPrincipal (caller_of k)) \<or> RoleAdmin \<le> RoleOf db i (p_user (authzPrincipal (caller_of k)))) \<and>
    principal_tenant (authzPrincipal (caller_of k)) = resource_tenant (projectResource p)"
proof -
  have "changes_only db (caller_of k) (run_call k db)"
    using create_elsewhere [OF p] ch by (cases k) (simp_all add: changes)
  then obtain act q where q: "projectForAction db (caller_of k) i act = Inr q" "act \<in> manages"
    using ch by (rule changes_onlyE)
  from q(1) p have "projectResource q = projectResource p"
    by (auto simp: projectResource_def elim!: projectForAction_D)
  with managing_caller [OF q] show ?thesis by simp
qed

lemma roles_changed_by_managers_witness:
  "RoleOf (run_call (CAdd alice (sample_args ''carl'')) sample_db) ''p1'' ''carl'' = RoleAdmin \<and>
   RoleAdmin \<le> RoleOf sample_db ''p1'' ''alice'' \<and>
   RoleOf (run_call (CAdd bob (sample_args ''carl'')) sample_db) ''p1'' ''carl'' = RoleNone"
proof -
  have a: "RoleOf (run_call (CAdd alice (sample_args ''carl'')) sample_db) ''p1'' ''carl'' = RoleAdmin"
    and b: "RoleOf sample_db ''p1'' ''carl'' = RoleNone"
    and c: "RoleOf (run_call (CAdd bob (sample_args ''carl'')) sample_db) ''p1'' ''carl'' = RoleNone"
    by (code_simp, code_simp, code_simp)
  have "find_project sample_db ''p1'' = Some sample_project" by code_simp
  from roles_changed_by_managers [OF this, of "CAdd alice (sample_args ''carl'')" "''carl''"] a b
  have "RoleAdmin \<le> RoleOf sample_db ''p1'' ''alice''" by (simp add: alice_def authzPrincipal_def)
  with a c show ?thesis by blast
qed

end
