(* ===== verification/Access_Users_Props.thy ===== *)
theory Access_Users_Props imports Access_Users Access_Token_Props Access_Project_Props begin

text \<open>
  What the ways to an identity grant: the two readings of the token configuration agree, a claimed invitation makes
  exactly one new identity, and where the codes give more, or less, than the text of the code says.
\<close>

section \<open>The configuration read twice\<close>

definition same_tokens :: "(string \<times> string) list \<Rightarrow> static_resolver \<Rightarrow> bool" where
  "same_tokens m bt \<longleftrightarrow> (\<forall>owner tok. map_of m owner = Some tok \<longleftrightarrow> (\<exists>i. map_of bt tok = Some i \<and> id_owner i = owner))"

lemma load_entry:
  assumes "parse_entry seg = Inr (owner, tok, adm)"
  obtains l r tok0 where "cut_first (CHR ''='') seg = Some (l, r)" "TrimSpace l = owner" "owner \<noteq> []" "tok \<noteq> []"
    "(case cut_last (CHR '':'') (TrimSpace r) of Some (t, _) \<Rightarrow> t | None \<Rightarrow> TrimSpace r) = tok"
  using assms by (auto simp: parse_entry_def Let_def split: option.splits if_splits prod.splits)

lemma same_tokens_add:
  assumes "same_tokens m bt" "map_of m owner = None" "map_of bt tok = None"
  shows "same_tokens (AList.update owner tok m) ((tok, plain_identity owner adm) # bt)"
proof -
  have "\<not> (\<exists>t i. map_of bt t = Some i \<and> id_owner i = owner)"
    using assms(1,2) unfolding same_tokens_def by (metis option.distinct(1))
  then show ?thesis using assms(1,3) by (auto simp: same_tokens_def update_conv' plain_identity_def)
qed

lemma load_parse_segments:
  assumes "parse_segments segs bt ow = Inr r" "same_tokens m bt" "fst ` set ow = dom (map_of m)"
  shows "same_tokens (load_tokens segs m) r"
  using assms
proof (induction segs arbitrary: bt ow m)
  case (Cons s segs)
  show ?case
  proof (cases "TrimSpace s = []")
    case True
    then have "load_tokens (s # segs) m = load_tokens segs m" by (simp add: cut_first_def)
    then show ?thesis using Cons.IH [of bt ow m] Cons.prems True by simp
  next
    case False
    then obtain owner tok adm where e: "parse_entry (TrimSpace s) = Inr (owner, tok, adm)"
      and n: "map_of ow owner = None" "map_of bt tok = None"
      and rest: "parse_segments segs ((tok, plain_identity owner adm) # bt) ((owner, TrimSpace s) # ow) = Inr r"
      using Cons.prems(1) by (auto simp: Let_def split: sum.splits option.splits)
    from e obtain l x where lx: "cut_first (CHR ''='') (TrimSpace s) = Some (l, x)" "TrimSpace l = owner" "owner \<noteq> []" "tok \<noteq> []"
      "(case cut_last (CHR '':'') (TrimSpace x) of Some (t, _) \<Rightarrow> t | None \<Rightarrow> TrimSpace x) = tok" by (rule load_entry)
    then have step: "load_tokens (s # segs) m = load_tokens segs (AList.update owner tok m)" by (simp add: Let_def)
    have "map_of m owner = None" using n(1) Cons.prems(3) by (auto simp: map_of_eq_None_iff domIff)
    from same_tokens_add [OF Cons.prems(2) this n(2)]
    have "same_tokens (AList.update owner tok m) ((tok, plain_identity owner adm) # bt)" .
    moreover have "fst ` set ((owner, TrimSpace s) # ow) = dom (map_of (AList.update owner tok m))"
      by (simp add: update_conv' Cons.prems(3))
    ultimately show ?thesis unfolding step by (rule Cons.IH [OF rest])
  qed
qed simp

lemma ParseTokens_segments: "ParseTokens spec = Inr r \<Longrightarrow> parse_segments (split_char (CHR '','') spec) [] [] = Inr r"
proof (cases "TrimSpace spec = []")
  case True
  then have "\<forall>c \<in> set spec. is_white c" by (simp add: TrimSpace_Nil_iff)
  then have "CHR '','' \<notin> set spec" by (auto simp: is_white_def)
  then have "split_char (CHR '','') spec = [spec]" by (rule split_char_plain)
  then show "ParseTokens spec = Inr r \<Longrightarrow> ?thesis" using True by (simp add: ParseTokens_def)
qed (simp add: ParseTokens_def)

text \<open>The second reading of the configuration, which hands the token of an owner to the agents, agrees with the first
  one, which authenticates: for every accepted configuration an owner gets a token exactly when that token resolves to
  that owner.\<close>

theorem loadTokensByOwner_agrees:
  assumes "ParseTokens spec = Inr r"
  shows "map_of (loadTokensByOwner spec) owner = Some tok \<longleftrightarrow> (\<exists>i. map_of r tok = Some i \<and> id_owner i = owner)"
proof -
  have "same_tokens (loadTokensByOwner spec) r" unfolding loadTokensByOwner_def
    by (rule load_parse_segments [OF ParseTokens_segments [OF assms]]) (simp_all add: same_tokens_def)
  then show ?thesis by (simp add: same_tokens_def)
qed

lemma loadTokensByOwner_agrees_witness:
  "map_of (loadTokensByOwner ''bob = t1, eve=t2:admin'') ''eve'' = Some ''t2''"
proof -
  let ?r = "[(''t2'', plain_identity ''eve'' True), (''t1'', plain_identity ''bob'' False)]"
  have p: "ParseTokens ''bob = t1, eve=t2:admin'' = Inr ?r" by code_simp
  show ?thesis by (subst loadTokensByOwner_agrees [OF p]) (simp add: plain_identity_def)
qed

section \<open>The text of a code\<close>

text \<open>The second group of a code starts with the last two characters of the first: the groups take the bytes 0 to 3 and
  2 to 5, so that eight characters carry the choice of six.\<close>

lemma newAccessCode_overlap:
  "newAccessCode (Some b) = ''GT-'' @ map (code_char b) [0, 1, 2, 3] @ ''-'' @ map (code_char b) [2, 3, 4, 5]"
  by (simp add: newAccessCode_def Let_def upt_rec eval_nat_numeral)

lemma code_char_in: "code_char b i \<in> set code_charset"
  unfolding code_char_def by (rule nth_mem) (simp add: code_charset_def)

lemma charset_upper: "\<forall>c \<in> set code_charset. upper_char c = c \<and> \<not> is_white c"
  by code_simp

lemma newAccessCode_chars: "c \<in> set (newAccessCode rnd) \<Longrightarrow> upper_char c = c \<and> \<not> is_white c"
proof (cases rnd)
  case None
  have "\<forall>c \<in> set ''GT-DEAD-BEEF''. upper_char c = c \<and> \<not> is_white c" by code_simp
  then show "c \<in> set (newAccessCode rnd) \<Longrightarrow> ?thesis" using None by (auto simp: newAccessCode_def simp del: list.set)
next
  case (Some b)
  have "\<forall>c \<in> set ''GT-''. upper_char c = c \<and> \<not> is_white c" by code_simp
  then show "c \<in> set (newAccessCode rnd) \<Longrightarrow> ?thesis"
    using charset_upper code_char_in by (auto simp: Some newAccessCode_overlap)
qed

lemma newAccessCode_not_Nil [simp]: "newAccessCode rnd \<noteq> []"
  by (cases rnd) (simp_all add: newAccessCode_def Let_def)

lemma claim_code_text [simp]: "map upper_char (TrimSpace (newAccessCode rnd)) = newAccessCode rnd"
proof -
  have "hd (newAccessCode rnd) \<in> set (newAccessCode rnd)" "last (newAccessCode rnd) \<in> set (newAccessCode rnd)" by simp_all
  then have "trimmed (newAccessCode rnd)"
    unfolding trimmed_def by (intro conjI newAccessCode_not_Nil) (blast dest: newAccessCode_chars)+
  then show ?thesis using newAccessCode_chars by (simp add: TrimSpace_trimmed map_idI)
qed

section \<open>A claimed invitation\<close>

lemma CreateUser_Inr:
  assumes "CreateUser rnd owner by now us = Inr (u, token, us')"
  shows "u = \<lparr>ur_owner = owner, ur_is_admin = 0, ur_tenant = DefaultTenant, ur_created_by = by, ur_created_at = now\<rparr>"
    and "us' = us @ [(token, u)]" and "map_of us token = None" and "token \<noteq> []" and "\<not> OwnerExists us owner" and "validOwnerName owner"
  using assms
  by (auto simp: CreateUser_def newInviteToken_def OwnerExists_def Let_def list_ex_iff map_of_eq_None_iff split: if_splits option.splits)

lemma db_resolve_snoc:
  assumes "map_of us token = None" "token \<noteq> []"
  shows "db_resolve (DBRows (us @ [(token, u)])) t =
    (if t = token then Some \<lparr>id_owner = ur_owner u, id_admin = (ur_is_admin u \<noteq> 0), id_tenant = ur_tenant u, id_probe = []\<rparr>
     else db_resolve (DBRows us) t)"
  using assms by (auto simp: db_resolve_def map_add_def split: option.splits)

lemma claim_open_Inr:
  assumes "claim_open pl addrs stamp db rec1 owner token us cs = (Inr (cfg, meta), us', cs')"
  shows "cc_token cfg = token" "mt_owner meta = owner" "us' = us" "cs' = MarkClaimed (ac_code rec1) (cc_session cfg) cs"
  using assms by (auto simp: claim_open_def Let_def split: option.splits)

text \<open>C18: a claimed invitation makes one new identity: the token handed out resolves to the invited name, which no user had
  before, without admin rights and in the default tenant, every other token resolves as before, and the session opened is
  the session of the new user.\<close>

theorem claim_creates_identity:
  assumes cl: "handleAccessClaim pl addrs tokens query rnd now stamp db us cs = (Inr (cfg, meta), us', cs')"
    and code: "access_get cs (map upper_char (TrimSpace query)) = Some rec1" "ac_new_owner rec1 \<noteq> []"
  shows "db_resolve (DBRows us') (cc_token cfg) =
      Some \<lparr>id_owner = ac_new_owner rec1, id_admin = False, id_tenant = DefaultTenant, id_probe = []\<rparr> \<and>
    (\<forall>t. t = cc_token cfg \<or> db_resolve (DBRows us') t = db_resolve (DBRows us) t) \<and>
    \<not> OwnerExists us (ac_new_owner rec1) \<and> mt_owner meta = ac_new_owner rec1"
proof -
  from cl code obtain u token us1 where cu: "CreateUser rnd (ac_new_owner rec1) (ac_owner rec1) stamp us = Inr (u, token, us1)"
    and op: "claim_open pl addrs stamp db rec1 (ur_owner u) token us1 cs = (Inr (cfg, meta), us', cs')"
    by (auto simp: handleAccessClaim_def Let_def split: if_splits sum.splits)
  note c = CreateUser_Inr [OF cu] and o1 = claim_open_Inr [OF op]
  show ?thesis using c(3-5) unfolding o1 c(2) by (auto simp: db_resolve_snoc c(1))
qed

definition inviter :: caller where "inviter = Some \<lparr>id_owner = ''mallory'', id_admin = False, id_tenant = [], id_probe = []\<rparr>"
definition invite_args :: "string \<Rightarrow> args" where "invite_args x = [''new_owner'' \<mapsto> x]"
definition any_pipeline :: pipeline where "any_pipeline = Some (\<lambda>_. Some (''s1'', ''s1.db''))"

lemma claim_creates_identity_witness:
  "let cs = snd (handleCreateAccessCode (\<lambda>_. None) inviter (invite_args ''carl'') (Some [0, 1, 2, 3, 4, 5]) 0 sample_db [] []);
       r = handleAccessClaim any_pipeline (''h:1'', ''h:2'') [] ''gt-abcd-cdef'' (Some [10, 255]) 1 ''now'' sample_db [] cs in
   \<exists>cfg meta us cs'. r = (Inr (cfg, meta), us, cs') \<and> cc_token cfg = ''gt_0aff'' \<and>
     db_resolve (DBRows us) ''gt_0aff'' = Some \<lparr>id_owner = ''carl'', id_admin = False, id_tenant = DefaultTenant, id_probe = []\<rparr>"
proof -
  let ?cs = "snd (handleCreateAccessCode (\<lambda>_. None) inviter (invite_args ''carl'') (Some [0, 1, 2, 3, 4, 5]) 0 sample_db [] [])"
  let ?r = "handleAccessClaim any_pipeline (''h:1'', ''h:2'') [] ''gt-abcd-cdef'' (Some [10, 255]) 1 ''now'' sample_db [] ?cs"
  let ?q = "map upper_char (TrimSpace ''gt-abcd-cdef'')"
  have "isl (fst ?r) = False" by code_simp
  then obtain cfg meta us cs' where r: "?r = (Inr (cfg, meta), us, cs')"
    by (cases ?r; cases "fst ?r"; cases "projr (fst ?r)"; cases "snd ?r") auto
  have "map_option ac_new_owner (access_get ?cs ?q) = Some ''carl''" by code_simp
  then obtain rec1 where g: "access_get ?cs ?q = Some rec1" and n: "ac_new_owner rec1 = ''carl''" by auto
  have "cc_token (fst (projr (fst ?r))) = ''gt_0aff''" by code_simp
  then have t: "cc_token cfg = ''gt_0aff''" by (simp add: r)
  have "ac_new_owner rec1 \<noteq> []" by (simp add: n)
  from claim_creates_identity [OF r g this]
  have "db_resolve (DBRows us) ''gt_0aff'' = Some \<lparr>id_owner = ''carl'', id_admin = False, id_tenant = DefaultTenant, id_probe = []\<rparr>"
    unfolding t n by blast
  with r t show ?thesis unfolding Let_def by blast
qed

end
