(* ===== verification/Access_Project_Flow.thy ===== *)
theory Access_Project_Flow imports Access_Project_Props "HOL-Library.Multiset" begin

text \<open>
  What a sequence of project calls amounts to: the transfer of a project, the interleaving of a transfer with an
  update that read the project before it, the members a listing shows, and the port of \<open>update_project\<close>.
\<close>

section \<open>Transfer of a project\<close>

lemma transfer_run:
  assumes res: "handleTransferProjectOwner c a t db = (Inr r, db')" and p: "find_project db (arg a ''project_id'') = Some p"
  shows "arg a ''new_owner'' \<noteq> []" and "arg a ''new_owner'' \<noteq> pj_owner p"
    and "db' = snd (RemoveMember (arg a ''project_id'') (arg a ''new_owner'') (AddMember (arg a ''project_id'') (pj_owner p) roleAdmin
       (snd (TransferOwner (arg a ''project_id'') (pj_owner p) (arg a ''new_owner'') t db))))"
  using res p
  by (auto simp: handleTransferProjectOwner_def Let_def split: if_splits sum.splits prod.splits elim!: projectForAction_D)

lemma find_project_AddMember [simp]: "find_project (AddMember i u r db) k = find_project db k"
  by (simp add: AddMember_def)

lemma find_project_RemoveMember [simp]: "find_project (snd (RemoveMember i u db)) k = find_project db k"
  by (simp add: RemoveMember_def)

lemma members_AddMember [simp]: "map_of (db_members (AddMember i u r db)) = (map_of (db_members db))((i, u) \<mapsto> r)"
  by (simp add: AddMember_def update_conv')

lemma members_RemoveMember [simp]: "map_of (db_members (snd (RemoveMember i u db))) = (map_of (db_members db))((i, u) := None)"
  by (simp add: RemoveMember_def delete_conv')

text \<open>C20: a successful transfer makes the member named the owner and the former owner an admin, and changes the role of
  nobody else, neither in this project nor in another.\<close>

theorem transfer_moves_ownership:
  assumes res: "handleTransferProjectOwner c a t db = (Inr r, db')" and p: "find_project db (arg a ''project_id'') = Some p"
    and owned: "pj_owner p \<noteq> []"
  shows "RoleOf db' (arg a ''project_id'') (arg a ''new_owner'') = RoleOwner \<and>
    RoleOf db' (arg a ''project_id'') (pj_owner p) = RoleAdmin \<and>
    (\<forall>k u. k = arg a ''project_id'' \<and> u \<in> {arg a ''new_owner'', pj_owner p} \<or> RoleOf db' k u = RoleOf db k u)"
proof -
  let ?i = "arg a ''project_id''" and ?n = "arg a ''new_owner''"
  let ?db1 = "snd (TransferOwner ?i (pj_owner p) ?n t db)"
  note n = transfer_run(1,2) [OF res p] and db' = transfer_run(3) [OF res p]
  have "pj_id p = ?i" using find_project_SomeD [OF p] by simp
  then have f: "find_project db' ?i = Some (p\<lparr>pj_owner := ?n, pj_updatedAt := t\<rparr>)"
    using p by (simp add: db' find_project_TransferOwner)
  have m: "map_of (db_members db') = (map_of (db_members db))((?i, pj_owner p) \<mapsto> roleAdmin, (?i, ?n) := None)"
    by (simp add: db')
  have "RoleOf db' ?i ?n = RoleOwner" using n by (simp add: RoleOf_def f)
  moreover have "RoleOf db' ?i (pj_owner p) = RoleAdmin" using n by (simp add: RoleOf_def f m)
  moreover have "k = ?i \<and> u \<in> {?n, pj_owner p} \<or> RoleOf db' k u = RoleOf db k u" for k u
  proof (cases "k = ?i \<and> u \<notin> {?n, pj_owner p}")
    case True
    then have "k = ?i" "?n \<noteq> u" "pj_owner p \<noteq> u" by auto
    then show ?thesis using owned n p by (simp add: RoleOf_def f m)
  next
    case False
    moreover have "RoleOf db' k u = RoleOf db k u" if "k \<noteq> ?i"
      unfolding db' using that by (simp add: elsewhere)
    ultimately show ?thesis by argo
  qed
  ultimately show ?thesis by (intro conjI allI)
qed

lemma transfer_moves_ownership_witness:
  "\<exists>r db'. handleTransferProjectOwner alice (sample_args ''bob'') ''now'' sample_db = (Inr r, db') \<and>
     RoleOf db' ''p1'' ''bob'' = RoleOwner \<and> RoleOf db' ''p1'' ''alice'' = RoleAdmin"
proof -
  let ?run = "handleTransferProjectOwner alice (sample_args ''bob'') ''now'' sample_db"
  have args: "arg (sample_args ''bob'') ''project_id'' = ''p1''" "arg (sample_args ''bob'') ''new_owner'' = ''bob''"
    by (code_simp, code_simp)
  have "isl (fst ?run) = False" by code_simp
  then obtain r db' where run: "?run = (Inr r, db')" by (cases ?run; cases "fst ?run") auto
  have p: "find_project sample_db (arg (sample_args ''bob'') ''project_id'') = Some sample_project"
    unfolding args by code_simp
  have o1: "pj_owner sample_project = ''alice''" by (simp add: sample_project_def)
  then have "pj_owner sample_project \<noteq> []" by simp
  from transfer_moves_ownership [OF run p this] have "RoleOf db' ''p1'' ''bob'' = RoleOwner \<and> RoleOf db' ''p1'' ''alice'' = RoleAdmin"
    unfolding args o1 by blast
  with run show ?thesis by blast
qed

section \<open>An update that read the project before a transfer\<close>

lemma map_of_writeMembersTx_same:
  assumes "writeMembersTx i ms t = Some t'" "distinct (map fst ms)" "u \<noteq> []"
  shows "map_of t' (i, u) = (case map_of ms u of Some r \<Rightarrow> Some r | None \<Rightarrow> map_of t (i, u))"
  using assms
proof (induction i ms t rule: writeMembersTx.induct)
  case (2 i v r ms t)
  then show ?case
    using map_of_eq_None_iff [of ms v] by (auto split: if_splits option.splits simp: update_conv')
qed simp

lemma distinct_listMembers: "distinct (map fst (db_members db)) \<Longrightarrow> distinct (map fst (listMembers db i))"
proof -
  assume d: "distinct (map fst (db_members db))"
  let ?l = "map (\<lambda>((_, u), r). (u, r)) (filter (\<lambda>((j, _), _). j = i) (db_members db))"
  have "distinct (map fst (map (\<lambda>((_, u), r). (u, r)) (filter (\<lambda>((j, _), _). j = i) ms)))" if "distinct (map fst ms)" for ms :: "((string \<times> string) \<times> string) list"
    using that by (induction ms) force+
  then have "distinct (map fst ?l)" using d .
  moreover have "mset (map fst (sort_key fst ?l)) = mset (map fst ?l)" by (simp only: mset_map mset_sort)
  ultimately show ?thesis unfolding listMembers_def using mset_eq_imp_distinct_iff by blast
qed

lemma map_of_listMembers:
  assumes "distinct (map fst (db_members db))"
  shows "map_of (listMembers db i) u = map_of (db_members db) (i, u)"
proof -
  have "map_of (listMembers db i) u = Some r \<longleftrightarrow> map_of (db_members db) (i, u) = Some r" for r
    using assms distinct_listMembers [OF assms, of i] by (simp add: map_of_eq_Some_iff set_listMembers)
  then show ?thesis by (metis not_Some_eq)
qed

lemma RoleOf_write_back:
  assumes w: "write_back p db = (Inr q, db')" and f: "find_project db (pj_id p) = Some x"
    and ms: "distinct (map fst (pj_members p))" and u: "u \<noteq> []"
  shows "RoleOf db' (pj_id p) u =
    (if (pj_owner p \<noteq> [] \<and> pj_owner p = u) \<or> (pj_owner p = [] \<and> pj_createdBy p = u) then RoleOwner
     else (case map_of (pj_members p) u of None \<Rightarrow> RoleNone | Some r \<Rightarrow> if r = roleAdmin then RoleAdmin else RoleMember))"
proof -
  let ?f = "\<lambda>x. if pj_id x = pj_id p then p\<lparr>pj_tenant := tenantOrDefault (pj_tenant p), pj_createdAt := pj_createdAt x\<rparr> else x"
  let ?t = "filter (\<lambda>((j, _), _). j \<noteq> pj_id p) (db_members db)"
  from w obtain t where t: "writeMembersTx (pj_id p) (pj_members p) ?t = Some t"
    and db': "db' = db\<lparr>db_projects := map ?f (db_projects db), db_members := t\<rparr>"
    by (auto simp: write_back_def store_update_def Let_def split: option.splits)
  have "find_project db' (pj_id p) = Some (?f x)"
    using f find_project_map [of ?f db "pj_id p"] by (simp add: db')
  moreover have "map_of (db_members db') (pj_id p, u) = map_of (pj_members p) u"
    using map_of_writeMembersTx_same [OF t ms u] by (simp add: db' map_of_other_project split: option.splits)
  ultimately show ?thesis using find_project_SomeD [OF f] by (auto simp: RoleOf_def)
qed

text \<open>The handlers read the project and write it back whole, with no check that it is still the one read: an update
  whose read lies before a transfer and whose write lies behind it undoes the transfer, members and owner, although
  the transfer itself is a compare-and-set.\<close>

theorem stale_update_reverts_transfer:
  assumes ok: "tables_ok db" and rd: "projectForAction db c1 (arg a ''project_id'') ProjectUpdate = Inr p"
    and tr: "handleTransferProjectOwner c2 a t db = (Inr r, db1)" and owned: "pj_owner p \<noteq> []"
    and wr: "write_back (edit_project json b t1 p) db1 = (Inr q, db2)"
  shows "\<forall>u. u = [] \<or> RoleOf db2 (arg a ''project_id'') u = RoleOf db (arg a ''project_id'') u"
proof -
  let ?i = "arg a ''project_id''"
  from rd obtain x where x: "find_project db ?i = Some x" "p = x\<lparr>pj_members := listMembers db ?i\<rparr>" by (rule projectForAction_D)
  have pi: "pj_id p = ?i" by (rule projectForAction_id [OF rd])
  have d: "distinct (map fst (db_members db))" using ok by (simp add: tables_ok_def)
  have "find_project db1 ?i \<noteq> None"
    unfolding transfer_run(3) [OF tr x(1)] by (simp add: find_project_TransferOwner x(1))
  then obtain y where y: "find_project db1 ?i = Some y" by blast
  have "RoleOf db2 ?i u = RoleOf db ?i u" if "u \<noteq> []" for u
    using RoleOf_write_back [OF wr, of y u] y that distinct_listMembers [OF d, of ?i]
    unfolding edit_project_same pi by (simp add: x map_of_listMembers [OF d] RoleOf_def cong: if_cong)
  then show ?thesis by blast
qed

lemma stale_update_reverts_transfer_witness:
  "\<exists>p r db1 q db2. projectForAction sample_db alice ''p1'' ProjectUpdate = Inr p \<and>
     handleTransferProjectOwner alice (sample_args ''bob'') ''now'' sample_db = (Inr r, db1) \<and>
     RoleOf db1 ''p1'' ''bob'' = RoleOwner \<and>
     write_back (edit_project (\<lambda>_. None) (sample_args ''bob'') ''now'' p) db1 = (Inr q, db2) \<and>
     RoleOf db2 ''p1'' ''alice'' = RoleOwner \<and> RoleOf db2 ''p1'' ''bob'' = RoleMember"
proof -
  let ?a = "sample_args ''bob''"
  let ?run = "handleTransferProjectOwner alice ?a ''now'' sample_db"
  let ?w = "write_back (edit_project (\<lambda>_. None) ?a ''now'' sample_project) (snd ?run)"
  have arg1: "arg ?a ''project_id'' = ''p1''" by code_simp
  have rd: "projectForAction sample_db alice (arg ?a ''project_id'') ProjectUpdate = Inr sample_project"
    unfolding arg1 by code_simp
  have "isl (fst ?run) = False" by code_simp
  then obtain r db1 where run: "?run = (Inr r, db1)" by (cases ?run; cases "fst ?run") auto
  have new: "RoleOf (snd ?run) ''p1'' ''bob'' = RoleOwner" by code_simp
  have "isl (fst ?w) = False" by code_simp
  then obtain q db2 where w: "write_back (edit_project (\<lambda>_. None) ?a ''now'' sample_project) db1 = (Inr q, db2)"
    by (cases ?w; cases "fst ?w") (auto simp: run)
  have o1: "pj_owner sample_project \<noteq> []" by code_simp
  note st = stale_update_reverts_transfer [OF sample_ok rd run o1 w, unfolded arg1]
  have old: "RoleOf sample_db ''p1'' ''alice'' = RoleOwner" "RoleOf sample_db ''p1'' ''bob'' = RoleMember"
    by (code_simp, code_simp)
  have "RoleOf db2 ''p1'' ''alice'' = RoleOwner" "RoleOf db2 ''p1'' ''bob'' = RoleMember"
    using st [THEN spec, of "''alice''"] st [THEN spec, of "''bob''"] old by simp_all
  with rd run new w show ?thesis unfolding arg1 by (intro exI conjI) (assumption, assumption, simp, assumption+)
qed

section \<open>Who a listing shows\<close>

text \<open>The migration at the start of the process reads the same column.\<close>

lemma backfill_keeps_rows: "map_of t k = Some r \<Longrightarrow> map_of (backfill_members i ms t) k = Some r"
  by (induction i ms t rule: backfill_members.induct) (auto simp: map_add_Some_iff)

lemma fold_backfill_keeps: "map_of t k = Some r \<Longrightarrow> map_of (fold (\<lambda>p. backfill_members (pj_id p) (pj_members p)) ps t) k = Some r"
  by (induction ps arbitrary: t) (simp_all add: backfill_keeps_rows)

lemma backfill_adds:
  assumes "(u, r) \<in> set ms" "u \<noteq> []" "r = roleAdmin \<or> r = roleMember"
  shows "map_of (backfill_members i ms t) (i, u) \<noteq> None"
  using assms
proof (induction i ms t rule: backfill_members.induct)
  case (2 i v s ms t)
  show ?case
  proof (cases "(u, r) = (v, s)")
    case True
    then have v: "v = u" "s = r" by simp_all
    show ?thesis
    proof (cases "map_of t (i, u)")
      case None
      then have "map_of (t @ [((i, u), r)]) (i, u) = Some r" by (simp add: map_add_def)
      from backfill_keeps_rows [OF this] show ?thesis using None 2(4,5) unfolding v by auto
    next
      case (Some y)
      then show ?thesis by (simp add: v backfill_keeps_rows [OF Some])
    qed
  next
    case False
    then have "(u, r) \<in> set ms" using 2(3) by auto
    then show ?thesis using 2(1,2) 2(4,5) by simp
  qed
qed simp

lemma fold_backfill_adds:
  assumes "p \<in> set ps" "(u, r) \<in> set (pj_members p)" "u \<noteq> []" "r = roleAdmin \<or> r = roleMember"
  shows "map_of (fold (\<lambda>p. backfill_members (pj_id p) (pj_members p)) ps t) (pj_id p, u) \<noteq> None"
  using assms(1)
proof (induction ps arbitrary: t)
  case (Cons x ps)
  show ?case
  proof (cases "x = p")
    case True
    obtain y where y: "map_of (backfill_members (pj_id p) (pj_members p) t) (pj_id p, u) = Some y"
      using backfill_adds [OF assms(2-4)] by blast
    show ?thesis using True by (simp add: fold_backfill_keeps [OF y])
  next
    case False
    then show ?thesis using Cons by simp
  qed
qed simp

lemma Init_restores:
  assumes p: "find_project db i = Some p" and m: "(u, r) \<in> set (pj_members p)" "u \<noteq> []" "r = roleAdmin \<or> r = roleMember"
  shows "RoleMember \<le> RoleOf (Init db) i u"
proof -
  let ?f = "\<lambda>p. if pj_owner p = [] then p\<lparr>pj_owner := pj_createdBy p\<rparr> else p"
  let ?db = "migrateProjectsAddOwnerTenant db"
  have ip: "p \<in> set (db_projects db)" "pj_id p = i" using find_project_SomeD [OF p] by auto
  have f: "find_project (Init db) i = Some (?f p)"
    unfolding Init_def migrateMembersJSONToTable_def find_project_members
    unfolding migrateProjectsAddOwnerTenant_def using p by (subst find_project_map) simp_all
  have "?f p \<in> set (db_projects ?db)" using ip(1) unfolding migrateProjectsAddOwnerTenant_def by simp
  from fold_backfill_adds [OF this, of u r "db_members ?db"] m
  have "map_of (db_members (Init db)) (pj_id (?f p), u) \<noteq> None"
    by (simp add: Init_def migrateMembersJSONToTable_def split: if_splits)
  then obtain s where "map_of (db_members (Init db)) (i, u) = Some s" using ip(2) by (auto split: if_splits)
  then show ?thesis by (simp add: RoleOf_def f less_eq_role_def)
qed

text \<open>Removing a member takes the row of the table only.  As long as the member stands in the JSON backup column of the
  project, the project and its sessions stay listed for the removed member, and the next start of the process gives the
  role back.\<close>

theorem removed_member_comes_back:
  assumes rm: "handleRemoveProjectMember c a db = (Inr r, db')" and p: "find_project db (arg a ''project_id'') = Some p"
    and owned: "pj_owner p \<noteq> []" and col: "(arg a ''user'', role) \<in> set (pj_members p)" "role = roleAdmin \<or> role = roleMember"
    and caller: "id_owner ident = arg a ''user''" "\<not> id_admin ident"
  shows "RoleOf db' (arg a ''project_id'') (arg a ''user'') = RoleNone \<and>
    arg a ''project_id'' \<in> set (sf_projects (visibleSessionFilter db' (Some ident))) \<and>
    RoleMember \<le> RoleOf (Init db') (arg a ''project_id'') (arg a ''user'')"
proof -
  let ?i = "arg a ''project_id''" and ?u = "arg a ''user''"
  from rm p have ne: "pj_owner p \<noteq> ?u" and db': "db' = snd (RemoveMember ?i ?u db)" and u: "?u \<noteq> []"
    by (auto simp: handleRemoveProjectMember_def Let_def split: if_splits sum.splits prod.splits elim!: projectForAction_D)
  have role: "RoleOf db' ?i ?u = RoleNone"
    using ne owned p by (simp add: RoleOf_def db')
  have "p \<in> set (db_projects db')" "pj_id p = ?i" using find_project_SomeD [OF p] by (auto simp: db' RemoveMember_def)
  moreover have "visibleTo p ?u" using col by (auto simp: visibleTo_def list_ex_iff)
  ultimately have vis: "?i \<in> pj_id ` set (ListVisible db' ?u False)"
    by (force simp: ListVisible_def)
  moreover have "sf_projects (visibleSessionFilter db' (Some ident)) = map pj_id (ListVisible db' ?u False)"
    using caller by (simp add: visibleSessionFilter_def)
  moreover have "RoleMember \<le> RoleOf (Init db') ?i ?u"
    by (rule Init_restores [OF _ col(1) u col(2)]) (simp add: db' p)
  ultimately show ?thesis using role by simp
qed

lemma removed_member_comes_back_witness:
  "\<exists>r db'. handleRemoveProjectMember alice (sample_args ''bob'') sample_db = (Inr r, db') \<and>
     RoleOf db' ''p1'' ''bob'' = RoleNone \<and> RoleMember \<le> RoleOf (Init db') ''p1'' ''bob''"
proof -
  let ?a = "sample_args ''bob''"
  let ?run = "handleRemoveProjectMember alice ?a sample_db"
  have args: "arg ?a ''project_id'' = ''p1''" "arg ?a ''user'' = ''bob''" by (code_simp, code_simp)
  have "isl (fst ?run) = False" by code_simp
  then obtain r db' where run: "?run = (Inr r, db')" by (cases ?run; cases "fst ?run") auto
  have p: "find_project sample_db (arg ?a ''project_id'') = Some sample_project" unfolding args by code_simp
  have o1: "pj_owner sample_project \<noteq> []" by code_simp
  have col: "(arg ?a ''user'', ''member'') \<in> set (pj_members sample_project)" unfolding args by code_simp
  let ?bob = "\<lparr>id_owner = ''bob'', id_admin = False, id_tenant = [], id_probe = []\<rparr>"
  have rm: "''member'' = roleAdmin \<or> ''member'' = roleMember" by (simp add: roleMember_def)
  from removed_member_comes_back [OF run p o1 col rm, of ?bob] run show ?thesis by (simp add: args)
qed

section \<open>The port of an update\<close>

text \<open>The port an update writes is the argument \<open>port\<close>, not the \<open>default_port\<close> whose presence it looks at.\<close>

lemma update_resets_port:
  "a ''default_port'' = Some v \<Longrightarrow> a ''port'' = None \<Longrightarrow> pj_port (edit_project json a t p) = 0"
  by (simp add: edit_project_def handleProjectArgPort_def Let_def)

end
