(* ===== verification/Access_Invite.thy ===== *)
theory Access_Invite imports Access_Users_Props Access_Project_Flow begin

text \<open>
  Where the access codes do not keep what the comments promise: an invitation takes a name that registration reserves,
  a failed claim uses an invitation up, and a claimed code can be claimed again.
\<close>

lemma validOwnerName_trimmed: "validOwnerName x \<Longrightarrow> TrimSpace x = x"
proof -
  have o1: "\<not> is_white c" if "owner_char c \<or> c \<in> {CHR ''.'', CHR ''_'', CHR ''-''}" for c
    using that by (auto simp: owner_char_def is_white_def Let_def)
  assume "validOwnerName x"
  then have "x \<noteq> []" "\<forall>c \<in> set x. \<not> is_white c"
    using o1 by (auto simp: validOwnerName_def list_all_iff split: list.splits)
  then show ?thesis by (intro TrimSpace_trimmed) (simp add: trimmed_def)
qed

lemma access_get_None: "access_get cs k = None \<Longrightarrow> \<not> list_ex (\<lambda>x. ac_code x = k) cs"
  by (auto simp: access_get_def find_None_iff list_ex_iff)

lemma access_get_snoc: "access_get cs (ac_code c) = None \<Longrightarrow> access_get (cs @ [c]) (ac_code c) = Some c"
  by (simp add: access_get_def find_append)

lemma access_get_MarkClaimed:
  "access_get cs code = Some r \<Longrightarrow> access_get (MarkClaimed code sid cs) code = Some (r\<lparr>ac_claimed := True, ac_session := sid\<rparr>)"
  by (auto simp: access_get_def MarkClaimed_def find_map if_distrib [of ac_code] find_Some_iff)

lemma not_expired: "(later :: int) \<le> now + 86399 * 10 ^ 9 \<Longrightarrow> later \<le> (now + 86400 * 10 ^ 9) div 10 ^ 9 * 10 ^ 9"
  by simp

lemma CreateUser_ok:
  assumes "validOwnerName x" "\<not> OwnerExists us x" "map_of us (''gt_'' @ hex_bytes b) = None"
  shows "CreateUser (Some b) x by now us =
    Inr (\<lparr>ur_owner = x, ur_is_admin = 0, ur_tenant = DefaultTenant, ur_created_by = by, ur_created_at = now\<rparr>, ''gt_'' @ hex_bytes b,
         us @ [(''gt_'' @ hex_bytes b, \<lparr>ur_owner = x, ur_is_admin = 0, ur_tenant = DefaultTenant, ur_created_by = by, ur_created_at = now\<rparr>)])"
proof -
  have "''gt_'' @ hex_bytes b \<notin> fst ` set us" using assms(3) by (simp only: map_of_eq_None_iff not_False_eq_True)
  then have "\<not> list_ex (\<lambda>(t, u). t = ''gt_'' @ hex_bytes b \<or> ur_owner u = x) us"
    using assms(2) by (force simp: OwnerExists_def list_ex_iff)
  then show ?thesis using assms(1) by (simp only: CreateUser_def newInviteToken_def Let_def option.case option.map if_True if_False simp_thms)
qed

lemma claim_open_ok:
  assumes "\<And>req. start req \<noteq> None"
  shows "\<exists>cfg meta cs'. claim_open (Some start) addrs stamp db rec1 owner token us cs = (Inr (cfg, meta), us, cs') \<and> cc_token cfg = token"
proof -
  define po where "po = pluginOwnersFor db owner @ (if ac_owner rec1 \<noteq> [] \<and> ac_owner rec1 \<noteq> owner then [ac_owner rec1] else [])"
  obtain sid path where "start \<lparr>sr_plugin = ac_plugin rec1, sr_agent = True, sr_owner = owner, sr_project = ac_project rec1, sr_plugin_owners = po\<rparr> = Some (sid, path)"
    using assms by fast
  then show ?thesis unfolding claim_open_def Let_def po_def [symmetric] by simp
qed

text \<open>Self registration refuses the names of the configured tokens, because projects and sessions know their owners by
  name only; an invitation does not.  Any user with a name may issue a code for such a name and claim it within the day: the
  token it yields authenticates as that owner.\<close>

theorem invite_impersonates_bootstrap:
  assumes x: "HasOwner env x" "validOwnerName x" "\<not> OwnerExists us x" and c: "id_owner ident \<noteq> []"
    and code: "access_get cs (newAccessCode rnd) = None" and time: "later \<le> now + 86399 * 10 ^ 9"
    and start: "\<And>req. start req \<noteq> None"
    and fresh: "map_of us (''gt_'' @ hex_bytes b) = None" "map_of env (''gt_'' @ hex_bytes b) = None"
  shows "\<exists>rec1 cs1 cfg meta us2 cs2.
     handleCreateAccessCode json (Some ident) (invite_args x) rnd now db us cs = (Inr rec1, cs1) \<and>
     handleAccessClaim (Some start) addrs tokens (ac_code rec1) (Some b) later stamp db us cs1 = (Inr (cfg, meta), us2, cs2) \<and>
     map_option id_owner (first_resolve \<lparr>fr_primary = env, fr_db = DBRows us2, fr_extra = []\<rparr> (cc_token cfg)) = Some x \<and>
     handleRegister True True (Some x) env rnd3 stamp us = Inl (UReserved x)"
proof -
  let ?a = "invite_args x"
  have tx: "TrimSpace x = x" by (rule validOwnerName_trimmed [OF x(2)])
  have xne: "x \<noteq> []" using x(2) by (auto simp: validOwnerName_def)
  have args: "arg ?a ''new_owner'' = x" "get_string ?a ''project_id'' = []" by (simp_all add: arg_def get_string_def invite_args_def tx)
  obtain rec1 where cr: "handleCreateAccessCode json (Some ident) ?a rnd now db us cs = (Inr rec1, cs @ [rec1])"
    and r: "ac_code rec1 = newAccessCode rnd" "ac_new_owner rec1 = x" "ac_owner rec1 = id_owner ident"
      "ac_expires rec1 = (now + 86400 * 10 ^ 9) div 10 ^ 9"
    using c x access_get_None [OF code]
    by (auto simp: handleCreateAccessCode_def Let_def AccessCodeActionAllowed_def authzPrincipal_def args access_create_def)
  have g: "access_get (cs @ [rec1]) (newAccessCode rnd) = Some rec1" using access_get_snoc [of cs rec1] code r(1) by simp
  let ?u = "\<lparr>ur_owner = x, ur_is_admin = 0, ur_tenant = DefaultTenant, ur_created_by = id_owner ident, ur_created_at = stamp\<rparr>"
  let ?t = "''gt_'' @ hex_bytes b"
  obtain cfg meta cs2 where op: "claim_open (Some start) addrs stamp db rec1 x ?t (us @ [(?t, ?u)]) (cs @ [rec1]) = (Inr (cfg, meta), us @ [(?t, ?u)], cs2)"
    and tk: "cc_token cfg = ?t"
    using claim_open_ok [of start, OF start] by blast
  have "later \<le> ac_expires rec1 * 10 ^ 9" unfolding r(4) by (rule not_expired [OF time])
  then have cl: "handleAccessClaim (Some start) addrs tokens (ac_code rec1) (Some b) later stamp db us (cs @ [rec1]) = (Inr (cfg, meta), us @ [(?t, ?u)], cs2)"
    using CreateUser_ok [OF x(2,3) fresh(1), of "id_owner ident" stamp] op
    by (simp add: handleAccessClaim_def Let_def r(1-3) g xne)
  have "Required env" using x(1) by (cases env) (auto simp: HasOwner_def Required_def)
  then have "Resolve env ?t = None" using fresh(2) by (simp add: Resolve_def)
  moreover have "db_resolve (DBRows (us @ [(?t, ?u)])) ?t = Some \<lparr>id_owner = x, id_admin = False, id_tenant = DefaultTenant, id_probe = []\<rparr>"
    using db_resolve_snoc [OF fresh(1), of ?u ?t] by simp
  ultimately have "map_option id_owner (first_resolve \<lparr>fr_primary = env, fr_db = DBRows (us @ [(?t, ?u)]), fr_extra = []\<rparr> ?t) = Some x"
    by (simp add: first_resolve_def)
  moreover have "handleRegister True True (Some x) env rnd3 stamp us = Inl (UReserved x)"
    using x by (simp add: handleRegister_def tx)
  ultimately show ?thesis using cr cl tk by metis
qed

definition root_env :: static_resolver where "root_env = [(''t1'', plain_identity ''root'' True)]"

lemma invite_impersonates_bootstrap_witness:
  "\<exists>rec1 cs1 cfg meta us2 cs2.
     handleCreateAccessCode (\<lambda>_. None) inviter (invite_args ''root'') None 0 sample_db [] [] = (Inr rec1, cs1) \<and>
     handleAccessClaim any_pipeline (''h:1'', ''h:2'') [] (ac_code rec1) (Some [1]) 5 ''now'' sample_db [] cs1 = (Inr (cfg, meta), us2, cs2) \<and>
     map_option id_owner (first_resolve \<lparr>fr_primary = root_env, fr_db = DBRows us2, fr_extra = []\<rparr> (cc_token cfg)) = Some ''root''"
proof -
  have x: "HasOwner root_env ''root''" "validOwnerName ''root''" "\<not> OwnerExists [] ''root''" by (code_simp, code_simp, code_simp)
  have c: "id_owner \<lparr>id_owner = ''mallory'', id_admin = False, id_tenant = [], id_probe = []\<rparr> \<noteq> []" by simp
  have code: "access_get [] (newAccessCode None) = None" by (simp add: access_get_def)
  have time: "(5 :: int) \<le> 0 + 86399 * 10 ^ 9" by simp
  have fresh: "map_of ([] :: users) (''gt_'' @ hex_bytes [1]) = None" "map_of root_env (''gt_'' @ hex_bytes [1]) = None"
    by (simp, code_simp)
  have "(\<lambda>_. Some (''s1'', ''s1.db'')) req \<noteq> None" for req :: start_request by simp
  from invite_impersonates_bootstrap [OF x c code time this fresh, of "\<lambda>_. None" sample_db "(''h:1'', ''h:2'')" "[]" "''now''" None]
  show ?thesis unfolding inviter_def any_pipeline_def by metis
qed

text \<open>An invitation whose claim creates the user but fails to open a session is lost: the user stays, its token was
  never handed out, and every later claim of the code fails.\<close>

theorem failed_claim_burns_invitation:
  assumes code: "access_get cs (map upper_char (TrimSpace query)) = Some rec1" "ac_new_owner rec1 \<noteq> []"
    and cl: "handleAccessClaim pl addrs tokens query rnd now stamp db us cs = (Inl OpenFailed, us', cs')"
  shows "OwnerExists us' (ac_new_owner rec1) \<and>
    (\<forall>pl2 rnd2 now2 stamp2. isl (fst (handleAccessClaim pl2 addrs tokens query rnd2 now2 stamp2 db us' cs')))"
proof -
  from cl code obtain u token where cu: "CreateUser rnd (ac_new_owner rec1) (ac_owner rec1) stamp us = Inr (u, token, us')" and cs: "cs' = cs"
    by (auto simp: handleAccessClaim_def claim_open_def Let_def split: if_splits sum.splits option.splits)
  have ex: "OwnerExists us' (ac_new_owner rec1)"
    unfolding CreateUser_Inr(2) [OF cu] by (simp add: OwnerExists_def CreateUser_Inr(1) [OF cu])
  have no: "isl (CreateUser rnd2 (ac_new_owner rec1) (ac_owner rec1) stamp2 us')" for rnd2 stamp2
    using CreateUser_Inr(5) [of rnd2 "ac_new_owner rec1" "ac_owner rec1" stamp2 us'] ex
    by (cases "CreateUser rnd2 (ac_new_owner rec1) (ac_owner rec1) stamp2 us'") auto
  have "isl (fst (handleAccessClaim pl2 addrs tokens query rnd2 now2 stamp2 db us' cs'))" for pl2 rnd2 now2 stamp2
    using no [of rnd2 stamp2] code by (auto simp: handleAccessClaim_def Let_def cs isl_def split: sum.splits)
  with ex show ?thesis by blast
qed

lemma failed_claim_burns_invitation_witness:
  "let cs = snd (handleCreateAccessCode (\<lambda>_. None) inviter (invite_args ''carl'') None 0 sample_db [] []);
       r = handleAccessClaim (Some (\<lambda>_. None)) (''h:1'', ''h:2'') [] ''GT-DEAD-BEEF'' (Some [1]) 1 ''now'' sample_db [] cs in
   fst r = Inl OpenFailed \<and> OwnerExists (fst (snd r)) ''carl'' \<and>
   isl (fst (handleAccessClaim any_pipeline (''h:1'', ''h:2'') [] ''GT-DEAD-BEEF'' (Some [2]) 2 ''now'' sample_db (fst (snd r)) (snd (snd r))))"
proof -
  let ?cs = "snd (handleCreateAccessCode (\<lambda>_. None) inviter (invite_args ''carl'') None 0 sample_db [] [])"
  let ?r = "handleAccessClaim (Some (\<lambda>_. None)) (''h:1'', ''h:2'') [] ''GT-DEAD-BEEF'' (Some [1]) 1 ''now'' sample_db [] ?cs"
  have "map_option ac_new_owner (access_get ?cs (map upper_char (TrimSpace ''GT-DEAD-BEEF''))) = Some ''carl''" by code_simp
  then obtain rec1 where g: "access_get ?cs (map upper_char (TrimSpace ''GT-DEAD-BEEF'')) = Some rec1" and n: "ac_new_owner rec1 = ''carl''" by auto
  have ne: "ac_new_owner rec1 \<noteq> []" by (simp add: n)
  have "(case fst ?r of Inl OpenFailed \<Rightarrow> True | _ \<Rightarrow> False)" by code_simp
  then have f: "fst ?r = Inl OpenFailed" by (auto split: sum.splits claim_err.splits)
  then have "?r = (Inl OpenFailed, fst (snd ?r), snd (snd ?r))" by (metis prod.collapse)
  from failed_claim_burns_invitation [OF g ne this] f show ?thesis unfolding Let_def n by blast
qed

text \<open>A claimed code is marked as claimed, but nothing reads the mark: until it expires a code that is not an invitation
  can be claimed any number of times, and hands out the same token, that of its creator, every time.\<close>

theorem access_code_claimed_again:
  assumes code: "access_get cs (map upper_char (TrimSpace query)) = Some rec1" "ac_new_owner rec1 = []"
    and cl: "handleAccessClaim pl addrs tokens query rnd now stamp db us cs = (Inr (cfg, meta), us', cs')"
    and time: "now2 \<le> ac_expires rec1 * 10 ^ 9" and start: "\<And>req. start req \<noteq> None"
  shows "map_option ac_claimed (access_get cs' (map upper_char (TrimSpace query))) = Some True \<and>
    (\<exists>cfg2 meta2 cs2. handleAccessClaim (Some start) addrs tokens query rnd2 now2 stamp2 db us' cs' = (Inr (cfg2, meta2), us', cs2) \<and>
      cc_token cfg2 = cc_token cfg \<and> cc_token cfg = ownerSecret tokens (ac_owner rec1))"
proof -
  let ?q = "map upper_char (TrimSpace query)"
  have ac: "ac_code rec1 = ?q" using code(1) by (auto simp: access_get_def find_Some_iff)
  from cl code have q: "?q \<noteq> []" and op: "claim_open pl addrs stamp db rec1 (ac_owner rec1) (ownerSecret tokens (ac_owner rec1)) us cs = (Inr (cfg, meta), us', cs')"
    by (auto simp: handleAccessClaim_def Let_def split: if_splits)
  note o1 = claim_open_Inr [OF op]
  let ?r2 = "rec1\<lparr>ac_claimed := True, ac_session := cc_session cfg\<rparr>"
  have g: "access_get cs' ?q = Some ?r2" using access_get_MarkClaimed [OF code(1)] by (simp add: o1(4) ac)
  obtain cfg2 meta2 cs2 where "claim_open (Some start) addrs stamp2 db ?r2 (ac_owner ?r2) (ownerSecret tokens (ac_owner ?r2)) us' cs' = (Inr (cfg2, meta2), us', cs2)"
    and t: "cc_token cfg2 = ownerSecret tokens (ac_owner ?r2)"
    using claim_open_ok [of start, OF start] by blast
  then have "handleAccessClaim (Some start) addrs tokens query rnd2 now2 stamp2 db us' cs' = (Inr (cfg2, meta2), us', cs2)"
    using q code(2) time by (simp add: handleAccessClaim_def Let_def g)
  with g t o1(1) show ?thesis by simp
qed

lemma access_code_claimed_again_witness:
  "let cs = snd (handleCreateAccessCode (\<lambda>_. None) inviter (\<lambda>_. None) None 0 sample_db [] []);
       r = handleAccessClaim any_pipeline (''h:1'', ''h:2'') [(''mallory'', ''tk'')] ''GT-DEAD-BEEF'' None 1 ''now'' sample_db [] cs in
   \<exists>cfg2 meta2 us2 cs2. \<not> isl (fst r) \<and>
     handleAccessClaim any_pipeline (''h:1'', ''h:2'') [(''mallory'', ''tk'')] ''GT-DEAD-BEEF'' None 2 ''now'' sample_db (fst (snd r)) (snd (snd r)) =
       (Inr (cfg2, meta2), us2, cs2) \<and> cc_token cfg2 = ''tk''"
proof -
  let ?cs = "snd (handleCreateAccessCode (\<lambda>_. None) inviter (\<lambda>_. None) None 0 sample_db [] [])"
  let ?ts = "[(''mallory'', ''tk'')]"
  let ?q = "map upper_char (TrimSpace ''GT-DEAD-BEEF'')"
  let ?r = "handleAccessClaim any_pipeline (''h:1'', ''h:2'') ?ts ''GT-DEAD-BEEF'' None 1 ''now'' sample_db [] ?cs"
  have "map_option (\<lambda>c. (ac_new_owner c, ac_owner c, 2 \<le> ac_expires c * 10 ^ 9)) (access_get ?cs ?q) = Some ([], ''mallory'', True)" by code_simp
  then obtain rec1 where g: "access_get ?cs ?q = Some rec1" and n: "ac_new_owner rec1 = []" "ac_owner rec1 = ''mallory''"
    and time: "2 \<le> ac_expires rec1 * 10 ^ 9" by auto
  have ok: "\<not> isl (fst ?r)" by code_simp
  then obtain cfg meta where r: "?r = (Inr (cfg, meta), fst (snd ?r), snd (snd ?r))"
    by (cases ?r; cases "fst ?r"; cases "projr (fst ?r)") auto
  have "(\<lambda>_. Some (''s1'', ''s1.db'')) req \<noteq> None" for req :: start_request by simp
  from access_code_claimed_again [OF g n(1) r time this, of None "''now''"] ok
  show ?thesis unfolding Let_def any_pipeline_def n(2) by (auto simp: ownerSecret_def)
qed

end
