(* ===== verification/Access_Resolver.thy ===== *)
theory Access_Resolver imports Access_Invite begin

text \<open>
  What the entry points rely on: a resolver that demands a token refuses a call without one, and one that does not
  lets every call pass as the anonymous owner.  The contract is the locale \<open>token_resolver\<close>; the static table and
  the chain of resolvers provide it, the HTTP middleware of \<open>cmd/gt-mcp/http_server.go\<close> and the gRPC interceptor use it.
\<close>

section \<open>The entry points\<close>

text \<open>\<open>authMiddleware\<close>: \<open>None\<close> is the refusal, \<open>Some None\<close> a request passed on without an identity.  \<open>req\<close> is what
  \<open>Required\<close> said when the handler was built, once at the start of the process; \<open>res\<close> resolves the request.  The
  plugin registry of \<open>cmd/gt-pipeline/main.go\<close> decides in the same way, at its start, whether it mounts the
  interceptor; the agent ingest server mounts it always.\<close>

definition authMiddleware :: "bool \<Rightarrow> (string \<Rightarrow> identity option) \<Rightarrow> string \<Rightarrow> string \<Rightarrow> identity option option" where
  "authMiddleware req res header query = (if \<not> req then Some None else map_option Some (http_identity res header query))"

definition registry_call :: "bool \<Rightarrow> (string \<Rightarrow> identity option) \<Rightarrow> string list \<Rightarrow> identity option option" where
  "registry_call req res values = (if \<not> req then Some None else map_option Some (principalFromIncoming res values))"

text \<open>The resolvers of the two services.\<close>

definition mcp_resolver :: "static_resolver \<Rightarrow> user_db \<Rightarrow> first_resolver" where
  "mcp_resolver env udb = \<lparr>fr_primary = env, fr_db = udb, fr_extra = []\<rparr>"

definition pipeline_resolver :: "static_resolver \<Rightarrow> user_db \<Rightarrow> (string \<Rightarrow> identity option) \<Rightarrow> bool \<Rightarrow> first_resolver" where
  "pipeline_resolver env udb probes probes_required =
    \<lparr>fr_primary = env, fr_db = udb, fr_extra = [(probes, probes_required)]\<rparr>"

section \<open>The contract of a resolver\<close>

locale token_resolver =
  fixes wf :: "'r \<Rightarrow> bool" and required :: "'r \<Rightarrow> bool" and resolve :: "'r \<Rightarrow> string \<Rightarrow> identity option"
  assumes open_service: "wf r \<Longrightarrow> \<not> required r \<Longrightarrow> resolve r [] = Some (plain_identity AnonymousOwner False)"
    and no_token: "wf r \<Longrightarrow> required r \<Longrightarrow> resolve r [] = None"

context token_resolver begin

lemma without_token:
  assumes "wf r"
  shows "resolve r [] = (if required r then None else Some (plain_identity AnonymousOwner False))"
  using no_token [OF assms] open_service [OF assms] by simp

lemma http_without_token:
  assumes "wf r" "parseBearer header = None"
  shows "authMiddleware req (resolve r) header [] =
    (if \<not> req then Some None else if required r then None else Some (Some (plain_identity AnonymousOwner False)))"
  using without_token [OF assms(1)] assms(2) by (simp add: authMiddleware_def http_identity_def)

lemma first_bearer_Nil: "\<forall>v \<in> set vs. parseBearer v = None \<Longrightarrow> first_bearer vs = []"
  by (induction vs) simp_all

lemma grpc_without_token:
  assumes "wf r" "\<forall>v \<in> set vs. parseBearer v = None"
  shows "principalFromIncoming (resolve r) vs = (if required r then None else Some (plain_identity AnonymousOwner False))"
  using without_token [OF assms(1)] by (simp add: principalFromIncoming_def first_bearer_Nil [OF assms(2)])

lemma registry_without_token:
  assumes "wf r" "\<forall>v \<in> set vs. parseBearer v = None"
  shows "registry_call req (resolve r) vs =
    (if \<not> req then Some None else if required r then None else Some (Some (plain_identity AnonymousOwner False)))"
  using grpc_without_token [OF assms] by (simp add: registry_call_def)

end

section \<open>The providers\<close>

text \<open>The static table holds no empty token.\<close>

definition wf_static :: "static_resolver \<Rightarrow> bool" where
  "wf_static r \<longleftrightarrow> map_of r [] = None"

interpretation static_table: token_resolver wf_static Required Resolve
  by unfold_locales (auto simp: wf_static_def Resolve_def)

text \<open>The further resolvers of a chain know no empty token.\<close>

definition wf_chain :: "first_resolver \<Rightarrow> bool" where
  "wf_chain r \<longleftrightarrow> wf_static (fr_primary r) \<and> (\<forall>(f, req) \<in> set (fr_extra r). f [] = None)"

lemma first_some_None: "first_some fs t = None \<longleftrightarrow> (\<forall>f \<in> set fs. f t = None)"
  by (induction fs) (auto split: option.splits)

lemma chain_knows_no_empty: "wf_chain r \<Longrightarrow> first_some (map fst (fr_extra r)) [] = None \<and> db_resolve (fr_db r) [] = None"
  unfolding first_some_None by (cases "fr_db r") (fastforce simp: wf_chain_def db_resolve_def)+

interpretation chain: token_resolver wf_chain first_required first_resolve
proof
  show "first_resolve r [] = Some (plain_identity AnonymousOwner False)" if w: "wf_chain r" and n: "\<not> first_required r" for r
  proof -
    have "\<not> Required (fr_primary r)" using n by (simp add: first_required_def)
    then show ?thesis using chain_knows_no_empty [OF w] n by (simp add: first_resolve_def)
  qed
  show "first_resolve r [] = None" if w: "wf_chain r" and q: "first_required r" for r
  proof -
    have "Required (fr_primary r) \<Longrightarrow> Resolve (fr_primary r) [] = None"
      using w static_table.no_token by (simp add: wf_chain_def)
    then show ?thesis using chain_knows_no_empty [OF w] q by (simp add: first_resolve_def)
  qed
qed

text \<open>The tables \<open>ParseTokens\<close> and \<open>NewStaticResolver\<close> build are such tables.\<close>

lemma parse_segments_wf: "parse_segments segs bt ow = Inr r \<Longrightarrow> map_of bt [] = None \<Longrightarrow> map_of r [] = None"
proof (induction segs arbitrary: bt ow)
  case (Cons s segs)
  show ?case
  proof (cases "TrimSpace s = []")
    case True
    then show ?thesis using Cons by simp
  next
    case False
    then obtain owner tok adm where e: "parse_entry (TrimSpace s) = Inr (owner, tok, adm)"
      and rest: "parse_segments segs ((tok, plain_identity owner adm) # bt) ((owner, TrimSpace s) # ow) = Inr r"
      using Cons.prems(1) by (auto simp: Let_def split: sum.splits option.splits)
    from e have "tok \<noteq> []" by (rule load_entry)
    then show ?thesis using Cons.IH [OF rest] Cons.prems(2) by simp
  qed
qed simp

lemma ParseTokens_wf: "ParseTokens spec = Inr r \<Longrightarrow> wf_static r"
  unfolding wf_static_def by (rule parse_segments_wf [OF ParseTokens_segments]) simp_all

text \<open>The two services.\<close>

lemma service_required:
  "first_required (mcp_resolver env udb) \<longleftrightarrow> env \<noteq> [] \<or> HasUsers udb"
  "first_required (pipeline_resolver env udb probes q) \<longleftrightarrow> env \<noteq> [] \<or> HasUsers udb \<or> q"
  by (simp_all add: first_required_def mcp_resolver_def pipeline_resolver_def Required_def)

lemma service_wf:
  assumes "ParseTokens spec = Inr env"
  shows "wf_chain (mcp_resolver env udb)" "probes [] = None \<Longrightarrow> wf_chain (pipeline_resolver env udb probes q)"
  using ParseTokens_wf [OF assms] by (simp_all add: wf_chain_def mcp_resolver_def pipeline_resolver_def)

end
