(* ===== verification/Probe_Store.thy ===== *)
theory Probe_Store imports Access_Resolver begin

text \<open>
  The probe tables of \<open>pkg/store/probe_store.go\<close>: the rows of \<open>probes\<close> and of \<open>probe_archive_segments\<close>, and one
  definition per statement.  The columns of the runtime status are one record, as a heartbeat writes them.  Times are
  numbers, 0 the zero time; a failing database is not modelled.
\<close>

record runtime_status =
  rs_connection :: string
  rs_capture :: string
  rs_session :: string
  rs_error :: string
  rs_iface :: string
  rs_ports :: string
  rs_last_packet :: int
  rs_last_upload :: int
  rs_captured :: nat
  rs_acked :: nat
  rs_depth :: nat
  rs_dropped :: nat
  rs_arch_bytes :: nat
  rs_arch_segments :: nat
  rs_arch_oldest :: int
  rs_arch_newest :: int
  rs_seen :: int

definition no_status :: runtime_status where
  "no_status = \<lparr>rs_connection = [], rs_capture = [], rs_session = [], rs_error = [], rs_iface = [], rs_ports = [],
     rs_last_packet = 0, rs_last_upload = 0, rs_captured = 0, rs_acked = 0, rs_depth = 0, rs_dropped = 0,
     rs_arch_bytes = 0, rs_arch_segments = 0, rs_arch_oldest = 0, rs_arch_newest = 0, rs_seen = 0\<rparr>"

record probe_meta =
  pb_id :: string
  pb_name :: string
  pb_owner :: string
  pb_tenant :: string
  pb_caps :: string
  pb_hash :: string
  pb_version :: string
  pb_hostname :: string
  pb_os :: string
  pb_arch :: string
  pb_status :: runtime_status
  pb_created :: int

record archive_segment =
  as_id :: string
  as_first :: int
  as_last :: int
  as_packets :: nat
  as_bytes :: nat
  as_link :: nat

record probe_db =
  pd_probes :: "probe_meta list"
  pd_segments :: "(string \<times> archive_segment) list"

definition normalizeTenant :: "string \<Rightarrow> string" where
  "normalizeTenant t = (if t = [] then DefaultTenant else t)"

definition scanProbe :: "probe_meta \<Rightarrow> probe_meta" where
  "scanProbe p = (if rs_seen (pb_status p) = 0 then p\<lparr>pb_status := (pb_status p)\<lparr>rs_seen := pb_created p\<rparr>\<rparr> else p)"

text \<open>A conflict keeps the owner, the tenant, the status and the time of creation.\<close>

definition UpsertProbe :: "probe_meta \<Rightarrow> int \<Rightarrow> probe_db \<Rightarrow> probe_db" where
  "UpsertProbe m0 now db =
    (let m = m0\<lparr>pb_created := (if pb_created m0 = 0 then now else pb_created m0), pb_tenant := normalizeTenant (pb_tenant m0)\<rparr> in
     if list_ex (\<lambda>p. pb_id p = pb_id m) (pd_probes db) then
       db\<lparr>pd_probes := map (\<lambda>p. if pb_id p = pb_id m
            then p\<lparr>pb_name := pb_name m, pb_caps := pb_caps m, pb_hash := pb_hash m, pb_version := pb_version m,
                   pb_hostname := pb_hostname m, pb_os := pb_os m, pb_arch := pb_arch m\<rparr>
            else p) (pd_probes db)\<rparr>
     else
       db\<lparr>pd_probes := pd_probes db @
            [m\<lparr>pb_status := no_status\<lparr>rs_connection := rs_connection (pb_status m), rs_seen := rs_seen (pb_status m), rs_capture := ''idle''\<rparr>\<rparr>]\<rparr>)"

definition GetProbe :: "probe_db \<Rightarrow> string \<Rightarrow> probe_meta option" where
  "GetProbe db i = map_option scanProbe (find (\<lambda>p. pb_id p = i) (pd_probes db))"

definition GetProbeByTokenHash :: "probe_db \<Rightarrow> string \<Rightarrow> probe_meta option" where
  "GetProbeByTokenHash db h = (if h = [] then None else map_option scanProbe (find (\<lambda>p. pb_hash p = h) (pd_probes db)))"

definition ListProbes :: "probe_db \<Rightarrow> probe_meta list" where
  "ListProbes db = map scanProbe (rev (sort_key pb_created (rev (pd_probes db))))"

definition on_probe :: "string \<Rightarrow> (probe_meta \<Rightarrow> probe_meta) \<Rightarrow> probe_db \<Rightarrow> probe_db" where
  "on_probe i f db = db\<lparr>pd_probes := map (\<lambda>p. if pb_id p = i then f p else p) (pd_probes db)\<rparr>"

definition UpdateProbeStatus :: "string \<Rightarrow> runtime_status \<Rightarrow> probe_db \<Rightarrow> probe_db" where
  "UpdateProbeStatus i st = on_probe i (\<lambda>p. p\<lparr>pb_status := st\<rparr>)"

definition SetProbeConnection :: "string \<Rightarrow> string \<Rightarrow> int \<Rightarrow> probe_db \<Rightarrow> probe_db" where
  "SetProbeConnection i state seen = on_probe i (\<lambda>p. p\<lparr>pb_status := (pb_status p)\<lparr>rs_connection := state, rs_seen := seen\<rparr>\<rparr>)"

definition RenameProbe :: "string \<Rightarrow> string \<Rightarrow> probe_db \<Rightarrow> probe_db" where
  "RenameProbe i name = on_probe i (\<lambda>p. p\<lparr>pb_name := name\<rparr>)"

definition RevokeProbe :: "string \<Rightarrow> probe_db \<Rightarrow> probe_db" where
  "RevokeProbe i = on_probe i (\<lambda>p. p\<lparr>pb_hash := [], pb_status := (pb_status p)\<lparr>rs_connection := ''offline''\<rparr>\<rparr>)"

definition DeleteProbe :: "string \<Rightarrow> probe_db \<Rightarrow> probe_db" where
  "DeleteProbe i db = db\<lparr>pd_probes := filter (\<lambda>p. pb_id p \<noteq> i) (pd_probes db), pd_segments := filter (\<lambda>(j, _). j \<noteq> i) (pd_segments db)\<rparr>"

text \<open>The transaction fails when a segment stands twice in the list.\<close>

definition ReplaceProbeSegments :: "string \<Rightarrow> archive_segment list \<Rightarrow> probe_db \<Rightarrow> probe_db option" where
  "ReplaceProbeSegments i segs db =
    (if distinct (map as_id segs) then Some (db\<lparr>pd_segments := filter (\<lambda>(j, _). j \<noteq> i) (pd_segments db) @ map (Pair i) segs\<rparr>) else None)"

definition ListProbeSegments :: "probe_db \<Rightarrow> string \<Rightarrow> int \<Rightarrow> int \<Rightarrow> archive_segment list" where
  "ListProbeSegments db i fromMs toMs =
    sort_key as_first (filter (\<lambda>s. (fromMs > 0 \<longrightarrow> as_last s \<ge> fromMs) \<and> (toMs > 0 \<longrightarrow> as_first s \<le> toMs))
      (map snd (filter (\<lambda>(j, _). j = i) (pd_segments db))))"

end
