(* ===== verification/Probe_Manager.thy ===== *)
theory Probe_Manager imports Probe_Store begin

text \<open>
  The control plane of the probes, \<open>pkg/probe/manager.go\<close>.  Every operation runs as one goroutine; what it does to the
  manager is a function from states to states that yields a result or \<open>None\<close> when the goroutine waits for ever, which
  happens when it locks the mutex it holds itself, or one that such a goroutine left locked: a Go mutex is not reentrant.

  Channels and streams have numbers; the commands queued for a probe are a list of at most 16.  The answer a command
  waits for is an argument of the operation, \<open>None\<close> the timeout.  The order in which a loop visits a map is an argument.
\<close>

section \<open>State\<close>

record desired =
  ds_session :: string
  ds_iface :: string
  ds_ports :: "int list"
  ds_hosts :: "string list"
  ds_bpf :: string
  ds_snaplen :: int
  ds_promisc :: bool

datatype payload =
  PAssign desired | PStop | PFilter "int list" "string list" | PQuery int int | PUpload string int int

type_synonym command = "string \<times> payload"

record probe_conn =
  cn_send :: "command list"
  cn_stream :: nat

record mgr =
  mg_db :: probe_db
  mg_locked :: bool
  mg_conns :: "string \<Rightarrow> probe_conn option"
  mg_latest :: "string \<Rightarrow> runtime_status option"
  mg_desired :: "string \<Rightarrow> desired option"
  mg_query :: "string \<Rightarrow> nat option"
  mg_pending :: "string \<Rightarrow> bool"
  mg_seq :: "64 word"
  mg_cancelled :: "nat list"

definition NewManager :: "probe_db \<Rightarrow> mgr" where
  "NewManager db = \<lparr>mg_db = db, mg_locked = False, mg_conns = (\<lambda>_. None), mg_latest = (\<lambda>_. None), mg_desired = (\<lambda>_. None),
     mg_query = (\<lambda>_. None), mg_pending = (\<lambda>_. False), mg_seq = 0, mg_cancelled = []\<rparr>"

section \<open>Running, and the mutex\<close>

type_synonym 'a run = "mgr \<Rightarrow> 'a option \<times> mgr"

definition ret :: "'a \<Rightarrow> 'a run" where "ret x = (\<lambda>m. (Some x, m))"

definition bindm :: "'a run \<Rightarrow> ('a \<Rightarrow> 'b run) \<Rightarrow> 'b run" where
  "bindm p f = (\<lambda>m. case p m of (None, m1) \<Rightarrow> (None, m1) | (Some x, m1) \<Rightarrow> f x m1)"

definition act :: "(mgr \<Rightarrow> mgr) \<Rightarrow> unit run" where "act f = (\<lambda>m. (Some (), f m))"
definition peek :: "(mgr \<Rightarrow> 'a) \<Rightarrow> 'a run" where "peek f = (\<lambda>m. (Some (f m), m))"

definition lock :: "unit run" where
  "lock = (\<lambda>m. if mg_locked m then (None, m) else (Some (), m\<lparr>mg_locked := True\<rparr>))"

definition unlock :: "unit run" where "unlock = act (\<lambda>m. m\<lparr>mg_locked := False\<rparr>)"

definition locked :: "'a run \<Rightarrow> 'a run" where
  "locked p = bindm lock (\<lambda>_. bindm p (\<lambda>x. bindm unlock (\<lambda>_. ret x)))"

section \<open>Commands\<close>

datatype probe_err = EOffline string | EBusy string | ERejected string string | ETimeout string string | EUnknown string | ENoRetry | ECancelled | EDuplicate

definition sendCap :: nat where "sendCap = 16"

definition nextCmdID :: "string run" where
  "nextCmdID = locked (bindm (act (\<lambda>m. m\<lparr>mg_seq := mg_seq m + 1\<rparr>)) (\<lambda>_. peek (\<lambda>m. ''cmd-'' @ show_nat (unat (mg_seq m)))))"

text \<open>A non-blocking send: it fails when the buffer is full.\<close>

definition try_send :: "string \<Rightarrow> probe_conn \<Rightarrow> command \<Rightarrow> mgr \<Rightarrow> mgr option" where
  "try_send i c cmd m =
    (if length (cn_send c) < sendCap then Some (m\<lparr>mg_conns := (mg_conns m)(i \<mapsto> c\<lparr>cn_send := cn_send c @ [cmd]\<rparr>)\<rparr>) else None)"

definition dispatch :: "string \<Rightarrow> command \<Rightarrow> (probe_err + unit) run" where
  "dispatch i cmd = (\<lambda>m.
    (case mg_conns m i of
       None \<Rightarrow> (Some (Inl (EOffline i)), m)
     | Some c \<Rightarrow>
        (let m1 = m\<lparr>mg_pending := (mg_pending m)(fst cmd := True)\<rparr> in
         (case try_send i c cmd m1 of
            Some m2 \<Rightarrow> (Some (Inr ()), m2)
          | None \<Rightarrow> (Some (Inl (EBusy i)), m1\<lparr>mg_pending := (mg_pending m1)(fst cmd := False)\<rparr>)))))"

definition sendAndWait :: "string \<Rightarrow> command \<Rightarrow> (bool \<times> string) option \<Rightarrow> (probe_err + unit) run" where
  "sendAndWait i cmd reply =
    bindm (locked (dispatch i cmd)) (\<lambda>r.
      case r of
        Inl e \<Rightarrow> ret (Inl e)
      | Inr _ \<Rightarrow>
          bindm (locked (act (\<lambda>m. m\<lparr>mg_pending := (mg_pending m)(fst cmd := False)\<rparr>))) (\<lambda>_.
            ret (case reply of
                None \<Rightarrow> Inl (ETimeout i (fst cmd))
              | Some (ok, e) \<Rightarrow> if ok then Inr () else Inl (ERejected (fst cmd) e))))"

text \<open>The goroutine that drains the answer changes nothing.\<close>

definition sendLockedNoWait :: "string \<Rightarrow> command \<Rightarrow> unit run" where
  "sendLockedNoWait i cmd = act (\<lambda>m.
    (case mg_conns m i of
       None \<Rightarrow> m
     | Some c \<Rightarrow>
        (let m1 = m\<lparr>mg_pending := (mg_pending m)(fst cmd := True)\<rparr> in
         (case try_send i c cmd m1 of
            Some m2 \<Rightarrow> m2
          | None \<Rightarrow> m1\<lparr>mg_pending := (mg_pending m1)(fst cmd := False)\<rparr>))))"

definition latest_of :: "mgr \<Rightarrow> string \<Rightarrow> runtime_status" where
  "latest_of m i = (case mg_latest m i of Some l \<Rightarrow> l | None \<Rightarrow> no_status)"

definition capturing :: "runtime_status \<Rightarrow> bool" where
  "capturing l \<longleftrightarrow> rs_capture l = ''running'' \<or> rs_capture l = ''starting''"

definition probeSyncLocked :: "string \<Rightarrow> bool \<Rightarrow> unit run" where
  "probeSyncLocked i force = (\<lambda>m.
    (if mg_conns m i = None then ret () m
     else
       (let lt = latest_of m i in
        (case mg_desired m i of
           Some d \<Rightarrow>
             (if ds_session d \<noteq> [] then
                (if force \<or> \<not> capturing lt \<or> rs_session lt \<noteq> ds_session d
                 then bindm nextCmdID (\<lambda>k. sendLockedNoWait i (k, PAssign d)) m
                 else ret () m)
              else ret () m)
         | None \<Rightarrow> (if capturing lt then bindm nextCmdID (\<lambda>k. sendLockedNoWait i (k, PStop)) m else ret () m)))))"

section \<open>The streams of the probes\<close>

definition cancel_conn :: "probe_conn \<Rightarrow> mgr \<Rightarrow> mgr" where
  "cancel_conn c m = m\<lparr>mg_cancelled := cn_stream c # mg_cancelled m\<rparr>"

definition openConn :: "string \<Rightarrow> nat \<Rightarrow> bool run" where
  "openConn i stream =
    locked (bindm (act (\<lambda>m. case mg_conns m i of Some old \<Rightarrow> cancel_conn old m | None \<Rightarrow> m)) (\<lambda>_.
            bindm (act (\<lambda>m. m\<lparr>mg_conns := (mg_conns m)(i \<mapsto> \<lparr>cn_send = [], cn_stream = stream\<rparr>)\<rparr>)) (\<lambda>_.
            bindm (probeSyncLocked i False) (\<lambda>_. ret True))))"

definition drop_conn :: "string \<Rightarrow> mgr \<Rightarrow> mgr" where
  "drop_conn i m = (case mg_conns m i of Some c \<Rightarrow> cancel_conn c (m\<lparr>mg_conns := (mg_conns m)(i := None)\<rparr>) | None \<Rightarrow> m)"

definition on_db :: "(probe_db \<Rightarrow> probe_db) \<Rightarrow> unit run" where
  "on_db f = act (\<lambda>m. m\<lparr>mg_db := f (mg_db m)\<rparr>)"

definition closeConn :: "string \<Rightarrow> int \<Rightarrow> unit run" where
  "closeConn i now = bindm (locked (act (drop_conn i))) (\<lambda>_. on_db (SetProbeConnection i ''offline'' now))"

definition Online :: "string \<Rightarrow> bool run" where
  "Online i = locked (peek (\<lambda>m. mg_conns m i \<noteq> None))"

section \<open>Management\<close>

text \<open>\<open>mergeRuntime\<close> copies all but the connection and the time last seen.\<close>

definition mergeRuntime :: "probe_meta \<Rightarrow> runtime_status \<Rightarrow> probe_meta" where
  "mergeRuntime p lt = p\<lparr>pb_status := lt\<lparr>rs_connection := rs_connection (pb_status p), rs_seen := rs_seen (pb_status p)\<rparr>\<rparr>"

definition live :: "mgr \<Rightarrow> probe_meta \<Rightarrow> probe_meta" where
  "live m p =
    (let p1 = p\<lparr>pb_status := (pb_status p)\<lparr>rs_connection := (if mg_conns m (pb_id p) \<noteq> None then ''online'' else ''offline'')\<rparr>\<rparr> in
     (case mg_latest m (pb_id p) of Some lt \<Rightarrow> mergeRuntime p1 lt | None \<Rightarrow> p1))"

definition List_probes :: "probe_meta list run" where
  "List_probes = bindm (peek (\<lambda>m. ListProbes (mg_db m))) (\<lambda>ps. locked (peek (\<lambda>m. map (live m) ps)))"

definition with_probe :: "string \<Rightarrow> (probe_meta \<Rightarrow> (probe_err + 'a) run) \<Rightarrow> (probe_err + 'a) run" where
  "with_probe i f = bindm (peek (\<lambda>m. GetProbe (mg_db m) i)) (\<lambda>r. case r of None \<Rightarrow> ret (Inl (EUnknown i)) | Some p \<Rightarrow> f p)"

definition Get_probe :: "string \<Rightarrow> (probe_err + probe_meta) run" where
  "Get_probe i = with_probe i (\<lambda>p. locked (peek (\<lambda>m. Inr (live m p))))"

definition StartCapture :: "string \<Rightarrow> desired \<Rightarrow> (probe_err + unit) run" where
  "StartCapture i d = with_probe i (\<lambda>_.
    locked (bindm (act (\<lambda>m. m\<lparr>mg_desired := (mg_desired m)(i \<mapsto> d)\<rparr>)) (\<lambda>_. bindm (probeSyncLocked i False) (\<lambda>_. ret (Inr ())))))"

definition StopCapture :: "string \<Rightarrow> (probe_err + string) run" where
  "StopCapture i = with_probe i (\<lambda>p.
    locked (bindm (act (\<lambda>m. m\<lparr>mg_desired := (mg_desired m)(i := None)\<rparr>)) (\<lambda>_.
      bindm (probeSyncLocked i False) (\<lambda>_. ret (Inr (rs_session (pb_status p)))))))"

definition UpdateFilter :: "string \<Rightarrow> int list \<Rightarrow> string list \<Rightarrow> (bool \<times> string) option \<Rightarrow> (probe_err + unit) run" where
  "UpdateFilter i ports hosts reply = with_probe i (\<lambda>_.
    bindm nextCmdID (\<lambda>k. bindm (sendAndWait i (k, PFilter ports hosts) reply) (\<lambda>r.
      case r of
        Inl e \<Rightarrow> ret (Inl e)
      | Inr _ \<Rightarrow>
          locked (bindm (act (\<lambda>m. case mg_desired m i of
              Some d \<Rightarrow> m\<lparr>mg_desired := (mg_desired m)(i \<mapsto> d\<lparr>ds_ports := ports, ds_hosts := hosts, ds_bpf := []\<rparr>)\<rparr>
            | None \<Rightarrow> m)) (\<lambda>_. ret (Inr ()))))))"

definition Retry :: "string \<Rightarrow> (probe_err + unit) run" where
  "Retry i = with_probe i (\<lambda>_. locked (bindm (peek (\<lambda>m. mg_desired m i)) (\<lambda>d.
    case d of None \<Rightarrow> ret (Inl ENoRetry) | Some _ \<Rightarrow> bindm (probeSyncLocked i True) (\<lambda>_. ret (Inr ())))))"

definition Rename :: "string \<Rightarrow> string \<Rightarrow> unit run" where
  "Rename i name = on_db (RenameProbe i name)"

definition Revoke_probe :: "string \<Rightarrow> unit run" where
  "Revoke_probe i =
    bindm (locked (act (\<lambda>m. (drop_conn i m)\<lparr>mg_desired := (mg_desired m)(i := None)\<rparr>))) (\<lambda>_. on_db (RevokeProbe i))"

definition Delete_probe :: "string \<Rightarrow> unit run" where
  "Delete_probe i =
    bindm (locked (act (\<lambda>m. (drop_conn i m)\<lparr>mg_desired := (mg_desired m)(i := None), mg_latest := (mg_latest m)(i := None)\<rparr>)))
      (\<lambda>_. on_db (DeleteProbe i))"

definition ProbeForSession :: "string list \<Rightarrow> string list \<Rightarrow> string \<Rightarrow> string option run" where
  "ProbeForSession order1 order2 sid = locked (peek (\<lambda>m.
    (case find (\<lambda>i. map_option ds_session (mg_desired m i) = Some sid) order1 of
       Some i \<Rightarrow> Some i
     | None \<Rightarrow> find (\<lambda>i. case mg_latest m i of Some lt \<Rightarrow> rs_session lt = sid \<and> capturing lt | None \<Rightarrow> False) order2)))"

fun close_sessions :: "string list \<Rightarrow> string \<Rightarrow> unit run" where
  "close_sessions [] sid = ret ()"
| "close_sessions (i # is) sid =
    bindm (peek (\<lambda>m. map_option ds_session (mg_desired m i) = Some sid)) (\<lambda>hit.
      if hit then
        bindm (act (\<lambda>m. m\<lparr>mg_desired := (mg_desired m)(i := None)\<rparr>)) (\<lambda>_.
        bindm (probeSyncLocked i False) (\<lambda>_. close_sessions is sid))
      else close_sessions is sid)"

definition OnSessionClosed :: "string list \<Rightarrow> string \<Rightarrow> unit run" where
  "OnSessionClosed order sid = locked (close_sessions order sid)"

section \<open>Heartbeats\<close>

definition joinInt32 :: "int list \<Rightarrow> string" where
  "joinInt32 xs = concat (map (\<lambda>(i, x). (if i > (0 :: nat) then '','' else []) @ show_int x) (enumerate 0 xs))"

record hb_capture =
  hc_state :: string
  hc_session :: string
  hc_error :: string
  hc_iface :: string
  hc_ports :: "int list"

record hb_data =
  hd_last_packet :: int
  hd_last_upload :: int
  hd_captured :: nat
  hd_acked :: nat
  hd_depth :: nat
  hd_dropped :: nat

record hb_archive =
  ha_bytes :: nat
  ha_segments :: nat
  ha_oldest :: int
  ha_newest :: int

type_synonym heartbeat = "hb_capture option \<times> hb_data option \<times> hb_archive option"

definition heartbeat_status :: "heartbeat \<Rightarrow> int \<Rightarrow> runtime_status" where
  "heartbeat_status hb now = (case hb of (c, d, a) \<Rightarrow>
    (let s0 = no_status\<lparr>rs_connection := ''online'', rs_seen := now\<rparr>;
         s1 = (case c of None \<Rightarrow> s0 | Some x \<Rightarrow> s0\<lparr>rs_capture := hc_state x, rs_session := hc_session x, rs_error := hc_error x,
                 rs_iface := hc_iface x, rs_ports := joinInt32 (hc_ports x)\<rparr>);
         s2 = (case d of None \<Rightarrow> s1 | Some x \<Rightarrow> s1\<lparr>rs_last_packet := hd_last_packet x, rs_last_upload := hd_last_upload x,
                 rs_captured := hd_captured x, rs_acked := hd_acked x, rs_depth := hd_depth x, rs_dropped := hd_dropped x\<rparr>) in
     (case a of None \<Rightarrow> s2 | Some x \<Rightarrow> s2\<lparr>rs_arch_bytes := ha_bytes x, rs_arch_segments := ha_segments x,
                 rs_arch_oldest := ha_oldest x * 1000, rs_arch_newest := ha_newest x * 1000\<rparr>)))"

definition applyHeartbeat :: "string \<Rightarrow> heartbeat \<Rightarrow> int \<Rightarrow> unit run" where
  "applyHeartbeat i hb now =
    (let st = heartbeat_status hb now in
     bindm (locked (act (\<lambda>m. m\<lparr>mg_latest := (mg_latest m)(i \<mapsto> st)\<rparr>))) (\<lambda>_. on_db (UpdateProbeStatus i st)))"

section \<open>Archives\<close>

text \<open>The reply channel has the number \<open>ch\<close>; the answer is the segments in seconds, or the context ends first.\<close>

definition from_reply :: "archive_segment \<Rightarrow> archive_segment" where
  "from_reply s = s\<lparr>as_first := as_first s * 1000, as_last := as_last s * 1000\<rparr>"

definition go_div :: "int \<Rightarrow> int \<Rightarrow> int" where
  "go_div a b = sgn a * (\<bar>a\<bar> div b)"

definition QueryArchive :: "string \<Rightarrow> int \<Rightarrow> int \<Rightarrow> nat \<Rightarrow> archive_segment list option \<Rightarrow> (probe_err + archive_segment list) run" where
  "QueryArchive i fromMs toMs ch reply =
    bindm (locked (bindm (peek (\<lambda>m. (mg_conns m i, mg_query m i))) (\<lambda>(c, old).
      case c of
        None \<Rightarrow> ret (Inl (EOffline i))
      | Some c \<Rightarrow>
          bindm (act (\<lambda>m. m\<lparr>mg_query := (mg_query m)(i \<mapsto> ch)\<rparr>)) (\<lambda>_.
          bindm nextCmdID (\<lambda>k. \<lambda>m.
            (case try_send i c (k, PQuery (go_div fromMs 1000) (go_div toMs 1000)) m of
               Some m1 \<Rightarrow> (Some (Inr ()), m1)
             | None \<Rightarrow> (Some (Inl (EBusy i)), m\<lparr>mg_query := (mg_query m)(i := old)\<rparr>))))))) (\<lambda>r.
    case r of
      Inl e \<Rightarrow> ret (Inl e)
    | Inr _ \<Rightarrow>
        bindm (locked (act (\<lambda>m. if mg_query m i = Some ch then m\<lparr>mg_query := (mg_query m)(i := None)\<rparr> else m))) (\<lambda>_.
          ret (case reply of None \<Rightarrow> Inl ECancelled | Some segs \<Rightarrow> Inr (map from_reply segs))))"

definition StartArchiveUpload :: "string \<Rightarrow> string \<Rightarrow> int \<Rightarrow> int \<Rightarrow> (bool \<times> string) option \<Rightarrow> (probe_err + unit) run" where
  "StartArchiveUpload i target fromMs toMs reply =
    bindm nextCmdID (\<lambda>k. sendAndWait i (k, PUpload target (go_div fromMs 1000) (go_div toMs 1000)) reply)"

definition ListArchiveCached :: "string \<Rightarrow> int \<Rightarrow> int \<Rightarrow> archive_segment list run" where
  "ListArchiveCached i fromMs toMs = peek (\<lambda>m. ListProbeSegments (mg_db m) i fromMs toMs)"

text \<open>The merge by segment, visited in the order of the ids given.\<close>

definition merge_segments :: "archive_segment list \<Rightarrow> archive_segment list \<Rightarrow> string \<Rightarrow> archive_segment option" where
  "merge_segments existing segs = map_of (map (\<lambda>s. (as_id s, s)) (rev (existing @ segs)))"

definition UpsertArchiveSegments :: "string list \<Rightarrow> string \<Rightarrow> archive_segment list \<Rightarrow> (probe_err + unit) run" where
  "UpsertArchiveSegments order i segs =
    (if segs = [] then ret (Inr ())
     else (\<lambda>m.
       (let out = sort_key as_first (List.map_filter (merge_segments (ListProbeSegments (mg_db m) i 0 0) segs) order) in
        (case ReplaceProbeSegments i out (mg_db m) of
           Some db \<Rightarrow> (Some (Inr ()), m\<lparr>mg_db := db\<rparr>)
         | None \<Rightarrow> (Some (Inl EDuplicate), m)))))"

end
