(* ===== verification/Probe_Server.thy ===== *)
theory Probe_Server imports Probe_Manager begin

text \<open>
  The probe server of \<open>pkg/probe/server.go\<close>: registration, the control stream, the upload of archives, and the
  resolver of probe tokens.  SHA-256 is the argument \<open>sha\<close>; random bytes, the time and the owner of a session as the
  session store knows it are arguments, and so is the hub that takes the packets of an upload.
\<close>

section \<open>Credentials\<close>

definition newProbeID :: "8 word list option \<Rightarrow> string \<Rightarrow> string" where
  "newProbeID rnd fallback = (case rnd of Some b \<Rightarrow> ''prb_'' @ hex_bytes b | None \<Rightarrow> ''prb_'' @ fallback)"

definition newProbeToken :: "(string \<Rightarrow> string) \<Rightarrow> 8 word list option \<Rightarrow> (string \<times> string) option" where
  "newProbeToken sha rnd = map_option (\<lambda>b. let token = ''gt_prb_'' @ hex_bytes b in (token, sha token)) rnd"

definition AuthResolve :: "(string \<Rightarrow> string) \<Rightarrow> probe_db \<Rightarrow> string \<Rightarrow> identity option" where
  "AuthResolve sha db token =
    (if token = [] then None
     else map_option (\<lambda>p. \<lparr>id_owner = pb_owner p, id_admin = False, id_tenant = pb_tenant p, id_probe = pb_id p\<rparr>)
            (GetProbeByTokenHash db (sha token)))"

definition AuthRequired :: "probe_db \<Rightarrow> bool" where
  "AuthRequired db \<longleftrightarrow> length (ListProbes db) > 0"

section \<open>Registration\<close>

record reg_request =
  rq_prev :: string
  rq_name :: string
  rq_hostname :: string
  rq_caps :: "string list"
  rq_version :: string
  rq_os :: string
  rq_arch :: string

datatype reg_err = RDenied string | RInternal

text \<open>The probe to overwrite, or none: the one named, else one of the same owner and host.\<close>

definition same_machine :: "probe_db \<Rightarrow> string \<Rightarrow> string \<Rightarrow> string" where
  "same_machine db owner host =
    (case find (\<lambda>p. pb_owner p = owner \<and> pb_hostname p = host \<and> host \<noteq> []) (ListProbes db) of Some p \<Rightarrow> pb_id p | None \<Rightarrow> [])"

definition RegisterProbe ::
  "(string \<Rightarrow> string) \<Rightarrow> identity \<Rightarrow> reg_request \<Rightarrow> 8 word list option \<Rightarrow> string \<Rightarrow> 8 word list option \<Rightarrow> int \<Rightarrow> probe_db \<Rightarrow>
     (reg_err + (string \<times> string)) \<times> probe_db" where
  "RegisterProbe sha ident rq rnd fallback tok_rnd now db =
    (let owner = id_owner ident;
         name = (if rq_name rq = [] then rq_hostname rq else rq_name rq);
         prev = GetProbe db (rq_prev rq) in
     if (case prev of Some old \<Rightarrow> pb_owner old \<noteq> owner | None \<Rightarrow> False) then (Inl (RDenied (rq_prev rq)), db)
     else
       (let i0 = (if prev = None then [] else rq_prev rq);
            i1 = (if i0 = [] then same_machine db owner (rq_hostname rq) else i0);
            i2 = (if i1 = [] then newProbeID rnd fallback else i1) in
        (case newProbeToken sha tok_rnd of
           None \<Rightarrow> (Inl RInternal, db)
         | Some (token, hash) \<Rightarrow>
            (let caps = (if rq_caps rq = [] then [''pcap'', ''plugin_host''] else rq_caps rq) in
             (Inr (i2, token),
              UpsertProbe \<lparr>pb_id = i2, pb_name = name, pb_owner = owner, pb_tenant = id_tenant ident, pb_caps = join_with '','' caps,
                pb_hash = hash, pb_version = rq_version rq, pb_hostname = rq_hostname rq, pb_os = rq_os rq, pb_arch = rq_arch rq,
                pb_status = no_status, pb_created = 0\<rparr> now db)))))"

section \<open>The control stream\<close>

datatype ctl_event =
  EvHello string | EvHeartbeat heartbeat | EvResult string bool string | EvSegments "archive_segment list" | EvOther

datatype connect_err = CNeedToken | CUnknownProbe | CRevoked | CNoHello | CMismatch

text \<open>Who may open a control stream: a known, unrevoked probe that says hello under its own name.\<close>

definition connect_admit :: "identity \<Rightarrow> probe_db \<Rightarrow> ctl_event \<Rightarrow> connect_err + string" where
  "connect_admit ident db first =
    (let i = id_probe ident in
     if i = [] then Inl CNeedToken
     else (case GetProbe db i of
         None \<Rightarrow> Inl CUnknownProbe
       | Some p \<Rightarrow>
          (if pb_hash p = [] then Inl CRevoked
           else (case first of EvHello h \<Rightarrow> if h \<noteq> i then Inl CMismatch else Inr i | _ \<Rightarrow> Inl CNoHello))))"

definition connect_open :: "string \<Rightarrow> nat \<Rightarrow> int \<Rightarrow> unit run" where
  "connect_open i stream now = bindm (openConn i stream) (\<lambda>_. on_db (SetProbeConnection i ''online'' now))"

text \<open>One round of the sending goroutine: it takes from whatever connection the probe has now; \<open>None\<close> ends it.\<close>

definition sender_round :: "string \<Rightarrow> command option option run" where
  "sender_round i = bindm (locked (peek (\<lambda>m. mg_conns m i))) (\<lambda>c.
    case c of
      None \<Rightarrow> ret None
    | Some c \<Rightarrow> (case cn_send c of
          [] \<Rightarrow> ret (Some None)
        | cmd # rest \<Rightarrow> bindm (act (\<lambda>m. m\<lparr>mg_conns := (mg_conns m)(i \<mapsto> c\<lparr>cn_send := rest\<rparr>)\<rparr>)) (\<lambda>_. ret (Some (Some cmd)))))"

text \<open>The result says whether a goroutine waits for the answer.\<close>

definition handleEvent :: "string \<Rightarrow> ctl_event \<Rightarrow> int \<Rightarrow> bool run" where
  "handleEvent i ev now =
    (case ev of
       EvHello _ \<Rightarrow> ret False
     | EvHeartbeat hb \<Rightarrow> bindm (applyHeartbeat i hb now) (\<lambda>_. ret False)
     | EvResult k _ _ \<Rightarrow> locked (peek (\<lambda>m. mg_pending m k))
     | EvSegments _ \<Rightarrow> locked (peek (\<lambda>m. mg_query m i \<noteq> None))
     | EvOther \<Rightarrow> ret False)"

section \<open>The upload of an archive\<close>

type_synonym session_owners = "(string \<Rightarrow> string option) option"

definition authorizeImport :: "session_owners \<Rightarrow> probe_db \<Rightarrow> string \<Rightarrow> string \<Rightarrow> bool" where
  "authorizeImport sessions db i sid =
    (if sid = [] then False
     else (case sessions of
         None \<Rightarrow> True
       | Some owner_of \<Rightarrow>
          (case owner_of sid of
             None \<Rightarrow> False
           | Some o0 \<Rightarrow>
              (let o1 = (if o0 = [] then AnonymousOwner else o0) in
               (case GetProbe db i of None \<Rightarrow> False | Some p \<Rightarrow> pb_owner p = o1)))))"

datatype 'p chunk = Final | Chunk string "'p option"

datatype upload_err = UNoToken | UNoHub | UNotImportable string

text \<open>The chunks until the end of the stream; the target is that of the first chunk that is not final.  The result
  holds the packets handed to the hub, with their session, and the number the hub took.\<close>

fun upload_loop ::
  "(string \<Rightarrow> bool) \<Rightarrow> (string \<Rightarrow> 'p \<Rightarrow> nat) \<Rightarrow> string option \<Rightarrow> nat \<Rightarrow> 'p chunk list \<Rightarrow> (upload_err + nat) \<times> (string \<times> 'p) list" where
  "upload_loop ok hub tgt n [] = (Inr n, [])"
| "upload_loop ok hub tgt n (Final # cs) = upload_loop ok hub tgt n cs"
| "upload_loop ok hub tgt n (Chunk t p # cs) =
    (let t1 = (case tgt of Some x \<Rightarrow> x | None \<Rightarrow> t) in
     if tgt = None \<and> \<not> ok t1 then (Inl (UNotImportable t1), [])
     else (case p of
         None \<Rightarrow> upload_loop ok hub (Some t1) n cs
       | Some x \<Rightarrow> (case upload_loop ok hub (Some t1) (n + hub t1 x) cs of (r, ps) \<Rightarrow> (r, (t1, x) # ps))))"

definition UploadArchive ::
  "identity \<Rightarrow> session_owners \<Rightarrow> probe_db \<Rightarrow> (string \<Rightarrow> 'p \<Rightarrow> nat) option \<Rightarrow> 'p chunk list \<Rightarrow> (upload_err + nat) \<times> (string \<times> 'p) list" where
  "UploadArchive ident sessions db hub cs =
    (if id_probe ident = [] then (Inl UNoToken, [])
     else (case hub of None \<Rightarrow> (Inl UNoHub, [])
       | Some h \<Rightarrow> upload_loop (authorizeImport sessions db (id_probe ident)) h None 0 cs))"

end
