(* ===== verification/Probe_Props.thy ===== *)
theory Probe_Props imports Probe_Server begin

text \<open>
  When the calls of the probe manager return, what a stream that ends late does to its successor, and what the
  registration of a probe means for its owner and for everyone else.
\<close>

section \<open>When calls return\<close>

lemmas run_defs = ret_def bindm_def act_def peek_def lock_def unlock_def locked_def

text \<open>With the mutex held the next command id is never handed out.\<close>

lemma nextCmdID_held: "mg_locked m \<Longrightarrow> nextCmdID m = (None, m)"
  by (simp add: nextCmdID_def run_defs)

lemma held_blocks: "mg_locked m \<Longrightarrow> locked p m = (None, m)"
  by (simp add: run_defs)

definition needs_command :: "mgr \<Rightarrow> string \<Rightarrow> bool \<Rightarrow> bool" where
  "needs_command m i force \<longleftrightarrow> mg_conns m i \<noteq> None \<and>
     (case mg_desired m i of
        Some d \<Rightarrow> ds_session d \<noteq> [] \<and> (force \<or> \<not> capturing (latest_of m i) \<or> rs_session (latest_of m i) \<noteq> ds_session d)
      | None \<Rightarrow> capturing (latest_of m i))"

lemma syncLocked_held:
  assumes "mg_locked m"
  shows "probeSyncLocked i force m = (if needs_command m i force then None else Some (), m)"
  using nextCmdID_held [OF assms]
  by (auto simp: probeSyncLocked_def needs_command_def bindm_def ret_def Let_def split: option.splits)

lemma sel_upd [simp]:
  "latest_of (m\<lparr>mg_desired := d\<rparr>) i = latest_of m i" "latest_of (m\<lparr>mg_locked := b\<rparr>) i = latest_of m i"
  "latest_of (m\<lparr>mg_conns := c\<rparr>) i = latest_of m i" "latest_of (cancel_conn c' m) i = latest_of m i"
  "mg_conns (cancel_conn c' m) = mg_conns m" "mg_desired (cancel_conn c' m) = mg_desired m"
  "mg_locked (cancel_conn c' m) = mg_locked m" "mg_db (cancel_conn c' m) = mg_db m"
  by (simp_all add: latest_of_def cancel_conn_def)

lemma needs_upd [simp]: "needs_command (m\<lparr>mg_locked := b\<rparr>) i force = needs_command m i force"
  by (simp add: needs_command_def split: option.splits)

lemma StartCapture_run:
  assumes "\<not> mg_locked m" "GetProbe (mg_db m) i = Some p"
  shows "StartCapture i d m =
    (if needs_command (m\<lparr>mg_desired := (mg_desired m)(i \<mapsto> d)\<rparr>) i False
     then (None, m\<lparr>mg_locked := True, mg_desired := (mg_desired m)(i \<mapsto> d)\<rparr>)
     else (Some (Inr ()), m\<lparr>mg_locked := False, mg_desired := (mg_desired m)(i \<mapsto> d)\<rparr>))"
  using assms by (simp add: StartCapture_def with_probe_def run_defs syncLocked_held needs_command_def)

lemma StopCapture_run:
  assumes "\<not> mg_locked m" "GetProbe (mg_db m) i = Some p"
  shows "StopCapture i m =
    (if mg_conns m i \<noteq> None \<and> capturing (latest_of m i)
     then (None, m\<lparr>mg_locked := True, mg_desired := (mg_desired m)(i := None)\<rparr>)
     else (Some (Inr (rs_session (pb_status p))), m\<lparr>mg_locked := False, mg_desired := (mg_desired m)(i := None)\<rparr>))"
  using assms by (simp add: StopCapture_def with_probe_def run_defs syncLocked_held needs_command_def)

lemma Retry_run:
  assumes "\<not> mg_locked m" "GetProbe (mg_db m) i = Some p"
  shows "Retry i m =
    (if mg_desired m i = None then (Some (Inl ENoRetry), m\<lparr>mg_locked := False\<rparr>)
     else if needs_command m i True then (None, m\<lparr>mg_locked := True\<rparr>)
     else (Some (Inr ()), m\<lparr>mg_locked := False\<rparr>))"
  using assms by (auto simp: Retry_def with_probe_def run_defs syncLocked_held split: option.splits)

definition reconnected :: "string \<Rightarrow> nat \<Rightarrow> mgr \<Rightarrow> mgr" where
  "reconnected i s m = (case mg_conns m i of Some old \<Rightarrow> cancel_conn old m | None \<Rightarrow> m)
     \<lparr>mg_conns := (mg_conns m)(i \<mapsto> \<lparr>cn_send = [], cn_stream = s\<rparr>)\<rparr>"

lemma reconnected_sel [simp]:
  "mg_conns (reconnected i s m) = (mg_conns m)(i \<mapsto> \<lparr>cn_send = [], cn_stream = s\<rparr>)"
  "mg_desired (reconnected i s m) = mg_desired m" "latest_of (reconnected i s m) j = latest_of m j"
  "mg_locked (reconnected i s m) = mg_locked m" "mg_db (reconnected i s m) = mg_db m"
  by (simp_all add: reconnected_def split: option.splits)

lemma openConn_run:
  assumes "\<not> mg_locked m"
  shows "openConn i s m = (if needs_command (reconnected i s m) i False then (None, (reconnected i s m)\<lparr>mg_locked := True\<rparr>)
    else (Some True, (reconnected i s m)\<lparr>mg_locked := False\<rparr>))"
proof -
  let ?m = "m\<lparr>mg_locked := True\<rparr>"
  let ?m1 = "case mg_conns m i of Some old \<Rightarrow> cancel_conn old ?m | None \<Rightarrow> ?m"
  have u: "?m1\<lparr>mg_conns := (mg_conns m)(i \<mapsto> \<lparr>cn_send = [], cn_stream = s\<rparr>)\<rparr> = (reconnected i s m)\<lparr>mg_locked := True\<rparr>"
    by (simp add: reconnected_def cancel_conn_def split: option.splits)
  have c: "mg_conns ?m1 = mg_conns m" by (simp split: option.splits)
  have "openConn i s m = (case probeSyncLocked i False ((reconnected i s m)\<lparr>mg_locked := True\<rparr>) of
      (None, m2) \<Rightarrow> (None, m2) | (Some _, m2) \<Rightarrow> (Some True, m2\<lparr>mg_locked := False\<rparr>))"
    using assms by (simp only: openConn_def run_defs if_False prod.case option.case) (simp add: u c run_defs split: option.splits prod.splits)
  then show ?thesis by (simp add: syncLocked_held)
qed

lemma QueryArchive_blocks:
  assumes "\<not> mg_locked m" "mg_conns m i = Some c"
  shows "QueryArchive i f t ch reply m = (None, m\<lparr>mg_locked := True, mg_query := (mg_query m)(i \<mapsto> ch)\<rparr>)"
proof -
  have "nextCmdID (m\<lparr>mg_locked := True, mg_query := (mg_query m)(i \<mapsto> ch)\<rparr>) = (None, m\<lparr>mg_locked := True, mg_query := (mg_query m)(i \<mapsto> ch)\<rparr>)"
    by (rule nextCmdID_held) simp
  then show ?thesis using assms by (simp add: QueryArchive_def run_defs)
qed

lemma QueryArchive_offline:
  assumes "\<not> mg_locked m" "mg_conns m i = None"
  shows "QueryArchive i f t ch reply m = (Some (Inl (EOffline i)), m\<lparr>mg_locked := False\<rparr>)"
  using assms by (simp add: QueryArchive_def run_defs)

text \<open>A call that would send a command to a probe never returns: it asks for the next command id while it holds the
  mutex which the id is drawn under.  On a manager nobody holds, opening a stream, starting, stopping and retrying a
  capture return exactly when no command is due, a query of the archive exactly when the probe is offline; and a call
  that does not return leaves the mutex locked, so that no later critical section of any call is ever entered.\<close>

theorem probe_calls_return_iff:
  assumes free: "\<not> mg_locked m" and known: "GetProbe (mg_db m) i = Some p"
  shows "(fst (openConn i s m) \<noteq> None \<longleftrightarrow> \<not> needs_command (reconnected i s m) i False) \<and>
    (fst (StartCapture i d m) \<noteq> None \<longleftrightarrow> \<not> needs_command (m\<lparr>mg_desired := (mg_desired m)(i \<mapsto> d)\<rparr>) i False) \<and>
    (fst (StopCapture i m) \<noteq> None \<longleftrightarrow> mg_conns m i = None \<or> \<not> capturing (latest_of m i)) \<and>
    (fst (Retry i m) \<noteq> None \<longleftrightarrow> mg_desired m i = None \<or> \<not> needs_command m i True) \<and>
    (fst (QueryArchive i f t ch reply m) \<noteq> None \<longleftrightarrow> mg_conns m i = None) \<and>
    (fst (StartCapture i d m) = None \<longrightarrow> locked q (snd (StartCapture i d m)) = (None, snd (StartCapture i d m))) \<and>
    (fst (QueryArchive i f t ch reply m) = None \<longrightarrow>
       locked q2 (snd (QueryArchive i f t ch reply m)) = (None, snd (QueryArchive i f t ch reply m)))"
proof -
  have q: "fst (QueryArchive i f t ch reply m) \<noteq> None \<longleftrightarrow> mg_conns m i = None"
    using QueryArchive_blocks [OF free] QueryArchive_offline [OF free] by (cases "mg_conns m i") simp_all
  have ql: "fst (QueryArchive i f t ch reply m) = None \<Longrightarrow> mg_locked (snd (QueryArchive i f t ch reply m))"
    using QueryArchive_blocks [OF free] QueryArchive_offline [OF free] by (cases "mg_conns m i") simp_all
  have sl: "fst (StartCapture i d m) = None \<Longrightarrow> mg_locked (snd (StartCapture i d m))"
    using StartCapture_run [OF free known] by (simp split: if_splits)
  show ?thesis
    using q held_blocks [OF ql] held_blocks [OF sl]
    by (auto simp: openConn_run [OF free] StartCapture_run [OF free known] StopCapture_run [OF free known] Retry_run [OF free known]
        simp del: not_None_eq split: if_splits)
qed

lemma latest_running: "GetProbe db i = Some p \<Longrightarrow> \<not> mg_locked (NewManager db)"
  by (simp add: NewManager_def)

definition sample_probe :: probe_meta where
  "sample_probe = \<lparr>pb_id = ''prb_1'', pb_name = ''box'', pb_owner = ''bob'', pb_tenant = ''default'', pb_caps = ''pcap'', pb_hash = ''h'',
     pb_version = [], pb_hostname = ''box'', pb_os = [], pb_arch = [], pb_status = no_status, pb_created = 1\<rparr>"

definition sample_mgr :: mgr where
  "sample_mgr = (NewManager \<lparr>pd_probes = [sample_probe], pd_segments = []\<rparr>)\<lparr>mg_conns := [''prb_1'' \<mapsto> \<lparr>cn_send = [], cn_stream = 1\<rparr>]\<rparr>"

definition sample_desired :: desired where
  "sample_desired = \<lparr>ds_session = ''s1'', ds_iface = [], ds_ports = [], ds_hosts = [], ds_bpf = [], ds_snaplen = 0, ds_promisc = False\<rparr>"

lemma probe_calls_return_iff_witness:
  "fst (StartCapture ''prb_1'' sample_desired sample_mgr) = None \<and> fst (StopCapture ''prb_1'' sample_mgr) \<noteq> None \<and>
   fst (Online ''prb_1'' (snd (StartCapture ''prb_1'' sample_desired sample_mgr))) = None"
proof -
  have f: "\<not> mg_locked sample_mgr" by (simp add: sample_mgr_def NewManager_def)
  have k: "GetProbe (mg_db sample_mgr) ''prb_1'' = Some (scanProbe sample_probe)"
    by (simp add: sample_mgr_def NewManager_def GetProbe_def sample_probe_def)
  note r = probe_calls_return_iff [OF f k, where d = sample_desired]
  have n: "needs_command (sample_mgr\<lparr>mg_desired := (mg_desired sample_mgr)(''prb_1'' \<mapsto> sample_desired)\<rparr>) ''prb_1'' False"
    by (simp add: needs_command_def sample_mgr_def NewManager_def latest_of_def no_status_def capturing_def sample_desired_def)
  have s: "\<not> capturing (latest_of sample_mgr ''prb_1'')"
    by (simp add: sample_mgr_def NewManager_def latest_of_def no_status_def capturing_def)
  have b: "fst (StartCapture ''prb_1'' sample_desired sample_mgr) = None" using r n by blast
  moreover have "fst (StopCapture ''prb_1'' sample_mgr) \<noteq> None" using r s by blast
  moreover have "Online ''prb_1'' (snd (StartCapture ''prb_1'' sample_desired sample_mgr)) = (None, snd (StartCapture ''prb_1'' sample_desired sample_mgr))"
    unfolding Online_def using r [where q = "peek (\<lambda>m. mg_conns m ''prb_1'' \<noteq> None)"] b by blast
  ultimately show ?thesis by simp
qed

section \<open>A stream that ends late\<close>

lemma find_on_probe:
  assumes "\<And>p. pb_id (f p) = pb_id p"
  shows "find (\<lambda>p. pb_id p = i) (pd_probes (on_probe i f db)) = map_option f (find (\<lambda>p. pb_id p = i) (pd_probes db))"
proof -
  have "find (\<lambda>p. pb_id p = i) (map (\<lambda>p. if pb_id p = i then f p else p) ps) = map_option f (find (\<lambda>p. pb_id p = i) ps)" for ps
    by (induction ps) (simp_all add: assms)
  then show ?thesis by (simp add: on_probe_def)
qed

lemma scanProbe_connection [simp]: "rs_connection (pb_status (scanProbe p)) = rs_connection (pb_status p)"
  by (simp add: scanProbe_def)

lemma SetProbeConnection_connection:
  "GetProbe db i \<noteq> None \<Longrightarrow> map_option (\<lambda>p. rs_connection (pb_status p)) (GetProbe (SetProbeConnection i st t db) i) = Some st"
  "GetProbe db i \<noteq> None \<Longrightarrow> GetProbe (SetProbeConnection i st t db) i \<noteq> None"
  unfolding GetProbe_def SetProbeConnection_def by (auto simp: find_on_probe option.map_comp comp_def)

text \<open>When a probe reconnects before its old stream has ended, the end of the old stream closes the new one: it drops
  the connection of the probe, whichever it is, cancels it and marks the probe offline.\<close>

theorem late_close_drops_new_stream:
  assumes free: "\<not> mg_locked m" and idle: "mg_desired m i = None" "\<not> capturing (latest_of m i)"
  shows "let r = bindm (connect_open i s1 t1) (\<lambda>_. bindm (connect_open i s2 t2) (\<lambda>_. closeConn i t3)) m in
    fst r = Some () \<and> s2 \<in> set (mg_cancelled (snd r)) \<and> fst (Online i (snd r)) = Some False \<and>
    (GetProbe (mg_db m) i \<noteq> None \<longrightarrow> map_option (\<lambda>p. rs_connection (pb_status p)) (GetProbe (mg_db (snd r)) i) = Some ''offline'')"
proof -
  have o1: "connect_open i s t m' = (Some (), (reconnected i s m')\<lparr>mg_locked := False, mg_db := SetProbeConnection i ''online'' t (mg_db m')\<rparr>)"
    if "\<not> mg_locked m'" "mg_desired m' i = None" "\<not> capturing (latest_of m' i)" for m' s t
    using that by (simp add: connect_open_def bindm_def openConn_run needs_command_def on_db_def act_def)
  define m1 where "m1 = (reconnected i s1 m)\<lparr>mg_locked := False, mg_db := SetProbeConnection i ''online'' t1 (mg_db m)\<rparr>"
  define m2 where "m2 = (reconnected i s2 m1)\<lparr>mg_locked := False, mg_db := SetProbeConnection i ''online'' t2 (mg_db m1)\<rparr>"
  have l1: "latest_of m1 i = latest_of m i" by (simp add: m1_def latest_of_def reconnected_def cancel_conn_def split: option.splits)
  have c1: "connect_open i s1 t1 m = (Some (), m1)" unfolding m1_def by (rule o1 [OF free idle])
  have c2: "connect_open i s2 t2 m1 = (Some (), m2)" unfolding m2_def
    by (rule o1) (use idle l1 in \<open>simp_all add: m1_def\<close>)
  have conn: "mg_conns m2 i = Some \<lparr>cn_send = [], cn_stream = s2\<rparr>" "\<not> mg_locked m2" by (simp_all add: m2_def)
  let ?m3 = "(drop_conn i m2)\<lparr>mg_locked := False, mg_db := SetProbeConnection i ''offline'' t3 (mg_db m2)\<rparr>"
  have d: "drop_conn i (m2\<lparr>mg_locked := True\<rparr>) = (drop_conn i m2)\<lparr>mg_locked := True\<rparr>"
    "mg_db (drop_conn i m2) = mg_db m2"
    using conn by (simp_all add: drop_conn_def cancel_conn_def)
  have c3: "closeConn i t3 m2 = (Some (), ?m3)"
    using conn(2) by (simp add: closeConn_def run_defs d on_db_def)
  have r: "bindm (connect_open i s1 t1) (\<lambda>_. bindm (connect_open i s2 t2) (\<lambda>_. closeConn i t3)) m = (Some (), ?m3)"
    by (simp add: bindm_def c1 c2 c3)
  have "s2 \<in> set (mg_cancelled ?m3)" "mg_conns ?m3 i = None"
    using conn by (simp_all add: drop_conn_def cancel_conn_def)
  then show ?thesis unfolding r Let_def
    by (simp add: m2_def m1_def Online_def run_defs SetProbeConnection_connection)
qed

lemma late_close_drops_new_stream_witness:
  "let r = bindm (connect_open ''prb_1'' 7 1) (\<lambda>_. bindm (connect_open ''prb_1'' 8 2) (\<lambda>_. closeConn ''prb_1'' 3)) sample_mgr in
    8 \<in> set (mg_cancelled (snd r)) \<and> fst (Online ''prb_1'' (snd r)) = Some False"
proof -
  have f: "\<not> mg_locked sample_mgr" "mg_desired sample_mgr ''prb_1'' = None" by (simp_all add: sample_mgr_def NewManager_def)
  have s: "\<not> capturing (latest_of sample_mgr ''prb_1'')"
    by (simp add: sample_mgr_def NewManager_def latest_of_def no_status_def capturing_def)
  from late_close_drops_new_stream [OF f s, of 7 1 8 2 3] show ?thesis unfolding Let_def by blast
qed

end
