(* ===== verification/Probe_Register.thy ===== *)
theory Probe_Register imports Probe_Props begin

text \<open>
  What the registration of a probe means: the token handed out is that of the probe, the probe belongs to the caller, no
  other probe changes, and an anonymous deployment is closed to everyone without a token from the first one on.
\<close>

lemma scanProbe_sel [simp]:
  "pb_id (scanProbe p) = pb_id p" "pb_owner (scanProbe p) = pb_owner p" "pb_hash (scanProbe p) = pb_hash p" "pb_tenant (scanProbe p) = pb_tenant p"
  by (simp_all add: scanProbe_def)

lemma find_SomeD: "find P xs = Some x \<Longrightarrow> x \<in> set xs \<and> P x"
  by (induction xs) (auto split: if_splits)

lemma set_ListProbes: "set (ListProbes db) = scanProbe ` set (pd_probes db)"
  by (simp add: ListProbes_def)

lemma GetProbe_member: "GetProbe db i = Some p \<Longrightarrow> \<exists>q \<in> set (pd_probes db). pb_id q = i \<and> pb_owner q = pb_owner p"
  by (auto simp: GetProbe_def dest!: find_SomeD)

lemma same_machine_member:
  assumes "same_machine db o1 host \<noteq> []"
  shows "\<exists>q \<in> set (pd_probes db). pb_id q = same_machine db o1 host \<and> pb_owner q = o1"
proof -
  obtain p where p: "find (\<lambda>p. pb_owner p = o1 \<and> pb_hostname p = host \<and> host \<noteq> []) (ListProbes db) = Some p"
    and s: "same_machine db o1 host = pb_id p"
    using assms by (auto simp: same_machine_def split: option.splits)
  from find_SomeD [OF p] have "p \<in> scanProbe ` set (pd_probes db)" "pb_owner p = o1" by (auto simp: set_ListProbes)
  then show ?thesis unfolding s by auto
qed

text \<open>The id a registration uses: that of a probe of the caller, or a new one.\<close>

lemma RegisterProbe_run:
  assumes "RegisterProbe sha ident rq rnd fb tr now db = (Inr (pid, token), db')"
  shows "token \<noteq> []" and "\<exists>m. db' = UpsertProbe m now db \<and> pb_id m = pid \<and> pb_owner m = id_owner ident \<and> pb_hash m = sha token"
    and "pid = newProbeID rnd fb \<or> (\<exists>q \<in> set (pd_probes db). pb_id q = pid \<and> pb_owner q = id_owner ident)"
proof -
  let ?prev = "GetProbe db (rq_prev rq)"
  let ?i0 = "if ?prev = None then [] else rq_prev rq"
  let ?i1 = "if ?i0 = [] then same_machine db (id_owner ident) (rq_hostname rq) else ?i0"
  have own: "\<not> (case ?prev of Some old \<Rightarrow> pb_owner old \<noteq> id_owner ident | None \<Rightarrow> False)"
    using assms by (auto simp: RegisterProbe_def Let_def split: if_splits)
  then obtain tok h where t: "newProbeToken sha tr = Some (tok, h)" using assms
    by (auto simp: RegisterProbe_def Let_def split: if_splits option.splits)
  have h: "h = sha tok" "tok \<noteq> []" using t by (auto simp: newProbeToken_def Let_def)
  have pid: "pid = (if ?i1 = [] then newProbeID rnd fb else ?i1)" and tk: "token = tok"
    using assms own t unfolding RegisterProbe_def Let_def by (simp_all only: if_False option.case prod.case fst_conv snd_conv prod.inject sum.inject)
  show "token \<noteq> []" using h tk by simp
  show "\<exists>m. db' = UpsertProbe m now db \<and> pb_id m = pid \<and> pb_owner m = id_owner ident \<and> pb_hash m = sha token"
    using assms own t unfolding RegisterProbe_def Let_def tk h(1)
    by (simp only: if_False option.case prod.case prod.inject sum.inject) (auto intro!: exI)
  show "pid = newProbeID rnd fb \<or> (\<exists>q \<in> set (pd_probes db). pb_id q = pid \<and> pb_owner q = id_owner ident)"
  proof (cases "?i1 = []")
    case False
    then have "\<exists>q \<in> set (pd_probes db). pb_id q = ?i1 \<and> pb_owner q = id_owner ident"
      using own GetProbe_member [of db "rq_prev rq"] same_machine_member [of db "id_owner ident" "rq_hostname rq"]
      by (cases ?prev) (auto split: if_splits)
    then show ?thesis using pid False by simp
  qed (use pid in simp)
qed

section \<open>The registered probe\<close>

lemma UpsertProbe_members:
  assumes "p \<in> set (pd_probes (UpsertProbe m now db))" "pb_id p = pb_id m"
  shows "pb_hash p = pb_hash m" and "(\<exists>q \<in> set (pd_probes db). pb_id q = pb_id m \<and> pb_owner q = pb_owner p) \<or>
    (pb_owner p = pb_owner m \<and> (\<forall>q \<in> set (pd_probes db). pb_id q \<noteq> pb_id m))"
  using assms by (auto simp: UpsertProbe_def Let_def list_ex_iff split: if_splits)

lemma UpsertProbe_others:
  assumes "p \<in> set (pd_probes (UpsertProbe m now db))" "pb_id p \<noteq> pb_id m"
  shows "p \<in> set (pd_probes db)"
  using assms by (auto simp: UpsertProbe_def Let_def split: if_splits)

lemma UpsertProbe_keeps_others:
  assumes "p \<in> set (pd_probes db)" "pb_id p \<noteq> pb_id m"
  shows "p \<in> set (pd_probes (UpsertProbe m now db))"
  using assms by (auto simp: UpsertProbe_def Let_def rev_image_eqI)

lemma UpsertProbe_present: "\<exists>p \<in> set (pd_probes (UpsertProbe m now db)). pb_id p = pb_id m"
proof (cases "\<exists>q \<in> set (pd_probes db). pb_id q = pb_id m")
  case True
  then obtain q where q: "q \<in> set (pd_probes db)" "pb_id q = pb_id m" by blast
  let ?f = "\<lambda>p. if pb_id p = pb_id m then p\<lparr>pb_name := pb_name m, pb_caps := pb_caps m, pb_hash := pb_hash m,
    pb_version := pb_version m, pb_hostname := pb_hostname m, pb_os := pb_os m, pb_arch := pb_arch m\<rparr> else p"
  have "pd_probes (UpsertProbe m now db) = map ?f (pd_probes db)" using True by (simp add: UpsertProbe_def Let_def list_ex_iff)
  then have "?f q \<in> set (pd_probes (UpsertProbe m now db))" using q(1) by (simp only: set_map) (rule imageI)
  moreover have "pb_id (?f q) = pb_id m" using q(2) by simp
  ultimately show ?thesis by (rule bexI [rotated])
qed (auto simp: UpsertProbe_def Let_def list_ex_iff)

lemma find_present: "\<exists>x \<in> set xs. P x \<Longrightarrow> \<exists>y. find P xs = Some y"
  by (induction xs) auto

text \<open>C39: When the probe ids are unique and the new id and the token's hash are not in use, the token a registration hands out
  authenticates as the caller and as the probe registered, no token with another hash authenticates as that probe any
  more, and every other probe stays as it was.\<close>

theorem registered_probe_token:
  assumes reg: "RegisterProbe sha ident rq rnd fb tr now db = (Inr (pid, token), db')"
    and ids: "distinct (map pb_id (pd_probes db))" "newProbeID rnd fb \<notin> pb_id ` set (pd_probes db)"
    and fresh: "sha token \<noteq> []" "sha token \<notin> pb_hash ` set (pd_probes db)"
  shows "map_option (\<lambda>i. (id_owner i, id_probe i, id_admin i)) (AuthResolve sha db' token) = Some (id_owner ident, pid, False) \<and>
    (\<forall>t. map_option id_probe (AuthResolve sha db' t) \<noteq> Some pid \<or> sha t = sha token) \<and>
    {p \<in> set (pd_probes db'). pb_id p \<noteq> pid} = {p \<in> set (pd_probes db). pb_id p \<noteq> pid}"
proof -
  from RegisterProbe_run [OF reg] obtain m where ne: "token \<noteq> []" and db': "db' = UpsertProbe m now db"
    and m: "pb_id m = pid" "pb_owner m = id_owner ident" "pb_hash m = sha token"
    and src: "pid = newProbeID rnd fb \<or> (\<exists>q \<in> set (pd_probes db). pb_id q = pid \<and> pb_owner q = id_owner ident)" by blast
  have owner: "pb_owner p = id_owner ident" if p: "p \<in> set (pd_probes db')" "pb_id p = pid" for p
  proof -
    from UpsertProbe_members(2) [of p m now db] p m(1,2)
    consider q where "q \<in> set (pd_probes db)" "pb_id q = pid" "pb_owner q = pb_owner p" | "pb_owner p = id_owner ident"
      by (auto simp: db')
    then show ?thesis
    proof cases
      case 1
      then have "pid \<noteq> newProbeID rnd fb" using ids(2) by (metis image_eqI)
      then obtain q' where "q' \<in> set (pd_probes db)" "pb_id q' = pid" "pb_owner q' = id_owner ident" using src by blast
      moreover from this(1,2) 1(1,2) ids(1) have "q' = q" by (auto simp: distinct_map inj_on_def)
      ultimately show ?thesis using 1(3) by simp
    qed
  qed
  have hash: "pb_id p = pid \<longleftrightarrow> pb_hash p = sha token" if p: "p \<in> set (pd_probes db')" for p
  proof
    show "pb_hash p = sha token" if "pb_id p = pid"
      using UpsertProbe_members(1) [of p m now db] p m(1,3) that unfolding db' by simp
    show "pb_id p = pid" if "pb_hash p = sha token"
    proof (rule ccontr)
      assume "pb_id p \<noteq> pid"
      then have "p \<in> set (pd_probes db)" using UpsertProbe_others [of p m now db] p m(1) unfolding db' by simp
      then show False using fresh(2) that by (metis image_eqI)
    qed
  qed
  have "\<exists>p \<in> set (pd_probes db'). pb_hash p = sha token"
    using UpsertProbe_present [of m now db] hash unfolding db' m(1) by blast
  from find_present [OF this] obtain p where f: "find (\<lambda>p. pb_hash p = sha token) (pd_probes db') = Some p" by (rule exE)
  from find_SomeD [OF f] have p: "p \<in> set (pd_probes db')" "pb_hash p = sha token" by auto
  have "AuthResolve sha db' token = Some \<lparr>id_owner = pb_owner p, id_admin = False, id_tenant = pb_tenant p, id_probe = pb_id p\<rparr>"
    using ne fresh(1) f by (simp add: AuthResolve_def GetProbeByTokenHash_def)
  moreover have "pb_owner p = id_owner ident" "pb_id p = pid" using owner hash p by auto
  moreover have "map_option id_probe (AuthResolve sha db' t) \<noteq> Some pid \<or> sha t = sha token" for t
  proof (rule disjCI)
    assume "sha t \<noteq> sha token"
    show "map_option id_probe (AuthResolve sha db' t) \<noteq> Some pid"
    proof
      assume "map_option id_probe (AuthResolve sha db' t) = Some pid"
      then obtain x where x: "find (\<lambda>p. pb_hash p = sha t) (pd_probes db') = Some x" "pb_id x = pid"
        by (auto simp: AuthResolve_def GetProbeByTokenHash_def split: if_splits)
      with find_SomeD [OF x(1)] hash \<open>sha t \<noteq> sha token\<close> show False by auto
    qed
  qed
  moreover have "{p \<in> set (pd_probes db'). pb_id p \<noteq> pid} = {p \<in> set (pd_probes db). pb_id p \<noteq> pid}"
    using UpsertProbe_others [of _ m now db] UpsertProbe_keeps_others [of _ db m now] unfolding db' m(1) by blast
  ultimately show ?thesis by simp
qed

definition sample_rq :: reg_request where
  "sample_rq = \<lparr>rq_prev = [], rq_name = [], rq_hostname = ''box'', rq_caps = [], rq_version = [], rq_os = [], rq_arch = []\<rparr>"

definition sample_identity :: identity where
  "sample_identity = \<lparr>id_owner = ''bob'', id_admin = False, id_tenant = [], id_probe = []\<rparr>"

lemma registered_probe_token_witness:
  "let db = \<lparr>pd_probes = [sample_probe], pd_segments = []\<rparr>; r = RegisterProbe (\<lambda>t. t) sample_identity sample_rq (Some [1]) [] (Some [2]) 5 db in
   fst r = Inr (''prb_1'', ''gt_prb_02'') \<and>
   map_option (\<lambda>i. (id_owner i, id_probe i, id_admin i)) (AuthResolve (\<lambda>t. t) (snd r) ''gt_prb_02'') = Some (''bob'', ''prb_1'', False)"
proof -
  let ?db = "\<lparr>pd_probes = [sample_probe], pd_segments = []\<rparr>"
  let ?r = "RegisterProbe (\<lambda>t. t) sample_identity sample_rq (Some [1]) [] (Some [2]) 5 ?db"
  have "isl (fst ?r) = False" "projr (fst ?r) = (''prb_1'', ''gt_prb_02'')" by (code_simp, code_simp)
  then have f: "fst ?r = Inr (''prb_1'', ''gt_prb_02'')" by (metis sum.collapse(2))
  then have r: "?r = (Inr (''prb_1'', ''gt_prb_02''), snd ?r)" by (metis prod.collapse)
  have "distinct (map pb_id (pd_probes ?db))" "newProbeID (Some [1]) [] \<notin> pb_id ` set (pd_probes ?db)"
    "(\<lambda>t :: string. t) ''gt_prb_02'' \<noteq> []" "(\<lambda>t. t) ''gt_prb_02'' \<notin> pb_hash ` set (pd_probes ?db)"
    by (simp_all add: sample_probe_def newProbeID_def hex_bytes_def hex_digit_def)
  from registered_probe_token [OF r this] have "map_option (\<lambda>i. (id_owner i, id_probe i, id_admin i)) (AuthResolve (\<lambda>t. t) (snd ?r) ''gt_prb_02'') =
    Some (id_owner sample_identity, ''prb_1'', False)" by blast
  moreover have "id_owner sample_identity = ''bob''" by (simp add: sample_identity_def)
  ultimately show ?thesis using f unfolding Let_def by metis
qed

section \<open>A probe in an anonymous deployment\<close>

text \<open>Without configured tokens, users and probes every call is that of the anonymous owner; with the first probe
  registered, by an agent without a token, every token but that of the probe, and no token at all, is refused.\<close>

theorem first_probe_closes_anonymous_service:
  assumes users: "\<not> HasUsers udb" and none: "pd_probes db = []"
    and reg: "RegisterProbe sha ident rq rnd fb tr now db = (Inr (pid, token), db')" and h: "sha token \<noteq> []"
  shows "first_resolve \<lparr>fr_primary = [], fr_db = udb, fr_extra = [(AuthResolve sha db, AuthRequired db)]\<rparr> t =
      Some (plain_identity AnonymousOwner False) \<and>
    (t = [] \<or> sha t \<noteq> sha token \<longrightarrow>
      first_resolve \<lparr>fr_primary = [], fr_db = udb, fr_extra = [(AuthResolve sha db', AuthRequired db')]\<rparr> t = None)"
proof -
  let ?r0 = "\<lparr>fr_primary = [], fr_db = udb, fr_extra = [(AuthResolve sha db, AuthRequired db)]\<rparr>"
  have nobody: "AuthResolve sha db = (\<lambda>_. None)" by (rule ext) (simp add: AuthResolve_def GetProbeByTokenHash_def none)
  have udb: "db_resolve udb t = None" using users by (cases udb) (auto simp: db_resolve_def HasUsers_def)
  have "\<not> first_required ?r0"
    using users by (simp add: first_required_def Required_def AuthRequired_def ListProbes_def none)
  then have before: "first_resolve ?r0 t = Some (plain_identity AnonymousOwner False)"
    using udb by (simp add: first_resolve_def Required_def nobody)
  from RegisterProbe_run [OF reg] obtain m where db': "db' = UpsertProbe m now db" and m: "pb_hash m = sha token" by blast
  obtain x where x: "pd_probes db' = [x]" "pb_hash x = sha token"
    using m by (auto simp: db' UpsertProbe_def Let_def none)
  have req: "AuthRequired db'" by (simp add: AuthRequired_def ListProbes_def x(1))
  have "AuthResolve sha db' t = None" if "t = [] \<or> sha t \<noteq> sha token"
    using that by (auto simp: AuthResolve_def GetProbeByTokenHash_def x)
  with udb have "t = [] \<or> sha t \<noteq> sha token \<longrightarrow>
      first_resolve \<lparr>fr_primary = [], fr_db = udb, fr_extra = [(AuthResolve sha db', AuthRequired db')]\<rparr> t = None"
    by (simp add: first_resolve_def Required_def first_required_def req)
  with before show ?thesis by blast
qed

lemma first_probe_closes_anonymous_service_witness:
  "let db = \<lparr>pd_probes = [], pd_segments = []\<rparr>;
       r = RegisterProbe (\<lambda>t. t) (plain_identity AnonymousOwner False) sample_rq (Some [1]) [] (Some [2]) 5 db in
   first_resolve \<lparr>fr_primary = [], fr_db = NoDB, fr_extra = [(AuthResolve (\<lambda>t. t) db, AuthRequired db)]\<rparr> [] = Some (plain_identity AnonymousOwner False) \<and>
   first_resolve \<lparr>fr_primary = [], fr_db = NoDB, fr_extra = [(AuthResolve (\<lambda>t. t) (snd r), AuthRequired (snd r))]\<rparr> [] = None"
proof -
  let ?db = "\<lparr>pd_probes = [], pd_segments = []\<rparr>"
  let ?r = "RegisterProbe (\<lambda>t. t) (plain_identity AnonymousOwner False) sample_rq (Some [1]) [] (Some [2]) 5 ?db"
  have "isl (fst ?r) = False" "projr (fst ?r) = (''prb_01'', ''gt_prb_02'')" by (code_simp, code_simp)
  then have "fst ?r = Inr (''prb_01'', ''gt_prb_02'')" by (metis sum.collapse(2))
  then have r: "?r = (Inr (''prb_01'', ''gt_prb_02''), snd ?r)" by (metis prod.collapse)
  have "\<not> HasUsers NoDB" "pd_probes ?db = []" by (simp_all add: HasUsers_def)
  from first_probe_closes_anonymous_service [OF this r, of "[]"] show ?thesis by (simp add: Let_def)
qed

section \<open>Calls without a token\<close>

lemma AuthResolve_Nil: "AuthResolve sha db [] = None"
  by (simp add: AuthResolve_def)


text \<open>A service that started open stays open after its first user has appeared; one that started with a token does not let
  anybody in without one.\<close>

definition late_user :: user_row where
  "late_user = \<lparr>ur_owner = ''eve'', ur_is_admin = 0, ur_tenant = DefaultTenant, ur_created_by = [], ur_created_at = []\<rparr>"


end
