(* ===== verification/Plugin_Version.thy ===== *)
theory Plugin_Version imports Gt_Base begin

text \<open>
  What the registry reads of a plugin's manifest: version negotiation (\<open>pkg/plugin/version.go\<close>), the schema registry built
  from its declarations (\<open>pkg/plugin/manifest.go\<close>, \<open>pkg/schema/registry.go\<close>) and the text of a failed contract check
  (\<open>manager.go\<close>).  The plugin SDK is a module of its own: its functions are the fields of the record \<open>sdk\<close>, an
  argument of the definitions that call them.  A Go map that is iterated is an association list in the order of the visit.
\<close>

section \<open>The manifest, as far as it is read\<close>

record schema_field =
  sf_queryable :: bool
  sf_sensitive :: bool
  sf_type :: string
  sf_alias :: string

record schema_spec =
  ss_name :: string
  ss_version :: int
  ss_fields :: "(string \<times> schema_field option) list"

record manifest =
  mf_name :: string
  mf_protocol :: string
  mf_type :: string
  mf_api :: string
  mf_hints :: "string list"
  mf_schemas :: "schema_spec list"

record report =
  rt_errors :: bool
  rt_violations :: "string list"

text \<open>\<open>sdk_wire\<close> is \<open>Ref.Wire\<close>; the four predicates are those of \<open>schema.Type\<close>; \<open>sdk_check\<close> is the contract checker.\<close>

record sdk =
  sdk_parse :: "byte list \<Rightarrow> string + manifest"
  sdk_validate :: "manifest \<Rightarrow> string option"
  sdk_check :: "manifest \<Rightarrow> report option"
  sdk_wire :: "string \<Rightarrow> int \<Rightarrow> string"
  sdk_integer :: "string \<Rightarrow> bool"
  sdk_float :: "string \<Rightarrow> bool"
  sdk_bool :: "string \<Rightarrow> bool"
  sdk_string :: "string \<Rightarrow> bool"
  sdk_yaml :: "manifest \<Rightarrow> string + byte list"

section \<open>Version negotiation\<close>

definition ProtocolVersion :: string where "ProtocolVersion = ''v2''"
definition apiVersionPrefix :: string where "apiVersionPrefix = ''gta.decoder/''"

fun majorVersion :: "string \<Rightarrow> string" where
  "majorVersion [] = []"
| "majorVersion (c # v) = (if c = CHR ''.'' then [] else c # majorVersion v)"

definition ParseManifestAPIVersion :: "string \<Rightarrow> string" where
  "ParseManifestAPIVersion a =
    (if \<not> has_prefix a apiVersionPrefix then []
     else drop (length apiVersionPrefix) a)"

datatype version_err = VersionEmpty | VersionFormat string | VersionMismatch string string

definition CheckManifestVersion :: "manifest option \<Rightarrow> version_err option" where
  "CheckManifestVersion mo =
    (case mo of
       None \<Rightarrow> Some VersionEmpty
     | Some m \<Rightarrow>
        (if mf_api m = [] then Some VersionEmpty
         else (let declared = ParseManifestAPIVersion (mf_api m) in
           (if declared = [] then Some (VersionFormat (mf_api m))
            else if majorVersion declared \<noteq> majorVersion ProtocolVersion
            then Some (VersionMismatch declared ProtocolVersion)
            else None))))"

lemma majorVersion_takeWhile: "majorVersion v = takeWhile (\<lambda>c. c \<noteq> CHR ''.'') v"
  by (induction v) auto

text \<open>Accepted are exactly the versions of major 2: \<open>gta.decoder/v2\<close>, alone or followed by a dot and anything.\<close>

lemma CheckManifestVersion_None_iff:
  "CheckManifestVersion (Some m) = None \<longleftrightarrow>
     has_prefix (mf_api m) apiVersionPrefix \<and>
     majorVersion (drop (length apiVersionPrefix) (mf_api m)) = ProtocolVersion"
  by (auto simp: CheckManifestVersion_def ParseManifestAPIVersion_def Let_def has_prefix_iff ProtocolVersion_def apiVersionPrefix_def)

section \<open>The schema registry\<close>

record indexable_field =
  ix_path :: string
  ix_type :: string
  ix_alias :: string

record schema_decl =
  sd_id :: string
  sd_version :: int
  sd_fields :: "indexable_field list"

type_synonym schema_registry = "string \<Rightarrow> schema_decl option"

definition NewSchemaRegistry :: schema_registry where "NewSchemaRegistry = (\<lambda>_. None)"

definition schema_Register :: "schema_decl option \<Rightarrow> schema_registry \<Rightarrow> (unit + unit) \<times> schema_registry" where
  "schema_Register d r =
    (case d of
       None \<Rightarrow> (Inl (), r)
     | Some d \<Rightarrow> (if sd_id d = [] then (Inl (), r) else (Inr (), r(sd_id d \<mapsto> d))))"

definition schema_Lookup :: "schema_registry \<Rightarrow> string \<Rightarrow> schema_decl option" where
  "schema_Lookup r i = r i"

definition indexableType :: "sdk \<Rightarrow> string \<Rightarrow> string option" where
  "indexableType k t =
    (if sdk_integer k t then Some ''int''
     else if sdk_float k t then Some ''float''
     else if sdk_bool k t then Some ''bool''
     else if sdk_string k t then Some ''string''
     else None)"

fun indexableFieldsOf :: "sdk \<Rightarrow> (string \<times> schema_field option) list \<Rightarrow> indexable_field list" where
  "indexableFieldsOf k [] = []"
| "indexableFieldsOf k ((name, None) # fs) = indexableFieldsOf k fs"
| "indexableFieldsOf k ((name, Some f) # fs) =
    (if \<not> sf_queryable f \<or> sf_sensitive f then indexableFieldsOf k fs
     else (case indexableType k (sf_type f) of
         None \<Rightarrow> indexableFieldsOf k fs
       | Some typ \<Rightarrow>
           \<lparr>ix_path = name, ix_type = typ, ix_alias = (if sf_alias f = [] then name else sf_alias f)\<rparr>
             # indexableFieldsOf k fs))"

definition decl_of :: "sdk \<Rightarrow> schema_spec \<Rightarrow> schema_decl" where
  "decl_of k s = \<lparr>sd_id = sdk_wire k (ss_name s) (ss_version s), sd_version = ss_version s,
     sd_fields = indexableFieldsOf k (ss_fields s)\<rparr>"

definition ToSchemaRegistry :: "sdk \<Rightarrow> manifest option \<Rightarrow> schema_registry" where
  "ToSchemaRegistry k mo =
    (case mo of
       None \<Rightarrow> NewSchemaRegistry
     | Some m \<Rightarrow> foldl (\<lambda>r s. snd (schema_Register (Some (decl_of k s)) r)) NewSchemaRegistry (mf_schemas m))"

lemma schema_foldl:
  "foldl (\<lambda>r s. snd (schema_Register (Some (decl_of k s)) r)) r ss i =
     (case map_of (rev (map (\<lambda>s. (sd_id (decl_of k s), decl_of k s)) ss)) i of
        None \<Rightarrow> r i
      | Some d \<Rightarrow> if i = [] then r i else Some d)"
  by (induction ss arbitrary: r) (auto simp: schema_Register_def map_add_def split: option.splits)

text \<open>A schema is found under the id that travels on the wire, and the last declaration of an id counts.\<close>

lemma ToSchemaRegistry_lookup:
  "i \<noteq> [] \<Longrightarrow> schema_Lookup (ToSchemaRegistry k (Some m)) i =
     map_of (rev (map (\<lambda>s. (sd_id (decl_of k s), decl_of k s)) (mf_schemas m))) i"
  by (simp add: schema_Lookup_def ToSchemaRegistry_def schema_foldl NewSchemaRegistry_def split: option.splits)

text \<open>Only scalars that are declared queryable and not sensitive are indexed.\<close>

lemma indexableFieldsOf_set:
  "x \<in> set (indexableFieldsOf k fs) \<longleftrightarrow>
     (\<exists>f. (ix_path x, Some f) \<in> set fs \<and> sf_queryable f \<and> \<not> sf_sensitive f \<and>
        indexableType k (sf_type f) = Some (ix_type x) \<and>
        ix_alias x = (if sf_alias f = [] then ix_path x else sf_alias f))"
  by (induction k fs rule: indexableFieldsOf.induct) (auto split: option.splits)

section \<open>The text of a failed contract check\<close>

fun format_rows :: "nat \<Rightarrow> nat \<Rightarrow> string list \<Rightarrow> string" where
  "format_rows i n [] = []"
| "format_rows i n (v # vs) =
    (if i \<ge> 5 then '' (+'' @ show_nat (n - i) @ '' more)''
     else (if i > 0 then ''; '' else []) @ v @ format_rows (Suc i) n vs)"

definition formatReport :: "report \<Rightarrow> string" where
  "formatReport r = format_rows 0 (length (rt_violations r)) (rt_violations r)"

end
