(* ===== verification/Plugin_Registry.thy ===== *)
theory Plugin_Registry imports Plugin_Version begin

text \<open>
  The registry of decoder plugins, \<open>pkg/plugin/manager.go\<close>, with the hooks of its tunnel hub from \<open>tunnel.go\<close>.

  Operations run under the registry's mutex, so one operation is one step.  Dialled connections and Connect sessions
  have numbers; a decoder client is one of the two, and \<open>rg_sessions\<close> is the owner of each session.  A Go map from owners to queues is a function, an absent queue being
  the empty one.  The time and the order in which a loop visits the plugins are arguments; \<open>fresh\<close> orders list every
  plugin once.  A subscriber's channel is the list of the events in its buffer.
\<close>

section \<open>State\<close>

datatype decoder_client = Dialled nat | Tunnelled nat

record registered_plugin =
  rp_id :: string
  rp_socket :: string
  rp_manifest :: manifest
  rp_client :: "decoder_client option"
  rp_conn :: "nat option"
  rp_beat :: int
  rp_online :: bool
  rp_owner :: string
  rp_tunnel :: bool

datatype plugin_event_type = PluginEventRegister | PluginEventDeregister | PluginEventOnline | PluginEventOffline

record plugin_event =
  pe_type :: plugin_event_type
  pe_id :: string
  pe_name :: string
  pe_online :: bool
  pe_time :: int

record plugin_summary =
  sm_id :: string
  sm_name :: string
  sm_protocol :: string
  sm_ptype :: string
  sm_api :: string
  sm_socket :: string
  sm_online :: bool
  sm_beat :: int
  sm_owner :: string
  sm_tunnel :: bool

record registry =
  rg_closed :: bool
  rg_plugins :: "string \<Rightarrow> registered_plugin option"
  rg_byName :: "string \<Rightarrow> string option"
  rg_nextID :: nat
  rg_heartbeat :: int
  rg_pending :: "string \<Rightarrow> decoder_client list"
  rg_awaiting :: "string \<Rightarrow> string list"
  rg_conns :: nat
  rg_connsClosed :: "nat list"
  rg_sessions :: "string list"
  rg_dead :: "nat list"
  rg_listenerSeq :: nat
  rg_listeners :: "(nat \<times> plugin_event list) list"

definition NewRegistryServer :: "int \<Rightarrow> registry" where
  "NewRegistryServer heartbeatSec =
    \<lparr>rg_closed = False, rg_plugins = (\<lambda>_. None), rg_byName = (\<lambda>_. None), rg_nextID = 0,
     rg_heartbeat = (if heartbeatSec \<le> 0 then 10 else heartbeatSec), rg_pending = (\<lambda>_. []), rg_awaiting = (\<lambda>_. []),
     rg_conns = 0, rg_connsClosed = [], rg_sessions = [], rg_dead = [], rg_listenerSeq = 0, rg_listeners = []\<rparr>"

definition SchemaRegistry :: "sdk \<Rightarrow> registered_plugin \<Rightarrow> schema_registry" where
  "SchemaRegistry k rp = ToSchemaRegistry k (Some (rp_manifest rp))"

section \<open>Keys\<close>

definition pluginKey :: "string \<Rightarrow> string \<Rightarrow> string" where
  "pluginKey owner name = (if owner = [] then name else owner @ ''/'' @ name)"

definition pluginKeyCandidates :: "string \<Rightarrow> string \<Rightarrow> string list" where
  "pluginKeyCandidates owner name =
    (if CHR ''/'' \<in> set name \<or> owner = [] then [name] else [pluginKey owner name, name])"

abbreviation plugin_key :: "registered_plugin \<Rightarrow> string" where
  "plugin_key rp \<equiv> pluginKey (rp_owner rp) (mf_name (rp_manifest rp))"

section \<open>Subscribers\<close>

definition eventCap :: nat where "eventCap = 16"

definition Subscribe :: "registry \<Rightarrow> nat \<times> registry" where
  "Subscribe s = (rg_listenerSeq s,
     s\<lparr>rg_listenerSeq := rg_listenerSeq s + 1, rg_listeners := AList.update (rg_listenerSeq s) [] (rg_listeners s)\<rparr>)"

definition unsubscribe :: "nat \<Rightarrow> registry \<Rightarrow> registry" where
  "unsubscribe i s = s\<lparr>rg_listeners := AList.delete i (rg_listeners s)\<rparr>"

definition emit :: "plugin_event \<Rightarrow> registry \<Rightarrow> registry" where
  "emit e s = s\<lparr>rg_listeners :=
     map (\<lambda>(i, ch). (i, if length ch < eventCap then ch @ [e] else ch)) (rg_listeners s)\<rparr>"

definition event_of :: "plugin_event_type \<Rightarrow> string \<Rightarrow> string \<Rightarrow> bool \<Rightarrow> int \<Rightarrow> plugin_event" where
  "event_of t i n b now = \<lparr>pe_type = t, pe_id = i, pe_name = n, pe_online = b, pe_time = now\<rparr>"

fun emit_all :: "plugin_event list \<Rightarrow> registry \<Rightarrow> registry" where
  "emit_all [] s = s"
| "emit_all (e # es) s = emit_all es (emit e s)"

section \<open>Pairing tunnels with registrations\<close>

definition tunnelClientClosed :: "registry \<Rightarrow> decoder_client \<Rightarrow> bool" where
  "tunnelClientClosed s c = (case c of Tunnelled n \<Rightarrow> n \<in> set (rg_dead s) | Dialled _ \<Rightarrow> False)"

definition pruneTunnelPendingLocked :: "registry \<Rightarrow> decoder_client list \<Rightarrow> decoder_client list" where
  "pruneTunnelPendingLocked s pending = filter (\<lambda>c. \<not> tunnelClientClosed s c) pending"

text \<open>The loop over the queue: the ids dropped, then the plugin to bind and the queue behind it.\<close>

fun next_awaiting :: "registry \<Rightarrow> string list \<Rightarrow> (string \<times> registered_plugin \<times> string list) option" where
  "next_awaiting s [] = None"
| "next_awaiting s (front # awaiting) =
    (case rg_plugins s front of
       None \<Rightarrow> next_awaiting s awaiting
     | Some rp \<Rightarrow> (if rp_client rp \<noteq> None then next_awaiting s awaiting else Some (front, rp, awaiting)))"

definition bindClientToAwaitingLocked ::
    "string \<Rightarrow> decoder_client \<Rightarrow> int \<Rightarrow> registry \<Rightarrow> (string \<times> string) option \<times> registry" where
  "bindClientToAwaitingLocked owner c now s =
    (case next_awaiting s (rg_awaiting s owner) of
       None \<Rightarrow> (None, s\<lparr>rg_awaiting := (rg_awaiting s)(owner := [])\<rparr>)
     | Some (front, rp, awaiting) \<Rightarrow>
        (Some (front, mf_name (rp_manifest rp)),
         s\<lparr>rg_plugins := (rg_plugins s)(front \<mapsto> rp\<lparr>rp_client := Some c, rp_beat := now, rp_online := True\<rparr>),
           rg_awaiting := (rg_awaiting s)(owner := awaiting)\<rparr>))"

definition bindNextTunnelLocked :: "string \<Rightarrow> int \<Rightarrow> registry \<Rightarrow> (string \<times> string) option \<times> registry" where
  "bindNextTunnelLocked owner now s =
    (let pending = pruneTunnelPendingLocked s (rg_pending s owner);
         s1 = s\<lparr>rg_pending := (rg_pending s)(owner := pending)\<rparr> in
     (case pending of
        [] \<Rightarrow> (None, s1)
      | c # rest \<Rightarrow>
          (case bindClientToAwaitingLocked owner c now s1 of
             (None, s2) \<Rightarrow> (None, s2)
           | (Some b, s2) \<Rightarrow> (Some b, s2\<lparr>rg_pending := (rg_pending s2)(owner := rest)\<rparr>))))"

definition removeAwaitingLocked :: "string \<Rightarrow> string \<Rightarrow> registry \<Rightarrow> registry" where
  "removeAwaitingLocked owner i s = s\<lparr>rg_awaiting := (rg_awaiting s)(owner := remove1 i (rg_awaiting s owner))\<rparr>"

text \<open>The hook of a new Connect stream, and the hook of an ended one.\<close>

definition bindTunnelClient :: "string \<Rightarrow> decoder_client \<Rightarrow> int \<Rightarrow> registry \<Rightarrow> registry" where
  "bindTunnelClient owner c now s =
    (if rg_closed s then s
     else (case bindClientToAwaitingLocked owner c now s of
         (Some (i, name), s1) \<Rightarrow> emit (event_of PluginEventOnline i name True now) s1
       | (None, s1) \<Rightarrow>
           s1\<lparr>rg_pending := (rg_pending s1)(owner := pruneTunnelPendingLocked s1 (rg_pending s1 owner) @ [c])\<rparr>))"

definition lost_tunnel :: "registry \<Rightarrow> string \<Rightarrow> registered_plugin \<Rightarrow> bool" where
  "lost_tunnel s owner rp \<longleftrightarrow>
    rp_tunnel rp \<and> rp_owner rp = owner \<and> (case rp_client rp of None \<Rightarrow> False | Some c \<Rightarrow> tunnelClientClosed s c) \<and> rp_online rp"

fun mark_lost :: "string \<Rightarrow> int \<Rightarrow> string list \<Rightarrow> registry \<Rightarrow> plugin_event list \<times> registry" where
  "mark_lost owner now [] s = ([], s)"
| "mark_lost owner now (i # ids) s =
    (case rg_plugins s i of
       None \<Rightarrow> mark_lost owner now ids s
     | Some rp \<Rightarrow>
        (if lost_tunnel s owner rp then
           (case mark_lost owner now ids (s\<lparr>rg_plugins := (rg_plugins s)(i \<mapsto> rp\<lparr>rp_online := False\<rparr>)\<rparr>) of
              (offs, s1) \<Rightarrow> (event_of PluginEventOffline i (mf_name (rp_manifest rp)) False now # offs, s1))
         else mark_lost owner now ids s))"

definition tunnelDisconnected :: "string list \<Rightarrow> string \<Rightarrow> int \<Rightarrow> registry \<Rightarrow> registry" where
  "tunnelDisconnected ids owner now s =
    (if rg_closed s then s
     else (case mark_lost owner now ids s of (offs, s1) \<Rightarrow>
       emit_all offs (s1\<lparr>rg_pending := (rg_pending s1)(owner := pruneTunnelPendingLocked s1 (rg_pending s1 owner))\<rparr>)))"

section \<open>Registration\<close>

datatype register_err =
    EParse string | EValidate string | EVersion version_err | EContract string | EDial string | EClosed

definition register_checks :: "sdk \<Rightarrow> byte list \<Rightarrow> register_err + manifest" where
  "register_checks k data =
    (case sdk_parse k data of
       Inl e \<Rightarrow> Inl (EParse e)
     | Inr m \<Rightarrow>
        (case sdk_validate k m of
           Some e \<Rightarrow> Inl (EValidate e)
         | None \<Rightarrow>
            (case CheckManifestVersion (Some m) of
               Some e \<Rightarrow> Inl (EVersion e)
             | None \<Rightarrow>
                (case sdk_check k m of
                   None \<Rightarrow> Inr m
                 | Some r \<Rightarrow> (if rt_errors r then Inl (EContract (formatReport r)) else Inr m)))))"

definition instance_id :: "string \<Rightarrow> nat \<Rightarrow> string" where
  "instance_id name n = name @ ''-'' @ show_nat n"

text \<open>An instance that holds the key is removed, and its connection closed.\<close>

definition close_conn :: "registered_plugin \<Rightarrow> registry \<Rightarrow> registry" where
  "close_conn rp s = (case rp_conn rp of None \<Rightarrow> s | Some n \<Rightarrow> s\<lparr>rg_connsClosed := n # rg_connsClosed s\<rparr>)"

definition replace_old :: "string \<Rightarrow> string \<Rightarrow> registry \<Rightarrow> registry" where
  "replace_old owner key s =
    (case rg_byName s key of
       None \<Rightarrow> s
     | Some old \<Rightarrow>
        (case rg_plugins s old of
           None \<Rightarrow> s
         | Some rp \<Rightarrow>
             removeAwaitingLocked owner old
               ((close_conn rp s)\<lparr>rg_plugins := (rg_plugins s)(old := None)\<rparr>)))"

definition register_locked ::
    "registered_plugin \<Rightarrow> int \<Rightarrow> registry \<Rightarrow> (string \<times> string) option \<times> registry" where
  "register_locked rp now s =
    (let owner = rp_owner rp; key = plugin_key rp; i = rp_id rp;
         s1 = replace_old owner key s;
         s2 = s1\<lparr>rg_plugins := (rg_plugins s1)(i \<mapsto> rp), rg_byName := (rg_byName s1)(key \<mapsto> i)\<rparr> in
     (if rp_tunnel rp
      then bindNextTunnelLocked owner now (s2\<lparr>rg_awaiting := (rg_awaiting s2)(owner := rg_awaiting s2 owner @ [i])\<rparr>)
      else (None, s2)))"

definition online_now :: "registry \<Rightarrow> string \<Rightarrow> bool" where
  "online_now s i = (case rg_plugins s i of None \<Rightarrow> False | Some rp \<Rightarrow> rp_online rp)"

definition Register ::
    "sdk \<Rightarrow> string option \<Rightarrow> string \<Rightarrow> bool \<Rightarrow> byte list \<Rightarrow> string \<Rightarrow> int \<Rightarrow> registry
       \<Rightarrow> (register_err + string \<times> int) \<times> registry" where
  "Register k dial_err owner tunnel data sock now s =
    (case register_checks k data of
       Inl e \<Rightarrow> (Inl e, s)
     | Inr m \<Rightarrow>
        (if \<not> tunnel \<and> dial_err \<noteq> None then (Inl (EDial (the dial_err)), s)
         else
          (let s1 = (if tunnel then s else s\<lparr>rg_conns := rg_conns s + 1\<rparr>);
               s2 = s1\<lparr>rg_nextID := rg_nextID s1 + 1\<rparr>;
               i = instance_id (mf_name m) (rg_nextID s2);
               rp = \<lparr>rp_id = i, rp_socket = sock, rp_manifest = m,
                     rp_client = (if tunnel then None else Some (Dialled (rg_conns s))),
                     rp_conn = (if tunnel then None else Some (rg_conns s)),
                     rp_beat = now, rp_online = \<not> tunnel, rp_owner = owner, rp_tunnel = tunnel\<rparr> in
           (if rg_closed s2 then (Inl EClosed, s2)
            else (case register_locked rp now s2 of (b, s3) \<Rightarrow>
              (let bound = (case b of None \<Rightarrow> False | Some (bi, _) \<Rightarrow> bi = i);
                   s4 = emit (event_of PluginEventRegister i (mf_name m) (online_now s3 i) now) s3;
                   s5 = (case b of
                      Some (bi, bn) \<Rightarrow> if bound then emit (event_of PluginEventOnline bi bn True now) s4 else s4
                    | None \<Rightarrow> s4) in
               (Inr (i, rg_heartbeat s5), s5)))))))"

section \<open>Heartbeats, leaving, and the scan for silent plugins\<close>

definition Heartbeat :: "string \<Rightarrow> int \<Rightarrow> registry \<Rightarrow> (string + unit) \<times> registry" where
  "Heartbeat i now s =
    (case rg_plugins s i of
       None \<Rightarrow> (Inl i, s)
     | Some rp \<Rightarrow>
        (if rp_tunnel rp then (Inr (), s)
         else
          (let s1 = s\<lparr>rg_plugins := (rg_plugins s)(i \<mapsto> rp\<lparr>rp_beat := now, rp_online := True\<rparr>)\<rparr> in
           (Inr (), if rp_online rp then s1 else emit (event_of PluginEventOnline i (mf_name (rp_manifest rp)) True now) s1))))"

definition forget :: "string \<Rightarrow> registered_plugin \<Rightarrow> registry \<Rightarrow> registry" where
  "forget i rp s = removeAwaitingLocked (rp_owner rp) i
     (s\<lparr>rg_plugins := (rg_plugins s)(i := None), rg_byName := (rg_byName s)(plugin_key rp := None)\<rparr>)"

definition Deregister :: "string \<Rightarrow> int \<Rightarrow> registry \<Rightarrow> (string + unit) \<times> registry" where
  "Deregister i now s =
    (case rg_plugins s i of
       None \<Rightarrow> (Inl i, s)
     | Some rp \<Rightarrow>
        (Inr (), emit (event_of PluginEventDeregister i (mf_name (rp_manifest rp)) False now) (forget i rp (close_conn rp s))))"

text \<open>One plugin of the scan: the offline event, the reaped event, and the table.\<close>

definition check_tunnel :: "int \<Rightarrow> int \<Rightarrow> string \<Rightarrow> registered_plugin \<Rightarrow> registry \<Rightarrow> plugin_event list \<times> plugin_event list \<times> registry" where
  "check_tunnel timeout now i rp s =
    (let name = mf_name (rp_manifest rp) in
     (case rp_client rp of
        Some c \<Rightarrow>
          (if rp_online rp \<and> tunnelClientClosed s c
           then ([event_of PluginEventOffline i name False now], [],
                 s\<lparr>rg_plugins := (rg_plugins s)(i \<mapsto> rp\<lparr>rp_online := False\<rparr>)\<rparr>)
           else ([], [], s))
      | None \<Rightarrow>
          (if now - rp_beat rp > 2 * timeout then ([], [event_of PluginEventDeregister i name False now], forget i rp s)
           else ([], [], s))))"

definition check_one :: "int \<Rightarrow> int \<Rightarrow> string \<Rightarrow> registry \<Rightarrow> plugin_event list \<times> plugin_event list \<times> registry" where
  "check_one timeout now i s =
    (case rg_plugins s i of
       None \<Rightarrow> ([], [], s)
     | Some rp \<Rightarrow>
        (if rp_tunnel rp then check_tunnel timeout now i rp s
         else if now - rp_beat rp > timeout \<and> rp_online rp
         then ([event_of PluginEventOffline i (mf_name (rp_manifest rp)) False now], [],
               s\<lparr>rg_plugins := (rg_plugins s)(i \<mapsto> rp\<lparr>rp_online := False\<rparr>)\<rparr>)
         else ([], [], s)))"

fun check_loop :: "int \<Rightarrow> int \<Rightarrow> string list \<Rightarrow> registry \<Rightarrow> plugin_event list \<times> plugin_event list \<times> registry" where
  "check_loop timeout now [] s = ([], [], s)"
| "check_loop timeout now (i # ids) s =
    (case check_one timeout now i s of (ts, rs, s1) \<Rightarrow>
      (case check_loop timeout now ids s1 of (ts', rs', s2) \<Rightarrow> (ts @ ts', rs @ rs', s2)))"

definition CheckOffline :: "string list \<Rightarrow> int \<Rightarrow> int \<Rightarrow> registry \<Rightarrow> registry" where
  "CheckOffline ids timeout now s =
    (case check_loop timeout now ids s of (transitions, reaped, s1) \<Rightarrow> emit_all (transitions @ reaped) s1)"

section \<open>Lookup\<close>

definition usable :: "registered_plugin \<Rightarrow> bool" where
  "usable rp \<longleftrightarrow> rp_online rp \<and> rp_client rp \<noteq> None"

definition visible_to :: "string \<Rightarrow> registered_plugin \<Rightarrow> bool" where
  "visible_to owner rp \<longleftrightarrow>
    (if owner \<noteq> [] then \<not> (rp_owner rp \<noteq> [] \<and> rp_owner rp \<noteq> owner) else rp_owner rp = [])"

definition speaks :: "string \<Rightarrow> registered_plugin \<Rightarrow> bool" where
  "speaks hint rp \<longleftrightarrow> mf_protocol (rp_manifest rp) = hint \<or> hint \<in> set (mf_hints (rp_manifest rp))"

definition found :: "sdk \<Rightarrow> registered_plugin \<Rightarrow> (decoder_client \<times> schema_registry) option" where
  "found k rp = Some (the (rp_client rp), SchemaRegistry k rp)"

fun FindFor :: "sdk \<Rightarrow> string list \<Rightarrow> string \<Rightarrow> string \<Rightarrow> registry \<Rightarrow> (decoder_client \<times> schema_registry) option" where
  "FindFor k [] owner hint s = None"
| "FindFor k (i # ids) owner hint s =
    (case rg_plugins s i of
       None \<Rightarrow> FindFor k ids owner hint s
     | Some rp \<Rightarrow>
        (if usable rp \<and> visible_to owner rp \<and> speaks hint rp then found k rp else FindFor k ids owner hint s))"

definition Find :: "sdk \<Rightarrow> string list \<Rightarrow> string \<Rightarrow> registry \<Rightarrow> (decoder_client \<times> schema_registry) option" where
  "Find k ids hint s = FindFor k ids [] hint s"

fun findByKey :: "sdk \<Rightarrow> string \<Rightarrow> string list \<Rightarrow> registry \<Rightarrow> (decoder_client \<times> schema_registry) option" where
  "findByKey k caller [] s = None"
| "findByKey k caller (key # keys) s =
    (case rg_byName s key of
       None \<Rightarrow> findByKey k caller keys s
     | Some i \<Rightarrow>
        (case rg_plugins s i of
           None \<Rightarrow> None
         | Some rp \<Rightarrow>
            (if \<not> usable rp then None
             else if rp_owner rp \<noteq> [] \<and> rp_owner rp \<noteq> caller then None
             else found k rp)))"

fun findByKeyAllowed :: "sdk \<Rightarrow> string list \<Rightarrow> string list \<Rightarrow> registry \<Rightarrow> (decoder_client \<times> schema_registry) option" where
  "findByKeyAllowed k [] allowed s = None"
| "findByKeyAllowed k (key # keys) allowed s =
    (case rg_byName s key of
       None \<Rightarrow> findByKeyAllowed k keys allowed s
     | Some i \<Rightarrow>
        (case rg_plugins s i of
           None \<Rightarrow> findByKeyAllowed k keys allowed s
         | Some rp \<Rightarrow>
            (if \<not> usable rp then findByKeyAllowed k keys allowed s
             else if rp_owner rp \<notin> set allowed then None
             else found k rp)))"

text \<open>The keys in the order of their first appearance; the white list always has the anonymous owner.\<close>

fun add_keys :: "string list \<Rightarrow> string list \<Rightarrow> string list" where
  "add_keys keys [] = keys"
| "add_keys keys (k # ks) = add_keys (if k \<in> set keys then keys else keys @ [k]) ks"

fun among_keys :: "string \<Rightarrow> string list \<Rightarrow> string list \<Rightarrow> string list" where
  "among_keys name keys [] = keys"
| "among_keys name keys (o' # os) = among_keys name (add_keys keys (pluginKeyCandidates o' name)) os"

definition amongCandidates :: "string list \<Rightarrow> string \<Rightarrow> string list \<times> string list" where
  "amongCandidates owners name = (among_keys name [] owners, [] # owners)"

definition FindByNameFor :: "sdk \<Rightarrow> string \<Rightarrow> string \<Rightarrow> registry \<Rightarrow> (decoder_client \<times> schema_registry) option" where
  "FindByNameFor k owner name s = findByKey k owner (pluginKeyCandidates owner name) s"

definition FindByName :: "sdk \<Rightarrow> string \<Rightarrow> registry \<Rightarrow> (decoder_client \<times> schema_registry) option" where
  "FindByName k name s = findByKey k [] [name] s"

definition FindByNameAmong :: "sdk \<Rightarrow> string list \<Rightarrow> string \<Rightarrow> registry \<Rightarrow> (decoder_client \<times> schema_registry) option" where
  "FindByNameAmong k owners name s =
    (case amongCandidates owners name of (keys, allowed) \<Rightarrow>
      (if keys = [] then FindByNameFor k [] name s else findByKeyAllowed k keys allowed s))"

datatype manifest_err = MNoInstance string | MNotFound string | MNotAccessible string | MYaml string

definition marshal :: "sdk \<Rightarrow> manifest \<Rightarrow> manifest_err + byte list" where
  "marshal k m = (case sdk_yaml k m of Inl e \<Rightarrow> Inl (MYaml e) | Inr b \<Rightarrow> Inr b)"

fun manifest_by_key :: "sdk \<Rightarrow> string \<Rightarrow> string \<Rightarrow> string list \<Rightarrow> registry \<Rightarrow> manifest_err + byte list" where
  "manifest_by_key k owner name [] s = Inl (MNotFound name)"
| "manifest_by_key k owner name (key # keys) s =
    (case rg_byName s key of
       None \<Rightarrow> manifest_by_key k owner name keys s
     | Some i \<Rightarrow>
        (case rg_plugins s i of
           None \<Rightarrow> Inl (MNoInstance name)
         | Some rp \<Rightarrow>
            (if rp_owner rp \<noteq> [] \<and> rp_owner rp \<noteq> owner then Inl (MNotFound name) else marshal k (rp_manifest rp))))"

definition GetPluginManifestFor :: "sdk \<Rightarrow> string \<Rightarrow> string \<Rightarrow> registry \<Rightarrow> manifest_err + byte list" where
  "GetPluginManifestFor k owner name s = manifest_by_key k owner name (pluginKeyCandidates owner name) s"

definition GetPluginManifest :: "sdk \<Rightarrow> string \<Rightarrow> registry \<Rightarrow> manifest_err + byte list" where
  "GetPluginManifest k name s = GetPluginManifestFor k [] name s"

fun manifest_among :: "sdk \<Rightarrow> string list \<Rightarrow> string \<Rightarrow> string list \<Rightarrow> registry \<Rightarrow> manifest_err + byte list" where
  "manifest_among k allowed name [] s = Inl (MNotFound name)"
| "manifest_among k allowed name (key # keys) s =
    (case rg_byName s key of
       None \<Rightarrow> manifest_among k allowed name keys s
     | Some i \<Rightarrow>
        (case rg_plugins s i of
           None \<Rightarrow> manifest_among k allowed name keys s
         | Some rp \<Rightarrow>
            (if rp_owner rp \<notin> set allowed then Inl (MNotAccessible name) else marshal k (rp_manifest rp))))"

definition GetPluginManifestAmong :: "sdk \<Rightarrow> string list \<Rightarrow> string \<Rightarrow> registry \<Rightarrow> manifest_err + byte list" where
  "GetPluginManifestAmong k owners name s =
    (case amongCandidates owners name of (keys, allowed) \<Rightarrow>
      (if keys = [] then GetPluginManifestFor k [] name s else manifest_among k allowed name keys s))"

fun NameByClient :: "string list \<Rightarrow> decoder_client option \<Rightarrow> registry \<Rightarrow> string option" where
  "NameByClient ids None s = None"
| "NameByClient [] (Some c) s = None"
| "NameByClient (i # ids) (Some c) s =
    (case rg_plugins s i of
       None \<Rightarrow> NameByClient ids (Some c) s
     | Some rp \<Rightarrow> (if rp_client rp = Some c then Some (mf_name (rp_manifest rp)) else NameByClient ids (Some c) s))"

definition summary_of :: "registered_plugin \<Rightarrow> plugin_summary" where
  "summary_of rp =
    \<lparr>sm_id = rp_id rp, sm_name = mf_name (rp_manifest rp), sm_protocol = mf_protocol (rp_manifest rp),
     sm_ptype = mf_type (rp_manifest rp), sm_api = mf_api (rp_manifest rp), sm_socket = rp_socket rp,
     sm_online = rp_online rp, sm_beat = rp_beat rp, sm_owner = rp_owner rp, sm_tunnel = rp_tunnel rp\<rparr>"

definition ListSummaries :: "string list \<Rightarrow> registry \<Rightarrow> plugin_summary list" where
  "ListSummaries ids s = map summary_of (List.map_filter (rg_plugins s) ids)"

section \<open>Closing, and opening a tunnel\<close>

fun close_conns :: "string list \<Rightarrow> registry \<Rightarrow> registry" where
  "close_conns [] s = s"
| "close_conns (i # ids) s =
    (case rg_plugins s i of
       None \<Rightarrow> close_conns ids s
     | Some rp \<Rightarrow> close_conns ids ((close_conn rp s)\<lparr>rg_plugins := (rg_plugins s)(i := None)\<rparr>))"

definition Close_registry :: "string list \<Rightarrow> registry \<Rightarrow> registry" where
  "Close_registry ids s =
    (close_conns ids (s\<lparr>rg_closed := True\<rparr>))
      \<lparr>rg_byName := (\<lambda>_. None), rg_pending := (\<lambda>_. []), rg_awaiting := (\<lambda>_. [])\<rparr>"

text \<open>
  \<open>Connect\<close> up to the receive loop: the new session's client is offered to the registry.  \<open>session_end\<close> closes the
  session; the hook that tells the registry runs after it, as a step of its own.
\<close>

definition Connect_begin :: "string \<Rightarrow> int \<Rightarrow> registry \<Rightarrow> (string + nat) \<times> registry" where
  "Connect_begin owner now s =
    (if rg_closed s then (Inl ''registry is closed'', s)
     else (let n = length (rg_sessions s) in
       (Inr n, bindTunnelClient owner (Tunnelled n) now (s\<lparr>rg_sessions := rg_sessions s @ [owner]\<rparr>))))"

definition session_end :: "nat \<Rightarrow> registry \<Rightarrow> registry" where
  "session_end n s = s\<lparr>rg_dead := n # rg_dead s\<rparr>"

end
