(* ===== verification/Plugin_Registry_Inv.thy ===== *)
theory Plugin_Registry_Inv imports Plugin_Registry begin

text \<open>
  The invariant of the plugin registry, kept by every operation in any order.  \<open>keyed\<close>: the two tables describe each
  other.  \<open>numbered\<close>: every id ever used carries a number already drawn.  \<open>connected\<close>: a dialled plugin has its
  connection, a tunnelled one a session its own owner opened.  \<open>paired\<close>: who waits is in the queue of its owner, and a
  waiting session is bound nowhere.  \<open>single\<close>: a client serves one plugin.  \<open>idle\<close>: no plugin waits while a tunnel does.
\<close>

definition keyed :: "registry \<Rightarrow> bool" where
  "keyed s \<longleftrightarrow>
    (\<forall>i rp. rg_plugins s i = Some rp \<longrightarrow> rp_id rp = i \<and> rg_byName s (plugin_key rp) = Some i) \<and>
    (\<forall>key i. rg_byName s key = Some i \<longrightarrow> (\<exists>rp. rg_plugins s i = Some rp \<and> plugin_key rp = key))"

definition numbered :: "registry \<Rightarrow> bool" where
  "numbered s \<longleftrightarrow>
    (\<forall>i rp. rg_plugins s i = Some rp \<longrightarrow> (\<exists>name n. n \<le> rg_nextID s \<and> i = instance_id name n)) \<and>
    (\<forall>ow i. i \<in> set (rg_awaiting s ow) \<longrightarrow> (\<exists>name n. n \<le> rg_nextID s \<and> i = instance_id name n))"

definition session_of :: "registry \<Rightarrow> string \<Rightarrow> decoder_client \<Rightarrow> bool" where
  "session_of s owner c \<longleftrightarrow> (\<exists>n < length (rg_sessions s). c = Tunnelled n \<and> rg_sessions s ! n = owner)"

definition well_connected :: "registry \<Rightarrow> registered_plugin \<Rightarrow> bool" where
  "well_connected s rp \<longleftrightarrow>
    (if rp_tunnel rp
     then rp_conn rp = None \<and> (rp_online rp \<longrightarrow> rp_client rp \<noteq> None) \<and>
          (\<forall>c. rp_client rp = Some c \<longrightarrow> session_of s (rp_owner rp) c)
     else (\<exists>n < rg_conns s. rp_client rp = Some (Dialled n) \<and> rp_conn rp = Some n))"

definition connected :: "registry \<Rightarrow> bool" where
  "connected s \<longleftrightarrow> (\<forall>i rp. rg_plugins s i = Some rp \<longrightarrow> well_connected s rp)"

definition unbound :: "registry \<Rightarrow> decoder_client \<Rightarrow> bool" where
  "unbound s c \<longleftrightarrow> (\<forall>i rp. rg_plugins s i = Some rp \<longrightarrow> rp_client rp \<noteq> Some c)"

definition paired :: "registry \<Rightarrow> bool" where
  "paired s \<longleftrightarrow>
    (\<forall>i rp. rg_plugins s i = Some rp \<longrightarrow> rp_client rp = None \<longrightarrow> i \<in> set (rg_awaiting s (rp_owner rp))) \<and>
    (\<forall>ow i rp. i \<in> set (rg_awaiting s ow) \<longrightarrow> rg_plugins s i = Some rp \<longrightarrow> rp_owner rp = ow \<and> rp_tunnel rp) \<and>
    (\<forall>ow c. c \<in> set (rg_pending s ow) \<longrightarrow> session_of s ow c \<and> unbound s c) \<and>
    (\<forall>ow. distinct (rg_pending s ow))"

definition single :: "registry \<Rightarrow> bool" where
  "single s \<longleftrightarrow> (\<forall>i j rp rq c. rg_plugins s i = Some rp \<longrightarrow> rg_plugins s j = Some rq \<longrightarrow>
     rp_client rp = Some c \<longrightarrow> rp_client rq = Some c \<longrightarrow> i = j)"

definition core :: "registry \<Rightarrow> bool" where
  "core s \<longleftrightarrow> keyed s \<and> numbered s \<and> connected s \<and> paired s \<and> single s"

definition waits :: "registry \<Rightarrow> string \<Rightarrow> bool" where
  "waits s i \<longleftrightarrow> (\<exists>rp. rg_plugins s i = Some rp \<and> rp_client rp = None)"

definition idle :: "registry \<Rightarrow> bool" where
  "idle s \<longleftrightarrow> (\<forall>ow. rg_pending s ow \<noteq> [] \<longrightarrow> (\<forall>i \<in> set (rg_awaiting s ow). \<not> waits s i))"

definition reg_inv :: "registry \<Rightarrow> bool" where "reg_inv s \<longleftrightarrow> core s \<and> idle s"

lemmas core_defs = keyed_def numbered_def connected_def paired_def single_def
lemmas client_defs = session_of_def well_connected_def unbound_def

section \<open>Instance ids\<close>

lemma instance_id_inject: "instance_id a m = instance_id b n \<longleftrightarrow> a = b \<and> m = n"
proof
  assume *: "instance_id a m = instance_id b n"
  have no_dash: "CHR ''-'' \<notin> set (show_nat k)" for k
    using show_nat_digits [of "CHR ''-''" k] by auto
  have split: "takeWhile (\<lambda>c. c \<noteq> CHR ''-'') (rev (instance_id x k)) = rev (show_nat k)" for x k
    using no_dash [of k] takeWhile_append2 [of "rev (show_nat k)" "\<lambda>c. c \<noteq> CHR ''-''" "CHR ''-'' # rev x"]
    by (auto simp: instance_id_def)
  from * split [of a m] split [of b n] have "show_nat m = show_nat n" by simp
  then have "m = n" by simp
  with * show "a = b \<and> m = n" by (simp add: instance_id_def)
qed simp

section \<open>Changes that keep the invariant\<close>

lemma emit_fields [simp]:
  "rg_closed (emit e s) = rg_closed s" "rg_plugins (emit e s) = rg_plugins s" "rg_byName (emit e s) = rg_byName s"
  "rg_nextID (emit e s) = rg_nextID s" "rg_heartbeat (emit e s) = rg_heartbeat s" "rg_pending (emit e s) = rg_pending s"
  "rg_awaiting (emit e s) = rg_awaiting s" "rg_conns (emit e s) = rg_conns s" "rg_sessions (emit e s) = rg_sessions s"
  "rg_dead (emit e s) = rg_dead s" "rg_connsClosed (emit e s) = rg_connsClosed s"
  by (simp_all add: emit_def)

lemma close_conn_fields [simp]:
  "rg_closed (close_conn r s) = rg_closed s" "rg_plugins (close_conn r s) = rg_plugins s"
  "rg_byName (close_conn r s) = rg_byName s" "rg_nextID (close_conn r s) = rg_nextID s"
  "rg_pending (close_conn r s) = rg_pending s" "rg_awaiting (close_conn r s) = rg_awaiting s"
  "rg_conns (close_conn r s) = rg_conns s" "rg_sessions (close_conn r s) = rg_sessions s" "rg_dead (close_conn r s) = rg_dead s"
  by (simp_all add: close_conn_def split: option.split)

text \<open>The invariant reads seven fields only.\<close>

lemma reg_inv_cong:
  assumes "rg_plugins s = rg_plugins t" "rg_byName s = rg_byName t" "rg_nextID s = rg_nextID t"
    "rg_pending s = rg_pending t" "rg_awaiting s = rg_awaiting t" "rg_conns s = rg_conns t" "rg_sessions s = rg_sessions t"
  shows "reg_inv s = reg_inv t" "core s = core t" "idle s = idle t"
  using assms by (simp_all add: reg_inv_def core_def core_defs client_defs idle_def waits_def)

lemma reg_inv_emit [simp]: "reg_inv (emit e s) = reg_inv s" "core (emit e s) = core s" "idle (emit e s) = idle s"
  by (rule reg_inv_cong; simp)+

lemma reg_inv_emit_all [simp]: "reg_inv (emit_all es s) = reg_inv s"
  by (induction es arbitrary: s) auto

lemma waits_touch:
  "rg_plugins s i = Some rp \<Longrightarrow> rp_client rq = rp_client rp \<Longrightarrow>
   waits (s\<lparr>rg_plugins := (rg_plugins s)(i \<mapsto> rq)\<rparr>) j = waits s j"
  by (auto simp: waits_def)

text \<open>A plugin's time and its online flag change.\<close>

lemma reg_inv_touch:
  assumes inv: "reg_inv s" and i: "rg_plugins s i = Some rp"
    and rq: "rq = rp\<lparr>rp_beat := t, rp_online := b\<rparr>" and b: "b \<longrightarrow> rp_client rp \<noteq> None"
  shows "reg_inv (s\<lparr>rg_plugins := (rg_plugins s)(i \<mapsto> rq)\<rparr>)"
proof -
  let ?t = "s\<lparr>rg_plugins := (rg_plugins s)(i \<mapsto> rq)\<rparr>"
  from inv have c: "keyed s" "numbered s" "connected s" "paired s" "single s" "idle s"
    by (auto simp: reg_inv_def core_def)
  have "keyed ?t" using c(1) i rq unfolding keyed_def by (auto split: if_splits; metis option.inject)
  moreover have "numbered ?t" using c(2) i unfolding numbered_def by (auto split: if_splits)
  moreover have "connected ?t" using c(3) i rq b unfolding connected_def client_defs by (auto split: if_splits)
  moreover have "paired ?t" using c(4) i rq unfolding paired_def client_defs by (auto split: if_splits)
  moreover have "single ?t" using c(5) i rq unfolding single_def by (auto split: if_splits)
  moreover have "idle ?t" using c(6) i rq by (simp add: idle_def waits_touch)
  ultimately show ?thesis by (simp add: reg_inv_def core_def)
qed

text \<open>A plugin leaves.\<close>

definition removed :: "string \<Rightarrow> string \<Rightarrow> registered_plugin \<Rightarrow> registry \<Rightarrow> registry" where
  "removed ow i rp s = s\<lparr>rg_plugins := (rg_plugins s)(i := None), rg_byName := (rg_byName s)(plugin_key rp := None),
     rg_awaiting := (rg_awaiting s)(ow := remove1 i (rg_awaiting s ow))\<rparr>"

lemma core_removed:
  assumes core: "core s" and i: "rg_plugins s i = Some rp"
  shows "core (removed ow i rp s)"
proof -
  let ?t = "removed ow i rp s"
  from core have c: "keyed s" "numbered s" "connected s" "paired s" "single s"
    by (auto simp: core_def)
  have "keyed ?t" using c(1) i unfolding keyed_def removed_def by (auto split: if_splits; metis option.inject)
  moreover have "numbered ?t" using c(2) unfolding numbered_def removed_def
    by (auto split: if_splits dest: set_remove1_subset [THEN subsetD])
  moreover have "connected ?t" using c(3) unfolding connected_def client_defs removed_def by (auto split: if_splits)
  moreover have "paired ?t" using c(4) unfolding paired_def client_defs removed_def
    by (auto split: if_splits dest: set_remove1_subset [THEN subsetD]; metis)
  moreover have "single ?t" using c(5) unfolding single_def removed_def by (auto split: if_splits)
  ultimately show ?thesis by (simp add: core_def)
qed

lemma waits_removed: "waits (removed ow i rp s) j \<longleftrightarrow> waits s j \<and> j \<noteq> i"
  by (auto simp: waits_def removed_def)

lemma idle_removed: "idle s \<Longrightarrow> idle (removed ow i rp s)"
  unfolding idle_def waits_removed by (auto simp: removed_def split: if_splits dest: set_remove1_subset [THEN subsetD])

lemma reg_inv_forget:
  assumes "reg_inv s" "rg_plugins s i = Some rp"
  shows "reg_inv (forget i rp s)"
proof -
  have "reg_inv (forget i rp s) = reg_inv (removed (rp_owner rp) i rp s)"
    by (rule reg_inv_cong) (simp_all add: forget_def removeAwaitingLocked_def removed_def)
  with assms show ?thesis by (simp add: reg_inv_def core_removed idle_removed)
qed

lemma reg_inv_close_conn [simp]: "reg_inv (close_conn rp s) = reg_inv s"
  by (rule reg_inv_cong) simp_all

text \<open>The waiting clients of an owner become fewer.\<close>

lemma core_pending:
  assumes "core s" "set q \<subseteq> set (rg_pending s ow)" "distinct q"
  shows "core (s\<lparr>rg_pending := (rg_pending s)(ow := q)\<rparr>)"
  using assms unfolding core_def core_defs client_defs by (auto split: if_splits)

lemma idle_pending: "idle s \<Longrightarrow> q = [] \<or> rg_pending s ow \<noteq> [] \<Longrightarrow> idle (s\<lparr>rg_pending := (rg_pending s)(ow := q)\<rparr>)"
  unfolding idle_def waits_def by (auto split: if_splits)

lemma core_distinct: "core s \<Longrightarrow> distinct (rg_pending s ow)"
  by (simp add: core_def paired_def)

lemma reg_inv_prune:
  assumes "reg_inv s"
  shows "reg_inv (s\<lparr>rg_pending := (rg_pending s)(ow := pruneTunnelPendingLocked u (rg_pending s ow))\<rparr>)"
proof -
  let ?q = "pruneTunnelPendingLocked u (rg_pending s ow)"
  have "set ?q \<subseteq> set (rg_pending s ow)" "distinct ?q" "?q = [] \<or> rg_pending s ow \<noteq> []"
    using assms core_distinct [of s ow] by (auto simp: pruneTunnelPendingLocked_def reg_inv_def)
  with assms show ?thesis by (auto simp: reg_inv_def intro: core_pending idle_pending)
qed

lemma core_dialled: "core s \<Longrightarrow> rg_plugins s i = Some rp \<Longrightarrow> \<not> rp_tunnel rp \<Longrightarrow> rp_client rp \<noteq> None"
  unfolding core_def connected_def well_connected_def by (metis option.distinct(1))

section \<open>Operations\<close>

lemma reg_inv_New: "reg_inv (NewRegistryServer h)"
  by (simp add: reg_inv_def core_def core_defs client_defs idle_def NewRegistryServer_def)

lemma reg_inv_Heartbeat: "reg_inv s \<Longrightarrow> reg_inv (snd (Heartbeat i now s))"
proof (cases "rg_plugins s i")
  case (Some rp)
  assume inv: "reg_inv s"
  show ?thesis
  proof (cases "rp_tunnel rp")
    case False
    with inv Some have "rp_client rp \<noteq> None"
      by (auto simp: reg_inv_def dest: core_dialled)
    with reg_inv_touch [OF inv Some, where rq = "rp\<lparr>rp_beat := now, rp_online := True\<rparr>" and t = now and b = True] False Some
    show ?thesis by (simp add: Heartbeat_def Let_def)
  qed (simp add: Heartbeat_def Some inv)
qed (simp add: Heartbeat_def)

lemma reg_inv_Deregister: "reg_inv s \<Longrightarrow> reg_inv (snd (Deregister i now s))"
  by (auto simp: Deregister_def split: option.split intro: reg_inv_forget)

lemma reg_inv_offline:
  "reg_inv s \<Longrightarrow> rg_plugins s i = Some rp \<Longrightarrow> reg_inv (s\<lparr>rg_plugins := (rg_plugins s)(i \<mapsto> rp\<lparr>rp_online := False\<rparr>)\<rparr>)"
  by (rule reg_inv_touch [where t = "rp_beat rp" and b = False]) auto

lemma reg_inv_check_loop: "reg_inv s \<Longrightarrow> reg_inv (snd (snd (check_loop timeout now ids s)))"
proof (induction ids arbitrary: s)
  case (Cons i ids)
  have "reg_inv (snd (snd (check_one timeout now i s)))"
    using Cons.prems by (auto simp: check_one_def check_tunnel_def Let_def reg_inv_offline reg_inv_forget split: option.split)
  from Cons.IH [OF this] show ?case by (auto split: prod.split)
qed simp

lemma reg_inv_CheckOffline: "reg_inv s \<Longrightarrow> reg_inv (CheckOffline ids timeout now s)"
  using reg_inv_check_loop [of s timeout now ids] by (auto simp: CheckOffline_def split: prod.split)

lemma reg_inv_mark_lost: "reg_inv s \<Longrightarrow> reg_inv (snd (mark_lost ow now ids s))"
  by (induction ow now ids s rule: mark_lost.induct) (auto simp: reg_inv_offline split: option.split prod.split)

lemma reg_inv_tunnelDisconnected: "reg_inv s \<Longrightarrow> reg_inv (tunnelDisconnected ids ow now s)"
  using reg_inv_mark_lost [of s ow now ids]
  by (auto simp: tunnelDisconnected_def reg_inv_prune split: prod.split)

lemma reg_inv_session_end: "reg_inv s \<Longrightarrow> reg_inv (session_end n s)"
  by (subst reg_inv_cong(1) [of _ s]) (simp_all add: session_end_def)

lemma close_conns_fields [simp]:
  "rg_closed (close_conns ids s) = rg_closed s" "rg_nextID (close_conns ids s) = rg_nextID s"
  "rg_conns (close_conns ids s) = rg_conns s" "rg_sessions (close_conns ids s) = rg_sessions s"
  "rg_plugins (close_conns ids s) i = (if i \<in> set ids then None else rg_plugins s i)"
  by (induction ids s rule: close_conns.induct) (auto split: option.split)

lemma reg_inv_Close: "\<forall>i. rg_plugins s i \<noteq> None \<longrightarrow> i \<in> set ids \<Longrightarrow> reg_inv (Close_registry ids s)"
  by (auto simp: reg_inv_def core_def core_defs client_defs idle_def Close_registry_def split: if_splits)

section \<open>Binding\<close>

lemma next_awaiting_Some:
  "next_awaiting s q = Some (f, rp, rest) \<Longrightarrow>
     \<exists>pre. q = pre @ f # rest \<and> (\<forall>i \<in> set pre. \<not> waits s i) \<and> rg_plugins s f = Some rp \<and> rp_client rp = None"
proof (induction q)
  case (Cons i q)
  show ?case
  proof (cases "waits s i")
    case True
    with Cons.prems show ?thesis by (auto simp: waits_def intro: exI [of _ "[]"])
  next
    case False
    with Cons.prems have "next_awaiting s q = Some (f, rp, rest)"
      by (auto simp: waits_def split: option.splits if_splits)
    with Cons.IH obtain pre where "q = pre @ f # rest" "\<forall>i \<in> set pre. \<not> waits s i" "rg_plugins s f = Some rp" "rp_client rp = None"
      by auto
    with False show ?thesis by (intro exI [of _ "i # pre"]) auto
  qed
qed simp

lemma next_awaiting_None: "next_awaiting s q = None \<longleftrightarrow> (\<forall>i \<in> set q. \<not> waits s i)"
  by (induction q) (auto simp: waits_def split: option.splits)

lemma next_awaiting_skip: "\<forall>i \<in> set a. \<not> waits s i \<Longrightarrow> next_awaiting s (a @ q) = next_awaiting s q"
  by (induction a) (auto simp: waits_def split: option.splits)

lemma core_awaiting_dead:
  assumes "core s" and q: "set q \<subseteq> set (rg_awaiting s ow)" and dead: "\<forall>i \<in> set (rg_awaiting s ow) - set q. \<not> waits s i"
  shows "core (s\<lparr>rg_awaiting := (rg_awaiting s)(ow := q)\<rparr>)"
proof -
  let ?t = "s\<lparr>rg_awaiting := (rg_awaiting s)(ow := q)\<rparr>"
  from assms have c: "keyed s" "numbered s" "connected s" "paired s" "single s"
    by (auto simp: core_def)
  have "keyed ?t" using c(1) by (simp add: keyed_def)
  moreover have "numbered ?t" using c(2) q unfolding numbered_def by (auto split: if_splits)
  moreover have "connected ?t" using c(3) unfolding connected_def client_defs by simp
  moreover have "paired ?t" using c(4) q dead unfolding paired_def client_defs waits_def
    by (auto split: if_splits; metis DiffI option.distinct(1))
  moreover have "single ?t" using c(5) by (simp add: single_def)
  ultimately show ?thesis by (simp add: core_def)
qed

lemma core_bind_plugin:
  assumes "core s" and f: "rg_plugins s f = Some rp" "rp_client rp = None"
    and cl: "session_of s (rp_owner rp) c" "unbound s c" "\<And>ow. c \<notin> set (rg_pending s ow)"
  shows "core (s\<lparr>rg_plugins := (rg_plugins s)(f \<mapsto> rp\<lparr>rp_client := Some c, rp_beat := now, rp_online := True\<rparr>)\<rparr>)"
proof -
  let ?t = "s\<lparr>rg_plugins := (rg_plugins s)(f \<mapsto> rp\<lparr>rp_client := Some c, rp_beat := now, rp_online := True\<rparr>)\<rparr>"
  from assms have c: "keyed s" "numbered s" "connected s" "paired s" "single s"
    by (auto simp: core_def)
  have tun: "rp_tunnel rp" using core_dialled [OF assms(1) f(1)] f(2) by auto
  have "keyed ?t" using c(1) f unfolding keyed_def by (auto split: if_splits; metis option.inject)
  moreover have "numbered ?t" using c(2) f unfolding numbered_def by (auto split: if_splits)
  moreover have "connected ?t" using c(3) f cl tun unfolding connected_def client_defs by (auto split: if_splits)
  moreover have "paired ?t" using c(4) f cl unfolding paired_def client_defs by (auto split: if_splits)
  moreover have "single ?t" using c(5) cl(2) unfolding single_def unbound_def by (auto split: if_splits; metis)
  ultimately show ?thesis by (simp add: core_def)
qed

lemma waits_bind: "waits (s\<lparr>rg_plugins := (rg_plugins s)(f \<mapsto> rp\<lparr>rp_client := Some c, rp_beat := now, rp_online := True\<rparr>)\<rparr>) i
    \<longleftrightarrow> waits s i \<and> i \<noteq> f"
  by (auto simp: waits_def)

lemma waits_owner:
  assumes "core s" "i \<in> set (rg_awaiting s ow)" "rg_plugins s i = Some rp"
  shows "rp_owner rp = ow" "rp_tunnel rp"
  using assms unfolding core_def paired_def by blast+

lemma core_bind:
  assumes core: "core s" and cl: "session_of s ow c" "unbound s c" "\<And>ow. c \<notin> set (rg_pending s ow)"
  shows "core (snd (bindClientToAwaitingLocked ow c now s))"
proof (cases "next_awaiting s (rg_awaiting s ow)")
  case None
  then have "\<forall>i \<in> set (rg_awaiting s ow). \<not> waits s i" by (simp add: next_awaiting_None)
  with core_awaiting_dead [OF core, of "[]" ow] None show ?thesis
    by (simp add: bindClientToAwaitingLocked_def)
next
  case (Some x)
  then obtain f rp rest where n: "next_awaiting s (rg_awaiting s ow) = Some (f, rp, rest)" by (cases x) auto
  from next_awaiting_Some [OF n] obtain pre where
    q: "rg_awaiting s ow = pre @ f # rest" "\<forall>i \<in> set pre. \<not> waits s i" "rg_plugins s f = Some rp" "rp_client rp = None"
    by auto
  have ow: "rp_owner rp = ow" using waits_owner [OF core, of f ow rp] q by simp
  let ?b = "s\<lparr>rg_plugins := (rg_plugins s)(f \<mapsto> rp\<lparr>rp_client := Some c, rp_beat := now, rp_online := True\<rparr>)\<rparr>"
  have "core (?b\<lparr>rg_awaiting := (rg_awaiting ?b)(ow := rest)\<rparr>)"
  proof (rule core_awaiting_dead)
    show "core ?b" using core_bind_plugin [OF core q(3,4)] cl ow by simp
  qed (auto simp: q waits_bind simp del: fun_upd_apply)
  then show ?thesis by (simp add: bindClientToAwaitingLocked_def n)
qed

lemma bindClient_fields [simp]:
  "rg_pending (snd (bindClientToAwaitingLocked ow c now s)) = rg_pending s"
  "rg_closed (snd (bindClientToAwaitingLocked ow c now s)) = rg_closed s"
  "rg_sessions (snd (bindClientToAwaitingLocked ow c now s)) = rg_sessions s"
  by (auto simp: bindClientToAwaitingLocked_def split: option.split prod.split)

lemma idle_bind:
  assumes idle: "idle s" and some: "fst (bindClientToAwaitingLocked ow c now s) \<noteq> None"
  shows "idle (snd (bindClientToAwaitingLocked ow c now s))" "rg_pending s ow = []"
proof -
  from some obtain f rp rest where n: "next_awaiting s (rg_awaiting s ow) = Some (f, rp, rest)"
    by (auto simp: bindClientToAwaitingLocked_def split: option.splits prod.splits)
  from next_awaiting_Some [OF n] obtain pre where
    q: "rg_awaiting s ow = pre @ f # rest" "rg_plugins s f = Some rp" "rp_client rp = None"
    by auto
  then have "waits s f" by (simp add: waits_def)
  with idle q show p: "rg_pending s ow = []" by (auto simp: idle_def)
  from idle p show "idle (snd (bindClientToAwaitingLocked ow c now s))"
    by (auto simp: bindClientToAwaitingLocked_def n idle_def waits_def split: if_splits)
qed

section \<open>A new tunnel\<close>

lemma core_open_session: "core s \<Longrightarrow> core (s\<lparr>rg_sessions := rg_sessions s @ [ow]\<rparr>)"
  unfolding core_def core_defs client_defs by (auto simp: nth_append; metis less_SucI)

lemma core_new_session:
  assumes "core s"
  shows "unbound s (Tunnelled (length (rg_sessions s)))" "Tunnelled (length (rg_sessions s)) \<notin> set (rg_pending s ow)"
proof -
  have "rp_client rp \<noteq> Some (Tunnelled (length (rg_sessions s)))" if "rg_plugins s i = Some rp" for i rp
    using assms that unfolding core_def connected_def client_defs
    by (cases "rp_tunnel rp") (force split: if_splits)+
  then show "unbound s (Tunnelled (length (rg_sessions s)))" by (auto simp: unbound_def)
  show "Tunnelled (length (rg_sessions s)) \<notin> set (rg_pending s ow)"
    using assms unfolding core_def paired_def session_of_def by blast
qed

lemma core_pending_add:
  assumes "core s" "session_of s ow c" "unbound s c" "c \<notin> set (rg_pending s ow)"
    "set q \<subseteq> set (rg_pending s ow)" "distinct q"
  shows "core (s\<lparr>rg_pending := (rg_pending s)(ow := q @ [c])\<rparr>)"
  using assms unfolding core_def core_defs client_defs by (auto split: if_splits)

lemma bind_None_unchanged:
  assumes "fst (bindClientToAwaitingLocked ow c now s) = None"
  shows "snd (bindClientToAwaitingLocked ow c now s) = s\<lparr>rg_awaiting := (rg_awaiting s)(ow := [])\<rparr>"
  using assms by (auto simp: bindClientToAwaitingLocked_def split: option.splits prod.splits)

lemma reg_inv_bindTunnelClient:
  assumes inv: "reg_inv s" and cl: "session_of s ow c" "unbound s c" "\<And>ow. c \<notin> set (rg_pending s ow)"
  shows "reg_inv (bindTunnelClient ow c now s)"
proof -
  from inv have core: "core s" and idle: "idle s" by (simp_all add: reg_inv_def)
  obtain b s1 where b: "bindClientToAwaitingLocked ow c now s = (b, s1)" by fastforce
  have core1: "core s1" using core_bind [OF core cl, where now = now] b by simp
  show ?thesis
  proof (cases b)
    case (Some x)
    with idle_bind(1) [OF idle, of ow c now] b core1 inv show ?thesis
      by (cases x) (simp add: bindTunnelClient_def reg_inv_def)
  next
    case None
    let ?q = "pruneTunnelPendingLocked s1 (rg_pending s1 ow)"
    have s1: "s1 = s\<lparr>rg_awaiting := (rg_awaiting s)(ow := [])\<rparr>"
      using bind_None_unchanged [of ow c now s] b None by simp
    have "core (s1\<lparr>rg_pending := (rg_pending s1)(ow := ?q @ [c])\<rparr>)"
      using cl core_distinct [OF core, of ow]
      by (intro core_pending_add core1)
        (auto simp: s1 session_of_def unbound_def pruneTunnelPendingLocked_def)
    moreover have "idle (s1\<lparr>rg_pending := (rg_pending s1)(ow := ?q @ [c])\<rparr>)"
      using idle by (auto simp: idle_def waits_def s1)
    ultimately show ?thesis using b None inv by (simp add: bindTunnelClient_def reg_inv_def)
  qed
qed

lemma reg_inv_Connect_begin:
  assumes inv: "reg_inv s" shows "reg_inv (snd (Connect_begin ow now s))"
proof -
  let ?s = "s\<lparr>rg_sessions := rg_sessions s @ [ow]\<rparr>"
  have core: "core s" using inv by (simp add: reg_inv_def)
  have "reg_inv ?s"
    using inv core_open_session [OF core, of ow] by (simp add: reg_inv_def idle_def waits_def)
  moreover have "session_of ?s ow (Tunnelled (length (rg_sessions s)))" by (simp add: session_of_def)
  moreover have "unbound ?s (Tunnelled (length (rg_sessions s)))" "\<And>o'. Tunnelled (length (rg_sessions s)) \<notin> set (rg_pending ?s o')"
    using core_new_session [OF core] by (simp_all add: unbound_def)
  ultimately have "reg_inv (bindTunnelClient ow (Tunnelled (length (rg_sessions s))) now ?s)"
    by (rule reg_inv_bindTunnelClient)
  with inv show ?thesis by (simp add: Connect_begin_def Let_def)
qed

end
