(* ===== verification/Plugin_Registry_Run.thy ===== *)
theory Plugin_Registry_Run imports Plugin_Registry_Inv begin

text \<open>
  The invariant of the plugin registry is kept by a registration, and so by every run.  A registration with a tunnel
  binds nobody but the instance it enters (\<open>bindNext_entered\<close>), because nobody else can be waiting then.
\<close>

section \<open>Registration\<close>

text \<open>The instance that holds the key goes, and with it the key.\<close>

lemma replaced_inv:
  assumes "reg_inv s"
  shows "reg_inv ((replace_old ow key s)\<lparr>rg_byName := (rg_byName s)(key := None)\<rparr>)"
proof (cases "rg_byName s key")
  case None
  with assms show ?thesis by (simp add: replace_old_def fun_upd_idem)
next
  case (Some old)
  with assms obtain rp where rp: "rg_plugins s old = Some rp" "plugin_key rp = key"
    unfolding reg_inv_def core_def keyed_def by blast
  let ?t = "(replace_old ow key s)\<lparr>rg_byName := (rg_byName s)(key := None)\<rparr>"
  have "reg_inv ?t = reg_inv (removed ow old rp s)"
    by (rule reg_inv_cong) (simp_all add: replace_old_def Some rp removeAwaitingLocked_def removed_def)
  with assms rp show ?thesis by (simp add: reg_inv_def core_removed idle_removed)
qed

lemma replace_old_fields [simp]:
  "rg_closed (replace_old ow key s) = rg_closed s" "rg_byName (replace_old ow key s) = rg_byName s"
  "rg_nextID (replace_old ow key s) = rg_nextID s" "rg_pending (replace_old ow key s) = rg_pending s"
  "rg_conns (replace_old ow key s) = rg_conns s" "rg_sessions (replace_old ow key s) = rg_sessions s"
  "rg_dead (replace_old ow key s) = rg_dead s"
  by (auto simp: replace_old_def removeAwaitingLocked_def split: option.split)

text \<open>An instance with an unused key and a new id is entered; with a tunnel it also joins the queue of its owner.\<close>

definition entered :: "registered_plugin \<Rightarrow> registry \<Rightarrow> registry" where
  "entered rp s = s\<lparr>rg_plugins := (rg_plugins s)(rp_id rp \<mapsto> rp), rg_byName := (rg_byName s)(plugin_key rp \<mapsto> rp_id rp),
     rg_awaiting := (if rp_tunnel rp then (rg_awaiting s)(rp_owner rp := rg_awaiting s (rp_owner rp) @ [rp_id rp])
                     else rg_awaiting s)\<rparr>"

lemma core_entered:
  assumes core: "core s" and key: "rg_byName s (plugin_key rp) = None"
    and id: "rp_id rp = instance_id name n" "n \<le> rg_nextID s"
    and fresh: "rg_plugins s (rp_id rp) = None" "\<And>ow. rp_id rp \<notin> set (rg_awaiting s ow)"
    and conn: "well_connected s rp" and cl: "\<And>c. rp_client rp = Some c \<Longrightarrow> unbound s c" "rp_tunnel rp \<longleftrightarrow> rp_client rp = None"
    and pend: "\<And>ow c. rp_client rp = Some c \<Longrightarrow> c \<notin> set (rg_pending s ow)"
  shows "core (entered rp s)"
proof -
  let ?t = "entered rp s"
  from core have c: "keyed s" "numbered s" "connected s" "paired s" "single s"
    by (auto simp: core_def)
  have k: "rg_plugins s i = Some r \<Longrightarrow> rp_id r = i \<and> rg_byName s (plugin_key r) = Some i"
    "rg_byName s q = Some i \<Longrightarrow> \<exists>r. rg_plugins s i = Some r \<and> plugin_key r = q" for i q r
    using c(1) unfolding keyed_def by blast+
  have other: "plugin_key r \<noteq> plugin_key rp" "rp_id r \<noteq> rp_id rp" if "rg_plugins s i = Some r" for i r
    using k(1) [OF that] key fresh that by auto
  have tables: "rg_plugins ?t = (rg_plugins s)(rp_id rp \<mapsto> rp)" "rg_byName ?t = (rg_byName s)(plugin_key rp \<mapsto> rp_id rp)"
    by (simp_all add: entered_def)
  have "keyed ?t" unfolding keyed_def
  proof (intro conjI allI impI)
    fix i r assume "rg_plugins ?t i = Some r"
    with k(1) [of i r] other [of i r] show "rp_id r = i" "rg_byName ?t (plugin_key r) = Some i"
      by (auto simp: tables split: if_splits)
  next
    fix q i assume q: "rg_byName ?t q = Some i"
    show "\<exists>r. rg_plugins ?t i = Some r \<and> plugin_key r = q"
    proof (cases "q = plugin_key rp")
      case False
      with q k(2) [of q i] fresh(1) show ?thesis by (auto simp: tables)
    qed (use q in \<open>simp add: tables\<close>)
  qed
  moreover have "numbered ?t" using c(2) id unfolding numbered_def entered_def by (auto split: if_splits)
  moreover have "connected ?t" using c(3) conn unfolding connected_def client_defs entered_def by (auto split: if_splits)
  moreover have "paired ?t" unfolding paired_def
  proof (intro conjI allI impI)
    have p: "rg_plugins s i = Some r \<Longrightarrow> rp_client r = None \<Longrightarrow> i \<in> set (rg_awaiting s (rp_owner r))"
      "i \<in> set (rg_awaiting s ow) \<Longrightarrow> rg_plugins s i = Some r \<Longrightarrow> rp_owner r = ow \<and> rp_tunnel r"
      "c \<in> set (rg_pending s ow) \<Longrightarrow> session_of s ow c \<and> unbound s c" "distinct (rg_pending s ow)" for i ow r c
      using c(4) unfolding paired_def by blast+
    fix i r assume i: "rg_plugins ?t i = Some r"
    show "i \<in> set (rg_awaiting ?t (rp_owner r))" if "rp_client r = None"
      using i that p(1) [of i r] cl(2) by (auto simp: entered_def split: if_splits)
    show "rp_owner r = ow" "rp_tunnel r" if "i \<in> set (rg_awaiting ?t ow)" for ow
      using i that p(2) [of i ow r] fresh(2) by (auto simp: entered_def split: if_splits)
  next
    fix ow d assume "d \<in> set (rg_pending ?t ow)"
    then have d: "d \<in> set (rg_pending s ow)" by (simp add: entered_def)
    then have "session_of s ow d" "unbound s d" using c(4) unfolding paired_def by blast+
    with d pend [of d ow] show "session_of ?t ow d" "unbound ?t d"
      by (auto simp: entered_def session_of_def unbound_def)
  next
    show "distinct (rg_pending ?t ow)" for ow using c(4) by (simp add: paired_def entered_def)
  qed
  moreover have "single ?t" using c(5) cl unfolding single_def unbound_def entered_def by (auto split: if_splits; metis)
  ultimately show ?thesis by (simp add: core_def)
qed

lemma new_id_fresh:
  assumes "numbered s"
  shows "rg_plugins s (instance_id name (Suc (rg_nextID s))) = None"
    "instance_id name (Suc (rg_nextID s)) \<notin> set (rg_awaiting s ow)"
proof -
  have "i \<noteq> instance_id name (Suc (rg_nextID s))" if "\<exists>name n. n \<le> rg_nextID s \<and> i = instance_id name n" for i
    using that by (auto simp: instance_id_inject)
  then show "rg_plugins s (instance_id name (Suc (rg_nextID s))) = None"
    "instance_id name (Suc (rg_nextID s)) \<notin> set (rg_awaiting s ow)"
    using assms unfolding numbered_def by (metis not_Some_eq, metis)
qed

lemma waits_entered:
  "rg_plugins s (rp_id rp) = None \<Longrightarrow>
   waits (entered rp s) i \<longleftrightarrow> waits s i \<or> (i = rp_id rp \<and> rp_client rp = None)"
  by (auto simp: waits_def entered_def)

text \<open>The entry of the new instance afterwards: as it came, or bound to a client.\<close>

definition bound_as :: "int \<Rightarrow> registered_plugin \<Rightarrow> registered_plugin \<Rightarrow> (string \<times> string) option \<Rightarrow> bool" where
  "bound_as now rp rp' b \<longleftrightarrow> (b = None \<and> rp' = rp) \<or>
     (b \<noteq> None \<and> (\<exists>c. rp' = rp\<lparr>rp_client := Some c, rp_beat := now, rp_online := True\<rparr>))"

text \<open>What a registration does to the tunnels that wait: a tunnel plugin takes the first live one of its owner and leaves
  the others behind it, or waits at the end of the queue; a plugin that was dialled touches none.\<close>

definition takes_tunnel :: "int \<Rightarrow> registry \<Rightarrow> registered_plugin \<Rightarrow> registered_plugin \<Rightarrow> registry \<Rightarrow> bool" where
  "takes_tunnel now s rp rp' t \<longleftrightarrow>
     (if \<not> rp_tunnel rp then rp' = rp \<and> rg_pending t = rg_pending s
      else case filter (\<lambda>c. \<not> tunnelClientClosed s c) (rg_pending s (rp_owner rp)) of
        [] \<Rightarrow> rp' = rp \<and> rg_pending t = (rg_pending s)(rp_owner rp := []) \<and>
          rg_awaiting t (rp_owner rp) \<noteq> [] \<and> last (rg_awaiting t (rp_owner rp)) = rp_id rp
      | c # rest \<Rightarrow> rp' = rp\<lparr>rp_client := Some c, rp_beat := now, rp_online := True\<rparr> \<and>
          rg_pending t = (rg_pending s)(rp_owner rp := rest))"

lemma takes_tunnel_cong:
  assumes "rg_pending s = rg_pending s'" and "rg_dead s = rg_dead s'"
  shows "takes_tunnel now s rp rp' t = takes_tunnel now s' rp rp' t"
proof -
  have "tunnelClientClosed s = tunnelClientClosed s'" by (simp add: fun_eq_iff tunnelClientClosed_def assms(2) split: decoder_client.split)
  then show ?thesis unfolding takes_tunnel_def assms(1) by (simp only:)
qed

lemma bindNext_entered:
  assumes core: "core (entered rp u)" and idle: "idle u" and tun: "rp_tunnel rp" "rp_client rp = None"
    and fresh: "rg_plugins u (rp_id rp) = None" "\<And>ow. rp_id rp \<notin> set (rg_awaiting u ow)"
    and r: "bindNextTunnelLocked (rp_owner rp) now (entered rp u) = (b, t)"
  shows "reg_inv t" "\<And>bi bn. b = Some (bi, bn) \<Longrightarrow> bi = rp_id rp \<and> bn = mf_name (rp_manifest rp)"
    "\<exists>rp'. bound_as now rp rp' b \<and> takes_tunnel now u rp rp' t \<and> rg_plugins t = (rg_plugins u)(rp_id rp \<mapsto> rp') \<and>
       rg_byName t = (rg_byName u)(plugin_key rp \<mapsto> rp_id rp)"
proof -
  let ?e = "entered rp u" let ?ow = "rp_owner rp"
  have tables: "rg_plugins ?e = (rg_plugins u)(rp_id rp \<mapsto> rp)" "rg_byName ?e = (rg_byName u)(plugin_key rp \<mapsto> rp_id rp)"
    by (simp_all add: entered_def)
  let ?q = "pruneTunnelPendingLocked ?e (rg_pending ?e ?ow)"
  have e: "rg_pending ?e = rg_pending u" "rg_awaiting ?e ?ow = rg_awaiting u ?ow @ [rp_id rp]"
    "rg_plugins ?e (rp_id rp) = Some rp" "\<And>ow. ow \<noteq> ?ow \<Longrightarrow> rg_awaiting ?e ow = rg_awaiting u ow"
    using tun by (simp_all add: entered_def)
  have fil: "pruneTunnelPendingLocked ?e (rg_pending ?e ?ow) = filter (\<lambda>c. \<not> tunnelClientClosed u c) (rg_pending u ?ow)"
    by (simp add: pruneTunnelPendingLocked_def e) (auto intro!: filter_cong simp: tunnelClientClosed_def entered_def split: decoder_client.split)
  have q: "set ?q \<subseteq> set (rg_pending ?e ?ow)" "distinct ?q"
    using core_distinct [OF core] by (auto simp: pruneTunnelPendingLocked_def)
  have others: "\<not> waits ?e i" if "rg_pending u ow \<noteq> []" "i \<in> set (rg_awaiting u ow)" for ow i
    using idle that fresh by (auto simp: idle_def waits_entered)
  have "reg_inv t \<and> (\<forall>bi bn. b = Some (bi, bn) \<longrightarrow> bi = rp_id rp \<and> bn = mf_name (rp_manifest rp)) \<and>
    (\<exists>rp'. bound_as now rp rp' b \<and> takes_tunnel now u rp rp' t \<and> rg_plugins t = (rg_plugins u)(rp_id rp \<mapsto> rp') \<and>
       rg_byName t = (rg_byName u)(plugin_key rp \<mapsto> rp_id rp))"
  proof (cases ?q)
    case Nil
    let ?t = "?e\<lparr>rg_pending := (rg_pending ?e)(?ow := [])\<rparr>"
    have "core ?t" by (rule core_pending) (simp_all add: core)
    moreover have "idle ?t"
      unfolding idle_def
    proof (intro allI impI ballI)
      fix ow i assume "rg_pending ?t ow \<noteq> []" "i \<in> set (rg_awaiting ?t ow)"
      then have "rg_pending u ow \<noteq> []" "i \<in> set (rg_awaiting u ow)" using e by (auto split: if_splits)
      then show "\<not> waits ?t i" using others [of ow i] by (simp add: waits_def)
    qed
    moreover have "b = None" "t = ?t" using r Nil by (simp_all add: bindNextTunnelLocked_def Let_def)
    moreover have "filter (\<lambda>c. \<not> tunnelClientClosed u c) (rg_pending u ?ow) = []"
      using Nil fil by simp
    ultimately show ?thesis using tun by (simp add: reg_inv_def bound_as_def takes_tunnel_def tables e)
  next
    case (Cons c rest)
    let ?p = "\<lambda>q. ?e\<lparr>rg_pending := (rg_pending ?e)(?ow := q)\<rparr>"
    have dead: "\<forall>i \<in> set (rg_awaiting u ?ow). \<not> waits ?e i"
      using others [of ?ow] q Cons e by (cases "rg_pending u ?ow") auto
    have next': "next_awaiting (?p q') (rg_awaiting ?e ?ow) = Some (rp_id rp, rp, [])" for q'
    proof -
      have "next_awaiting (?p q') (rg_awaiting u ?ow @ [rp_id rp]) = next_awaiting (?p q') [rp_id rp]"
        by (rule next_awaiting_skip) (use dead in \<open>simp add: waits_def\<close>)
      with e tun show ?thesis by simp
    qed
    have bind: "bindClientToAwaitingLocked ?ow c now (?p q') =
        (Some (rp_id rp, mf_name (rp_manifest rp)),
         ?e\<lparr>rg_plugins := (rg_plugins ?e)(rp_id rp \<mapsto> rp\<lparr>rp_client := Some c, rp_beat := now, rp_online := True\<rparr>),
            rg_awaiting := (rg_awaiting ?e)(?ow := []), rg_pending := (rg_pending ?e)(?ow := q')\<rparr>)" for q'
      using next' [of q'] by (simp add: bindClientToAwaitingLocked_def)
    let ?t = "snd (bindClientToAwaitingLocked ?ow c now (?p rest))"
    have t: "b = Some (rp_id rp, mf_name (rp_manifest rp))" "t = ?t"
      using r Cons by (simp_all add: bindNextTunnelLocked_def Let_def bind)
    have cin: "c \<in> set (rg_pending ?e ?ow)" using q Cons by auto
    have sess: "session_of ?e ?ow c" "unbound ?e c" "\<And>ow. c \<in> set (rg_pending ?e ow) \<Longrightarrow> session_of ?e ow c"
      using core cin unfolding core_def paired_def by blast+
    then have own: "c \<notin> set (rg_pending ?e ow)" if "ow \<noteq> ?ow" for ow
      using that by (auto simp: session_of_def)
    have "core (?p rest)" by (rule core_pending) (use q Cons core in auto)
    then have "core ?t"
      using sess(1,2) own q Cons by (intro core_bind) (auto simp: session_of_def unbound_def)
    moreover have "idle ?t"
      unfolding idle_def
    proof (intro allI impI ballI)
      fix ow i assume *: "rg_pending ?t ow \<noteq> []" "i \<in> set (rg_awaiting ?t ow)"
      then have "ow \<noteq> ?ow" using bind by auto
      with * have "rg_pending u ow \<noteq> []" "i \<in> set (rg_awaiting u ow)" using e bind by auto
      then show "\<not> waits ?t i" using others [of ow i] bind by (simp add: waits_def)
    qed
    moreover have "rg_plugins ?t = (rg_plugins u)(rp_id rp \<mapsto> rp\<lparr>rp_client := Some c, rp_beat := now, rp_online := True\<rparr>)"
      "rg_byName ?t = (rg_byName u)(plugin_key rp \<mapsto> rp_id rp)"
      by (simp_all add: bind tables)
    moreover have "takes_tunnel now u rp (rp\<lparr>rp_client := Some c, rp_beat := now, rp_online := True\<rparr>) ?t"
    proof -
      have "rg_pending ?t = (rg_pending u)(?ow := rest)" unfolding bind by (simp add: e)
      then show ?thesis unfolding takes_tunnel_def fil [symmetric, unfolded e] using Cons [unfolded e] tun by simp
    qed
    ultimately show ?thesis using t by (auto simp: reg_inv_def bound_as_def)
  qed
  then show "reg_inv t" "\<And>bi bn. b = Some (bi, bn) \<Longrightarrow> bi = rp_id rp \<and> bn = mf_name (rp_manifest rp)"
    "\<exists>rp'. bound_as now rp rp' b \<and> takes_tunnel now u rp rp' t \<and> rg_plugins t = (rg_plugins u)(rp_id rp \<mapsto> rp') \<and>
       rg_byName t = (rg_byName u)(plugin_key rp \<mapsto> rp_id rp)" by auto
qed

lemma idle_entered_dialled: "idle s \<Longrightarrow> rg_plugins s (rp_id rp) = None \<Longrightarrow> \<not> rp_tunnel rp \<Longrightarrow> rp_client rp \<noteq> None \<Longrightarrow> idle (entered rp s)"
  by (auto simp: idle_def waits_entered) (simp_all add: entered_def)

lemma reg_inv_count:
  assumes inv: "reg_inv s" and m: "rg_conns s \<le> m" and n: "rg_nextID s \<le> n"
  shows "reg_inv (s\<lparr>rg_conns := m, rg_nextID := n\<rparr>)"
proof -
  let ?t = "s\<lparr>rg_conns := m, rg_nextID := n\<rparr>"
  from inv have c: "keyed s" "numbered s" "connected s" "paired s" "single s" "idle s"
    by (auto simp: reg_inv_def core_def)
  have "keyed ?t" using c(1) by (simp add: keyed_def)
  moreover have "numbered ?t" using c(2) n unfolding numbered_def by (simp; meson order_trans)
  moreover have "well_connected ?t rp" if "well_connected s rp" for rp
    using that m unfolding well_connected_def session_of_def by (auto split: if_splits)
  then have "connected ?t" using c(3) by (simp add: connected_def)
  moreover have "paired ?t" using c(4) unfolding paired_def session_of_def unbound_def by simp
  moreover have "single ?t" using c(5) by (simp add: single_def)
  moreover have "idle ?t" using c(6) by (simp add: idle_def waits_def)
  ultimately show ?thesis by (simp add: reg_inv_def core_def)
qed

lemma core_new_conn:
  assumes "core s"
  shows "unbound s (Dialled (rg_conns s))" "Dialled n \<notin> set (rg_pending s ow)"
proof -
  have "rp_client rp \<noteq> Some (Dialled (rg_conns s))" if "rg_plugins s i = Some rp" for i rp
  proof -
    have "well_connected s rp" using assms that by (simp add: core_def connected_def)
    then show ?thesis by (auto simp: well_connected_def session_of_def split: if_splits)
  qed
  then show "unbound s (Dialled (rg_conns s))" by (auto simp: unbound_def)
  show "Dialled n \<notin> set (rg_pending s ow)"
    using assms unfolding core_def paired_def session_of_def by blast
qed

lemma register_locked_inv:
  assumes inv: "reg_inv s0" and s: "s = s0\<lparr>rg_conns := m, rg_nextID := Suc (rg_nextID s0)\<rparr>" "rg_conns s0 \<le> m"
    and rp: "rp_id rp = instance_id (mf_name (rp_manifest rp)) (rg_nextID s)"
      "rp_tunnel rp \<Longrightarrow> rp_client rp = None \<and> rp_conn rp = None \<and> \<not> rp_online rp"
      "\<not> rp_tunnel rp \<Longrightarrow> rp_client rp = Some (Dialled (rg_conns s0)) \<and> rp_conn rp = Some (rg_conns s0) \<and> rg_conns s0 < m"
    and r: "register_locked rp now s = (b, t)"
  shows "reg_inv t" "\<And>bi bn. b = Some (bi, bn) \<Longrightarrow> bi = rp_id rp \<and> bn = mf_name (rp_manifest rp)"
    "\<exists>rp'. bound_as now rp rp' b \<and> takes_tunnel now s rp rp' t \<and>
       rg_plugins t = (rg_plugins (replace_old (rp_owner rp) (plugin_key rp) s))(rp_id rp \<mapsto> rp') \<and>
       rg_byName t = (rg_byName s)(plugin_key rp \<mapsto> rp_id rp)"
proof -
  have s_inv: "reg_inv s"
    using reg_inv_count [OF inv, of m "Suc (rg_nextID s0)"] s by simp
  let ?u = "(replace_old (rp_owner rp) (plugin_key rp) s)\<lparr>rg_byName := (rg_byName s)(plugin_key rp := None)\<rparr>"
  have u: "reg_inv ?u" by (rule replaced_inv [OF s_inv])
  have sub: "rg_plugins ?u i = None" if "rg_plugins s i = None" for i
    using that by (auto simp: replace_old_def removeAwaitingLocked_def split: option.split)
  have sub': "set (rg_awaiting ?u ow) \<subseteq> set (rg_awaiting s ow)" for ow
    using set_remove1_subset by (fastforce simp: replace_old_def removeAwaitingLocked_def split: option.splits if_splits)
  have "numbered s0" using inv by (simp add: reg_inv_def core_def)
  from new_id_fresh [OF this] have "rg_plugins s (rp_id rp) = None" "\<And>ow. rp_id rp \<notin> set (rg_awaiting s ow)"
    using s rp by simp_all
  with sub sub' have fresh: "rg_plugins ?u (rp_id rp) = None" "\<And>ow. rp_id rp \<notin> set (rg_awaiting ?u ow)" by blast+
  have old: "unbound s0 (Dialled (rg_conns s0))" "\<And>ow. Dialled (rg_conns s0) \<notin> set (rg_pending s0 ow)"
    using inv core_new_conn by (simp_all add: reg_inv_def)
  have some: "rg_plugins s i = Some q" if "rg_plugins ?u i = Some q" for i q
    using that by (auto simp: replace_old_def removeAwaitingLocked_def split: option.splits if_splits)
  have core: "core (entered rp ?u)"
  proof (rule core_entered [where name = "mf_name (rp_manifest rp)" and n = "rg_nextID s"])
    show "well_connected ?u rp" using rp s by (auto simp: well_connected_def)
    show "unbound ?u c" if "rp_client rp = Some c" for c
      using that rp old(1) some s by (cases "rp_tunnel rp") (auto simp: unbound_def)
    show "c \<notin> set (rg_pending ?u ow)" if "rp_client rp = Some c" for c ow
      using that rp old(2) s by (cases "rp_tunnel rp") auto
    show "rp_tunnel rp \<longleftrightarrow> rp_client rp = None" using rp(2,3) by fastforce
  qed (use u rp(1) fresh in \<open>auto simp: reg_inv_def\<close>)
  have idle: "idle ?u" using u by (simp add: reg_inv_def)
  have "rg_pending ?u = rg_pending s" "rg_dead ?u = rg_dead s"
    by (simp_all add: replace_old_def removeAwaitingLocked_def close_conn_def split: option.split)
  then have tk: "takes_tunnel now ?u rp rp' t = takes_tunnel now s rp rp' t" for rp' t by (rule takes_tunnel_cong)
  have "reg_inv t \<and> (\<forall>bi bn. b = Some (bi, bn) \<longrightarrow> bi = rp_id rp \<and> bn = mf_name (rp_manifest rp)) \<and>
      (\<exists>rp'. bound_as now rp rp' b \<and> takes_tunnel now s rp rp' t \<and>
       rg_plugins t = (rg_plugins (replace_old (rp_owner rp) (plugin_key rp) s))(rp_id rp \<mapsto> rp') \<and>
       rg_byName t = (rg_byName s)(plugin_key rp \<mapsto> rp_id rp))"
  proof (cases "rp_tunnel rp")
    case True
    have b: "bindNextTunnelLocked (rp_owner rp) now (entered rp ?u) = (b, t)"
      using r True by (simp add: register_locked_def Let_def entered_def)
    have none: "rp_client rp = None" using rp(2) [OF True] by simp
    note bind = bindNext_entered [OF core idle True none fresh b]
    from bind(3) have "\<exists>rp'. bound_as now rp rp' b \<and> takes_tunnel now s rp rp' t \<and>
       rg_plugins t = (rg_plugins (replace_old (rp_owner rp) (plugin_key rp) s))(rp_id rp \<mapsto> rp') \<and>
       rg_byName t = (rg_byName s)(plugin_key rp \<mapsto> rp_id rp)" by (simp add: tk)
    with bind(1,2) show ?thesis by blast
  next
    case False
    let ?o = "replace_old (rp_owner rp) (plugin_key rp) s"
    have "entered rp ?u = ?o\<lparr>rg_plugins := (rg_plugins ?o)(rp_id rp \<mapsto> rp), rg_byName := (rg_byName ?o)(plugin_key rp \<mapsto> rp_id rp)\<rparr>"
      using False by (simp add: entered_def)
    then have "(b, t) = (None, entered rp ?u)"
      using r False by (simp add: register_locked_def Let_def)
    with core idle_entered_dialled [OF idle fresh(1) False] rp(3) [OF False] show ?thesis
      by (simp add: reg_inv_def bound_as_def) (simp add: entered_def takes_tunnel_def False)
  qed
  then show "reg_inv t" "\<And>bi bn. b = Some (bi, bn) \<Longrightarrow> bi = rp_id rp \<and> bn = mf_name (rp_manifest rp)"
    "\<exists>rp'. bound_as now rp rp' b \<and> takes_tunnel now s rp rp' t \<and>
       rg_plugins t = (rg_plugins (replace_old (rp_owner rp) (plugin_key rp) s))(rp_id rp \<mapsto> rp') \<and>
       rg_byName t = (rg_byName s)(plugin_key rp \<mapsto> rp_id rp)" by auto
qed

text \<open>A registration that gets as far as the table: what it enters, and what it may bind.\<close>

lemma Register_cases:
  assumes inv: "reg_inv s"
  obtains e where "Register k d ow tun data sock now s = (Inl e, s) \<or>
      Register k d ow tun data sock now s =
        (Inl EClosed, s\<lparr>rg_conns := (if tun then rg_conns s else rg_conns s + 1), rg_nextID := Suc (rg_nextID s)\<rparr>)"
  | m rp b t s0 where "register_checks k data = Inr m"
      "rp = \<lparr>rp_id = instance_id (mf_name m) (Suc (rg_nextID s)), rp_socket = sock, rp_manifest = m,
             rp_client = (if tun then None else Some (Dialled (rg_conns s))), rp_conn = (if tun then None else Some (rg_conns s)),
             rp_beat = now, rp_online = \<not> tun, rp_owner = ow, rp_tunnel = tun\<rparr>"
      "s0 = s\<lparr>rg_conns := (if tun then rg_conns s else rg_conns s + 1), rg_nextID := Suc (rg_nextID s)\<rparr>"
      "register_locked rp now s0 = (b, t)" "reg_inv t" "\<not> rg_closed s"
      "\<exists>rp'. bound_as now rp rp' b \<and> takes_tunnel now s rp rp' t \<and>
         rg_plugins t = (rg_plugins (replace_old ow (plugin_key rp) s0))(rp_id rp \<mapsto> rp') \<and>
         rg_byName t = (rg_byName s)(plugin_key rp \<mapsto> rp_id rp)"
      "\<And>bi bn. b = Some (bi, bn) \<Longrightarrow> bi = rp_id rp \<and> bn = mf_name m"
      "Register k d ow tun data sock now s =
         (Inr (rp_id rp, rg_heartbeat t),
          (case b of None \<Rightarrow> id | Some _ \<Rightarrow> emit (event_of PluginEventOnline (rp_id rp) (mf_name m) True now))
            (emit (event_of PluginEventRegister (rp_id rp) (mf_name m) (online_now t (rp_id rp)) now) t))"
proof (cases "register_checks k data")
  case (Inl e)
  then show ?thesis by (intro that(1) [of e]) (simp add: Register_def)
next
  case (Inr m)
  let ?s0 = "s\<lparr>rg_conns := (if tun then rg_conns s else rg_conns s + 1), rg_nextID := Suc (rg_nextID s)\<rparr>"
  let ?rp = "\<lparr>rp_id = instance_id (mf_name m) (Suc (rg_nextID s)), rp_socket = sock, rp_manifest = m,
             rp_client = (if tun then None else Some (Dialled (rg_conns s))), rp_conn = (if tun then None else Some (rg_conns s)),
             rp_beat = now, rp_online = \<not> tun, rp_owner = ow, rp_tunnel = tun\<rparr>"
  have s2: "(let s1 = (if tun then s else s\<lparr>rg_conns := rg_conns s + 1\<rparr>) in s1\<lparr>rg_nextID := rg_nextID s1 + 1\<rparr>) = ?s0"
    by simp
  consider "\<not> tun \<and> d \<noteq> None" | "\<not> (\<not> tun \<and> d \<noteq> None)" "rg_closed s" | "\<not> (\<not> tun \<and> d \<noteq> None)" "\<not> rg_closed s" by blast
  then show ?thesis
  proof cases
    case 1
    with Inr show ?thesis by (intro that(1) [of "EDial (the d)"]) (simp add: Register_def)
  next
    case 2
    with Inr show ?thesis by (intro that(1) [of EClosed]) (simp add: Register_def Let_def)
  next
    case 3
    obtain b t where r: "register_locked ?rp now ?s0 = (b, t)" by fastforce
    have tk: "takes_tunnel now ?s0 rp rp' t = takes_tunnel now s rp rp' t" for rp rp' t
      by (rule takes_tunnel_cong) simp_all
    have t: "reg_inv t" and b: "\<And>bi bn. b = Some (bi, bn) \<Longrightarrow> bi = rp_id ?rp \<and> bn = mf_name m"
      and tab: "\<exists>rp'. bound_as now ?rp rp' b \<and> takes_tunnel now s ?rp rp' t \<and>
         rg_plugins t = (rg_plugins (replace_old (rp_owner ?rp) (plugin_key ?rp) ?s0))(rp_id ?rp \<mapsto> rp') \<and>
         rg_byName t = (rg_byName ?s0)(plugin_key ?rp \<mapsto> rp_id ?rp)"
      using register_locked_inv [OF inv refl _ _ _ _ r, unfolded tk] by simp_all
    have "Register k d ow tun data sock now s =
         (Inr (rp_id ?rp, rg_heartbeat t),
          (case b of None \<Rightarrow> id | Some _ \<Rightarrow> emit (event_of PluginEventOnline (rp_id ?rp) (mf_name m) True now))
            (emit (event_of PluginEventRegister (rp_id ?rp) (mf_name m) (online_now t (rp_id ?rp)) now) t))"
    proof (cases b)
      case None
      with Inr 3 r show ?thesis by (cases tun) (simp_all add: Register_def Let_def)
    next
      case (Some x)
      with b have "x = (rp_id ?rp, mf_name m)" by (cases x) simp
      with Inr 3 r Some show ?thesis by (cases tun) (simp_all add: Register_def Let_def)
    qed
    with t b tab 3 show ?thesis by (intro that(2) [OF Inr refl refl r]) auto
  qed
qed

lemma reg_inv_Register: "reg_inv s \<Longrightarrow> reg_inv (snd (Register k d ow tun data sock now s))"
  by (rule Register_cases [of s k d ow tun data sock now])
    (auto simp: reg_inv_count split: option.split)

section \<open>Runs\<close>

inductive reg_step :: "sdk \<Rightarrow> registry \<Rightarrow> registry \<Rightarrow> bool" for k where
  "reg_step k s (snd (Register k d ow tun data sock now s))"
| "reg_step k s (snd (Heartbeat i now s))"
| "reg_step k s (snd (Deregister i now s))"
| "reg_step k s (CheckOffline ids timeout now s)"
| "reg_step k s (snd (Connect_begin ow now s))"
| "n < length (rg_sessions s) \<Longrightarrow> reg_step k s (session_end n s)"
| "reg_step k s (tunnelDisconnected ids ow now s)"
| "reg_step k s (snd (Subscribe s))"
| "reg_step k s (unsubscribe i s)"
| "\<forall>i. rg_plugins s i \<noteq> None \<longrightarrow> i \<in> set ids \<Longrightarrow> reg_step k s (Close_registry ids s)"

inductive reg_run :: "sdk \<Rightarrow> registry \<Rightarrow> bool" for k where
  start: "reg_run k (NewRegistryServer h)"
| step: "reg_run k s \<Longrightarrow> reg_step k s t \<Longrightarrow> reg_run k t"

lemma reg_inv_step: "reg_step k s t \<Longrightarrow> reg_inv s \<Longrightarrow> reg_inv t"
proof (induction rule: reg_step.induct)
  case (8 s)
  then show ?case by (subst reg_inv_cong(1) [of _ s]) (simp_all add: Subscribe_def)
next
  case (9 s i)
  then show ?case by (subst reg_inv_cong(1) [of _ s]) (simp_all add: unsubscribe_def)
qed (simp_all add: reg_inv_Register reg_inv_Heartbeat reg_inv_Deregister reg_inv_CheckOffline reg_inv_Connect_begin
      reg_inv_session_end reg_inv_tunnelDisconnected reg_inv_Close)

lemma reg_inv_run: "reg_run k s \<Longrightarrow> reg_inv s"
  by (induction rule: reg_run.induct) (auto simp: reg_inv_New dest: reg_inv_step)

end
