(* ===== verification/Plugin_Registry_Props.thy ===== *)
theory Plugin_Registry_Props imports Plugin_Registry_Run begin

text \<open>
  What the plugin registry promises: consistent tables in every run, who sees which plugin, what a registration
  changes, what a scan leaves behind, and how tunnels are paired with registrations.
\<close>

section \<open>Runs\<close>

text \<open>C11: the registry is consistent at every moment of every run.\<close>

theorem registry_consistent:
  assumes run: "reg_run k s" and i: "rg_plugins s i = Some rp"
  shows "rp_id rp = i \<and> rg_byName s (plugin_key rp) = Some i \<and>
    (rp_online rp \<longrightarrow> rp_client rp \<noteq> None) \<and>
    (\<forall>n. rp_client rp = Some (Tunnelled n) \<longrightarrow>
       rp_tunnel rp \<and> n < length (rg_sessions s) \<and> rg_sessions s ! n = rp_owner rp) \<and>
    (\<forall>j rq. rg_plugins s j = Some rq \<longrightarrow> rp_client rq = rp_client rp \<longrightarrow> rp_client rp \<noteq> None \<longrightarrow> j = i) \<and>
    (rp_client rp = None \<longrightarrow> i \<in> set (rg_awaiting s (rp_owner rp)) \<and> rg_pending s (rp_owner rp) = [])"
proof -
  from reg_inv_run [OF run] have core: "core s" and idle: "idle s" by (simp_all add: reg_inv_def)
  then have c: "keyed s" "well_connected s rp" "paired s" "single s"
    using i by (auto simp: core_def connected_def)
  have "rp_id rp = i \<and> rg_byName s (plugin_key rp) = Some i" using c(1) i by (auto simp: keyed_def)
  moreover have "rp_online rp \<longrightarrow> rp_client rp \<noteq> None"
    "\<forall>n. rp_client rp = Some (Tunnelled n) \<longrightarrow> rp_tunnel rp \<and> n < length (rg_sessions s) \<and> rg_sessions s ! n = rp_owner rp"
    using c(2) by (auto simp: well_connected_def session_of_def split: if_splits)
  moreover have "\<forall>j rq. rg_plugins s j = Some rq \<longrightarrow> rp_client rq = rp_client rp \<longrightarrow> rp_client rp \<noteq> None \<longrightarrow> j = i"
    using c(4) i unfolding single_def by (metis option.exhaust)
  moreover have "rp_client rp = None \<longrightarrow> i \<in> set (rg_awaiting s (rp_owner rp)) \<and> rg_pending s (rp_owner rp) = []"
    using c(3) i idle unfolding paired_def idle_def waits_def by blast
  ultimately show ?thesis by blast
qed

section \<open>Who sees which plugin\<close>

definition serves :: "registry \<Rightarrow> decoder_client \<Rightarrow> string set \<Rightarrow> bool" where
  "serves s c owners \<longleftrightarrow> (\<exists>i rp. rg_plugins s i = Some rp \<and> rp_client rp = Some c \<and> rp_online rp \<and> rp_owner rp \<in> owners)"

lemma FindFor_serves: "FindFor k ids ow hint s = Some (c, r) \<Longrightarrow> serves s c {[], ow}"
  by (induction k ids ow hint s rule: FindFor.induct)
    (auto simp: found_def usable_def visible_to_def serves_def split: option.splits if_splits)

lemma findByKey_serves: "findByKey k ow keys s = Some (c, r) \<Longrightarrow> serves s c {[], ow}"
  by (induction k ow keys s rule: findByKey.induct)
    (auto simp: found_def usable_def serves_def split: option.splits if_splits)

lemma findByKeyAllowed_serves: "findByKeyAllowed k keys al s = Some (c, r) \<Longrightarrow> serves s c (set al)"
  by (induction k keys al s rule: findByKeyAllowed.induct)
    (auto simp: found_def usable_def serves_def split: option.splits if_splits)

lemma serves_mono: "serves s c A \<Longrightarrow> A \<subseteq> B \<Longrightarrow> serves s c B"
  unfolding serves_def by blast

text \<open>Whatever the name or the protocol asked for, with or without a slash in it, a lookup only returns the client of an
  online plugin that is anonymous or belongs to one of the owners it was asked for.
\<close>

theorem lookup_isolation:
  "(FindFor k ids ow hint s = Some (c, r) \<longrightarrow> serves s c {[], ow}) \<and>
   (FindByNameFor k ow name s = Some (c, r) \<longrightarrow> serves s c {[], ow}) \<and>
   (FindByNameAmong k owners name s = Some (c, r) \<longrightarrow> serves s c (insert [] (set owners)))"
proof (intro conjI impI)
  show "FindFor k ids ow hint s = Some (c, r) \<Longrightarrow> serves s c {[], ow}" by (rule FindFor_serves)
  show "FindByNameFor k ow name s = Some (c, r) \<Longrightarrow> serves s c {[], ow}"
    by (simp add: FindByNameFor_def findByKey_serves)
  show "FindByNameAmong k owners name s = Some (c, r) \<Longrightarrow> serves s c (insert [] (set owners))"
    by (auto simp: FindByNameAmong_def FindByNameFor_def amongCandidates_def split: if_splits
        dest: findByKey_serves findByKeyAllowed_serves intro: serves_mono)
qed

text \<open>Names without a slash, which the validator of manifests requires, make the keys of the table unambiguous.\<close>

definition plain_names :: "registry \<Rightarrow> bool" where
  "plain_names s \<longleftrightarrow> (\<forall>i rp. rg_plugins s i = Some rp \<longrightarrow> CHR ''/'' \<notin> set (mf_name (rp_manifest rp)))"

lemma pluginKey_inject:
  assumes "CHR ''/'' \<notin> set n" "CHR ''/'' \<notin> set m"
  shows "pluginKey a n = pluginKey b m \<longleftrightarrow> a = b \<and> n = m"
proof -
  have last: "takeWhile (\<lambda>c. c \<noteq> CHR ''/'') (rev (pluginKey x y)) = rev y" if "CHR ''/'' \<notin> set y" for x y
    using that takeWhile_append2 [of "rev y" "\<lambda>c. c \<noteq> CHR ''/''" "CHR ''/'' # rev x"]
    by (cases "x = []") (auto simp: pluginKey_def takeWhile_eq_all_conv)
  have "n = m" if "pluginKey a n = pluginKey b m" using last [OF assms(1), of a] last [OF assms(2), of b] that by simp
  then show ?thesis using assms by (auto simp: pluginKey_def split: if_splits)
qed

lemma by_name_key:
  assumes run: "reg_run k s" and plain: "plain_names s" "CHR ''/'' \<notin> set name"
  shows "rg_byName s (pluginKey ow name) = Some i \<longleftrightarrow>
    (\<exists>rp. rg_plugins s i = Some rp \<and> rp_owner rp = ow \<and> mf_name (rp_manifest rp) = name)"
proof -
  from reg_inv_run [OF run] have keyed: "keyed s" by (simp add: reg_inv_def core_def)
  have key: "plugin_key rp = pluginKey ow name \<longleftrightarrow> rp_owner rp = ow \<and> mf_name (rp_manifest rp) = name"
    if "rg_plugins s j = Some rp" for j rp
    using that plain by (intro pluginKey_inject) (auto simp: plain_names_def)
  show ?thesis
  proof
    assume "rg_byName s (pluginKey ow name) = Some i"
    with keyed obtain rp where "rg_plugins s i = Some rp" "plugin_key rp = pluginKey ow name"
      unfolding keyed_def by blast
    with key show "\<exists>rp. rg_plugins s i = Some rp \<and> rp_owner rp = ow \<and> mf_name (rp_manifest rp) = name" by blast
  next
    assume "\<exists>rp. rg_plugins s i = Some rp \<and> rp_owner rp = ow \<and> mf_name (rp_manifest rp) = name"
    with keyed show "rg_byName s (pluginKey ow name) = Some i" unfolding keyed_def by blast
  qed
qed

text \<open>The plugin a name stands for: that of the owner, in the table of one's own and of the anonymous plugins.\<close>

definition named :: "registry \<Rightarrow> string \<Rightarrow> string \<Rightarrow> registered_plugin \<Rightarrow> bool" where
  "named s ow name rp \<longleftrightarrow> rg_plugins s (rp_id rp) = Some rp \<and> rp_owner rp = ow \<and> mf_name (rp_manifest rp) = name"

text \<open>C25: asking for a plugin by name yields the caller's own one when there is one, even if it is offline while an
  anonymous plugin of that name is online, and the anonymous one otherwise.
\<close>

theorem FindByNameFor_spec:
  assumes run: "reg_run k s" and plain: "plain_names s" "CHR ''/'' \<notin> set name" and ow: "ow \<noteq> []"
  shows "(named s ow name rp \<longrightarrow> FindByNameFor k ow name s = (if rp_online rp then found k rp else None)) \<and>
    ((\<nexists>rp. named s ow name rp) \<and> named s [] name rq \<longrightarrow>
       FindByNameFor k ow name s = (if rp_online rq then found k rq else None)) \<and>
    ((\<nexists>rp. named s ow name rp \<or> named s [] name rp) \<longrightarrow> FindByNameFor k ow name s = None)"
proof -
  note key = by_name_key [OF run plain]
  have named: "(\<exists>rp. rg_plugins s i = Some rp \<and> rp_owner rp = o' \<and> mf_name (rp_manifest rp) = name) \<longleftrightarrow>
      (\<exists>rp. named s o' name rp \<and> rp_id rp = i)" for o' i
    unfolding named_def using registry_consistent [OF run] by metis
  have none: "rg_byName s (pluginKey o' name) = None \<longleftrightarrow> (\<nexists>rp. named s o' name rp)" for o'
    using key [of o'] named [of _ o'] by (metis not_None_eq)
  have some: "rg_byName s (pluginKey o' name) = Some (rp_id rp)" if "named s o' name rp" for o' rp
    using key [of o' "rp_id rp"] that by (auto simp: named_def)
  have online: "usable rp \<longleftrightarrow> rp_online rp" if "named s o' name rp" for o' rp
    using registry_consistent [OF run, of "rp_id rp" rp] that by (auto simp: named_def usable_def)
  have hit: "findByKey k ow (pluginKey o' name # keys) s = (if rp_online rp then found k rp else None)"
    if "named s o' name rp" "o' = ow \<or> o' = []" for o' rp keys
    using that some [OF that(1)] online [OF that(1)] by (auto simp: named_def)
  have cand: "pluginKeyCandidates ow name = [pluginKey ow name, pluginKey [] name]"
    using plain ow by (simp add: pluginKeyCandidates_def pluginKey_def)
  show ?thesis
    unfolding FindByNameFor_def cand
  proof (intro conjI impI)
    show "findByKey k ow [pluginKey ow name, pluginKey [] name] s = (if rp_online rp then found k rp else None)"
      if "named s ow name rp" using hit [OF that] by simp
  next
    assume n: "(\<nexists>rp. named s ow name rp) \<and> named s [] name rq"
    then have "findByKey k ow [pluginKey ow name, pluginKey [] name] s = findByKey k ow [pluginKey [] name] s"
      using none [of ow] by simp
    with hit [of "[]" rq "[]"] n
    show "findByKey k ow [pluginKey ow name, pluginKey [] name] s = (if rp_online rq then found k rq else None)" by simp
  next
    assume "\<nexists>rp. named s ow name rp \<or> named s [] name rp"
    then show "findByKey k ow [pluginKey ow name, pluginKey [] name] s = None"
      using none [of ow] none [of "[]"] by simp
  qed
qed

section \<open>What a registration changes\<close>

lemma replace_old_table:
  assumes "keyed s"
  shows "rg_plugins (replace_old ow key s) j =
    (case rg_plugins s j of None \<Rightarrow> None | Some rq \<Rightarrow> if plugin_key rq = key then None else Some rq)"
proof -
  have k: "rg_byName s (plugin_key rq) = Some j" if "rg_plugins s j = Some rq" for rq
    using assms that unfolding keyed_def by blast
  show ?thesis
  proof (cases "rg_byName s key")
    case None
    then have "plugin_key rq \<noteq> key" if "rg_plugins s j = Some rq" for rq
      using k [OF that] by auto
    moreover have "replace_old ow key s = s" using None by (simp add: replace_old_def)
    ultimately show ?thesis by (cases "rg_plugins s j") auto
  next
    case (Some old)
    with assms obtain rp where rp: "rg_plugins s old = Some rp" "plugin_key rp = key"
      unfolding keyed_def by blast
    have tab: "rg_plugins (replace_old ow key s) = (rg_plugins s)(old := None)"
      by (simp add: replace_old_def removeAwaitingLocked_def Some rp(1))
    show ?thesis
    proof (cases "j = old")
      case False
      have "plugin_key rq \<noteq> key" if "rg_plugins s j = Some rq" for rq
        using k [OF that] Some False by fastforce
      with False show ?thesis by (cases "rg_plugins s j") (simp_all add: tab)
    qed (simp add: tab rp)
  qed
qed

text \<open>C22: a successful registration enters its instance under a new id, removes the instance that held the same key and
  changes no other entry of the table.  A plugin that was dialled is online at once with its own connection and
  touches no waiting tunnel.  A tunnel plugin takes the first live waiting tunnel of its owner, which leaves the
  queue, and is online; when none waits it is offline and stands last in the owner's queue of waiting
  registrations.  The tunnels of other owners stay as they are.  So in every reachable state the tunnel goes to the
  new instance itself, never to an earlier one.\<close>

theorem Register_effect:
  assumes run: "reg_run k s" and ok: "Register k d ow tun data sock now s = (Inr (i, hb), t)"
  shows "\<exists>m rp. register_checks k data = Inr m \<and> rg_plugins s i = None \<and>
    rg_plugins t = (\<lambda>j. if j = i then Some rp
        else (case rg_plugins s j of None \<Rightarrow> None
          | Some rq \<Rightarrow> if plugin_key rq = pluginKey ow (mf_name m) then None else Some rq)) \<and>
    rg_byName t = (rg_byName s)(pluginKey ow (mf_name m) \<mapsto> i) \<and>
    rp_id rp = i \<and> rp_owner rp = ow \<and> rp_manifest rp = m \<and> rp_tunnel rp = tun \<and>
    (rp_online rp \<longleftrightarrow> rp_client rp \<noteq> None) \<and>
    (\<not> tun \<longrightarrow> rp_client rp = Some (Dialled (rg_conns s)) \<and> rg_pending t = rg_pending s) \<and>
    (tun \<longrightarrow>
      (case filter (\<lambda>c. \<not> tunnelClientClosed s c) (rg_pending s ow) of
         [] \<Rightarrow> rp_client rp = None \<and> rg_pending t = (rg_pending s)(ow := []) \<and>
           rg_awaiting t ow \<noteq> [] \<and> last (rg_awaiting t ow) = i
       | c # rest \<Rightarrow> rp_client rp = Some c \<and> rg_pending t = (rg_pending s)(ow := rest)))"
proof -
  have inv: "reg_inv s" by (rule reg_inv_run [OF run])
  show ?thesis
  proof (rule Register_cases [OF inv, of k d ow tun data sock now])
    fix m rp b u s0
    assume r: "register_checks k data = Inr m"
      and rp: "rp = \<lparr>rp_id = instance_id (mf_name m) (Suc (rg_nextID s)), rp_socket = sock, rp_manifest = m,
             rp_client = (if tun then None else Some (Dialled (rg_conns s))), rp_conn = (if tun then None else Some (rg_conns s)),
             rp_beat = now, rp_online = \<not> tun, rp_owner = ow, rp_tunnel = tun\<rparr>"
      and s0: "s0 = s\<lparr>rg_conns := (if tun then rg_conns s else rg_conns s + 1), rg_nextID := Suc (rg_nextID s)\<rparr>"
      and tab: "\<exists>rp'. bound_as now rp rp' b \<and> takes_tunnel now s rp rp' u \<and> rg_plugins u = (rg_plugins (replace_old ow (plugin_key rp) s0))(rp_id rp \<mapsto> rp') \<and>
         rg_byName u = (rg_byName s)(plugin_key rp \<mapsto> rp_id rp)"
      and lock: "register_locked rp now s0 = (b, u)"
      and res: "Register k d ow tun data sock now s =
         (Inr (rp_id rp, rg_heartbeat u),
          (case b of None \<Rightarrow> id | Some _ \<Rightarrow> emit (event_of PluginEventOnline (rp_id rp) (mf_name m) True now))
            (emit (event_of PluginEventRegister (rp_id rp) (mf_name m) (online_now u (rp_id rp)) now) u))"
    have num: "numbered s" "keyed s" using inv by (simp_all add: reg_inv_def core_def)
    have key: "plugin_key rp = pluginKey ow (mf_name m)" by (simp add: rp)
    have keyed0: "keyed s0" using num(2) s0 by (simp add: keyed_def)
    from ok res have i: "i = rp_id rp" and tu: "rg_plugins t = rg_plugins u" "rg_byName t = rg_byName u"
        "rg_pending t = rg_pending u" "rg_awaiting t = rg_awaiting u"
      by (auto split: option.splits)
    from tab obtain rp' where tk: "takes_tunnel now s rp rp' u" and rp': "bound_as now rp rp' b"
      "rg_plugins u = (rg_plugins (replace_old ow (plugin_key rp) s0))(rp_id rp \<mapsto> rp')"
      "rg_byName u = (rg_byName s)(plugin_key rp \<mapsto> rp_id rp)" by blast
    have nobind: "b = None" if "\<not> tun" using lock that rp by (simp add: register_locked_def Let_def)
    have "rg_plugins t j = (if j = i then Some rp'
        else (case rg_plugins s j of None \<Rightarrow> None
          | Some rq \<Rightarrow> if plugin_key rq = pluginKey ow (mf_name m) then None else Some rq))" for j
      using replace_old_table [OF keyed0, of ow "plugin_key rp" j] by (simp add: tu rp'(2) i s0 key split: option.split)
    moreover have "rg_plugins s i = None" using new_id_fresh(1) [OF num(1)] by (simp add: i rp)
    moreover have "\<not> tun \<longrightarrow> rp_client rp' = Some (Dialled (rg_conns s)) \<and> rg_pending t = rg_pending s"
      using tk by (simp add: takes_tunnel_def rp tu)
    moreover have "tun \<longrightarrow>
      (case filter (\<lambda>c. \<not> tunnelClientClosed s c) (rg_pending s ow) of
         [] \<Rightarrow> rp_client rp' = None \<and> rg_pending t = (rg_pending s)(ow := []) \<and>
           rg_awaiting t ow \<noteq> [] \<and> last (rg_awaiting t ow) = i
       | c # rest \<Rightarrow> rp_client rp' = Some c \<and> rg_pending t = (rg_pending s)(ow := rest))"
      using tk by (auto simp: takes_tunnel_def rp tu i split: list.splits)
    moreover have "rp_id rp' = i \<and> rp_owner rp' = ow \<and> rp_manifest rp' = m \<and> rp_tunnel rp' = tun \<and>
        (rp_online rp' \<longleftrightarrow> rp_client rp' \<noteq> None)"
      using rp' rp by (auto simp: i bound_as_def)
    moreover have "rg_byName t = (rg_byName s)(pluginKey ow (mf_name m) \<mapsto> i)" using rp'(3) by (simp add: tu i key)
    ultimately show ?thesis using r by (intro exI [of _ m] exI [of _ rp']) (simp add: fun_eq_iff)
  qed (use ok in \<open>auto\<close>)
qed

section \<open>Tunnels meet registrations\<close>

text \<open>A new tunnel serves the plugin of its owner that has waited longest, whichever process opened it; only when none
  waits does it wait itself, behind the live ones.
\<close>

theorem Connect_serves_first:
  assumes ok: "Connect_begin ow now s = (Inr n, t)"
  shows "(rg_awaiting s ow = pre @ i # rest \<and> (\<forall>j \<in> set pre. \<not> waits s j) \<and> waits s i \<longrightarrow>
      map_option rp_client (rg_plugins t i) = Some (Some (Tunnelled n)) \<and> online_now t i \<and> rg_awaiting t ow = rest \<and>
      (\<forall>j. j \<noteq> i \<longrightarrow> rg_plugins t j = rg_plugins s j) \<and> rg_pending t = rg_pending s) \<and>
    ((\<forall>j \<in> set (rg_awaiting s ow). \<not> waits s j) \<longrightarrow>
      rg_plugins t = rg_plugins s \<and>
      rg_pending t ow = filter (\<lambda>c. \<not> tunnelClientClosed s c) (rg_pending s ow) @ [Tunnelled n])"
proof -
  let ?s = "s\<lparr>rg_sessions := rg_sessions s @ [ow]\<rparr>"
  have n: "n = length (rg_sessions s)" and t: "t = bindTunnelClient ow (Tunnelled n) now ?s" and opened: "\<not> rg_closed s"
    using ok by (auto simp: Connect_begin_def Let_def split: if_splits)
  have w: "waits ?s j = waits s j" for j by (simp add: waits_def)
  show ?thesis
  proof (intro conjI impI)
    assume a: "rg_awaiting s ow = pre @ i # rest \<and> (\<forall>j \<in> set pre. \<not> waits s j) \<and> waits s i"
    then obtain rp where rp: "rg_plugins s i = Some rp" "rp_client rp = None" by (auto simp: waits_def)
    have "next_awaiting ?s (pre @ i # rest) = Some (i, rp, rest)"
      using a rp next_awaiting_skip [of pre ?s "i # rest"] by (simp add: w)
    then have b: "bindClientToAwaitingLocked ow (Tunnelled n) now ?s = (Some (i, mf_name (rp_manifest rp)),
        ?s\<lparr>rg_plugins := (rg_plugins s)(i \<mapsto> rp\<lparr>rp_client := Some (Tunnelled n), rp_beat := now, rp_online := True\<rparr>),
          rg_awaiting := (rg_awaiting s)(ow := rest)\<rparr>)"
      using a by (simp add: bindClientToAwaitingLocked_def)
    with opened show "map_option rp_client (rg_plugins t i) = Some (Some (Tunnelled n))" "online_now t i"
      "rg_awaiting t ow = rest" "\<forall>j. j \<noteq> i \<longrightarrow> rg_plugins t j = rg_plugins s j" "rg_pending t = rg_pending s"
      by (simp_all add: t bindTunnelClient_def online_now_def)
  next
    assume "\<forall>j \<in> set (rg_awaiting s ow). \<not> waits s j"
    then have "next_awaiting ?s (rg_awaiting s ow) = None" by (simp add: next_awaiting_None w)
    with opened show "rg_plugins t = rg_plugins s"
      "rg_pending t ow = filter (\<lambda>c. \<not> tunnelClientClosed s c) (rg_pending s ow) @ [Tunnelled n]"
      by (simp_all add: t bindTunnelClient_def bindClientToAwaitingLocked_def pruneTunnelPendingLocked_def tunnelClientClosed_def
          cong: decoder_client.case_cong)
  qed
qed

section \<open>Silent plugins and dead tunnels\<close>

definition client_dead :: "registry \<Rightarrow> registered_plugin \<Rightarrow> bool" where
  "client_dead s rp \<longleftrightarrow> (case rp_client rp of None \<Rightarrow> False | Some c \<Rightarrow> tunnelClientClosed s c)"

definition scanned :: "registry \<Rightarrow> int \<Rightarrow> int \<Rightarrow> registered_plugin \<Rightarrow> registered_plugin option" where
  "scanned s timeout now rp =
    (if rp_tunnel rp \<and> rp_client rp = None then (if now - rp_beat rp > 2 * timeout then None else Some rp)
     else if rp_tunnel rp then Some (rp\<lparr>rp_online := rp_online rp \<and> \<not> client_dead s rp\<rparr>)
     else Some (rp\<lparr>rp_online := rp_online rp \<and> now - rp_beat rp \<le> timeout\<rparr>))"

lemma check_one_table:
  "rg_plugins (snd (snd (check_one timeout now i s))) j =
     (if j = i then Option.bind (rg_plugins s i) (scanned s timeout now) else rg_plugins s j)"
  "rg_dead (snd (snd (check_one timeout now i s))) = rg_dead s"
  by (auto simp: check_one_def check_tunnel_def scanned_def client_dead_def forget_def removeAwaitingLocked_def Let_def
      split: option.split)

lemma tunnelClientClosed_cong: "rg_dead s = rg_dead t \<Longrightarrow> tunnelClientClosed s = tunnelClientClosed t"
  by (intro ext) (simp add: tunnelClientClosed_def split: decoder_client.split)

lemma scanned_cong: "rg_dead s = rg_dead t \<Longrightarrow> scanned s = scanned t"
  by (intro ext) (simp add: scanned_def client_dead_def tunnelClientClosed_cong [of s t] split: option.split)

lemma check_loop_table:
  "distinct ids \<Longrightarrow> rg_plugins (snd (snd (check_loop timeout now ids s))) j =
     (if j \<in> set ids then Option.bind (rg_plugins s j) (scanned s timeout now) else rg_plugins s j)"
proof (induction ids arbitrary: s)
  case (Cons i ids)
  let ?s = "snd (snd (check_one timeout now i s))"
  have "snd (snd (check_loop timeout now (i # ids) s)) = snd (snd (check_loop timeout now ids ?s))"
    by (simp split: prod.split)
  with Cons scanned_cong [OF check_one_table(2)] show ?case by (auto simp: check_one_table(1))
qed simp

lemma emit_all_fields [simp]:
  "rg_plugins (emit_all es s) = rg_plugins s" "rg_byName (emit_all es s) = rg_byName s"
  "rg_pending (emit_all es s) = rg_pending s" "rg_dead (emit_all es s) = rg_dead s"
  by (induction es arbitrary: s) auto

text \<open>A scan, in whatever order it visits the plugins, takes offline exactly the dialled plugins that have been silent for
  more than the timeout and the tunnelled ones whose session is closed, removes the ones that have waited for a tunnel
  for more than twice the timeout, and changes no other entry.
\<close>

theorem CheckOffline_effect:
  assumes "distinct ids" "\<And>i. rg_plugins s i \<noteq> None \<Longrightarrow> i \<in> set ids"
  shows "rg_plugins (CheckOffline ids timeout now s) = (\<lambda>i. Option.bind (rg_plugins s i) (scanned s timeout now))"
proof
  fix i
  have "rg_plugins (CheckOffline ids timeout now s) i = rg_plugins (snd (snd (check_loop timeout now ids s))) i"
    by (simp add: CheckOffline_def split: prod.split)
  also have "\<dots> = Option.bind (rg_plugins s i) (scanned s timeout now)"
    using assms check_loop_table [of ids timeout now s i] by (cases "rg_plugins s i") auto
  finally show "rg_plugins (CheckOffline ids timeout now s) i = Option.bind (rg_plugins s i) (scanned s timeout now)" .
qed

text \<open>The hook of an ended stream: of its owner's plugins, those bound to a closed session go offline.\<close>

lemma mark_lost_table:
  "distinct ids \<Longrightarrow> rg_plugins (snd (mark_lost ow now ids s)) j =
     (if j \<in> set ids then map_option (\<lambda>rp. rp\<lparr>rp_online := rp_online rp \<and> \<not> lost_tunnel s ow rp\<rparr>) (rg_plugins s j)
      else rg_plugins s j) \<and> rg_dead (snd (mark_lost ow now ids s)) = rg_dead s \<and>
     rg_pending (snd (mark_lost ow now ids s)) = rg_pending s"
proof (induction ids arbitrary: s)
  case (Cons i ids)
  show ?case
  proof (cases "\<exists>rp. rg_plugins s i = Some rp \<and> lost_tunnel s ow rp")
    case True
    then obtain rp where rp: "rg_plugins s i = Some rp" "lost_tunnel s ow rp" by blast
    let ?s = "s\<lparr>rg_plugins := (rg_plugins s)(i \<mapsto> rp\<lparr>rp_online := False\<rparr>)\<rparr>"
    have l: "lost_tunnel ?s = lost_tunnel s" by (intro ext) (simp add: lost_tunnel_def tunnelClientClosed_cong [of ?s s] split: option.split)
    have "snd (mark_lost ow now (i # ids) s) = snd (mark_lost ow now ids ?s)" by (simp add: rp split: prod.split)
    with Cons rp l show ?thesis by auto
  next
    case False
    then have m: "mark_lost ow now (i # ids) s = mark_lost ow now ids s" by (auto split: option.split)
    have "map_option (\<lambda>rp. rp\<lparr>rp_online := rp_online rp \<and> \<not> lost_tunnel s ow rp\<rparr>) (rg_plugins s i) = rg_plugins s i"
      using False by (cases "rg_plugins s i") auto
    with Cons show ?thesis unfolding m by auto
  qed
qed simp

lemma tunnelDisconnected_effect:
  assumes "distinct ids" "\<And>i. rg_plugins s i \<noteq> None \<Longrightarrow> i \<in> set ids" "\<not> rg_closed s"
  shows "rg_plugins (tunnelDisconnected ids ow now s) =
      (\<lambda>i. map_option (\<lambda>rp. rp\<lparr>rp_online := rp_online rp \<and> \<not> lost_tunnel s ow rp\<rparr>) (rg_plugins s i))"
proof
  fix i
  have "rg_plugins (tunnelDisconnected ids ow now s) i = rg_plugins (snd (mark_lost ow now ids s)) i"
    using assms(3) by (simp add: tunnelDisconnected_def split: prod.split)
  then show "rg_plugins (tunnelDisconnected ids ow now s) i =
      map_option (\<lambda>rp. rp\<lparr>rp_online := rp_online rp \<and> \<not> lost_tunnel s ow rp\<rparr>) (rg_plugins s i)"
    using assms(1,2) mark_lost_table [of ids ow now s i] by (cases "rg_plugins s i") auto
qed

text \<open>
  Leaving the registry takes nothing but an instance id: the caller's owner is not compared with the plugin's, and ids
  are the name with a number that counts up.
\<close>

lemma anyone_can_deregister:
  assumes "rg_plugins s i = Some rp"
  shows "fst (Deregister i now s) = Inr ()" "rg_plugins (snd (Deregister i now s)) i = None"
    "rg_byName (snd (Deregister i now s)) (plugin_key rp) = None"
  using assms by (simp_all add: Deregister_def forget_def removeAwaitingLocked_def)

section \<open>Subscribers\<close>

text \<open>A subscriber that does not read keeps the oldest events that fit into its buffer, in the order they were emitted;
  the others are lost, and the registry never waits.
\<close>

theorem slow_subscriber_keeps_oldest:
  "rg_listeners (emit_all es s) =
     map (\<lambda>(i, ch). (i, if length ch \<le> eventCap then take eventCap (ch @ es) else ch)) (rg_listeners s)"
proof (induction es arbitrary: s)
  case Nil
  show ?case unfolding emit_all.simps by (rule map_idI [symmetric]) auto
next
  case (Cons e es)
  show ?case by (auto simp: Cons emit_def take_Cons')
qed

section \<open>A concrete registry\<close>

text \<open>A stand-in for the SDK that accepts any bytes as the name of a plugin.\<close>

definition demo_sdk :: sdk where
  "demo_sdk = \<lparr>sdk_parse = (\<lambda>d. Inr \<lparr>mf_name = str_of d, mf_protocol = ''tcp'', mf_type = [], mf_api = ''gta.decoder/v2'',
       mf_hints = [], mf_schemas = []\<rparr>),
     sdk_validate = (\<lambda>_. None), sdk_check = (\<lambda>_. None), sdk_wire = (\<lambda>n _. n), sdk_integer = (\<lambda>_. False),
     sdk_float = (\<lambda>_. False), sdk_bool = (\<lambda>_. False), sdk_string = (\<lambda>_. False), sdk_yaml = (\<lambda>m. Inr (bytes_of (mf_name m)))\<rparr>"

definition two_waiting :: registry where
  "two_waiting =
    snd (Register demo_sdk None ''ann'' True (bytes_of ''b'') [] 1
      (snd (Register demo_sdk None ''ann'' True (bytes_of ''a'') [] 0 (NewRegistryServer 10))))"

definition demo_manifest :: "string \<Rightarrow> manifest" where
  "demo_manifest n = \<lparr>mf_name = n, mf_protocol = ''tcp'', mf_type = [], mf_api = ''gta.decoder/v2'', mf_hints = [], mf_schemas = []\<rparr>"

lemma demo_manifest_name [simp]: "mf_name (demo_manifest n) = n"
  by (simp add: demo_manifest_def)

lemma demo_version: "CheckManifestVersion (Some (demo_manifest n)) = None"
  by (simp add: CheckManifestVersion_def ParseManifestAPIVersion_def Let_def demo_manifest_def apiVersionPrefix_def ProtocolVersion_def)

lemma demo_checks: "register_checks demo_sdk (bytes_of n) = Inr (demo_manifest n)"
proof -
  have "sdk_parse demo_sdk (bytes_of n) = Inr (demo_manifest n)" "sdk_validate demo_sdk = (\<lambda>_. None)"
    "sdk_check demo_sdk = (\<lambda>_. None)"
    by (simp_all add: demo_sdk_def demo_manifest_def)
  then show ?thesis by (simp add: register_checks_def demo_version)
qed

lemmas registry_eval = Register_def demo_checks register_locked_def replace_old_def bindNextTunnelLocked_def
  pruneTunnelPendingLocked_def removeAwaitingLocked_def NewRegistryServer_def Let_def pluginKey_def emit_def online_now_def

lemma run_Register: "reg_run k s \<Longrightarrow> reg_run k (snd (Register k d ow tun data sock now s))"
  by (rule reg_run.step [OF _ reg_step.intros(1)])

lemma run_Connect: "reg_run k s \<Longrightarrow> reg_run k (snd (Connect_begin ow now s))"
  by (rule reg_run.step [OF _ reg_step.intros(5)])

lemma two_waiting_run: "reg_run demo_sdk two_waiting"
  unfolding two_waiting_def by (intro run_Register reg_run.start)

lemma two_waiting_fields:
  "rg_closed two_waiting = False" "rg_awaiting two_waiting ''ann'' = [instance_id ''a'' 1, instance_id ''b'' 2]"
  "waits two_waiting (instance_id ''a'' 1)" "waits two_waiting (instance_id ''b'' 2)"
  by (simp_all add: two_waiting_def registry_eval waits_def instance_id_inject)

lemma two_waiting_table:
  "rg_plugins two_waiting j \<noteq> None \<longleftrightarrow> j = instance_id ''a'' 1 \<or> j = instance_id ''b'' 2"
  by (simp add: two_waiting_def registry_eval instance_id_inject eval_nat_numeral)

text \<open>A system plugin, online, and a registration of the same name that waits for its tunnel.\<close>

definition shadowed :: registry where
  "shadowed =
    snd (Register demo_sdk None ''ann'' True (bytes_of ''a'') [] 1
      (snd (Register demo_sdk None [] False (bytes_of ''a'') [] 0 (NewRegistryServer 10))))"

lemma shadowed_run: "reg_run demo_sdk shadowed"
  unfolding shadowed_def by (intro run_Register reg_run.start)

lemma shadowed_fields:
  "named shadowed ''ann'' ''a'' (the (rg_plugins shadowed (instance_id ''a'' 2)))"
  "\<not> online_now shadowed (instance_id ''a'' 2)"
  "plain_names shadowed" "FindByName demo_sdk ''a'' shadowed \<noteq> None"
  by (simp_all add: shadowed_def registry_eval named_def plain_names_def FindByName_def usable_def found_def
      instance_id_inject eval_nat_numeral)

theorem registry_consistent_witness:
  "\<exists>rp. rg_plugins two_waiting (instance_id ''a'' 1) = Some rp \<and> rp_client rp = None \<and> rg_pending two_waiting (rp_owner rp) = []"
proof -
  from two_waiting_fields(3) obtain rp where rp: "rg_plugins two_waiting (instance_id ''a'' 1) = Some rp" "rp_client rp = None"
    by (auto simp: waits_def)
  from registry_consistent [OF two_waiting_run rp(1)] rp show ?thesis by blast
qed

theorem lookup_isolation_witness:
  "\<exists>c r. FindByNameAmong demo_sdk [''bob''] ''a'' shadowed = Some (c, r) \<and> serves shadowed c {[], ''bob''}"
proof -
  have "\<exists>c r. FindByNameAmong demo_sdk [''bob''] ''a'' shadowed = Some (c, r)"
    by (simp add: FindByNameAmong_def amongCandidates_def pluginKeyCandidates_def shadowed_def registry_eval usable_def found_def
        instance_id_inject)
  then obtain c r where c: "FindByNameAmong demo_sdk [''bob''] ''a'' shadowed = Some (c, r)" by blast
  with lookup_isolation [where k = demo_sdk and s = shadowed and c = c and r = r and owners = "[''bob'']" and name = "''a''"] show ?thesis by auto
qed

theorem FindByNameFor_spec_witness:
  "FindByNameFor demo_sdk ''ann'' ''a'' shadowed = None \<and> FindByName demo_sdk ''a'' shadowed \<noteq> None"
proof -
  let ?rp = "the (rg_plugins shadowed (instance_id ''a'' 2))"
  have "\<not> rp_online ?rp"
    using shadowed_fields(1,2) by (auto simp: named_def online_now_def shadowed_def registry_eval instance_id_inject eval_nat_numeral)
  moreover have "CHR ''/'' \<notin> set ''a''" "''ann'' \<noteq> []" by simp_all
  note FindByNameFor_spec [OF shadowed_run shadowed_fields(3) this, where rp = ?rp]
  ultimately show ?thesis using shadowed_fields(1,4) by simp
qed

text \<open>A tunnel that came first.\<close>

definition one_tunnel :: registry where
  "one_tunnel = snd (Connect_begin ''ann'' 3 (NewRegistryServer 10))"

lemma one_tunnel_run: "reg_run demo_sdk one_tunnel"
  unfolding one_tunnel_def by (intro run_Connect reg_run.start)

lemma one_tunnel_fields:
  "rg_closed one_tunnel = False" "filter (\<lambda>c. \<not> tunnelClientClosed one_tunnel c) (rg_pending one_tunnel ''ann'') = [Tunnelled 0]"
  by (simp_all add: one_tunnel_def registry_eval Connect_begin_def bindTunnelClient_def bindClientToAwaitingLocked_def tunnelClientClosed_def)

lemma demo_registers:
  assumes "rg_closed s = False"
  obtains i hb t where "Register demo_sdk None ow True (bytes_of n) [] now s = (Inr (i, hb), t)"
proof -
  have "\<exists>i hb. fst (Register demo_sdk None ow True (bytes_of n) [] now s) = Inr (i, hb)"
    using assms by (simp add: Register_def demo_checks Let_def split: prod.split)
  then show ?thesis using that by (metis prod.collapse)
qed

theorem Register_effect_witness:
  "(\<exists>i hb t. Register demo_sdk None ''ann'' True (bytes_of ''a'') [] 9 two_waiting = (Inr (i, hb), t) \<and>
     rg_plugins t (instance_id ''a'' 1) = None \<and> rg_plugins t (instance_id ''b'' 2) = rg_plugins two_waiting (instance_id ''b'' 2)) \<and>
   (\<exists>i hb t. Register demo_sdk None ''ann'' True (bytes_of ''a'') [] 9 one_tunnel = (Inr (i, hb), t) \<and>
     map_option rp_client (rg_plugins t i) = Some (Some (Tunnelled 0)) \<and> rg_pending t ''ann'' = [])"
proof
  obtain i hb t where r: "Register demo_sdk None ''ann'' True (bytes_of ''a'') [] 9 two_waiting = (Inr (i, hb), t)"
    using demo_registers [OF two_waiting_fields(1)] by blast
  have fresh: "i \<noteq> instance_id ''a'' 1" "i \<noteq> instance_id ''b'' 2"
    using Register_effect [OF two_waiting_run r] two_waiting_table by metis+
  have keys: "map_option plugin_key (rg_plugins two_waiting (instance_id ''a'' 1)) = Some (pluginKey ''ann'' ''a'')"
    "map_option plugin_key (rg_plugins two_waiting (instance_id ''b'' 2)) = Some (pluginKey ''ann'' ''b'')"
    by (simp_all add: two_waiting_def registry_eval instance_id_inject)
  from Register_effect [OF two_waiting_run r] obtain m where
    m: "register_checks demo_sdk (bytes_of ''a'') = Inr m"
      "\<And>j. j \<noteq> i \<Longrightarrow> rg_plugins t j = (case rg_plugins two_waiting j of None \<Rightarrow> None
          | Some rq \<Rightarrow> if plugin_key rq = pluginKey ''ann'' (mf_name m) then None else Some rq)" by auto
  have "mf_name m = ''a''" using m(1) by (simp add: demo_checks demo_manifest_def) auto
  with m(2) [of "instance_id ''a'' 1"] m(2) [of "instance_id ''b'' 2"] fresh keys r
  show "\<exists>i hb t. Register demo_sdk None ''ann'' True (bytes_of ''a'') [] 9 two_waiting = (Inr (i, hb), t) \<and>
     rg_plugins t (instance_id ''a'' 1) = None \<and> rg_plugins t (instance_id ''b'' 2) = rg_plugins two_waiting (instance_id ''b'' 2)"
    by (auto simp: pluginKey_def)
next
  obtain i hb t where r: "Register demo_sdk None ''ann'' True (bytes_of ''a'') [] 9 one_tunnel = (Inr (i, hb), t)"
    using demo_registers [OF one_tunnel_fields(1)] by blast
  from Register_effect [OF one_tunnel_run r] obtain rp where
    "rg_plugins t i = Some rp" "rp_client rp = Some (Tunnelled 0)" "rg_pending t = (rg_pending one_tunnel)(''ann'' := [])"
    unfolding one_tunnel_fields(2) by auto
  with r show "\<exists>i hb t. Register demo_sdk None ''ann'' True (bytes_of ''a'') [] 9 one_tunnel = (Inr (i, hb), t) \<and>
     map_option rp_client (rg_plugins t i) = Some (Some (Tunnelled 0)) \<and> rg_pending t ''ann'' = []" by auto
qed

theorem Connect_serves_first_witness:
  "\<exists>n t. Connect_begin ''ann'' 5 two_waiting = (Inr n, t) \<and>
     map_option rp_client (rg_plugins t (instance_id ''a'' 1)) = Some (Some (Tunnelled n)) \<and>
     rg_plugins t (instance_id ''b'' 2) = rg_plugins two_waiting (instance_id ''b'' 2)"
proof -
  obtain n t where c: "Connect_begin ''ann'' 5 two_waiting = (Inr n, t)"
    using two_waiting_fields(1) by (auto simp: Connect_begin_def Let_def)
  from Connect_serves_first [OF c, of "[]" "instance_id ''a'' 1" "[instance_id ''b'' 2]"] c two_waiting_fields
  show ?thesis by (auto simp: instance_id_inject)
qed

theorem CheckOffline_effect_witness:
  "rg_plugins (CheckOffline [instance_id ''a'' 1, instance_id ''b'' 2] 10 100 two_waiting) (instance_id ''a'' 1) = None"
proof -
  have "distinct [instance_id ''a'' 1, instance_id ''b'' 2]" by (simp add: instance_id_inject)
  from CheckOffline_effect [OF this, of two_waiting 10 100] two_waiting_table
  have "rg_plugins (CheckOffline [instance_id ''a'' 1, instance_id ''b'' 2] 10 100 two_waiting) =
      (\<lambda>i. Option.bind (rg_plugins two_waiting i) (scanned two_waiting 10 100))" by auto
  then show ?thesis by (simp add: two_waiting_def registry_eval scanned_def instance_id_inject)
qed

end
