(* ===== verification/Plugin_Tunnel.thy ===== *)
theory Plugin_Tunnel imports Gt_Base begin

text \<open>
  One tunnel session, \<open>pkg/plugin/tunnel.go\<close>: many decode streams over one Connect stream.  The goroutines are the
  receive loop of \<open>Connect\<close>, a caller for each decode stream, and a watcher for each.  They interleave between the
  points where the code locks, selects or sends: \<open>Recv\<close> and the delivery of a response, which have such points inside,
  keep a program counter.  A select with several ready branches may take any of them.

  A stream object is a number, its place in \<open>ts_objs\<close>; \<open>ts_streams\<close> is the table from stream ids to objects.  What is
  sent to the plugin is a list.  \<open>'r\<close> is the type of the decoded responses; unmarshalling is an argument.
\<close>

section \<open>State\<close>

datatype tunnel_err = TPlugin string | TBadFrame | TOverflow | TSessionClosed | TCancelled

datatype 'r recv_result = RResp 'r | REof | RErr tunnel_err | RCtx

datatype recv_pc = RIdle | RPolled | RWaiting | RAfterDone | RAfterCtx

datatype watch_pc = WWaiting | WRemoving | WGone

record 'r pending_stream =
  ps_id :: "32 word"
  ps_queue :: "'r list"
  ps_done :: bool
  ps_endErr :: "tunnel_err option"
  ps_cancelled :: bool
  ps_half :: bool
  ps_pc :: recv_pc
  ps_watch :: watch_pc

datatype 'r loop_pc = LIdle | LDelivering nat "32 word" 'r | LEnded

datatype out_frame = FRequest "byte list" | FHalfClose | FReset tunnel_err

record 'r tunnel_session =
  ts_objs :: "'r pending_stream list"
  ts_streams :: "32 word \<Rightarrow> nat option"
  ts_next :: "32 word"
  ts_closed :: bool
  ts_ctxDone :: bool
  ts_loop :: "'r loop_pc"
  ts_resets :: "(32 word \<times> tunnel_err) list"
  ts_sent :: "(32 word \<times> out_frame) list"

definition respQueueSize :: nat where "respQueueSize = 16"

definition new_session :: "'r tunnel_session" where
  "new_session = \<lparr>ts_objs = [], ts_streams = (\<lambda>_. None), ts_next = 0, ts_closed = False, ts_ctxDone = False,
     ts_loop = LIdle, ts_resets = [], ts_sent = []\<rparr>"

definition on_obj :: "nat \<Rightarrow> ('r pending_stream \<Rightarrow> 'r pending_stream) \<Rightarrow> 'r tunnel_session \<Rightarrow> 'r tunnel_session" where
  "on_obj p f s = s\<lparr>ts_objs := (ts_objs s)[p := f (ts_objs s ! p)]\<rparr>"

section \<open>Ending a stream\<close>

definition finish :: "tunnel_err option \<Rightarrow> 'r pending_stream \<Rightarrow> 'r pending_stream" where
  "finish e ps =
    (if ps_done ps then ps
     else ps\<lparr>ps_endErr := (case e of None \<Rightarrow> ps_endErr ps | Some x \<Rightarrow> Some x), ps_done := True, ps_cancelled := True\<rparr>)"

definition sendFrame :: "32 word \<Rightarrow> out_frame \<Rightarrow> 'r tunnel_session \<Rightarrow> bool \<times> 'r tunnel_session" where
  "sendFrame i f s = (if ts_ctxDone s then (False, s) else (True, s\<lparr>ts_sent := ts_sent s @ [(i, f)]\<rparr>))"

definition finishStream :: "32 word \<Rightarrow> string option \<Rightarrow> 'r tunnel_session \<Rightarrow> 'r tunnel_session" where
  "finishStream i end s =
    (let e = (case end of None \<Rightarrow> None | Some t \<Rightarrow> if t = [] then None else Some (TPlugin t)) in
     (case ts_streams s i of
        None \<Rightarrow> s
      | Some p \<Rightarrow> on_obj p (finish e) (s\<lparr>ts_streams := (ts_streams s)(i := None)\<rparr>)))"

text \<open>The reset frame is handed to a goroutine of its own, which sends it some time later.\<close>

definition abortStream :: "32 word \<Rightarrow> tunnel_err \<Rightarrow> 'r tunnel_session \<Rightarrow> 'r tunnel_session" where
  "abortStream i cause s =
    (case ts_streams s i of
       None \<Rightarrow> s
     | Some p \<Rightarrow> on_obj p (finish (Some cause))
         (s\<lparr>ts_streams := (ts_streams s)(i := None), ts_resets := ts_resets s @ [(i, cause)]\<rparr>))"

definition close_session :: "tunnel_err \<Rightarrow> 'r tunnel_session \<Rightarrow> 'r tunnel_session" where
  "close_session e s =
    (if ts_closed s then s
     else s\<lparr>ts_closed := True, ts_streams := (\<lambda>_. None),
            ts_objs := map (\<lambda>(p, ps). if ts_streams s (ps_id ps) = Some p then finish (Some e) ps else ps)
                         (zip [0..<length (ts_objs s)] (ts_objs s))\<rparr>)"

section \<open>Opening a stream\<close>

definition new_stream :: "32 word \<Rightarrow> 'r pending_stream" where
  "new_stream i = \<lparr>ps_id = i, ps_queue = [], ps_done = False, ps_endErr = None, ps_cancelled = False, ps_half = False, ps_pc = RIdle,
     ps_watch = WWaiting\<rparr>"

definition DecodeV2 :: "'r tunnel_session \<Rightarrow> (tunnel_err + nat) \<times> 'r tunnel_session" where
  "DecodeV2 s =
    (if ts_ctxDone s then (Inl TCancelled, s)
     else (let i = ts_next s + 1; s1 = s\<lparr>ts_next := i\<rparr> in
       (if ts_closed s1 then (Inl TSessionClosed, s1)
        else (let p = length (ts_objs s1) in
          (Inr p, s1\<lparr>ts_objs := ts_objs s1 @ [new_stream i], ts_streams := (ts_streams s1)(i \<mapsto> p)\<rparr>)))))"

section \<open>Frames from the plugin\<close>

datatype in_frame = InResponse "byte list" | InEnd "string option" | InOther

definition deliver_begin ::
    "(byte list \<Rightarrow> 'r option) \<Rightarrow> 32 word \<Rightarrow> byte list \<Rightarrow> 'r tunnel_session \<Rightarrow> 'r tunnel_session" where
  "deliver_begin unmarshal i data s =
    (case unmarshal data of
       None \<Rightarrow> abortStream i TBadFrame s
     | Some r \<Rightarrow> (case ts_streams s i of None \<Rightarrow> s | Some p \<Rightarrow> s\<lparr>ts_loop := LDelivering p i r\<rparr>))"

definition dispatch_frame ::
    "(byte list \<Rightarrow> 'r option) \<Rightarrow> 32 word \<Rightarrow> in_frame \<Rightarrow> 'r tunnel_session \<Rightarrow> 'r tunnel_session" where
  "dispatch_frame unmarshal i f s =
    (case f of
       InResponse data \<Rightarrow> deliver_begin unmarshal i data s
     | InEnd e \<Rightarrow> finishStream i e s
     | InOther \<Rightarrow> s)"

text \<open>The select of a delivery: which branch is ready, and what it does.  The timer only wins when nothing else can.\<close>

datatype choice = CEnqueue | CDone | CClosed | CTimeout

definition deliver_ready :: "'r tunnel_session \<Rightarrow> nat \<Rightarrow> choice \<Rightarrow> bool" where
  "deliver_ready s p c =
    (case c of
       CEnqueue \<Rightarrow> length (ps_queue (ts_objs s ! p)) < respQueueSize
     | CDone \<Rightarrow> ps_done (ts_objs s ! p)
     | CClosed \<Rightarrow> ts_closed s
     | CTimeout \<Rightarrow> \<not> length (ps_queue (ts_objs s ! p)) < respQueueSize \<and> \<not> ps_done (ts_objs s ! p) \<and> \<not> ts_closed s)"

definition deliver_end :: "nat \<Rightarrow> 32 word \<Rightarrow> 'r \<Rightarrow> choice \<Rightarrow> 'r tunnel_session \<Rightarrow> 'r tunnel_session" where
  "deliver_end p i r c s =
    (let s1 = s\<lparr>ts_loop := LIdle\<rparr> in
     (case c of
        CEnqueue \<Rightarrow> on_obj p (\<lambda>ps. ps\<lparr>ps_queue := ps_queue ps @ [r]\<rparr>) s1
      | CDone \<Rightarrow> s1
      | CClosed \<Rightarrow> s1
      | CTimeout \<Rightarrow> abortStream i TOverflow s1))"

section \<open>The caller of a stream\<close>

datatype send_result = SOk | SHalfClosed | SEof | SErr tunnel_err | SFailed

definition Send :: "nat \<Rightarrow> byte list \<Rightarrow> 'r tunnel_session \<Rightarrow> send_result \<times> 'r tunnel_session" where
  "Send p data s =
    (let ps = ts_objs s ! p in
     (if ps_half ps then (SHalfClosed, s)
      else if ps_done ps then (case ps_endErr ps of Some e \<Rightarrow> (SErr e, s) | None \<Rightarrow> (SEof, s))
      else (case sendFrame (ps_id ps) (FRequest data) s of (ok, s1) \<Rightarrow> (if ok then SOk else SFailed, s1))))"

definition CloseSend :: "nat \<Rightarrow> 'r tunnel_session \<Rightarrow> bool \<times> 'r tunnel_session" where
  "CloseSend p s = sendFrame (ps_id (ts_objs s ! p)) FHalfClose (on_obj p (\<lambda>ps. ps\<lparr>ps_half := True\<rparr>) s)"

text \<open>
  \<open>Recv\<close> in four places: the first poll, the check for an ended stream, the select, and the two branches that poll
  again.  A step yields a result, when the call returns, and the stream; \<open>None\<close> when it has to wait.
\<close>

definition poll :: "'r pending_stream \<Rightarrow> ('r \<times> 'r pending_stream) option" where
  "poll ps = (case ps_queue ps of [] \<Rightarrow> None | r # rs \<Rightarrow> Some (r, ps\<lparr>ps_queue := rs\<rparr>))"

definition end_result :: "'r pending_stream \<Rightarrow> 'r recv_result" where
  "end_result ps = (case ps_endErr ps of Some e \<Rightarrow> RErr e | None \<Rightarrow> REof)"

datatype branch = BResp | BDone | BCtx

definition recv_step :: "branch \<Rightarrow> 'r pending_stream \<Rightarrow> ('r recv_result option \<times> 'r pending_stream) option" where
  "recv_step b ps =
    (case ps_pc ps of
       RIdle \<Rightarrow> (case poll ps of
           Some (r, ps1) \<Rightarrow> Some (Some (RResp r), ps1)
         | None \<Rightarrow> Some (None, ps\<lparr>ps_pc := RPolled\<rparr>))
     | RPolled \<Rightarrow> Some (None, ps\<lparr>ps_pc := (if ps_done ps then RAfterDone else RWaiting)\<rparr>)
     | RWaiting \<Rightarrow>
        (case b of
           BResp \<Rightarrow> (case poll ps of Some (r, ps1) \<Rightarrow> Some (Some (RResp r), ps1\<lparr>ps_pc := RIdle\<rparr>) | None \<Rightarrow> None)
         | BDone \<Rightarrow> (if ps_done ps then Some (None, ps\<lparr>ps_pc := RAfterDone\<rparr>) else None)
         | BCtx \<Rightarrow> (if ps_cancelled ps then
              (case poll ps of
                 Some (r, ps1) \<Rightarrow> Some (Some (RResp r), ps1\<lparr>ps_pc := RIdle\<rparr>)
               | None \<Rightarrow> Some (None, ps\<lparr>ps_pc := RAfterCtx\<rparr>))
              else None))
     | RAfterCtx \<Rightarrow>
        (if ps_done ps then Some (None, ps\<lparr>ps_pc := RAfterDone\<rparr>) else Some (Some RCtx, ps\<lparr>ps_pc := RIdle\<rparr>))
     | RAfterDone \<Rightarrow>
        (case poll ps of
           Some (r, ps1) \<Rightarrow> Some (Some (RResp r), ps1\<lparr>ps_pc := RIdle\<rparr>)
         | None \<Rightarrow> Some (Some (end_result ps), ps\<lparr>ps_pc := RIdle\<rparr>)))"

text \<open>
  The watcher of a stream whose context is done: a reset for the plugin and the end of the stream; then, under the lock
  again, the table entry goes if it is still this stream's.
\<close>

definition watcher_fires :: "nat \<Rightarrow> 'r tunnel_session \<Rightarrow> 'r tunnel_session" where
  "watcher_fires p s =
    on_obj p (\<lambda>ps. (finish (Some TCancelled) ps)\<lparr>ps_watch := WRemoving\<rparr>)
      (snd (sendFrame (ps_id (ts_objs s ! p)) (FReset TCancelled) s))"

definition watcher_removes :: "nat \<Rightarrow> 'r tunnel_session \<Rightarrow> 'r tunnel_session" where
  "watcher_removes p s =
    (let i = ps_id (ts_objs s ! p); s1 = on_obj p (\<lambda>ps. ps\<lparr>ps_watch := WGone\<rparr>) s in
     (if ts_streams s1 i = Some p then s1\<lparr>ts_streams := (ts_streams s1)(i := None)\<rparr> else s1))"

definition send_reset :: "32 word \<times> tunnel_err \<Rightarrow> 'r tunnel_session \<Rightarrow> 'r tunnel_session" where
  "send_reset r s = snd (sendFrame (fst r) (FReset (snd r)) (s\<lparr>ts_resets := remove1 r (ts_resets s)\<rparr>))"

section \<open>Steps\<close>

datatype 'r tunnel_event =
    TOpen "32 word" | TFrame "32 word" in_frame | TEnqueue nat 'r | TReturn nat "'r recv_result" | TInternal

inductive tstep :: "(byte list \<Rightarrow> 'r option) \<Rightarrow> 'r tunnel_session \<Rightarrow> 'r tunnel_event \<Rightarrow> 'r tunnel_session \<Rightarrow> bool" for u where
  open_stream: "DecodeV2 s = (Inr p, t) \<Longrightarrow> tstep u s (TOpen (ps_id (ts_objs t ! p))) t"
| open_fails: "DecodeV2 s = (Inl e, t) \<Longrightarrow> tstep u s TInternal t"
| frame: "ts_loop s = LIdle \<Longrightarrow> tstep u s (TFrame i f) (dispatch_frame u i f s)"
| enqueue: "ts_loop s = LDelivering p i r \<Longrightarrow> deliver_ready s p CEnqueue \<Longrightarrow> tstep u s (TEnqueue p r) (deliver_end p i r CEnqueue s)"
| drop: "ts_loop s = LDelivering p i r \<Longrightarrow> c \<noteq> CEnqueue \<Longrightarrow> deliver_ready s p c \<Longrightarrow> tstep u s TInternal (deliver_end p i r c s)"
| reset: "r \<in> set (ts_resets s) \<Longrightarrow> tstep u s TInternal (send_reset r s)"
| send: "p < length (ts_objs s) \<Longrightarrow> tstep u s TInternal (snd (Send p data s))"
| half: "p < length (ts_objs s) \<Longrightarrow> tstep u s TInternal (snd (CloseSend p s))"
| recv_inner: "p < length (ts_objs s) \<Longrightarrow> recv_step b (ts_objs s ! p) = Some (None, ps) \<Longrightarrow>
    tstep u s TInternal (on_obj p (\<lambda>_. ps) s)"
| recv_return: "p < length (ts_objs s) \<Longrightarrow> recv_step b (ts_objs s ! p) = Some (Some x, ps) \<Longrightarrow>
    tstep u s (TReturn p x) (on_obj p (\<lambda>_. ps) s)"
| cancel: "p < length (ts_objs s) \<Longrightarrow> tstep u s TInternal (on_obj p (\<lambda>ps. ps\<lparr>ps_cancelled := True\<rparr>) s)"
| watch: "p < length (ts_objs s) \<Longrightarrow> ps_cancelled (ts_objs s ! p) \<Longrightarrow> ps_watch (ts_objs s ! p) = WWaiting \<Longrightarrow>
    tstep u s TInternal (watcher_fires p s)"
| unwatch: "p < length (ts_objs s) \<Longrightarrow> ps_watch (ts_objs s ! p) = WRemoving \<Longrightarrow> tstep u s TInternal (watcher_removes p s)"
| watcher_exits: "p < length (ts_objs s) \<Longrightarrow> ps_done (ts_objs s ! p) \<Longrightarrow> ps_watch (ts_objs s ! p) = WWaiting \<Longrightarrow>
    tstep u s TInternal (on_obj p (\<lambda>ps. ps\<lparr>ps_watch := WGone\<rparr>) s)"
| stream_ends: "tstep u s TInternal (s\<lparr>ts_ctxDone := True\<rparr>)"
| close: "ts_loop s = LIdle \<Longrightarrow> tstep u s TInternal (close_session TSessionClosed (s\<lparr>ts_loop := LEnded\<rparr>))"

inductive trun :: "(byte list \<Rightarrow> 'r option) \<Rightarrow> 'r tunnel_event list \<Rightarrow> 'r tunnel_session \<Rightarrow> bool" for u where
  start: "trun u [] new_session"
| next_step: "trun u es s \<Longrightarrow> tstep u s e t \<Longrightarrow> trun u (es @ [e]) t"

end
