(* ===== verification/Plugin_Tunnel_Inv.thy ===== *)
theory Plugin_Tunnel_Inv imports Plugin_Tunnel begin

text \<open>
  The invariant of a tunnel session.  Of each stream it says what the caller has received and what is still queued, and
  compares both with the log of what the plugin has sent under the stream's id: \<open>plugin_log\<close> collects, from the opening
  of an id to its end frame, the responses in the frames with that id.  It holds while fewer than \<open>2 ^ 32\<close> streams have
  been opened, so that no id comes twice.
\<close>

section \<open>What was sent, queued and received\<close>

datatype phase = PhNone | PhOpen | PhEnded

fun log_frame :: "(byte list \<Rightarrow> 'r option) \<Rightarrow> in_frame \<Rightarrow> phase \<times> 'r list \<Rightarrow> phase \<times> 'r list" where
  "log_frame u (InResponse d) (PhOpen, rs) = (PhOpen, case u d of Some r \<Rightarrow> rs @ [r] | None \<Rightarrow> rs)"
| "log_frame u (InEnd e) (PhOpen, rs) = (PhEnded, rs)"
| "log_frame u f l = l"

fun log_step :: "(byte list \<Rightarrow> 'r option) \<Rightarrow> 32 word \<Rightarrow> phase \<times> 'r list \<Rightarrow> 'r tunnel_event \<Rightarrow> phase \<times> 'r list" where
  "log_step u i l (TOpen j) = (if j = i then (PhOpen, []) else l)"
| "log_step u i l (TFrame j f) = (if j = i then log_frame u f l else l)"
| "log_step u i l e = l"

definition plugin_log :: "(byte list \<Rightarrow> 'r option) \<Rightarrow> 32 word \<Rightarrow> 'r tunnel_event list \<Rightarrow> phase \<times> 'r list" where
  "plugin_log u i es = foldl (log_step u i) (PhNone, []) es"

lemma plugin_log_simps [simp]:
  "plugin_log u i [] = (PhNone, [])" "plugin_log u i (es @ [e]) = log_step u i (plugin_log u i es) e"
  by (simp_all add: plugin_log_def)

definition enqueued :: "nat \<Rightarrow> 'r tunnel_event list \<Rightarrow> 'r list" where
  "enqueued p es = List.map_filter (\<lambda>e. case e of TEnqueue q r \<Rightarrow> if q = p then Some r else None | _ \<Rightarrow> None) es"

definition returned :: "nat \<Rightarrow> 'r tunnel_event list \<Rightarrow> 'r list" where
  "returned p es = List.map_filter (\<lambda>e. case e of TReturn q (RResp r) \<Rightarrow> if q = p then Some r else None | _ \<Rightarrow> None) es"

lemma enqueued_simps [simp]:
  "enqueued p [] = []" "enqueued p (es @ [TEnqueue q r]) = enqueued p es @ (if q = p then [r] else [])"
  "enqueued p (es @ [TOpen i]) = enqueued p es" "enqueued p (es @ [TFrame i f]) = enqueued p es"
  "enqueued p (es @ [TReturn q x]) = enqueued p es" "enqueued p (es @ [TInternal]) = enqueued p es"
  by (simp_all add: enqueued_def map_filter_def)

lemma returned_simps [simp]:
  "returned p [] = []" "returned p (es @ [TReturn q x]) = returned p es @ (case x of RResp r \<Rightarrow> if q = p then [r] else [] | _ \<Rightarrow> [])"
  "returned p (es @ [TOpen i]) = returned p es" "returned p (es @ [TFrame i f]) = returned p es"
  "returned p (es @ [TEnqueue q r]) = returned p es" "returned p (es @ [TInternal]) = returned p es"
  by (simp_all add: returned_def map_filter_def split: recv_result.split)

definition delivering :: "'r tunnel_session \<Rightarrow> nat \<Rightarrow> 'r list" where
  "delivering s p = (case ts_loop s of LDelivering q i r \<Rightarrow> if q = p then [r] else [] | _ \<Rightarrow> [])"

section \<open>The invariant\<close>

text \<open>The id of the stream that was opened as the \<open>p\<close>-th.\<close>

definition sid :: "nat \<Rightarrow> 32 word" where "sid p = of_nat (Suc p)"

lemma sid_inject: "Suc p < 2 ^ 32 \<Longrightarrow> Suc q < 2 ^ 32 \<Longrightarrow> sid p = sid q \<longleftrightarrow> p = q"
  by (simp add: sid_def word_of_nat_eq_iff take_bit_eq_mod del: of_nat_Suc)

definition stream_ok ::
    "(byte list \<Rightarrow> 'r option) \<Rightarrow> 'r tunnel_event list \<Rightarrow> 'r tunnel_session \<Rightarrow> nat \<Rightarrow> bool" where
  "stream_ok u es s p \<longleftrightarrow>
    (let ps = ts_objs s ! p; i = ps_id ps in
     i = sid p \<and> enqueued p es = returned p es @ ps_queue ps \<and>
     (\<not> ps_done ps \<longrightarrow> ts_streams s i = Some p \<and> ps_endErr ps = None \<and>
        plugin_log u i es = (PhOpen, enqueued p es @ delivering s p)) \<and>
     (ps_done ps \<longrightarrow> ps_cancelled ps \<and> (ps_endErr ps = None \<longrightarrow>
        plugin_log u i es = (PhEnded, enqueued p es) \<and> ts_streams s i \<noteq> Some p \<and> delivering s p = [])))"

definition table_ok :: "'r tunnel_session \<Rightarrow> bool" where
  "table_ok s \<longleftrightarrow>
    (\<not> ts_closed s \<longrightarrow> ts_next s = of_nat (length (ts_objs s))) \<and>
    (\<forall>i p. ts_streams s i = Some p \<longrightarrow> p < length (ts_objs s) \<and> ps_id (ts_objs s ! p) = i) \<and>
    (\<forall>p i r. ts_loop s = LDelivering p i r \<longrightarrow> p < length (ts_objs s) \<and> ps_id (ts_objs s ! p) = i) \<and>
    (ts_closed s \<longleftrightarrow> ts_loop s = LEnded) \<and> (ts_closed s \<longrightarrow> (\<forall>i. ts_streams s i = None))"

definition fresh_ok :: "(byte list \<Rightarrow> 'r option) \<Rightarrow> 'r tunnel_event list \<Rightarrow> 'r tunnel_session \<Rightarrow> bool" where
  "fresh_ok u es s \<longleftrightarrow>
    (\<forall>q. length (ts_objs s) \<le> q \<longrightarrow> enqueued q es = [] \<and> returned q es = [] \<and>
       (Suc q < 2 ^ 32 \<longrightarrow> plugin_log u (sid q) es = (PhNone, [])))"

definition tinv :: "(byte list \<Rightarrow> 'r option) \<Rightarrow> 'r tunnel_event list \<Rightarrow> 'r tunnel_session \<Rightarrow> bool" where
  "tinv u es s \<longleftrightarrow> table_ok s \<and> (\<forall>p < length (ts_objs s). stream_ok u es s p) \<and> fresh_ok u es s"

lemmas tinv_defs = tinv_def table_ok_def fresh_ok_def stream_ok_def Let_def

lemma tinv_new: "tinv u [] new_session"
  by (simp add: tinv_defs new_session_def)

lemma tinv_sid: "tinv u es s \<Longrightarrow> p < length (ts_objs s) \<Longrightarrow> ps_id (ts_objs s ! p) = sid p"
  by (simp add: tinv_defs)

lemma on_obj_fields [simp]:
  "ts_streams (on_obj p f s) = ts_streams s" "ts_next (on_obj p f s) = ts_next s" "ts_closed (on_obj p f s) = ts_closed s"
  "ts_ctxDone (on_obj p f s) = ts_ctxDone s" "ts_loop (on_obj p f s) = ts_loop s" "ts_sent (on_obj p f s) = ts_sent s"
  "ts_resets (on_obj p f s) = ts_resets s" "length (ts_objs (on_obj p f s)) = length (ts_objs s)"
  "p < length (ts_objs s) \<Longrightarrow> ts_objs (on_obj p f s) ! q = (if q = p then f (ts_objs s ! p) else ts_objs s ! q)"
  by (auto simp: on_obj_def)

lemma delivering_cong: "ts_loop s = ts_loop t \<Longrightarrow> delivering s p = delivering t p"
  by (simp add: delivering_def)

text \<open>The fields the invariant does not read.\<close>

lemma tinv_cong:
  assumes "ts_objs s = ts_objs t" "ts_streams s = ts_streams t" "ts_next s = ts_next t" "ts_closed s = ts_closed t"
    "ts_loop s = ts_loop t"
  shows "tinv u es s = tinv u es t"
  using assms delivering_cong [of s t] by (simp add: tinv_defs)

lemma tinv_internal [simp]: "tinv u (es @ [TInternal]) s = tinv u es s"
  by (simp add: tinv_defs)

lemma sendFrame_fields [simp]:
  "ts_objs (snd (sendFrame i f s)) = ts_objs s" "ts_streams (snd (sendFrame i f s)) = ts_streams s"
  "ts_next (snd (sendFrame i f s)) = ts_next s" "ts_closed (snd (sendFrame i f s)) = ts_closed s"
  "ts_loop (snd (sendFrame i f s)) = ts_loop s"
  by (simp_all add: sendFrame_def)

lemma tinv_sendFrame [simp]: "tinv u es (snd (sendFrame i f s)) = tinv u es s"
  by (rule tinv_cong) simp_all

section \<open>Changes of one stream\<close>

lemma tinv_obj:
  assumes inv: "tinv u es s" and p: "p < length (ts_objs s)"
    and f: "ps_id (f (ts_objs s ! p)) = ps_id (ts_objs s ! p)" "ps_queue (f (ts_objs s ! p)) = ps_queue (ts_objs s ! p)"
      "ps_done (f (ts_objs s ! p)) = ps_done (ts_objs s ! p)" "ps_endErr (f (ts_objs s ! p)) = ps_endErr (ts_objs s ! p)"
      "ps_cancelled (ts_objs s ! p) \<longrightarrow> ps_cancelled (f (ts_objs s ! p))"
  shows "tinv u es (on_obj p f s)"
proof -
  have "table_ok (on_obj p f s)" using inv p f by (auto simp: tinv_def table_ok_def)
  moreover have "stream_ok u es (on_obj p f s) q" if "q < length (ts_objs s)" for q
    using inv that p f delivering_cong [of "on_obj p f s" s q] unfolding tinv_def stream_ok_def Let_def
    by (cases "q = p") auto
  moreover have "fresh_ok u es (on_obj p f s)" using inv by (simp add: tinv_def fresh_ok_def)
  ultimately show ?thesis by (simp add: tinv_def)
qed

lemma finish_id [simp]: "ps_id (finish e ps) = ps_id ps" "ps_queue (finish e ps) = ps_queue ps" "ps_done (finish e ps)"
  by (simp_all add: finish_def)

lemma finish_err:
  "ps_endErr (finish (Some x) ps) = (if ps_done ps then ps_endErr ps else Some x)"
  "ps_cancelled (finish e ps) = (if ps_done ps then ps_cancelled ps else True)"
  by (simp_all add: finish_def)

text \<open>A stream ends with an error.\<close>

lemma tinv_fail:
  assumes inv: "tinv u es s" and p: "p < length (ts_objs s)"
  shows "tinv u es (on_obj p (finish (Some e)) s)"
proof -
  let ?t = "on_obj p (finish (Some e)) s"
  have "table_ok ?t" using inv p by (auto simp: tinv_def table_ok_def)
  moreover have "stream_ok u es ?t q" if "q < length (ts_objs s)" for q
    using inv that p delivering_cong [of ?t s q] unfolding tinv_def stream_ok_def Let_def
    by (cases "q = p") (auto simp: finish_err)
  moreover have "fresh_ok u es ?t" using inv by (simp add: tinv_def fresh_ok_def)
  ultimately show ?thesis by (simp add: tinv_def)
qed

text \<open>The table entry of an ended stream goes.\<close>

lemma tinv_unregister:
  assumes inv: "tinv u es s" and fin: "\<And>p. ts_streams s i = Some p \<Longrightarrow> ps_done (ts_objs s ! p)"
  shows "tinv u es (s\<lparr>ts_streams := (ts_streams s)(i := None)\<rparr>)"
proof -
  let ?t = "s\<lparr>ts_streams := (ts_streams s)(i := None)\<rparr>"
  have "table_ok ?t" using inv by (auto simp: tinv_def table_ok_def)
  moreover have "stream_ok u es ?t q" if "q < length (ts_objs s)" for q
    using inv that fin delivering_cong [of ?t s q] unfolding tinv_def stream_ok_def Let_def by (auto split: if_splits)
  moreover have "fresh_ok u es ?t" using inv by (simp add: tinv_def fresh_ok_def)
  ultimately show ?thesis by (simp add: tinv_def)
qed

text \<open>A delivery is given up for a stream that has ended with an error.\<close>

lemma tinv_idle:
  assumes inv: "tinv u es s" and l: "ts_loop s = LDelivering p i r"
    and fin: "ps_done (ts_objs s ! p)"
  shows "tinv u es (s\<lparr>ts_loop := LIdle\<rparr>)"
proof -
  let ?t = "s\<lparr>ts_loop := LIdle\<rparr>"
  have "table_ok ?t" using inv l by (auto simp: tinv_def table_ok_def)
  moreover have "stream_ok u es ?t q" if "q < length (ts_objs s)" for q
    using inv that fin l unfolding tinv_def stream_ok_def Let_def delivering_def by (cases "q = p") auto
  moreover have "fresh_ok u es ?t" using inv by (simp add: tinv_def fresh_ok_def)
  ultimately show ?thesis by (simp add: tinv_def)
qed

section \<open>Steps\<close>

lemma tinv_open:
  assumes inv: "tinv u es s" and d: "DecodeV2 s = (Inr p, t)" and few: "Suc (length (ts_objs s)) < 2 ^ 32"
  shows "tinv u (es @ [TOpen (ps_id (ts_objs t ! p))]) t"
proof -
  let ?n = "length (ts_objs s)"
  have open': "\<not> ts_closed s" and t: "p = ?n" "t = s\<lparr>ts_next := ts_next s + 1, ts_objs := ts_objs s @ [new_stream (ts_next s + 1)],
      ts_streams := (ts_streams s)(ts_next s + 1 \<mapsto> ?n)\<rparr>"
    using d by (auto simp: DecodeV2_def Let_def split: if_splits)
  have tab: "table_ok s" and fr: "fresh_ok u es s" using inv by (simp_all add: tinv_def)
  have n: "ts_next s + 1 = sid ?n" using tab open' by (simp add: table_ok_def sid_def)
  have id: "ps_id (ts_objs t ! p) = sid ?n" by (simp add: t n new_stream_def)
  have other: "sid q \<noteq> sid ?n" if "Suc q < 2 ^ 32" "q \<noteq> ?n" for q using that few sid_inject by blast
  have "table_ok t" using tab open' by (auto simp: table_ok_def t n nth_append new_stream_def sid_def intro: less_SucI)
  moreover have "stream_ok u (es @ [TOpen (sid ?n)]) t q" if "q < length (ts_objs t)" for q
  proof (cases "q = ?n")
    case True
    have "delivering t ?n = []" using tab by (auto simp: table_ok_def delivering_def t split: loop_pc.split)
    with True show ?thesis using fr by (simp add: stream_ok_def Let_def t n nth_append new_stream_def fresh_ok_def)
  next
    case False
    with that have q: "q < ?n" by (simp add: t)
    with few have "sid q \<noteq> sid ?n" by (intro other) auto
    moreover have "stream_ok u es s q" using inv q by (simp add: tinv_def)
    moreover have "delivering t q = delivering s q" by (simp add: delivering_def t)
    ultimately show ?thesis using q by (auto simp: stream_ok_def Let_def t n nth_append)
  qed
  moreover have "fresh_ok u (es @ [TOpen (sid ?n)]) t"
    unfolding fresh_ok_def
  proof (intro allI impI conjI)
    fix q assume q: "length (ts_objs t) \<le> q"
    then have "?n \<le> q" "q \<noteq> ?n" by (simp_all add: t)
    with fr other [of q] show "enqueued q (es @ [TOpen (sid ?n)]) = []" "returned q (es @ [TOpen (sid ?n)]) = []"
      "Suc q < 2 ^ 32 \<Longrightarrow> plugin_log u (sid q) (es @ [TOpen (sid ?n)]) = (PhNone, [])"
      by (auto simp: fresh_ok_def)
  qed
  ultimately show ?thesis by (simp add: tinv_def id)
qed

text \<open>A frame for an id that no stream has.\<close>

lemma tinv_frame_unknown:
  assumes inv: "tinv u es s" and i: "ts_streams s i = None"
  shows "tinv u (es @ [TFrame i f]) s"
proof -
  have ended: "fst (plugin_log u i es) \<noteq> PhOpen" if "q < length (ts_objs s)" "sid q = i" "ps_endErr (ts_objs s ! q) = None" for q
    using inv that i unfolding tinv_def stream_ok_def Let_def by (cases "ps_done (ts_objs s ! q)") fastforce+
  have keep: "log_frame u f l = l" if "fst l \<noteq> PhOpen" for l
    using that by (cases "(u, f, l)" rule: log_frame.cases) auto
  have "stream_ok u (es @ [TFrame i f]) s q" if q: "q < length (ts_objs s)" for q
    using inv q ended [OF q] keep i unfolding tinv_def stream_ok_def Let_def by auto
  moreover have "fresh_ok u (es @ [TFrame i f]) s" using inv keep unfolding tinv_def fresh_ok_def by auto
  ultimately show ?thesis using inv by (simp add: tinv_def)
qed

text \<open>Frames of a registered stream: a response is taken up for delivery, an end frame ends it.\<close>

lemma registered:
  assumes "tinv u es s" "ts_streams s i = Some p" "length (ts_objs s) < 2 ^ 32"
  shows "p < length (ts_objs s)" "ps_id (ts_objs s ! p) = i" "i = sid p"
    "\<And>q. q < length (ts_objs s) \<Longrightarrow> sid q = i \<Longrightarrow> q = p"
proof -
  show p: "p < length (ts_objs s)" "ps_id (ts_objs s ! p) = i" using assms by (auto simp: tinv_def table_ok_def)
  then show i: "i = sid p" using tinv_sid [OF assms(1)] by simp
  show "q = p" if "q < length (ts_objs s)" "sid q = i" for q
    using that p assms(3) i sid_inject [of q p] by auto
qed

lemma stream_of: "tinv u es s \<Longrightarrow> q < length (ts_objs s) \<Longrightarrow> stream_ok u es s q"
  by (simp add: tinv_def)

lemma fresh_frame:
  assumes inv: "tinv u es s" and i: "i = sid p" "p < length (ts_objs s)" and few: "length (ts_objs s) < 2 ^ 32"
    and t: "length (ts_objs t) = length (ts_objs s)"
  shows "fresh_ok u (es @ [TFrame i f]) t"
  unfolding fresh_ok_def
proof (intro allI impI conjI)
  fix q assume q: "length (ts_objs t) \<le> q"
  have fr: "fresh_ok u es s" using inv by (simp add: tinv_def)
  with q t show "enqueued q (es @ [TFrame i f]) = []" "returned q (es @ [TFrame i f]) = []"
    by (simp_all add: fresh_ok_def)
  show "plugin_log u (sid q) (es @ [TFrame i f]) = (PhNone, [])" if "Suc q < 2 ^ 32"
  proof -
    have "sid q \<noteq> i" using that q t i few sid_inject [of q p] by auto
    then show ?thesis using fr q t that by (simp add: fresh_ok_def)
  qed
qed

text \<open>A frame does not concern the streams with other ids.\<close>

lemma stream_other:
  assumes inv: "tinv u es s" and q: "q < length (ts_objs s)" "sid q \<noteq> i" "q \<noteq> p"
    and t: "ts_objs t ! q = ts_objs s ! q" "ts_streams t (sid q) = ts_streams s (sid q)" "delivering t q = delivering s q"
  shows "stream_ok u (es @ [TFrame i f]) t q"
  using stream_of [OF inv q(1)] q t by (auto simp: stream_ok_def Let_def)

lemma stream_okD:
  assumes "stream_ok u es s p"
  shows "ps_id (ts_objs s ! p) = sid p" "enqueued p es = returned p es @ ps_queue (ts_objs s ! p)"
    "\<not> ps_done (ts_objs s ! p) \<Longrightarrow> ts_streams s (sid p) = Some p \<and> ps_endErr (ts_objs s ! p) = None \<and>
       plugin_log u (sid p) es = (PhOpen, enqueued p es @ delivering s p)"
    "ps_done (ts_objs s ! p) \<Longrightarrow> ps_cancelled (ts_objs s ! p) \<and> (ps_endErr (ts_objs s ! p) = None \<longrightarrow>
       plugin_log u (sid p) es = (PhEnded, enqueued p es) \<and> ts_streams s (sid p) \<noteq> Some p \<and> delivering s p = [])"
  using assms by (auto simp: stream_ok_def Let_def)

lemma tinv_deliver_begin:
  assumes inv: "tinv u es s" and few: "length (ts_objs s) < 2 ^ 32" and idle: "ts_loop s = LIdle"
    and i: "ts_streams s i = Some p" and d: "u data = Some r"
  shows "tinv u (es @ [TFrame i (InResponse data)]) (s\<lparr>ts_loop := LDelivering p i r\<rparr>)"
proof -
  let ?t = "s\<lparr>ts_loop := LDelivering p i r\<rparr>" and ?e = "TFrame i (InResponse data)"
  note reg = registered [OF inv i few]
  have none: "delivering s q = []" for q using idle by (simp add: delivering_def)
  have del: "delivering ?t q = (if q = p then [r] else [])" for q by (simp add: delivering_def)
  have "table_ok s" using inv by (simp add: tinv_def)
  with reg(1,2) idle have "table_ok ?t" by (auto simp: table_ok_def)
  moreover have "stream_ok u (es @ [?e]) ?t q" if q: "q < length (ts_objs s)" for q
  proof (cases "q = p")
    case True
    note k = stream_okD [OF stream_of [OF inv reg(1)]]
    show ?thesis
    proof (cases "ps_done (ts_objs s ! p)")
      case over: True
      from k(4) [OF over] i reg(3) obtain z where "ps_endErr (ts_objs s ! p) = Some z" by fastforce
      with over k(4) [OF over] True show ?thesis by (simp add: stream_ok_def Let_def k(1,2))
    next
      case alive: False
      from k(3) [OF alive] alive True d idle reg(3) show ?thesis by (simp add: stream_ok_def Let_def k(1,2) delivering_def)
    qed
  next
    case False
    then have "sid q \<noteq> i" using reg(4) [OF q] by auto
    with False q none del show ?thesis by (intro stream_other [OF inv q, where p = p]) simp_all
  qed
  moreover have "fresh_ok u (es @ [?e]) ?t"
    by (rule fresh_frame [OF inv reg(3,1) few]) simp
  ultimately show ?thesis by (simp add: tinv_def)
qed

lemma tinv_frame_other:
  assumes inv: "tinv u es s" and f: "\<And>l. log_frame u f l = l"
  shows "tinv u (es @ [TFrame i f]) s"
proof -
  have "log_step u j l (TFrame i f) = l" for j and l :: "phase \<times> 'a list" using f by simp
  then have log: "plugin_log u j (es @ [TFrame i f]) = plugin_log u j es" for j by (simp del: log_step.simps)
  have "stream_ok u (es @ [TFrame i f]) s q = stream_ok u es s q" for q
    unfolding stream_ok_def Let_def log by simp
  moreover have "fresh_ok u (es @ [TFrame i f]) s = fresh_ok u es s" unfolding fresh_ok_def log by simp
  ultimately show ?thesis using inv by (simp add: tinv_def)
qed

lemma tinv_end:
  assumes inv: "tinv u es s" and few: "length (ts_objs s) < 2 ^ 32" and idle: "ts_loop s = LIdle"
    and i: "ts_streams s i = Some p"
  shows "tinv u (es @ [TFrame i (InEnd x)]) (on_obj p (finish e) (s\<lparr>ts_streams := (ts_streams s)(i := None)\<rparr>))"
proof -
  let ?t = "on_obj p (finish e) (s\<lparr>ts_streams := (ts_streams s)(i := None)\<rparr>)" and ?e = "TFrame i (InEnd x)"
  note reg = registered [OF inv i few]
  have none: "delivering s q = []" "delivering ?t q = []" for q using idle by (simp_all add: delivering_def)
  have "table_ok s" using inv by (simp add: tinv_def)
  with reg(1,2) have "table_ok ?t" by (auto simp: table_ok_def)
  moreover have "stream_ok u (es @ [?e]) ?t q" if q: "q < length (ts_objs s)" for q
  proof (cases "q = p")
    case True
    note k = stream_okD [OF stream_of [OF inv reg(1)]]
    show ?thesis
    proof (cases "ps_done (ts_objs s ! p)")
      case over: True
      from k(4) [OF over] i reg(3) obtain z where "ps_endErr (ts_objs s ! p) = Some z" by fastforce
      moreover have "finish e (ts_objs s ! p) = ts_objs s ! p" using over by (simp add: finish_def)
      ultimately show ?thesis using over k(4) [OF over] True reg(1) by (simp add: stream_ok_def Let_def k(1,2))
    next
      case alive: False
      then have "finish e (ts_objs s ! p) = (ts_objs s ! p)\<lparr>ps_endErr := (case e of None \<Rightarrow> ps_endErr (ts_objs s ! p) | Some x \<Rightarrow> Some x),
          ps_done := True, ps_cancelled := True\<rparr>" by (simp add: finish_def)
      with k(3) [OF alive] True reg(1,3) none show ?thesis by (simp add: stream_ok_def Let_def k(1,2))
    qed
  next
    case False
    then have "sid q \<noteq> i" using reg(4) [OF q] by auto
    with False q none reg(1) show ?thesis by (intro stream_other [OF inv q, where p = p]) simp_all
  qed
  moreover have "fresh_ok u (es @ [?e]) ?t"
    by (rule fresh_frame [OF inv reg(3,1) few]) simp
  ultimately show ?thesis by (simp add: tinv_def)
qed

lemma tinv_abort:
  assumes inv: "tinv u es s"
  shows "tinv u es (abortStream i e s)"
proof (cases "ts_streams s i")
  case (Some p)
  then have p: "p < length (ts_objs s)" using inv by (auto simp: tinv_def table_ok_def)
  let ?t = "on_obj p (finish (Some e)) s"
  have "tinv u es (?t\<lparr>ts_streams := (ts_streams ?t)(i := None)\<rparr>)"
    by (rule tinv_unregister [OF tinv_fail [OF inv p]]) (simp add: p Some)
  moreover have "tinv u es (abortStream i e s) = tinv u es (?t\<lparr>ts_streams := (ts_streams ?t)(i := None)\<rparr>)"
    by (rule tinv_cong) (simp_all add: abortStream_def Some on_obj_def)
  ultimately show ?thesis by simp
qed (simp add: abortStream_def inv)

text \<open>A response enters the queue of its stream, or is returned from it.\<close>

lemma tinv_enqueue:
  assumes inv: "tinv u es s" and l: "ts_loop s = LDelivering p i r"
  shows "tinv u (es @ [TEnqueue p r]) (on_obj p (\<lambda>ps. ps\<lparr>ps_queue := ps_queue ps @ [r]\<rparr>) (s\<lparr>ts_loop := LIdle\<rparr>))"
proof -
  let ?t = "on_obj p (\<lambda>ps. ps\<lparr>ps_queue := ps_queue ps @ [r]\<rparr>) (s\<lparr>ts_loop := LIdle\<rparr>)"
  have tab: "table_ok s" using inv by (simp add: tinv_def)
  then have p: "p < length (ts_objs s)" using l by (simp add: table_ok_def)
  have del: "delivering ?t q = []" "delivering s q = (if q = p then [r] else [])" for q
    using l by (simp_all add: delivering_def)
  have "table_ok ?t" using tab p l by (auto simp: table_ok_def)
  moreover have "stream_ok u (es @ [TEnqueue p r]) ?t q" if q: "q < length (ts_objs s)" for q
  proof (cases "q = p")
    case True
    note k = stream_okD [OF stream_of [OF inv p]]
    have "ps_endErr (ts_objs s ! p) \<noteq> None" if "ps_done (ts_objs s ! p)" using k(4) [OF that] del by auto
    then show ?thesis using True p k del
      by (cases "ps_done (ts_objs s ! p)") (auto simp: stream_ok_def Let_def)
  next
    case False
    note k = stream_okD [OF stream_of [OF inv q]]
    show ?thesis using False p k del by (cases "ps_done (ts_objs s ! q)") (auto simp: stream_ok_def Let_def)
  qed
  moreover have "fresh_ok u (es @ [TEnqueue p r]) ?t" using inv p by (auto simp: tinv_def fresh_ok_def)
  ultimately show ?thesis by (simp add: tinv_def)
qed

definition taken :: "'r recv_result \<Rightarrow> 'r list" where
  "taken x = (case x of RResp r \<Rightarrow> [r] | _ \<Rightarrow> [])"

lemma recv_step_facts:
  assumes "recv_step b ps = Some (x, ps')"
  shows "ps_id ps' = ps_id ps" "ps_done ps' = ps_done ps" "ps_endErr ps' = ps_endErr ps" "ps_cancelled ps' = ps_cancelled ps"
    "ps_queue ps = (case x of None \<Rightarrow> [] | Some y \<Rightarrow> taken y) @ ps_queue ps'"
  using assms by (auto simp: recv_step_def poll_def taken_def end_result_def
      split: recv_pc.splits list.splits branch.splits if_splits option.splits)

lemma returned_taken: "returned p (es @ [TReturn q x]) = returned p es @ (if q = p then taken x else [])"
  by (simp add: taken_def split: recv_result.split)

lemma tinv_return:
  assumes inv: "tinv u es s" and p: "p < length (ts_objs s)" and r: "recv_step b (ts_objs s ! p) = Some (Some x, ps)"
  shows "tinv u (es @ [TReturn p x]) (on_obj p (\<lambda>_. ps) s)"
proof -
  let ?t = "on_obj p (\<lambda>_. ps) s"
  note f = recv_step_facts [OF r]
  have del: "delivering ?t q = delivering s q" for q by (simp add: delivering_def)
  have "table_ok ?t" using inv p f(1) by (auto simp: tinv_def table_ok_def)
  moreover have "stream_ok u (es @ [TReturn p x]) ?t q" if q: "q < length (ts_objs s)" for q
  proof -
    note k = stream_okD [OF stream_of [OF inv q]]
    show ?thesis
    proof (cases "q = p")
      case True
      with f k del p show ?thesis by (cases "ps_done (ts_objs s ! p)") (auto simp: stream_ok_def Let_def returned_taken simp del: returned_simps)
    next
      case False
      with k del p show ?thesis by (cases "ps_done (ts_objs s ! q)") (auto simp: stream_ok_def Let_def returned_taken simp del: returned_simps)
    qed
  qed
  moreover have "fresh_ok u (es @ [TReturn p x]) ?t"
    using inv p by (auto simp: tinv_def fresh_ok_def returned_taken simp del: returned_simps)
  ultimately show ?thesis by (simp add: tinv_def)
qed

text \<open>The session closes: every stream still in the table ends with an error.\<close>

lemma close_objs:
  assumes "q < length (ts_objs s)" "\<not> ts_closed s"
  shows "ts_objs (close_session e s) ! q =
    (if ts_streams s (ps_id (ts_objs s ! q)) = Some q then finish (Some e) (ts_objs s ! q) else ts_objs s ! q)"
  using assms by (simp add: close_session_def)

lemma tinv_close:
  assumes inv: "tinv u es s" and l: "ts_loop s = LIdle"
  shows "tinv u es (close_session e (s\<lparr>ts_loop := LEnded\<rparr>))"
proof -
  let ?s = "s\<lparr>ts_loop := LEnded\<rparr>" let ?t = "close_session e ?s"
  have tab: "table_ok s" using inv by (simp add: tinv_def)
  then have open': "\<not> ts_closed s" using l by (simp add: table_ok_def)
  then have f: "ts_streams ?t = (\<lambda>_. None)" "ts_closed ?t" "ts_loop ?t = LEnded" "length (ts_objs ?t) = length (ts_objs s)"
    "ts_next ?t = ts_next s"
    by (simp_all add: close_session_def)
  have none: "delivering ?t q = []" "delivering s q = []" for q using l f(3) by (simp_all add: delivering_def)
  have "table_ok ?t" using f by (simp add: table_ok_def)
  moreover have "stream_ok u es ?t q" if q: "q < length (ts_objs s)" for q
  proof -
    note k = stream_okD [OF stream_of [OF inv q]]
    have obj: "ts_objs ?t ! q = (if ts_streams s (sid q) = Some q then finish (Some e) (ts_objs s ! q) else ts_objs s ! q)"
      using close_objs [of q ?s e] q open' k(1) by simp
    show ?thesis
      using k f none by (cases "ps_done (ts_objs s ! q)") (auto simp: stream_ok_def Let_def obj finish_err)
  qed
  moreover have "fresh_ok u es ?t" using inv f(4) by (simp add: tinv_def fresh_ok_def)
  ultimately show ?thesis using f(4) by (simp add: tinv_def)
qed

end
