(* ===== verification/Plugin_Tunnel_Props.thy ===== *)
theory Plugin_Tunnel_Props imports Plugin_Tunnel_Inv begin

text \<open>
  Every step keeps the invariant of the tunnel.  From it: a caller that is told the stream has ended has got everything
  the plugin sent, in order; after the end of the tunnel no caller waits; queues stay within their bound.
\<close>

section \<open>Every step keeps the invariant\<close>

lemma DecodeV2_length: "length (ts_objs s) \<le> length (ts_objs (snd (DecodeV2 s)))"
  by (simp add: DecodeV2_def Let_def)

lemma finishStream_length [simp]: "length (ts_objs (finishStream i e s)) = length (ts_objs s)"
  by (simp add: finishStream_def Let_def split: option.split)

lemma abortStream_length [simp]: "length (ts_objs (abortStream i e s)) = length (ts_objs s)"
  by (simp add: abortStream_def split: option.split)

lemma dispatch_length [simp]: "length (ts_objs (dispatch_frame u i f s)) = length (ts_objs s)"
  by (simp add: dispatch_frame_def deliver_begin_def split: in_frame.split option.split)

lemma deliver_end_length [simp]: "length (ts_objs (deliver_end p i r c s)) = length (ts_objs s)"
  by (simp add: deliver_end_def Let_def split: choice.split)

lemma Send_fields [simp]:
  "ts_objs (snd (Send p d s)) = ts_objs s" "ts_streams (snd (Send p d s)) = ts_streams s"
  "ts_next (snd (Send p d s)) = ts_next s" "ts_closed (snd (Send p d s)) = ts_closed s" "ts_loop (snd (Send p d s)) = ts_loop s"
  by (auto simp: Send_def Let_def split: option.split prod.split dest!: arg_cong [where f = snd])

lemma close_session_length [simp]: "length (ts_objs (close_session e s)) = length (ts_objs s)"
  by (simp add: close_session_def)

lemma watcher_lengths [simp]: "length (ts_objs (watcher_fires p s)) = length (ts_objs s)"
  "length (ts_objs (watcher_removes p s)) = length (ts_objs s)"
  by (simp_all add: watcher_fires_def watcher_removes_def Let_def)

lemma tstep_length: "tstep u s e t \<Longrightarrow> length (ts_objs s) \<le> length (ts_objs t)"
  by (induction rule: tstep.induct)
    (auto simp: CloseSend_def send_reset_def dest!: arg_cong [where f = snd] intro: DecodeV2_length [THEN order_trans])

lemma tinv_dispatch:
  assumes inv: "tinv u es s" and few: "length (ts_objs s) < 2 ^ 32" and idle: "ts_loop s = LIdle"
  shows "tinv u (es @ [TFrame i f]) (dispatch_frame u i f s)"
proof (cases f)
  case (InResponse data)
  show ?thesis
  proof (cases "ts_streams s i")
    case None
    then show ?thesis using InResponse tinv_frame_unknown [OF inv None]
      by (auto simp: dispatch_frame_def deliver_begin_def abortStream_def split: option.split)
  next
    case (Some p)
    show ?thesis
    proof (cases "u data")
      case none: None
      have "log_frame u f l = l" for l using InResponse none by (cases "(u, f, l)" rule: log_frame.cases) auto
      then have "tinv u (es @ [TFrame i f]) s" by (rule tinv_frame_other [OF inv])
      then show ?thesis using InResponse none by (simp add: dispatch_frame_def deliver_begin_def tinv_abort)
    next
      case (Some r)
      with tinv_deliver_begin [OF inv few idle \<open>ts_streams s i = Some p\<close>] InResponse \<open>ts_streams s i = Some p\<close>
      show ?thesis by (simp add: dispatch_frame_def deliver_begin_def)
    qed
  qed
next
  case (InEnd x)
  show ?thesis
  proof (cases "ts_streams s i")
    case None
    with InEnd tinv_frame_unknown [OF inv None] show ?thesis by (simp add: dispatch_frame_def finishStream_def Let_def)
  next
    case (Some p)
    with InEnd tinv_end [OF inv few idle Some] show ?thesis by (simp add: dispatch_frame_def finishStream_def Let_def)
  qed
next
  case InOther
  have "log_frame u f l = l" for l using InOther by (cases "(u, f, l)" rule: log_frame.cases) auto
  then have "tinv u (es @ [TFrame i f]) s" by (rule tinv_frame_other [OF inv])
  with InOther show ?thesis by (simp add: dispatch_frame_def)
qed

lemma tinv_drop:
  assumes inv: "tinv u es s" and l: "ts_loop s = LDelivering p i r" and few: "length (ts_objs s) < 2 ^ 32"
    and c: "c \<noteq> CEnqueue" "deliver_ready s p c"
  shows "tinv u es (deliver_end p i r c s)"
proof -
  have tab: "table_ok s" using inv by (simp add: tinv_def)
  then have p: "p < length (ts_objs s)" "ps_id (ts_objs s ! p) = i" and open': "\<not> ts_closed s" using l by (auto simp: table_ok_def)
  show ?thesis
  proof (cases "ps_done (ts_objs s ! p)")
    case True
    have "tinv u es (s\<lparr>ts_loop := LIdle\<rparr>)" by (rule tinv_idle [OF inv l True])
    then show ?thesis using c True by (cases c) (simp_all add: deliver_end_def Let_def deliver_ready_def)
  next
    case False
    with c open' have c: "c = CTimeout" by (cases c) (auto simp: deliver_ready_def)
    let ?f = "on_obj p (finish (Some TOverflow)) s"
    have reg: "ts_streams s i = Some p"
      using stream_okD(1,3) [OF stream_of [OF inv p(1)]] False p by simp
    have "tinv u es ?f" by (rule tinv_fail [OF inv p(1)])
    then have "tinv u es (?f\<lparr>ts_loop := LIdle\<rparr>)" by (rule tinv_idle [where p = p]) (use l p in simp_all)
    then have "tinv u es (?f\<lparr>ts_loop := LIdle, ts_streams := (ts_streams (?f\<lparr>ts_loop := LIdle\<rparr>))(i := None)\<rparr>)"
      by (rule tinv_unregister) (use reg p in simp)
    moreover have "tinv u es (deliver_end p i r c s) =
        tinv u es (?f\<lparr>ts_loop := LIdle, ts_streams := (ts_streams (?f\<lparr>ts_loop := LIdle\<rparr>))(i := None)\<rparr>)"
      by (rule tinv_cong) (simp_all add: c deliver_end_def Let_def abortStream_def reg on_obj_def)
    ultimately show ?thesis by simp
  qed
qed

lemma tinv_watcher_fires:
  assumes inv: "tinv u es s" and p: "p < length (ts_objs s)"
  shows "tinv u es (watcher_fires p s)"
proof -
  let ?s = "snd (sendFrame (ps_id (ts_objs s ! p)) (FReset TCancelled) s)"
  have "tinv u es (on_obj p (finish (Some TCancelled)) ?s)" using inv p by (intro tinv_fail) simp_all
  then have "tinv u es (on_obj p (\<lambda>ps. ps\<lparr>ps_watch := WRemoving\<rparr>) (on_obj p (finish (Some TCancelled)) ?s))"
    by (rule tinv_obj) (use p in simp_all)
  moreover have "on_obj p (\<lambda>ps. ps\<lparr>ps_watch := WRemoving\<rparr>) (on_obj p (finish (Some TCancelled)) ?s) = watcher_fires p s"
    using p by (simp add: watcher_fires_def on_obj_def)
  ultimately show ?thesis by simp
qed

text \<open>The second step of a watcher finds its stream ended.\<close>

definition side_ok :: "'r tunnel_session \<Rightarrow> bool" where
  "side_ok s \<longleftrightarrow> (\<forall>p < length (ts_objs s). let ps = ts_objs s ! p in
     (ps_pc ps = RAfterDone \<longrightarrow> ps_done ps) \<and> (ps_watch ps = WRemoving \<longrightarrow> ps_done ps) \<and>
     length (ps_queue ps) \<le> respQueueSize)"

lemma tinv_watcher_removes:
  assumes inv: "tinv u es s" and p: "p < length (ts_objs s)" and d: "ps_done (ts_objs s ! p)"
  shows "tinv u es (watcher_removes p s)"
proof -
  let ?s = "on_obj p (\<lambda>ps. ps\<lparr>ps_watch := WGone\<rparr>) s" and ?i = "ps_id (ts_objs s ! p)"
  have s: "tinv u es ?s" by (rule tinv_obj [OF inv p]) simp_all
  show ?thesis
  proof (cases "ts_streams ?s ?i = Some p")
    case True
    have "tinv u es (?s\<lparr>ts_streams := (ts_streams ?s)(?i := None)\<rparr>)"
      by (rule tinv_unregister [OF s]) (use True p d in simp)
    with True show ?thesis by (simp add: watcher_removes_def Let_def)
  qed (use s in \<open>simp add: watcher_removes_def Let_def\<close>)
qed

lemma tinv_next:
  assumes "ts_closed s" "tinv u es s" shows "tinv u es (s\<lparr>ts_next := n\<rparr>)"
proof -
  have "stream_ok u es (s\<lparr>ts_next := n\<rparr>) p = stream_ok u es s p" for p
    using delivering_cong [of "s\<lparr>ts_next := n\<rparr>" s p] by (simp add: stream_ok_def)
  then show ?thesis using assms by (simp add: tinv_def fresh_ok_def) (simp add: table_ok_def)
qed

lemma tinv_step:
  assumes "tstep u s e t" "tinv u es s" "side_ok s" "length (ts_objs t) < 2 ^ 32"
  shows "tinv u (es @ [e]) t"
  using assms
proof (induction rule: tstep.induct)
  case (open_stream s p t)
  then have "Suc (length (ts_objs s)) < 2 ^ 32"
    by (auto simp: DecodeV2_def Let_def split: if_splits)
  then show ?case using open_stream by (intro tinv_open) simp_all
next
  case (open_fails s e t)
  have "ts_closed s \<and> t = s\<lparr>ts_next := ts_next s + 1\<rparr> \<or> t = s"
    using open_fails(1) by (auto simp: DecodeV2_def Let_def split: if_splits)
  then show ?case using open_fails(2) tinv_next [of s u es "ts_next s + 1"] by auto
next
  case (frame s i f)
  then show ?case by (intro tinv_dispatch) simp_all
next
  case (enqueue s p i r)
  then show ?case using tinv_enqueue [of u es s p i r] by (simp add: deliver_end_def Let_def)
next
  case (drop s p i r c)
  then show ?case by (simp add: tinv_drop)
next
  case (reset r s)
  have "tinv u es (s\<lparr>ts_resets := remove1 r (ts_resets s)\<rparr>) = tinv u es s" by (rule tinv_cong) simp_all
  with reset show ?case by (simp add: send_reset_def)
next
  case (send p s data)
  have "tinv u es (snd (Send p data s)) = tinv u es s" by (rule tinv_cong) simp_all
  with send show ?case by simp
next
  case (half p s)
  then show ?case by (simp add: CloseSend_def tinv_obj)
next
  case (recv_inner p s b ps)
  with recv_step_facts [OF recv_inner(2)] show ?case by (simp add: tinv_obj)
next
  case (recv_return p s b x ps)
  then show ?case by (intro tinv_return) simp_all
next
  case (cancel p s)
  then show ?case by (simp add: tinv_obj)
next
  case (watch p s)
  then show ?case by (simp add: tinv_watcher_fires)
next
  case (unwatch p s)
  then show ?case by (simp add: tinv_watcher_removes side_ok_def Let_def)
next
  case (watcher_exits p s)
  then show ?case by (simp add: tinv_obj)
next
  case (stream_ends s)
  have "tinv u es (s\<lparr>ts_ctxDone := True\<rparr>) = tinv u es s" by (rule tinv_cong) simp_all
  with stream_ends show ?case by simp
next
  case (close s)
  then show ?case by (simp add: tinv_close)
qed

definition side_obj :: "'r pending_stream \<Rightarrow> bool" where
  "side_obj ps \<longleftrightarrow> (ps_pc ps = RAfterDone \<longrightarrow> ps_done ps) \<and> (ps_watch ps = WRemoving \<longrightarrow> ps_done ps) \<and>
     length (ps_queue ps) \<le> respQueueSize"

lemma side_ok_iff: "side_ok s \<longleftrightarrow> (\<forall>ps \<in> set (ts_objs s). side_obj ps)"
  by (auto simp: side_ok_def side_obj_def Let_def all_set_conv_all_nth)

lemma side_on_obj: "side_ok s \<Longrightarrow> p < length (ts_objs s) \<Longrightarrow> side_obj (f (ts_objs s ! p)) \<Longrightarrow> side_ok (on_obj p f s)"
  by (auto simp: side_ok_iff on_obj_def dest!: set_update_subset_insert [THEN subsetD])

lemma side_finish: "side_obj ps \<Longrightarrow> side_obj (finish e ps)"
  by (simp add: side_obj_def finish_def)

lemma side_nth: "side_ok s \<Longrightarrow> p < length (ts_objs s) \<Longrightarrow> side_obj (ts_objs s ! p)"
  by (simp add: side_ok_iff)

lemma side_objs: "ts_objs s = ts_objs t \<Longrightarrow> side_ok s = side_ok t"
  by (simp add: side_ok_iff)

lemma side_recv: "side_obj ps \<Longrightarrow> recv_step b ps = Some (x, ps') \<Longrightarrow> side_obj ps'"
  by (auto simp: side_obj_def recv_step_def poll_def split: recv_pc.splits list.splits branch.splits if_splits option.splits)

lemma side_finishStream:
  assumes "side_ok s" "table_ok s" shows "side_ok (finishStream i e s)" "side_ok (abortStream i x s)"
  using assms by (auto simp: finishStream_def abortStream_def Let_def table_ok_def split: option.split
      intro!: side_on_obj side_finish side_nth simp: side_objs [of "s\<lparr>ts_streams := _\<rparr>" s] side_objs [of "s\<lparr>ts_streams := _, ts_resets := _\<rparr>" s])

lemma side_step:
  assumes "tstep u s e t" "side_ok s" "table_ok s"
  shows "side_ok t"
  using assms
proof (induction rule: tstep.induct)
  case (open_stream s p t)
  then show ?case by (auto simp: DecodeV2_def Let_def side_ok_iff new_stream_def side_obj_def split: if_splits)
next
  case (open_fails s e t)
  then show ?case by (auto simp: DecodeV2_def Let_def side_ok_iff split: if_splits)
next
  case (frame s i f)
  then show ?case
    by (auto simp: dispatch_frame_def deliver_begin_def side_finishStream side_objs [of "s\<lparr>ts_loop := _\<rparr>" s]
        split: in_frame.split option.split)
next
  case (enqueue s p i r)
  then have "p < length (ts_objs s)" by (simp add: table_ok_def)
  with enqueue side_nth [of s p] show ?case
    by (auto simp: deliver_end_def Let_def deliver_ready_def side_obj_def side_objs [of "s\<lparr>ts_loop := _\<rparr>" s] intro!: side_on_obj)
next
  case (drop s p i r c)
  have "side_ok (s\<lparr>ts_loop := LIdle\<rparr>)" "table_ok (s\<lparr>ts_loop := LIdle\<rparr>)"
    using drop by (auto simp: side_ok_iff table_ok_def)
  then show ?case using drop(2) by (cases c) (simp_all add: deliver_end_def Let_def side_finishStream)
next
  case (reset r s)
  then show ?case by (simp add: send_reset_def side_ok_iff)
next
  case (send p s data)
  then show ?case by (simp add: side_ok_iff)
next
  case (half p s)
  with side_nth [of s p] show ?case
    by (auto simp: CloseSend_def side_objs [of "snd (sendFrame _ _ _)"] side_obj_def intro!: side_on_obj)
next
  case (recv_inner p s b ps)
  then show ?case by (auto intro!: side_on_obj elim: side_recv [rotated] intro: side_nth)
next
  case (recv_return p s b x ps)
  then show ?case by (auto intro!: side_on_obj elim: side_recv [rotated] intro: side_nth)
next
  case (cancel p s)
  with side_nth [of s p] show ?case by (auto simp: side_obj_def intro!: side_on_obj)
next
  case (watch p s)
  with side_nth [of s p] show ?case
    by (auto simp: watcher_fires_def side_objs [of "snd (sendFrame _ _ _)"] side_obj_def finish_def intro!: side_on_obj)
next
  case (unwatch p s)
  have "side_ok (on_obj p (\<lambda>ps. ps\<lparr>ps_watch := WGone\<rparr>) s)"
    using unwatch side_nth [of s p] by (auto simp: side_obj_def intro!: side_on_obj)
  then show ?case by (auto simp: watcher_removes_def Let_def side_ok_iff)
next
  case (watcher_exits p s)
  with side_nth [of s p] show ?case by (auto simp: side_obj_def intro!: side_on_obj)
next
  case (stream_ends s)
  then show ?case by (simp add: side_ok_iff)
next
  case (close s)
  then show ?case by (auto simp: close_session_def side_ok_iff intro!: side_finish dest!: set_zip_rightD)
qed

lemma trun_inv: "trun u es s \<Longrightarrow> length (ts_objs s) < 2 ^ 32 \<Longrightarrow> tinv u es s \<and> side_ok s"
proof (induction rule: trun.induct)
  case start
  show ?case by (simp add: tinv_new) (simp add: new_session_def side_ok_def)
next
  case (next_step es s e t)
  have "length (ts_objs s) < 2 ^ 32" using next_step.prems tstep_length [OF next_step.hyps(2)] by simp
  with next_step.IH have s: "tinv u es s" "side_ok s" by auto
  then have "table_ok s" by (simp add: tinv_def)
  with side_step [OF next_step.hyps(2)] tinv_step [OF next_step.hyps(2) s next_step.prems] s show ?case by blast
qed

section \<open>Properties\<close>

text \<open>C13: when a caller is told that its stream has ended, it has received exactly the responses the plugin sent under the
  id of the stream before the end frame, in order, however deliveries, polls and ends interleaved.
\<close>

theorem eof_means_complete:
  assumes run: "trun u (es @ [TReturn p REof]) t" and few: "length (ts_objs t) < 2 ^ 32"
  shows "plugin_log u (ps_id (ts_objs t ! p)) es = (PhEnded, returned p es)"
proof -
  from run obtain s where s: "trun u es s" "tstep u s (TReturn p REof) t"
    by (cases rule: trun.cases) auto
  from s(2) obtain b ps where r: "p < length (ts_objs s)" "recv_step b (ts_objs s ! p) = Some (Some REof, ps)"
    and t: "t = on_obj p (\<lambda>_. ps) s"
    by (cases rule: tstep.cases) auto
  have inv: "tinv u es s" "side_ok s" using trun_inv [OF s(1)] few tstep_length [OF s(2)] by auto
  have "ps_pc (ts_objs s ! p) = RAfterDone \<and> ps_queue (ts_objs s ! p) = [] \<and> ps_endErr (ts_objs s ! p) = None"
    using r(2) by (auto simp: recv_step_def poll_def end_result_def split: recv_pc.splits list.splits branch.splits if_splits option.splits)
  moreover from this have "ps_done (ts_objs s ! p)" using inv(2) r(1) by (simp add: side_ok_def Let_def)
  moreover have "ps_id (ts_objs t ! p) = sid p"
    using r t recv_step_facts(1) [OF r(2)] tinv_sid [OF inv(1) r(1)] by simp
  ultimately show ?thesis using stream_okD [OF stream_of [OF inv(1) r(1)]] by auto
qed

text \<open>The distance of a receiving caller from its result, once its stream has ended.\<close>

fun pc_rank :: "recv_pc \<Rightarrow> nat" where
  "pc_rank RIdle = 4" | "pc_rank RPolled = 3" | "pc_rank RWaiting = 2" | "pc_rank RAfterCtx = 1" | "pc_rank RAfterDone = 0"

text \<open>After the end of the tunnel every stream has ended, and a call of \<open>Recv\<close> in whatever place is not stuck: it has a
  step, and each step returns or brings it nearer to its result.
\<close>

theorem closed_tunnel_wakes_callers:
  assumes run: "trun u es s" and few: "length (ts_objs s) < 2 ^ 32" and closed: "ts_closed s" and p: "p < length (ts_objs s)"
  shows "ps_done (ts_objs s ! p) \<and> (\<exists>b. recv_step b (ts_objs s ! p) \<noteq> None) \<and>
    (\<forall>b ps. recv_step b (ts_objs s ! p) = Some (None, ps) \<longrightarrow>
       ps_done ps \<and> pc_rank (ps_pc ps) < pc_rank (ps_pc (ts_objs s ! p)))"
proof -
  have inv: "tinv u es s" using trun_inv [OF run few] by simp
  then have "ts_streams s i = None" for i using closed by (simp add: tinv_def table_ok_def)
  with stream_okD(3) [OF stream_of [OF inv p]] have d: "ps_done (ts_objs s ! p)" by auto
  then have c: "ps_cancelled (ts_objs s ! p)" using stream_okD(4) [OF stream_of [OF inv p]] by simp
  have "recv_step BDone (ts_objs s ! p) \<noteq> None"
    using d by (auto simp: recv_step_def split: recv_pc.split option.split)
  moreover have "ps_done ps \<and> pc_rank (ps_pc ps) < pc_rank (ps_pc (ts_objs s ! p))"
    if "recv_step b (ts_objs s ! p) = Some (None, ps)" for b ps
    using that d recv_step_facts(2) [OF that]
    by (auto simp: recv_step_def split: recv_pc.splits branch.splits if_splits option.splits)
  ultimately show ?thesis using d by blast
qed

text \<open>A stream never has more than 16 responses queued, however fast the plugin sends.\<close>

theorem queue_bounded:
  assumes run: "trun u es s" and few: "length (ts_objs s) < 2 ^ 32" and p: "p < length (ts_objs s)"
  shows "length (ps_queue (ts_objs s ! p)) \<le> 16 \<and> length (enqueued p es) \<le> length (returned p es) + 16"
proof -
  have inv: "tinv u es s" "side_ok s" using trun_inv [OF run few] by auto
  with p have "length (ps_queue (ts_objs s ! p)) \<le> 16" by (simp add: side_ok_def respQueueSize_def Let_def)
  moreover have "enqueued p es = returned p es @ ps_queue (ts_objs s ! p)"
    using stream_okD(2) [OF stream_of [OF inv(1) p]] .
  ultimately show ?thesis by simp
qed

section \<open>A concrete tunnel\<close>

text \<open>One stream, one response, its end, and the caller that reads both.\<close>

definition demo_obj :: "byte list list \<Rightarrow> bool \<Rightarrow> recv_pc \<Rightarrow> byte list pending_stream" where
  "demo_obj q d pc = (new_stream 1)\<lparr>ps_queue := q, ps_done := d, ps_cancelled := d, ps_pc := pc\<rparr>"

definition demo_at :: "byte list pending_stream \<Rightarrow> (32 word \<Rightarrow> nat option) \<Rightarrow> byte list loop_pc \<Rightarrow> byte list tunnel_session" where
  "demo_at ps m l = new_session\<lparr>ts_objs := [ps], ts_streams := m, ts_next := 1, ts_loop := l\<rparr>"

definition demo_events :: "byte list tunnel_event list" where
  "demo_events = [TOpen 1, TFrame 1 (InResponse [7]), TEnqueue 0 [7], TFrame 1 (InEnd None), TReturn 0 (RResp [7]), TInternal, TInternal]"

lemmas demo_defs = demo_obj_def demo_at_def new_session_def new_stream_def on_obj_def Let_def

lemma demo_step: "trun u es s \<Longrightarrow> tstep u s e t \<Longrightarrow> es' = es @ [e] \<Longrightarrow> trun u es' t"
  by (simp add: trun.next_step)

lemma demo_run: "trun Some demo_events (demo_at (demo_obj [] True RAfterDone) (\<lambda>_. None) LIdle)"
proof -
  let ?m = "(\<lambda>_. None)(1 \<mapsto> 0) :: 32 word \<Rightarrow> nat option"
  let ?a = "demo_at (demo_obj [] False RIdle) ?m LIdle" and ?b = "demo_at (demo_obj [] False RIdle) ?m (LDelivering 0 1 [7])"
  let ?c = "demo_at (demo_obj [[7]] False RIdle) ?m LIdle" and ?d = "demo_at (demo_obj [[7]] True RIdle) (\<lambda>_. None) LIdle"
  let ?e = "\<lambda>pc. demo_at (demo_obj [] True pc) (\<lambda>_. None) LIdle"
  have "DecodeV2 new_session = (Inr 0, ?a)" by (simp add: DecodeV2_def demo_defs)
  from tstep.open_stream [OF this, of Some] have "tstep Some new_session (TOpen 1) ?a" by (simp add: demo_defs)
  from demo_step [OF trun.start this refl] have 1: "trun Some [TOpen 1] ?a" by simp
  have "dispatch_frame Some 1 (InResponse [7]) ?a = ?b" by (simp add: dispatch_frame_def deliver_begin_def demo_defs)
  with tstep.frame [of ?a Some 1 "InResponse [7]"] have "tstep Some ?a (TFrame 1 (InResponse [7])) ?b" by (simp add: demo_at_def new_session_def)
  from demo_step [OF 1 this refl] have 2: "trun Some [TOpen 1, TFrame 1 (InResponse [7])] ?b" by simp
  have "deliver_end 0 1 [7] CEnqueue ?b = ?c" by (simp add: deliver_end_def demo_defs)
  with tstep.enqueue [of ?b 0 1 "[7]" Some] have "tstep Some ?b (TEnqueue 0 [7]) ?c"
    by (simp add: deliver_ready_def respQueueSize_def demo_obj_def demo_at_def new_stream_def)
  from demo_step [OF 2 this refl] have 3: "trun Some [TOpen 1, TFrame 1 (InResponse [7]), TEnqueue 0 [7]] ?c" by simp
  have "dispatch_frame Some 1 (InEnd None) ?c = ?d"
    by (simp add: dispatch_frame_def finishStream_def finish_def demo_defs)
  with tstep.frame [of ?c Some 1 "InEnd None"] have "tstep Some ?c (TFrame 1 (InEnd None)) ?d" by (simp add: demo_at_def new_session_def)
  from demo_step [OF 3 this refl]
  have 4: "trun Some [TOpen 1, TFrame 1 (InResponse [7]), TEnqueue 0 [7], TFrame 1 (InEnd None)] ?d" by simp
  have "recv_step BResp (ts_objs ?d ! 0) = Some (Some (RResp [7]), demo_obj [] True RIdle)"
    by (simp add: recv_step_def poll_def demo_defs)
  from tstep.recv_return [OF _ this, of Some] have "tstep Some ?d (TReturn 0 (RResp [7])) (?e RIdle)" by (simp add: demo_at_def on_obj_def new_session_def)
  from demo_step [OF 4 this refl]
  have 5: "trun Some [TOpen 1, TFrame 1 (InResponse [7]), TEnqueue 0 [7], TFrame 1 (InEnd None), TReturn 0 (RResp [7])] (?e RIdle)" by simp
  have "recv_step BResp (ts_objs (?e RIdle) ! 0) = Some (None, demo_obj [] True RPolled)"
    by (simp add: recv_step_def poll_def demo_defs)
  from tstep.recv_inner [OF _ this, of Some] have "tstep Some (?e RIdle) TInternal (?e RPolled)" by (simp add: demo_at_def on_obj_def new_session_def)
  from demo_step [OF 5 this refl]
  have 6: "trun Some [TOpen 1, TFrame 1 (InResponse [7]), TEnqueue 0 [7], TFrame 1 (InEnd None), TReturn 0 (RResp [7]), TInternal] (?e RPolled)"
    by simp
  have "recv_step BResp (ts_objs (?e RPolled) ! 0) = Some (None, demo_obj [] True RAfterDone)"
    by (simp add: recv_step_def poll_def demo_defs)
  from tstep.recv_inner [OF _ this, of Some] have "tstep Some (?e RPolled) TInternal (?e RAfterDone)" by (simp add: demo_at_def on_obj_def new_session_def)
  from demo_step [OF 6 this refl] show ?thesis by (simp add: demo_events_def)
qed

theorem eof_means_complete_witness:
  "\<exists>t. trun Some (demo_events @ [TReturn 0 REof]) t \<and> plugin_log Some (ps_id (ts_objs t ! 0)) demo_events = (PhEnded, [[7]])"
proof -
  let ?s = "demo_at (demo_obj [] True RAfterDone) (\<lambda>_. None) LIdle" and ?t = "demo_at (demo_obj [] True RIdle) (\<lambda>_. None) LIdle"
  have "recv_step BResp (ts_objs ?s ! 0) = Some (Some REof, demo_obj [] True RIdle)"
    by (simp add: recv_step_def poll_def end_result_def demo_defs)
  from tstep.recv_return [OF _ this, of Some] have "tstep Some ?s (TReturn 0 REof) ?t" by (simp add: demo_at_def on_obj_def new_session_def)
  from trun.next_step [OF demo_run this] have run: "trun Some (demo_events @ [TReturn 0 REof]) ?t" .
  have "returned 0 demo_events = [[7]]" by (simp add: demo_events_def returned_def map_filter_def)
  with eof_means_complete [OF run] run show ?thesis by (auto simp: demo_at_def)
qed

theorem closed_tunnel_wakes_callers_witness:
  "\<exists>s. trun Some (demo_events @ [TInternal]) s \<and> ts_closed s \<and> ps_done (ts_objs s ! 0)"
proof -
  let ?s = "demo_at (demo_obj [] True RAfterDone) (\<lambda>_. None) LIdle"
  let ?t = "close_session TSessionClosed (?s\<lparr>ts_loop := LEnded\<rparr>)"
  have "tstep Some ?s TInternal ?t" by (rule tstep.close) (simp add: demo_at_def)
  from trun.next_step [OF demo_run this] have run: "trun Some (demo_events @ [TInternal]) ?t" .
  have c: "ts_closed ?t" by (simp add: close_session_def)
  have "length (ts_objs ?t) < 2 ^ 32" "0 < length (ts_objs ?t)" by (simp_all add: demo_at_def)
  from closed_tunnel_wakes_callers [OF run this(1) c this(2)] run c show ?thesis by blast
qed

theorem queue_bounded_witness:
  "length (enqueued 0 demo_events) \<le> length (returned 0 demo_events) + 16"
  using queue_bounded [OF demo_run, of 0] by (simp add: demo_at_def)

end
