(* ===== verification/Gt_Float.thy ===== *)
theory Gt_Float imports Gt_Base begin

text \<open>
  Go's \<open>float64\<close> as the 64 bits of IEEE 754 binary64, with the operations the modelled code uses: conversion from and
  to \<open>int64\<close>, comparison, addition and division, all rounding to the nearest even number.  The magnitude of a finite
  number is a natural number of units of \<open>2^-1074\<close>, so nothing here needs real numbers and everything computes.  What Go
  leaves to the machine is taken from amd64: a conversion out of range gives the smallest \<open>int64\<close>.
\<close>

type_synonym f64 = "64 word"

section \<open>Representation\<close>

definition f64_neg :: "f64 \<Rightarrow> bool" where "f64_neg x = (2 ^ 63 \<le> unat x)"
definition f64_exp :: "f64 \<Rightarrow> nat" where "f64_exp x = unat x div 2 ^ 52 mod 2048"
definition f64_frac :: "f64 \<Rightarrow> nat" where "f64_frac x = unat x mod 2 ^ 52"

definition f64_finite :: "f64 \<Rightarrow> bool" where "f64_finite x = (f64_exp x \<noteq> 2047)"
definition f64_nan :: "f64 \<Rightarrow> bool" where "f64_nan x = (f64_exp x = 2047 \<and> f64_frac x \<noteq> 0)"
definition f64_inf :: "f64 \<Rightarrow> bool" where "f64_inf x = (f64_exp x = 2047 \<and> f64_frac x = 0)"

text \<open>Magnitude and value of a finite number, in units of \<open>2^-1074\<close>.\<close>

definition f64_mag :: "f64 \<Rightarrow> nat" where
  "f64_mag x = (if f64_exp x = 0 then f64_frac x else (2 ^ 52 + f64_frac x) * 2 ^ (f64_exp x - 1))"

definition f64_units :: "f64 \<Rightarrow> int" where
  "f64_units x = (if f64_neg x then - int (f64_mag x) else int (f64_mag x))"

definition f64_make :: "bool \<Rightarrow> nat \<Rightarrow> f64" where
  "f64_make neg b = of_nat ((if neg then 2 ^ 63 else 0) + b)"

section \<open>Rounding\<close>

fun bitlen :: "nat \<Rightarrow> nat" where
  "bitlen n = (if n = 0 then 0 else Suc (bitlen (n div 2)))"

declare bitlen.simps [simp del]

text \<open>The number nearest to \<open>a / d\<close> units, ties to even; too large a magnitude is infinity.\<close>

definition f64_round :: "bool \<Rightarrow> nat \<Rightarrow> nat \<Rightarrow> f64" where
  "f64_round neg a d =
    (let s = bitlen (a div d) - 53; m = d * 2 ^ s; q = a div m; r = a mod m;
         q' = (if m < 2 * r \<or> (2 * r = m \<and> odd q) then q + 1 else q)
     in f64_make neg (min (s * 2 ^ 52 + q') (2047 * 2 ^ 52)))"

definition f64_NaN :: f64 where "f64_NaN = 0x7FF8000000000001"

text \<open>\<open>float64(i)\<close> of an integer, \<open>int64(x)\<close>, \<open>x == y\<close>, \<open>x + y\<close>, \<open>x / y\<close>.\<close>

definition f64_of_int :: "int \<Rightarrow> f64" where
  "f64_of_int i = f64_round (i < 0) (nat \<bar>i\<bar> * 2 ^ 1074) 1"

definition f64_trunc :: "f64 \<Rightarrow> int" where
  "f64_trunc x =
    (if \<not> f64_finite x then - (2 ^ 63)
     else (let i = (if f64_neg x then - int (f64_mag x div 2 ^ 1074) else int (f64_mag x div 2 ^ 1074))
       in (if - (2 ^ 63) \<le> i \<and> i < 2 ^ 63 then i else - (2 ^ 63))))"

definition f64_eq :: "f64 \<Rightarrow> f64 \<Rightarrow> bool" where
  "f64_eq x y = (\<not> f64_nan x \<and> \<not> f64_nan y \<and> (x = y \<or> (f64_mag x = 0 \<and> f64_mag y = 0)))"

definition f64_add :: "f64 \<Rightarrow> f64 \<Rightarrow> f64" where
  "f64_add x y =
    (if f64_nan x \<or> f64_nan y then f64_NaN
     else if f64_inf x then (if f64_inf y \<and> f64_neg x \<noteq> f64_neg y then f64_NaN else x)
     else if f64_inf y then y
     else (let u = f64_units x + f64_units y in
       (if u = 0 then f64_make (f64_neg x \<and> f64_neg y) 0 else f64_round (u < 0) (nat \<bar>u\<bar>) 1)))"

definition f64_div :: "f64 \<Rightarrow> f64 \<Rightarrow> f64" where
  "f64_div x y =
    (let neg = (f64_neg x \<noteq> f64_neg y) in
     (if f64_nan x \<or> f64_nan y \<or> (f64_inf x \<and> f64_inf y) \<or> (f64_mag x = 0 \<and> f64_mag y = 0) then f64_NaN
      else if f64_inf x \<or> f64_mag y = 0 then f64_make neg (2047 * 2 ^ 52)
      else if f64_inf y then f64_make neg 0
      else f64_round neg (f64_mag x * 2 ^ 1074) (f64_mag y)))"

section \<open>Bits and magnitudes\<close>

lemma bitlen_0 [simp]: "bitlen 0 = 0" by (simp add: bitlen.simps)

lemma bitlen_double: "0 < n \<Longrightarrow> bitlen (n * 2 ^ k) = bitlen n + k"
proof (induction k)
  case (Suc k)
  then show ?case by (subst bitlen.simps) (simp add: mult.assoc [symmetric] mult.commute [of 2])
qed simp

lemma bitlen_bounds: "0 < n \<Longrightarrow> 2 ^ (bitlen n - 1) \<le> n \<and> n < 2 ^ bitlen n \<and> 0 < bitlen n"
proof (induction n rule: bitlen.induct)
  case (1 n)
  show ?case
  proof (cases "n = 1")
    case False
    with 1 have p: "0 < n div 2" by simp
    with 1 have IH: "2 ^ (bitlen (n div 2) - 1) \<le> n div 2" "n div 2 < 2 ^ bitlen (n div 2)" "0 < bitlen (n div 2)" by auto
    have b: "bitlen n = Suc (bitlen (n div 2))" using 1 by (subst bitlen.simps) simp
    have "2 ^ bitlen (n div 2) = 2 * (2::nat) ^ (bitlen (n div 2) - 1)"
      using IH(3) by (metis Suc_diff_1 power_Suc)
    then have "2 ^ bitlen (n div 2) \<le> n" using IH(1) by linarith
    moreover have "n < 2 * 2 ^ bitlen (n div 2)" using IH(2) by linarith
    ultimately show ?thesis by (simp add: b)
  qed (simp add: bitlen.simps)
qed

lemma bitlen_le_iff: "bitlen n \<le> k \<longleftrightarrow> n < 2 ^ k"
proof (cases "n = 0")
  case False
  then have b: "2 ^ (bitlen n - 1) \<le> n" "n < 2 ^ bitlen n" "0 < bitlen n" using bitlen_bounds by auto
  show ?thesis
  proof
    assume "bitlen n \<le> k"
    then have "(2::nat) ^ bitlen n \<le> 2 ^ k" by (simp add: power_increasing)
    with b(2) show "n < 2 ^ k" by linarith
  next
    assume "n < 2 ^ k"
    with b(1) have "(2::nat) ^ (bitlen n - 1) < 2 ^ k" by linarith
    then have "bitlen n - 1 < k" by simp
    with b(3) show "bitlen n \<le> k" by linarith
  qed
qed simp

lemma bitlen_eq: "n < 2 ^ k \<Longrightarrow> 2 ^ (k - 1) \<le> n \<Longrightarrow> 0 < k \<Longrightarrow> bitlen n = k"
  using bitlen_le_iff [of n k] bitlen_le_iff [of n "k - 1"] by linarith

lemma f64_exp_less: "f64_exp x < 2048" by (simp add: f64_exp_def)
lemma f64_frac_less: "f64_frac x < 2 ^ 52" by (simp add: f64_frac_def)

lemma f64_split: "unat x = (if f64_neg x then 2 ^ 63 else 0) + (f64_exp x * 2 ^ 52 + f64_frac x)"
proof -
  have u: "unat x < 2 ^ 64" using unsigned_less [where ?w = x] by simp
  have a: "unat x = unat x div 2 ^ 52 * 2 ^ 52 + f64_frac x"
    unfolding f64_frac_def by (rule div_mult_mod_eq [symmetric])
  have b: "unat x div 2 ^ 52 = unat x div 2 ^ 52 div 2048 * 2048 + f64_exp x"
    unfolding f64_exp_def by (rule div_mult_mod_eq [symmetric])
  have c: "unat x div 2 ^ 52 div 2048 = unat x div 2 ^ 63"
    by (simp add: div_mult2_eq [symmetric])
  have d: "unat x div 2 ^ 63 = (if f64_neg x then 1 else 0)"
  proof (cases "f64_neg x")
    case True
    with u have "2 ^ 63 \<le> unat x" "unat x < 2 ^ 63 * 2" by (auto simp: f64_neg_def)
    then show ?thesis using True by (simp add: div_nat_eqI)
  next
    case False
    then show ?thesis by (simp add: f64_neg_def)
  qed
  show ?thesis using a b c d by (cases "f64_neg x") auto
qed

lemma f64_eqI:
  assumes "f64_neg x = f64_neg y" "f64_exp x = f64_exp y" "f64_frac x = f64_frac y"
  shows "x = y"
proof -
  have "unat x = unat y" using f64_split [of x] f64_split [of y] assms by simp
  then show ?thesis by (simp add: word_unat_eq_iff)
qed

lemma unat_f64_make: "b < 2 ^ 63 \<Longrightarrow> unat (f64_make neg b) = (if neg then 2 ^ 63 else 0) + b"
  by (cases neg) (simp_all only: f64_make_def if_True if_False unat_of_nat, simp_all)

lemma f64_make_fields:
  assumes "e < 2048" "f < 2 ^ 52"
  shows "f64_neg (f64_make neg (e * 2 ^ 52 + f)) = neg" "f64_exp (f64_make neg (e * 2 ^ 52 + f)) = e"
    "f64_frac (f64_make neg (e * 2 ^ 52 + f)) = f"
proof -
  let ?x = "f64_make neg (e * 2 ^ 52 + f)" and ?s = "if neg then 2 ^ 63 else (0::nat)"
  have "e * 2 ^ 52 \<le> 2047 * 2 ^ 52" using assms(1) by (intro mult_le_mono1) simp
  then have "e * 2 ^ 52 + f < 2047 * 2 ^ 52 + 2 ^ 52" using assms(2) by linarith
  then have lt: "e * 2 ^ 52 + f < 2 ^ 63" by simp
  have u: "unat ?x = ?s + (e * 2 ^ 52 + f)"
    by (rule unat_f64_make [OF lt])
  show n: "f64_neg ?x = neg" using lt u by (simp add: f64_neg_def)
  have sp: "f64_exp ?x * 2 ^ 52 + f64_frac ?x = e * 2 ^ 52 + f"
    using f64_split [of ?x] u n by simp
  have "f64_exp ?x = (f64_exp ?x * 2 ^ 52 + f64_frac ?x) div 2 ^ 52"
    using f64_frac_less [of ?x] by simp
  also have "\<dots> = e" unfolding sp using assms by simp
  finally show "f64_exp ?x = e" .
  with sp show "f64_frac ?x = f" by simp
qed

lemma f64_mag_pos_exp: "0 < e \<Longrightarrow> f64_exp x = e \<Longrightarrow> f64_mag x = (2 ^ 52 + f64_frac x) * 2 ^ (e - 1)"
  by (simp add: f64_mag_def)

text \<open>A magnitude of at most 53 significant bits below the largest exponent is represented exactly.\<close>

lemma f64_round_exact:
  assumes n: "0 < n" "n < 2 ^ 53" and big: "bitlen n + k \<le> 2098"
  shows "f64_finite (f64_round neg (n * 2 ^ k) 1) \<and> f64_mag (f64_round neg (n * 2 ^ k) 1) = n * 2 ^ k
     \<and> f64_neg (f64_round neg (n * 2 ^ k) 1) = neg"
proof -
  define s where "s = bitlen (n * 2 ^ k) - 53"
  have bl: "bitlen (n * 2 ^ k) = bitlen n + k" using n by (simp add: bitlen_double)
  have "bitlen n \<le> 53" using n by (simp add: bitlen_le_iff)
  then have sk: "s \<le> k" unfolding s_def bl by simp
  define q where "q = n * 2 ^ (k - s)"
  have nq: "n * 2 ^ k = q * 2 ^ s" using sk by (simp add: q_def power_add [symmetric])
  have q: "n * 2 ^ k div 2 ^ s = q" "n * 2 ^ k mod 2 ^ s = 0" by (simp_all add: nq)
  have q0: "0 < q" using n by (simp add: q_def)
  have bq: "bitlen q = bitlen n + k - s" using n sk by (simp add: q_def bitlen_double)
  have q53: "q < 2 ^ 53" using bq bl unfolding s_def by (subst bitlen_le_iff [symmetric]) simp
  have s_small: "s \<le> 2045" using big by (simp add: s_def bl)
  have rnd: "f64_round neg (n * 2 ^ k) 1 = f64_make neg (min (s * 2 ^ 52 + q) (2047 * 2 ^ 52))"
    using q by (simp add: f64_round_def Let_def s_def [symmetric])
  have "s * 2 ^ 52 \<le> 2045 * 2 ^ 52" using s_small by (rule mult_le_mono1)
  then have mn: "min (s * 2 ^ 52 + q) (2047 * 2 ^ 52) = s * 2 ^ 52 + q" using q53 by simp
  have rnd: "f64_round neg (n * 2 ^ k) 1 = f64_make neg (s * 2 ^ 52 + q)" unfolding rnd mn ..
  show ?thesis
  proof (cases "q < 2 ^ 52")
    case True
    then have "bitlen q \<le> 52" by (simp add: bitlen_le_iff)
    then have "s = 0" using bq bl unfolding s_def by linarith
    then show ?thesis
      unfolding rnd using f64_make_fields [of 0 q neg] True nq by (simp add: f64_finite_def f64_mag_def)
  next
    case False
    then have e: "s * 2 ^ 52 + q = Suc s * 2 ^ 52 + (q - 2 ^ 52)" by simp
    have "Suc s < 2048" "q - 2 ^ 52 < 2 ^ 52" using s_small q53 by auto
    note f = f64_make_fields [OF this, of neg]
    have "Suc s \<noteq> 2047" using s_small by simp
    then show ?thesis
      using f False nq unfolding rnd e by (simp add: f64_finite_def f64_mag_def)
  qed
qed


lemma f64_round_0: "f64_round neg 0 d = f64_make neg 0"
  by (simp add: f64_round_def Let_def)

lemma f64_make_0: "f64_finite (f64_make neg 0)" "f64_mag (f64_make neg 0) = 0" "f64_neg (f64_make neg 0) = neg"
  using f64_make_fields [of 0 0 neg] by (simp_all add: f64_finite_def f64_mag_def)

section \<open>Integers\<close>

text \<open>Rounding a large integer needs only its own bits.\<close>

lemma f64_round_scale:
  assumes "53 \<le> bitlen n"
  shows "f64_round neg (n * 2 ^ k) 1 =
    (let t = bitlen n - 53; q = n div 2 ^ t; r = n mod 2 ^ t;
         q' = (if 2 ^ t < 2 * r \<or> (2 * r = 2 ^ t \<and> odd q) then q + 1 else q)
     in f64_make neg (min ((t + k) * 2 ^ 52 + q') (2047 * 2 ^ 52)))"
proof -
  define t where "t = bitlen n - 53"
  have n: "0 < n" using assms by (cases n) auto
  have s: "bitlen (n * 2 ^ k) - 53 = t + k" using assms by (simp add: bitlen_double [OF n] t_def)
  have q: "n * 2 ^ k div 2 ^ (t + k) = n div 2 ^ t" by (simp add: power_add)
  have r: "n * 2 ^ k mod 2 ^ (t + k) = n mod 2 ^ t * 2 ^ k" by (simp add: power_add mult_mod_left)
  define c where "c = (2::nat) ^ k"
  have c: "0 < c" by (simp add: c_def)
  have "2 ^ (t + k) < 2 * (n mod 2 ^ t * 2 ^ k) \<longleftrightarrow> 2 ^ t * c < (2 * (n mod 2 ^ t)) * c"
    by (simp add: c_def power_add)
  also have "\<dots> \<longleftrightarrow> 2 ^ t < 2 * (n mod 2 ^ t)" using c by (simp only: mult_less_cancel2) simp
  finally have lt: "2 ^ (t + k) < 2 * (n mod 2 ^ t * 2 ^ k) \<longleftrightarrow> 2 ^ t < 2 * (n mod 2 ^ t)" .
  have "2 * (n mod 2 ^ t * 2 ^ k) = 2 ^ (t + k) \<longleftrightarrow> (2 * (n mod 2 ^ t)) * c = 2 ^ t * c"
    by (simp add: c_def power_add)
  also have "\<dots> \<longleftrightarrow> 2 * (n mod 2 ^ t) = 2 ^ t" using c by (simp only: mult_cancel2) simp
  finally have eq: "2 * (n mod 2 ^ t * 2 ^ k) = 2 ^ (t + k) \<longleftrightarrow> 2 * (n mod 2 ^ t) = 2 ^ t" .
  show ?thesis
    unfolding f64_round_def Let_def div_by_1 mult_1 s q r lt eq t_def [symmetric] ..
qed

text \<open>Up to \<open>2^53\<close> an integer converts without loss, and sums of such integers are exact.\<close>

lemma f64_of_int_exact:
  assumes "\<bar>i\<bar> \<le> 2 ^ 53"
  shows "f64_finite (f64_of_int i) \<and> f64_mag (f64_of_int i) = nat \<bar>i\<bar> * 2 ^ 1074 \<and> f64_neg (f64_of_int i) = (i < 0)"
proof -
  have "nat \<bar>i\<bar> \<le> 2 ^ 53" using assms by (simp add: nat_le_iff)
  then consider "i = 0" | "i \<noteq> 0" "nat \<bar>i\<bar> < 2 ^ 53" | "nat \<bar>i\<bar> = 2 ^ 53" by linarith
  then show ?thesis
  proof cases
    case 1
    then show ?thesis by (simp add: f64_of_int_def f64_round_0 f64_make_0 del: One_nat_def)
  next
    case 2
    then have p: "0 < nat \<bar>i\<bar>" by simp
    have "bitlen (nat \<bar>i\<bar>) \<le> 53" using 2 by (simp add: bitlen_le_iff)
    then show ?thesis
      unfolding f64_of_int_def using f64_round_exact [OF p 2(2), of 1074 "i < 0"] by simp
  next
    case 3
    have "nat \<bar>i\<bar> * 2 ^ 1074 = 1 * 2 ^ 1127" unfolding 3 by (simp add: power_add [symmetric])
    moreover have "bitlen 1 = 1" by (simp add: bitlen.simps)
    ultimately show ?thesis
      unfolding f64_of_int_def using f64_round_exact [of 1 1127 "i < 0"] by simp
  qed
qed

lemma f64_units_of_int: "\<bar>i\<bar> \<le> 2 ^ 53 \<Longrightarrow> f64_units (f64_of_int i) = i * 2 ^ 1074"
  using f64_of_int_exact [of i] by (cases "i < 0") (simp_all add: f64_units_def)

lemma f64_finite_not: "f64_finite x \<Longrightarrow> \<not> f64_nan x \<and> \<not> f64_inf x"
  by (simp add: f64_finite_def f64_nan_def f64_inf_def)

lemma f64_add_int:
  assumes "\<bar>i\<bar> \<le> 2 ^ 53" "\<bar>j\<bar> \<le> 2 ^ 53"
  shows "f64_add (f64_of_int i) (f64_of_int j) = f64_of_int (i + j)"
proof -
  note fi = f64_of_int_exact [OF assms(1)] and fj = f64_of_int_exact [OF assms(2)]
  have u: "f64_units (f64_of_int i) + f64_units (f64_of_int j) = (i + j) * 2 ^ 1074"
    using assms by (simp add: f64_units_of_int distrib_right)
  have nf: "\<not> f64_nan (f64_of_int i)" "\<not> f64_inf (f64_of_int i)" "\<not> f64_nan (f64_of_int j)" "\<not> f64_inf (f64_of_int j)"
    using fi fj f64_finite_not by blast+
  have z: "((i + j) * 2 ^ 1074 = 0) = (i + j = 0)" "((i + j) * 2 ^ 1074 < 0) = (i + j < 0)"
    by (simp_all only: mult_eq_0_iff mult_less_0_iff) simp_all
  have m: "nat \<bar>(i + j) * 2 ^ 1074\<bar> = nat \<bar>i + j\<bar> * 2 ^ 1074"
    by (simp add: abs_mult nat_mult_distrib nat_power_eq)
  show ?thesis
  proof (cases "i + j = 0")
    case True
    then have sg: "(f64_neg (f64_of_int i) \<and> f64_neg (f64_of_int j)) = False" using fi fj by auto
    have "f64_of_int (i + j) = f64_make False 0" by (simp add: True f64_of_int_def f64_round_0 del: One_nat_def)
    then show ?thesis unfolding f64_add_def Let_def u z m sg using nf True by simp
  next
    case False
    then show ?thesis unfolding f64_add_def Let_def u z m using nf by (simp add: f64_of_int_def)
  qed
qed

section \<open>Numbers that are integers\<close>

lemma f64_mag_bound: "f64_finite x \<Longrightarrow> \<exists>n k. f64_mag x = n * 2 ^ k \<and> n < 2 ^ 53 \<and> bitlen n + k \<le> 2098"
proof -
  assume fin: "f64_finite x"
  show ?thesis
  proof (cases "f64_exp x = 0")
    case True
    have "bitlen (f64_frac x) \<le> 52" using f64_frac_less by (simp add: bitlen_le_iff)
    with True show ?thesis
      using f64_frac_less [of x] by (intro exI [of _ "f64_frac x"] exI [of _ 0]) (simp add: f64_mag_def)
  next
    case False
    have "bitlen (2 ^ 52 + f64_frac x) \<le> 53" using f64_frac_less [of x] by (simp add: bitlen_le_iff)
    moreover have "f64_exp x \<le> 2046" using fin f64_exp_less [of x] by (simp add: f64_finite_def)
    ultimately show ?thesis using False f64_frac_less [of x]
      by (intro exI [of _ "2 ^ 52 + f64_frac x"] exI [of _ "f64_exp x - 1"]) (simp add: f64_mag_def)
  qed
qed

lemma f64_mag_inj:
  assumes "f64_mag x = f64_mag y" "f64_neg x = f64_neg y" "f64_finite x" "f64_finite y"
  shows "x = y"
proof -
  define b where "b z = f64_exp z * 2 ^ 52 + f64_frac z" for z
  have shape: "\<exists>s q. f64_mag z = q * 2 ^ s \<and> b z = s * 2 ^ 52 + q \<and> q < 2 ^ 53 \<and> (s > 0 \<longrightarrow> 2 ^ 52 \<le> q)" for z
  proof (cases "f64_exp z = 0")
    case True
    then show ?thesis using f64_frac_less [of z]
      by (intro exI [of _ 0] exI [of _ "f64_frac z"]) (simp add: b_def f64_mag_def)
  next
    case False
    then obtain e where "f64_exp z = Suc e" by (cases "f64_exp z") auto
    then show ?thesis using f64_frac_less [of z]
      by (intro exI [of _ e] exI [of _ "2 ^ 52 + f64_frac z"]) (simp add: b_def f64_mag_def)
  qed
  obtain s q where x: "f64_mag x = q * 2 ^ s" "b x = s * 2 ^ 52 + q" "q < 2 ^ 53" "s > 0 \<longrightarrow> 2 ^ 52 \<le> q"
    using shape by blast
  obtain t r where y: "f64_mag y = r * 2 ^ t" "b y = t * 2 ^ 52 + r" "r < 2 ^ 53" "t > 0 \<longrightarrow> 2 ^ 52 \<le> r"
    using shape by blast
  have gen: "s = bitlen (q * 2 ^ s) - 53" if "q < 2 ^ 53" "s > 0 \<longrightarrow> 2 ^ 52 \<le> q" for q s :: nat
  proof (cases "s = 0")
    case True
    have "bitlen q \<le> 53" using that by (simp add: bitlen_le_iff)
    with True show ?thesis by simp
  next
    case False
    then have "2 ^ 52 \<le> q" using that by simp
    then have "bitlen q = 53" "0 < q" using that bitlen_le_iff [of q 52] bitlen_le_iff [of q 53] by simp_all
    then show ?thesis by (simp add: bitlen_double)
  qed
  have "s = t" using gen [OF x(3,4)] gen [OF y(3,4)] x(1) y(1) assms(1) by simp
  then have "q = r" using x(1) y(1) assms(1) by simp
  then have "b x = b y" using x(2) y(2) \<open>s = t\<close> by simp
  then have "unat x = unat y" using f64_split [of x] f64_split [of y] assms(2) by (simp add: b_def)
  then show ?thesis by (simp add: word_unat_eq_iff)
qed

text \<open>\<open>f64_integer x = Some i\<close>: the number is the integer \<open>i\<close>.\<close>

definition f64_integer :: "f64 \<Rightarrow> int option" where
  "f64_integer x =
    (if f64_finite x \<and> f64_mag x mod 2 ^ 1074 = 0
     then Some (if f64_neg x then - int (f64_mag x div 2 ^ 1074) else int (f64_mag x div 2 ^ 1074)) else None)"

lemma f64_round_integer:
  assumes x: "f64_finite x" and i: "f64_integer x = Some i"
  shows "f64_finite (f64_of_int i)" "f64_mag (f64_of_int i) = f64_mag x" "f64_mag x \<noteq> 0 \<Longrightarrow> f64_of_int i = x"
proof -
  have d: "f64_mag x mod 2 ^ 1074 = 0" and iv: "i = (if f64_neg x then - int (f64_mag x div 2 ^ 1074) else int (f64_mag x div 2 ^ 1074))"
    using i by (auto simp: f64_integer_def split: if_splits)
  define M where "M = f64_mag x div 2 ^ 1074"
  have mM: "f64_mag x = M * 2 ^ 1074"
    unfolding M_def using d by (metis add.right_neutral div_mult_mod_eq)
  have nM: "nat \<bar>i\<bar> = M" unfolding iv M_def [symmetric] by simp
  have of: "f64_of_int i = f64_round (i < 0) (f64_mag x) 1" unfolding f64_of_int_def nM mM ..
  have "f64_finite (f64_of_int i) \<and> f64_mag (f64_of_int i) = f64_mag x \<and> (f64_mag x \<noteq> 0 \<longrightarrow> f64_of_int i = x)"
  proof (cases "f64_mag x = 0")
    case True
    then show ?thesis unfolding of by (simp add: f64_round_0 f64_make_0 del: One_nat_def)
  next
    case False
    obtain n k where nk: "f64_mag x = n * 2 ^ k" "n < 2 ^ 53" "bitlen n + k \<le> 2098" using f64_mag_bound [OF x] by blast
    have n: "0 < n" using False nk(1) by (cases n) auto
    have e: "f64_finite (f64_of_int i)" "f64_mag (f64_of_int i) = f64_mag x" "f64_neg (f64_of_int i) = (i < 0)"
      unfolding of nk(1) using f64_round_exact [OF n nk(2,3)] by auto
    have "M \<noteq> 0" using False mM by (cases M) auto
    then have "(i < 0) = f64_neg x" unfolding iv M_def [symmetric] by simp
    then show ?thesis using f64_mag_inj [OF e(2) _ e(1) x] e by simp
  qed
  then show "f64_finite (f64_of_int i)" "f64_mag (f64_of_int i) = f64_mag x" "f64_mag x \<noteq> 0 \<Longrightarrow> f64_of_int i = x"
    by blast+
qed


lemma f64_mag_0_finite: "f64_mag x = 0 \<Longrightarrow> f64_finite x"
  by (auto simp: f64_mag_def f64_finite_def split: if_splits)

lemma f64_of_int_smallest:
  "f64_finite (f64_of_int (- (2 ^ 63))) \<and> f64_mag (f64_of_int (- (2 ^ 63))) = 2 ^ 63 * 2 ^ 1074 \<and> f64_neg (f64_of_int (- (2 ^ 63)))"
proof -
  have "bitlen 1 = 1" by (simp add: bitlen.simps)
  moreover have "nat \<bar>- (2 ^ 63 :: int)\<bar> * 2 ^ 1074 = 1 * 2 ^ 1137" by (simp add: power_add [symmetric])
  moreover have "- (2 ^ 63) < (0::int)" by simp
  ultimately show ?thesis unfolding f64_of_int_def using f64_round_exact [of 1 1137 True] by simp
qed

lemma f64_mag_large:
  assumes "2 ^ 52 * 2 ^ 1074 \<le> f64_mag x"
  shows "f64_mag x mod 2 ^ 1074 = 0"
proof -
  have z: "f64_exp x \<noteq> 0"
  proof
    assume "f64_exp x = 0"
    then have "f64_mag x < 2 ^ 52 * 1" using f64_frac_less [of x] by (simp add: f64_mag_def)
    also have "(2::nat) ^ 52 * 1 \<le> 2 ^ 52 * 2 ^ 1074" by (rule mult_le_mono2) simp
    finally show False using assms by simp
  qed
  then have m: "f64_mag x = (2 ^ 52 + f64_frac x) * 2 ^ (f64_exp x - 1)" by (simp add: f64_mag_def)
  have "f64_mag x < 2 ^ 53 * 2 ^ (f64_exp x - 1)" unfolding m using f64_frac_less [of x] by (intro mult_less_mono1) simp_all
  also have "(2::nat) ^ 53 * 2 ^ (f64_exp x - 1) = 2 ^ (53 + (f64_exp x - 1))" by (simp only: power_add)
  finally have "(2::nat) ^ (52 + 1074) < 2 ^ (53 + (f64_exp x - 1))" using assms by (simp only: power_add)
  then have "52 + 1074 < 53 + (f64_exp x - 1)" by (rule power_less_imp_less_exp [rotated]) simp
  then have "1074 \<le> f64_exp x - 1" by simp
  then have "2 ^ 1074 dvd f64_mag x" unfolding m by (intro dvd_mult le_imp_power_dvd)
  then show ?thesis by simp
qed

text \<open>The test \<open>val == float64(int64(val))\<close> holds exactly for the integers an \<open>int64\<close> can hold.\<close>

lemma f64_is_int64_iff:
  "f64_eq x (f64_of_int (f64_trunc x)) \<longleftrightarrow> (\<exists>i. f64_integer x = Some i \<and> - (2 ^ 63) \<le> i \<and> i < 2 ^ 63)"
  (is "?l \<longleftrightarrow> ?r")
proof
  assume ?r
  then obtain i where i: "f64_integer x = Some i" "- (2 ^ 63) \<le> i" "i < 2 ^ 63" by blast
  then have fin: "f64_finite x" by (auto simp: f64_integer_def split: if_splits)
  have t: "f64_trunc x = i" using i fin by (auto simp: f64_integer_def f64_trunc_def Let_def split: if_splits)
  show ?l
    using f64_round_integer [OF fin i(1)] f64_finite_not [OF fin] f64_finite_not [of "f64_of_int i"]
    by (auto simp: f64_eq_def t)
next
  assume l: ?l
  define t where "t = f64_trunc x"
  show ?r
  proof (cases "f64_mag x = 0")
    case True
    with f64_mag_0_finite [OF True] show ?thesis by (intro exI [of _ 0]) (simp add: f64_integer_def)
  next
    case False
    then have eq: "x = f64_of_int t" using l by (simp add: f64_eq_def t_def)
    define j where "j = (if f64_neg x then - int (f64_mag x div 2 ^ 1074) else int (f64_mag x div 2 ^ 1074))"
    have fin: "f64_finite x"
    proof (rule ccontr)
      assume "\<not> f64_finite x"
      then have "t = - (2 ^ 63)" by (simp add: t_def f64_trunc_def)
      with eq \<open>\<not> f64_finite x\<close> show False using f64_of_int_smallest by simp
    qed
    have tj: "t = (if - (2 ^ 63) \<le> j \<and> j < 2 ^ 63 then j else - (2 ^ 63))"
      unfolding t_def f64_trunc_def Let_def j_def using fin by simp
    have jr: "- (2 ^ 63) \<le> j \<and> j < 2 ^ 63"
    proof (rule ccontr)
      assume n: "\<not> (- (2 ^ 63) \<le> j \<and> j < 2 ^ 63)"
      then have "t = - (2 ^ 63)" unfolding tj by (rule if_not_P)
      with eq have "f64_mag x = 2 ^ 63 * 2 ^ 1074" "f64_neg x" using f64_of_int_smallest by simp_all
      then have "j = - (2 ^ 63)" unfolding j_def by simp
      with n show False by simp
    qed
    then have t: "t = j" unfolding tj by (rule if_P)
    have "f64_mag x mod 2 ^ 1074 = 0"
    proof (cases "2 ^ 52 * 2 ^ 1074 \<le> f64_mag x")
      case True
      then show ?thesis by (rule f64_mag_large)
    next
      case False
      then have "f64_mag x div 2 ^ 1074 < 2 ^ 52" by (simp only: less_mult_imp_div_less)
      then have "\<bar>j\<bar> \<le> 2 ^ 53" unfolding j_def by simp
      then have "f64_mag x = nat \<bar>j\<bar> * 2 ^ 1074" using f64_of_int_exact [of j] eq t by simp
      then show ?thesis by simp
    qed
    then have "f64_integer x = Some j" using fin by (simp add: f64_integer_def j_def)
    with jr show ?thesis by blast
  qed
qed

end
