(* ===== verification/Event_Value.thy ===== *)
theory Event_Value imports Gt_Text Gt_Float begin

text \<open>
  The values events carry: \<open>pkg/event/value.go\<close>, \<open>value_conv.go\<close> and the intermediate form of \<open>value_msgpack.go\<close>.
  A \<open>Value\<close> built by its constructors sets the field of its kind only, so the tagged struct is a datatype.  A Go map
  is an association list without duplicate keys (\<open>value_wf\<close>), whose order is the order of a visit; the byte and array
  slices do not distinguish \<open>nil\<close> from empty.
\<close>

section \<open>Values\<close>

datatype ValueKind = KNull | KBool | KInt | KUint | KFloat | KString | KBytes | KArray | KObject

datatype val =
  VNull | VBool bool | VInt "64 word" | VUint "64 word" | VFloat f64 | VString string
| VBytes "byte list" | VArray "val list" | VObject "(string \<times> val) list"

fun Kind :: "val \<Rightarrow> ValueKind" where
  "Kind VNull = KNull"
| "Kind (VBool _) = KBool"
| "Kind (VInt _) = KInt"
| "Kind (VUint _) = KUint"
| "Kind (VFloat _) = KFloat"
| "Kind (VString _) = KString"
| "Kind (VBytes _) = KBytes"
| "Kind (VArray _) = KArray"
| "Kind (VObject _) = KObject"

fun kind_String :: "ValueKind \<Rightarrow> string" where
  "kind_String KNull = ''null''"
| "kind_String KBool = ''bool''"
| "kind_String KInt = ''int''"
| "kind_String KUint = ''uint''"
| "kind_String KFloat = ''float''"
| "kind_String KString = ''string''"
| "kind_String KBytes = ''bytes''"
| "kind_String KArray = ''array''"
| "kind_String KObject = ''object''"

text \<open>The accessors return \<open>None\<close> where the code returns \<open>(_, false)\<close>.\<close>

definition IsNull :: "val \<Rightarrow> bool" where "IsNull v = (Kind v = KNull)"

fun AsBool :: "val \<Rightarrow> bool option" where
  "AsBool (VBool b) = Some b"
| "AsBool _ = None"

fun AsInt :: "val \<Rightarrow> 64 word option" where
  "AsInt (VInt i) = Some i"
| "AsInt (VUint u) = (if u \<le> drop_bit 1 (- 1) then Some u else None)"
| "AsInt _ = None"

fun AsUint :: "val \<Rightarrow> 64 word option" where
  "AsUint (VUint u) = Some u"
| "AsUint (VInt i) = (if 0 \<le> sint i then Some i else None)"
| "AsUint _ = None"

fun AsFloat :: "val \<Rightarrow> f64 option" where
  "AsFloat (VFloat f) = Some f"
| "AsFloat (VInt i) = Some (f64_of_int (sint i))"
| "AsFloat (VUint u) = Some (f64_of_int (uint u))"
| "AsFloat _ = None"

fun AsString :: "val \<Rightarrow> string option" where
  "AsString (VString s) = Some s"
| "AsString _ = None"

fun AsBytes :: "val \<Rightarrow> byte list option" where
  "AsBytes (VBytes b) = Some b"
| "AsBytes _ = None"

fun AsArray :: "val \<Rightarrow> val list option" where
  "AsArray (VArray a) = Some a"
| "AsArray _ = None"

fun AsObject :: "val \<Rightarrow> (string \<times> val) list option" where
  "AsObject (VObject m) = Some m"
| "AsObject _ = None"

fun Get :: "val \<Rightarrow> string \<Rightarrow> val option" where
  "Get (VObject m) key = map_of m key"
| "Get _ key = None"

fun get_parts :: "val \<Rightarrow> string list \<Rightarrow> val option" where
  "get_parts v [] = Some v"
| "get_parts v (p # ps) =
    (case AsObject v of None \<Rightarrow> None
     | Some obj \<Rightarrow> (case map_of obj p of None \<Rightarrow> None | Some n \<Rightarrow> get_parts n ps))"

definition GetByPath :: "val \<Rightarrow> string \<Rightarrow> val option" where
  "GetByPath v path = get_parts v (split_char (CHR ''.'') path)"

fun Index :: "val \<Rightarrow> int \<Rightarrow> val option" where
  "Index (VArray a) i = (if i < 0 \<or> int (length a) \<le> i then None else Some (a ! nat i))"
| "Index _ i = None"

fun Len :: "val \<Rightarrow> nat" where
  "Len (VArray a) = length a"
| "Len (VObject m) = length m"
| "Len (VString s) = length s"
| "Len (VBytes b) = length b"
| "Len _ = 0"

lemma size_alist_less [termination_simp]: "(k, v) \<in> set m \<Longrightarrow> size v < Suc (size_list (size_prod (\<lambda>_. 0) size) m)"
  by (induction m) auto

fun Equal :: "val \<Rightarrow> val \<Rightarrow> bool" where
  "Equal VNull w = (w = VNull)"
| "Equal (VBool b) w = (w = VBool b)"
| "Equal (VInt i) w = (w = VInt i)"
| "Equal (VUint u) w = (w = VUint u)"
| "Equal (VFloat f) w = (case w of VFloat g \<Rightarrow> f64_eq f g | _ \<Rightarrow> False)"
| "Equal (VString s) w = (w = VString s)"
| "Equal (VBytes b) w = (w = VBytes b)"
| "Equal (VArray a) w = (case w of VArray c \<Rightarrow> list_all2 Equal a c | _ \<Rightarrow> False)"
| "Equal (VObject m) w =
    (case w of
       VObject n \<Rightarrow> length m = length n
         \<and> list_all (\<lambda>(k, v). case map_of n k of None \<Rightarrow> False | Some u \<Rightarrow> Equal v u) m
     | _ \<Rightarrow> False)"

section \<open>Updates\<close>

datatype value_err = MergeLeft | MergeRight | SetOnNonObject | DeleteOnNonObject | AppendOnNonArray

fun Merge :: "val \<Rightarrow> val \<Rightarrow> value_err + val" where
  "Merge (VObject m) (VObject n) = Inr (VObject (AList.updates (map fst n) (map snd n) m))"
| "Merge (VObject m) _ = Inl MergeRight"
| "Merge _ _ = Inl MergeLeft"

fun SetKey :: "val \<Rightarrow> string \<Rightarrow> val \<Rightarrow> value_err + val" where
  "SetKey (VObject m) key v = Inr (VObject (AList.update key v m))"
| "SetKey _ key v = Inl SetOnNonObject"

fun DeleteKey :: "val \<Rightarrow> string \<Rightarrow> value_err + val" where
  "DeleteKey (VObject m) key = Inr (VObject (filter (\<lambda>(k, _). k \<noteq> key) m))"
| "DeleteKey _ key = Inl DeleteOnNonObject"

fun ValueAppend :: "val \<Rightarrow> val \<Rightarrow> value_err + val" where
  "ValueAppend (VArray a) v = Inr (VArray (a @ [v]))"
| "ValueAppend _ v = Inl AppendOnNonArray"

section \<open>Go's own types\<close>

text \<open>What an \<open>any\<close> can hold; for another type the text that \<open>%v\<close> prints is all that is used.\<close>

datatype goany =
  GNil | GBool bool | GInt "64 word" | GInt8 "8 word" | GInt16 "16 word" | GInt32 "32 word" | GInt64 "64 word"
| GUint "64 word" | GUint8 "8 word" | GUint16 "16 word" | GUint32 "32 word" | GUint64 "64 word"
| GFloat32 "32 word" | GFloat64 f64 | GString string | GBytes "byte list" | GSlice "goany list"
| GMap "(string \<times> goany) list" | GOther string

text \<open>\<open>float64(x)\<close> of a \<open>float32\<close> is exact.\<close>

definition f64_of_f32 :: "32 word \<Rightarrow> f64" where
  "f64_of_f32 x =
    (let n = unat x; neg = (2 ^ 31 \<le> n); e = n div 2 ^ 23 mod 256; f = n mod 2 ^ 23 in
     (if e = 255 then f64_make neg (2047 * 2 ^ 52 + f * 2 ^ 29)
      else f64_round neg ((if e = 0 then f else (2 ^ 23 + f) * 2 ^ (e - 1)) * 2 ^ 925) 1))"

fun ValueFromAny :: "goany \<Rightarrow> val" where
  "ValueFromAny GNil = VNull"
| "ValueFromAny (GBool b) = VBool b"
| "ValueFromAny (GInt i) = VInt i"
| "ValueFromAny (GInt8 i) = VInt (scast i)"
| "ValueFromAny (GInt16 i) = VInt (scast i)"
| "ValueFromAny (GInt32 i) = VInt (scast i)"
| "ValueFromAny (GInt64 i) = VInt i"
| "ValueFromAny (GUint u) = VUint u"
| "ValueFromAny (GUint8 u) = VUint (ucast u)"
| "ValueFromAny (GUint16 u) = VUint (ucast u)"
| "ValueFromAny (GUint32 u) = VUint (ucast u)"
| "ValueFromAny (GUint64 u) = VUint u"
| "ValueFromAny (GFloat32 x) = VFloat (f64_of_f32 x)"
| "ValueFromAny (GFloat64 x) =
    (if f64_eq x (f64_of_int (f64_trunc x)) then VInt (word_of_int (f64_trunc x)) else VFloat x)"
| "ValueFromAny (GString s) = VString s"
| "ValueFromAny (GBytes b) = VBytes b"
| "ValueFromAny (GSlice xs) = VArray (map ValueFromAny xs)"
| "ValueFromAny (GMap m) = VObject (map (map_prod id ValueFromAny) m)"
| "ValueFromAny (GOther s) = VString s"

fun ToAny :: "val \<Rightarrow> goany" where
  "ToAny VNull = GNil"
| "ToAny (VBool b) = GBool b"
| "ToAny (VInt i) = GInt64 i"
| "ToAny (VUint u) = GUint64 u"
| "ToAny (VFloat f) = GFloat64 f"
| "ToAny (VString s) = GString s"
| "ToAny (VBytes b) = GBytes b"
| "ToAny (VArray a) = GSlice (map ToAny a)"
| "ToAny (VObject m) = GMap (map (map_prod id ToAny) m)"

definition ValueFromMap :: "(string \<times> goany) list \<Rightarrow> val" where
  "ValueFromMap m = VObject (map (map_prod id ValueFromAny) m)"

definition ValueFromSlice :: "goany list \<Rightarrow> val" where
  "ValueFromSlice xs = VArray (map ValueFromAny xs)"

section \<open>The MsgPack form\<close>

text \<open>The struct that is serialised: a tag and, for each kind, an optional field.\<close>

datatype msgpackValue = MsgpackValue
  (mp_type: string) (mp_bool: "bool option") (mp_int: "64 word option") (mp_uint: "64 word option")
  (mp_float: "f64 option") (mp_string: "string option") (mp_bytes: "byte list")
  (mp_array: "msgpackValue list") (mp_object: "(string \<times> msgpackValue) list option")

fun valueToMsgpack :: "val \<Rightarrow> msgpackValue" where
  "valueToMsgpack VNull = MsgpackValue ''null'' None None None None None [] [] None"
| "valueToMsgpack (VBool b) = MsgpackValue ''bool'' (Some b) None None None None [] [] None"
| "valueToMsgpack (VInt i) = MsgpackValue ''int'' None (Some i) None None None [] [] None"
| "valueToMsgpack (VUint u) = MsgpackValue ''uint'' None None (Some u) None None [] [] None"
| "valueToMsgpack (VFloat f) = MsgpackValue ''float'' None None None (Some f) None [] [] None"
| "valueToMsgpack (VString s) = MsgpackValue ''string'' None None None None (Some s) [] [] None"
| "valueToMsgpack (VBytes b) = MsgpackValue ''bytes'' None None None None None b [] None"
| "valueToMsgpack (VArray a) = MsgpackValue ''array'' None None None None None [] (map valueToMsgpack a) None"
| "valueToMsgpack (VObject m) =
    MsgpackValue ''object'' None None None None None [] [] (Some (map (map_prod id valueToMsgpack) m))"

datatype mp_err = MpNil string | MpIndex nat mp_err | MpKey string mp_err | MpUnknown string

text \<open>The two loops, over the element decoder: they stop at the first error and say where it is.\<close>

fun mp_elems :: "('a \<Rightarrow> mp_err + 'b) \<Rightarrow> nat \<Rightarrow> 'a list \<Rightarrow> mp_err + 'b list" where
  "mp_elems f i [] = Inr []"
| "mp_elems f i (x # xs) =
    (case f x of Inl e \<Rightarrow> Inl (MpIndex i e)
     | Inr v \<Rightarrow> (case mp_elems f (Suc i) xs of Inl e \<Rightarrow> Inl e | Inr vs \<Rightarrow> Inr (v # vs)))"

fun mp_fields :: "('a \<Rightarrow> mp_err + 'b) \<Rightarrow> (string \<times> 'a) list \<Rightarrow> mp_err + (string \<times> 'b) list" where
  "mp_fields f [] = Inr []"
| "mp_fields f ((k, x) # xs) =
    (case f x of Inl e \<Rightarrow> Inl (MpKey k e)
     | Inr v \<Rightarrow> (case mp_fields f xs of Inl e \<Rightarrow> Inl e | Inr vs \<Rightarrow> Inr ((k, v) # vs)))"

lemma mp_elems_cong [fundef_cong]:
  "i = j \<Longrightarrow> xs = ys \<Longrightarrow> (\<And>x. x \<in> set ys \<Longrightarrow> f x = g x) \<Longrightarrow> mp_elems f i xs = mp_elems g j ys"
proof (induction xs arbitrary: i j ys)
  case (Cons x xs)
  have fx: "f x = g x" using Cons.prems(3) [of x] Cons.prems(2) by (auto simp del: Cons.prems)
  have "mp_elems f (Suc i) xs = mp_elems g (Suc i) xs" using Cons.prems(2,3) by (intro Cons.IH) auto
  with fx Cons.prems(1,2) show ?case by (auto split: sum.split)
qed simp

lemma mp_fields_cong [fundef_cong]:
  "xs = ys \<Longrightarrow> (\<And>k x. (k, x) \<in> set ys \<Longrightarrow> f x = g x) \<Longrightarrow> mp_fields f xs = mp_fields g ys"
proof (induction xs arbitrary: ys)
  case (Cons p xs)
  obtain k x where p: "p = (k, x)" by (cases p)
  have fx: "f x = g x" by (rule Cons.prems(2) [of k]) (use Cons.prems(1) p in auto)
  have "mp_fields f xs = mp_fields g xs"
    by (rule Cons.IH [OF refl], rule Cons.prems(2)) (use Cons.prems(1) in auto)
  with fx Cons.prems(1) p show ?case by (auto split: sum.split)
qed simp

definition need :: "string \<Rightarrow> ('a \<Rightarrow> 'b) \<Rightarrow> 'a option \<Rightarrow> mp_err + 'b" where
  "need tag f o1 = (case o1 of None \<Rightarrow> Inl (MpNil tag) | Some x \<Rightarrow> Inr (f x))"

fun msgpackToValue :: "msgpackValue \<Rightarrow> mp_err + val" where
  "msgpackToValue (MsgpackValue ty b i u f s bs arr obj) =
    (if ty = ''null'' then Inr VNull
     else if ty = ''bool'' then need ty VBool b
     else if ty = ''int'' then need ty VInt i
     else if ty = ''uint'' then need ty VUint u
     else if ty = ''float'' then need ty VFloat f
     else if ty = ''string'' then need ty VString s
     else if ty = ''bytes'' then Inr (VBytes bs)
     else if ty = ''array'' then map_sum id VArray (mp_elems msgpackToValue 0 arr)
     else if ty = ''object'' then
       (case obj of None \<Rightarrow> Inl (MpNil ty) | Some m \<Rightarrow> map_sum id VObject (mp_fields msgpackToValue m))
     else Inl (MpUnknown ty))"

end
