(* ===== verification/Event_Model.thy ===== *)
theory Event_Model imports Event_Value begin

text \<open>
  Events: identity, trace, network context and payload (\<open>pkg/event/identity.go\<close>, \<open>trace.go\<close>, \<open>payload.go\<close>,
  \<open>event.go\<close>, \<open>adapter.go\<close>).  A time is the number of nanoseconds since Go's zero time.  The byte coding of MsgPack is
  a library: its two functions are arguments.
\<close>

type_synonym gotime = int

section \<open>Identity and trace\<close>

record event_identity =
  ei_id :: string
  ei_session :: string
  ei_type :: string
  ei_schema :: string
  ei_source :: string
  ei_time :: gotime
  ei_scenario :: string
  ei_replay :: string

text \<open>The identifier is what \<open>NewEventID\<close> returns, \<open>now\<close> what the clock says.\<close>

definition NewIdentityWithTime :: "string \<Rightarrow> string \<Rightarrow> string \<Rightarrow> string \<Rightarrow> string \<Rightarrow> gotime \<Rightarrow> event_identity" where
  "NewIdentityWithTime eid session ty schema source ts =
    \<lparr>ei_id = eid, ei_session = session, ei_type = ty, ei_schema = schema, ei_source = source, ei_time = ts,
     ei_scenario = [], ei_replay = []\<rparr>"

definition NewIdentity :: "string \<Rightarrow> gotime \<Rightarrow> string \<Rightarrow> string \<Rightarrow> string \<Rightarrow> string \<Rightarrow> event_identity" where
  "NewIdentity eid now session ty schema source =
    \<lparr>ei_id = eid, ei_session = session, ei_type = ty, ei_schema = schema, ei_source = source, ei_time = now,
     ei_scenario = [], ei_replay = []\<rparr>"

definition identity_IsZero :: "event_identity \<Rightarrow> bool" where
  "identity_IsZero i = (ei_id i = [] \<and> ei_session i = [] \<and> ei_type i = [])"

datatype event_err = ErrMissingEventID | ErrMissingEventType | ErrMissingTimestamp

definition identity_Validate :: "event_identity \<Rightarrow> event_err option" where
  "identity_Validate i =
    (if ei_id i = [] then Some ErrMissingEventID
     else if ei_type i = [] then Some ErrMissingEventType
     else if ei_time i = 0 then Some ErrMissingTimestamp
     else None)"

record trace_context =
  tc_causation :: string
  tc_correlation :: string
  tc_origin :: string

definition NewTraceContext :: "string \<Rightarrow> string \<Rightarrow> string \<Rightarrow> trace_context" where
  "NewTraceContext c r i = \<lparr>tc_causation = c, tc_correlation = r, tc_origin = i\<rparr>"

definition trace_IsZero :: "trace_context \<Rightarrow> bool" where
  "trace_IsZero t = (tc_causation t = [] \<and> tc_correlation t = [] \<and> tc_origin t = [])"

definition HasCausation :: "trace_context \<Rightarrow> bool" where "HasCausation t = (tc_causation t \<noteq> [])"
definition HasCorrelation :: "trace_context \<Rightarrow> bool" where "HasCorrelation t = (tc_correlation t \<noteq> [])"
definition HasOrigin :: "trace_context \<Rightarrow> bool" where "HasOrigin t = (tc_origin t \<noteq> [])"
definition trace_WithCausation :: "trace_context \<Rightarrow> string \<Rightarrow> trace_context" where
  "trace_WithCausation t c = t\<lparr>tc_causation := c\<rparr>"
definition trace_WithCorrelation :: "trace_context \<Rightarrow> string \<Rightarrow> trace_context" where
  "trace_WithCorrelation t c = t\<lparr>tc_correlation := c\<rparr>"
definition trace_WithOrigin :: "trace_context \<Rightarrow> string \<Rightarrow> trace_context" where
  "trace_WithOrigin t c = t\<lparr>tc_origin := c\<rparr>"

section \<open>Context, payload and event\<close>

record event_context =
  ec_flow :: string
  ec_raw :: string
  ec_ordinal :: "64 word"
  ec_direction :: string
  ec_conn :: string
  ec_source :: string

definition zero_context :: event_context where
  "zero_context = \<lparr>ec_flow = [], ec_raw = [], ec_ordinal = 0, ec_direction = [], ec_conn = [], ec_source = []\<rparr>"

record payload =
  pl_schema :: string
  pl_value :: val

definition NewPayload :: "string \<Rightarrow> val \<Rightarrow> payload" where "NewPayload s v = \<lparr>pl_schema = s, pl_value = v\<rparr>"
definition payload_IsZero :: "payload \<Rightarrow> bool" where "payload_IsZero p = (pl_schema p = [] \<and> IsNull (pl_value p))"
definition payload_Get :: "payload \<Rightarrow> string \<Rightarrow> val option" where "payload_Get p key = Get (pl_value p) key"

record trace_event =
  ev_identity :: event_identity
  ev_trace :: trace_context
  ev_context :: event_context
  ev_payload :: payload

definition NewEvent :: "string \<Rightarrow> gotime \<Rightarrow> string \<Rightarrow> string \<Rightarrow> string \<Rightarrow> string \<Rightarrow> val \<Rightarrow> event_context \<Rightarrow> trace_event" where
  "NewEvent eid now session ty schema source v ctx =
    \<lparr>ev_identity = NewIdentity eid now session ty schema source, ev_trace = NewTraceContext [] [] [],
     ev_context = ctx, ev_payload = \<lparr>pl_schema = schema, pl_value = v\<rparr>\<rparr>"

definition NewEventWithTime :: "string \<Rightarrow> string \<Rightarrow> string \<Rightarrow> string \<Rightarrow> string \<Rightarrow> val \<Rightarrow> gotime \<Rightarrow> event_context \<Rightarrow> trace_event" where
  "NewEventWithTime eid session ty schema source v ts ctx =
    \<lparr>ev_identity = NewIdentityWithTime eid session ty schema source ts, ev_trace = NewTraceContext [] [] [],
     ev_context = ctx, ev_payload = \<lparr>pl_schema = schema, pl_value = v\<rparr>\<rparr>"

definition NewEventWithTrace :: "string \<Rightarrow> gotime \<Rightarrow> string \<Rightarrow> string \<Rightarrow> string \<Rightarrow> string \<Rightarrow> val \<Rightarrow> trace_context \<Rightarrow> event_context \<Rightarrow> trace_event" where
  "NewEventWithTrace eid now session ty schema source v tr ctx =
    \<lparr>ev_identity = NewIdentity eid now session ty schema source, ev_trace = tr,
     ev_context = ctx, ev_payload = \<lparr>pl_schema = schema, pl_value = v\<rparr>\<rparr>"

definition event_Validate :: "trace_event \<Rightarrow> event_err option" where "event_Validate e = identity_Validate (ev_identity e)"

definition WithTrace :: "trace_event \<Rightarrow> trace_context \<Rightarrow> trace_event" where
  "WithTrace e t = \<lparr>ev_identity = ev_identity e, ev_trace = t, ev_context = ev_context e, ev_payload = ev_payload e\<rparr>"
definition WithCausation :: "trace_event \<Rightarrow> string \<Rightarrow> trace_event" where
  "WithCausation e c = WithTrace e (trace_WithCausation (ev_trace e) c)"
definition WithCorrelation :: "trace_event \<Rightarrow> string \<Rightarrow> trace_event" where
  "WithCorrelation e c = WithTrace e (trace_WithCorrelation (ev_trace e) c)"
definition WithOrigin :: "trace_event \<Rightarrow> string \<Rightarrow> trace_event" where
  "WithOrigin e c = WithTrace e (trace_WithOrigin (ev_trace e) c)"

text \<open>\<open>MetaValue\<close>, on an event that is not nil.\<close>

definition MetaValue :: "trace_event \<Rightarrow> string \<Rightarrow> val option" where
  "MetaValue e key =
    (case AsObject (pl_value (ev_payload e)) of None \<Rightarrow> None
     | Some obj \<Rightarrow> (case map_of obj ''_meta'' of None \<Rightarrow> None
       | Some meta \<Rightarrow> (case AsObject meta of None \<Rightarrow> None | Some mo \<Rightarrow> map_of mo key)))"

text \<open>A field of an object, if it is there and of the right kind; else the default.\<close>

definition field_or :: "(val \<Rightarrow> 'a option) \<Rightarrow> 'a \<Rightarrow> (string \<times> val) list \<Rightarrow> string \<Rightarrow> 'a" where
  "field_or as d obj key = (case map_of obj key of None \<Rightarrow> d | Some v \<Rightarrow> (case as v of None \<Rightarrow> d | Some x \<Rightarrow> x))"

definition context_value :: "event_context \<Rightarrow> val" where
  "context_value c = ValueFromAny (GMap
    [(''flow_id'', GString (ec_flow c)), (''raw_packet_id'', GString (ec_raw c)), (''message_ordinal'', GInt (ec_ordinal c)),
     (''direction'', GString (ec_direction c)), (''conn_id'', GString (ec_conn c)), (''source'', GString (ec_source c))])"

definition context_of_value :: "val \<Rightarrow> event_context" where
  "context_of_value v =
    (case AsObject v of None \<Rightarrow> zero_context
     | Some obj \<Rightarrow>
        \<lparr>ec_flow = field_or AsString [] obj ''flow_id'', ec_raw = field_or AsString [] obj ''raw_packet_id'',
         ec_ordinal = field_or AsInt 0 obj ''message_ordinal'', ec_direction = field_or AsString [] obj ''direction'',
         ec_conn = field_or AsString [] obj ''conn_id'', ec_source = field_or AsString [] obj ''source''\<rparr>)"

section \<open>MsgPack bytes\<close>

datatype 'e codec_err = CodecErr 'e | FormErr mp_err

definition MarshalMsgpack :: "(msgpackValue \<Rightarrow> 'e + byte list) \<Rightarrow> val \<Rightarrow> 'e + byte list" where
  "MarshalMsgpack enc v = enc (valueToMsgpack v)"

definition UnmarshalValueMsgpack :: "(byte list \<Rightarrow> 'e + msgpackValue) \<Rightarrow> byte list \<Rightarrow> 'e codec_err + val" where
  "UnmarshalValueMsgpack dec data =
    (case dec data of Inl e \<Rightarrow> Inl (CodecErr e)
     | Inr mv \<Rightarrow> (case msgpackToValue mv of Inl e \<Rightarrow> Inl (FormErr e) | Inr v \<Rightarrow> Inr v))"

definition context_MarshalMsgpack :: "(msgpackValue \<Rightarrow> 'e + byte list) \<Rightarrow> event_context \<Rightarrow> 'e + byte list" where
  "context_MarshalMsgpack enc c = MarshalMsgpack enc (context_value c)"

definition UnmarshalContextMsgpack :: "(byte list \<Rightarrow> 'e + msgpackValue) \<Rightarrow> byte list \<Rightarrow> 'e codec_err + event_context" where
  "UnmarshalContextMsgpack dec data =
    (case UnmarshalValueMsgpack dec data of Inl e \<Rightarrow> Inl e | Inr v \<Rightarrow> Inr (context_of_value v))"

definition UnmarshalPayloadMsgpack :: "(byte list \<Rightarrow> 'e + msgpackValue) \<Rightarrow> byte list \<Rightarrow> string \<Rightarrow> 'e codec_err + payload" where
  "UnmarshalPayloadMsgpack dec data schema =
    (case UnmarshalValueMsgpack dec data of Inl e \<Rightarrow> Inl e | Inr v \<Rightarrow> Inr \<lparr>pl_schema = schema, pl_value = v\<rparr>)"

definition payload_MarshalMsgpack :: "(msgpackValue \<Rightarrow> 'e + byte list) \<Rightarrow> payload \<Rightarrow> 'e + byte list" where
  "payload_MarshalMsgpack enc p = MarshalMsgpack enc (pl_value p)"

section \<open>State changes declared in a payload\<close>

record state_change =
  sc_subject_type :: string
  sc_subject_id :: string
  sc_op :: string
  sc_path :: string
  sc_before :: val
  sc_after :: val
  sc_version :: "64 word"
  sc_metadata :: val

definition change_of :: "(string \<times> val) list \<Rightarrow> state_change" where
  "change_of io =
    \<lparr>sc_subject_type = field_or AsString [] io ''subject_type'', sc_subject_id = field_or AsString [] io ''subject_id'',
     sc_op = field_or AsString [] io ''op'', sc_path = field_or AsString [] io ''path'',
     sc_before = field_or Some VNull io ''before'', sc_after = field_or Some VNull io ''after'',
     sc_version = field_or AsInt 0 io ''version'', sc_metadata = field_or Some VNull io ''metadata''\<rparr>"

definition ExtractStateChanges :: "val \<Rightarrow> state_change list" where
  "ExtractStateChanges v =
    (case AsObject v of None \<Rightarrow> []
     | Some obj \<Rightarrow> (case map_of obj ''_state_changes'' of None \<Rightarrow> []
       | Some raw \<Rightarrow> (case AsArray raw of None \<Rightarrow> []
         | Some arr \<Rightarrow> map change_of (List.map_filter AsObject arr))))"

datatype change_err = NoSubjectType | NoSubjectId | NoOp | NoPath | BadOp string

definition change_Validate :: "state_change \<Rightarrow> change_err option" where
  "change_Validate sc =
    (if TrimSpace (sc_subject_type sc) = [] then Some NoSubjectType
     else if TrimSpace (sc_subject_id sc) = [] then Some NoSubjectId
     else if TrimSpace (sc_op sc) = [] then Some NoOp
     else if TrimSpace (sc_path sc) = [] then Some NoPath
     else if sc_op sc \<in> {''set'', ''delete'', ''merge''} then None
     else Some (BadOp (sc_op sc)))"

section \<open>Contexts and payloads read back\<close>

lemma context_of_value_inverse: "context_of_value (context_value c) = c"
  by (simp add: context_of_value_def context_value_def field_or_def)

end
