(* ===== verification/State_Baseline.thy ===== *)
theory State_Baseline imports Event_Model begin

text \<open>
  The baselines of entities (\<open>pkg/state/baseline.go\<close>): each change an event declares is given the value its path had
  before, as far as it is known.  \<open>MemoryBaselineStore\<close> maps keys to pointers; \<open>Apply\<close> changes a baseline it has read only
  together with writing it back, so a map to values is the same.
\<close>

section \<open>Baselines\<close>

record entity_key =
  ek_session :: string
  ek_flow :: string
  ek_subject_type :: string
  ek_subject_id :: string

record baseline =
  bl_key :: entity_key
  bl_version :: "64 word"
  bl_state :: "string \<rightharpoonup> val"
  bl_first :: gotime
  bl_last :: gotime
  bl_history :: bool

type_synonym baselines = "entity_key \<rightharpoonup> baseline"

definition baseline_Get :: "baselines \<Rightarrow> entity_key \<Rightarrow> baseline option" where "baseline_Get m key = m key"
definition baseline_Put :: "baseline \<Rightarrow> baselines \<Rightarrow> baselines" where "baseline_Put b m = m(bl_key b \<mapsto> b)"

record enriched = state_change +
  en_event :: string
  en_flow :: string
  en_time :: gotime
  en_before_resolved :: bool
  en_after_resolved :: bool
  en_version :: "64 word"

definition enrich :: "state_change \<Rightarrow> trace_event \<Rightarrow> string \<Rightarrow> enriched" where
  "enrich sc ev flow =
    \<lparr>sc_subject_type = sc_subject_type sc, sc_subject_id = sc_subject_id sc, sc_op = sc_op sc, sc_path = sc_path sc,
     sc_before = sc_before sc, sc_after = sc_after sc, sc_version = sc_version sc, sc_metadata = sc_metadata sc,
     en_event = ei_id (ev_identity ev), en_flow = flow, en_time = ei_time (ev_identity ev),
     en_before_resolved = False, en_after_resolved = False, en_version = sc_version sc\<rparr>"

section \<open>Apply\<close>

text \<open>\<open>extractFlowIDFromEvent\<close>, the same in \<open>pkg/state\<close> and \<open>pkg/store\<close>.\<close>

definition extractFlowIDFromEvent :: "trace_event \<Rightarrow> string" where
  "extractFlowIDFromEvent ev =
    (if ec_flow (ev_context ev) \<noteq> [] then ec_flow (ev_context ev)
     else (case AsObject (pl_value (ev_payload ev)) of None \<Rightarrow> []
       | Some obj \<Rightarrow>
         (let top = field_or AsString [] obj ''flow_id'' in
          (case map_of obj ''_meta'' of None \<Rightarrow> top
           | Some meta \<Rightarrow> (case AsObject meta of None \<Rightarrow> top
             | Some mo \<Rightarrow> (case map_of mo ''flow_id'' of None \<Rightarrow> top
               | Some v \<Rightarrow> (case AsString v of None \<Rightarrow> top | Some s \<Rightarrow> s)))))))"

definition key_of :: "string \<Rightarrow> string \<Rightarrow> state_change \<Rightarrow> entity_key" where
  "key_of session flow sc =
    \<lparr>ek_session = session, ek_flow = flow, ek_subject_type = sc_subject_type sc, ek_subject_id = sc_subject_id sc\<rparr>"

definition fresh_baseline :: "entity_key \<Rightarrow> gotime \<Rightarrow> baseline" where
  "fresh_baseline key now =
    \<lparr>bl_key = key, bl_version = 0, bl_state = Map.empty, bl_first = now, bl_last = now, bl_history = False\<rparr>"

text \<open>The body of the loop for a change that is valid.\<close>

definition apply_change :: "trace_event \<Rightarrow> string \<Rightarrow> string \<Rightarrow> state_change \<Rightarrow> baselines \<Rightarrow> enriched \<times> baselines" where
  "apply_change ev session flow sc m =
    (let now = ei_time (ev_identity ev); key = key_of session flow sc; old = baseline_Get m key;
         base = (case old of Some b \<Rightarrow> b | None \<Rightarrow> fresh_baseline key now);
         e0 = enrich sc ev flow;
         e1 = (if old \<noteq> None \<and> bl_history base
               then (case bl_state base (sc_path sc) of
                       Some v \<Rightarrow> e0\<lparr>sc_before := v, en_before_resolved := True\<rparr> | None \<Rightarrow> e0)
               else e0)
     in (if Kind (sc_after sc) \<noteq> KNull
         then (e1\<lparr>en_after_resolved := True\<rparr>,
               baseline_Put (base\<lparr>bl_version := (if bl_version base <s sc_version sc then sc_version sc else bl_version base),
                                bl_state := (bl_state base)(sc_path sc \<mapsto> sc_after sc), bl_last := now, bl_history := True\<rparr>) m)
         else (e1, m)))"

text \<open>The loop stops at the first invalid change: the results so far are dropped, the store keeps what it has.\<close>

fun apply_changes :: "trace_event \<Rightarrow> string \<Rightarrow> string \<Rightarrow> state_change list \<Rightarrow> baselines \<Rightarrow> (change_err + enriched list) \<times> baselines" where
  "apply_changes ev session flow [] m = (Inr [], m)"
| "apply_changes ev session flow (sc # scs) m =
    (case change_Validate sc of
       Some e \<Rightarrow> (Inl e, m)
     | None \<Rightarrow>
       (let (en, m1) = apply_change ev session flow sc m in
        (case apply_changes ev session flow scs m1 of
           (Inl e, m2) \<Rightarrow> (Inl e, m2) | (Inr ens, m2) \<Rightarrow> (Inr (en # ens), m2))))"

definition baseline_Apply :: "trace_event option \<Rightarrow> string \<Rightarrow> baselines \<Rightarrow> (change_err + enriched list) \<times> baselines" where
  "baseline_Apply evo session m =
    (case evo of None \<Rightarrow> (Inr [], m)
     | Some ev \<Rightarrow>
       (let changes = ExtractStateChanges (pl_value (ev_payload ev)) in
        (if changes = [] then (Inr [], m)
         else (let flow = (if ec_flow (ev_context ev) = [] then extractFlowIDFromEvent ev else ec_flow (ev_context ev)) in
           apply_changes ev session flow changes m))))"

section \<open>What a baseline remembers\<close>

text \<open>The specification: the history of an entity is the list of the changes applied to it that carry a new value.  An
  entity is a subject, type and id, in a flow of a session.  The value of a path is that of the last change of it.\<close>

type_synonym change_log = "(entity_key \<times> string \<times> val) list"

definition logged :: "string \<Rightarrow> string \<Rightarrow> state_change list \<Rightarrow> change_log" where
  "logged session flow scs =
    map (\<lambda>sc. (\<lparr>ek_session = session, ek_flow = flow, ek_subject_type = sc_subject_type sc, ek_subject_id = sc_subject_id sc\<rparr>,
         sc_path sc, sc_after sc)) (filter (\<lambda>sc. sc_after sc \<noteq> VNull) scs)"

fun last_value :: "change_log \<Rightarrow> entity_key \<Rightarrow> string \<Rightarrow> val option" where
  "last_value [] key path = None"
| "last_value ((k, p, v) # h) key path =
    (case last_value h key path of Some w \<Rightarrow> Some w | None \<Rightarrow> (if k = key \<and> p = path then Some v else None))"

text \<open>The store of a log: what it knows of a path is the last value logged, and only written baselines are stored.\<close>

definition represents :: "baselines \<Rightarrow> change_log \<Rightarrow> bool" where
  "represents m h \<longleftrightarrow>
    (\<forall>key. (case m key of
       None \<Rightarrow> (\<forall>path. last_value h key path = None)
     | Some b \<Rightarrow> bl_key b = key \<and> bl_history b \<and> bl_state b = last_value h key))"

lemma last_value_append:
  "last_value (h @ g) key path = (case last_value g key path of Some w \<Rightarrow> Some w | None \<Rightarrow> last_value h key path)"
  by (induction h) (auto split: option.split)

lemma logged_key: "logged session flow scs = map (\<lambda>sc. (key_of session flow sc, sc_path sc, sc_after sc)) (filter (\<lambda>sc. sc_after sc \<noteq> VNull) scs)"
  by (simp add: logged_def key_of_def)

lemma Kind_Null: "Kind v = KNull \<longleftrightarrow> v = VNull"
  by (cases v) auto

lemma apply_change_represents:
  assumes r: "represents m h" and a: "apply_change ev session flow sc m = (en, m')"
  shows "represents m' (h @ logged session flow [sc])"
    and "en_before_resolved en = (last_value h (key_of session flow sc) (sc_path sc) \<noteq> None)"
    and "sc_before en = (case last_value h (key_of session flow sc) (sc_path sc) of Some v \<Rightarrow> v | None \<Rightarrow> sc_before sc)"
    and "en_after_resolved en = (sc_after sc \<noteq> VNull)"
proof -
  let ?k = "key_of session flow sc"
  note rk = r [unfolded represents_def, rule_format, of ?k]
  show "en_before_resolved en = (last_value h ?k (sc_path sc) \<noteq> None)"
    "sc_before en = (case last_value h ?k (sc_path sc) of Some v \<Rightarrow> v | None \<Rightarrow> sc_before sc)"
    "en_after_resolved en = (sc_after sc \<noteq> VNull)"
    using a rk by (auto simp: apply_change_def baseline_Get_def Let_def enrich_def Kind_Null fresh_baseline_def split: option.splits if_splits)
  show "represents m' (h @ logged session flow [sc])"
  proof (cases "sc_after sc = VNull")
    case True
    then have "m' = m" using a by (simp add: apply_change_def Let_def Kind_Null split: if_splits)
    with True r show ?thesis by (simp add: logged_key)
  next
    case False
    define base where "base = (case m ?k of Some b \<Rightarrow> b | None \<Rightarrow> fresh_baseline ?k (ei_time (ev_identity ev)))"
    have base: "bl_key base = ?k" "bl_state base = last_value h ?k"
      using rk by (auto simp: base_def fresh_baseline_def fun_eq_iff split: option.splits)
    obtain b where m': "m' = m(?k \<mapsto> b)" and b: "bl_key b = ?k" "bl_history b" "bl_state b = (last_value h ?k)(sc_path sc \<mapsto> sc_after sc)"
      using a False base
      by (auto simp: apply_change_def baseline_Get_def baseline_Put_def Let_def Kind_Null base_def [symmetric])
    have l: "last_value (h @ logged session flow [sc]) key path =
        (if key = ?k \<and> path = sc_path sc then Some (sc_after sc) else last_value h key path)" for key path
      using False by (auto simp: last_value_append logged_key)
    show ?thesis
      unfolding represents_def
    proof
      fix key
      show "case m' key of None \<Rightarrow> \<forall>path. last_value (h @ logged session flow [sc]) key path = None
          | Some b \<Rightarrow> bl_key b = key \<and> bl_history b \<and> bl_state b = last_value (h @ logged session flow [sc]) key"
        using r [unfolded represents_def, rule_format, of key] b
        by (cases "key = ?k") (auto simp: m' l fun_eq_iff split: option.splits)
    qed
  qed
qed

end
