(* ===== verification/Event_Value_Props.thy ===== *)
theory Event_Value_Props imports Event_Value begin

text \<open>
  Values keep their meaning: the MsgPack form reads back, Go's own types read back up to floats that are integers,
  equality is an equivalence away from NaN, and merging, setting and deleting act on the keys they name.
\<close>

text \<open>A Go map has no key twice.\<close>

fun value_wf :: "val \<Rightarrow> bool" where
  "value_wf (VArray a) = list_all value_wf a"
| "value_wf (VObject m) = (distinct (map fst m) \<and> list_all (\<lambda>(k, v). value_wf v) m)"
| "value_wf _ = True"

section \<open>MsgPack\<close>

lemma mp_elems_map: "(\<And>x. x \<in> set xs \<Longrightarrow> f (g x) = Inr x) \<Longrightarrow> mp_elems f i (map g xs) = Inr xs"
  by (induction xs arbitrary: i) auto

lemma mp_fields_map: "(\<And>k x. (k, x) \<in> set xs \<Longrightarrow> f (g x) = Inr x) \<Longrightarrow> mp_fields f (map (map_prod id g) xs) = Inr xs"
proof (induction xs)
  case (Cons p xs)
  obtain k x where p: "p = (k, x)" by (cases p)
  have "f (g x) = Inr x" by (rule Cons.prems [of k]) (simp add: p)
  moreover have "mp_fields f (map (map_prod id g) xs) = Inr xs" by (rule Cons.IH, rule Cons.prems) auto
  ultimately show ?case by (simp add: p id_def)
qed simp

text \<open>Every value reads back from its MsgPack form, whatever it nests: kinds, integers of full width, empty objects.\<close>

theorem msgpackToValue_inverse: "msgpackToValue (valueToMsgpack v) = Inr v"
proof (induction v rule: valueToMsgpack.induct)
  case (9 m)
  have "mp_fields msgpackToValue (map (map_prod id valueToMsgpack) m) = Inr m"
    by (rule mp_fields_map) (rule 9, assumption, auto)
  then show ?case by simp
qed (simp_all add: need_def mp_elems_map)

section \<open>Go's own types\<close>

text \<open>What reading back changes: a float that is an integer in the range of \<open>int64\<close> becomes that integer.\<close>

fun narrow :: "val \<Rightarrow> val" where
  "narrow (VFloat x) =
    (case f64_integer x of
       Some i \<Rightarrow> (if - (2 ^ 63) \<le> i \<and> i < 2 ^ 63 then VInt (word_of_int i) else VFloat x)
     | None \<Rightarrow> VFloat x)"
| "narrow (VArray a) = VArray (map narrow a)"
| "narrow (VObject m) = VObject (map (map_prod id narrow) m)"
| "narrow v = v"

lemma f64_trunc_integer:
  "f64_integer x = Some i \<Longrightarrow> - (2 ^ 63) \<le> i \<Longrightarrow> i < 2 ^ 63 \<Longrightarrow> f64_trunc x = i"
  by (auto simp: f64_integer_def f64_trunc_def Let_def split: if_splits)

lemma ValueFromAny_float: "ValueFromAny (GFloat64 x) = narrow (VFloat x)"
proof (cases "\<exists>i. f64_integer x = Some i \<and> - (2 ^ 63) \<le> i \<and> i < 2 ^ 63")
  case True
  then obtain i where i: "f64_integer x = Some i" "- (2 ^ 63) \<le> i" "i < 2 ^ 63" by blast
  have t: "f64_trunc x = i" by (rule f64_trunc_integer [OF i])
  have "f64_eq x (f64_of_int (f64_trunc x))" using f64_is_int64_iff True by blast
  then have "ValueFromAny (GFloat64 x) = VInt (word_of_int (f64_trunc x))" by (simp only: ValueFromAny.simps if_True)
  then have "ValueFromAny (GFloat64 x) = VInt (word_of_int i)" by (simp only: t)
  then show ?thesis using i by simp
next
  case False
  then have "\<not> f64_eq x (f64_of_int (f64_trunc x))" using f64_is_int64_iff by blast
  then have "ValueFromAny (GFloat64 x) = VFloat x" by simp
  moreover have "narrow (VFloat x) = VFloat x" using False by (auto split: option.split)
  ultimately show ?thesis by simp
qed

text \<open>A value turned into Go's own types and back is the same, but for floats that are integers of 64 bits, which become integers.\<close>

theorem ValueFromAny_ToAny: "ValueFromAny (ToAny v) = narrow v"
proof (induction v rule: ToAny.induct)
  case (5 f)
  then show ?case unfolding ToAny.simps by (rule ValueFromAny_float)
next
  case (9 m)
  have "map_prod id ValueFromAny (map_prod id ToAny p) = map_prod id narrow p" if "p \<in> set m" for p
  proof -
    obtain k w where p: "p = (k, w)" by (cases p)
    have "ValueFromAny (ToAny w) = narrow w" by (rule 9) (use that p in auto)
    then show ?thesis by (simp add: p)
  qed
  then show ?case by simp
qed simp_all

lemma f64_integer_of_int: "\<bar>i\<bar> \<le> 2 ^ 53 \<Longrightarrow> f64_integer (f64_of_int i) = Some i"
  using f64_of_int_exact [of i] by (auto simp: f64_integer_def)

text \<open>A JSON number up to \<open>2^53\<close> that was an integer is one again; the next one is not the same any more.\<close>

lemma json_integer: "\<bar>i\<bar> \<le> 2 ^ 53 \<Longrightarrow> ValueFromAny (GFloat64 (f64_of_int i)) = VInt (word_of_int i)"
  by (simp only: ValueFromAny_float narrow.simps f64_integer_of_int option.simps) (rule if_P, simp add: abs_le_iff)

lemma json_integer_lost: "ValueFromAny (GFloat64 (f64_of_int (2 ^ 53 + 1))) = VInt (2 ^ 53)"
proof -
  have b: "bitlen (2 ^ 53 + 1) = 54" "bitlen (2 ^ 53) = 54"
    by (rule bitlen_eq; simp)+
  have s: "f64_round False ((2 ^ 53 + 1) * 2 ^ 1074) 1 = f64_round False (2 ^ 53 * 2 ^ 1074) 1"
    by (subst (1 2) f64_round_scale) (unfold b Let_def, simp_all)
  have "nat \<bar>2 ^ 53 + 1 :: int\<bar> = 2 ^ 53 + 1" "nat \<bar>2 ^ 53 :: int\<bar> = 2 ^ 53" "\<not> (2 ^ 53 + 1 :: int) < 0" "\<not> (2 ^ 53 :: int) < 0" by simp_all
  then have "f64_of_int (2 ^ 53 + 1) = f64_of_int (2 ^ 53)"
    unfolding f64_of_int_def using s by (simp only: if_False)
  then show ?thesis using json_integer [of "2 ^ 53"] by simp
qed


section \<open>Equality\<close>

fun no_nan :: "val \<Rightarrow> bool" where
  "no_nan (VFloat f) = (\<not> f64_nan f)"
| "no_nan (VArray a) = list_all no_nan a"
| "no_nan (VObject m) = list_all (\<lambda>(k, v). no_nan v) m"
| "no_nan _ = True"

lemma f64_eq_refl: "f64_eq f f \<longleftrightarrow> \<not> f64_nan f" by (auto simp: f64_eq_def)
lemma f64_eq_sym: "f64_eq f g \<Longrightarrow> f64_eq g f" by (auto simp: f64_eq_def)
lemma f64_eq_trans: "f64_eq f g \<Longrightarrow> f64_eq g h \<Longrightarrow> f64_eq f h" by (auto simp: f64_eq_def)

lemma Equal_refl: "value_wf v \<Longrightarrow> Equal v v \<longleftrightarrow> no_nan v"
proof (induction v rule: no_nan.induct)
  case (2 a)
  then show ?case by (auto simp: list_all2_same list_all_iff)
next
  case (3 m)
  have "(case map_of m k of None \<Rightarrow> False | Some u \<Rightarrow> Equal v u) = no_nan v" if "(k, v) \<in> set m" for k v
  proof -
    have "map_of m k = Some v" using 3 that by simp
    moreover have "value_wf v" using 3 that by (auto simp: list_all_iff)
    ultimately show ?thesis using 3(1) [OF that refl] by simp
  qed
  then show ?case by (auto simp: list_all_iff)
qed (simp_all add: f64_eq_refl)

text \<open>What equality of objects comes to: the same keys, and equal values under each.\<close>

lemma Equal_object_iff:
  assumes m: "distinct (map fst m)" and n: "distinct (map fst n)"
  shows "Equal (VObject m) (VObject n) \<longleftrightarrow> (\<forall>k. rel_option Equal (map_of m k) (map_of n k))"
proof
  assume e: "Equal (VObject m) (VObject n)"
  then have l: "length m = length n"
    and all: "\<And>k v. (k, v) \<in> set m \<Longrightarrow> \<exists>u. map_of n k = Some u \<and> Equal v u"
    by (auto simp: list_all_iff split: option.splits)
  have sub: "fst ` set m \<subseteq> fst ` set n"
  proof
    fix k assume "k \<in> fst ` set m"
    then obtain v where "(k, v) \<in> set m" by auto
    with all obtain u where "map_of n k = Some u" by blast
    then show "k \<in> fst ` set n" by (metis map_of_SomeD fst_conv imageI)
  qed
  have "card (fst ` set m) = card (fst ` set n)"
    using distinct_card [OF m] distinct_card [OF n] l by simp
  with sub have keys: "fst ` set m = fst ` set n" by (simp add: card_subset_eq)
  show "\<forall>k. rel_option Equal (map_of m k) (map_of n k)"
  proof
    fix k
    show "rel_option Equal (map_of m k) (map_of n k)"
    proof (cases "map_of m k")
      case None
      then have "map_of n k = None" using keys by (simp add: map_of_eq_None_iff)
      with None show ?thesis by simp
    next
      case (Some v)
      with all [OF map_of_SomeD [OF Some]] show ?thesis by auto
    qed
  qed
next
  assume r: "\<forall>k. rel_option Equal (map_of m k) (map_of n k)"
  have "map_of m k = None \<longleftrightarrow> map_of n k = None" for k
    using spec [OF r, of k] by (cases "map_of m k"; cases "map_of n k") auto
  then have "fst ` set m = fst ` set n" by (auto simp: map_of_eq_None_iff)
  then have l: "length m = length n" using distinct_card [OF m] distinct_card [OF n] by simp
  have "case map_of n k of None \<Rightarrow> False | Some u \<Rightarrow> Equal v u" if "(k, v) \<in> set m" for k v
    using spec [OF r, of k] map_of_is_SomeI [OF m that] by (cases "map_of n k") auto
  with l show "Equal (VObject m) (VObject n)" by (auto simp: list_all_iff)
qed

lemma map_of_wf: "value_wf (VObject m) \<Longrightarrow> map_of m k = Some v \<Longrightarrow> value_wf v"
  by (auto simp: list_all_iff dest!: map_of_SomeD)

lemma Equal_sym: "value_wf v \<Longrightarrow> value_wf w \<Longrightarrow> Equal v w \<Longrightarrow> Equal w v"
proof (induction v arbitrary: w rule: no_nan.induct)
  case (1 f)
  then show ?case by (cases w) (auto intro: f64_eq_sym)
next
  case (2 a)
  then obtain c where w: "w = VArray c" by (cases w) auto
  have l: "length a = length c" and e: "\<And>i. i < length c \<Longrightarrow> Equal (a ! i) (c ! i)"
    using 2 w by (auto simp: list_all2_conv_all_nth)
  have "Equal (c ! i) (a ! i)" if i: "i < length c" for i
    by (rule 2(1)) (use 2 w i l e [OF i] in \<open>auto simp: list_all_length\<close>)
  with w l show ?case by (simp add: list_all2_conv_all_nth)
next
  case (3 m)
  then obtain n where w: "w = VObject n" by (cases w) auto
  have d: "distinct (map fst m)" "distinct (map fst n)" using 3 w by simp_all
  have "rel_option Equal (map_of n k) (map_of m k)" for k
  proof -
    have r: "rel_option Equal (map_of m k) (map_of n k)"
      using 3(4) Equal_object_iff [OF d] w by blast
    show ?thesis
    proof (cases "map_of m k")
      case (Some v)
      with r obtain u where u: "map_of n k = Some u" "Equal v u" by (cases "map_of n k") auto
      have "Equal u v"
        by (rule 3(1) [OF map_of_SomeD [OF Some] refl]) (use 3 w Some u map_of_wf in blast)+
      with Some u show ?thesis by simp
    next
      case None
      with r show ?thesis by (auto simp: rel_option_iff split: option.splits)
    qed
  qed
  with w d show ?case by (simp only: Equal_object_iff) simp
qed (simp_all add: eq_commute)


lemma Equal_trans: "value_wf u \<Longrightarrow> value_wf v \<Longrightarrow> value_wf w \<Longrightarrow> Equal u v \<Longrightarrow> Equal v w \<Longrightarrow> Equal u w"
proof (induction u arbitrary: v w rule: no_nan.induct)
  case (1 f)
  then show ?case by (cases v; cases w) (auto intro: f64_eq_trans)
next
  case (2 a)
  obtain b where v: "v = VArray b" using 2(5) by (cases v) auto
  obtain c where w: "w = VArray c" using 2(6) v by (cases w) auto
  have l: "length a = length c" "length b = length c" and e: "\<And>i. i < length c \<Longrightarrow> Equal (a ! i) (b ! i) \<and> Equal (b ! i) (c ! i)"
    using 2(5,6) v w by (auto simp: list_all2_conv_all_nth)
  have wf: "list_all value_wf a" "list_all value_wf b" "list_all value_wf c" using 2(2,3,4) v w by simp_all
  have "Equal (a ! i) (c ! i)" if i: "i < length c" for i
    by (rule 2(1) [of "a ! i" "b ! i"]) (use wf i l e [OF i] in \<open>simp_all add: list_all_length\<close>)
  with w l show ?case by (simp add: list_all2_conv_all_nth)
next
  case (3 m)
  obtain n where v: "v = VObject n" using 3(5) by (cases v) auto
  obtain p where w: "w = VObject p" using 3(6) v by (cases w) auto
  have d: "distinct (map fst m)" "distinct (map fst n)" "distinct (map fst p)" using 3(2,3,4) v w by simp_all
  have "rel_option Equal (map_of m k) (map_of p k)" for k
  proof -
    have r: "rel_option Equal (map_of m k) (map_of n k)" "rel_option Equal (map_of n k) (map_of p k)"
      using 3(5,6) Equal_object_iff [OF d(1,2)] Equal_object_iff [OF d(2,3)] v w by blast+
    show ?thesis
    proof (cases "map_of m k")
      case (Some x)
      with r obtain y z where yz: "map_of n k = Some y" "map_of p k = Some z" "Equal x y" "Equal y z"
        by (cases "map_of n k"; cases "map_of p k") auto
      have "Equal x z"
        by (rule 3(1) [OF map_of_SomeD [OF Some] refl, of y]) (use 3(2,3,4) v w Some yz map_of_wf in blast)+
      with Some yz show ?thesis by simp
    next
      case None
      with r show ?thesis by (auto simp: rel_option_iff split: option.splits)
    qed
  qed
  with w d show ?case by (simp only: Equal_object_iff) simp
qed (simp_all add: eq_commute)

text \<open>Equal is an equivalence on the values without NaN; with a NaN anywhere inside, a value is not equal to itself.\<close>

theorem Equal_equivalence:
  assumes "value_wf u" "value_wf v" "value_wf w"
  shows "(Equal v v \<longleftrightarrow> no_nan v) \<and> (Equal v w \<longleftrightarrow> Equal w v) \<and> (Equal u v \<longrightarrow> Equal v w \<longrightarrow> Equal u w)"
  using Equal_refl [OF assms(2)] Equal_sym [OF assms(2,3)] Equal_sym [OF assms(3,2)] Equal_trans [OF assms] by blast

theorem Equal_equivalence_witness:
  "Equal (VObject [(''a'', VInt 1), (''b'', VNull)]) (VObject [(''b'', VNull), (''a'', VInt 1)])
    \<and> \<not> Equal (VArray [VFloat f64_NaN]) (VArray [VFloat f64_NaN])"
proof -
  have n: "f64_nan f64_NaN" by (simp add: f64_nan_def f64_exp_def f64_frac_def f64_NaN_def)
  show ?thesis
    using Equal_equivalence [of VNull "VObject [(''b'', VNull), (''a'', VInt 1)]" "VObject [(''a'', VInt 1), (''b'', VNull)]"]
      Equal_equivalence [of VNull "VArray [VFloat f64_NaN]" VNull] n by simp
qed

section \<open>Objects\<close>

lemma map_of_updates: "map_of (AList.updates (map fst n) (map snd n) m) = map_of m ++ map_of (rev n)"
proof (induction n arbitrary: m)
  case (Cons p n)
  then show ?case by (cases p) (simp add: AList.update_conv' map_add_def fun_eq_iff split: option.split)
qed simp

lemma Get_Merge:
  "distinct (map fst n) \<Longrightarrow> Merge (VObject m) (VObject n) = Inr r \<Longrightarrow>
    Get r k = (case map_of n k of Some v \<Rightarrow> Some v | None \<Rightarrow> map_of m k)"
proof -
  assume n: "distinct (map fst n)" and r: "Merge (VObject m) (VObject n) = Inr r"
  have "map_of (rev n) = map_of n" using n by (simp add: map_of_inject_set distinct_map)
  with r show ?thesis by (auto simp: map_of_updates map_add_def)
qed

lemma map_of_drop_key: "map_of (filter (\<lambda>(k, _). k \<noteq> key) m) k = (if k = key then None else map_of m k)"
  by (induction m) auto

lemma rev_map_of: "distinct (map fst n) \<Longrightarrow> map_of (rev n) = map_of n"
  by (simp add: map_of_inject_set distinct_map)

lemma distinct_map_filter: "distinct (map f xs) \<Longrightarrow> distinct (map f (filter P xs))"
  by (induction xs) auto

text \<open>Well-formedness of an object in terms of what it maps.\<close>

lemma wf_object_iff: "value_wf (VObject m) \<longleftrightarrow> distinct (map fst m) \<and> (\<forall>k x. map_of m k = Some x \<longrightarrow> value_wf x)"
  by (auto simp: list_all_iff dest: map_of_SomeD)

lemma Merge_cases [case_names objects left right]:
  "(\<And>m n. p = (VObject m, VObject n) \<Longrightarrow> P) \<Longrightarrow> (AsObject (fst p) = None \<Longrightarrow> Merge (fst p) (snd p) = Inl MergeLeft \<Longrightarrow> P)
    \<Longrightarrow> (AsObject (snd p) = None \<Longrightarrow> Merge (fst p) (snd p) = Inl MergeRight \<Longrightarrow> P) \<Longrightarrow> P"
  by (cases p; cases "fst p"; cases "snd p") auto

text \<open>C35: merging needs two objects, setting and deleting a key one; they then change exactly the keys they name and
  yield a well-formed object.  On anything else they fail with the error of the operation, naming the left operand
  first.\<close>

theorem object_updates:
  assumes v: "value_wf v" and w: "value_wf w"
  shows "(case Merge v w of
      Inr r \<Rightarrow> (\<exists>m n l. v = VObject m \<and> w = VObject n \<and> r = VObject l) \<and> value_wf r \<and>
        (\<forall>k. Get r k = (case Get w k of Some x \<Rightarrow> Some x | None \<Rightarrow> Get v k))
    | Inl e \<Rightarrow> if \<forall>m. v \<noteq> VObject m then e = MergeLeft else e = MergeRight \<and> (\<forall>n. w \<noteq> VObject n))
    \<and> (case SetKey v key w of
      Inr r \<Rightarrow> (\<exists>m l. v = VObject m \<and> r = VObject l) \<and> value_wf r \<and> (\<forall>k. Get r k = (if k = key then Some w else Get v k))
    | Inl e \<Rightarrow> e = SetOnNonObject \<and> (\<forall>m. v \<noteq> VObject m))
    \<and> (case DeleteKey v key of
      Inr r \<Rightarrow> (\<exists>m l. v = VObject m \<and> r = VObject l) \<and> value_wf r \<and> (\<forall>k. Get r k = (if k = key then None else Get v k))
    | Inl e \<Rightarrow> e = DeleteOnNonObject \<and> (\<forall>m. v \<noteq> VObject m))"
proof (intro conjI)
  show "case Merge v w of
      Inr r \<Rightarrow> (\<exists>m n l. v = VObject m \<and> w = VObject n \<and> r = VObject l) \<and> value_wf r \<and>
        (\<forall>k. Get r k = (case Get w k of Some x \<Rightarrow> Some x | None \<Rightarrow> Get v k))
    | Inl e \<Rightarrow> if \<forall>m. v \<noteq> VObject m then e = MergeLeft else e = MergeRight \<and> (\<forall>n. w \<noteq> VObject n)"
  proof (cases "\<exists>m n. v = VObject m \<and> w = VObject n")
    case True
    then obtain m n where o1: "v = VObject m" "w = VObject n" by blast
    have d: "distinct (map fst m)" "distinct (map fst n)" using v w o1 by simp_all
    have wm: "map_of m k = Some x \<Longrightarrow> value_wf x" and wn: "map_of n k = Some x \<Longrightarrow> value_wf x" for k x
      using map_of_wf v w o1 by blast+
    have "value_wf (VObject (AList.updates (map fst n) (map snd n) m))" (is "value_wf (VObject ?r)")
      unfolding wf_object_iff
    proof
      show dr: "distinct (map fst ?r)" by (rule AList.distinct_updates) (rule d)
      show "\<forall>k x. map_of ?r k = Some x \<longrightarrow> value_wf x"
        unfolding map_of_updates rev_map_of [OF d(2)] map_add_Some_iff using wm wn by blast
    qed
    then show ?thesis unfolding o1 using Get_Merge [OF d(2) Merge.simps(1), of m] by (simp cong: option.case_cong)
  next
    case False
    then show ?thesis by (cases v; cases w) auto
  qed
next
  show "case SetKey v key w of
      Inr r \<Rightarrow> (\<exists>m l. v = VObject m \<and> r = VObject l) \<and> value_wf r \<and> (\<forall>k. Get r k = (if k = key then Some w else Get v k))
    | Inl e \<Rightarrow> e = SetOnNonObject \<and> (\<forall>m. v \<noteq> VObject m)"
    using v w by (cases v) (auto simp: wf_object_iff AList.distinct_update AList.update_conv' split: if_splits simp del: value_wf.simps(2))
next
  show "case DeleteKey v key of
      Inr r \<Rightarrow> (\<exists>m l. v = VObject m \<and> r = VObject l) \<and> value_wf r \<and> (\<forall>k. Get r k = (if k = key then None else Get v k))
    | Inl e \<Rightarrow> e = DeleteOnNonObject \<and> (\<forall>m. v \<noteq> VObject m)"
    using v by (cases v) (auto simp: wf_object_iff map_of_drop_key distinct_map_filter split: if_splits simp del: value_wf.simps(2))
qed

theorem object_updates_witness:
  "Merge (VObject [(''a'', VInt 1)]) (VObject [(''a'', VNull), (''b'', VBool True)]) = Inr (VObject [(''a'', VNull), (''b'', VBool True)])
    \<and> Get (projr (SetKey (VObject [(''a'', VInt 1)]) ''b'' (VInt 2))) ''b'' = Some (VInt 2)
    \<and> SetKey VNull ''a'' (VInt 1) = Inl SetOnNonObject"
  using object_updates [of "VObject [(''a'', VInt 1)]" "VObject [(''a'', VNull), (''b'', VBool True)]" "''b''"]
    object_updates [of "VObject [(''a'', VInt 1)]" "VInt 2" "''b''"] object_updates [of VNull "VInt 1" "''a''"] by simp

end
