(* ===== verification/Event_Id.thy ===== *)
theory Event_Id imports Gt_Base begin

text \<open>
  Event identifiers, \<open>NewEventID\<close> and \<open>formatUUID\<close> of \<open>pkg/event/identity.go\<close>: a UUID whose first 48 bits are
  milliseconds and whose next bits count within a millisecond, meant to sort by time of creation.  The clock and the
  random bytes are arguments; the mutex makes the calls one after the other.
\<close>

section \<open>The generator\<close>

record uuid_state =
  uuidv7LastMs :: int
  uuidv7Sequence :: "16 word"

text \<open>A signed 64-bit number after \<open>++\<close>.\<close>

definition int64 :: "int \<Rightarrow> int" where "int64 i = signed_take_bit 63 i"

text \<open>The time and counter of the next identifier: \<open>b0 b1\<close> are the random bytes of a new millisecond.\<close>

definition next_stamp :: "int \<Rightarrow> byte \<Rightarrow> byte \<Rightarrow> uuid_state \<Rightarrow> int \<times> uuid_state" where
  "next_stamp nowMs b0 b1 s =
    (if nowMs \<le> uuidv7LastMs s
     then (let q = uuidv7Sequence s + 1 in
       (if 0xFFF < q
        then (let l = int64 (uuidv7LastMs s + 1) in (l, \<lparr>uuidv7LastMs = l, uuidv7Sequence = 0\<rparr>))
        else (nowMs, s\<lparr>uuidv7Sequence := q\<rparr>)))
     else (nowMs, \<lparr>uuidv7LastMs = nowMs,
                  uuidv7Sequence = (push_bit 4 (ucast b0) OR drop_bit 4 (ucast b1)) AND 0x0FFF\<rparr>))"

definition hex_digits :: string where "hex_digits = ''0123456789abcdef''"

definition hex_pair :: "byte \<Rightarrow> string" where
  "hex_pair b = [hex_digits ! unat (drop_bit 4 b), hex_digits ! unat (b AND 0x0F)]"

text \<open>The loop of \<open>formatUUID\<close> from byte \<open>i\<close> on.\<close>

fun format_from :: "nat \<Rightarrow> byte list \<Rightarrow> string" where
  "format_from i [] = []"
| "format_from i (b # bs) =
    (if i = 4 \<or> i = 6 \<or> i = 8 \<or> i = 10 then CHR ''-'' # hex_pair b else hex_pair b) @ format_from (Suc i) bs"

definition formatUUID :: "byte list \<Rightarrow> string" where "formatUUID uuid = format_from 0 uuid"

text \<open>\<open>binary.BigEndian\<close> on the two parts of the time.\<close>

definition be32 :: "32 word \<Rightarrow> byte list" where
  "be32 w = [ucast (drop_bit 24 w), ucast (drop_bit 16 w), ucast (drop_bit 8 w), ucast w]"
definition be16 :: "16 word \<Rightarrow> byte list" where "be16 w = [ucast (drop_bit 8 w), ucast w]"

definition uuid_bytes :: "int \<Rightarrow> 16 word \<Rightarrow> byte list \<Rightarrow> byte list" where
  "uuid_bytes ms q rnd =
    be32 (word_of_int (drop_bit 16 ms)) @ be16 (word_of_int ms)
    @ [0x70 OR (ucast (drop_bit 8 q) AND 0x0F), ucast q]
    @ [((rnd ! 0) AND 0x3F) OR 0x80] @ take 7 (drop 1 rnd)"

definition NewEventID :: "int \<Rightarrow> byte \<Rightarrow> byte \<Rightarrow> byte list \<Rightarrow> uuid_state \<Rightarrow> string \<times> uuid_state" where
  "NewEventID now b0 b1 rnd s =
    (let (ms, s') = next_stamp now b0 b1 s in (formatUUID (uuid_bytes ms (uuidv7Sequence s') rnd), s'))"

section \<open>Formatting keeps the order\<close>

lemma unat_drop_bit: "unat (drop_bit k (w :: 'a::len word)) = unat w div 2 ^ k"
proof -
  have "take_bit LENGTH('a) (unat w) = unat w" by (rule take_bit_nat_eq_self) (rule unsigned_less)
  then show ?thesis by (subst unsigned_drop_bit_eq) (simp add: drop_bit_eq_div)
qed

lemma nibbles: "unat (drop_bit 4 b) = unat (b::byte) div 16" "unat (b AND 0x0F) = unat b mod 16"
proof -
  show "unat (drop_bit 4 b) = unat b div 16" by (simp only: unat_drop_bit) simp
  show "unat (b AND 0x0F) = unat b mod 16" using unat_and_mask [of b 4] by (simp add: mask_eq_exp_minus_1)
qed

lemma hex_digit_less: "i < 16 \<Longrightarrow> j < 16 \<Longrightarrow> hex_digits ! i < hex_digits ! j \<longleftrightarrow> i < j"
proof -
  have "\<forall>i \<in> set [0..<16]. \<forall>j \<in> set [0..<16]. (hex_digits ! i < hex_digits ! j) = (i < j)" by code_simp
  then show "i < 16 \<Longrightarrow> j < 16 \<Longrightarrow> hex_digits ! i < hex_digits ! j \<longleftrightarrow> i < j" by simp
qed

lemma hex_digit_eq: "i < 16 \<Longrightarrow> j < 16 \<Longrightarrow> hex_digits ! i = hex_digits ! j \<longleftrightarrow> i = j"
  using hex_digit_less [of i j] hex_digit_less [of j i] by (metis linorder_neqE less_irrefl)

lemma hex_pair_less: "hex_pair b @ xs < hex_pair c @ ys \<longleftrightarrow> b < c \<or> b = c \<and> xs < ys"
proof -
  have b: "unat b < 256" "unat c < 256" using unsigned_less [where ?w = b] unsigned_less [where ?w = c] by simp_all
  have d: "unat b div 16 < 16" "unat c div 16 < 16" using b by auto
  have lt: "b < c \<longleftrightarrow> unat b < unat c" by (simp add: word_less_nat_alt)
  have eq: "b = c \<longleftrightarrow> unat b = unat c" by (simp add: word_unat_eq_iff)
  have sp: "unat b = unat b div 16 * 16 + unat b mod 16" "unat c = unat c div 16 * 16 + unat c mod 16" by simp_all
  have m: "unat b mod 16 < 16" "unat c mod 16 < 16" by simp_all
  have lt2: "unat b < unat c \<longleftrightarrow> unat b div 16 < unat c div 16 \<or> unat b div 16 = unat c div 16 \<and> unat b mod 16 < unat c mod 16"
    using sp m by linarith
  have eq2: "unat b = unat c \<longleftrightarrow> unat b div 16 = unat c div 16 \<and> unat b mod 16 = unat c mod 16"
    using sp by metis
  show ?thesis
    unfolding lt eq lt2 eq2 using d m
    by (auto simp: hex_pair_def nibbles hex_digit_less hex_digit_eq)
qed

lemma format_from_less: "length xs = length ys \<Longrightarrow> format_from i xs < format_from i ys \<longleftrightarrow> xs < ys"
  by (induction xs ys arbitrary: i rule: list_induct2) (auto simp: hex_pair_less)

lemma formatUUID_less: "length xs = length ys \<Longrightarrow> formatUUID xs < formatUUID ys \<longleftrightarrow> xs < ys"
  by (simp add: formatUUID_def format_from_less)


section \<open>Identifiers sort by time and counter\<close>

lemma length_uuid_bytes: "length rnd = 8 \<Longrightarrow> length (uuid_bytes ms q rnd) = 16"
  by (simp add: uuid_bytes_def be32_def be16_def)

lemma unat_ucast_byte: "unat (ucast (w::'a::len word) :: byte) = unat w mod 256"
  by (simp add: unsigned_ucast_eq take_bit_eq_mod)

lemma version_byte: "(q::16 word) \<le> 0xFFF \<Longrightarrow> unat (0x70 OR (ucast (drop_bit 8 q) AND 0x0F) :: byte) = 0x70 + unat q div 256"
proof -
  assume "q \<le> 0xFFF"
  then have q: "unat q < 4096" by (simp add: word_le_nat_alt)
  define h where "h = unat q div 256"
  have h: "h < 16" using q by (simp add: h_def)
  have "(ucast (drop_bit 8 q) AND 0x0F :: byte) = of_nat h"
  proof -
    have "unat (ucast (drop_bit 8 q) AND 0x0F :: byte) = unat (ucast (drop_bit 8 q) :: byte) mod 16"
      using unat_and_mask [of "ucast (drop_bit 8 q) :: byte" 4] by (simp add: mask_eq_exp_minus_1)
    also have "\<dots> = h" unfolding unat_ucast_byte unat_drop_bit h_def using q by simp
    finally show ?thesis using h by (simp add: word_unat_eq_iff unat_of_nat)
  qed
  moreover have "\<forall>h \<in> set [0..<16]. unat (0x70 OR of_nat h :: byte) = 0x70 + h" by code_simp
  ultimately show ?thesis using h by (simp add: h_def)
qed


lemma be_val_append: "be_val (xs @ ys) = be_val xs * 256 ^ length ys + be_val ys"
proof -
  have "le_val (as @ bs) = le_val as + 256 ^ length as * le_val bs" for as bs
    by (induction as) (auto simp: algebra_simps)
  then show ?thesis by (simp add: be_val_def)
qed

lemma lex_be_val: "length xs = length ys \<Longrightarrow> xs < ys \<longleftrightarrow> be_val xs < be_val ys"
proof (induction xs ys rule: list_induct2)
  case (Cons x xs y ys)
  have c: "be_val (z # zs) = unat z * 256 ^ length zs + be_val zs" for z zs
    using be_val_append [of "[z]" zs] by (simp add: be_val_def)
  have b: "be_val xs < 256 ^ length ys" "be_val ys < 256 ^ length ys" using be_val_less [of xs] be_val_less [of ys] Cons by simp_all
  consider "x < y" | "x = y" | "y < x" by fastforce
  then show ?case
  proof cases
    case 1
    then have "Suc (unat x) * 256 ^ length ys \<le> unat y * 256 ^ length ys" by (intro mult_le_mono1) (simp add: word_less_nat_alt)
    with 1 b show ?thesis using Cons by (simp add: c)
  next
    case 3
    then have "Suc (unat y) * 256 ^ length ys \<le> unat x * 256 ^ length ys" by (intro mult_le_mono1) (simp add: word_less_nat_alt)
    with 3 b show ?thesis using Cons by (auto simp: c)
  qed (use Cons in \<open>simp add: c\<close>)
qed simp

lemma lex_prefix: "length xs = length ys \<Longrightarrow> xs @ as < ys @ bs \<longleftrightarrow> xs < ys \<or> xs = ys \<and> as < bs"
  by (induction xs ys rule: list_induct2) auto

lemma be_val4: "be_val [a, b, c, d] = ((unat a * 256 + unat b) * 256 + unat c) * 256 + unat d"
  by (simp add: be_val_def)

lemma be32_be_val: "be_val (be32 w) = unat w"
proof -
  have w: "unat w < 2 ^ 32" using unsigned_less [where ?w = w] by simp
  have e: "unat (ucast (drop_bit k w) :: byte) = unat w div 2 ^ k mod 256" for k
    by (simp only: unat_ucast_byte unat_drop_bit)
  have z: "unat (ucast w :: byte) = unat w mod 256" by (rule unat_ucast_byte)
  have a: "unat w div 2 ^ 24 mod 256 = unat w div 2 ^ 24" using w by simp
  have b: "unat w div 2 ^ 16 = unat w div 2 ^ 24 * 256 + unat w div 2 ^ 16 mod 256"
    using div_mult_mod_eq [of "unat w div 2 ^ 16" 256] by (simp add: div_mult2_eq [symmetric])
  have c: "unat w div 2 ^ 8 = unat w div 2 ^ 16 * 256 + unat w div 2 ^ 8 mod 256"
    using div_mult_mod_eq [of "unat w div 2 ^ 8" 256] by (simp add: div_mult2_eq [symmetric])
  have d: "unat w = unat w div 2 ^ 8 * 256 + unat w mod 256" using div_mult_mod_eq [of "unat w" 256] by simp
  show ?thesis unfolding be32_def be_val4 e z by (simp only: a b [symmetric] c [symmetric] d [symmetric])
qed

lemma be16_be_val: "be_val (be16 w) = unat w"
proof -
  have w: "unat w < 2 ^ 16" using unsigned_less [where ?w = w] by simp
  have "unat (ucast (drop_bit 8 w) :: byte) = unat w div 2 ^ 8" using w
    unfolding unat_ucast_byte unat_drop_bit by simp
  then show ?thesis unfolding be16_def by (simp add: be_val_def unat_ucast_byte)
qed

definition stamp_bytes :: "int \<Rightarrow> 16 word \<Rightarrow> byte list" where
  "stamp_bytes ms q = be32 (word_of_int (drop_bit 16 ms)) @ be16 (word_of_int ms)
    @ [0x70 OR (ucast (drop_bit 8 q) AND 0x0F), ucast q]"

lemma be_val_parts:
  "length b = 2 \<Longrightarrow> length c = 2 \<Longrightarrow> be_val (a @ b @ c) = (be_val a * 65536 + be_val b) * 65536 + be_val c"
  by (simp add: be_val_append)

lemma stamp_be_val:
  assumes "0 \<le> ms" "ms < 2 ^ 48" "q \<le> 0xFFF"
  shows "be_val (stamp_bytes ms q) = nat ms * 2 ^ 16 + 0x7000 + unat q"
proof -
  have q: "unat q < 4096" using assms(3) by (simp add: word_le_nat_alt)
  have hi: "unat (word_of_int (drop_bit 16 ms) :: 32 word) = nat ms div 2 ^ 16"
  proof -
    have "65536 * (ms div 65536) \<le> ms" using mult_div_mod_eq [of 65536 ms] pos_mod_sign [of 65536 ms] by linarith
    then have "0 \<le> ms div 2 ^ 16 \<and> ms div 2 ^ 16 < 2 ^ 32" using assms by simp
    then show ?thesis by (simp add: drop_bit_eq_div unsigned_of_int take_bit_eq_mod nat_mod_distrib nat_div_distrib)
  qed
  have lo: "unat (word_of_int ms :: 16 word) = nat ms mod 2 ^ 16"
    using assms(1) by (simp add: unsigned_of_int take_bit_eq_mod nat_mod_distrib)
  have v: "be_val [0x70 OR (ucast (drop_bit 8 q) AND 0x0F), ucast q] = 0x7000 + unat q"
    using version_byte [OF assms(3)] by (simp add: be_val_def unat_ucast_byte)
  have e: "nat ms div 2 ^ 16 * 65536 + nat ms mod 2 ^ 16 = nat ms"
    using div_mult_mod_eq [of "nat ms" "2 ^ 16"] by simp
  have "be_val (stamp_bytes ms q) = (nat ms div 2 ^ 16 * 65536 + nat ms mod 2 ^ 16) * 65536 + (0x7000 + unat q)"
    unfolding stamp_bytes_def by (subst be_val_parts) (simp_all only: be32_be_val be16_be_val hi lo v, simp_all add: be16_def)
  then show ?thesis unfolding e by simp
qed

lemma split16: "(a::nat) * 65536 + q = b * 65536 + r \<Longrightarrow> q < 65536 \<Longrightarrow> r < 65536 \<Longrightarrow> a = b \<and> q = r"
proof -
  assume e: "a * 65536 + q = b * 65536 + r" and l: "q < 65536" "r < 65536"
  have "a = (a * 65536 + q) div 65536" "b = (b * 65536 + r) div 65536" using l by simp_all
  with e show ?thesis by simp
qed

lemma less16: "q < 65536 \<Longrightarrow> r < 65536 \<Longrightarrow> (a::nat) * 65536 + q < b * 65536 + r \<longleftrightarrow> a < b \<or> a = b \<and> q < r"
proof -
  assume l: "q < 65536" "r < 65536"
  consider "a < b" | "a = b" | "b < a" by linarith
  then show ?thesis
  proof cases
    case 1
    then have "Suc a * 65536 \<le> b * 65536" by (intro mult_le_mono1) simp
    with 1 l show ?thesis by simp
  next
    case 3
    then have "Suc b * 65536 \<le> a * 65536" by (intro mult_le_mono1) simp
    with 3 l show ?thesis by simp
  qed simp
qed

lemma uuid_order:
  assumes "0 \<le> ms" "ms < 2 ^ 48" "0 \<le> ms'" "ms' < 2 ^ 48" "q \<le> 0xFFF" "q' \<le> 0xFFF" "length r = 8" "length r' = 8" "(ms, q) \<noteq> (ms', q')"
  shows "formatUUID (uuid_bytes ms q r) < formatUUID (uuid_bytes ms' q' r') \<longleftrightarrow> ms < ms' \<or> ms = ms' \<and> q < q'"
proof -
  have q: "unat q < 4096" "unat q' < 4096" using assms by (simp_all add: word_le_nat_alt)
  have u: "uuid_bytes m p x = stamp_bytes m p @ ([((x ! 0) AND 0x3F) OR 0x80] @ take 7 (drop 1 x))" for m p x
    by (simp add: uuid_bytes_def stamp_bytes_def)
  have l: "length (stamp_bytes ms q) = length (stamp_bytes ms' q')" by (simp add: stamp_bytes_def be32_def be16_def)
  note v = stamp_be_val [OF assms(1,2,5)] stamp_be_val [OF assms(3,4,6)]
  have ne: "be_val (stamp_bytes ms q) \<noteq> be_val (stamp_bytes ms' q')"
  proof
    assume e: "be_val (stamp_bytes ms q) = be_val (stamp_bytes ms' q')"
    then have "nat ms * 65536 + unat q = nat ms' * 65536 + unat q'" unfolding v by simp
    then have "nat ms = nat ms' \<and> unat q = unat q'" by (rule split16) (use q in simp_all)
    with assms show False by (simp add: word_unat_eq_iff eq_nat_nat_iff)
  qed
  have "formatUUID (uuid_bytes ms q r) < formatUUID (uuid_bytes ms' q' r') \<longleftrightarrow> uuid_bytes ms q r < uuid_bytes ms' q' r'"
    by (rule formatUUID_less) (use assms in \<open>simp add: length_uuid_bytes\<close>)
  also have "\<dots> \<longleftrightarrow> stamp_bytes ms q < stamp_bytes ms' q'"
    unfolding u lex_prefix [OF l] using ne by auto
  also have "\<dots> \<longleftrightarrow> nat ms * 2 ^ 16 + unat q < nat ms' * 2 ^ 16 + unat q'" unfolding lex_be_val [OF l] v by simp
  also have "\<dots> \<longleftrightarrow> nat ms * 65536 + unat q < nat ms' * 65536 + unat q'" by simp
  also have "\<dots> \<longleftrightarrow> nat ms < nat ms' \<or> nat ms = nat ms' \<and> unat q < unat q'" by (rule less16) (use q in simp_all)
  finally show ?thesis using assms(1,3) by (auto simp: word_less_nat_alt)
qed

section \<open>Successive identifiers\<close>

definition uuid_ok :: "uuid_state \<Rightarrow> bool" where
  "uuid_ok s \<longleftrightarrow> 0 \<le> uuidv7LastMs s \<and> uuidv7LastMs s < 2 ^ 48 \<and> uuidv7Sequence s \<le> 0xFFF"

lemma int64_small: "0 \<le> i \<Longrightarrow> i < 2 ^ 63 \<Longrightarrow> int64 i = i"
  by (simp add: int64_def signed_take_bit_int_eq_self)

lemma seq_succ: "(q::16 word) \<le> 0xFFF \<Longrightarrow> (0xFFF < q + 1) = (q = 0xFFF) \<and> (q < 0xFFF \<longrightarrow> q < q + 1 \<and> q + 1 \<le> 0xFFF)"
  by (auto simp: word_le_nat_alt word_less_nat_alt unat_word_ariths word_unat_eq_iff)

lemma next_stamp_ok:
  assumes s: "uuid_ok s" "uuidv7LastMs s + 1 < 2 ^ 48" and now: "0 \<le> now" "now < 2 ^ 48"
    and n: "next_stamp now b0 b1 s = (ms, s')"
  shows "uuid_ok s' \<and> 0 \<le> ms \<and> ms \<le> uuidv7LastMs s'"
proof -
  have m: "(x AND 0xFFF :: 16 word) \<le> 0xFFF" for x :: "16 word" by (rule word_and_le1)
  show ?thesis
    using assms seq_succ [of "uuidv7Sequence s"] m
    by (auto simp: next_stamp_def uuid_ok_def Let_def int64_small split: if_splits)
qed

text \<open>A new identifier sorts behind the one before it exactly if the clock has not gone behind the time written in that one,
  or the counter of the millisecond was used up.\<close>

theorem NewEventID_order:
  assumes s: "uuid_ok s" "uuidv7LastMs s + 2 < 2 ^ 48" and now: "0 \<le> now1" "now1 + 1 < 2 ^ 48" "0 \<le> now2" "now2 < 2 ^ 48"
    and len: "length r1 = 8" "length r2 = 8"
    and n1: "NewEventID now1 b0 b1 r1 s = (id1, s1)" and st: "next_stamp now1 b0 b1 s = (ms1, s1)"
    and n2: "NewEventID now2 c0 c1 r2 s1 = (id2, s2)"
  shows "id1 < id2 \<longleftrightarrow> ms1 \<le> now2 \<or> uuidv7Sequence s1 = 0xFFF"
proof -
  have ok1: "uuid_ok s1" "0 \<le> ms1" "ms1 \<le> uuidv7LastMs s1"
    using next_stamp_ok [OF s(1) _ now(1) _ st] s(2) now(2) by auto
  have l1: "uuidv7LastMs s1 + 1 < 2 ^ 48"
    using st s now by (auto simp: next_stamp_def uuid_ok_def Let_def int64_small split: if_splits)
  obtain ms2 where st2: "next_stamp now2 c0 c1 s1 = (ms2, s2)" and id2: "id2 = formatUUID (uuid_bytes ms2 (uuidv7Sequence s2) r2)"
    using n2 by (auto simp: NewEventID_def split: prod.splits)
  have id1: "id1 = formatUUID (uuid_bytes ms1 (uuidv7Sequence s1) r1)" using n1 st by (simp add: NewEventID_def)
  have ok2: "uuid_ok s2" "0 \<le> ms2" "ms2 \<le> uuidv7LastMs s2" using next_stamp_ok [OF ok1(1) l1 now(3,4) st2] by auto
  have q1: "uuidv7Sequence s1 \<le> 0xFFF" using ok1 by (simp add: uuid_ok_def)
  consider (late) "uuidv7LastMs s1 < now2" "ms2 = now2"
    | (full) "now2 \<le> uuidv7LastMs s1" "uuidv7Sequence s1 = 0xFFF" "ms2 = uuidv7LastMs s1 + 1"
    | (count) "now2 \<le> uuidv7LastMs s1" "uuidv7Sequence s1 < 0xFFF" "ms2 = now2" "uuidv7Sequence s2 = uuidv7Sequence s1 + 1"
    using st2 seq_succ [OF q1] l1 ok1 q1
    by (auto simp: next_stamp_def Let_def uuid_ok_def int64_small split: if_splits)
  note cs = this
  have key: "ms1 < ms2 \<or> (ms1, uuidv7Sequence s1) \<noteq> (ms2, uuidv7Sequence s2)"
    by (cases rule: cs) (use ok1 seq_succ [OF q1] in auto)
  have "id1 < id2 \<longleftrightarrow> ms1 < ms2 \<or> ms1 = ms2 \<and> uuidv7Sequence s1 < uuidv7Sequence s2"
    unfolding id1 id2 by (rule uuid_order) (use ok1 ok2 len key in \<open>auto simp: uuid_ok_def\<close>)
  then show ?thesis by (cases rule: cs) (use ok1 seq_succ [OF q1] in auto)
qed

text \<open>The counter starts at random.  Here it is at its end: the identifier that follows takes the next millisecond, and the one
  after it, made in the same real millisecond, sorts before it.\<close>

theorem NewEventID_order_witness:
  "\<not> fst (NewEventID 1000 0 0 (replicate 8 0) \<lparr>uuidv7LastMs = 1000, uuidv7Sequence = 0xFFF\<rparr>)
     < fst (NewEventID 1000 0 0 (replicate 8 0) (snd (NewEventID 1000 0 0 (replicate 8 0) \<lparr>uuidv7LastMs = 1000, uuidv7Sequence = 0xFFF\<rparr>)))"
proof -
  let ?s = "\<lparr>uuidv7LastMs = 1000, uuidv7Sequence = 0xFFF\<rparr>" and ?s1 = "\<lparr>uuidv7LastMs = 1001, uuidv7Sequence = 0\<rparr>"
  have st: "next_stamp 1000 0 0 ?s = (1001, ?s1)" by (simp add: next_stamp_def int64_small Let_def)
  have s1: "snd (NewEventID 1000 0 0 (replicate 8 0) ?s) = ?s1" by (simp add: NewEventID_def st)
  have ok: "uuid_ok ?s" by (simp add: uuid_ok_def)
  show ?thesis
    unfolding s1
    using NewEventID_order [OF ok, of 1000 1000 "replicate 8 0" "replicate 8 0" 0 0
      "fst (NewEventID 1000 0 0 (replicate 8 0) ?s)" ?s1 1001 0 0
      "fst (NewEventID 1000 0 0 (replicate 8 0) ?s1)" "snd (NewEventID 1000 0 0 (replicate 8 0) ?s1)"]
      s1 st by (simp add: prod_eq_iff)
qed

end
