(* ===== verification/State_Props.thy ===== *)
theory State_Props imports State_Baseline Event_Value_Props Event_Id begin

text \<open>
  What an event's declared changes mean for the entities: the old value that is reported is the last one written to that
  path, over any number of events, and an invalid change in the middle of an event.
\<close>

section \<open>Contexts and payloads\<close>

text \<open>The network context of an event and its payload read back from their MsgPack bytes, for every byte coding that inverts itself.\<close>

theorem msgpack_bytes_roundtrip:
  assumes codec: "\<And>m b. enc m = Inr b \<Longrightarrow> dec b = Inr m"
  shows "(context_MarshalMsgpack enc c = Inr b \<longrightarrow> UnmarshalContextMsgpack dec b = Inr c)
    \<and> (payload_MarshalMsgpack enc p = Inr b \<longrightarrow> UnmarshalPayloadMsgpack dec b (pl_schema p) = Inr p)"
  using codec
  by (auto simp: context_MarshalMsgpack_def UnmarshalContextMsgpack_def payload_MarshalMsgpack_def UnmarshalPayloadMsgpack_def
    MarshalMsgpack_def UnmarshalValueMsgpack_def msgpackToValue_inverse context_of_value_inverse)

text \<open>A coding of nulls only, enough to have something to read back.\<close>

theorem msgpack_bytes_roundtrip_witness:
  "UnmarshalPayloadMsgpack (\<lambda>_. Inr (valueToMsgpack VNull) :: unit + msgpackValue) [0xC0] ''s'' = Inr \<lparr>pl_schema = ''s'', pl_value = VNull\<rparr>"
proof -
  let ?enc = "\<lambda>m. if m = valueToMsgpack VNull then Inr [0xC0] else Inl () :: unit + byte list"
  have "?enc m = Inr b \<Longrightarrow> (\<lambda>_. Inr (valueToMsgpack VNull) :: unit + msgpackValue) b = Inr m" for m b
    by (simp split: if_splits)
  from msgpack_bytes_roundtrip [where enc = ?enc, OF this, where b = "[0xC0]" and p = "\<lparr>pl_schema = ''s'', pl_value = VNull\<rparr>"]
  show ?thesis by (simp add: payload_MarshalMsgpack_def MarshalMsgpack_def)
qed

section \<open>One event\<close>

lemma logged_Cons: "logged session flow (sc # scs) = logged session flow [sc] @ logged session flow scs"
  by (simp add: logged_def)

text \<open>What each reported change says, given the log before it.\<close>

definition tells :: "change_log \<Rightarrow> string \<Rightarrow> string \<Rightarrow> state_change \<Rightarrow> enriched \<Rightarrow> bool" where
  "tells h session flow sc en \<longleftrightarrow>
    (let old = last_value h \<lparr>ek_session = session, ek_flow = flow, ek_subject_type = sc_subject_type sc, ek_subject_id = sc_subject_id sc\<rparr> (sc_path sc) in
      en_before_resolved en = (old \<noteq> None) \<and> sc_before en = (case old of Some v \<Rightarrow> v | None \<Rightarrow> sc_before sc)
      \<and> en_after_resolved en = (sc_after sc \<noteq> VNull))"

lemma apply_changes_spec:
  assumes "represents m h"
  shows "case apply_changes ev session flow scs m of
      (Inr ens, m') \<Rightarrow> represents m' (h @ logged session flow scs) \<and> length ens = length scs
         \<and> (\<forall>i < length scs. tells (h @ logged session flow (take i scs)) session flow (scs ! i) (ens ! i))
    | (Inl e, m') \<Rightarrow> (let ok = takeWhile (\<lambda>sc. change_Validate sc = None) scs in
         length ok < length scs \<and> change_Validate (scs ! length ok) = Some e \<and> represents m' (h @ logged session flow ok))"
  using assms
proof (induction scs arbitrary: m h)
  case Nil
  then show ?case by (simp add: logged_def)
next
  case (Cons sc scs)
  show ?case
  proof (cases "change_Validate sc")
    case (Some e)
    with Cons.prems show ?thesis by (simp add: logged_def Let_def)
  next
    case None
    obtain en m1 where a: "apply_change ev session flow sc m = (en, m1)" by force
    note r1 = apply_change_represents [OF Cons.prems a]
    obtain res m2 where rest: "apply_changes ev session flow scs m1 = (res, m2)" by force
    note IH = Cons.IH [OF r1(1), unfolded rest]
    show ?thesis
    proof (cases res)
      case (Inl e)
      with IH None a rest show ?thesis
        by (simp add: Let_def logged_Cons [of session flow sc "takeWhile (\<lambda>sc. change_Validate sc = None) scs"])
    next
      case (Inr ens)
      have t: "tells (h @ logged session flow (take i (sc # scs))) session flow ((sc # scs) ! i) ((en # ens) ! i)" if "i < Suc (length scs)" for i
      proof (cases i)
        case 0
        then show ?thesis using r1(2-4) by (simp add: tells_def logged_def key_of_def Let_def)
      next
        case (Suc j)
        then show ?thesis using IH Inr that by (simp add: logged_Cons [of session flow sc "take j scs"])
      qed
      show ?thesis using IH Inr None a rest t by (simp add: logged_Cons [of session flow sc scs])
    qed
  qed
qed

section \<open>Any number of events\<close>

text \<open>The events of a run with the session they came in, and the change lists they declare.\<close>

fun apply_run :: "(trace_event \<times> string) list \<Rightarrow> baselines \<Rightarrow> (change_err + enriched list) list \<times> baselines" where
  "apply_run [] m = ([], m)"
| "apply_run ((ev, session) # evs) m =
    (let (r, m1) = baseline_Apply (Some ev) session m; (rs, m2) = apply_run evs m1 in (r # rs, m2))"

definition declared :: "trace_event \<Rightarrow> state_change list" where
  "declared ev = ExtractStateChanges (pl_value (ev_payload ev))"

definition flow_of :: "trace_event \<Rightarrow> string" where
  "flow_of ev = (if ec_flow (ev_context ev) = [] then extractFlowIDFromEvent ev else ec_flow (ev_context ev))"

text \<open>The log of a run: of each event the changes in front of the first invalid one.\<close>

definition run_log :: "(trace_event \<times> string) list \<Rightarrow> change_log" where
  "run_log evs = concat (map (\<lambda>(ev, session).
     logged session (flow_of ev) (takeWhile (\<lambda>sc. change_Validate sc = None) (declared ev))) evs)"

lemma baseline_Apply_changes:
  "baseline_Apply (Some ev) session m = apply_changes ev session (flow_of ev) (declared ev) m"
  by (simp add: baseline_Apply_def declared_def flow_of_def Let_def)

lemma apply_changes_Inr_valid:
  "apply_changes ev session flow scs m = (Inr ens, m') \<Longrightarrow> \<forall>sc \<in> set scs. change_Validate sc = None"
  by (induction scs arbitrary: m ens m') (auto split: option.splits prod.splits sum.splits)

lemma baseline_Apply_represents:
  assumes "represents m h" and a: "baseline_Apply (Some ev) session m = (r, m')"
  shows "represents m' (h @ run_log [(ev, session)])"
proof (cases r)
  case (Inl e)
  with apply_changes_spec [OF assms(1), where ev = ev and session = session and flow = "flow_of ev" and scs = "declared ev"] a
  show ?thesis by (simp add: baseline_Apply_changes run_log_def Let_def)
next
  case (Inr ens)
  then have tw: "takeWhile (\<lambda>sc. change_Validate sc = None) (declared ev) = declared ev"
    using apply_changes_Inr_valid [of ev session "flow_of ev" "declared ev" m ens m'] a by (simp add: baseline_Apply_changes)
  with Inr apply_changes_spec [OF assms(1), where ev = ev and session = session and flow = "flow_of ev" and scs = "declared ev"] a
  show ?thesis by (simp only: run_log_def list.map prod.case tw) (simp add: baseline_Apply_changes)
qed

lemma apply_run_represents:
  "represents m h \<Longrightarrow> apply_run evs m = (rs, m') \<Longrightarrow> represents m' (h @ run_log evs)"
proof (induction evs arbitrary: m h rs)
  case Nil
  then show ?case by (simp add: run_log_def)
next
  case (Cons p evs)
  obtain ev session where p: "p = (ev, session)" by (cases p)
  obtain r m1 rs' where s: "baseline_Apply (Some ev) session m = (r, m1)" "apply_run evs m1 = (rs', m')"
    using Cons.prems(2) by (auto simp: p split: prod.splits)
  have "represents m1 (h @ run_log [p])" using baseline_Apply_represents [OF Cons.prems(1) s(1)] by (simp add: p)
  from Cons.IH [OF this s(2)] show ?case by (simp add: run_log_def)
qed

text \<open>C36: After any events, the old value reported with a change is the last value written to that path of that entity in that
  session and flow, and it is reported as known exactly if there was one.\<close>

theorem Apply_reports_last_value:
  assumes run: "apply_run evs Map.empty = (rs, m)" and a: "baseline_Apply (Some ev) session m = (Inr ens, m')"
  shows "length ens = length (declared ev) \<and> (\<forall>i < length ens.
    tells (run_log evs @ logged session (flow_of ev) (take i (declared ev))) session (flow_of ev) (declared ev ! i) (ens ! i))"
proof -
  have "represents Map.empty []" by (simp add: represents_def)
  from apply_run_represents [OF this run] have "represents m (run_log evs)" by simp
  from apply_changes_spec [OF this, where ev = ev and session = session and flow = "flow_of ev" and scs = "declared ev"] a show ?thesis
    by (simp add: baseline_Apply_changes)
qed

text \<open>A player whose health is set twice.\<close>

definition hp_event :: "val \<Rightarrow> trace_event" where
  "hp_event v = NewEventWithTime ''e'' ''s'' ''t'' [] [] (VObject [(''_state_changes'', VArray [VObject
     [(''subject_type'', VString ''player''), (''subject_id'', VString ''7''), (''op'', VString ''set''), (''path'', VString ''hp''),
      (''after'', v)]])]) 5 (zero_context\<lparr>ec_flow := ''f''\<rparr>)"

lemma declared_hp: "declared (hp_event v) = [\<lparr>sc_subject_type = ''player'', sc_subject_id = ''7'', sc_op = ''set'', sc_path = ''hp'',
    sc_before = VNull, sc_after = v, sc_version = 0, sc_metadata = VNull\<rparr>]"
  by (simp add: declared_def hp_event_def NewEventWithTime_def ExtractStateChanges_def change_of_def field_or_def map_filter_def)

lemma flow_hp: "flow_of (hp_event v) = ''f''"
  by (simp add: flow_of_def hp_event_def NewEventWithTime_def)

lemma valid_hp: "change_Validate \<lparr>sc_subject_type = ''player'', sc_subject_id = ''7'', sc_op = ''set'', sc_path = ''hp'',
    sc_before = VNull, sc_after = v, sc_version = 0, sc_metadata = VNull\<rparr> = None"
  by (simp add: change_Validate_def TrimSpace_Nil_iff is_white_def)

text \<open>Another session writes the same path in between.\<close>

theorem Apply_reports_last_value_witness:
  "\<exists>m ens m'. baseline_Apply (Some (hp_event (VInt 9))) ''s''
      (snd (apply_run [(hp_event (VInt 5), ''s''), (hp_event (VInt 6), ''z'')] m)) = (Inr ens, m')
    \<and> sc_before (ens ! 0) = VInt 5"
proof -
  let ?run = "[(hp_event (VInt 5), ''s''), (hp_event (VInt 6), ''z'')]"
  obtain rs m where run: "apply_run ?run Map.empty = (rs, m)" by fastforce
  obtain en m' where "apply_change (hp_event (VInt 9)) ''s'' ''f'' (hd (declared (hp_event (VInt 9)))) m = (en, m')" by fastforce
  then have a: "baseline_Apply (Some (hp_event (VInt 9))) ''s'' m = (Inr [en], m')"
    by (simp add: baseline_Apply_changes declared_hp flow_hp valid_hp)
  have "sc_before en = VInt 5"
    using Apply_reports_last_value [OF run a]
    by (simp add: declared_hp flow_hp tells_def run_log_def logged_def valid_hp)
  with run a show ?thesis by (intro exI [of _ Map.empty] exI [of _ "[en]"] exI [of _ m']) simp
qed

text \<open>C37: An invalid change fails the whole event, but the changes in front of it stay applied: nobody is told of them, and later
  changes report them as the old values.\<close>

theorem Apply_error_keeps_prefix:
  assumes run: "apply_run evs Map.empty = (rs, m)" and a: "baseline_Apply (Some ev) session m = (Inl e, m')"
  shows "let ok = takeWhile (\<lambda>sc. change_Validate sc = None) (declared ev) in
    length ok < length (declared ev) \<and> change_Validate (declared ev ! length ok) = Some e
    \<and> represents m' (run_log evs @ logged session (flow_of ev) ok)"
proof -
  have "represents Map.empty []" by (simp add: represents_def)
  from apply_run_represents [OF this run] have "represents m (run_log evs)" by simp
  from apply_changes_spec [OF this, where ev = ev and session = session and flow = "flow_of ev" and scs = "declared ev"] a show ?thesis
    by (simp add: baseline_Apply_changes)
qed

definition half_event :: trace_event where
  "half_event = NewEventWithTime ''e'' ''s'' ''t'' [] [] (VObject [(''_state_changes'', VArray [VObject
     [(''subject_type'', VString ''player''), (''subject_id'', VString ''7''), (''op'', VString ''set''), (''path'', VString ''hp''),
      (''after'', VInt 1)], VObject []])]) 5 (zero_context\<lparr>ec_flow := ''f''\<rparr>)"

theorem Apply_error_keeps_prefix_witness:
  "\<exists>m'. baseline_Apply (Some half_event) ''s'' Map.empty = (Inl NoSubjectType, m')
    \<and> represents m' [(\<lparr>ek_session = ''s'', ek_flow = ''f'', ek_subject_type = ''player'', ek_subject_id = ''7''\<rparr>, ''hp'', VInt 1)]"
proof -
  have d: "declared half_event = declared (hp_event (VInt 1)) @ [\<lparr>sc_subject_type = [], sc_subject_id = [], sc_op = [], sc_path = [],
      sc_before = VNull, sc_after = VNull, sc_version = 0, sc_metadata = VNull\<rparr>]"
    by (simp add: declared_hp) (simp add: declared_def half_event_def NewEventWithTime_def ExtractStateChanges_def change_of_def field_or_def map_filter_def)
  have f: "flow_of half_event = ''f''" by (simp add: flow_of_def half_event_def NewEventWithTime_def)
  have inv: "change_Validate \<lparr>sc_subject_type = [], sc_subject_id = [], sc_op = [], sc_path = [],
      sc_before = VNull, sc_after = VNull, sc_version = 0, sc_metadata = VNull\<rparr> = Some NoSubjectType"
    by (simp add: change_Validate_def TrimSpace_def)
  have run: "apply_run [] Map.empty = ([], Map.empty)" by simp
  obtain en m' where "apply_change half_event ''s'' ''f'' (hd (declared (hp_event (VInt 1)))) Map.empty = (en, m')" by force
  then have a: "baseline_Apply (Some half_event) ''s'' Map.empty = (Inl NoSubjectType, m')"
    by (simp add: baseline_Apply_changes d declared_hp valid_hp inv f)
  from Apply_error_keeps_prefix [OF run a] have "represents m' (run_log [] @ logged ''s'' ''f'' (declared (hp_event (VInt 1))))"
    by (simp add: d declared_hp valid_hp inv f Let_def)
  with a show ?thesis by (intro exI [of _ m']) (simp add: run_log_def logged_def declared_hp key_of_def)
qed

text \<open>A deletion declares no new value.  The baseline keeps the old one, and the next change reports it as the value before.\<close>

lemma delete_leaves_value:
  assumes "represents m h" "sc_op sc = ''delete''" "sc_after sc = VNull" "apply_change ev session flow sc m = (en, m')"
  shows "m' = m"
  using assms by (simp add: apply_change_def Let_def split: if_splits)

end
