(* ===== verification/Analyze_Agg.thy ===== *)
theory Analyze_Agg imports Event_Model begin

text \<open>
  Aggregation of events over time windows: \<open>pkg/analyze/aggregator.go\<close>, \<open>count.go\<close>, \<open>sum.go\<close>, \<open>rate.go\<close>.  Rules are written
  in a language of a library: a compiled program is a function of its environment, and \<open>fmt.Sprintf("%v", x)\<close> of a
  result is an argument.  A Go map is an association list, updated in place, in the order of its visit.
\<close>

section \<open>Programs and their results\<close>

text \<open>What a name is bound to: a part of the event, or a value.\<close>

datatype binding =
  BEvent trace_event | BIdentity event_identity | BTrace trace_context | BContext event_context | BPayload payload | BAny goany

type_synonym env = "string \<rightharpoonup> binding"
type_synonym prog = "env \<Rightarrow> string + goany"

datatype agg_err = RunErr string | NotNumeric goany | IndexPanic

definition evalString :: "(goany \<Rightarrow> string) \<Rightarrow> prog \<Rightarrow> env \<Rightarrow> agg_err + string" where
  "evalString show p ctx = (case p ctx of Inl e \<Rightarrow> Inl (RunErr e) | Inr v \<Rightarrow> Inr (show v))"

definition evalFloat :: "prog \<Rightarrow> env \<Rightarrow> agg_err + f64" where
  "evalFloat p ctx =
    (case p ctx of Inl e \<Rightarrow> Inl (RunErr e)
     | Inr v \<Rightarrow> (case v of
         GFloat64 x \<Rightarrow> Inr x
       | GInt i \<Rightarrow> Inr (f64_of_int (sint i))
       | GInt64 i \<Rightarrow> Inr (f64_of_int (sint i))
       | _ \<Rightarrow> Inl (NotNumeric v)))"

text \<open>\<open>t.Truncate(d)\<close> rounds down to a multiple of \<open>d\<close> since the zero time; for \<open>d <= 0\<close> it does nothing.\<close>

definition windowStart :: "gotime \<Rightarrow> int \<Rightarrow> gotime" where
  "windowStart t d = (if d \<le> 0 then t else t - t mod d)"

record groupResult =
  gr_key :: string
  gr_group :: "(string \<times> string) list"

text \<open>The loop over the programs of \<open>group_by\<close>; a name is missing only if fewer names than programs were given.\<close>

fun group_loop :: "(goany \<Rightarrow> string) \<Rightarrow> nat \<Rightarrow> prog list \<Rightarrow> string list \<Rightarrow> env \<Rightarrow> string list \<Rightarrow> (string \<times> string) list \<Rightarrow>
    agg_err + (string list \<times> (string \<times> string) list)" where
  "group_loop show i [] names ctx parts grp = Inr (parts, grp)"
| "group_loop show i (p # ps) names ctx parts grp =
    (case evalString show p ctx of Inl e \<Rightarrow> Inl e
     | Inr s \<Rightarrow>
       (if length names \<le> i then Inl IndexPanic
        else (let name = (if names ! i = [] then ''group_'' @ show_nat i else names ! i) in
          group_loop show (Suc i) ps names ctx (parts @ [s]) (AList.update name s grp))))"

definition groupKey :: "(goany \<Rightarrow> string) \<Rightarrow> prog list \<Rightarrow> string list \<Rightarrow> env \<Rightarrow> agg_err + groupResult" where
  "groupKey show progs names ctx =
    (if progs = [] then Inr \<lparr>gr_key = ''_'', gr_group = [(''group'', ''_'')]\<rparr>
     else (case group_loop show 0 progs names ctx [] [] of
       Inl e \<Rightarrow> Inl e | Inr (parts, grp) \<Rightarrow> Inr \<lparr>gr_key = join_with ''|'' parts, gr_group = grp\<rparr>))"

record metric =
  mt_name :: string
  mt_window :: gotime
  mt_group :: "(string \<times> string) list"
  mt_value :: f64

section \<open>Counting\<close>

record count_agg =
  ca_window :: int
  ca_output :: string
  ca_groupBy :: "prog list"
  ca_names :: "string list"
  ca_state :: "(string \<times> 64 word) list"
  ca_groups :: "(string \<times> (string \<times> string) list) list"
  ca_wstart :: gotime
  ca_ready :: "metric list"

definition NewCountAgg :: "gotime \<Rightarrow> int \<Rightarrow> string \<Rightarrow> count_agg" where
  "NewCountAgg now window output =
    \<lparr>ca_window = window, ca_output = output, ca_groupBy = [], ca_names = [], ca_state = [], ca_groups = [],
     ca_wstart = windowStart now window, ca_ready = []\<rparr>"

definition count_WithGroupBy :: "prog list \<Rightarrow> count_agg \<Rightarrow> count_agg" where "count_WithGroupBy ps a = a\<lparr>ca_groupBy := ps\<rparr>"
definition count_WithGroupByNames :: "string list \<Rightarrow> count_agg \<Rightarrow> count_agg" where "count_WithGroupByNames ns a = a\<lparr>ca_names := ns\<rparr>"

text \<open>A key that is missing reads as the zero value of the map's element type.\<close>

definition lookup_or :: "'v \<Rightarrow> ('k \<times> 'v) list \<Rightarrow> 'k \<Rightarrow> 'v" where
  "lookup_or d m k = (case map_of m k of None \<Rightarrow> d | Some v \<Rightarrow> v)"

definition count_metrics :: "count_agg \<Rightarrow> gotime \<Rightarrow> metric list" where
  "count_metrics a ws = map (\<lambda>(k, v). \<lparr>mt_name = ca_output a, mt_window = ws, mt_group = lookup_or [] (ca_groups a) k,
     mt_value = f64_of_int (sint v)\<rparr>) (ca_state a)"

definition count_emit :: "gotime \<Rightarrow> count_agg \<Rightarrow> count_agg" where
  "count_emit ws a = a\<lparr>ca_ready := ca_ready a @ count_metrics a ws\<rparr>"

definition count_place :: "groupResult \<Rightarrow> gotime \<Rightarrow> count_agg \<Rightarrow> count_agg" where
  "count_place gr ws a =
    (let a1 = (if ws \<noteq> ca_wstart a
               then (count_emit (ca_wstart a) a)\<lparr>ca_wstart := ws, ca_state := [], ca_groups := []\<rparr> else a) in
     a1\<lparr>ca_state := AList.update (gr_key gr) (lookup_or 0 (ca_state a1) (gr_key gr) + 1) (ca_state a1),
        ca_groups := AList.update (gr_key gr) (gr_group gr) (ca_groups a1)\<rparr>)"

definition count_Add :: "(goany \<Rightarrow> string) \<Rightarrow> gotime \<Rightarrow> env \<Rightarrow> count_agg \<Rightarrow> (agg_err + unit) \<times> count_agg" where
  "count_Add show ts ctx a =
    (case groupKey show (ca_groupBy a) (ca_names a) ctx of
       Inl e \<Rightarrow> (Inl e, a)
     | Inr gr \<Rightarrow> (Inr (), count_place gr (windowStart ts (ca_window a)) a))"

definition count_Flush :: "count_agg \<Rightarrow> metric list \<times> count_agg" where
  "count_Flush a = (ca_ready a, a\<lparr>ca_ready := []\<rparr>)"

definition count_FinalFlush :: "count_agg \<Rightarrow> metric list \<times> count_agg" where
  "count_FinalFlush a = (ca_ready a @ count_metrics a (ca_wstart a), a\<lparr>ca_ready := [], ca_state := [], ca_groups := []\<rparr>)"

section \<open>Summing\<close>

record sum_agg =
  sa_window :: int
  sa_output :: string
  sa_groupBy :: "prog list"
  sa_names :: "string list"
  sa_value :: prog
  sa_state :: "(string \<times> f64) list"
  sa_groups :: "(string \<times> (string \<times> string) list) list"
  sa_wstart :: gotime
  sa_ready :: "metric list"

text \<open>\<open>nilp\<close> is what running a nil program comes to; it is the value expression of a rule that has none.\<close>

definition NewSumAgg :: "prog \<Rightarrow> gotime \<Rightarrow> int \<Rightarrow> string \<Rightarrow> sum_agg" where
  "NewSumAgg nilp now window output =
    \<lparr>sa_window = window, sa_output = output, sa_groupBy = [], sa_names = [], sa_value = nilp, sa_state = [], sa_groups = [],
     sa_wstart = windowStart now window, sa_ready = []\<rparr>"

definition sum_WithGroupBy :: "prog list \<Rightarrow> sum_agg \<Rightarrow> sum_agg" where "sum_WithGroupBy ps a = a\<lparr>sa_groupBy := ps\<rparr>"
definition sum_WithGroupByNames :: "string list \<Rightarrow> sum_agg \<Rightarrow> sum_agg" where "sum_WithGroupByNames ns a = a\<lparr>sa_names := ns\<rparr>"
definition sum_WithValue :: "prog \<Rightarrow> sum_agg \<Rightarrow> sum_agg" where "sum_WithValue p a = a\<lparr>sa_value := p\<rparr>"

definition sum_metrics :: "sum_agg \<Rightarrow> gotime \<Rightarrow> metric list" where
  "sum_metrics a ws = map (\<lambda>(k, v). \<lparr>mt_name = sa_output a, mt_window = ws, mt_group = lookup_or [] (sa_groups a) k, mt_value = v\<rparr>) (sa_state a)"

definition sum_emit :: "gotime \<Rightarrow> sum_agg \<Rightarrow> sum_agg" where
  "sum_emit ws a = a\<lparr>sa_ready := sa_ready a @ sum_metrics a ws\<rparr>"

definition sum_place :: "groupResult \<Rightarrow> f64 \<Rightarrow> gotime \<Rightarrow> sum_agg \<Rightarrow> sum_agg" where
  "sum_place gr v ws a =
    (let a1 = (if ws \<noteq> sa_wstart a
               then (sum_emit (sa_wstart a) a)\<lparr>sa_wstart := ws, sa_state := [], sa_groups := []\<rparr> else a) in
     a1\<lparr>sa_state := AList.update (gr_key gr) (f64_add (lookup_or 0 (sa_state a1) (gr_key gr)) v) (sa_state a1),
        sa_groups := AList.update (gr_key gr) (gr_group gr) (sa_groups a1)\<rparr>)"

definition sum_Add :: "(goany \<Rightarrow> string) \<Rightarrow> gotime \<Rightarrow> env \<Rightarrow> sum_agg \<Rightarrow> (agg_err + unit) \<times> sum_agg" where
  "sum_Add show ts ctx a =
    (case groupKey show (sa_groupBy a) (sa_names a) ctx of
       Inl e \<Rightarrow> (Inl e, a)
     | Inr gr \<Rightarrow>
       (case evalFloat (sa_value a) ctx of
          Inl e \<Rightarrow> (Inl e, a)
        | Inr v \<Rightarrow> (Inr (), sum_place gr v (windowStart ts (sa_window a)) a)))"

definition sum_Flush :: "sum_agg \<Rightarrow> metric list \<times> sum_agg" where
  "sum_Flush a = (sa_ready a, a\<lparr>sa_ready := []\<rparr>)"

definition sum_FinalFlush :: "sum_agg \<Rightarrow> metric list \<times> sum_agg" where
  "sum_FinalFlush a = (sa_ready a @ sum_metrics a (sa_wstart a), a\<lparr>sa_ready := [], sa_state := [], sa_groups := []\<rparr>)"

section \<open>Rates\<close>

text \<open>\<open>Duration.Seconds()\<close>.\<close>

definition Seconds :: "int \<Rightarrow> f64" where
  "Seconds d = (let s = (if d < 0 then - (- d div 1000000000) else d div 1000000000); n = d - s * 1000000000 in
     f64_add (f64_of_int s) (f64_div (f64_of_int n) (f64_of_int 1000000000)))"

definition rate_finalize :: "int \<Rightarrow> metric list \<Rightarrow> metric list" where
  "rate_finalize window ms = map (\<lambda>m. m\<lparr>mt_value := f64_div (mt_value m) (Seconds window)\<rparr>) ms"

definition rate_Flush :: "count_agg \<Rightarrow> metric list \<times> count_agg" where
  "rate_Flush a = (let (ms, a') = count_Flush a in (rate_finalize (ca_window a) ms, a'))"

definition rate_FinalFlush :: "count_agg \<Rightarrow> metric list \<times> count_agg" where
  "rate_FinalFlush a = (let (ms, a') = count_FinalFlush a in (rate_finalize (ca_window a) ms, a'))"

end
