(* ===== verification/Analyze_Windows.thy ===== *)
theory Analyze_Windows imports Analyze_Agg begin

text \<open>
  What the windowed aggregators have in common, as a locale: a table that is filled while the window stays the same, and
  rendered and emptied when it changes.  Counting and summing are its two instances.
\<close>

section \<open>Tables\<close>

type_synonym 'v table = "(string \<times> 'v) list \<times> (string \<times> (string \<times> string) list) list"

definition step_table :: "'v \<Rightarrow> ('v \<Rightarrow> 'x \<Rightarrow> 'v) \<Rightarrow> groupResult \<Rightarrow> 'x \<Rightarrow> 'v table \<Rightarrow> 'v table" where
  "step_table z upd gr x t =
    (AList.update (gr_key gr) (upd (lookup_or z (fst t) (gr_key gr)) x) (fst t), AList.update (gr_key gr) (gr_group gr) (snd t))"

definition render :: "string \<Rightarrow> ('v \<Rightarrow> f64) \<Rightarrow> gotime \<Rightarrow> 'v table \<Rightarrow> metric list" where
  "render out val w t = map (\<lambda>(k, v). \<lparr>mt_name = out, mt_window = w, mt_group = lookup_or [] (snd t) k, mt_value = val v\<rparr>) (fst t)"

text \<open>An event that is aggregated: its group, its value, its window.\<close>

type_synonym 'x placed = "groupResult \<times> 'x \<times> gotime"

definition window_of :: "'x placed \<Rightarrow> gotime" where "window_of p = snd (snd p)"
definition key_of_placed :: "'x placed \<Rightarrow> string" where "key_of_placed p = gr_key (fst p)"

definition fill :: "'v \<Rightarrow> ('v \<Rightarrow> 'x \<Rightarrow> 'v) \<Rightarrow> 'x placed list \<Rightarrow> 'v table \<Rightarrow> 'v table" where
  "fill z upd ps t = fold (\<lambda>(gr, x, w). step_table z upd gr x) ps t"

lemma render_empty [simp]: "render out val w ([], []) = []"
  by (simp add: render_def)

lemma render_window: "m \<in> set (render out val w t) \<Longrightarrow> mt_window m = w"
  by (auto simp: render_def)

section \<open>The contract\<close>

locale windowed =
  fixes z :: 'v and upd :: "'v \<Rightarrow> 'x \<Rightarrow> 'v" and val :: "'v \<Rightarrow> f64" and out :: string
    and ok :: "'s \<Rightarrow> bool" and place :: "groupResult \<Rightarrow> 'x \<Rightarrow> gotime \<Rightarrow> 's \<Rightarrow> 's"
    and wstart :: "'s \<Rightarrow> gotime" and tab :: "'s \<Rightarrow> 'v table" and ready :: "'s \<Rightarrow> metric list"
  assumes ok_place: "ok s \<Longrightarrow> ok (place gr x w s)"
    and wstart_place: "ok s \<Longrightarrow> wstart (place gr x w s) = w"
    and same_window: "ok s \<Longrightarrow> w = wstart s \<Longrightarrow> tab (place gr x w s) = step_table z upd gr x (tab s) \<and> ready (place gr x w s) = ready s"
    and new_window: "ok s \<Longrightarrow> w \<noteq> wstart s \<Longrightarrow>
      tab (place gr x w s) = step_table z upd gr x ([], []) \<and> ready (place gr x w s) = ready s @ render out val (wstart s) (tab s)"
begin

definition placings :: "'x placed list \<Rightarrow> 's \<Rightarrow> 's" where
  "placings ps s = fold (\<lambda>(gr, x, w). place gr x w) ps s"

text \<open>All that has been and would now be output.\<close>

definition total :: "'s \<Rightarrow> metric list" where "total s = ready s @ render out val (wstart s) (tab s)"

abbreviation of_window :: "gotime \<Rightarrow> metric list \<Rightarrow> metric list" where
  "of_window w \<equiv> filter (\<lambda>m. mt_window m = w)"

lemma placings_ok: "ok s \<Longrightarrow> ok (placings ps s)"
  by (induction ps arbitrary: s) (auto simp: placings_def ok_place)

lemma of_window_render: "of_window w (render out val w' t) = (if w' = w then render out val w t else [])"
  using render_window [of _ out val w' t] by (auto simp: filter_empty_conv filter_id_conv)

text \<open>Later windows do not touch what was output for an earlier one.\<close>

lemma total_in_order:
  assumes "ok s" "sorted (map window_of ps)" "\<forall>p \<in> set ps. wstart s \<le> window_of p"
  shows "of_window w (total (placings ps s)) = of_window w (ready s) @
    (if wstart s = w then render out val w (fill z upd (filter (\<lambda>p. window_of p = w) ps) (tab s))
     else render out val w (fill z upd (filter (\<lambda>p. window_of p = w) ps) ([], [])))"
  using assms
proof (induction ps arbitrary: s)
  case Nil
  then show ?case by (simp add: placings_def total_def of_window_render fill_def)
next
  case (Cons p ps)
  obtain gr x v where p: "p = (gr, x, v)" by (metis prod_cases3)
  define s' where "s' = place gr x v s"
  have s': "ok s'" "wstart s' = v" using Cons.prems(1) by (simp_all add: s'_def ok_place wstart_place)
  have le: "wstart s \<le> v" and later: "\<forall>q \<in> set ps. v \<le> window_of q" using Cons.prems(2,3) by (auto simp: p window_of_def)
  have IH: "of_window w (total (placings ps s')) = of_window w (ready s') @
      (if v = w then render out val w (fill z upd (filter (\<lambda>p. window_of p = w) ps) (tab s'))
       else render out val w (fill z upd (filter (\<lambda>p. window_of p = w) ps) ([], [])))"
    using Cons.IH [OF s'(1)] Cons.prems(2) later s'(2) by simp
  have run: "placings (p # ps) s = placings ps s'" by (simp add: placings_def p s'_def)
  have wp: "window_of p = v" by (simp add: p window_of_def)
  have f: "fill z upd (p # qs) t = fill z upd qs (step_table z upd gr x t)" for qs t by (simp add: fill_def p)
  show ?case
  proof (cases "v = wstart s")
    case True
    then have "tab s' = step_table z upd gr x (tab s)" "ready s' = ready s"
      using same_window [OF Cons.prems(1), of v gr x] by (simp_all add: s'_def)
    with IH True show ?thesis unfolding run by (simp add: wp f)
  next
    case False
    then have n: "tab s' = step_table z upd gr x ([], [])" "ready s' = ready s @ render out val (wstart s) (tab s)"
      using new_window [OF Cons.prems(1), of v gr x] by (simp_all add: s'_def)
    have none: "filter (\<lambda>p. window_of p = w) (p # ps) = []" if "wstart s = w"
      using that False le later wp by (auto simp: filter_empty_conv)
    show ?thesis
    proof (cases "wstart s = w")
      case True
      then have "v \<noteq> w" "filter (\<lambda>p. window_of p = w) ps = []" using False none by (simp_all add: wp)
      with IH True n show ?thesis unfolding run by (simp add: wp of_window_render fill_def)
    next
      case w: False
      then show ?thesis using IH n unfolding run by (simp add: wp f of_window_render)
    qed
  qed
qed

text \<open>From an empty table nothing is asked of the window it starts in: at the first event it is left without output.\<close>

theorem window_totals:
  assumes "ok s" "sorted (map window_of ps)" "tab s = ([], [])" "ready s = []"
  shows "of_window w (total (placings ps s)) = render out val w (fill z upd (filter (\<lambda>p. window_of p = w) ps) ([], []))"
proof (cases ps)
  case Nil
  then show ?thesis using assms by (simp add: placings_def total_def fill_def)
next
  case (Cons p qs)
  obtain gr x v where p: "p = (gr, x, v)" by (metis prod_cases3)
  define s' where "s' = place gr x v s"
  have s': "ok s'" "wstart s' = v" using assms(1) by (simp_all add: s'_def ok_place wstart_place)
  have t: "tab s' = step_table z upd gr x ([], [])" "ready s' = []"
    using same_window [OF assms(1), of v gr x] new_window [OF assms(1), of v gr x] assms(3,4)
    by (cases "v = wstart s"; simp add: s'_def)+
  have q: "sorted (map window_of qs)" "\<forall>q \<in> set qs. wstart s' \<le> window_of q"
    using assms(2) by (auto simp: Cons p window_of_def s'(2))
  have "placings ps s = placings qs s'" by (simp add: Cons placings_def p s'_def)
  moreover have "window_of p = v" by (simp add: p window_of_def)
  ultimately show ?thesis
    using total_in_order [OF s'(1) q, of w] by (simp add: Cons s'(2) t) (simp add: fill_def p)
qed

end

section \<open>Counting and summing are windowed\<close>

interpretation cnt: windowed "0 :: 64 word" "\<lambda>n _. n + 1" "\<lambda>n. f64_of_int (sint n)" out "\<lambda>a. ca_output a = out"
  "\<lambda>gr (x::unit) w a. count_place gr w a" ca_wstart "\<lambda>a. (ca_state a, ca_groups a)" ca_ready
  by unfold_locales (auto simp: count_place_def Let_def count_emit_def count_metrics_def step_table_def render_def lookup_or_def)

interpretation smm: windowed "0 :: f64" f64_add "\<lambda>x. x" out "\<lambda>a. sa_output a = out"
  sum_place sa_wstart "\<lambda>a. (sa_state a, sa_groups a)" sa_ready
  by unfold_locales (auto simp: sum_place_def Let_def sum_emit_def sum_metrics_def step_table_def render_def lookup_or_def)

section \<open>What a table holds\<close>

fun first_keys :: "string list \<Rightarrow> string list" where
  "first_keys [] = []"
| "first_keys (k # ks) = k # filter (\<lambda>j. j \<noteq> k) (first_keys ks)"

lemma first_keys_snoc: "first_keys (ks @ [k]) = (if k \<in> set ks then first_keys ks else first_keys ks @ [k])"
  by (induction ks) auto

lemma set_first_keys [simp]: "set (first_keys ks) = set ks"
  by (induction ks) auto

lemma distinct_first_keys [simp]: "distinct (first_keys ks)"
  by (induction ks) auto

lemma update_map_keys:
  "distinct ks \<Longrightarrow> AList.update k v (map (\<lambda>j. (j, f j)) ks) =
    (if k \<in> set ks then map (\<lambda>j. (j, if j = k then v else f j)) ks else map (\<lambda>j. (j, f j)) ks @ [(k, v)])"
  by (induction ks) auto

lemma map_of_map_keys: "map_of (map (\<lambda>j. (j, f j)) ks) k = (if k \<in> set ks then Some (f k) else None)"
  by (induction ks) auto

definition values_of :: "string \<Rightarrow> 'x placed list \<Rightarrow> 'x list" where
  "values_of k ps = map (\<lambda>p. fst (snd p)) (filter (\<lambda>p. key_of_placed p = k) ps)"

definition label_of :: "string \<Rightarrow> 'x placed list \<Rightarrow> (string \<times> string) list" where
  "label_of k ps = (let qs = filter (\<lambda>p. key_of_placed p = k) ps in (if qs = [] then [] else gr_group (fst (last qs))))"

text \<open>The keys in the order they first came, each with its values folded and the label of its last event.\<close>

lemma fill_empty:
  "fill z upd ps ([], []) =
    (map (\<lambda>k. (k, foldl upd z (values_of k ps))) (first_keys (map key_of_placed ps)),
     map (\<lambda>k. (k, label_of k ps)) (first_keys (map key_of_placed ps)))"
proof (induction ps rule: rev_induct)
  case Nil
  then show ?case by (simp add: fill_def)
next
  case (snoc p ps)
  obtain gr x w where p: "p = (gr, x, w)" by (metis prod_cases3)
  let ?k = "gr_key gr" and ?ks = "first_keys (map key_of_placed ps)"
  have kp: "key_of_placed p = ?k" by (simp add: p key_of_placed_def)
  have v: "values_of k (ps @ [p]) = (if k = ?k then values_of k ps @ [x] else values_of k ps)" for k
    using kp by (simp add: values_of_def p)
  have l: "label_of k (ps @ [p]) = (if k = ?k then gr_group gr else label_of k ps)" for k
    using kp by (simp add: label_of_def p Let_def)
  have none: "values_of ?k ps = []" if "?k \<notin> set (map key_of_placed ps)"
    using that by (force simp: values_of_def filter_empty_conv)
  have "fill z upd (ps @ [p]) ([], []) = step_table z upd gr x (fill z upd ps ([], []))"
    by (simp add: fill_def p)
  then show ?case
  proof (cases "?k \<in> set (map key_of_placed ps)")
    case True
    then show ?thesis
      using \<open>fill z upd (ps @ [p]) ([], []) = _\<close>
      by (simp add: snoc.IH step_table_def update_map_keys lookup_or_def map_of_map_keys kp first_keys_snoc v l cong: if_cong)
  next
    case False
    have "map (\<lambda>k. (k, foldl upd z (values_of k (ps @ [p])))) ?ks = map (\<lambda>k. (k, foldl upd z (values_of k ps))) ?ks"
      "map (\<lambda>k. (k, label_of k (ps @ [p]))) ?ks = map (\<lambda>k. (k, label_of k ps)) ?ks"
    proof -
      have ne: "k \<noteq> ?k" if "k \<in> set ?ks" for k using that False by (metis set_first_keys)
      show "map (\<lambda>k. (k, foldl upd z (values_of k (ps @ [p])))) ?ks = map (\<lambda>k. (k, foldl upd z (values_of k ps))) ?ks"
        by (rule map_cong [OF refl]) (use ne in \<open>simp add: v\<close>)
      show "map (\<lambda>k. (k, label_of k (ps @ [p]))) ?ks = map (\<lambda>k. (k, label_of k ps)) ?ks"
        by (rule map_cong [OF refl]) (use ne in \<open>simp add: l\<close>)
    qed
    with False show ?thesis
      using \<open>fill z upd (ps @ [p]) ([], []) = _\<close> none
      by (simp add: snoc.IH step_table_def update_map_keys lookup_or_def map_of_map_keys kp first_keys_snoc)
        (simp add: v l)
  qed
qed

text \<open>The report of a window.\<close>

definition window_report :: "string \<Rightarrow> ('x list \<Rightarrow> f64) \<Rightarrow> gotime \<Rightarrow> 'x placed list \<Rightarrow> metric list" where
  "window_report out agg w ps = map (\<lambda>k. \<lparr>mt_name = out, mt_window = w, mt_group = label_of k ps, mt_value = agg (values_of k ps)\<rparr>)
     (first_keys (map key_of_placed ps))"

lemma render_fill:
  "render out val w (fill z upd ps ([], [])) = window_report out (\<lambda>xs. val (foldl upd z xs)) w ps"
  by (simp add: render_def fill_empty window_report_def lookup_or_def map_of_map_keys)

end
