(* ===== verification/Analyze_Rule.thy ===== *)
theory Analyze_Rule imports Analyze_Agg begin

text \<open>
  The engine that runs the rules over events (\<open>pkg/analyze/engine.go\<close>), the compilation of a rule and the check of its
  field paths (\<open>rule.go\<close>, \<open>pkg/schema/schema.go\<close>), and the check of rules against what a plugin declares
  (\<open>cmd/gt-pipeline/rule_contract.go\<close>).  The expression compiler and \<open>time.ParseDuration\<close> are arguments.
\<close>

section \<open>Aggregators\<close>

datatype aggregator = ACount count_agg | ASum sum_agg | ARate count_agg

fun agg_Add :: "(goany \<Rightarrow> string) \<Rightarrow> gotime \<Rightarrow> env \<Rightarrow> aggregator \<Rightarrow> (agg_err + unit) \<times> aggregator" where
  "agg_Add show ts ctx (ACount a) = map_prod id ACount (count_Add show ts ctx a)"
| "agg_Add show ts ctx (ASum a) = map_prod id ASum (sum_Add show ts ctx a)"
| "agg_Add show ts ctx (ARate a) = map_prod id ARate (count_Add show ts ctx a)"

fun agg_Flush :: "aggregator \<Rightarrow> metric list \<times> aggregator" where
  "agg_Flush (ACount a) = map_prod id ACount (count_Flush a)"
| "agg_Flush (ASum a) = map_prod id ASum (sum_Flush a)"
| "agg_Flush (ARate a) = map_prod id ARate (rate_Flush a)"

fun agg_FinalFlush :: "aggregator \<Rightarrow> metric list \<times> aggregator" where
  "agg_FinalFlush (ACount a) = map_prod id ACount (count_FinalFlush a)"
| "agg_FinalFlush (ASum a) = map_prod id ASum (sum_FinalFlush a)"
| "agg_FinalFlush (ARate a) = map_prod id ARate (rate_FinalFlush a)"

section \<open>The engine\<close>

record compiled_rule =
  cr_name :: string
  cr_filter :: "prog option"
  cr_enrich :: "(string \<times> prog) list"
  cr_groupBy :: "prog list"
  cr_groupNames :: "string list"
  cr_value :: "prog option"
  cr_valueName :: string
  cr_agg :: aggregator

datatype engine_err =
  FilterErr string string | FilterNotBool string | EnrichErr string string string | AggregateErr string agg_err

definition base_env :: "trace_event \<Rightarrow> env" where
  "base_env ev = [''event'' \<mapsto> BEvent ev, ''data'' \<mapsto> BAny (ToAny (pl_value (ev_payload ev))), ''identity'' \<mapsto> BIdentity (ev_identity ev),
     ''trace'' \<mapsto> BTrace (ev_trace ev), ''context'' \<mapsto> BContext (ev_context ev), ''payload'' \<mapsto> BPayload (ev_payload ev)]"

text \<open>The enrichments, all evaluated in the environment of the event.\<close>

fun enrichments :: "string \<Rightarrow> env \<Rightarrow> (string \<times> prog) list \<Rightarrow> engine_err + (string \<times> goany) list" where
  "enrichments name ctx [] = Inr []"
| "enrichments name ctx ((k, p) # ps) =
    (case p ctx of Inl e \<Rightarrow> Inl (EnrichErr name k e)
     | Inr v \<Rightarrow> (case enrichments name ctx ps of Inl e \<Rightarrow> Inl e | Inr vs \<Rightarrow> Inr ((k, v) # vs)))"

definition agg_env :: "env \<Rightarrow> (string \<times> goany) list \<Rightarrow> env" where
  "agg_env ctx vs = ctx ++ map_of (map (map_prod id BAny) vs)"

text \<open>One round of the loop: an error, or the rule afterwards.\<close>

definition process_rule :: "(goany \<Rightarrow> string) \<Rightarrow> trace_event \<Rightarrow> compiled_rule \<Rightarrow> engine_err + compiled_rule" where
  "process_rule show ev r =
    (let ctx = base_env ev;
         matched = (case cr_filter r of None \<Rightarrow> Inr True
           | Some p \<Rightarrow> (case p ctx of Inl e \<Rightarrow> Inl (FilterErr (cr_name r) e)
             | Inr (GBool b) \<Rightarrow> Inr b
             | Inr _ \<Rightarrow> Inl (FilterNotBool (cr_name r)))) in
     (case matched of Inl e \<Rightarrow> Inl e
      | Inr False \<Rightarrow> Inr r
      | Inr True \<Rightarrow>
        (case enrichments (cr_name r) ctx (cr_enrich r) of Inl e \<Rightarrow> Inl e
         | Inr vs \<Rightarrow> (case agg_Add show (ei_time (ev_identity ev)) (agg_env ctx vs) (cr_agg r) of
             (Inl e, _) \<Rightarrow> Inl (AggregateErr (cr_name r) e)
           | (Inr _, a) \<Rightarrow> Inr (r\<lparr>cr_agg := a\<rparr>)))))"

fun process_rules :: "(goany \<Rightarrow> string) \<Rightarrow> trace_event \<Rightarrow> compiled_rule list \<Rightarrow> engine_err option \<times> compiled_rule list" where
  "process_rules show ev [] = (None, [])"
| "process_rules show ev (r # rs) =
    (case process_rule show ev r of
       Inl e \<Rightarrow> (Some e, r # rs)
     | Inr r' \<Rightarrow> map_prod id (Cons r') (process_rules show ev rs))"

text \<open>\<open>Process\<close> collects nothing: the list it returns is never appended to.\<close>

definition Process :: "(goany \<Rightarrow> string) \<Rightarrow> trace_event \<Rightarrow> compiled_rule list \<Rightarrow> (engine_err + metric list) \<times> compiled_rule list" where
  "Process show ev rules =
    (case process_rules show ev rules of (Some e, rs) \<Rightarrow> (Inl e, rs) | (None, rs) \<Rightarrow> (Inr [], rs))"

fun engine_Flush :: "compiled_rule list \<Rightarrow> metric list \<times> compiled_rule list" where
  "engine_Flush [] = ([], [])"
| "engine_Flush (r # rs) =
    (let (ms, a) = agg_Flush (cr_agg r); (ms', rs') = engine_Flush rs in (ms @ ms', r\<lparr>cr_agg := a\<rparr> # rs'))"

fun engine_FlushAll :: "compiled_rule list \<Rightarrow> metric list \<times> compiled_rule list" where
  "engine_FlushAll [] = ([], [])"
| "engine_FlushAll (r # rs) =
    (let (ms, a) = agg_FinalFlush (cr_agg r); (ms', rs') = engine_FlushAll rs in (ms @ ms', r\<lparr>cr_agg := a\<rparr> # rs'))"

section \<open>Paths of fields\<close>

definition word_char :: "char \<Rightarrow> bool" where
  "word_char c = (let n = of_char c :: nat in 48 \<le> n \<and> n \<le> 57 \<or> 65 \<le> n \<and> n \<le> 90 \<or> n = 95 \<or> 97 \<le> n \<and> n \<le> 122)"

definition start_char :: "char \<Rightarrow> bool" where
  "start_char c = (word_char c \<and> \<not> (48 \<le> (of_char c :: nat) \<and> (of_char c :: nat) \<le> 57))"

lemma length_dropWhile_Cons: "dropWhile P t = d # u \<Longrightarrow> length u < length t"
  by (metis length_dropWhile_le length_Cons less_Suc_eq_le Suc_le_eq)

text \<open>The part of the pattern behind \<open>data.\<close>: identifiers joined by dots, as many as there are, with the rest of the text.\<close>

function match_path :: "string \<Rightarrow> (string \<times> string) option" where
  "match_path s =
    (case s of [] \<Rightarrow> None
     | c # t \<Rightarrow>
       (if \<not> start_char c then None
        else (let i = c # takeWhile word_char t; r = dropWhile word_char t in
          (case r of
             d # u \<Rightarrow> (if d = CHR ''.'' then (case match_path u of Some (p, r') \<Rightarrow> Some (i @ CHR ''.'' # p, r') | None \<Rightarrow> Some (i, r)) else Some (i, r))
           | [] \<Rightarrow> Some (i, r)))))"
  by pat_completeness auto

termination
proof (relation "measure length")
  fix s c t i r d u assume "s = c # t" "r = dropWhile word_char t" "r = d # u"
  then have "length u < length t" using length_dropWhile_Cons [of word_char t d u] by simp
  with \<open>s = c # t\<close> show "(u, s) \<in> measure length" by simp
qed simp

declare match_path.simps [simp del]

lemma match_path_Cons:
  "match_path (c # t) =
    (if start_char c
     then (case dropWhile word_char t of
             d # u \<Rightarrow> (if d = CHR ''.''
               then (case match_path u of
                   Some (p, r') \<Rightarrow> Some ((c # takeWhile word_char t) @ CHR ''.'' # p, r')
                 | None \<Rightarrow> Some (c # takeWhile word_char t, d # u))
               else Some (c # takeWhile word_char t, d # u))
           | [] \<Rightarrow> Some (c # takeWhile word_char t, []))
     else None)"
  by (cases "dropWhile word_char t"; subst match_path.simps; simp add: Let_def del: dropWhile_eq_Nil_conv)

lemma match_path_shorter: "match_path s = Some (p, r) \<Longrightarrow> length r < length s"
proof (induction "length s" arbitrary: s p r rule: less_induct)
  case less
  show ?case
  proof (cases s)
    case Nil
    with less show ?thesis by (simp add: match_path.simps)
  next
    case (Cons c t)
    show ?thesis
    proof (cases "dropWhile word_char t")
      case Nil
      with less(2) Cons show ?thesis by (auto simp: match_path_Cons simp del: dropWhile_eq_Nil_conv split: if_splits)
    next
      case (Cons d u)
      have u: "length u < length t" by (rule length_dropWhile_Cons [OF Cons])
      have "r = d # u \<or> (\<exists>p'. match_path u = Some (p', r))"
        using less(2) Cons \<open>s = c # t\<close> by (auto simp: match_path_Cons split: if_splits option.splits)
      then show ?thesis using less(1) [of u] u \<open>s = c # t\<close> by fastforce
    qed
  qed
qed

text \<open>\<open>DataPaths\<close>: the matches of \<open>\bdata\.(ident(\.ident)*)\b\<close> from left to right; \<open>prev\<close> says whether a word character
  stands in front.  A match never ends within a word, since an identifier takes all the word characters there are.\<close>

function data_paths_from :: "bool \<Rightarrow> string \<Rightarrow> string list" where
  "data_paths_from prev [] = []"
| "data_paths_from prev (c # s) =
    (if \<not> prev \<and> has_prefix (c # s) ''data.''
     then (case match_path (drop 4 s) of
             Some (p, r) \<Rightarrow> p # data_paths_from True r
           | None \<Rightarrow> data_paths_from (word_char c) s)
     else data_paths_from (word_char c) s)"
  by pat_completeness auto
termination
  by (relation "measure (length \<circ> snd)") (auto dest!: match_path_shorter)

definition DataPaths :: "string \<Rightarrow> string list" where "DataPaths expr = data_paths_from False expr"

text \<open>A field of a schema, as far as the repository reads it.\<close>

datatype sfield = SField (sd_type: string) (sd_dynamic: bool) (sd_aggregatable: bool) (sd_groupable: bool)
  (sd_fields: "(string \<times> sfield) list option")

type_synonym sschema = "(string \<times> sfield) list option"

definition TypeObject :: string where "TypeObject = ''object''"

datatype lookup_err = NoFields string | NotObject string | FieldNotFound string string

fun lookup_parts :: "string \<Rightarrow> sfield \<Rightarrow> string list \<Rightarrow> lookup_err + sfield" where
  "lookup_parts path cur [] = Inr cur"
| "lookup_parts path cur (p # ps) =
    (if sd_type cur \<noteq> TypeObject \<or> sd_fields cur = None then Inl (NotObject path)
     else (case map_of (the (sd_fields cur)) p of
       None \<Rightarrow> Inl (FieldNotFound p path) | Some f \<Rightarrow> lookup_parts path f ps))"

definition Lookup :: "sschema option \<Rightarrow> string \<Rightarrow> lookup_err + sfield" where
  "Lookup s path =
    (case s of None \<Rightarrow> Inl (NoFields path)
     | Some None \<Rightarrow> Inl (NoFields path)
     | Some (Some fs) \<Rightarrow> lookup_parts path (SField TypeObject False False False (Some fs)) (split_char (CHR ''.'') path))"

fun ValidateExprPaths :: "sschema option \<Rightarrow> string list \<Rightarrow> lookup_err option" where
  "ValidateExprPaths s [] = None"
| "ValidateExprPaths s (p # ps) = (case Lookup s p of Inl e \<Rightarrow> Some e | Inr _ \<Rightarrow> ValidateExprPaths s ps)"

section \<open>Compilation\<close>

record raw_rule =
  rr_name :: string
  rr_filter :: string
  rr_enrich :: "(string \<times> string) list"
  rr_type :: string
  rr_window :: string
  rr_groupBy :: "string list"
  rr_value :: string
  rr_output :: string

datatype compile_err =
  SchemaErr string lookup_err | CompileFilter string | CompileEnrich string string | CompileGroup string | CompileValue string
| WindowErr string | UnknownAggregator string

definition validateRuleSchema :: "sschema option \<Rightarrow> raw_rule \<Rightarrow> compile_err option" where
  "validateRuleSchema s r =
    (if s = None then None
     else (let exprs = [rr_filter r, rr_value r] @ map snd (rr_enrich r) @ rr_groupBy r in
       map_option (SchemaErr (rr_name r))
         (ValidateExprPaths s (concat (map DataPaths (filter (\<lambda>e. e \<noteq> []) exprs))))))"

fun compile_enrich :: "(string \<Rightarrow> string + prog) \<Rightarrow> (string \<times> string) list \<Rightarrow> compile_err + (string \<times> prog) list" where
  "compile_enrich compileExpr [] = Inr []"
| "compile_enrich compileExpr ((k, v) # kvs) =
    (case compileExpr v of Inl e \<Rightarrow> Inl (CompileEnrich k e)
     | Inr p \<Rightarrow> (case compile_enrich compileExpr kvs of Inl e \<Rightarrow> Inl e | Inr ps \<Rightarrow> Inr ((k, p) # ps)))"

fun compile_groups :: "(string \<Rightarrow> string + prog) \<Rightarrow> string list \<Rightarrow> compile_err + prog list" where
  "compile_groups compileExpr [] = Inr []"
| "compile_groups compileExpr (g # gs) =
    (case compileExpr g of Inl e \<Rightarrow> Inl (CompileGroup e)
     | Inr p \<Rightarrow> (case compile_groups compileExpr gs of Inl e \<Rightarrow> Inl e | Inr ps \<Rightarrow> Inr (p # ps)))"

definition make_agg :: "prog \<Rightarrow> gotime \<Rightarrow> raw_rule \<Rightarrow> int \<Rightarrow> prog list \<Rightarrow> prog option \<Rightarrow> compile_err + aggregator" where
  "make_agg nilp now r window gps value =
    (let names = rr_groupBy r; counter = count_WithGroupByNames names (count_WithGroupBy gps (NewCountAgg now window (rr_output r))) in
     (if rr_type r = ''count'' then Inr (ACount counter)
      else if rr_type r = ''sum'' then
        Inr (ASum (sum_WithValue (case value of None \<Rightarrow> nilp | Some p \<Rightarrow> p)
          (sum_WithGroupByNames names (sum_WithGroupBy gps (NewSumAgg nilp now window (rr_output r))))))
      else if rr_type r = ''rate'' then Inr (ARate counter)
      else Inl (UnknownAggregator (rr_type r))))"

definition CompileRule :: "(string \<Rightarrow> string + prog) \<Rightarrow> (string \<Rightarrow> string + int) \<Rightarrow> prog \<Rightarrow> gotime \<Rightarrow> raw_rule \<Rightarrow> sschema option \<Rightarrow>
    compile_err + compiled_rule" where
  "CompileRule compileExpr parseDuration nilp now r s =
    (case validateRuleSchema s r of Some e \<Rightarrow> Inl e | None \<Rightarrow>
     (case (if rr_filter r = [] then Inr None else (case compileExpr (rr_filter r) of Inl e \<Rightarrow> Inl (CompileFilter e) | Inr p \<Rightarrow> Inr (Some p))) of
        Inl e \<Rightarrow> Inl e | Inr fp \<Rightarrow>
     (case compile_enrich compileExpr (rr_enrich r) of Inl e \<Rightarrow> Inl e | Inr eps \<Rightarrow>
     (case compile_groups compileExpr (rr_groupBy r) of Inl e \<Rightarrow> Inl e | Inr gps \<Rightarrow>
     (case (if rr_value r = [] then Inr None else (case compileExpr (rr_value r) of Inl e \<Rightarrow> Inl (CompileValue e) | Inr p \<Rightarrow> Inr (Some p))) of
        Inl e \<Rightarrow> Inl e | Inr vp \<Rightarrow>
     (case parseDuration (rr_window r) of Inl e \<Rightarrow> Inl (WindowErr e) | Inr window \<Rightarrow>
     (case make_agg nilp now r window gps vp of Inl e \<Rightarrow> Inl e | Inr agg \<Rightarrow>
        Inr \<lparr>cr_name = rr_name r, cr_filter = fp, cr_enrich = eps, cr_groupBy = gps, cr_groupNames = rr_groupBy r,
             cr_value = vp, cr_valueName = rr_value r, cr_agg = agg\<rparr>)))))))"

section \<open>Rules against the declarations of a plugin\<close>

record contract_warning =
  cw_rule :: string
  cw_kind :: string
  cw_path :: string
  cw_schema :: string

text \<open>\<open>lookupSchemaPath\<close>; \<open>Split\<close> never yields an empty list.\<close>

fun lookup_segs :: "sschema \<Rightarrow> string list \<Rightarrow> sfield option" where
  "lookup_segs fso [] = None"
| "lookup_segs fso [seg] = (case fso of None \<Rightarrow> None | Some fs \<Rightarrow> map_of fs seg)"
| "lookup_segs fso (seg # segs) =
    (case fso of None \<Rightarrow> None
     | Some fs \<Rightarrow> (case map_of fs seg of None \<Rightarrow> None
       | Some f \<Rightarrow> (if sd_type f \<noteq> TypeObject \<or> sd_dynamic f then None else lookup_segs (sd_fields f) segs)))"

definition lookupSchemaPath :: "sschema \<Rightarrow> string \<Rightarrow> sfield option" where
  "lookupSchemaPath s path = lookup_segs s (split_char (CHR ''.'') path)"

text \<open>The loop over the schemas of the manifest, in the order of the visit.\<close>

fun capability_loop :: "(string \<times> sschema) list \<Rightarrow> string \<Rightarrow> string \<Rightarrow> string \<Rightarrow> string option" where
  "capability_loop [] path kind declared = (if declared = [] then None else Some declared)"
| "capability_loop ((ref, sch) # schemas) path kind declared =
    (case lookupSchemaPath sch path of
       None \<Rightarrow> capability_loop schemas path kind declared
     | Some f \<Rightarrow>
       (if (if kind = ''group'' then sd_groupable f else sd_aggregatable f) then None
        else capability_loop schemas path kind (if declared = [] then ref else declared)))"

definition checkFieldCapability :: "(string \<times> sschema) list \<Rightarrow> string \<Rightarrow> string \<Rightarrow> string \<Rightarrow> contract_warning option" where
  "checkFieldCapability schemas rule path kind =
    map_option (\<lambda>d. \<lparr>cw_rule = rule, cw_kind = kind, cw_path = path, cw_schema = d\<rparr>) (capability_loop schemas path kind [])"

definition rule_warnings :: "(string \<times> sschema) list \<Rightarrow> compiled_rule \<Rightarrow> contract_warning list" where
  "rule_warnings schemas r =
    List.map_filter (\<lambda>p. checkFieldCapability schemas (cr_name r) p ''aggregate'') (DataPaths (cr_valueName r))
    @ concat (map (\<lambda>gb. List.map_filter (\<lambda>p. checkFieldCapability schemas (cr_name r) p ''group'') (DataPaths gb)) (cr_groupNames r))"

text \<open>\<open>None\<close> for the index stands for no manifest.\<close>

definition checkRulesAgainstManifest :: "compiled_rule list \<Rightarrow> (string \<times> sschema) list option \<Rightarrow> contract_warning list" where
  "checkRulesAgainstManifest rules schemas =
    (case schemas of None \<Rightarrow> [] | Some i \<Rightarrow> (if rules = [] then [] else concat (map (rule_warnings i) rules)))"

end
