(* ===== verification/Analyze_Props.thy ===== *)
theory Analyze_Props imports Analyze_Windows Analyze_Rule begin

text \<open>
  What the aggregates mean: exact counts and sums per window and group as long as events come in order, and what a late
  event, a colliding group key, an unsigned field or an error in another rule does to them.
\<close>

section \<open>Windows\<close>

lemma windowStart_mono: "s \<le> t \<Longrightarrow> windowStart s d \<le> windowStart t d"
proof (cases "d \<le> 0")
  case False
  assume "s \<le> t"
  then have "s div d * d \<le> t div d * d" using False by (intro mult_right_mono zdiv_mono1) auto
  then show ?thesis using False by (simp add: windowStart_def minus_mod_eq_div_mult)
qed (simp add: windowStart_def)

text \<open>The events that are aggregated: those whose group can be computed, and for a sum whose value can.\<close>

definition count_placed :: "(goany \<Rightarrow> string) \<Rightarrow> count_agg \<Rightarrow> (gotime \<times> env) list \<Rightarrow> unit placed list" where
  "count_placed show a evs = List.map_filter (\<lambda>(ts, ctx).
     case groupKey show (ca_groupBy a) (ca_names a) ctx of Inl _ \<Rightarrow> None | Inr gr \<Rightarrow> Some (gr, (), windowStart ts (ca_window a))) evs"

definition sum_placed :: "(goany \<Rightarrow> string) \<Rightarrow> sum_agg \<Rightarrow> (gotime \<times> env) list \<Rightarrow> f64 placed list" where
  "sum_placed show a evs = List.map_filter (\<lambda>(ts, ctx).
     case groupKey show (sa_groupBy a) (sa_names a) ctx of Inl _ \<Rightarrow> None
     | Inr gr \<Rightarrow> (case evalFloat (sa_value a) ctx of Inl _ \<Rightarrow> None | Inr v \<Rightarrow> Some (gr, v, windowStart ts (sa_window a)))) evs"

definition count_run :: "(goany \<Rightarrow> string) \<Rightarrow> (gotime \<times> env) list \<Rightarrow> count_agg \<Rightarrow> count_agg" where
  "count_run show evs a = fold (\<lambda>(ts, ctx) a. snd (count_Add show ts ctx a)) evs a"

definition sum_run :: "(goany \<Rightarrow> string) \<Rightarrow> (gotime \<times> env) list \<Rightarrow> sum_agg \<Rightarrow> sum_agg" where
  "sum_run show evs a = fold (\<lambda>(ts, ctx) a. snd (sum_Add show ts ctx a)) evs a"

lemma count_place_config: "ca_groupBy (count_place gr w a) = ca_groupBy a" "ca_names (count_place gr w a) = ca_names a"
    "ca_window (count_place gr w a) = ca_window a" "ca_output (count_place gr w a) = ca_output a"
  by (simp_all add: count_place_def Let_def count_emit_def)

lemma sum_place_config: "sa_groupBy (sum_place gr v w a) = sa_groupBy a" "sa_names (sum_place gr v w a) = sa_names a"
    "sa_window (sum_place gr v w a) = sa_window a" "sa_output (sum_place gr v w a) = sa_output a" "sa_value (sum_place gr v w a) = sa_value a"
  by (simp_all add: sum_place_def Let_def sum_emit_def)

lemma count_placed_simps:
  "count_placed show a [] = []"
  "count_placed show a ((ts, ctx) # evs) = (case groupKey show (ca_groupBy a) (ca_names a) ctx of
     Inl _ \<Rightarrow> count_placed show a evs | Inr gr \<Rightarrow> (gr, (), windowStart ts (ca_window a)) # count_placed show a evs)"
  by (simp_all add: count_placed_def map_filter_simps split: sum.split)

lemma sum_placed_simps:
  "sum_placed show a [] = []"
  "sum_placed show a ((ts, ctx) # evs) = (case groupKey show (sa_groupBy a) (sa_names a) ctx of
     Inl _ \<Rightarrow> sum_placed show a evs
   | Inr gr \<Rightarrow> (case evalFloat (sa_value a) ctx of Inl _ \<Rightarrow> sum_placed show a evs
       | Inr v \<Rightarrow> (gr, v, windowStart ts (sa_window a)) # sum_placed show a evs))"
  by (simp_all add: sum_placed_def map_filter_simps split: sum.split)

lemma placed_config:
  "count_placed show (count_place gr w a) evs = count_placed show a evs"
  "sum_placed show (sum_place gr v w b) evs = sum_placed show b evs"
  unfolding count_placed_def count_place_config sum_placed_def sum_place_config by (rule refl)+

lemma placings_Cons:
  "cnt.placings ((gr, x, w) # ps) a = cnt.placings ps (count_place gr w a)"
  "smm.placings ((gr, v, w) # qs) b = smm.placings qs (sum_place gr v w b)"
  by (simp_all add: cnt.placings_def smm.placings_def)

lemma count_run_placings: "count_run show evs a = cnt.placings (count_placed show a evs) a"
proof (induction evs arbitrary: a)
  case Nil
  then show ?case by (simp add: count_run_def cnt.placings_def count_placed_simps)
next
  case (Cons p evs)
  obtain ts ctx where p: "p = (ts, ctx)" by force
  have r: "count_run show (p # evs) a = count_run show evs (snd (count_Add show ts ctx a))" by (simp add: count_run_def p)
  show ?case
  proof (cases "groupKey show (ca_groupBy a) (ca_names a) ctx")
    case (Inl e)
    then show ?thesis unfolding r using Cons.IH [of a] by (simp add: count_Add_def count_placed_simps p)
  next
    case (Inr gr)
    then show ?thesis unfolding r
      using Cons.IH [of "count_place gr (windowStart ts (ca_window a)) a"]
      by (simp add: count_Add_def count_placed_simps p placings_Cons placed_config)
  qed
qed

lemma sum_run_placings: "sum_run show evs a = smm.placings (sum_placed show a evs) a"
proof (induction evs arbitrary: a)
  case Nil
  then show ?case by (simp add: sum_run_def smm.placings_def sum_placed_simps)
next
  case (Cons p evs)
  obtain ts ctx where p: "p = (ts, ctx)" by force
  have r: "sum_run show (p # evs) a = sum_run show evs (snd (sum_Add show ts ctx a))" by (simp add: sum_run_def p)
  show ?case
  proof (cases "\<exists>gr v. groupKey show (sa_groupBy a) (sa_names a) ctx = Inr gr \<and> evalFloat (sa_value a) ctx = Inr v")
    case False
    then have "snd (sum_Add show ts ctx a) = a" "sum_placed show a (p # evs) = sum_placed show a evs"
      by (auto simp: sum_Add_def sum_placed_simps p split: sum.splits)
    then show ?thesis unfolding r using Cons.IH [of a] by simp
  next
    case True
    then obtain gr v where "groupKey show (sa_groupBy a) (sa_names a) ctx = Inr gr" "evalFloat (sa_value a) ctx = Inr v" by blast
    then show ?thesis unfolding r
      using Cons.IH [of "sum_place gr v (windowStart ts (sa_window a)) a"]
      by (simp add: sum_Add_def sum_placed_simps p placings_Cons placed_config)
  qed
qed

lemma sorted_map_filter:
  assumes "sorted (map fst evs)" "\<And>ts ctx q. f (ts, ctx) = Some q \<Longrightarrow> window_of q = windowStart ts d"
  shows "sorted (map window_of (List.map_filter f evs))"
  using assms(1)
proof (induction evs)
  case (Cons p evs)
  have later: "windowStart (fst p) d \<le> window_of q" if "q \<in> set (List.map_filter f evs)" for q
  proof -
    from that obtain e where "e \<in> set evs" "f e = Some q" by (auto simp: map_filter_def)
    then show ?thesis using Cons.prems assms(2) [of "fst e" "snd e" q] by (auto intro!: windowStart_mono)
  qed
  show ?case
  proof (cases "f p")
    case (Some q)
    then have "window_of q = windowStart (fst p) d" using assms(2) [of "fst p" "snd p"] by simp
    with Some later Cons show ?thesis by (simp add: map_filter_def)
  qed (use Cons in \<open>simp add: map_filter_def\<close>)
qed (simp add: map_filter_def)

lemma foldl_count: "foldl (\<lambda>n _. n + 1) (of_nat k) us = (of_nat (k + length us) :: 64 word)"
proof (induction us arbitrary: k)
  case (Cons u us)
  have "of_nat k + 1 = (of_nat (Suc k) :: 64 word)" by simp
  then show ?case by (simp only: foldl.simps Cons.IH) simp
qed simp

text \<open>The report of a window: one metric per joined key, with the number of the events that have it.\<close>

lemma count_report:
  assumes order: "sorted (map fst evs)" and new: "ca_state a = []" "ca_groups a = []" "ca_ready a = []"
    and small: "length evs < 2 ^ 63"
  shows "filter (\<lambda>m. mt_window m = w) (fst (count_FinalFlush (count_run show evs a))) =
    window_report (ca_output a) (\<lambda>us. f64_of_int (int (length us))) w (filter (\<lambda>p. window_of p = w) (count_placed show a evs))"
proof -
  let ?ps = "count_placed show a evs"
  have s: "sorted (map window_of ?ps)"
    unfolding count_placed_def by (rule sorted_map_filter [OF order]) (auto simp: window_of_def split: sum.splits)
  have "fst (count_FinalFlush (cnt.placings ?ps a)) = cnt.total (ca_output a) (cnt.placings ?ps a)"
    using cnt.placings_ok [of a "ca_output a" ?ps]
    by (simp add: count_FinalFlush_def cnt.total_def count_metrics_def render_def)
  then have "filter (\<lambda>m. mt_window m = w) (fst (count_FinalFlush (count_run show evs a))) =
      window_report (ca_output a) (\<lambda>us. f64_of_int (sint (foldl (\<lambda>n _. n + 1) (0::64 word) us))) w (filter (\<lambda>p. window_of p = w) ?ps)"
    using cnt.window_totals [of a "ca_output a" ?ps w] s new by (simp add: count_run_placings render_fill)
  also have "\<dots> = window_report (ca_output a) (\<lambda>us. f64_of_int (int (length us))) w (filter (\<lambda>p. window_of p = w) ?ps)"
  proof -
    have "f64_of_int (sint (foldl (\<lambda>n _. n + 1) (0::64 word) us)) = f64_of_int (int (length us))" if "length us \<le> length evs" for us :: "unit list"
    proof -
      have "int (length us) < 2 ^ 63" using that small by simp
      then have "sint (of_nat (length us) :: 64 word) = int (length us)" by (simp add: signed_of_nat signed_take_bit_int_eq_self)
      then show ?thesis using foldl_count [of 0 us] by simp
    qed
    moreover have "length (values_of k (filter (\<lambda>p. window_of p = w) ?ps)) \<le> length evs" for k
    proof -
      have "length (values_of k (filter (\<lambda>p. window_of p = w) ?ps)) \<le> length ?ps"
        by (simp add: values_of_def)
      also have "\<dots> \<le> length evs" by (simp add: count_placed_def map_filter_def)
      finally show ?thesis .
    qed
    ultimately show ?thesis by (simp add: window_report_def)
  qed
  finally show ?thesis .
qed

text \<open>A run as its caller sees it: events added and closed windows flushed, in any order.\<close>

datatype count_op = CAdd gotime env | CFlush

fun count_ops :: "(goany \<Rightarrow> string) \<Rightarrow> count_op list \<Rightarrow> count_agg \<Rightarrow> metric list \<times> count_agg" where
  "count_ops show [] a = ([], a)"
| "count_ops show (CAdd ts ctx # ops) a = count_ops show ops (snd (count_Add show ts ctx a))"
| "count_ops show (CFlush # ops) a =
    (let (ms, a1) = count_Flush a; (ns, a2) = count_ops show ops a1 in (ms @ ns, a2))"

fun added :: "count_op list \<Rightarrow> (gotime \<times> env) list" where
  "added [] = []"
| "added (CAdd ts ctx # ops) = (ts, ctx) # added ops"
| "added (CFlush # ops) = added ops"

text \<open>Flushing early only moves metrics from one output to an earlier one.\<close>

lemma count_Add_ready:
  "snd (count_Add show ts ctx (a\<lparr>ca_ready := r @ ca_ready a\<rparr>)) =
    (snd (count_Add show ts ctx a))\<lparr>ca_ready := r @ ca_ready (snd (count_Add show ts ctx a))\<rparr>"
  by (auto simp: count_Add_def count_place_def count_emit_def count_metrics_def Let_def split: sum.split)

lemma count_run_ready:
  "count_run show evs (a\<lparr>ca_ready := r @ ca_ready a\<rparr>) = (count_run show evs a)\<lparr>ca_ready := r @ ca_ready (count_run show evs a)\<rparr>"
proof (induction evs arbitrary: a)
  case (Cons p evs)
  obtain ts ctx where p: "p = (ts, ctx)" by force
  have "count_run show (p # evs) b = count_run show evs (snd (count_Add show ts ctx b))" for b by (simp add: count_run_def p)
  then show ?case using Cons.IH [of "snd (count_Add show ts ctx a)"] by (simp only: count_Add_ready)
qed (simp add: count_run_def)

lemma flushes_add_up:
  "count_ops show ops a = (out, a') \<Longrightarrow>
    out @ fst (count_FinalFlush a') = fst (count_FinalFlush (count_run show (added ops) a))"
proof (induction ops arbitrary: a out)
  case Nil
  then show ?case by (simp add: count_run_def)
next
  case (Cons op ops)
  show ?case
  proof (cases op)
    case (CAdd ts ctx)
    then show ?thesis using Cons by (simp add: count_run_def)
  next
    case CFlush
    let ?b = "a\<lparr>ca_ready := []\<rparr>"
    obtain ns where ns: "count_ops show ops ?b = (ns, a')" "out = ca_ready a @ ns"
      using Cons.prems CFlush by (auto simp: count_Flush_def Let_def split: prod.splits)
    have "count_run show (added ops) a = (count_run show (added ops) ?b)\<lparr>ca_ready := ca_ready a @ ca_ready (count_run show (added ops) ?b)\<rparr>"
      using count_run_ready [where evs = "added ops" and a = ?b and r = "ca_ready a"] by simp
    then show ?thesis using Cons.IH [OF ns(1)] ns(2) CFlush
      by (simp add: count_FinalFlush_def count_metrics_def)
  qed
qed

subsection \<open>Groups\<close>

text \<open>The group of an event, as the rule's author sees it: each expression with its name (\<open>group_\<close> and its number when
  it has none) and the text of its value.\<close>

fun group_values :: "(goany \<Rightarrow> string) \<Rightarrow> prog list \<Rightarrow> env \<Rightarrow> string list option" where
  "group_values show [] ctx = Some []"
| "group_values show (p # ps) ctx =
    (case p ctx of Inl _ \<Rightarrow> None | Inr v \<Rightarrow> map_option ((#) (show v)) (group_values show ps ctx))"

definition group_name :: "string list \<Rightarrow> nat \<Rightarrow> string" where
  "group_name names i = (if names ! i = [] then ''group_'' @ show_nat i else names ! i)"

definition group_names :: "count_agg \<Rightarrow> string list" where
  "group_names a = map (group_name (ca_names a)) [0..<length (ca_groupBy a)]"

definition group_label :: "(goany \<Rightarrow> string) \<Rightarrow> count_agg \<Rightarrow> env \<Rightarrow> (string \<times> string) list option" where
  "group_label show a ctx =
    (if ca_groupBy a = [] then Some [(''group'', ''_'')]
     else if length (ca_names a) < length (ca_groupBy a) then None
     else map_option (zip (group_names a)) (group_values show (ca_groupBy a) ctx))"

lemma group_values_length: "group_values show ps ctx = Some vs \<Longrightarrow> length vs = length ps"
  by (induction ps arbitrary: vs) (auto split: sum.splits)

lemma group_loop_values:
  "i + length ps \<le> length names \<Longrightarrow>
    (case group_values show ps ctx of
       None \<Rightarrow> isl (group_loop show i ps names ctx parts grp)
     | Some vs \<Rightarrow> group_loop show i ps names ctx parts grp =
         Inr (parts @ vs, AList.updates (map (group_name names) [i..<i + length ps]) vs grp))"
proof (induction ps arbitrary: i parts grp)
  case (Cons p ps)
  have "[i..<i + length (p # ps)] = i # [Suc i..<Suc i + length ps]"
    using upt_conv_Cons [of i "i + length (p # ps)"] by (simp del: upt_Suc)
  then show ?case
    using Cons.IH [of "Suc i" "parts @ [show v]" "AList.update (group_name names i) (show v) grp" for v] Cons.prems
    by (auto simp: evalString_def group_name_def [symmetric] Let_def split: sum.split option.splits simp del: upt_Suc)
qed simp

lemma group_loop_panic: "length names < i + length ps \<Longrightarrow> ps \<noteq> [] \<Longrightarrow> isl (group_loop show i ps names ctx parts grp)"
proof (induction ps arbitrary: i parts grp)
  case (Cons p ps)
  then show ?case by (cases "ps = []") (auto simp: evalString_def Let_def split: sum.split)
qed simp

lemma update_absent: "k \<notin> fst ` set m \<Longrightarrow> AList.update k v m = m @ [(k, v)]"
  by (induction m) auto

lemma updates_zip:
  "length ks = length vs \<Longrightarrow> distinct ks \<Longrightarrow> set ks \<inter> fst ` set m = {} \<Longrightarrow> AList.updates ks vs m = m @ zip ks vs"
proof (induction ks vs arbitrary: m rule: list_induct2)
  case (Cons k ks v vs)
  then have "AList.update k v m = m @ [(k, v)]" by (intro update_absent) auto
  then show ?case using Cons by auto
qed simp

lemma groupKey_label:
  assumes d: "distinct (group_names a)"
  shows "case groupKey show (ca_groupBy a) (ca_names a) ctx of
      Inl _ \<Rightarrow> group_label show a ctx = None
    | Inr gr \<Rightarrow> group_label show a ctx = Some (gr_group gr) \<and>
        (if ca_groupBy a = [] then gr = \<lparr>gr_key = ''_'', gr_group = [(''group'', ''_'')]\<rparr>
         else \<exists>vs. group_values show (ca_groupBy a) ctx = Some vs \<and> gr = \<lparr>gr_key = join_with ''|'' vs, gr_group = zip (group_names a) vs\<rparr>)"
proof -
  let ?ps = "ca_groupBy a" and ?names = "ca_names a"
  consider "?ps = []" | "?ps \<noteq> []" "length ?names < length ?ps" | "?ps \<noteq> []" "length ?ps \<le> length ?names" by linarith
  then show ?thesis
  proof cases
    case 1
    then show ?thesis by (simp add: groupKey_def group_label_def)
  next
    case 2
    then have "isl (group_loop show 0 ?ps ?names ctx [] [])" by (intro group_loop_panic) simp_all
    then show ?thesis using 2 by (auto simp: groupKey_def group_label_def isl_def)
  next
    case 3
    note l = group_loop_values [of 0 ?ps ?names "show" ctx "[]" "[]", simplified, OF 3(2)]
    show ?thesis
    proof (cases "group_values show ?ps ctx")
      case None
      then show ?thesis using l 3 by (auto simp: groupKey_def group_label_def isl_def)
    next
      case (Some vs)
      have "length (group_names a) = length vs" using group_values_length [OF Some] by (simp add: group_names_def)
      then have "AList.updates (group_names a) vs [] = zip (group_names a) vs" using updates_zip [of "group_names a" vs "[]"] d by simp
      then show ?thesis using l 3 Some by (simp add: groupKey_def group_label_def group_names_def)
    qed
  qed
qed

text \<open>No value of the group expressions on an event has a bar in it.\<close>

definition bar_free :: "(goany \<Rightarrow> string) \<Rightarrow> count_agg \<Rightarrow> env \<Rightarrow> bool" where
  "bar_free show a ctx \<longleftrightarrow> (\<forall>p \<in> set (ca_groupBy a). \<forall>v. p ctx = Inr v \<longrightarrow> CHR ''|'' \<notin> set (show v))"

lemma group_values_bar_free:
  "group_values show ps ctx = Some vs \<Longrightarrow> \<forall>p \<in> set ps. \<forall>v. p ctx = Inr v \<longrightarrow> c \<notin> set (show v) \<Longrightarrow> \<forall>s \<in> set vs. c \<notin> set s"
  by (induction ps arbitrary: vs) (auto split: sum.splits)

lemma zip_inject: "length xs = length ys \<Longrightarrow> length xs = length zs \<Longrightarrow> zip xs ys = zip xs zs \<longleftrightarrow> ys = zs"
  by (metis map_snd_zip)

lemma keys_are_groups:
  assumes d: "distinct (group_names a)" and b: "bar_free show a ctx" "bar_free show a ctx'"
    and g: "groupKey show (ca_groupBy a) (ca_names a) ctx = Inr gr" "groupKey show (ca_groupBy a) (ca_names a) ctx' = Inr gr'"
  shows "gr_key gr = gr_key gr' \<longleftrightarrow> gr_group gr = gr_group gr'"
proof (cases "ca_groupBy a = []")
  case True
  then show ?thesis using groupKey_label [OF d, of "show" ctx] groupKey_label [OF d, of "show" ctx'] g by simp
next
  case False
  obtain vs vs' where v: "group_values show (ca_groupBy a) ctx = Some vs" "group_values show (ca_groupBy a) ctx' = Some vs'"
    and gr: "gr = \<lparr>gr_key = join_with ''|'' vs, gr_group = zip (group_names a) vs\<rparr>"
      "gr' = \<lparr>gr_key = join_with ''|'' vs', gr_group = zip (group_names a) vs'\<rparr>"
    using groupKey_label [OF d, of "show" ctx] groupKey_label [OF d, of "show" ctx'] g False by auto
  have l: "length vs = length (ca_groupBy a)" "length vs' = length (ca_groupBy a)" using group_values_length v by blast+
  have ne: "vs \<noteq> []" "vs' \<noteq> []" using l False by auto
  have "\<forall>s \<in> set vs. CHR ''|'' \<notin> set s" "\<forall>s \<in> set vs'. CHR ''|'' \<notin> set s"
    using group_values_bar_free [OF v(1) b(1) [unfolded bar_free_def]] group_values_bar_free [OF v(2) b(2) [unfolded bar_free_def]]
    by blast+
  from split_char_join [OF ne(1) this(1)] split_char_join [OF ne(2) this(2)]
  have "split_char (CHR ''|'') (join_with ''|'' vs) = vs" "split_char (CHR ''|'') (join_with ''|'' vs') = vs'" .
  then have "join_with ''|'' vs = join_with ''|'' vs' \<longleftrightarrow> vs = vs'" by metis
  moreover have "zip (group_names a) vs = zip (group_names a) vs' \<longleftrightarrow> vs = vs'"
    by (rule zip_inject) (simp_all add: l group_names_def)
  ultimately show ?thesis by (simp add: gr)
qed

text \<open>In a report whose keys and groups correspond, a group has one metric or none.\<close>

lemma filter_only: "distinct xs \<Longrightarrow> x \<in> set xs \<Longrightarrow> filter (\<lambda>y. y = x) xs = [x]"
  by (induction xs) (auto simp: filter_empty_conv)

lemma report_of_group:
  assumes inj: "\<And>p q. p \<in> set ps \<Longrightarrow> q \<in> set ps \<Longrightarrow> gr_key (fst p) = gr_key (fst q) \<longleftrightarrow> gr_group (fst p) = gr_group (fst q)"
  shows "filter (\<lambda>m. mt_group m = g) (window_report out agg w ps) =
    (let qs = filter (\<lambda>p. gr_group (fst p) = g) ps in
     if qs = [] then [] else [\<lparr>mt_name = out, mt_window = w, mt_group = g, mt_value = agg (map (\<lambda>p. fst (snd p)) qs)\<rparr>])"
proof -
  let ?ks = "first_keys (map key_of_placed ps)"
  have lab: "label_of (key_of_placed p) ps = gr_group (fst p)" if "p \<in> set ps" for p
  proof -
    let ?qs = "filter (\<lambda>q. key_of_placed q = key_of_placed p) ps"
    have "?qs \<noteq> []" using that by (auto simp: filter_empty_conv)
    then have "last ?qs \<in> set ?qs" by (rule last_in_set)
    then have "last ?qs \<in> set ps" "gr_key (fst (last ?qs)) = gr_key (fst p)" by (auto simp: key_of_placed_def)
    then have "gr_group (fst (last ?qs)) = gr_group (fst p)" using inj that by blast
    with \<open>?qs \<noteq> []\<close> show ?thesis by (simp add: label_of_def Let_def)
  qed
  have rep: "filter (\<lambda>m. mt_group m = g) (window_report out agg w ps) =
      map (\<lambda>k. \<lparr>mt_name = out, mt_window = w, mt_group = label_of k ps, mt_value = agg (values_of k ps)\<rparr>) (filter (\<lambda>k. label_of k ps = g) ?ks)"
    by (simp add: window_report_def filter_map comp_def)
  show ?thesis
  proof (cases "filter (\<lambda>p. gr_group (fst p) = g) ps = []")
    case True
    then have "label_of k ps \<noteq> g" if "k \<in> set ?ks" for k
      using that lab by (auto simp: filter_empty_conv)
    then have "filter (\<lambda>k. label_of k ps = g) ?ks = []" by (simp add: filter_empty_conv)
    with True show ?thesis by (simp add: rep)
  next
    case False
    then obtain p where p: "p \<in> set ps" "gr_group (fst p) = g" by (auto simp: filter_empty_conv)
    let ?k = "key_of_placed p"
    have "label_of k ps = g \<longleftrightarrow> k = ?k" if k: "k \<in> set ?ks" for k
    proof -
      obtain q where q: "q \<in> set ps" "k = key_of_placed q" using k by auto
      then show ?thesis using lab [OF q(1)] inj [OF q(1) p(1)] p(2) by (simp add: key_of_placed_def)
    qed
    then have "filter (\<lambda>k. label_of k ps = g) ?ks = filter (\<lambda>k. k = ?k) ?ks" by (intro filter_cong) auto
    also have "\<dots> = [?k]" by (rule filter_only) (use p in auto)
    finally have one: "filter (\<lambda>k. label_of k ps = g) ?ks = [?k]" .
    have "filter (\<lambda>q. key_of_placed q = ?k) ps = filter (\<lambda>q. gr_group (fst q) = g) ps"
      using inj p by (intro filter_cong) (auto simp: key_of_placed_def)
    then show ?thesis using False lab [OF p(1)] p(2) by (simp add: rep one values_of_def)
  qed
qed

lemma placed_of_group:
  assumes d: "distinct (group_names a)"
  shows "length (filter (\<lambda>p. gr_group (fst p) = g) (filter (\<lambda>p. window_of p = w) (count_placed show a evs))) =
    length (filter (\<lambda>(ts, ctx). windowStart ts (ca_window a) = w \<and> group_label show a ctx = Some g) evs)"
proof (induction evs)
  case (Cons p evs)
  obtain ts ctx where p: "p = (ts, ctx)" by force
  show ?case using Cons groupKey_label [OF d, of "show" ctx]
    by (cases "groupKey show (ca_groupBy a) (ca_names a) ctx") (auto simp: p count_placed_simps window_of_def)
qed (simp add: count_placed_simps)

text \<open>C38: what a counting rule reports, over any calls of \<open>Flush\<close> between the events and a \<open>FinalFlush\<close> at the end, taken
  together.  If the events come in the order of their times, the names of the group expressions are distinct and no
  group value contains a bar, then for every window and every group there is exactly one metric, with the exact number
  of the events of that group in that window, and none for a group without events; events whose group cannot be
  computed count nowhere.  (With bars in the values different groups can share one metric: \<open>group_keys_collide\<close>; an
  event that comes late splits its window: \<open>late_event_splits_window\<close>.)\<close>

theorem count_windows:
  assumes order: "sorted (map fst (added ops))" and new: "ca_state a = []" "ca_groups a = []" "ca_ready a = []"
    and small: "length (added ops) < 2 ^ 63"
    and names: "distinct (group_names a)" and bars: "\<forall>(ts, ctx) \<in> set (added ops). bar_free show a ctx"
    and run: "count_ops show ops a = (out, a')"
  shows "filter (\<lambda>m. mt_window m = w \<and> mt_group m = g) (out @ fst (count_FinalFlush a')) =
    (let n = length (filter (\<lambda>(ts, ctx). windowStart ts (ca_window a) = w \<and> group_label show a ctx = Some g) (added ops)) in
     if n = 0 then [] else [\<lparr>mt_name = ca_output a, mt_window = w, mt_group = g, mt_value = f64_of_int (int n)\<rparr>])"
proof -
  let ?ps = "filter (\<lambda>p. window_of p = w) (count_placed show a (added ops))"
  have placed: "\<exists>ts ctx. (ts, ctx) \<in> set (added ops) \<and> groupKey show (ca_groupBy a) (ca_names a) ctx = Inr (fst p)" if "p \<in> set ?ps" for p
    using that by (auto simp: count_placed_def map_filter_def split: sum.splits) blast
  have inj: "gr_key (fst p) = gr_key (fst q) \<longleftrightarrow> gr_group (fst p) = gr_group (fst q)" if "p \<in> set ?ps" "q \<in> set ?ps" for p q
    using placed [OF that(1)] placed [OF that(2)] keys_are_groups [OF names] bars by fastforce
  have "filter (\<lambda>m. mt_window m = w \<and> mt_group m = g) (out @ fst (count_FinalFlush a')) =
      filter (\<lambda>m. mt_group m = g) (filter (\<lambda>m. mt_window m = w) (fst (count_FinalFlush (count_run show (added ops) a))))"
    by (simp only: flushes_add_up [OF run] filter_filter conj_commute)
  also have "\<dots> = filter (\<lambda>m. mt_group m = g) (window_report (ca_output a) (\<lambda>us. f64_of_int (int (length us))) w ?ps)"
    by (simp only: count_report [OF order new small])
  also have "\<dots> = (let qs = filter (\<lambda>p. gr_group (fst p) = g) ?ps in
      if qs = [] then [] else [\<lparr>mt_name = ca_output a, mt_window = w, mt_group = g,
        mt_value = f64_of_int (int (length (map (\<lambda>p. fst (snd p)) qs)))\<rparr>])"
    by (rule report_of_group) (rule inj)
  finally show ?thesis
    by (simp only: Let_def length_0_conv [symmetric] length_map placed_of_group [OF names])
qed

text \<open>Events grouped by a field \<open>k\<close>; the windows are flushed in between.\<close>

definition ungrouped :: count_agg where "ungrouped = NewCountAgg 0 1000000000 ''n''"

definition text_of :: "goany \<Rightarrow> string" where "text_of v = (case v of GString s \<Rightarrow> s | _ \<Rightarrow> [])"

definition field_k :: prog where
  "field_k ctx = (case ctx ''k'' of Some (BAny v) \<Rightarrow> Inr v | _ \<Rightarrow> Inl [])"

definition by_k :: count_agg where "by_k = ungrouped\<lparr>ca_groupBy := [field_k], ca_names := [''k'']\<rparr>"

definition k_is :: "string \<Rightarrow> env" where "k_is s = [''k'' \<mapsto> BAny (GString s)]"

definition k_ops :: "count_op list" where
  "k_ops = [CAdd 1000000001 (k_is ''a''), CAdd 1000000002 (k_is ''b''), CFlush, CAdd 1000000003 (k_is ''a''), CAdd 2000000000 (k_is ''a''), CFlush]"

theorem count_windows_witness:
  "let (out, a') = count_ops text_of k_ops by_k in
    map mt_value (filter (\<lambda>m. mt_window m = 1000000000 \<and> mt_group m = [(''k'', ''a'')]) (out @ fst (count_FinalFlush a'))) = [f64_of_int 2]"
proof -
  obtain out a' where r: "count_ops text_of k_ops by_k = (out, a')" by fastforce
  have g: "group_names by_k = [''k'']" "\<And>s. group_label text_of by_k (k_is s) = Some [(''k'', s)]"
    by (simp_all add: group_names_def group_name_def group_label_def by_k_def field_k_def k_is_def text_of_def)
  have b: "\<forall>(ts, ctx) \<in> set (added k_ops). bar_free text_of by_k ctx"
    by (simp add: k_ops_def bar_free_def by_k_def field_k_def k_is_def text_of_def)
  have f: "ca_state by_k = []" "ca_groups by_k = []" "ca_ready by_k = []" "ca_window by_k = 1000000000"
    by (simp_all add: by_k_def ungrouped_def NewCountAgg_def)
  have "sorted (map fst (added k_ops))" "length (added k_ops) < 2 ^ 63" "distinct (group_names by_k)"
    by (simp_all add: k_ops_def g)
  from count_windows [OF this(1) f(1-3) this(2,3) b r, of 1000000000 "[(''k'', ''a'')]"]
  have "filter (\<lambda>m. mt_window m = 1000000000 \<and> mt_group m = [(''k'', ''a'')]) (out @ fst (count_FinalFlush a')) =
      [\<lparr>mt_name = ca_output by_k, mt_window = 1000000000, mt_group = [(''k'', ''a'')], mt_value = f64_of_int 2\<rparr>]"
    by (simp add: k_ops_def g f windowStart_def del: filter_append)
  then show ?thesis unfolding r prod.case Let_def by (simp del: filter_append)
qed

text \<open>A late event opens its window again: the window is output twice, with partial counts.\<close>

lemma late_event_splits_window:
  "map (\<lambda>m. (mt_window m, mt_value m))
     (fst (count_FinalFlush (count_run (\<lambda>_. []) [(1000000001, Map.empty), (2000000000, Map.empty), (1000000002, Map.empty)] ungrouped)))
    = [(1000000000, f64_of_int 1), (2000000000, f64_of_int 1), (1000000000, f64_of_int 1)]"
  by (simp add: ungrouped_def NewCountAgg_def count_run_def count_Add_def groupKey_def count_place_def Let_def count_emit_def count_metrics_def
    lookup_or_def windowStart_def count_FinalFlush_def)

section \<open>Sums\<close>

definition partial_sums_small :: "int list \<Rightarrow> bool" where
  "partial_sums_small is \<longleftrightarrow> (\<forall>n \<le> length is. \<bar>sum_list (take n is)\<bar> \<le> 2 ^ 53) \<and> (\<forall>i \<in> set is. \<bar>i\<bar> \<le> 2 ^ 53)"

lemma f64_of_int_0: "f64_of_int 0 = 0"
  by (simp add: f64_of_int_def f64_round_0 f64_make_def del: One_nat_def)

lemma foldl_f64_add:
  assumes "partial_sums_small is"
  shows "foldl f64_add 0 (map f64_of_int is) = f64_of_int (sum_list is)"
  using assms
proof (induction "is" rule: rev_induct)
  case Nil
  then show ?case by (simp add: f64_of_int_0)
next
  case (snoc i "is")
  have p: "partial_sums_small is"
    unfolding partial_sums_small_def
  proof (intro conjI allI impI)
    fix n assume "n \<le> length is"
    then have "take n (is @ [i]) = take n is" "n \<le> length (is @ [i])" by simp_all
    then show "\<bar>sum_list (take n is)\<bar> \<le> 2 ^ 53" using snoc.prems unfolding partial_sums_small_def by metis
  qed (use snoc.prems in \<open>simp add: partial_sums_small_def\<close>)
  have "\<bar>sum_list (take (length is) is)\<bar> \<le> 2 ^ 53" using p unfolding partial_sums_small_def by blast
  moreover have "\<bar>i\<bar> \<le> 2 ^ 53" using snoc.prems by (simp add: partial_sums_small_def)
  ultimately show ?case using snoc.IH [OF p] by (simp add: f64_add_int)
qed

text \<open>For events in order, every window reports one sum per group, the floating-point sum of the values in the order they came;
  for integers whose partial sums stay within \<open>2^53\<close> that is the exact sum.\<close>

theorem sum_windows:
  assumes order: "sorted (map fst evs)" and new: "sa_state a = []" "sa_groups a = []" "sa_ready a = []"
  shows "filter (\<lambda>m. mt_window m = w) (fst (sum_FinalFlush (sum_run show evs a))) =
      window_report (sa_output a) (foldl f64_add 0) w (filter (\<lambda>p. window_of p = w) (sum_placed show a evs))
    \<and> (\<forall>is. partial_sums_small is \<longrightarrow> foldl f64_add 0 (map f64_of_int is) = f64_of_int (sum_list is))"
proof
  let ?ps = "sum_placed show a evs"
  have s: "sorted (map window_of ?ps)"
    unfolding sum_placed_def by (rule sorted_map_filter [OF order]) (auto simp: window_of_def split: sum.splits)
  have "fst (sum_FinalFlush (smm.placings ?ps a)) = smm.total (sa_output a) (smm.placings ?ps a)"
    using smm.placings_ok [of a "sa_output a" ?ps]
    by (simp add: sum_FinalFlush_def smm.total_def sum_metrics_def render_def)
  then show "filter (\<lambda>m. mt_window m = w) (fst (sum_FinalFlush (sum_run show evs a))) =
      window_report (sa_output a) (foldl f64_add 0) w (filter (\<lambda>p. window_of p = w) ?ps)"
    using smm.window_totals [of a "sa_output a" ?ps w] s new by (simp add: sum_run_placings render_fill)
qed (simp add: foldl_f64_add)

definition sevens :: sum_agg where
  "sevens = NewSumAgg (\<lambda>_. Inl []) 0 1000000000 ''n''\<lparr>sa_value := (\<lambda>_. Inr (GInt64 7))\<rparr>"

theorem sum_windows_witness:
  "map mt_value (filter (\<lambda>m. mt_window m = 1000000000)
     (fst (sum_FinalFlush (sum_run (\<lambda>_. []) [(1000000001, Map.empty), (1000000002, Map.empty)] sevens)))) = [f64_of_int 14]"
proof -
  have o: "sorted (map fst [(1000000001 :: int, Map.empty :: env), (1000000002, Map.empty)])" by simp
  have n: "sa_state sevens = []" "sa_groups sevens = []" "sa_ready sevens = []" by (simp_all add: sevens_def NewSumAgg_def)
  note t = sum_windows [OF o n, of 1000000000 "\<lambda>_. []"]
  have "partial_sums_small [7, 7]" by (auto simp: partial_sums_small_def numeral_2_eq_2 take_Cons split: nat.split)
  then have "foldl f64_add 0 (map f64_of_int [7, 7]) = f64_of_int 14" using conjunct2 [OF t] by fastforce
  with conjunct1 [OF t] show ?thesis
    by (simp add: sevens_def NewSumAgg_def sum_placed_simps groupKey_def windowStart_def evalFloat_def
      window_of_def window_report_def key_of_placed_def values_of_def)
qed

text \<open>A field of an unsigned kind is never a number to a sum.\<close>

lemma unsigned_field_never_sums:
  "p ctx = Inr (ToAny (VUint u)) \<Longrightarrow> groupKey show (sa_groupBy a) (sa_names a) ctx = Inr gr \<Longrightarrow> sa_value a = p \<Longrightarrow>
    sum_Add show ts ctx a = (Inl (NotNumeric (GUint64 u)), a)"
  by (simp add: sum_Add_def evalFloat_def)

text \<open>Groups are told apart by their values joined with a bar: different groups can share a key.\<close>

lemma group_keys_collide:
  "map_sum id gr_key (groupKey id_text [\<lambda>_. Inr (GString ''a|b''), \<lambda>_. Inr (GString ''c'')] [''x'', ''y''] ctx) =
   map_sum id gr_key (groupKey id_text [\<lambda>_. Inr (GString ''a''), \<lambda>_. Inr (GString ''b|c'')] [''x'', ''y''] ctx)"
  if "\<And>s. id_text (GString s) = s"
  by (simp add: groupKey_def evalString_def that)

section \<open>The engine\<close>

text \<open>When a rule fails on an event, the rules in front of it have taken the event, it and all rules behind it have not: one
  failing rule hides the event from the others.\<close>

theorem Process_stops_at_error:
  assumes "Process show ev rules = (Inl e, rules')"
  shows "\<exists>pre r post pre'. rules = pre @ r # post \<and> rules' = pre' @ r # post \<and> process_rule show ev r = Inl e
    \<and> list_all2 (\<lambda>q q'. process_rule show ev q = Inr q') pre pre'"
proof -
  have "process_rules show ev rules = (Some e, rules')"
    using assms by (auto simp: Process_def split: prod.splits option.splits)
  then show ?thesis
  proof (induction rules arbitrary: rules')
    case (Cons r rs)
    show ?case
    proof (cases "process_rule show ev r")
      case (Inl e')
      with Cons.prems have "rules' = r # rs" "e' = e" by auto
      with Inl show ?thesis by (intro exI [of _ "[]"] exI [of _ r] exI [of _ rs]) simp
    next
      case (Inr r')
      with Cons.prems obtain rs' where rs': "process_rules show ev rs = (Some e, rs')" "rules' = r' # rs'"
        by (cases "process_rules show ev rs") auto
      from Cons.IH [OF rs'(1)] obtain pre q post pre' where
        "rs = pre @ q # post" "rs' = pre' @ q # post" "process_rule show ev q = Inl e"
        "list_all2 (\<lambda>q q'. process_rule show ev q = Inr q') pre pre'" by blast
      with Inr rs'(2) show ?thesis
        by (intro exI [of _ "r # pre"] exI [of _ q] exI [of _ post] exI [of _ "r' # pre'"]) simp
    qed
  qed simp
qed

definition count_rule :: "prog option \<Rightarrow> compiled_rule" where
  "count_rule f = \<lparr>cr_name = ''r'', cr_filter = f, cr_enrich = [], cr_groupBy = [], cr_groupNames = [], cr_value = None, cr_valueName = [],
     cr_agg = ACount ungrouped\<rparr>"

definition plain_event :: trace_event where
  "plain_event = NewEventWithTime ''e'' ''s'' ''t'' [] [] VNull 1 zero_context"

theorem Process_stops_at_error_witness:
  "\<exists>rules'. Process (\<lambda>_. []) plain_event [count_rule None, count_rule (Some (\<lambda>_. Inr GNil)), count_rule None] = (Inl (FilterNotBool ''r''), rules')
    \<and> rules' ! 2 = count_rule None \<and> rules' ! 0 \<noteq> count_rule None"
proof -
  let ?r0 = "count_rule None" and ?bad = "count_rule (Some (\<lambda>_. Inr GNil))"
  obtain gr w where r1: "process_rule (\<lambda>_. []) plain_event ?r0 = Inr (?r0\<lparr>cr_agg := ACount (count_place gr w ungrouped)\<rparr>)"
    by (auto simp: process_rule_def Let_def count_rule_def count_Add_def groupKey_def ungrouped_def NewCountAgg_def)
  define r1 where "r1 = ?r0\<lparr>cr_agg := ACount (count_place gr w ungrouped)\<rparr>"
  note r1 = r1 [folded r1_def]
  have bad: "process_rule (\<lambda>_. []) plain_event ?bad = Inl (FilterNotBool ''r'')" by (simp add: process_rule_def count_rule_def Let_def)
  have p: "Process (\<lambda>_. []) plain_event [?r0, ?bad, ?r0] = (Inl (FilterNotBool ''r''), [r1, ?bad, ?r0])" by (simp add: Process_def r1 bad)
  from Process_stops_at_error [OF p] obtain pre r post pre' where
    x: "[?r0, ?bad, ?r0] = pre @ r # post" "[r1, ?bad, ?r0] = pre' @ r # post" "process_rule (\<lambda>_. []) plain_event r = Inl (FilterNotBool ''r'')"
      "list_all2 (\<lambda>q q'. process_rule (\<lambda>_. []) plain_event q = Inr q') pre pre'" by blast
  have "pre \<noteq> []" using x(1,3) r1 by auto
  have "ca_state (count_place gr w ungrouped) \<noteq> ca_state ungrouped"
    by (simp add: count_place_def Let_def ungrouped_def NewCountAgg_def AList.update_nonempty)
  then have "r1 \<noteq> ?r0" by (auto simp: r1_def count_rule_def)
  then show ?thesis using p by (intro exI [of _ "[r1, ?bad, ?r0]"]) simp
qed

text \<open>\<open>Process\<close> never returns a metric, whatever windows the event closes.\<close>

lemma Process_returns_no_metrics: "Process show ev rules = (Inr ms, rules') \<Longrightarrow> ms = []"
  by (auto simp: Process_def split: prod.splits option.splits)

section \<open>Rules and declarations\<close>

text \<open>A rule is warned about exactly the fields that some schema of the plugin declares and none allows for the purpose, in any
  order of the schemas.\<close>

theorem checkFieldCapability_iff:
  assumes named: "\<forall>(ref, sch) \<in> set schemas. ref \<noteq> []"
  shows "checkFieldCapability schemas rule path kind \<noteq> None \<longleftrightarrow>
    (\<exists>(ref, sch) \<in> set schemas. lookupSchemaPath sch path \<noteq> None)
    \<and> (\<forall>(ref, sch) \<in> set schemas. \<forall>f. lookupSchemaPath sch path = Some f \<longrightarrow> \<not> (if kind = ''group'' then sd_groupable f else sd_aggregatable f))"
proof -
  have "capability_loop schemas path kind d \<noteq> None \<longleftrightarrow>
      (d \<noteq> [] \<or> (\<exists>(ref, sch) \<in> set schemas. lookupSchemaPath sch path \<noteq> None))
      \<and> (\<forall>(ref, sch) \<in> set schemas. \<forall>f. lookupSchemaPath sch path = Some f \<longrightarrow> \<not> (if kind = ''group'' then sd_groupable f else sd_aggregatable f))" for d
    using named
  proof (induction schemas arbitrary: d)
    case (Cons p schemas)
    obtain ref sch where p: "p = (ref, sch)" by force
    show ?case
    proof (cases "lookupSchemaPath sch path")
      case None
      then show ?thesis using Cons by (simp add: p)
    next
      case (Some f)
      then show ?thesis using Cons by (cases "if kind = ''group'' then sd_groupable f else sd_aggregatable f") (simp_all add: p)
    qed
  qed simp
  from this [of "[]"] show ?thesis by (simp add: checkFieldCapability_def)
qed

theorem checkFieldCapability_iff_witness:
  "checkFieldCapability [(''a'', Some [(''hp'', SField ''int32'' False False True None)]), (''b'', None)] ''r'' ''hp'' ''aggregate'' \<noteq> None"
  by (subst checkFieldCapability_iff) (simp_all add: lookupSchemaPath_def)

end
