(* ===== verification/Recent_Index.thy ===== *)
theory Recent_Index imports Gt_Base begin

text \<open>
  Bounded indexes that forget their oldest keys: the pending requests of \<open>pkg/protocol/correlation/correlation.go\<close> and the
  causation index of \<open>pkg/decode/dispatcher.go\<close>.  What their users rely on is the locale \<open>recent\<close>; both are instances.
  Every operation holds the mutex of its index, so operations follow one another.
\<close>

section \<open>Trimming\<close>

text \<open>The loop that drops keys from the front while there are more than \<open>limit\<close>.\<close>

fun trim_order :: "nat \<Rightarrow> string list \<Rightarrow> (string \<rightharpoonup> 'v) \<Rightarrow> string list \<times> (string \<rightharpoonup> 'v)" where
  "trim_order limit [] m = ([], m)"
| "trim_order limit (k # ks) m = (if limit < length (k # ks) then trim_order limit ks (m(k := None)) else (k # ks, m))"

lemma trim_order_eq:
  "trim_order limit ks m = (drop (length ks - limit) ks, \<lambda>j. if j \<in> set (take (length ks - limit) ks) then None else m j)"
proof (induction ks arbitrary: m)
  case (Cons k ks)
  show ?case
  proof (cases "limit < length (k # ks)")
    case True
    then have "length (k # ks) - limit = Suc (length ks - limit)" by simp
    with True Cons.IH [of "m(k := None)"] show ?thesis by (simp del: fun_upd_apply) (auto simp: fun_eq_iff)
  qed (simp add: fun_eq_iff)
qed (simp add: fun_eq_iff)

section \<open>The store of pending requests\<close>

record pending_request =
  pr_causation :: string
  pr_time :: int

record correlation_store =
  cs_pending :: "string \<rightharpoonup> pending_request"
  cs_order :: "string list"
  cs_limit :: nat

definition NewStore :: "int \<Rightarrow> correlation_store" where
  "NewStore limit = \<lparr>cs_pending = Map.empty, cs_order = [], cs_limit = (if limit \<le> 0 then 1024 else nat limit)\<rparr>"

definition Remember :: "int \<Rightarrow> string \<Rightarrow> string \<Rightarrow> correlation_store \<Rightarrow> correlation_store" where
  "Remember now key causationID s =
    (let ks = (if cs_pending s key = None then cs_order s @ [key] else cs_order s);
         m = (cs_pending s)(key \<mapsto> \<lparr>pr_causation = causationID, pr_time = now\<rparr>);
         (ks', m') = trim_order (cs_limit s) ks m
     in s\<lparr>cs_pending := m', cs_order := ks'\<rparr>)"

definition store_Lookup :: "correlation_store \<Rightarrow> string \<Rightarrow> pending_request option" where
  "store_Lookup s key = cs_pending s key"

definition Forget :: "string \<Rightarrow> correlation_store \<Rightarrow> correlation_store" where
  "Forget key s = (if cs_pending s key = None then s
    else s\<lparr>cs_pending := (cs_pending s)(key := None), cs_order := remove1 key (cs_order s)\<rparr>)"

text \<open>\<open>Len\<close> counts the entries of the map; the order lists its keys.\<close>

definition store_Len :: "correlation_store \<Rightarrow> nat" where
  "store_Len s = length (filter (\<lambda>k. cs_pending s k \<noteq> None) (cs_order s))"

section \<open>The causation index\<close>

record causation_index =
  ci_entries :: "string \<rightharpoonup> string"
  ci_order :: "string list"
  ci_limit :: nat

definition newCausationIndex :: "nat \<Rightarrow> causation_index" where
  "newCausationIndex limit = \<lparr>ci_entries = Map.empty, ci_order = [], ci_limit = limit\<rparr>"

definition index_Put :: "string \<Rightarrow> string \<Rightarrow> causation_index \<Rightarrow> causation_index" where
  "index_Put inputID eid c =
    (if ci_entries c inputID \<noteq> None then c
     else (let (ks, m) = trim_order (ci_limit c) (ci_order c @ [inputID]) ((ci_entries c)(inputID \<mapsto> eid)) in
       c\<lparr>ci_entries := m, ci_order := ks\<rparr>))"

definition index_Get :: "causation_index \<Rightarrow> string \<Rightarrow> string option" where
  "index_Get c inputID = ci_entries c inputID"

section \<open>What a bounded index promises\<close>

definition recent_ok :: "(string \<Rightarrow> 'v option) \<Rightarrow> string list \<Rightarrow> nat \<Rightarrow> bool" where
  "recent_ok look ks limit \<longleftrightarrow> distinct ks \<and> (\<forall>k. look k \<noteq> None \<longleftrightarrow> k \<in> set ks) \<and> length ks \<le> limit"

definition admitted :: "string \<Rightarrow> nat \<Rightarrow> string list \<Rightarrow> string list" where
  "admitted k limit ks = (let ks' = (if k \<in> set ks then ks else ks @ [k]) in drop (length ks' - limit) ks')"

locale recent =
  fixes remember :: "string \<Rightarrow> 'v \<Rightarrow> 's \<Rightarrow> 's" and look :: "'s \<Rightarrow> string \<Rightarrow> 'v option"
    and order :: "'s \<Rightarrow> string list" and limit :: "'s \<Rightarrow> nat" and keep :: "'v \<Rightarrow> 'v \<Rightarrow> 'v"
  assumes limit_remember: "limit (remember k v s) = limit s"
    and order_remember: "recent_ok (look s) (order s) (limit s) \<Longrightarrow> order (remember k v s) = admitted k (limit s) (order s)"
    and look_remember: "recent_ok (look s) (order s) (limit s) \<Longrightarrow> look (remember k v s) j =
      (if j \<in> set (order (remember k v s))
       then (if j = k then Some (case look s k of Some w \<Rightarrow> keep w v | None \<Rightarrow> v) else look s j) else None)"
begin

definition good :: "'s \<Rightarrow> bool" where "good s \<longleftrightarrow> recent_ok (look s) (order s) (limit s)"

definition remembers :: "(string \<times> 'v) list \<Rightarrow> 's \<Rightarrow> 's" where
  "remembers kvs s = fold (\<lambda>(k, v). remember k v) kvs s"

lemma good_remember: "good s \<Longrightarrow> good (remember k v s)"
proof -
  assume g: "good s"
  then have ok: "recent_ok (look s) (order s) (limit s)" by (simp add: good_def)
  have o: "order (remember k v s) = admitted k (limit s) (order s)" by (rule order_remember [OF ok])
  have sub: "j \<in> set (order s) \<or> j = k" if "j \<in> set (order (remember k v s))" for j
    using that unfolding o admitted_def Let_def by (auto dest!: in_set_dropD split: if_splits)
  have "distinct (order (remember k v s))"
    using ok unfolding o admitted_def Let_def recent_ok_def by (auto intro: distinct_drop)
  moreover have "length (order (remember k v s)) \<le> limit s"
    unfolding o admitted_def Let_def by simp
  moreover have "look (remember k v s) j \<noteq> None \<longleftrightarrow> j \<in> set (order (remember k v s))" for j
    using look_remember [OF ok, of k v j] sub [of j] ok by (auto simp: recent_ok_def)
  ultimately show ?thesis by (simp add: good_def recent_ok_def limit_remember)
qed

lemma good_remembers: "good s \<Longrightarrow> good (remembers kvs s)"
  by (induction kvs arbitrary: s) (auto simp: remembers_def good_remember)

lemma limit_remembers: "limit (remembers kvs s) = limit s"
  by (induction kvs arbitrary: s) (auto simp: remembers_def limit_remember)

text \<open>A key stays where it is until enough keys have come behind it.\<close>

lemma stays:
  assumes "good s" "order s = pre @ k # post" "set post \<subseteq> J" "finite J" "card (J \<union> fst ` set kvs) < limit s" "k \<notin> fst ` set kvs"
  shows "look (remembers kvs s) k = look s k"
  using assms
proof (induction kvs arbitrary: s pre post J)
  case (Cons p kvs)
  obtain j v where p: "p = (j, v)" by force
  have ok: "recent_ok (look s) (order s) (limit s)" using Cons.prems(1) by (simp add: good_def)
  let ?s = "remember j v s"
  have jk: "j \<noteq> k" using Cons.prems(6) by (auto simp: p)
  have d: "distinct (pre @ k # post)" "length (pre @ k # post) \<le> limit s" using ok Cons.prems(2) by (simp_all add: recent_ok_def)
  have fin: "finite (insert j J \<union> fst ` set kvs)" using Cons.prems(4) by simp
  have eqJ: "insert j J \<union> fst ` set kvs = J \<union> fst ` set (p # kvs)" by (auto simp: p)
  have "\<exists>pre' post'. order ?s = pre' @ k # post' \<and> set post' \<subseteq> insert j J"
  proof (cases "j \<in> set (order s)")
    case True
    then have "order ?s = order s" using ok by (simp add: order_remember [OF ok] admitted_def recent_ok_def)
    with Cons.prems(2,3) show ?thesis by (intro exI [of _ pre] exI [of _ post]) auto
  next
    case False
    have "length post < card (insert j J)"
    proof -
      have "j \<notin> set post" using False Cons.prems(2) by simp
      then have "card (insert j (set post)) = Suc (length post)" using d distinct_card [of post] by simp
      moreover have "card (insert j (set post)) \<le> card (insert j J)" using Cons.prems(3,4) by (intro card_mono) auto
      ultimately show ?thesis by simp
    qed
    also have "card (insert j J) \<le> card (insert j J \<union> fst ` set kvs)" using fin by (intro card_mono) auto
    finally have lp: "length post + 1 < limit s" using Cons.prems(5) unfolding eqJ by linarith
    have o: "order ?s = drop (length (order s @ [j]) - limit s) (pre @ k # (post @ [j]))"
      using False Cons.prems(2) by (simp add: order_remember [OF ok] admitted_def)
    have "length (order s @ [j]) - limit s \<le> length pre" using d lp Cons.prems(2) by simp
    then have "order ?s = drop (length (order s @ [j]) - limit s) pre @ k # (post @ [j])" unfolding o by simp
    with Cons.prems(3) show ?thesis by (intro exI) (rule conjI, assumption, auto)
  qed
  then obtain pre' post' where o': "order ?s = pre' @ k # post'" "set post' \<subseteq> insert j J" by blast
  have "look (remembers kvs ?s) k = look ?s k"
    by (rule Cons.IH [OF good_remember [OF Cons.prems(1)] o']) (use Cons.prems(4,5,6) in \<open>auto simp: limit_remember p insert_commute\<close>)
  also have "look ?s k = look s k" using look_remember [OF ok, of j v k] o'(1) jk by simp
  finally show ?case by (simp add: remembers_def p)
qed (simp add: remembers_def)

text \<open>A key that is new is found again as long as fewer than \<open>limit\<close> other keys have come since.\<close>

lemma found_again:
  assumes g: "good s" and new: "look s k = None" and few: "card (fst ` set kvs) < limit s" and other: "k \<notin> fst ` set kvs"
  shows "look (remembers kvs (remember k v s)) k = Some v"
proof -
  have ok: "recent_ok (look s) (order s) (limit s)" using g by (simp add: good_def)
  have kn: "k \<notin> set (order s)" using ok new unfolding recent_ok_def by metis
  have len: "length (order s) \<le> limit s" using ok by (simp add: recent_ok_def)
  have l0: "0 < limit s" using few by linarith
  have "order (remember k v s) = drop (length (order s @ [k]) - limit s) (order s @ [k])"
    using kn by (simp add: order_remember [OF ok] admitted_def)
  then have o: "order (remember k v s) = drop (length (order s @ [k]) - limit s) (order s) @ k # []" using len l0 by simp
  have "look (remembers kvs (remember k v s)) k = look (remember k v s) k"
    by (rule stays [OF good_remember [OF g] o, of "{}"]) (use few other in \<open>simp_all add: limit_remember\<close>)
  also have "look (remember k v s) k = Some v" using look_remember [OF ok, of k v k] o new by simp
  finally show ?thesis .
qed

lemma never_more_than_limit: "good s \<Longrightarrow> length (order (remembers kvs s)) \<le> limit s"
  using good_remembers [of s kvs] limit_remembers [of kvs s] by (simp add: good_def recent_ok_def)

end

section \<open>The two instances\<close>

interpretation corr: recent "\<lambda>k (p::pending_request). Remember (pr_time p) k (pr_causation p)" store_Lookup cs_order cs_limit "\<lambda>old new. new"
proof
  fix k and p :: pending_request and s j
  show "cs_limit (Remember (pr_time p) k (pr_causation p) s) = cs_limit s"
    by (simp add: Remember_def Let_def split: prod.split)
  assume ok: "recent_ok (store_Lookup s) (cs_order s) (cs_limit s)"
  have m: "cs_pending s j = None \<longleftrightarrow> j \<notin> set (cs_order s)" for j
    using ok by (metis recent_ok_def store_Lookup_def)
  let ?ks = "if k \<in> set (cs_order s) then cs_order s else cs_order s @ [k]"
  have d: "distinct ?ks" using ok by (simp add: recent_ok_def)
  show o: "cs_order (Remember (pr_time p) k (pr_causation p) s) = admitted k (cs_limit s) (cs_order s)"
    by (simp add: Remember_def m trim_order_eq admitted_def Let_def)
  have "set (take n ?ks) \<inter> set (drop n ?ks) = {}" "set (take n ?ks) \<union> set (drop n ?ks) = set ?ks" for n
    using d by (metis set_take_disj_set_drop_if_distinct order_refl, metis append_take_drop_id set_append)
  then have part: "j \<in> set (take n ?ks) \<longleftrightarrow> j \<in> set ?ks \<and> j \<notin> set (drop n ?ks)" for n j by blast
  have "store_Lookup (Remember (pr_time p) k (pr_causation p) s) j =
      (if j \<in> set (take (length ?ks - cs_limit s) ?ks) then None else ((cs_pending s)(k \<mapsto> p)) j)"
    by (simp add: Remember_def m trim_order_eq Let_def store_Lookup_def)
  also have "\<dots> = (if j \<in> set (admitted k (cs_limit s) (cs_order s)) then (if j = k then Some p else cs_pending s j) else None)"
    unfolding part admitted_def Let_def using m [of j] by (auto dest: in_set_dropD)
  finally show "store_Lookup (Remember (pr_time p) k (pr_causation p) s) j =
      (if j \<in> set (cs_order (Remember (pr_time p) k (pr_causation p) s))
       then (if j = k then Some (case store_Lookup s k of Some w \<Rightarrow> p | None \<Rightarrow> p) else store_Lookup s j) else None)"
    unfolding o by (simp add: store_Lookup_def split: option.split)
qed

interpretation cause: recent index_Put index_Get ci_order ci_limit "\<lambda>old new. old"
proof
  fix k v s j
  show "ci_limit (index_Put k v s) = ci_limit s"
    by (simp add: index_Put_def Let_def split: prod.split)
  assume ok: "recent_ok (index_Get s) (ci_order s) (ci_limit s)"
  have m: "ci_entries s j = None \<longleftrightarrow> j \<notin> set (ci_order s)" for j
    using ok by (metis recent_ok_def index_Get_def)
  let ?ks = "ci_order s @ [k]"
  have len: "length (ci_order s) \<le> ci_limit s" "distinct (ci_order s)" using ok by (simp_all add: recent_ok_def)
  show o: "ci_order (index_Put k v s) = admitted k (ci_limit s) (ci_order s)"
    using len by (simp add: index_Put_def m trim_order_eq admitted_def Let_def)
  show "index_Get (index_Put k v s) j =
      (if j \<in> set (ci_order (index_Put k v s))
       then (if j = k then Some (case index_Get s k of Some w \<Rightarrow> w | None \<Rightarrow> v) else index_Get s j) else None)"
  proof (cases "k \<in> set (ci_order s)")
    case True
    then have "index_Put k v s = s" using m [of k] by (simp add: index_Put_def)
    then show ?thesis using m [of j] by (auto simp: index_Get_def)
  next
    case False
    have "distinct ?ks" using False len by simp
    then have "set (take n ?ks) \<inter> set (drop n ?ks) = {}" "set (take n ?ks) \<union> set (drop n ?ks) = set ?ks" for n
      by (metis set_take_disj_set_drop_if_distinct order_refl, metis append_take_drop_id set_append)
    then have part: "j \<in> set (take n ?ks) \<longleftrightarrow> j \<in> set ?ks \<and> j \<notin> set (drop n ?ks)" for n j by blast
    have "index_Get (index_Put k v s) j =
        (if j \<in> set (take (length ?ks - ci_limit s) ?ks) then None else ((ci_entries s)(k \<mapsto> v)) j)"
      using False m [of k] by (simp add: index_Put_def trim_order_eq Let_def index_Get_def)
    also have "\<dots> = (if j \<in> set (admitted k (ci_limit s) (ci_order s)) then (if j = k then Some v else ci_entries s j) else None)"
      unfolding part admitted_def Let_def using m [of j] False by (auto dest: in_set_dropD)
    finally show ?thesis unfolding o using False m [of k] by (simp add: index_Get_def)
  qed
qed

lemma corr_good_New: "corr.good (NewStore limit)"
  by (simp add: corr.good_def recent_ok_def NewStore_def store_Lookup_def)

lemma cause_good_new: "cause.good (newCausationIndex limit)"
  by (simp add: cause.good_def recent_ok_def newCausationIndex_def index_Get_def)

lemma corr_good_Forget: "corr.good s \<Longrightarrow> corr.good (Forget k s)"
  by (auto simp: corr.good_def recent_ok_def Forget_def store_Lookup_def length_remove1)

end
