(* ===== verification/Protocol_Resolver.thy ===== *)
theory Protocol_Resolver imports Recent_Index Event_Model begin

text \<open>
  What a decoded message means in its protocol: the configuration (\<open>pkg/protocol/config/config.go\<close>), the matching of
  fields (\<open>matcher.go\<close>), the resolver (\<open>resolver.go\<close>) and the hook that pairs responses with requests
  (\<open>cmd/gt-pipeline/protocol_hook.go\<close>).  Queries into JSON are a library, and so are the texts of floats and of \<open>%v\<close>:
  they are the fields of the record \<open>gjson\<close>.
\<close>

section \<open>Matching\<close>

datatype jtype = JNull | JFalse | JTrue | JNumber | JString | JJSON

record gresult =
  gs_type :: jtype
  gs_string :: string
  gs_float :: f64

text \<open>\<open>gj_get\<close> is \<open>gjson.Get\<close>, with \<open>None\<close> for a result that does not exist; \<open>gj_parse\<close> and \<open>gj_format\<close> are
  \<open>strconv.ParseFloat\<close> and \<open>strconv.FormatFloat\<close>, \<open>gj_show\<close> is \<open>fmt.Sprintf("%v")\<close>.\<close>

record gjson =
  gj_get :: "string \<Rightarrow> string \<Rightarrow> gresult option"
  gj_parse :: "string \<Rightarrow> f64 option"
  gj_format :: "f64 \<Rightarrow> string"
  gj_show :: "goany \<Rightarrow> string"

definition matcher_Raw :: "gjson \<Rightarrow> string \<Rightarrow> string \<Rightarrow> gresult option" where
  "matcher_Raw gj json expr =
    (if expr = [] then None
     else (case gj_get gj json expr of None \<Rightarrow> None | Some r \<Rightarrow> (if gs_type r = JNull then None else Some r)))"

definition matcher_Get :: "gjson \<Rightarrow> string \<Rightarrow> string \<Rightarrow> string option" where
  "matcher_Get gj json expr = map_option gs_string (matcher_Raw gj json expr)"

definition KeyOf :: "string \<Rightarrow> string" where
  "KeyOf expr = (case after_last (CHR ''.'') expr of None \<Rightarrow> expr | Some k \<Rightarrow> k)"

definition isNumeric :: "gjson \<Rightarrow> string \<Rightarrow> bool" where
  "isNumeric gj s = (s \<noteq> [] \<and> gj_parse gj s \<noteq> None)"

definition numEquals :: "gjson \<Rightarrow> string \<Rightarrow> string \<Rightarrow> bool" where
  "numEquals gj raw want =
    (if raw = want then True
     else if \<not> isNumeric gj raw \<or> \<not> isNumeric gj want then False
     else (case (gj_parse gj raw, gj_parse gj want) of (Some x, Some y) \<Rightarrow> f64_eq x y | _ \<Rightarrow> False))"

definition floatEquals :: "gjson \<Rightarrow> gresult \<Rightarrow> f64 \<Rightarrow> bool" where
  "floatEquals gj raw want =
    (if gs_type raw = JNumber then f64_eq (gs_float raw) want
     else if gs_type raw = JString then numEquals gj (gs_string raw) (gj_format gj want)
     else False)"

fun matcher_Equals :: "gjson \<Rightarrow> gresult \<Rightarrow> goany \<Rightarrow> bool" where
  "matcher_Equals gj raw (GBool b) =
    (gs_type raw \<noteq> JNull \<and> (gs_type raw = JTrue \<and> b \<or> gs_type raw = JFalse \<and> \<not> b))"
| "matcher_Equals gj raw (GString s) = (gs_type raw \<noteq> JNull \<and> (gs_string raw = s \<or> numEquals gj (gs_string raw) s))"
| "matcher_Equals gj raw (GInt i) = (gs_type raw \<noteq> JNull \<and> numEquals gj (gs_string raw) (show_int (sint i)))"
| "matcher_Equals gj raw (GInt64 i) = (gs_type raw \<noteq> JNull \<and> numEquals gj (gs_string raw) (show_int (sint i)))"
| "matcher_Equals gj raw (GFloat64 x) = (gs_type raw \<noteq> JNull \<and> floatEquals gj raw x)"
| "matcher_Equals gj raw _ = False"

section \<open>Configuration\<close>

record message_definition =
  md_value :: goany
  md_name :: string
  md_role :: string

record correlation_rule =
  cl_name :: string
  cl_request :: string
  cl_response :: string

record push_rule =
  ps_name :: string
  ps_expr :: string
  ps_equals :: goany

record error_config =
  ec_code :: string
  ec_success :: "goany list"

text \<open>\<open>pf_message\<close>: the expression of the message id and the definitions.\<close>

record protocol_file =
  pf_message :: "(string \<times> message_definition list) option"
  pf_correlation :: "correlation_rule list option"
  pf_push :: "push_rule list option"
  pf_error :: "error_config option"

fun EqualsList :: "goany \<Rightarrow> goany list" where
  "EqualsList GNil = []"
| "EqualsList (GSlice xs) = xs"
| "EqualsList v = [v]"

datatype config_err =
  IdExprRequired | ValueRequired | NameRequired | DuplicateValue goany | CorrExprRequired string | DuplicateRule string
| PushExprRequired string | ErrorExprRequired

fun validate_definitions :: "(goany \<Rightarrow> string) \<Rightarrow> string list \<Rightarrow> message_definition list \<Rightarrow> config_err list" where
  "validate_definitions show seen [] = []"
| "validate_definitions show seen (d # ds) =
    (let k = (if md_value d = GNil then ''<nil>'' else show (md_value d)); counted = (md_role d \<noteq> [] \<and> k \<noteq> ''<nil>'') in
     (if md_value d = GNil then [ValueRequired] else [])
     @ (if md_name d = [] then [NameRequired] else [])
     @ (if counted \<and> k \<in> set seen then [DuplicateValue (md_value d)] else [])
     @ validate_definitions show (if counted then k # seen else seen) ds)"

fun validate_rules :: "string list \<Rightarrow> correlation_rule list \<Rightarrow> config_err list" where
  "validate_rules seen [] = []"
| "validate_rules seen (r # rs) =
    (if cl_request r = [] \<or> cl_response r = [] then [CorrExprRequired (cl_name r)] else [])
    @ (if cl_name r \<noteq> [] \<and> cl_name r \<in> set seen then [DuplicateRule (cl_name r)] else [])
    @ validate_rules (if cl_name r = [] then seen else cl_name r # seen) rs"

definition config_Validate :: "(goany \<Rightarrow> string) \<Rightarrow> protocol_file \<Rightarrow> config_err list" where
  "config_Validate show f =
    (case pf_message f of None \<Rightarrow> []
     | Some (expr, ds) \<Rightarrow> (if expr = [] then [IdExprRequired] else []) @ validate_definitions show [] ds)
    @ (case pf_correlation f of None \<Rightarrow> [] | Some rs \<Rightarrow> validate_rules [] rs)
    @ (case pf_push f of None \<Rightarrow> []
       | Some ps \<Rightarrow> map (\<lambda>r. PushExprRequired (ps_name r)) (filter (\<lambda>r. ps_expr r = []) ps))
    @ (case pf_error f of None \<Rightarrow> [] | Some e \<Rightarrow> (if ec_code e = [] then [ErrorExprRequired] else []))"

section \<open>The resolver\<close>

definition RoleRequest :: string where "RoleRequest = ''request''"
definition RoleResponse :: string where "RoleResponse = ''response''"
definition RolePush :: string where "RolePush = ''push''"
definition RoleUnknown :: string where "RoleUnknown = ''unknown''"

definition ValidRole :: "string \<Rightarrow> bool" where
  "ValidRole r = (r \<in> {RoleRequest, RoleResponse, RolePush, RoleUnknown})"

record protocol_resolver =
  rv_idExpr :: string
  rv_msgs :: "string \<rightharpoonup> message_definition"
  rv_correlations :: "correlation_rule list"
  rv_pushes :: "push_rule list"
  rv_error :: "error_config option"

datatype resolver_err = InvalidRole string string | DuplicateDefinition goany

definition valueKey :: "(goany \<Rightarrow> string) \<Rightarrow> goany \<Rightarrow> string" where
  "valueKey show v = (if v = GNil then ''<nil>'' else show v)"

fun index_definitions :: "(goany \<Rightarrow> string) \<Rightarrow> message_definition list \<Rightarrow> (string \<rightharpoonup> message_definition) \<Rightarrow>
    resolver_err + (string \<rightharpoonup> message_definition)" where
  "index_definitions show [] m = Inr m"
| "index_definitions show (d # ds) m =
    (if md_role d \<noteq> [] \<and> \<not> ValidRole (md_role d) then Inl (InvalidRole (md_name d) (md_role d))
     else (let key = valueKey show (md_value d) in
       (if m key \<noteq> None then Inl (DuplicateDefinition (md_value d)) else index_definitions show ds (m(key \<mapsto> d)))))"

definition NewResolver :: "(goany \<Rightarrow> string) \<Rightarrow> protocol_file option \<Rightarrow> resolver_err + protocol_resolver" where
  "NewResolver show cfg =
    (case cfg of
       None \<Rightarrow> Inr \<lparr>rv_idExpr = [], rv_msgs = Map.empty, rv_correlations = [], rv_pushes = [], rv_error = None\<rparr>
     | Some f \<Rightarrow>
       (case (case pf_message f of None \<Rightarrow> Inr Map.empty | Some (_, ds) \<Rightarrow> index_definitions show ds Map.empty) of
          Inl e \<Rightarrow> Inl e
        | Inr m \<Rightarrow> Inr \<lparr>rv_idExpr = (case pf_message f of None \<Rightarrow> [] | Some (expr, _) \<Rightarrow> expr), rv_msgs = m,
            rv_correlations = (case pf_correlation f of None \<Rightarrow> [] | Some rs \<Rightarrow> rs),
            rv_pushes = (case pf_push f of None \<Rightarrow> [] | Some ps \<Rightarrow> ps), rv_error = pf_error f\<rparr>))"

record correlation =
  co_direction :: string
  co_rule :: string
  co_key :: string
  co_value :: string

record protocol_error =
  pe_failed :: bool
  pe_code :: string

record protocol_result =
  rt_known :: bool
  rt_id :: string
  rt_message :: string
  rt_role :: string
  rt_delivery :: string
  rt_correlation :: "correlation option"
  rt_error :: "protocol_error option"

definition isPush :: "gjson \<Rightarrow> protocol_resolver \<Rightarrow> string \<Rightarrow> bool" where
  "isPush gj r json =
    list_ex (\<lambda>pr. case matcher_Raw gj json (ps_expr pr) of
        None \<Rightarrow> False
      | Some rv \<Rightarrow> (let eq = EqualsList (ps_equals pr) in (if eq = [] then True else list_ex (matcher_Equals gj rv) eq))) (rv_pushes r)"

definition corrFrom :: "gjson \<Rightarrow> string \<Rightarrow> string \<Rightarrow> string \<Rightarrow> string \<Rightarrow> correlation option" where
  "corrFrom gj json expr direction name =
    (case matcher_Get gj json expr of None \<Rightarrow> None
     | Some v \<Rightarrow> Some \<lparr>co_direction = direction, co_rule = name, co_key = KeyOf expr, co_value = v\<rparr>)"

definition matchCorrelation :: "gjson \<Rightarrow> string \<Rightarrow> correlation_rule \<Rightarrow> string \<Rightarrow> correlation option" where
  "matchCorrelation gj json rule role =
    (if role = RoleRequest then corrFrom gj json (cl_request rule) ''request'' (cl_name rule)
     else if role = RoleResponse then corrFrom gj json (cl_response rule) ''response'' (cl_name rule)
     else (case corrFrom gj json (cl_request rule) ''request'' (cl_name rule) of
       Some c \<Rightarrow> Some c | None \<Rightarrow> corrFrom gj json (cl_response rule) ''response'' (cl_name rule)))"

fun first_correlation :: "gjson \<Rightarrow> string \<Rightarrow> correlation_rule list \<Rightarrow> string \<Rightarrow> correlation option" where
  "first_correlation gj json [] role = None"
| "first_correlation gj json (rule # rules) role =
    (case matchCorrelation gj json rule role of Some c \<Rightarrow> Some c | None \<Rightarrow> first_correlation gj json rules role)"

definition resolveError :: "gjson \<Rightarrow> error_config \<Rightarrow> string \<Rightarrow> protocol_error option" where
  "resolveError gj e json =
    (case matcher_Get gj json (ec_code e) of None \<Rightarrow> None
     | Some code \<Rightarrow>
       Some \<lparr>pe_failed = (case matcher_Raw gj json (ec_code e) of None \<Rightarrow> True | Some raw \<Rightarrow> \<not> list_ex (matcher_Equals gj raw) (ec_success e)),
             pe_code = code\<rparr>)"

definition identify :: "gjson \<Rightarrow> protocol_resolver \<Rightarrow> string \<Rightarrow> protocol_result" where
  "identify gj r json =
    (let none = \<lparr>rt_known = False, rt_id = [], rt_message = [], rt_role = RoleUnknown, rt_delivery = RoleUnknown,
                 rt_correlation = None, rt_error = None\<rparr> in
     (if rv_idExpr r = [] then none
      else (case matcher_Get gj json (rv_idExpr r) of None \<Rightarrow> none
        | Some i \<Rightarrow> (case rv_msgs r i of None \<Rightarrow> none
          | Some d \<Rightarrow> (let known = none\<lparr>rt_known := True, rt_id := i, rt_message := md_name d\<rparr> in
              (if md_role d \<noteq> [] then known\<lparr>rt_role := md_role d, rt_delivery := md_role d\<rparr> else known))))))"

definition Resolve_message :: "gjson \<Rightarrow> protocol_resolver \<Rightarrow> string \<Rightarrow> protocol_result" where
  "Resolve_message gj r json =
    (let res = identify gj r json;
         res1 = (if isPush gj r json then res\<lparr>rt_delivery := RolePush\<rparr> else res);
         res2 = res1\<lparr>rt_correlation := first_correlation gj json (rv_correlations r) (rt_role res1)\<rparr>
     in (case rv_error r of None \<Rightarrow> res2 | Some e \<Rightarrow> res2\<lparr>rt_error := resolveError gj e json\<rparr>))"

section \<open>The hook of the pipeline\<close>

definition protocolCorrelationKey :: "string \<Rightarrow> correlation \<Rightarrow> string" where
  "protocolCorrelationKey flow c = flow @ ''|'' @ co_rule c @ ''|'' @ co_value c"

definition setMetaProtocol :: "val \<Rightarrow> val \<Rightarrow> val option" where
  "setMetaProtocol payload pctx =
    (case AsObject payload of None \<Rightarrow> None
     | Some obj \<Rightarrow>
       (let m = (case map_of obj ''_meta'' of None \<Rightarrow> [] | Some meta \<Rightarrow> (case AsObject meta of None \<Rightarrow> [] | Some mo \<Rightarrow> mo)) in
        Some (VObject (AList.update ''_meta'' (VObject (AList.update ''protocol'' pctx m)) obj))))"

text \<open>Remembering and looking up, for an event whose correlation is known.\<close>

definition pair_event :: "int \<Rightarrow> trace_event \<Rightarrow> correlation option \<Rightarrow> correlation_store \<Rightarrow> trace_event \<times> correlation_store" where
  "pair_event now ev co s =
    (case co of None \<Rightarrow> (ev, s)
     | Some c \<Rightarrow>
       (if co_value c = [] then (ev, s)
        else (let key = protocolCorrelationKey (ec_flow (ev_context ev)) c;
                  s1 = (if co_direction c = RoleRequest then Remember now key (ei_id (ev_identity ev)) s else s);
                  ev1 = (if co_direction c = RoleResponse
                         then (case store_Lookup s key of
                             Some p \<Rightarrow> (if pr_causation p \<noteq> [] then ev\<lparr>ev_trace := (ev_trace ev)\<lparr>tc_causation := pr_causation p\<rparr>\<rparr> else ev)
                           | None \<Rightarrow> ev)
                         else ev)
              in (ev1\<lparr>ev_trace := (ev_trace ev1)\<lparr>tc_correlation := key\<rparr>\<rparr>, s1))))"

text \<open>\<open>tojson\<close> is \<open>Payload.ToJSON\<close>, \<open>context_json\<close> the JSON form of the result read back as a value; both may fail.\<close>

definition enrichProtocol :: "gjson \<Rightarrow> (val \<Rightarrow> string option) \<Rightarrow> (protocol_result \<Rightarrow> val option) \<Rightarrow> int \<Rightarrow> protocol_resolver option \<Rightarrow>
    trace_event \<Rightarrow> correlation_store \<Rightarrow> trace_event \<times> correlation_store" where
  "enrichProtocol gj tojson context_json now ro ev s =
    (case ro of None \<Rightarrow> (ev, s)
     | Some r \<Rightarrow>
       (case tojson (pl_value (ev_payload ev)) of None \<Rightarrow> (ev, s)
        | Some js \<Rightarrow>
          (let res = Resolve_message gj r js; (ev1, s1) = pair_event now ev (rt_correlation res) s in
           (case context_json res of None \<Rightarrow> (ev1, s1)
            | Some pctx \<Rightarrow>
              (case setMetaProtocol (pl_value (ev_payload ev1)) pctx of None \<Rightarrow> (ev1, s1)
               | Some v \<Rightarrow> (ev1\<lparr>ev_payload := (ev_payload ev1)\<lparr>pl_value := v\<rparr>\<rparr>, s1))))))"

end
