(* ===== verification/Protocol_Props.thy ===== *)
theory Protocol_Props imports Protocol_Resolver begin

text \<open>
  Which configurations are accepted, what direction a correlation has, and that a response finds its request.
\<close>

section \<open>Configurations\<close>

definition definition_keys :: "(goany \<Rightarrow> string) \<Rightarrow> message_definition list \<Rightarrow> string list" where
  "definition_keys show ds = map (\<lambda>d. valueKey show (md_value d)) ds"

lemma index_definitions_Inr:
  "(\<exists>m'. index_definitions show ds m = Inr m') \<longleftrightarrow>
    (\<forall>d \<in> set ds. md_role d = [] \<or> ValidRole (md_role d)) \<and> distinct (definition_keys show ds)
    \<and> (\<forall>d \<in> set ds. m (valueKey show (md_value d)) = None)"
proof (induction ds arbitrary: m)
  case (Cons d ds)
  then show ?case by (auto simp: Let_def definition_keys_def; metis image_eqI)
qed (simp add: definition_keys_def)

lemma index_definitions_lookup:
  "index_definitions show ds m = Inr m' \<Longrightarrow> m' = m ++ map_of (map (\<lambda>d. (valueKey show (md_value d), d)) ds)"
proof (induction ds arbitrary: m)
  case (Cons d ds)
  have n: "m (valueKey show (md_value d)) = None" and i: "index_definitions show ds (m(valueKey show (md_value d) \<mapsto> d)) = Inr m'"
    using Cons.prems by (auto simp: Let_def split: if_splits)
  have "distinct (definition_keys show (d # ds))" using Cons.prems index_definitions_Inr [of "show" "d # ds" m] by blast
  then have "map_of (map (\<lambda>d. (valueKey show (md_value d), d)) ds) (valueKey show (md_value d)) = None"
    by (auto simp: definition_keys_def map_of_eq_None_iff image_iff)
  with Cons.IH [OF i] show ?case by (auto simp: fun_eq_iff map_add_def split: option.split)
qed simp

text \<open>The resolver accepts exactly the configurations whose roles are known and whose message values print differently; a message
  is then known by the definition with its value.\<close>

theorem NewResolver_accepts:
  "(\<exists>r. NewResolver show (Some f) = Inr r) \<longleftrightarrow>
    (case pf_message f of None \<Rightarrow> True
     | Some (_, ds) \<Rightarrow> (\<forall>d \<in> set ds. md_role d = [] \<or> ValidRole (md_role d)) \<and> distinct (definition_keys show ds))"
proof (cases "pf_message f")
  case (Some m)
  obtain expr ds where m: "m = (expr, ds)" by force
  show ?thesis
    using index_definitions_Inr [of "show" ds Map.empty]
    by (cases "index_definitions show ds Map.empty") (auto simp: NewResolver_def Some m)
qed (simp add: NewResolver_def)

text \<open>The validation of the file lets a repeated value pass when its definitions have no role; the resolver refuses it.\<close>

lemma valid_file_refused:
  "config_Validate (\<lambda>_. ''1'') \<lparr>pf_message = Some (''id'', [\<lparr>md_value = GInt 1, md_name = ''a'', md_role = []\<rparr>,
      \<lparr>md_value = GInt 1, md_name = ''b'', md_role = []\<rparr>]), pf_correlation = None, pf_push = None, pf_error = None\<rparr> = []
   \<and> NewResolver (\<lambda>_. ''1'') (Some \<lparr>pf_message = Some (''id'', [\<lparr>md_value = GInt 1, md_name = ''a'', md_role = []\<rparr>,
      \<lparr>md_value = GInt 1, md_name = ''b'', md_role = []\<rparr>]), pf_correlation = None, pf_push = None, pf_error = None\<rparr>)
     = Inl (DuplicateDefinition (GInt 1))"
  by (simp add: config_Validate_def NewResolver_def valueKey_def)

section \<open>Directions\<close>

lemma matchCorrelation_direction:
  "matchCorrelation gj json rule role = Some c \<Longrightarrow>
    (role = RoleRequest \<longrightarrow> co_direction c = ''request'') \<and> (role = RoleResponse \<longrightarrow> co_direction c = ''response'')
    \<and> co_direction c \<in> {''request'', ''response''} \<and> co_rule c = cl_name rule"
  by (auto simp: matchCorrelation_def corrFrom_def RoleRequest_def RoleResponse_def split: if_splits option.splits)

lemma first_correlation_direction:
  "first_correlation gj json rules role = Some c \<Longrightarrow>
    (role = RoleRequest \<longrightarrow> co_direction c = ''request'') \<and> (role = RoleResponse \<longrightarrow> co_direction c = ''response'')
    \<and> co_direction c \<in> {''request'', ''response''} \<and> co_rule c \<in> cl_name ` set rules"
proof (induction rules)
  case (Cons r rules)
  then show ?case using matchCorrelation_direction [of gj json r role c] by (auto split: option.splits)
qed simp

lemma Resolve_message_sel:
  "rt_role (Resolve_message gj r json) = rt_role (identify gj r json)"
  "rt_correlation (Resolve_message gj r json) = first_correlation gj json (rv_correlations r) (rt_role (identify gj r json))"
  by (simp_all add: Resolve_message_def Let_def split: option.split)

text \<open>A pushed message whose fields match a rule counts as a request, as if its role were not known.\<close>

lemma push_remembered_as_request:
  assumes "rt_role (identify gj r json) = RolePush" "rv_correlations r = [rule]" "matcher_Get gj json (cl_request rule) = Some v"
  shows "map_option co_direction (rt_correlation (Resolve_message gj r json)) = Some ''request''"
  using assms by (simp add: Resolve_message_sel matchCorrelation_def corrFrom_def RolePush_def RoleRequest_def RoleResponse_def)

section \<open>Pairing\<close>

text \<open>The events of a run with the correlation each was resolved to.\<close>

fun pair_run :: "(int \<times> trace_event \<times> correlation option) list \<Rightarrow> correlation_store \<Rightarrow> correlation_store" where
  "pair_run [] s = s"
| "pair_run ((now, ev, co) # evs) s = pair_run evs (snd (pair_event now ev co s))"

definition remembered :: "(int \<times> trace_event \<times> correlation option) list \<Rightarrow> (string \<times> pending_request) list" where
  "remembered evs = List.map_filter (\<lambda>(now, ev, co). case co of None \<Rightarrow> None
     | Some c \<Rightarrow> (if co_value c \<noteq> [] \<and> co_direction c = RoleRequest
         then Some (protocolCorrelationKey (ec_flow (ev_context ev)) c, \<lparr>pr_causation = ei_id (ev_identity ev), pr_time = now\<rparr>) else None)) evs"

lemma pair_event_store:
  "snd (pair_event now ev co s) = (case co of None \<Rightarrow> s
     | Some c \<Rightarrow> (if co_value c \<noteq> [] \<and> co_direction c = RoleRequest
         then Remember now (protocolCorrelationKey (ec_flow (ev_context ev)) c) (ei_id (ev_identity ev)) s else s))"
  by (simp add: pair_event_def Let_def split: option.split)

lemma pair_run_remembers: "pair_run evs s = corr.remembers (remembered evs) s"
proof (induction evs arbitrary: s)
  case Nil
  then show ?case by (simp add: remembered_def corr.remembers_def map_filter_simps)
next
  case (Cons e evs)
  obtain now ev co where e: "e = (now, ev, co)" by (metis prod_cases3)
  show ?case
    using Cons.IH [of "snd (pair_event now ev co s)"]
    by (auto simp: e pair_event_store remembered_def corr.remembers_def map_filter_simps split: option.splits)
qed

lemma corr_good_pair_run: "corr.good s \<Longrightarrow> corr.good (pair_run evs s)"
  by (simp add: pair_run_remembers corr.good_remembers)

text \<open>C19: A response gets its request's identifier as its cause, and both the same correlation, if the request's key was new and
  fewer other keys than the limit have been remembered in between.\<close>

theorem response_finds_request:
  assumes start: "s = pair_run earlier (NewStore limit)"
    and req: "co_direction cq = RoleRequest" "co_value cq \<noteq> []" and rsp: "co_direction cr = RoleResponse"
    and same: "ec_flow (ev_context q) = ec_flow (ev_context r)" "co_rule cq = co_rule cr" "co_value cq = co_value cr"
    and key: "key = protocolCorrelationKey (ec_flow (ev_context q)) cq" and ids: "ei_id (ev_identity q) \<noteq> []"
    and new: "store_Lookup s key = None"
    and q: "pair_event t q (Some cq) s = (q', s1)"
    and between: "key \<notin> fst ` set (remembered evs)" "card (fst ` set (remembered evs)) < cs_limit s"
    and r: "pair_event t' r (Some cr) (pair_run evs s1) = (r', s2)"
  shows "tc_causation (ev_trace r') = ei_id (ev_identity q) \<and> tc_correlation (ev_trace q') = key \<and> tc_correlation (ev_trace r') = key"
proof -
  let ?p = "\<lparr>pr_causation = ei_id (ev_identity q), pr_time = t\<rparr>"
  have g: "corr.good s" unfolding start by (rule corr_good_pair_run) (rule corr_good_New)
  have k: "protocolCorrelationKey (ec_flow (ev_context r)) cr = key" using same by (simp add: key protocolCorrelationKey_def)
  have s1: "s1 = Remember t key (ei_id (ev_identity q)) s"
    using pair_event_store [of t q "Some cq" s] q req by (simp add: key)
  have "store_Lookup (pair_run evs s1) key = Some ?p"
    using corr.found_again [OF g new between(2,1), of ?p] by (simp add: pair_run_remembers s1)
  moreover have "co_value cr \<noteq> []" "\<not> RoleResponse = RoleRequest" using same req by (simp_all add: RoleResponse_def RoleRequest_def)
  ultimately show ?thesis
    using q r req rsp ids by (auto simp: pair_event_def Let_def key [symmetric] k)
qed

definition flow_event :: "string \<Rightarrow> trace_event" where
  "flow_event eid = NewEventWithTime eid ''s'' ''t'' [] [] VNull 1 (zero_context\<lparr>ec_flow := ''9''\<rparr>)"

definition seq_corr :: "string \<Rightarrow> string \<Rightarrow> correlation" where
  "seq_corr direction v = \<lparr>co_direction = direction, co_rule = ''seq'', co_key = ''seq'', co_value = v\<rparr>"

text \<open>A request, another request, and the response to the first.\<close>

theorem response_finds_request_witness:
  "tc_causation (ev_trace (fst (pair_event 3 (flow_event ''c'') (Some (seq_corr ''response'' ''7''))
     (pair_run [(2, flow_event ''b'', Some (seq_corr ''request'' ''8''))]
       (snd (pair_event 1 (flow_event ''a'') (Some (seq_corr ''request'' ''7'')) (NewStore 2))))))) = ''a''"
proof -
  let ?q = "flow_event ''a''" and ?r = "flow_event ''c''" and ?evs = "[(2, flow_event ''b'', Some (seq_corr ''request'' ''8''))]"
  obtain q' s1 where q: "pair_event 1 ?q (Some (seq_corr ''request'' ''7'')) (NewStore 2) = (q', s1)" by force
  obtain r' s2 where r: "pair_event 3 ?r (Some (seq_corr ''response'' ''7'')) (pair_run ?evs s1) = (r', s2)" by force
  have "tc_causation (ev_trace r') = ei_id (ev_identity ?q)"
    using response_finds_request [where earlier = "[]" and limit = 2 and s = "NewStore 2" and evs = ?evs, OF _ _ _ _ _ _ _ refl _ _ q _ _ r]
    by (simp add: seq_corr_def RoleRequest_def RoleResponse_def flow_event_def NewEventWithTime_def NewIdentityWithTime_def store_Lookup_def
      NewStore_def remembered_def map_filter_simps protocolCorrelationKey_def)
  with q r show ?thesis by (simp add: flow_event_def NewEventWithTime_def NewIdentityWithTime_def)
qed

text \<open>A key that is used again keeps its old place: it is dropped before keys that are older than its last use.\<close>

lemma reused_key_dropped_first:
  "let s = Remember 4 ''c'' ''4'' (Remember 3 ''a'' ''3'' (Remember 2 ''b'' ''2'' (Remember 1 ''a'' ''1'' (NewStore 2)))) in
    store_Lookup s ''a'' = None \<and> store_Lookup s ''b'' \<noteq> None"
  by (simp add: Remember_def NewStore_def store_Lookup_def Let_def)

text \<open>Different rules and values can share a key.\<close>

lemma correlation_keys_collide:
  "protocolCorrelationKey flow \<lparr>co_direction = d, co_rule = ''a|b'', co_key = k, co_value = ''c''\<rparr> =
   protocolCorrelationKey flow \<lparr>co_direction = d, co_rule = ''a'', co_key = k, co_value = ''b|c''\<rparr>"
  by (simp add: protocolCorrelationKey_def)

text \<open>The result is written under \<open>_meta.protocol\<close>; the rest of the payload stays.\<close>

lemma setMetaProtocol_Get:
  assumes "setMetaProtocol payload pctx = Some v"
  shows "GetByPath v ''_meta.protocol'' = Some pctx \<and> (\<forall>k. k \<noteq> ''_meta'' \<longrightarrow> Get v k = Get payload k)"
  using assms
  by (cases payload) (auto simp: setMetaProtocol_def GetByPath_def AList.update_conv' Let_def split: option.splits)

end
