(* ===== verification/Decode_Flow.thy ===== *)
theory Decode_Flow imports Recent_Index Event_Model begin

text \<open>
  From packets to events, without the stream: \<open>pkg/decode/fields.go\<close> and the pure half of \<open>pkg/decode/dispatcher.go\<close>.
  An endpoint is its text and port; reading JSON and MsgPack bytes are arguments.
\<close>

section \<open>Packets\<close>

record endpoint =
  ap_text :: string
  ap_port :: "16 word"
  ap_valid :: bool

record packet =
  pk_id :: string
  pk_time :: gotime
  pk_raw :: "byte list"
  pk_src :: endpoint
  pk_dst :: endpoint
  pk_protocol :: string
  pk_meta :: "(string \<times> goany) list"

definition meta_string :: "(string \<times> goany) list \<Rightarrow> string \<Rightarrow> string" where
  "meta_string m k = (case map_of m k of Some (GString s) \<Rightarrow> s | _ \<Rightarrow> [])"

section \<open>Flows\<close>

text \<open>Go compares strings byte by byte.\<close>

fun str_less :: "string \<Rightarrow> string \<Rightarrow> bool" where
  "str_less s [] = False"
| "str_less [] (d # t) = True"
| "str_less (c # s) (d # t) = (char_byte c < char_byte d \<or> c = d \<and> str_less s t)"

definition fnv64_step :: "64 word \<Rightarrow> byte \<Rightarrow> 64 word" where
  "fnv64_step h b = (h XOR ucast b) * 1099511628211"

definition fnv64a :: "byte list \<Rightarrow> 64 word" where
  "fnv64a bs = foldl fnv64_step 14695981039346656037 bs"

definition FlowIDFromEndpoints :: "string \<Rightarrow> string \<Rightarrow> string \<Rightarrow> 64 word" where
  "FlowIDFromEndpoints src dst protocol =
    (let (a, b) = (if str_less dst src then (dst, src) else (src, dst))
     in fnv64a (bytes_of a @ [0] @ bytes_of b @ [0] @ bytes_of protocol))"

definition inferDirection :: "16 word \<Rightarrow> 16 word \<Rightarrow> int \<Rightarrow> string" where
  "inferDirection srcPort dstPort serverPort =
    (let sp = (word_of_int serverPort :: 16 word) in
     if 0 < serverPort \<and> dstPort = sp \<and> srcPort \<noteq> sp then ''client_to_server''
     else if 0 < serverPort \<and> srcPort = sp \<and> dstPort \<noteq> sp then ''server_to_client''
     else if dstPort < 1024 \<and> 1024 \<le> srcPort then ''client_to_server''
     else if srcPort < 1024 \<and> 1024 \<le> dstPort then ''server_to_client''
     else ''unknown'')"

definition deriveConnID :: "packet \<Rightarrow> packet" where
  "deriveConnID pkt =
    (if pk_protocol pkt \<noteq> ''tcp'' then pkt
     else if meta_string (pk_meta pkt) ''conn_id'' \<noteq> [] then pkt
     else if \<not> ap_valid (pk_src pkt) \<or> \<not> ap_valid (pk_dst pkt) then pkt
     else (let s = ap_text (pk_src pkt); d = ap_text (pk_dst pkt); (a, b) = (if str_less d s then (d, s) else (s, d))
       in pkt\<lparr>pk_meta := AList.update ''conn_id'' (GString (''tcp:'' @ a @ ''<->'' @ b)) (pk_meta pkt)\<rparr>))"

section \<open>Names and directions from JSON\<close>

text \<open>The \<open>data\<close> object of a JSON text; \<open>None\<close> if the text is not read.\<close>

definition InferDirectionFromJSON :: "(byte list \<Rightarrow> (string \<times> goany) list option) \<Rightarrow> byte list \<Rightarrow> string" where
  "InferDirectionFromJSON unmarshal js =
    (if js = [] then []
     else (case unmarshal js of None \<Rightarrow> []
       | Some m \<Rightarrow> (if meta_string m ''type'' = ''request'' then ''client_to_server''
           else if meta_string m ''type'' = ''response'' then ''server_to_client'' else [])))"

definition InferMsgNameFromJSON :: "(byte list \<Rightarrow> (string \<times> goany) list option) \<Rightarrow> byte list \<Rightarrow> string" where
  "InferMsgNameFromJSON unmarshal js =
    (if js = [] then []
     else (case unmarshal js of None \<Rightarrow> []
       | Some m \<Rightarrow> (if meta_string m ''type'' = ''request'' \<and> meta_string m ''method'' \<noteq> []
             then meta_string m ''method'' @ '' '' @ meta_string m ''path''
           else if meta_string m ''type'' = ''response'' \<and> meta_string m ''status'' \<noteq> [] then ''resp '' @ meta_string m ''status''
           else [])))"

definition HasSuffix :: "string \<Rightarrow> string \<Rightarrow> bool" where
  "HasSuffix s suf = (length suf \<le> length s \<and> drop (length s - length suf) s = suf)"

fun strip_suffixes :: "string list \<Rightarrow> string \<Rightarrow> string" where
  "strip_suffixes [] name = name"
| "strip_suffixes (suf # sufs) name =
    (if HasSuffix name suf then take (length name - length suf) name else strip_suffixes sufs name)"

definition StripReqRespSuffix :: "string \<Rightarrow> string" where
  "StripReqRespSuffix name = strip_suffixes [''Req'', ''Resp'', ''Request'', ''Response''] name"

section \<open>Requests and their results\<close>

record decode_request =
  rq_session :: string
  rq_hint :: string
  rq_payload :: "byte list"
  rq_input :: string
  rq_packet :: string
  rq_flow :: string
  rq_src :: string
  rq_dst :: string
  rq_direction :: string
  rq_time :: gotime

record decode_response =
  rs_input :: string
  rs_done :: bool
  rs_error :: string
  rs_payload :: "byte list"
  rs_schema :: string
  rs_type :: string
  rs_correlation :: string
  rs_causation :: string

record pending_input =
  pi_req :: decode_request
  pi_conn :: string
  pi_source :: string
  pi_results :: "decode_response list"
  pi_future :: nat

text \<open>The request for a packet: \<open>inputID\<close> is what \<open>NewEventID\<close> returned.\<close>

definition request_of :: "string \<Rightarrow> int \<Rightarrow> string \<Rightarrow> packet \<Rightarrow> decode_request" where
  "request_of session serverPort inputID pkt =
    \<lparr>rq_session = session, rq_hint = pk_protocol pkt, rq_payload = pk_raw pkt, rq_input = inputID,
     rq_packet = (if pk_id pkt = [] then inputID else pk_id pkt),
     rq_flow = show_nat (unat (FlowIDFromEndpoints (ap_text (pk_src pkt)) (ap_text (pk_dst pkt)) (pk_protocol pkt))),
     rq_src = ap_text (pk_src pkt), rq_dst = ap_text (pk_dst pkt),
     rq_direction = inferDirection (ap_port (pk_src pkt)) (ap_port (pk_dst pkt)) serverPort, rq_time = pk_time pkt\<rparr>"

definition pending_of :: "decode_request \<Rightarrow> packet \<Rightarrow> nat \<Rightarrow> pending_input" where
  "pending_of req pkt f =
    \<lparr>pi_req = req, pi_conn = meta_string (pk_meta pkt) ''conn_id'', pi_source = meta_string (pk_meta pkt) ''source'',
     pi_results = [], pi_future = f\<rparr>"

definition extractDirectionOverride :: "val \<Rightarrow> string option" where
  "extractDirectionOverride v =
    (case AsObject v of None \<Rightarrow> None
     | Some obj \<Rightarrow> (case map_of obj ''_meta'' of None \<Rightarrow> None
       | Some meta \<Rightarrow> (case AsObject meta of None \<Rightarrow> None
         | Some mo \<Rightarrow> (case map_of mo ''direction'' of None \<Rightarrow> None | Some d \<Rightarrow> AsString d))))"

text \<open>One result that was read: its event and the index after it.  \<open>known\<close> says which schemas are registered.\<close>

definition event_of_result ::
  "string \<Rightarrow> (string \<Rightarrow> bool) \<Rightarrow> decode_request \<Rightarrow> string \<Rightarrow> string \<Rightarrow> string \<Rightarrow> nat \<Rightarrow> decode_response \<Rightarrow> val \<Rightarrow> causation_index \<Rightarrow> trace_event \<times> causation_index" where
  "event_of_result session known req connID src eid i r v cix =
    (let schemaID = (if rs_schema r \<noteq> [] \<and> \<not> known (rs_schema r) then ''unknown.v1'' else rs_schema r);
         ctx = \<lparr>ec_flow = rq_flow req, ec_raw = rq_packet req, ec_ordinal = of_nat i,
                ec_direction = (case extractDirectionOverride v of Some d \<Rightarrow> d | None \<Rightarrow> rq_direction req),
                ec_conn = connID, ec_source = src\<rparr>;
         ev = NewEventWithTime eid session (rs_type r) schemaID (rq_hint req) v (rq_time req) ctx;
         ev1 = (if rs_correlation r \<noteq> [] then WithCorrelation ev (rs_correlation r) else ev);
         ev2 = (if rs_causation r \<noteq> []
                then (case index_Get cix (rs_causation r) of Some c \<Rightarrow> WithCausation ev1 c | None \<Rightarrow> ev1) else ev1)
     in (ev2, if i = 0 then index_Put (rq_input req) eid cix else cix))"

text \<open>\<open>ids i\<close> is the identifier \<open>NewEventID\<close> gives to the event of result \<open>i\<close>.\<close>

fun convert_results ::
  "string \<Rightarrow> (string \<Rightarrow> bool) \<Rightarrow> (byte list \<Rightarrow> 'e + msgpackValue) \<Rightarrow> decode_request \<Rightarrow> string \<Rightarrow> string \<Rightarrow> (nat \<Rightarrow> string) \<Rightarrow>
    nat \<Rightarrow> decode_response list \<Rightarrow> causation_index \<Rightarrow> trace_event list \<times> causation_index" where
  "convert_results session known dec req connID src ids i [] cix = ([], cix)"
| "convert_results session known dec req connID src ids i (r # rs) cix =
    (if rs_error r \<noteq> [] then convert_results session known dec req connID src ids (Suc i) rs cix
     else (case UnmarshalValueMsgpack dec (rs_payload r) of
        Inl e \<Rightarrow> convert_results session known dec req connID src ids (Suc i) rs cix
      | Inr v \<Rightarrow>
          (let (ev, cix1) = event_of_result session known req connID src (ids i) i r v cix;
               (evs, cix2) = convert_results session known dec req connID src ids (Suc i) rs cix1
           in (ev # evs, cix2))))"

definition convertResultsToEvents ::
  "string \<Rightarrow> (string \<Rightarrow> bool) \<Rightarrow> (byte list \<Rightarrow> 'e + msgpackValue) \<Rightarrow> (nat \<Rightarrow> string) \<Rightarrow> pending_input \<Rightarrow> causation_index \<Rightarrow>
    trace_event list \<times> causation_index" where
  "convertResultsToEvents session known dec ids p cix =
    convert_results session known dec (pi_req p) (pi_conn p) (pi_source p) ids 0 (pi_results p) cix"

end
