(* ===== verification/Decode_Dispatcher.thy ===== *)
theory Decode_Dispatcher imports Decode_Flow begin

text \<open>
  The dispatcher of \<open>pkg/decode/dispatcher.go\<close>: requests in flight over one stream, answered through futures.  A step is a
  critical section of the mutex or the resolution of one future, so the receiving goroutine, \<open>Close\<close> and any number of
  \<open>Submit\<close> calls interleave as they can.  A future is a number; resolving one twice is the panic of closing a closed channel.
\<close>

section \<open>State\<close>

datatype dispatch_err = DispatcherClosed | SendFailed | StreamFailed

datatype recv_state = RecvReady | RecvResolving pending_input | RecvFailing "pending_input list" | RecvGone

record dispatcher =
  dp_closed :: bool
  dp_pending :: "(string \<times> pending_input) list"
  dp_recv :: recv_state
  dp_closing :: "pending_input list"
  dp_index :: causation_index
  dp_done :: "nat \<rightharpoonup> dispatch_err + trace_event list"
  dp_next :: nat
  dp_panic :: bool

text \<open>What a dispatcher is made with: its session, the port hint, the registered schemas and the byte coding.\<close>

record 'e dispatch_env =
  de_session :: string
  de_serverPort :: int
  de_known :: "string \<Rightarrow> bool"
  de_decode :: "byte list \<Rightarrow> 'e + msgpackValue"

definition NewDispatcher :: dispatcher where
  "NewDispatcher = \<lparr>dp_closed = False, dp_pending = [], dp_recv = RecvReady, dp_closing = [], dp_index = newCausationIndex 1024,
    dp_done = Map.empty, dp_next = 0, dp_panic = False\<rparr>"

definition IsHealthy :: "dispatcher \<Rightarrow> bool" where "IsHealthy s = (dp_recv s \<noteq> RecvGone)"

section \<open>Critical sections\<close>

definition future_resolve :: "nat \<Rightarrow> dispatch_err + trace_event list \<Rightarrow> dispatcher \<Rightarrow> dispatcher" where
  "future_resolve f out s =
    (if dp_done s f = None then s\<lparr>dp_done := (dp_done s)(f \<mapsto> out)\<rparr> else s\<lparr>dp_panic := True\<rparr>)"

definition Submit :: "'e dispatch_env \<Rightarrow> string \<Rightarrow> bool \<Rightarrow> packet \<Rightarrow> dispatcher \<Rightarrow> (dispatch_err + nat) \<times> dispatcher" where
  "Submit env inputID sent pkt s =
    (if dp_closed s then (Inl DispatcherClosed, s)
     else if \<not> sent then (Inl SendFailed, s)
     else (Inr (dp_next s),
       s\<lparr>dp_pending := AList.update inputID
            (pending_of (request_of (de_session env) (de_serverPort env) inputID pkt) pkt (dp_next s)) (dp_pending s),
          dp_next := Suc (dp_next s)\<rparr>))"

definition recv_response :: "decode_response \<Rightarrow> dispatcher \<Rightarrow> dispatcher" where
  "recv_response resp s =
    (if rs_input resp = [] then s
     else (case map_of (dp_pending s) (rs_input resp) of
        None \<Rightarrow> s
      | Some p \<Rightarrow>
          (if rs_done resp
           then s\<lparr>dp_pending := AList.delete (rs_input resp) (dp_pending s), dp_recv := RecvResolving p\<rparr>
           else s\<lparr>dp_pending := AList.update (rs_input resp) (p\<lparr>pi_results := pi_results p @ [resp]\<rparr>) (dp_pending s)\<rparr>)))"

text \<open>The conversion happens outside the mutex, before the future is resolved.\<close>

definition recv_resolve :: "'e dispatch_env \<Rightarrow> (nat \<Rightarrow> string) \<Rightarrow> pending_input \<Rightarrow> dispatcher \<Rightarrow> dispatcher" where
  "recv_resolve env ids p s =
    (let (evs, cix) = convertResultsToEvents (de_session env) (de_known env) (de_decode env) ids p (dp_index s)
     in (future_resolve (pi_future p) (Inr evs) s)\<lparr>dp_recv := RecvReady, dp_index := cix\<rparr>)"

definition failAllPending :: "dispatcher \<Rightarrow> dispatcher" where
  "failAllPending s = s\<lparr>dp_pending := [], dp_recv := RecvFailing (map snd (dp_pending s))\<rparr>"

definition dispatcher_Close :: "dispatcher \<Rightarrow> dispatcher" where
  "dispatcher_Close s =
    (if dp_closed s then s
     else s\<lparr>dp_closed := True, dp_pending := [], dp_closing := dp_closing s @ map snd (dp_pending s)\<rparr>)"

section \<open>Steps\<close>

datatype dispatch_step =
  DSubmit string bool packet
| DRecv decode_response
| DConvert "nat \<Rightarrow> string"
| DStreamError
| DFailOne nat
| DRecvExit
| DClose
| DCloseOne nat

text \<open>\<open>None\<close> if the step cannot be taken.  \<open>can_send\<close> says in which states the stream may accept a message.  The numbers
  pick the next future to resolve, since Go ranges over a map in any order.\<close>

fun dispatch_act :: "'e dispatch_env \<Rightarrow> (dispatcher \<Rightarrow> bool) \<Rightarrow> dispatch_step \<Rightarrow> dispatcher \<Rightarrow> dispatcher option" where
  "dispatch_act env can_send (DSubmit i sent pkt) s =
    (if sent \<and> \<not> dp_closed s \<and> \<not> can_send s then None else Some (snd (Submit env i sent pkt s)))"
| "dispatch_act env can_send (DRecv resp) s = (if dp_recv s = RecvReady then Some (recv_response resp s) else None)"
| "dispatch_act env can_send (DConvert ids) s =
    (case dp_recv s of RecvResolving p \<Rightarrow> Some (recv_resolve env ids p s) | _ \<Rightarrow> None)"
| "dispatch_act env can_send DStreamError s = (if dp_recv s = RecvReady then Some (failAllPending s) else None)"
| "dispatch_act env can_send (DFailOne n) s =
    (case dp_recv s of RecvFailing ps \<Rightarrow>
        (if n < length ps then Some ((future_resolve (pi_future (ps ! n)) (Inl StreamFailed) s)\<lparr>dp_recv := RecvFailing (take n ps @ drop (Suc n) ps)\<rparr>)
         else None)
      | _ \<Rightarrow> None)"
| "dispatch_act env can_send DRecvExit s = (if dp_recv s = RecvFailing [] then Some (s\<lparr>dp_recv := RecvGone\<rparr>) else None)"
| "dispatch_act env can_send DClose s = Some (dispatcher_Close s)"
| "dispatch_act env can_send (DCloseOne n) s =
    (if n < length (dp_closing s)
     then Some ((future_resolve (pi_future (dp_closing s ! n)) (Inl DispatcherClosed) s)\<lparr>dp_closing := take n (dp_closing s) @ drop (Suc n) (dp_closing s)\<rparr>)
     else None)"

fun dispatch_run :: "'e dispatch_env \<Rightarrow> (dispatcher \<Rightarrow> bool) \<Rightarrow> dispatch_step list \<Rightarrow> dispatcher \<Rightarrow> dispatcher option" where
  "dispatch_run env can_send [] s = Some s"
| "dispatch_run env can_send (a # acts) s =
    (case dispatch_act env can_send a s of None \<Rightarrow> None | Some s' \<Rightarrow> dispatch_run env can_send acts s')"

text \<open>The identifiers \<open>NewEventID\<close> gave to the requests of a run.\<close>

fun submitted :: "dispatch_step list \<Rightarrow> string list" where
  "submitted [] = []"
| "submitted (DSubmit i sent pkt # acts) = i # submitted acts"
| "submitted (_ # acts) = submitted acts"

section \<open>Where a future is\<close>

fun recv_futures :: "recv_state \<Rightarrow> nat list" where
  "recv_futures (RecvResolving p) = [pi_future p]"
| "recv_futures (RecvFailing ps) = map pi_future ps"
| "recv_futures _ = []"

definition in_flight :: "dispatcher \<Rightarrow> nat list" where
  "in_flight s = map (pi_future \<circ> snd) (dp_pending s) @ recv_futures (dp_recv s) @ map pi_future (dp_closing s)"

definition futures_ok :: "dispatcher \<Rightarrow> bool" where
  "futures_ok s \<longleftrightarrow> distinct (map fst (dp_pending s)) \<and> distinct (in_flight s) \<and> \<not> dp_panic s
    \<and> (\<forall>f. f < dp_next s \<longleftrightarrow> dp_done s f \<noteq> None \<or> f \<in> set (in_flight s))
    \<and> (\<forall>f \<in> set (in_flight s). dp_done s f = None)
    \<and> (dp_closed s \<longrightarrow> dp_pending s = [])"

lemma futures_ok_New: "futures_ok NewDispatcher"
  by (simp add: futures_ok_def NewDispatcher_def in_flight_def)

end
