(* ===== verification/Dispatch_Props.thy ===== *)
theory Dispatch_Props imports Decode_Dispatcher "HOL-Library.Multiset" begin

text \<open>
  Every future is resolved exactly once, nothing is left behind by \<open>Close\<close> or by a broken stream, and a request gets the
  results that carry its identifier, in order.
\<close>

section \<open>Futures move, they are not copied\<close>

lemma mset_delete_key:
  "distinct (map fst ps) \<Longrightarrow> map_of ps k = Some p \<Longrightarrow>
    mset (map g ps) = add_mset (g (k, p)) (mset (map g (AList.delete k ps)))"
proof (induction ps)
  case (Cons q ps)
  show ?case
  proof (cases "fst q = k")
    case True
    then have "AList.delete k ps = ps" using Cons.prems(1) by (auto intro!: delete_idem simp: image_iff)
    with True Cons.prems show ?thesis by (cases q) simp
  next
    case False
    then show ?thesis using Cons by (cases q) simp
  qed
qed simp

lemma map_update_same:
  "map_of ps k = Some p \<Longrightarrow> (\<And>a. g (a, p') = g (a, p)) \<Longrightarrow> distinct (map fst ps) \<Longrightarrow> map g (AList.update k p' ps) = map g ps"
  by (induction ps) (auto simp: AList.update_conv' split: if_splits)

lemma futures_moved:
  assumes ok: "futures_ok s" and m: "mset (in_flight s') = mset (in_flight s)"
    and same: "dp_done s' = dp_done s" "dp_next s' = dp_next s" "dp_panic s' = dp_panic s"
    and p: "distinct (map fst (dp_pending s'))" "dp_closed s' \<longrightarrow> dp_pending s' = []"
  shows "futures_ok s'"
proof -
  have "set (in_flight s') = set (in_flight s)" "distinct (in_flight s') = distinct (in_flight s)"
    using m by (auto dest: mset_eq_setD mset_eq_imp_distinct_iff)
  with ok same p show ?thesis by (simp add: futures_ok_def)
qed

lemma future_resolved:
  assumes ok: "futures_ok s" and m: "mset (in_flight s) = add_mset f (mset (in_flight s'))"
    and d: "dp_done s' = dp_done (future_resolve f out s)" and pan: "dp_panic s' = dp_panic (future_resolve f out s)"
    and same: "dp_next s' = dp_next s"
    and p: "dp_pending s' = dp_pending s" "dp_closed s' = dp_closed s"
  shows "futures_ok s'"
proof -
  have st: "set (in_flight s) = insert f (set (in_flight s'))" using arg_cong [OF m, of set_mset] by simp
  have "distinct (in_flight s)" using ok by (simp add: futures_ok_def)
  moreover have "mset (in_flight s) = mset (f # in_flight s')" using m by simp
  ultimately have ds: "distinct (f # in_flight s')" by (metis mset_eq_imp_distinct_iff)
  have n: "dp_done s f = None" using ok st by (simp add: futures_ok_def)
  have dn: "dp_done s' = (dp_done s)(f \<mapsto> out)" "dp_panic s' = dp_panic s" using d pan n by (simp_all add: future_resolve_def)
  have "g < dp_next s' \<longleftrightarrow> dp_done s' g \<noteq> None \<or> g \<in> set (in_flight s')" for g
    using ok st by (cases "g = f") (simp_all add: futures_ok_def dn same)
  moreover have "\<forall>g \<in> set (in_flight s'). dp_done s' g = None" using ok st ds by (auto simp: futures_ok_def dn)
  ultimately show ?thesis using ok ds dn p by (simp add: futures_ok_def)
qed

lemma in_flight_take_drop:
  "n < length ps \<Longrightarrow> mset (map g ps) = add_mset (g (ps ! n)) (mset (map g (take n ps @ drop (Suc n) ps)))"
proof -
  assume n: "n < length ps"
  have "mset (map g ps) = mset (map g (take n ps @ ps ! n # drop (Suc n) ps))" using id_take_nth_drop [OF n] by simp
  then show ?thesis by simp
qed

section \<open>Every step keeps the futures\<close>

lemma update_new_key: "k \<notin> fst ` set ps \<Longrightarrow> AList.update k v ps = ps @ [(k, v)]"
  by (induction ps) auto

lemma futures_ok_Submit:
  assumes ok: "futures_ok s" and i: "i \<notin> fst ` set (dp_pending s)"
  shows "futures_ok (snd (Submit env i sent pkt s))"
proof (cases "dp_closed s \<or> \<not> sent")
  case False
  let ?s = "snd (Submit env i sent pkt s)"
  have fl: "mset (in_flight ?s) = add_mset (dp_next s) (mset (in_flight s))"
    and eqs: "dp_next ?s = Suc (dp_next s)" "dp_done ?s = dp_done s" "dp_panic ?s = dp_panic s" "\<not> dp_closed ?s"
      "map fst (dp_pending ?s) = map fst (dp_pending s) @ [i]"
    using False by (simp_all add: Submit_def in_flight_def update_new_key [OF i] pending_of_def)
  have st: "set (in_flight ?s) = insert (dp_next s) (set (in_flight s))" using arg_cong [OF fl, of set_mset] by simp
  have lt: "g < dp_next s \<longleftrightarrow> dp_done s g \<noteq> None \<or> g \<in> set (in_flight s)" for g using ok by (simp add: futures_ok_def)
  have new: "dp_next s \<notin> set (in_flight s)" "dp_done s (dp_next s) = None" using lt [of "dp_next s"] by simp_all
  have "mset (in_flight ?s) = mset (dp_next s # in_flight s)" using fl by simp
  then have "distinct (in_flight ?s) = distinct (dp_next s # in_flight s)" by (rule mset_eq_imp_distinct_iff)
  then have "distinct (in_flight ?s)" using ok new(1) by (simp add: futures_ok_def)
  moreover have "g < dp_next ?s \<longleftrightarrow> dp_done ?s g \<noteq> None \<or> g \<in> set (in_flight ?s)" for g
    using lt [of g] by (auto simp: eqs st less_Suc_eq)
  moreover have "distinct (map fst (dp_pending ?s))" using ok i by (simp add: eqs futures_ok_def)
  ultimately show ?thesis using ok new(2) by (simp add: futures_ok_def eqs st)
qed (use ok in \<open>auto simp: Submit_def\<close>)

lemma futures_ok_recv_response:
  assumes ok: "futures_ok s" and r: "dp_recv s = RecvReady"
  shows "futures_ok (recv_response resp s)"
proof (cases "rs_input resp = [] \<or> map_of (dp_pending s) (rs_input resp) = None")
  case False
  then obtain p where p: "map_of (dp_pending s) (rs_input resp) = Some p" by blast
  have ds: "distinct (map fst (dp_pending s))" and cl: "\<not> dp_closed s" using ok p by (auto simp: futures_ok_def)
  let ?g = "pi_future \<circ> snd"
  show ?thesis
  proof (cases "rs_done resp")
    case True
    show ?thesis
      by (rule futures_moved [OF ok])
        (use False True p ds cl r mset_delete_key [OF ds p, of ?g] in \<open>simp_all add: recv_response_def in_flight_def distinct_delete\<close>)
  next
    case nd: False
    show ?thesis
      by (rule futures_moved [OF ok])
        (use False nd p ds cl r in \<open>simp_all add: recv_response_def in_flight_def distinct_update map_update_same [OF p _ ds, of ?g]\<close>)
  qed
qed (use ok in \<open>auto simp: recv_response_def\<close>)

lemma futures_ok_dispatch:
  assumes ok: "futures_ok s" and step: "dispatch_act env can_send a s = Some s'"
    and fresh: "\<And>i sent pkt. a = DSubmit i sent pkt \<Longrightarrow> i \<notin> fst ` set (dp_pending s)"
  shows "futures_ok s'"
proof (cases a)
  case (DSubmit i sent pkt)
  then show ?thesis using step fresh [OF DSubmit] futures_ok_Submit [OF ok, of i env sent pkt] by (auto split: if_splits)
next
  case (DRecv resp)
  then show ?thesis using step futures_ok_recv_response [OF ok, of resp] by (auto split: if_splits)
next
  case (DConvert ids)
  then obtain p where p: "dp_recv s = RecvResolving p" and s': "s' = recv_resolve env ids p s"
    using step by (auto split: recv_state.splits)
  obtain evs cix where c: "convertResultsToEvents (de_session env) (de_known env) (de_decode env) ids p (dp_index s) = (evs, cix)" by force
  show ?thesis
    by (rule future_resolved [OF ok, of "pi_future p" _ "Inr evs"])
      (simp_all add: s' recv_resolve_def c in_flight_def p future_resolve_def)
next
  case DStreamError
  then show ?thesis
    using step by (intro futures_moved [OF ok]) (auto simp: failAllPending_def in_flight_def split: if_splits)
next
  case (DFailOne n)
  then obtain ps where ps: "dp_recv s = RecvFailing ps" "n < length ps"
      and s': "s' = (future_resolve (pi_future (ps ! n)) (Inl StreamFailed) s)\<lparr>dp_recv := RecvFailing (take n ps @ drop (Suc n) ps)\<rparr>"
    using step by (auto split: recv_state.splits if_splits)
  show ?thesis
    by (rule future_resolved [OF ok, of "pi_future (ps ! n)" _ "Inl StreamFailed"])
      (use in_flight_take_drop [OF ps(2), of pi_future] in \<open>simp_all add: s' in_flight_def ps(1) future_resolve_def\<close>)
next
  case DRecvExit
  then show ?thesis
    using step by (intro futures_moved [OF ok]) (use ok in \<open>auto simp: in_flight_def futures_ok_def split: if_splits\<close>)
next
  case DClose
  then show ?thesis
    using step by (cases "dp_closed s") (use ok in \<open>auto intro!: futures_moved [OF ok] simp: dispatcher_Close_def in_flight_def\<close>)
next
  case (DCloseOne n)
  then have n: "n < length (dp_closing s)"
      and s': "s' = (future_resolve (pi_future (dp_closing s ! n)) (Inl DispatcherClosed) s)\<lparr>dp_closing := take n (dp_closing s) @ drop (Suc n) (dp_closing s)\<rparr>"
    using step by (auto split: if_splits)
  show ?thesis
    by (rule future_resolved [OF ok, of "pi_future (dp_closing s ! n)" _ "Inl DispatcherClosed"])
      (use in_flight_take_drop [OF n, of pi_future] in \<open>simp_all add: s' in_flight_def future_resolve_def\<close>)
qed

section \<open>Runs\<close>

lemma dispatch_run_append:
  "dispatch_run env can_send (xs @ ys) s = (case dispatch_run env can_send xs s of None \<Rightarrow> None | Some s' \<Rightarrow> dispatch_run env can_send ys s')"
  by (induction xs arbitrary: s) (auto split: option.split)

lemma dispatch_pending_keys:
  "dispatch_act env can_send a s = Some s' \<Longrightarrow> map_of (dp_pending s') i = Some p \<Longrightarrow>
    map_of (dp_pending s) i \<noteq> None \<or> i \<in> set (submitted [a])"
  by (cases a) (auto simp: Submit_def recv_response_def recv_resolve_def failAllPending_def dispatcher_Close_def future_resolve_def
      update_conv' delete_conv' Let_def split: if_splits recv_state.splits option.splits prod.splits)

lemma futures_ok_run:
  "dispatch_run env can_send acts s = Some s' \<Longrightarrow> futures_ok s \<Longrightarrow> distinct (submitted acts) \<Longrightarrow>
    (\<And>i. i \<in> set (submitted acts) \<Longrightarrow> map_of (dp_pending s) i = None) \<Longrightarrow> futures_ok s'"
proof (induction acts arbitrary: s)
  case (Cons a acts)
  obtain s1 where s1: "dispatch_act env can_send a s = Some s1" "dispatch_run env can_send acts s1 = Some s'"
    using Cons.prems(1) by (auto split: option.splits)
  have sub: "submitted (a # acts) = submitted [a] @ submitted acts" by (cases a) simp_all
  have "futures_ok s1"
    by (rule futures_ok_dispatch [OF Cons.prems(2) s1(1)]) (use Cons.prems(4) in \<open>simp add: map_of_eq_None_iff [symmetric]\<close>)
  moreover have "map_of (dp_pending s1) i = None" if "i \<in> set (submitted acts)" for i
    using dispatch_pending_keys [OF s1(1), of i] Cons.prems(3) Cons.prems(4) [of i] that unfolding sub
    by (cases "map_of (dp_pending s1) i") auto
  ultimately show ?case using Cons.IH [OF s1(2)] Cons.prems(3) unfolding sub by simp
qed simp

text \<open>C4: However \<open>Submit\<close>, the receiving goroutine and \<open>Close\<close> interleave, no future is resolved twice, and at every
  moment each future handed out is resolved or in flight, never both.\<close>

theorem futures_resolved_once:
  assumes "dispatch_run env can_send acts NewDispatcher = Some s" and "distinct (submitted acts)"
  shows "\<not> dp_panic s \<and> (\<forall>f < dp_next s. (dp_done s f \<noteq> None) \<noteq> (f \<in> set (in_flight s)))"
  using futures_ok_run [OF assms(1) futures_ok_New assms(2)]
  by (auto simp: NewDispatcher_def futures_ok_def)

definition tcp_packet :: packet where
  "tcp_packet = \<lparr>pk_id = ''p'', pk_time = 0, pk_raw = [1], pk_src = \<lparr>ap_text = ''a:5000'', ap_port = 5000, ap_valid = True\<rparr>,
    pk_dst = \<lparr>ap_text = ''b:80'', ap_port = 80, ap_valid = True\<rparr>, pk_protocol = ''tcp'', pk_meta = []\<rparr>"

definition done_response :: "string \<Rightarrow> decode_response" where
  "done_response i = \<lparr>rs_input = i, rs_done = True, rs_error = [], rs_payload = [], rs_schema = [], rs_type = [], rs_correlation = [], rs_causation = []\<rparr>"

definition null_env :: "unit dispatch_env" where
  "null_env = \<lparr>de_session = ''s'', de_serverPort = 80, de_known = (\<lambda>_. True),
    de_decode = (\<lambda>_. Inr (MsgpackValue ''null'' None None None None None [] [] None))\<rparr>"

definition race_steps :: "dispatch_step list" where
  "race_steps = [DSubmit ''1'' True tcp_packet, DSubmit ''2'' True tcp_packet, DRecv (done_response ''2''), DClose, DConvert (\<lambda>_. ''e''), DCloseOne 0]"

lemma race_run:
  "\<exists>s. dispatch_run null_env (\<lambda>s. dp_recv s = RecvReady) race_steps NewDispatcher = Some s \<and> dp_next s = 2 \<and> dp_closed s
     \<and> dp_closing s = [] \<and> dp_recv s = RecvReady"
  by (simp add: race_steps_def NewDispatcher_def Submit_def recv_response_def done_response_def tcp_packet_def null_env_def
      recv_resolve_def convertResultsToEvents_def future_resolve_def dispatcher_Close_def pending_of_def)

theorem futures_resolved_once_witness:
  "\<exists>s. dispatch_run null_env (\<lambda>s. dp_recv s = RecvReady) race_steps NewDispatcher = Some s \<and> dp_next s = 2 \<and> \<not> dp_panic s
     \<and> (\<forall>f < dp_next s. (dp_done s f \<noteq> None) \<noteq> (f \<in> set (in_flight s)))"
proof -
  obtain s where s: "dispatch_run null_env (\<lambda>s. dp_recv s = RecvReady) race_steps NewDispatcher = Some s" "dp_next s = 2"
    using race_run by blast
  show ?thesis using s futures_resolved_once [OF s(1)] by (simp add: race_steps_def)
qed

section \<open>Nothing is left behind\<close>

text \<open>The stream takes no message once receiving from it has failed: the documented behaviour of gRPC.\<close>

definition stream_ends :: "(dispatcher \<Rightarrow> bool) \<Rightarrow> bool" where
  "stream_ends can_send \<longleftrightarrow> (\<forall>s. can_send s \<longrightarrow> dp_recv s \<noteq> RecvGone \<and> (\<forall>ps. dp_recv s \<noteq> RecvFailing ps))"

definition broken_empty :: "dispatcher \<Rightarrow> bool" where
  "broken_empty s \<longleftrightarrow> (dp_recv s = RecvGone \<or> (\<exists>ps. dp_recv s = RecvFailing ps) \<longrightarrow> dp_pending s = [])"

lemma broken_empty_run:
  "stream_ends can_send \<Longrightarrow> dispatch_run env can_send acts s = Some s' \<Longrightarrow> broken_empty s \<Longrightarrow> broken_empty s'"
proof (induction acts arbitrary: s)
  case (Cons a acts)
  obtain s1 where s1: "dispatch_act env can_send a s = Some s1" "dispatch_run env can_send acts s1 = Some s'"
    using Cons.prems(2) by (auto split: option.splits)
  have "broken_empty s1"
    using s1(1) Cons.prems(1,3)
    by (cases a) (auto simp: broken_empty_def stream_ends_def Submit_def recv_response_def recv_resolve_def failAllPending_def
        dispatcher_Close_def future_resolve_def Let_def split: if_splits recv_state.splits option.splits prod.splits)
  then show ?case using Cons.IH [OF Cons.prems(1) s1(2)] by simp
qed simp

text \<open>C10: Nobody waits forever: once \<open>Close\<close> has run, or the stream has broken, and the goroutines have resolved what they took,
  every future handed out is resolved.\<close>

theorem no_future_left:
  assumes run: "dispatch_run env can_send acts NewDispatcher = Some s" and ids: "distinct (submitted acts)" and grpc: "stream_ends can_send"
    and over: "dp_closed s \<and> dp_recv s = RecvReady \<or> dp_recv s = RecvGone" and idle: "dp_closing s = []"
  shows "\<forall>f < dp_next s. dp_done s f \<noteq> None"
proof -
  have ok: "futures_ok s" by (rule futures_ok_run [OF run futures_ok_New ids]) (simp add: NewDispatcher_def)
  have "broken_empty s" by (rule broken_empty_run [OF grpc run]) (simp add: broken_empty_def NewDispatcher_def)
  then have "in_flight s = []" using ok over idle by (auto simp: in_flight_def futures_ok_def broken_empty_def)
  with ok show ?thesis by (simp add: futures_ok_def)
qed

theorem no_future_left_witness:
  "\<exists>s. dispatch_run null_env (\<lambda>s. dp_recv s = RecvReady) race_steps NewDispatcher = Some s \<and> dp_next s = 2
     \<and> (\<forall>f < dp_next s. dp_done s f \<noteq> None)"
proof -
  obtain s where s: "dispatch_run null_env (\<lambda>s. dp_recv s = RecvReady) race_steps NewDispatcher = Some s" "dp_next s = 2"
      "dp_closed s" "dp_closing s = []" "dp_recv s = RecvReady"
    using race_run by blast
  have "stream_ends (\<lambda>s. dp_recv s = RecvReady)" by (simp add: stream_ends_def)
  with s no_future_left [OF s(1)] show ?thesis by (simp add: race_steps_def)
qed

text \<open>A stream that still took messages after receiving had failed would leave a future open for ever.\<close>

lemma late_send_waits:
  "\<exists>s. dispatch_run null_env (\<lambda>_. True) [DStreamError, DRecvExit, DSubmit ''1'' True tcp_packet] NewDispatcher = Some s
     \<and> \<not> IsHealthy s \<and> dp_next s = 1 \<and> dp_done s 0 = None"
  by (simp add: NewDispatcher_def failAllPending_def Submit_def IsHealthy_def)

section \<open>Results of a request\<close>

fun results_for :: "string \<Rightarrow> dispatch_step list \<Rightarrow> decode_response list" where
  "results_for i [] = []"
| "results_for i (DRecv r # acts) = (if rs_input r = i then r # results_for i acts else results_for i acts)"
| "results_for i (_ # acts) = results_for i acts"

text \<open>Steps that leave request \<open>i\<close> pending.\<close>

fun leaves :: "string \<Rightarrow> dispatch_step \<Rightarrow> bool" where
  "leaves i (DRecv r) = (rs_input r = i \<longrightarrow> \<not> rs_done r)"
| "leaves i (DSubmit j sent pkt) = (j \<noteq> i)"
| "leaves i DStreamError = False"
| "leaves i DClose = False"
| "leaves i _ = True"

lemma results_collected:
  "dispatch_run env can_send acts s = Some s' \<Longrightarrow> list_all (leaves i) acts \<Longrightarrow> i \<noteq> [] \<Longrightarrow> map_of (dp_pending s) i = Some p \<Longrightarrow>
    map_of (dp_pending s') i = Some (p\<lparr>pi_results := pi_results p @ results_for i acts\<rparr>)"
proof (induction acts arbitrary: s p)
  case (Cons a acts)
  obtain s1 where s1: "dispatch_act env can_send a s = Some s1" "dispatch_run env can_send acts s1 = Some s'"
    using Cons.prems(1) by (auto split: option.splits)
  have "map_of (dp_pending s1) i = Some (p\<lparr>pi_results := pi_results p @ results_for i [a]\<rparr>)"
    using s1(1) Cons.prems(2,3,4)
    by (cases a) (auto simp: Submit_def recv_response_def recv_resolve_def future_resolve_def update_conv' delete_conv'
        Let_def split: if_splits recv_state.splits option.splits prod.splits)
  from Cons.IH [OF s1(2) _ Cons.prems(3) this] Cons.prems(2)
  show ?case by (cases a) auto
qed simp

text \<open>C6: The future of a request is resolved with the events of exactly the results that carried its identifier before the final
  one, in the order they came, whatever else happened on the stream.\<close>

theorem future_gets_its_results:
  assumes before: "dispatch_run env can_send pre NewDispatcher = Some s" and open_: "\<not> dp_closed s"
    and mid: "dispatch_run env can_send (DSubmit i True pkt # acts) s = Some s1" and other: "list_all (leaves i) acts"
    and final: "rs_input r = i" "rs_done r" "dispatch_run env can_send [DRecv r, DConvert ids] s1 = Some s2"
    and ids: "distinct (submitted (pre @ DSubmit i True pkt # acts))" "i \<noteq> []"
  shows "dp_done s2 (dp_next s) = Some (Inr (fst (convert_results (de_session env) (de_known env) (de_decode env)
      (request_of (de_session env) (de_serverPort env) i pkt) (meta_string (pk_meta pkt) ''conn_id'') (meta_string (pk_meta pkt) ''source'')
      ids 0 (results_for i acts) (dp_index s1))))"
proof -
  have all: "dispatch_run env can_send (pre @ DSubmit i True pkt # acts) NewDispatcher = Some s1"
    unfolding dispatch_run_append before using mid by simp
  have ok1: "futures_ok s1" by (rule futures_ok_run [OF all futures_ok_New ids(1)]) (simp add: NewDispatcher_def)
  let ?req = "request_of (de_session env) (de_serverPort env) i pkt"
  let ?p = "pending_of ?req pkt (dp_next s)"
  have run: "dispatch_run env can_send acts (snd (Submit env i True pkt s)) = Some s1"
    using mid by (auto split: if_splits)
  have p: "map_of (dp_pending s1) i = Some (?p\<lparr>pi_results := results_for i acts\<rparr>)"
    using results_collected [OF run other ids(2), of ?p] open_ by (simp add: Submit_def update_conv' pending_of_def)
  then have "dp_next s \<in> set (in_flight s1)" by (force simp: in_flight_def pending_of_def dest: map_of_SomeD)
  then have n: "dp_done s1 (dp_next s) = None" using ok1 by (simp add: futures_ok_def)
  have "dp_recv s1 = RecvReady" using final(3) by (auto split: if_splits)
  then show ?thesis
    using final p n ids(2)
    by (auto simp: recv_response_def recv_resolve_def future_resolve_def pending_of_def convertResultsToEvents_def split: prod.splits)
qed

definition part_response :: "string \<Rightarrow> decode_response" where
  "part_response i = (done_response i)\<lparr>rs_done := False, rs_type := ''t''\<rparr>"

theorem future_gets_its_results_witness:
  "\<exists>s1 s2 evs. dispatch_run null_env (\<lambda>s. dp_recv s = RecvReady) [DSubmit ''2'' True tcp_packet, DSubmit ''1'' True tcp_packet,
       DRecv (part_response ''1''), DRecv (part_response ''2'')] NewDispatcher = Some s1
     \<and> dispatch_run null_env (\<lambda>s. dp_recv s = RecvReady) [DRecv (done_response ''1''), DConvert (\<lambda>_. ''e'')] s1 = Some s2
     \<and> dp_done s2 1 = Some (Inr evs) \<and> length evs = 1"
proof -
  let ?c = "\<lambda>s. dp_recv s = RecvReady" and ?acts = "[DRecv (part_response ''1''), DRecv (part_response ''2'')]"
  have "\<exists>s s1 s2. dispatch_run null_env ?c [DSubmit ''2'' True tcp_packet] NewDispatcher = Some s \<and> \<not> dp_closed s \<and> dp_next s = 1
      \<and> dispatch_run null_env ?c (DSubmit ''1'' True tcp_packet # ?acts) s = Some s1
      \<and> dispatch_run null_env ?c [DRecv (done_response ''1''), DConvert (\<lambda>_. ''e'')] s1 = Some s2"
    by (simp add: NewDispatcher_def Submit_def recv_response_def part_response_def done_response_def tcp_packet_def pending_of_def recv_resolve_def)
  then obtain s s1 s2 where s: "dispatch_run null_env ?c [DSubmit ''2'' True tcp_packet] NewDispatcher = Some s" "\<not> dp_closed s" "dp_next s = 1"
      "dispatch_run null_env ?c (DSubmit ''1'' True tcp_packet # ?acts) s = Some s1"
      "dispatch_run null_env ?c [DRecv (done_response ''1''), DConvert (\<lambda>_. ''e'')] s1 = Some s2" by blast
  have r: "dispatch_run null_env ?c ([DSubmit ''2'' True tcp_packet] @ DSubmit ''1'' True tcp_packet # ?acts) NewDispatcher = Some s1"
    unfolding dispatch_run_append s(1) using s(4) by simp
  show ?thesis
    using future_gets_its_results [OF s(1,2,4) _ _ _ s(5)] r s(3,5)
    by (simp add: part_response_def done_response_def null_env_def UnmarshalValueMsgpack_def Let_def split: prod.splits)
qed

section \<open>Flows and causes\<close>

lemma str_less_linear: "str_less s t \<Longrightarrow> \<not> str_less t s" "\<not> str_less s t \<Longrightarrow> \<not> str_less t s \<Longrightarrow> s = t"
proof -
  have inj: "char_byte c = char_byte d \<Longrightarrow> c = d" for c d using byte_char_byte by metis
  show "str_less s t \<Longrightarrow> \<not> str_less t s" by (induction s t rule: str_less.induct) auto
  show "\<not> str_less s t \<Longrightarrow> \<not> str_less t s \<Longrightarrow> s = t"
    by (induction s t rule: str_less.induct) (auto simp: not_less intro: inj, case_tac s, auto)
qed

text \<open>A flow has one identifier, and a connection one name, in both directions.\<close>

lemma flow_both_ways: "FlowIDFromEndpoints dst src protocol = FlowIDFromEndpoints src dst protocol"
  using str_less_linear [of src dst] str_less_linear [of dst src] by (auto simp: FlowIDFromEndpoints_def)

lemma conn_both_ways:
  assumes "pk_src q = pk_dst p" "pk_dst q = pk_src p" "pk_protocol q = pk_protocol p" "pk_meta q = pk_meta p"
  shows "pk_meta (deriveConnID q) = pk_meta (deriveConnID p)"
  using assms str_less_linear [of "ap_text (pk_src p)" "ap_text (pk_dst p)"] str_less_linear [of "ap_text (pk_dst p)" "ap_text (pk_src p)"]
  by (auto simp: deriveConnID_def Let_def)

lemma deriveConnID_idem: "deriveConnID (deriveConnID p) = deriveConnID p"
  by (auto simp: deriveConnID_def Let_def meta_string_def update_conv' split: prod.splits if_splits)

text \<open>The hash keeps texts apart that differ in one byte.\<close>

lemma fnv64_step_inject: "fnv64_step h b = fnv64_step h' b' \<longleftrightarrow> h XOR ucast b = h' XOR ucast b'"
proof
  have "(1099511628211 * 14886173955864302971 :: 64 word) = 1" by simp
  then have inv: "(x * 1099511628211) * 14886173955864302971 = x" for x :: "64 word" by (simp only: mult.assoc mult_1_right)
  assume "fnv64_step h b = fnv64_step h' b'"
  then show "h XOR ucast b = h' XOR ucast b'" unfolding fnv64_step_def using inv by metis
qed (simp add: fnv64_step_def)

lemma fnv64_fold_inject: "foldl fnv64_step h bs = foldl fnv64_step h' bs \<longleftrightarrow> h = h'"
proof (induction bs arbitrary: h h')
  case (Cons b bs)
  have "(x XOR ucast b) XOR ucast b = x" for x :: "64 word" by (simp add: xor.assoc)
  then have "h XOR ucast b = h' XOR ucast b \<longleftrightarrow> h = h'" by metis
  with Cons show ?case by (simp add: fnv64_step_inject)
qed simp

lemma fnv64a_one_byte: "fnv64a (xs @ b # ys) = fnv64a (xs @ c # ys) \<longleftrightarrow> b = c"
proof -
  have u: "uint (ucast x :: 64 word) = uint x" for x :: byte by (rule uint_up_ucast) (simp add: is_up)
  have b: "(ucast b :: 64 word) = ucast c \<longleftrightarrow> b = c" using u [of b] u [of c] by (metis word_uint_eq_iff)
  let ?h = "foldl fnv64_step 14695981039346656037 xs"
  have "?h XOR (?h XOR x) = x" for x by (simp add: xor.assoc [symmetric])
  then have "?h XOR ucast b = ?h XOR ucast c \<longleftrightarrow> (ucast b :: 64 word) = ucast c" by metis
  then show ?thesis by (simp add: fnv64a_def fnv64_fold_inject fnv64_step_inject b)
qed

lemma strip_pairs:
  "StripReqRespSuffix (n @ ''Request'') = n" "StripReqRespSuffix (n @ ''Response'') = n"
  "StripReqRespSuffix (n @ ''Req'') = n" "StripReqRespSuffix (n @ ''Resp'') = n"
  by (simp_all add: StripReqRespSuffix_def HasSuffix_def)

text \<open>Only the very first result can register the cause of later requests: if it is an error, no event of the request does, contrary
  to the comment that the first event without an error is registered.\<close>

lemma event_of_result_sel:
  "0 < i \<Longrightarrow> snd (event_of_result session known req connID src eid i r v cix) = cix"
  "ec_ordinal (ev_context (fst (event_of_result session known req connID src eid i r v cix))) = of_nat i"
  by (simp_all add: event_of_result_def Let_def NewEventWithTime_def WithCorrelation_def WithCausation_def WithTrace_def split: option.split)

lemma convert_later_keeps_index: "0 < i \<Longrightarrow> snd (convert_results session known dec req connID src ids i rs cix) = cix"
  by (induction rs arbitrary: i) (auto simp: event_of_result_sel case_prod_unfold Let_def split: sum.split)

lemma first_error_registers_nothing:
  "rs_error r \<noteq> [] \<Longrightarrow> snd (convert_results session known dec req connID src ids 0 (r # rs) cix) = cix"
  by (simp add: convert_later_keeps_index)

text \<open>The events of a request carry the positions of the results they come from, errors counted.\<close>

lemma convert_ordinals:
  "map (ec_ordinal \<circ> ev_context) (fst (convert_results session known dec req connID src ids i rs cix))
    = map (of_nat \<circ> fst) (filter (\<lambda>(k, r). rs_error r = [] \<and> (\<exists>v. UnmarshalValueMsgpack dec (rs_payload r) = Inr v)) (enumerate i rs))"
  by (induction rs arbitrary: i cix) (auto simp: event_of_result_sel case_prod_unfold Let_def split: sum.split)

end
