(* ===== verification/Proxy_Ports.thy ===== *)
theory Proxy_Ports imports Gt_Base "HOL-Library.Multiset" begin

text \<open>
  The port allocator of \<open>cmd/gt-pipeline/proxy_lease.go\<close>, and what its users rely on as the locale \<open>pool\<close>: whoever takes
  a port is the only one to hold it until it is given back.
\<close>

section \<open>Port ranges\<close>

record port_range =
  pr_base :: nat
  pr_max :: nat
  pr_used :: "nat set"
  pr_cursor :: nat

definition newPortRange :: "nat \<Rightarrow> nat \<Rightarrow> port_range" where
  "newPortRange base mx = \<lparr>pr_base = base, pr_max = mx, pr_used = {}, pr_cursor = 0\<rparr>"

text \<open>The loop over \<open>i\<close>: \<open>k\<close> ports are still to be tried.\<close>

fun search_port :: "port_range \<Rightarrow> nat \<Rightarrow> nat \<Rightarrow> nat \<Rightarrow> (nat \<times> nat) option" where
  "search_port pr n i 0 = None"
| "search_port pr n i (Suc k) =
    (let port = pr_base pr + (pr_cursor pr + i) mod n in
     if port \<notin> pr_used pr then Some (port, i) else search_port pr n (Suc i) k)"

definition allocate :: "port_range \<Rightarrow> nat option \<times> port_range" where
  "allocate pr =
    (let n = pr_max pr + 1 - pr_base pr in
     (case search_port pr n 0 n of
        None \<Rightarrow> (None, pr)
      | Some (port, i) \<Rightarrow> (Some port, pr\<lparr>pr_used := insert port (pr_used pr), pr_cursor := (pr_cursor pr + i + 1) mod n\<rparr>)))"

definition reserve :: "nat \<Rightarrow> port_range \<Rightarrow> bool \<times> port_range" where
  "reserve port pr =
    (if port < pr_base pr \<or> pr_max pr < port then (False, pr)
     else if port \<in> pr_used pr then (False, pr)
     else (True, pr\<lparr>pr_used := insert port (pr_used pr)\<rparr>))"

definition release :: "nat \<Rightarrow> port_range \<Rightarrow> port_range" where
  "release port pr = pr\<lparr>pr_used := pr_used pr - {port}\<rparr>"

definition port_span :: "port_range \<Rightarrow> nat set" where "port_span pr = {pr_base pr .. pr_max pr}"

section \<open>What allocation finds\<close>

lemma search_port_Some:
  "search_port pr n i k = Some (p, j) \<Longrightarrow> p \<notin> pr_used pr \<and> p = pr_base pr + (pr_cursor pr + j) mod n \<and> i \<le> j \<and> j < i + k"
  by (induction k arbitrary: i) (auto simp: Let_def split: if_splits dest: Suc_leD, (fastforce dest: Suc_leD)+)

lemma search_port_None:
  "search_port pr n i k = None \<longleftrightarrow> (\<forall>j. i \<le> j \<and> j < i + k \<longrightarrow> pr_base pr + (pr_cursor pr + j) mod n \<in> pr_used pr)"
proof (induction k arbitrary: i)
  case (Suc k)
  have "(\<forall>j. i \<le> j \<and> j < i + Suc k \<longrightarrow> Q j) \<longleftrightarrow> Q i \<and> (\<forall>j. Suc i \<le> j \<and> j < Suc i + k \<longrightarrow> Q j)" for Q
    by (metis Suc_leI add_Suc add_Suc_right le_eq_less_or_eq le_less_trans less_add_Suc1 order_refl Suc_le_lessD)
  then show ?case using Suc [of "Suc i"] by (simp add: Let_def)
qed auto

lemma rotation_covers: "r < n \<Longrightarrow> \<exists>j < n. (c + j) mod n = (r :: nat)"
proof -
  assume r: "r < n"
  let ?j = "(r + (n - c mod n)) mod n"
  have "(c + ?j) mod n = (c mod n + (r + (n - c mod n))) mod n" by (metis mod_add_left_eq mod_add_right_eq)
  also have "\<dots> = (r + n) mod n" using r mod_less_divisor [of n c] by (intro arg_cong [of _ _ "\<lambda>x. x mod n"]) linarith
  finally have "(c + ?j) mod n = r" using r by simp
  moreover have "?j < n" using r by simp
  ultimately show ?thesis by blast
qed

lemma allocate_Some:
  assumes "allocate pr = (Some p, pr')"
  shows "p \<in> port_span pr" "p \<notin> pr_used pr" "pr_used pr' = insert p (pr_used pr)" "port_span pr' = port_span pr"
proof -
  let ?n = "pr_max pr + 1 - pr_base pr"
  obtain i where i: "search_port pr ?n 0 ?n = Some (p, i)"
      and pr': "pr' = pr\<lparr>pr_used := insert p (pr_used pr), pr_cursor := (pr_cursor pr + i + 1) mod ?n\<rparr>"
    using assms by (auto simp: allocate_def Let_def split: option.splits prod.splits)
  have s: "p \<notin> pr_used pr" "p = pr_base pr + (pr_cursor pr + i) mod ?n" "i < 0 + ?n" using search_port_Some [OF i] by blast+
  show "p \<notin> pr_used pr" by (rule s(1))
  show "pr_used pr' = insert p (pr_used pr)" "port_span pr' = port_span pr" by (simp_all add: pr' port_span_def)
  have "(pr_cursor pr + i) mod ?n < ?n" using s(3) by (intro mod_less_divisor) simp
  then show "p \<in> port_span pr" using s(2) by (simp add: port_span_def)
qed

lemma allocate_None: "fst (allocate pr) = None \<longleftrightarrow> port_span pr \<subseteq> pr_used pr"
proof -
  let ?n = "pr_max pr + 1 - pr_base pr"
  have "fst (allocate pr) = None \<longleftrightarrow> search_port pr ?n 0 ?n = None" by (auto simp: allocate_def Let_def split: option.split)
  also have "\<dots> \<longleftrightarrow> (\<forall>j < ?n. pr_base pr + (pr_cursor pr + j) mod ?n \<in> pr_used pr)" by (simp add: search_port_None)
  also have "\<dots> \<longleftrightarrow> (\<forall>r < ?n. pr_base pr + r \<in> pr_used pr)"
    using rotation_covers [of _ ?n "pr_cursor pr"] by (metis mod_less_divisor gr_implies_not0 not_gr_zero)
  also have "\<dots> \<longleftrightarrow> port_span pr \<subseteq> pr_used pr"
  proof
    assume a: "\<forall>r < ?n. pr_base pr + r \<in> pr_used pr"
    show "port_span pr \<subseteq> pr_used pr"
    proof
      fix p assume p: "p \<in> port_span pr"
      then have "p - pr_base pr < ?n" by (auto simp: port_span_def)
      with a have "pr_base pr + (p - pr_base pr) \<in> pr_used pr" by blast
      with p show "p \<in> pr_used pr" by (simp add: port_span_def)
    qed
  qed (auto simp: port_span_def)
  finally show ?thesis .
qed

lemma allocate_keeps: "allocate pr = (None, pr') \<Longrightarrow> pr' = pr"
  by (auto simp: allocate_def Let_def split: option.splits)

section \<open>Pools\<close>

locale pool =
  fixes alloc :: "'s \<Rightarrow> 'p option \<times> 's" and claim :: "'p \<Rightarrow> 's \<Rightarrow> bool \<times> 's" and give :: "'p \<Rightarrow> 's \<Rightarrow> 's" and taken :: "'s \<Rightarrow> 'p set"
  assumes alloc_new: "alloc s = (Some p, s') \<Longrightarrow> p \<notin> taken s \<and> taken s' = insert p (taken s)"
    and alloc_none: "alloc s = (None, s') \<Longrightarrow> s' = s"
    and claim_new: "claim p s = (True, s') \<Longrightarrow> p \<notin> taken s \<and> taken s' = insert p (taken s)"
    and claim_none: "claim p s = (False, s') \<Longrightarrow> s' = s"
    and taken_give: "taken (give p s) = taken s - {p}"
begin

text \<open>\<open>held\<close> lists who holds what; nobody holds a thing twice, and all of it is marked as taken.\<close>

definition excl :: "'s \<Rightarrow> 'p list \<Rightarrow> bool" where
  "excl s held \<longleftrightarrow> distinct held \<and> set held \<subseteq> taken s"

lemma excl_mset: "excl s held \<Longrightarrow> mset held' = mset held \<Longrightarrow> excl s held'"
  unfolding excl_def by (metis mset_eq_imp_distinct_iff mset_eq_setD)

lemma excl_sub:
  assumes "excl s held" "mset held' \<subseteq># mset held"
  shows "excl s held'"
proof -
  obtain r where r: "mset held = mset (held' @ r)"
    using assms(2) by (metis ex_mset mset_append subset_mset.add_diff_inverse)
  then have "distinct (held' @ r)" using assms(1) by (metis excl_def mset_eq_imp_distinct_iff)
  moreover have "set held = set (held' @ r)" using r by (rule mset_eq_setD)
  ultimately show ?thesis using assms(1) by (simp add: excl_def)
qed

lemma excl_alloc: "excl s held \<Longrightarrow> alloc s = (Some p, s') \<Longrightarrow> excl s' (p # held)"
  using alloc_new by (fastforce simp: excl_def)

lemma excl_claim: "excl s held \<Longrightarrow> claim p s = (True, s') \<Longrightarrow> excl s' (p # held)"
  using claim_new by (fastforce simp: excl_def)

lemma excl_give: "excl s (p # held) \<Longrightarrow> excl (give p s) held"
  by (auto simp: excl_def taken_give)

lemma excl_give_other: "excl s held \<Longrightarrow> p \<notin> set held \<Longrightarrow> excl (give p s) held"
  by (auto simp: excl_def taken_give)

lemma taken_all: "taken (fold give ps s) = taken s - set ps"
  by (induction ps arbitrary: s) (auto simp: taken_give)

end

interpretation ports: pool allocate reserve release pr_used
  by unfold_locales (auto simp: reserve_def release_def split: if_splits dest: allocate_Some allocate_keeps)

end
