(* ===== verification/Proxy_Lease.thy ===== *)
theory Proxy_Lease imports Proxy_Ports begin

text \<open>
  Proxy leases (\<open>cmd/gt-pipeline/proxy_lease.go\<close>): an exit with fixed ports, on which captures start and stop.  The critical
  sections of \<open>leaseMu\<close> are functions; the handlers compose them with the outcomes of what they call (probing ports,
  processes, sessions, the control client), which are arguments.  A lease is shared by pointer: its object stays in \<open>lv_objs\<close>
  when it leaves the table.
\<close>

section \<open>State\<close>

record lease =
  ls_id :: string
  ls_owner :: string
  ls_project :: string
  ls_plugin :: string
  ls_pluginOwners :: "string list"
  ls_hosts :: "string list"
  ls_ports :: "int list"
  ls_device :: string
  ls_agentPort :: nat
  ls_ctrlPort :: nat
  ls_grpcPort :: nat
  ls_sticky :: bool
  ls_session :: string
  ls_lastCapture :: int
  ls_captureCount :: nat
  ls_created :: int
  ls_running :: bool

record lease_service =
  lv_objs :: "string \<rightharpoonup> lease"
  lv_live :: "string list"
  lv_agentPorts :: port_range
  lv_grpcPorts :: port_range
  lv_ctrlPorts :: port_range
  lv_sticky :: "string \<rightharpoonup> nat"

definition maxLeasesPerOwner :: nat where "maxLeasesPerOwner = 5"

definition newLeaseService :: lease_service where
  "newLeaseService = \<lparr>lv_objs = Map.empty, lv_live = [], lv_agentPorts = newPortRange 12100 12199,
     lv_grpcPorts = newPortRange 19100 19199, lv_ctrlPorts = newPortRange 19500 19599, lv_sticky = Map.empty\<rparr>"

definition stickyKey :: "string \<Rightarrow> string \<Rightarrow> string" where "stickyKey owner device = owner @ ''|'' @ device"

definition lease_owner :: "lease_service \<Rightarrow> string \<Rightarrow> string" where
  "lease_owner s i = (case lv_objs s i of None \<Rightarrow> [] | Some l \<Rightarrow> ls_owner l)"

definition countLeases :: "string \<Rightarrow> lease_service \<Rightarrow> nat" where
  "countLeases owner s = length (filter (\<lambda>i. lease_owner s i = owner) (lv_live s))"

definition lease_put :: "lease \<Rightarrow> lease_service \<Rightarrow> lease_service" where
  "lease_put l s = s\<lparr>lv_objs := (lv_objs s)(ls_id l \<mapsto> l)\<rparr>"

section \<open>Critical sections\<close>

definition give_agent :: "nat \<Rightarrow> lease_service \<Rightarrow> lease_service" where
  "give_agent p s = s\<lparr>lv_agentPorts := release p (lv_agentPorts s)\<rparr>"
definition give_ctrl :: "nat \<Rightarrow> lease_service \<Rightarrow> lease_service" where
  "give_ctrl p s = s\<lparr>lv_ctrlPorts := release p (lv_ctrlPorts s)\<rparr>"
definition give_grpc :: "nat \<Rightarrow> lease_service \<Rightarrow> lease_service" where
  "give_grpc p s = s\<lparr>lv_grpcPorts := release p (lv_grpcPorts s)\<rparr>"

definition rotate_agent_port :: "lease_service \<Rightarrow> (nat \<times> bool) \<times> lease_service" where
  "rotate_agent_port s =
    (case allocate (lv_agentPorts s) of
       (None, _) \<Rightarrow> ((0, False), s)
     | (Some p, pr) \<Rightarrow> ((p, False), s\<lparr>lv_agentPorts := pr\<rparr>))"

definition allocateAgentPort :: "string \<Rightarrow> string \<Rightarrow> bool \<Rightarrow> lease_service \<Rightarrow> (nat \<times> bool) \<times> lease_service" where
  "allocateAgentPort owner device noSticky s =
    (if noSticky then rotate_agent_port s
     else (case lv_sticky s (stickyKey owner device) of
        None \<Rightarrow> rotate_agent_port s
      | Some p \<Rightarrow> (case reserve p (lv_agentPorts s) of
            (True, pr) \<Rightarrow> ((p, True), s\<lparr>lv_agentPorts := pr\<rparr>)
          | (False, _) \<Rightarrow> rotate_agent_port s)))"

text \<open>Step 1 of \<open>CreateProxyLease\<close>: both ports, or none.  An exhausted agent range gives port 0.\<close>

definition take_ports :: "string \<Rightarrow> string \<Rightarrow> bool \<Rightarrow> lease_service \<Rightarrow> (nat \<times> bool \<times> nat) option \<times> lease_service" where
  "take_ports owner device noSticky s =
    (let ((agentPort, sticky), s1) = allocateAgentPort owner device noSticky s in
     (case allocate (lv_ctrlPorts s1) of
        (None, _) \<Rightarrow> (None, give_agent agentPort s1)
      | (Some ctrlPort, pr) \<Rightarrow> (Some (agentPort, sticky, ctrlPort), s1\<lparr>lv_ctrlPorts := pr\<rparr>)))"

text \<open>Step 5: the limit again, then the table and the memory of ports.\<close>

definition insert_lease :: "lease \<Rightarrow> lease_service \<Rightarrow> bool \<times> lease_service" where
  "insert_lease l s =
    (if maxLeasesPerOwner \<le> countLeases (ls_owner l) s then (False, s)
     else (True, (lease_put l s)\<lparr>lv_live := lv_live s @ [ls_id l],
        lv_sticky := (if ls_device l \<noteq> [] then (lv_sticky s)(stickyKey (ls_owner l) (ls_device l) \<mapsto> ls_agentPort l) else lv_sticky s)\<rparr>))"

datatype lease_err =
  TooManyLeases | PortsExhausted | PortNotBindable | SpawnFailed | ControlNotReady | LeaseNotFound | AlreadyCapturing
| AgentNotRunning | SessionFailed | MobileNotReady | AgentRefused | NotCapturing | StopFailed

definition begin_capture :: "string \<Rightarrow> lease_service \<Rightarrow> (lease_err + nat) \<times> lease_service" where
  "begin_capture i s =
    (case lv_objs s i of None \<Rightarrow> (Inl LeaseNotFound, s)
     | Some l \<Rightarrow>
       (if ls_session l \<noteq> [] then (Inl AlreadyCapturing, s)
        else if \<not> ls_running l then (Inl AgentNotRunning, s)
        else (case allocate (lv_grpcPorts s) of
            (None, _) \<Rightarrow> (Inl PortsExhausted, s)
          | (Some p, pr) \<Rightarrow> (Inr p, s\<lparr>lv_grpcPorts := pr\<rparr>))))"

definition commit_capture :: "string \<Rightarrow> string \<Rightarrow> nat \<Rightarrow> int \<Rightarrow> lease_service \<Rightarrow> lease_service" where
  "commit_capture i session grpcPort now s =
    (case lv_objs s i of None \<Rightarrow> s
     | Some l \<Rightarrow> s\<lparr>lv_objs := (lv_objs s)(i \<mapsto> l\<lparr>ls_session := session, ls_grpcPort := grpcPort,
          ls_captureCount := ls_captureCount l + 1, ls_lastCapture := now\<rparr>)\<rparr>)"

definition lease_session :: "lease_service \<Rightarrow> string \<Rightarrow> string" where
  "lease_session s i = (case lv_objs s i of None \<Rightarrow> [] | Some l \<Rightarrow> ls_session l)"

text \<open>The locked half of \<open>clearLeaseCapture\<close>, and the port to give back afterwards.  Captures have names of their own, so at
  most one lease has the one looked for.\<close>

definition clear_locked :: "string \<Rightarrow> int \<Rightarrow> lease_service \<Rightarrow> nat option \<times> lease_service" where
  "clear_locked session now s =
    (case filter (\<lambda>i. lease_session s i = session) (lv_live s) of
       [] \<Rightarrow> (None, s)
     | i # _ \<Rightarrow> (case lv_objs s i of None \<Rightarrow> (None, s)
         | Some l \<Rightarrow> (Some (ls_grpcPort l),
             s\<lparr>lv_objs := (lv_objs s)(i \<mapsto> l\<lparr>ls_session := [], ls_grpcPort := 0, ls_lastCapture := now\<rparr>)\<rparr>)))"

definition clearLeaseCapture :: "string \<Rightarrow> int \<Rightarrow> lease_service \<Rightarrow> lease_service" where
  "clearLeaseCapture session now s =
    (case clear_locked session now s of (None, s1) \<Rightarrow> s1 | (Some p, s1) \<Rightarrow> give_grpc p s1)"

text \<open>The locked half of \<open>reclaimLease\<close>; the agent of a lease that leaves the table is stopped.\<close>

definition remove_lease :: "string \<Rightarrow> lease_service \<Rightarrow> lease option \<times> lease_service" where
  "remove_lease i s =
    (if i \<notin> set (lv_live s) then (None, s)
     else (lv_objs s i, s\<lparr>lv_live := removeAll i (lv_live s)\<rparr>))"

definition stop_agent :: "string \<Rightarrow> lease_service \<Rightarrow> lease_service" where
  "stop_agent i s = (case lv_objs s i of None \<Rightarrow> s | Some l \<Rightarrow> s\<lparr>lv_objs := (lv_objs s)(i \<mapsto> l\<lparr>ls_running := False\<rparr>)\<rparr>)"

definition give_all :: "lease \<Rightarrow> lease_service \<Rightarrow> lease_service" where
  "give_all l s =
    (let s1 = give_ctrl (ls_ctrlPort l) (give_agent (ls_agentPort l) (stop_agent (ls_id l) s))
     in if 0 < ls_grpcPort l then give_grpc (ls_grpcPort l) s1 else s1)"

definition reclaimLease :: "string \<Rightarrow> lease_service \<Rightarrow> lease_service" where
  "reclaimLease i s = (case remove_lease i s of (None, s1) \<Rightarrow> s1 | (Some l, s1) \<Rightarrow> give_all l s1)"

definition CleanupProxyLeases :: "lease_service \<Rightarrow> lease_service" where
  "CleanupProxyLeases s =
    fold (\<lambda>i s1. case lv_objs s i of None \<Rightarrow> s1 | Some l \<Rightarrow> give_all l s1) (lv_live s) (s\<lparr>lv_live := []\<rparr>)"

section \<open>Who sees a lease\<close>

record lease_caller =
  lc_owner :: string
  lc_admin :: bool

definition getLeaseForOwner :: "lease_caller \<Rightarrow> string \<Rightarrow> lease_service \<Rightarrow> lease option" where
  "getLeaseForOwner c i s =
    (if i \<notin> set (lv_live s) then None
     else (case lv_objs s i of None \<Rightarrow> None
       | Some l \<Rightarrow> (if lc_admin c then Some l else if ls_owner l = lc_owner c then Some l else None)))"

definition lease_listed :: "lease_caller \<Rightarrow> lease \<Rightarrow> bool" where
  "lease_listed c l =
    (if lc_admin c then True
     else if lc_owner c = [] then ls_owner l = []
     else ls_owner l = [] \<or> ls_owner l = lc_owner c)"

definition ListProxyLeases :: "lease_caller \<Rightarrow> lease_service \<Rightarrow> lease list" where
  "ListProxyLeases c s = filter (lease_listed c) (List.map_filter (lv_objs s) (lv_live s))"

section \<open>Handlers\<close>

record create_request =
  cq_owner :: string
  cq_device :: string
  cq_project :: string
  cq_plugin :: string
  cq_pluginOwners :: "string list"
  cq_hosts :: "string list"
  cq_ports :: "int list"
  cq_noSticky :: bool
  cq_noAutoStart :: bool

text \<open>The outcomes of a creation, and those of starting a capture.  \<open>sx_stop\<close> is what \<open>StopSession\<close> does when the start is
  undone: \<open>Stopped\<close> sessions run \<open>finalizeTask\<close>, which clears the lease.\<close>

record create_env =
  cx_agentFree :: bool
  cx_ctrlFree :: bool
  cx_spawned :: bool
  cx_running :: bool
  cx_ready :: bool
  cx_id :: string
  cx_now :: int

datatype stop_outcome = Stopped | NoActiveCapture | StopTimeout

record start_env =
  sx_grpcFree :: bool
  sx_session :: "string option"
  sx_ready :: bool
  sx_told :: bool
  sx_stop :: stop_outcome
  sx_now :: int

definition new_lease :: "create_request \<Rightarrow> create_env \<Rightarrow> nat \<Rightarrow> bool \<Rightarrow> nat \<Rightarrow> lease" where
  "new_lease req e agentPort sticky ctrlPort =
    \<lparr>ls_id = cx_id e, ls_owner = cq_owner req, ls_project = cq_project req, ls_plugin = cq_plugin req,
     ls_pluginOwners = cq_pluginOwners req, ls_hosts = cq_hosts req, ls_ports = cq_ports req, ls_device = cq_device req,
     ls_agentPort = agentPort, ls_ctrlPort = ctrlPort, ls_grpcPort = 0, ls_sticky = sticky, ls_session = [], ls_lastCapture = 0,
     ls_captureCount = 0, ls_created = cx_now e, ls_running = True\<rparr>"

definition finalize_session :: "stop_outcome \<Rightarrow> string \<Rightarrow> int \<Rightarrow> lease_service \<Rightarrow> lease_service" where
  "finalize_session out session now s = (if out = Stopped then clearLeaseCapture session now s else s)"

definition StartLeaseCapture :: "lease_caller \<Rightarrow> string \<Rightarrow> start_env \<Rightarrow> lease_service \<Rightarrow> (lease_err + string) \<times> lease_service" where
  "StartLeaseCapture c i e s =
    (case getLeaseForOwner c i s of None \<Rightarrow> (Inl LeaseNotFound, s)
     | Some l \<Rightarrow>
       (case begin_capture i s of (Inl err, s1) \<Rightarrow> (Inl err, s1)
        | (Inr p, s1) \<Rightarrow>
          (if \<not> sx_grpcFree e then (Inl PortNotBindable, give_grpc p s1)
           else (case sx_session e of None \<Rightarrow> (Inl SessionFailed, give_grpc p s1)
             | Some session \<Rightarrow>
               (if \<not> sx_ready e then (Inl MobileNotReady, give_grpc p (finalize_session (sx_stop e) session (sx_now e) s1))
                else if \<not> sx_told e then (Inl AgentRefused, give_grpc p (finalize_session (sx_stop e) session (sx_now e) s1))
                else (Inr session, commit_capture i session p (sx_now e) s1))))))"

definition release_ports :: "nat \<Rightarrow> nat \<Rightarrow> lease_service \<Rightarrow> lease_service" where
  "release_ports agentPort ctrlPort s = give_ctrl ctrlPort (give_agent agentPort s)"

text \<open>\<open>CreateProxyLease\<close>: the lease if there is one, and the error if there is one; when only the automatic capture fails there
  are both.\<close>

definition CreateProxyLease ::
  "create_request \<Rightarrow> create_env \<Rightarrow> start_env \<Rightarrow> lease_service \<Rightarrow> (string option \<times> lease_err option) \<times> lease_service" where
  "CreateProxyLease req e se s =
    (if maxLeasesPerOwner \<le> countLeases (cq_owner req) s then ((None, Some TooManyLeases), s)
     else (case take_ports (cq_owner req) (cq_device req) (cq_noSticky req) s of
        (None, s1) \<Rightarrow> ((None, Some PortsExhausted), s1)
      | (Some (agentPort, sticky, ctrlPort), s1) \<Rightarrow>
          (if \<not> cx_agentFree e \<or> \<not> cx_ctrlFree e then ((None, Some PortNotBindable), release_ports agentPort ctrlPort s1)
           else if \<not> cx_spawned e \<or> \<not> cx_running e then ((None, Some SpawnFailed), release_ports agentPort ctrlPort s1)
           else if \<not> cx_ready e then ((None, Some ControlNotReady), release_ports agentPort ctrlPort s1)
           else (case insert_lease (new_lease req e agentPort sticky ctrlPort) s1 of
               (False, s2) \<Rightarrow> ((None, Some TooManyLeases), release_ports agentPort ctrlPort s2)
             | (True, s2) \<Rightarrow>
                 (if cq_noAutoStart req then ((Some (cx_id e), None), s2)
                  else (case StartLeaseCapture \<lparr>lc_owner = cq_owner req, lc_admin = False\<rparr> (cx_id e) se s2 of
                      (Inl err, s3) \<Rightarrow> ((Some (cx_id e), Some err), s3)
                    | (Inr _, s3) \<Rightarrow> ((Some (cx_id e), None), s3)))))))"

definition StopLeaseCapture :: "lease_caller \<Rightarrow> string \<Rightarrow> stop_outcome \<Rightarrow> int \<Rightarrow> lease_service \<Rightarrow> (lease_err + string) \<times> lease_service" where
  "StopLeaseCapture c i out now s =
    (case getLeaseForOwner c i s of None \<Rightarrow> (Inl LeaseNotFound, s)
     | Some l \<Rightarrow>
       (if ls_session l = [] then (Inl NotCapturing, s)
        else if out = StopTimeout then (Inl StopFailed, s)
        else (Inr (ls_session l), clearLeaseCapture (ls_session l) now (finalize_session out (ls_session l) now s))))"

definition ReleaseProxyLease :: "lease_caller \<Rightarrow> string \<Rightarrow> stop_outcome \<Rightarrow> int \<Rightarrow> lease_service \<Rightarrow> (lease_err + string) \<times> lease_service" where
  "ReleaseProxyLease c i out now s =
    (case getLeaseForOwner c i s of None \<Rightarrow> (Inl LeaseNotFound, s)
     | Some l \<Rightarrow>
       (if ls_session l \<noteq> [] \<and> out = StopTimeout then (Inl StopFailed, s)
        else (Inr (ls_session l),
          reclaimLease i (if ls_session l \<noteq> [] then finalize_session out (ls_session l) now s else s))))"

text \<open>The configuration of a capture.  The owners of the lease are looked up when the request names none, but the
  session is started with those of the request.\<close>

definition capture_plugin :: "lease \<Rightarrow> string \<Rightarrow> string" where
  "capture_plugin l plugin = (if plugin = [] then ls_plugin l else plugin)"

definition capture_owners :: "lease \<Rightarrow> string list \<Rightarrow> string list" where
  "capture_owners l requested = requested"

definition capture_filter :: "lease \<Rightarrow> string list \<Rightarrow> int list \<Rightarrow> string list \<times> int list" where
  "capture_filter l hosts ports = (if hosts = [] then ls_hosts l else hosts, if ports = [] then ls_ports l else ports)"

end
