(* ===== verification/Lease_Props.thy ===== *)
theory Lease_Props imports Proxy_Lease begin

text \<open>
  Leases under concurrency: requests that are between two critical sections are the operations in flight, and a step is one
  critical section of \<open>leaseMu\<close> or of a port range.  Requests, ending sessions and dying agents interleave at will.
\<close>

section \<open>Operations in flight\<close>

datatype lease_op =
  OpCreate create_request nat bool nat
| OpStart string nat
| OpGiveAgent nat
| OpGiveCtrl nat
| OpGiveGrpc nat
| OpStopAgent string
| OpDropGrpc string

record lease_world =
  lw_service :: lease_service
  lw_ops :: "lease_op list"

definition del_nth :: "nat \<Rightarrow> 'a list \<Rightarrow> 'a list" where "del_nth n xs = take n xs @ drop (Suc n) xs"

definition lease_grpc :: "lease_service \<Rightarrow> string \<Rightarrow> nat" where
  "lease_grpc s i = (case lv_objs s i of None \<Rightarrow> 0 | Some l \<Rightarrow> ls_grpcPort l)"
definition lease_agent :: "lease_service \<Rightarrow> string \<Rightarrow> nat" where
  "lease_agent s i = (case lv_objs s i of None \<Rightarrow> 0 | Some l \<Rightarrow> ls_agentPort l)"
definition lease_ctrl :: "lease_service \<Rightarrow> string \<Rightarrow> nat" where
  "lease_ctrl s i = (case lv_objs s i of None \<Rightarrow> 0 | Some l \<Rightarrow> ls_ctrlPort l)"

datatype lease_act =
  LBegin create_request
| LAbortCreate nat
| LInsert nat create_env
| LStart string
| LAbortStart nat
| LCommit nat string int
| LClear string int
| LRemove string
| LGive nat
| LAgentExit string

text \<open>\<open>None\<close> if the step is not possible.  A lease gets an identifier no other had; the numbers name operations in flight.\<close>

fun lease_step :: "lease_act \<Rightarrow> lease_world \<Rightarrow> lease_world option" where
  "lease_step (LBegin req) w =
    (case take_ports (cq_owner req) (cq_device req) (cq_noSticky req) (lw_service w) of
       (None, s1) \<Rightarrow> Some (w\<lparr>lw_service := s1\<rparr>)
     | (Some (a, sticky, c), s1) \<Rightarrow> Some \<lparr>lw_service = s1, lw_ops = OpCreate req a sticky c # lw_ops w\<rparr>)"
| "lease_step (LAbortCreate n) w =
    (if length (lw_ops w) \<le> n then None
     else (case lw_ops w ! n of
         OpCreate req a sticky c \<Rightarrow> Some (w\<lparr>lw_ops := [OpGiveAgent a, OpGiveCtrl c] @ del_nth n (lw_ops w)\<rparr>)
       | _ \<Rightarrow> None))"
| "lease_step (LInsert n e) w =
    (if length (lw_ops w) \<le> n \<or> lv_objs (lw_service w) (cx_id e) \<noteq> None then None
     else (case lw_ops w ! n of
         OpCreate req a sticky c \<Rightarrow>
           (case insert_lease (new_lease req e a sticky c) (lw_service w) of
              (False, s1) \<Rightarrow> Some \<lparr>lw_service = s1, lw_ops = [OpGiveAgent a, OpGiveCtrl c] @ del_nth n (lw_ops w)\<rparr>
            | (True, s1) \<Rightarrow> Some \<lparr>lw_service = s1, lw_ops = del_nth n (lw_ops w)\<rparr>)
       | _ \<Rightarrow> None))"
| "lease_step (LStart i) w =
    (case begin_capture i (lw_service w) of
       (Inl err, s1) \<Rightarrow> Some (w\<lparr>lw_service := s1\<rparr>)
     | (Inr p, s1) \<Rightarrow> Some \<lparr>lw_service = s1, lw_ops = OpStart i p # lw_ops w\<rparr>)"
| "lease_step (LAbortStart n) w =
    (if length (lw_ops w) \<le> n then None
     else (case lw_ops w ! n of OpStart i p \<Rightarrow> Some (w\<lparr>lw_ops := OpGiveGrpc p # del_nth n (lw_ops w)\<rparr>) | _ \<Rightarrow> None))"
| "lease_step (LCommit n session now) w =
    (if length (lw_ops w) \<le> n then None
     else (case lw_ops w ! n of
         OpStart i p \<Rightarrow> Some \<lparr>lw_service = commit_capture i session p now (lw_service w), lw_ops = del_nth n (lw_ops w)\<rparr>
       | _ \<Rightarrow> None))"
| "lease_step (LClear session now) w =
    (case clear_locked session now (lw_service w) of
       (None, s1) \<Rightarrow> Some (w\<lparr>lw_service := s1\<rparr>)
     | (Some p, s1) \<Rightarrow> Some \<lparr>lw_service = s1, lw_ops = OpGiveGrpc p # lw_ops w\<rparr>)"
| "lease_step (LRemove i) w =
    (case remove_lease i (lw_service w) of
       (None, s1) \<Rightarrow> Some (w\<lparr>lw_service := s1\<rparr>)
     | (Some l, s1) \<Rightarrow> Some \<lparr>lw_service = s1,
          lw_ops = [OpStopAgent i, OpGiveAgent (ls_agentPort l), OpGiveCtrl (ls_ctrlPort l), OpDropGrpc i] @ lw_ops w\<rparr>)"
| "lease_step (LGive n) w =
    (if length (lw_ops w) \<le> n then None
     else (let ops = del_nth n (lw_ops w); s = lw_service w in
       (case lw_ops w ! n of
          OpGiveAgent p \<Rightarrow> Some \<lparr>lw_service = give_agent p s, lw_ops = ops\<rparr>
        | OpGiveCtrl p \<Rightarrow> Some \<lparr>lw_service = give_ctrl p s, lw_ops = ops\<rparr>
        | OpGiveGrpc p \<Rightarrow> Some \<lparr>lw_service = give_grpc p s, lw_ops = ops\<rparr>
        | OpStopAgent i \<Rightarrow> Some \<lparr>lw_service = stop_agent i s, lw_ops = ops\<rparr>
        | OpDropGrpc i \<Rightarrow> Some \<lparr>lw_service = s, lw_ops = (if 0 < lease_grpc s i then [OpGiveGrpc (lease_grpc s i)] else []) @ ops\<rparr>
        | _ \<Rightarrow> None)))"
| "lease_step (LAgentExit i) w = Some (w\<lparr>lw_service := stop_agent i (lw_service w)\<rparr>)"

fun lease_run :: "lease_act list \<Rightarrow> lease_world \<Rightarrow> lease_world option" where
  "lease_run [] w = Some w"
| "lease_run (a # acts) w = (case lease_step a w of None \<Rightarrow> None | Some w' \<Rightarrow> lease_run acts w')"

definition lease_start :: lease_world where "lease_start = \<lparr>lw_service = newLeaseService, lw_ops = []\<rparr>"

section \<open>Who holds a port\<close>

fun op_agent :: "lease_op \<Rightarrow> nat list" where
  "op_agent (OpCreate req a sticky c) = [a]" | "op_agent (OpGiveAgent p) = [p]" | "op_agent _ = []"
fun op_ctrl :: "lease_op \<Rightarrow> nat list" where
  "op_ctrl (OpCreate req a sticky c) = [c]" | "op_ctrl (OpGiveCtrl p) = [p]" | "op_ctrl _ = []"
fun op_grpc :: "lease_op \<Rightarrow> nat list" where
  "op_grpc (OpStart i p) = [p]" | "op_grpc (OpGiveGrpc p) = [p]" | "op_grpc _ = []"
fun op_drop :: "lease_op \<Rightarrow> string list" where
  "op_drop (OpDropGrpc i) = [i]" | "op_drop _ = []"

definition in_ops :: "(lease_op \<Rightarrow> 'a list) \<Rightarrow> lease_op list \<Rightarrow> 'a list" where "in_ops f ops = concat (map f ops)"

definition nz :: "nat list \<Rightarrow> nat list" where "nz ps = filter (\<lambda>p. p \<noteq> 0) ps"

definition held_agent :: "lease_world \<Rightarrow> nat list" where
  "held_agent w = nz (map (lease_agent (lw_service w)) (lv_live (lw_service w)) @ in_ops op_agent (lw_ops w))"
definition held_ctrl :: "lease_world \<Rightarrow> nat list" where
  "held_ctrl w = nz (map (lease_ctrl (lw_service w)) (lv_live (lw_service w)) @ in_ops op_ctrl (lw_ops w))"

text \<open>A lease that was removed holds its capture port until that is read and given back.\<close>

definition lease_ids :: "lease_world \<Rightarrow> string list" where
  "lease_ids w = lv_live (lw_service w) @ in_ops op_drop (lw_ops w)"
definition held_grpc :: "lease_world \<Rightarrow> nat list" where
  "held_grpc w = nz (map (lease_grpc (lw_service w)) (lease_ids w) @ in_ops op_grpc (lw_ops w))"

definition leases_ok :: "lease_world \<Rightarrow> bool" where
  "leases_ok w \<longleftrightarrow> (let s = lw_service w in
     distinct (lease_ids w) \<and> (\<forall>i \<in> set (lease_ids w). lv_objs s i \<noteq> None)
     \<and> ports.excl (lv_agentPorts s) (held_agent w) \<and> ports.excl (lv_ctrlPorts s) (held_ctrl w) \<and> ports.excl (lv_grpcPorts s) (held_grpc w)
     \<and> (\<forall>owner. countLeases owner s \<le> maxLeasesPerOwner))"

section \<open>Lists of operations\<close>

lemma in_ops_simps [simp]: "in_ops f [] = []" "in_ops f (x # ops) = f x @ in_ops f ops" "in_ops f (xs @ ops) = in_ops f xs @ in_ops f ops"
  by (simp_all add: in_ops_def)

lemma mset_nz: "mset (nz ps) = filter_mset (\<lambda>p. p \<noteq> 0) (mset ps)" by (simp add: nz_def)
lemma nz_simps [simp]: "nz [] = []" "nz (p # ps) = (if p = 0 then nz ps else p # nz ps)" "nz (ps @ qs) = nz ps @ nz qs"
  by (simp_all add: nz_def)
lemma nz_zero [simp]: "0 \<notin> set (nz ps)" by (simp add: nz_def)

lemma in_ops_del: "n < length ops \<Longrightarrow> mset (in_ops f ops) = mset (f (ops ! n)) + mset (in_ops f (del_nth n ops))"
proof -
  assume n: "n < length ops"
  have "mset (in_ops f ops) = mset (in_ops f (take n ops @ ops ! n # drop (Suc n) ops))" using id_take_nth_drop [OF n] by simp
  then show ?thesis by (simp add: del_nth_def)
qed

lemma distinct_sub: "distinct xs \<Longrightarrow> mset ys \<subseteq># mset xs \<Longrightarrow> distinct ys \<and> set ys \<subseteq> set xs"
proof -
  assume d: "distinct xs" and s: "mset ys \<subseteq># mset xs"
  then obtain r where r: "mset xs = mset (ys @ r)" by (metis ex_mset mset_append subset_mset.add_diff_inverse)
  with d have "distinct (ys @ r)" by (metis mset_eq_imp_distinct_iff)
  moreover have "set xs = set (ys @ r)" using r by (rule mset_eq_setD)
  ultimately show ?thesis by simp
qed

text \<open>
  Whatever interleaves, a port is held once and an owner has at most five leases; requests that do not overlap also give
  every port back.  Overlapping starts can lose one.
\<close>

section \<open>Steps that take nothing\<close>

lemma leases_okD:
  assumes "leases_ok w"
  shows "distinct (lease_ids w)" "i \<in> set (lease_ids w) \<Longrightarrow> lv_objs (lw_service w) i \<noteq> None"
    "ports.excl (lv_agentPorts (lw_service w)) (held_agent w)" "ports.excl (lv_ctrlPorts (lw_service w)) (held_ctrl w)"
    "ports.excl (lv_grpcPorts (lw_service w)) (held_grpc w)" "countLeases owner (lw_service w) \<le> maxLeasesPerOwner"
  using assms by (simp_all add: leases_ok_def Let_def)

lemma leases_okI:
  assumes "distinct (lease_ids w)" "\<And>i. i \<in> set (lease_ids w) \<Longrightarrow> lv_objs (lw_service w) i \<noteq> None"
    "ports.excl (lv_agentPorts (lw_service w)) (held_agent w)" "ports.excl (lv_ctrlPorts (lw_service w)) (held_ctrl w)"
    "ports.excl (lv_grpcPorts (lw_service w)) (held_grpc w)" "\<And>owner. countLeases owner (lw_service w) \<le> maxLeasesPerOwner"
  shows "leases_ok w"
  using assms by (simp add: leases_ok_def Let_def)

lemma nz_mono: "mset ps \<subseteq># mset qs \<Longrightarrow> mset (nz ps) \<subseteq># mset (nz qs)"
  unfolding mset_nz by (rule multiset_filter_mono)

text \<open>A step that only moves or drops ports.\<close>

lemma leases_ok_shrink:
  assumes ok: "leases_ok w"
    and pools: "lv_agentPorts (lw_service w') = lv_agentPorts (lw_service w)" "lv_ctrlPorts (lw_service w') = lv_ctrlPorts (lw_service w)"
      "lv_grpcPorts (lw_service w') = lv_grpcPorts (lw_service w)"
    and ids: "mset (lease_ids w') \<subseteq># mset (lease_ids w)" "\<And>i. lv_objs (lw_service w) i \<noteq> None \<Longrightarrow> lv_objs (lw_service w') i \<noteq> None"
    and held: "mset (held_agent w') \<subseteq># mset (held_agent w)" "mset (held_ctrl w') \<subseteq># mset (held_ctrl w)"
      "mset (held_grpc w') \<subseteq># mset (held_grpc w)"
    and count: "\<And>owner. countLeases owner (lw_service w') \<le> countLeases owner (lw_service w)"
  shows "leases_ok w'"
proof (rule leases_okI)
  have d: "distinct (lease_ids w') \<and> set (lease_ids w') \<subseteq> set (lease_ids w)"
    by (rule distinct_sub [OF leases_okD(1) [OF ok] ids(1)])
  then show "distinct (lease_ids w')" by simp
  show "lv_objs (lw_service w') i \<noteq> None" if "i \<in> set (lease_ids w')" for i
    using d that leases_okD(2) [OF ok, of i] ids(2) [of i] by blast
  show "ports.excl (lv_agentPorts (lw_service w')) (held_agent w')" unfolding pools by (rule ports.excl_sub [OF leases_okD(3) [OF ok] held(1)])
  show "ports.excl (lv_ctrlPorts (lw_service w')) (held_ctrl w')" unfolding pools by (rule ports.excl_sub [OF leases_okD(4) [OF ok] held(2)])
  show "ports.excl (lv_grpcPorts (lw_service w')) (held_grpc w')" unfolding pools by (rule ports.excl_sub [OF leases_okD(5) [OF ok] held(3)])
  show "countLeases owner (lw_service w') \<le> maxLeasesPerOwner" for owner
    using count [of owner] leases_okD(6) [OF ok, of owner] by linarith
qed

text \<open>Only operations change: \<open>ops'\<close> holds what operation \<open>n\<close> held.\<close>

lemma leases_ok_ops:
  assumes ok: "leases_ok w" and n: "n < length (lw_ops w)" "lw_ops w ! n = oper"
    and sub: "mset (in_ops op_agent new) \<subseteq># mset (op_agent oper)" "mset (in_ops op_ctrl new) \<subseteq># mset (op_ctrl oper)"
      "mset (in_ops op_grpc new) \<subseteq># mset (op_grpc oper)" "mset (in_ops op_drop new) \<subseteq># mset (op_drop oper)"
  shows "leases_ok (w\<lparr>lw_ops := new @ del_nth n (lw_ops w)\<rparr>)"
proof (rule leases_ok_shrink [OF ok])
  have m: "mset (in_ops f (new @ del_nth n (lw_ops w))) \<subseteq># mset (in_ops f (lw_ops w))"
    if "mset (in_ops f new) \<subseteq># mset (f oper)" for f :: "lease_op \<Rightarrow> 'b list"
    using that in_ops_del [OF n(1), of f] n(2) by simp
  note m [OF sub(1)] m [OF sub(2)] m [OF sub(3)]
  then show "mset (held_agent (w\<lparr>lw_ops := new @ del_nth n (lw_ops w)\<rparr>)) \<subseteq># mset (held_agent w)"
    "mset (held_ctrl (w\<lparr>lw_ops := new @ del_nth n (lw_ops w)\<rparr>)) \<subseteq># mset (held_ctrl w)"
    unfolding held_agent_def held_ctrl_def by (auto intro!: nz_mono simp del: in_ops_simps(3))
  show "mset (lease_ids (w\<lparr>lw_ops := new @ del_nth n (lw_ops w)\<rparr>)) \<subseteq># mset (lease_ids w)"
    using sub(4) in_ops_del [OF n(1), of op_drop] n(2) by (simp add: lease_ids_def)
  have "mset (lease_ids (w\<lparr>lw_ops := new @ del_nth n (lw_ops w)\<rparr>)) \<subseteq># mset (lease_ids w)"
    using sub(4) in_ops_del [OF n(1), of op_drop] n(2) by (simp add: lease_ids_def)
  then have "mset (map (lease_grpc (lw_service w)) (lease_ids (w\<lparr>lw_ops := new @ del_nth n (lw_ops w)\<rparr>)))
      \<subseteq># mset (map (lease_grpc (lw_service w)) (lease_ids w))"
    unfolding mset_map by (rule image_mset_subseteq_mono)
  then show "mset (held_grpc (w\<lparr>lw_ops := new @ del_nth n (lw_ops w)\<rparr>)) \<subseteq># mset (held_grpc w)"
    unfolding held_grpc_def using sub(3) in_ops_del [OF n(1), of op_grpc] n(2)
    by (intro nz_mono) (simp add: subset_mset.add_mono)
qed simp_all

section \<open>Objects that change\<close>

lemma stop_agent_sel [simp]:
  "lease_agent (stop_agent i s) = lease_agent s" "lease_ctrl (stop_agent i s) = lease_ctrl s" "lease_grpc (stop_agent i s) = lease_grpc s"
  "lease_owner (stop_agent i s) = lease_owner s" "lv_live (stop_agent i s) = lv_live s" "lv_agentPorts (stop_agent i s) = lv_agentPorts s"
  "lv_ctrlPorts (stop_agent i s) = lv_ctrlPorts s" "lv_grpcPorts (stop_agent i s) = lv_grpcPorts s"
  "(lv_objs (stop_agent i s) j = None) = (lv_objs s j = None)"
  by (auto simp: stop_agent_def lease_agent_def lease_ctrl_def lease_grpc_def lease_owner_def fun_eq_iff split: option.split)

lemma commit_capture_sel [simp]:
  "lease_agent (commit_capture i c p now s) = lease_agent s" "lease_ctrl (commit_capture i c p now s) = lease_ctrl s"
  "lease_owner (commit_capture i c p now s) = lease_owner s" "lv_live (commit_capture i c p now s) = lv_live s"
  "lv_agentPorts (commit_capture i c p now s) = lv_agentPorts s" "lv_ctrlPorts (commit_capture i c p now s) = lv_ctrlPorts s"
  "lv_grpcPorts (commit_capture i c p now s) = lv_grpcPorts s" "(lv_objs (commit_capture i c p now s) j = None) = (lv_objs s j = None)"
  by (auto simp: commit_capture_def lease_agent_def lease_ctrl_def lease_grpc_def lease_owner_def fun_eq_iff split: option.split)

lemma commit_capture_grpc:
  "lease_grpc (commit_capture i c p now s) j = (if j = i \<and> lv_objs s i \<noteq> None then p else lease_grpc s j)"
  by (auto simp: commit_capture_def lease_grpc_def split: option.split)

lemma clear_locked_Some:
  assumes "clear_locked session now s = (Some p, s1)"
  obtains i where "i \<in> set (lv_live s)" "lease_session s i = session" "lv_objs s i \<noteq> None" "p = lease_grpc s i"
    "lease_grpc s1 = (lease_grpc s)(i := 0)" "lease_agent s1 = lease_agent s" "lease_ctrl s1 = lease_ctrl s" "lease_owner s1 = lease_owner s"
    "lv_live s1 = lv_live s" "lv_agentPorts s1 = lv_agentPorts s" "lv_ctrlPorts s1 = lv_ctrlPorts s" "lv_grpcPorts s1 = lv_grpcPorts s"
    "\<And>j. lv_objs s1 j = None \<longleftrightarrow> lv_objs s j = None"
proof -
  obtain i rest l where i: "filter (\<lambda>i. lease_session s i = session) (lv_live s) = i # rest" "lv_objs s i = Some l"
      and s1: "p = ls_grpcPort l" "s1 = s\<lparr>lv_objs := (lv_objs s)(i \<mapsto> l\<lparr>ls_session := [], ls_grpcPort := 0, ls_lastCapture := now\<rparr>)\<rparr>"
    using assms by (auto simp: clear_locked_def split: list.splits option.splits)
  have "i \<in> set (filter (\<lambda>i. lease_session s i = session) (lv_live s))" unfolding i(1) by simp
  with i(2) s1 that [of i] show ?thesis
    by (auto simp: lease_grpc_def lease_agent_def lease_ctrl_def lease_owner_def fun_eq_iff split: option.split)
qed

lemma clear_locked_None: "clear_locked session now s = (None, s1) \<Longrightarrow> s1 = s"
  by (auto simp: clear_locked_def split: list.splits option.splits)

lemma map_upd_sub: "distinct xs \<Longrightarrow> mset (map (f(i := p)) xs) \<subseteq># add_mset p (mset (map f xs))"
proof (induction xs)
  case (Cons x xs)
  show ?case
  proof (cases "x = i")
    case True
    then have e: "map (f(i := p)) xs = map f xs" using Cons.prems by (auto intro: map_cong)
    show ?thesis unfolding list.map mset.simps e using True by (simp add: subset_mset.le_iff_add)
  next
    case False
    then show ?thesis using Cons by (simp add: add_mset_commute [of p] del: mset_map)
  qed
qed simp

lemma map_upd_at: "distinct xs \<Longrightarrow> i \<in> set xs \<Longrightarrow> add_mset (f i) (mset (map (f(i := p)) xs)) = add_mset p (mset (map f xs))"
proof (induction xs)
  case (Cons x xs)
  show ?case
  proof (cases "x = i")
    case True
    then have e: "map (f(i := p)) xs = map f xs" using Cons.prems by (auto intro: map_cong)
    show ?thesis unfolding list.map mset.simps e using True by (simp add: subset_mset.le_iff_add)
  next
    case False
    then show ?thesis using Cons by (simp add: add_mset_commute [of "f i"] add_mset_commute [of p] del: mset_map)
  qed
qed simp

section \<open>Every step keeps ports apart\<close>

lemma leases_ok_commit:
  assumes ok: "leases_ok w" and n: "n < length (lw_ops w)" "lw_ops w ! n = OpStart i p"
  shows "leases_ok \<lparr>lw_service = commit_capture i c p now (lw_service w), lw_ops = del_nth n (lw_ops w)\<rparr>"
proof (rule leases_ok_shrink [OF ok])
  let ?s = "lw_service w" and ?ops = "del_nth n (lw_ops w)"
  let ?w = "\<lparr>lw_service = commit_capture i c p now ?s, lw_ops = ?ops\<rparr>"
  note del = in_ops_del [OF n(1)]
  show "mset (lease_ids ?w) \<subseteq># mset (lease_ids w)" using del [of op_drop] n(2) by (simp add: lease_ids_def)
  have ids: "mset (lease_ids ?w) = mset (lease_ids w)" using del [of op_drop] n(2) by (simp add: lease_ids_def)
  show "mset (held_agent ?w) \<subseteq># mset (held_agent w)" "mset (held_ctrl ?w) \<subseteq># mset (held_ctrl w)"
    using del [of op_agent] del [of op_ctrl] n(2) by (simp_all add: held_agent_def held_ctrl_def nz_def)
  have "distinct (lease_ids ?w)" using leases_okD(1) [OF ok] ids by (metis mset_eq_imp_distinct_iff)
  have g: "lease_grpc (commit_capture i c p now ?s) = (if lv_objs ?s i \<noteq> None then (lease_grpc ?s)(i := p) else lease_grpc ?s)"
    by (auto simp: commit_capture_grpc fun_eq_iff)
  have "mset (map (lease_grpc (commit_capture i c p now ?s)) (lease_ids ?w)) \<subseteq># add_mset p (mset (map (lease_grpc ?s) (lease_ids ?w)))"
    unfolding g using map_upd_sub [OF \<open>distinct (lease_ids ?w)\<close>, of "lease_grpc ?s" i p] by (simp add: subset_mset.le_iff_add)
  also have "mset (map (lease_grpc ?s) (lease_ids ?w)) = mset (map (lease_grpc ?s) (lease_ids w))" unfolding mset_map ids ..
  finally have "mset (map (lease_grpc (commit_capture i c p now ?s)) (lease_ids ?w) @ in_ops op_grpc ?ops)
      \<subseteq># mset (map (lease_grpc ?s) (lease_ids w) @ in_ops op_grpc (lw_ops w))"
    using del [of op_grpc] n(2) by (simp add: subset_mset.add_mono)
  then show "mset (held_grpc ?w) \<subseteq># mset (held_grpc w)" by (auto simp only: held_grpc_def lease_world.simps intro: nz_mono)
qed (simp_all add: countLeases_def)

lemma leases_ok_clear:
  assumes ok: "leases_ok w" and c: "clear_locked session now (lw_service w) = (Some p, s1)"
  shows "leases_ok \<lparr>lw_service = s1, lw_ops = OpGiveGrpc p # lw_ops w\<rparr>"
proof -
  obtain i where i: "i \<in> set (lv_live (lw_service w))" "p = lease_grpc (lw_service w) i"
    "lease_grpc s1 = (lease_grpc (lw_service w))(i := 0)" and same: "lease_agent s1 = lease_agent (lw_service w)"
    "lease_ctrl s1 = lease_ctrl (lw_service w)" "lease_owner s1 = lease_owner (lw_service w)"
    "lv_live s1 = lv_live (lw_service w)" "lv_agentPorts s1 = lv_agentPorts (lw_service w)" "lv_ctrlPorts s1 = lv_ctrlPorts (lw_service w)"
    "lv_grpcPorts s1 = lv_grpcPorts (lw_service w)" "\<And>j. lv_objs s1 j = None \<longleftrightarrow> lv_objs (lw_service w) j = None"
    by (rule clear_locked_Some [OF c]) blast
  let ?w = "\<lparr>lw_service = s1, lw_ops = OpGiveGrpc p # lw_ops w\<rparr>"
  have ids: "lease_ids ?w = lease_ids w" by (simp add: lease_ids_def same)
  show ?thesis
  proof (rule leases_ok_shrink [OF ok])
    have "i \<in> set (lease_ids w)" using i(1) by (simp add: lease_ids_def)
    from map_upd_at [OF leases_okD(1) [OF ok] this, of "lease_grpc (lw_service w)" 0]
    have "add_mset p (mset (map (lease_grpc s1) (lease_ids w))) = add_mset 0 (mset (map (lease_grpc (lw_service w)) (lease_ids w)))"
      by (simp add: i(2,3))
    then have "filter_mset (\<lambda>p. p \<noteq> 0) (add_mset p (mset (map (lease_grpc s1) (lease_ids w))))
        = filter_mset (\<lambda>p. p \<noteq> 0) (mset (map (lease_grpc (lw_service w)) (lease_ids w)))" by simp
    then show "mset (held_grpc ?w) \<subseteq># mset (held_grpc w)" by (auto simp: held_grpc_def ids mset_nz split: if_splits)
  qed (simp_all add: ids same held_agent_def held_ctrl_def countLeases_def)
qed

text \<open>The agent pool after step 1 of a creation: a new port, a remembered one, or none (port 0).\<close>

lemma allocateAgentPort_excl:
  assumes a: "allocateAgentPort owner device ns s = ((p, sticky), s1)" and ex: "ports.excl (lv_agentPorts s) held"
  shows "ports.excl (lv_agentPorts s1) (nz [p] @ held) \<and> (\<exists>pr. s1 = s\<lparr>lv_agentPorts := pr\<rparr>)"
proof -
  have rot: "ports.excl (lv_agentPorts s1) (nz [p] @ held) \<and> (\<exists>pr. s1 = s\<lparr>lv_agentPorts := pr\<rparr>)"
    if "rotate_agent_port s = ((p, sticky), s1)" for p sticky s1
  proof (cases "allocate (lv_agentPorts s)")
    case (Pair x pr)
    show ?thesis
    proof (cases x)
      case None
      with that Pair ex have "p = 0" "s1 = s" by (auto simp: rotate_agent_port_def)
      with ex show ?thesis by (auto intro!: exI [of _ "lv_agentPorts s"])
    next
      case (Some q)
      with that Pair have q: "p = q" "s1 = s\<lparr>lv_agentPorts := pr\<rparr>" by (auto simp: rotate_agent_port_def)
      have "ports.excl pr (q # held)" by (rule ports.excl_alloc [OF ex Pair [unfolded Some]])
      then show ?thesis by (auto simp: q elim: ports.excl_sub)
    qed
  qed
  show ?thesis
  proof (cases "ns \<or> lv_sticky s (stickyKey owner device) = None")
    case True
    then have "rotate_agent_port s = ((p, sticky), s1)" using a by (cases ns) (simp_all add: allocateAgentPort_def)
    then show ?thesis by (rule rot)
  next
    case False
    then obtain q where q: "lv_sticky s (stickyKey owner device) = Some q" by blast
    obtain b pr where r: "reserve q (lv_agentPorts s) = (b, pr)" by force
    show ?thesis
    proof (cases b)
      case bt: True
      with a False q r have s1: "p = q" "s1 = s\<lparr>lv_agentPorts := pr\<rparr>" by (simp_all add: allocateAgentPort_def)
      have "ports.excl pr (q # held)" by (rule ports.excl_claim [OF ex]) (use r bt in simp)
      then show ?thesis by (auto simp: s1 elim: ports.excl_sub)
    next
      case fb: False
      with a False q r have "rotate_agent_port s = ((p, sticky), s1)" by (simp add: allocateAgentPort_def)
      then show ?thesis by (rule rot)
    qed
  qed
qed

lemma excl_give_nz: "ports.excl pr (nz [p] @ held) \<Longrightarrow> 0 \<notin> set held \<Longrightarrow> ports.excl (release p pr) held"
  by (cases "p = 0") (auto intro: ports.excl_give ports.excl_give_other)

text \<open>What a state is worth without its agent pool.\<close>

lemma same_but_pools:
  "lease_agent (s\<lparr>lv_agentPorts := pr\<rparr>) = lease_agent s" "lease_ctrl (s\<lparr>lv_agentPorts := pr\<rparr>) = lease_ctrl s"
  "lease_grpc (s\<lparr>lv_agentPorts := pr\<rparr>) = lease_grpc s" "lease_owner (s\<lparr>lv_agentPorts := pr\<rparr>) = lease_owner s"
  "lease_agent (s\<lparr>lv_ctrlPorts := pr\<rparr>) = lease_agent s" "lease_ctrl (s\<lparr>lv_ctrlPorts := pr\<rparr>) = lease_ctrl s"
  "lease_grpc (s\<lparr>lv_ctrlPorts := pr\<rparr>) = lease_grpc s" "lease_owner (s\<lparr>lv_ctrlPorts := pr\<rparr>) = lease_owner s"
  "lease_agent (s\<lparr>lv_grpcPorts := pr\<rparr>) = lease_agent s" "lease_ctrl (s\<lparr>lv_grpcPorts := pr\<rparr>) = lease_ctrl s"
  "lease_grpc (s\<lparr>lv_grpcPorts := pr\<rparr>) = lease_grpc s" "lease_owner (s\<lparr>lv_grpcPorts := pr\<rparr>) = lease_owner s"
  by (simp_all add: lease_agent_def lease_ctrl_def lease_grpc_def lease_owner_def fun_eq_iff)

lemma take_ports_Some:
  assumes t: "take_ports owner device ns s = (Some (a, sticky, c), s1)"
    and ex: "ports.excl (lv_agentPorts s) ha" "ports.excl (lv_ctrlPorts s) hc"
  shows "ports.excl (lv_agentPorts s1) (nz [a] @ ha) \<and> ports.excl (lv_ctrlPorts s1) (nz [c] @ hc)
    \<and> (\<exists>pa pc. s1 = s\<lparr>lv_agentPorts := pa, lv_ctrlPorts := pc\<rparr>)"
proof -
  obtain s2 pr where s2: "allocateAgentPort owner device ns s = ((a, sticky), s2)" "allocate (lv_ctrlPorts s2) = (Some c, pr)"
      "s1 = s2\<lparr>lv_ctrlPorts := pr\<rparr>"
    using t by (auto simp: take_ports_def Let_def split: prod.splits option.splits)
  obtain pa where pa: "ports.excl (lv_agentPorts s2) (nz [a] @ ha)" "s2 = s\<lparr>lv_agentPorts := pa\<rparr>"
    using allocateAgentPort_excl [OF s2(1) ex(1)] by blast
  have "ports.excl pr (c # hc)" by (rule ports.excl_alloc [OF _ s2(2)]) (use ex(2) in \<open>simp add: pa(2)\<close>)
  then have "ports.excl pr (nz [c] @ hc)" by (auto elim: ports.excl_sub)
  with pa show ?thesis by (auto simp: s2(3))
qed

lemma take_ports_None:
  assumes t: "take_ports owner device ns s = (None, s1)" and ex: "ports.excl (lv_agentPorts s) ha" "0 \<notin> set ha"
  shows "ports.excl (lv_agentPorts s1) ha \<and> (\<exists>pa. s1 = s\<lparr>lv_agentPorts := pa\<rparr>)"
proof -
  obtain a sticky s2 where s2: "allocateAgentPort owner device ns s = ((a, sticky), s2)" "s1 = give_agent a s2"
    using t by (auto simp: take_ports_def Let_def split: prod.splits option.splits)
  obtain pa where pa: "ports.excl (lv_agentPorts s2) (nz [a] @ ha)" "s2 = s\<lparr>lv_agentPorts := pa\<rparr>"
    using allocateAgentPort_excl [OF s2(1) ex(1)] by blast
  show ?thesis using excl_give_nz [OF pa(1) ex(2)] pa(2) by (auto simp: s2(2) give_agent_def)
qed

lemma leases_ok_begin:
  assumes ok: "leases_ok w" and step: "lease_step (LBegin req) w = Some w'"
  shows "leases_ok w'"
proof (cases "take_ports (cq_owner req) (cq_device req) (cq_noSticky req) (lw_service w)")
  case (Pair r s1)
  have z: "0 \<notin> set (held_agent w)" by (simp add: held_agent_def)
  show ?thesis
  proof (cases r)
    case None
    obtain pa where pa: "ports.excl (lv_agentPorts s1) (held_agent w)" "s1 = (lw_service w)\<lparr>lv_agentPorts := pa\<rparr>"
      using take_ports_None [OF Pair [unfolded None] leases_okD(3) [OF ok] z] by blast
    have w': "w' = w\<lparr>lw_service := s1\<rparr>" using step Pair None by simp
    show ?thesis
      using ok pa by (simp add: leases_ok_def Let_def w' held_agent_def held_ctrl_def held_grpc_def lease_ids_def countLeases_def same_but_pools)
  next
    case (Some x)
    then obtain a sticky c where x: "r = Some (a, sticky, c)" by (cases x) auto
    have w': "w' = \<lparr>lw_service = s1, lw_ops = OpCreate req a sticky c # lw_ops w\<rparr>" using step Pair x by simp
    obtain pa pc where p: "ports.excl (lv_agentPorts s1) (nz [a] @ held_agent w)" "ports.excl (lv_ctrlPorts s1) (nz [c] @ held_ctrl w)"
        "s1 = (lw_service w)\<lparr>lv_agentPorts := pa, lv_ctrlPorts := pc\<rparr>"
      using take_ports_Some [OF Pair [unfolded x] leases_okD(3,4) [OF ok]] by blast
    have "mset (held_agent w') = mset (nz [a] @ held_agent w)" "mset (held_ctrl w') = mset (nz [c] @ held_ctrl w)"
      by (simp_all add: held_agent_def held_ctrl_def w' p(3) same_but_pools)
    then have "ports.excl (lv_agentPorts s1) (held_agent w')" "ports.excl (lv_ctrlPorts s1) (held_ctrl w')"
      using ports.excl_mset [OF p(1)] ports.excl_mset [OF p(2)] by simp_all
    then show ?thesis
      using ok p(3) by (simp add: leases_ok_def Let_def w' held_grpc_def lease_ids_def countLeases_def same_but_pools)
  qed
qed

lemma leases_ok_start:
  assumes ok: "leases_ok w" and step: "lease_step (LStart i) w = Some w'"
  shows "leases_ok w'"
proof (cases "begin_capture i (lw_service w)")
  case (Pair r s1)
  show ?thesis
  proof (cases r)
    case (Inl e)
    then have "w' = w" using step Pair by (auto simp: begin_capture_def split: option.splits if_splits prod.splits)
    with ok show ?thesis by simp
  next
    case (Inr p)
    then obtain pr where pr: "allocate (lv_grpcPorts (lw_service w)) = (Some p, pr)" "s1 = (lw_service w)\<lparr>lv_grpcPorts := pr\<rparr>"
      using Pair by (auto simp: begin_capture_def split: option.splits if_splits prod.splits)
    have w': "w' = \<lparr>lw_service = s1, lw_ops = OpStart i p # lw_ops w\<rparr>" using step Pair Inr by simp
    have "ports.excl pr (p # held_grpc w)" by (rule ports.excl_alloc [OF leases_okD(5) [OF ok] pr(1)])
    moreover have "mset (held_grpc w') \<subseteq># mset (p # held_grpc w)"
      by (simp add: held_grpc_def lease_ids_def w' pr(2) same_but_pools subset_mset.le_iff_add)
    ultimately have "ports.excl pr (held_grpc w')" by (rule ports.excl_sub)
    then show ?thesis
      using ok by (simp add: leases_ok_def Let_def w' pr(2) held_agent_def held_ctrl_def lease_ids_def countLeases_def same_but_pools)
  qed
qed

lemma lease_put_sel:
  "lease_agent (lease_put l s) = (lease_agent s)(ls_id l := ls_agentPort l)" "lease_ctrl (lease_put l s) = (lease_ctrl s)(ls_id l := ls_ctrlPort l)"
  "lease_grpc (lease_put l s) = (lease_grpc s)(ls_id l := ls_grpcPort l)" "lease_owner (lease_put l s) = (lease_owner s)(ls_id l := ls_owner l)"
  by (auto simp: lease_put_def lease_agent_def lease_ctrl_def lease_grpc_def lease_owner_def fun_eq_iff)

lemma map_fresh: "i \<notin> set xs \<Longrightarrow> map (f(i := p)) xs = map f xs"
  by (auto intro: map_cong)

lemma leases_ok_insert:
  assumes ok: "leases_ok w" and n: "n < length (lw_ops w)" "lw_ops w ! n = OpCreate req a sticky c"
    and fresh: "lv_objs (lw_service w) (cx_id e) = None"
    and ins: "insert_lease (new_lease req e a sticky c) (lw_service w) = (True, s1)"
  shows "leases_ok \<lparr>lw_service = s1, lw_ops = del_nth n (lw_ops w)\<rparr>" (is "leases_ok ?w")
proof -
  let ?s = "lw_service w" and ?l = "new_lease req e a sticky c" and ?i = "cx_id e" and ?ops = "del_nth n (lw_ops w)"
  have few: "countLeases (cq_owner req) ?s < maxLeasesPerOwner"
    and s1: "lv_live s1 = lv_live ?s @ [?i]" "lv_objs s1 = (lv_objs ?s)(?i \<mapsto> ?l)" "lv_agentPorts s1 = lv_agentPorts ?s"
      "lv_ctrlPorts s1 = lv_ctrlPorts ?s" "lv_grpcPorts s1 = lv_grpcPorts ?s"
      "lease_agent s1 = (lease_agent ?s)(?i := a)" "lease_ctrl s1 = (lease_ctrl ?s)(?i := c)" "lease_grpc s1 = (lease_grpc ?s)(?i := 0)"
      "lease_owner s1 = (lease_owner ?s)(?i := cq_owner req)"
    using ins lease_put_sel [of ?l ?s]
    by (auto simp: insert_lease_def new_lease_def lease_put_def lease_agent_def lease_ctrl_def lease_grpc_def lease_owner_def fun_eq_iff split: if_splits)
  note del = in_ops_del [OF n(1), unfolded n(2)]
  have new: "?i \<notin> set (lease_ids w)" using leases_okD(2) [OF ok, of ?i] fresh by blast
  have ids: "mset (lease_ids ?w) = mset (?i # lease_ids w)" using del [of op_drop] by (simp add: lease_ids_def s1(1))
  have nl: "?i \<notin> set (lv_live ?s)" using new by (simp add: lease_ids_def)
  show ?thesis
  proof (rule leases_okI)
    have "distinct (lease_ids ?w) = distinct (?i # lease_ids w)" using ids by (rule mset_eq_imp_distinct_iff)
    then show "distinct (lease_ids ?w)" using leases_okD(1) [OF ok] new by simp
    have "set (lease_ids ?w) = insert ?i (set (lease_ids w))" using mset_eq_setD [OF ids] by simp
    then show "lv_objs (lw_service ?w) j \<noteq> None" if "j \<in> set (lease_ids ?w)" for j
      using that leases_okD(2) [OF ok, of j] by (auto simp: s1)
    have "mset (held_agent ?w) = mset (held_agent w)" "mset (held_ctrl ?w) = mset (held_ctrl w)"
      using del [of op_agent] del [of op_ctrl] nl
      by (simp_all add: held_agent_def held_ctrl_def s1 map_fresh mset_nz del: mset_map)
    then show "ports.excl (lv_agentPorts (lw_service ?w)) (held_agent ?w)" "ports.excl (lv_ctrlPorts (lw_service ?w)) (held_ctrl ?w)"
      using ports.excl_mset [OF leases_okD(3) [OF ok]] ports.excl_mset [OF leases_okD(4) [OF ok]] by (simp_all add: s1)
    have "mset (map (lease_grpc s1) (lease_ids ?w)) = mset (map (lease_grpc s1) (?i # lease_ids w))" unfolding mset_map ids ..
    also have "\<dots> = add_mset 0 (mset (map (lease_grpc ?s) (lease_ids w)))" using new by (simp add: s1(8) map_fresh del: mset_map)
    finally have "mset (map (lease_grpc s1) (lease_ids ?w)) = add_mset 0 (mset (map (lease_grpc ?s) (lease_ids w)))" .
    then have "mset (held_grpc ?w) = mset (held_grpc w)"
      using del [of op_grpc] by (simp add: held_grpc_def mset_nz del: mset_map)
    then show "ports.excl (lv_grpcPorts (lw_service ?w)) (held_grpc ?w)"
      using ports.excl_mset [OF leases_okD(5) [OF ok]] by (simp add: s1)
    show "countLeases owner (lw_service ?w) \<le> maxLeasesPerOwner" for owner
    proof -
      have "filter (\<lambda>j. lease_owner s1 j = owner) (lv_live ?s) = filter (\<lambda>j. lease_owner ?s j = owner) (lv_live ?s)"
        using nl by (intro filter_cong) (auto simp: s1)
      then show ?thesis using few leases_okD(6) [OF ok, of owner] by (cases "owner = cq_owner req") (simp_all add: countLeases_def s1)
    qed
  qed
qed

lemma leases_ok_remove:
  assumes ok: "leases_ok w" and rm: "remove_lease i (lw_service w) = (Some l, s1)"
  shows "leases_ok \<lparr>lw_service = s1, lw_ops = [OpStopAgent i, OpGiveAgent (ls_agentPort l), OpGiveCtrl (ls_ctrlPort l), OpDropGrpc i] @ lw_ops w\<rparr>"
    (is "leases_ok ?w")
proof -
  let ?s = "lw_service w"
  have i: "i \<in> set (lv_live ?s)" "lv_objs ?s i = Some l" and s1: "s1 = ?s\<lparr>lv_live := removeAll i (lv_live ?s)\<rparr>"
    using rm by (auto simp: remove_lease_def split: if_splits)
  have d: "distinct (lv_live ?s)" using leases_okD(1) [OF ok] by (simp add: lease_ids_def)
  have rmv: "removeAll i (lv_live ?s) = remove1 i (lv_live ?s)" using d by (simp add: distinct_remove1_removeAll)
  have m: "mset (lv_live ?s) = add_mset i (mset (remove1 i (lv_live ?s)))" using i(1) by simp
  then have mf: "mset (map f (lv_live ?s)) = add_mset (f i) (mset (map f (removeAll i (lv_live ?s))))" for f :: "string \<Rightarrow> nat"
    using arg_cong [OF m, of "image_mset f"] by (simp only: mset_map rmv image_mset_add_mset)
  have sel: "lease_agent s1 = lease_agent ?s" "lease_ctrl s1 = lease_ctrl ?s" "lease_grpc s1 = lease_grpc ?s" "lease_owner s1 = lease_owner ?s"
    by (simp_all add: s1 lease_agent_def lease_ctrl_def lease_grpc_def lease_owner_def fun_eq_iff)
  have lv: "lv_live s1 = removeAll i (lv_live ?s)" by (simp add: s1)
  have fewer: "length (filter P (removeAll i xs)) \<le> length (filter P xs)" for P xs by (induction xs) auto
  have li: "lease_agent ?s i = ls_agentPort l" "lease_ctrl ?s i = ls_ctrlPort l" using i(2) by (simp_all add: lease_agent_def lease_ctrl_def)
  have ids: "mset (lease_ids ?w) = mset (lease_ids w)" using m by (simp add: lease_ids_def s1 rmv)
  show ?thesis
  proof (rule leases_ok_shrink [OF ok])
    show "mset (lease_ids ?w) \<subseteq># mset (lease_ids w)" unfolding ids by (rule subset_mset.order_refl)
    show "mset (held_agent ?w) \<subseteq># mset (held_agent w)" "mset (held_ctrl ?w) \<subseteq># mset (held_ctrl w)"
      using mf [of "lease_agent ?s"] mf [of "lease_ctrl ?s"] lv
      by (simp_all add: held_agent_def held_ctrl_def sel li mset_nz del: mset_map)
    have "mset (map (lease_grpc ?s) (lease_ids ?w)) = mset (map (lease_grpc ?s) (lease_ids w))" unfolding mset_map ids ..
    then show "mset (held_grpc ?w) \<subseteq># mset (held_grpc w)" by (simp add: held_grpc_def sel mset_nz del: mset_map)
    show "countLeases owner (lw_service ?w) \<le> countLeases owner ?s" for owner
      using fewer [of "\<lambda>j. lease_owner ?s j = owner" "lv_live ?s"] by (simp add: countLeases_def sel lv)
  qed (simp_all add: s1)
qed

lemma leases_ok_stop: "leases_ok w \<Longrightarrow> leases_ok (w\<lparr>lw_service := stop_agent i (lw_service w)\<rparr>)"
  by (erule leases_ok_shrink) (simp_all add: lease_ids_def held_agent_def held_ctrl_def held_grpc_def countLeases_def)

lemma leases_ok_give:
  assumes ok: "leases_ok w" and step: "lease_step (LGive n) w = Some w'"
  shows "leases_ok w'"
proof -
  let ?s = "lw_service w"
  have n: "n < length (lw_ops w)" using step by (auto split: if_splits)
  note del = in_ops_del [OF n]
  have z: "0 \<notin> set (held_agent w)" "0 \<notin> set (held_ctrl w)" "0 \<notin> set (held_grpc w)"
    by (simp_all add: held_agent_def held_ctrl_def held_grpc_def)
  show ?thesis
  proof (cases "lw_ops w ! n")
    case (OpGiveAgent p)
    let ?w = "w\<lparr>lw_ops := del_nth n (lw_ops w)\<rparr>"
    have "mset (held_agent w) = mset (nz [p] @ held_agent ?w)" using del [of op_agent] OpGiveAgent by (simp add: held_agent_def mset_nz)
    then have "ports.excl (release p (lv_agentPorts ?s)) (held_agent ?w)"
      using ports.excl_mset [OF leases_okD(3) [OF ok]] by (intro excl_give_nz) (simp_all add: held_agent_def)
    moreover have "leases_ok ?w" using leases_ok_ops [OF ok n OpGiveAgent, of "[]"] by simp
    ultimately show ?thesis
      using step OpGiveAgent n by (auto simp: leases_ok_def Let_def give_agent_def held_agent_def held_ctrl_def held_grpc_def lease_ids_def
        countLeases_def same_but_pools)
  next
    case (OpGiveCtrl p)
    let ?w = "w\<lparr>lw_ops := del_nth n (lw_ops w)\<rparr>"
    have "mset (held_ctrl w) = mset (nz [p] @ held_ctrl ?w)" using del [of op_ctrl] OpGiveCtrl by (simp add: held_ctrl_def mset_nz)
    then have "ports.excl (release p (lv_ctrlPorts ?s)) (held_ctrl ?w)"
      using ports.excl_mset [OF leases_okD(4) [OF ok]] by (intro excl_give_nz) (simp_all add: held_ctrl_def)
    moreover have "leases_ok ?w" using leases_ok_ops [OF ok n OpGiveCtrl, of "[]"] by simp
    ultimately show ?thesis
      using step OpGiveCtrl n by (auto simp: leases_ok_def Let_def give_ctrl_def held_agent_def held_ctrl_def held_grpc_def lease_ids_def
        countLeases_def same_but_pools)
  next
    case (OpGiveGrpc p)
    let ?w = "w\<lparr>lw_ops := del_nth n (lw_ops w)\<rparr>"
    have "mset (lease_ids ?w) = mset (lease_ids w)" using del [of op_drop] OpGiveGrpc by (simp add: lease_ids_def)
    then have "mset (map (lease_grpc ?s) (lease_ids ?w)) = mset (map (lease_grpc ?s) (lease_ids w))" unfolding mset_map by simp
    then have "mset (held_grpc w) = mset (nz [p] @ held_grpc ?w)" using del [of op_grpc] OpGiveGrpc by (simp add: held_grpc_def mset_nz del: mset_map)
    then have "ports.excl (release p (lv_grpcPorts ?s)) (held_grpc ?w)"
      using ports.excl_mset [OF leases_okD(5) [OF ok]] by (intro excl_give_nz) (simp_all add: held_grpc_def)
    moreover have "leases_ok ?w" using leases_ok_ops [OF ok n OpGiveGrpc, of "[]"] by simp
    ultimately show ?thesis
      using step OpGiveGrpc n by (auto simp: leases_ok_def Let_def give_grpc_def held_agent_def held_ctrl_def held_grpc_def lease_ids_def
        countLeases_def same_but_pools)
  next
    case (OpStopAgent i)
    have "leases_ok (w\<lparr>lw_ops := del_nth n (lw_ops w)\<rparr>)" using leases_ok_ops [OF ok n OpStopAgent, of "[]"] by simp
    from leases_ok_stop [OF this, of i] show ?thesis using step OpStopAgent n by (cases w) simp
  next
    case (OpDropGrpc i)
    let ?new = "if 0 < lease_grpc ?s i then [OpGiveGrpc (lease_grpc ?s i)] else []"
    have w': "w' = w\<lparr>lw_ops := ?new @ del_nth n (lw_ops w)\<rparr>" using step n OpDropGrpc by (cases w) (auto simp: Let_def)
    have ids: "mset (lease_ids w) = mset (i # lease_ids w')" using del [of op_drop] OpDropGrpc by (simp add: lease_ids_def w')
    show ?thesis
    proof (rule leases_ok_shrink [OF ok])
      have "mset (map (lease_grpc ?s) (lease_ids w)) = mset (map (lease_grpc ?s) (i # lease_ids w'))" unfolding mset_map ids ..
      then show "mset (held_grpc w') \<subseteq># mset (held_grpc w)"
        using del [of op_grpc] OpDropGrpc by (simp add: held_grpc_def mset_nz w' del: mset_map)
      show "mset (lease_ids w') \<subseteq># mset (lease_ids w)" unfolding ids by (simp add: subset_mset.le_iff_add)
      show "mset (held_agent w') \<subseteq># mset (held_agent w)" "mset (held_ctrl w') \<subseteq># mset (held_ctrl w)"
        using del [of op_agent] del [of op_ctrl] OpDropGrpc by (simp_all add: held_agent_def held_ctrl_def w' mset_nz)
    qed (simp_all add: w')
  qed (use step n in auto)
qed

lemma leases_ok_step: "leases_ok w \<Longrightarrow> lease_step act w = Some w' \<Longrightarrow> leases_ok w'"
proof (cases act)
  case (LAbortCreate n)
  assume ok: "leases_ok w" and step: "lease_step act w = Some w'"
  obtain req a sticky c where o: "n < length (lw_ops w)" "lw_ops w ! n = OpCreate req a sticky c"
      "w' = w\<lparr>lw_ops := [OpGiveAgent a, OpGiveCtrl c] @ del_nth n (lw_ops w)\<rparr>"
    using step LAbortCreate by (auto split: if_splits lease_op.splits)
  show ?thesis unfolding o(3) by (rule leases_ok_ops [OF ok o(1,2)]) simp_all
next
  case (LInsert n e)
  assume ok: "leases_ok w" and step: "lease_step act w = Some w'"
  obtain req a sticky c where o: "n < length (lw_ops w)" "lw_ops w ! n = OpCreate req a sticky c" "lv_objs (lw_service w) (cx_id e) = None"
    using step LInsert by (auto split: if_splits lease_op.splits)
  obtain b s1 where b: "insert_lease (new_lease req e a sticky c) (lw_service w) = (b, s1)" by force
  show ?thesis
  proof (cases b)
    case True
    with leases_ok_insert [OF ok o] b step LInsert o show ?thesis by simp
  next
    case False
    then have s1: "s1 = lw_service w" using b by (auto simp: insert_lease_def split: if_splits)
    have "leases_ok (w\<lparr>lw_ops := [OpGiveAgent a, OpGiveCtrl c] @ del_nth n (lw_ops w)\<rparr>)" by (rule leases_ok_ops [OF ok o(1,2)]) simp_all
    with step LInsert o b False s1 show ?thesis by (cases w) simp
  qed
next
  case (LAbortStart n)
  assume ok: "leases_ok w" and step: "lease_step act w = Some w'"
  obtain i p where o: "n < length (lw_ops w)" "lw_ops w ! n = OpStart i p" "w' = w\<lparr>lw_ops := [OpGiveGrpc p] @ del_nth n (lw_ops w)\<rparr>"
    using step LAbortStart by (auto split: if_splits lease_op.splits)
  show ?thesis unfolding o(3) by (rule leases_ok_ops [OF ok o(1,2)]) simp_all
next
  case (LCommit n c now)
  assume ok: "leases_ok w" and step: "lease_step act w = Some w'"
  then show ?thesis using LCommit leases_ok_commit [OF ok] by (auto split: if_splits lease_op.splits)
next
  case (LClear session now)
  assume ok: "leases_ok w" and step: "lease_step act w = Some w'"
  then show ?thesis using LClear leases_ok_clear [OF ok] clear_locked_None by (fastforce split: prod.splits option.splits)
next
  case (LRemove i)
  assume ok: "leases_ok w" and step: "lease_step act w = Some w'"
  obtain r s1 where r: "remove_lease i (lw_service w) = (r, s1)" by force
  show ?thesis
  proof (cases r)
    case None
    then have "s1 = lw_service w" using r leases_okD(2) [OF ok, of i] by (auto simp: remove_lease_def lease_ids_def split: if_splits)
    with ok step LRemove r None show ?thesis by simp
  next
    case (Some l)
    with leases_ok_remove [OF ok, of i l s1] step LRemove r show ?thesis by simp
  qed
next
  case (LBegin req)
  assume "leases_ok w" "lease_step act w = Some w'"
  then show ?thesis unfolding LBegin by (rule leases_ok_begin)
next
  case (LStart i)
  assume "leases_ok w" "lease_step act w = Some w'"
  then show ?thesis unfolding LStart by (rule leases_ok_start)
next
  case (LGive n)
  assume "leases_ok w" "lease_step act w = Some w'"
  then show ?thesis unfolding LGive by (rule leases_ok_give)
next
  case (LAgentExit i)
  assume "leases_ok w" "lease_step act w = Some w'"
  then show ?thesis unfolding LAgentExit using leases_ok_stop [of w i] by simp
qed

lemma leases_ok_start_state: "leases_ok lease_start"
  by (simp add: leases_ok_def lease_start_def newLeaseService_def lease_ids_def held_agent_def held_ctrl_def held_grpc_def countLeases_def
      ports.excl_def)

lemma leases_ok_run: "lease_run acts w = Some w' \<Longrightarrow> leases_ok w \<Longrightarrow> leases_ok w'"
  by (induction acts arbitrary: w) (auto split: option.splits dest: leases_ok_step)

text \<open>C7: Whatever requests, ending captures and dying agents interleave, two leases never share a port (but for port 0), and an
  owner never has more than five.\<close>

theorem ports_exclusive:
  assumes "lease_run acts lease_start = Some w"
  shows "(\<forall>i \<in> set (lv_live (lw_service w)). \<forall>j \<in> set (lv_live (lw_service w)). i \<noteq> j \<longrightarrow>
      (lease_agent (lw_service w) i = lease_agent (lw_service w) j \<longrightarrow> lease_agent (lw_service w) i = 0)
      \<and> (lease_ctrl (lw_service w) i = lease_ctrl (lw_service w) j \<longrightarrow> lease_ctrl (lw_service w) i = 0)
      \<and> (lease_grpc (lw_service w) i = lease_grpc (lw_service w) j \<longrightarrow> lease_grpc (lw_service w) i = 0))
    \<and> (\<forall>owner. countLeases owner (lw_service w) \<le> 5)"
proof -
  have ok: "leases_ok w" using leases_ok_run [OF assms leases_ok_start_state] .
  have nzd: "f i = 0" if "distinct (nz (map f xs @ ys))" "i \<in> set xs" "j \<in> set xs" "i \<noteq> j" "f i = f j" for f :: "string \<Rightarrow> nat" and xs ys i j
    using that by (induction xs) (auto simp: nz_def image_iff split: if_splits)
  let ?s = "lw_service w"
  have d: "distinct (nz (map (lease_agent ?s) (lv_live ?s) @ in_ops op_agent (lw_ops w)))"
    "distinct (nz (map (lease_ctrl ?s) (lv_live ?s) @ in_ops op_ctrl (lw_ops w)))"
    "distinct (nz (map (lease_grpc ?s) (lease_ids w) @ in_ops op_grpc (lw_ops w)))"
    using leases_okD(3,4,5) [OF ok] unfolding ports.excl_def held_agent_def held_ctrl_def held_grpc_def by blast+
  have sub: "i \<in> set (lease_ids w)" if "i \<in> set (lv_live ?s)" for i using that by (simp add: lease_ids_def)
  have "countLeases owner ?s \<le> 5" for owner using leases_okD(6) [OF ok, of owner] by (simp add: maxLeasesPerOwner_def)
  then show ?thesis using nzd [OF d(1)] nzd [OF d(2)] nzd [OF d(3) sub sub] by blast
qed

definition demo_request :: "string \<Rightarrow> create_request" where
  "demo_request dev = \<lparr>cq_owner = ''u'', cq_device = dev, cq_project = [], cq_plugin = ''p'', cq_pluginOwners = [''v''], cq_hosts = [],
     cq_ports = [], cq_noSticky = False, cq_noAutoStart = False\<rparr>"

definition demo_env :: "string \<Rightarrow> create_env" where
  "demo_env i = \<lparr>cx_agentFree = True, cx_ctrlFree = True, cx_spawned = True, cx_running = True, cx_ready = True, cx_id = i, cx_now = 1\<rparr>"

definition demo_start :: "string \<Rightarrow> start_env" where
  "demo_start session = \<lparr>sx_grpcFree = True, sx_session = Some session, sx_ready = True, sx_told = True, sx_stop = Stopped, sx_now = 2\<rparr>"

lemma allocate_first: "pr_base pr \<le> pr_max pr \<Longrightarrow> pr_base pr + pr_cursor pr mod (pr_max pr + 1 - pr_base pr) \<notin> pr_used pr \<Longrightarrow>
    allocate pr = (Some (pr_base pr + pr_cursor pr mod (pr_max pr + 1 - pr_base pr)),
      pr\<lparr>pr_used := insert (pr_base pr + pr_cursor pr mod (pr_max pr + 1 - pr_base pr)) (pr_used pr),
         pr_cursor := (pr_cursor pr + 1) mod (pr_max pr + 1 - pr_base pr)\<rparr>)"
  by (cases "pr_max pr + 1 - pr_base pr") (auto simp: allocate_def Let_def)

lemmas lease_eval = take_ports_def allocateAgentPort_def rotate_agent_port_def allocate_first newLeaseService_def newPortRange_def
  insert_lease_def countLeases_def lease_owner_def lease_put_def new_lease_def begin_capture_def commit_capture_def
  demo_request_def demo_env_def demo_start_def maxLeasesPerOwner_def

theorem ports_exclusive_witness:
  "\<exists>w. lease_run [LBegin (demo_request ''d''), LBegin (demo_request ''e''), LInsert 0 (demo_env ''l2''), LInsert 0 (demo_env ''l1'')] lease_start = Some w
     \<and> lv_live (lw_service w) = [''l2'', ''l1''] \<and> lease_agent (lw_service w) ''l2'' \<noteq> lease_agent (lw_service w) ''l1''
     \<and> countLeases ''u'' (lw_service w) \<le> 5"
proof -
  obtain w where w: "lease_run [LBegin (demo_request ''d''), LBegin (demo_request ''e''), LInsert 0 (demo_env ''l2''), LInsert 0 (demo_env ''l1'')] lease_start = Some w"
      "lv_live (lw_service w) = [''l2'', ''l1'']" "lease_agent (lw_service w) ''l2'' \<noteq> 0"
    by (simp add: lease_start_def lease_eval del_nth_def lease_agent_def)
  show ?thesis using w ports_exclusive [OF w(1)] by (intro exI [of _ w]) (auto simp del: lease_run.simps)
qed

end
