(* ===== verification/Lease_Serial.thy ===== *)
theory Lease_Serial imports Lease_Props begin

text \<open>
  Requests that do not overlap: exactly the ports of the leases in the table are in use after each of them.  Then what two
  overlapping starts do, who sees a lease, and the memory of ports.
\<close>

section \<open>What is in use\<close>

text \<open>A pool is in balance if what is marked as used is what the table holds, each once.\<close>

definition balanced :: "port_range \<Rightarrow> (string \<Rightarrow> nat) \<Rightarrow> string list \<Rightarrow> bool" where
  "balanced pr f ids \<longleftrightarrow> 0 < pr_base pr \<and> distinct (nz (map f ids)) \<and> pr_used pr = set (nz (map f ids))"

definition quiet :: "lease_service \<Rightarrow> bool" where
  "quiet s \<longleftrightarrow> distinct (lv_live s) \<and> (\<forall>i \<in> set (lv_live s). \<exists>l. lv_objs s i = Some l \<and> ls_id l = i)
     \<and> balanced (lv_agentPorts s) (lease_agent s) (lv_live s) \<and> balanced (lv_ctrlPorts s) (lease_ctrl s) (lv_live s)
     \<and> balanced (lv_grpcPorts s) (lease_grpc s) (lv_live s)
     \<and> (\<forall>i \<in> set (lv_live s). lease_session s i = [] \<longrightarrow> lease_grpc s i = 0)
     \<and> (\<forall>i \<in> set (lv_live s). \<forall>j \<in> set (lv_live s). lease_session s i = lease_session s j \<and> lease_session s i \<noteq> [] \<longrightarrow> i = j)"

lemma nz_set: "set (nz ps) = set ps - {0}" by (auto simp: nz_def)

lemma balanced_alloc:
  assumes "balanced pr f ids" "allocate pr = (Some p, pr')"
  shows "0 < p" "p \<notin> pr_used pr" "pr_used pr' = insert p (pr_used pr)" "pr_base pr' = pr_base pr"
proof -
  show "p \<notin> pr_used pr" "pr_used pr' = insert p (pr_used pr)" using allocate_Some [OF assms(2)] by simp_all
  have "p \<in> port_span pr" by (rule allocate_Some [OF assms(2)])
  then show "0 < p" using assms(1) by (simp add: balanced_def port_span_def)
  show "pr_base pr' = pr_base pr" using assms(2) by (auto simp: allocate_def Let_def split: option.splits)
qed

text \<open>Giving back what was just taken.\<close>

lemma balanced_back:
  "balanced pr f ids \<Longrightarrow> pr_used pr' = insert p (pr_used pr) \<Longrightarrow> p \<notin> pr_used pr \<Longrightarrow> pr_base pr' = pr_base pr \<Longrightarrow> balanced (release p pr') f ids"
  by (auto simp: balanced_def release_def)

lemma balanced_take:
  "balanced pr f ids \<Longrightarrow> i \<notin> set ids \<Longrightarrow> pr_used pr' = set (nz [p]) \<union> pr_used pr \<Longrightarrow> (p \<noteq> 0 \<Longrightarrow> p \<notin> pr_used pr) \<Longrightarrow>
    pr_base pr' = pr_base pr \<Longrightarrow> balanced pr' (f(i := p)) (ids @ [i])"
  by (auto simp: balanced_def map_fresh nz_def)

lemma balanced_same: "balanced pr f ids \<Longrightarrow> i \<notin> set ids \<Longrightarrow> balanced pr (f(i := 0)) (ids @ [i])"
  by (simp add: balanced_def map_fresh nz_def)

lemma nz_map_upd:
  assumes "distinct ids" "i \<in> set ids"
  shows "mset (nz [f i] @ nz (map (f(i := p)) ids)) = mset (nz [p] @ nz (map f ids))"
proof -
  have "filter_mset (\<lambda>p. p \<noteq> 0) (add_mset (f i) (mset (map (f(i := p)) ids))) = filter_mset (\<lambda>p. p \<noteq> 0) (add_mset p (mset (map f ids)))"
    using map_upd_at [OF assms, of f p] by simp
  then show ?thesis by (simp add: mset_nz split: if_splits)
qed

lemma balanced_swap:
  assumes b: "balanced pr f ids" and d: "distinct ids" "i \<in> set ids" and p: "p = 0 \<or> p \<notin> pr_used pr"
    and u: "pr_used pr' = (pr_used pr - set (nz [f i])) \<union> set (nz [p])" and base: "pr_base pr' = pr_base pr"
  shows "balanced pr' (f(i := p)) ids"
proof -
  have m: "mset (nz [f i] @ nz (map (f(i := p)) ids)) = mset (nz [p] @ nz (map f ids))" by (rule nz_map_upd [OF d])
  have "distinct (nz [p] @ nz (map f ids))" using b p by (auto simp: balanced_def)
  then have dd: "distinct (nz [f i] @ nz (map (f(i := p)) ids))" using mset_eq_imp_distinct_iff [OF m] by simp
  have st: "set (nz [f i]) \<union> set (nz (map (f(i := p)) ids)) = set (nz [p]) \<union> pr_used pr"
    using mset_eq_setD [OF m] b by (simp add: balanced_def)
  have "set (nz (map (f(i := p)) ids)) = pr_used pr'"
  proof (cases "f i = p")
    case True
    then have "f(i := p) = f" by auto
    moreover have "p = 0" using p True d b by (auto simp: balanced_def nz_set)
    ultimately show ?thesis using b u True by (simp add: balanced_def)
  next
    case False
    then have "set (nz [f i]) \<inter> set (nz [p]) = {}" by (auto simp: nz_def)
    moreover have "set (nz [f i]) \<inter> set (nz (map (f(i := p)) ids)) = {}" using dd by auto
    ultimately show ?thesis using st unfolding u by blast
  qed
  with dd b base show ?thesis by (simp add: balanced_def)
qed

lemma balanced_removed:
  assumes b: "balanced pr f ids" and d: "distinct ids" "i \<in> set ids"
  shows "balanced (release (f i) pr) f (removeAll i ids)"
proof -
  have "mset ids = add_mset i (mset (removeAll i ids))" using d by (simp add: distinct_remove1_removeAll [symmetric])
  then have "image_mset f (mset ids) = add_mset (f i) (image_mset f (mset (removeAll i ids)))" by simp
  then have "mset (map f ids) = mset (f i # map f (removeAll i ids))" by (simp only: mset_map list.map mset.simps)
  then have m: "mset (nz (map f ids)) = mset (nz [f i] @ nz (map f (removeAll i ids)))" by (simp add: mset_nz)
  have "distinct (nz [f i] @ nz (map f (removeAll i ids)))" using b mset_eq_imp_distinct_iff [OF m] by (simp add: balanced_def)
  moreover have "pr_used pr = set (nz [f i]) \<union> set (nz (map f (removeAll i ids)))" using b mset_eq_setD [OF m] by (simp add: balanced_def)
  ultimately show ?thesis using b by (cases "f i = 0") (auto simp: balanced_def release_def)
qed

section \<open>The critical sections\<close>

lemma allocateAgentPort_used:
  assumes a: "allocateAgentPort owner device ns s = ((p, sticky), s1)" and b: "balanced (lv_agentPorts s) f ids"
  shows "\<exists>pr. s1 = s\<lparr>lv_agentPorts := pr\<rparr> \<and> pr_used pr = set (nz [p]) \<union> pr_used (lv_agentPorts s) \<and> (p \<noteq> 0 \<longrightarrow> p \<notin> pr_used (lv_agentPorts s))
    \<and> pr_base pr = pr_base (lv_agentPorts s)"
proof -
  have rot: "\<exists>pr. s1 = s\<lparr>lv_agentPorts := pr\<rparr> \<and> pr_used pr = set (nz [p]) \<union> pr_used (lv_agentPorts s) \<and> (p \<noteq> 0 \<longrightarrow> p \<notin> pr_used (lv_agentPorts s))
      \<and> pr_base pr = pr_base (lv_agentPorts s)" if "rotate_agent_port s = ((p, sticky), s1)"
  proof (cases "allocate (lv_agentPorts s)")
    case (Pair x pr)
    show ?thesis
    proof (cases x)
      case None
      with that Pair have "p = 0" "s1 = s\<lparr>lv_agentPorts := lv_agentPorts s\<rparr>" by (auto simp: rotate_agent_port_def)
      then show ?thesis by (intro exI [of _ "lv_agentPorts s"]) simp
    next
      case (Some q)
      with that Pair have q: "p = q" "s1 = s\<lparr>lv_agentPorts := pr\<rparr>" by (auto simp: rotate_agent_port_def)
      show ?thesis using balanced_alloc [OF b Pair [unfolded Some]] by (auto simp: q)
    qed
  qed
  show ?thesis
  proof (cases "ns \<or> lv_sticky s (stickyKey owner device) = None \<or> (\<exists>q. lv_sticky s (stickyKey owner device) = Some q \<and> \<not> fst (reserve q (lv_agentPorts s)))")
    case True
    then have "rotate_agent_port s = ((p, sticky), s1)" using a by (cases ns) (auto simp: allocateAgentPort_def split: prod.splits bool.splits)
    then show ?thesis by (rule rot)
  next
    case False
    then obtain q where q: "lv_sticky s (stickyKey owner device) = Some q" "fst (reserve q (lv_agentPorts s))" "\<not> ns" by auto
    with a have "p = q" "s1 = s\<lparr>lv_agentPorts := snd (reserve q (lv_agentPorts s))\<rparr>"
      by (auto simp: allocateAgentPort_def split: prod.splits bool.splits)
    with q(2) b show ?thesis by (auto simp: reserve_def balanced_def split: if_splits)
  qed
qed

lemma same_session:
  "lease_session (s\<lparr>lv_agentPorts := pr\<rparr>) = lease_session s" "lease_session (s\<lparr>lv_ctrlPorts := pr\<rparr>) = lease_session s"
  "lease_session (s\<lparr>lv_grpcPorts := pr\<rparr>) = lease_session s" "lease_session (stop_agent i s) = lease_session s"
  by (auto simp: lease_session_def stop_agent_def fun_eq_iff split: option.split)

lemmas quiet_same = same_but_pools same_session

lemma quiet_agent: "quiet s \<Longrightarrow> balanced (lv_agentPorts s) (lease_agent s) (lv_live s)"
  and quiet_ctrl: "quiet s \<Longrightarrow> balanced (lv_ctrlPorts s) (lease_ctrl s) (lv_live s)"
  and quiet_grpc: "quiet s \<Longrightarrow> balanced (lv_grpcPorts s) (lease_grpc s) (lv_live s)"
  by (simp_all add: quiet_def)

lemma quiet_clear:
  assumes q: "quiet s" and c: "session \<noteq> []"
  shows "quiet (clearLeaseCapture session now s)"
proof (cases "filter (\<lambda>i. lease_session s i = session) (lv_live s)")
  case Nil
  with q show ?thesis by (simp add: clearLeaseCapture_def clear_locked_def)
next
  case (Cons i rest)
  have "i \<in> set (filter (\<lambda>i. lease_session s i = session) (lv_live s))" unfolding Cons by simp
  then have i: "i \<in> set (lv_live s)" "lease_session s i = session" by simp_all
  obtain l where l: "lv_objs s i = Some l" "ls_id l = i" using q i(1) by (auto simp: quiet_def)
  let ?s = "s\<lparr>lv_objs := (lv_objs s)(i \<mapsto> l\<lparr>ls_session := [], ls_grpcPort := 0, ls_lastCapture := now\<rparr>)\<rparr>"
  have cl: "clearLeaseCapture session now s = give_grpc (lease_grpc s i) ?s"
    by (simp add: clearLeaseCapture_def clear_locked_def Cons l(1) lease_grpc_def)
  have sel: "lease_agent ?s = lease_agent s" "lease_ctrl ?s = lease_ctrl s" "lease_grpc ?s = (lease_grpc s)(i := 0)"
      "lease_session ?s = (lease_session s)(i := [])"
    using l(1) by (auto simp: lease_agent_def lease_ctrl_def lease_grpc_def lease_session_def fun_eq_iff)
  have "balanced (release (lease_grpc s i) (lv_grpcPorts s)) ((lease_grpc s)(i := 0)) (lv_live s)"
    using balanced_swap [OF quiet_grpc [OF q] _ i(1), of 0 "release (lease_grpc s i) (lv_grpcPorts s)"] q
    by (auto simp: release_def quiet_def balanced_def)
  then show ?thesis
    using q l(2) by (auto simp: cl give_grpc_def quiet_def quiet_same sel)
qed

lemma quiet_reclaim:
  assumes q: "quiet s"
  shows "quiet (reclaimLease i s)"
proof (cases "i \<in> set (lv_live s)")
  case True
  obtain l where l: "lv_objs s i = Some l" "ls_id l = i" using q True by (auto simp: quiet_def)
  let ?s = "stop_agent i (s\<lparr>lv_live := removeAll i (lv_live s)\<rparr>)"
  have z: "0 \<notin> pr_used (lv_grpcPorts s)" using quiet_grpc [OF q] by (simp add: balanced_def)
  then have g0: "release 0 (lv_grpcPorts s) = lv_grpcPorts s" by (simp add: release_def)
  have li: "ls_agentPort l = lease_agent s i" "ls_ctrlPort l = lease_ctrl s i" "ls_grpcPort l = lease_grpc s i"
    using l(1) by (simp_all add: lease_agent_def lease_ctrl_def lease_grpc_def)
  have sel: "lease_agent (s\<lparr>lv_live := xs\<rparr>) = lease_agent s" "lease_ctrl (s\<lparr>lv_live := xs\<rparr>) = lease_ctrl s"
      "lease_grpc (s\<lparr>lv_live := xs\<rparr>) = lease_grpc s" "lease_session (s\<lparr>lv_live := xs\<rparr>) = lease_session s" for xs
    by (simp_all add: lease_agent_def lease_ctrl_def lease_grpc_def lease_session_def fun_eq_iff)
  have ob: "\<exists>l'. lv_objs ?s j = Some l' \<and> ls_id l' = j" if "j \<in> set (lv_live s)" for j
    using q that l by (auto simp: quiet_def stop_agent_def)
  have r: "reclaimLease i s = ?s\<lparr>lv_agentPorts := release (lease_agent s i) (lv_agentPorts s),
      lv_ctrlPorts := release (lease_ctrl s i) (lv_ctrlPorts s), lv_grpcPorts := release (lease_grpc s i) (lv_grpcPorts s)\<rparr>"
    using True l g0 by (auto simp: reclaimLease_def remove_lease_def give_all_def give_agent_def give_ctrl_def give_grpc_def Let_def li)
  have d: "distinct (lv_live s)" using q by (simp add: quiet_def)
  show ?thesis
    using balanced_removed [OF quiet_agent [OF q] d True] balanced_removed [OF quiet_ctrl [OF q] d True]
      balanced_removed [OF quiet_grpc [OF q] d True] q ob d
    unfolding r by (auto simp: quiet_def quiet_same sel distinct_removeAll)
qed (use q in \<open>simp add: reclaimLease_def remove_lease_def\<close>)

lemma quiet_Start:
  assumes q: "quiet s"
    and fresh: "\<And>session. sx_session e = Some session \<Longrightarrow> session \<noteq> [] \<and> (\<forall>j \<in> set (lv_live s). lease_session s j \<noteq> session)"
  shows "quiet (snd (StartLeaseCapture c i e s)) \<and> lv_live (snd (StartLeaseCapture c i e s)) = lv_live s"
proof (cases "getLeaseForOwner c i s")
  case (Some l0)
  obtain r s1 where r: "begin_capture i s = (r, s1)" by force
  show ?thesis
  proof (cases r)
    case (Inl err)
    with r have "s1 = s" by (auto simp: begin_capture_def split: option.splits if_splits prod.splits)
    with Some r Inl q show ?thesis by (simp add: StartLeaseCapture_def)
  next
    case (Inr p)
    have il: "i \<in> set (lv_live s)" using Some by (auto simp: getLeaseForOwner_def split: if_splits)
    obtain l pr where l: "lv_objs s i = Some l" "ls_session l = []" and pr: "allocate (lv_grpcPorts s) = (Some p, pr)" "s1 = s\<lparr>lv_grpcPorts := pr\<rparr>"
      using r Inr by (auto simp: begin_capture_def split: option.splits if_splits prod.splits)
    note al = balanced_alloc [OF quiet_grpc [OF q] pr(1)]
    have "balanced (release p pr) (lease_grpc s) (lv_live s)" by (rule balanced_back [OF quiet_grpc [OF q] al(3,2,4)])
    then have undone: "quiet (give_grpc p s1)" using q by (auto simp: quiet_def give_grpc_def pr(2) quiet_same)
    have fin: "finalize_session out session now s1 = s1" if "sx_session e = Some session" for out session now
    proof -
      have "filter (\<lambda>i. lease_session s i = session) (lv_live s) = []" using fresh [OF that] by (simp add: filter_empty_conv)
      then show ?thesis by (simp add: finalize_session_def clearLeaseCapture_def clear_locked_def pr(2) quiet_same)
    qed
    have good: "quiet (commit_capture i session p now s1)" if se: "sx_session e = Some session" for session now
    proof -
      define s4 where "s4 = commit_capture i session p now s1"
      have sel: "lease_agent s4 = lease_agent s" "lease_ctrl s4 = lease_ctrl s" "lease_grpc s4 = (lease_grpc s)(i := p)"
        "lease_session s4 = (lease_session s)(i := session)" "lv_live s4 = lv_live s" "lv_agentPorts s4 = lv_agentPorts s"
        "lv_ctrlPorts s4 = lv_ctrlPorts s" "lv_grpcPorts s4 = pr"
        and ob: "\<forall>j \<in> set (lv_live s). \<exists>l'. lv_objs s4 j = Some l' \<and> ls_id l' = j"
        using l(1) q by (auto simp: s4_def commit_capture_def lease_agent_def lease_ctrl_def lease_grpc_def lease_session_def fun_eq_iff pr(2) quiet_def)
      have "lease_grpc s i = 0" using q il l by (auto simp: quiet_def lease_session_def)
      then have "balanced pr ((lease_grpc s)(i := p)) (lv_live s)"
        using balanced_swap [OF quiet_grpc [OF q] _ il, of p pr] al q by (auto simp: quiet_def)
      then show ?thesis unfolding s4_def [symmetric] using q ob fresh [OF se] by (auto simp: quiet_def sel)
    qed
    show ?thesis
      using undone good fin by (auto simp: StartLeaseCapture_def Some r Inr give_grpc_def pr(2) commit_capture_def split: option.splits)
  qed
qed (use q in \<open>simp add: StartLeaseCapture_def\<close>)

lemma quiet_Create:
  assumes q: "quiet s" and ids: "lv_objs s (cx_id e) = None"
    and fresh: "\<And>session. sx_session se = Some session \<Longrightarrow> session \<noteq> [] \<and> (\<forall>j \<in> set (lv_live s). lease_session s j \<noteq> session)"
  shows "quiet (snd (CreateProxyLease req e se s))"
proof (cases "maxLeasesPerOwner \<le> countLeases (cq_owner req) s")
  case few: False
  obtain a sticky s1 where a: "allocateAgentPort (cq_owner req) (cq_device req) (cq_noSticky req) s = ((a, sticky), s1)" by (metis surj_pair)
  obtain pa where pa: "s1 = s\<lparr>lv_agentPorts := pa\<rparr>" "pr_used pa = set (nz [a]) \<union> pr_used (lv_agentPorts s)"
      "a \<noteq> 0 \<longrightarrow> a \<notin> pr_used (lv_agentPorts s)" "pr_base pa = pr_base (lv_agentPorts s)"
    using allocateAgentPort_used [OF a quiet_agent [OF q]] by blast
  have back_a: "balanced (release a pa) (lease_agent s) (lv_live s)"
    using pa(2,3,4) quiet_agent [OF q] by (auto simp: balanced_def release_def split: if_splits)
  show ?thesis
  proof (cases "fst (allocate (lv_ctrlPorts s))")
    case None
    then have "snd (CreateProxyLease req e se s) = s\<lparr>lv_agentPorts := release a pa\<rparr>"
      using few by (auto simp: CreateProxyLease_def take_ports_def a pa(1) give_agent_def split: prod.splits option.splits)
    with q back_a show ?thesis by (auto simp: quiet_def quiet_same)
  next
    case (Some c)
    then obtain pc where pc: "allocate (lv_ctrlPorts s) = (Some c, pc)" by (metis prod.collapse)
    note al = balanced_alloc [OF quiet_ctrl [OF q] pc]
    let ?s2 = "s\<lparr>lv_agentPorts := pa, lv_ctrlPorts := pc\<rparr>"
    have t: "take_ports (cq_owner req) (cq_device req) (cq_noSticky req) s = (Some (a, sticky, c), ?s2)"
      by (simp add: take_ports_def a pa(1) pc)
    have "balanced (release c pc) (lease_ctrl s) (lv_live s)" by (rule balanced_back [OF quiet_ctrl [OF q] al(3,2,4)])
    then have undone: "quiet (release_ports a c ?s2)"
      using q back_a by (auto simp: release_ports_def give_ctrl_def give_agent_def quiet_def quiet_same)
    let ?l = "new_lease req e a sticky c" and ?i = "cx_id e"
    have nl: "?i \<notin> set (lv_live s)" using q ids by (auto simp: quiet_def)
    define s3 where "s3 = snd (insert_lease ?l ?s2)"
    have ins: "insert_lease ?l ?s2 = (True, s3)"
      using few by (simp add: s3_def insert_lease_def countLeases_def new_lease_def quiet_same)
    have s3: "lv_live s3 = lv_live s @ [?i]" "lv_agentPorts s3 = pa" "lv_ctrlPorts s3 = pc" "lv_grpcPorts s3 = lv_grpcPorts s"
        "lease_agent s3 = (lease_agent s)(?i := a)" "lease_ctrl s3 = (lease_ctrl s)(?i := c)" "lease_grpc s3 = (lease_grpc s)(?i := 0)"
        "lease_session s3 = (lease_session s)(?i := [])"
      and ob: "\<forall>j \<in> set (lv_live s3). \<exists>l'. lv_objs s3 j = Some l' \<and> ls_id l' = j"
      using few q by (auto simp: s3_def insert_lease_def countLeases_def new_lease_def quiet_same lease_put_def lease_agent_def lease_ctrl_def
          lease_grpc_def lease_session_def fun_eq_iff quiet_def)
    have "balanced pa ((lease_agent s)(?i := a)) (lv_live s @ [?i])" by (rule balanced_take [OF quiet_agent [OF q] nl pa(2) _ pa(4)]) (use pa(3) in blast)
    moreover have "balanced pc ((lease_ctrl s)(?i := c)) (lv_live s @ [?i])"
      by (rule balanced_take [OF quiet_ctrl [OF q] nl _ _ al(4)]) (use al in simp_all)
    moreover have "balanced (lv_grpcPorts s) ((lease_grpc s)(?i := 0)) (lv_live s @ [?i])" by (rule balanced_same [OF quiet_grpc [OF q] nl])
    ultimately have q3: "quiet s3"
      using q nl ob by (auto simp: quiet_def s3)
    have f3: "session \<noteq> [] \<and> (\<forall>j \<in> set (lv_live s3). lease_session s3 j \<noteq> session)" if "sx_session se = Some session" for session
      using fresh [OF that] by (auto simp: s3)
    have "quiet (snd (StartLeaseCapture \<lparr>lc_owner = cq_owner req, lc_admin = False\<rparr> ?i se s3))" using quiet_Start [OF q3 f3] by blast
    with undone q3 few show ?thesis
      by (auto simp: CreateProxyLease_def t ins split: prod.splits sum.splits)
  qed
qed (use q in \<open>simp add: CreateProxyLease_def\<close>)

lemma quiet_Stop: "quiet s \<Longrightarrow> quiet (snd (StopLeaseCapture c i out now s))"
  by (auto simp: StopLeaseCapture_def finalize_session_def quiet_clear split: option.split)

lemma quiet_Release: "quiet s \<Longrightarrow> quiet (snd (ReleaseProxyLease c i out now s))"
  by (auto simp: ReleaseProxyLease_def finalize_session_def quiet_clear quiet_reclaim split: option.split)

section \<open>Requests one after the other\<close>

datatype lease_request =
  RCreate create_request create_env start_env
| RStart lease_caller string start_env
| RStop lease_caller string stop_outcome int
| RRelease lease_caller string stop_outcome int
| RSessionEnds string int

fun serve :: "lease_request \<Rightarrow> lease_service \<Rightarrow> lease_service" where
  "serve (RCreate req e se) s = snd (CreateProxyLease req e se s)"
| "serve (RStart c i e) s = snd (StartLeaseCapture c i e s)"
| "serve (RStop c i out now) s = snd (StopLeaseCapture c i out now s)"
| "serve (RRelease c i out now) s = snd (ReleaseProxyLease c i out now s)"
| "serve (RSessionEnds session now) s = clearLeaseCapture session now s"

text \<open>Names are given once: a new lease has a new identifier, a new capture a new session.\<close>

definition new_capture_name :: "start_env \<Rightarrow> lease_service \<Rightarrow> bool" where
  "new_capture_name e s = (case sx_session e of None \<Rightarrow> True | Some session \<Rightarrow> session \<noteq> [] \<and> list_all (\<lambda>j. lease_session s j \<noteq> session) (lv_live s))"

fun new_names :: "lease_request \<Rightarrow> lease_service \<Rightarrow> bool" where
  "new_names (RCreate req e se) s = (lv_objs s (cx_id e) = None \<and> new_capture_name se s)"
| "new_names (RStart c i e) s = new_capture_name e s"
| "new_names (RSessionEnds session now) s = (session \<noteq> [])"
| "new_names _ s = True"

fun serve_all :: "lease_request list \<Rightarrow> lease_service \<Rightarrow> lease_service option" where
  "serve_all [] s = Some s"
| "serve_all (r # rs) s = (if new_names r s then serve_all rs (serve r s) else None)"

lemma quiet_serve: "quiet s \<Longrightarrow> new_names r s \<Longrightarrow> quiet (serve r s)"
proof (cases r)
  case (RCreate req e se)
  assume "quiet s" "new_names r s"
  then show ?thesis using RCreate by (auto simp: new_capture_name_def list_all_iff intro!: quiet_Create)
next
  case (RStart c i e)
  assume "quiet s" "new_names r s"
  then have "quiet (snd (StartLeaseCapture c i e s)) \<and> lv_live (snd (StartLeaseCapture c i e s)) = lv_live s"
    using RStart by (intro quiet_Start) (auto simp: new_capture_name_def list_all_iff)
  with RStart show ?thesis by simp
qed (simp_all add: quiet_Stop quiet_Release quiet_clear)

lemma quiet_all: "quiet s \<Longrightarrow> serve_all rs s = Some s' \<Longrightarrow> quiet s'"
  by (induction rs arbitrary: s) (auto split: if_splits intro: quiet_serve)

lemma quiet_new: "quiet newLeaseService"
  by (simp add: quiet_def newLeaseService_def balanced_def newPortRange_def)

text \<open>C8: Served one after the other, requests lose no port: after each of them exactly the ports of the leases in the table are in
  use, so when all leases are released every port is free again.\<close>

theorem serial_requests_lose_no_port:
  assumes "serve_all rs newLeaseService = Some s"
  shows "pr_used (lv_agentPorts s) = lease_agent s ` set (lv_live s) - {0} \<and> pr_used (lv_ctrlPorts s) = lease_ctrl s ` set (lv_live s) - {0}
    \<and> pr_used (lv_grpcPorts s) = lease_grpc s ` set (lv_live s) - {0}"
  using quiet_all [OF quiet_new assms] by (simp add: quiet_def balanced_def nz_set)

lemma demo_serial:
  "\<exists>s. serve_all [RCreate (demo_request ''d'') (demo_env ''l1'') (demo_start ''c1''), RSessionEnds ''c1'' 3] newLeaseService = Some s
     \<and> lv_live s = [''l1''] \<and> lease_agent s ''l1'' = 12100 \<and> lease_grpc s ''l1'' = 0"
  by (simp add: CreateProxyLease_def StartLeaseCapture_def getLeaseForOwner_def lease_eval new_capture_name_def clearLeaseCapture_def
      clear_locked_def lease_session_def give_grpc_def release_def lease_agent_def lease_grpc_def)

theorem serial_requests_lose_no_port_witness:
  "\<exists>s. serve_all [RCreate (demo_request ''d'') (demo_env ''l1'') (demo_start ''c1''), RSessionEnds ''c1'' 3] newLeaseService = Some s
     \<and> pr_used (lv_agentPorts s) = {12100} \<and> pr_used (lv_grpcPorts s) = {}"
proof -
  obtain s where s: "serve_all [RCreate (demo_request ''d'') (demo_env ''l1'') (demo_start ''c1''), RSessionEnds ''c1'' 3] newLeaseService = Some s"
      "lv_live s = [''l1'']" "lease_agent s ''l1'' = 12100" "lease_grpc s ''l1'' = 0"
    using demo_serial by blast
  show ?thesis using s serial_requests_lose_no_port [OF s(1)] by (intro exI [of _ s]) (simp del: serve_all.simps)
qed

section \<open>Overlapping starts\<close>

text \<open>Two starts on one idle lease both pass the check; the second to finish hides the first, whose port is never given back.\<close>

lemma overlapping_starts_lose_port:
  "\<exists>w. lease_run [LBegin (demo_request ''d''), LInsert 0 (demo_env ''l1''), LStart ''l1'', LStart ''l1'', LCommit 0 ''c1'' 3, LCommit 0 ''c2'' 4,
       LClear ''c2'' 5, LClear ''c1'' 6, LGive 0] lease_start = Some w
     \<and> lw_ops w = [] \<and> lease_session (lw_service w) ''l1'' = [] \<and> held_grpc w = [] \<and> 19101 \<in> pr_used (lv_grpcPorts (lw_service w))"
  by (simp add: lease_start_def lease_eval del_nth_def clear_locked_def lease_session_def give_grpc_def release_def held_grpc_def
      lease_ids_def lease_grpc_def)

section \<open>An exhausted range\<close>

text \<open>When no port is left the lease is created all the same, with port 0.\<close>

lemma exhausted_range_gives_port_0:
  assumes "port_span (lv_agentPorts s) \<subseteq> pr_used (lv_agentPorts s)" "fst (allocate (lv_ctrlPorts s)) = Some c"
  shows "fst (take_ports owner device True s) = Some (0, False, c)"
proof -
  obtain pr where "allocate (lv_agentPorts s) = (None, pr)"
    using assms(1) allocate_None [of "lv_agentPorts s"] by (metis prod.collapse)
  with assms(2) show ?thesis by (auto simp: take_ports_def allocateAgentPort_def rotate_agent_port_def split: prod.splits option.splits)
qed

section \<open>Who sees what\<close>

text \<open>Nobody but its owner and admins can use a lease, though those of nobody are listed for everyone.\<close>

lemma lease_of_others_hidden:
  "getLeaseForOwner c i s = Some l \<Longrightarrow> lc_admin c \<or> ls_owner l = lc_owner c"
  by (auto simp: getLeaseForOwner_def split: if_splits option.splits)

lemma listed_leases:
  "l \<in> set (ListProxyLeases c s) \<longleftrightarrow> (\<exists>i \<in> set (lv_live s). lv_objs s i = Some l) \<and> (lc_admin c \<or> ls_owner l = [] \<or> ls_owner l = lc_owner c)"
  by (force simp: ListProxyLeases_def lease_listed_def List.map_filter_def)

lemma strangers_change_nothing:
  assumes "\<not> lc_admin c" "lv_objs s i = Some l" "ls_owner l \<noteq> lc_owner c"
  shows "StartLeaseCapture c i e s = (Inl LeaseNotFound, s)" "StopLeaseCapture c i out now s = (Inl LeaseNotFound, s)"
    "ReleaseProxyLease c i out now s = (Inl LeaseNotFound, s)"
  using assms by (simp_all add: StartLeaseCapture_def StopLeaseCapture_def ReleaseProxyLease_def getLeaseForOwner_def)

text \<open>A device gets the port it had, unless somebody else has taken it meanwhile.\<close>

lemma sticky_port_returns:
  assumes "lv_sticky s (stickyKey owner device) = Some p" "p \<in> port_span (lv_agentPorts s)" "p \<notin> pr_used (lv_agentPorts s)"
  shows "fst (allocateAgentPort owner device False s) = (p, True)"
  using assms by (simp add: allocateAgentPort_def reserve_def port_span_def)

lemma sticky_keys_collide: "stickyKey ''a|b'' ''c'' = stickyKey ''a'' ''b|c''"
  by (simp add: stickyKey_def)

end
