(* ===== verification/Capture_Queue.thy ===== *)
theory Capture_Queue imports Decode_Flow "HOL-Library.Sublist" begin

text \<open>
  From captured packets to the decode worker and to the database: the overflow queue (\<open>cmd/gt-pipeline/pending_decode.go\<close>), the
  feeding of the decode channel, the worker and the write buffers (\<open>capture_task.go\<close>).  The main loop and the worker run
  beside each other: the worker may take packets before any operation of the main loop on the channel, as many as the schedule
  in the state says.
\<close>

section \<open>The overflow queue\<close>

record pending_queue =
  pq_items :: "packet list"
  pq_bytes :: int
  pq_max :: int
  pq_dropped :: nat

definition newPendingQueue :: "int \<Rightarrow> pending_queue" where
  "newPendingQueue maxBytes = \<lparr>pq_items = [], pq_bytes = 0, pq_max = (if maxBytes \<le> 0 then 67108864 else maxBytes), pq_dropped = 0\<rparr>"

definition raw_len :: "packet \<Rightarrow> int" where "raw_len p = int (length (pk_raw p))"

definition popHead :: "pending_queue \<Rightarrow> pending_queue" where
  "popHead q = q\<lparr>pq_bytes := pq_bytes q - raw_len (hd (pq_items q)), pq_items := tl (pq_items q)\<rparr>"

definition headOr :: "packet \<Rightarrow> pending_queue \<Rightarrow> packet" where
  "headOr fallback q = (if pq_items q = [] then fallback else hd (pq_items q))"

text \<open>The loop of \<open>push\<close>; what it drops is returned beside the queue.\<close>

function shrink_queue :: "pending_queue \<Rightarrow> packet list \<times> pending_queue" where
  "shrink_queue q =
    (if pq_max q < pq_bytes q \<and> 1 < length (pq_items q)
     then (let (lost, q') = shrink_queue ((popHead q)\<lparr>pq_dropped := pq_dropped q + 1\<rparr>) in (hd (pq_items q) # lost, q'))
     else ([], q))"
  by pat_completeness auto
termination by (relation "measure (\<lambda>q. length (pq_items q))") (auto simp: popHead_def)

declare shrink_queue.simps [simp del]

definition queue_push :: "packet \<Rightarrow> pending_queue \<Rightarrow> pending_queue" where
  "queue_push pkt q = snd (shrink_queue (q\<lparr>pq_items := pq_items q @ [pkt], pq_bytes := pq_bytes q + raw_len pkt\<rparr>))"

section \<open>Feeding the worker\<close>

record decode_feed =
  fd_queue :: pending_queue
  fd_chan :: "packet list"
  fd_taken :: "packet list"
  fd_schedule :: "nat list"
  fd_attached :: bool

definition decodeQueueSize :: nat where "decodeQueueSize = 1024"

definition worker_runs :: "decode_feed \<Rightarrow> decode_feed" where
  "worker_runs s =
    (let n = (case fd_schedule s of [] \<Rightarrow> 0 | k # _ \<Rightarrow> k)
     in s\<lparr>fd_taken := fd_taken s @ take n (fd_chan s), fd_chan := drop n (fd_chan s), fd_schedule := tl (fd_schedule s)\<rparr>)"

text \<open>A non-blocking send.\<close>

definition feed_try :: "packet \<Rightarrow> decode_feed \<Rightarrow> bool \<times> decode_feed" where
  "feed_try pkt s =
    (let s1 = worker_runs s in
     if length (fd_chan s1) < decodeQueueSize then (True, s1\<lparr>fd_chan := fd_chan s1 @ [pkt]\<rparr>) else (False, s1))"

lemma worker_runs_sel [simp]: "fd_queue (worker_runs s) = fd_queue s" "fd_attached (worker_runs s) = fd_attached s"
  by (simp_all add: worker_runs_def Let_def)

lemma feed_try_sel: "feed_try p s = (b, s1) \<Longrightarrow> fd_queue s1 = fd_queue s \<and> fd_attached s1 = fd_attached s"
  by (auto simp: feed_try_def Let_def split: if_splits)

function drainPending :: "decode_feed \<Rightarrow> decode_feed" where
  "drainPending s =
    (if pq_items (fd_queue s) = [] \<or> \<not> fd_attached s then s
     else (case feed_try (hd (pq_items (fd_queue s))) s of
         (True, s1) \<Rightarrow> drainPending (s1\<lparr>fd_queue := popHead (fd_queue s1)\<rparr>)
       | (False, s1) \<Rightarrow> s1))"
  by pat_completeness auto
termination by (relation "measure (\<lambda>s. length (pq_items (fd_queue s)))") (auto simp: popHead_def dest: feed_try_sel [OF sym])

declare drainPending.simps [simp del]

definition feedDecode :: "packet \<Rightarrow> decode_feed \<Rightarrow> decode_feed" where
  "feedDecode pkt s =
    (let s1 = drainPending s in
     if \<not> fd_attached s1 \<or> pq_items (fd_queue s1) \<noteq> [] then s1\<lparr>fd_queue := queue_push pkt (fd_queue s1)\<rparr>
     else (case feed_try pkt s1 of
         (True, s2) \<Rightarrow> s2
       | (False, s2) \<Rightarrow> s2\<lparr>fd_queue := queue_push pkt (fd_queue s2)\<rparr>))"

text \<open>The two blocking loops.  What their \<open>select\<close> picks in each round is a list: a send, which needs room in the channel, a
  batch of events taken from the worker, or the end of the context.  An empty list is the deadline of the one, and a loop that
  still waits for the other.\<close>

datatype select_pick = PickSend | PickEvents | PickDone

fun drainPendingBlocking :: "select_pick list \<Rightarrow> decode_feed \<Rightarrow> decode_feed" where
  "drainPendingBlocking [] s = s"
| "drainPendingBlocking (c # cs) s =
    (if pq_items (fd_queue s) = [] \<or> \<not> fd_attached s then s
     else (case c of
         PickSend \<Rightarrow> (case feed_try (hd (pq_items (fd_queue s))) s of
             (True, s1) \<Rightarrow> drainPendingBlocking cs (s1\<lparr>fd_queue := popHead (fd_queue s1)\<rparr>)
           | (False, s1) \<Rightarrow> drainPendingBlocking cs s1)
       | PickEvents \<Rightarrow> drainPendingBlocking cs (worker_runs s)
       | PickDone \<Rightarrow> s))"

text \<open>Replay of a file: the packet is sent behind those that wait.  The flag is whether the loop has ended.\<close>

fun replay_packet :: "select_pick list \<Rightarrow> packet \<Rightarrow> decode_feed \<Rightarrow> bool \<times> decode_feed" where
  "replay_packet [] pkt s = (False, s)"
| "replay_packet (c # cs) pkt s =
    (case c of
       PickSend \<Rightarrow> (case feed_try (headOr pkt (fd_queue s)) s of
           (True, s1) \<Rightarrow> (if pq_items (fd_queue s1) \<noteq> [] then replay_packet cs pkt (s1\<lparr>fd_queue := popHead (fd_queue s1)\<rparr>) else (True, s1))
         | (False, s1) \<Rightarrow> replay_packet cs pkt s1)
     | PickEvents \<Rightarrow> replay_packet cs pkt (worker_runs s)
     | PickDone \<Rightarrow> (True, s))"

text \<open>What the main loop does with packets: a live packet comes, a tick or an event of the registry drains, the decoder comes
  or goes.\<close>

datatype feed_act = FeedPacket packet | FeedDrain | FeedAttach bool

fun feed_step :: "feed_act \<Rightarrow> decode_feed \<Rightarrow> decode_feed" where
  "feed_step (FeedPacket pkt) s = (if pk_protocol pkt = ''tcp'' then feedDecode pkt s else s)"
| "feed_step FeedDrain s = drainPending s"
| "feed_step (FeedAttach b) s = s\<lparr>fd_attached := b\<rparr>"

definition feed_run :: "feed_act list \<Rightarrow> decode_feed \<Rightarrow> decode_feed" where "feed_run acts s = fold feed_step acts s"

definition feed_start :: "int \<Rightarrow> nat list \<Rightarrow> decode_feed" where
  "feed_start maxBytes schedule = \<lparr>fd_queue = newPendingQueue maxBytes, fd_chan = [], fd_taken = [], fd_schedule = schedule, fd_attached = False\<rparr>"

text \<open>The packets of a run that are to be decoded.\<close>

fun fed :: "feed_act list \<Rightarrow> packet list" where
  "fed [] = []"
| "fed (FeedPacket pkt # acts) = (if pk_protocol pkt = ''tcp'' then pkt # fed acts else fed acts)"
| "fed (_ # acts) = fed acts"

section \<open>The worker\<close>

text \<open>\<open>outcome\<close> is what waiting for a future gives, an error included for the 30 second limit.\<close>

record ('f, 'ev) decode_worker =
  wk_window :: "'f list"
  wk_errors :: nat
  wk_out :: "'ev list list"

definition decodeWindow :: nat where "decodeWindow = 16"

definition drainHead :: "('f \<Rightarrow> 'err + 'ev list) \<Rightarrow> ('f, 'ev) decode_worker \<Rightarrow> ('f, 'ev) decode_worker" where
  "drainHead outcome w =
    (let f = hd (wk_window w); w1 = w\<lparr>wk_window := tl (wk_window w)\<rparr> in
     (case outcome f of
        Inl e \<Rightarrow> w1\<lparr>wk_errors := wk_errors w1 + 1\<rparr>
      | Inr evs \<Rightarrow> (if evs = [] then w1 else w1\<lparr>wk_out := wk_out w1 @ [evs]\<rparr>)))"

function drain_to :: "nat \<Rightarrow> ('f \<Rightarrow> 'err + 'ev list) \<Rightarrow> ('f, 'ev) decode_worker \<Rightarrow> ('f, 'ev) decode_worker" where
  "drain_to n outcome w = (if n \<le> length (wk_window w) \<and> wk_window w \<noteq> [] then drain_to n outcome (drainHead outcome w) else w)"
  by pat_completeness auto
termination by (relation "measure (\<lambda>(n, outcome, w). length (wk_window w))") (auto simp: drainHead_def Let_def split: sum.split)

declare drain_to.simps [simp del]

text \<open>One packet: \<open>submit\<close> is \<open>None\<close> when no decoder is attached any more, else what \<open>Submit\<close> returned.\<close>

definition worker_packet :: "('f \<Rightarrow> 'err + 'ev list) \<Rightarrow> ('err + 'f) option \<Rightarrow> ('f, 'ev) decode_worker \<Rightarrow> ('f, 'ev) decode_worker" where
  "worker_packet outcome submit w =
    (case submit of
       None \<Rightarrow> w
     | Some (Inl e) \<Rightarrow> w\<lparr>wk_errors := wk_errors w + 1\<rparr>
     | Some (Inr f) \<Rightarrow> drain_to decodeWindow outcome (w\<lparr>wk_window := wk_window w @ [f]\<rparr>))"

definition worker_all :: "('f \<Rightarrow> 'err + 'ev list) \<Rightarrow> ('err + 'f) option list \<Rightarrow> ('f, 'ev) decode_worker" where
  "worker_all outcome submits =
    drain_to 0 outcome (fold (worker_packet outcome) submits \<lparr>wk_window = [], wk_errors = 0, wk_out = []\<rparr>)"

section \<open>Write buffers\<close>

definition retainOnFailure :: "'a list \<Rightarrow> nat \<Rightarrow> 'a list \<times> nat" where
  "retainOnFailure buf mx = (if length buf \<le> mx then (buf, 0) else (drop (length buf - mx) buf, length buf - mx))"

record ('ev, 'sc, 'm) write_buffers =
  wb_raws :: "packet list"
  wb_events :: "'ev list"
  wb_changes :: "'sc list"
  wb_metrics :: "'m list"
  wb_rawCount :: nat
  wb_eventCount :: nat
  wb_metricCount :: nat
  wb_overflow :: nat

record ('ev, 'sc, 'm) flush_store =
  st_raws :: "packet list"
  st_events :: "'ev list"
  st_changes :: "'sc list"
  st_metrics :: "'m list"

text \<open>Which of the four writes succeed.\<close>

record flush_outcome =
  fo_raws :: bool
  fo_events :: bool
  fo_changes :: bool
  fo_metrics :: bool

definition flush_raws :: "flush_outcome \<Rightarrow> ('ev, 'sc, 'm) write_buffers \<times> ('ev, 'sc, 'm) flush_store \<Rightarrow> ('ev, 'sc, 'm) write_buffers \<times> ('ev, 'sc, 'm) flush_store" where
  "flush_raws ok = (\<lambda>(b, st).
    if wb_raws b = [] then (b, st)
    else if \<not> fo_raws ok then (let (r, n) = retainOnFailure (wb_raws b) 32768 in (b\<lparr>wb_raws := r, wb_overflow := wb_overflow b + n\<rparr>, st))
    else (b\<lparr>wb_rawCount := wb_rawCount b + length (wb_raws b), wb_raws := []\<rparr>, st\<lparr>st_raws := st_raws st @ wb_raws b\<rparr>))"

definition flush_changes :: "flush_outcome \<Rightarrow> ('ev, 'sc, 'm) write_buffers \<times> ('ev, 'sc, 'm) flush_store \<Rightarrow> ('ev, 'sc, 'm) write_buffers \<times> ('ev, 'sc, 'm) flush_store" where
  "flush_changes ok = (\<lambda>(b, st).
    if wb_changes b = [] then (b, st)
    else if \<not> fo_changes ok then (let (r, n) = retainOnFailure (wb_changes b) 131072 in (b\<lparr>wb_changes := r, wb_overflow := wb_overflow b + n\<rparr>, st))
    else (b\<lparr>wb_changes := []\<rparr>, st\<lparr>st_changes := st_changes st @ wb_changes b\<rparr>))"

text \<open>State changes are written only behind events.\<close>

definition flush_events :: "flush_outcome \<Rightarrow> ('ev, 'sc, 'm) write_buffers \<times> ('ev, 'sc, 'm) flush_store \<Rightarrow> ('ev, 'sc, 'm) write_buffers \<times> ('ev, 'sc, 'm) flush_store" where
  "flush_events ok = (\<lambda>(b, st).
    if wb_events b = [] then (b, st)
    else if \<not> fo_events ok then (let (r, n) = retainOnFailure (wb_events b) 65536 in (b\<lparr>wb_events := r, wb_overflow := wb_overflow b + n\<rparr>, st))
    else (let (b1, st1) = flush_changes ok (b\<lparr>wb_eventCount := wb_eventCount b + length (wb_events b)\<rparr>, st\<lparr>st_events := st_events st @ wb_events b\<rparr>)
          in (b1\<lparr>wb_events := []\<rparr>, st1)))"

definition flush_metrics :: "flush_outcome \<Rightarrow> ('ev, 'sc, 'm) write_buffers \<times> ('ev, 'sc, 'm) flush_store \<Rightarrow> ('ev, 'sc, 'm) write_buffers \<times> ('ev, 'sc, 'm) flush_store" where
  "flush_metrics ok = (\<lambda>(b, st).
    if wb_metrics b = [] then (b, st)
    else if \<not> fo_metrics ok then (let (r, n) = retainOnFailure (wb_metrics b) 65536 in (b\<lparr>wb_metrics := r, wb_overflow := wb_overflow b + n\<rparr>, st))
    else (b\<lparr>wb_metricCount := wb_metricCount b + length (wb_metrics b), wb_metrics := []\<rparr>, st\<lparr>st_metrics := st_metrics st @ wb_metrics b\<rparr>))"

text \<open>\<open>ms\<close> are the metrics the engine gives for this flush.\<close>

definition flush_buffers :: "flush_outcome \<Rightarrow> 'm list \<Rightarrow> ('ev, 'sc, 'm) write_buffers \<times> ('ev, 'sc, 'm) flush_store \<Rightarrow> ('ev, 'sc, 'm) write_buffers \<times> ('ev, 'sc, 'm) flush_store" where
  "flush_buffers ok ms = (\<lambda>(b, st). flush_metrics ok (flush_events ok (flush_raws ok (b\<lparr>wb_metrics := wb_metrics b @ ms\<rparr>, st))))"

end
