(* ===== verification/Capture_Props.thy ===== *)
theory Capture_Props imports Capture_Queue begin

text \<open>
  Packets reach the worker in the order of capture and none is lost uncounted, events leave it in that order, and what is
  flushed is written once and in order.
\<close>

section \<open>The overflow queue\<close>

definition queue_ok :: "pending_queue \<Rightarrow> bool" where
  "queue_ok q \<longleftrightarrow> pq_bytes q = sum_list (map raw_len (pq_items q))"

lemma raw_len_nonneg: "0 \<le> raw_len p" by (simp add: raw_len_def)

lemma shrink_queue_spec:
  "shrink_queue q = (lost, q') \<Longrightarrow> queue_ok q \<Longrightarrow>
    pq_items q = lost @ pq_items q' \<and> pq_dropped q' = pq_dropped q + length lost \<and> pq_max q' = pq_max q \<and> queue_ok q'
    \<and> (pq_bytes q' \<le> pq_max q' \<or> length (pq_items q') \<le> 1) \<and> (pq_items q \<noteq> [] \<longrightarrow> pq_items q' \<noteq> [])"
proof (induction q arbitrary: lost rule: shrink_queue.induct)
  case (1 q)
  show ?case
  proof (cases "pq_max q < pq_bytes q \<and> 1 < length (pq_items q)")
    case True
    let ?q = "(popHead q)\<lparr>pq_dropped := pq_dropped q + 1\<rparr>"
    obtain l1 where l1: "shrink_queue ?q = (l1, q')" "lost = hd (pq_items q) # l1"
      using 1(2) True by (subst (asm) shrink_queue.simps) (auto split: prod.splits)
    obtain p ps where p: "pq_items q = p # ps" "ps \<noteq> []" using True by (cases "pq_items q") auto
    have "queue_ok ?q" using 1(3) p by (simp add: queue_ok_def popHead_def)
    from 1(1) [OF True l1(1) this] p l1(2) show ?thesis by (auto simp: popHead_def)
  next
    case False
    then have "lost = [] \<and> q' = q" using 1(2) by (subst (asm) shrink_queue.simps) auto
    with 1(3) False show ?thesis by auto
  qed
qed

lemma queue_push_spec:
  assumes "queue_ok q"
  shows "\<exists>lost. pq_items q @ [pkt] = lost @ pq_items (queue_push pkt q) \<and> pq_dropped (queue_push pkt q) = pq_dropped q + length lost
    \<and> queue_ok (queue_push pkt q) \<and> pq_max (queue_push pkt q) = pq_max q
    \<and> (pq_bytes (queue_push pkt q) \<le> pq_max q \<or> length (pq_items (queue_push pkt q)) \<le> 1)"
proof -
  let ?q = "q\<lparr>pq_items := pq_items q @ [pkt], pq_bytes := pq_bytes q + raw_len pkt\<rparr>"
  obtain lost q' where s: "shrink_queue ?q = (lost, q')" by force
  have "queue_ok ?q" using assms by (simp add: queue_ok_def)
  note sp = shrink_queue_spec [OF s this]
  have "queue_push pkt q = q'" by (simp add: queue_push_def s)
  with sp show ?thesis by (intro exI [of _ lost]) auto
qed

section \<open>Order of the packets\<close>

definition on_the_way :: "decode_feed \<Rightarrow> packet list" where
  "on_the_way s = fd_taken s @ fd_chan s @ pq_items (fd_queue s)"

definition feed_ok :: "packet list \<Rightarrow> decode_feed \<Rightarrow> bool" where
  "feed_ok ps s \<longleftrightarrow> subseq (on_the_way s) ps \<and> length ps = length (on_the_way s) + pq_dropped (fd_queue s) \<and> queue_ok (fd_queue s)
    \<and> (pq_bytes (fd_queue s) \<le> pq_max (fd_queue s) \<or> length (pq_items (fd_queue s)) \<le> 1) \<and> length (fd_chan s) \<le> decodeQueueSize"

lemma worker_runs_way: "on_the_way (worker_runs s) = on_the_way s" "length (fd_chan (worker_runs s)) \<le> length (fd_chan s)"
  by (simp_all add: on_the_way_def worker_runs_def Let_def)

lemma feed_ok_worker: "feed_ok ps s \<Longrightarrow> feed_ok ps (worker_runs s)"
  using worker_runs_way [of s] by (auto simp: feed_ok_def)

lemma feed_try_False: "feed_try p s = (False, s1) \<Longrightarrow> s1 = worker_runs s"
  by (auto simp: feed_try_def Let_def split: if_splits)

lemma feed_try_True: "feed_try p s = (True, s1) \<Longrightarrow>
    s1 = (worker_runs s)\<lparr>fd_chan := fd_chan (worker_runs s) @ [p]\<rparr> \<and> length (fd_chan (worker_runs s)) < decodeQueueSize"
  by (auto simp: feed_try_def Let_def split: if_splits)

lemma feed_ok_send_head:
  assumes "feed_ok ps s" "pq_items (fd_queue s) \<noteq> []" "feed_try (hd (pq_items (fd_queue s))) s = (True, s1)"
  shows "feed_ok ps (s1\<lparr>fd_queue := popHead (fd_queue s1)\<rparr>)"
proof -
  obtain p rest where p: "pq_items (fd_queue s) = p # rest" using assms(2) by (cases "pq_items (fd_queue s)") auto
  note s1 = feed_try_True [OF assms(3)]
  let ?s = "s1\<lparr>fd_queue := popHead (fd_queue s1)\<rparr>"
  have "on_the_way ?s = on_the_way (worker_runs s)" using p s1 by (simp add: on_the_way_def popHead_def)
  then show ?thesis using feed_ok_worker [OF assms(1)] s1 p raw_len_nonneg [of p] by (auto simp: feed_ok_def popHead_def queue_ok_def)
qed

lemma feed_ok_send_new:
  assumes "feed_ok ps s" "pq_items (fd_queue s) = []" "feed_try pkt s = (True, s1)"
  shows "feed_ok (ps @ [pkt]) s1"
proof -
  note w = feed_ok_worker [OF assms(1)] and s1 = feed_try_True [OF assms(3)]
  have way: "on_the_way s1 = on_the_way (worker_runs s) @ [pkt]" using s1 assms(2) by (simp add: on_the_way_def)
  have "subseq (on_the_way (worker_runs s) @ [pkt]) (ps @ [pkt])" using w by (simp add: feed_ok_def list_emb_append_mono)
  then show ?thesis using w s1 way by (auto simp: feed_ok_def)
qed

lemma feed_ok_drain: "feed_ok ps s \<Longrightarrow> feed_ok ps (drainPending s)"
proof (induction s rule: drainPending.induct)
  case (1 s)
  show ?case
  proof (cases "pq_items (fd_queue s) = [] \<or> \<not> fd_attached s")
    case True
    then show ?thesis using 1(2) by (subst drainPending.simps) simp
  next
    case False
    obtain b s1 where b: "feed_try (hd (pq_items (fd_queue s))) s = (b, s1)" by force
    show ?thesis
    proof (cases b)
      case True
      with b have "feed_ok ps (s1\<lparr>fd_queue := popHead (fd_queue s1)\<rparr>)" using feed_ok_send_head [OF 1(2)] False by simp
      then have "feed_ok ps (drainPending (s1\<lparr>fd_queue := popHead (fd_queue s1)\<rparr>))" using 1(1) [OF False] b True by simp
      then show ?thesis using False b True by (subst drainPending.simps) simp
    next
      case bf: False
      with b feed_try_False have "s1 = worker_runs s" by simp
      then show ?thesis using False b bf feed_ok_worker [OF 1(2)] by (subst drainPending.simps) simp
    qed
  qed
qed

lemma feed_ok_drain_blocking: "feed_ok ps s \<Longrightarrow> feed_ok ps (drainPendingBlocking cs s)"
proof (induction cs arbitrary: s)
  case (Cons c cs)
  obtain sent s1 where f: "feed_try (hd (pq_items (fd_queue s))) s = (sent, s1)" by force
  have "feed_ok ps (if sent then s1\<lparr>fd_queue := popHead (fd_queue s1)\<rparr> else s1)" if "pq_items (fd_queue s) \<noteq> []"
    using feed_ok_send_head [OF Cons.prems that] feed_ok_worker [OF Cons.prems] f by (cases sent) (auto dest: feed_try_False)
  then show ?case using Cons.IH Cons.prems feed_ok_worker [OF Cons.prems] f
    by (cases sent) (auto split: select_pick.split)
qed simp

text \<open>A replayed packet that is sent goes behind those that wait; a packet on which the context ends is given up.\<close>

lemma feed_ok_replay:
  "feed_ok ps s \<Longrightarrow> PickDone \<notin> set cs \<Longrightarrow> replay_packet cs pkt s = (b, s1) \<Longrightarrow> feed_ok (if b then ps @ [pkt] else ps) s1"
proof (induction cs pkt s rule: replay_packet.induct)
  case (2 c cs pkt s)
  show ?case
  proof (cases c)
    case PickSend
    obtain sent s2 where f: "feed_try (headOr pkt (fd_queue s)) s = (sent, s2)" by force
    show ?thesis
    proof (cases sent)
      case True
      then have q: "fd_queue s2 = fd_queue s" using f feed_try_sel by blast
      show ?thesis
      proof (cases "pq_items (fd_queue s) = []")
        case e: True
        then show ?thesis using feed_ok_send_new [OF 2(4) e] 2(6) PickSend f True q by (auto simp: headOr_def)
      next
        case ne: False
        have "feed_ok ps (s2\<lparr>fd_queue := popHead (fd_queue s2)\<rparr>)" using feed_ok_send_head [OF 2(4) ne] f True ne by (simp add: headOr_def)
        then show ?thesis using 2(1) [OF PickSend] 2(5,6) PickSend f True q ne by simp
      qed
    next
      case False
      then have "s2 = worker_runs s" using f by (simp add: feed_try_False)
      then have "feed_ok ps s2" using feed_ok_worker [OF 2(4)] by simp
      then show ?thesis using 2(2) [OF PickSend] 2(5,6) PickSend f False by simp
    qed
  next
    case PickEvents
    then show ?thesis using 2(3) [OF PickEvents feed_ok_worker [OF 2(4)]] 2(5,6) by simp
  next
    case PickDone
    then show ?thesis using 2(5) by simp
  qed
qed simp

lemma stopped_drain_may_send_nothing: "drainPendingBlocking (PickDone # cs) s = s" by simp

lemma feed_ok_push:
  assumes ok: "feed_ok ps s"
  shows "feed_ok (ps @ [pkt]) (s\<lparr>fd_queue := queue_push pkt (fd_queue s)\<rparr>)"
proof -
  have q: "queue_ok (fd_queue s)" using ok by (simp add: feed_ok_def)
  obtain lost where l: "pq_items (fd_queue s) @ [pkt] = lost @ pq_items (queue_push pkt (fd_queue s))"
      "pq_dropped (queue_push pkt (fd_queue s)) = pq_dropped (fd_queue s) + length lost" "queue_ok (queue_push pkt (fd_queue s))"
      "pq_max (queue_push pkt (fd_queue s)) = pq_max (fd_queue s)"
      "pq_bytes (queue_push pkt (fd_queue s)) \<le> pq_max (fd_queue s) \<or> length (pq_items (queue_push pkt (fd_queue s))) \<le> 1"
    using queue_push_spec [OF q, of pkt] by blast
  have "subseq (on_the_way s @ [pkt]) (ps @ [pkt])" using ok by (simp add: feed_ok_def list_emb_append_mono)
  moreover have "on_the_way s @ [pkt] = fd_taken s @ fd_chan s @ lost @ pq_items (queue_push pkt (fd_queue s))"
    using l(1) by (simp add: on_the_way_def)
  moreover have "subseq (pq_items (queue_push pkt (fd_queue s))) (lost @ pq_items (queue_push pkt (fd_queue s)))" by (rule suffix_imp_subseq) (simp add: suffix_def)
  ultimately have "subseq (fd_taken s @ fd_chan s @ pq_items (queue_push pkt (fd_queue s))) (ps @ [pkt])"
    by (metis list_emb_append_mono subseq_order.order_refl subseq_order.order_trans)
  moreover have "length (pq_items (fd_queue s)) + 1 = length lost + length (pq_items (queue_push pkt (fd_queue s)))"
    using arg_cong [OF l(1), of length] by simp
  ultimately show ?thesis using ok l by (auto simp: feed_ok_def on_the_way_def)
qed

lemma feed_ok_feedDecode:
  assumes ok: "feed_ok ps s"
  shows "feed_ok (ps @ [pkt]) (feedDecode pkt s)"
proof -
  let ?s1 = "drainPending s"
  have ok1: "feed_ok ps ?s1" by (rule feed_ok_drain [OF ok])
  show ?thesis
  proof (cases "\<not> fd_attached ?s1 \<or> pq_items (fd_queue ?s1) \<noteq> []")
    case True
    then show ?thesis using feed_ok_push [OF ok1] by (simp add: feedDecode_def Let_def)
  next
    case False
    obtain b s2 where b: "feed_try pkt ?s1 = (b, s2)" by force
    note w = feed_ok_worker [OF ok1]
    show ?thesis
    proof (cases b)
      case bt: True
      have "feed_ok (ps @ [pkt]) s2" using feed_ok_send_new [OF ok1] False b bt by simp
      then show ?thesis using False b bt by (simp add: feedDecode_def Let_def)
    next
      case bf: False
      have "s2 = worker_runs ?s1" using b bf feed_try_False by simp
      then show ?thesis using feed_ok_push [OF w] False b bf by (simp add: feedDecode_def Let_def)
    qed
  qed
qed

lemma fed_append [simp]: "fed (xs @ ys) = fed xs @ fed ys"
  by (induction xs rule: fed.induct) auto

lemma feed_ok_run: "feed_ok (fed acts) (feed_run acts (feed_start maxBytes schedule))"
proof (induction acts rule: rev_induct)
  case Nil
  then show ?case by (auto simp: feed_run_def feed_ok_def feed_start_def newPendingQueue_def on_the_way_def queue_ok_def)
next
  case (snoc a acts)
  have r: "feed_run (acts @ [a]) (feed_start maxBytes schedule) = feed_step a (feed_run acts (feed_start maxBytes schedule))"
    by (simp add: feed_run_def)
  show ?case
  proof (cases a)
    case (FeedPacket pkt)
    then show ?thesis unfolding r using snoc feed_ok_feedDecode by simp
  next
    case FeedDrain
    then show ?thesis unfolding r using snoc feed_ok_drain by simp
  next
    case (FeedAttach b)
    then show ?thesis unfolding r using snoc by (simp add: feed_ok_def on_the_way_def)
  qed
qed

text \<open>C9: However the worker is scheduled and the decoder comes and goes, the packets it takes, those in the channel and those waiting
  are the captured ones in the order of capture; the missing ones are counted as dropped, and the queue keeps its byte limit
  unless a single packet is above it.\<close>

theorem capture_feed_in_order:
  assumes "s = feed_run acts (feed_start maxBytes schedule)"
  shows "subseq (fd_taken s @ fd_chan s @ pq_items (fd_queue s)) (fed acts)
    \<and> length (fed acts) = length (fd_taken s) + length (fd_chan s) + length (pq_items (fd_queue s)) + pq_dropped (fd_queue s)
    \<and> (pq_dropped (fd_queue s) = 0 \<longrightarrow> fd_taken s @ fd_chan s @ pq_items (fd_queue s) = fed acts)
    \<and> (sum_list (map raw_len (pq_items (fd_queue s))) \<le> pq_max (fd_queue s) \<or> length (pq_items (fd_queue s)) \<le> 1)"
proof -
  have ok: "feed_ok (fed acts) s" unfolding assms by (rule feed_ok_run)
  have "pq_dropped (fd_queue s) = 0 \<longrightarrow> on_the_way s = fed acts"
    using ok by (auto simp: feed_ok_def dest: subseq_same_length)
  with ok show ?thesis by (auto simp: feed_ok_def on_the_way_def queue_ok_def)
qed

definition short_packet :: "string \<Rightarrow> packet" where
  "short_packet i = \<lparr>pk_id = i, pk_time = 0, pk_raw = [1, 2], pk_src = \<lparr>ap_text = ''a:5000'', ap_port = 5000, ap_valid = True\<rparr>,
    pk_dst = \<lparr>ap_text = ''b:80'', ap_port = 80, ap_valid = True\<rparr>, pk_protocol = ''tcp'', pk_meta = []\<rparr>"

lemma drain_nothing: "pq_items (fd_queue s) = [] \<or> \<not> fd_attached s \<Longrightarrow> drainPending s = s"
  by (subst drainPending.simps) simp

lemma push_fits: "pq_bytes q + raw_len pkt \<le> pq_max q \<Longrightarrow> queue_push pkt q = q\<lparr>pq_items := pq_items q @ [pkt], pq_bytes := pq_bytes q + raw_len pkt\<rparr>"
  unfolding queue_push_def by (subst shrink_queue.simps) simp

definition feed_demo :: "feed_act list" where
  "feed_demo = [FeedAttach True, FeedPacket (short_packet ''1''), FeedPacket (short_packet ''2''), FeedAttach False, FeedPacket (short_packet ''3'')]"

theorem capture_feed_in_order_witness:
  "\<exists>s. s = feed_run feed_demo (feed_start 4 [0, 1]) \<and> map pk_id (fd_taken s @ fd_chan s @ pq_items (fd_queue s)) = [''1'', ''2'', ''3'']"
proof -
  let ?s = "feed_run feed_demo (feed_start 4 [0, 1])"
  have "pq_dropped (fd_queue ?s) = 0"
    by (simp add: feed_run_def feed_demo_def feed_start_def newPendingQueue_def feedDecode_def drain_nothing feed_try_def worker_runs_def
        push_fits raw_len_def short_packet_def decodeQueueSize_def Let_def)
  then have "fd_taken ?s @ fd_chan ?s @ pq_items (fd_queue ?s) = fed feed_demo"
    using capture_feed_in_order [OF refl, of feed_demo 4 "[0, 1]"] by blast
  then show ?thesis by (intro exI [of _ ?s]) (simp add: feed_demo_def short_packet_def)
qed

section \<open>Order of the events\<close>

definition outcomes_of :: "('err + 'f) option list \<Rightarrow> 'f list" where
  "outcomes_of submits = List.map_filter (\<lambda>x. case x of Some (Inr f) \<Rightarrow> Some f | _ \<Rightarrow> None) submits"

definition results_of :: "('f \<Rightarrow> 'err + 'ev list) \<Rightarrow> 'f list \<Rightarrow> 'ev list list" where
  "results_of outcome fs = filter (\<lambda>evs. evs \<noteq> []) (List.map_filter (\<lambda>f. case outcome f of Inr evs \<Rightarrow> Some evs | Inl _ \<Rightarrow> None) fs)"

lemma results_of_simps [simp]:
  "results_of outcome [] = []"
  "results_of outcome (f # fs) = (case outcome f of Inl _ \<Rightarrow> results_of outcome fs | Inr evs \<Rightarrow> (if evs = [] then results_of outcome fs else evs # results_of outcome fs))"
  "results_of outcome (fs @ gs) = results_of outcome fs @ results_of outcome gs"
  by (auto simp: results_of_def List.map_filter_def split: sum.split)

lemma drain_to_out:
  "wk_out (drain_to n outcome w) @ results_of outcome (wk_window (drain_to n outcome w)) = wk_out w @ results_of outcome (wk_window w)
   \<and> (n = 0 \<longrightarrow> wk_window (drain_to n outcome w) = []) \<and> (0 < n \<longrightarrow> length (wk_window (drain_to n outcome w)) < n)"
proof (induction n outcome w rule: drain_to.induct)
  case (1 n outcome w)
  show ?case
  proof (cases "n \<le> length (wk_window w) \<and> wk_window w \<noteq> []")
    case True
    then obtain f fs where f: "wk_window w = f # fs" by (cases "wk_window w") auto
    have d: "drain_to n outcome w = drain_to n outcome (drainHead outcome w)" using True by (subst drain_to.simps) simp
    have "wk_out (drainHead outcome w) @ results_of outcome (wk_window (drainHead outcome w)) = wk_out w @ results_of outcome (wk_window w)"
      by (simp add: drainHead_def Let_def f split: sum.split)
    with 1 [OF True] show ?thesis unfolding d by simp
  next
    case False
    then have "drain_to n outcome w = w" by (subst drain_to.simps) auto
    with False show ?thesis by (cases "wk_window w") auto
  qed
qed

lemma worker_fold_out:
  "wk_out (fold (worker_packet outcome) submits w) @ results_of outcome (wk_window (fold (worker_packet outcome) submits w))
    = wk_out w @ results_of outcome (wk_window w) @ results_of outcome (outcomes_of submits)"
proof (induction submits arbitrary: w)
  case (Cons x submits)
  have "wk_out (worker_packet outcome x w) @ results_of outcome (wk_window (worker_packet outcome x w))
      = wk_out w @ results_of outcome (wk_window w) @ results_of outcome (outcomes_of [x])"
    using drain_to_out [of decodeWindow outcome] 
    by (auto simp: worker_packet_def outcomes_of_def map_filter_simps split: option.split sum.split)
  with Cons [of "worker_packet outcome x w"] show ?case
    by (auto simp: outcomes_of_def map_filter_simps split: option.split sum.split)
qed (simp add: outcomes_of_def map_filter_simps)

text \<open>C21: The worker delivers the events of the packets it submitted in the order of submission, whatever order the decoder answers
  in, with at most 16 in flight; errors and packets without events leave no trace in it.\<close>

theorem worker_keeps_order:
  "wk_out (worker_all outcome submits) = results_of outcome (outcomes_of submits) \<and> wk_window (worker_all outcome submits) = []
   \<and> length (wk_window (fold (worker_packet outcome) submits \<lparr>wk_window = [], wk_errors = 0, wk_out = []\<rparr>)) < 16"
proof -
  let ?w = "fold (worker_packet outcome) submits \<lparr>wk_window = [], wk_errors = 0, wk_out = []\<rparr>"
  note d = drain_to_out [of 0 outcome ?w] and f = worker_fold_out [of outcome submits "\<lparr>wk_window = [], wk_errors = 0, wk_out = []\<rparr>"]
  have e: "wk_window (drain_to 0 outcome ?w) = []" using d by blast
  have "wk_out (drain_to 0 outcome ?w) = wk_out ?w @ results_of outcome (wk_window ?w)" using conjunct1 [OF d] unfolding e by simp
  then have "wk_window (worker_all outcome submits) = []" "wk_out (worker_all outcome submits) = results_of outcome (outcomes_of submits)"
    using e f by (simp_all add: worker_all_def)
  moreover have "length (wk_window (fold (worker_packet outcome) submits w)) < 16" if "length (wk_window w) < 16" for w
    using that
  proof (induction submits arbitrary: w)
    case (Cons x submits)
    have "length (wk_window (worker_packet outcome x w)) < 16"
      using Cons.prems drain_to_out [of decodeWindow outcome "w\<lparr>wk_window := wk_window w @ [f]\<rparr>" for f]
      by (auto simp: worker_packet_def decodeWindow_def split: option.split sum.split)
    from Cons.IH [OF this] show ?case by simp
  qed simp
  ultimately show ?thesis by simp
qed

text \<open>Packets that reach the worker when the decoder has gone are skipped, however many the channel holds: they are neither kept
  for the next decoder nor counted.\<close>

lemma detached_packets_skipped: "worker_all outcome (replicate n None) = \<lparr>wk_window = [], wk_errors = 0, wk_out = []\<rparr>"
proof -
  have "fold (worker_packet outcome) (replicate n None) w = w" for w by (induction n) (simp_all add: worker_packet_def)
  then show ?thesis by (simp add: worker_all_def) (subst drain_to.simps, simp)
qed

text \<open>
  The write buffers over any sequence of flushes, failing or not: each stream is written once, in order, and what is missing is
  counted.  The state changes hang on events being there.
\<close>

section \<open>One stream\<close>

text \<open>Captured so far, written, still buffered, dropped.\<close>

definition written_ok :: "'a list \<Rightarrow> 'a list \<Rightarrow> 'a list \<Rightarrow> nat \<Rightarrow> bool" where
  "written_ok xs written buf lost \<longleftrightarrow> subseq (written @ buf) xs \<and> length xs = length written + length buf + lost"

lemma written_ok_add: "written_ok xs written buf lost \<Longrightarrow> written_ok (xs @ ys) written (buf @ ys) lost"
  using list_emb_append_mono [of "(=)" "written @ buf" xs ys ys] by (simp add: written_ok_def)

lemma written_ok_write: "written_ok xs written buf lost \<Longrightarrow> written_ok xs (written @ buf) [] lost"
  by (simp add: written_ok_def)

lemma written_ok_retain:
  assumes "written_ok xs written buf lost" "retainOnFailure buf mx = (r, n)"
  shows "written_ok xs written r (lost + n) \<and> length r \<le> max mx (length buf) \<and> (mx < length buf \<longrightarrow> length r = mx)"
proof -
  have r: "r = drop (length buf - mx) buf" "n = length buf - mx"
    using assms(2) by (auto simp: retainOnFailure_def split: if_splits)
  have "subseq (written @ r) (written @ buf)"
    unfolding r by (intro list_emb_append_mono subseq_order.order_refl suffix_imp_subseq suffix_drop)
  then show ?thesis using assms(1) by (auto simp: written_ok_def r intro: subseq_order.order_trans)
qed

lemma written_ok_exact: "written_ok xs written buf lost \<Longrightarrow> lost = 0 \<Longrightarrow> written @ buf = xs"
  by (auto simp: written_ok_def intro: subseq_same_length)

section \<open>Runs\<close>

text \<open>What is captured between two flushes, and how the flush ends.\<close>

record ('ev, 'sc, 'm) capture_round =
  ro_raws :: "packet list"
  ro_events :: "'ev list"
  ro_changes :: "'sc list"
  ro_metrics :: "'m list"
  ro_outcome :: flush_outcome

definition empty_buffers :: "('ev, 'sc, 'm) write_buffers" where
  "empty_buffers = \<lparr>wb_raws = [], wb_events = [], wb_changes = [], wb_metrics = [], wb_rawCount = 0, wb_eventCount = 0, wb_metricCount = 0, wb_overflow = 0\<rparr>"
definition empty_store :: "('ev, 'sc, 'm) flush_store" where
  "empty_store = \<lparr>st_raws = [], st_events = [], st_changes = [], st_metrics = []\<rparr>"

definition capture_round_step ::
  "('ev, 'sc, 'm) capture_round \<Rightarrow> ('ev, 'sc, 'm) write_buffers \<times> ('ev, 'sc, 'm) flush_store \<Rightarrow> ('ev, 'sc, 'm) write_buffers \<times> ('ev, 'sc, 'm) flush_store" where
  "capture_round_step ro = (\<lambda>(b, st). flush_buffers (ro_outcome ro) (ro_metrics ro)
     (b\<lparr>wb_raws := wb_raws b @ ro_raws ro, wb_events := wb_events b @ ro_events ro, wb_changes := wb_changes b @ ro_changes ro\<rparr>, st))"

definition capture_rounds :: "('ev, 'sc, 'm) capture_round list \<Rightarrow> ('ev, 'sc, 'm) write_buffers \<times> ('ev, 'sc, 'm) flush_store" where
  "capture_rounds rounds = fold capture_round_step rounds (empty_buffers, empty_store)"

definition buffers_ok :: "packet list \<Rightarrow> 'ev list \<Rightarrow> 'sc list \<Rightarrow> 'm list \<Rightarrow> ('ev, 'sc, 'm) write_buffers \<times> ('ev, 'sc, 'm) flush_store \<Rightarrow> bool" where
  "buffers_ok xr xe xc xm = (\<lambda>(b, st). \<exists>lr le lc lm. written_ok xr (st_raws st) (wb_raws b) lr \<and> written_ok xe (st_events st) (wb_events b) le
     \<and> written_ok xc (st_changes st) (wb_changes b) lc \<and> written_ok xm (st_metrics st) (wb_metrics b) lm \<and> wb_overflow b = lr + le + lc + lm
     \<and> wb_rawCount b = length (st_raws st) \<and> wb_eventCount b = length (st_events st) \<and> wb_metricCount b = length (st_metrics st))"

lemma buffers_okI:
  assumes "written_ok xr (st_raws st) (wb_raws b) lr" "written_ok xe (st_events st) (wb_events b) le" "written_ok xc (st_changes st) (wb_changes b) lc"
    "written_ok xm (st_metrics st) (wb_metrics b) lm" "wb_overflow b = lr + le + lc + lm"
    "wb_rawCount b = length (st_raws st)" "wb_eventCount b = length (st_events st)" "wb_metricCount b = length (st_metrics st)"
  shows "buffers_ok xr xe xc xm (b, st)"
  using assms unfolding buffers_ok_def by blast

lemma buffers_okE:
  assumes "buffers_ok xr xe xc xm (b, st)"
  obtains lr le lc lm where "written_ok xr (st_raws st) (wb_raws b) lr" "written_ok xe (st_events st) (wb_events b) le" "written_ok xc (st_changes st) (wb_changes b) lc"
    "written_ok xm (st_metrics st) (wb_metrics b) lm" "wb_overflow b = lr + le + lc + lm"
    "wb_rawCount b = length (st_raws st)" "wb_eventCount b = length (st_events st)" "wb_metricCount b = length (st_metrics st)"
  using assms unfolding buffers_ok_def by blast

lemma buffers_ok_raws: "buffers_ok xr xe xc xm bs \<Longrightarrow> buffers_ok xr xe xc xm (flush_raws ok bs)"
proof (cases bs)
  case (Pair b st)
  assume "buffers_ok xr xe xc xm bs"
  then obtain lr le lc lm where o: "written_ok xr (st_raws st) (wb_raws b) lr" "written_ok xe (st_events st) (wb_events b) le" "written_ok xc (st_changes st) (wb_changes b) lc"
    "written_ok xm (st_metrics st) (wb_metrics b) lm" "wb_overflow b = lr + le + lc + lm"
    "wb_rawCount b = length (st_raws st)" "wb_eventCount b = length (st_events st)" "wb_metricCount b = length (st_metrics st)"
    unfolding Pair by (rule buffers_okE)
  obtain r n where r: "retainOnFailure (wb_raws b) 32768 = (r, n)" by force
  show ?thesis
    using o written_ok_retain [OF o(1) r] written_ok_write [OF o(1)]
    by (auto simp: Pair flush_raws_def r intro: buffers_okI [where lr = lr] buffers_okI [where lr = "lr + n"])
qed

lemma buffers_ok_changes: "buffers_ok xr xe xc xm bs \<Longrightarrow> buffers_ok xr xe xc xm (flush_changes ok bs)"
proof (cases bs)
  case (Pair b st)
  assume "buffers_ok xr xe xc xm bs"
  then obtain lr le lc lm where o: "written_ok xr (st_raws st) (wb_raws b) lr" "written_ok xe (st_events st) (wb_events b) le" "written_ok xc (st_changes st) (wb_changes b) lc"
    "written_ok xm (st_metrics st) (wb_metrics b) lm" "wb_overflow b = lr + le + lc + lm"
    "wb_rawCount b = length (st_raws st)" "wb_eventCount b = length (st_events st)" "wb_metricCount b = length (st_metrics st)"
    unfolding Pair by (rule buffers_okE)
  obtain r n where r: "retainOnFailure (wb_changes b) 131072 = (r, n)" by force
  show ?thesis
    using o written_ok_retain [OF o(3) r] written_ok_write [OF o(3)]
    by (auto simp: Pair flush_changes_def r intro: buffers_okI [where lc = lc] buffers_okI [where lc = "lc + n"])
qed

lemma buffers_ok_metrics: "buffers_ok xr xe xc xm bs \<Longrightarrow> buffers_ok xr xe xc xm (flush_metrics ok bs)"
proof (cases bs)
  case (Pair b st)
  assume "buffers_ok xr xe xc xm bs"
  then obtain lr le lc lm where o: "written_ok xr (st_raws st) (wb_raws b) lr" "written_ok xe (st_events st) (wb_events b) le" "written_ok xc (st_changes st) (wb_changes b) lc"
    "written_ok xm (st_metrics st) (wb_metrics b) lm" "wb_overflow b = lr + le + lc + lm"
    "wb_rawCount b = length (st_raws st)" "wb_eventCount b = length (st_events st)" "wb_metricCount b = length (st_metrics st)"
    unfolding Pair by (rule buffers_okE)
  obtain r n where r: "retainOnFailure (wb_metrics b) 65536 = (r, n)" by force
  show ?thesis
    using o written_ok_retain [OF o(4) r] written_ok_write [OF o(4)]
    by (auto simp: Pair flush_metrics_def r intro: buffers_okI [where lm = lm] buffers_okI [where lm = "lm + n"])
qed

lemma flush_changes_events:
  "flush_changes ok (b, st) = (b1, st1) \<Longrightarrow> flush_changes ok (b\<lparr>wb_events := es\<rparr>, st) = (b1\<lparr>wb_events := es\<rparr>, st1)"
  by (auto simp: flush_changes_def split: if_splits prod.splits)

lemma buffers_ok_events: "buffers_ok xr xe xc xm bs \<Longrightarrow> buffers_ok xr xe xc xm (flush_events ok bs)"
proof (cases bs)
  case (Pair b st)
  assume "buffers_ok xr xe xc xm bs"
  then obtain lr le lc lm where o: "written_ok xr (st_raws st) (wb_raws b) lr" "written_ok xe (st_events st) (wb_events b) le" "written_ok xc (st_changes st) (wb_changes b) lc"
    "written_ok xm (st_metrics st) (wb_metrics b) lm" "wb_overflow b = lr + le + lc + lm"
    "wb_rawCount b = length (st_raws st)" "wb_eventCount b = length (st_events st)" "wb_metricCount b = length (st_metrics st)"
    unfolding Pair by (rule buffers_okE)
  show ?thesis
  proof (cases "wb_events b \<noteq> [] \<and> fo_events ok")
    case True
    let ?b = "b\<lparr>wb_eventCount := wb_eventCount b + length (wb_events b)\<rparr>" and ?st = "st\<lparr>st_events := st_events st @ wb_events b\<rparr>"
    obtain b1 st1 where c: "flush_changes ok (?b, ?st) = (b1, st1)" by force
    have "buffers_ok xr xe xc xm (?b\<lparr>wb_events := []\<rparr>, ?st)"
      using o written_ok_write [OF o(2)] by (intro buffers_okI [where lr = lr and le = le and lc = lc and lm = lm]) simp_all
    from buffers_ok_changes [OF this, of ok] show ?thesis
      using True c flush_changes_events [OF c, of "[]"] by (simp add: Pair flush_events_def)
  next
    case False
    obtain r n where r: "retainOnFailure (wb_events b) 65536 = (r, n)" by force
    show ?thesis
      using False o written_ok_retain [OF o(2) r]
      by (auto simp: Pair flush_events_def r intro: buffers_okI [where le = le] buffers_okI [where le = "le + n"])
  qed
qed

lemma buffers_ok_round:
  "buffers_ok xr xe xc xm bs \<Longrightarrow> buffers_ok (xr @ ro_raws ro) (xe @ ro_events ro) (xc @ ro_changes ro) (xm @ ro_metrics ro) (capture_round_step ro bs)"
proof (cases bs)
  case (Pair b st)
  assume ok: "buffers_ok xr xe xc xm bs"
  let ?b = "b\<lparr>wb_raws := wb_raws b @ ro_raws ro, wb_events := wb_events b @ ro_events ro, wb_changes := wb_changes b @ ro_changes ro,
     wb_metrics := wb_metrics b @ ro_metrics ro\<rparr>"
  have "buffers_ok (xr @ ro_raws ro) (xe @ ro_events ro) (xc @ ro_changes ro) (xm @ ro_metrics ro) (?b, st)"
    using ok unfolding Pair by (auto elim!: buffers_okE intro!: written_ok_add intro: buffers_okI)
  then show ?thesis
    by (simp add: Pair capture_round_step_def flush_buffers_def buffers_ok_raws buffers_ok_events buffers_ok_metrics)
qed

lemma buffers_ok_rounds:
  "buffers_ok (concat (map ro_raws rounds)) (concat (map ro_events rounds)) (concat (map ro_changes rounds)) (concat (map ro_metrics rounds)) (capture_rounds rounds)"
proof (induction rounds rule: rev_induct)
  case Nil
  show ?case by (simp add: capture_rounds_def empty_buffers_def empty_store_def buffers_ok_def written_ok_def)
next
  case (snoc ro rounds)
  from buffers_ok_round [OF this, of ro] show ?case by (simp add: capture_rounds_def)
qed

text \<open>C12: Whichever writes fail, everything captured is written once and in order or still buffered, the counters say how much was
  written, and what the limits of the buffers cost is counted; without such loss nothing is missing.\<close>

theorem flush_writes_once:
  assumes "capture_rounds rounds = (b, st)"
  shows "subseq (st_raws st @ wb_raws b) (concat (map ro_raws rounds)) \<and> subseq (st_events st @ wb_events b) (concat (map ro_events rounds))
    \<and> wb_rawCount b = length (st_raws st) \<and> wb_eventCount b = length (st_events st) \<and> wb_metricCount b = length (st_metrics st)
    \<and> wb_overflow b + length (st_raws st @ wb_raws b) + length (st_events st @ wb_events b) + length (st_changes st @ wb_changes b)
        + length (st_metrics st @ wb_metrics b)
      = length (concat (map ro_raws rounds)) + length (concat (map ro_events rounds)) + length (concat (map ro_changes rounds))
        + length (concat (map ro_metrics rounds))
    \<and> (wb_overflow b = 0 \<longrightarrow> st_raws st @ wb_raws b = concat (map ro_raws rounds) \<and> st_events st @ wb_events b = concat (map ro_events rounds)
        \<and> st_changes st @ wb_changes b = concat (map ro_changes rounds) \<and> st_metrics st @ wb_metrics b = concat (map ro_metrics rounds))"
proof -
  have "buffers_ok (concat (map ro_raws rounds)) (concat (map ro_events rounds)) (concat (map ro_changes rounds)) (concat (map ro_metrics rounds)) (b, st)"
    using buffers_ok_rounds [of rounds] by (simp add: assms)
  then obtain lr le lc lm where o: "written_ok (concat (map ro_raws rounds)) (st_raws st) (wb_raws b) lr"
    "written_ok (concat (map ro_events rounds)) (st_events st) (wb_events b) le" "written_ok (concat (map ro_changes rounds)) (st_changes st) (wb_changes b) lc"
    "written_ok (concat (map ro_metrics rounds)) (st_metrics st) (wb_metrics b) lm" "wb_overflow b = lr + le + lc + lm"
    "wb_rawCount b = length (st_raws st)" "wb_eventCount b = length (st_events st)" "wb_metricCount b = length (st_metrics st)"
    by (rule buffers_okE)
  then show ?thesis
    using written_ok_exact [OF o(1)] written_ok_exact [OF o(2)] written_ok_exact [OF o(3)] written_ok_exact [OF o(4)] by (auto simp: written_ok_def)
qed

definition all_written :: flush_outcome where
  "all_written = \<lparr>fo_raws = True, fo_events = True, fo_changes = True, fo_metrics = True\<rparr>"

definition retry_rounds :: "(nat, nat, nat) capture_round list" where
  "retry_rounds = [\<lparr>ro_raws = [], ro_events = [1], ro_changes = [10], ro_metrics = [], ro_outcome = all_written\<lparr>fo_events := False\<rparr>\<rparr>,
     \<lparr>ro_raws = [], ro_events = [2], ro_changes = [20], ro_metrics = [5], ro_outcome = all_written\<rparr>]"

lemmas flush_eval = capture_rounds_def capture_round_step_def flush_buffers_def flush_raws_def flush_events_def flush_changes_def flush_metrics_def
  retainOnFailure_def empty_buffers_def empty_store_def all_written_def

theorem flush_writes_once_witness:
  "\<exists>b st. capture_rounds retry_rounds = (b, st) \<and> st_events st @ wb_events b = [1, 2] \<and> st_changes st @ wb_changes b = [10, 20]"
proof -
  obtain b st where c: "capture_rounds retry_rounds = (b, st)" by force
  then have "wb_overflow b = 0" by (auto simp: retry_rounds_def flush_eval)
  with flush_writes_once [OF c] c show ?thesis by (simp add: retry_rounds_def)
qed

section \<open>State changes left behind\<close>

text \<open>Changes whose write failed after their events were written wait for the next event; if none comes, no flush writes them.\<close>

lemma changes_need_events:
  "list_all (\<lambda>ro. ro_events ro = []) rounds \<Longrightarrow> wb_events b = [] \<Longrightarrow>
    st_changes (snd (fold capture_round_step rounds (b, st))) = st_changes st \<and> wb_events (fst (fold capture_round_step rounds (b, st))) = []"
proof (induction rounds arbitrary: b st)
  case (Cons ro rounds)
  obtain b1 st1 where s: "capture_round_step ro (b, st) = (b1, st1)" by force
  have "st_changes st1 = st_changes st \<and> wb_events b1 = []"
    using s Cons.prems by (auto simp: capture_round_step_def flush_buffers_def flush_raws_def flush_events_def flush_metrics_def split: if_splits prod.splits)
  with Cons.IH [of b1 st1] Cons.prems(1) show ?case by (simp add: s)
qed simp

lemma last_changes_lost:
  "let rounds = [\<lparr>ro_raws = [], ro_events = [1::nat], ro_changes = [10::nat], ro_metrics = [], ro_outcome = all_written\<lparr>fo_changes := False\<rparr>\<rparr>,
      \<lparr>ro_raws = [], ro_events = [], ro_changes = [], ro_metrics = [], ro_outcome = all_written\<rparr>] :: (nat, nat, nat) capture_round list
   in st_events (snd (capture_rounds rounds)) = [1] \<and> st_changes (snd (capture_rounds rounds)) = [] \<and> wb_changes (fst (capture_rounds rounds)) = [10]"
  by (simp add: flush_eval)

end
