(* ===== verification/Capture_Decoder.thy ===== *)
theory Capture_Decoder imports Plugin_Registry_Props Capture_Queue begin

text \<open>
  Which decoder a capture session uses (\<open>capture_task.go\<close>): the owners it may use plugins of, the lookup in the registry, and
  the loop's resolution of the decoder with its throttle and its pause after a broken stream.
\<close>

section \<open>The session\<close>

record capture_session =
  cp_owner :: string
  cp_plugin :: string
  cp_pluginOwners :: "string list"

fun add_owners :: "string list \<Rightarrow> string list \<Rightarrow> string list" where
  "add_owners seen [] = seen"
| "add_owners seen (x # xs) = add_owners (if x \<in> set seen then seen else seen @ [x]) xs"

definition pluginOwnerCandidates :: "capture_session \<Rightarrow> string list" where
  "pluginOwnerCandidates t = add_owners [cp_owner t] (cp_pluginOwners t)"

text \<open>\<open>ids\<close> is the order in which Go walks through the table of plugins.\<close>

definition resolveDecoderClient :: "sdk \<Rightarrow> string list \<Rightarrow> capture_session \<Rightarrow> registry \<Rightarrow> (decoder_client \<times> schema_registry) option" where
  "resolveDecoderClient k ids t s =
    (if cp_plugin t \<noteq> []
     then (case FindByNameAmong k (pluginOwnerCandidates t) (cp_plugin t) s of
         Some r \<Rightarrow> Some r
       | None \<Rightarrow> FindFor k ids (cp_owner t) (cp_plugin t) s)
     else FindFor k ids (cp_owner t) ''tcp'' s)"

datatype decoder_action = ActIdle | ActDrop | ActKeep | ActBuild

definition decoderAction :: "decoder_client option \<Rightarrow> decoder_client option \<Rightarrow> bool \<Rightarrow> decoder_action" where
  "decoderAction client current haveDispatcher =
    (if client = None then (if haveDispatcher then ActDrop else ActIdle)
     else if client = current then ActKeep
     else ActBuild)"

section \<open>Resolution in the loop\<close>

text \<open>\<open>rs_disp\<close> is the client whose stream the dispatcher holds.  Times are in nanoseconds.\<close>

record resolve_state =
  rs_disp :: "decoder_client option"
  rs_client :: "decoder_client option"
  rs_last :: int
  rs_reconnect :: int

definition resolve_start :: resolve_state where
  "resolve_start = \<lparr>rs_disp = None, rs_client = None, rs_last = 0, rs_reconnect = 0\<rparr>"

definition decoder_switch :: "decoder_client option \<Rightarrow> bool \<Rightarrow> resolve_state \<Rightarrow> resolve_state" where
  "decoder_switch client opened s =
    (case decoderAction client (rs_client s) (rs_disp s \<noteq> None) of
       ActIdle \<Rightarrow> s
     | ActDrop \<Rightarrow> s\<lparr>rs_disp := None, rs_client := None\<rparr>
     | ActKeep \<Rightarrow> s
     | ActBuild \<Rightarrow> (if opened then s\<lparr>rs_disp := client, rs_client := client\<rparr> else s\<lparr>rs_disp := None, rs_client := None\<rparr>))"

text \<open>\<open>healthy\<close> is \<open>IsHealthy\<close> of the dispatcher, \<open>client\<close> what the lookup gives, \<open>opened\<close> whether a stream can be opened.\<close>

definition resolveDecoder :: "int \<Rightarrow> bool \<Rightarrow> bool \<Rightarrow> decoder_client option \<Rightarrow> bool \<Rightarrow> resolve_state \<Rightarrow> resolve_state" where
  "resolveDecoder now force healthy client opened s =
    (if \<not> force \<and> rs_disp s \<noteq> None \<and> now - rs_last s < 3000000000 then s
     else (let s1 = s\<lparr>rs_last := now\<rparr> in
       (if rs_disp s1 \<noteq> None \<and> \<not> healthy
        then (if now - rs_reconnect s1 < 5000000000 then s1
              else decoder_switch client opened (s1\<lparr>rs_reconnect := now, rs_disp := None, rs_client := None\<rparr>))
        else decoder_switch client opened s1)))"

section \<open>Owners and their order\<close>

lemma add_owners_set: "set (add_owners seen xs) = set seen \<union> set xs"
  by (induction xs arbitrary: seen) auto

lemma add_owners_distinct: "distinct seen \<Longrightarrow> distinct (add_owners seen xs)"
  by (induction xs arbitrary: seen) auto

lemma add_owners_prefix: "\<exists>rest. add_owners seen xs = seen @ rest"
  by (induction xs arbitrary: seen) (auto, metis append.assoc)

lemma candidates_own_first:
  "hd (pluginOwnerCandidates t) = cp_owner t \<and> distinct (pluginOwnerCandidates t) \<and> set (pluginOwnerCandidates t) = insert (cp_owner t) (set (cp_pluginOwners t))"
proof -
  obtain rest where "pluginOwnerCandidates t = [cp_owner t] @ rest" unfolding pluginOwnerCandidates_def using add_owners_prefix by blast
  then show ?thesis using add_owners_distinct [of "[cp_owner t]" "cp_pluginOwners t"] add_owners_set [of "[cp_owner t]" "cp_pluginOwners t"]
    by (simp add: pluginOwnerCandidates_def)
qed

section \<open>What the loop holds\<close>

definition resolve_ok :: "resolve_state \<Rightarrow> bool" where "resolve_ok s \<longleftrightarrow> rs_disp s = rs_client s"

lemma resolve_ok_step: "resolve_ok s \<Longrightarrow> resolve_ok (resolveDecoder now force healthy client opened s)"
  by (simp add: resolve_ok_def resolveDecoder_def decoder_switch_def Let_def split: decoder_action.split)

text \<open>A forced resolution with a healthy or no stream ends on exactly the client of the lookup, or on none.\<close>

lemma forced_resolution:
  assumes "resolve_ok s" "rs_disp s = None \<or> healthy"
  shows "rs_disp (resolveDecoder now True healthy client opened s) = (if client = None then None else if client = rs_disp s \<or> opened then client else None)"
  using assms by (auto simp: resolve_ok_def resolveDecoder_def decoder_switch_def decoderAction_def Let_def)

text \<open>For five seconds after a reconnect a broken stream is kept, even if another decoder has registered meanwhile.\<close>

lemma broken_stream_kept:
  assumes "rs_disp s \<noteq> None" "now - rs_reconnect s < 5000000000"
  shows "rs_disp (resolveDecoder now force False client opened s) = rs_disp s"
  using assms by (simp add: resolveDecoder_def Let_def)

text \<open>Steps of a session: its loop resolves the decoder again, with whatever the registry holds then.\<close>

fun resolve_run :: "sdk \<Rightarrow> capture_session \<Rightarrow> (int \<times> bool \<times> bool \<times> string list \<times> registry \<times> bool) list \<Rightarrow> resolve_state \<Rightarrow> resolve_state" where
  "resolve_run k t [] s = s"
| "resolve_run k t ((now, force, healthy, ids, reg, opened) # xs) s =
    resolve_run k t xs (resolveDecoder now force healthy (map_option fst (resolveDecoderClient k ids t reg)) opened s)"

lemma resolveDecoderClient_serves:
  "resolveDecoderClient k ids t s = Some (c, r) \<Longrightarrow> serves s c (insert [] (insert (cp_owner t) (set (cp_pluginOwners t))))"
proof -
  assume a: "resolveDecoderClient k ids t s = Some (c, r)"
  have ff: "FindFor k ids (cp_owner t) hint s = Some (c, r) \<Longrightarrow> serves s c (insert [] (insert (cp_owner t) (set (cp_pluginOwners t))))" for hint
    by (drule FindFor_serves) (erule serves_mono, blast)
  have am: "FindByNameAmong k (pluginOwnerCandidates t) (cp_plugin t) s = Some (c, r) \<Longrightarrow> serves s c (insert [] (set (pluginOwnerCandidates t)))"
    using lookup_isolation [where k = k and s = s and c = c and r = r and owners = "pluginOwnerCandidates t" and name = "cp_plugin t"] by blast
  show ?thesis
    using a ff am candidates_own_first [of t] by (auto simp: resolveDecoderClient_def split: if_splits option.splits)
qed

text \<open>C15: The decoder of a session is always one that some lookup of it gave: a plugin that was online then and belongs to the
  session's owner, to one of its project's plugin owners, or to nobody.\<close>

theorem session_decoder_allowed:
  assumes "rs_disp (resolve_run k t xs resolve_start) = Some c"
  shows "\<exists>(now, force, healthy, ids, reg, opened) \<in> set xs. serves reg c (insert [] (insert (cp_owner t) (set (cp_pluginOwners t))))"
proof -
  have step: "rs_disp (resolveDecoder now force healthy client opened s) = Some c \<Longrightarrow> rs_disp s = Some c \<or> client = Some c" for now force healthy client opened s
    by (auto simp: resolveDecoder_def decoder_switch_def Let_def split: if_splits decoder_action.splits)
  have run: "rs_disp (resolve_run k t xs s) = Some c \<Longrightarrow> rs_disp s = Some c \<or>
      (\<exists>(now, force, healthy, ids, reg, opened) \<in> set xs. serves reg c (insert [] (insert (cp_owner t) (set (cp_pluginOwners t)))))" for s
  proof (induction xs arbitrary: s)
    case (Cons x xs)
    obtain now force healthy ids reg opened where x: "x = (now, force, healthy, ids, reg, opened)" by (metis prod_cases6)
    let ?s = "resolveDecoder now force healthy (map_option fst (resolveDecoderClient k ids t reg)) opened s"
    have "rs_disp (resolve_run k t xs ?s) = Some c" using Cons.prems by (simp add: x)
    from Cons.IH [OF this] show ?case
    proof
      assume "rs_disp ?s = Some c"
      from step [OF this] show ?thesis using resolveDecoderClient_serves [of k ids t reg c] by (force simp: x)
    qed (auto simp: x)
  qed simp
  from run [OF assms] show ?thesis by (simp add: resolve_start_def)
qed

theorem session_decoder_allowed_witness:
  "\<exists>c. rs_disp (resolve_run demo_sdk \<lparr>cp_owner = ''bob'', cp_plugin = ''a'', cp_pluginOwners = []\<rparr> [(0, True, True, [], shadowed, True)] resolve_start) = Some c
     \<and> serves shadowed c {[], ''bob''}"
proof -
  let ?t = "\<lparr>cp_owner = ''bob'', cp_plugin = ''a'', cp_pluginOwners = []\<rparr>" and ?xs = "[(0, True, True, [], shadowed, True)]"
  have "\<exists>c r. FindByNameAmong demo_sdk [''bob''] ''a'' shadowed = Some (c, r)"
    by (simp add: FindByNameAmong_def amongCandidates_def pluginKeyCandidates_def shadowed_def registry_eval usable_def found_def
        instance_id_inject)
  then obtain c r where "FindByNameAmong demo_sdk [''bob''] ''a'' shadowed = Some (c, r)" by blast
  then have d: "rs_disp (resolve_run demo_sdk ?t ?xs resolve_start) = Some c"
    by (simp add: resolveDecoderClient_def pluginOwnerCandidates_def resolve_start_def resolveDecoder_def decoder_switch_def decoderAction_def)
  with session_decoder_allowed [OF d] show ?thesis by (intro exI [of _ c]) simp
qed

end
