(* ===== verification/Ingest_Hub.thy ===== *)
theory Ingest_Hub imports Decode_Flow "HOL-Library.Sublist" begin

text \<open>
  The hub between the streams of agents and the capture sources (\<open>pkg/capture/agent/hub.go\<close>, \<open>source.go\<close>).  A step is one
  critical section, one send to a channel or one end of a wait; calls of \<open>Deliver\<close>, sources that stop and consumers
  interleave at will.  Subscriptions are numbered in the order of their allocation.
\<close>

section \<open>Subscriptions\<close>

text \<open>A source that stops takes its subscription out first and closes the channel when nobody delivers any more.\<close>

datatype sub_phase = SubLive | SubStopping | SubClosed

text \<open>\<open>sb_out\<close> is what the consumer has taken from the channel.\<close>

record subscription =
  sb_session :: string
  sb_ch :: "packet list"
  sb_cap :: nat
  sb_inflight :: nat
  sb_timeout :: int
  sb_delivered :: nat
  sb_dropped :: nat
  sb_bytesIn :: nat
  sb_phase :: sub_phase
  sb_out :: "packet list"

record hub =
  hb_subs :: "string \<rightharpoonup> nat list"
  hb_sub :: "nat \<rightharpoonup> subscription"
  hb_delivered :: nat
  hb_droppedBusy :: nat
  hb_droppedNoSub :: nat

definition NewHub :: hub where
  "NewHub = \<lparr>hb_subs = Map.empty, hb_sub = Map.empty, hb_delivered = 0, hb_droppedBusy = 0, hb_droppedNoSub = 0\<rparr>"

definition DefaultDeliverTimeout :: int where "DefaultDeliverTimeout = 2000000000"

definition subs_of :: "hub \<Rightarrow> string \<Rightarrow> nat list" where
  "subs_of h sid = (case hb_subs h sid of None \<Rightarrow> [] | Some xs \<Rightarrow> xs)"

definition Subscribe_hub :: "string \<Rightarrow> nat \<Rightarrow> nat \<Rightarrow> int \<Rightarrow> hub \<Rightarrow> hub" where
  "Subscribe_hub sid i capacity timeout h =
    h\<lparr>hb_subs := (hb_subs h)(sid \<mapsto> subs_of h sid @ [i]),
      hb_sub := (hb_sub h)(i \<mapsto> \<lparr>sb_session = sid, sb_ch = [], sb_cap = capacity, sb_inflight = 0, sb_timeout = timeout, sb_delivered = 0,
        sb_dropped = 0, sb_bytesIn = 0, sb_phase = SubLive, sb_out = []\<rparr>)\<rparr>"

definition cancel_sub :: "nat \<Rightarrow> subscription \<Rightarrow> hub \<Rightarrow> hub" where
  "cancel_sub i s h =
    (let h1 = h\<lparr>hb_sub := (hb_sub h)(i \<mapsto> s\<lparr>sb_phase := SubStopping\<rparr>)\<rparr> in
     (case hb_subs h (sb_session s) of
        None \<Rightarrow> h1
      | Some xs \<Rightarrow> h1\<lparr>hb_subs := (hb_subs h)(sb_session s := (if remove1 i xs = [] then None else Some (remove1 i xs)))\<rparr>))"

section \<open>Deliver\<close>

record delivery =
  dl_session :: string
  dl_subs :: "nat list"
  dl_todo :: "(packet \<times> nat) list"
  dl_waiting :: bool
  dl_delivered :: nat
  dl_busy :: nat

definition bump_inflight :: "(nat \<Rightarrow> nat) \<Rightarrow> nat list \<Rightarrow> hub \<Rightarrow> hub" where
  "bump_inflight f ids h =
    h\<lparr>hb_sub := (\<lambda>i. if i \<in> set ids then map_option (\<lambda>s. s\<lparr>sb_inflight := f (sb_inflight s)\<rparr>) (hb_sub h i) else hb_sub h i)\<rparr>"

text \<open>\<open>order\<close> is the order in which Go visits the set of subscriptions.\<close>

definition hub_deliver_begin :: "string \<Rightarrow> nat list \<Rightarrow> packet list \<Rightarrow> hub \<Rightarrow> hub \<times> delivery option" where
  "hub_deliver_begin sid order pkts h =
    (if subs_of h sid = [] then (h\<lparr>hb_droppedNoSub := hb_droppedNoSub h + length pkts\<rparr>, None)
     else (bump_inflight Suc order h,
           Some \<lparr>dl_session = sid, dl_subs = order, dl_todo = List.product pkts order, dl_waiting = False, dl_delivered = 0, dl_busy = 0\<rparr>))"

definition hub_deliver_end :: "delivery \<Rightarrow> hub \<Rightarrow> hub" where
  "hub_deliver_end d h = bump_inflight (\<lambda>n. n - 1) (dl_subs d) h"

datatype hub_send = SendDone hub delivery | SendPanic

definition drop_packet :: "nat \<Rightarrow> subscription \<Rightarrow> hub \<Rightarrow> delivery \<Rightarrow> hub_send" where
  "drop_packet i s h d =
    SendDone (h\<lparr>hb_sub := (hb_sub h)(i \<mapsto> s\<lparr>sb_dropped := sb_dropped s + 1\<rparr>), hb_droppedBusy := hb_droppedBusy h + 1\<rparr>)
      (d\<lparr>dl_todo := tl (dl_todo d), dl_waiting := False, dl_busy := dl_busy d + 1\<rparr>)"

definition put_packet :: "packet \<Rightarrow> nat \<Rightarrow> subscription \<Rightarrow> hub \<Rightarrow> delivery \<Rightarrow> hub_send" where
  "put_packet pkt i s h d =
    SendDone (h\<lparr>hb_sub := (hb_sub h)(i \<mapsto> s\<lparr>sb_ch := sb_ch s @ [pkt], sb_delivered := sb_delivered s + 1, sb_bytesIn := sb_bytesIn s + length (pk_raw pkt)\<rparr>),
               hb_delivered := hb_delivered h + 1\<rparr>)
      (d\<lparr>dl_todo := tl (dl_todo d), dl_waiting := False, dl_delivered := dl_delivered d + 1\<rparr>)"

text \<open>A step of \<open>send\<close>: the fast path or the start of the wait, then the end of the wait.  \<open>fired\<close> is whether the timer has
  won.  Sending on a closed channel panics.\<close>

definition send_step :: "bool \<Rightarrow> hub \<Rightarrow> delivery \<Rightarrow> hub_send" where
  "send_step fired h d =
    (case dl_todo d of
       [] \<Rightarrow> SendDone h d
     | (pkt, i) # rest \<Rightarrow>
         (case hb_sub h i of
            None \<Rightarrow> SendDone h d
          | Some s \<Rightarrow>
              if sb_phase s = SubClosed then SendPanic
              else if dl_waiting d \<and> fired then drop_packet i s h d
              else if length (sb_ch s) < sb_cap s then put_packet pkt i s h d
              else if dl_waiting d then SendDone h d
              else if sb_timeout s < 0 then drop_packet i s h d
              else SendDone (h\<lparr>hb_sub := (hb_sub h)(i \<mapsto> s\<lparr>sb_timeout := (if sb_timeout s = 0 then DefaultDeliverTimeout else sb_timeout s)\<rparr>)\<rparr>)
                     (d\<lparr>dl_waiting := True\<rparr>)))"

section \<open>Runs\<close>

text \<open>\<open>hw_given\<close> is what \<open>Deliver\<close> was called with for a session, \<open>hw_serial\<close> whether its calls came one after the other.\<close>

record hub_world =
  hw_hub :: hub
  hw_calls :: "delivery list"
  hw_panicked :: bool
  hw_given :: "string \<Rightarrow> packet list"
  hw_serial :: "string \<Rightarrow> bool"

definition hub_start :: hub_world where
  "hub_start = \<lparr>hw_hub = NewHub, hw_calls = [], hw_panicked = False, hw_given = (\<lambda>_. []), hw_serial = (\<lambda>_. True)\<rparr>"

definition busy_with :: "string \<Rightarrow> delivery list \<Rightarrow> bool" where
  "busy_with sid calls \<longleftrightarrow> (\<exists>d \<in> set calls. dl_session d = sid)"

inductive hub_step :: "hub_world \<Rightarrow> hub_world \<Rightarrow> bool" where
  hs_subscribe: "hb_sub (hw_hub w) i = None \<Longrightarrow> hub_step w (w\<lparr>hw_hub := Subscribe_hub sid i capacity timeout (hw_hub w)\<rparr>)"
| hs_stop: "hb_sub (hw_hub w) i = Some s \<Longrightarrow> sb_phase s = SubLive \<Longrightarrow> hub_step w (w\<lparr>hw_hub := cancel_sub i s (hw_hub w)\<rparr>)"
| hs_close: "hb_sub (hw_hub w) i = Some s \<Longrightarrow> sb_phase s = SubStopping \<Longrightarrow> sb_inflight s = 0 \<Longrightarrow>
    hub_step w (w\<lparr>hw_hub := (hw_hub w)\<lparr>hb_sub := (hb_sub (hw_hub w))(i \<mapsto> s\<lparr>sb_phase := SubClosed\<rparr>)\<rparr>\<rparr>)"
| hs_begin: "distinct order \<Longrightarrow> set order = set (subs_of (hw_hub w) sid) \<Longrightarrow> hub_deliver_begin sid order pkts (hw_hub w) = (h, c) \<Longrightarrow>
    hub_step w (w\<lparr>hw_hub := h, hw_calls := (case c of None \<Rightarrow> hw_calls w | Some d \<Rightarrow> d # hw_calls w),
      hw_given := (hw_given w)(sid := hw_given w sid @ pkts), hw_serial := (hw_serial w)(sid := hw_serial w sid \<and> \<not> busy_with sid (hw_calls w))\<rparr>)"
| hs_send: "hw_calls w = xs @ d # ys \<Longrightarrow> dl_todo d \<noteq> [] \<Longrightarrow> send_step fired (hw_hub w) d = SendDone h d' \<Longrightarrow>
    hub_step w (w\<lparr>hw_hub := h, hw_calls := xs @ d' # ys\<rparr>)"
| hs_panic: "d \<in> set (hw_calls w) \<Longrightarrow> dl_todo d \<noteq> [] \<Longrightarrow> send_step fired (hw_hub w) d = SendPanic \<Longrightarrow> hub_step w (w\<lparr>hw_panicked := True\<rparr>)"
| hs_end: "hw_calls w = xs @ d # ys \<Longrightarrow> dl_todo d = [] \<Longrightarrow> hub_step w (w\<lparr>hw_hub := hub_deliver_end d (hw_hub w), hw_calls := xs @ ys\<rparr>)"
| hs_take: "hb_sub (hw_hub w) i = Some s \<Longrightarrow> sb_ch s = p # ps \<Longrightarrow>
    hub_step w (w\<lparr>hw_hub := (hw_hub w)\<lparr>hb_sub := (hb_sub (hw_hub w))(i \<mapsto> s\<lparr>sb_ch := ps, sb_out := sb_out s @ [p]\<rparr>)\<rparr>\<rparr>)"

inductive_cases hub_stepE: "hub_step w w'"

inductive hub_reachable :: "hub_world \<Rightarrow> bool" where
  hr_start: "hub_reachable hub_start"
| hr_step: "hub_reachable w \<Longrightarrow> hub_step w w' \<Longrightarrow> hub_reachable w'"

end
