(* ===== verification/Hub_Props.thy ===== *)
theory Hub_Props imports Ingest_Hub begin

text \<open>
  The hub never writes to a closed channel, keeps sessions apart, counts what it drops, and keeps the order of the packets of
  a session as long as its batches are delivered one after the other.
\<close>

section \<open>Invariant\<close>

definition pending_for :: "nat \<Rightarrow> delivery list \<Rightarrow> packet list" where
  "pending_for i calls = concat (map (\<lambda>d. map fst (filter (\<lambda>x. snd x = i) (dl_todo d))) calls)"

definition callers :: "nat \<Rightarrow> delivery list \<Rightarrow> nat" where
  "callers i calls = length (filter (\<lambda>d. i \<in> set (dl_subs d)) calls)"

definition sub_ok :: "hub_world \<Rightarrow> nat \<Rightarrow> subscription \<Rightarrow> bool" where
  "sub_ok w i s \<longleftrightarrow> sb_inflight s = callers i (hw_calls w) \<and> (sb_phase s = SubClosed \<longrightarrow> sb_inflight s = 0)
    \<and> sb_delivered s = length (sb_out s @ sb_ch s) \<and> sb_bytesIn s = sum_list (map (\<lambda>p. length (pk_raw p)) (sb_out s @ sb_ch s))
    \<and> length (sb_ch s) \<le> sb_cap s \<and> set (sb_out s @ sb_ch s) \<subseteq> set (hw_given w (sb_session s))
    \<and> (hw_serial w (sb_session s) \<longrightarrow> subseq (sb_out s @ sb_ch s @ pending_for i (hw_calls w)) (hw_given w (sb_session s)))"

definition call_ok :: "hub_world \<Rightarrow> delivery \<Rightarrow> bool" where
  "call_ok w d \<longleftrightarrow> distinct (dl_subs d) \<and> snd ` set (dl_todo d) \<subseteq> set (dl_subs d) \<and> fst ` set (dl_todo d) \<subseteq> set (hw_given w (dl_session d))
    \<and> (\<forall>i \<in> set (dl_subs d). \<exists>s. hb_sub (hw_hub w) i = Some s \<and> sb_session s = dl_session d)"

definition hub_table_ok :: "hub \<Rightarrow> bool" where
  "hub_table_ok h \<longleftrightarrow> (\<forall>sid xs. hb_subs h sid = Some xs \<longrightarrow> xs \<noteq> [] \<and> distinct xs
    \<and> (\<forall>i \<in> set xs. \<exists>s. hb_sub h i = Some s \<and> sb_session s = sid \<and> sb_phase s = SubLive))"

definition hub_ok :: "hub_world \<Rightarrow> bool" where
  "hub_ok w \<longleftrightarrow> hub_table_ok (hw_hub w) \<and> (\<forall>i s. hb_sub (hw_hub w) i = Some s \<longrightarrow> sub_ok w i s) \<and> (\<forall>d \<in> set (hw_calls w). call_ok w d)
    \<and> \<not> hw_panicked w \<and> (\<forall>sid. hw_serial w sid \<longrightarrow> length (filter (\<lambda>d. dl_session d = sid) (hw_calls w)) \<le> 1)"

lemma hub_okD:
  assumes "hub_ok w"
  shows "hub_table_ok (hw_hub w)" "hb_sub (hw_hub w) i = Some s \<Longrightarrow> sub_ok w i s" "d \<in> set (hw_calls w) \<Longrightarrow> call_ok w d" "\<not> hw_panicked w"
    "hw_serial w sid \<Longrightarrow> length (filter (\<lambda>d. dl_session d = sid) (hw_calls w)) \<le> 1"
  using assms by (auto simp: hub_ok_def)

lemma hub_okI:
  assumes "hub_table_ok (hw_hub w)" "\<And>i s. hb_sub (hw_hub w) i = Some s \<Longrightarrow> sub_ok w i s" "\<And>d. d \<in> set (hw_calls w) \<Longrightarrow> call_ok w d"
    "\<not> hw_panicked w" "\<And>sid. hw_serial w sid \<Longrightarrow> length (filter (\<lambda>d. dl_session d = sid) (hw_calls w)) \<le> 1"
  shows "hub_ok w"
  using assms by (auto simp: hub_ok_def)

lemma pending_for_simps [simp]:
  "pending_for i [] = []"
  "pending_for i (d # ds) = map fst (filter (\<lambda>x. snd x = i) (dl_todo d)) @ pending_for i ds"
  "pending_for i (xs @ ys) = pending_for i xs @ pending_for i ys"
  by (simp_all add: pending_for_def)

lemma callers_simps [simp]:
  "callers i [] = 0" "callers i (d # ds) = (if i \<in> set (dl_subs d) then 1 else 0) + callers i ds" "callers i (xs @ ys) = callers i xs + callers i ys"
  by (simp_all add: callers_def)

lemma pending_for_none:
  "\<forall>d \<in> set ds. i \<notin> snd ` set (dl_todo d) \<Longrightarrow> pending_for i ds = []"
  by (induction ds) (auto simp: filter_empty_conv)

lemma callers_none: "callers i ds = 0 \<longleftrightarrow> (\<forall>d \<in> set ds. i \<notin> set (dl_subs d))"
  by (auto simp: callers_def filter_empty_conv)

text \<open>A subscription that is in no call has nothing pending.\<close>

lemma pending_no_caller:
  assumes "\<And>d. d \<in> set ds \<Longrightarrow> call_ok w d" "callers i ds = 0"
  shows "pending_for i ds = []"
proof (intro pending_for_none ballI)
  fix d
  assume "d \<in> set ds"
  with assms have "call_ok w d" "i \<notin> set (dl_subs d)" by (auto simp: callers_none)
  then show "i \<notin> snd ` set (dl_todo d)" by (auto simp: call_ok_def)
qed

lemma fresh_no_caller:
  assumes "hub_ok w" "hb_sub (hw_hub w) i = None"
  shows "callers i (hw_calls w) = 0" "pending_for i (hw_calls w) = []"
proof -
  show "callers i (hw_calls w) = 0" using hub_okD(3) [OF assms(1)] assms(2) by (fastforce simp: callers_none call_ok_def)
  with hub_okD(3) [OF assms(1)] show "pending_for i (hw_calls w) = []" by (intro pending_no_caller)
qed

text \<open>With serial batches the calls beside that of a session do not touch its subscriptions.\<close>

lemma others_silent:
  assumes ok: "hub_ok w" and calls: "hw_calls w = xs @ d # ys" and s: "hb_sub (hw_hub w) i = Some s" "sb_session s = dl_session d"
    and serial: "hw_serial w (dl_session d)"
  shows "pending_for i xs = []" "pending_for i ys = []"
proof -
  have "length (filter (\<lambda>c. dl_session c = dl_session d) (xs @ d # ys)) \<le> 1" using hub_okD(5) [OF ok serial] calls by simp
  then have n: "\<forall>c \<in> set xs \<union> set ys. dl_session c \<noteq> dl_session d" by (auto simp: filter_empty_conv)
  have c: "c \<in> set xs \<union> set ys \<Longrightarrow> i \<notin> snd ` set (dl_todo c)" for c
    using hub_okD(3) [OF ok, of c] calls n s by (fastforce simp: call_ok_def)
  show "pending_for i xs = []" "pending_for i ys = []" using c by (auto intro!: pending_for_none)
qed

lemma call_ok_mono:
  assumes c: "call_ok w d" and d': "dl_subs d' = dl_subs d" "dl_session d' = dl_session d" "set (dl_todo d') \<subseteq> set (dl_todo d)"
    and h: "\<And>k r. hb_sub (hw_hub w) k = Some r \<Longrightarrow> \<exists>q. hb_sub (hw_hub w') k = Some q \<and> sb_session q = sb_session r"
    and g: "\<And>x. set (hw_given w x) \<subseteq> set (hw_given w' x)"
  shows "call_ok w' d'"
proof -
  have p: "snd ` set (dl_todo d) \<subseteq> set (dl_subs d)" "fst ` set (dl_todo d) \<subseteq> set (hw_given w (dl_session d))"
    using c by (simp_all add: call_ok_def)
  have "snd ` set (dl_todo d') \<subseteq> set (dl_subs d)" "fst ` set (dl_todo d') \<subseteq> set (hw_given w' (dl_session d))"
    using subset_trans [OF image_mono [OF d'(3)] p(1)] subset_trans [OF subset_trans [OF image_mono [OF d'(3)] p(2)] g] .
  moreover have "\<exists>q. hb_sub (hw_hub w') i = Some q \<and> sb_session q = dl_session d" if i: "i \<in> set (dl_subs d)" for i
    using c i h by (metis call_ok_def)
  ultimately show ?thesis using c d' by (simp add: call_ok_def)
qed

section \<open>Preservation\<close>

lemma hub_ok_start: "hub_ok hub_start"
  by (simp add: hub_ok_def hub_start_def NewHub_def hub_table_ok_def)

lemma hub_ok_subscribe:
  assumes ok: "hub_ok w" and i: "hb_sub (hw_hub w) i = None"
  shows "hub_ok (w\<lparr>hw_hub := Subscribe_hub sid i capacity timeout (hw_hub w)\<rparr>)"
proof (rule hub_okI)
  note t = hub_okD(1) [OF ok, unfolded hub_table_ok_def]
  have "\<forall>xs. hb_subs (hw_hub w) sid = Some xs \<longrightarrow> i \<notin> set xs" for sid using t i by fastforce
  with t i show "hub_table_ok (hw_hub (w\<lparr>hw_hub := Subscribe_hub sid i capacity timeout (hw_hub w)\<rparr>))"
    by (auto simp: hub_table_ok_def Subscribe_hub_def subs_of_def split: option.split)
  fix j s
  assume "hb_sub (hw_hub (w\<lparr>hw_hub := Subscribe_hub sid i capacity timeout (hw_hub w)\<rparr>)) j = Some s"
  then show "sub_ok (w\<lparr>hw_hub := Subscribe_hub sid i capacity timeout (hw_hub w)\<rparr>) j s"
    using hub_okD(2) [OF ok, of j s] fresh_no_caller [OF ok i] by (auto simp: Subscribe_hub_def sub_ok_def split: if_splits)
next
  fix d
  assume "d \<in> set (hw_calls (w\<lparr>hw_hub := Subscribe_hub sid i capacity timeout (hw_hub w)\<rparr>))"
  then show "call_ok (w\<lparr>hw_hub := Subscribe_hub sid i capacity timeout (hw_hub w)\<rparr>) d"
    using hub_okD(3) [OF ok, of d] i by (fastforce simp: call_ok_def Subscribe_hub_def)
qed (use hub_okD [OF ok] in auto)

text \<open>Steps that change one subscription and leave the calls alone.\<close>

lemma hub_ok_one_sub:
  assumes ok: "hub_ok w" and s: "hb_sub (hw_hub w) i = Some s" and h: "hb_sub h = (hb_sub (hw_hub w))(i \<mapsto> s')"
    and t: "hub_table_ok h" and s': "sb_session s' = sb_session s" "sub_ok w i s'"
  shows "hub_ok (w\<lparr>hw_hub := h\<rparr>)"
proof (rule hub_okI)
  fix j r
  assume "hb_sub (hw_hub (w\<lparr>hw_hub := h\<rparr>)) j = Some r"
  then have "sub_ok w j r" using hub_okD(2) [OF ok, of j r] s'(2) by (auto simp: h split: if_splits)
  then show "sub_ok (w\<lparr>hw_hub := h\<rparr>) j r" by (auto simp: sub_ok_def)
next
  fix d
  assume "d \<in> set (hw_calls (w\<lparr>hw_hub := h\<rparr>))"
  then show "call_ok (w\<lparr>hw_hub := h\<rparr>) d" using hub_okD(3) [OF ok, of d] s s'(1) by (fastforce simp: call_ok_def h)
qed (use hub_okD [OF ok] t in auto)

lemma hub_table_ok_one_sub:
  assumes "hub_table_ok h" "hb_sub h i = Some s" "sb_session s' = sb_session s" "sb_phase s' = sb_phase s \<or> sb_phase s \<noteq> SubLive"
    "hb_subs h' = hb_subs h" "hb_sub h' = (hb_sub h)(i \<mapsto> s')"
  shows "hub_table_ok h'"
  using assms by (fastforce simp: hub_table_ok_def)

lemma hub_table_ok_cancel:
  assumes t: "hub_table_ok h" and s: "hb_sub h i = Some s"
  shows "hub_table_ok (cancel_sub i s h)"
  using t s by (fastforce simp: hub_table_ok_def cancel_sub_def Let_def split: option.split if_splits)

lemma filter_one: "distinct xs \<Longrightarrow> filter (\<lambda>y. y = j) xs = (if j \<in> set xs then [j] else [])"
  by (induction xs) auto

lemma product_for:
  "distinct order \<Longrightarrow> map fst (filter (\<lambda>x. snd x = j) (List.product pkts order)) = (if j \<in> set order then pkts else [])"
  by (induction pkts) (simp_all add: filter_map comp_def filter_one)

lemma sub_ok_more_given:
  assumes "sub_ok w i s" "n = callers i calls" "pending_for i calls = pending_for i (hw_calls w)" "\<And>sid. serial sid \<Longrightarrow> hw_serial w sid"
    "sb_phase s = SubClosed \<longrightarrow> n = 0" "\<And>sid. \<exists>zs. given sid = hw_given w sid @ zs"
  shows "sub_ok (w\<lparr>hw_hub := h, hw_calls := calls, hw_given := given, hw_serial := serial\<rparr>) i (s\<lparr>sb_inflight := n\<rparr>)"
proof -
  obtain zs where "given (sb_session s) = hw_given w (sb_session s) @ zs" using assms(6) by blast
  with assms show ?thesis by (auto simp: sub_ok_def intro: list_emb_prefix)
qed

lemma hub_ok_begin:
  assumes ok: "hub_ok w" and ord: "distinct order" "set order = set (subs_of (hw_hub w) sid)"
    and b: "hub_deliver_begin sid order pkts (hw_hub w) = (h, c)"
  shows "hub_ok (w\<lparr>hw_hub := h, hw_calls := (case c of None \<Rightarrow> hw_calls w | Some d \<Rightarrow> d # hw_calls w),
      hw_given := (hw_given w)(sid := hw_given w sid @ pkts), hw_serial := (hw_serial w)(sid := hw_serial w sid \<and> \<not> busy_with sid (hw_calls w))\<rparr>)"
    (is "hub_ok ?w")
proof (rule hub_okI)
  let ?none = "subs_of (hw_hub w) sid = []"
  let ?d = "\<lparr>dl_session = sid, dl_subs = order, dl_todo = List.product pkts order, dl_waiting = False, dl_delivered = 0, dl_busy = 0\<rparr>"
  have c: "c = (if ?none then None else Some ?d)" using b by (auto simp: hub_deliver_begin_def split: if_splits)
  have calls: "hw_calls ?w = (if ?none then hw_calls w else ?d # hw_calls w)" by (simp add: c)
  have o0: "?none \<longleftrightarrow> order = []" using ord(2) by auto
  have live: "j \<in> set order \<Longrightarrow> \<exists>r. hb_sub (hw_hub w) j = Some r \<and> sb_session r = sid \<and> sb_phase r = SubLive" for j
  proof -
    assume "j \<in> set order"
    then obtain xs where "hb_subs (hw_hub w) sid = Some xs" "j \<in> set xs" using ord(2) by (cases "hb_subs (hw_hub w) sid") (auto simp: subs_of_def)
    then show ?thesis using hub_okD(1) [OF ok] by (auto simp: hub_table_ok_def)
  qed
  have sub: "hb_sub h j = map_option (\<lambda>r. r\<lparr>sb_inflight := sb_inflight r + (if j \<in> set order then 1 else 0)\<rparr>) (hb_sub (hw_hub w) j)" for j
    using b o0 by (cases "hb_sub (hw_hub w) j") (auto simp: hub_deliver_begin_def bump_inflight_def split: if_splits)
  have subs: "hb_subs h = hb_subs (hw_hub w)" using b by (auto simp: hub_deliver_begin_def bump_inflight_def split: if_splits)
  have sub': "hb_sub (hw_hub w) i = Some r \<Longrightarrow> \<exists>s. hb_sub h i = Some s \<and> sb_session s = sb_session r \<and> sb_phase s = sb_phase r" for i r
    by (simp add: sub)
  show "hub_table_ok (hw_hub ?w)" using hub_okD(1) [OF ok] sub' subs unfolding hub_table_ok_def by simp metis
  show "sub_ok ?w i s" if s: "hb_sub (hw_hub ?w) i = Some s" for i s
  proof -
    obtain r where r: "hb_sub (hw_hub w) i = Some r" "s = r\<lparr>sb_inflight := sb_inflight r + (if i \<in> set order then 1 else 0)\<rparr>"
      using s sub [of i] by auto
    note rok = hub_okD(2) [OF ok r(1)]
    show ?thesis
    proof (cases "i \<in> set order")
      case False
      have p: "pending_for i (hw_calls ?w) = pending_for i (hw_calls w)" "callers i (hw_calls ?w) = callers i (hw_calls w)"
        using False ord(1) by (simp_all add: c product_for)
      have eq: "s = r\<lparr>sb_inflight := sb_inflight r\<rparr>" using r(2) False by simp
      show ?thesis unfolding eq
        by (rule sub_ok_more_given [OF rok]) (use p rok in \<open>auto simp: sub_ok_def split: if_splits\<close>)
    next
      case True
      then have l: "sb_session r = sid" "sb_phase r = SubLive" using live [OF True] r(1) by auto
      have ne: "\<not> ?none" using True o0 by auto
      have idle: "pending_for i (hw_calls w) = []" if "\<not> busy_with sid (hw_calls w)"
      proof (rule pending_no_caller [of _ w])
        show "callers i (hw_calls w) = 0"
          using that hub_okD(3) [OF ok] r(1) l(1) by (fastforce simp: callers_none busy_with_def call_ok_def)
      qed (rule hub_okD(3) [OF ok])
      have "subseq ((sb_out r @ sb_ch r) @ pkts) (hw_given w sid @ pkts)" if "hw_serial w sid" "\<not> busy_with sid (hw_calls w)"
        using rok that idle l(1) by (intro list_emb_append_mono) (auto simp: sub_ok_def)
      then show ?thesis using rok l ne True ord(1) idle
        by (auto simp: sub_ok_def r(2) c product_for)
    qed
  qed
  show "call_ok ?w c'" if c': "c' \<in> set (hw_calls ?w)" for c'
  proof (cases "c' \<in> set (hw_calls w)")
    case True
    show ?thesis by (rule call_ok_mono [OF hub_okD(3) [OF ok True]]) (use sub' in auto)
  next
    case False
    then have "c' = ?d" using c' calls by (auto split: if_splits)
    then show ?thesis using ord(1) live sub' by (auto simp: call_ok_def) (metis live sub')
  qed
  show "length (filter (\<lambda>d. dl_session d = x) (hw_calls ?w)) \<le> 1" if "hw_serial ?w x" for x
  proof (cases "x = sid")
    case True
    then have "filter (\<lambda>d. dl_session d = x) (hw_calls w) = []" using that by (auto simp: busy_with_def filter_empty_conv)
    then show ?thesis unfolding calls by simp
  next
    case False
    then show ?thesis using that hub_okD(5) [OF ok, of x] unfolding calls by auto
  qed
qed (use hub_okD [OF ok] in auto)

lemma hub_ok_end:
  assumes ok: "hub_ok w" and calls: "hw_calls w = xs @ d # ys" and d: "dl_todo d = []"
  shows "hub_ok (w\<lparr>hw_hub := hub_deliver_end d (hw_hub w), hw_calls := xs @ ys\<rparr>)" (is "hub_ok ?w")
proof (rule hub_okI)
  have sub: "hb_sub (hub_deliver_end d (hw_hub w)) i = Some s \<Longrightarrow> \<exists>r. hb_sub (hw_hub w) i = Some r
      \<and> s = r\<lparr>sb_inflight := sb_inflight r - (if i \<in> set (dl_subs d) then 1 else 0)\<rparr>" for i s
    by (auto simp: hub_deliver_end_def bump_inflight_def split: if_splits)
  have sub': "hb_sub (hw_hub w) i = Some r \<Longrightarrow> \<exists>s. hb_sub (hub_deliver_end d (hw_hub w)) i = Some s \<and> sb_session s = sb_session r \<and> sb_phase s = sb_phase r" for i r
    by (auto simp: hub_deliver_end_def bump_inflight_def)
  have subs: "hb_subs (hub_deliver_end d (hw_hub w)) = hb_subs (hw_hub w)" by (simp add: hub_deliver_end_def bump_inflight_def)
  show "hub_table_ok (hw_hub ?w)" using hub_okD(1) [OF ok] sub' subs unfolding hub_table_ok_def by simp metis
  show "sub_ok ?w i s" if "hb_sub (hw_hub ?w) i = Some s" for i s
    using sub [of i s] that hub_okD(2) [OF ok, of i] calls d by (fastforce simp: sub_ok_def split: if_splits)
  show "call_ok ?w c" if "c \<in> set (hw_calls ?w)" for c
    using hub_okD(3) [OF ok, of c] that calls sub' unfolding call_ok_def by simp metis
  show "hw_serial ?w sid \<Longrightarrow> length (filter (\<lambda>d. dl_session d = sid) (hw_calls ?w)) \<le> 1" for sid
    using hub_okD(5) [OF ok, of sid] calls by (auto split: if_splits)
qed (use hub_okD [OF ok] in auto)

text \<open>A send changes the subscription at the head of a call.\<close>

lemma hub_ok_send_gen:
  assumes ok: "hub_ok w" and calls: "hw_calls w = xs @ d # ys" and s: "hb_sub (hw_hub w) i = Some s" "sb_session s = dl_session d"
    and h: "hb_sub h = (hb_sub (hw_hub w))(i \<mapsto> s')" "hb_subs h = hb_subs (hw_hub w)"
    and s': "sb_session s' = sb_session s" "sb_phase s' = sb_phase s" "sb_inflight s' = sb_inflight s"
    and d': "dl_subs d' = dl_subs d" "dl_session d' = dl_session d" "set (dl_todo d') \<subseteq> set (dl_todo d)"
      "\<And>j. j \<noteq> i \<Longrightarrow> filter (\<lambda>x. snd x = j) (dl_todo d') = filter (\<lambda>x. snd x = j) (dl_todo d)"
    and body: "sb_delivered s' = length (sb_out s' @ sb_ch s')" "sb_bytesIn s' = sum_list (map (\<lambda>p. length (pk_raw p)) (sb_out s' @ sb_ch s'))"
      "length (sb_ch s') \<le> sb_cap s'" "set (sb_out s' @ sb_ch s') \<subseteq> set (hw_given w (dl_session d))"
      "hw_serial w (dl_session d) \<Longrightarrow> subseq (sb_out s' @ sb_ch s' @ map fst (filter (\<lambda>x. snd x = i) (dl_todo d'))) (hw_given w (dl_session d))"
  shows "hub_ok (w\<lparr>hw_hub := h, hw_calls := xs @ d' # ys\<rparr>)" (is "hub_ok ?w")
proof (rule hub_okI)
  show "hub_table_ok (hw_hub ?w)" using hub_table_ok_one_sub [OF hub_okD(1) [OF ok] s(1) s'(1)] s'(2) h by simp
  show "sub_ok ?w j r" if r: "hb_sub (hw_hub ?w) j = Some r" for j r
  proof (cases "j = i")
    case True
    then have "r = s'" using r h by simp
    moreover have "sub_ok w i s" by (rule hub_okD(2) [OF ok s(1)])
    moreover have "hw_serial w (dl_session d) \<Longrightarrow> pending_for i xs = [] \<and> pending_for i ys = []"
      using others_silent [OF ok calls s] by blast
    ultimately show ?thesis using True body s' s(2) calls d'(1) by (auto simp: sub_ok_def)
  next
    case False
    then have "sub_ok w j r" using r h hub_okD(2) [OF ok, of j r] by simp
    then show ?thesis using False calls d' by (auto simp: sub_ok_def)
  qed
  show "call_ok ?w c" if c: "c \<in> set (hw_calls ?w)" for c
  proof -
    have ex: "hb_sub (hw_hub w) k = Some r \<Longrightarrow> \<exists>q. hb_sub h k = Some q \<and> sb_session q = sb_session r" for k r using h s s'(1) by auto
    have "call_ok w (if c = d' then d else c)" using c calls by (auto intro!: hub_okD(3) [OF ok])
    then show ?thesis by (rule call_ok_mono) (use d' ex in auto)
  qed
  show "hw_serial ?w sid \<Longrightarrow> length (filter (\<lambda>d. dl_session d = sid) (hw_calls ?w)) \<le> 1" for sid
    using hub_okD(5) [OF ok, of sid] calls d'(2) by (auto split: if_splits)
qed (use hub_okD [OF ok] in auto)

lemma call_target:
  assumes ok: "hub_ok w" and calls: "hw_calls w = xs @ d # ys" and todo: "dl_todo d = (pkt, i) # rest"
  obtains s where "hb_sub (hw_hub w) i = Some s" "sb_session s = dl_session d" "sb_phase s \<noteq> SubClosed" "pkt \<in> set (hw_given w (dl_session d))"
    "hw_serial w (dl_session d) \<Longrightarrow> subseq (sb_out s @ sb_ch s @ map fst (filter (\<lambda>x. snd x = i) (dl_todo d))) (hw_given w (dl_session d))"
proof -
  have c: "call_ok w d" using hub_okD(3) [OF ok] calls by simp
  then obtain s where s: "hb_sub (hw_hub w) i = Some s" "sb_session s = dl_session d" using todo by (auto simp: call_ok_def)
  note so = hub_okD(2) [OF ok s(1)]
  have "callers i (hw_calls w) \<noteq> 0" using c todo calls by (auto simp: call_ok_def)
  then have "sb_phase s \<noteq> SubClosed" using so by (auto simp: sub_ok_def)
  moreover have "subseq (sb_out s @ sb_ch s @ map fst (filter (\<lambda>x. snd x = i) (dl_todo d))) (hw_given w (dl_session d))" if "hw_serial w (dl_session d)"
    using so that others_silent [OF ok calls s that] calls s(2) by (auto simp: sub_ok_def)
  ultimately show thesis using that s c todo by (auto simp: call_ok_def)
qed

lemma hub_ok_send:
  assumes ok: "hub_ok w" and calls: "hw_calls w = xs @ d # ys" and todo: "dl_todo d \<noteq> []" and st: "send_step fired (hw_hub w) d = SendDone h d'"
  shows "hub_ok (w\<lparr>hw_hub := h, hw_calls := xs @ d' # ys\<rparr>)"
proof -
  obtain pkt i rest where t: "dl_todo d = (pkt, i) # rest" using todo by (cases "dl_todo d") auto
  obtain s where s: "hb_sub (hw_hub w) i = Some s" "sb_session s = dl_session d" "sb_phase s \<noteq> SubClosed" "pkt \<in> set (hw_given w (dl_session d))"
    "hw_serial w (dl_session d) \<Longrightarrow> subseq (sb_out s @ sb_ch s @ map fst (filter (\<lambda>x. snd x = i) (dl_todo d))) (hw_given w (dl_session d))"
    using call_target [OF ok calls t] by blast
  note so = hub_okD(2) [OF ok s(1)] and gen = hub_ok_send_gen [OF ok calls s(1,2)]
  have less: "subseq (sb_out s @ sb_ch s @ map fst (filter (\<lambda>x. snd x = i) rest)) (hw_given w (dl_session d))" if "hw_serial w (dl_session d)"
  proof -
    have "subseq (sb_out s @ sb_ch s @ map fst (filter (\<lambda>x. snd x = i) rest)) (sb_out s @ sb_ch s @ pkt # map fst (filter (\<lambda>x. snd x = i) rest))"
      by (intro list_emb_append_mono subseq_order.order_refl list_emb_Cons)
    with s(5) [OF that] t show ?thesis by (auto intro: subseq_order.order_trans)
  qed
  have eq: "send_step fired (hw_hub w) d =
      (if dl_waiting d \<and> fired then drop_packet i s (hw_hub w) d
       else if length (sb_ch s) < sb_cap s then put_packet pkt i s (hw_hub w) d
       else if dl_waiting d then SendDone (hw_hub w) d
       else if sb_timeout s < 0 then drop_packet i s (hw_hub w) d
       else SendDone ((hw_hub w)\<lparr>hb_sub := (hb_sub (hw_hub w))(i \<mapsto> s\<lparr>sb_timeout := (if sb_timeout s = 0 then DefaultDeliverTimeout else sb_timeout s)\<rparr>)\<rparr>)
              (d\<lparr>dl_waiting := True\<rparr>))"
    using s(1,3) t by (simp add: send_step_def)
  consider
    (drop) "drop_packet i s (hw_hub w) d = SendDone h d'"
  | (put) "put_packet pkt i s (hw_hub w) d = SendDone h d'" "length (sb_ch s) < sb_cap s"
  | (stay) "h = hw_hub w" "d' = d"
  | (wait) "h = (hw_hub w)\<lparr>hb_sub := (hb_sub (hw_hub w))(i \<mapsto> s\<lparr>sb_timeout := (if sb_timeout s = 0 then DefaultDeliverTimeout else sb_timeout s)\<rparr>)\<rparr>"
      "d' = d\<lparr>dl_waiting := True\<rparr>"
    using st unfolding eq by (cases "dl_waiting d \<and> fired"; cases "length (sb_ch s) < sb_cap s"; cases "dl_waiting d"; cases "sb_timeout s < 0") simp_all
  then show ?thesis
  proof cases
    case drop
    then show ?thesis
      by (intro gen [where s' = "s\<lparr>sb_dropped := sb_dropped s + 1\<rparr>"]) (use so s(2) t less in \<open>auto simp: drop_packet_def sub_ok_def\<close>)
  next
    case put
    then show ?thesis
      by (intro gen [where s' = "s\<lparr>sb_ch := sb_ch s @ [pkt], sb_delivered := sb_delivered s + 1, sb_bytesIn := sb_bytesIn s + length (pk_raw pkt)\<rparr>"])
        (use so s(2,4,5) t in \<open>auto simp: put_packet_def sub_ok_def\<close>)
  next
    case stay
    then have "w\<lparr>hw_hub := h, hw_calls := xs @ d' # ys\<rparr> = w" using calls by simp
    with ok show ?thesis by simp
  next
    case wait
    then show ?thesis
      by (intro gen [where s' = "s\<lparr>sb_timeout := (if sb_timeout s = 0 then DefaultDeliverTimeout else sb_timeout s)\<rparr>"])
        (use so s(2,5) t in \<open>auto simp: sub_ok_def\<close>)
  qed
qed

lemma no_panic:
  assumes ok: "hub_ok w" and d: "d \<in> set (hw_calls w)" "dl_todo d \<noteq> []"
  shows "send_step fired (hw_hub w) d \<noteq> SendPanic"
proof -
  obtain pkt i rest where t: "dl_todo d = (pkt, i) # rest" using d(2) by (cases "dl_todo d") auto
  obtain xs ys where "hw_calls w = xs @ d # ys" using split_list [OF d(1)] by blast
  from call_target [OF ok this t] obtain s where "hb_sub (hw_hub w) i = Some s" "sb_phase s \<noteq> SubClosed" by blast
  with t show ?thesis by (auto simp: send_step_def drop_packet_def put_packet_def)
qed

lemma hub_ok_step: "hub_step w w' \<Longrightarrow> hub_ok w \<Longrightarrow> hub_ok w'"
proof (induction rule: hub_step.induct)
  case (hs_stop w i s)
  have "hub_ok (w\<lparr>hw_hub := cancel_sub i s (hw_hub w)\<rparr>)"
  proof (rule hub_ok_one_sub [OF hs_stop(3,1), where s' = "s\<lparr>sb_phase := SubStopping\<rparr>"])
    show "hb_sub (cancel_sub i s (hw_hub w)) = (hb_sub (hw_hub w))(i \<mapsto> s\<lparr>sb_phase := SubStopping\<rparr>)"
      by (simp add: cancel_sub_def Let_def split: option.split)
  qed (use hub_table_ok_cancel [OF hub_okD(1) [OF hs_stop(3)] hs_stop(1)] hub_okD(2) [OF hs_stop(3,1)] in \<open>auto simp: sub_ok_def\<close>)
  then show ?case .
next
  case (hs_close w i s)
  let ?s = "s\<lparr>sb_phase := SubClosed\<rparr>"
  have "hub_table_ok ((hw_hub w)\<lparr>hb_sub := (hb_sub (hw_hub w))(i \<mapsto> ?s)\<rparr>)"
    by (rule hub_table_ok_one_sub [OF hub_okD(1) [OF hs_close(4)] hs_close(1), where s' = ?s]) (use hs_close in auto)
  then show ?case
    by (intro hub_ok_one_sub [OF hs_close(4,1), where s' = ?s]) (use hs_close hub_okD(2) [OF hs_close(4,1)] in \<open>auto simp: sub_ok_def\<close>)
next
  case (hs_take w i s p ps)
  let ?s = "s\<lparr>sb_ch := ps, sb_out := sb_out s @ [p]\<rparr>"
  have "hub_table_ok ((hw_hub w)\<lparr>hb_sub := (hb_sub (hw_hub w))(i \<mapsto> ?s)\<rparr>)"
    by (rule hub_table_ok_one_sub [OF hub_okD(1) [OF hs_take(3)] hs_take(1), where s' = ?s]) auto
  then show ?case
    by (intro hub_ok_one_sub [OF hs_take(3,1), where s' = ?s]) (use hs_take hub_okD(2) [OF hs_take(3,1)] in \<open>auto simp: sub_ok_def\<close>)
qed (auto intro: hub_ok_subscribe hub_ok_begin hub_ok_send hub_ok_end dest: no_panic)

lemma hub_ok_reachable: "hub_reachable w \<Longrightarrow> hub_ok w"
  by (induction rule: hub_reachable.induct) (auto intro: hub_ok_start hub_ok_step)

section \<open>What holds in every run\<close>

text \<open>C5: Whatever calls of \<open>Deliver\<close>, stopping sources and consumers do, nobody sends on a closed channel; a subscriber gets only packets
  given for its session, as many as its counter says and no more at a time than its channel holds; and if the batches of
  the session came one after the other it gets them in order.\<close>

theorem hub_keeps_sessions_apart:
  assumes "hub_reachable w" "hb_sub (hw_hub w) i = Some s"
  shows "\<not> hw_panicked w \<and> set (sb_out s @ sb_ch s) \<subseteq> set (hw_given w (sb_session s))
    \<and> sb_delivered s = length (sb_out s @ sb_ch s) \<and> length (sb_ch s) \<le> sb_cap s
    \<and> (hw_serial w (sb_session s) \<longrightarrow> subseq (sb_out s @ sb_ch s) (hw_given w (sb_session s)))"
proof -
  have ok: "hub_ok w" by (rule hub_ok_reachable [OF assms(1)])
  note so = hub_okD(2) [OF ok assms(2), unfolded sub_ok_def]
  have "subseq (sb_out s @ sb_ch s) (hw_given w (sb_session s))" if "hw_serial w (sb_session s)"
  proof -
    have "subseq ((sb_out s @ sb_ch s) @ []) ((sb_out s @ sb_ch s) @ pending_for i (hw_calls w))" by (rule list_emb_append_mono) auto
    with so that show ?thesis by (auto intro: subseq_order.order_trans)
  qed
  with so hub_okD(4) [OF ok] show ?thesis by blast
qed

text \<open>A run: a subscriber with room for one packet that does not wait, a batch of two, and a send.\<close>

definition two_packets :: "packet list" where
  "two_packets = map (\<lambda>i. \<lparr>pk_id = i, pk_time = 0, pk_raw = [7], pk_src = \<lparr>ap_text = [], ap_port = 1, ap_valid = True\<rparr>,
     pk_dst = \<lparr>ap_text = [], ap_port = 2, ap_valid = True\<rparr>, pk_protocol = ''tcp'', pk_meta = []\<rparr>) [''p'', ''q'']"

definition hub_demo1 :: hub_world where "hub_demo1 = hub_start\<lparr>hw_hub := Subscribe_hub ''s1'' 0 1 (- 1) NewHub\<rparr>"
definition hub_demo2 :: hub_world where
  "hub_demo2 = hub_demo1\<lparr>hw_hub := fst (hub_deliver_begin ''s1'' [0] two_packets (hw_hub hub_demo1)),
     hw_calls := [the (snd (hub_deliver_begin ''s1'' [0] two_packets (hw_hub hub_demo1)))], hw_given := (\<lambda>_. [])(''s1'' := two_packets), hw_serial := (\<lambda>_. True)\<rparr>"

lemmas hub_eval = hub_demo1_def hub_demo2_def hub_start_def NewHub_def Subscribe_hub_def subs_of_def hub_deliver_begin_def bump_inflight_def busy_with_def

lemma hub_demo1_reachable: "hub_reachable hub_demo1"
  using hr_step [OF hr_start hs_subscribe [of hub_start 0 "''s1''" 1 "- 1"]] by (simp add: hub_eval)

lemma hub_demo2_reachable: "hub_reachable hub_demo2"
proof -
  have b: "hub_deliver_begin ''s1'' [0] two_packets (hw_hub hub_demo1) = (hw_hub hub_demo2, Some (hd (hw_calls hub_demo2)))"
    by (simp add: hub_eval)
  have "hub_step hub_demo1 hub_demo2"
    using hs_begin [OF _ _ b] by (simp add: hub_eval fun_upd_def)
  then show ?thesis by (rule hr_step [OF hub_demo1_reachable])
qed

lemma hub_demo3_reachable:
  "\<exists>w s. hub_reachable w \<and> hb_sub (hw_hub w) 0 = Some s \<and> map pk_id (sb_out s @ sb_ch s) = [''p''] \<and> sb_session s = ''s1''"
proof -
  obtain d where d: "hw_calls hub_demo2 = [] @ d # []" "dl_todo d = map (\<lambda>p. (p, 0)) two_packets" "\<not> dl_waiting d"
    by (simp add: hub_eval two_packets_def)
  obtain s where s: "hb_sub (hw_hub hub_demo2) 0 = Some s" "sb_ch s = []" "sb_out s = []" "sb_cap s = 1" "sb_phase s = SubLive" "sb_session s = ''s1''"
    by (simp add: hub_eval)
  obtain h d' where sd: "send_step False (hw_hub hub_demo2) d = SendDone h d'" "hb_sub h 0 = Some (s\<lparr>sb_ch := [hd two_packets], sb_delivered := sb_delivered s + 1,
      sb_bytesIn := sb_bytesIn s + length (pk_raw (hd two_packets))\<rparr>)"
    using d s by (auto simp: send_step_def put_packet_def two_packets_def)
  have "hub_reachable (hub_demo2\<lparr>hw_hub := h, hw_calls := [] @ d' # []\<rparr>)"
    using d(2) by (intro hr_step [OF hub_demo2_reachable hs_send [OF d(1) _ sd(1)]]) (simp add: two_packets_def)
  then show ?thesis using sd(2) s by (intro exI [of _ "hub_demo2\<lparr>hw_hub := h, hw_calls := [] @ d' # []\<rparr>"]) (auto simp: two_packets_def)
qed

theorem hub_keeps_sessions_apart_witness:
  "\<exists>w s. hub_reachable w \<and> hb_sub (hw_hub w) 0 = Some s \<and> map pk_id (sb_out s @ sb_ch s) = [''p''] \<and> \<not> hw_panicked w \<and> sb_delivered s = 1"
proof -
  from hub_demo3_reachable obtain w s where w: "hub_reachable w \<and> hb_sub (hw_hub w) 0 = Some s \<and> map pk_id (sb_out s @ sb_ch s) = [''p''] \<and> sb_session s = ''s1''"
    by (elim exE)
  have "length (sb_out s @ sb_ch s) = 1" using arg_cong [of _ _ length, OF conjunct1 [OF conjunct2 [OF conjunct2 [OF w]]]] by simp
  with hub_keeps_sessions_apart [OF conjunct1 [OF w] conjunct1 [OF conjunct2 [OF w]]] w show ?thesis by auto
qed

text \<open>A negative timeout is not the default: a full channel then drops at once.\<close>

lemma negative_timeout_drops:
  assumes "dl_todo d = (pkt, i) # rest" "hb_sub h i = Some s" "sb_phase s \<noteq> SubClosed" "sb_cap s \<le> length (sb_ch s)" "sb_timeout s < 0"
  shows "send_step False h d = (if dl_waiting d then SendDone h d else drop_packet i s h d)"
  using assms by (simp add: send_step_def)

text \<open>Every pair of a packet and a subscriber is counted once, as delivered or as dropped.\<close>

lemma hub_deliver_begin_size:
  "hub_deliver_begin sid order pkts h = (h', Some d) \<Longrightarrow> dl_delivered d + dl_busy d + length (dl_todo d) = length pkts * length order"
  by (auto simp: hub_deliver_begin_def split: if_splits)

lemma send_step_size:
  "send_step fired h d = SendDone h' d' \<Longrightarrow> dl_delivered d' + dl_busy d' + length (dl_todo d') = dl_delivered d + dl_busy d + length (dl_todo d)"
  by (auto simp: send_step_def drop_packet_def put_packet_def split: list.splits prod.splits option.splits if_splits)

end
