(* ===== verification/Ingest_Server.thy ===== *)
theory Ingest_Server imports Hub_Props Access_Token begin

text \<open>
  The stream of an agent on the server (\<open>pkg/capture/agent/server.go\<close>): who may push into which session, the counters of
  the final acknowledgement, and the liveness that tells users whether an agent is connected.  Critical sections of \<open>mu\<close>
  of different streams interleave.
\<close>

section \<open>Liveness\<close>

record session_liveness =
  il_streams :: nat
  il_lastSeen :: gotime

definition live_entry :: "(string \<rightharpoonup> session_liveness) \<Rightarrow> string \<Rightarrow> session_liveness" where
  "live_entry m sid = (case m sid of None \<Rightarrow> \<lparr>il_streams = 0, il_lastSeen = 0\<rparr> | Some l \<Rightarrow> l)"

definition openStream :: "string \<Rightarrow> (string \<rightharpoonup> session_liveness) \<Rightarrow> (string \<rightharpoonup> session_liveness)" where
  "openStream sid m = (let l = live_entry m sid in m(sid \<mapsto> l\<lparr>il_streams := il_streams l + 1\<rparr>))"

definition closeStream :: "string \<Rightarrow> (string \<rightharpoonup> session_liveness) \<Rightarrow> (string \<rightharpoonup> session_liveness)" where
  "closeStream sid m =
    (case m sid of
       None \<Rightarrow> m
     | Some l \<Rightarrow> if 0 < il_streams l then m(sid \<mapsto> l\<lparr>il_streams := il_streams l - 1\<rparr>) else m)"

definition touch_session :: "string \<Rightarrow> gotime \<Rightarrow> (string \<rightharpoonup> session_liveness) \<Rightarrow> (string \<rightharpoonup> session_liveness)" where
  "touch_session sid now m = m(sid \<mapsto> (live_entry m sid)\<lparr>il_lastSeen := now\<rparr>)"

definition SessionLiveness :: "string \<Rightarrow> (string \<rightharpoonup> session_liveness) \<Rightarrow> bool \<times> gotime" where
  "SessionLiveness sid m =
    (if sid = [] then (False, 0)
     else (case m sid of None \<Rightarrow> (False, 0) | Some l \<Rightarrow> (0 < il_streams l, il_lastSeen l)))"

section \<open>Admission\<close>

text \<open>\<open>sessions\<close> gives the owner of a session, \<open>assigned\<close> the probe it is assigned to; either may be absent in a deployment.\<close>

definition authorize :: "(string \<rightharpoonup> string) option \<Rightarrow> (string \<rightharpoonup> string) option \<Rightarrow> string \<Rightarrow> string \<Rightarrow> string \<Rightarrow> bool" where
  "authorize sessions assigned owner sid probe =
    (if sid = [] then False
     else (case sessions of
         None \<Rightarrow> True
       | Some tab \<Rightarrow>
           (case tab sid of
              None \<Rightarrow> False
            | Some so \<Rightarrow>
                (if (if so = [] then AnonymousOwner else so) \<noteq> owner then False
                 else if probe \<noteq> [] \<and> assigned \<noteq> None
                 then (case the assigned sid of None \<Rightarrow> True | Some p \<Rightarrow> p = probe)
                 else True))))"

text \<open>The rule in words.  An empty session id never passes.  Where there is no session table every other id passes; where
  there is one, the session must be in it and belong to the caller, and a caller with a probe id must not push into a
  session assigned to another probe.\<close>

definition may_push :: "(string \<rightharpoonup> string) option \<Rightarrow> (string \<rightharpoonup> string) option \<Rightarrow> string \<Rightarrow> string \<Rightarrow> string \<Rightarrow> bool" where
  "may_push sessions assigned owner sid probe \<longleftrightarrow> sid \<noteq> [] \<and> (\<forall>tab. sessions = Some tab \<longrightarrow>
     (\<exists>so. tab sid = Some so \<and> owner = (if so = [] then AnonymousOwner else so))
     \<and> (\<forall>asg p. probe \<noteq> [] \<and> assigned = Some asg \<and> asg sid = Some p \<longrightarrow> p = probe))"

lemma authorize_iff: "authorize sessions assigned owner sid probe \<longleftrightarrow> may_push sessions assigned owner sid probe"
  by (auto simp: authorize_def may_push_def split: option.splits if_splits)

section \<open>Frames\<close>

record proto_packet =
  pp_id :: string
  pp_raw :: "byte list"
  pp_protocol :: string
  pp_timestamp_ns :: int
  pp_src :: string
  pp_dst :: string
  pp_metadata :: "(string \<times> string) list"

definition unix_zero :: int where "unix_zero = 62135596800000000000"

definition no_endpoint :: endpoint where "no_endpoint = \<lparr>ap_text = ''invalid AddrPort'', ap_port = 0, ap_valid = False\<rparr>"

text \<open>\<open>parse\<close> is \<open>netip.ParseAddrPort\<close>.\<close>

definition packetFromProto :: "(string \<Rightarrow> endpoint option) \<Rightarrow> proto_packet \<Rightarrow> string \<Rightarrow> packet" where
  "packetFromProto parse rp iface =
    \<lparr>pk_id = pp_id rp,
     pk_time = (if 0 < pp_timestamp_ns rp then unix_zero + pp_timestamp_ns rp else 0),
     pk_raw = pp_raw rp,
     pk_src = (case parse (pp_src rp) of None \<Rightarrow> no_endpoint | Some a \<Rightarrow> a),
     pk_dst = (case parse (pp_dst rp) of None \<Rightarrow> no_endpoint | Some a \<Rightarrow> a),
     pk_protocol = pp_protocol rp,
     pk_meta = (let m = map (\<lambda>(k, v). (k, GString v)) (pp_metadata rp)
                in if iface = [] then m else (''interface'', GString iface) # filter (\<lambda>(k, v). k \<noteq> ''interface'') m)\<rparr>"

section \<open>A stream\<close>

record push_stream =
  ps_owner :: string
  ps_probe :: string
  ps_bound :: string
  ps_batches :: nat
  ps_packets :: nat
  ps_delivered :: nat
  ps_dropped :: nat
  ps_rejected :: nat

text \<open>\<open>declared\<close> is the session in the metadata of the stream, empty if there is none.\<close>

definition push_open :: "string \<Rightarrow> string \<Rightarrow> string \<Rightarrow> (string \<rightharpoonup> session_liveness) \<Rightarrow> push_stream \<times> (string \<rightharpoonup> session_liveness)" where
  "push_open owner probe declared m =
    (\<lparr>ps_owner = owner, ps_probe = probe, ps_bound = declared, ps_batches = 0, ps_packets = 0, ps_delivered = 0, ps_dropped = 0, ps_rejected = 0\<rparr>,
     if declared = [] then m else openStream declared m)"

text \<open>A batch, the tables at that moment, and what \<open>Deliver\<close> gave for it: delivered, dropped because busy, without subscriber.\<close>

record push_event =
  pe_sessions :: "(string \<rightharpoonup> string) option"
  pe_assigned :: "(string \<rightharpoonup> string) option"
  pe_now :: gotime
  pe_session :: string
  pe_pkts :: "packet list"
  pe_result :: "nat \<times> nat \<times> nat"

definition event_allowed :: "push_stream \<Rightarrow> push_event \<Rightarrow> bool" where
  "event_allowed ps e = authorize (pe_sessions e) (pe_assigned e) (ps_owner ps) (pe_session e) (ps_probe ps)"

definition push_batch :: "push_event \<Rightarrow> push_stream \<times> (string \<rightharpoonup> session_liveness) \<Rightarrow> push_stream \<times> (string \<rightharpoonup> session_liveness)" where
  "push_batch e = (\<lambda>(ps, m).
    let ps1 = ps\<lparr>ps_batches := ps_batches ps + 1\<rparr>; sid = pe_session e in
    if \<not> event_allowed ps e then (ps1\<lparr>ps_rejected := ps_rejected ps1 + 1\<rparr>, m)
    else
      (let ps2 = ps1\<lparr>ps_packets := ps_packets ps1 + length (pe_pkts e)\<rparr>;
           (ps3, m1) = (if ps_bound ps2 = [] then (ps2\<lparr>ps_bound := sid\<rparr>, openStream sid m) else (ps2, m));
           m2 = (if pe_pkts e \<noteq> [] then touch_session sid (pe_now e) m1 else m1);
           (d, busy, noSub) = pe_result e
       in (ps3\<lparr>ps_delivered := ps_delivered ps3 + d, ps_dropped := ps_dropped ps3 + (busy + noSub)\<rparr>, m2)))"

definition push_end :: "push_stream \<Rightarrow> (string \<rightharpoonup> session_liveness) \<Rightarrow> (string \<rightharpoonup> session_liveness)" where
  "push_end ps m = (if ps_bound ps = [] then m else closeStream (ps_bound ps) m)"

section \<open>Streams together\<close>

record ingest_server =
  is_live :: "string \<rightharpoonup> session_liveness"
  is_streams :: "push_stream list"

definition NewIngestServer :: ingest_server where "NewIngestServer = \<lparr>is_live = Map.empty, is_streams = []\<rparr>"

inductive server_step :: "ingest_server \<Rightarrow> ingest_server \<Rightarrow> bool" where
  sv_open: "push_open owner probe declared (is_live s) = (ps, m) \<Longrightarrow> server_step s \<lparr>is_live = m, is_streams = ps # is_streams s\<rparr>"
| sv_batch: "is_streams s = xs @ ps # ys \<Longrightarrow> push_batch e (ps, is_live s) = (ps', m) \<Longrightarrow> server_step s \<lparr>is_live = m, is_streams = xs @ ps' # ys\<rparr>"
| sv_end: "is_streams s = xs @ ps # ys \<Longrightarrow> server_step s \<lparr>is_live = push_end ps (is_live s), is_streams = xs @ ys\<rparr>"

inductive server_reachable :: "ingest_server \<Rightarrow> bool" where
  sr_start: "server_reachable NewIngestServer"
| sr_step: "server_reachable s \<Longrightarrow> server_step s s' \<Longrightarrow> server_reachable s'"

section \<open>Connected means a stream is bound\<close>

definition bound_to :: "string \<Rightarrow> push_stream list \<Rightarrow> nat" where
  "bound_to sid pss = length (filter (\<lambda>ps. ps_bound ps = sid) pss)"

definition server_ok :: "ingest_server \<Rightarrow> bool" where
  "server_ok s \<longleftrightarrow> (\<forall>sid. sid \<noteq> [] \<longrightarrow> il_streams (live_entry (is_live s) sid) = bound_to sid (is_streams s))"

lemma bound_to_simps [simp]:
  "bound_to sid [] = 0" "bound_to sid (ps # pss) = (if ps_bound ps = sid then 1 else 0) + bound_to sid pss"
  "bound_to sid (xs @ ys) = bound_to sid xs + bound_to sid ys"
  by (simp_all add: bound_to_def)

lemma live_entry_ops [simp]:
  "il_streams (live_entry (openStream sid m) x) = il_streams (live_entry m x) + (if x = sid then 1 else 0)"
  "il_streams (live_entry (closeStream sid m) x) = il_streams (live_entry m x) - (if x = sid then 1 else 0)"
  "il_streams (live_entry (touch_session sid now m) x) = il_streams (live_entry m x)"
  by (auto simp: openStream_def closeStream_def touch_session_def live_entry_def Let_def split: option.splits)

lemma push_batch_bound:
  "push_batch e (ps, m) = (ps', m') \<Longrightarrow>
    (ps_bound ps' = ps_bound ps \<and> (\<forall>x. il_streams (live_entry m' x) = il_streams (live_entry m x)))
    \<or> (ps_bound ps = [] \<and> ps_bound ps' \<noteq> [] \<and> (\<forall>x. il_streams (live_entry m' x) = il_streams (live_entry m x) + (if x = ps_bound ps' then 1 else 0)))"
  by (auto simp: push_batch_def Let_def event_allowed_def authorize_def split: if_splits prod.splits)

lemma server_ok_step: "server_step s s' \<Longrightarrow> server_ok s \<Longrightarrow> server_ok s'"
proof (induction rule: server_step.induct)
  case (sv_open owner probe declared s ps m)
  then show ?case by (auto simp: server_ok_def push_open_def)
next
  case (sv_batch s xs ps ys e ps' m)
  from push_batch_bound [OF sv_batch(2)] sv_batch(1,3) show ?case by (auto simp: server_ok_def)
next
  case (sv_end s xs ps ys)
  then show ?case by (auto simp: server_ok_def push_end_def)
qed

lemma server_ok_start: "server_ok NewIngestServer"
  by (simp add: server_ok_def NewIngestServer_def live_entry_def)

lemma server_ok_reachable: "server_reachable s \<Longrightarrow> server_ok s"
  by (induction rule: server_reachable.induct) (auto intro: server_ok_step server_ok_start)

text \<open>C23: However streams open, push and end, a session is reported as connected exactly when an open stream is bound to it.\<close>

theorem connected_iff_bound:
  assumes "server_reachable s"
  shows "fst (SessionLiveness sid (is_live s)) \<longleftrightarrow> sid \<noteq> [] \<and> (\<exists>ps \<in> set (is_streams s). ps_bound ps = sid)"
proof -
  have "sid \<noteq> [] \<Longrightarrow> il_streams (live_entry (is_live s) sid) = bound_to sid (is_streams s)"
    using server_ok_reachable [OF assms] by (simp add: server_ok_def)
  then show ?thesis
    by (auto simp: SessionLiveness_def live_entry_def bound_to_def filter_empty_conv split: option.splits)
qed

text \<open>A stream that only declares a session is bound to it before anything was authorised, whoever owns the session.\<close>

definition intruder :: ingest_server where
  "intruder = \<lparr>is_live = snd (push_open ''mallory'' [] ''s1'' Map.empty), is_streams = [fst (push_open ''mallory'' [] ''s1'' Map.empty)]\<rparr>"

lemma intruder_reachable: "server_reachable intruder"
proof -
  have "server_step NewIngestServer intruder"
    unfolding intruder_def using sv_open [of "''mallory''" "[]" "''s1''" NewIngestServer] by (simp add: NewIngestServer_def)
  then show ?thesis by (rule sr_step [OF sr_start])
qed

theorem connected_iff_bound_witness: "fst (SessionLiveness ''s1'' (is_live intruder)) \<and> \<not> authorize (Some [''s1'' \<mapsto> ''alice'']) None ''mallory'' ''s1'' []"
  using connected_iff_bound [OF intruder_reachable, of "''s1''"] by (simp add: authorize_def intruder_def push_open_def)

section \<open>The acknowledgement\<close>

definition push_all :: "push_event list \<Rightarrow> push_stream \<times> (string \<rightharpoonup> session_liveness) \<Rightarrow> push_stream \<times> (string \<rightharpoonup> session_liveness)" where
  "push_all es st = fold push_batch es st"

lemma push_batch_counts:
  assumes "push_batch e (ps, m) = (ps', m')"
  shows "ps_owner ps' = ps_owner ps" "ps_probe ps' = ps_probe ps" "ps_batches ps' = ps_batches ps + 1"
    "ps_rejected ps' = ps_rejected ps + (if event_allowed ps e then 0 else 1)"
    "ps_packets ps' = ps_packets ps + (if event_allowed ps e then length (pe_pkts e) else 0)"
    "ps_delivered ps' = ps_delivered ps + (if event_allowed ps e then fst (pe_result e) else 0)"
    "ps_dropped ps' = ps_dropped ps + (if event_allowed ps e then fst (snd (pe_result e)) + snd (snd (pe_result e)) else 0)"
  using assms by (auto simp: push_batch_def Let_def split: if_splits prod.splits)

text \<open>What \<open>Deliver\<close> may return for a batch when the session has \<open>n\<close> subscribers at that moment.  Between two of its
  sends the hub may change in any way: every send takes place on some hub.\<close>

definition send_next :: "delivery \<Rightarrow> delivery \<Rightarrow> bool" where
  "send_next d d' \<longleftrightarrow> (\<exists>fired h h'. send_step fired h d = SendDone h' d')"

definition deliver_returns :: "nat \<Rightarrow> string \<Rightarrow> packet list \<Rightarrow> nat \<times> nat \<times> nat \<Rightarrow> bool" where
  "deliver_returns n sid pkts r \<longleftrightarrow> (\<exists>h h' c order. hub_deliver_begin sid order pkts h = (h', c) \<and>
     distinct order \<and> set order = set (subs_of h sid) \<and> length order = n \<and>
     (case c of None \<Rightarrow> r = (0, 0, length pkts)
      | Some d \<Rightarrow> \<exists>d'. send_next\<^sup>*\<^sup>* d d' \<and> dl_todo d' = [] \<and> r = (dl_delivered d', dl_busy d', 0)))"

lemma send_next_size:
  "send_next\<^sup>*\<^sup>* d d' \<Longrightarrow> dl_delivered d' + dl_busy d' + length (dl_todo d') = dl_delivered d + dl_busy d + length (dl_todo d)"
  by (induction rule: rtranclp_induct) (auto simp: send_next_def dest: send_step_size)

lemma deliver_returns_size:
  assumes "deliver_returns n sid pkts (d, busy, none)"
  shows "d + (busy + none) = length pkts * max 1 n" "d \<le> length pkts * n"
proof -
  obtain h h' c order where b: "hub_deliver_begin sid order pkts h = (h', c)" and n: "set order = set (subs_of h sid)" "length order = n"
    and r: "case c of None \<Rightarrow> (d, busy, none) = (0, 0, length pkts)
      | Some dl \<Rightarrow> \<exists>dl'. send_next\<^sup>*\<^sup>* dl dl' \<and> dl_todo dl' = [] \<and> (d, busy, none) = (dl_delivered dl', dl_busy dl', 0)"
    using assms unfolding deliver_returns_def by blast
  have "d + (busy + none) = length pkts * max 1 n \<and> d \<le> length pkts * n"
  proof (cases c)
    case None
    then have "subs_of h sid = []" using b by (auto simp: hub_deliver_begin_def split: if_splits)
    then have "n = 0" using n by simp
    then show ?thesis using r None by simp
  next
    case (Some dl)
    then obtain dl' where s: "send_next\<^sup>*\<^sup>* dl dl'" "dl_todo dl' = []" "d = dl_delivered dl'" "busy = dl_busy dl'" "none = 0"
      using r by auto
    have "subs_of h sid \<noteq> []" using b Some by (auto simp: hub_deliver_begin_def split: if_splits)
    then have "1 \<le> n" using n by (cases order) auto
    then show ?thesis using send_next_size [OF s(1)] hub_deliver_begin_size [of sid order pkts h h' dl] b Some s n by simp
  qed
  then show "d + (busy + none) = length pkts * max 1 n" "d \<le> length pkts * n" by blast+
qed

text \<open>C24: the final acknowledgement accounts for everything pushed on the stream.  Every batch is counted; the rejected
  ones are exactly those that \<open>may_push\<close> forbids: an empty session id, and in a deployment with a session table a
  session that is not in it, is not the caller's, or is assigned to another probe than the caller (callers without
  a probe id are not held against the assignments, and without a session table only the empty id is rejected).  Only
  packets of accepted batches are counted, and each of them ends up as delivered or dropped once per subscriber its
  session had at that moment, or as dropped once when it had none, in whatever way the hub changed while \<open>Deliver\<close>
  ran.\<close>

theorem push_ack_counts:
  fixes es :: "push_event list" and owner probe :: string
  defines "accepted \<equiv> filter (\<lambda>e. may_push (pe_sessions e) (pe_assigned e) owner (pe_session e) probe) es"
  assumes "push_all es (push_open owner probe declared m) = (ps, m')"
    and "\<forall>e \<in> set es. deliver_returns (subs e) (pe_session e) (pe_pkts e) (pe_result e)"
  shows "ps_batches ps = length es
    \<and> ps_rejected ps = length (filter (\<lambda>e. \<not> may_push (pe_sessions e) (pe_assigned e) owner (pe_session e) probe) es)
    \<and> ps_packets ps = (\<Sum>e\<leftarrow>accepted. length (pe_pkts e))
    \<and> ps_delivered ps + ps_dropped ps = (\<Sum>e\<leftarrow>accepted. length (pe_pkts e) * max 1 (subs e))
    \<and> ps_delivered ps \<le> (\<Sum>e\<leftarrow>accepted. length (pe_pkts e) * subs e)"
proof -
  have gen: "fold push_batch es (qs, n) = (qs', n') \<Longrightarrow>
      \<forall>e \<in> set es. deliver_returns (subs e) (pe_session e) (pe_pkts e) (pe_result e) \<Longrightarrow>
      ps_batches qs' = ps_batches qs + length es
      \<and> ps_rejected qs' = ps_rejected qs + length (filter (\<lambda>e. \<not> event_allowed qs e) es)
      \<and> ps_packets qs' = ps_packets qs + (\<Sum>e\<leftarrow>filter (event_allowed qs) es. length (pe_pkts e))
      \<and> ps_delivered qs' + ps_dropped qs' = ps_delivered qs + ps_dropped qs + (\<Sum>e\<leftarrow>filter (event_allowed qs) es. length (pe_pkts e) * max 1 (subs e))
      \<and> ps_delivered qs' \<le> ps_delivered qs + (\<Sum>e\<leftarrow>filter (event_allowed qs) es. length (pe_pkts e) * subs e)" for qs n qs' n'
  proof (induction es arbitrary: qs n)
    case (Cons e es)
    obtain q1 n1 where b: "push_batch e (qs, n) = (q1, n1)" by force
    note c = push_batch_counts [OF b]
    have "event_allowed q1 = event_allowed qs" using c by (simp add: event_allowed_def fun_eq_iff)
    moreover obtain d busy none where r: "pe_result e = (d, busy, none)" by (cases "pe_result e")
    moreover have "deliver_returns (subs e) (pe_session e) (pe_pkts e) (d, busy, none)" using Cons.prems(2) r by force
    note deliver_returns_size [OF this]
    ultimately show ?case using Cons.IH [of q1 n1] Cons.prems c by (auto simp: b)
  qed simp
  let ?q = "\<lparr>ps_owner = owner, ps_probe = probe, ps_bound = declared, ps_batches = 0, ps_packets = 0, ps_delivered = 0, ps_dropped = 0, ps_rejected = 0\<rparr>"
  obtain n where "push_open owner probe declared m = (?q, n)" by (simp add: push_open_def)
  then have f: "fold push_batch es (?q, n) = (ps, m')" using assms(2) by (simp add: push_all_def)
  have "event_allowed ?q = (\<lambda>e. may_push (pe_sessions e) (pe_assigned e) owner (pe_session e) probe)"
    by (simp add: event_allowed_def fun_eq_iff authorize_iff)
  then show ?thesis using gen [OF f assms(3)] by (simp add: accepted_def)
qed

text \<open>Two batches of an agent: one for a session of somebody else, one for its own, without a subscriber.\<close>

definition two_batches :: "push_event list" where
  "two_batches = (let tab = Some [''s1'' \<mapsto> ''alice'', ''s2'' \<mapsto> ''bob''] in
     [\<lparr>pe_sessions = tab, pe_assigned = None, pe_now = 1, pe_session = ''s1'', pe_pkts = two_packets, pe_result = (0, 0, 2)\<rparr>,
      \<lparr>pe_sessions = tab, pe_assigned = None, pe_now = 2, pe_session = ''s2'', pe_pkts = two_packets, pe_result = (1, 1, 0)\<rparr>])"

text \<open>The second session has one subscriber, with room for one packet and no patience.\<close>

definition one_sent :: delivery where
  "one_sent = \<lparr>dl_session = ''s2'', dl_subs = [0], dl_todo = tl (List.product two_packets [0]), dl_waiting = False,
     dl_delivered = 1, dl_busy = 0\<rparr>"

definition one_dropped :: delivery where
  "one_dropped = \<lparr>dl_session = ''s2'', dl_subs = [0], dl_todo = [], dl_waiting = False, dl_delivered = 1, dl_busy = 1\<rparr>"

lemma full_after_one: "deliver_returns 1 ''s2'' two_packets (1, 1, 0)"
proof -
  let ?h = "Subscribe_hub ''s2'' 0 1 (-1) NewHub"
  let ?d = "\<lparr>dl_session = ''s2'', dl_subs = [0], dl_todo = List.product two_packets [0], dl_waiting = False, dl_delivered = 0, dl_busy = 0\<rparr>"
  have s: "subs_of ?h ''s2'' = [0]" by (simp add: Subscribe_hub_def subs_of_def NewHub_def)
  then have b: "hub_deliver_begin ''s2'' [0] two_packets ?h = (bump_inflight Suc [0] ?h, Some ?d)"
    by (simp add: hub_deliver_begin_def)
  have "send_next ?d one_sent" unfolding send_next_def
    by (rule exI [of _ False], rule exI [of _ ?h])
      (simp add: send_step_def put_packet_def Subscribe_hub_def two_packets_def one_sent_def)
  moreover have "send_next one_sent one_dropped" unfolding send_next_def
    by (rule exI [of _ False], rule exI [of _ "Subscribe_hub ''s2'' 0 0 (-1) NewHub"])
      (simp add: send_step_def drop_packet_def Subscribe_hub_def two_packets_def one_sent_def one_dropped_def)
  ultimately have "send_next\<^sup>*\<^sup>* ?d one_dropped" by (meson rtranclp.rtrancl_into_rtrancl rtranclp.rtrancl_refl)
  moreover have "(1, 1, 0) = (dl_delivered one_dropped, dl_busy one_dropped, 0)" "dl_todo one_dropped = []"
    by (simp_all add: one_dropped_def)
  ultimately have "\<exists>d'. send_next\<^sup>*\<^sup>* ?d d' \<and> dl_todo d' = [] \<and> (1, 1, 0) = (dl_delivered d', dl_busy d', 0)" by blast
  with b s show ?thesis unfolding deliver_returns_def
    by (intro exI [of _ ?h] exI [of _ "bump_inflight Suc [0] ?h"] exI [of _ "Some ?d"] exI [of _ "[0]"]) simp
qed

lemma nobody_there: "deliver_returns 0 sid pkts (0, 0, length pkts)"
  unfolding deliver_returns_def
  by (rule exI [of _ NewHub], rule exI, rule exI [of _ None], rule exI [of _ "[]"])
    (simp add: hub_deliver_begin_def subs_of_def NewHub_def)

theorem push_ack_counts_witness:
  "\<exists>ps m. push_all two_batches (push_open ''bob'' [] ''s2'' Map.empty) = (ps, m) \<and> ps_batches ps = 2 \<and> ps_rejected ps = 1 \<and> ps_packets ps = 2 \<and>
     ps_delivered ps + ps_dropped ps = 2"
proof -
  obtain ps m where e: "push_all two_batches (push_open ''bob'' [] ''s2'' Map.empty) = (ps, m)" by force
  let ?n = "\<lambda>e. if pe_session e = ''s2'' then 1 else 0"
  have two: "length two_packets = 2" by (simp add: two_packets_def)
  have "\<forall>e \<in> set two_batches. deliver_returns (?n e) (pe_session e) (pe_pkts e) (pe_result e)"
    using full_after_one nobody_there [of "''s1''" two_packets] two by (simp add: two_batches_def Let_def)
  from push_ack_counts [OF e this] e show ?thesis by (simp add: two_batches_def may_push_def Let_def two_packets_def)
qed

end
