(* ===== verification/Spec2Isabelle.thy ===== *)
theory Spec2Isabelle imports Godot_Variant_Props Godot_Wire_Container Godot_World_Flow Agent_Ingest Probe_Register
  Plugin_Registry_Props Plugin_Tunnel_Props State_Props Analyze_Props Protocol_Props Dispatch_Props Lease_Serial Capture_Props Capture_Decoder Ingest_Server begin

text \<open>
  A model of GameTrace, a system that captures the network traffic of games, decodes it with plugins and serves the
  result to tools.  Its parts, under \<open>src/\<close>: agents on the machines of players (\<open>cmd/gt-agent\<close>) capture packets and
  keep them in a disk queue (\<open>pkg/spool\<close>) until the server has confirmed them; the pipeline (\<open>cmd/gt-pipeline\<close>) takes
  the packets, hands them to decoder plugins (\<open>plugins/godot-world\<close> is one) and stores their events; \<open>cmd/gt-mcp\<close> is
  what users talk to, and keeps projects, users and access codes; probes (\<open>pkg/probe\<close>) are agents that the server
  controls from afar.  Who may do what is decided in \<open>pkg/authz\<close> for identities resolved by \<open>pkg/auth\<close>.

  The definitions carry the names of the Go code (suffixed where HOL has the name), and follow it branch by branch.
  Machine integers are words where they can wrap; a panic, an error and a mutex that is never released are values of
  the results; files, tables and maps are explicit state; the time, random bytes, answers of other processes and the
  order in which Go visits a map are arguments.

  \<^bold>\<open>Prelude.\<close>  \<open>Gt_Base\<close>: bytes and words, results that may panic, decimal texts, joins.  \<open>Gt_Text\<close>: what Go's packages
  for strings do on texts; \<open>Gt_Float\<close>: 64-bit floats as an exact type with their comparisons and conversions.

  \<^bold>\<open>The Godot decoder\<close> (\<open>plugins/godot-world\<close>).
  \<^item> \<open>Godot_Variant\<close> is \<open>variant.go\<close>; \<open>Godot_Variant_Safe\<close>, \<open>_Codec\<close>, \<open>_Props\<close> show that it ends without panic on any
    bytes and inverts Godot's encoding in both forms.  Nested values recurse with the length of the buffer plus one as
    fuel; \<open>decode_variant_full_no_fuel\<close> shows that it never runs out.
  \<^item> \<open>Godot_Wire\<close> is \<open>wire.go\<close>, the state-sync codec over a path registry; \<open>_Half\<close> states what its half-precision
    conversion computes, \<open>_Safe\<close> totality, \<open>_Codec\<close> and \<open>_Container\<close> round trips of bootstraps, deltas and containers.
  \<^item> \<open>Godot_Sm\<close> is \<open>sm.go\<close>, \<open>Godot_Ws\<close> is \<open>ws.go\<close> (64-bit lengths as words, so that the negative length of an oversized
    frame is a panic of the model), with totality, remote calls, and (\<open>Godot_Ws_Props\<close>) streams of whole frames
    against an RFC 6455 encoder of its own.
  \<^item> \<open>Godot_World\<close> is \<open>decode.go\<close>: flow table, resynchronisation, the Decode loop.  The loop has as fuel the bytes buffered
    plus one; \<open>decode_loop_outcome\<close> shows that this is enough.  The SDK's packet framing is a parameter.

  \<^bold>\<open>The upload queue\<close> (\<open>pkg/spool\<close>, \<open>cmd/gt-agent/ingest.go\<close>).
  \<^item> \<open>Spool_Queue\<close> and \<open>Spool_Retention\<close> are \<open>queue.go\<close> and \<open>retention.go\<close> over an explicit directory of segments, a
    cursor and metadata.  \<open>Spool_Inv\<close> is the invariant that ties the index in memory to the bytes on disk, \<open>Spool_Read\<close>
    and \<open>Spool_Recover\<close> its preservation by reading, acknowledging and recovery.
  \<^item> \<open>Spool_Spec\<close> states what a client relies on as the locale \<open>ack_queue\<close>, an acknowledged list, and interprets it on
    the model; \<open>Spool_Props\<close> is the refinement, \<open>Spool_Crash\<close> a crash at any byte of a write, as far as the segments behind the stored cursor are
    there, \<open>Spool_Faults\<close> the loss when they are not; \<open>Spool_Archive\<close> and \<open>Spool_Readback\<close> retention and the archive.
  \<^item> \<open>Agent_Ingest\<close> is the upload loop as a step relation over any \<open>ack_queue\<close>: nothing is lost in any run, and with a
    working stream as many turns as there are packets empty the queue.

  \<^bold>\<open>The other end\<close> (\<open>pkg/capture/agent\<close>).
  \<^item> \<open>Ingest_Hub\<close> is the hub that hands frames to the capture sources: deliveries, waiting sends, stopping sources and
    consumers as a step relation.  \<open>Hub_Props\<close> shows that nobody sends on a closed channel and that sessions stay apart.
  \<^item> \<open>Ingest_Server\<close> is the stream of an agent: admission, counters of the acknowledgement over what the hub's
    deliveries return, and liveness.

  \<^bold>\<open>Identities and rights\<close> (\<open>pkg/auth\<close>, \<open>pkg/authz\<close>, \<open>cmd/gt-mcp\<close>).
  \<^item> \<open>Access_Policy\<close> is \<open>authz.go\<close>, equal to a permission matrix given as rules; roles are a linear order.
  \<^item> \<open>Access_Token\<close> is the token table, the user table as a resolver, and the chain; \<open>Access_Token_Props\<close> the parsing of
    the configuration; \<open>Access_Resolver\<close> the contract \<open>token_resolver\<close> that the HTTP middleware and the gRPC interceptor
    rely on, interpreted on the static table and on the chain, with the entry points that look for identities once at
    their start and the one that does at every call.
  \<^item> \<open>Access_Project\<close> is \<open>project_store.go\<close>, \<open>project.go\<close> and \<open>authz.go\<close> of \<open>gt-mcp\<close>: two tables, the authorizer and
    every handler that changes them.  \<open>Access_Project_Props\<close> has the invariant of the tables and who can change
    roles, \<open>Access_Project_Flow\<close> transfers, interleaved updates and removed members.
  \<^item> \<open>Access_Users\<close> is \<open>user_store.go\<close>, \<open>register.go\<close> and \<open>access_code.go\<close>; \<open>Access_Users_Props\<close> and \<open>Access_Invite\<close> state
    what a claimed code grants, and where it grants too much or is lost.

  \<^bold>\<open>Probes\<close> (\<open>pkg/probe\<close>, \<open>pkg/store/probe_store.go\<close>).
  \<^item> \<open>Probe_Store\<close> is the two tables, \<open>Probe_Manager\<close> the manager with its mutex: an operation is a function that yields a
    result or waits for ever; \<open>Probe_Server\<close> is registration, control stream, upload and resolver.
  \<^item> \<open>Probe_Props\<close> says when the calls return and what a late end of a stream does, \<open>Probe_Register\<close> what a
    registration means for its owner and for a deployment without tokens, and what a call without a token gets.

  \<^bold>\<open>Plugin registry and tunnel\<close> (\<open>pkg/plugin\<close>, \<open>pkg/schema\<close>).
  \<^item> \<open>Plugin_Version\<close> is the version handshake, the manifest and the schema registry built from it; what the plugin SDK
    computes is the record \<open>sdk\<close>, an argument.
  \<^item> \<open>Plugin_Registry\<close> is \<open>manager.go\<close> with the pairing of tunnels and registrations: every operation on the tables under
    the lock.  \<open>Plugin_Registry_Inv\<close> is the invariant of the tables, \<open>_Run\<close> its preservation by every operation in any
    order, \<open>_Props\<close> lookup, isolation of owners, pairing, the scan and the event buffer.
  \<^item> \<open>Plugin_Tunnel\<close> is one tunnel session with its decode streams as a step relation: the goroutines of the caller, the
    dispatcher and the watcher interleave between locks.  \<open>_Inv\<close> relates what was sent, queued and received; \<open>_Props\<close>
    shows that the end of a stream means that it was complete, and that nobody waits on a closed tunnel.

  \<^bold>\<open>Events, values and baselines\<close> (\<open>pkg/event\<close>, \<open>pkg/state\<close>).
  \<^item> \<open>Event_Value\<close> is the value tree of events with its equality, paths and object updates, \<open>Event_Value_Props\<close> its laws,
    \<open>Event_Id\<close> the generator of identifiers and their order, \<open>Event_Model\<close> the event and its parts.
  \<^item> \<open>State_Baseline\<close> is the projection of state changes with the baseline of every entity, \<open>State_Props\<close> that the value it
    reports as the old one is the last one it was told, and what an error leaves behind.

  \<^bold>\<open>Analysis rules\<close> (\<open>pkg/analyze\<close>, \<open>cmd/gt-pipeline/rule_contract.go\<close>).
  \<^item> \<open>Analyze_Agg\<close> are the aggregators with their windows, \<open>Analyze_Windows\<close> what they emit against a list of windows,
    \<open>Analyze_Rule\<close> the rules and the engine, \<open>Analyze_Props\<close> counting per group and window over any flushes, sums, and
    what an error stops.

  \<^bold>\<open>Protocol behaviour\<close> (\<open>pkg/protocol\<close>).
  \<^item> \<open>Recent_Index\<close> is the store of pending requests, \<open>Protocol_Resolver\<close> the matching of requests and responses;
    \<open>Protocol_Props\<close> shows which request a response finds.

  \<^bold>\<open>Decoding in the pipeline\<close> (\<open>pkg/decode\<close>, \<open>cmd/gt-pipeline\<close>).
  \<^item> \<open>Decode_Flow\<close> are packets, connection identifiers and flows.  \<open>Decode_Dispatcher\<close> is the dispatcher as a step relation
    of its callers and its receiver; \<open>Dispatch_Props\<close> shows that a future is resolved once, with the results of its own
    packet, and that none is left when the stream ends.
  \<^item> \<open>Capture_Queue\<close> is the way of packets from the capture to the worker and of events to the database: overflow queue,
    channel, worker, write buffers.  The worker is an argument, a schedule that says how many packets it takes before each
    send.  \<open>Capture_Props\<close> shows order and accounting of packets and events, and that every write happens once.
  \<^item> \<open>Capture_Decoder\<close> is the choice of the decoder of a session over the registry of \<open>Plugin_Registry\<close>.

  \<^bold>\<open>Proxy leases\<close> (\<open>cmd/gt-pipeline/proxy_lease.go\<close>).
  \<^item> \<open>Proxy_Ports\<close> is a range of ports with the contract \<open>pool\<close> and its interpretation; \<open>Proxy_Lease\<close> the lease table
    and every handler.  \<open>Lease_Props\<close> has their critical sections as a step relation and
    shows that no port is shared in any interleaving, \<open>Lease_Serial\<close> that served one by one no port is
    lost, and which interleaving loses one.

  \<^bold>\<open>Not modelled.\<close>  Generated protocol code, gRPC, SQL text and a failing database, libpcap, subprocesses, the web page
  and the texts of answers: they are outside the language or only called.  Interleavings finer than one operation
  are modelled only where a theorem speaks of them.  Running out of memory is not modelled.  Of the system's own code, offline
  decoding, the tools of \<open>gt-mcp\<close> that read databases and the development kit are not modelled: they connect
  the parts above with streams, files and processes.
\<close>

end
